(* ===== verification/Prelude.thy ===== *)
theory Prelude
  imports Main "HOL-Library.Word"
begin

text \<open>
  Shared vocabulary of the development.

  \<^item> The machine integers of \<open>src/common/Define.h\<close> (\<open>uint8\<close>, \<open>uint32\<close>, \<dots>) are words of
    that width; signed integers are words read by \<open>sint\<close>.
  \<^item> \<open>std::map\<close> and \<open>std::set\<close> iterate in key order, and the code depends on that order
    (the first member of a channel becomes its owner, the smallest permission is expanded
    first). They are association lists and lists kept strictly sorted by key; the locale
    \<open>std_map\<close> states the laws the components use, and is interpreted on that model.
  \<^item> The locale \<open>transition_system\<close> lifts an invariant from one operation to every run.
\<close>

unbundle bit_operations_syntax

type_synonym u8 = "8 word"
type_synonym u16 = "16 word"
type_synonym u32 = "32 word"
type_synonym u64 = "64 word"
type_synonym i32 = "32 word" \<comment> \<open>\<open>int32\<close>: two's complement, read by \<open>sint\<close>\<close>

named_theorems model_defs "definitions a component unfolds in its own proofs"
named_theorems inv_lemmas "one operation keeps the component's invariant"

section \<open>Ordered maps: \<open>std::map\<close>\<close>

type_synonym ('k, 'v) omap = "('k \<times> 'v) list"

definition om_inv :: "('k::linorder, 'v) omap \<Rightarrow> bool" where
  "om_inv m \<longleftrightarrow> sorted_wrt (<) (map fst m)"

text \<open>\<open>m[k] = v\<close>: the entry of \<open>k\<close> is replaced, or inserted at its place in the order.\<close>

fun om_set :: "'k::linorder \<Rightarrow> 'v \<Rightarrow> ('k, 'v) omap \<Rightarrow> ('k, 'v) omap" where
  "om_set k v [] = [(k, v)]"
| "om_set k v ((a, b) # m) =
     (if k < a then (k, v) # (a, b) # m
      else if k = a then (k, v) # m
      else (a, b) # om_set k v m)"

text \<open>\<open>m.erase(k)\<close>\<close>

definition om_del :: "'k \<Rightarrow> ('k, 'v) omap \<Rightarrow> ('k, 'v) omap" where
  "om_del k m = filter (\<lambda>p. fst p \<noteq> k) m"

text \<open>\<open>m.find(k) != m.end()\<close>\<close>

definition om_has :: "'k \<Rightarrow> ('k, 'v) omap \<Rightarrow> bool" where
  "om_has k m \<longleftrightarrow> map_of m k \<noteq> None"

text \<open>Changing the value of one key in place, as through an iterator or a reference.\<close>

definition om_upd :: "'k::linorder \<Rightarrow> ('v \<Rightarrow> 'v) \<Rightarrow> ('k, 'v) omap \<Rightarrow> ('k, 'v) omap" where
  "om_upd k f m = map (\<lambda>(a, b). (a, if a = k then f b else b)) m"

lemma om_inv_Nil [simp]: "om_inv []"
  by (simp add: om_inv_def)

lemma om_inv_Cons: "om_inv ((a, b) # m) \<longleftrightarrow> (\<forall>x \<in> fst ` set m. a < x) \<and> om_inv m"
  by (auto simp: om_inv_def)

lemma om_inv_ConsD: "om_inv (p # m) \<Longrightarrow> om_inv m"
  by (simp add: om_inv_def)

lemma map_of_om_set [simp]: "map_of (om_set k v m) = (map_of m)(k \<mapsto> v)"
  by (induction k v m rule: om_set.induct) (auto simp: fun_eq_iff)

lemma keys_om_set [simp]: "fst ` set (om_set k v m) = insert k (fst ` set m)"
  by (induction k v m rule: om_set.induct) auto

lemma om_inv_set [intro, simp]: "om_inv m \<Longrightarrow> om_inv (om_set k v m)"
  by (induction k v m rule: om_set.induct) (fastforce simp: om_inv_Cons)+

lemma om_set_not_Nil [simp]: "om_set k v m \<noteq> []"
  by (induction k v m rule: om_set.induct) auto

lemma map_of_om_del [simp]: "map_of (om_del k m) = (map_of m)(k := None)"
  by (induction m) (auto simp: om_del_def fun_eq_iff)

lemma keys_om_del [simp]: "fst ` set (om_del k m) = fst ` set m - {k}"
  by (auto simp: om_del_def)

lemma om_inv_del [intro, simp]: "om_inv m \<Longrightarrow> om_inv (om_del k m)"
  by (induction m) (auto simp: om_del_def om_inv_Cons om_inv_def)

lemma keys_om_upd [simp]: "map fst (om_upd k f m) = map fst m"
  by (induction m) (auto simp: om_upd_def)

lemma om_inv_upd [simp]: "om_inv (om_upd k f m) = om_inv m"
  by (simp add: om_inv_def)

lemma map_of_om_upd [simp]:
  "map_of (om_upd k f m) x = (if x = k then map_option f (map_of m k) else map_of m x)"
  by (induction m) (auto simp: om_upd_def)

lemma om_inv_distinct: "om_inv m \<Longrightarrow> distinct (map fst m)"
  by (simp add: om_inv_def strict_sorted_iff)

lemma om_has_conv: "om_has k m \<longleftrightarrow> k \<in> fst ` set m"
  by (auto simp: om_has_def map_of_eq_None_iff)

lemma om_has_simps [simp]:
  "om_has x (om_set k v m) \<longleftrightarrow> x = k \<or> om_has x m"
  "om_has x (om_del k m) \<longleftrightarrow> x \<noteq> k \<and> om_has x m"
  "om_has x (om_upd k f m) \<longleftrightarrow> om_has x m"
  "\<not> om_has x []"
  by (auto simp: om_has_def)

lemma om_del_absent [simp]: "\<not> om_has k m \<Longrightarrow> om_del k m = m"
  by (force simp: om_has_conv om_del_def filter_id_conv)

lemma om_rebuild: "om_inv m \<Longrightarrow> m = map (\<lambda>k. (k, the (map_of m k))) (map fst m)"
  using om_inv_distinct [of m]
  by (simp, intro map_idI [symmetric]) (auto simp: map_of_is_SomeI)

text \<open>Two maps with the same content are the same map: the representation is canonical.\<close>

lemma om_ext:
  assumes "om_inv m" "om_inv n" "map_of m = map_of n"
  shows "m = n"
proof -
  have "fst ` set m = fst ` set n"
    using assms(3) by (metis dom_map_of_conv_image_fst)
  then have "map fst m = map fst n"
    using assms(1,2) by (intro strict_sorted_equal) (auto simp: om_inv_def)
  then show ?thesis
    using om_rebuild [OF assms(1)] om_rebuild [OF assms(2)] assms(3) by metis
qed

text \<open>Counting the entries of a map, and how an insertion changes the count.\<close>

definition om_count :: "('v \<Rightarrow> bool) \<Rightarrow> ('k, 'v) omap \<Rightarrow> nat" where
  "om_count P m = length (filter (P \<circ> snd) m)"

lemma om_count_Nil [simp]: "om_count P [] = 0"
  by (simp add: om_count_def)

lemma om_count_set:
  "om_inv m \<Longrightarrow> om_count P (om_set k v m) + (case map_of m k of Some w \<Rightarrow> of_bool (P w) | None \<Rightarrow> 0)
     = om_count P m + of_bool (P v)"
proof (induction k v m rule: om_set.induct)
  case (2 k v a b m)
  have "k < a \<Longrightarrow> map_of m k = None"
    using 2(2) by (force simp: om_inv_Cons map_of_eq_None_iff)
  then show ?case
    using 2 by (auto simp: om_count_def om_inv_Cons split: option.splits)
qed (simp add: om_count_def)

lemma om_count_set_same:
  "om_inv m \<Longrightarrow> map_of m k = Some w \<Longrightarrow> P v = P w \<Longrightarrow> om_count P (om_set k v m) = om_count P m"
  using om_count_set [of m P k v] by simp

lemma om_count_cong: "(\<And>k v. (k, v) \<in> set m \<Longrightarrow> P v = Q v) \<Longrightarrow> om_count P m = om_count Q m"
  by (auto simp: om_count_def intro!: arg_cong [where f = length] filter_cong)

lemma om_count_map: "om_count P (map (\<lambda>(k, v). (k, f k v)) m) = length (filter (\<lambda>(k, v). P (f k v)) m)"
  by (induction m) (auto simp: om_count_def)

lemma map_of_map_snd: "map_of (map (\<lambda>(k, v). (k, f v)) m) k = map_option f (map_of m k)"
  by (induction m) auto

lemma om_set_mem: "om_inv m \<Longrightarrow> (a, b) \<in> set (om_set k v m) \<longleftrightarrow> (if a = k then b = v else (a, b) \<in> set m)"
  using om_inv_distinct [of m] om_inv_distinct [OF om_inv_set, of m k v]
  by (metis map_of_om_set fun_upd_apply map_of_is_SomeI map_of_SomeD option.inject)

text \<open>Summing over the entries of a map.\<close>

definition om_sum :: "('k \<Rightarrow> 'v \<Rightarrow> nat) \<Rightarrow> ('k, 'v) omap \<Rightarrow> nat" where
  "om_sum f m = sum_list (map (\<lambda>p. f (fst p) (snd p)) m)"

lemma om_sum_simps [simp]: "om_sum f [] = 0" "om_sum f (p # m) = f (fst p) (snd p) + om_sum f m"
  by (simp_all add: om_sum_def)

lemma om_sum_cong: "(\<And>k v. map_of m k = Some v \<Longrightarrow> f k v = g k v) \<Longrightarrow> om_inv m \<Longrightarrow> om_sum f m = om_sum g m"
  unfolding om_sum_def
  by (intro arg_cong [where f = sum_list] map_cong refl) (use om_inv_distinct map_of_is_SomeI in fastforce)

lemma om_sum_upd:
  "om_inv m \<Longrightarrow> map_of m k = Some v \<Longrightarrow> om_sum f (om_upd k h m) + f k v = om_sum f m + f k (h v)"
proof (induction m)
  case (Cons p m)
  then show ?case
  proof (cases "fst p = k")
    case True
    then have "\<forall>q \<in> set m. fst q \<noteq> k" using Cons.prems(1) by (cases p) (auto simp: om_inv_Cons)
    then have "om_upd k h m = m" by (induction m) (auto simp: om_upd_def)
    with True Cons.prems show ?thesis by (cases p) (simp add: om_upd_def)
  next
    case False
    then show ?thesis using Cons by (cases p) (auto simp: om_upd_def om_inv_Cons)
  qed
qed simp

lemma om_sum_del:
  "om_inv m \<Longrightarrow> map_of m k = Some v \<Longrightarrow> om_sum f (om_del k m) + f k v = om_sum f m"
proof (induction m)
  case (Cons p m)
  then show ?case
  proof (cases "fst p = k")
    case True
    then have "\<forall>q \<in> set m. fst q \<noteq> k" using Cons.prems(1) by (cases p) (auto simp: om_inv_Cons)
    then have "om_del k m = m" by (simp add: om_del_def filter_id_conv)
    with True Cons.prems show ?thesis by (cases p) (simp add: om_del_def)
  next
    case False
    then show ?thesis using Cons by (cases p) (auto simp: om_del_def om_inv_Cons)
  qed
qed simp

lemma om_sum_fresh: "map_of m k = None \<Longrightarrow> om_sum f (om_set k v m) = om_sum f m + f k v"
  by (induction k v m rule: om_set.induct) (auto split: if_splits)

text \<open>
  The interface the components use. The laws are the ones \<open>std::map\<close> documents; the
  facts proved inside the locale are what the component proofs cite.
\<close>

locale std_map =
  fixes emp :: "'m"
    and upd :: "'k \<Rightarrow> 'v \<Rightarrow> 'm \<Rightarrow> 'm"
    and del :: "'k \<Rightarrow> 'm \<Rightarrow> 'm"
    and find :: "'m \<Rightarrow> 'k \<Rightarrow> 'v option"
    and ok :: "'m \<Rightarrow> bool"
  assumes find_emp: "find emp k = None"
    and find_upd: "ok m \<Longrightarrow> find (upd k v m) = (find m)(k \<mapsto> v)"
    and find_del: "ok m \<Longrightarrow> find (del k m) = (find m)(k := None)"
    and ok_emp: "ok emp"
    and ok_upd: "ok m \<Longrightarrow> ok (upd k v m)"
    and ok_del: "ok m \<Longrightarrow> ok (del k m)"
    and canonical: "ok m \<Longrightarrow> ok n \<Longrightarrow> find m = find n \<Longrightarrow> m = n"
begin

lemma upd_upd: "ok m \<Longrightarrow> upd k v (upd k w m) = upd k v m"
  by (rule canonical) (simp_all add: ok_upd find_upd)

lemma upd_commute: "ok m \<Longrightarrow> j \<noteq> k \<Longrightarrow> upd j v (upd k w m) = upd k w (upd j v m)"
  by (rule canonical) (simp_all add: ok_upd find_upd fun_upd_twist)

lemma del_upd: "ok m \<Longrightarrow> del k (upd k v m) = del k m"
  by (rule canonical) (simp_all add: ok_upd ok_del find_upd find_del)

lemma upd_same: "ok m \<Longrightarrow> find m k = Some v \<Longrightarrow> upd k v m = m"
  by (rule canonical) (simp_all add: ok_upd find_upd fun_upd_idem)

lemma del_fresh: "ok m \<Longrightarrow> find m k = None \<Longrightarrow> del k m = m"
  by (rule canonical) (simp_all add: ok_del find_del fun_upd_idem)

lemma del_upd_fresh: "ok m \<Longrightarrow> find m k = None \<Longrightarrow> del k (upd k v m) = m"
  by (simp add: del_upd del_fresh)

end

interpretation om: std_map "[]" om_set om_del map_of "om_inv :: ('k::linorder, 'v) omap \<Rightarrow> bool"
  by unfold_locales (auto intro: om_ext)

section \<open>Ordered sets: \<open>std::set\<close>\<close>

definition os_inv :: "'a::linorder list \<Rightarrow> bool" where
  "os_inv s \<longleftrightarrow> sorted_wrt (<) s"

fun os_ins :: "'a::linorder \<Rightarrow> 'a list \<Rightarrow> 'a list" where
  "os_ins x [] = [x]"
| "os_ins x (y # ys) = (if x < y then x # y # ys else if x = y then y # ys else y # os_ins x ys)"

definition os_del :: "'a \<Rightarrow> 'a list \<Rightarrow> 'a list" where
  "os_del x s = filter (\<lambda>y. y \<noteq> x) s"

lemma set_os_ins [simp]: "set (os_ins x s) = insert x (set s)"
  by (induction x s rule: os_ins.induct) auto

lemma set_os_del [simp]: "set (os_del x s) = set s - {x}"
  by (auto simp: os_del_def)

lemma os_inv_Nil [simp]: "os_inv []"
  by (simp add: os_inv_def)

lemma os_inv_Cons: "os_inv (x # s) \<longleftrightarrow> (\<forall>y \<in> set s. x < y) \<and> os_inv s"
  by (simp add: os_inv_def)

lemma os_inv_ins [intro, simp]: "os_inv s \<Longrightarrow> os_inv (os_ins x s)"
  by (induction x s rule: os_ins.induct) (fastforce simp: os_inv_Cons)+

lemma os_inv_del [intro, simp]: "os_inv s \<Longrightarrow> os_inv (os_del x s)"
  by (simp add: os_inv_def os_del_def sorted_wrt_filter)

lemma os_ext: "os_inv s \<Longrightarrow> os_inv t \<Longrightarrow> set s = set t \<Longrightarrow> s = t"
  by (simp add: os_inv_def strict_sorted_equal)

lemma os_inv_distinct: "os_inv s \<Longrightarrow> distinct s"
  by (simp add: os_inv_def strict_sorted_iff)

lemma os_ins_member [simp]: "os_inv s \<Longrightarrow> x \<in> set s \<Longrightarrow> os_ins x s = s"
  by (rule os_ext) auto

lemma os_inv_fold_ins [intro, simp]: "os_inv s \<Longrightarrow> os_inv (fold os_ins xs s)"
  by (induction xs arbitrary: s) auto

lemma set_fold_os_ins [simp]: "set (fold os_ins xs s) = set xs \<union> set s"
  by (induction xs arbitrary: s) auto

lemma os_inv_fold_del [intro, simp]: "os_inv s \<Longrightarrow> os_inv (fold os_del xs s)"
  by (induction xs arbitrary: s) auto

lemma set_fold_os_del [simp]: "set (fold os_del xs s) = set s - set xs"
  by (induction xs arbitrary: s) auto

section \<open>Multimaps: \<open>std::multimap\<close>\<close>

text \<open>Insertion goes to the upper bound of the range of equal keys (C++11).\<close>

fun mm_ins :: "'k::linorder \<Rightarrow> 'v \<Rightarrow> ('k \<times> 'v) list \<Rightarrow> ('k \<times> 'v) list" where
  "mm_ins k v [] = [(k, v)]"
| "mm_ins k v ((a, b) # m) = (if a \<le> k then (a, b) # mm_ins k v m else (k, v) # (a, b) # m)"

definition mm_inv :: "('k::linorder \<times> 'v) list \<Rightarrow> bool" where
  "mm_inv m \<longleftrightarrow> sorted (map fst m)"

lemma mm_inv_Nil [simp]: "mm_inv []"
  by (simp add: mm_inv_def)

lemma mm_inv_Cons: "mm_inv ((a, b) # m) \<longleftrightarrow> (\<forall>x \<in> fst ` set m. a \<le> x) \<and> mm_inv m"
  by (auto simp: mm_inv_def)

lemma set_mm_ins [simp]: "set (mm_ins k v m) = insert (k, v) (set m)"
  by (induction k v m rule: mm_ins.induct) auto

lemma length_mm_ins [simp]: "length (mm_ins k v m) = Suc (length m)"
  by (induction k v m rule: mm_ins.induct) auto

lemma mm_ins_not_Nil [simp]: "mm_ins k v m \<noteq> []"
  by (induction k v m rule: mm_ins.induct) auto

lemma mm_inv_ins [intro, simp]: "mm_inv m \<Longrightarrow> mm_inv (mm_ins k v m)"
  by (induction k v m rule: mm_ins.induct) (fastforce simp: mm_inv_Cons)+

lemma mm_inv_filter [intro, simp]: "mm_inv m \<Longrightarrow> mm_inv (filter P m)"
  by (simp add: mm_inv_def sorted_filter)

lemma mm_inv_ConsD: "mm_inv (p # m) \<Longrightarrow> mm_inv m"
  by (simp add: mm_inv_def)

text \<open>Equal keys stay in insertion order.\<close>

lemma filter_mm_ins_key:
  "mm_inv m \<Longrightarrow> filter (\<lambda>p. fst p = k) (mm_ins k v m) = filter (\<lambda>p. fst p = k) m @ [(k, v)]"
proof (induction k v m rule: mm_ins.induct)
  case (2 k v a b m)
  show ?case
  proof (cases "a \<le> k")
    case True
    with 2 show ?thesis by (auto simp: mm_inv_Cons)
  next
    case False
    with 2 have "filter (\<lambda>p. fst p = k) m = []"
      by (fastforce simp: mm_inv_Cons filter_empty_conv)
    with False show ?thesis by auto
  qed
qed simp

section \<open>Results with errors\<close>

text \<open>A call that may throw: \<open>Inl\<close> the exception, \<open>Inr\<close> the result.\<close>

fun sum_bind :: "'e + 'a \<Rightarrow> ('a \<Rightarrow> 'e + 'b) \<Rightarrow> 'e + 'b" where
  "sum_bind (Inl e) f = Inl e"
| "sum_bind (Inr a) f = f a"

lemma sum_bind_eq_Inr: "sum_bind x f = Inr b \<longleftrightarrow> (\<exists>a. x = Inr a \<and> f a = Inr b)"
  by (cases x) auto

lemma sum_bind_eq_Inl: "sum_bind x f = Inl e \<longleftrightarrow> x = Inl e \<or> (\<exists>a. x = Inr a \<and> f a = Inl e)"
  by (cases x) auto

lemma sum_bind_assoc: "sum_bind (sum_bind x f) g = sum_bind x (\<lambda>a. sum_bind (f a) g)"
  by (cases x) auto

section \<open>Runs of operations\<close>

locale transition_system =
  fixes step :: "'e \<Rightarrow> 's \<Rightarrow> 's"
    and inv :: "'s \<Rightarrow> bool"
  assumes step_inv: "inv s \<Longrightarrow> inv (step e s)"
begin

lemma run_inv: "inv s \<Longrightarrow> inv (fold step es s)"
  by (induction es arbitrary: s) (auto intro: step_inv)

lemma run_append: "fold step (es @ fs) s = fold step fs (fold step es s)"
  by simp

lemma prefix_inv: "inv s \<Longrightarrow> inv (fold step (take n es) s)"
  by (rule run_inv)

end

text \<open>Runs in which every step meets a condition on the state it starts from.\<close>

fun ok_run :: "('e \<Rightarrow> 's \<Rightarrow> 's) \<Rightarrow> ('e \<Rightarrow> 's \<Rightarrow> bool) \<Rightarrow> 'e list \<Rightarrow> 's \<Rightarrow> bool" where
  "ok_run step ok [] s \<longleftrightarrow> True"
| "ok_run step ok (e # es) s \<longleftrightarrow> ok e s \<and> ok_run step ok es (step e s)"

locale guarded_system =
  fixes step :: "'e \<Rightarrow> 's \<Rightarrow> 's"
    and ok :: "'e \<Rightarrow> 's \<Rightarrow> bool"
    and inv :: "'s \<Rightarrow> bool"
  assumes ok_step_inv: "inv s \<Longrightarrow> ok e s \<Longrightarrow> inv (step e s)"
begin

lemma ok_run_inv: "inv s \<Longrightarrow> ok_run step ok es s \<Longrightarrow> inv (fold step es s)"
  by (induction es arbitrary: s) (auto intro: ok_step_inv)

end

sublocale guarded_system \<subseteq> skipping: transition_system "\<lambda>e s. if ok e s then step e s else s" inv
  by unfold_locales (simp add: ok_step_inv)

section \<open>Words\<close>

lemma word_and_zero_iff_no_bit: "(w AND m = 0) = (\<forall>n. bit w n \<longrightarrow> \<not> bit (m :: 'a::len word) n)"
  by (auto simp: bit_eq_iff bit_simps dest: bit_imp_le_length)

lemma bit_one_shift: "bit (push_bit k (1 :: 'a::len word)) n \<longleftrightarrow> n = k \<and> k < LENGTH('a)"
  by (auto simp: bit_simps)

lemma bit_unat_less: "unat (w :: 'a::len word) < 2 ^ k \<Longrightarrow> bit w n \<Longrightarrow> n < k"
proof -
  assume "unat w < 2 ^ k" "bit w n"
  then have "take_bit k (unat w) = unat w" "bit (unat w) n"
    by (simp_all add: take_bit_nat_eq_self bit_unsigned_iff)
  then show "n < k" by (metis bit_take_bit_iff)
qed

lemma word_or_self_mask: "(w OR m) AND m = (m :: 'a::len word)"
  by (auto simp: bit_eq_iff bit_simps)

lemma word_andnot_mask: "(w AND NOT m) AND m = (0 :: 'a::len word)"
  by (auto simp: bit_eq_iff bit_simps)

lemma word_or_andnot: "w AND m = 0 \<Longrightarrow> (w OR m) AND NOT m = (w :: 'a::len word)"
  by (auto simp: bit_eq_iff bit_simps)

section \<open>Decimal and hexadecimal numbers\<close>

text \<open>What \<open>operator<<\<close> of an output stream writes for an unsigned number.\<close>

definition digit_char :: "nat \<Rightarrow> char" where
  "digit_char d = char_of (if d < 10 then 48 + d else 87 + d)"

fun show_base :: "nat \<Rightarrow> nat \<Rightarrow> string" where
  "show_base base n =
     (if base < 2 \<or> n < base then [digit_char n] else show_base base (n div base) @ [digit_char (n mod base)])"

declare show_base.simps [simp del]

definition show_nat :: "nat \<Rightarrow> string" where
  "show_nat n = show_base 10 n"

text \<open>\<open>std::hex << std::setw(w) << std::setfill('0')\<close>\<close>

definition show_hex :: "nat \<Rightarrow> nat \<Rightarrow> string" where
  "show_hex w n = (let s = show_base 16 n in replicate (w - length s) CHR ''0'' @ s)"

definition is_digit :: "char \<Rightarrow> bool" where
  "is_digit c \<longleftrightarrow> 48 \<le> (of_char c :: nat) \<and> (of_char c :: nat) \<le> 57"

definition digit_val :: "char \<Rightarrow> nat" where
  "digit_val c = of_char c - 48"

text \<open>The value of a string of decimal digits.\<close>

definition read_digits :: "string \<Rightarrow> nat" where
  "read_digits s = foldl (\<lambda>v c. 10 * v + digit_val c) 0 s"

lemma digit_char_digit: "d < 10 \<Longrightarrow> is_digit (digit_char d) \<and> digit_val (digit_char d) = d"
  by (simp add: is_digit_def digit_char_def digit_val_def)

lemma show_nat_digits: "\<forall>c \<in> set (show_nat n). is_digit c"
proof -
  have "\<forall>c \<in> set (show_base base n). is_digit c" if "base = 10" for base
    using that
  proof (induction base n rule: show_base.induct)
    case (1 base n)
    then show ?case
      by (subst show_base.simps) (auto simp: digit_char_digit)
  qed
  then show ?thesis by (simp add: show_nat_def)
qed

lemma show_nat_not_Nil [simp]: "show_nat n \<noteq> []"
  by (simp add: show_nat_def show_base.simps [of 10 n])

lemma read_digits_snoc: "read_digits (s @ [c]) = 10 * read_digits s + digit_val c"
  by (simp add: read_digits_def)

lemma read_show_nat [simp]: "read_digits (show_nat n) = n"
proof -
  have "read_digits (show_base base n) = n" if "base = 10" for base
    using that
  proof (induction base n rule: show_base.induct)
    case (1 base n)
    show ?case
    proof (cases "n < 10")
      case True
      with 1 show ?thesis
        by (simp add: show_base.simps [of 10 n] read_digits_def digit_char_digit)
    next
      case False
      with 1 have "read_digits (show_base 10 (n div 10)) = n div 10" by simp
      with False 1 show ?thesis
        by (simp add: show_base.simps [of 10 n] read_digits_snoc digit_char_digit)
    qed
  qed
  then show ?thesis by (simp add: show_nat_def)
qed

lemma show_nat_inject [simp]: "show_nat m = show_nat n \<longleftrightarrow> m = n"
  by (metis read_show_nat)

end
