(* ===== verification/WideString.thy ===== *)
theory WideString
  imports Prelude
begin

text \<open>
  Names as wide strings, \<open>src/common/Utilities/Util.h\<close> and \<open>Util.cpp\<close>: the conversions from and to
  UTF-8, the case rules names are compared by, the search for a part of a name, and the form of
  player names (\<open>Globals/ObjectMgr.cpp\<close>). The functions of the \<open>utf8\<close> library are a parameter.
\<close>

section \<open>Conversions and case rules\<close>

type_synonym wname = "u32 list"

record utf8_lib =
  uf_distance :: "string \<Rightarrow> nat option"          \<comment> \<open>number of code points, or an exception\<close>
  uf_to16 :: "string \<Rightarrow> u16 list option"
  uf_to8 :: "u32 list \<Rightarrow> string option"

text \<open>
  \<open>Utf8toWStr\<close>: the string gets as many characters as the text has code points. (The conversion
  may write more, two for a code point beyond the basic plane: those land behind the string.)
\<close>

definition utf8_to_wstr :: "utf8_lib \<Rightarrow> string \<Rightarrow> wname option" where
  "utf8_to_wstr lib s =
     (case uf_distance lib s of
        None \<Rightarrow> None
      | Some len \<Rightarrow>
          if len = 0 then Some []
          else map_option (\<lambda>us. take len (map ucast us)) (uf_to16 lib s))"

definition utf8_to_wstr_buf :: "utf8_lib \<Rightarrow> nat \<Rightarrow> string \<Rightarrow> wname option" where
  "utf8_to_wstr_buf lib wsize s =
     (case uf_distance lib s of
        None \<Rightarrow> None
      | Some len \<Rightarrow>
          if wsize < len then None
          else map_option (\<lambda>us. take len (map ucast us)) (uf_to16 lib s))"

definition wstr_to_utf8 :: "utf8_lib \<Rightarrow> wname \<Rightarrow> string option" where
  "wstr_to_utf8 lib w = (if w = [] then Some [] else uf_to8 lib w)"

definition wc16 :: "u32 \<Rightarrow> u32" where
  "wc16 c = ucast (ucast c :: u16)"

definition wchar_to_upper :: "u32 \<Rightarrow> u32" where
  "wchar_to_upper c =
     (if 0x61 \<le> c \<and> c \<le> 0x7A then wc16 c - 0x20
      else if c = 0xDF then 0x1E9E
      else if 0xE0 \<le> c \<and> c \<le> 0xF6 then wc16 c - 0x20
      else if 0xF8 \<le> c \<and> c \<le> 0xFE then wc16 c - 0x20
      else if 0x101 \<le> c \<and> c \<le> 0x12F \<and> c mod 2 = 1 then wc16 c - 1
      else if 0x430 \<le> c \<and> c \<le> 0x44F then wc16 c - 0x20
      else if c = 0x451 then 0x401
      else c)"

definition wchar_to_lower :: "u32 \<Rightarrow> u32" where
  "wchar_to_lower c =
     (if 0x41 \<le> c \<and> c \<le> 0x5A then wc16 c + 0x20
      else if 0xC0 \<le> c \<and> c \<le> 0xD6 then wc16 c + 0x20
      else if 0xD8 \<le> c \<and> c \<le> 0xDE then wc16 c + 0x20
      else if 0x100 \<le> c \<and> c \<le> 0x12E \<and> c mod 2 = 0 then wc16 c + 1
      else if c = 0x1E9E then 0xDF
      else if c = 0x401 then 0x451
      else if 0x410 \<le> c \<and> c \<le> 0x42F then wc16 c + 0x20
      else c)"

definition wstr_to_lower :: "wname \<Rightarrow> wname" where
  "wstr_to_lower w = map wchar_to_lower w"

definition MAX_INTERNAL_PLAYER_NAME :: nat where "MAX_INTERNAL_PLAYER_NAME = 15"

definition normalize_player_name :: "utf8_lib \<Rightarrow> string \<Rightarrow> string option" where
  "normalize_player_name lib name =
     (if name = [] then None
      else
        (case utf8_to_wstr_buf lib MAX_INTERNAL_PLAYER_NAME name of
           None \<Rightarrow> None
         | Some w \<Rightarrow>
             wstr_to_utf8 lib
               (case w of [] \<Rightarrow> [] | c # cs \<Rightarrow> wchar_to_upper c # map wchar_to_lower cs)))"

text \<open>\<open>Utf8FitTo\<close>: the name in lower case contains the searched text.\<close>

fun find_sub :: "wname \<Rightarrow> wname \<Rightarrow> bool" where
  "find_sub p [] \<longleftrightarrow> p = []"
| "find_sub p (c # cs) \<longleftrightarrow> take (length p) (c # cs) = p \<or> find_sub p cs"

definition utf8_fit_to :: "utf8_lib \<Rightarrow> string \<Rightarrow> wname \<Rightarrow> bool" where
  "utf8_fit_to lib s search =
     (case utf8_to_wstr lib s of None \<Rightarrow> False | Some w \<Rightarrow> find_sub search (wstr_to_lower w))"

lemma find_sub_iff: "find_sub p w \<longleftrightarrow> (\<exists>a b. w = a @ p @ b)"
proof (induction p w rule: find_sub.induct)
  case (2 p c cs)
  have "(\<exists>a b. c # cs = a @ p @ b) \<longleftrightarrow> (\<exists>b. c # cs = p @ b) \<or> (\<exists>a b. cs = a @ p @ b)"
  proof
    assume "\<exists>a b. c # cs = a @ p @ b"
    then obtain a b where "c # cs = a @ p @ b" by blast
    then show "(\<exists>b. c # cs = p @ b) \<or> (\<exists>a b. cs = a @ p @ b)" by (cases a) auto
  next
    assume "(\<exists>b. c # cs = p @ b) \<or> (\<exists>a b. cs = a @ p @ b)"
    then show "\<exists>a b. c # cs = a @ p @ b"
      by (metis append_Cons append_Nil)
  qed
  moreover have "(\<exists>b. c # cs = p @ b) \<longleftrightarrow> take (length p) (c # cs) = p"
    by (metis append_eq_conv_conj append_take_drop_id)
  ultimately show ?case using 2 by simp
qed simp

end
