(* ===== verification/ByteBuffer.thy ===== *)
theory ByteBuffer
  imports Prelude
begin

text \<open>
  The packet buffer of \<open>src/server/shared/Packets/ByteBuffer.h\<close> with the byte-order
  conversion of \<open>src/common/Utilities/ByteConverter.h\<close>, and the socket buffer of
  \<open>src/common/Utilities/MessageBuffer.h\<close>.

  A buffer is its bytes and two positions. The positions are \<open>size_t\<close> values that callers may
  set freely (\<open>rpos(size_t)\<close>), so the range checks \<open>_rpos + n > size()\<close> are modelled with
  the 64-bit wrap-around they have; an access that passes such a check and still lies
  outside the storage is the error \<open>OutOfBounds\<close> of the model (undefined behaviour in the
  code). Every other error is an exception or an assertion of the code. The host's byte
  order is the parameter \<open>big\<close> (\<open>TRINITY_ENDIAN\<close>). Bytes of strings are \<open>u8\<close> values.
\<close>

datatype bb_error =
    PositionException bool nat nat nat \<comment> \<open>\<open>add, pos, size, valueSize\<close>\<close>
  | SourceException nat nat nat        \<comment> \<open>\<open>pos, size, valueSize\<close>\<close>
  | BufferException
  | AssertionFailed
  | OutOfBounds

record byte_buffer =
  rpos :: nat
  wpos :: nat
  storage :: "u8 list"

definition bb_empty :: byte_buffer where
  "bb_empty = \<lparr>rpos = 0, wpos = 0, storage = []\<rparr>"

abbreviation bb_size :: "byte_buffer \<Rightarrow> nat" where
  "bb_size b \<equiv> length (storage b)"

definition clear :: "byte_buffer \<Rightarrow> byte_buffer" where
  "clear b = b\<lparr>storage := [], rpos := 0, wpos := 0\<rparr>"

definition set_rpos :: "nat \<Rightarrow> byte_buffer \<Rightarrow> byte_buffer" where
  "set_rpos p b = b\<lparr>rpos := p\<rparr>"

definition set_wpos :: "nat \<Rightarrow> byte_buffer \<Rightarrow> byte_buffer" where
  "set_wpos p b = b\<lparr>wpos := p\<rparr>"

definition rfinish :: "byte_buffer \<Rightarrow> byte_buffer" where
  "rfinish b = b\<lparr>rpos := wpos b\<rparr>"

text \<open>\<open>std::vector::resize(n, 0)\<close>\<close>

definition vec_resize :: "nat \<Rightarrow> u8 list \<Rightarrow> u8 list" where
  "vec_resize n xs = take n xs @ replicate (n - length xs) 0"

definition resize :: "nat \<Rightarrow> byte_buffer \<Rightarrow> byte_buffer" where
  "resize n b = b\<lparr>storage := vec_resize n (storage b), rpos := 0, wpos := n\<rparr>"

definition size_t_add :: "nat \<Rightarrow> nat \<Rightarrow> nat" where
  "size_t_add a b = (a + b) mod 2 ^ 64"

definition size_t_sub :: "nat \<Rightarrow> nat \<Rightarrow> nat" where
  "size_t_sub a b = (a + 2 ^ 64 - b) mod 2 ^ 64"

section \<open>Byte order\<close>

fun le_bytes :: "nat \<Rightarrow> 'a::len word \<Rightarrow> u8 list" where
  "le_bytes 0 w = []"
| "le_bytes (Suc n) w = ucast w # le_bytes n (drop_bit 8 w)"

fun le_val :: "u8 list \<Rightarrow> 'a::len word" where
  "le_val [] = 0"
| "le_val (b # bs) = ucast b OR push_bit 8 (le_val bs)"

text \<open>The bytes of a value in memory, and the value of bytes in memory, on either host.\<close>

definition mem_bytes :: "bool \<Rightarrow> nat \<Rightarrow> 'a::len word \<Rightarrow> u8 list" where
  "mem_bytes big n w = (if big then rev (le_bytes n w) else le_bytes n w)"

definition mem_val :: "bool \<Rightarrow> u8 list \<Rightarrow> 'a::len word" where
  "mem_val big bs = (if big then le_val (rev bs) else le_val bs)"

text \<open>\<open>ByteConverter::convert\<close>: swap the outer bytes, go on with the inner ones.\<close>

fun convert :: "'a list \<Rightarrow> 'a list" where
  "convert [] = []"
| "convert [x] = [x]"
| "convert (x # y # zs) = last (y # zs) # convert (butlast (y # zs)) @ [x]"

definition endian_convert :: "bool \<Rightarrow> u8 list \<Rightarrow> u8 list" where
  "endian_convert big bs = (if big then convert bs else bs)"

section \<open>Writing\<close>

text \<open>\<open>append(const uint8* src, size_t cnt)\<close>; \<open>None\<close> is the null pointer.\<close>

definition append_raw :: "u8 list option \<Rightarrow> nat \<Rightarrow> byte_buffer \<Rightarrow> bb_error + byte_buffer" where
  "append_raw src cnt b =
     (if cnt = 0 then Inl (SourceException (wpos b) (bb_size b) cnt)
      else case src of
        None \<Rightarrow> Inl (SourceException (wpos b) (bb_size b) cnt)
      | Some xs \<Rightarrow>
          if \<not> bb_size b < 10000000 then Inl AssertionFailed
          else
            let st = (if bb_size b < size_t_add (wpos b) cnt
                      then vec_resize (size_t_add (wpos b) cnt) (storage b) else storage b)
            in if length xs < cnt \<or> length st < wpos b + cnt then Inl OutOfBounds
               else Inr (b\<lparr>storage := take (wpos b) st @ take cnt xs @ drop (wpos b + cnt) st,
                           wpos := size_t_add (wpos b) cnt\<rparr>))"

definition append_val :: "bool \<Rightarrow> nat \<Rightarrow> 'a::len word \<Rightarrow> byte_buffer \<Rightarrow> bb_error + byte_buffer" where
  "append_val big n w b = append_raw (Some (endian_convert big (mem_bytes big n w))) n b"

definition put_raw :: "nat \<Rightarrow> u8 list option \<Rightarrow> nat \<Rightarrow> byte_buffer \<Rightarrow> bb_error + byte_buffer" where
  "put_raw pos src cnt b =
     (if size_t_add pos cnt > bb_size b then Inl (PositionException True pos cnt (bb_size b))
      else case src of
        None \<Rightarrow> Inl (SourceException (wpos b) (bb_size b) cnt)
      | Some xs \<Rightarrow>
          if length xs < cnt \<or> bb_size b < pos + cnt then Inl OutOfBounds
          else Inr (b\<lparr>storage := take pos (storage b) @ take cnt xs @ drop (pos + cnt) (storage b)\<rparr>))"

definition put_val :: "bool \<Rightarrow> nat \<Rightarrow> nat \<Rightarrow> 'a::len word \<Rightarrow> byte_buffer \<Rightarrow> bb_error + byte_buffer" where
  "put_val big pos n w b = put_raw pos (Some (endian_convert big (mem_bytes big n w))) n b"

text \<open>The stream operators for the integer types.\<close>

definition put_u8 :: "bool \<Rightarrow> u8 \<Rightarrow> byte_buffer \<Rightarrow> bb_error + byte_buffer" where
  "put_u8 big w = append_val big 1 w"
definition put_u16 :: "bool \<Rightarrow> u16 \<Rightarrow> byte_buffer \<Rightarrow> bb_error + byte_buffer" where
  "put_u16 big w = append_val big 2 w"
definition put_u32 :: "bool \<Rightarrow> u32 \<Rightarrow> byte_buffer \<Rightarrow> bb_error + byte_buffer" where
  "put_u32 big w = append_val big 4 w"
definition put_u64 :: "bool \<Rightarrow> u64 \<Rightarrow> byte_buffer \<Rightarrow> bb_error + byte_buffer" where
  "put_u64 big w = append_val big 8 w"

text \<open>\<open>operator<<(std::string const&)\<close>: the characters, if any, and a zero byte.\<close>

definition put_string :: "bool \<Rightarrow> u8 list \<Rightarrow> byte_buffer \<Rightarrow> bb_error + byte_buffer" where
  "put_string big s b =
     sum_bind (if length s \<noteq> 0 then append_raw (Some s) (length s) b else Inr b)
       (append_val big 1 (0 :: u8))"

text \<open>\<open>append(const ByteBuffer&)\<close>: \<open>contents()\<close> throws on an empty storage.\<close>

definition append_buffer :: "byte_buffer \<Rightarrow> byte_buffer \<Rightarrow> bb_error + byte_buffer" where
  "append_buffer other b =
     (if wpos other \<noteq> 0
      then if storage other = [] then Inl BufferException
           else append_raw (Some (storage other)) (wpos other) b
      else Inr b)"

section \<open>Reading\<close>

definition read_at :: "bool \<Rightarrow> nat \<Rightarrow> nat \<Rightarrow> byte_buffer \<Rightarrow> bb_error + 'a::len word" where
  "read_at big n pos b =
     (if size_t_add pos n > bb_size b then Inl (PositionException False pos n (bb_size b))
      else if bb_size b < pos + n then Inl OutOfBounds
      else Inr (mem_val big (endian_convert big (take n (drop pos (storage b))))))"

definition read_val :: "bool \<Rightarrow> nat \<Rightarrow> byte_buffer \<Rightarrow> bb_error + ('a::len word \<times> byte_buffer)" where
  "read_val big n b =
     sum_bind (read_at big n (rpos b) b) (\<lambda>r. Inr (r, b\<lparr>rpos := size_t_add (rpos b) n\<rparr>))"

definition get_u8 :: "bool \<Rightarrow> byte_buffer \<Rightarrow> bb_error + (u8 \<times> byte_buffer)" where
  "get_u8 big = read_val big 1"
definition get_u16 :: "bool \<Rightarrow> byte_buffer \<Rightarrow> bb_error + (u16 \<times> byte_buffer)" where
  "get_u16 big = read_val big 2"
definition get_u32 :: "bool \<Rightarrow> byte_buffer \<Rightarrow> bb_error + (u32 \<times> byte_buffer)" where
  "get_u32 big = read_val big 4"
definition get_u64 :: "bool \<Rightarrow> byte_buffer \<Rightarrow> bb_error + (u64 \<times> byte_buffer)" where
  "get_u64 big = read_val big 8"

text \<open>\<open>operator>>(bool&)\<close> reads a \<open>char\<close>, which is signed on the supported platforms.\<close>

definition get_bool :: "bool \<Rightarrow> byte_buffer \<Rightarrow> bb_error + (bool \<times> byte_buffer)" where
  "get_bool big b = sum_bind (get_u8 big b) (\<lambda>(c, b'). Inr (0 < sint c, b'))"

definition read_skip :: "nat \<Rightarrow> byte_buffer \<Rightarrow> bb_error + byte_buffer" where
  "read_skip n b =
     (if size_t_add (rpos b) n > bb_size b then Inl (PositionException False (rpos b) n (bb_size b))
      else Inr (b\<lparr>rpos := size_t_add (rpos b) n\<rparr>))"

definition read_bytes :: "nat \<Rightarrow> byte_buffer \<Rightarrow> bb_error + (u8 list \<times> byte_buffer)" where
  "read_bytes n b =
     (if size_t_add (rpos b) n > bb_size b then Inl (PositionException False (rpos b) n (bb_size b))
      else if bb_size b < rpos b + n then Inl OutOfBounds
      else Inr (take n (drop (rpos b) (storage b)), b\<lparr>rpos := size_t_add (rpos b) n\<rparr>))"

definition at :: "nat \<Rightarrow> byte_buffer \<Rightarrow> bb_error + u8" where
  "at pos b = (if pos \<ge> bb_size b then Inl (PositionException False pos 1 (bb_size b))
               else Inr (storage b ! pos))"

text \<open>
  \<open>operator>>(std::string&)\<close>: up to a zero byte or the end of the storage. Each turn of the
  loop moves the position by one, so the distance to the end bounds the number of turns.
\<close>

fun get_string_loop :: "bool \<Rightarrow> nat \<Rightarrow> u8 list \<Rightarrow> byte_buffer \<Rightarrow> bb_error + (u8 list \<times> byte_buffer)" where
  "get_string_loop big 0 acc b = Inr (acc, b)"
| "get_string_loop big (Suc n) acc b =
     (if rpos b < bb_size b then
        sum_bind (get_u8 big b)
          (\<lambda>(c, b'). if c = 0 then Inr (acc, b') else get_string_loop big n (acc @ [c]) b')
      else Inr (acc, b))"

definition get_string :: "bool \<Rightarrow> byte_buffer \<Rightarrow> bb_error + (u8 list \<times> byte_buffer)" where
  "get_string big b = get_string_loop big (bb_size b - rpos b) [] b"

section \<open>Packed GUIDs\<close>

text \<open>
  \<open>appendPackGUID\<close>: a mask byte, one bit per byte of the GUID that is not zero, followed by
  those bytes. The loop drops one byte of the GUID per turn.
\<close>

lemma drop_bit_less: "(g :: u64) \<noteq> 0 \<Longrightarrow> unat (drop_bit 8 g) < unat g"
  using unat_gt_0 [of g] by (simp add: drop_bit_eq_div unat_div)

function pack_loop :: "nat \<Rightarrow> u64 \<Rightarrow> u8 \<Rightarrow> u8 list \<Rightarrow> u8 \<times> u8 list" where
  "pack_loop i g gm out =
     (if g = 0 then (gm, out)
      else if g AND 0xFF \<noteq> 0
        then pack_loop (Suc i) (drop_bit 8 g) (gm OR push_bit i 1) (out @ [ucast (g AND 0xFF)])
        else pack_loop (Suc i) (drop_bit 8 g) gm out)"
  by pat_completeness auto
termination
  by (relation "measure (\<lambda>(i, g, gm, out). unat g)") (auto intro: drop_bit_less)

declare pack_loop.simps [simp del]

definition pack_guid_bytes :: "u64 \<Rightarrow> u8 list" where
  "pack_guid_bytes g = (let (gm, out) = pack_loop 0 g 0 [] in gm # out)"

definition append_pack_guid :: "u64 \<Rightarrow> byte_buffer \<Rightarrow> bb_error + byte_buffer" where
  "append_pack_guid g b =
     append_raw (Some (pack_guid_bytes g)) (length (pack_guid_bytes g)) b"

text \<open>\<open>readPackGUID\<close>\<close>

fun read_pack_loop ::
  "bool \<Rightarrow> u8 \<Rightarrow> nat \<Rightarrow> nat \<Rightarrow> u64 \<Rightarrow> byte_buffer \<Rightarrow> bb_error + (u64 \<times> byte_buffer)" where
  "read_pack_loop big mark i 0 g b = Inr (g, b)"
| "read_pack_loop big mark i (Suc n) g b =
     (if mark AND push_bit i 1 \<noteq> 0
      then if size_t_add (rpos b) 1 > bb_size b
           then Inl (PositionException False (rpos b) 1 (bb_size b))
           else sum_bind (get_u8 big b)
                  (\<lambda>(v, b'). read_pack_loop big mark (Suc i) n (g OR push_bit (i * 8) (ucast v)) b')
      else read_pack_loop big mark (Suc i) n g b)"

definition read_pack_guid :: "bool \<Rightarrow> byte_buffer \<Rightarrow> bb_error + (u64 \<times> byte_buffer)" where
  "read_pack_guid big b =
     (if size_t_add (rpos b) 1 > bb_size b
      then Inl (PositionException False (rpos b) 1 (bb_size b))
      else sum_bind (get_u8 big b) (\<lambda>(mark, b'). read_pack_loop big mark 0 8 0 b'))"

section \<open>Packed dates\<close>

text \<open>
  \<open>AppendPackedTime\<close> and \<open>ReadPackedTime\<close> pack the broken-down time \<open>struct tm\<close> into 32 bits;
  \<open>localtime_r\<close> and \<open>mktime\<close> (the C library and the time zone) are parameters.
\<close>

record tm =
  tm_min :: u32
  tm_hour :: u32
  tm_mday :: u32
  tm_wday :: u32
  tm_mon :: u32
  tm_year :: u32

definition pack_tm :: "tm \<Rightarrow> u32" where
  "pack_tm lt = push_bit 24 (tm_year lt - 100) OR push_bit 20 (tm_mon lt)
     OR push_bit 14 (tm_mday lt - 1) OR push_bit 11 (tm_wday lt)
     OR push_bit 6 (tm_hour lt) OR tm_min lt"

definition unpack_tm :: "u32 \<Rightarrow> tm" where
  "unpack_tm p =
     \<lparr>tm_min = p AND 0x3F,
      tm_hour = drop_bit 6 p AND 0x1F,
      tm_mday = (drop_bit 14 p AND 0x3F) + 1,
      tm_wday = 0,
      tm_mon = drop_bit 20 p AND 0xF,
      tm_year = (drop_bit 24 p AND 0x1F) + 100\<rparr>"

definition append_packed_time ::
  "(u64 \<Rightarrow> tm) \<Rightarrow> bool \<Rightarrow> u64 \<Rightarrow> byte_buffer \<Rightarrow> bb_error + byte_buffer" where
  "append_packed_time localtime big t b = put_u32 big (pack_tm (localtime t)) b"

definition read_packed_time ::
  "(tm \<Rightarrow> u64) \<Rightarrow> bool \<Rightarrow> byte_buffer \<Rightarrow> bb_error + (u32 \<times> byte_buffer)" where
  "read_packed_time mktime big b =
     sum_bind (get_u32 big b) (\<lambda>(p, b'). Inr (ucast (mktime (unpack_tm p)), b'))"

section \<open>Containers\<close>

text \<open>The stream operators for vectors and lists: the number of elements, then each element.\<close>

fun put_list :: "('a \<Rightarrow> byte_buffer \<Rightarrow> bb_error + byte_buffer) \<Rightarrow> 'a list \<Rightarrow> byte_buffer \<Rightarrow> bb_error + byte_buffer" where
  "put_list put [] b = Inr b"
| "put_list put (x # xs) b = sum_bind (put x b) (put_list put xs)"

definition put_vector ::
  "bool \<Rightarrow> ('a \<Rightarrow> byte_buffer \<Rightarrow> bb_error + byte_buffer) \<Rightarrow> 'a list \<Rightarrow> byte_buffer \<Rightarrow> bb_error + byte_buffer" where
  "put_vector big put xs b = sum_bind (put_u32 big (of_nat (length xs)) b) (put_list put xs)"

fun get_list ::
  "(byte_buffer \<Rightarrow> bb_error + ('a \<times> byte_buffer)) \<Rightarrow> nat \<Rightarrow> 'a list \<Rightarrow> byte_buffer \<Rightarrow> bb_error + ('a list \<times> byte_buffer)" where
  "get_list get 0 acc b = Inr (acc, b)"
| "get_list get (Suc n) acc b = sum_bind (get b) (\<lambda>(x, b'). get_list get n (acc @ [x]) b')"

definition get_vector ::
  "bool \<Rightarrow> (byte_buffer \<Rightarrow> bb_error + ('a \<times> byte_buffer)) \<Rightarrow> byte_buffer \<Rightarrow> bb_error + ('a list \<times> byte_buffer)" where
  "get_vector big get b = sum_bind (get_u32 big b) (\<lambda>(n, b'). get_list get (unat n) [] b')"

text \<open>\<open>std::map\<close>: key and value alternate; \<open>insert\<close> on reading keeps an existing entry.\<close>

definition put_map ::
  "bool \<Rightarrow> ('k \<times> 'v \<Rightarrow> byte_buffer \<Rightarrow> bb_error + byte_buffer) \<Rightarrow> ('k, 'v) omap \<Rightarrow> byte_buffer \<Rightarrow> bb_error + byte_buffer" where
  "put_map big put m b = put_vector big put m b"

fun get_map_loop ::
  "(byte_buffer \<Rightarrow> bb_error + (('k::linorder \<times> 'v) \<times> byte_buffer)) \<Rightarrow> nat \<Rightarrow> ('k, 'v) omap \<Rightarrow> byte_buffer
     \<Rightarrow> bb_error + (('k, 'v) omap \<times> byte_buffer)" where
  "get_map_loop get 0 m b = Inr (m, b)"
| "get_map_loop get (Suc n) m b =
     sum_bind (get b) (\<lambda>((k, v), b'). get_map_loop get n (if om_has k m then m else om_set k v m) b')"

definition get_map ::
  "bool \<Rightarrow> (byte_buffer \<Rightarrow> bb_error + (('k::linorder \<times> 'v) \<times> byte_buffer)) \<Rightarrow> byte_buffer
     \<Rightarrow> bb_error + (('k, 'v) omap \<times> byte_buffer)" where
  "get_map big get b = sum_bind (get_u32 big b) (\<lambda>(n, b'). get_map_loop get (unat n) [] b')"

section \<open>The socket buffer\<close>

record message_buffer =
  mb_wpos :: nat
  mb_rpos :: nat
  mb_storage :: "u8 list"

definition mb_init :: "nat \<Rightarrow> message_buffer" where
  "mb_init n = \<lparr>mb_wpos = 0, mb_rpos = 0, mb_storage = replicate n 0\<rparr>"

definition mb_reset :: "message_buffer \<Rightarrow> message_buffer" where
  "mb_reset m = m\<lparr>mb_wpos := 0, mb_rpos := 0\<rparr>"

definition mb_resize :: "nat \<Rightarrow> message_buffer \<Rightarrow> message_buffer" where
  "mb_resize n m = m\<lparr>mb_storage := vec_resize n (mb_storage m)\<rparr>"

definition mb_read_completed :: "nat \<Rightarrow> message_buffer \<Rightarrow> message_buffer" where
  "mb_read_completed n m = m\<lparr>mb_rpos := mb_rpos m + n\<rparr>"

definition mb_write_completed :: "nat \<Rightarrow> message_buffer \<Rightarrow> message_buffer" where
  "mb_write_completed n m = m\<lparr>mb_wpos := mb_wpos m + n\<rparr>"

definition mb_active_size :: "message_buffer \<Rightarrow> nat" where
  "mb_active_size m = size_t_sub (mb_wpos m) (mb_rpos m)"

definition mb_remaining_space :: "message_buffer \<Rightarrow> nat" where
  "mb_remaining_space m = size_t_sub (length (mb_storage m)) (mb_wpos m)"

text \<open>The bytes received and not yet consumed.\<close>

definition mb_active :: "message_buffer \<Rightarrow> u8 list" where
  "mb_active m = take (mb_active_size m) (drop (mb_rpos m) (mb_storage m))"

definition mb_normalize :: "message_buffer \<Rightarrow> message_buffer" where
  "mb_normalize m =
     (if mb_rpos m \<noteq> 0 then
        let m1 = (if mb_rpos m \<noteq> mb_wpos m
                  then m\<lparr>mb_storage := mb_active m @ drop (mb_active_size m) (mb_storage m)\<rparr> else m)
        in m1\<lparr>mb_wpos := size_t_sub (mb_wpos m) (mb_rpos m), mb_rpos := 0\<rparr>
      else m)"

definition mb_ensure_free_space :: "message_buffer \<Rightarrow> message_buffer" where
  "mb_ensure_free_space m =
     (if mb_remaining_space m = 0
      then m\<lparr>mb_storage := vec_resize (length (mb_storage m) * 3 div 2) (mb_storage m)\<rparr> else m)"

text \<open>\<open>Write\<close> copies without a check; writing past the end is undefined behaviour (\<open>None\<close>).\<close>

definition mb_write :: "u8 list \<Rightarrow> message_buffer \<Rightarrow> message_buffer option" where
  "mb_write xs m =
     (if length xs \<noteq> 0 then
        if length (mb_storage m) < mb_wpos m + length xs then None
        else Some (mb_write_completed (length xs)
               (m\<lparr>mb_storage := take (mb_wpos m) (mb_storage m) @ xs
                    @ drop (mb_wpos m + length xs) (mb_storage m)\<rparr>))
      else Some m)"

definition mb_move :: "message_buffer \<Rightarrow> u8 list \<times> message_buffer" where
  "mb_move m = (mb_storage m, m\<lparr>mb_wpos := 0, mb_rpos := 0, mb_storage := []\<rparr>)"

section \<open>Byte order: the wire format does not depend on the host\<close>

lemma convert_rev: "convert xs = rev xs"
proof (induction xs rule: convert.induct)
  case (3 x y zs)
  have "last (y # zs) # rev (butlast (y # zs)) = rev (y # zs)"
    using append_butlast_last_id [of "y # zs"] by (metis list.distinct(1) rev.simps(2) rev_append rev_rev_ident
        append_Cons append_Nil)
  with 3 show ?case by simp
qed simp_all

lemma endian_mem_bytes [simp]: "endian_convert big (mem_bytes big n w) = le_bytes n w"
  by (simp add: endian_convert_def mem_bytes_def convert_rev)

lemma mem_val_endian [simp]: "mem_val big (endian_convert big bs) = le_val bs"
  by (simp add: endian_convert_def mem_val_def convert_rev)

lemma length_le_bytes [simp]: "length (le_bytes n w) = n"
  by (induction n arbitrary: w) auto

lemma le_val_take_bit: "le_val (le_bytes n w) = take_bit (8 * n) (w :: 'a::len word)"
proof (induction n arbitrary: w)
  case (Suc n)
  show ?case
    by (rule bit_word_eqI) (auto simp: Suc bit_simps)
qed simp

lemma le_val_le_bytes: "LENGTH('a) \<le> 8 * n \<Longrightarrow> le_val (le_bytes n w) = (w :: 'a::len word)"
  by (rule bit_word_eqI) (auto simp: le_val_take_bit bit_simps)

section \<open>Writing at the end and reading back\<close>

definition bb_room :: "nat \<Rightarrow> byte_buffer \<Rightarrow> bool" where
  "bb_room k b \<longleftrightarrow> wpos b = bb_size b \<and> bb_size b + k < 10000000"

definition bb_append :: "u8 list \<Rightarrow> byte_buffer \<Rightarrow> byte_buffer" where
  "bb_append xs b = b\<lparr>storage := storage b @ xs, wpos := wpos b + length xs\<rparr>"

definition bb_at :: "u8 list \<Rightarrow> byte_buffer \<Rightarrow> bool" where
  "bb_at xs b \<longleftrightarrow> rpos b + length xs \<le> bb_size b \<and> bb_size b < 2 ^ 64
     \<and> take (length xs) (drop (rpos b) (storage b)) = xs"

definition bb_skip :: "nat \<Rightarrow> byte_buffer \<Rightarrow> byte_buffer" where
  "bb_skip n b = b\<lparr>rpos := rpos b + n\<rparr>"

lemma size_t_add_small: "a + b < 2 ^ 64 \<Longrightarrow> size_t_add a b = a + b"
  by (simp add: size_t_add_def)

lemma bb_room_mono: "bb_room k b \<Longrightarrow> j \<le> k \<Longrightarrow> bb_room j b"
  by (auto simp: bb_room_def)

lemma bb_room_append: "bb_room (length xs + k) b \<Longrightarrow> bb_room k (bb_append xs b)"
  by (auto simp: bb_room_def bb_append_def)

lemma bb_append_append: "bb_append ys (bb_append xs b) = bb_append (xs @ ys) b"
  by (simp add: bb_append_def)

lemma bb_append_Nil [simp]: "bb_append [] b = b"
  by (simp add: bb_append_def)

lemma bb_skip_skip: "bb_skip n (bb_skip m b) = bb_skip (m + n) b"
  by (simp add: bb_skip_def)

lemma bb_skip_0 [simp]: "bb_skip 0 b = b"
  by (simp add: bb_skip_def)

lemma bb_at_left: "bb_at (xs @ ys) b \<Longrightarrow> bb_at xs b"
  by (auto simp: bb_at_def take_add)

lemma bb_at_right: "bb_at (xs @ ys) b \<Longrightarrow> bb_at ys (bb_skip (length xs) b)"
proof -
  assume a: "bb_at (xs @ ys) b"
  then have "take (length xs + length ys) (drop (rpos b) (storage b)) = xs @ ys"
    by (simp add: bb_at_def)
  then have "drop (length xs) (take (length xs + length ys) (drop (rpos b) (storage b))) = ys"
    by simp
  then have "take (length ys) (drop (rpos b + length xs) (storage b)) = ys"
    by (simp add: drop_take add.commute)
  with a show ?thesis by (simp add: bb_at_def bb_skip_def)
qed

lemma bb_at_head: "bb_at (x # xs) b \<Longrightarrow> bb_at [x] b"
  using bb_at_left [of "[x]" xs b] by simp

lemma bb_at_tail: "bb_at (x # xs) b \<Longrightarrow> bb_at xs (bb_skip 1 b)"
  using bb_at_right [of "[x]" xs b] by simp

lemma bb_at_appended:
  "bb_room (length xs) b \<Longrightarrow> rpos b = bb_size b \<Longrightarrow> bb_at xs (bb_append xs b)"
  by (simp add: bb_room_def bb_append_def bb_at_def)

lemma append_raw_room:
  assumes "xs \<noteq> []" "bb_room (length xs) b"
  shows "append_raw (Some xs) (length xs) b = Inr (bb_append xs b)"
  using assms
  by (auto simp: append_raw_def bb_room_def bb_append_def size_t_add_small vec_resize_def)

lemma append_val_room:
  "0 < n \<Longrightarrow> bb_room n b \<Longrightarrow> append_val big n w b = Inr (bb_append (le_bytes n w) b)"
  using append_raw_room [of "le_bytes n w" b] by (cases n) (auto simp: append_val_def)

lemma read_val_at:
  assumes "bb_at bs b" "length bs = n"
  shows "read_val big n b = Inr (le_val bs, bb_skip n b)"
  using assms by (simp add: read_val_def read_at_def bb_at_def bb_skip_def size_t_add_small)

text \<open>
  The interface of every value that travels in a packet: what is written at the end of a
  buffer is \<open>enc x\<close>, and reading where \<open>enc x\<close> stands returns \<open>x\<close> and consumes exactly it.
\<close>

locale codec =
  fixes enc :: "'a \<Rightarrow> u8 list"
    and valid :: "'a \<Rightarrow> bool"
    and wr :: "'a \<Rightarrow> byte_buffer \<Rightarrow> bb_error + byte_buffer"
    and rd :: "byte_buffer \<Rightarrow> bb_error + ('a \<times> byte_buffer)"
  assumes wr_enc: "valid x \<Longrightarrow> bb_room (length (enc x)) b \<Longrightarrow> wr x b = Inr (bb_append (enc x) b)"
    and rd_enc: "valid x \<Longrightarrow> bb_at (enc x) b \<Longrightarrow> rd b = Inr (x, bb_skip (length (enc x)) b)"
begin

lemma roundtrip:
  assumes "valid x" "bb_room (length (enc x)) b" "rpos b = bb_size b"
  shows "sum_bind (wr x b) rd = Inr (x, bb_skip (length (enc x)) (bb_append (enc x) b))"
  using assms by (simp add: wr_enc rd_enc bb_at_appended)

lemma put_list_enc:
  "\<forall>x \<in> set xs. valid x \<Longrightarrow> bb_room (length (concat (map enc xs))) b \<Longrightarrow>
   put_list wr xs b = Inr (bb_append (concat (map enc xs)) b)"
proof (induction xs arbitrary: b)
  case (Cons x xs)
  from Cons.prems have "bb_room (length (enc x)) b"
    by (auto elim: bb_room_mono)
  moreover from Cons.prems have "bb_room (length (concat (map enc xs))) (bb_append (enc x) b)"
    by (auto intro: bb_room_append)
  ultimately show ?case
    using Cons by (simp add: wr_enc bb_append_append)
qed simp

lemma get_list_enc:
  "\<forall>x \<in> set xs. valid x \<Longrightarrow> bb_at (concat (map enc xs)) b \<Longrightarrow>
   get_list rd (length xs) acc b = Inr (acc @ xs, bb_skip (length (concat (map enc xs))) b)"
proof (induction xs arbitrary: b acc)
  case (Cons x xs)
  from Cons.prems have "bb_at (enc x) b" "bb_at (concat (map enc xs)) (bb_skip (length (enc x)) b)"
    by (auto intro: bb_at_left bb_at_right)
  moreover from Cons.prems this have "rd b = Inr (x, bb_skip (length (enc x)) b)"
    by (simp add: rd_enc)
  ultimately show ?case
    using Cons by (simp add: bb_skip_skip)
qed simp

end

text \<open>A sequence of values behind its 32-bit count, over any element codec.\<close>

definition enc_vector :: "('a \<Rightarrow> u8 list) \<Rightarrow> 'a list \<Rightarrow> u8 list" where
  "enc_vector enc xs = le_bytes 4 (of_nat (length xs) :: u32) @ concat (map enc xs)"

context codec
begin

lemma put_vector_enc:
  assumes "\<forall>x \<in> set xs. valid x" "bb_room (length (enc_vector enc xs)) b"
  shows "put_vector big wr xs b = Inr (bb_append (enc_vector enc xs) b)"
proof -
  from assms(2) have "bb_room 4 b"
    and "bb_room (length (concat (map enc xs))) (bb_append (le_bytes 4 (of_nat (length xs) :: u32)) b)"
    by (auto simp: enc_vector_def intro: bb_room_append elim: bb_room_mono)
  then show ?thesis
    using assms(1)
    by (simp add: put_vector_def put_u32_def append_val_room put_list_enc bb_append_append enc_vector_def)
qed

lemma get_vector_enc:
  assumes "\<forall>x \<in> set xs. valid x" "length xs < 2 ^ 32" "bb_at (enc_vector enc xs) b"
  shows "get_vector big rd b = Inr (xs, bb_skip (length (enc_vector enc xs)) b)"
proof -
  let ?n = "of_nat (length xs) :: u32"
  from assms(3) have "bb_at (le_bytes 4 ?n) b" "bb_at (concat (map enc xs)) (bb_skip 4 b)"
    unfolding enc_vector_def by (auto dest: bb_at_left bb_at_right)
  moreover have "unat ?n = length xs"
    using assms(2) by (simp add: unat_of_nat take_bit_nat_eq_self)
  ultimately show ?thesis
    using assms(1)
    by (simp add: get_vector_def get_u32_def read_val_at le_val_le_bytes get_list_enc bb_skip_skip enc_vector_def)
qed

end

section \<open>The codecs\<close>

lemma int_codec_wr:
  "0 < n \<Longrightarrow> bb_room (length (le_bytes n w)) b \<Longrightarrow>
   append_val big n w b = Inr (bb_append (le_bytes n w) b)"
  by (simp add: append_val_room)

lemma int_codec_rd:
  "LENGTH('a) \<le> 8 * n \<Longrightarrow> bb_at (le_bytes n (w :: 'a::len word)) b \<Longrightarrow>
   read_val big n b = Inr (w, bb_skip (length (le_bytes n w)) b)"
  by (simp add: read_val_at le_val_le_bytes)

interpretation u8c: codec "le_bytes 1" "\<lambda>_. True" "put_u8 big" "get_u8 big" for big
  by (unfold_locales; unfold put_u8_def get_u8_def;
      ((rule int_codec_wr | rule int_codec_rd); (assumption | simp)))

interpretation u16c: codec "le_bytes 2" "\<lambda>_. True" "put_u16 big" "get_u16 big" for big
  by unfold_locales (simp_all add: put_u16_def get_u16_def int_codec_wr int_codec_rd)

interpretation u32c: codec "le_bytes 4" "\<lambda>_. True" "put_u32 big" "get_u32 big" for big
  by unfold_locales (simp_all add: put_u32_def get_u32_def int_codec_wr int_codec_rd)

interpretation u64c: codec "le_bytes 8" "\<lambda>_. True" "put_u64 big" "get_u64 big" for big
  by unfold_locales (simp_all add: put_u64_def get_u64_def int_codec_wr int_codec_rd)

text \<open>Strings: the characters and the terminating zero; a string with a zero byte in it is cut there.\<close>

definition enc_string :: "u8 list \<Rightarrow> u8 list" where
  "enc_string s = s @ [0]"

lemma le_bytes_u8 [simp]: "le_bytes 1 (w :: u8) = [w]"
  by (simp add: numeral_eq_Suc)

lemma put_string_enc:
  assumes "bb_room (length (enc_string s)) b"
  shows "put_string big s b = Inr (bb_append (enc_string s) b)"
proof (cases "s = []")
  case True
  with assms show ?thesis
    using append_val_room [of 1 b big "0 :: u8"] by (simp add: put_string_def enc_string_def)
next
  case False
  from assms have "bb_room (length s) b" "bb_room 1 (bb_append s b)"
    by (auto simp: enc_string_def intro: bb_room_append elim: bb_room_mono)
  with False show ?thesis
    using append_val_room [of 1 "bb_append s b" big "0 :: u8"]
    by (simp add: put_string_def enc_string_def append_raw_room bb_append_append)
qed

lemma get_u8_at: "bb_at [c] b \<Longrightarrow> get_u8 big b = Inr (c, bb_skip 1 b)"
  using u8c.rd_enc [of c b big] by simp

lemma get_string_loop_enc:
  "0 \<notin> set s \<Longrightarrow> bb_at (enc_string s) b \<Longrightarrow> length s < n \<Longrightarrow>
   get_string_loop big n acc b = Inr (acc @ s, bb_skip (length (enc_string s)) b)"
proof (induction s arbitrary: n acc b)
  case Nil
  then obtain m where n: "n = Suc m" by (cases n) auto
  from Nil have "bb_at [0] b" "rpos b < bb_size b"
    by (auto simp: enc_string_def bb_at_def)
  with n show ?case by (simp add: get_u8_at enc_string_def)
next
  case (Cons c s)
  then obtain m where n: "n = Suc m" "length s < m" by (cases n) auto
  from Cons.prems have "bb_at [c] b" and r: "bb_at (enc_string s) (bb_skip 1 b)" "rpos b < bb_size b"
    using bb_at_head [of c "s @ [0]" b] bb_at_tail [of c "s @ [0]" b]
    by (auto simp: enc_string_def bb_at_def)
  then have "get_u8 big b = Inr (c, bb_skip 1 b)" by (simp add: get_u8_at)
  with Cons n r show ?case
    by (simp add: bb_skip_skip enc_string_def)
qed

lemma get_string_enc:
  assumes "0 \<notin> set s" "bb_at (enc_string s) b"
  shows "get_string big b = Inr (s, bb_skip (length (enc_string s)) b)"
proof -
  have "length s < bb_size b - rpos b"
    using assms(2) by (auto simp: bb_at_def enc_string_def)
  with assms show ?thesis
    by (simp add: get_string_def get_string_loop_enc)
qed

interpretation strc: codec enc_string "\<lambda>s. 0 \<notin> set s" "put_string big" "get_string big" for big
  by unfold_locales (simp_all add: put_string_enc get_string_enc)

section \<open>Packed GUIDs: the codec\<close>

text \<open>Byte \<open>j\<close> of a GUID, the bytes that are sent and the mask, over the bytes \<open>i, \<dots>, i + n - 1\<close>.\<close>

fun nz_bytes :: "nat \<Rightarrow> u64 \<Rightarrow> u8 list" where
  "nz_bytes 0 g = []"
| "nz_bytes (Suc n) g =
     (if g AND 0xFF \<noteq> 0 then [ucast (g AND 0xFF)] else []) @ nz_bytes n (drop_bit 8 g)"

fun nz_mask :: "nat \<Rightarrow> nat \<Rightarrow> u64 \<Rightarrow> u8" where
  "nz_mask i 0 g = 0"
| "nz_mask i (Suc n) g =
     (if g AND 0xFF \<noteq> 0 then push_bit i 1 else 0) OR nz_mask (Suc i) n (drop_bit 8 g)"

lemma nz_bytes_0 [simp]: "nz_bytes n 0 = []"
  by (induction n) auto

lemma nz_mask_0 [simp]: "nz_mask i n 0 = 0"
  by (induction n arbitrary: i) auto

lemma length_nz_bytes: "length (nz_bytes n g) \<le> n"
  by (induction n arbitrary: g) (auto simp: le_SucI)

lemma pack_loop_nz:
  "take_bit (8 * n) g = g \<Longrightarrow> pack_loop i g gm out = (gm OR nz_mask i n g, out @ nz_bytes n g)"
proof (induction n arbitrary: i g gm out)
  case 0
  then show ?case by (simp add: pack_loop.simps [of i 0])
next
  case (Suc n)
  have "take_bit (8 * n) (drop_bit 8 g) = drop_bit 8 g"
    using Suc.prems by (metis add.commute drop_bit_take_bit mult_Suc_right add_diff_cancel_left')
  note IH = Suc.IH [OF this]
  show ?case
  proof (cases "g = 0")
    case True
    then show ?thesis by (simp add: pack_loop.simps [of i 0])
  next
    case False
    then show ?thesis
      by (subst pack_loop.simps) (auto simp: IH or.assoc)
  qed
qed

definition enc_guid :: "u64 \<Rightarrow> u8 list" where
  "enc_guid g = nz_mask 0 8 g # nz_bytes 8 g"

lemma pack_guid_bytes_enc: "pack_guid_bytes g = enc_guid g"
proof -
  have "take_bit (8 * 8) g = g"
    by (rule bit_word_eqI) (auto simp: bit_simps)
  then show ?thesis
    by (simp add: pack_guid_bytes_def enc_guid_def pack_loop_nz [of 8])
qed

lemma enc_guid_not_Nil [simp]: "enc_guid g \<noteq> []"
  by (simp add: enc_guid_def)

lemma length_enc_guid: "length (enc_guid g) \<le> 9"
  using length_nz_bytes [of 8 g] by (simp add: enc_guid_def)

lemma nz_mask_bit_low: "k < i \<Longrightarrow> \<not> bit (nz_mask i n g) k"
  by (induction n arbitrary: i g) (auto simp: bit_simps)

lemma nz_mask_bit: "i < 8 \<Longrightarrow> bit (nz_mask i (Suc n) g) i \<longleftrightarrow> g AND 0xFF \<noteq> 0"
  by (auto simp: bit_simps nz_mask_bit_low)

lemma and_FF: "(g :: u64) AND 0xFF = take_bit 8 g"
  by (simp add: take_bit_eq_mask mask_eq_exp_minus_1)

lemma low_byte_step:
  "take_bit (8 * Suc n) (g :: u64) =
     take_bit 8 g OR push_bit 8 (take_bit (8 * n) (drop_bit 8 g))"
  by (rule bit_word_eqI) (auto simp: bit_simps)

lemma ucast_low_byte: "ucast (ucast (take_bit 8 g) :: u8) = take_bit 8 (g :: u64)"
  by (rule bit_word_eqI) (auto simp: bit_simps)

text \<open>Reading back: the loop adds byte \<open>i\<close> at its place whenever the mask has bit \<open>i\<close>.\<close>

lemma read_pack_loop_enc:
  assumes "i + n \<le> 8" "\<forall>j < n. bit gm (i + j) = bit (nz_mask i n g) (i + j)"
    and "bb_at (nz_bytes n g) b"
  shows "read_pack_loop big gm i n acc b =
           Inr (acc OR push_bit (i * 8) (take_bit (8 * n) g), bb_skip (length (nz_bytes n g)) b)"
  using assms
proof (induction n arbitrary: i g acc b)
  case (Suc n)
  let ?g = "drop_bit 8 g"
  have low: "bit gm i \<longleftrightarrow> take_bit 8 g \<noteq> 0"
    using Suc.prems(1) spec [OF Suc.prems(2), of 0] nz_mask_bit [of i n g] by (simp add: and_FF)
  have rest: "\<forall>j < n. bit gm (Suc i + j) = bit (nz_mask (Suc i) n ?g) (Suc i + j)"
  proof (intro allI impI)
    fix j assume "j < n"
    then show "bit gm (Suc i + j) = bit (nz_mask (Suc i) n ?g) (Suc i + j)"
      using spec [OF Suc.prems(2), of "Suc j"] by (auto simp: bit_simps)
  qed
  have step: "push_bit (i * 8) (take_bit (8 * Suc n) g) =
      push_bit (i * 8) (take_bit 8 g) OR push_bit (Suc i * 8) (take_bit (8 * n) ?g)"
    by (subst low_byte_step) (simp add: push_bit_or add.commute)
  have room: "rpos b + length (nz_bytes (Suc n) g) \<le> bb_size b" "bb_size b < 2 ^ 64"
    using Suc.prems(3) by (auto simp: bb_at_def)
  show ?case
  proof (cases "take_bit 8 g = 0")
    case True
    with Suc.prems(3) have "bb_at (nz_bytes n ?g) b" by (simp add: and_FF)
    from Suc.IH [OF _ rest this] Suc.prems(1) low True step show ?thesis
      by (simp add: and_FF and_exp_eq_0_iff_not_bit)
  next
    case False
    let ?v = "ucast (take_bit 8 g) :: u8"
    from False Suc.prems(3) have "bb_at (?v # nz_bytes n ?g) b" by (simp add: and_FF)
    then have v: "bb_at [?v] b" and r: "bb_at (nz_bytes n ?g) (bb_skip 1 b)"
      by (rule bb_at_head, rule bb_at_tail)
    have "\<not> bb_size b < size_t_add (rpos b) 1"
      using room False by (simp add: and_FF size_t_add_small)
    with Suc.IH [OF _ rest r] Suc.prems(1) low False step v show ?thesis
      by (simp add: and_FF and_exp_eq_0_iff_not_bit get_u8_at ucast_low_byte
          bb_skip_skip or.assoc)
  qed
qed simp

lemma read_pack_guid_enc:
  assumes "bb_at (enc_guid g) b"
  shows "read_pack_guid big b = Inr (g, bb_skip (length (enc_guid g)) b)"
proof -
  from assms have m: "bb_at [nz_mask 0 8 g] b" and r: "bb_at (nz_bytes 8 g) (bb_skip 1 b)"
    unfolding enc_guid_def by (rule bb_at_head, rule bb_at_tail)
  have "take_bit (8 * 8) g = g"
    by (rule bit_word_eqI) (auto simp: bit_simps)
  moreover have "\<not> bb_size b < size_t_add (rpos b) 1"
    using m by (simp add: bb_at_def size_t_add_small)
  ultimately show ?thesis
    using m r read_pack_loop_enc [of 0 8 "nz_mask 0 8 g" g "bb_skip 1 b" big 0]
    by (simp add: read_pack_guid_def get_u8_at bb_skip_skip enc_guid_def)
qed

lemma append_pack_guid_enc:
  "bb_room (length (enc_guid g)) b \<Longrightarrow> append_pack_guid g b = Inr (bb_append (enc_guid g) b)"
  by (simp add: append_pack_guid_def pack_guid_bytes_enc append_raw_room)

interpretation guidc: codec enc_guid "\<lambda>_. True" append_pack_guid "read_pack_guid big" for big
  by unfold_locales (simp_all add: append_pack_guid_enc read_pack_guid_enc)

section \<open>Maps: pairs of codecs\<close>

definition put_pair ::
  "('a \<Rightarrow> byte_buffer \<Rightarrow> bb_error + byte_buffer) \<Rightarrow> ('b \<Rightarrow> byte_buffer \<Rightarrow> bb_error + byte_buffer)
     \<Rightarrow> 'a \<times> 'b \<Rightarrow> byte_buffer \<Rightarrow> bb_error + byte_buffer" where
  "put_pair pa pb p b = sum_bind (pa (fst p) b) (pb (snd p))"

definition get_pair ::
  "(byte_buffer \<Rightarrow> bb_error + ('a \<times> byte_buffer)) \<Rightarrow> (byte_buffer \<Rightarrow> bb_error + ('b \<times> byte_buffer))
     \<Rightarrow> byte_buffer \<Rightarrow> bb_error + (('a \<times> 'b) \<times> byte_buffer)" where
  "get_pair ga gb b =
     sum_bind (ga b) (\<lambda>(x, b1). sum_bind (gb b1) (\<lambda>(y, b2). Inr ((x, y), b2)))"

locale codec_pair = A: codec encA validA wrA rdA + B: codec encB validB wrB rdB
  for encA validA wrA rdA and encB :: "'b \<Rightarrow> u8 list" and validB wrB rdB
begin

lemma pair_wr:
  assumes "validA (fst p)" "validB (snd p)" "bb_room (length (encA (fst p) @ encB (snd p))) b"
  shows "put_pair wrA wrB p b = Inr (bb_append (encA (fst p) @ encB (snd p)) b)"
proof -
  from assms(3) have "bb_room (length (encA (fst p))) b"
    "bb_room (length (encB (snd p))) (bb_append (encA (fst p)) b)"
    by (auto intro: bb_room_append elim: bb_room_mono)
  with assms show ?thesis
    by (simp add: put_pair_def A.wr_enc B.wr_enc bb_append_append)
qed

lemma pair_rd:
  assumes "validA (fst p)" "validB (snd p)" "bb_at (encA (fst p) @ encB (snd p)) b"
  shows "get_pair rdA rdB b = Inr (p, bb_skip (length (encA (fst p) @ encB (snd p))) b)"
proof -
  from assms(3) have "rdA b = Inr (fst p, bb_skip (length (encA (fst p))) b)"
    "rdB (bb_skip (length (encA (fst p))) b) =
       Inr (snd p, bb_skip (length (encB (snd p))) (bb_skip (length (encA (fst p))) b))"
    using assms(1,2) by (auto intro: A.rd_enc B.rd_enc dest: bb_at_left bb_at_right)
  then show ?thesis by (simp add: get_pair_def bb_skip_skip)
qed

sublocale P: codec "\<lambda>p. encA (fst p) @ encB (snd p)" "\<lambda>p. validA (fst p) \<and> validB (snd p)"
  "put_pair wrA wrB" "get_pair rdA rdB"
  by unfold_locales (blast intro: pair_wr pair_rd)+

end

interpretation u32_u64: codec_pair "le_bytes 4" "\<lambda>_. True" "put_u32 big" "get_u32 big"
    "le_bytes 8" "\<lambda>_. True" "put_u64 big" "get_u64 big" for big
  by unfold_locales

text \<open>Reading a map inserts the entries in the order they were sent.\<close>

lemma get_map_loop_conv:
  "get_map_loop get n m b =
     sum_bind (get_list get n [] b)
       (\<lambda>(ps, b'). Inr (fold (\<lambda>(k, v) m. if om_has k m then m else om_set k v m) ps m, b'))"
proof -
  have gen: "get_list get n acc b =
      sum_bind (get_list get n [] b) (\<lambda>(ps, b'). Inr (acc @ ps, b'))" for n acc b
  proof (induction n arbitrary: acc b)
    case (Suc n)
    show ?case
    proof (cases "get b")
      case (Inr p)
      then show ?thesis
        using Suc [of "acc @ [fst p]" "snd p"] Suc [of "[fst p]" "snd p"]
        by (cases "get_list get n [] (snd p)") (auto split: prod.splits)
    qed simp
  qed simp
  show ?thesis
  proof (induction n arbitrary: m b)
    case (Suc n)
    show ?case
    proof (cases "get b")
      case (Inr p)
      then show ?thesis
        using Suc gen [of n "[fst p]" "snd p"]
        by (cases "get_list get n [] (snd p)") (auto split: prod.splits)
    qed simp
  qed simp
qed

lemma om_set_last:
  "\<forall>x \<in> fst ` set m. x < k \<Longrightarrow> om_set k v m = m @ [(k, v)]"
  by (induction k v m rule: om_set.induct) auto

lemma fold_insert_sorted:
  "om_inv (m @ ps) \<Longrightarrow>
   fold (\<lambda>(k, v) m. if om_has k m then m else om_set k v m) ps m = m @ ps"
proof (induction ps arbitrary: m)
  case (Cons p ps)
  obtain k v where p: "p = (k, v)" by force
  from Cons.prems have lt: "\<forall>x \<in> fst ` set m. x < k"
    by (auto simp: om_inv_def sorted_wrt_append p)
  then have "\<not> om_has k m" by (auto simp: om_has_conv)
  with Cons p lt show ?case by (simp add: om_set_last)
qed simp

lemma read_at_mem: "read_at big n pos b = read_at False n pos b"
  by (simp add: read_at_def)

section \<open>The socket buffer\<close>

definition mb_wf :: "message_buffer \<Rightarrow> bool" where
  "mb_wf m \<longleftrightarrow> mb_rpos m \<le> mb_wpos m \<and> mb_wpos m \<le> length (mb_storage m)
     \<and> length (mb_storage m) < 2 ^ 63"

lemma size_t_sub_le: "b \<le> a \<Longrightarrow> a < 2 ^ 64 \<Longrightarrow> size_t_sub a b = a - b"
proof -
  assume "b \<le> a" "a < 2 ^ 64"
  then have "a + 2 ^ 64 - b = (a - b) + 2 ^ 64" "a - b < 2 ^ 64"
    by (blast intro: diff_add_assoc2, blast intro: le_less_trans [OF diff_le_self])
  then show ?thesis by (simp only: size_t_sub_def mod_add_self2 mod_less)
qed

lemma length_vec_resize [simp]: "length (vec_resize n xs) = n"
  by (simp add: vec_resize_def)

lemma mb_wf_sizes:
  "mb_wf m \<Longrightarrow> mb_active_size m = mb_wpos m - mb_rpos m"
  "mb_wf m \<Longrightarrow> mb_remaining_space m = length (mb_storage m) - mb_wpos m"
  by (auto simp: mb_wf_def mb_active_size_def mb_remaining_space_def size_t_sub_le)

lemma length_mb_active: "mb_wf m \<Longrightarrow> length (mb_active m) = mb_wpos m - mb_rpos m"
  by (auto simp: mb_active_def mb_wf_sizes mb_wf_def)

lemma mb_normalize_fields:
  assumes "mb_wf m"
  shows "mb_rpos (mb_normalize m) = 0" "mb_wpos (mb_normalize m) = mb_wpos m - mb_rpos m"
    "length (mb_storage (mb_normalize m)) = length (mb_storage m)"
    "take (mb_wpos m - mb_rpos m) (mb_storage (mb_normalize m)) = mb_active m"
  using assms length_mb_active [OF assms]
  by (auto simp: mb_normalize_def Let_def size_t_sub_le mb_wf_def mb_wf_sizes mb_active_def)

lemma mb_wf_normalize: "mb_wf m \<Longrightarrow> mb_wf (mb_normalize m)"
  using mb_normalize_fields [of m] by (auto simp: mb_wf_def)

lemma mb_write_ok:
  assumes "mb_wf m" "length xs \<le> mb_remaining_space m"
  shows "\<exists>m'. mb_write xs m = Some m' \<and> mb_wf m' \<and> mb_active m' = mb_active m @ xs
           \<and> mb_remaining_space m' = mb_remaining_space m - length xs"
proof (cases "xs = []")
  case True
  with assms show ?thesis by (simp add: mb_write_def)
next
  case False
  let ?m = "mb_write_completed (length xs) (m\<lparr>mb_storage := take (mb_wpos m) (mb_storage m) @ xs
                    @ drop (mb_wpos m + length xs) (mb_storage m)\<rparr>)"
  from assms have fit: "mb_wpos m + length xs \<le> length (mb_storage m)"
    by (auto simp: mb_wf_sizes mb_wf_def)
  have f: "mb_wpos ?m = mb_wpos m + length xs" "mb_rpos ?m = mb_rpos m"
    "mb_storage ?m = take (mb_wpos m) (mb_storage m) @ xs @ drop (mb_wpos m + length xs) (mb_storage m)"
    by (simp_all add: mb_write_completed_def)
  from assms(1) fit f have wf: "mb_wf ?m" by (simp add: mb_wf_def)
  have act: "mb_active ?m = mb_active m @ xs"
    using assms(1) fit unfolding mb_active_def mb_wf_sizes(1) [OF wf] mb_wf_sizes(1) [OF assms(1)] f
    by (simp add: mb_wf_def drop_take)
  have rem: "mb_remaining_space ?m = mb_remaining_space m - length xs"
    using assms(1) fit unfolding mb_wf_sizes(2) [OF wf] mb_wf_sizes(2) [OF assms(1)] f
    by (simp add: mb_wf_def)
  with False fit wf act rem show ?thesis by (auto simp: mb_write_def)
qed

section \<open>Properties\<close>

text \<open>
  the wire format does not depend on the host's byte order: on either host a value is
  written as its little-endian bytes, in place or at the end, and the bytes at a position
  are read as the same value.
\<close>
theorem byte_order_irrelevant:
  "append_val big n (w :: 'a::len word) b = append_raw (Some (le_bytes n w)) n b
   \<and> put_val big pos n w b = put_raw pos (Some (le_bytes n w)) n b
   \<and> (read_at big n pos b :: bb_error + 'a word) = read_at big' n pos b"
  by (metis append_val_def endian_mem_bytes put_val_def read_at_mem)

text \<open>
  C24: a packed GUID takes at most nine bytes, and reading it back where it was written gives
  the same GUID and consumes exactly those bytes, whatever the hosts' byte orders.
\<close>
theorem packed_guid_roundtrip:
  assumes "bb_room 9 b" "rpos b = bb_size b"
  shows "sum_bind (append_pack_guid g b) (read_pack_guid big) =
           Inr (g, bb_skip (length (pack_guid_bytes g)) (bb_append (pack_guid_bytes g) b))
         \<and> length (pack_guid_bytes g) \<le> 9"
  using guidc.roundtrip [OF _ bb_room_mono [OF assms(1) length_enc_guid] assms(2)] length_enc_guid
  by (simp add: pack_guid_bytes_enc)

theorem packed_guid_roundtrip_witness:
  "sum_bind (append_pack_guid 0xF130001234000042 bb_empty) (read_pack_guid True) =
     Inr (0xF130001234000042,
       \<lparr>rpos = length (pack_guid_bytes 0xF130001234000042),
        wpos = length (pack_guid_bytes 0xF130001234000042),
        storage = pack_guid_bytes 0xF130001234000042\<rparr>)"
  using packed_guid_roundtrip [of bb_empty "0xF130001234000042" True]
  by (simp add: bb_empty_def bb_room_def bb_skip_def bb_append_def)

text \<open>
  C32: a map sent with \<open>operator<<\<close> (its 32-bit size, then key and value of each entry) and
  received with \<open>operator>>\<close> is the same map, with the buffer consumed to its end.
\<close>
theorem map_roundtrip:
  fixes m :: "(u32, u64) omap"
  assumes "om_inv m" "length m < 2 ^ 32" "bb_room (4 + 12 * length m) b" "rpos b = bb_size b"
  shows "\<exists>b'. sum_bind (put_map big (put_pair (put_u32 big) (put_u64 big)) m b)
               (get_map big' (get_pair (get_u32 big') (get_u64 big'))) = Inr (m, b')
         \<and> rpos b' = bb_size b' \<and> wpos b' = bb_size b' \<and> bb_size b' = bb_size b + 4 + 12 * length m"
proof -
  let ?enc = "\<lambda>p :: u32 \<times> u64. le_bytes 4 (fst p) @ le_bytes 8 (snd p)"
  have len: "length (concat (map ?enc m)) = 12 * length m"
    by (induction m) auto
  let ?e = "enc_vector ?enc m"
  have wr: "put_map big (put_pair (put_u32 big) (put_u64 big)) m b = Inr (bb_append ?e b)"
    unfolding put_map_def
    by (rule u32_u64.P.put_vector_enc) (use assms(3) len in \<open>simp_all add: enc_vector_def\<close>)
  have at: "bb_at ?e (bb_append ?e b)"
    by (rule bb_at_appended) (use assms len in \<open>simp_all add: enc_vector_def\<close>)
  then have "bb_at (le_bytes 4 (of_nat (length m) :: u32)) (bb_append ?e b)"
    and c: "bb_at (concat (map ?enc m)) (bb_skip 4 (bb_append ?e b))"
    unfolding enc_vector_def by (auto dest: bb_at_left bb_at_right)
  then have n: "get_u32 big' (bb_append ?e b) = Inr (of_nat (length m), bb_skip 4 (bb_append ?e b))"
    by (simp add: u32c.rd_enc)
  have "get_list (get_pair (get_u32 big') (get_u64 big')) (length m) [] (bb_skip 4 (bb_append ?e b))
      = Inr (m, bb_skip (4 + 12 * length m) (bb_append ?e b))"
    using u32_u64.P.get_list_enc [OF _ c, of big' "[]"] by (simp add: len bb_skip_skip)
  moreover have "unat (of_nat (length m) :: u32) = length m"
    using assms(2) by (simp add: unat_of_nat take_bit_nat_eq_self)
  ultimately show ?thesis
    using wr n fold_insert_sorted [of "[]" m] assms(1,3,4) len
    by (simp add: get_map_def get_map_loop_conv bb_skip_def bb_append_def enc_vector_def bb_room_def)
qed

theorem map_roundtrip_witness:
  "\<exists>b'. sum_bind (put_map False (put_pair (put_u32 False) (put_u64 False)) [(1, 7), (3, 9)] bb_empty)
          (get_map True (get_pair (get_u32 True) (get_u64 True))) = Inr ([(1, 7), (3, 9)], b')
     \<and> rpos b' = bb_size b' \<and> wpos b' = bb_size b' \<and> bb_size b' = 28"
  using map_roundtrip [of "[(1, 7), (3, 9)]" bb_empty False True]
  by (simp add: bb_empty_def bb_room_def om_inv_def)

text \<open>
  exactly when a read is out of bounds. The range check of \<open>read<T>(pos)\<close> stops every read
  beyond the end with a position exception, except where \<open>pos + sizeof(T)\<close> wraps around the
  64-bit \<open>size_t\<close>: there the check passes and the read is outside the storage.
\<close>
theorem read_bounds_exact:
  assumes "bb_size b < 2 ^ 63" "pos < 2 ^ 64" "n \<le> 8"
  shows "(read_at big n pos b = Inl OutOfBounds \<longleftrightarrow> 2 ^ 64 \<le> pos + n \<and> pos + n - 2 ^ 64 \<le> bb_size b)
         \<and> (pos + n < 2 ^ 64 \<longrightarrow>
              read_at big n pos b =
                (if pos + n \<le> bb_size b then Inr (le_val (take n (drop pos (storage b))))
                 else Inl (PositionException False pos n (bb_size b))))
         \<and> (2 ^ 64 \<le> pos + n \<and> bb_size b < pos + n - 2 ^ 64 \<longrightarrow>
              read_at big n pos b = Inl (PositionException False pos n (bb_size b)))"
proof (cases "pos + n < 2 ^ 64")
  case True
  then show ?thesis by (auto simp: read_at_def size_t_add_small)
next
  case False
  with assms(2,3) have "size_t_add pos n = pos + n - 2 ^ 64"
    by (simp add: size_t_add_def le_mod_geq)
  with False assms(1) show ?thesis by (auto simp: read_at_def)
qed

theorem read_bounds_exact_witness:
  "read_at False 4 (2 ^ 64 - 1) \<lparr>rpos = 2 ^ 64 - 1, wpos = 4, storage = [1, 2, 3, 4]\<rparr>
     = (Inl OutOfBounds :: bb_error + u32)"
  using read_bounds_exact [of "\<lparr>rpos = 2 ^ 64 - 1, wpos = 4, storage = [1, 2, 3, 4]\<rparr>" "2 ^ 64 - 1" 4 False]
  by simp

text \<open>
  the socket buffer loses no bytes: normalising keeps the unread bytes, moves them to the
  front and gives the consumed space back, and growing a full buffer makes room unless the
  buffer has at most one byte (3/2 of 0 or 1 is 0 or 1).
\<close>
theorem message_buffer_space:
  assumes "mb_wf m"
  shows "mb_active (mb_normalize m) = mb_active m \<and> mb_wf (mb_normalize m)
         \<and> mb_rpos (mb_normalize m) = 0
         \<and> mb_remaining_space (mb_normalize m) = mb_remaining_space m + mb_rpos m
         \<and> (mb_remaining_space m = 0 \<longrightarrow>
              (mb_remaining_space (mb_ensure_free_space m) = 0 \<longleftrightarrow> length (mb_storage m) \<le> 1))"
proof -
  note f = mb_normalize_fields [OF assms]
  have wf: "mb_wf (mb_normalize m)" using assms by (rule mb_wf_normalize)
  have act: "mb_active (mb_normalize m) = mb_active m"
    using f by (simp add: mb_active_def [of "mb_normalize m"] mb_wf_sizes [OF wf])
  have rem: "mb_remaining_space (mb_normalize m) = mb_remaining_space m + mb_rpos m"
    using f assms by (simp add: mb_wf_sizes [OF wf] mb_wf_sizes [OF assms] mb_wf_def)
  have "mb_remaining_space (mb_ensure_free_space m) = 0 \<longleftrightarrow> length (mb_storage m) \<le> 1"
    if "mb_remaining_space m = 0"
  proof -
    from that assms have "mb_wpos m = length (mb_storage m)" "length (mb_storage m) < 2 ^ 63"
      by (auto simp: mb_wf_sizes mb_wf_def)
    then show ?thesis
      using that by (simp add: mb_ensure_free_space_def mb_remaining_space_def size_t_sub_le) linarith
  qed
  with wf act rem f(1) show ?thesis by blast
qed

theorem message_buffer_space_witness:
  "mb_active (mb_normalize \<lparr>mb_wpos = 3, mb_rpos = 1, mb_storage = [7, 8, 9]\<rparr>) = [8, 9]"
proof -
  let ?m = "\<lparr>mb_wpos = 3, mb_rpos = 1, mb_storage = [7, 8, 9 :: u8]\<rparr>"
  have wf: "mb_wf ?m" by (simp add: mb_wf_def)
  moreover have "mb_active ?m = [8, 9]"
    by (simp only: mb_active_def mb_wf_sizes(1) [OF wf]) simp
  ultimately show ?thesis
    using message_buffer_space [of ?m] by simp
qed

end
