(* ===== verification/Guid.thy ===== *)
theory Guid
  imports ByteBuffer
begin

text \<open>
  The 64-bit object identifiers of \<open>src/server/game/Entities/Object/ObjectGuid.h\<close> and
  \<open>ObjectGuid.cpp\<close>: type, entry and counter packed into one word, the type tests, the text
  form, and the counter generators. A GUID is its raw value. The switch statements go by the
  enumerator; \<open>HOther\<close> is a 16-bit type field that is none of the enumerators.
\<close>

type_synonym guid = u64

datatype high_guid =
    HItem | HPlayer | HGameObject | HTransport | HUnit | HPet | HVehicle
  | HDynamicObject | HCorpse | HMo_Transport | HInstance | HGroup | HOther u16

fun high_val :: "high_guid \<Rightarrow> u16" where
  "high_val HItem = 0x4000"
| "high_val HPlayer = 0x0000"
| "high_val HGameObject = 0xF110"
| "high_val HTransport = 0xF120"
| "high_val HUnit = 0xF130"
| "high_val HPet = 0xF140"
| "high_val HVehicle = 0xF150"
| "high_val HDynamicObject = 0xF100"
| "high_val HCorpse = 0xF101"
| "high_val HMo_Transport = 0x1FC0"
| "high_val HInstance = 0x1F40"
| "high_val HGroup = 0x1F50"
| "high_val (HOther w) = w"

definition high_of :: "u16 \<Rightarrow> high_guid" where
  "high_of w =
     (case find (\<lambda>h. high_val h = w)
        [HItem, HPlayer, HGameObject, HTransport, HUnit, HPet, HVehicle,
         HDynamicObject, HCorpse, HMo_Transport, HInstance, HGroup]
      of Some h \<Rightarrow> h | None \<Rightarrow> HOther w)"

datatype type_id =
    TYPEID_OBJECT | TYPEID_ITEM | TYPEID_CONTAINER | TYPEID_UNIT | TYPEID_PLAYER
  | TYPEID_GAMEOBJECT | TYPEID_DYNAMICOBJECT | TYPEID_CORPSE

section \<open>Construction\<close>

definition guid_empty :: guid where
  "guid_empty = 0"

text \<open>\<open>ObjectGuid(HighGuid hi, uint32 entry, LowType counter)\<close>\<close>

definition guid_map_specific :: "high_guid \<Rightarrow> u32 \<Rightarrow> u32 \<Rightarrow> guid" where
  "guid_map_specific hi entry counter =
     (if counter \<noteq> 0
      then ucast counter OR push_bit 24 (ucast entry) OR push_bit 48 (ucast (high_val hi))
      else 0)"

text \<open>\<open>ObjectGuid(HighGuid hi, LowType counter)\<close>\<close>

definition guid_global :: "high_guid \<Rightarrow> u32 \<Rightarrow> guid" where
  "guid_global hi counter =
     (if counter \<noteq> 0 then ucast counter OR push_bit 48 (ucast (high_val hi)) else 0)"

text \<open>The traits: how \<open>Create\<close> builds a GUID of a type.\<close>

fun trait_global :: "high_guid \<Rightarrow> bool" where
  "trait_global HPlayer = True"
| "trait_global HItem = True"
| "trait_global HMo_Transport = True"
| "trait_global HGroup = True"
| "trait_global HInstance = True"
| "trait_global _ = False"

fun trait_map_specific :: "high_guid \<Rightarrow> bool" where
  "trait_map_specific HTransport = True"
| "trait_map_specific HUnit = True"
| "trait_map_specific HVehicle = True"
| "trait_map_specific HPet = True"
| "trait_map_specific HGameObject = True"
| "trait_map_specific HDynamicObject = True"
| "trait_map_specific HCorpse = True"
| "trait_map_specific _ = False"

section \<open>Fields\<close>

fun has_entry_high :: "high_guid \<Rightarrow> bool" where
  "has_entry_high HItem = False"
| "has_entry_high HPlayer = False"
| "has_entry_high HDynamicObject = False"
| "has_entry_high HCorpse = False"
| "has_entry_high HMo_Transport = False"
| "has_entry_high HInstance = False"
| "has_entry_high HGroup = False"
| "has_entry_high HGameObject = True"
| "has_entry_high HTransport = True"
| "has_entry_high HUnit = True"
| "has_entry_high HPet = True"
| "has_entry_high HVehicle = True"
| "has_entry_high (HOther _) = True"

definition get_high :: "guid \<Rightarrow> high_guid" where
  "get_high g = high_of (ucast (drop_bit 48 g AND 0x0000FFFF))"

definition has_entry :: "guid \<Rightarrow> bool" where
  "has_entry g = has_entry_high (get_high g)"

definition get_entry :: "guid \<Rightarrow> u32" where
  "get_entry g = (if has_entry g then ucast (drop_bit 24 g AND 0x0000000000FFFFFF) else 0)"

definition get_counter :: "guid \<Rightarrow> u32" where
  "get_counter g =
     (if has_entry g then ucast (g AND 0x0000000000FFFFFF) else ucast (g AND 0x00000000FFFFFFFF))"

definition get_max_counter :: "high_guid \<Rightarrow> u32" where
  "get_max_counter h = (if has_entry_high h then 0x00FFFFFF else 0xFFFFFFFF)"

definition is_empty :: "guid \<Rightarrow> bool" where "is_empty g \<longleftrightarrow> g = 0"
definition is_creature :: "guid \<Rightarrow> bool" where "is_creature g \<longleftrightarrow> get_high g = HUnit"
definition is_pet :: "guid \<Rightarrow> bool" where "is_pet g \<longleftrightarrow> get_high g = HPet"
definition is_vehicle :: "guid \<Rightarrow> bool" where "is_vehicle g \<longleftrightarrow> get_high g = HVehicle"
definition is_creature_or_pet :: "guid \<Rightarrow> bool" where
  "is_creature_or_pet g \<longleftrightarrow> is_creature g \<or> is_pet g"
definition is_creature_or_vehicle :: "guid \<Rightarrow> bool" where
  "is_creature_or_vehicle g \<longleftrightarrow> is_creature g \<or> is_vehicle g"
definition is_any_type_creature :: "guid \<Rightarrow> bool" where
  "is_any_type_creature g \<longleftrightarrow> is_creature g \<or> is_pet g \<or> is_vehicle g"
definition is_player :: "guid \<Rightarrow> bool" where
  "is_player g \<longleftrightarrow> \<not> is_empty g \<and> get_high g = HPlayer"
definition is_unit :: "guid \<Rightarrow> bool" where
  "is_unit g \<longleftrightarrow> is_any_type_creature g \<or> is_player g"
definition is_item :: "guid \<Rightarrow> bool" where "is_item g \<longleftrightarrow> get_high g = HItem"
definition is_gameobject :: "guid \<Rightarrow> bool" where "is_gameobject g \<longleftrightarrow> get_high g = HGameObject"
definition is_dynamic_object :: "guid \<Rightarrow> bool" where
  "is_dynamic_object g \<longleftrightarrow> get_high g = HDynamicObject"
definition is_corpse :: "guid \<Rightarrow> bool" where "is_corpse g \<longleftrightarrow> get_high g = HCorpse"
definition is_transport :: "guid \<Rightarrow> bool" where "is_transport g \<longleftrightarrow> get_high g = HTransport"
definition is_mo_transport :: "guid \<Rightarrow> bool" where
  "is_mo_transport g \<longleftrightarrow> get_high g = HMo_Transport"
definition is_any_type_gameobject :: "guid \<Rightarrow> bool" where
  "is_any_type_gameobject g \<longleftrightarrow> is_gameobject g \<or> is_transport g \<or> is_mo_transport g"
definition is_instance :: "guid \<Rightarrow> bool" where "is_instance g \<longleftrightarrow> get_high g = HInstance"
definition is_group :: "guid \<Rightarrow> bool" where "is_group g \<longleftrightarrow> get_high g = HGroup"

fun type_id_of :: "high_guid \<Rightarrow> type_id" where
  "type_id_of HItem = TYPEID_ITEM"
| "type_id_of HUnit = TYPEID_UNIT"
| "type_id_of HPet = TYPEID_UNIT"
| "type_id_of HPlayer = TYPEID_PLAYER"
| "type_id_of HGameObject = TYPEID_GAMEOBJECT"
| "type_id_of HDynamicObject = TYPEID_DYNAMICOBJECT"
| "type_id_of HCorpse = TYPEID_CORPSE"
| "type_id_of HMo_Transport = TYPEID_GAMEOBJECT"
| "type_id_of HVehicle = TYPEID_UNIT"
| "type_id_of _ = TYPEID_OBJECT"

fun type_name :: "high_guid \<Rightarrow> string" where
  "type_name HItem = ''Item''"
| "type_name HPlayer = ''Player''"
| "type_name HGameObject = ''Gameobject''"
| "type_name HTransport = ''Transport''"
| "type_name HUnit = ''Creature''"
| "type_name HPet = ''Pet''"
| "type_name HVehicle = ''Vehicle''"
| "type_name HDynamicObject = ''DynObject''"
| "type_name HCorpse = ''Corpse''"
| "type_name HMo_Transport = ''MoTransport''"
| "type_name HInstance = ''InstanceID''"
| "type_name HGroup = ''Group''"
| "type_name (HOther _) = ''<unknown>''"

definition guid_to_string :: "guid \<Rightarrow> string" where
  "guid_to_string g =
     ''GUID Full: 0x'' @ show_hex 16 (unat g)
     @ '' Type: '' @ (if \<not> is_empty g then type_name (get_high g) else ''None'')
     @ (if has_entry g
        then (if is_pet g then '' Pet number: '' else '' Entry: '') @ show_nat (unat (get_entry g)) @ '' ''
        else [])
     @ '' Low: '' @ show_nat (unat (get_counter g))"

section \<open>On the wire\<close>

definition put_guid :: "bool \<Rightarrow> guid \<Rightarrow> byte_buffer \<Rightarrow> bb_error + byte_buffer" where
  "put_guid big g b = put_u64 big g b"

definition get_guid :: "bool \<Rightarrow> byte_buffer \<Rightarrow> bb_error + (guid \<times> byte_buffer)" where
  "get_guid big b = get_u64 big b"

text \<open>\<open>PackedGuid\<close>: a buffer that holds the packed form; \<open>Set\<close> rewinds it and packs again.\<close>

type_synonym packed_guid = byte_buffer

definition packed_init :: "guid \<Rightarrow> bb_error + packed_guid" where
  "packed_init g = append_pack_guid g bb_empty"

definition packed_set :: "guid \<Rightarrow> packed_guid \<Rightarrow> bb_error + packed_guid" where
  "packed_set g p = append_pack_guid g (set_wpos 0 p)"

definition packed_size :: "packed_guid \<Rightarrow> nat" where
  "packed_size p = bb_size p"

definition put_packed :: "packed_guid \<Rightarrow> byte_buffer \<Rightarrow> bb_error + byte_buffer" where
  "put_packed p b = append_buffer p b"

definition get_packed :: "bool \<Rightarrow> byte_buffer \<Rightarrow> bb_error + (guid \<times> byte_buffer)" where
  "get_packed big b = read_pack_guid big b"

section \<open>The generators of counters\<close>

text \<open>
  \<open>ObjectGuidGenerator<high>\<close>: near the last counter of the type \<open>HandleCounterOverflow\<close>
  stops the server (\<open>World::StopNow\<close>, the field \<open>stopped\<close>); the call still returns the counter.
\<close>

record guid_generator =
  next_guid :: u32
  stopped :: bool

definition generator_init :: "u32 \<Rightarrow> guid_generator" where
  "generator_init start = \<lparr>next_guid = start, stopped = False\<rparr>"

definition generate :: "high_guid \<Rightarrow> guid_generator \<Rightarrow> u32 \<times> guid_generator" where
  "generate high s =
     (let s1 = (if get_max_counter high - 1 \<le> next_guid s then s\<lparr>stopped := True\<rparr> else s)
      in (next_guid s1, s1\<lparr>next_guid := next_guid s1 + 1\<rparr>))"

fun generate_many :: "high_guid \<Rightarrow> nat \<Rightarrow> guid_generator \<Rightarrow> u32 list \<times> guid_generator" where
  "generate_many high 0 s = ([], s)"
| "generate_many high (Suc n) s =
     (let (c, s1) = generate high s; (cs, s2) = generate_many high n s1 in (c # cs, s2))"

section \<open>Lemmas\<close>

lemma unat_2_power_small: "k < LENGTH('a) \<Longrightarrow> unat (2 ^ k :: 'a::len word) = 2 ^ k"
proof -
  assume "k < LENGTH('a)"
  then have "take_bit LENGTH('a) (2 ^ k :: nat) = 2 ^ k" by (intro take_bit_nat_eq_self) simp
  moreover have "(2 ^ k :: 'a word) = word_of_nat (2 ^ k)" by simp
  ultimately show ?thesis by (metis unat_of_nat take_bit_nat_def)
qed

lemma word_less_bit:
  fixes w :: "'a::len word"
  assumes "w < 2 ^ k" "bit w n"
  shows "n < k"
proof (cases "k < LENGTH('a)")
  case True
  then have "unat w < 2 ^ k"
    using assms(1) True by (simp add: word_less_nat_alt unat_2_power_small)
  then show ?thesis using assms(2) by (rule bit_unat_less)
next
  case False
  with assms(2) show ?thesis using bit_imp_le_length by fastforce
qed

definition guid_bits :: "u16 \<Rightarrow> u32 \<Rightarrow> u32 \<Rightarrow> guid" where
  "guid_bits h e c = ucast c OR push_bit 24 (ucast e) OR push_bit 48 (ucast h)"

lemma and_mask_16: "w AND 0x0000FFFF = take_bit 16 (w :: u64)"
  by (simp add: take_bit_eq_mask mask_eq_exp_minus_1)

lemma and_mask_24: "w AND 0x0000000000FFFFFF = take_bit 24 (w :: u64)"
  by (simp add: take_bit_eq_mask mask_eq_exp_minus_1)

lemma and_mask_32: "w AND 0x00000000FFFFFFFF = take_bit 32 (w :: u64)"
  by (simp add: take_bit_eq_mask mask_eq_exp_minus_1)

lemma guid_bits_high:
  assumes "e < 2 ^ 24"
  shows "ucast (drop_bit 48 (guid_bits h e c) AND 0x0000FFFF) = h"
  using word_less_bit [OF assms]
  by (intro bit_word_eqI) (auto simp: and_mask_16 guid_bits_def bit_simps dest: bit_imp_le_length)

lemma guid_bits_entry:
  assumes "e < 2 ^ 24" "c < 2 ^ 24"
  shows "ucast (drop_bit 24 (guid_bits h e c) AND 0x0000000000FFFFFF) = e"
  using word_less_bit [OF assms(1)] word_less_bit [OF assms(2)]
  by (intro bit_word_eqI) (auto simp: and_mask_24 guid_bits_def bit_simps dest: bit_imp_le_length)

lemma guid_bits_counter:
  assumes "c < 2 ^ 24"
  shows "ucast (guid_bits h e c AND 0x0000000000FFFFFF) = c"
  using word_less_bit [OF assms]
  by (intro bit_word_eqI) (auto simp: and_mask_24 guid_bits_def bit_simps dest: bit_imp_le_length)

lemma guid_bits_counter_wide: "ucast (guid_bits h 0 c AND 0x00000000FFFFFFFF) = c"
  by (intro bit_word_eqI) (auto simp: and_mask_32 guid_bits_def bit_simps dest: bit_imp_le_length)

definition known_high :: "high_guid \<Rightarrow> bool" where
  "known_high h \<longleftrightarrow> trait_global h \<or> trait_map_specific h"

lemma high_of_val: "known_high h \<Longrightarrow> high_of (high_val h) = h"
  by (cases h) (simp_all add: high_of_def known_high_def)

text \<open>The counters and entries for which the fields do not overlap.\<close>

definition fields_fit :: "high_guid \<Rightarrow> u32 \<Rightarrow> u32 \<Rightarrow> bool" where
  "fields_fit h e c \<longleftrightarrow> 0 < c \<and> c \<le> get_max_counter h \<and> e < 2 ^ 24 \<and> (has_entry_high h \<or> e = 0)"

lemma guid_fields:
  assumes "known_high h" "fields_fit h e c"
  shows "get_high (guid_map_specific h e c) = h"
    and "get_entry (guid_map_specific h e c) = e"
    and "get_counter (guid_map_specific h e c) = c"
proof -
  let ?g = "guid_bits (high_val h) e c"
  have g: "guid_map_specific h e c = ?g"
    using assms(2) by (simp add: guid_map_specific_def guid_bits_def fields_fit_def word_gt_0)
  have e: "e < 2 ^ 24" using assms(2) by (simp add: fields_fit_def)
  have high: "get_high ?g = h"
    unfolding get_high_def using guid_bits_high [OF e] high_of_val [OF assms(1)] by simp
  then show "get_high (guid_map_specific h e c) = h" by (simp add: g)
  have has: "has_entry ?g = has_entry_high h" by (simp add: has_entry_def high)
  show "get_entry (guid_map_specific h e c) = e"
  proof (cases "has_entry_high h")
    case True
    then have "c < 2 ^ 24"
      using assms(2) by (auto simp: fields_fit_def get_max_counter_def word_le_nat_alt word_less_nat_alt)
    with True show ?thesis unfolding g get_entry_def has using guid_bits_entry [OF e] by simp
  next
    case False
    with assms(2) show ?thesis unfolding g get_entry_def has by (simp add: fields_fit_def)
  qed
  show "get_counter (guid_map_specific h e c) = c"
  proof (cases "has_entry_high h")
    case True
    then have "c < 2 ^ 24"
      using assms(2) by (auto simp: fields_fit_def get_max_counter_def word_le_nat_alt word_less_nat_alt)
    with True show ?thesis unfolding g get_counter_def has using guid_bits_counter by simp
  next
    case False
    with assms(2) have "e = 0" by (simp add: fields_fit_def)
    with False show ?thesis unfolding g get_counter_def has using guid_bits_counter_wide by simp
  qed
qed

lemma guid_global_specific: "guid_global h c = guid_map_specific h 0 c"
  by (simp add: guid_global_def guid_map_specific_def)

lemma max_counter_cases: "get_max_counter h = 0x00FFFFFF \<or> get_max_counter h = 0xFFFFFFFF"
  by (simp add: get_max_counter_def)

lemma generate_many_stopped:
  "stopped s \<Longrightarrow> stopped (snd (generate_many h n s))"
  by (induction n arbitrary: s) (simp_all add: generate_def Let_def case_prod_beta)

lemma generate_many_counters:
  assumes "\<not> stopped (snd (generate_many h n s))" "0 < next_guid s"
  shows "fst (generate_many h n s) = map word_of_nat [unat (next_guid s) ..< unat (next_guid s) + n]
         \<and> (0 < n \<longrightarrow> unat (next_guid s) + n \<le> unat (get_max_counter h) - 1)"
  using assms
proof (induction n arbitrary: s)
  case (Suc n)
  let ?c = "next_guid s" and ?s = "snd (generate h s)"
  have ns: "\<not> stopped (snd (generate_many h n ?s))"
    using Suc.prems(1) by (simp add: case_prod_beta Let_def)
  then have lt: "?c < get_max_counter h - 1"
    using generate_many_stopped [of ?s h n]
    by (cases "get_max_counter h - 1 \<le> ?c") (auto simp: generate_def Let_def not_le)
  then have nx: "?s = s\<lparr>next_guid := ?c + 1\<rparr>" and fc: "fst (generate h s) = ?c"
    by (simp_all add: generate_def Let_def not_le [symmetric])
  have u: "unat (?c + 1) = Suc (unat ?c)"
    using lt max_counter_cases [of h] by (auto simp: word_less_nat_alt unat_word_ariths)
  have "0 < ?c + 1" using u by (metis unat_gt_0 word_gt_0 Zero_not_Suc unat_0)
  with Suc.IH [of ?s] ns nx
  have ih: "fst (generate_many h n ?s) = map word_of_nat [Suc (unat ?c) ..< Suc (unat ?c) + n]"
    and b: "0 < n \<longrightarrow> Suc (unat ?c) + n \<le> unat (get_max_counter h) - 1"
    by (simp_all add: u)
  have "Suc (unat ?c) \<le> unat (get_max_counter h) - 1"
    using lt max_counter_cases [of h] by (auto simp: word_less_nat_alt)
  with b have "unat ?c + Suc n \<le> unat (get_max_counter h) - 1" by (cases n) auto
  moreover have "fst (generate_many h (Suc n) s) = ?c # fst (generate_many h n ?s)"
    by (simp add: case_prod_beta Let_def fc)
  ultimately show ?case
    unfolding ih by (simp add: upt_conv_Cons del: upt_Suc)
qed simp

lemma guids_distinct:
  assumes "known_high h" "length es = length cs" "distinct cs"
    and "\<forall>(e, c) \<in> set (zip es cs). fields_fit h e c"
  shows "distinct (map2 (guid_map_specific h) es cs)"
  using assms(2-4)
proof (induction es cs rule: list_induct2)
  case (Cons e es c cs)
  have "guid_map_specific h e c \<noteq> guid_map_specific h e' c'"
    if "(e', c') \<in> set (zip es cs)" for e' c'
  proof
    assume "guid_map_specific h e c = guid_map_specific h e' c'"
    moreover have "fields_fit h e c" "fields_fit h e' c'" using Cons.prems that by auto
    ultimately have "c = c'" using guid_fields(3) [OF assms(1)] by metis
    then show False using Cons.prems that by (auto dest: set_zip_rightD)
  qed
  with Cons show ?case by (auto simp: image_iff)
qed simp

section \<open>Properties\<close>

text \<open>
  The type, the entry and the counter a GUID is created from are the ones it returns, for
  every type the server creates, as long as the counter is within the type's maximum and the
  entry has 24 bits (and is 0 for a type without entry); \<open>Global\<close> is the case of entry 0.
\<close>

theorem guid_roundtrip:
  assumes "known_high h" "fields_fit h e c"
  shows "get_high (guid_map_specific h e c) = h
         \<and> get_entry (guid_map_specific h e c) = e
         \<and> get_counter (guid_map_specific h e c) = c
         \<and> \<not> is_empty (guid_map_specific h e c)
         \<and> (e = 0 \<longrightarrow> guid_global h c = guid_map_specific h e c)"
proof -
  have "guid_map_specific h e c \<noteq> 0"
  proof
    assume "guid_map_specific h e c = 0"
    then have "get_counter (guid_map_specific h e c) = 0" by (simp add: get_counter_def)
    with guid_fields(3) [OF assms] assms(2) show False by (simp add: fields_fit_def)
  qed
  with guid_fields [OF assms] show ?thesis by (simp add: is_empty_def guid_global_specific)
qed

theorem guid_roundtrip_witness:
  "get_high 0xF130001234000042 = HUnit \<and> get_entry 0xF130001234000042 = 0x1234
   \<and> get_counter 0xF130001234000042 = 0x42"
  using guid_roundtrip [of HUnit "0x1234" "0x42"]
  by (simp add: known_high_def fields_fit_def get_max_counter_def guid_map_specific_def)

text \<open>
  C31: While the generator has not stopped the server, the counters it has handed out are
  consecutive from its start value, and the GUIDs made from them (with any entries that fit)
  are non-empty GUIDs of the type, pairwise distinct.
\<close>

theorem generated_guids_unique:
  assumes "known_high h" "start \<noteq> 0" "generate_many h (length es) (generator_init start) = (cs, s)"
    and "\<not> stopped s" "\<forall>e \<in> set es. e < 2 ^ 24 \<and> (has_entry_high h \<or> e = 0)"
  shows "cs = map word_of_nat [unat start ..< unat start + length es]
         \<and> distinct (map2 (guid_map_specific h) es cs)
         \<and> (\<forall>g \<in> set (map2 (guid_map_specific h) es cs). get_high g = h \<and> \<not> is_empty g)"
proof -
  let ?n = "length es" and ?m = "get_max_counter h"
  have gm: "cs = map word_of_nat [unat start ..< unat start + ?n]"
    and bound: "0 < ?n \<longrightarrow> unat start + ?n \<le> unat ?m - 1"
    using generate_many_counters [of h ?n "generator_init start"] assms(2,3,4)
    by (auto simp: generator_init_def word_gt_0)
  have range: "0 < c \<and> c \<le> ?m \<and> unat start \<le> unat c" if c: "c \<in> set cs" for c
  proof -
    obtain k where k: "c = word_of_nat k" "unat start \<le> k" "k < unat start + ?n"
      using c gm by auto
    then have "k \<le> unat ?m" using bound by auto
    then have "unat c = k" using k(1) max_counter_cases [of h] by (auto simp: unat_of_nat)
    moreover have "0 < unat start" using assms(2) by (simp add: unat_gt_0)
    ultimately show ?thesis
      using k(2) \<open>k \<le> unat ?m\<close> by (auto simp: word_le_nat_alt word_less_nat_alt)
  qed
  have fits: "\<forall>(e, c) \<in> set (zip es cs). fields_fit h e c"
    using range assms(5) by (auto simp: fields_fit_def dest: set_zip_leftD set_zip_rightD)
  have "inj_on (word_of_nat :: nat \<Rightarrow> u32) {unat start ..< unat start + ?n}"
  proof (rule inj_onI)
    fix a b assume ab: "a \<in> {unat start ..< unat start + ?n}" "b \<in> {unat start ..< unat start + ?n}"
      "(word_of_nat a :: u32) = word_of_nat b"
    then have "a < 2 ^ 32" "b < 2 ^ 32" using bound max_counter_cases [of h] by auto
    then have "unat (word_of_nat a :: u32) = a" "unat (word_of_nat b :: u32) = b"
      by (simp_all add: unat_of_nat)
    with ab(3) show "a = b" by metis
  qed
  then have "distinct cs" by (simp add: gm distinct_map)
  then have "distinct (map2 (guid_map_specific h) es cs)"
    using guids_distinct [OF assms(1) _ _ fits] gm by simp
  moreover have "\<forall>g \<in> set (map2 (guid_map_specific h) es cs). get_high g = h \<and> get_counter g \<noteq> 0"
    using fits guid_fields [OF assms(1)] by (fastforce simp: fields_fit_def)
  moreover have "is_empty g \<Longrightarrow> get_counter g = 0" for g
    by (simp add: is_empty_def get_counter_def)
  ultimately show ?thesis using gm by blast
qed

theorem generated_guids_unique_witness:
  "distinct (map2 (guid_map_specific HUnit) [7, 7, 9] (fst (generate_many HUnit 3 (generator_init 1))))"
proof -
  have "generate_many HUnit 3 (generator_init 1) = ([1, 2, 3], \<lparr>next_guid = 4, stopped = False\<rparr>)"
    by code_simp
  moreover from this have "generate_many HUnit (length [7, 7, 9 :: u32]) (generator_init 1) =
      ([1, 2, 3], \<lparr>next_guid = 4, stopped = False\<rparr>)" by (simp only: list.size numeral_3_eq_3 add_0_right add_Suc_right)
  ultimately show ?thesis
    using generated_guids_unique [of HUnit 1 "[7, 7, 9]" "[1, 2, 3]" "\<lparr>next_guid = 4, stopped = False\<rparr>"]
    by (simp add: known_high_def del: generate_many.simps)
qed

end
