(* ===== verification/EventMap.thy ===== *)
theory EventMap
  imports Prelude "HOL-Library.Multiset"
begin

text \<open>
  The event scheduler of the scripts, \<open>src/common/Utilities/EventMap.h\<close> and \<open>EventMap.cpp\<close>:
  a stopwatch, a phase mask and a multimap from due times to event data \<open>0xPPGGEEEE\<close> (phases,
  groups, id). All arithmetic is on 32-bit words and wraps. The multimap keeps equal times in
  insertion order.
\<close>

type_synonym event_store = "(u32 \<times> u32) list"

record event_map =
  em_time :: u32
  em_phase :: u8
  em_store :: event_store
  em_last :: u32

definition em_init :: event_map where
  "em_init = \<lparr>em_time = 0, em_phase = 0, em_store = [], em_last = 0\<rparr>"

text \<open>\<open>Reset\<close> keeps the last event.\<close>

definition em_reset :: "event_map \<Rightarrow> event_map" where
  "em_reset m = m\<lparr>em_store := [], em_time := 0, em_phase := 0\<rparr>"

definition em_update :: "u32 \<Rightarrow> event_map \<Rightarrow> event_map" where
  "em_update t m = m\<lparr>em_time := em_time m + t\<rparr>"

definition em_empty :: "event_map \<Rightarrow> bool" where
  "em_empty m \<longleftrightarrow> em_store m = []"

section \<open>Phases\<close>

definition phase_bit :: "u8 \<Rightarrow> u8" where
  "phase_bit p = push_bit (unat (p - 1)) 1"

definition em_set_phase :: "u8 \<Rightarrow> event_map \<Rightarrow> event_map" where
  "em_set_phase p m =
     (if p = 0 then m\<lparr>em_phase := 0\<rparr>
      else if p \<le> 8 then m\<lparr>em_phase := phase_bit p\<rparr>
      else m)"

definition em_add_phase :: "u8 \<Rightarrow> event_map \<Rightarrow> event_map" where
  "em_add_phase p m =
     (if p \<noteq> 0 \<and> p \<le> 8 then m\<lparr>em_phase := em_phase m OR phase_bit p\<rparr> else m)"

definition em_remove_phase :: "u8 \<Rightarrow> event_map \<Rightarrow> event_map" where
  "em_remove_phase p m =
     (if p \<noteq> 0 \<and> p \<le> 8 then m\<lparr>em_phase := em_phase m AND NOT (phase_bit p)\<rparr> else m)"

definition em_in_phase :: "u8 \<Rightarrow> event_map \<Rightarrow> bool" where
  "em_in_phase p m \<longleftrightarrow> p \<le> 8 \<and> (p = 0 \<or> em_phase m AND phase_bit p \<noteq> 0)"

section \<open>Scheduling\<close>

text \<open>The bit of a group (1 to 8) and of a phase (1 to 8) in the event data.\<close>

definition group_bit :: "u32 \<Rightarrow> u32" where
  "group_bit g = push_bit (unat (g + 15)) 1"

definition event_phase_bit :: "u8 \<Rightarrow> u32" where
  "event_phase_bit p = push_bit (unat p + 23) 1"

definition event_data :: "u32 \<Rightarrow> u32 \<Rightarrow> u8 \<Rightarrow> u32" where
  "event_data event_id grp phase =
     (let e = (if grp \<noteq> 0 \<and> grp \<le> 8 then event_id OR group_bit grp else event_id)
      in if phase \<noteq> 0 \<and> phase \<le> 8 then e OR event_phase_bit phase else e)"

definition em_schedule :: "u32 \<Rightarrow> u32 \<Rightarrow> u32 \<Rightarrow> u8 \<Rightarrow> event_map \<Rightarrow> event_map" where
  "em_schedule event_id time grp phase m =
     m\<lparr>em_store := mm_ins (em_time m + time) (event_data event_id grp phase) (em_store m)\<rparr>"

text \<open>The \<open>Milliseconds\<close> overload truncates the 64-bit count.\<close>

definition em_schedule_ms :: "u32 \<Rightarrow> u64 \<Rightarrow> u32 \<Rightarrow> u8 \<Rightarrow> event_map \<Rightarrow> event_map" where
  "em_schedule_ms event_id time grp phase m = em_schedule event_id (ucast time) grp phase m"

definition em_repeat :: "u32 \<Rightarrow> event_map \<Rightarrow> event_map" where
  "em_repeat time m = m\<lparr>em_store := mm_ins (em_time m + time) (em_last m) (em_store m)\<rparr>"

text \<open>\<open>Repeat(minTime, maxTime)\<close>; \<open>urand\<close> asserts its bounds, \<open>rnd\<close> is its generator.\<close>

definition em_repeat_between ::
    "(u32 \<Rightarrow> u32 \<Rightarrow> u32) \<Rightarrow> u32 \<Rightarrow> u32 \<Rightarrow> event_map \<Rightarrow> event_map option" where
  "em_repeat_between rnd lo hi m = (if lo \<le> hi then Some (em_repeat (rnd lo hi) m) else None)"

section \<open>Execution\<close>

definition event_blocked :: "u8 \<Rightarrow> u32 \<Rightarrow> bool" where
  "event_blocked phase d \<longleftrightarrow> phase \<noteq> 0 \<and> d AND 0xFF000000 \<noteq> 0 \<and> drop_bit 24 d AND ucast phase = 0"

fun execute_loop :: "event_store \<Rightarrow> event_map \<Rightarrow> u32 \<times> event_map" where
  "execute_loop [] m = (0, m\<lparr>em_store := []\<rparr>)"
| "execute_loop ((t, d) # rest) m =
     (if em_time m < t then (0, m\<lparr>em_store := (t, d) # rest\<rparr>)
      else if event_blocked (em_phase m) d then execute_loop rest m
      else (d AND 0x0000FFFF, m\<lparr>em_last := d, em_store := rest\<rparr>))"

definition em_execute :: "event_map \<Rightarrow> u32 \<times> event_map" where
  "em_execute m = execute_loop (em_store m) m"

section \<open>Delays, cancellation, queries\<close>

definition em_delay :: "u32 \<Rightarrow> event_map \<Rightarrow> event_map" where
  "em_delay delay m = m\<lparr>em_time := (if delay < em_time m then em_time m - delay else 0)\<rparr>"

fun delay_loop :: "u32 \<Rightarrow> u32 \<Rightarrow> event_store \<Rightarrow> event_store \<Rightarrow> event_store \<times> event_store" where
  "delay_loop delay grp delayed [] = ([], delayed)"
| "delay_loop delay grp delayed ((t, d) # rest) =
     (if d AND group_bit grp \<noteq> 0
      then delay_loop delay grp (mm_ins (t + delay) d delayed) rest
      else (case delay_loop delay grp delayed rest of (kept, del) \<Rightarrow> ((t, d) # kept, del)))"

definition em_delay_group :: "u32 \<Rightarrow> u32 \<Rightarrow> event_map \<Rightarrow> event_map" where
  "em_delay_group delay grp m =
     (if grp = 0 \<or> 8 < grp \<or> em_empty m then m
      else case delay_loop delay grp [] (em_store m) of (kept, delayed) \<Rightarrow>
        m\<lparr>em_store := fold (\<lambda>(t, d). mm_ins t d) delayed kept\<rparr>)"

definition em_cancel :: "u32 \<Rightarrow> event_map \<Rightarrow> event_map" where
  "em_cancel event_id m =
     (if em_empty m then m
      else m\<lparr>em_store := filter (\<lambda>(t, d). event_id \<noteq> d AND 0x0000FFFF) (em_store m)\<rparr>)"

definition em_cancel_group :: "u32 \<Rightarrow> event_map \<Rightarrow> event_map" where
  "em_cancel_group grp m =
     (if grp = 0 \<or> 8 < grp \<or> em_empty m then m
      else m\<lparr>em_store := filter (\<lambda>(t, d). d AND group_bit grp = 0) (em_store m)\<rparr>)"

definition em_reschedule :: "u32 \<Rightarrow> u32 \<Rightarrow> u32 \<Rightarrow> u8 \<Rightarrow> event_map \<Rightarrow> event_map" where
  "em_reschedule event_id time grp phase m =
     em_schedule event_id time grp phase (em_cancel event_id m)"

fun first_event :: "u32 \<Rightarrow> event_store \<Rightarrow> u32 option" where
  "first_event event_id [] = None"
| "first_event event_id ((t, d) # rest) =
     (if event_id = d AND 0x0000FFFF then Some t else first_event event_id rest)"

definition em_next_time_of :: "u32 \<Rightarrow> event_map \<Rightarrow> u32" where
  "em_next_time_of event_id m =
     (if em_empty m then 0
      else case first_event event_id (em_store m) of Some t \<Rightarrow> t | None \<Rightarrow> 0)"

definition em_next_time :: "event_map \<Rightarrow> u32" where
  "em_next_time m = (case em_store m of [] \<Rightarrow> 0 | (t, d) # rest \<Rightarrow> t)"

definition em_time_until :: "u32 \<Rightarrow> event_map \<Rightarrow> u32" where
  "em_time_until event_id m =
     (case first_event event_id (em_store m) of Some t \<Rightarrow> t - em_time m | None \<Rightarrow> 0xFFFFFFFF)"

section \<open>Operations as steps\<close>

datatype em_op =
    EmReset | EmUpdate u32 | EmSetPhase u8 | EmAddPhase u8 | EmRemovePhase u8
  | EmSchedule u32 u32 u32 u8 | EmReschedule u32 u32 u32 u8 | EmRepeat u32 | EmExecute
  | EmDelay u32 | EmDelayGroup u32 u32 | EmCancel u32 | EmCancelGroup u32

fun em_step :: "em_op \<Rightarrow> event_map \<Rightarrow> event_map" where
  "em_step EmReset m = em_reset m"
| "em_step (EmUpdate t) m = em_update t m"
| "em_step (EmSetPhase p) m = em_set_phase p m"
| "em_step (EmAddPhase p) m = em_add_phase p m"
| "em_step (EmRemovePhase p) m = em_remove_phase p m"
| "em_step (EmSchedule e t g p) m = em_schedule e t g p m"
| "em_step (EmReschedule e t g p) m = em_reschedule e t g p m"
| "em_step (EmRepeat t) m = em_repeat t m"
| "em_step EmExecute m = snd (em_execute m)"
| "em_step (EmDelay t) m = em_delay t m"
| "em_step (EmDelayGroup t g) m = em_delay_group t g m"
| "em_step (EmCancel e) m = em_cancel e m"
| "em_step (EmCancelGroup g) m = em_cancel_group g m"

definition em_run :: "em_op list \<Rightarrow> event_map" where
  "em_run ops = fold em_step ops em_init"

text \<open>
  The loop of the scripts' \<open>UpdateAI\<close>, \<open>while (uint32 eventId = events.ExecuteEvent())\<close>, with a
  body that schedules nothing. It returns the events in execution order.
\<close>

function em_drain :: "event_map \<Rightarrow> u32 list \<times> event_map" where
  "em_drain m =
     (case em_execute m of (e, m') \<Rightarrow>
        if e = 0 then ([], m') else (case em_drain m' of (es, m'') \<Rightarrow> (e # es, m'')))"
  by pat_completeness auto

lemma execute_loop_shrinks:
  "fst (execute_loop s m) \<noteq> 0 \<Longrightarrow> length (em_store (snd (execute_loop s m))) < length s"
  by (induction s m rule: execute_loop.induct) (auto simp: less_Suc_eq split: if_splits)

lemma em_execute_shrinks:
  "(e, m') = em_execute m \<Longrightarrow> e \<noteq> 0 \<Longrightarrow> length (em_store m') < length (em_store m)"
  using execute_loop_shrinks [of "em_store m" m] by (metis em_execute_def fst_conv snd_conv)

termination em_drain
  by (relation "measure (\<lambda>m. length (em_store m))") (simp_all add: em_execute_shrinks)

declare em_drain.simps [simp del]

section \<open>The invariant: the store is ordered by time\<close>

definition em_inv :: "event_map \<Rightarrow> bool" where
  "em_inv m \<longleftrightarrow> mm_inv (em_store m)"

lemma mset_mm_ins [simp]: "mset (mm_ins k v m) = add_mset (k, v) (mset m)"
  by (induction k v m rule: mm_ins.induct) auto

lemma mset_fold_mm_ins: "mset (fold (\<lambda>(t, d). mm_ins t d) xs s) = mset xs + mset s"
  by (induction xs arbitrary: s) (auto simp: case_prod_beta)

lemma mm_inv_fold_ins: "mm_inv s \<Longrightarrow> mm_inv (fold (\<lambda>(t, d). mm_ins t d) xs s)"
  by (induction xs arbitrary: s) (auto simp: case_prod_beta)

lemma mm_inv_append: "mm_inv (xs @ ys) \<Longrightarrow> mm_inv ys"
  by (simp add: mm_inv_def sorted_append)

lemma delay_loop_split:
  "delay_loop delay grp delayed s =
     (filter (\<lambda>(t, d). d AND group_bit grp = 0) s,
      fold (\<lambda>(t, d). mm_ins (t + delay) d) (filter (\<lambda>(t, d). d AND group_bit grp \<noteq> 0) s) delayed)"
  by (induction delay grp delayed s rule: delay_loop.induct) auto

lemma execute_loop_split:
  "\<exists>skipped rest. s = skipped @ rest
     \<and> (\<forall>(t, d) \<in> set skipped. t \<le> em_time m \<and> event_blocked (em_phase m) d)
     \<and> (case rest of
          [] \<Rightarrow> execute_loop s m = (0, m\<lparr>em_store := []\<rparr>)
        | (t, d) # r \<Rightarrow>
            if em_time m < t then execute_loop s m = (0, m\<lparr>em_store := rest\<rparr>)
            else \<not> event_blocked (em_phase m) d
                 \<and> execute_loop s m = (d AND 0x0000FFFF, m\<lparr>em_last := d, em_store := r\<rparr>))"
proof (induction s m rule: execute_loop.induct)
  case (2 t d rest m)
  show ?case
  proof (cases "\<not> em_time m < t \<and> event_blocked (em_phase m) d")
    case True
    with 2 obtain skipped r where
      "rest = skipped @ r" "\<forall>(t, d) \<in> set skipped. t \<le> em_time m \<and> event_blocked (em_phase m) d"
      "case r of [] \<Rightarrow> execute_loop rest m = (0, m\<lparr>em_store := []\<rparr>)
        | (t, d) # q \<Rightarrow>
            if em_time m < t then execute_loop rest m = (0, m\<lparr>em_store := r\<rparr>)
            else \<not> event_blocked (em_phase m) d
                 \<and> execute_loop rest m = (d AND 0x0000FFFF, m\<lparr>em_last := d, em_store := q\<rparr>)"
      by (elim impE exE conjE) auto
    with True show ?thesis
      by (intro exI [of _ "(t, d) # skipped"] exI [of _ r]) (auto split: list.splits)
  next
    case False
    then show ?thesis
      by (intro exI [of _ "[]"] exI [of _ "(t, d) # rest"]) auto
  qed
qed (intro exI [of _ "[]"], simp)

lemma mm_inv_execute_loop: "mm_inv s \<Longrightarrow> mm_inv (em_store (snd (execute_loop s m)))"
  by (induction s m rule: execute_loop.induct) (auto dest: mm_inv_ConsD)

lemma em_inv_execute [inv_lemmas]: "em_inv m \<Longrightarrow> em_inv (snd (em_execute m))"
  by (simp add: em_inv_def em_execute_def mm_inv_execute_loop)

lemma em_inv_delay_group [inv_lemmas]: "em_inv m \<Longrightarrow> em_inv (em_delay_group delay grp m)"
  by (simp add: em_inv_def em_delay_group_def delay_loop_split mm_inv_fold_ins)

lemma em_inv_schedule [inv_lemmas]: "em_inv m \<Longrightarrow> em_inv (em_schedule e t g p m)"
  by (simp add: em_inv_def em_schedule_def)

lemma em_inv_cancel [inv_lemmas]: "em_inv m \<Longrightarrow> em_inv (em_cancel e m)"
  by (simp add: em_inv_def em_cancel_def)

lemma em_inv_step: "em_inv m \<Longrightarrow> em_inv (em_step ev m)"
  by (cases ev)
    (simp_all add: inv_lemmas em_reschedule_def,
     simp_all add: em_inv_def em_reset_def em_update_def em_set_phase_def em_add_phase_def
       em_remove_phase_def em_repeat_def em_delay_def em_cancel_group_def)

interpretation em: transition_system em_step em_inv
  by unfold_locales (rule em_inv_step)

lemma em_init_inv: "em_inv em_init"
  by (simp add: em_inv_def em_init_def)

section \<open>Event data\<close>

lemma mask_low16: "(0x0000FFFF :: u32) = mask 16"
  by (simp add: mask_eq_exp_minus_1)

lemma mask_high8: "(0xFF000000 :: u32) = push_bit 24 (mask 8)"
  by (simp add: mask_eq_exp_minus_1 push_bit_eq_mult)

lemma bit_group_bit: "g \<noteq> 0 \<Longrightarrow> g \<le> 8 \<Longrightarrow> bit (group_bit g) n \<longleftrightarrow> n = unat g + 15"
proof -
  assume "g \<noteq> 0" "g \<le> 8"
  then have "unat g \<le> 8" by (simp add: word_le_nat_alt)
  moreover from this have "unat (g + 15) = unat g + 15" by (simp add: unat_word_ariths)
  ultimately show ?thesis by (auto simp: group_bit_def bit_exp_iff)
qed

lemma bit_event_phase_bit: "p \<le> 8 \<Longrightarrow> bit (event_phase_bit p) n \<longleftrightarrow> n = unat p + 23"
  by (auto simp: event_phase_bit_def bit_exp_iff word_le_nat_alt)

lemma bit_phase_bit: "p \<noteq> 0 \<Longrightarrow> p \<le> 8 \<Longrightarrow> bit (phase_bit p) n \<longleftrightarrow> n + 1 = unat p"
proof -
  assume p: "p \<noteq> 0" "p \<le> 8"
  then have "0 < unat p" "unat p \<le> 8" by (simp_all add: word_le_nat_alt unat_gt_0)
  moreover from this have "unat (p - 1) = unat p - 1" by (simp add: unat_minus_one p)
  ultimately show ?thesis by (auto simp: phase_bit_def bit_exp_iff)
qed

lemma bit_event_data:
  "bit (event_data e g p) n \<longleftrightarrow>
     bit e n \<or> (g \<noteq> 0 \<and> g \<le> 8 \<and> n = unat g + 15) \<or> (p \<noteq> 0 \<and> p \<le> 8 \<and> n = unat p + 23)"
  by (auto simp: event_data_def Let_def bit_or_iff bit_group_bit bit_event_phase_bit)

lemma id_bit_small: "e AND 0x0000FFFF = e \<Longrightarrow> bit (e :: u32) n \<Longrightarrow> n < 16"
  unfolding mask_low16 by (metis bit_and_iff bit_mask_iff)

lemma event_data_id:
  assumes "e AND 0x0000FFFF = e"
  shows "event_data e g p AND 0x0000FFFF = e"
proof (rule bit_word_eqI)
  fix n assume "n < LENGTH(32)"
  have "p \<noteq> 0 \<Longrightarrow> 0 < unat p" and "g \<noteq> 0 \<Longrightarrow> 0 < unat g" by (simp_all add: unat_gt_0)
  then show "bit (event_data e g p AND 0x0000FFFF) n = bit e n"
    using id_bit_small [OF assms, of n]
    unfolding mask_low16 by (auto simp: bit_and_iff bit_mask_iff bit_event_data)
qed

lemma event_blocked_bits:
  "event_blocked ph d \<longleftrightarrow> ph \<noteq> 0 \<and> (\<exists>n < 8. bit d (n + 24)) \<and> (\<forall>n < 8. \<not> (bit d (n + 24) \<and> bit ph n))"
proof -
  have "d AND 0xFF000000 \<noteq> 0 \<longleftrightarrow> (\<exists>n < 8. bit d (n + 24))" (is "?l \<longleftrightarrow> ?r")
  proof
    assume ?l
    then obtain k where "bit d k" "24 \<le> k" "k - 24 < 8"
      unfolding mask_high8 by (auto simp: word_and_zero_iff_no_bit bit_simps)
    then show ?r by (intro exI [of _ "k - 24"]) simp
  next
    assume ?r
    then show ?l
      unfolding mask_high8 by (force simp: word_and_zero_iff_no_bit bit_simps dest: bit_imp_le_length)
  qed
  moreover have "drop_bit 24 d AND ucast ph = 0 \<longleftrightarrow> (\<forall>n < 8. \<not> (bit d (n + 24) \<and> bit ph n))"
  proof -
    have u8: "bit ph n \<Longrightarrow> n < 8" for n using bit_imp_le_length [of ph n] by simp
    show ?thesis
      by (auto simp: word_and_zero_iff_no_bit bit_drop_bit_eq bit_unsigned_iff add.commute
          dest: u8 bit_imp_possible_bit)
  qed
  ultimately show ?thesis by (simp add: event_blocked_def)
qed

lemma event_data_blocked:
  assumes "e AND 0x0000FFFF = e"
  shows "event_blocked ph (event_data e g p) \<longleftrightarrow>
           ph \<noteq> 0 \<and> p \<noteq> 0 \<and> p \<le> 8 \<and> ph AND phase_bit p = 0"
proof -
  have b: "bit (event_data e g p) (n + 24) \<longleftrightarrow> p \<noteq> 0 \<and> p \<le> 8 \<and> n + 1 = unat p" for n
    using id_bit_small [OF assms, of "n + 24"] by (auto simp: bit_event_data word_le_nat_alt)
  have "p \<noteq> 0 \<Longrightarrow> p \<le> 8 \<Longrightarrow> ph AND phase_bit p = 0 \<longleftrightarrow> \<not> bit ph (unat p - 1)"
    using unat_gt_0 [of p]
    by (auto simp: word_and_zero_iff_no_bit bit_phase_bit) (metis diff_Suc_1 One_nat_def)+
  moreover have "p \<noteq> 0 \<Longrightarrow> p \<le> 8 \<Longrightarrow> unat p - 1 < 8 \<and> unat p - 1 + 1 = unat p"
    using unat_gt_0 [of p] by (auto simp: word_le_nat_alt)
  ultimately show ?thesis
    unfolding event_blocked_bits b by (metis add_diff_cancel_right')
qed

section \<open>Draining the map\<close>

definition runnable :: "event_map \<Rightarrow> u32 \<times> u32 \<Rightarrow> bool" where
  "runnable m = (\<lambda>(t, d). t \<le> em_time m \<and> \<not> event_blocked (em_phase m) d)"

definition event_id_of :: "u32 \<times> u32 \<Rightarrow> u32" where
  "event_id_of = (\<lambda>(t, d). d AND 0x0000FFFF)"

lemma runnable_cong [simp]:
  "runnable (m\<lparr>em_store := x\<rparr>) = runnable m" "runnable (m\<lparr>em_last := y\<rparr>) = runnable m"
  by (auto simp: runnable_def fun_eq_iff)

lemma execute_loop_store: "execute_loop s (m\<lparr>em_store := x\<rparr>) = execute_loop s m"
  by (induction s m rule: execute_loop.induct) auto

lemma execute_at: "em_execute (m\<lparr>em_store := s\<rparr>) = execute_loop s m"
  by (simp add: em_execute_def execute_loop_store)

lemma em_drain_at:
  "mm_inv s \<Longrightarrow> \<forall>p \<in> set s. runnable m p \<longrightarrow> event_id_of p \<noteq> 0 \<Longrightarrow>
   em_drain (m\<lparr>em_store := s\<rparr>) =
     (map event_id_of (filter (runnable m) s),
      m\<lparr>em_store := filter (\<lambda>(t, d). em_time m < t) s,
        em_last := (if filter (runnable m) s = [] then em_last m else snd (last (filter (runnable m) s)))\<rparr>)"
proof (induction s arbitrary: m)
  case Nil
  show ?case by (subst em_drain.simps) (simp add: execute_at)
next
  case (Cons p s)
  obtain t d where p: "p = (t, d)" by (cases p)
  have inv: "mm_inv s" using Cons.prems(1) by (rule mm_inv_ConsD)
  have nz: "\<forall>p \<in> set s. runnable m p \<longrightarrow> event_id_of p \<noteq> 0" using Cons.prems(2) by simp
  consider (late) "em_time m < t" | (blocked) "\<not> em_time m < t" "event_blocked (em_phase m) d"
    | (runs) "\<not> em_time m < t" "\<not> event_blocked (em_phase m) d" by blast
  then show ?case
  proof cases
    case late
    then have later: "\<forall>q \<in> set s. em_time m < fst q"
      using Cons.prems(1) by (fastforce simp: p mm_inv_Cons)
    then have "filter (runnable m) s = []"
      by (auto simp: filter_empty_conv runnable_def not_le)
    moreover have "filter (\<lambda>(t, d). em_time m < t) s = s"
      using later by (auto simp: filter_id_conv)
    moreover have "\<not> runnable m (t, d)" using late by (auto simp: runnable_def dest: leD)
    ultimately show ?thesis
      using late by (subst em_drain.simps) (simp add: p execute_at)
  next
    case blocked
    then have "em_drain (m\<lparr>em_store := p # s\<rparr>) = em_drain (m\<lparr>em_store := s\<rparr>)"
      by (subst (1 2) em_drain.simps) (simp add: p execute_at)
    moreover have "\<not> runnable m (t, d)" using blocked by (simp add: runnable_def)
    ultimately show ?thesis using Cons.IH [OF inv nz] blocked by (simp add: p)
  next
    case runs
    then have r: "runnable m (t, d)" by (simp add: runnable_def not_less)
    with Cons.prems(2) have id: "d AND 0x0000FFFF \<noteq> 0" by (simp add: p event_id_of_def)
    let ?m = "m\<lparr>em_last := d\<rparr>"
    have "em_execute (m\<lparr>em_store := p # s\<rparr>) = (d AND 0x0000FFFF, ?m\<lparr>em_store := s\<rparr>)"
      using runs by (simp add: p execute_at)
    then have "em_drain (m\<lparr>em_store := p # s\<rparr>) =
        (case em_drain (?m\<lparr>em_store := s\<rparr>) of (es, m'') \<Rightarrow> ((d AND 0x0000FFFF) # es, m''))"
      using id by (subst em_drain.simps) simp
    also have "em_drain (?m\<lparr>em_store := s\<rparr>) =
        (map event_id_of (filter (runnable m) s),
         ?m\<lparr>em_store := filter (\<lambda>(t, d). em_time m < t) s,
           em_last := (if filter (runnable m) s = [] then d else snd (last (filter (runnable m) s)))\<rparr>)"
      using Cons.IH [OF inv, of ?m] nz by simp
    finally show ?thesis
      using r runs by (simp add: p event_id_of_def)
  qed
qed

lemma em_drain_run:
  assumes "em_inv m" "\<forall>p \<in> set (em_store m). runnable m p \<longrightarrow> event_id_of p \<noteq> 0"
  shows "em_drain m =
     (map event_id_of (filter (runnable m) (em_store m)),
      m\<lparr>em_store := filter (\<lambda>(t, d). em_time m < t) (em_store m),
        em_last := (if filter (runnable m) (em_store m) = [] then em_last m
                    else snd (last (filter (runnable m) (em_store m))))\<rparr>)"
  using em_drain_at [of "em_store m" m] assms by (simp add: em_inv_def)

lemma first_event_filter:
  "first_event e s =
     (case filter (\<lambda>p. event_id_of p = e) s of [] \<Rightarrow> None | p # ps \<Rightarrow> Some (fst p))"
  by (induction e s rule: first_event.induct) (auto simp: event_id_of_def)

lemma filter_mm_ins:
  "filter P (mm_ins k v s) = (if P (k, v) then mm_ins k v (filter P s) else filter P s)"
  if "mm_inv s"
  using that
proof (induction k v s rule: mm_ins.induct)
  case (2 k v a b m)
  show ?case
  proof (cases "a \<le> k")
    case True
    with 2 show ?thesis by (auto simp: mm_inv_Cons)
  next
    case False
    have "mm_ins k v s = (k, v) # s" if "\<forall>x \<in> fst ` set s. k < x" for s :: "('a \<times> 'b) list"
      using that by (cases s) auto
    moreover have "\<forall>x \<in> fst ` set (filter P ((a, b) # m)). k < x"
      using False 2 by (auto simp: mm_inv_Cons)
    ultimately show ?thesis using False by auto
  qed
qed simp

lemma em_cancel_time: "em_time (em_cancel e m) = em_time m"
  by (simp add: em_cancel_def)

lemma em_cancel_filter: "em_store (em_cancel e m) = filter (\<lambda>p. event_id_of p \<noteq> e) (em_store m)"
  by (auto simp: em_cancel_def em_empty_def event_id_of_def case_prod_beta intro!: filter_cong)

section \<open>Properties\<close>

text \<open>
  C20: In every state the operations reach, \<open>ExecuteEvent\<close> discards events that are due but
  outside the active phases, and then either runs the next event -- due, in phase, and no later
  than any event it leaves -- and remembers its data, or returns 0 with only future events left.
\<close>

theorem execute_event_contract:
  "\<exists>skipped rest. em_store (em_run ops) = skipped @ rest
     \<and> (\<forall>(t, d) \<in> set skipped.
           t \<le> em_time (em_run ops) \<and> event_blocked (em_phase (em_run ops)) d)
     \<and> ((\<exists>t d r. rest = (t, d) # r \<and> runnable (em_run ops) (t, d)
             \<and> (\<forall>(t', d') \<in> set r. t \<le> t')
             \<and> em_execute (em_run ops) =
                 (d AND 0x0000FFFF, (em_run ops)\<lparr>em_store := r, em_last := d\<rparr>))
        \<or> ((\<forall>(t, d) \<in> set rest. em_time (em_run ops) < t)
             \<and> em_execute (em_run ops) = (0, (em_run ops)\<lparr>em_store := rest\<rparr>)))"
proof -
  let ?m = "em_run ops"
  have inv: "mm_inv (em_store ?m)"
    using em.run_inv [OF em_init_inv, of ops] by (simp add: em_inv_def em_run_def)
  obtain skipped rest where s: "em_store ?m = skipped @ rest"
      "\<forall>(t, d) \<in> set skipped. t \<le> em_time ?m \<and> event_blocked (em_phase ?m) d"
    and e: "case rest of
          [] \<Rightarrow> execute_loop (em_store ?m) ?m = (0, ?m\<lparr>em_store := []\<rparr>)
        | (t, d) # r \<Rightarrow>
            if em_time ?m < t then execute_loop (em_store ?m) ?m = (0, ?m\<lparr>em_store := rest\<rparr>)
            else \<not> event_blocked (em_phase ?m) d
                 \<and> execute_loop (em_store ?m) ?m = (d AND 0x0000FFFF, ?m\<lparr>em_last := d, em_store := r\<rparr>)"
    using execute_loop_split [of "em_store ?m" ?m] by blast
  have r: "mm_inv rest" using inv by (simp add: s(1) mm_inv_append)
  show ?thesis
  proof (cases rest)
    case Nil
    with s e show ?thesis by (intro exI [of _ skipped] exI [of _ rest]) (simp add: em_execute_def)
  next
    case (Cons p q)
    obtain t d where p: "p = (t, d)" by (cases p)
    have "\<forall>(t', d') \<in> set q. t \<le> t'" using r by (force simp: Cons p mm_inv_Cons)
    with s e show ?thesis
      by (intro exI [of _ skipped] exI [of _ rest])
        (auto simp: Cons p em_execute_def runnable_def not_less split: if_splits)
  qed
qed

theorem execute_event_contract_witness:
  "fst (em_execute (em_run [EmSchedule 7 20 0 0, EmUpdate 30])) = 7"
proof -
  have s: "em_run [EmSchedule 7 20 0 0, EmUpdate 30] =
      \<lparr>em_time = 30, em_phase = 0, em_store = [(20, 7)], em_last = 0\<rparr>"
    by code_simp
  show ?thesis
    using execute_event_contract [of "[EmSchedule 7 20 0 0, EmUpdate 30]"]
    unfolding s by (auto simp: event_blocked_def Cons_eq_append_conv)
qed

text \<open>
  C21: The loop of the scripts ends, and runs exactly the events that are due and in an active
  phase, in the order of their times (equal times in the order they were scheduled); the
  events of the future stay. An event with id 0 would end the loop early.
\<close>

theorem drain_runs_due_events:
  assumes "\<forall>p \<in> set (em_store (em_run ops)). runnable (em_run ops) p \<longrightarrow> event_id_of p \<noteq> 0"
  shows "fst (em_drain (em_run ops)) =
           map event_id_of (filter (runnable (em_run ops)) (em_store (em_run ops)))
         \<and> sorted (map fst (filter (runnable (em_run ops)) (em_store (em_run ops))))
         \<and> em_store (snd (em_drain (em_run ops))) =
             filter (\<lambda>(t, d). em_time (em_run ops) < t) (em_store (em_run ops))"
proof -
  have inv: "em_inv (em_run ops)"
    using em.run_inv [OF em_init_inv, of ops] by (simp add: em_run_def)
  then have "mm_inv (filter (runnable (em_run ops)) (em_store (em_run ops)))"
    by (simp add: em_inv_def)
  with em_drain_run [OF inv assms] show ?thesis by (simp add: mm_inv_def)
qed

theorem drain_runs_due_events_witness:
  "fst (em_drain (em_run [EmSchedule 7 20 0 0, EmSchedule 3 10 1 0, EmSchedule 4 10 0 2,
                          EmSetPhase 1, EmSchedule 5 90 0 0, EmUpdate 30])) = [3, 7]"
proof -
  let ?ops = "[EmSchedule 7 20 0 0, EmSchedule 3 10 1 0, EmSchedule 4 10 0 2,
               EmSetPhase 1, EmSchedule 5 90 0 0, EmUpdate 30]"
  have s: "em_run ?ops =
      \<lparr>em_time = 30, em_phase = 1, em_store = [(10, 0x10003), (10, 0x2000004), (20, 7), (90, 5)], em_last = 0\<rparr>"
    by code_simp
  have r: "filter (runnable (em_run ?ops)) (em_store (em_run ?ops)) = [(10, 0x10003), (20, 7)]"
    unfolding s by code_simp
  have "\<forall>p \<in> set (em_store (em_run ?ops)). runnable (em_run ?ops) p \<longrightarrow> event_id_of p \<noteq> 0"
    unfolding s by code_simp
  from drain_runs_due_events [OF this] show ?thesis unfolding r by (simp add: event_id_of_def)
qed

text \<open>
  C33: Scheduling one event adds exactly one execution, and only if it becomes due and its phase
  is active: after \<open>Update(w)\<close> the loop runs the events it would have run without it, and the new
  one once if its delay has passed and it has no phase, or the map has none, or the map is in
  its phase. (The timer must not wrap; ids are 16-bit and not 0.)
\<close>

theorem scheduled_event_runs_once:
  assumes "em_inv m" "\<forall>p \<in> set (em_store m). event_id_of p \<noteq> 0"
    and "e \<noteq> 0" "e AND 0x0000FFFF = e"
    and "unat (em_time m) + unat dt < 2 ^ 32" "unat (em_time m) + unat w < 2 ^ 32"
  shows "mset (fst (em_drain (em_update w (em_schedule e dt g p m)))) =
           mset (fst (em_drain (em_update w m))) +
           (if dt \<le> w \<and> (p = 0 \<or> 8 < p \<or> em_phase m = 0 \<or> em_in_phase p m) then {#e#} else {#})"
proof -
  let ?a = "em_update w (em_schedule e dt g p m)" and ?b = "em_update w m"
  let ?new = "(em_time m + dt, event_data e g p)"
  have inv: "em_inv ?a" "em_inv ?b"
    using assms(1) by (auto simp: em_inv_def em_update_def em_schedule_def)
  have idn: "event_id_of ?new = e" by (simp add: event_id_of_def event_data_id assms(4))
  have nz: "\<forall>p \<in> set (em_store ?a). event_id_of p \<noteq> 0" "\<forall>p \<in> set (em_store ?b). event_id_of p \<noteq> 0"
    using assms(2,3) idn by (auto simp: em_update_def em_schedule_def)
  have r: "runnable ?a = runnable ?b" by (simp add: runnable_def em_update_def em_schedule_def)
  have "mset (fst (em_drain ?a)) = image_mset event_id_of (filter_mset (runnable ?b) (mset (em_store ?a)))"
    using em_drain_run [OF inv(1)] nz(1) by (simp add: r)
  moreover have "mset (fst (em_drain ?b)) = image_mset event_id_of (filter_mset (runnable ?b) (mset (em_store ?b)))"
    using em_drain_run [OF inv(2)] nz(2) by simp
  moreover have "mset (em_store ?a) = add_mset ?new (mset (em_store ?b))"
    by (simp add: em_update_def em_schedule_def)
  moreover have "runnable ?b ?new \<longleftrightarrow> dt \<le> w \<and> (p = 0 \<or> 8 < p \<or> em_phase m = 0 \<or> em_in_phase p m)"
  proof -
    have "unat (em_time m + dt) = unat (em_time m) + unat dt" "unat (em_time m + w) = unat (em_time m) + unat w"
      using assms(5,6) by (simp_all add: unat_word_ariths)
    then have "em_time m + dt \<le> em_time m + w \<longleftrightarrow> dt \<le> w" by (simp add: word_le_nat_alt)
    then show ?thesis
      by (auto simp: runnable_def em_update_def event_data_blocked [OF assms(4)] em_in_phase_def not_le)
  qed
  ultimately show ?thesis by (simp add: idn)
qed

theorem scheduled_event_runs_once_witness:
  "mset (fst (em_drain (em_update 30 (em_schedule 7 20 2 3 (em_add_phase 3 em_init))))) = {#7#}"
  using scheduled_event_runs_once [of "em_add_phase 3 em_init" 7 20 30 2 3]
  by (simp add: em_inv_def em_add_phase_def em_init_def em_in_phase_def phase_bit_def em_update_def
      em_drain.simps [of "\<lparr>em_time = 30, em_phase = 4, em_store = [], em_last = 0\<rparr>"] em_execute_def)

text \<open>
  After \<open>RescheduleEvent\<close> the event is scheduled exactly once, after the given delay, and the
  other events are as before. (An id above 16 bits would cancel nothing.)
\<close>

theorem reschedule_unique:
  assumes "em_inv m" "e AND 0x0000FFFF = e"
  shows "filter (\<lambda>q. event_id_of q = e) (em_store (em_reschedule e t g p m)) =
           [(em_time m + t, event_data e g p)]
         \<and> filter (\<lambda>q. event_id_of q \<noteq> e) (em_store (em_reschedule e t g p m)) =
             filter (\<lambda>q. event_id_of q \<noteq> e) (em_store m)
         \<and> em_next_time_of e (em_reschedule e t g p m) = em_time m + t
         \<and> em_time_until e (em_reschedule e t g p m) = t"
proof -
  let ?s = "filter (\<lambda>q. event_id_of q \<noteq> e) (em_store m)"
  let ?d = "event_data e g p"
  have s: "em_store (em_reschedule e t g p m) = mm_ins (em_time m + t) ?d ?s"
    and time: "em_time (em_reschedule e t g p m) = em_time m"
    using em_cancel_filter [of e m] em_cancel_time [of e m]
    by (simp_all add: em_reschedule_def em_schedule_def)
  have inv: "mm_inv ?s" using assms(1) by (simp add: em_inv_def)
  have id: "event_id_of (em_time m + t, ?d) = e"
    by (simp add: event_id_of_def event_data_id assms(2))
  have one: "filter (\<lambda>q. event_id_of q = e) (mm_ins (em_time m + t) ?d ?s) = [(em_time m + t, ?d)]"
    using id by (simp add: filter_mm_ins [OF inv] conj_commute)
  moreover have "filter (\<lambda>q. event_id_of q \<noteq> e) (mm_ins (em_time m + t) ?d ?s) = ?s"
    using id by (simp add: filter_mm_ins [OF inv])
  ultimately show ?thesis
    using time by (simp add: s em_next_time_of_def em_time_until_def em_empty_def first_event_filter)
qed

theorem reschedule_unique_witness:
  "em_time_until 7 (em_reschedule 7 50 0 0 (em_run [EmSchedule 7 10 0 0, EmSchedule 7 20 0 0, EmUpdate 5])) = 50"
proof -
  have "em_inv (em_run [EmSchedule 7 10 0 0, EmSchedule 7 20 0 0, EmUpdate 5])"
    unfolding em_run_def by (rule em.run_inv [OF em_init_inv])
  from reschedule_unique [OF this, of 7 50 0 0] show ?thesis by simp
qed

text \<open>
  Delaying a group moves every event of the group by the delay and no other event, loses
  and duplicates none, and leaves the map ordered.
\<close>

theorem delay_group_shifts:
  assumes "em_inv m" "grp \<noteq> 0" "grp \<le> 8"
  shows "mset (em_store (em_delay_group delay grp m)) =
           image_mset (\<lambda>(t, d). (if bit d (unat grp + 15) then t + delay else t, d)) (mset (em_store m))
         \<and> em_inv (em_delay_group delay grp m)
         \<and> em_time (em_delay_group delay grp m) = em_time m"
proof -
  have b: "d AND group_bit grp = 0 \<longleftrightarrow> \<not> bit d (unat grp + 15)" for d
    by (auto simp: word_and_zero_iff_no_bit bit_group_bit assms(2,3))
  have f: "mset (fold (\<lambda>(t, d). mm_ins (t + delay) d) xs ys) =
      image_mset (\<lambda>(t, d). (t + delay, d)) (mset xs) + mset ys" for xs ys
    by (induction xs arbitrary: ys) (auto simp: case_prod_beta)
  let ?h = "\<lambda>(t, d). (if bit d (unat grp + 15) then t + delay else t, d)"
  let ?in = "\<lambda>(t, d). d AND group_bit grp \<noteq> 0" and ?out = "\<lambda>(t, d). d AND group_bit grp = 0"
  have split: "image_mset (\<lambda>(t, d). (t + delay, d)) (mset (filter ?in s)) + mset (filter ?out s)
      = image_mset ?h (mset s)" for s
    by (induction s) (auto simp: b)
  have "mset (em_store (em_delay_group delay grp m)) = image_mset ?h (mset (em_store m))"
  proof (cases "em_store m = []")
    case True
    then show ?thesis by (simp add: em_delay_group_def em_empty_def)
  next
    case False
    have "em_store (em_delay_group delay grp m) = fold (\<lambda>(t, d). mm_ins t d)
        (fold (\<lambda>(t, d). mm_ins (t + delay) d) (filter ?in (em_store m)) []) (filter ?out (em_store m))"
      using False assms(2,3) leD [OF assms(3)]
      by (simp add: em_delay_group_def em_empty_def delay_loop_split)
    then show ?thesis
      using split [of "em_store m"] by (simp only: mset_fold_mm_ins f mset.simps add_0_right)
  qed
  moreover have "em_time (em_delay_group delay grp m) = em_time m"
    by (simp add: em_delay_group_def delay_loop_split)
  ultimately show ?thesis using em_inv_delay_group [OF assms(1)] by simp
qed

theorem delay_group_shifts_witness:
  "mset (em_store (em_delay_group 100 2 (em_run [EmSchedule 7 10 2 0, EmSchedule 8 20 1 0]))) =
     {#(110, 0x20007), (20, 0x10008)#}"
proof -
  let ?m = "em_run [EmSchedule 7 10 2 0, EmSchedule 8 20 1 0]"
  have i: "em_inv ?m" unfolding em_run_def by (rule em.run_inv [OF em_init_inv])
  have s: "em_store ?m = [(10, 0x20007), (20, 0x10008)]" by code_simp
  have "bit (0x20007 :: u32) 17" "\<not> bit (0x10008 :: u32) 17" by code_simp+
  with delay_group_shifts [OF i, of 2 100] show ?thesis unfolding s by simp
qed

text \<open>
  Turning the stopwatch back by \<open>DelayEvents(delay)\<close> puts off every scheduled event by the
  delay, but by no more than the time the stopwatch shows.
\<close>

theorem delay_postpones:
  assumes "\<exists>p \<in> set (em_store m). event_id_of p = e"
  shows "em_time_until e (em_delay delay m) = em_time_until e m + min delay (em_time m)"
proof -
  have "filter (\<lambda>p. event_id_of p = e) (em_store m) \<noteq> []"
    using assms by (auto simp: filter_empty_conv)
  then show ?thesis
    by (cases "filter (\<lambda>p. event_id_of p = e) (em_store m)")
      (auto simp: em_time_until_def em_delay_def first_event_filter min_def)
qed

theorem delay_postpones_witness:
  "em_time_until 7 (em_delay 30 (em_run [EmUpdate 50, EmSchedule 7 10 0 0])) = 40"
proof -
  have s: "em_run [EmUpdate 50, EmSchedule 7 10 0 0] =
      \<lparr>em_time = 50, em_phase = 0, em_store = [(60, 7)], em_last = 0\<rparr>" by code_simp
  have "\<exists>p \<in> set (em_store (em_run [EmUpdate 50, EmSchedule 7 10 0 0])). event_id_of p = 7"
    unfolding s by (simp add: event_id_of_def)
  from delay_postpones [OF this, of 30] show ?thesis
    unfolding s by (simp add: em_time_until_def)
qed

end
