(* ===== verification/Rbac.thy ===== *)
theory Rbac
  imports Prelude
begin

text \<open>
  Role-based access control, \<open>src/server/game/Accounts/RBAC.cpp\<close>, \<open>RBAC.h\<close> and the RBAC part of
  \<open>AccountMgr.cpp\<close>: the table of permissions and their links, an account's granted and denied
  permissions, and the permissions they expand to. Query results are arguments (\<open>None\<close> for
  the null result of an empty one); the statements the code executes are a log.
\<close>

datatype rbac_command_result =
    RBAC_OK | RBAC_CANT_ADD_ALREADY_ADDED | RBAC_CANT_REVOKE_NOT_IN_LIST
  | RBAC_IN_GRANTED_LIST | RBAC_IN_DENIED_LIST | RBAC_ID_DOES_NOT_EXISTS

datatype login_stmt =
    InsAccountPermission u32 u32 bool i32   \<comment> \<open>account, permission, granted, realm\<close>
  | DelAccountPermission u32 u32 i32
  | DelAccountAccess u32
  | DelAccountAccessByRealm u32 i32
  | InsAccountAccess u32 u8 i32

section \<open>The permission table\<close>

record rbac_permission =
  perm_id :: u32
  perm_name :: string
  perm_links :: "u32 list"

definition add_linked_permission :: "u32 \<Rightarrow> rbac_permission \<Rightarrow> rbac_permission" where
  "add_linked_permission q p = p\<lparr>perm_links := os_ins q (perm_links p)\<rparr>"

definition remove_linked_permission :: "u32 \<Rightarrow> rbac_permission \<Rightarrow> rbac_permission" where
  "remove_linked_permission q p = p\<lparr>perm_links := os_del q (perm_links p)\<rparr>"

text \<open>A null pointer can be stored under an id: \<open>_permissions[newId]\<close> creates the entry.\<close>

record account_mgr =
  am_permissions :: "(u32, rbac_permission option) omap"
  am_defaults :: "(u8, u32 list) omap"

definition clear_rbac :: "account_mgr \<Rightarrow> account_mgr" where
  "clear_rbac am = am\<lparr>am_permissions := [], am_defaults := []\<rparr>"

definition get_rbac_permission :: "account_mgr \<Rightarrow> u32 \<Rightarrow> rbac_permission option" where
  "get_rbac_permission am i =
     (case map_of (am_permissions am) i of Some p \<Rightarrow> p | None \<Rightarrow> None)"

text \<open>\<open>_defaultPermissions[secLevel]\<close>; the empty entry it creates for a new level is not kept.\<close>

definition get_default_permissions :: "account_mgr \<Rightarrow> u8 \<Rightarrow> u32 list" where
  "get_default_permissions am lvl =
     (case map_of (am_defaults am) lvl of Some ps \<Rightarrow> ps | None \<Rightarrow> [])"

text \<open>\<open>LoadRBAC\<close>: the three loops. Dereferencing the null permission is \<open>None\<close>.\<close>

fun load_permission_rows ::
    "(u32 \<times> string) list \<Rightarrow> (u32, rbac_permission option) omap \<Rightarrow> (u32, rbac_permission option) omap" where
  "load_permission_rows [] ps = ps"
| "load_permission_rows ((i, n) # rows) ps =
     load_permission_rows rows (om_set i (Some \<lparr>perm_id = i, perm_name = n, perm_links = []\<rparr>) ps)"

text \<open>
  The second loop keeps the current id and whether \<open>permission\<close> has been set for it (it is
  null before the first id other than 0).
\<close>

fun load_link_rows ::
    "(u32 \<times> u32) list \<Rightarrow> u32 \<Rightarrow> bool \<Rightarrow> (u32, rbac_permission option) omap
       \<Rightarrow> (u32, rbac_permission option) omap option" where
  "load_link_rows [] cur bound ps = Some ps"
| "load_link_rows ((new_id, link) # rows) cur bound ps =
     (let ps' = (if cur \<noteq> new_id \<and> map_of ps new_id = None then om_set new_id None ps else ps);
          bound' = (if cur \<noteq> new_id then True else bound)
      in if link = new_id then load_link_rows rows new_id bound' ps'
         else if \<not> bound' then None
         else case map_of ps' new_id of
             Some (Some p) \<Rightarrow>
               load_link_rows rows new_id bound' (om_set new_id (Some (add_linked_permission link p)) ps')
           | _ \<Rightarrow> None)"

text \<open>The third loop truncates the security id to 8 bits and compares it with the 32-bit field.\<close>

fun load_default_rows :: "(u32 \<times> u32) list \<Rightarrow> (u8, u32 list) omap \<Rightarrow> (u8, u32 list) omap" where
  "load_default_rows [] ds = ds"
| "load_default_rows ((sec, perm) # rows) ds =
     (let old = (case map_of ds (ucast sec) of Some ps \<Rightarrow> ps | None \<Rightarrow> [])
      in load_default_rows rows (om_set (ucast sec) (os_ins perm old) ds))"

definition load_rbac ::
    "(u32 \<times> string) list option \<Rightarrow> (u32 \<times> u32) list option \<Rightarrow> (u32 \<times> u32) list option
       \<Rightarrow> account_mgr \<Rightarrow> account_mgr option" where
  "load_rbac perm_rows link_rows default_rows am =
     (let am0 = clear_rbac am
      in case perm_rows of
          None \<Rightarrow> Some am0
        | Some prs \<Rightarrow>
            (let am1 = am0\<lparr>am_permissions := load_permission_rows prs []\<rparr>
             in case link_rows of
                 None \<Rightarrow> Some am1
               | Some lrs \<Rightarrow>
                   (case load_link_rows lrs 0 False (am_permissions am1) of
                      None \<Rightarrow> None
                    | Some ps \<Rightarrow>
                        (let am2 = am1\<lparr>am_permissions := ps\<rparr>
                         in case default_rows of
                             None \<Rightarrow> Some am2
                           | Some drs \<Rightarrow> Some (am2\<lparr>am_defaults := load_default_rows drs []\<rparr>)))))"

section \<open>An account's permissions\<close>

record rbac_data =
  rb_id :: u32
  rb_name :: string
  rb_realm :: i32
  rb_sec_level :: u8
  rb_granted :: "u32 list"
  rb_denied :: "u32 list"
  rb_global :: "u32 list"
  rb_stmts :: "login_stmt list"

definition rbac_init :: "u32 \<Rightarrow> string \<Rightarrow> i32 \<Rightarrow> u8 \<Rightarrow> rbac_data" where
  "rbac_init i n realm lvl =
     \<lparr>rb_id = i, rb_name = n, rb_realm = realm, rb_sec_level = lvl,
      rb_granted = [], rb_denied = [], rb_global = [], rb_stmts = []\<rparr>"

definition clear_data :: "rbac_data \<Rightarrow> rbac_data" where
  "clear_data r = r\<lparr>rb_granted := [], rb_denied := [], rb_global := []\<rparr>"

definition has_permission :: "u32 \<Rightarrow> rbac_data \<Rightarrow> bool" where
  "has_permission p r \<longleftrightarrow> p \<in> set (rb_global r)"

definition has_granted_permission :: "u32 \<Rightarrow> rbac_data \<Rightarrow> bool" where
  "has_granted_permission p r \<longleftrightarrow> p \<in> set (rb_granted r)"

definition has_denied_permission :: "u32 \<Rightarrow> rbac_data \<Rightarrow> bool" where
  "has_denied_permission p r \<longleftrightarrow> p \<in> set (rb_denied r)"

definition add_granted_permission :: "u32 \<Rightarrow> rbac_data \<Rightarrow> rbac_data" where
  "add_granted_permission p r = r\<lparr>rb_granted := os_ins p (rb_granted r)\<rparr>"

definition remove_granted_permission :: "u32 \<Rightarrow> rbac_data \<Rightarrow> rbac_data" where
  "remove_granted_permission p r = r\<lparr>rb_granted := os_del p (rb_granted r)\<rparr>"

definition add_denied_permission :: "u32 \<Rightarrow> rbac_data \<Rightarrow> rbac_data" where
  "add_denied_permission p r = r\<lparr>rb_denied := os_ins p (rb_denied r)\<rparr>"

definition remove_denied_permission :: "u32 \<Rightarrow> rbac_data \<Rightarrow> rbac_data" where
  "remove_denied_permission p r = r\<lparr>rb_denied := os_del p (rb_denied r)\<rparr>"

definition add_permissions :: "u32 list \<Rightarrow> u32 list \<Rightarrow> u32 list" where
  "add_permissions from to = fold os_ins from to"

definition remove_permissions :: "u32 list \<Rightarrow> u32 list \<Rightarrow> u32 list" where
  "remove_permissions from to_remove = fold os_del to_remove from"

text \<open>
  \<open>ExpandPermissions\<close>: the smallest unchecked permission is taken, added if it exists, and
  its links that are not yet in the result become unchecked.
\<close>

definition new_links :: "u32 list \<Rightarrow> u32 list \<Rightarrow> u32 list" where
  "new_links perms links = filter (\<lambda>q. q \<notin> set perms) links"

function expand_loop :: "account_mgr \<Rightarrow> u32 list \<Rightarrow> u32 list \<Rightarrow> u32 list" where
  "expand_loop am perms [] = perms"
| "expand_loop am perms (p # to_check) =
     (case get_rbac_permission am p of
        None \<Rightarrow> expand_loop am perms to_check
      | Some perm \<Rightarrow>
          (let perms' = os_ins p perms
           in expand_loop am perms' (fold os_ins (new_links perms' (perm_links perm)) to_check)))"
  by pat_completeness auto

definition existing :: "account_mgr \<Rightarrow> u32 set" where
  "existing am = {p. get_rbac_permission am p \<noteq> None}"

lemma finite_existing [simp]: "finite (existing am)"
proof -
  have "existing am \<subseteq> fst ` set (am_permissions am)"
    by (auto simp: existing_def get_rbac_permission_def map_of_eq_None_iff split: option.splits)
  then show ?thesis by (rule finite_subset) simp
qed

text \<open>
  The loop ends: a step adds an existing permission, or else takes one that is already in the
  result (none of those is ever put back), or else shortens the work list.
\<close>

lemma filter_os_ins_not: "\<not> P x \<Longrightarrow> filter P (os_ins x s) = filter P s"
  by (induction x s rule: os_ins.induct) auto

lemma filter_new_links:
  "filter (\<lambda>q. q \<in> set perms) (fold os_ins (new_links perms qs) tc) = filter (\<lambda>q. q \<in> set perms) tc"
proof -
  have "filter P (fold os_ins xs tc) = filter P tc" if "\<forall>x \<in> set xs. \<not> P x" for P and xs :: "u32 list"
    using that by (induction xs arbitrary: tc) (auto simp: filter_os_ins_not)
  then show ?thesis by (simp add: new_links_def)
qed

termination expand_loop
proof (relation "measures
    [\<lambda>(am, perms, tc). card (existing am - set perms),
     \<lambda>(am, perms, tc). length (filter (\<lambda>q. q \<in> set perms) tc),
     \<lambda>(am, perms, tc). length tc]", goal_cases)
  case (3 am perms p tc perm perms')
  show ?case
  proof (cases "p \<in> set perms")
    case False
    have "existing am - set perms' \<subset> existing am - set perms"
      using 3 False by (auto simp: existing_def)
    then have "card (existing am - set perms') < card (existing am - set perms)"
      by (intro psubset_card_mono) simp_all
    then show ?thesis by simp
  next
    case True
    then have s: "set perms' = set perms" using 3 by auto
    have "filter (\<lambda>q. q \<in> set perms) (fold os_ins (new_links perms' (perm_links perm)) tc) =
        filter (\<lambda>q. q \<in> set perms) tc"
      using filter_new_links [of perms'] by (simp add: s)
    with True s show ?thesis by simp
  qed
qed auto

definition expand_permissions :: "account_mgr \<Rightarrow> u32 list \<Rightarrow> u32 list" where
  "expand_permissions am perms = expand_loop am [] perms"

definition calculate_new_permissions :: "account_mgr \<Rightarrow> rbac_data \<Rightarrow> rbac_data" where
  "calculate_new_permissions am r =
     (let r1 = r\<lparr>rb_global := rb_granted r\<rparr>;
          r2 = r1\<lparr>rb_global := expand_permissions am (rb_global r1)\<rparr>;
          revoked = expand_permissions am (rb_denied r2)
      in r2\<lparr>rb_global := remove_permissions (rb_global r2) revoked\<rparr>)"

definition save_permission :: "u32 \<Rightarrow> bool \<Rightarrow> i32 \<Rightarrow> rbac_data \<Rightarrow> rbac_data" where
  "save_permission p granted realm r =
     r\<lparr>rb_stmts := rb_stmts r @ [InsAccountPermission (rb_id r) p granted realm]\<rparr>"

definition grant_permission ::
    "account_mgr \<Rightarrow> u32 \<Rightarrow> i32 \<Rightarrow> rbac_data \<Rightarrow> rbac_command_result \<times> rbac_data" where
  "grant_permission am p realm r =
     (if get_rbac_permission am p = None then (RBAC_ID_DOES_NOT_EXISTS, r)
      else if has_denied_permission p r then (RBAC_IN_DENIED_LIST, r)
      else if has_granted_permission p r then (RBAC_CANT_ADD_ALREADY_ADDED, r)
      else
        (let r1 = add_granted_permission p r
         in (RBAC_OK,
             if realm \<noteq> 0 then calculate_new_permissions am (save_permission p True realm r1) else r1)))"

definition deny_permission ::
    "account_mgr \<Rightarrow> u32 \<Rightarrow> i32 \<Rightarrow> rbac_data \<Rightarrow> rbac_command_result \<times> rbac_data" where
  "deny_permission am p realm r =
     (if get_rbac_permission am p = None then (RBAC_ID_DOES_NOT_EXISTS, r)
      else if has_granted_permission p r then (RBAC_IN_GRANTED_LIST, r)
      else if has_denied_permission p r then (RBAC_CANT_ADD_ALREADY_ADDED, r)
      else
        (let r1 = add_denied_permission p r
         in (RBAC_OK,
             if realm \<noteq> 0 then calculate_new_permissions am (save_permission p False realm r1) else r1)))"

definition revoke_permission ::
    "account_mgr \<Rightarrow> u32 \<Rightarrow> i32 \<Rightarrow> rbac_data \<Rightarrow> rbac_command_result \<times> rbac_data" where
  "revoke_permission am p realm r =
     (if \<not> has_granted_permission p r \<and> \<not> has_denied_permission p r
      then (RBAC_CANT_REVOKE_NOT_IN_LIST, r)
      else
        (let r1 = remove_denied_permission p (remove_granted_permission p r)
         in (RBAC_OK,
             if realm \<noteq> 0
             then calculate_new_permissions am
                    (r1\<lparr>rb_stmts := rb_stmts r1 @ [DelAccountPermission (rb_id r1) p realm]\<rparr>)
             else r1)))"

section \<open>Loading\<close>

fun load_account_rows :: "account_mgr \<Rightarrow> (u32 \<times> bool) list \<Rightarrow> rbac_data \<Rightarrow> rbac_data" where
  "load_account_rows am [] r = r"
| "load_account_rows am ((p, granted) # rows) r =
     load_account_rows am rows
       (snd (if granted then grant_permission am p 0 r else deny_permission am p 0 r))"

fun grant_defaults :: "account_mgr \<Rightarrow> u32 list \<Rightarrow> rbac_data \<Rightarrow> rbac_data" where
  "grant_defaults am [] r = r"
| "grant_defaults am (p # ps) r = grant_defaults am ps (snd (grant_permission am p 0 r))"

definition load_from_db_callback ::
    "account_mgr \<Rightarrow> (u32 \<times> bool) list option \<Rightarrow> rbac_data \<Rightarrow> rbac_data" where
  "load_from_db_callback am result r =
     (let r1 = (case result of Some rows \<Rightarrow> load_account_rows am rows r | None \<Rightarrow> r);
          r2 = grant_defaults am (get_default_permissions am (rb_sec_level r1)) r1
      in calculate_new_permissions am r2)"

text \<open>The query is a function of the account and the realm.\<close>

type_synonym account_query = "u32 \<Rightarrow> i32 \<Rightarrow> (u32 \<times> bool) list option"

definition load_from_db :: "account_mgr \<Rightarrow> account_query \<Rightarrow> rbac_data \<Rightarrow> rbac_data" where
  "load_from_db am query r =
     (let r1 = clear_data r in load_from_db_callback am (query (rb_id r1) (rb_realm r1)) r1)"

definition set_security_level :: "account_mgr \<Rightarrow> account_query \<Rightarrow> u8 \<Rightarrow> rbac_data \<Rightarrow> rbac_data" where
  "set_security_level am query lvl r = load_from_db am query (r\<lparr>rb_sec_level := lvl\<rparr>)"

definition update_account_access ::
    "account_mgr \<Rightarrow> account_query \<Rightarrow> rbac_data option \<Rightarrow> u32 \<Rightarrow> u8 \<Rightarrow> i32
       \<Rightarrow> rbac_data option \<times> login_stmt list" where
  "update_account_access am query rbac account lvl realm =
     ((case rbac of
         Some r \<Rightarrow> Some (if lvl = rb_sec_level r then set_security_level am query lvl r else r)
       | None \<Rightarrow> None),
      (if realm = -1 then [DelAccountAccess account] else [DelAccountAccessByRealm account realm])
      @ (if lvl \<noteq> 0 then [InsAccountAccess account lvl realm] else []))"

text \<open>\<open>AccountMgr::HasPermission\<close>: \<open>security\<close> is the result of \<open>GetSecurity\<close>.\<close>

definition account_has_permission ::
    "account_mgr \<Rightarrow> account_query \<Rightarrow> (u32 \<Rightarrow> u32) \<Rightarrow> u32 \<Rightarrow> u32 \<Rightarrow> u32 \<Rightarrow> bool" where
  "account_has_permission am query security account p realm =
     (if account = 0 then False
      else has_permission p (load_from_db am query (rbac_init account [] realm (ucast (security account)))))"

text \<open>The session's lazily loaded permissions (\<open>WorldSession::HasPermission\<close>).\<close>

definition session_load_permissions ::
    "account_mgr \<Rightarrow> account_query \<Rightarrow> u32 \<Rightarrow> string \<Rightarrow> i32 \<Rightarrow> u8 \<Rightarrow> rbac_data" where
  "session_load_permissions am query i n realm lvl = load_from_db am query (rbac_init i n realm lvl)"

definition session_has_permission ::
    "account_mgr \<Rightarrow> account_query \<Rightarrow> u32 \<Rightarrow> string \<Rightarrow> i32 \<Rightarrow> u8 \<Rightarrow> u32 \<Rightarrow> rbac_data option
       \<Rightarrow> bool \<times> rbac_data option" where
  "session_has_permission am query i n realm lvl p rbac =
     (let r = (case rbac of Some r \<Rightarrow> r | None \<Rightarrow> session_load_permissions am query i n realm lvl)
      in (has_permission p r, Some r))"

section \<open>What the permissions expand to\<close>

text \<open>The specification of \<open>ExpandPermissions\<close>: everything linked from the given permissions.\<close>

inductive reach :: "account_mgr \<Rightarrow> u32 set \<Rightarrow> u32 \<Rightarrow> bool" for am S where
  start: "p \<in> S \<Longrightarrow> p \<in> existing am \<Longrightarrow> reach am S p"
| link: "reach am S p \<Longrightarrow> get_rbac_permission am p = Some perm \<Longrightarrow> q \<in> set (perm_links perm)
          \<Longrightarrow> q \<in> existing am \<Longrightarrow> reach am S q"

lemma reach_existing: "reach am S p \<Longrightarrow> p \<in> existing am"
  by (induction rule: reach.induct) auto

lemma reach_mono: "reach am S p \<Longrightarrow> S \<subseteq> T \<Longrightarrow> reach am T p"
  by (induction rule: reach.induct) (auto intro: reach.intros)

definition links_in :: "account_mgr \<Rightarrow> u32 set \<Rightarrow> u32 set \<Rightarrow> bool" where
  "links_in am A B \<longleftrightarrow> (\<forall>p \<in> A. \<forall>perm. get_rbac_permission am p = Some perm \<longrightarrow>
     set (perm_links perm) \<inter> existing am \<subseteq> B)"

lemma reach_least:
  "reach am S p \<Longrightarrow> S \<inter> existing am \<subseteq> A \<Longrightarrow> links_in am A A \<Longrightarrow> p \<in> A"
  by (induction rule: reach.induct) (auto simp: links_in_def)

lemma set_new_links [simp]: "set (new_links perms qs) = set qs - set perms"
  by (auto simp: new_links_def)

lemma expand_loop_reach:
  assumes "\<forall>p \<in> set perms. reach am S p" "\<forall>p \<in> set tc \<inter> existing am. reach am S p"
    and "S \<inter> existing am \<subseteq> set perms \<union> set tc" "links_in am (set perms) (set perms \<union> set tc)"
  shows "set (expand_loop am perms tc) = {p. reach am S p}"
  using assms
proof (induction am perms tc rule: expand_loop.induct)
  case (1 am perms)
  then show ?case using reach_least [of am S _ "set perms"] by auto
next
  case (2 am perms p tc)
  show ?case
  proof (cases "get_rbac_permission am p")
    case None
    then have "p \<notin> existing am" by (simp add: existing_def)
    moreover have "links_in am (set perms) (set perms \<union> set tc)"
      using 2(6) \<open>p \<notin> existing am\<close> by (simp add: links_in_def subset_insert)
    ultimately have "set (expand_loop am perms tc) = {p. reach am S p}"
      using 2(3-5) by (intro 2(1) [OF None]) auto
    then show ?thesis by (simp add: None)
  next
    case (Some perm)
    then have ex: "p \<in> existing am" by (simp add: existing_def)
    let ?perms = "os_ins p perms"
    let ?tc = "fold os_ins (new_links ?perms (perm_links perm)) tc"
    have "reach am S p" using 2(4) ex by simp
    moreover from this have "\<forall>q \<in> set (perm_links perm) \<inter> existing am. reach am S q"
      using Some by (auto intro: reach.link)
    moreover have "links_in am (set ?perms) (set ?perms \<union> set ?tc)"
      using 2(6) Some unfolding links_in_def by auto
    ultimately have "set (expand_loop am ?perms ?tc) = {p. reach am S p}"
      using 2(3-5) by (intro 2(2) [OF Some refl]) auto
    then show ?thesis by (simp add: Some Let_def)
  qed
qed

lemma set_expand_permissions [simp]:
  "set (expand_permissions am ps) = {p. reach am (set ps) p}"
  unfolding expand_permissions_def
  by (rule expand_loop_reach) (auto simp: links_in_def intro: reach.start)

lemma os_inv_expand_loop: "os_inv perms \<Longrightarrow> os_inv (expand_loop am perms tc)"
  by (induction am perms tc rule: expand_loop.induct) (auto simp: Let_def split: option.splits)

lemma os_inv_expand_permissions [simp]: "os_inv (expand_permissions am ps)"
  by (simp add: expand_permissions_def os_inv_expand_loop)

lemma calculate_fields [simp]:
  "rb_granted (calculate_new_permissions am r) = rb_granted r"
  "rb_denied (calculate_new_permissions am r) = rb_denied r"
  "rb_sec_level (calculate_new_permissions am r) = rb_sec_level r"
  "rb_stmts (calculate_new_permissions am r) = rb_stmts r"
  "rb_id (calculate_new_permissions am r) = rb_id r"
  "rb_realm (calculate_new_permissions am r) = rb_realm r"
  by (simp_all add: calculate_new_permissions_def Let_def)

definition effective :: "account_mgr \<Rightarrow> rbac_data \<Rightarrow> u32 set" where
  "effective am r = {p. reach am (set (rb_granted r)) p \<and> \<not> reach am (set (rb_denied r)) p}"

lemma set_calculate [simp]: "set (rb_global (calculate_new_permissions am r)) = effective am r"
  by (auto simp: calculate_new_permissions_def Let_def remove_permissions_def effective_def)

lemma effective_cong:
  "rb_granted r = rb_granted s \<Longrightarrow> rb_denied r = rb_denied s \<Longrightarrow> effective am r = effective am s"
  by (simp add: effective_def)

section \<open>The invariant\<close>

definition rbac_inv :: "account_mgr \<Rightarrow> rbac_data \<Rightarrow> bool" where
  "rbac_inv am r \<longleftrightarrow>
     os_inv (rb_granted r) \<and> os_inv (rb_denied r) \<and> os_inv (rb_global r)
     \<and> set (rb_granted r) \<inter> set (rb_denied r) = {}
     \<and> set (rb_granted r) \<union> set (rb_denied r) \<subseteq> existing am"

lemma rbac_inv_calculate [simp]: "rbac_inv am (calculate_new_permissions am r) \<longleftrightarrow>
    os_inv (rb_granted r) \<and> os_inv (rb_denied r) \<and> set (rb_granted r) \<inter> set (rb_denied r) = {}
     \<and> set (rb_granted r) \<union> set (rb_denied r) \<subseteq> existing am"
  by (simp add: rbac_inv_def) (simp add: calculate_new_permissions_def Let_def remove_permissions_def)

lemmas rbac_op_defs =
  grant_permission_def deny_permission_def revoke_permission_def has_granted_permission_def
  has_denied_permission_def add_granted_permission_def add_denied_permission_def
  remove_granted_permission_def remove_denied_permission_def save_permission_def

lemma rbac_inv_grant [inv_lemmas]: "rbac_inv am r \<Longrightarrow> rbac_inv am (snd (grant_permission am p realm r))"
  by (auto simp: rbac_op_defs Let_def) (auto simp: rbac_inv_def existing_def)

lemma rbac_inv_deny [inv_lemmas]: "rbac_inv am r \<Longrightarrow> rbac_inv am (snd (deny_permission am p realm r))"
  by (auto simp: rbac_op_defs Let_def) (auto simp: rbac_inv_def existing_def)

lemma rbac_inv_revoke [inv_lemmas]: "rbac_inv am r \<Longrightarrow> rbac_inv am (snd (revoke_permission am p realm r))"
  by (auto simp: rbac_op_defs Let_def) (auto simp: rbac_inv_def existing_def)

lemma rbac_inv_rows: "rbac_inv am r \<Longrightarrow> rbac_inv am (load_account_rows am rows r)"
  by (induction am rows r rule: load_account_rows.induct) (auto simp: inv_lemmas)

lemma rbac_inv_defaults: "rbac_inv am r \<Longrightarrow> rbac_inv am (grant_defaults am ps r)"
  by (induction am ps r rule: grant_defaults.induct) (auto simp: inv_lemmas)

lemma rbac_inv_clear: "rbac_inv am (clear_data r)"
  by (simp add: rbac_inv_def clear_data_def)

lemma rbac_inv_calc: "rbac_inv am r \<Longrightarrow> rbac_inv am (calculate_new_permissions am r)"
  by simp (simp add: rbac_inv_def)

lemma rbac_inv_callback: "rbac_inv am r \<Longrightarrow> rbac_inv am (load_from_db_callback am result r)"
  by (simp add: load_from_db_callback_def Let_def rbac_inv_calc rbac_inv_defaults rbac_inv_rows
      del: rbac_inv_calculate split: option.splits)

text \<open>The permissions a session answers with are the ones computed from its lists.\<close>

definition rbac_current :: "account_mgr \<Rightarrow> rbac_data \<Rightarrow> bool" where
  "rbac_current am r \<longleftrightarrow> rbac_inv am r \<and> set (rb_global r) = effective am r"

lemma effective_calculate [simp]: "effective am (calculate_new_permissions am r) = effective am r"
  by (simp add: effective_def)

lemma rbac_current_load: "rbac_current am (load_from_db am query r)"
  by (simp add: rbac_current_def load_from_db_def Let_def rbac_inv_callback rbac_inv_clear)
    (simp add: load_from_db_callback_def Let_def split: option.splits)

lemma rbac_current_grant:
  "rbac_current am r \<Longrightarrow> realm \<noteq> 0 \<Longrightarrow> rbac_current am (snd (grant_permission am p realm r))"
  using rbac_inv_grant [of am r p realm]
  by (auto simp: rbac_current_def grant_permission_def Let_def)

lemma rbac_current_deny:
  "rbac_current am r \<Longrightarrow> realm \<noteq> 0 \<Longrightarrow> rbac_current am (snd (deny_permission am p realm r))"
  using rbac_inv_deny [of am r p realm]
  by (auto simp: rbac_current_def deny_permission_def Let_def)

lemma rbac_current_revoke:
  "rbac_current am r \<Longrightarrow> realm \<noteq> 0 \<Longrightarrow> rbac_current am (snd (revoke_permission am p realm r))"
  using rbac_inv_revoke [of am r p realm]
  by (auto simp: rbac_current_def revoke_permission_def Let_def)

section \<open>The commands\<close>

datatype rbac_command_kind = CmdGrant | CmdDeny | CmdRevoke

text \<open>
  \<open>.rbac account grant|deny|revoke\<close> of \<open>scripts/Commands/cs_rbac.cpp\<close>: \<open>ReadParams\<close> rejects
  id 0, realm 0 and a realm below -1; then the operation runs.
\<close>

definition rbac_command ::
    "account_mgr \<Rightarrow> rbac_command_kind \<Rightarrow> u32 \<Rightarrow> i32 \<Rightarrow> rbac_data \<Rightarrow> rbac_command_result option \<times> rbac_data" where
  "rbac_command am kind p realm r =
     (if p = 0 then (None, r)
      else if sint realm < -1 \<or> realm = 0 then (None, r)
      else case (case kind of
                   CmdGrant \<Rightarrow> grant_permission am p realm r
                 | CmdDeny \<Rightarrow> deny_permission am p realm r
                 | CmdRevoke \<Rightarrow> revoke_permission am p realm r)
           of (res, r') \<Rightarrow> (Some res, r'))"

datatype rbac_op =
    RbCommand rbac_command_kind u32 i32
  | RbReload "(u32 \<times> bool) list option"
  | RbSetLevel u8 "(u32 \<times> bool) list option"

fun rbac_step :: "account_mgr \<Rightarrow> rbac_op \<Rightarrow> rbac_data \<Rightarrow> rbac_data" where
  "rbac_step am (RbCommand kind p realm) r = snd (rbac_command am kind p realm r)"
| "rbac_step am (RbReload result) r = load_from_db am (\<lambda>_ _. result) r"
| "rbac_step am (RbSetLevel lvl result) r = set_security_level am (\<lambda>_ _. result) lvl r"

lemma rbac_current_command: "rbac_current am r \<Longrightarrow> rbac_current am (snd (rbac_command am kind p realm r))"
  using rbac_current_grant [of am r realm p] rbac_current_deny [of am r realm p]
    rbac_current_revoke [of am r realm p]
  by (cases kind) (auto simp: rbac_command_def case_prod_beta)

interpretation rb: transition_system "rbac_step am" "rbac_current am" for am
proof
  fix r e
  assume "rbac_current am r"
  then show "rbac_current am (rbac_step am e r)"
    by (cases e) (simp_all add: rbac_current_command rbac_current_load set_security_level_def)
qed

lemma reach_Un: "reach am (S \<union> T) p \<longleftrightarrow> reach am S p \<or> reach am T p"
proof
  show "reach am (S \<union> T) p \<Longrightarrow> reach am S p \<or> reach am T p"
    by (induction rule: reach.induct) (auto intro: reach.intros)
qed (auto intro: reach_mono)

lemma reach_insert: "reach am (insert q S) p \<longleftrightarrow> reach am {q} p \<or> reach am S p"
  using reach_Un [of am "{q}" S p] by simp

section \<open>What a load reads\<close>

lemma grant_0:
  "rb_granted (snd (grant_permission am p 0 r)) =
     (if p \<in> existing am \<and> p \<notin> set (rb_denied r) \<and> p \<notin> set (rb_granted r)
      then os_ins p (rb_granted r) else rb_granted r)"
  "rb_denied (snd (grant_permission am p 0 r)) = rb_denied r"
  "rb_sec_level (snd (grant_permission am p 0 r)) = rb_sec_level r"
  by (auto simp: rbac_op_defs existing_def)

lemma deny_0:
  "rb_denied (snd (deny_permission am p 0 r)) =
     (if p \<in> existing am \<and> p \<notin> set (rb_denied r) \<and> p \<notin> set (rb_granted r)
      then os_ins p (rb_denied r) else rb_denied r)"
  "rb_granted (snd (deny_permission am p 0 r)) = rb_granted r"
  "rb_sec_level (snd (deny_permission am p 0 r)) = rb_sec_level r"
  by (auto simp: rbac_op_defs existing_def)

lemma load_rows_sets:
  "set (rb_granted (load_account_rows am rows r)) =
     set (rb_granted r) \<union> {p \<in> existing am. p \<notin> set (rb_denied r) \<and> p \<notin> set (rb_granted r) \<and> map_of rows p = Some True}
   \<and> set (rb_denied (load_account_rows am rows r)) =
     set (rb_denied r) \<union> {p \<in> existing am. p \<notin> set (rb_denied r) \<and> p \<notin> set (rb_granted r) \<and> map_of rows p = Some False}
   \<and> rb_sec_level (load_account_rows am rows r) = rb_sec_level r"
  by (induction am rows r rule: load_account_rows.induct) (auto simp: grant_0 deny_0)

lemma grant_defaults_sets:
  "set (rb_granted (grant_defaults am ps r)) =
     set (rb_granted r) \<union> {p \<in> existing am. p \<notin> set (rb_denied r) \<and> p \<in> set ps}
   \<and> rb_denied (grant_defaults am ps r) = rb_denied r"
  by (induction am ps r rule: grant_defaults.induct) (auto simp: grant_0)

text \<open>The first row of a permission decides; the defaults of the level are added to the grants.\<close>

definition loaded_as :: "account_mgr \<Rightarrow> (u32 \<times> bool) list option \<Rightarrow> u8 \<Rightarrow> u32 \<Rightarrow> bool option" where
  "loaded_as am result lvl p =
     (if p \<in> existing am
      then case map_of (case result of Some rows \<Rightarrow> rows | None \<Rightarrow> []) p of
          Some g \<Rightarrow> Some g
        | None \<Rightarrow> if p \<in> set (get_default_permissions am lvl) then Some True else None
      else None)"

lemma load_sets:
  "set (rb_granted (load_from_db am query r)) =
     {p. loaded_as am (query (rb_id r) (rb_realm r)) (rb_sec_level r) p = Some True}"
  "set (rb_denied (load_from_db am query r)) =
     {p. loaded_as am (query (rb_id r) (rb_realm r)) (rb_sec_level r) p = Some False}"
proof -
  let ?rows = "case query (rb_id r) (rb_realm r) of Some rows \<Rightarrow> rows | None \<Rightarrow> []"
  have "load_from_db am query r = calculate_new_permissions am
      (grant_defaults am (get_default_permissions am (rb_sec_level r)) (load_account_rows am ?rows (clear_data r)))"
    using load_rows_sets [of am ?rows "clear_data r"]
    by (simp add: load_from_db_def load_from_db_callback_def Let_def clear_data_def split: option.splits)
  then show "set (rb_granted (load_from_db am query r)) =
       {p. loaded_as am (query (rb_id r) (rb_realm r)) (rb_sec_level r) p = Some True}"
    and "set (rb_denied (load_from_db am query r)) =
       {p. loaded_as am (query (rb_id r) (rb_realm r)) (rb_sec_level r) p = Some False}"
    using load_rows_sets [of am ?rows "clear_data r"]
      grant_defaults_sets [of am "get_default_permissions am (rb_sec_level r)"
        "load_account_rows am ?rows (clear_data r)"]
    by (auto simp: clear_data_def loaded_as_def split: if_splits option.splits)
qed

lemma grant_defaults_level: "rb_sec_level (grant_defaults am ps r) = rb_sec_level r"
  by (induction am ps r rule: grant_defaults.induct) (auto simp: grant_0)

lemma load_from_db_level: "rb_sec_level (load_from_db am query r) = rb_sec_level r"
  using load_rows_sets
  by (auto simp: load_from_db_def load_from_db_callback_def Let_def clear_data_def
      grant_defaults_level split: option.splits)

section \<open>Loading the permission table\<close>

lemma load_permission_rows_map:
  "map_of (load_permission_rows rows ps) =
     map_of ps ++ (\<lambda>i. map_option (\<lambda>n. Some \<lparr>perm_id = i, perm_name = n, perm_links = []\<rparr>) (map_of (rev rows) i))"
proof (induction rows ps rule: load_permission_rows.induct)
  case (2 i n rows ps)
  show ?case
    unfolding load_permission_rows.simps 2
    by (rule ext) (auto simp: map_add_def split: option.splits)
qed (simp add: map_add_def)

definition bound_perm :: "(u32, rbac_permission option) omap \<Rightarrow> u32 \<Rightarrow> bool" where
  "bound_perm ps i \<longleftrightarrow> (\<exists>p. map_of ps i = Some (Some p))"

definition links_of :: "(u32, rbac_permission option) omap \<Rightarrow> u32 \<Rightarrow> u32 set" where
  "links_of ps i = (case map_of ps i of Some (Some p) \<Rightarrow> set (perm_links p) | _ \<Rightarrow> {})"

lemma load_link_rows_ok:
  assumes "\<forall>(i, l) \<in> set rows. i \<noteq> 0 \<and> bound_perm ps i" "bound \<longleftrightarrow> cur \<noteq> 0"
  shows "\<exists>ps'. load_link_rows rows cur bound ps = Some ps'
           \<and> (\<forall>i. bound_perm ps' i \<longleftrightarrow> bound_perm ps i)
           \<and> (\<forall>i. links_of ps' i = links_of ps i \<union> {l. (i, l) \<in> set rows \<and> l \<noteq> i})"
  using assms
proof (induction rows arbitrary: cur bound ps)
  case (Cons row rows)
  obtain i l where row: "row = (i, l)" by (cases row)
  obtain p where p: "map_of ps i = Some (Some p)" and i: "i \<noteq> 0"
    using Cons.prems(1) by (auto simp: row bound_perm_def)
  have bd: "(if cur \<noteq> i then True else bound) = True" using Cons.prems(2) i by auto
  have ps: "(if cur \<noteq> i \<and> map_of ps i = None then om_set i None ps else ps) = ps" using p by simp
  show ?case
  proof (cases "l = i")
    case True
    then show ?thesis
      using Cons.IH [of ps True i] Cons.prems(1) i
      by (simp only: row load_link_rows.simps Let_def bd ps) (auto split: if_splits)
  next
    case False
    let ?ps = "om_set i (Some (add_linked_permission l p)) ps"
    have b: "bound_perm ?ps j \<longleftrightarrow> bound_perm ps j" for j using p by (auto simp: bound_perm_def)
    have lk: "links_of ?ps j = links_of ps j \<union> (if j = i then {l} else {})" for j
      using p by (auto simp: links_of_def add_linked_permission_def)
    have "load_link_rows (row # rows) cur bound ps = load_link_rows rows i True ?ps"
      using False by (simp only: row load_link_rows.simps Let_def bd ps) (simp add: p)
    moreover have "\<forall>(j, l) \<in> set rows. j \<noteq> 0 \<and> bound_perm ?ps j"
      using Cons.prems(1) unfolding b by simp
    ultimately show ?thesis
      using Cons.IH [of ?ps True i] i False by (fastforce simp: row b lk)
  qed
qed simp

lemma load_default_rows_sets:
  "set (case map_of (load_default_rows rows ds) lvl of Some ps \<Rightarrow> ps | None \<Rightarrow> []) =
     set (case map_of ds lvl of Some ps \<Rightarrow> ps | None \<Rightarrow> []) \<union> {p. \<exists>s. (s, p) \<in> set rows \<and> ucast s = lvl}"
  by (induction rows ds rule: load_default_rows.induct)
    (auto simp: Let_def split: if_splits option.splits)

section \<open>Properties\<close>

text \<open>
  C22: \<open>ExpandPermissions\<close> ends on every table, cyclic or with dangling links, and returns exactly
  the existing permissions linked, directly or not, from the given ones through existing
  permissions.
\<close>

theorem expand_is_closure:
  "set (expand_permissions am ps) = {p. reach am (set ps) p}
   \<and> os_inv (expand_permissions am ps)
   \<and> set (expand_permissions am (expand_permissions am ps)) = set (expand_permissions am ps)"
proof -
  have "reach am {q. reach am S q} p \<longleftrightarrow> reach am S p" for S p
  proof
    show "reach am {q. reach am S q} p \<Longrightarrow> reach am S p"
      by (induction rule: reach.induct) (auto intro: reach.link)
    show "reach am S p \<Longrightarrow> reach am {q. reach am S q} p"
      using reach_existing by (intro reach.start) auto
  qed
  then show ?thesis by simp
qed

text \<open>
  C14: After loading, through any sequence of grant, deny and revoke commands, reloads and level
  changes, an account has a permission exactly if it is reached from the granted list and not
  from the denied one; the lists are disjoint and name only existing permissions.
\<close>

theorem has_permission_in_every_run:
  "let r' = fold (rbac_step am) ops (load_from_db am query r) in
     (has_permission p r' \<longleftrightarrow> reach am (set (rb_granted r')) p \<and> \<not> reach am (set (rb_denied r')) p)
     \<and> set (rb_granted r') \<inter> set (rb_denied r') = {}
     \<and> set (rb_granted r') \<union> set (rb_denied r') \<subseteq> existing am"
  using rb.run_inv [OF rbac_current_load, of am ops query r]
  by (simp add: rbac_current_def rbac_inv_def has_permission_def effective_def Let_def)

text \<open>
  What a load makes of the account's rows: for each existing permission its first row
  decides (a later row for another realm is refused), a permission without row is granted if
  the security level's defaults have it, and the result is expanded, denials last.
\<close>

theorem load_first_row_decides:
  "has_permission p (load_from_db am query r) \<longleftrightarrow>
     reach am {q. loaded_as am (query (rb_id r) (rb_realm r)) (rb_sec_level r) q = Some True} p
     \<and> \<not> reach am {q. loaded_as am (query (rb_id r) (rb_realm r)) (rb_sec_level r) q = Some False} p"
  using rbac_current_load [of am query r]
  by (simp add: rbac_current_def has_permission_def effective_def load_sets)

text \<open>
  C34: A successful grant adds exactly what the permission reaches and no denial covers; a
  successful denial takes away exactly what it reaches; both leave every other answer alone.
\<close>

theorem grant_deny_effect:
  assumes "rbac_current am r" "realm \<noteq> 0"
  shows "(fst (grant_permission am p realm r) = RBAC_OK \<longrightarrow>
            (has_permission q (snd (grant_permission am p realm r)) \<longleftrightarrow>
               has_permission q r \<or> (reach am {p} q \<and> \<not> reach am (set (rb_denied r)) q)))
         \<and> (fst (deny_permission am p realm r) = RBAC_OK \<longrightarrow>
            (has_permission q (snd (deny_permission am p realm r)) \<longleftrightarrow>
               has_permission q r \<and> \<not> reach am {p} q))"
proof -
  have now: "has_permission q r \<longleftrightarrow> q \<in> effective am r"
    using assms(1) by (simp add: has_permission_def rbac_current_def)
  have "has_permission q (snd (grant_permission am p realm r)) \<longleftrightarrow>
      q \<in> effective am (add_granted_permission p r)" if "fst (grant_permission am p realm r) = RBAC_OK"
    using that assms(2)
    by (auto simp: grant_permission_def Let_def has_permission_def effective_def save_permission_def
        split: if_splits)
  moreover have "has_permission q (snd (deny_permission am p realm r)) \<longleftrightarrow>
      q \<in> effective am (add_denied_permission p r)" if "fst (deny_permission am p realm r) = RBAC_OK"
    using that assms(2)
    by (auto simp: deny_permission_def Let_def has_permission_def effective_def save_permission_def
        split: if_splits)
  ultimately show ?thesis
    unfolding now
    by (auto simp: effective_def add_granted_permission_def add_denied_permission_def
        reach_insert [of am p "set (rb_granted r)"] reach_insert [of am p "set (rb_denied r)"])
qed

definition example_table :: account_mgr where
  "example_table = \<lparr>am_permissions =
     [(1, Some \<lparr>perm_id = 1, perm_name = [], perm_links = [2, 3]\<rparr>),
      (2, Some \<lparr>perm_id = 2, perm_name = [], perm_links = [1]\<rparr>),
      (3, Some \<lparr>perm_id = 3, perm_name = [], perm_links = [4]\<rparr>)],
     am_defaults = []\<rparr>"

theorem grant_deny_effect_witness:
  "\<not> has_permission 2 (snd (deny_permission example_table 2 1
        (snd (grant_permission example_table 1 1 (load_from_db example_table (\<lambda>_ _. None) (rbac_init 7 [] 1 0))))))"
proof -
  let ?r = "snd (grant_permission example_table 1 1
      (load_from_db example_table (\<lambda>_ _. None) (rbac_init 7 [] 1 0)))"
  have "rbac_current example_table ?r"
    by (intro rbac_current_grant rbac_current_load) simp
  moreover have "fst (deny_permission example_table 2 1 ?r) = RBAC_OK" by code_simp
  moreover have "reach example_table {2} 2"
    by (intro reach.start) (simp_all add: existing_def example_table_def get_rbac_permission_def)
  ultimately show ?thesis
    using grant_deny_effect [of example_table ?r 1 2 2] by simp
qed

text \<open>
  Loading the tables gives each permission its links (a link to itself is dropped) and each
  security level its defaults, provided the link rows name known permissions other than 0.
\<close>

theorem load_rbac_tables:
  assumes "\<forall>(i, l) \<in> set links. i \<noteq> 0 \<and> i \<in> fst ` set perms"
  shows "\<exists>am'. load_rbac (Some perms) (Some links) (Some defaults) am = Some am'
           \<and> existing am' = fst ` set perms
           \<and> (\<forall>i p. get_rbac_permission am' i = Some p \<longrightarrow>
                set (perm_links p) = {l. (i, l) \<in> set links \<and> l \<noteq> i})
           \<and> (\<forall>lvl. set (get_default_permissions am' lvl) = {p. \<exists>s. (s, p) \<in> set defaults \<and> ucast s = lvl})"
proof -
  let ?ps = "load_permission_rows perms []"
  have b: "bound_perm ?ps i \<longleftrightarrow> i \<in> fst ` set perms" for i
    using map_of_eq_None_iff [of "rev perms" i]
    by (cases "map_of (rev perms) i") (auto simp: bound_perm_def load_permission_rows_map map_add_def)
  have no_links: "links_of ?ps i = {}" for i
    by (auto simp: links_of_def load_permission_rows_map map_add_def split: option.splits)
  obtain ps where ps: "load_link_rows links 0 False ?ps = Some ps"
      "\<forall>i. bound_perm ps i \<longleftrightarrow> i \<in> fst ` set perms"
      "\<forall>i. links_of ps i = {l. (i, l) \<in> set links \<and> l \<noteq> i}"
    using load_link_rows_ok [of links ?ps False 0] assms by (auto simp: b no_links)
  define am' where "am' = am\<lparr>am_permissions := ps, am_defaults := load_default_rows defaults []\<rparr>"
  have "load_rbac (Some perms) (Some links) (Some defaults) am = Some am'"
    by (simp add: load_rbac_def clear_rbac_def Let_def ps(1) am'_def)
  moreover have "set (perm_links p) = links_of ps i" if "get_rbac_permission am' i = Some p" for i p
    using that by (auto simp: am'_def get_rbac_permission_def links_of_def split: option.splits)
  moreover have "get_rbac_permission am' i \<noteq> None \<longleftrightarrow> bound_perm ps i" for i
    by (auto simp: am'_def get_rbac_permission_def bound_perm_def split: option.splits)
  then have "existing am' = fst ` set perms" using ps(2) by (auto simp: existing_def)
  moreover have "set (get_default_permissions am' lvl) = {p. \<exists>s. (s, p) \<in> set defaults \<and> ucast s = lvl}" for lvl
    using load_default_rows_sets [of defaults "[]" lvl] by (simp add: am'_def get_default_permissions_def)
  ultimately show ?thesis using ps(3) by (intro exI [of _ am']) simp
qed

theorem load_rbac_tables_witness:
  "\<exists>am'. load_rbac (Some [(1, ''a''), (2, ''b'')]) (Some [(1, 2), (2, 2)]) (Some [(0, 1)])
           \<lparr>am_permissions = [], am_defaults = []\<rparr> = Some am' \<and> existing am' = {1, 2}"
  using load_rbac_tables [of "[(1, 2), (2, 2)]" "[(1, ''a''), (2, ''b'')]" "[(0, 1)]"
      "\<lparr>am_permissions = [], am_defaults = []\<rparr>"]
  by auto

text \<open>
  \<open>UpdateAccountAccess\<close> never changes the security level of the session's permissions: the
  level is set only if it is already the new one. The new level reaches only the database.
\<close>

theorem update_access_keeps_level:
  "map_option rb_sec_level (fst (update_account_access am query rbac account lvl realm)) =
     map_option rb_sec_level rbac"
  by (cases rbac) (simp_all add: update_account_access_def set_security_level_def load_from_db_level)

end
