(* ===== verification/Reputation.thy ===== *)
theory Reputation
  imports Prelude
begin

text \<open>
  A player's reputations, \<open>src/server/game/Reputation/ReputationMgr.cpp\<close> and \<open>ReputationMgr.h\<close>:
  standings, ranks, flags, the counters of high ranks, spillover, the packets, and loading from
  and saving to the table \<open>character_reputation\<close>. Standings are \<open>int32\<close> values (integers, with
  the two's complement wrap of each sum written out); the float computations of the rates are
  the operations of a record, so that nothing depends on their rounding.
\<close>

section \<open>Ranks\<close>

datatype reputation_rank =
    REP_HATED | REP_HOSTILE | REP_UNFRIENDLY | REP_NEUTRAL
  | REP_FRIENDLY | REP_HONORED | REP_REVERED | REP_EXALTED

fun rank_val :: "reputation_rank \<Rightarrow> nat" where
  "rank_val REP_HATED = 0"
| "rank_val REP_HOSTILE = 1"
| "rank_val REP_UNFRIENDLY = 2"
| "rank_val REP_NEUTRAL = 3"
| "rank_val REP_FRIENDLY = 4"
| "rank_val REP_HONORED = 5"
| "rank_val REP_REVERED = 6"
| "rank_val REP_EXALTED = 7"

lemma rank_val_inject: "rank_val a = rank_val b \<longleftrightarrow> a = b"
  by (cases a; cases b) simp_all

instantiation reputation_rank :: linorder
begin

definition less_eq_reputation_rank :: "reputation_rank \<Rightarrow> reputation_rank \<Rightarrow> bool" where
  "a \<le> b \<longleftrightarrow> rank_val a \<le> rank_val b"

definition less_reputation_rank :: "reputation_rank \<Rightarrow> reputation_rank \<Rightarrow> bool" where
  "a < b \<longleftrightarrow> rank_val a < rank_val b"

instance
  by standard (auto simp: less_eq_reputation_rank_def less_reputation_rank_def rank_val_inject)

end

lemmas rank_order = less_eq_reputation_rank_def less_reputation_rank_def

definition rank_of_nat :: "nat \<Rightarrow> reputation_rank" where
  "rank_of_nat i =
     [REP_HATED, REP_HOSTILE, REP_UNFRIENDLY, REP_NEUTRAL,
      REP_FRIENDLY, REP_HONORED, REP_REVERED, REP_EXALTED] ! i"

definition points_in_rank :: "int list" where
  "points_in_rank = [36000, 3000, 3000, 3000, 6000, 12000, 21000, 1000]"

definition reputation_cap :: int where "reputation_cap = 42999"
definition reputation_bottom :: int where "reputation_bottom = -42000"

text \<open>\<open>int32\<close> arithmetic\<close>

definition i32_wrap :: "int \<Rightarrow> int" where
  "i32_wrap x = signed_take_bit 31 x"

fun rank_loop :: "int \<Rightarrow> int \<Rightarrow> nat \<Rightarrow> reputation_rank" where
  "rank_loop standing limit 0 = REP_HATED"
| "rank_loop standing limit (Suc i) =
     (let limit' = i32_wrap (limit - points_in_rank ! i)
      in if limit' \<le> standing then rank_of_nat i else rank_loop standing limit' i)"

definition reputation_to_rank :: "int \<Rightarrow> reputation_rank" where
  "reputation_to_rank standing = rank_loop standing (i32_wrap (reputation_cap + 1)) 8"

section \<open>Data\<close>

definition FLAG_VISIBLE :: u8 where "FLAG_VISIBLE = 0x01"
definition FLAG_AT_WAR :: u8 where "FLAG_AT_WAR = 0x02"
definition FLAG_HIDDEN :: u8 where "FLAG_HIDDEN = 0x04"
definition FLAG_INVISIBLE_FORCED :: u8 where "FLAG_INVISIBLE_FORCED = 0x08"
definition FLAG_PEACE_FORCED :: u8 where "FLAG_PEACE_FORCED = 0x10"
definition FLAG_INACTIVE :: u8 where "FLAG_INACTIVE = 0x20"
definition FLAG_SPECIAL :: u8 where "FLAG_SPECIAL = 0x80"

text \<open>The rows of \<open>Faction.dbc\<close>; the arrays of four are functions of the index.\<close>

record 'f faction_entry =
  fe_id :: u32
  fe_list_id :: int
  fe_race_mask :: "nat \<Rightarrow> u32"
  fe_class_mask :: "nat \<Rightarrow> u32"
  fe_base_value :: "nat \<Rightarrow> int"
  fe_base_flags :: "nat \<Rightarrow> u32"
  fe_team :: u32
  fe_rate_in :: 'f
  fe_rate_out :: 'f
  fe_max_rank_in :: u32

record 'f spill_template =
  st_faction :: "nat \<Rightarrow> u32"
  st_rate :: "nat \<Rightarrow> 'f"
  st_rank :: "nat \<Rightarrow> u32"

record faction_state =
  fs_id :: u32
  fs_list_id :: u32
  fs_standing :: int
  fs_flags :: u8
  fs_need_send :: bool
  fs_need_save :: bool

record 'f float_ops =
  f_of_int :: "int \<Rightarrow> 'f"
  f_mul :: "'f \<Rightarrow> 'f \<Rightarrow> 'f"
  f_add :: "'f \<Rightarrow> 'f \<Rightarrow> 'f"
  f_floor :: "'f \<Rightarrow> 'f"
  f_to_int :: "'f \<Rightarrow> i32"
  f_half :: 'f
  f_is_zero :: "'f \<Rightarrow> bool"

text \<open>
  What the manager reads of its surroundings: the player's race and class, whether he is
  loading, the faction store and the maps built from it, the spillover templates, the rate of
  the configuration, and the script hook, which may change the standing it is passed.
\<close>

record 'f rep_env =
  re_race :: u32
  re_class :: u32
  re_loading :: bool
  re_rows :: nat
  re_store :: "u32 \<Rightarrow> 'f faction_entry option"
  re_team_list :: "u32 \<Rightarrow> u32 list option"
  re_template :: "u32 \<Rightarrow> 'f spill_template option"
  re_rate_gain :: 'f
  re_float :: "'f float_ops"
  re_hook :: "u32 \<Rightarrow> int \<Rightarrow> bool \<Rightarrow> int"

datatype achievement_criteria =
    CRITERIA_KNOWN_FACTIONS | CRITERIA_GAIN_REPUTATION | CRITERIA_GAIN_EXALTED_REPUTATION
  | CRITERIA_GAIN_REVERED_REPUTATION | CRITERIA_GAIN_HONORED_REPUTATION

datatype rep_out =
    SetForcedReactions u32 "(u32 \<times> u32) list"
  | SetFactionStanding bool u32 "(u32 \<times> int) list"     \<comment> \<open>increased, count, (list id, standing)\<close>
  | InitializeFactions u32 "(u8 \<times> int) list"           \<comment> \<open>count, (flags, standing)\<close>
  | SetFactionVisible u32
  | ReputationChanged u32
  | UpdateCriteria achievement_criteria u32

record rep_mgr =
  rm_factions :: "(u32, faction_state) omap"
  rm_forced :: "(u32, reputation_rank) omap"
  rm_visible_count :: u8
  rm_honored_count :: u8
  rm_revered_count :: u8
  rm_exalted_count :: u8
  rm_increased :: bool
  rm_out :: "rep_out list"

definition rep_init :: rep_mgr where
  "rep_init = \<lparr>rm_factions = [], rm_forced = [], rm_visible_count = 0, rm_honored_count = 0,
     rm_revered_count = 0, rm_exalted_count = 0, rm_increased = False, rm_out = []\<rparr>"

definition emit :: "rep_out \<Rightarrow> rep_mgr \<Rightarrow> rep_mgr" where
  "emit p m = m\<lparr>rm_out := rm_out m @ [p]\<rparr>"

definition put_state :: "u32 \<Rightarrow> faction_state \<Rightarrow> rep_mgr \<Rightarrow> rep_mgr" where
  "put_state k s m = m\<lparr>rm_factions := om_set k s (rm_factions m)\<rparr>"

section \<open>Queries\<close>

definition can_have_reputation :: "'f faction_entry \<Rightarrow> bool" where
  "can_have_reputation e \<longleftrightarrow> 0 \<le> fe_list_id e"

definition list_key :: "'f faction_entry \<Rightarrow> u32" where
  "list_key e = word_of_int (fe_list_id e)"

definition get_state_id :: "u32 \<Rightarrow> rep_mgr \<Rightarrow> faction_state option" where
  "get_state_id k m = map_of (rm_factions m) k"

definition get_state :: "'f faction_entry \<Rightarrow> rep_mgr \<Rightarrow> faction_state option" where
  "get_state e m = (if can_have_reputation e then get_state_id (list_key e) m else None)"

definition is_at_war_entry :: "'f faction_entry option \<Rightarrow> rep_mgr \<Rightarrow> bool" where
  "is_at_war_entry oe m =
     (case oe of None \<Rightarrow> False
      | Some e \<Rightarrow> (case get_state e m of Some s \<Rightarrow> fs_flags s AND FLAG_AT_WAR \<noteq> 0 | None \<Rightarrow> False))"

definition is_at_war :: "'f rep_env \<Rightarrow> u32 \<Rightarrow> rep_mgr \<Rightarrow> bool" where
  "is_at_war env f m = is_at_war_entry (re_store env f) m"

text \<open>The first of the four columns that applies to the player's race and class.\<close>

definition base_index :: "'f rep_env \<Rightarrow> 'f faction_entry \<Rightarrow> nat option" where
  "base_index env e =
     find (\<lambda>i. (fe_race_mask e i AND re_race env \<noteq> 0 \<or> (fe_race_mask e i = 0 \<and> fe_class_mask e i \<noteq> 0))
               \<and> (fe_class_mask e i AND re_class env \<noteq> 0 \<or> fe_class_mask e i = 0)) [0, 1, 2, 3]"

definition get_base_reputation :: "'f rep_env \<Rightarrow> 'f faction_entry option \<Rightarrow> int" where
  "get_base_reputation env oe =
     (case oe of None \<Rightarrow> 0
      | Some e \<Rightarrow> (case base_index env e of Some i \<Rightarrow> fe_base_value e i | None \<Rightarrow> 0))"

definition get_default_state_flags :: "'f rep_env \<Rightarrow> 'f faction_entry option \<Rightarrow> u32" where
  "get_default_state_flags env oe =
     (case oe of None \<Rightarrow> 0
      | Some e \<Rightarrow> (case base_index env e of Some i \<Rightarrow> fe_base_flags e i | None \<Rightarrow> 0))"

definition get_reputation_entry :: "'f rep_env \<Rightarrow> 'f faction_entry option \<Rightarrow> rep_mgr \<Rightarrow> int" where
  "get_reputation_entry env oe m =
     (case oe of None \<Rightarrow> 0
      | Some e \<Rightarrow> (case get_state e m of
            Some s \<Rightarrow> i32_wrap (get_base_reputation env (Some e) + fs_standing s)
          | None \<Rightarrow> 0))"

definition get_reputation :: "'f rep_env \<Rightarrow> u32 \<Rightarrow> rep_mgr \<Rightarrow> int" where
  "get_reputation env f m = get_reputation_entry env (re_store env f) m"

definition get_rank :: "'f rep_env \<Rightarrow> 'f faction_entry option \<Rightarrow> rep_mgr \<Rightarrow> reputation_rank" where
  "get_rank env oe m = reputation_to_rank (get_reputation_entry env oe m)"

definition get_base_rank :: "'f rep_env \<Rightarrow> 'f faction_entry option \<Rightarrow> reputation_rank" where
  "get_base_rank env oe = reputation_to_rank (get_base_reputation env oe)"

text \<open>\<open>Player::GetReputationRank\<close>\<close>

definition player_reputation_rank :: "'f rep_env \<Rightarrow> u32 \<Rightarrow> rep_mgr \<Rightarrow> reputation_rank" where
  "player_reputation_rank env f m = get_rank env (re_store env f) m"

definition get_forced_rank_if_any :: "u32 \<Rightarrow> rep_mgr \<Rightarrow> reputation_rank option" where
  "get_forced_rank_if_any f m = map_of (rm_forced m) f"

definition apply_force_reaction :: "u32 \<Rightarrow> reputation_rank \<Rightarrow> bool \<Rightarrow> rep_mgr \<Rightarrow> rep_mgr" where
  "apply_force_reaction f rank apply_it m =
     (if apply_it then m\<lparr>rm_forced := om_set f rank (rm_forced m)\<rparr>
      else m\<lparr>rm_forced := om_del f (rm_forced m)\<rparr>)"

section \<open>Senders\<close>

definition send_force_reactions :: "rep_mgr \<Rightarrow> rep_mgr" where
  "send_force_reactions m =
     emit (SetForcedReactions (word_of_nat (length (rm_forced m)))
             (map (\<lambda>(f, r). (f, word_of_nat (rank_val r))) (rm_forced m))) m"

definition clear_send :: "faction_state \<Rightarrow> faction_state" where
  "clear_send s = s\<lparr>fs_need_send := False\<rparr>"

text \<open>\<open>SendState\<close>: the faction first, then every other one that waits to be sent.\<close>

definition send_state :: "faction_state \<Rightarrow> rep_mgr \<Rightarrow> rep_mgr" where
  "send_state faction m =
     (let others = filter (\<lambda>(k, s). fs_need_send s \<and> fs_list_id s \<noteq> fs_list_id faction) (rm_factions m);
          entries = (fs_list_id faction, fs_standing faction)
                      # map (\<lambda>(k, s). (fs_list_id s, fs_standing s)) others;
          m1 = m\<lparr>rm_increased := False,
                 rm_factions := map (\<lambda>(k, s). (k, if fs_need_send s then clear_send s else s)) (rm_factions m)\<rparr>
      in emit (SetFactionStanding (rm_increased m) (word_of_nat (length entries)) entries) m1)"

text \<open>\<open>for (; a != b; ++a)\<close> on a 32-bit counter.\<close>

definition absent_fields :: "u32 \<Rightarrow> u32 \<Rightarrow> (u8 \<times> int) list" where
  "absent_fields a b = replicate (unat (b - a)) (0, 0)"

fun initial_fields :: "u32 \<Rightarrow> (u32, faction_state) omap \<Rightarrow> (u8 \<times> int) list \<times> u32" where
  "initial_fields a [] = ([], a)"
| "initial_fields a ((k, s) # fs) =
     (case initial_fields (k + 1) fs of (rest, a') \<Rightarrow>
        (absent_fields a k @ (fs_flags s, fs_standing s) # rest, a'))"

definition send_initial_reputations :: "rep_mgr \<Rightarrow> rep_mgr" where
  "send_initial_reputations m =
     (case initial_fields 0 (rm_factions m) of (flds, a) \<Rightarrow>
        emit (InitializeFactions 128 (flds @ absent_fields a 128))
          (m\<lparr>rm_factions := map (\<lambda>(k, s). (k, clear_send s)) (rm_factions m)\<rparr>))"

fun send_states_loop :: "u32 list \<Rightarrow> rep_mgr \<Rightarrow> rep_mgr" where
  "send_states_loop [] m = m"
| "send_states_loop (k # ks) m =
     send_states_loop ks (case map_of (rm_factions m) k of Some s \<Rightarrow> send_state s m | None \<Rightarrow> m)"

definition send_states :: "rep_mgr \<Rightarrow> rep_mgr" where
  "send_states m = send_states_loop (map fst (rm_factions m)) m"

definition send_visible :: "'f rep_env \<Rightarrow> faction_state \<Rightarrow> rep_mgr \<Rightarrow> rep_mgr" where
  "send_visible env s m = (if re_loading env then m else emit (SetFactionVisible (fs_list_id s)) m)"

section \<open>Modifiers of one state\<close>

text \<open>A state is given by its key in the list; the code passes a pointer to it.\<close>

definition set_visible_state :: "'f rep_env \<Rightarrow> u32 \<Rightarrow> rep_mgr \<Rightarrow> rep_mgr" where
  "set_visible_state env k m =
     (case map_of (rm_factions m) k of
        None \<Rightarrow> m
      | Some s \<Rightarrow>
          if fs_flags s AND (FLAG_INVISIBLE_FORCED OR FLAG_HIDDEN) \<noteq> 0 \<and> fs_flags s AND FLAG_SPECIAL = 0 then m
          else if fs_flags s AND FLAG_VISIBLE \<noteq> 0 then m
          else
            (let s' = s\<lparr>fs_flags := fs_flags s OR FLAG_VISIBLE, fs_need_send := True, fs_need_save := True\<rparr>
             in send_visible env s' ((put_state k s' m)\<lparr>rm_visible_count := rm_visible_count m + 1\<rparr>)))"

definition set_at_war_state :: "bool \<Rightarrow> faction_state \<Rightarrow> faction_state" where
  "set_at_war_state at_war s =
     (if at_war \<and> fs_flags s AND FLAG_PEACE_FORCED \<noteq> 0 then s
      else if (fs_flags s AND FLAG_AT_WAR \<noteq> 0) = at_war then s
      else s\<lparr>fs_flags := (if at_war then fs_flags s OR FLAG_AT_WAR else fs_flags s AND NOT FLAG_AT_WAR),
             fs_need_send := True, fs_need_save := True\<rparr>)"

definition set_inactive_state :: "bool \<Rightarrow> faction_state \<Rightarrow> faction_state" where
  "set_inactive_state inactive s =
     (if inactive \<and> (fs_flags s AND (FLAG_INVISIBLE_FORCED OR FLAG_HIDDEN) \<noteq> 0 \<or> fs_flags s AND FLAG_VISIBLE = 0)
      then s
      else if (fs_flags s AND FLAG_INACTIVE \<noteq> 0) = inactive then s
      else s\<lparr>fs_flags := (if inactive then fs_flags s OR FLAG_INACTIVE else fs_flags s AND NOT FLAG_INACTIVE),
             fs_need_send := True, fs_need_save := True\<rparr>)"

definition upd_state :: "u32 \<Rightarrow> (faction_state \<Rightarrow> faction_state) \<Rightarrow> rep_mgr \<Rightarrow> rep_mgr" where
  "upd_state k f m =
     (case map_of (rm_factions m) k of Some s \<Rightarrow> put_state k (f s) m | None \<Rightarrow> m)"

definition set_visible_entry :: "'f rep_env \<Rightarrow> 'f faction_entry \<Rightarrow> rep_mgr \<Rightarrow> rep_mgr" where
  "set_visible_entry env e m =
     (if fe_list_id e < 0 then m
      else if map_of (rm_factions m) (list_key e) = None then m
      else set_visible_state env (list_key e) m)"

text \<open>\<open>SetVisible(FactionTemplateEntry const*)\<close>; the argument is the template's faction.\<close>

definition set_visible_template :: "'f rep_env \<Rightarrow> u32 \<Rightarrow> rep_mgr \<Rightarrow> rep_mgr" where
  "set_visible_template env f m =
     (if f = 0 then m
      else case re_store env f of
          None \<Rightarrow> m
        | Some e \<Rightarrow>
            if \<not> (fe_race_mask e 1 AND re_race env \<noteq> 0 \<and> fe_base_value e 1 = reputation_bottom)
            then set_visible_entry env e m else m)"

definition set_at_war :: "u32 \<Rightarrow> bool \<Rightarrow> rep_mgr \<Rightarrow> rep_mgr" where
  "set_at_war k on m =
     (case map_of (rm_factions m) k of
        None \<Rightarrow> m
      | Some s \<Rightarrow>
          if fs_flags s AND (FLAG_INVISIBLE_FORCED OR FLAG_HIDDEN) \<noteq> 0 then m
          else upd_state k (set_at_war_state on) m)"

definition set_inactive :: "u32 \<Rightarrow> bool \<Rightarrow> rep_mgr \<Rightarrow> rep_mgr" where
  "set_inactive k on m = upd_state k (set_inactive_state on) m"

definition update_rank_counters :: "reputation_rank \<Rightarrow> reputation_rank \<Rightarrow> rep_mgr \<Rightarrow> rep_mgr" where
  "update_rank_counters old new m =
     (let m1 = m\<lparr>rm_exalted_count := rm_exalted_count m - (if REP_EXALTED \<le> old then 1 else 0),
                 rm_revered_count := rm_revered_count m - (if REP_REVERED \<le> old then 1 else 0),
                 rm_honored_count := rm_honored_count m - (if REP_HONORED \<le> old then 1 else 0)\<rparr>
      in m1\<lparr>rm_exalted_count := rm_exalted_count m1 + (if REP_EXALTED \<le> new then 1 else 0),
            rm_revered_count := rm_revered_count m1 + (if REP_REVERED \<le> new then 1 else 0),
            rm_honored_count := rm_honored_count m1 + (if REP_HONORED \<le> new then 1 else 0)\<rparr>)"

section \<open>Changing a reputation\<close>

definition clamp_reputation :: "int \<Rightarrow> int" where
  "clamp_reputation v =
     (if reputation_cap < v then reputation_cap else if v < reputation_bottom then reputation_bottom else v)"

definition gained :: "'f rep_env \<Rightarrow> int \<Rightarrow> int" where
  "gained env v =
     (let ops = re_float env
      in sint (f_to_int ops (f_floor ops (f_add ops (f_mul ops (f_of_int ops v) (re_rate_gain env)) (f_half ops)))))"

definition notify_changed :: "u32 \<Rightarrow> rep_mgr \<Rightarrow> rep_mgr" where
  "notify_changed f m =
     fold emit [ReputationChanged f, UpdateCriteria CRITERIA_KNOWN_FACTIONS f,
       UpdateCriteria CRITERIA_GAIN_REPUTATION f, UpdateCriteria CRITERIA_GAIN_EXALTED_REPUTATION f,
       UpdateCriteria CRITERIA_GAIN_REVERED_REPUTATION f, UpdateCriteria CRITERIA_GAIN_HONORED_REPUTATION f] m"

definition set_one_faction_reputation ::
    "'f rep_env \<Rightarrow> 'f faction_entry \<Rightarrow> int \<Rightarrow> bool \<Rightarrow> rep_mgr \<Rightarrow> bool \<times> rep_mgr" where
  "set_one_faction_reputation env e standing incremental m =
     (case map_of (rm_factions m) (list_key e) of
        None \<Rightarrow> (False, m)
      | Some s \<Rightarrow>
          (let k = list_key e;
               base = get_base_reputation env (Some e);
               st1 = (if incremental then i32_wrap (gained env standing + i32_wrap (fs_standing s + base)) else standing);
               st2 = clamp_reputation st1;
               old_rank = reputation_to_rank (i32_wrap (fs_standing s + base));
               new_rank = reputation_to_rank st2;
               m1 = put_state k (s\<lparr>fs_standing := i32_wrap (st2 - base), fs_need_send := True, fs_need_save := True\<rparr>) m;
               m2 = set_visible_state env k m1;
               m3 = (if new_rank \<le> REP_HOSTILE then upd_state k (set_at_war_state True) m2 else m2);
               m4 = (if old_rank < new_rank then m3\<lparr>rm_increased := True\<rparr> else m3);
               m5 = update_rank_counters old_rank new_rank m4
           in (True, notify_changed (fe_id e) m5)))"

text \<open>\<open>AssertEntry\<close> stops the server if the faction does not exist: the result is \<open>None\<close>.\<close>

fun template_spill ::
    "'f rep_env \<Rightarrow> 'f spill_template \<Rightarrow> int \<Rightarrow> bool \<Rightarrow> nat list \<Rightarrow> rep_mgr \<Rightarrow> rep_mgr option" where
  "template_spill env t standing incremental [] m = Some m"
| "template_spill env t standing incremental (i # is) m =
     (if st_faction t i \<noteq> 0
         \<and> rank_val (player_reputation_rank env (st_faction t i) m) \<le> unat (st_rank t i)
      then
        (case re_store env (st_faction t i) of
           None \<Rightarrow> None
         | Some e \<Rightarrow>
             (let ops = re_float env;
                  spill = sint (f_to_int ops (f_mul ops (f_of_int ops standing) (st_rate t i)))
              in template_spill env t standing incremental is
                   (snd (set_one_faction_reputation env e spill incremental m))))
      else template_spill env t standing incremental is m)"

declare template_spill.simps [simp del]

fun sister_spill ::
    "'f rep_env \<Rightarrow> 'f faction_entry \<Rightarrow> 'f \<Rightarrow> bool \<Rightarrow> u32 list \<Rightarrow> bool \<Rightarrow> rep_mgr \<Rightarrow> bool \<times> rep_mgr" where
  "sister_spill env e out incremental [] res m = (res, m)"
| "sister_spill env e out incremental (f # fs) res m =
     (case re_store env f of
        None \<Rightarrow> sister_spill env e out incremental fs res m
      | Some c \<Rightarrow>
          if fe_id c = fe_id e \<or> unat (fe_max_rank_in c) < rank_val (get_rank env (Some c) m)
          then sister_spill env e out incremental fs res m
          else
            (let ops = re_float env; spill = sint (f_to_int ops (f_mul ops out (fe_rate_in c)))
             in if spill \<noteq> 0 \<or> \<not> incremental
                then (case set_one_faction_reputation env c spill incremental m of
                        (res', m') \<Rightarrow> sister_spill env e out incremental fs res' m')
                else sister_spill env e out incremental fs res m))"

definition dbc_spill ::
    "'f rep_env \<Rightarrow> 'f faction_entry \<Rightarrow> int \<Rightarrow> bool \<Rightarrow> rep_mgr \<Rightarrow> bool \<times> rep_mgr" where
  "dbc_spill env e standing incremental m =
     (let ops = re_float env;
          out = f_of_int ops standing;
          flist = re_team_list env (fe_id e)
      in if flist = None \<and> fe_team e \<noteq> 0 \<and> \<not> f_is_zero ops (fe_rate_out e)
         then
           (let out' = f_mul ops out (fe_rate_out e)
            in case re_store env (fe_team e) of
                 None \<Rightarrow> (False, m)
               | Some parent \<Rightarrow>
                   (case map_of (rm_factions m) (list_key parent) of
                      Some ps \<Rightarrow>
                        if fs_flags ps AND FLAG_SPECIAL \<noteq> 0
                        then (False, snd (set_one_faction_reputation env parent (sint (f_to_int ops out')) incremental m))
                        else (case re_team_list env (fe_team e) of
                                Some fl \<Rightarrow> sister_spill env e out' incremental fl False m
                              | None \<Rightarrow> (False, m))
                    | None \<Rightarrow>
                        (case re_team_list env (fe_team e) of
                           Some fl \<Rightarrow> sister_spill env e out' incremental fl False m
                         | None \<Rightarrow> (False, m))))
         else (case flist of
                 Some fl \<Rightarrow> sister_spill env e out incremental fl False m
               | None \<Rightarrow> (False, m)))"

definition spill_over ::
    "'f rep_env \<Rightarrow> 'f faction_entry \<Rightarrow> int \<Rightarrow> bool \<Rightarrow> rep_mgr \<Rightarrow> (bool \<times> rep_mgr) option" where
  "spill_over env e standing incremental m =
     (case re_template env (fe_id e) of
        Some t \<Rightarrow> map_option (Pair False) (template_spill env t standing incremental [0, 1, 2, 3] m)
      | None \<Rightarrow> Some (dbc_spill env e standing incremental m))"

text \<open>Spillover done, the faction itself; it alone is reported to the client.\<close>

definition set_own_reputation ::
    "'f rep_env \<Rightarrow> 'f faction_entry \<Rightarrow> int \<Rightarrow> bool \<Rightarrow> bool \<Rightarrow> rep_mgr \<Rightarrow> bool \<times> rep_mgr" where
  "set_own_reputation env e standing incremental res m =
     (case map_of (rm_factions m) (list_key e) of
        None \<Rightarrow> (res, m)
      | Some s0 \<Rightarrow>
          (case set_one_faction_reputation env e standing incremental m of
             (res', m') \<Rightarrow>
               (res', case map_of (rm_factions m') (list_key e) of Some s \<Rightarrow> send_state s m' | None \<Rightarrow> m')))"

definition set_reputation ::
    "'f rep_env \<Rightarrow> 'f faction_entry \<Rightarrow> int \<Rightarrow> bool \<Rightarrow> rep_mgr \<Rightarrow> (bool \<times> rep_mgr) option" where
  "set_reputation env e standing0 incremental m =
     (let standing = re_hook env (fe_id e) standing0 incremental
      in case spill_over env e standing incremental m of
           None \<Rightarrow> None
         | Some (res, m1) \<Rightarrow> Some (set_own_reputation env e standing incremental res m1))"

section \<open>Loading and saving\<close>

definition initial_state :: "'f rep_env \<Rightarrow> 'f faction_entry \<Rightarrow> faction_state" where
  "initial_state env e =
     \<lparr>fs_id = fe_id e, fs_list_id = list_key e, fs_standing = 0,
      fs_flags = ucast (get_default_state_flags env (Some e)), fs_need_send = True, fs_need_save = True\<rparr>"

fun initialize_loop :: "'f rep_env \<Rightarrow> nat list \<Rightarrow> rep_mgr \<Rightarrow> rep_mgr" where
  "initialize_loop env [] m = m"
| "initialize_loop env (i # is) m =
     initialize_loop env is
       (case re_store env (word_of_nat i) of
          None \<Rightarrow> m
        | Some e \<Rightarrow>
            if 0 \<le> fe_list_id e
            then
              (let s = initial_state env e;
                   m1 = (if fs_flags s AND FLAG_VISIBLE \<noteq> 0
                         then m\<lparr>rm_visible_count := rm_visible_count m + 1\<rparr> else m);
                   m2 = update_rank_counters REP_HOSTILE (get_base_rank env (Some e)) m1
               in put_state (fs_list_id s) s m2)
            else m)"

definition initialize :: "'f rep_env \<Rightarrow> rep_mgr \<Rightarrow> rep_mgr" where
  "initialize env m =
     initialize_loop env [1..<re_rows env]
       (m\<lparr>rm_factions := [], rm_visible_count := 0, rm_honored_count := 0, rm_revered_count := 0,
          rm_exalted_count := 0, rm_increased := False\<rparr>)"

text \<open>
  One row of the query (faction, standing, flags). \<open>_factions[reputationListID]\<close> would create a
  missing state; its fields are then unspecified, and it is absent from the model
  (\<open>Initialize\<close> has made the state of every faction of the store).
\<close>

definition load_row :: "'f rep_env \<Rightarrow> u16 \<times> int \<times> u16 \<Rightarrow> rep_mgr \<Rightarrow> rep_mgr" where
  "load_row env row m =
     (case row of (f, standing, db_flags) \<Rightarrow>
       case re_store env (ucast f) of
         None \<Rightarrow> m
       | Some e \<Rightarrow>
           if fe_list_id e < 0 then m
           else
             (let k = list_key e;
                  m1 = upd_state k (\<lambda>s. s\<lparr>fs_standing := standing\<rparr>) m;
                  base = get_base_reputation env (Some e);
                  m2 = update_rank_counters (reputation_to_rank base)
                         (reputation_to_rank (i32_wrap (base + standing))) m1;
                  m3 = (if db_flags AND ucast FLAG_VISIBLE \<noteq> 0 then set_visible_state env k m2 else m2);
                  m4 = (if db_flags AND ucast FLAG_INACTIVE \<noteq> 0 then upd_state k (set_inactive_state True) m3 else m3);
                  m5 = (if db_flags AND ucast FLAG_AT_WAR \<noteq> 0 then upd_state k (set_at_war_state True) m4
                        else upd_state k (\<lambda>s. if fs_flags s AND FLAG_VISIBLE \<noteq> 0 then set_at_war_state False s else s) m4);
                  m6 = (if get_rank env (Some e) m5 \<le> REP_HOSTILE then upd_state k (set_at_war_state True) m5 else m5)
              in upd_state k (\<lambda>s. if ucast (fs_flags s) = db_flags
                                   then s\<lparr>fs_need_send := False, fs_need_save := False\<rparr> else s) m6))"

definition load_reputations :: "'f rep_env \<Rightarrow> (u16 \<times> int \<times> u16) list \<Rightarrow> rep_mgr \<Rightarrow> rep_mgr" where
  "load_reputations env rows m = fold (load_row env) rows (initialize env m)"

text \<open>The player's rows of \<open>character_reputation\<close>, by faction.\<close>

type_synonym rep_table = "(u16, int \<times> u16) omap"

fun save_rows :: "(u32, faction_state) omap \<Rightarrow> rep_table \<Rightarrow> rep_table" where
  "save_rows [] t = t"
| "save_rows ((k, s) # fs) t =
     save_rows fs
       (if fs_need_save s
        then om_set (ucast (fs_id s)) (fs_standing s, ucast (fs_flags s)) (om_del (ucast (fs_id s)) t)
        else t)"

definition save_reputations :: "rep_mgr \<Rightarrow> rep_table \<Rightarrow> rep_mgr \<times> rep_table" where
  "save_reputations m t =
     (m\<lparr>rm_factions := map (\<lambda>(k, s). (k, if fs_need_save s then s\<lparr>fs_need_save := False\<rparr> else s)) (rm_factions m)\<rparr>,
      save_rows (rm_factions m) t)"

section \<open>Arithmetic\<close>

lemma i32_wrap_id: "- (2 ^ 31) \<le> x \<Longrightarrow> x < 2 ^ 31 \<Longrightarrow> i32_wrap x = x"
  unfolding i32_wrap_def by (rule signed_take_bit_int_eq_self) simp_all

lemma reputation_to_rank_thresholds:
  "reputation_to_rank v =
     (if 42000 \<le> v then REP_EXALTED else if 21000 \<le> v then REP_REVERED else if 9000 \<le> v then REP_HONORED
      else if 3000 \<le> v then REP_FRIENDLY else if 0 \<le> v then REP_NEUTRAL else if -3000 \<le> v then REP_UNFRIENDLY
      else if -6000 \<le> v then REP_HOSTILE else REP_HATED)"
  by (simp add: reputation_to_rank_def reputation_cap_def i32_wrap_id points_in_rank_def rank_of_nat_def
      eval_nat_numeral Let_def)

definition in_range :: "int \<Rightarrow> bool" where
  "in_range v \<longleftrightarrow> reputation_bottom \<le> v \<and> v \<le> reputation_cap"

lemma in_range_clamp [simp]: "in_range (clamp_reputation v)"
  by (auto simp: in_range_def clamp_reputation_def reputation_bottom_def reputation_cap_def)

lemma in_range_wrap [simp]: "in_range v \<Longrightarrow> i32_wrap v = v"
  by (rule i32_wrap_id) (simp_all add: in_range_def reputation_bottom_def reputation_cap_def)

lemma in_range_diff: "in_range v \<Longrightarrow> in_range w \<Longrightarrow> i32_wrap (v - w) = v - w"
  by (rule i32_wrap_id) (simp_all add: in_range_def reputation_bottom_def reputation_cap_def)

section \<open>The surroundings and the invariant\<close>

text \<open>
  What the data files and the loading of the spillover templates guarantee: every entry is
  stored under its id, which fits the 16 bits of the table; no two factions share a place in
  the reputation list; the base values are between the bounds; templates name known factions.
\<close>

definition env_ok :: "'f rep_env \<Rightarrow> bool" where
  "env_ok env \<longleftrightarrow>
     re_rows env \<le> 2 ^ 32
     \<and> (\<forall>i e. re_store env i = Some e \<longrightarrow>
        fe_id e = i \<and> 0 < unat i \<and> unat i < re_rows env \<and> unat i < 2 ^ 16 \<and> fe_list_id e < 2 ^ 31
        \<and> -(2 ^ 31) \<le> fe_list_id e \<and> (\<forall>j. in_range (fe_base_value e j)))
     \<and> (\<forall>i j e f. re_store env i = Some e \<and> re_store env j = Some f \<and> 0 \<le> fe_list_id e
          \<and> list_key e = list_key f \<longrightarrow> i = j)
     \<and> (\<forall>i t j. re_template env i = Some t \<and> st_faction t j \<noteq> 0 \<longrightarrow> re_store env (st_faction t j) \<noteq> None)"

definition base_of :: "'f rep_env \<Rightarrow> faction_state \<Rightarrow> int" where
  "base_of env s = get_base_reputation env (re_store env (fs_id s))"

definition rank_at :: "'f rep_env \<Rightarrow> faction_state \<Rightarrow> reputation_rank" where
  "rank_at env s = reputation_to_rank (base_of env s + fs_standing s)"

definition is_visible :: "faction_state \<Rightarrow> bool" where
  "is_visible s \<longleftrightarrow> fs_flags s AND FLAG_VISIBLE \<noteq> 0"

definition state_ok :: "'f rep_env \<Rightarrow> u32 \<Rightarrow> faction_state \<Rightarrow> bool" where
  "state_ok env k s \<longleftrightarrow>
     (\<exists>e. re_store env (fs_id s) = Some e \<and> 0 \<le> fe_list_id e \<and> list_key e = k)
     \<and> fs_list_id s = k \<and> in_range (base_of env s + fs_standing s)"

type_synonym counts = "u8 \<times> u8 \<times> u8"

definition shown_counts :: "rep_mgr \<Rightarrow> counts" where
  "shown_counts m = (rm_exalted_count m, rm_revered_count m, rm_honored_count m)"

definition real_counts :: "'f rep_env \<Rightarrow> rep_mgr \<Rightarrow> counts" where
  "real_counts env m =
     (let n = \<lambda>r. word_of_nat (om_count (\<lambda>s. r \<le> rank_at env s) (rm_factions m))
      in (n REP_EXALTED, n REP_REVERED, n REP_HONORED))"

definition adjust :: "reputation_rank \<Rightarrow> reputation_rank \<Rightarrow> counts \<Rightarrow> counts" where
  "adjust old new =
     (\<lambda>(x, r, h). (x - of_bool (REP_EXALTED \<le> old) + of_bool (REP_EXALTED \<le> new),
                    r - of_bool (REP_REVERED \<le> old) + of_bool (REP_REVERED \<le> new),
                    h - of_bool (REP_HONORED \<le> old) + of_bool (REP_HONORED \<le> new)))"

definition states_ok :: "'f rep_env \<Rightarrow> rep_mgr \<Rightarrow> bool" where
  "states_ok env m \<longleftrightarrow>
     om_inv (rm_factions m) \<and> (\<forall>k s. map_of (rm_factions m) k = Some s \<longrightarrow> state_ok env k s)"

definition visible_ok :: "rep_mgr \<Rightarrow> bool" where
  "visible_ok m \<longleftrightarrow> rm_visible_count m = word_of_nat (om_count is_visible (rm_factions m))"

definition rep_inv :: "'f rep_env \<Rightarrow> rep_mgr \<Rightarrow> bool" where
  "rep_inv env m \<longleftrightarrow> states_ok env m \<and> visible_ok m \<and> shown_counts m = real_counts env m"

lemma shown_counts_update [simp]:
  "shown_counts (update_rank_counters old new m) = adjust old new (shown_counts m)"
  by (simp add: shown_counts_def update_rank_counters_def adjust_def Let_def)

lemma update_rank_counters_fields [simp]:
  "rm_factions (update_rank_counters old new m) = rm_factions m"
  "rm_visible_count (update_rank_counters old new m) = rm_visible_count m"
  "rm_forced (update_rank_counters old new m) = rm_forced m"
  by (simp_all add: update_rank_counters_def Let_def)

lemma word_count_diff: "a + c = b + d \<Longrightarrow> (word_of_nat a :: 'a::len word) = word_of_nat b - word_of_nat c + word_of_nat d"
proof -
  assume "a + c = b + d"
  then have "(word_of_nat (a + c) :: 'a word) = word_of_nat (b + d)" by simp
  then show ?thesis by (simp add: algebra_simps)
qed

lemma real_counts_put:
  assumes "om_inv (rm_factions m)" "map_of (rm_factions m) k = Some s"
  shows "real_counts env (put_state k s' m) = adjust (rank_at env s) (rank_at env s') (real_counts env m)"
proof -
  have "(word_of_nat (om_count (\<lambda>s. r \<le> rank_at env s) (om_set k s' (rm_factions m))) :: u8) =
      word_of_nat (om_count (\<lambda>s. r \<le> rank_at env s) (rm_factions m))
        - of_bool (r \<le> rank_at env s) + of_bool (r \<le> rank_at env s')" for r
    using word_count_diff [OF om_count_set [OF assms(1), of "\<lambda>s. r \<le> rank_at env s" k s'], where 'a = 8]
    by (simp add: assms(2))
  then show ?thesis by (simp add: real_counts_def put_state_def adjust_def Let_def)
qed

lemma real_counts_new:
  assumes "om_inv (rm_factions m)" "map_of (rm_factions m) k = None"
  shows "real_counts env (put_state k s' m) = adjust REP_HOSTILE (rank_at env s') (real_counts env m)"
proof -
  have "(word_of_nat (om_count (\<lambda>s. r \<le> rank_at env s) (om_set k s' (rm_factions m))) :: u8) =
      word_of_nat (om_count (\<lambda>s. r \<le> rank_at env s) (rm_factions m)) + of_bool (r \<le> rank_at env s')" for r
    using word_count_diff [OF om_count_set [OF assms(1), of "\<lambda>s. r \<le> rank_at env s" k s'], where 'a = 8]
    by (simp add: assms(2))
  then show ?thesis by (simp add: real_counts_def put_state_def adjust_def Let_def rank_order)
qed

lemma adjust_same [simp]: "adjust r r c = c"
  by (cases c) (simp add: adjust_def)

lemma real_counts_cong: "rm_factions m = rm_factions n \<Longrightarrow> real_counts env m = real_counts env n"
  by (simp add: real_counts_def)

text \<open>The table agrees with every state that need not be saved; its standings are in range.\<close>

definition synced :: "rep_mgr \<Rightarrow> rep_table \<Rightarrow> bool" where
  "synced m t \<longleftrightarrow>
     (\<forall>k s. map_of (rm_factions m) k = Some s \<and> \<not> fs_need_save s \<longrightarrow>
        map_of t (ucast (fs_id s)) = Some (fs_standing s, ucast (fs_flags s)))"

definition table_ok :: "'f rep_env \<Rightarrow> rep_table \<Rightarrow> bool" where
  "table_ok env t \<longleftrightarrow> om_inv t \<and>
     (\<forall>f st fl e. map_of t f = Some (st, fl) \<and> re_store env (ucast f) = Some e \<and> 0 \<le> fe_list_id e \<longrightarrow>
        in_range (get_base_reputation env (Some e) + st))"

definition rep_good :: "'f rep_env \<Rightarrow> rep_table \<Rightarrow> rep_mgr \<Rightarrow> bool" where
  "rep_good env t m \<longleftrightarrow> rep_inv env m \<and> synced m t"

section \<open>Changes of flags\<close>

text \<open>A change that keeps faction and standing, and marks the state for saving if it is one.\<close>

definition mild :: "faction_state \<Rightarrow> faction_state \<Rightarrow> bool" where
  "mild s s' \<longleftrightarrow> fs_id s' = fs_id s \<and> fs_list_id s' = fs_list_id s \<and> fs_standing s' = fs_standing s
     \<and> (fs_need_save s' \<or> (fs_flags s' = fs_flags s \<and> fs_need_save s' = fs_need_save s))"

lemma mild_rank: "mild s s' \<Longrightarrow> rank_at env s' = rank_at env s"
  by (simp add: mild_def rank_at_def base_of_def)

lemma mild_state_ok: "mild s s' \<Longrightarrow> state_ok env k s \<Longrightarrow> state_ok env k s'"
  by (simp add: mild_def state_ok_def base_of_def)

lemma put_state_factions [simp]:
  "rm_factions (put_state k s m) = om_set k s (rm_factions m)"
  "rm_visible_count (put_state k s m) = rm_visible_count m"
  "shown_counts (put_state k s m) = shown_counts m"
  "rm_out (put_state k s m) = rm_out m"
  "rm_forced (put_state k s m) = rm_forced m"
  by (simp_all add: put_state_def shown_counts_def)

lemma shown_counts_fields [simp]:
  "shown_counts (m\<lparr>rm_visible_count := v\<rparr>) = shown_counts m"
  "shown_counts (m\<lparr>rm_factions := fs\<rparr>) = shown_counts m"
  "shown_counts (m\<lparr>rm_increased := b\<rparr>) = shown_counts m"
  "shown_counts (m\<lparr>rm_forced := g\<rparr>) = shown_counts m"
  by (simp_all add: shown_counts_def)

lemma states_ok_put: "states_ok env m \<Longrightarrow> state_ok env k s \<Longrightarrow> states_ok env (put_state k s m)"
  by (auto simp: states_ok_def)

lemma synced_put:
  "synced m t \<Longrightarrow> fs_need_save s' \<Longrightarrow> synced (put_state k s' m) t"
  by (auto simp: synced_def)

lemma synced_put_mild:
  "synced m t \<Longrightarrow> map_of (rm_factions m) k = Some s \<Longrightarrow> mild s s' \<Longrightarrow> synced (put_state k s' m) t"
  by (auto simp: synced_def mild_def)

lemma rep_good_put_mild:
  assumes "rep_good env t m" "map_of (rm_factions m) k = Some s" "mild s s'" "is_visible s' = is_visible s"
  shows "rep_good env t (put_state k s' m)"
proof -
  have o: "om_inv (rm_factions m)" and ok: "state_ok env k s"
    using assms(1,2) by (auto simp: rep_good_def rep_inv_def states_ok_def)
  have "om_count is_visible (om_set k s' (rm_factions m)) = om_count is_visible (rm_factions m)"
    using om_count_set_same [OF o assms(2)] assms(4) by simp
  moreover have "real_counts env (put_state k s' m) = real_counts env m"
    using real_counts_put [OF o assms(2), of env] mild_rank [OF assms(3), of env] by simp
  ultimately show ?thesis
    using assms(1) states_ok_put [OF _ mild_state_ok [OF assms(3) ok]] synced_put_mild [OF _ assms(2,3)]
    by (simp add: rep_good_def rep_inv_def visible_ok_def)
qed

lemmas flag_defs = FLAG_VISIBLE_def FLAG_AT_WAR_def FLAG_HIDDEN_def FLAG_INVISIBLE_FORCED_def
  FLAG_PEACE_FORCED_def FLAG_INACTIVE_def FLAG_SPECIAL_def

lemma visible_bit_stays:
  "(f OR FLAG_AT_WAR) AND FLAG_VISIBLE = f AND FLAG_VISIBLE"
  "(f AND NOT FLAG_AT_WAR) AND FLAG_VISIBLE = f AND FLAG_VISIBLE"
  "(f OR FLAG_INACTIVE) AND FLAG_VISIBLE = f AND FLAG_VISIBLE"
  "(f AND NOT FLAG_INACTIVE) AND FLAG_VISIBLE = f AND FLAG_VISIBLE"
proof -
  have "FLAG_AT_WAR AND FLAG_VISIBLE = 0" "NOT FLAG_AT_WAR AND FLAG_VISIBLE = FLAG_VISIBLE"
    "FLAG_INACTIVE AND FLAG_VISIBLE = 0" "NOT FLAG_INACTIVE AND FLAG_VISIBLE = FLAG_VISIBLE"
    by (simp_all add: flag_defs)
  then show "(f OR FLAG_AT_WAR) AND FLAG_VISIBLE = f AND FLAG_VISIBLE"
    "(f AND NOT FLAG_AT_WAR) AND FLAG_VISIBLE = f AND FLAG_VISIBLE"
    "(f OR FLAG_INACTIVE) AND FLAG_VISIBLE = f AND FLAG_VISIBLE"
    "(f AND NOT FLAG_INACTIVE) AND FLAG_VISIBLE = f AND FLAG_VISIBLE"
    by (simp_all add: bit.conj_disj_distrib2 and.assoc)
qed

lemma mild_at_war: "mild s (set_at_war_state b s)" "is_visible (set_at_war_state b s) = is_visible s"
  by (auto simp: mild_def set_at_war_state_def is_visible_def visible_bit_stays)

lemma mild_inactive: "mild s (set_inactive_state b s)" "is_visible (set_inactive_state b s) = is_visible s"
  by (auto simp: mild_def set_inactive_state_def is_visible_def visible_bit_stays)

lemma rep_good_upd_mild:
  assumes "rep_good env t m" "\<And>s. mild s (f s) \<and> is_visible (f s) = is_visible s"
  shows "rep_good env t (upd_state k f m)"
  using assms rep_good_put_mild [OF assms(1)] by (auto simp: upd_state_def split: option.splits)

lemma rep_good_set_at_war [inv_lemmas]: "rep_good env t m \<Longrightarrow> rep_good env t (set_at_war k b m)"
  by (auto simp: set_at_war_def mild_at_war intro!: rep_good_upd_mild split: option.splits)

lemma rep_good_set_inactive [inv_lemmas]: "rep_good env t m \<Longrightarrow> rep_good env t (set_inactive k b m)"
  by (auto simp: set_inactive_def mild_inactive intro!: rep_good_upd_mild)

lemma states_ok_cong: "rm_factions m = rm_factions n \<Longrightarrow> states_ok env m = states_ok env n"
  by (simp add: states_ok_def)

lemma synced_cong: "rm_factions m = rm_factions n \<Longrightarrow> synced m t = synced n t"
  by (simp add: synced_def)

lemma visible_ok_cong:
  "rm_factions m = rm_factions n \<Longrightarrow> rm_visible_count m = rm_visible_count n \<Longrightarrow> visible_ok m = visible_ok n"
  by (simp add: visible_ok_def)

lemma rep_good_cong:
  "rm_factions m = rm_factions n \<Longrightarrow> rm_visible_count m = rm_visible_count n
    \<Longrightarrow> shown_counts m = shown_counts n \<Longrightarrow> rep_good env t m = rep_good env t n"
  using real_counts_cong [of m n env] states_ok_cong [of m n env] synced_cong [of m n t] visible_ok_cong [of m n]
  by (simp add: rep_good_def rep_inv_def)

lemma emit_fields [simp]:
  "rm_factions (emit p m) = rm_factions m" "rm_visible_count (emit p m) = rm_visible_count m"
  "shown_counts (emit p m) = shown_counts m" "rm_forced (emit p m) = rm_forced m"
  "rm_increased (emit p m) = rm_increased m"
  by (simp_all add: emit_def shown_counts_def)

lemma send_visible_fields [simp]:
  "rm_factions (send_visible env s m) = rm_factions m"
  "rm_visible_count (send_visible env s m) = rm_visible_count m"
  "shown_counts (send_visible env s m) = shown_counts m"
  by (simp_all add: send_visible_def)

text \<open>What \<open>SetVisible\<close> does to the list: one state at most gets the flag, and is counted.\<close>

definition can_show :: "faction_state \<Rightarrow> bool" where
  "can_show s \<longleftrightarrow> \<not> is_visible s
     \<and> (fs_flags s AND (FLAG_INVISIBLE_FORCED OR FLAG_HIDDEN) = 0 \<or> fs_flags s AND FLAG_SPECIAL \<noteq> 0)"

definition shown :: "faction_state \<Rightarrow> faction_state" where
  "shown s = s\<lparr>fs_flags := fs_flags s OR FLAG_VISIBLE, fs_need_send := True, fs_need_save := True\<rparr>"

lemma set_visible_state_cases:
  "(case map_of (rm_factions m) k of
      Some s \<Rightarrow> if can_show s
        then rm_factions (set_visible_state env k m) = om_set k (shown s) (rm_factions m)
             \<and> rm_visible_count (set_visible_state env k m) = rm_visible_count m + 1
        else set_visible_state env k m = m
    | None \<Rightarrow> set_visible_state env k m = m)"
  by (auto simp: set_visible_state_def can_show_def is_visible_def shown_def Let_def split: option.splits)

lemma shown_counts_set_visible [simp]: "shown_counts (set_visible_state env k m) = shown_counts m"
  by (auto simp: set_visible_state_def Let_def split: option.splits)

lemma mild_shown: "mild s (shown s)"
  by (simp add: mild_def shown_def)

lemma is_visible_shown: "is_visible (shown s)"
proof -
  have "(fs_flags s OR FLAG_VISIBLE) AND FLAG_VISIBLE \<noteq> 0"
    unfolding word_or_self_mask by (simp add: FLAG_VISIBLE_def)
  then show ?thesis by (simp add: is_visible_def shown_def)
qed

text \<open>The effect of \<open>SetVisible\<close> on a list whose rank counters may be out of step.\<close>

lemma set_visible_state_inv:
  assumes "states_ok env m" "visible_ok m"
  shows "states_ok env (set_visible_state env k m) \<and> visible_ok (set_visible_state env k m)
         \<and> real_counts env (set_visible_state env k m) = real_counts env m
         \<and> (synced m t \<longrightarrow> synced (set_visible_state env k m) t)"
proof (cases "map_of (rm_factions m) k")
  case None
  then show ?thesis using assms set_visible_state_cases [where m = m and k = k and env = env] by simp
next
  case (Some s)
  show ?thesis
  proof (cases "can_show s")
    case False
    then show ?thesis using assms Some set_visible_state_cases [where m = m and k = k and env = env] by simp
  next
    case True
    then have f: "rm_factions (set_visible_state env k m) = rm_factions (put_state k (shown s) m)"
      and v: "rm_visible_count (set_visible_state env k m) = rm_visible_count m + 1"
      using Some set_visible_state_cases [where m = m and k = k and env = env] by simp_all
    have o: "om_inv (rm_factions m)" and ok: "state_ok env k s"
      using assms(1) Some by (auto simp: states_ok_def)
    have "om_count is_visible (om_set k (shown s) (rm_factions m)) = Suc (om_count is_visible (rm_factions m))"
      using om_count_set [OF o, of is_visible k "shown s"] True Some is_visible_shown [of s]
      by (simp add: can_show_def)
    then have "visible_ok (set_visible_state env k m)"
      using assms(2) by (simp add: visible_ok_def f v)
    moreover have "states_ok env (set_visible_state env k m)"
      using states_ok_put [OF assms(1) mild_state_ok [OF mild_shown ok]] by (simp add: states_ok_def f)
    moreover have "real_counts env (set_visible_state env k m) = real_counts env m"
      using real_counts_put [OF o Some, of env "shown s"] mild_rank [OF mild_shown, of env s]
        real_counts_cong [OF f, of env] by simp
    moreover have "synced m t \<longrightarrow> synced (set_visible_state env k m) t"
      using synced_put [of m t "shown s" k] synced_cong [OF f, of t] by (simp add: shown_def)
    ultimately show ?thesis by blast
  qed
qed

lemma rep_good_set_visible_state [inv_lemmas]:
  "rep_good env t m \<Longrightarrow> rep_good env t (set_visible_state env k m)"
  using set_visible_state_inv [of env m k t] by (simp add: rep_good_def rep_inv_def)

lemma rep_good_set_visible_entry: "rep_good env t m \<Longrightarrow> rep_good env t (set_visible_entry env e m)"
  by (simp add: set_visible_entry_def inv_lemmas)

lemma rep_good_set_visible_template [inv_lemmas]:
  "rep_good env t m \<Longrightarrow> rep_good env t (set_visible_template env f m)"
  by (auto simp: set_visible_template_def rep_good_set_visible_entry split: option.splits)

section \<open>Changing one standing\<close>

lemma env_ok_entry:
  assumes "env_ok env" "re_store env i = Some e"
  shows "fe_id e = i" "unat i < 2 ^ 16" "\<And>j. in_range (fe_base_value e j)"
    "fe_list_id e < 2 ^ 31" "- (2 ^ 31) \<le> fe_list_id e" "0 < unat i" "unat i < re_rows env"
  using assms by (auto simp: env_ok_def)

lemma env_ok_unique:
  assumes "env_ok env" "re_store env i = Some e" "re_store env j = Some f" "0 \<le> fe_list_id e"
    "list_key e = list_key f"
  shows "i = j"
  using assms unfolding env_ok_def by blast

lemma in_range_base: "env_ok env \<Longrightarrow> in_range (get_base_reputation env (re_store env i))"
  by (auto simp: get_base_reputation_def env_ok_entry(3) in_range_def reputation_bottom_def
      reputation_cap_def split: option.splits dest!: env_ok_entry(3) [of env])

text \<open>The state found under the place of an entry of the store is that entry's state.\<close>

lemma state_of_entry:
  assumes "env_ok env" "re_store env i = Some e" "state_ok env (list_key e) s"
  shows "fs_id s = i" "base_of env s = get_base_reputation env (Some e)" "0 \<le> fe_list_id e"
proof -
  obtain f where f: "re_store env (fs_id s) = Some f" "0 \<le> fe_list_id f" "list_key f = list_key e"
    using assms(3) by (auto simp: state_ok_def)
  show i: "fs_id s = i" by (rule env_ok_unique [OF assms(1) f(1) assms(2) f(2,3)])
  show "base_of env s = get_base_reputation env (Some e)" by (simp add: base_of_def i assms(2))
  show "0 \<le> fe_list_id e" using f i assms(2) by simp
qed

definition new_standing :: "'f rep_env \<Rightarrow> int \<Rightarrow> bool \<Rightarrow> int \<Rightarrow> int" where
  "new_standing env standing incremental current =
     clamp_reputation (if incremental then i32_wrap (gained env standing + current) else standing)"

lemma notify_fields [simp]:
  "rm_factions (notify_changed f m) = rm_factions m"
  "rm_visible_count (notify_changed f m) = rm_visible_count m"
  "shown_counts (notify_changed f m) = shown_counts m"
  by (simp_all add: notify_changed_def)

lemma upd_state_fields [simp]:
  "rm_visible_count (upd_state k f m) = rm_visible_count m"
  "shown_counts (upd_state k f m) = shown_counts m"
  by (simp_all add: upd_state_def split: option.splits)

text \<open>The good states, but for the rank counters, which lag behind by one change of rank.\<close>

definition rep_lag :: "'f rep_env \<Rightarrow> rep_table \<Rightarrow> reputation_rank \<Rightarrow> reputation_rank \<Rightarrow> rep_mgr \<Rightarrow> bool" where
  "rep_lag env t old new m \<longleftrightarrow>
     states_ok env m \<and> visible_ok m \<and> synced m t \<and> adjust old new (shown_counts m) = real_counts env m"

lemma rep_lag_visible: "rep_lag env t old new m \<Longrightarrow> rep_lag env t old new (set_visible_state env k m)"
  using set_visible_state_inv [of env m k t] by (simp add: rep_lag_def)

lemma rep_lag_upd_mild:
  assumes "rep_lag env t old new m" "\<And>s. mild s (f s) \<and> is_visible (f s) = is_visible s"
  shows "rep_lag env t old new (upd_state k f m)"
proof (cases "map_of (rm_factions m) k")
  case None
  with assms show ?thesis by (simp add: upd_state_def)
next
  case (Some s)
  define n where "n = m\<lparr>rm_exalted_count := fst (real_counts env m),
      rm_revered_count := fst (snd (real_counts env m)), rm_honored_count := snd (snd (real_counts env m))\<rparr>"
  have n: "rm_factions n = rm_factions m" and v: "rm_visible_count n = rm_visible_count m"
    and c: "shown_counts n = real_counts env m" by (simp_all add: n_def shown_counts_def)
  have "rep_good env t n"
    using assms(1) real_counts_cong [OF n, of env] states_ok_cong [OF n, of env] synced_cong [OF n, of t] visible_ok_cong [OF n] v c
    by (simp add: rep_lag_def rep_good_def rep_inv_def)
  from rep_good_upd_mild [OF this assms(2), of k]
  have g: "rep_good env t (upd_state k f n)" .
  have fu: "rm_factions (upd_state k f n) = rm_factions (upd_state k f m)"
    by (simp add: upd_state_def n Some)
  have "real_counts env (upd_state k f m) = real_counts env m"
    using g c real_counts_cong [OF fu, of env] by (simp add: rep_good_def rep_inv_def)
  then show ?thesis
    using g assms(1) states_ok_cong [OF fu, of env] synced_cong [OF fu, of t] visible_ok_cong [OF fu] v
    by (simp add: rep_lag_def rep_good_def rep_inv_def)
qed

lemma rep_lag_done: "rep_lag env t old new m \<Longrightarrow> rep_good env t (update_rank_counters old new m)"
  using real_counts_cong [of "update_rank_counters old new m" m env]
    states_ok_cong [of "update_rank_counters old new m" m env]
    synced_cong [of "update_rank_counters old new m" m t] visible_ok_cong [of "update_rank_counters old new m" m]
  by (simp add: rep_lag_def rep_good_def rep_inv_def)

lemma rep_lag_start:
  assumes "rep_good env t m" "map_of (rm_factions m) k = Some s" "state_ok env k s'"
    "is_visible s' = is_visible s" "fs_need_save s'"
  shows "rep_lag env t (rank_at env s) (rank_at env s') (put_state k s' m)"
proof -
  have o: "om_inv (rm_factions m)" using assms(1) by (simp add: rep_good_def rep_inv_def states_ok_def)
  have "om_count is_visible (om_set k s' (rm_factions m)) = om_count is_visible (rm_factions m)"
    using om_count_set_same [OF o assms(2)] assms(4) by simp
  then show ?thesis
    using assms(1) states_ok_put [OF _ assms(3)] synced_put [OF _ assms(5), of m t k]
      real_counts_put [OF o assms(2), of env s']
    by (simp add: rep_lag_def rep_good_def rep_inv_def visible_ok_def)
qed

definition raised :: "faction_state \<Rightarrow> int \<Rightarrow> faction_state" where
  "raised s v = s\<lparr>fs_standing := v, fs_need_send := True, fs_need_save := True\<rparr>"

lemma set_one_eq:
  "set_one_faction_reputation env e standing incremental m =
     (case map_of (rm_factions m) (list_key e) of
        None \<Rightarrow> (False, m)
      | Some s \<Rightarrow>
          (let base = get_base_reputation env (Some e);
               old = i32_wrap (fs_standing s + base);
               new = new_standing env standing incremental old;
               m2 = set_visible_state env (list_key e)
                      (put_state (list_key e) (raised s (i32_wrap (new - base))) m);
               m3 = (if reputation_to_rank new \<le> REP_HOSTILE
                     then upd_state (list_key e) (set_at_war_state True) m2 else m2);
               m4 = (if reputation_to_rank old < reputation_to_rank new then m3\<lparr>rm_increased := True\<rparr> else m3)
           in (True, notify_changed (fe_id e)
                 (update_rank_counters (reputation_to_rank old) (reputation_to_rank new) m4))))"
  by (simp add: set_one_faction_reputation_def new_standing_def raised_def Let_def split: option.split)

lemma in_range_new_standing [simp]: "in_range (new_standing env standing incremental current)"
  by (simp add: new_standing_def)

lemma raised_state_ok:
  assumes "env_ok env" "re_store env i = Some e" "state_ok env (list_key e) s" "in_range new"
  shows "state_ok env (list_key e) (raised s (i32_wrap (new - get_base_reputation env (Some e))))"
    and "rank_at env (raised s (i32_wrap (new - get_base_reputation env (Some e)))) = reputation_to_rank new"
    and "base_of env s + fs_standing (raised s (i32_wrap (new - get_base_reputation env (Some e)))) = new"
proof -
  have b: "base_of env s = get_base_reputation env (Some e)" by (rule state_of_entry(2) [OF assms(1-3)])
  have "in_range (get_base_reputation env (Some e))" using in_range_base [OF assms(1), of i] assms(2) by simp
  then have d: "i32_wrap (new - get_base_reputation env (Some e)) = new - get_base_reputation env (Some e)"
    by (rule in_range_diff [OF assms(4)])
  have "base_of env (raised s v) = base_of env s" for v by (simp add: base_of_def raised_def)
  then show "state_ok env (list_key e) (raised s (i32_wrap (new - get_base_reputation env (Some e))))"
    and "rank_at env (raised s (i32_wrap (new - get_base_reputation env (Some e)))) = reputation_to_rank new"
    and "base_of env s + fs_standing (raised s (i32_wrap (new - get_base_reputation env (Some e)))) = new"
    using assms(3,4) by (simp_all add: state_ok_def rank_at_def d b raised_def)
qed

lemma rep_good_simps [simp]:
  "rep_good env t (notify_changed f m) = rep_good env t m"
  "rep_good env t (emit p m) = rep_good env t m"
  "rep_good env t (m\<lparr>rm_increased := b\<rparr>) = rep_good env t m"
  "rep_good env t (m\<lparr>rm_forced := g\<rparr>) = rep_good env t m"
  by (rule rep_good_cong; simp)+

lemma update_increased [simp]:
  "update_rank_counters old new (m\<lparr>rm_increased := b\<rparr>) = (update_rank_counters old new m)\<lparr>rm_increased := b\<rparr>"
  by (simp add: update_rank_counters_def Let_def)

lemma rep_good_set_one:
  assumes "env_ok env" "re_store env i = Some e" "rep_good env t m"
  shows "rep_good env t (snd (set_one_faction_reputation env e standing incremental m))"
proof (cases "map_of (rm_factions m) (list_key e)")
  case None
  with assms(3) show ?thesis by (simp add: set_one_eq)
next
  case (Some s)
  have ok: "state_ok env (list_key e) s"
    using assms(3) Some by (simp add: rep_good_def rep_inv_def states_ok_def)
  let ?base = "get_base_reputation env (Some e)"
  have b: "base_of env s = ?base" by (rule state_of_entry(2) [OF assms(1,2) ok])
  define old where "old = i32_wrap (fs_standing s + ?base)"
  have old: "reputation_to_rank old = rank_at env s"
    using ok by (simp add: old_def rank_at_def state_ok_def b add.commute)
  define new where "new = new_standing env standing incremental old"
  have rng: "in_range new" by (simp add: new_def)
  note r = raised_state_ok [OF assms(1,2) ok rng]
  define m1 where "m1 = put_state (list_key e) (raised s (i32_wrap (new - ?base))) m"
  have "rep_lag env t (rank_at env s) (reputation_to_rank new) m1"
    using rep_lag_start [OF assms(3) Some r(1)] r(2) by (simp add: m1_def raised_def is_visible_def)
  then have lag2: "rep_lag env t (rank_at env s) (reputation_to_rank new) (set_visible_state env (list_key e) m1)"
    by (rule rep_lag_visible)
  define m3 where "m3 = (if reputation_to_rank new \<le> REP_HOSTILE
      then upd_state (list_key e) (set_at_war_state True) (set_visible_state env (list_key e) m1)
      else set_visible_state env (list_key e) m1)"
  have "rep_lag env t (rank_at env s) (reputation_to_rank new) m3"
    unfolding m3_def using lag2 by (simp add: rep_lag_upd_mild mild_at_war)
  then have "rep_good env t (update_rank_counters (rank_at env s) (reputation_to_rank new) m3)"
    by (rule rep_lag_done)
  moreover have "rep_good env t (snd (set_one_faction_reputation env e standing incremental m))
      = rep_good env t (update_rank_counters (rank_at env s) (reputation_to_rank new) m3)"
    unfolding set_one_eq Some
    by (simp add: Let_def flip: old_def) (simp add: m3_def flip: new_def m1_def old)
  ultimately show ?thesis by simp
qed

section \<open>Spillover\<close>

text \<open>
  Whatever single changes of standing and the report to the client preserve, a change of
  reputation with all its spillover preserves.
\<close>

locale rep_preserved =
  fixes env :: "'f rep_env" and Q :: "rep_mgr \<Rightarrow> bool"
  assumes set_one: "re_store env i = Some e \<Longrightarrow> Q m \<Longrightarrow> Q (snd (set_one_faction_reputation env e v incremental m))"
    and sent: "Q m \<Longrightarrow> Q (send_state s m)"
begin

lemma template_spill_preserved:
  "Q m \<Longrightarrow> template_spill env t v incremental is m = Some m' \<Longrightarrow> Q m'"
  by (induction "is" arbitrary: m)
    (auto simp: template_spill.simps Let_def intro: set_one split: if_splits option.splits)

lemma sister_spill_preserved:
  "Q m \<Longrightarrow> Q (snd (sister_spill env e out incremental fs res m))"
  by (induction fs arbitrary: res m)
    (auto simp: Let_def case_prod_beta intro: set_one split: option.splits)

lemma dbc_spill_preserved: "Q m \<Longrightarrow> Q (snd (dbc_spill env e v incremental m))"
  by (auto simp: dbc_spill_def Let_def intro: set_one sister_spill_preserved split: option.splits)

lemma spill_over_preserved:
  "Q m \<Longrightarrow> spill_over env e v incremental m = Some (res, m') \<Longrightarrow> Q m'"
  using template_spill_preserved [of m _ v incremental "[0, 1, 2, 3]"]
    dbc_spill_preserved [of m e v incremental]
  by (auto simp: spill_over_def split: option.splits)

lemma set_own_preserved:
  "re_store env i = Some e \<Longrightarrow> Q m \<Longrightarrow> Q (snd (set_own_reputation env e v incremental res m))"
  using set_one [of i e m v incremental]
  by (simp add: set_own_reputation_def case_prod_beta sent split: option.split)

lemma set_reputation_preserved:
  "re_store env i = Some e \<Longrightarrow> Q m \<Longrightarrow> set_reputation env e v incremental m = Some (res, m') \<Longrightarrow> Q m'"
  using spill_over_preserved [of m e "re_hook env (fe_id e) v incremental" incremental]
  by (auto simp: set_reputation_def Let_def split: option.splits dest: set_own_preserved)
    (metis set_own_preserved snd_conv)

end

lemma send_state_factions:
  "map_of (rm_factions (send_state f m)) k =
     map_option (\<lambda>s. if fs_need_send s then clear_send s else s) (map_of (rm_factions m) k)"
  "map fst (rm_factions (send_state f m)) = map fst (rm_factions m)"
  by (auto simp: send_state_def Let_def map_of_map_snd)

lemma send_state_fields [simp]:
  "rm_visible_count (send_state f m) = rm_visible_count m"
  "shown_counts (send_state f m) = shown_counts m"
  by (simp_all add: send_state_def Let_def)

text \<open>Clearing the send or save marks keeps everything else.\<close>

lemma rep_inv_remark:
  assumes "rep_inv env m" "rm_factions n = map (\<lambda>(k, s). (k, f s)) (rm_factions m)"
    and "rm_visible_count n = rm_visible_count m" "shown_counts n = shown_counts m"
    and "\<And>s. fs_id (f s) = fs_id s \<and> fs_list_id (f s) = fs_list_id s \<and> fs_standing (f s) = fs_standing s
           \<and> fs_flags (f s) = fs_flags s"
  shows "rep_inv env n"
proof -
  have c: "om_count P (rm_factions n) = om_count P (rm_factions m)" if "\<And>s. P (f s) = P s" for P
    using that by (simp add: assms(2) om_count_def filter_map o_def case_prod_beta)
  have r: "rank_at env (f s) = rank_at env s" and v: "is_visible (f s) = is_visible s"
    and o: "state_ok env k (f s) = state_ok env k s" for k s
    using assms(5) [of s] by (simp_all add: rank_at_def base_of_def is_visible_def state_ok_def)
  have "real_counts env n = real_counts env m" by (simp add: real_counts_def c r)
  moreover have "visible_ok n = visible_ok m" by (simp add: visible_ok_def c v assms(3))
  moreover have "map fst (rm_factions n) = map fst (rm_factions m)" by (simp add: assms(2) o_def case_prod_beta)
  then have "om_inv (rm_factions n) = om_inv (rm_factions m)" by (simp only: om_inv_def)
  then have "states_ok env m \<Longrightarrow> states_ok env n"
    unfolding states_ok_def by (auto simp: assms(2) map_of_map_snd o)
  ultimately show ?thesis using assms(1,4) by (simp add: rep_inv_def)
qed

lemma rep_good_send_state [inv_lemmas]: "rep_good env t m \<Longrightarrow> rep_good env t (send_state f m)"
  using rep_inv_remark [of env m "send_state f m" "\<lambda>s. if fs_need_send s then clear_send s else s"]
  by (simp add: rep_good_def synced_def send_state_factions)
    (auto simp: send_state_def Let_def clear_send_def)

interpretation rep_kept: rep_preserved env "\<lambda>m. env_ok env \<longrightarrow> rep_good env t m" for env t
  by unfold_locales (auto intro: rep_good_set_one inv_lemmas)

lemma rep_good_set_reputation:
  "env_ok env \<Longrightarrow> re_store env i = Some e \<Longrightarrow> rep_good env t m
    \<Longrightarrow> set_reputation env e v incremental m = Some (res, m') \<Longrightarrow> rep_good env t m'"
  using rep_kept.set_reputation_preserved by blast

text \<open>Templates name known factions, so that the assertion of \<open>AssertEntry\<close> never fails.\<close>

lemma template_spill_some:
  "\<forall>j. st_faction t j \<noteq> 0 \<longrightarrow> re_store env (st_faction t j) \<noteq> None
    \<Longrightarrow> template_spill env t v incremental is m \<noteq> None"
  by (induction "is" arbitrary: m) (auto simp: template_spill.simps Let_def split: option.splits)

lemma set_reputation_some:
  assumes "env_ok env"
  shows "set_reputation env e v incremental m \<noteq> None"
proof -
  have "spill_over env e w incremental m \<noteq> None" for w
  proof (cases "re_template env (fe_id e)")
    case (Some t)
    have "\<forall>j. st_faction t j \<noteq> 0 \<longrightarrow> re_store env (st_faction t j) \<noteq> None"
      using assms Some unfolding env_ok_def by blast
    with Some show ?thesis by (simp add: spill_over_def template_spill_some)
  qed (simp add: spill_over_def)
  then show ?thesis by (auto simp: set_reputation_def Let_def split: option.split)
qed

section \<open>Loading\<close>

lemma set_visible_state_map:
  "map_of (rm_factions (set_visible_state env k m)) j =
     (if j = k then map_option (\<lambda>s. if can_show s then shown s else s) (map_of (rm_factions m) k)
      else map_of (rm_factions m) j)"
  using set_visible_state_cases [where m = m and k = k and env = env]
  by (auto split: option.splits if_splits)

lemma upd_state_map:
  "map_of (rm_factions (upd_state k f m)) j =
     (if j = k then map_option f (map_of (rm_factions m) k) else map_of (rm_factions m) j)"
  by (auto simp: upd_state_def split: option.splits)

definition has_all :: "'f rep_env \<Rightarrow> u32 set \<Rightarrow> rep_mgr \<Rightarrow> bool" where
  "has_all env I m \<longleftrightarrow>
     (\<forall>i \<in> I. \<forall>e. re_store env i = Some e \<and> 0 \<le> fe_list_id e \<longrightarrow>
        map_of (rm_factions m) (list_key e) \<noteq> None)"

lemma initialize_step:
  assumes "env_ok env" "rep_inv env m" "re_store env i = Some e" "0 \<le> fe_list_id e"
    and "\<forall>k s. map_of (rm_factions m) k = Some s \<longrightarrow> fs_id s \<noteq> i"
  shows "rep_inv env (put_state (list_key e) (initial_state env e)
           (update_rank_counters REP_HOSTILE (get_base_rank env (Some e))
             (if fs_flags (initial_state env e) AND FLAG_VISIBLE \<noteq> 0
              then m\<lparr>rm_visible_count := rm_visible_count m + 1\<rparr> else m)))"
proof -
  let ?s = "initial_state env e" and ?k = "list_key e"
  have id: "fe_id e = i" using env_ok_entry(1) [OF assms(1,3)] .
  have base: "base_of env ?s = get_base_reputation env (Some e)"
    by (simp add: base_of_def initial_state_def id assms(3))
  have rng: "in_range (get_base_reputation env (Some e))"
    using in_range_base [OF assms(1), of i] assms(3) by simp
  have ok: "state_ok env ?k ?s"
    using assms(3,4) id rng base unfolding state_ok_def by (auto simp: initial_state_def)
  have rank: "rank_at env ?s = get_base_rank env (Some e)"
    unfolding rank_at_def base by (simp add: get_base_rank_def initial_state_def)
  have o: "om_inv (rm_factions m)" using assms(2) by (simp add: rep_inv_def states_ok_def)
  have fresh: "map_of (rm_factions m) ?k = None"
  proof (rule ccontr)
    assume "map_of (rm_factions m) ?k \<noteq> None"
    then obtain s where s: "map_of (rm_factions m) ?k = Some s" by auto
    then have "state_ok env ?k s" using assms(2) by (simp add: rep_inv_def states_ok_def)
    then have "fs_id s = i" by (rule state_of_entry(1) [OF assms(1,3)])
    with assms(5) s show False by auto
  qed
  let ?m = "put_state ?k ?s (update_rank_counters REP_HOSTILE (get_base_rank env (Some e))
      (if fs_flags ?s AND FLAG_VISIBLE \<noteq> 0 then m\<lparr>rm_visible_count := rm_visible_count m + 1\<rparr> else m))"
  have f: "rm_factions ?m = rm_factions (put_state ?k ?s m)" by simp
  have "states_ok env ?m"
    using states_ok_put [OF _ ok, of m] states_ok_cong [OF f, of env] assms(2) by (simp add: rep_inv_def)
  moreover have "visible_ok ?m"
    using om_count_set [OF o, of is_visible ?k ?s] fresh assms(2)
    by (auto simp: rep_inv_def visible_ok_def is_visible_def)
  moreover have "shown_counts ?m = real_counts env ?m"
    using real_counts_new [OF o fresh, of env ?s] real_counts_cong [OF f, of env] assms(2)
    by (simp add: rep_inv_def rank)
  ultimately show ?thesis by (simp only: rep_inv_def)
qed

lemma initialize_loop_inv:
  assumes "env_ok env"
  shows "rep_inv env m \<Longrightarrow> distinct is \<Longrightarrow> set is \<subseteq> {..<2 ^ 32} \<Longrightarrow> has_all env I m \<Longrightarrow>
    (\<forall>k s. map_of (rm_factions m) k = Some s \<longrightarrow> fs_standing s = 0 \<and> fs_need_save s \<and> unat (fs_id s) \<notin> set is) \<Longrightarrow>
    rep_inv env (initialize_loop env is m) \<and> has_all env (I \<union> word_of_nat ` set is) (initialize_loop env is m)
    \<and> (\<forall>k s. map_of (rm_factions (initialize_loop env is m)) k = Some s \<longrightarrow> fs_standing s = 0 \<and> fs_need_save s)"
proof (induction "is" arbitrary: m I)
  case (Cons i "is")
  define i' where "i' = (word_of_nat i :: u32)"
  have ui: "unat i' = i" using Cons.prems(3) by (simp add: i'_def unat_of_nat)
  have inj: "unat (word_of_nat j :: u32) = j" if "j \<in> set is" for j
    using Cons.prems(3) that by (auto simp: unat_of_nat)
  show ?case
  proof (cases "\<exists>e. re_store env i' = Some e \<and> 0 \<le> fe_list_id e")
    case False
    then have eq: "initialize_loop env (i # is) m = initialize_loop env is m"
      by (auto simp flip: i'_def split: option.splits)
    have "has_all env (insert i' I) m" using Cons.prems(4) False unfolding has_all_def by blast
    then have h: "has_all env (I \<union> word_of_nat ` set (i # is)) (initialize_loop env is m)"
      and r: "rep_inv env (initialize_loop env is m)" "\<forall>k s. map_of (rm_factions (initialize_loop env is m)) k = Some s
        \<longrightarrow> fs_standing s = 0 \<and> fs_need_save s"
      using Cons.IH [of m "insert i' I"] Cons.prems by (simp_all flip: i'_def)
    show ?thesis unfolding eq using h r by blast
  next
    case True
    then obtain e where e: "re_store env i' = Some e" "0 \<le> fe_list_id e" by blast
    define m' where "m' = put_state (list_key e) (initial_state env e)
      (update_rank_counters REP_HOSTILE (get_base_rank env (Some e))
        (if fs_flags (initial_state env e) AND FLAG_VISIBLE \<noteq> 0
         then m\<lparr>rm_visible_count := rm_visible_count m + 1\<rparr> else m))"
    have eq: "initialize_loop env (i # is) m = initialize_loop env is m'"
      using e by (simp add: Let_def m'_def initial_state_def flip: i'_def)
    have inv: "rep_inv env m'"
      unfolding m'_def using Cons.prems(5) ui
      by (intro initialize_step [OF assms Cons.prems(1) e]) auto
    have f: "rm_factions m' = om_set (list_key e) (initial_state env e) (rm_factions m)"
      by (simp add: m'_def)
    have all: "has_all env (insert i' I) m'"
      using Cons.prems(4) e by (auto simp: has_all_def f)
    have st: "\<forall>k s. map_of (rm_factions m') k = Some s \<longrightarrow>
        fs_standing s = 0 \<and> fs_need_save s \<and> unat (fs_id s) \<notin> set is"
      using Cons.prems(2,5) ui env_ok_entry(1) [OF assms e(1)] by (auto simp: f initial_state_def)
    show ?thesis
      unfolding eq using Cons.IH [OF inv _ _ all st] Cons.prems(2,3) by (simp flip: i'_def)
  qed
qed simp

lemma initialize_inv:
  assumes "env_ok env"
  shows "rep_inv env (initialize env m) \<and> has_all env UNIV (initialize env m)
    \<and> (\<forall>k s. map_of (rm_factions (initialize env m)) k = Some s \<longrightarrow> fs_standing s = 0 \<and> fs_need_save s)"
proof -
  let ?m = "m\<lparr>rm_factions := [], rm_visible_count := 0, rm_honored_count := 0, rm_revered_count := 0,
      rm_exalted_count := 0, rm_increased := False\<rparr>"
  have rows: "re_rows env \<le> 2 ^ 32" using assms unfolding env_ok_def by blast
  have 0: "rep_inv env ?m"
    by (simp add: rep_inv_def states_ok_def visible_ok_def shown_counts_def real_counts_def)
  have "rep_inv env (initialize env m) \<and> has_all env ({} \<union> word_of_nat ` set [1..<re_rows env]) (initialize env m)
      \<and> (\<forall>k s. map_of (rm_factions (initialize env m)) k = Some s \<longrightarrow> fs_standing s = 0 \<and> fs_need_save s)"
    unfolding initialize_def using rows
    by (intro initialize_loop_inv [OF assms 0]) (auto simp: has_all_def)
  moreover have "re_store env i = Some e \<Longrightarrow> i \<in> word_of_nat ` set [1..<re_rows env]" for i e
    using env_ok_entry(6,7) [OF assms, of i e]
    by (intro image_eqI [of _ _ "unat i"]) (auto simp: Suc_le_eq)
  ultimately show ?thesis unfolding has_all_def by blast
qed

lemma ucast_u16_u32 [simp]: "ucast (ucast (f :: u16) :: u32) = f"
  by (rule bit_word_eqI) (auto simp: bit_simps)

lemma ucast_u32_u16: "unat (i :: u32) < 2 ^ 16 \<Longrightarrow> ucast (ucast i :: u16) = i"
  using bit_unat_less [of i 16] by (intro bit_word_eqI) (auto simp: bit_simps)

text \<open>A series of changes to the state of one faction that keep its id and standing.\<close>

definition touches :: "u32 \<Rightarrow> rep_mgr \<Rightarrow> rep_mgr \<Rightarrow> bool" where
  "touches k m n \<longleftrightarrow>
     (\<forall>j. j \<noteq> k \<longrightarrow> map_of (rm_factions n) j = map_of (rm_factions m) j)
     \<and> (\<forall>s. map_of (rm_factions m) k = Some s \<longrightarrow>
          (\<exists>s'. map_of (rm_factions n) k = Some s' \<and> fs_id s' = fs_id s \<and> fs_standing s' = fs_standing s))"

lemma touches_trans: "touches k m n \<Longrightarrow> touches k n p \<Longrightarrow> touches k m p"
  unfolding touches_def by (metis (full_types))

lemma touches_refl [simp]: "touches k m m"
  by (simp add: touches_def)

lemma touches_upd: "(\<And>s. fs_id (f s) = fs_id s \<and> fs_standing (f s) = fs_standing s) \<Longrightarrow> touches k m (upd_state k f m)"
  by (auto simp: touches_def upd_state_map)

lemma touches_visible: "touches k m (set_visible_state env k m)"
  by (auto simp: touches_def set_visible_state_map shown_def)

lemma touches_mild: "(\<And>s. mild s (f s)) \<Longrightarrow> touches k m (upd_state k f m)"
  by (rule touches_upd) (simp add: mild_def)

text \<open>The flags a row sets, after its standing is in place.\<close>

definition row_flags :: "'f rep_env \<Rightarrow> 'f faction_entry \<Rightarrow> u16 \<Rightarrow> rep_mgr \<Rightarrow> rep_mgr" where
  "row_flags env e db_flags m2 =
     (let k = list_key e;
          m3 = (if db_flags AND ucast FLAG_VISIBLE \<noteq> 0 then set_visible_state env k m2 else m2);
          m4 = (if db_flags AND ucast FLAG_INACTIVE \<noteq> 0 then upd_state k (set_inactive_state True) m3 else m3);
          m5 = (if db_flags AND ucast FLAG_AT_WAR \<noteq> 0 then upd_state k (set_at_war_state True) m4
                else upd_state k (\<lambda>s. if fs_flags s AND FLAG_VISIBLE \<noteq> 0 then set_at_war_state False s else s) m4)
      in if get_rank env (Some e) m5 \<le> REP_HOSTILE then upd_state k (set_at_war_state True) m5 else m5)"

lemma mild_refl [simp]: "mild s s"
  by (simp add: mild_def)

lemma row_flags_good_touches:
  "(rep_good env t m \<longrightarrow> rep_good env t (row_flags env e fl m)) \<and> touches (list_key e) m (row_flags env e fl m)"
proof -
  let ?k = "list_key e"
  let ?war_off = "\<lambda>s. if fs_flags s AND FLAG_VISIBLE \<noteq> 0 then set_at_war_state False s else s"
  have off: "mild s (?war_off s)" "is_visible (?war_off s) = is_visible s" for s
    by (simp_all add: mild_at_war)
  define m3 where "m3 = (if fl AND ucast FLAG_VISIBLE \<noteq> 0 then set_visible_state env ?k m else m)"
  define m4 where "m4 = (if fl AND ucast FLAG_INACTIVE \<noteq> 0 then upd_state ?k (set_inactive_state True) m3 else m3)"
  define m5 where "m5 = (if fl AND ucast FLAG_AT_WAR \<noteq> 0 then upd_state ?k (set_at_war_state True) m4
      else upd_state ?k ?war_off m4)"
  have eq: "row_flags env e fl m =
      (if get_rank env (Some e) m5 \<le> REP_HOSTILE then upd_state ?k (set_at_war_state True) m5 else m5)"
    by (simp add: row_flags_def m3_def m4_def m5_def Let_def)
  have "rep_good env t m \<longrightarrow> rep_good env t m3" by (simp add: m3_def inv_lemmas)
  moreover have "rep_good env t m3 \<longrightarrow> rep_good env t m4" by (simp add: m4_def rep_good_upd_mild mild_inactive)
  moreover have "rep_good env t m4 \<longrightarrow> rep_good env t m5"
    using rep_good_upd_mild [of env t m4 ?war_off ?k] off
    by (simp add: m5_def rep_good_upd_mild mild_at_war)
  moreover have "rep_good env t m5 \<longrightarrow> rep_good env t (row_flags env e fl m)"
    by (simp add: eq rep_good_upd_mild mild_at_war)
  moreover have "touches ?k m m3" by (simp add: m3_def touches_visible)
  moreover have "touches ?k m3 m4" by (simp add: m4_def touches_mild mild_inactive)
  moreover have "touches ?k m4 m5" using touches_mild [of ?war_off ?k m4] off by (simp add: m5_def touches_mild mild_at_war)
  moreover have "touches ?k m5 (row_flags env e fl m)" by (simp add: eq touches_mild mild_at_war)
  ultimately show ?thesis by (meson touches_trans)
qed

lemmas row_flags_good = row_flags_good_touches [THEN conjunct1, rule_format]
lemmas row_flags_touches = row_flags_good_touches [THEN conjunct2]

lemma load_row_known:
  assumes "re_store env (ucast f) = Some e" "0 \<le> fe_list_id e" "map_of (rm_factions m) (list_key e) = Some s0"
  shows "load_row env (f, st, fl) m =
    upd_state (list_key e) (\<lambda>s. if ucast (fs_flags s) = fl then s\<lparr>fs_need_send := False, fs_need_save := False\<rparr> else s)
      (row_flags env e fl (update_rank_counters (reputation_to_rank (get_base_reputation env (Some e)))
         (reputation_to_rank (i32_wrap (get_base_reputation env (Some e) + st)))
         (put_state (list_key e) (s0\<lparr>fs_standing := st\<rparr>) m)))"
  using assms by (simp add: load_row_def row_flags_def upd_state_def [of "list_key e" "\<lambda>s. s\<lparr>fs_standing := st\<rparr>" m] Let_def)

lemma load_row_good:
  assumes "env_ok env" "table_ok env t" "map_of t f = Some (st, fl)" "rep_good env t m"
    and e: "re_store env (ucast f) = Some e" "0 \<le> fe_list_id e"
    and s0: "map_of (rm_factions m) (list_key e) = Some s0" "fs_standing s0 = 0" "fs_need_save s0"
  shows "rep_good env t (load_row env (f, st, fl) m)
    \<and> (\<forall>j. j \<noteq> list_key e \<longrightarrow>
          map_of (rm_factions (load_row env (f, st, fl) m)) j = map_of (rm_factions m) j)
    \<and> (\<exists>s. map_of (rm_factions (load_row env (f, st, fl) m)) (list_key e) = Some s \<and> fs_standing s = st)"
proof -
  let ?k = "list_key e" and ?base = "get_base_reputation env (Some e)"
  have ok0: "state_ok env ?k s0" using assms(4) s0(1) by (simp add: rep_good_def rep_inv_def states_ok_def)
  note at = state_of_entry [OF assms(1) e(1) ok0]
  have rng: "in_range (?base + st)" using assms(2,3) e unfolding table_ok_def by blast
  define m1 where "m1 = put_state ?k (s0\<lparr>fs_standing := st\<rparr>) m"
  have "base_of env (s0\<lparr>fs_standing := st\<rparr>) = ?base" using at(2) by (simp add: base_of_def)
  then have ok1: "state_ok env ?k (s0\<lparr>fs_standing := st\<rparr>)"
    and r1: "rank_at env (s0\<lparr>fs_standing := st\<rparr>) = reputation_to_rank (?base + st)"
    using ok0 rng by (auto simp: state_ok_def rank_at_def)
  have "rep_lag env t (rank_at env s0) (rank_at env (s0\<lparr>fs_standing := st\<rparr>)) m1"
    unfolding m1_def using s0
    by (intro rep_lag_start [OF assms(4) s0(1) ok1]) (simp_all add: is_visible_def)
  then have "rep_lag env t (reputation_to_rank ?base) (reputation_to_rank (?base + st)) m1"
    using r1 at(2) s0(2) by (simp add: rank_at_def)
  from rep_lag_done [OF this]
  have g2: "rep_good env t (update_rank_counters (reputation_to_rank ?base) (reputation_to_rank (?base + st)) m1)" .
  define m6 where "m6 = row_flags env e fl
    (update_rank_counters (reputation_to_rank ?base) (reputation_to_rank (?base + st)) m1)"
  have g6: "rep_good env t m6" unfolding m6_def by (rule row_flags_good [OF g2])
  have "touches ?k (update_rank_counters (reputation_to_rank ?base) (reputation_to_rank (?base + st)) m1) m6"
    unfolding m6_def by (rule row_flags_touches)
  then obtain s6 where s6: "map_of (rm_factions m6) ?k = Some s6" "fs_id s6 = ucast f" "fs_standing s6 = st"
    and other: "\<forall>j. j \<noteq> ?k \<longrightarrow> map_of (rm_factions m6) j = map_of (rm_factions m) j"
    using at(1) by (auto simp: touches_def m1_def)
  define mark :: "faction_state \<Rightarrow> faction_state" where "mark = (\<lambda>s. if ucast (fs_flags s) = fl then s\<lparr>fs_need_send := False, fs_need_save := False\<rparr> else s)"
  have eq: "load_row env (f, st, fl) m = upd_state ?k mark m6"
    using load_row_known [OF e s0(1), of st fl] rng by (simp add: m6_def m1_def mark_def)
  have same: "fs_id (mark s) = fs_id s \<and> fs_list_id (mark s) = fs_list_id s \<and> fs_standing (mark s) = fs_standing s
      \<and> fs_flags (mark s) = fs_flags s" for s by (simp add: mark_def)
  have o: "om_inv (rm_factions m6)" and ok6: "state_ok env ?k s6"
    using g6 s6(1) by (auto simp: rep_good_def rep_inv_def states_ok_def)
  have fm: "rm_factions (upd_state ?k mark m6) = om_set ?k (mark s6) (rm_factions m6)"
    using s6(1) by (simp add: upd_state_def)
  have "state_ok env ?k (mark s6)" "rank_at env (mark s6) = rank_at env s6" "is_visible (mark s6) = is_visible s6"
    using ok6 same [of s6] by (simp_all add: state_ok_def base_of_def rank_at_def is_visible_def)
  then have "rep_inv env (upd_state ?k mark m6)"
    using g6 real_counts_put [OF o s6(1), of env "mark s6"] om_count_set_same [OF o s6(1), of is_visible "mark s6"]
      states_ok_put [of env m6 ?k "mark s6"]
    by (simp add: upd_state_def s6(1) rep_good_def rep_inv_def visible_ok_def)
  moreover have "synced (upd_state ?k mark m6) t"
    unfolding synced_def fm
  proof (intro allI impI)
    fix j s
    assume a: "map_of (om_set ?k (mark s6) (rm_factions m6)) j = Some s \<and> \<not> fs_need_save s"
    show "map_of t (ucast (fs_id s)) = Some (fs_standing s, ucast (fs_flags s))"
    proof (cases "j = ?k \<and> ucast (fs_flags s6) = fl")
      case True
      note ucast_u16_u32 [of f]
      with True a s6 assms(3) show ?thesis by (auto simp: mark_def)
    next
      case False
      then have "map_of (rm_factions m6) j = Some s" using a s6(1) by (auto simp: mark_def split: if_splits)
      with g6 a show ?thesis by (simp add: rep_good_def synced_def)
    qed
  qed
  ultimately show ?thesis
    unfolding eq rep_good_def fm using other same [of s6] s6(3) by simp
qed

lemma load_row_unknown:
  "\<not> (\<exists>e. re_store env (ucast f) = Some e \<and> 0 \<le> fe_list_id e) \<Longrightarrow> load_row env (f, st, fl) m = m"
  by (auto simp: load_row_def not_le split: option.splits)

text \<open>The standing a table gives the faction of an entry.\<close>

definition table_standing :: "rep_table \<Rightarrow> u32 \<Rightarrow> int" where
  "table_standing t i = (case map_of t (ucast i) of Some (st, fl) \<Rightarrow> st | None \<Rightarrow> 0)"

lemma load_rows_good:
  assumes "env_ok env" "table_ok env t"
  shows "rep_good env t m \<Longrightarrow> has_all env UNIV m \<Longrightarrow> distinct (map fst rows) \<Longrightarrow>
    \<forall>(f, st, fl) \<in> set rows. map_of t f = Some (st, fl) \<Longrightarrow>
    \<forall>k s. map_of (rm_factions m) k = Some s \<and> (ucast (fs_id s) :: u16) \<in> fst ` set rows \<longrightarrow>
       fs_standing s = 0 \<and> fs_need_save s \<Longrightarrow>
    rep_good env t (fold (load_row env) rows m) \<and> has_all env UNIV (fold (load_row env) rows m)
    \<and> (\<forall>k s. map_of (rm_factions (fold (load_row env) rows m)) k = Some s \<longrightarrow>
         fs_standing s = (case map_of rows (ucast (fs_id s)) of Some (st, fl) \<Rightarrow> st
                          | None \<Rightarrow> fs_standing (the (map_of (rm_factions m) k))))"
proof (induction rows arbitrary: m)
  case (Cons row rows)
  obtain f st fl where row: "row = (f, st, fl)" by (cases row)
  show ?case
  proof (cases "\<exists>e. re_store env (ucast f) = Some e \<and> 0 \<le> fe_list_id e")
    case False
    then have eq: "load_row env row m = m" by (simp add: row load_row_unknown)
    have ne: "ucast (fs_id s) \<noteq> f" if "map_of (rm_factions n) k = Some s" "rep_good env t n" for n k s
    proof -
      have "state_ok env k s" using that by (simp add: rep_good_def rep_inv_def states_ok_def)
      then obtain e where e: "re_store env (fs_id s) = Some e" "0 \<le> fe_list_id e" by (auto simp: state_ok_def)
      have "ucast (ucast (fs_id s) :: u16) = fs_id s" using env_ok_entry(2) [OF assms(1) e(1)] by (rule ucast_u32_u16)
      then show ?thesis using False e by metis
    qed
    have ih: "rep_good env t (fold (load_row env) rows m) \<and> has_all env UNIV (fold (load_row env) rows m)
      \<and> (\<forall>k s. map_of (rm_factions (fold (load_row env) rows m)) k = Some s \<longrightarrow>
         fs_standing s = (case map_of rows (ucast (fs_id s)) of Some (st, fl) \<Rightarrow> st
                          | None \<Rightarrow> fs_standing (the (map_of (rm_factions m) k))))"
      using Cons.prems by (intro Cons.IH) auto
    then have "map_of (row # rows) (ucast (fs_id s)) = map_of rows (ucast (fs_id s))"
      if "map_of (rm_factions (fold (load_row env) rows m)) k = Some s" for k s
      using ne [OF that] by (simp add: row)
    with ih show ?thesis by (simp add: eq)
  next
    case True
    then obtain e where e: "re_store env (ucast f) = Some e" "0 \<le> fe_list_id e" by blast
    let ?k = "list_key e" and ?m = "load_row env row m"
    obtain s0 where s0: "map_of (rm_factions m) ?k = Some s0"
      using Cons.prems(2) e unfolding has_all_def by blast
    have inv: "state_ok env k s" if "map_of (rm_factions m) k = Some s" for k s
      using Cons.prems(1) that by (simp add: rep_good_def rep_inv_def states_ok_def)
    have id0: "fs_id s0 = ucast f" by (rule state_of_entry(1) [OF assms(1) e(1) inv [OF s0]])
    have z: "fs_standing s0 = 0" "fs_need_save s0" using Cons.prems(5) s0 id0 by (auto simp: row)
    have tf: "map_of t f = Some (st, fl)" using Cons.prems(4) by (simp add: row)
    note g = load_row_good [OF assms tf Cons.prems(1) e s0 z, folded row]
    obtain s1 where s1: "map_of (rm_factions ?m) ?k = Some s1" "fs_standing s1 = st" using g by blast
    have ok1: "state_ok env k s" if "map_of (rm_factions ?m) k = Some s" for k s
      using g that by (simp add: rep_good_def rep_inv_def states_ok_def)
    have id1: "fs_id s1 = ucast f" by (rule state_of_entry(1) [OF assms(1) e(1) ok1 [OF s1(1)]])
    have all: "has_all env UNIV ?m"
      using Cons.prems(2) g unfolding has_all_def by (metis option.distinct(1) s1(1))
    have fr: "f \<notin> fst ` set rows" using Cons.prems(3) by (auto simp: row)
    have zero: "\<forall>k s. map_of (rm_factions ?m) k = Some s \<and> (ucast (fs_id s) :: u16) \<in> fst ` set rows \<longrightarrow>
        fs_standing s = 0 \<and> fs_need_save s"
    proof (intro allI impI)
      fix k s assume a: "map_of (rm_factions ?m) k = Some s \<and> (ucast (fs_id s) :: u16) \<in> fst ` set rows"
      have "k \<noteq> ?k"
      proof
        assume "k = ?k"
        then have "ucast (fs_id s) = f" using a s1(1) id1 by simp
        with a fr show False by simp
      qed
      then have "map_of (rm_factions m) k = Some s" using g a by simp
      then show "fs_standing s = 0 \<and> fs_need_save s" using Cons.prems(5) a by (auto simp: row)
    qed
    have ih: "rep_good env t (fold (load_row env) rows ?m) \<and> has_all env UNIV (fold (load_row env) rows ?m)
      \<and> (\<forall>k s. map_of (rm_factions (fold (load_row env) rows ?m)) k = Some s \<longrightarrow>
         fs_standing s = (case map_of rows (ucast (fs_id s)) of Some (st, fl) \<Rightarrow> st
                          | None \<Rightarrow> fs_standing (the (map_of (rm_factions ?m) k))))"
      using g all zero Cons.prems(3,4) by (intro Cons.IH) auto
    have "fs_standing s = (case map_of (row # rows) (ucast (fs_id s)) of Some (st, fl) \<Rightarrow> st
        | None \<Rightarrow> fs_standing (the (map_of (rm_factions m) k)))"
      if s: "map_of (rm_factions (fold (load_row env) rows ?m)) k = Some s" for k s
    proof (cases "k = ?k")
      case True
      have "state_ok env k s" using ih s by (simp add: rep_good_def rep_inv_def states_ok_def)
      then have "fs_id s = ucast f" using state_of_entry(1) [OF assms(1) e(1)] True by simp
      moreover have "map_of rows f = None" using fr by (simp add: map_of_eq_None_iff)
      moreover have "fs_standing s = (case map_of rows (ucast (fs_id s)) of Some (st, fl) \<Rightarrow> st
          | None \<Rightarrow> fs_standing (the (map_of (rm_factions ?m) k)))" using ih s by blast
      ultimately show ?thesis using s1 by (simp add: row True)
    next
      case False
      have "state_ok env k s" using ih s by (simp add: rep_good_def rep_inv_def states_ok_def)
      then obtain e' where e': "re_store env (fs_id s) = Some e'" "list_key e' = k" by (auto simp: state_ok_def)
      have "ucast (ucast (fs_id s) :: u16) = fs_id s"
        using env_ok_entry(2) [OF assms(1) e'(1)] by (rule ucast_u32_u16)
      then have "ucast (fs_id s) \<noteq> f" using e e' False by auto
      then have "map_of (row # rows) (ucast (fs_id s)) = map_of rows (ucast (fs_id s))" by (simp add: row)
      moreover have "fs_standing s = (case map_of rows (ucast (fs_id s)) of Some (st, fl) \<Rightarrow> st
          | None \<Rightarrow> fs_standing (the (map_of (rm_factions ?m) k)))" using ih s by blast
      moreover have "map_of (rm_factions ?m) k = map_of (rm_factions m) k" using g False by blast
      ultimately show ?thesis by (simp only:)
    qed
    then show ?thesis using ih by simp
  qed
qed simp

section \<open>Saving\<close>

text \<open>Different factions have different rows.\<close>

lemma row_inject:
  assumes "env_ok env" "state_ok env k s" "state_ok env j s'" "(ucast (fs_id s) :: u16) = ucast (fs_id s')"
  shows "k = j"
proof -
  obtain e e' where e: "re_store env (fs_id s) = Some e" "list_key e = k"
      and e': "re_store env (fs_id s') = Some e'" "list_key e' = j"
    using assms(2,3) by (auto simp: state_ok_def)
  have "ucast (ucast (fs_id s) :: u16) = fs_id s" "ucast (ucast (fs_id s') :: u16) = fs_id s'"
    using env_ok_entry(2) [OF assms(1) e(1)] env_ok_entry(2) [OF assms(1) e'(1)]
    by (simp_all add: ucast_u32_u16)
  then have "fs_id s = fs_id s'" using assms(4) by metis
  then show ?thesis using e e' by simp
qed

lemma om_inv_save_rows: "om_inv t \<Longrightarrow> om_inv (save_rows fs t)"
  by (induction fs t rule: save_rows.induct) simp_all

lemma save_rows_other:
  "\<forall>(k, s) \<in> set fs. ucast (fs_id s) \<noteq> f \<Longrightarrow> map_of (save_rows fs t) f = map_of t f"
  by (induction fs t rule: save_rows.induct) auto

lemma save_rows_row:
  "distinct (map (\<lambda>(k, s). ucast (fs_id s) :: u16) fs) \<Longrightarrow> (k, s) \<in> set fs \<Longrightarrow>
   map_of (save_rows fs t) (ucast (fs_id s)) =
     (if fs_need_save s then Some (fs_standing s, ucast (fs_flags s)) else map_of t (ucast (fs_id s)))"
proof (induction fs t rule: save_rows.induct)
  case (2 k' s' fs t)
  show ?case
  proof (cases "(k, s) = (k', s')")
    case True
    have "\<forall>(k, r) \<in> set fs. ucast (fs_id r) \<noteq> (ucast (fs_id s') :: u16)"
      using 2(2) by (force simp: image_iff)
    from save_rows_other [OF this] True show ?thesis by simp
  next
    case False
    then have mem: "(k, s) \<in> set fs" using 2(3) by auto
    have "(ucast (fs_id s) :: u16) \<noteq> ucast (fs_id s')" using 2(2) mem by (force simp: image_iff)
    then show ?thesis using 2(1) [OF _ mem] 2(2) by simp
  qed
qed simp

definition world_ok :: "'f rep_env \<Rightarrow> rep_mgr \<times> rep_table \<Rightarrow> bool" where
  "world_ok env w \<longleftrightarrow>
     rep_good env (snd w) (fst w) \<and> has_all env UNIV (fst w) \<and> table_ok env (snd w)"

lemma state_rows_distinct:
  assumes "env_ok env" "states_ok env m"
  shows "distinct (map (\<lambda>(k, s). ucast (fs_id s) :: u16) (rm_factions m))"
proof -
  have o: "distinct (map fst (rm_factions m))"
    using assms(2) by (auto simp: states_ok_def om_inv_distinct)
  have ok: "state_ok env k s" if "(k, s) \<in> set (rm_factions m)" for k s
    using assms(2) map_of_is_SomeI [OF o that] by (simp add: states_ok_def)
  have "inj_on (\<lambda>(k, s). ucast (fs_id s) :: u16) (set (rm_factions m))"
  proof (rule inj_onI, clarify)
    fix k s j r
    assume a: "(k, s) \<in> set (rm_factions m)" "(j, r) \<in> set (rm_factions m)"
      "(ucast (fs_id s) :: u16) = ucast (fs_id r)"
    then have "k = j" using row_inject [OF assms(1) ok ok] by blast
    moreover from this have "s = r"
      using map_of_is_SomeI [OF o a(1)] map_of_is_SomeI [OF o a(2)] by simp
    ultimately show "k = j \<and> s = r" by simp
  qed
  moreover have "distinct (rm_factions m)" using o by (simp add: distinct_map)
  ultimately show ?thesis by (simp add: distinct_map)
qed

lemma save_world_ok:
  assumes "env_ok env" "world_ok env (m, t)"
  shows "world_ok env (save_reputations m t)"
    and "map_of (rm_factions m) k = Some s \<Longrightarrow>
      map_of (snd (save_reputations m t)) (ucast (fs_id s)) = Some (fs_standing s, ucast (fs_flags s))"
proof -
  let ?t = "save_rows (rm_factions m) t"
  let ?f = "\<lambda>s. if fs_need_save s then s\<lparr>fs_need_save := False\<rparr> else s"
  let ?m = "fst (save_reputations m t)"
  have st: "states_ok env m" and sy: "synced m t" and tab: "table_ok env t"
    using assms(2) by (simp_all add: world_ok_def rep_good_def rep_inv_def)
  have o: "om_inv (rm_factions m)" using st by (simp add: states_ok_def)
  note d = state_rows_distinct [OF assms(1) st]
  have row: "map_of ?t (ucast (fs_id s)) = Some (fs_standing s, ucast (fs_flags s))"
    if "map_of (rm_factions m) k = Some s" for k s
    using save_rows_row [OF d map_of_SomeD [OF that], of t] sy that by (simp add: synced_def)
  then show "map_of (rm_factions m) k = Some s \<Longrightarrow>
      map_of (snd (save_reputations m t)) (ucast (fs_id s)) = Some (fs_standing s, ucast (fs_flags s))"
    by (simp add: save_reputations_def)
  have fm: "rm_factions ?m = map (\<lambda>(k, s). (k, ?f s)) (rm_factions m)" by (simp add: save_reputations_def)
  have inv: "rep_inv env ?m"
    using assms(2) by (intro rep_inv_remark [OF _ fm]) (simp_all add: world_ok_def rep_good_def save_reputations_def)
  have "synced ?m ?t"
    unfolding synced_def fm map_of_map_snd by (auto simp: row)
  moreover have "has_all env UNIV m" using assms(2) by (simp add: world_ok_def)
  then have "has_all env UNIV ?m"
    unfolding has_all_def fm map_of_map_snd option.map_disc_iff by blast
  moreover have "table_ok env ?t"
    unfolding table_ok_def
  proof (intro conjI allI impI)
    show "om_inv ?t" using tab by (simp add: table_ok_def om_inv_save_rows)
    fix f st' fl e
    assume a: "map_of ?t f = Some (st', fl) \<and> re_store env (ucast f) = Some e \<and> 0 \<le> fe_list_id e"
    then obtain s where s: "map_of (rm_factions m) (list_key e) = Some s"
      using assms(2) unfolding world_ok_def has_all_def by fastforce
    have ok: "state_ok env (list_key e) s" using st s by (simp add: states_ok_def)
    have id: "fs_id s = ucast f" and b: "base_of env s = get_base_reputation env (Some e)"
      using state_of_entry [OF assms(1) _ ok, of "ucast f"] a by simp_all
    have "st' = fs_standing s" using row [OF s] a by (simp add: id)
    then show "in_range (get_base_reputation env (Some e) + st')"
      using ok b by (simp add: state_ok_def)
  qed
  ultimately show "world_ok env (save_reputations m t)"
    using inv by (simp add: world_ok_def rep_good_def save_reputations_def)
qed

text \<open>The rows of the query, in the table's order.\<close>

definition table_rows :: "rep_table \<Rightarrow> (u16 \<times> int \<times> u16) list" where
  "table_rows t = t"

lemma load_world_ok:
  assumes "env_ok env" "table_ok env t"
  shows "world_ok env (load_reputations env (table_rows t) m, t)"
    and "map_of (rm_factions (load_reputations env (table_rows t) m)) k = Some s \<Longrightarrow>
      fs_standing s = table_standing t (fs_id s)"
proof -
  have i: "rep_inv env (initialize env m)" "has_all env UNIV (initialize env m)"
    "\<And>k s. map_of (rm_factions (initialize env m)) k = Some s \<Longrightarrow> fs_standing s = 0 \<and> fs_need_save s"
    using initialize_inv [OF assms(1), of m] by blast+
  have g: "rep_good env t (initialize env m)"
    using i by (auto simp: rep_good_def synced_def)
  have d: "distinct (map fst t)" using assms(2) by (simp add: table_ok_def om_inv_distinct)
  then have rows: "\<forall>(f, st, fl) \<in> set (table_rows t). map_of t f = Some (st, fl)"
    by (auto simp: table_rows_def)
  have l: "rep_good env t (load_reputations env (table_rows t) m)
      \<and> has_all env UNIV (load_reputations env (table_rows t) m)
      \<and> (\<forall>k s. map_of (rm_factions (load_reputations env (table_rows t) m)) k = Some s \<longrightarrow>
           fs_standing s = (case map_of (table_rows t) (ucast (fs_id s)) of Some (st, fl) \<Rightarrow> st
                            | None \<Rightarrow> fs_standing (the (map_of (rm_factions (initialize env m)) k))))"
    unfolding load_reputations_def using i(3) d
    by (intro load_rows_good [OF assms g i(2) _ rows]) (auto simp: table_rows_def)
  then show "world_ok env (load_reputations env (table_rows t) m, t)"
    using assms(2) by (simp add: world_ok_def)
  assume s: "map_of (rm_factions (load_reputations env (table_rows t) m)) k = Some s"
  have "state_ok env k s" using l s by (simp add: rep_good_def rep_inv_def states_ok_def)
  then obtain e where "re_store env (fs_id s) = Some e" "0 \<le> fe_list_id e" "list_key e = k"
    by (auto simp: state_ok_def)
  then obtain s0 where "map_of (rm_factions (initialize env m)) k = Some s0"
    using i(2) unfolding has_all_def by fastforce
  then show "fs_standing s = table_standing t (fs_id s)"
    using l s i(3) by (auto simp: table_standing_def table_rows_def split: option.splits)
qed

section \<open>Every run\<close>

lemma has_all_cong: "dom (map_of (rm_factions m)) = dom (map_of (rm_factions n)) \<Longrightarrow> has_all env I m = has_all env I n"
  unfolding has_all_def by (simp add: dom_def set_eq_iff)

lemma dom_upd_state: "dom (map_of (rm_factions (upd_state k f m))) = dom (map_of (rm_factions m))"
  by (auto simp: dom_def upd_state_map)

lemma dom_set_visible: "dom (map_of (rm_factions (set_visible_state env k m))) = dom (map_of (rm_factions m))"
  by (auto simp: dom_def set_visible_state_map)

lemma dom_set_one:
  "dom (map_of (rm_factions (snd (set_one_faction_reputation env e v incremental m)))) = dom (map_of (rm_factions m))"
proof (cases "map_of (rm_factions m) (list_key e)")
  case (Some s)
  then have "list_key e \<in> dom (map_of (rm_factions m))" by blast
  then have "insert (list_key e) (dom (map_of (rm_factions m))) = dom (map_of (rm_factions m))" by blast
  with Some show ?thesis
    by (simp add: set_one_eq Let_def dom_upd_state dom_set_visible)
qed (simp add: set_one_eq)

lemma dom_send_state: "dom (map_of (rm_factions (send_state f m))) = dom (map_of (rm_factions m))"
  by (auto simp: dom_def send_state_factions)

interpretation rep_dom: rep_preserved env "\<lambda>m. dom (map_of (rm_factions m)) = D" for env D
  by unfold_locales (simp_all add: dom_set_one dom_send_state)

text \<open>The operations of the manager, with the table it is saved to and loaded from.\<close>

datatype rep_op =
    RepSet u32 int bool
  | RepVisible u32
  | RepAtWar u32 bool
  | RepInactive u32 bool
  | RepForce u32 reputation_rank bool
  | RepSendForced | RepSendInitial | RepSendStates
  | RepSave | RepLoad

definition rep_set_step :: "'f rep_env \<Rightarrow> u32 \<Rightarrow> int \<Rightarrow> bool \<Rightarrow> rep_mgr \<Rightarrow> rep_mgr" where
  "rep_set_step env f v incremental m =
     (case re_store env f of
        None \<Rightarrow> m
      | Some e \<Rightarrow> (case set_reputation env e v incremental m of Some (res, m') \<Rightarrow> m' | None \<Rightarrow> m))"

fun rep_step :: "'f rep_env \<Rightarrow> rep_op \<Rightarrow> rep_mgr \<times> rep_table \<Rightarrow> rep_mgr \<times> rep_table" where
  "rep_step env (RepSet f v inc) (m, t) = (rep_set_step env f v inc m, t)"
| "rep_step env (RepVisible f) (m, t) = (set_visible_template env f m, t)"
| "rep_step env (RepAtWar k on) (m, t) = (set_at_war k on m, t)"
| "rep_step env (RepInactive k on) (m, t) = (set_inactive k on m, t)"
| "rep_step env (RepForce f r apply_it) (m, t) = (apply_force_reaction f r apply_it m, t)"
| "rep_step env RepSendForced (m, t) = (send_force_reactions m, t)"
| "rep_step env RepSendInitial (m, t) = (send_initial_reputations m, t)"
| "rep_step env RepSendStates (m, t) = (send_states m, t)"
| "rep_step env RepSave (m, t) = save_reputations m t"
| "rep_step env RepLoad (m, t) = (load_reputations env (table_rows t) m, t)"

lemma rep_good_send_initial: "rep_good env t m \<Longrightarrow> rep_good env t (send_initial_reputations m)"
proof -
  assume g: "rep_good env t m"
  have f: "rm_factions (send_initial_reputations m) = map (\<lambda>(k, s). (k, clear_send s)) (rm_factions m)"
    by (simp add: send_initial_reputations_def case_prod_beta)
  have "rep_inv env (send_initial_reputations m)"
    using g by (intro rep_inv_remark [OF _ f])
      (simp_all add: rep_good_def send_initial_reputations_def case_prod_beta clear_send_def)
  moreover have "synced (send_initial_reputations m) t"
    using g unfolding rep_good_def synced_def f map_of_map_snd by (auto simp: clear_send_def)
  ultimately show ?thesis by (simp add: rep_good_def)
qed

lemma dom_send_initial: "dom (map_of (rm_factions (send_initial_reputations m))) = dom (map_of (rm_factions m))"
  by (simp add: send_initial_reputations_def case_prod_beta map_of_map_snd dom_def)

lemma send_states_kept:
  "rep_good env t m \<Longrightarrow> rep_good env t (send_states_loop ks m)
     \<and> dom (map_of (rm_factions (send_states_loop ks m))) = dom (map_of (rm_factions m))"
  by (induction ks arbitrary: m) (auto simp: inv_lemmas dom_send_state split: option.splits)

lemma rep_set_step_kept:
  assumes "env_ok env" "rep_good env t m"
  shows "rep_good env t (rep_set_step env f v incremental m)
    \<and> dom (map_of (rm_factions (rep_set_step env f v incremental m))) = dom (map_of (rm_factions m))"
  using rep_good_set_reputation [OF assms(1) _ assms(2)]
    rep_dom.set_reputation_preserved [of env f _ m "dom (map_of (rm_factions m))" v incremental]
  by (auto simp: rep_set_step_def assms(2) split: option.splits)

lemma world_ok_keep:
  "world_ok env (m, t) \<Longrightarrow> rep_good env t n \<Longrightarrow> dom (map_of (rm_factions n)) = dom (map_of (rm_factions m))
    \<Longrightarrow> world_ok env (n, t)"
  using has_all_cong [of n m env UNIV] by (simp add: world_ok_def)

lemma world_ok_step:
  assumes "env_ok env" "world_ok env w"
  shows "world_ok env (rep_step env e w)"
proof -
  obtain m t where w: "w = (m, t)" by (cases w)
  have ok: "world_ok env (m, t)" using assms(2) by (simp add: w)
  then have g: "rep_good env t m" and tab: "table_ok env t" by (simp_all add: world_ok_def)
  note keep = world_ok_keep [OF ok]
  show ?thesis
  proof (cases e)
    case (RepSet f v inc)
    then show ?thesis using rep_set_step_kept [OF assms(1) g, of f v inc] by (simp add: w keep)
  next
    case (RepVisible f)
    have "dom (map_of (rm_factions (set_visible_template env f m))) = dom (map_of (rm_factions m))"
      by (auto simp: set_visible_template_def set_visible_entry_def dom_set_visible split: option.splits)
    then show ?thesis using RepVisible g by (simp add: w keep inv_lemmas)
  next
    case (RepAtWar k on)
    have "dom (map_of (rm_factions (set_at_war k on m))) = dom (map_of (rm_factions m))"
      by (auto simp: set_at_war_def dom_upd_state split: option.splits)
    then show ?thesis using RepAtWar g by (simp add: w keep inv_lemmas)
  next
    case (RepInactive k on)
    have "dom (map_of (rm_factions (set_inactive k on m))) = dom (map_of (rm_factions m))"
      by (simp add: set_inactive_def dom_upd_state)
    then show ?thesis using RepInactive g by (simp add: w keep inv_lemmas)
  next
    case (RepForce f r apply_it)
    then show ?thesis using g by (simp add: w keep apply_force_reaction_def)
  next
    case RepSendForced
    then show ?thesis using g by (simp add: w keep send_force_reactions_def)
  next
    case RepSendInitial
    then show ?thesis using g by (simp add: w keep rep_good_send_initial dom_send_initial)
  next
    case RepSendStates
    then show ?thesis using send_states_kept [OF g] by (simp add: w keep send_states_def)
  next
    case RepSave
    then show ?thesis using save_world_ok(1) [OF assms(1) ok] by (simp add: w)
  next
    case RepLoad
    then show ?thesis using load_world_ok(1) [OF assms(1) tab] by (simp add: w)
  qed
qed

interpretation rep_runs: transition_system "rep_step env" "\<lambda>w. env_ok env \<longrightarrow> world_ok env w" for env
  by unfold_locales (simp add: world_ok_step)

text \<open>A player's reputations: loaded once, then any operations.\<close>

definition rep_run :: "'f rep_env \<Rightarrow> rep_table \<Rightarrow> rep_op list \<Rightarrow> rep_mgr \<times> rep_table" where
  "rep_run env t ops = fold (rep_step env) ops (rep_step env RepLoad (rep_init, t))"

lemma rep_run_ok:
  assumes "env_ok env" "table_ok env t"
  shows "world_ok env (rep_run env t ops)"
  using rep_runs.run_inv [of env "rep_step env RepLoad (rep_init, t)" ops] assms load_world_ok(1) [OF assms, of rep_init]
  by (simp add: rep_run_def)

section \<open>Reading the results\<close>

lemma get_reputation_at:
  assumes "env_ok env" "states_ok env m" "re_store env i = Some e" "map_of (rm_factions m) (list_key e) = Some s"
  shows "get_reputation env i m = base_of env s + fs_standing s" "in_range (get_reputation env i m)"
    "fs_id s = i" "0 \<le> fe_list_id e"
proof -
  have ok: "state_ok env (list_key e) s" using assms(2,4) by (simp add: states_ok_def)
  note at = state_of_entry [OF assms(1,3) ok]
  show "get_reputation env i m = base_of env s + fs_standing s"
    using ok at assms(3,4)
    by (simp add: get_reputation_def get_reputation_entry_def get_state_def get_state_id_def
        can_have_reputation_def state_ok_def)
  then show "in_range (get_reputation env i m)" using ok by (simp add: state_ok_def)
  show "fs_id s = i" "0 \<le> fe_list_id e" using at by simp_all
qed

lemma touches_counters [simp]: "touches k m (update_rank_counters old new n) = touches k m n"
  "touches k m (notify_changed f n) = touches k m n" "touches k m (n\<lparr>rm_increased := b\<rparr>) = touches k m n"
  by (simp_all add: touches_def)

lemma set_one_result:
  assumes "env_ok env" "states_ok env m" "re_store env i = Some e" "map_of (rm_factions m) (list_key e) = Some s"
  shows "\<exists>s'. map_of (rm_factions (snd (set_one_faction_reputation env e v incremental m))) (list_key e) = Some s'
           \<and> base_of env s' + fs_standing s' = new_standing env v incremental (get_reputation env i m)
           \<and> (reputation_to_rank (new_standing env v incremental (get_reputation env i m)) \<le> REP_HOSTILE \<longrightarrow>
                fs_flags s' AND FLAG_AT_WAR \<noteq> 0 \<or> fs_flags s' AND FLAG_PEACE_FORCED \<noteq> 0)"
    and "j \<noteq> list_key e \<Longrightarrow> map_of (rm_factions (snd (set_one_faction_reputation env e v incremental m))) j
           = map_of (rm_factions m) j"
proof -
  let ?k = "list_key e" and ?base = "get_base_reputation env (Some e)"
  have ok: "state_ok env ?k s" using assms(2,4) by (simp add: states_ok_def)
  have b: "base_of env s = ?base" by (rule state_of_entry(2) [OF assms(1,3) ok])
  have old: "i32_wrap (fs_standing s + ?base) = get_reputation env i m"
    using get_reputation_at(1,2) [OF assms] b by (simp add: add.commute)
  define new where "new = new_standing env v incremental (get_reputation env i m)"
  have rng: "in_range new" by (simp add: new_def)
  define s1 where "s1 = raised s (i32_wrap (new - ?base))"
  have s1: "base_of env s + fs_standing s1 = new" "fs_id s1 = fs_id s"
    using raised_state_ok(3) [OF assms(1,3) ok rng] by (simp_all add: s1_def raised_def)
  define m2 where "m2 = set_visible_state env ?k (put_state ?k s1 m)"
  define m3 where "m3 = (if reputation_to_rank new \<le> REP_HOSTILE then upd_state ?k (set_at_war_state True) m2 else m2)"
  have f: "rm_factions (snd (set_one_faction_reputation env e v incremental m)) = rm_factions m3"
    unfolding set_one_eq assms(4)
    by (simp add: Let_def old flip: new_def s1_def) (simp add: m3_def m2_def)
  have "touches ?k (put_state ?k s1 m) m2" by (simp add: m2_def touches_visible)
  moreover have "touches ?k m2 m3" by (simp add: m3_def touches_mild mild_at_war)
  ultimately have t: "touches ?k (put_state ?k s1 m) m3" by (rule touches_trans)
  then obtain s' where s': "map_of (rm_factions m3) ?k = Some s'" "fs_id s' = fs_id s1" "fs_standing s' = fs_standing s1"
    by (auto simp: touches_def)
  have "base_of env s' + fs_standing s' = new" using s1 s' by (simp add: base_of_def)
  moreover have "fs_flags s' AND FLAG_AT_WAR \<noteq> 0 \<or> fs_flags s' AND FLAG_PEACE_FORCED \<noteq> 0"
    if h: "reputation_to_rank new \<le> REP_HOSTILE"
  proof -
    obtain s2 where "s' = set_at_war_state True s2"
      using s'(1) h by (auto simp: m3_def upd_state_map)
    moreover have "(fl OR FLAG_AT_WAR) AND FLAG_AT_WAR \<noteq> 0" for fl
      unfolding word_or_self_mask by (simp add: FLAG_AT_WAR_def)
    ultimately show ?thesis by (auto simp: set_at_war_state_def)
  qed
  ultimately show "\<exists>s'. map_of (rm_factions (snd (set_one_faction_reputation env e v incremental m))) ?k = Some s'
           \<and> base_of env s' + fs_standing s' = new_standing env v incremental (get_reputation env i m)
           \<and> (reputation_to_rank (new_standing env v incremental (get_reputation env i m)) \<le> REP_HOSTILE \<longrightarrow>
                fs_flags s' AND FLAG_AT_WAR \<noteq> 0 \<or> fs_flags s' AND FLAG_PEACE_FORCED \<noteq> 0)"
    unfolding f new_def [symmetric] using s'(1) by blast
  show "j \<noteq> ?k \<Longrightarrow> map_of (rm_factions (snd (set_one_faction_reputation env e v incremental m))) j
           = map_of (rm_factions m) j"
    using t by (simp add: f touches_def)
qed

lemma initial_fields_map:
  assumes "om_inv fs" "\<forall>k \<in> fst ` set fs. a \<le> k \<and> unat k < n" "unat a \<le> n" "n < 2 ^ 32"
  shows "fst (initial_fields a fs) @ absent_fields (snd (initial_fields a fs)) (word_of_nat n) =
     map (\<lambda>i. case map_of fs (word_of_nat i) of Some s \<Rightarrow> (fs_flags s, fs_standing s) | None \<Rightarrow> (0, 0)) [unat a..<n]"
  using assms
proof (induction a fs rule: initial_fields.induct)
  case (1 a)
  have "unat (word_of_nat n :: u32) = n" using 1 by (simp add: unat_of_nat)
  then have "unat (word_of_nat n - a) = n - unat a"
    using 1 by (simp add: unat_sub word_le_nat_alt)
  then show ?case by (simp add: absent_fields_def map_replicate_const)
next
  case (2 a k s fs)
  have k: "a \<le> k" "unat k < n" using 2(3) by simp_all
  have above: "\<forall>j \<in> fst ` set fs. k < j" using 2(2) by (simp add: om_inv_Cons)
  have k1: "unat (k + 1) = Suc (unat k)" using k(2) 2(5) by (simp add: unat_word_ariths)
  have wn: "unat (word_of_nat i :: u32) = i" if "i \<le> n" for i using that 2(5) by (simp add: unat_of_nat)
  have lo: "map_of ((k, s) # fs) (word_of_nat i) = None" if "i < unat k" for i
  proof -
    have "(word_of_nat i :: u32) < k" using that k(2) wn [of i] by (simp add: word_less_nat_alt)
    moreover from this have "word_of_nat i \<notin> fst ` set fs" using above by (meson not_less_iff_gr_or_eq order.strict_trans)
    ultimately show ?thesis by (simp add: map_of_eq_None_iff)
  qed
  have hi: "map_of ((k, s) # fs) (word_of_nat i) = map_of fs (word_of_nat i)" if "unat k < i" "i < n" for i
  proof -
    have "(word_of_nat i :: u32) \<noteq> k" using that wn [of i] by auto
    then show ?thesis by simp
  qed
  let ?g = "\<lambda>fs i. case map_of fs (word_of_nat i) of Some s \<Rightarrow> (fs_flags s, fs_standing s) | None \<Rightarrow> (0, 0)"
  have "unat (k - a) = unat k - unat a" using k(1) by (simp add: unat_sub)
  moreover have "map (?g ((k, s) # fs)) [unat a..<unat k] = map (\<lambda>i. (0, 0)) [unat a..<unat k]"
    by (intro map_cong refl) (simp add: lo del: map_of.simps)
  ultimately have "absent_fields a k = map (?g ((k, s) # fs)) [unat a..<unat k]"
    by (simp add: absent_fields_def map_replicate_const del: map_of.simps)
  moreover have "?g ((k, s) # fs) (unat k) = (fs_flags s, fs_standing s)" by simp
  moreover have "fst (initial_fields (k + 1) fs) @ absent_fields (snd (initial_fields (k + 1) fs)) (word_of_nat n) =
      map (?g fs) [Suc (unat k)..<n]"
  proof -
    have "\<forall>j \<in> fst ` set fs. k + 1 \<le> j \<and> unat j < n"
      using 2(3) above k1 by (auto simp: word_le_nat_alt word_less_nat_alt)
    from 2(1) [OF om_inv_ConsD [OF 2(2)] this] show ?thesis using k(2) 2(5) by (simp add: k1)
  qed
  moreover have "map (?g fs) [Suc (unat k)..<n] = map (?g ((k, s) # fs)) [Suc (unat k)..<n]"
    by (intro map_cong refl) (simp add: hi del: map_of.simps)
  moreover have "[unat a..<n] = [unat a..<unat k] @ unat k # [Suc (unat k)..<n]"
    using k by (metis le_add_diff_inverse less_imp_le_nat upt_add_eq_append upt_conv_Cons word_le_nat_alt)
  ultimately show ?case by (simp add: case_prod_beta del: map_of.simps)
qed

section \<open>Properties\<close>

text \<open>Surroundings for the examples: two factions of a team, rates on integers.\<close>

definition example_entry :: "u32 \<Rightarrow> int \<Rightarrow> int faction_entry" where
  "example_entry i l =
     \<lparr>fe_id = i, fe_list_id = l, fe_race_mask = (\<lambda>_. 1), fe_class_mask = (\<lambda>_. 0),
      fe_base_value = (\<lambda>_. 3000), fe_base_flags = (\<lambda>_. 0x10), fe_team = 0, fe_rate_in = 1,
      fe_rate_out = 0, fe_max_rank_in = 7\<rparr>"

definition example_env :: "int rep_env" where
  "example_env =
     \<lparr>re_race = 1, re_class = 1, re_loading = False, re_rows = 3,
      re_store = (\<lambda>i. if i = 1 then Some (example_entry 1 0) else if i = 2 then Some (example_entry 2 5) else None),
      re_team_list = (\<lambda>i. if i = 1 then Some [1, 2] else None), re_template = (\<lambda>_. None), re_rate_gain = 1,
      re_float = \<lparr>f_of_int = id, f_mul = (*), f_add = (+), f_floor = id, f_to_int = word_of_int, f_half = 0,
                  f_is_zero = (\<lambda>x. x = 0)\<rparr>,
      re_hook = (\<lambda>_ v _. v)\<rparr>"

lemma example_env_ok: "env_ok example_env"
  by (auto simp: env_ok_def example_env_def example_entry_def in_range_def reputation_bottom_def
      reputation_cap_def list_key_def split: if_splits)

lemma example_store:
  "re_store example_env 1 = Some (example_entry 1 0)" "re_store example_env 2 = Some (example_entry 2 5)"
  "0 \<le> fe_list_id (example_entry 1 0)" "0 \<le> fe_list_id (example_entry 2 5)"
  "list_key (example_entry 1 0) = 0" "list_key (example_entry 2 5) = 5"
  by (simp_all add: example_env_def example_entry_def list_key_def)

lemma empty_table_ok: "table_ok env []"
  by (simp add: table_ok_def)

text \<open>
  The rank of a standing, as the thresholds of the game: exalted from 42000, revered from
  21000, honored from 9000, friendly from 3000, neutral from 0, unfriendly from -3000, hostile
  from -6000, hated below.
\<close>

theorem rank_thresholds:
  "reputation_to_rank v =
     (if 42000 \<le> v then REP_EXALTED else if 21000 \<le> v then REP_REVERED else if 9000 \<le> v then REP_HONORED
      else if 3000 \<le> v then REP_FRIENDLY else if 0 \<le> v then REP_NEUTRAL else if -3000 \<le> v then REP_UNFRIENDLY
      else if -6000 \<le> v then REP_HOSTILE else REP_HATED)"
  by (rule reputation_to_rank_thresholds)

text \<open>
  C13: In every run from a table whose standings are in range, every faction's standing stays
  between the bottom and the cap, and the counters the achievements read are the numbers of
  visible factions and of factions at least honored, revered and exalted (modulo 256).
\<close>

theorem counters_in_every_run:
  assumes "env_ok env" "table_ok env t"
  shows "let m = fst (rep_run env t ops);
             n = \<lambda>r. word_of_nat (om_count (\<lambda>s. r \<le> rank_at env s) (rm_factions m))
         in rm_exalted_count m = n REP_EXALTED \<and> rm_revered_count m = n REP_REVERED
            \<and> rm_honored_count m = n REP_HONORED
            \<and> rm_visible_count m = word_of_nat (om_count is_visible (rm_factions m))
            \<and> (\<forall>k s. map_of (rm_factions m) k = Some s \<longrightarrow> in_range (base_of env s + fs_standing s))"
  using rep_run_ok [OF assms, of ops]
  by (simp add: world_ok_def rep_good_def rep_inv_def states_ok_def state_ok_def visible_ok_def
      shown_counts_def real_counts_def Let_def)

theorem counters_in_every_run_witness:
  "rm_honored_count (fst (rep_run example_env [] [RepSet 1 9500 False, RepSet 2 4000 True, RepSave, RepLoad])) =
     word_of_nat (om_count (\<lambda>s. REP_HONORED \<le> rank_at example_env s)
       (rm_factions (fst (rep_run example_env [] [RepSet 1 9500 False, RepSet 2 4000 True, RepSave, RepLoad]))))"
  using counters_in_every_run [OF example_env_ok empty_table_ok,
      of "[RepSet 1 9500 False, RepSet 2 4000 True, RepSave, RepLoad]"]
  by (simp only: Let_def)

text \<open>
  C35: After \<open>SaveToDB\<close>, whatever has happened before, the player's table holds the current
  standing and flags of every faction: no change is missed by the save marks.
\<close>

theorem save_is_complete:
  assumes "env_ok env" "table_ok env t"
    and "map_of (rm_factions (fst (rep_run env t ops))) k = Some s"
  shows "map_of (snd (rep_step env RepSave (rep_run env t ops))) (ucast (fs_id s)) =
           Some (fs_standing s, ucast (fs_flags s))"
proof -
  obtain m t' where w: "rep_run env t ops = (m, t')" by (cases "rep_run env t ops")
  have "world_ok env (m, t')" using rep_run_ok [OF assms(1,2), of ops] by (simp add: w)
  from save_world_ok(2) [OF assms(1) this] assms(3) show ?thesis by (simp add: w)
qed

theorem save_is_complete_witness:
  "\<exists>s. map_of (rm_factions (fst (rep_run example_env [] [RepSet 1 9500 False]))) 5 = Some s
     \<and> map_of (snd (rep_step example_env RepSave (rep_run example_env [] [RepSet 1 9500 False]))) (ucast (fs_id s)) =
         Some (fs_standing s, ucast (fs_flags s))"
proof -
  have "world_ok example_env (rep_run example_env [] [RepSet 1 9500 False])"
    by (rule rep_run_ok [OF example_env_ok empty_table_ok])
  then have "has_all example_env UNIV (fst (rep_run example_env [] [RepSet 1 9500 False]))"
    by (simp only: world_ok_def)
  then have "map_of (rm_factions (fst (rep_run example_env [] [RepSet 1 9500 False]))) (list_key (example_entry 2 5)) \<noteq> None"
    using example_store unfolding has_all_def by blast
  then obtain s where s: "map_of (rm_factions (fst (rep_run example_env [] [RepSet 1 9500 False]))) 5 = Some s"
    by (auto simp: example_store)
  with save_is_complete [OF example_env_ok empty_table_ok s] show ?thesis by blast
qed

text \<open>
  C36: Saving and loading again gives every faction of the player the reputation it had, and so
  the same rank.
\<close>

theorem reload_restores_reputation:
  assumes "env_ok env" "table_ok env t"
  shows "get_reputation env i (fst (rep_run env t (ops @ [RepSave, RepLoad]))) =
           get_reputation env i (fst (rep_run env t ops))"
proof -
  obtain m t' where w: "rep_run env t ops = (m, t')" by (cases "rep_run env t ops")
  let ?t = "snd (save_reputations m t')" and ?n = "load_reputations env (table_rows (snd (save_reputations m t'))) (fst (save_reputations m t'))"
  have ok: "world_ok env (m, t')" using rep_run_ok [OF assms, of ops] by (simp add: w)
  note sv = save_world_ok [OF assms(1) ok]
  have tab: "table_ok env ?t" using sv(1) by (simp add: world_ok_def)
  have run: "rep_run env t (ops @ [RepSave, RepLoad]) = (?n, ?t)"
    using w by (cases "save_reputations m t'") (simp add: rep_run_def)
  have okn: "world_ok env (?n, ?t)" by (rule load_world_ok(1) [OF assms(1) tab])
  have "get_reputation env i ?n = get_reputation env i m"
  proof (cases "\<exists>e. re_store env i = Some e \<and> 0 \<le> fe_list_id e")
    case False
    then show ?thesis
      by (auto simp: get_reputation_def get_reputation_entry_def get_state_def can_have_reputation_def
          split: option.splits)
  next
    case True
    then obtain e where e: "re_store env i = Some e" "0 \<le> fe_list_id e" by blast
    obtain s s' where s: "map_of (rm_factions m) (list_key e) = Some s"
      and s': "map_of (rm_factions ?n) (list_key e) = Some s'"
      using ok okn e unfolding world_ok_def has_all_def by fastforce
    have sm: "states_ok env m" "states_ok env ?n"
      using ok okn by (simp_all add: world_ok_def rep_good_def rep_inv_def)
    note g = get_reputation_at [OF assms(1) sm(1) e(1) s] and g' = get_reputation_at [OF assms(1) sm(2) e(1) s']
    have "fs_standing s' = fs_standing s"
      using load_world_ok(2) [OF assms(1) tab s'] sv(2) [OF s] g(3) g'(3) by (simp add: table_standing_def)
    then show ?thesis using g(1,3) g'(1,3) by (simp add: base_of_def)
  qed
  then show ?thesis by (simp add: run w)
qed

theorem reload_restores_reputation_witness:
  "get_reputation example_env 1 (fst (rep_run example_env [] ([RepSet 1 9500 False] @ [RepSave, RepLoad]))) =
     get_reputation example_env 1 (fst (rep_run example_env [] [RepSet 1 9500 False]))"
  using reload_restores_reputation [OF example_env_ok empty_table_ok, of 1 "[RepSet 1 9500 False]"] .

text \<open>
  C23: Setting a known faction's reputation always succeeds: whatever the spillover does on the
  way (to sister factions, to the parent, or by a template that may name the faction itself),
  the faction ends at the requested standing held within the bounds, at war with the player if
  that is hostile (unless peace is forced), and every other faction stays within the bounds.
\<close>

theorem set_reputation_exact:
  assumes "env_ok env" "world_ok env (m, t)" "re_store env i = Some e" "0 \<le> fe_list_id e"
  shows "\<exists>m'. set_reputation env e v False m = Some (True, m')
           \<and> get_reputation env i m' = clamp_reputation (re_hook env i v False)
           \<and> (reputation_to_rank (get_reputation env i m') \<le> REP_HOSTILE \<longrightarrow>
                is_at_war env i m' \<or>
                (\<exists>s. map_of (rm_factions m') (list_key e) = Some s \<and> fs_flags s AND FLAG_PEACE_FORCED \<noteq> 0))
           \<and> (\<forall>j f. re_store env j = Some f \<and> 0 \<le> fe_list_id f \<longrightarrow> in_range (get_reputation env j m'))"
proof -
  have g: "rep_good env t m" and all: "has_all env UNIV m" using assms(2) by (simp_all add: world_ok_def)
  have id: "fe_id e = i" by (rule env_ok_entry(1) [OF assms(1,3)])
  let ?w = "re_hook env i v False" and ?k = "list_key e"
  obtain res m1 where spill: "spill_over env e ?w False m = Some (res, m1)"
    using set_reputation_some [OF assms(1), of e v False m]
    by (auto simp: set_reputation_def Let_def id split: option.splits)
  have g1: "rep_good env t m1" using rep_kept.spill_over_preserved [of env t m e ?w False res m1] assms(1) g spill by simp
  have d1: "dom (map_of (rm_factions m1)) = dom (map_of (rm_factions m))"
    using rep_dom.spill_over_preserved [of m "dom (map_of (rm_factions m))" env e ?w False res m1] spill by simp
  have all1: "has_all env UNIV m1" using all has_all_cong [OF d1, of env UNIV] by simp
  obtain s1 where s1: "map_of (rm_factions m1) ?k = Some s1"
    using all1 assms(3,4) unfolding has_all_def by blast
  have st1: "states_ok env m1" using g1 by (simp add: rep_good_def rep_inv_def)
  let ?m2 = "snd (set_one_faction_reputation env e ?w False m1)"
  note one = set_one_result [OF assms(1) st1 assms(3) s1, where v = ?w and incremental = False]
  obtain s2 where s2: "map_of (rm_factions ?m2) ?k = Some s2"
    and v2: "base_of env s2 + fs_standing s2 = clamp_reputation ?w"
    and war: "reputation_to_rank (clamp_reputation ?w) \<le> REP_HOSTILE \<longrightarrow>
        fs_flags s2 AND FLAG_AT_WAR \<noteq> 0 \<or> fs_flags s2 AND FLAG_PEACE_FORCED \<noteq> 0"
    using one(1) by (auto simp: new_standing_def)
  have fst2: "fst (set_one_faction_reputation env e ?w False m1) = True"
    by (simp add: set_one_eq s1 Let_def)
  define m' where "m' = send_state s2 ?m2"
  have eq: "set_reputation env e v False m = Some (True, m')"
    using spill s1 s2 fst2
    by (simp add: set_reputation_def set_own_reputation_def Let_def id case_prod_beta m'_def)
  have g': "rep_good env t m'" using rep_good_set_reputation [OF assms(1,3) g eq] .
  have d': "dom (map_of (rm_factions m')) = dom (map_of (rm_factions m))"
    using rep_dom.set_reputation_preserved [OF assms(3) _ eq] by simp
  have all': "has_all env UNIV m'" using all has_all_cong [OF d', of env UNIV] by simp
  have st': "states_ok env m'" using g' by (simp add: rep_good_def rep_inv_def)
  obtain s' where s': "map_of (rm_factions m') ?k = Some s'"
      "fs_id s' = fs_id s2" "fs_standing s' = fs_standing s2" "fs_flags s' = fs_flags s2"
    using s2 by (auto simp: m'_def send_state_factions clear_send_def)
  have rep: "get_reputation env i m' = clamp_reputation ?w"
    using get_reputation_at(1) [OF assms(1) st' assms(3) s'(1)] s' v2 by (simp add: base_of_def)
  have "is_at_war env i m' \<longleftrightarrow> fs_flags s' AND FLAG_AT_WAR \<noteq> 0"
    using s'(1) assms(3,4)
    by (simp add: is_at_war_def is_at_war_entry_def get_state_def get_state_id_def can_have_reputation_def)
  moreover have "in_range (get_reputation env j m')" if f: "re_store env j = Some f" "0 \<le> fe_list_id f" for j f
  proof -
    obtain s where "map_of (rm_factions m') (list_key f) = Some s"
      using all' f unfolding has_all_def by blast
    then show ?thesis by (rule get_reputation_at(2) [OF assms(1) st' f(1)])
  qed
  ultimately show ?thesis using eq rep war s' by auto
qed

theorem set_reputation_exact_witness:
  "\<exists>m'. set_reputation example_env (example_entry 1 0) 50000 False (fst (rep_run example_env [] [])) = Some (True, m')
      \<and> get_reputation example_env 1 m' = 42999"
proof -
  have "world_ok example_env (fst (rep_run example_env [] []), snd (rep_run example_env [] []))"
    using rep_run_ok [OF example_env_ok empty_table_ok, of "[]"] by (simp only: prod.collapse)
  from set_reputation_exact [OF example_env_ok this example_store(1,3), of 50000]
  have "\<exists>m'. set_reputation example_env (example_entry 1 0) 50000 False (fst (rep_run example_env [] [])) = Some (True, m')
      \<and> get_reputation example_env 1 m' = clamp_reputation (re_hook example_env 1 50000 False)"
    by blast
  moreover have "clamp_reputation (re_hook example_env 1 50000 False) = 42999"
    by (simp add: example_env_def clamp_reputation_def reputation_cap_def)
  ultimately show ?thesis by (simp only:)
qed

text \<open>
  The list sent at login has exactly 128 places, and place \<open>k\<close> is the state of the faction
  with that list id, or empty (as long as the data files use list ids below 128); afterwards
  nothing waits to be sent.
\<close>

theorem initial_packet_layout:
  assumes "om_inv (rm_factions m)" "\<forall>k \<in> fst ` set (rm_factions m). unat k < 128"
  shows "rm_out (send_initial_reputations m) = rm_out m @ [InitializeFactions 128
           (map (\<lambda>i. case map_of (rm_factions m) (word_of_nat i) of
                       Some s \<Rightarrow> (fs_flags s, fs_standing s) | None \<Rightarrow> (0, 0)) [0..<128])]
         \<and> (\<forall>(k, s) \<in> set (rm_factions (send_initial_reputations m)). \<not> fs_need_send s)"
  using initial_fields_map [OF assms(1), of 0 128] assms(2)
  by (auto simp: send_initial_reputations_def case_prod_beta emit_def clear_send_def)

theorem initial_packet_layout_witness:
  "\<exists>l. rm_out (send_initial_reputations (rep_init\<lparr>rm_factions := [(3, initial_state example_env (example_entry 1 3))]\<rparr>))
     = [InitializeFactions 128 l] \<and> length l = 128 \<and> l ! 3 = (0x10, 0)"
  using initial_packet_layout [of "rep_init\<lparr>rm_factions := [(3, initial_state example_env (example_entry 1 3))]\<rparr>"]
  by (simp add: om_inv_def rep_init_def initial_state_def example_env_def example_entry_def
      get_default_state_flags_def base_index_def)

end
