(* ===== verification/Channel.thy ===== *)
theory Channel
  imports Guid
begin

text \<open>
  Chat channels, \<open>src/server/game/Chat/Channels/Channel.cpp\<close> and \<open>Channel.h\<close>: members and their
  flags, ownership, bans, the notices, and the table the custom channels are kept in. A packet
  is its opcode with the fields streamed into it; what a call sends, the statements it executes
  and the calls back to the player are a log of the channel. The players, found by GUID or by
  name, are part of the surroundings.
\<close>

section \<open>Packets\<close>

datatype field = F8 u8 | F32 u32 | F64 u64 | FStr string

datatype opcode =
    NULL_OPCODE | SMSG_CHANNEL_NOTIFY | SMSG_CHANNEL_LIST | SMSG_USERLIST_ADD
  | SMSG_USERLIST_UPDATE | SMSG_USERLIST_REMOVE | SMSG_MESSAGECHAT | SMSG_CHANNEL_MEMBER_COUNT

type_synonym packet = "opcode \<times> field list"

text \<open>A \<open>WorldPacket\<close> that nothing was streamed into.\<close>

definition empty_packet :: packet where
  "empty_packet = (NULL_OPCODE, [])"

datatype chan_out =
    SendPacket guid packet                          \<comment> \<open>to a connected player\<close>
  | PlayerJoinedChannel guid
  | PlayerLeftChannel guid
  | DbInsertChannel string u32
  | DbUpdateChannel bool bool string string u32     \<comment> \<open>announce, ownership, bans, name, team\<close>
  | DbUpdateUsage string u32
  | DbDeleteOld u32

section \<open>The surroundings\<close>

text \<open>What the channel reads of a player and his session.\<close>

record player =
  pl_guid :: guid
  pl_name :: string
  pl_team :: u32
  pl_perms :: "u32 \<Rightarrow> bool"
  pl_security :: u32
  pl_in_group :: bool
  pl_ignores :: "u32 \<Rightarrow> bool"
  pl_gm_visible :: bool
  pl_visible_for :: "guid \<Rightarrow> bool"

record chan_env =
  ce_connected :: "guid \<Rightarrow> player option"
  ce_by_name :: "string \<Rightarrow> player option"
  ce_name_by_guid :: "guid \<Rightarrow> string option"
  ce_dbc_flags :: "u32 \<Rightarrow> u32 option"                                 \<comment> \<open>\<open>sChatChannelsStore\<close>\<close>
  ce_preserve :: bool
  ce_preserve_days :: u32
  ce_restricted_lfg :: bool
  ce_two_side :: bool
  ce_gm_level_who :: u32
  ce_query :: "string \<Rightarrow> u32 \<Rightarrow> (bool \<times> bool \<times> string option) option"  \<comment> \<open>\<open>CHAR_SEL_CHANNEL\<close>\<close>

definition PERM_TWO_SIDE :: u32 where "PERM_TWO_SIDE = 26"
definition PERM_WHO_SEE_ALL :: u32 where "PERM_WHO_SEE_ALL = 35"
definition PERM_SILENT :: u32 where "PERM_SILENT = 45"
definition PERM_NOT_MODERATOR :: u32 where "PERM_NOT_MODERATOR = 46"

section \<open>Members\<close>

definition MEMBER_FLAG_OWNER :: u8 where "MEMBER_FLAG_OWNER = 0x01"
definition MEMBER_FLAG_MODERATOR :: u8 where "MEMBER_FLAG_MODERATOR = 0x02"
definition MEMBER_FLAG_MUTED :: u8 where "MEMBER_FLAG_MUTED = 0x08"

record player_info =
  pi_player :: guid
  pi_flags :: u8

text \<open>\<open>PlayerInfo()\<close>, what \<open>playersStore[guid]\<close> inserts for an unknown GUID.\<close>

definition pi_default :: player_info where
  "pi_default = \<lparr>pi_player = 0, pi_flags = 0\<rparr>"

definition pi_is :: "u8 \<Rightarrow> player_info \<Rightarrow> bool" where
  "pi_is flag p \<longleftrightarrow> pi_flags p AND flag \<noteq> 0"

definition pi_set :: "u8 \<Rightarrow> bool \<Rightarrow> player_info \<Rightarrow> player_info" where
  "pi_set flag state p =
     p\<lparr>pi_flags := (if state then pi_flags p OR flag else pi_flags p AND NOT flag)\<rparr>"

definition CHANNEL_FLAG_CUSTOM :: u8 where "CHANNEL_FLAG_CUSTOM = 0x01"
definition CHANNEL_FLAG_TRADE :: u8 where "CHANNEL_FLAG_TRADE = 0x04"
definition CHANNEL_FLAG_NOT_LFG :: u8 where "CHANNEL_FLAG_NOT_LFG = 0x08"
definition CHANNEL_FLAG_GENERAL :: u8 where "CHANNEL_FLAG_GENERAL = 0x10"
definition CHANNEL_FLAG_CITY :: u8 where "CHANNEL_FLAG_CITY = 0x20"
definition CHANNEL_FLAG_LFG :: u8 where "CHANNEL_FLAG_LFG = 0x40"

record channel =
  ch_announce :: bool
  ch_ownership :: bool
  ch_saved :: bool
  ch_flags :: u8
  ch_id :: u32
  ch_team :: u32
  ch_owner :: guid
  ch_name :: string
  ch_password :: string
  ch_players :: "(guid, player_info) omap"
  ch_banned :: "guid list"
  ch_out :: "chan_out list"

definition out :: "chan_out \<Rightarrow> channel \<Rightarrow> channel" where
  "out o1 ch = ch\<lparr>ch_out := ch_out ch @ [o1]\<rparr>"

definition is_constant :: "channel \<Rightarrow> bool" where
  "is_constant ch \<longleftrightarrow> ch_id ch \<noteq> 0"

definition has_channel_flag :: "u8 \<Rightarrow> channel \<Rightarrow> bool" where
  "has_channel_flag f ch \<longleftrightarrow> ch_flags ch AND f \<noteq> 0"

definition num_players :: "channel \<Rightarrow> u32" where
  "num_players ch = word_of_nat (length (ch_players ch))"

definition is_on :: "guid \<Rightarrow> channel \<Rightarrow> bool" where
  "is_on g ch \<longleftrightarrow> om_has g (ch_players ch)"

definition is_banned :: "guid \<Rightarrow> channel \<Rightarrow> bool" where
  "is_banned g ch \<longleftrightarrow> g \<in> set (ch_banned ch)"

definition get_player_flags :: "guid \<Rightarrow> channel \<Rightarrow> u8" where
  "get_player_flags g ch = (case map_of (ch_players ch) g of Some p \<Rightarrow> pi_flags p | None \<Rightarrow> 0)"

text \<open>\<open>playersStore[g]\<close>, read and written; it inserts the default for an unknown GUID.\<close>

definition info_at :: "guid \<Rightarrow> channel \<Rightarrow> player_info" where
  "info_at g ch = (case map_of (ch_players ch) g of Some p \<Rightarrow> p | None \<Rightarrow> pi_default)"

definition set_info :: "guid \<Rightarrow> player_info \<Rightarrow> channel \<Rightarrow> channel" where
  "set_info g p ch = ch\<lparr>ch_players := om_set g p (ch_players ch)\<rparr>"

definition upd_info :: "guid \<Rightarrow> (player_info \<Rightarrow> player_info) \<Rightarrow> channel \<Rightarrow> channel" where
  "upd_info g f ch = set_info g (f (info_at g ch)) ch"

section \<open>Notices\<close>

definition make_notify :: "u8 \<Rightarrow> field list \<Rightarrow> channel \<Rightarrow> packet" where
  "make_notify t fs ch = (SMSG_CHANNEL_NOTIFY, [F8 t, FStr (ch_name ch)] @ fs)"

text \<open>Four of the builders have their body commented out: the packet stays empty.\<close>

definition make_joined :: "guid \<Rightarrow> channel \<Rightarrow> packet" where "make_joined g ch = empty_packet"
definition make_left :: "guid \<Rightarrow> channel \<Rightarrow> packet" where "make_left g ch = empty_packet"
definition make_not_moderator :: "channel \<Rightarrow> packet" where "make_not_moderator ch = empty_packet"
definition make_password_changed :: "guid \<Rightarrow> channel \<Rightarrow> packet" where
  "make_password_changed g ch = empty_packet"

definition make_you_joined :: "channel \<Rightarrow> packet" where
  "make_you_joined ch = make_notify 0x02 [F8 (ch_flags ch), F32 (ch_id ch), F32 0] ch"
definition make_you_left :: "channel \<Rightarrow> packet" where
  "make_you_left ch = make_notify 0x03 [F32 (ch_id ch), F8 (if is_constant ch then 1 else 0)] ch"
definition make_wrong_password :: "channel \<Rightarrow> packet" where "make_wrong_password ch = make_notify 0x04 [] ch"
definition make_not_member :: "channel \<Rightarrow> packet" where "make_not_member ch = make_notify 0x05 [] ch"
definition make_owner_changed :: "guid \<Rightarrow> channel \<Rightarrow> packet" where
  "make_owner_changed g ch = make_notify 0x08 [F64 g] ch"
definition make_player_not_found :: "string \<Rightarrow> channel \<Rightarrow> packet" where
  "make_player_not_found n ch = make_notify 0x09 [FStr n] ch"
definition make_not_owner :: "channel \<Rightarrow> packet" where "make_not_owner ch = make_notify 0x0A [] ch"

definition make_channel_owner :: "chan_env \<Rightarrow> channel \<Rightarrow> packet" where
  "make_channel_owner env ch =
     (let name = (case ce_name_by_guid env (ch_owner ch) of
                    Some n \<Rightarrow> if n = [] then ''PLAYER_NOT_FOUND'' else n
                  | None \<Rightarrow> ''PLAYER_NOT_FOUND'')
      in make_notify 0x0B [FStr (if is_constant ch \<or> ch_owner ch = 0 then ''Nobody'' else name)] ch)"

definition make_mode_change :: "guid \<Rightarrow> u8 \<Rightarrow> channel \<Rightarrow> packet" where
  "make_mode_change g old ch = make_notify 0x0C [F64 g, F8 old, F8 (get_player_flags g ch)] ch"
definition make_announcements_on :: "guid \<Rightarrow> channel \<Rightarrow> packet" where
  "make_announcements_on g ch = make_notify 0x0D [F64 g] ch"
definition make_announcements_off :: "guid \<Rightarrow> channel \<Rightarrow> packet" where
  "make_announcements_off g ch = make_notify 0x0E [F64 g] ch"
definition make_muted :: "channel \<Rightarrow> packet" where "make_muted ch = make_notify 0x11 [] ch"
definition make_player_kicked :: "guid \<Rightarrow> guid \<Rightarrow> channel \<Rightarrow> packet" where
  "make_player_kicked bad good ch = make_notify 0x12 [F64 bad, F64 good] ch"
definition make_banned :: "channel \<Rightarrow> packet" where "make_banned ch = make_notify 0x13 [] ch"
definition make_player_banned :: "guid \<Rightarrow> guid \<Rightarrow> channel \<Rightarrow> packet" where
  "make_player_banned bad good ch = make_notify 0x14 [F64 bad, F64 good] ch"
definition make_player_unbanned :: "guid \<Rightarrow> guid \<Rightarrow> channel \<Rightarrow> packet" where
  "make_player_unbanned bad good ch = make_notify 0x15 [F64 bad, F64 good] ch"
definition make_player_not_banned :: "string \<Rightarrow> channel \<Rightarrow> packet" where
  "make_player_not_banned n ch = make_notify 0x16 [FStr n] ch"
definition make_player_already_member :: "guid \<Rightarrow> channel \<Rightarrow> packet" where
  "make_player_already_member g ch = make_notify 0x17 [F64 g] ch"
definition make_invite :: "guid \<Rightarrow> channel \<Rightarrow> packet" where "make_invite g ch = make_notify 0x18 [F64 g] ch"
definition make_invite_wrong_faction :: "channel \<Rightarrow> packet" where
  "make_invite_wrong_faction ch = make_notify 0x19 [] ch"
definition make_wrong_faction :: "channel \<Rightarrow> packet" where "make_wrong_faction ch = make_notify 0x1A [] ch"
definition make_invalid_name :: "channel \<Rightarrow> packet" where "make_invalid_name ch = make_notify 0x1B [] ch"
definition make_not_moderated :: "channel \<Rightarrow> packet" where "make_not_moderated ch = make_notify 0x1C [] ch"
definition make_player_invited :: "string \<Rightarrow> channel \<Rightarrow> packet" where
  "make_player_invited n ch = make_notify 0x1D [FStr n] ch"
definition make_player_invite_banned :: "string \<Rightarrow> channel \<Rightarrow> packet" where
  "make_player_invite_banned n ch = make_notify 0x1E [FStr n] ch"
definition make_throttled :: "channel \<Rightarrow> packet" where "make_throttled ch = make_notify 0x1F [] ch"
definition make_not_in_area :: "channel \<Rightarrow> packet" where "make_not_in_area ch = make_notify 0x20 [] ch"
definition make_not_in_lfg :: "channel \<Rightarrow> packet" where "make_not_in_lfg ch = make_notify 0x21 [] ch"
definition make_voice_on :: "guid \<Rightarrow> channel \<Rightarrow> packet" where "make_voice_on g ch = make_notify 0x22 [F64 g] ch"
definition make_voice_off :: "guid \<Rightarrow> channel \<Rightarrow> packet" where "make_voice_off g ch = make_notify 0x23 [F64 g] ch"

section \<open>Sending\<close>

definition hears :: "chan_env \<Rightarrow> guid \<Rightarrow> guid \<Rightarrow> bool" where
  "hears env sender g =
     (case ce_connected env g of
        Some p \<Rightarrow> sender = 0 \<or> \<not> pl_ignores p (get_counter sender)
      | None \<Rightarrow> False)"

definition send_to_all :: "chan_env \<Rightarrow> packet \<Rightarrow> guid \<Rightarrow> channel \<Rightarrow> channel" where
  "send_to_all env pkt sender ch =
     fold (\<lambda>(g, p). if hears env sender g then out (SendPacket g pkt) else id) (ch_players ch) ch"

definition send_to_all_but_one :: "chan_env \<Rightarrow> packet \<Rightarrow> guid \<Rightarrow> channel \<Rightarrow> channel" where
  "send_to_all_but_one env pkt who ch =
     fold (\<lambda>(g, p). if g \<noteq> who \<and> ce_connected env g \<noteq> None then out (SendPacket g pkt) else id) (ch_players ch) ch"

definition send_to_one :: "chan_env \<Rightarrow> packet \<Rightarrow> guid \<Rightarrow> channel \<Rightarrow> channel" where
  "send_to_one env pkt who ch = (if ce_connected env who \<noteq> None then out (SendPacket who pkt) ch else ch)"

section \<open>The table of custom channels\<close>

definition ban_list_string :: "guid list \<Rightarrow> string" where
  "ban_list_string bans = concat (map (\<lambda>g. show_nat (unat g) @ '' '') bans)"

definition update_channel_db :: "channel \<Rightarrow> channel" where
  "update_channel_db ch =
     (if ch_saved ch
      then out (DbUpdateChannel (ch_announce ch) (ch_ownership ch) (ban_list_string (ch_banned ch))
                 (ch_name ch) (ch_team ch)) ch
      else ch)"

definition update_usage_db :: "channel \<Rightarrow> channel" where
  "update_usage_db ch = out (DbUpdateUsage (ch_name ch) (ch_team ch)) ch"

definition clean_old_channels :: "chan_env \<Rightarrow> chan_out list" where
  "clean_old_channels env =
     (if 0 < ce_preserve_days env then [DbDeleteOld (ce_preserve_days env * 86400)] else [])"

text \<open>\<open>Tokenizer\<close> (\<open>Util.cpp\<close>): a separator ends a token; what follows the last one counts if not empty.\<close>

fun tokenize :: "char \<Rightarrow> string \<Rightarrow> string \<Rightarrow> string list" where
  "tokenize sep cur [] = (if cur \<noteq> [] then [cur] else [])"
| "tokenize sep cur (c # cs) =
     (if c = sep then cur # tokenize sep [] cs
      else if c = CHR 0x00 then (if cur \<noteq> [] then [cur] else [])
      else tokenize sep (cur @ [c]) cs)"

text \<open>\<open>strtoull(s, NULL, 10)\<close>\<close>

definition strtoull :: "string \<Rightarrow> u64" where
  "strtoull s =
     (let s1 = dropWhile (\<lambda>c. c \<in> {CHR '' '', CHR 0x09, CHR 0x0A, CHR 0x0B, CHR 0x0C, CHR 0x0D}) s;
          neg = (case s1 of c # r \<Rightarrow> c = CHR ''-'' | [] \<Rightarrow> False);
          s2 = (case s1 of c # r \<Rightarrow> if c = CHR ''-'' \<or> c = CHR ''+'' then r else s1 | [] \<Rightarrow> []);
          v = read_digits (takeWhile is_digit s2)
      in if 2 ^ 64 \<le> v then - 1 else if neg then - word_of_nat v else word_of_nat v)"

definition parse_bans :: "string \<Rightarrow> guid list \<Rightarrow> guid list" where
  "parse_bans s bans =
     fold (\<lambda>t b. if strtoull t \<noteq> 0 then os_ins (strtoull t) b else b) (tokenize CHR '' '' [] s) bans"

definition builtin_flags :: "u32 \<Rightarrow> u8" where
  "builtin_flags dbc =
     CHANNEL_FLAG_GENERAL
     OR (if dbc AND 0x00008 \<noteq> 0 then CHANNEL_FLAG_TRADE else 0)
     OR (if dbc AND 0x00020 \<noteq> 0 then CHANNEL_FLAG_CITY else 0)
     OR (if dbc AND 0x40000 \<noteq> 0 then CHANNEL_FLAG_LFG else CHANNEL_FLAG_NOT_LFG)"

definition new_channel :: "chan_env \<Rightarrow> string \<Rightarrow> u32 \<Rightarrow> u32 \<Rightarrow> channel" where
  "new_channel env name i team =
     (let ch = \<lparr>ch_announce = True, ch_ownership = True, ch_saved = False, ch_flags = 0, ch_id = i,
                ch_team = team, ch_owner = 0, ch_name = name, ch_password = [], ch_players = [],
                ch_banned = [], ch_out = []\<rparr>
      in case ce_dbc_flags env i of
           Some dbc \<Rightarrow> ch\<lparr>ch_announce := False, ch_ownership := False, ch_flags := builtin_flags dbc\<rparr>
         | None \<Rightarrow>
             (let ch1 = ch\<lparr>ch_flags := CHANNEL_FLAG_CUSTOM\<rparr>
              in if ce_preserve env
                 then (case ce_query env name team of
                         Some (ann, own, bans) \<Rightarrow>
                           ch1\<lparr>ch_announce := ann, ch_ownership := own,
                               ch_banned := (case bans of Some b \<Rightarrow> parse_bans b [] | None \<Rightarrow> []),
                               ch_saved := True\<rparr>
                       | None \<Rightarrow> (out (DbInsertChannel name team) ch1)\<lparr>ch_saved := True\<rparr>)
                 else ch1))"

section \<open>Owner and notifications\<close>

definition set_owner :: "chan_env \<Rightarrow> guid \<Rightarrow> bool \<Rightarrow> channel \<Rightarrow> channel" where
  "set_owner env g exclaim ch =
     (let ch1 = (if ch_owner ch \<noteq> 0 \<and> is_on (ch_owner ch) ch
                 then upd_info (ch_owner ch) (pi_set MEMBER_FLAG_OWNER False) ch else ch);
          ch2 = ch1\<lparr>ch_owner := g\<rparr>
      in if g = 0 then ch2
         else
           (let old = get_player_flags g ch2;
                ch3 = upd_info g (pi_set MEMBER_FLAG_MODERATOR True) ch2;
                ch4 = upd_info g (pi_set MEMBER_FLAG_OWNER True) ch3;
                ch5 = send_to_all env (make_mode_change g old ch4) 0 ch4;
                ch6 = (if exclaim then send_to_all env (make_owner_changed g ch5) 0 ch5 else ch5)
            in update_channel_db ch6))"

text \<open>\<open>SetModerator(guid, set)\<close> and \<open>SetMute(guid, set)\<close>\<close>

definition set_member_mode :: "chan_env \<Rightarrow> u8 \<Rightarrow> guid \<Rightarrow> bool \<Rightarrow> channel \<Rightarrow> channel" where
  "set_member_mode env flag g on ch =
     (let ch0 = set_info g (info_at g ch) ch
      in if pi_is flag (info_at g ch0) \<noteq> on
         then
           (let old = get_player_flags g ch0;
                ch1 = upd_info g (pi_set flag on) ch0
            in send_to_all env (make_mode_change g old ch1) 0 ch1)
         else ch0)"

definition join_notify :: "chan_env \<Rightarrow> guid \<Rightarrow> channel \<Rightarrow> channel" where
  "join_notify env g ch =
     (let pkt = (if is_constant ch then SMSG_USERLIST_ADD else SMSG_USERLIST_UPDATE,
                 [F64 g, F8 (get_player_flags g ch), F8 (ch_flags ch), F32 (num_players ch), FStr (ch_name ch)])
      in if is_constant ch then send_to_all_but_one env pkt g ch else send_to_all env pkt 0 ch)"

definition leave_notify :: "chan_env \<Rightarrow> guid \<Rightarrow> channel \<Rightarrow> channel" where
  "leave_notify env g ch =
     (let pkt = (SMSG_USERLIST_REMOVE, [F64 g, F8 (ch_flags ch), F32 (num_players ch), FStr (ch_name ch)])
      in if is_constant ch then send_to_all_but_one env pkt g ch else send_to_all env pkt 0 ch)"

section \<open>Joining and leaving\<close>

text \<open>The owner of a custom channel is its first member, if ownership is handed out.\<close>

definition join_custom :: "chan_env \<Rightarrow> guid \<Rightarrow> channel \<Rightarrow> channel" where
  "join_custom env g ch =
     (if is_constant ch then ch
      else
        (let ch1 = (if ch_players ch \<noteq> [] then update_usage_db ch else ch)
         in if ch_owner ch1 = 0 \<and> ch_ownership ch1
            then upd_info g (pi_set MEMBER_FLAG_MODERATOR True)
                   (set_owner env g (1 < length (ch_players ch1)) ch1)
            else ch1))"

definition join_admit :: "chan_env \<Rightarrow> player \<Rightarrow> channel \<Rightarrow> channel" where
  "join_admit env pl ch =
     (let g = pl_guid pl;
          ch1 = out (PlayerJoinedChannel g) ch;
          ch2 = (if ch_announce ch1 \<and> \<not> pl_perms pl PERM_SILENT
                 then send_to_all env (make_joined g ch1) 0 ch1 else ch1);
          ch3 = set_info g \<lparr>pi_player = g, pi_flags = 0\<rparr> ch2;
          ch4 = send_to_one env (make_you_joined ch3) g ch3
      in join_custom env g (join_notify env g ch4))"

definition join_channel :: "chan_env \<Rightarrow> player \<Rightarrow> string \<Rightarrow> channel \<Rightarrow> channel" where
  "join_channel env pl pass ch =
     (let g = pl_guid pl
      in if is_on g ch
         then (if \<not> is_constant ch then send_to_one env (make_player_already_member g ch) g ch else ch)
         else if is_banned g ch then send_to_one env (make_banned ch) g ch
         else if ch_password ch \<noteq> [] \<and> pass \<noteq> ch_password ch then send_to_one env (make_wrong_password ch) g ch
         else if has_channel_flag CHANNEL_FLAG_LFG ch \<and> ce_restricted_lfg env
                 \<and> pl_security pl = 0 \<and> pl_in_group pl
         then send_to_one env (make_not_in_lfg ch) g ch
         else join_admit env pl ch)"

text \<open>A custom channel with members left chooses a new owner if its owner left.\<close>

definition leave_custom :: "chan_env \<Rightarrow> bool \<Rightarrow> channel \<Rightarrow> channel" where
  "leave_custom env changeowner ch =
     (if is_constant ch then ch
      else
        (let ch1 = update_usage_db ch
         in case ch_players ch1 of
              [] \<Rightarrow> ch1
            | (k, p) # rest \<Rightarrow>
                if changeowner \<and> ch_ownership ch1
                then set_owner env (pi_player p) True
                       (upd_info (pi_player p) (pi_set MEMBER_FLAG_MODERATOR True) ch1)
                else ch1))"

definition leave_channel :: "chan_env \<Rightarrow> player \<Rightarrow> bool \<Rightarrow> channel \<Rightarrow> channel" where
  "leave_channel env pl send ch =
     (let g = pl_guid pl
      in if \<not> is_on g ch
         then (if send then send_to_one env (make_not_member ch) g ch else ch)
         else
           (let ch1 = (if send then out (PlayerLeftChannel g) (send_to_one env (make_you_left ch) g ch) else ch);
                changeowner = pi_is MEMBER_FLAG_OWNER (info_at g ch1);
                ch2 = ch1\<lparr>ch_players := om_del g (ch_players ch1)\<rparr>;
                ch3 = (if ch_announce ch2 \<and> \<not> pl_perms pl PERM_SILENT
                       then send_to_all env (make_left g ch2) 0 ch2 else ch2)
            in leave_custom env changeowner (leave_notify env g ch3)))"

section \<open>Commands of the members\<close>

definition may_moderate :: "player \<Rightarrow> channel \<Rightarrow> bool" where
  "may_moderate pl ch \<longleftrightarrow>
     pi_is MEMBER_FLAG_MODERATOR (info_at (pl_guid pl) ch) \<or> pl_perms pl PERM_NOT_MODERATOR"

text \<open>The GUID of the player a name stands for, or empty.\<close>

definition victim_guid :: "player option \<Rightarrow> guid" where
  "victim_guid op = (case op of Some p \<Rightarrow> pl_guid p | None \<Rightarrow> 0)"

text \<open>What happens once the command is accepted.\<close>

definition remove_member :: "chan_env \<Rightarrow> player \<Rightarrow> guid \<Rightarrow> bool \<Rightarrow> channel \<Rightarrow> channel" where
  "remove_member env pl victim ban ch =
     (let good = pl_guid pl;
          changeowner = (ch_owner ch = victim);
          ch1 =
            (if ban \<and> \<not> is_banned victim ch
             then
               (let c = update_channel_db (ch\<lparr>ch_banned := os_ins victim (ch_banned ch)\<rparr>)
                in if \<not> pl_perms pl PERM_SILENT
                   then send_to_all env (make_player_banned victim good c) 0 c else c)
             else if \<not> pl_perms pl PERM_SILENT
             then send_to_all env (make_player_kicked victim good ch) 0 ch
             else ch);
          ch2 = ch1\<lparr>ch_players := om_del victim (ch_players ch1)\<rparr>;
          ch3 = out (PlayerLeftChannel victim) ch2
      in if changeowner \<and> ch_ownership ch3 \<and> ch_players ch3 \<noteq> []
         then set_owner env good True (upd_info good (pi_set MEMBER_FLAG_MODERATOR True) ch3)
         else ch3)"

definition kick_or_ban :: "chan_env \<Rightarrow> player \<Rightarrow> string \<Rightarrow> bool \<Rightarrow> channel \<Rightarrow> channel" where
  "kick_or_ban env pl badname ban ch =
     (let good = pl_guid pl
      in if \<not> is_on good ch then send_to_one env (make_not_member ch) good ch
         else if \<not> may_moderate pl ch then send_to_one env (make_not_moderator ch) good ch
         else
           (let victim = victim_guid (ce_by_name env badname)
            in if victim = 0 \<or> \<not> is_on victim ch
               then send_to_one env (make_player_not_found badname ch) good ch
               else if \<not> pl_perms pl PERM_NOT_MODERATOR \<and> ch_owner ch = victim \<and> good \<noteq> ch_owner ch
               then send_to_one env (make_not_owner ch) good ch
               else remove_member env pl victim ban ch))"

definition unban :: "chan_env \<Rightarrow> player \<Rightarrow> string \<Rightarrow> channel \<Rightarrow> channel" where
  "unban env pl badname ch =
     (let good = pl_guid pl
      in if \<not> is_on good ch then send_to_one env (make_not_member ch) good ch
         else if \<not> may_moderate pl ch then send_to_one env (make_not_moderator ch) good ch
         else
           (let victim = victim_guid (ce_by_name env badname)
            in if victim = 0 \<or> \<not> is_banned victim ch
               then send_to_one env (make_player_not_found badname ch) good ch
               else
                 (let ch1 = ch\<lparr>ch_banned := os_del victim (ch_banned ch)\<rparr>
                  in update_channel_db (send_to_all env (make_player_unbanned victim good ch1) 0 ch1))))"

definition set_password :: "chan_env \<Rightarrow> player \<Rightarrow> string \<Rightarrow> channel \<Rightarrow> channel" where
  "set_password env pl pass ch =
     (let g = pl_guid pl
      in if \<not> is_on g ch then send_to_one env (make_not_member ch) g ch
         else if \<not> may_moderate pl ch then send_to_one env (make_not_moderator ch) g ch
         else
           (let ch1 = ch\<lparr>ch_password := pass\<rparr>
            in update_channel_db (send_to_all env (make_password_changed g ch1) 0 ch1)))"

text \<open>Two players of different sides, unless both may interact across sides.\<close>

definition other_side :: "player \<Rightarrow> player \<Rightarrow> bool" where
  "other_side a b \<longleftrightarrow>
     pl_team a \<noteq> pl_team b \<and> (\<not> pl_perms a PERM_TWO_SIDE \<or> \<not> pl_perms b PERM_TWO_SIDE)"

definition set_mode :: "chan_env \<Rightarrow> player \<Rightarrow> string \<Rightarrow> bool \<Rightarrow> bool \<Rightarrow> channel \<Rightarrow> channel" where
  "set_mode env pl p2n md on ch =
     (let g = pl_guid pl
      in if \<not> is_on g ch then send_to_one env (make_not_member ch) g ch
         else if \<not> may_moderate pl ch then send_to_one env (make_not_moderator ch) g ch
         else if g = ch_owner ch \<and> p2n = pl_name pl \<and> md then ch
         else
           (case ce_by_name env p2n of
              None \<Rightarrow> send_to_one env (make_player_not_found p2n ch) g ch
            | Some newp \<Rightarrow>
                if pl_guid newp = 0 \<or> \<not> is_on (pl_guid newp) ch \<or> other_side pl newp
                then send_to_one env (make_player_not_found p2n ch) g ch
                else if ch_owner ch = pl_guid newp \<and> ch_owner ch \<noteq> g
                then send_to_one env (make_not_owner ch) g ch
                else set_member_mode env (if md then MEMBER_FLAG_MODERATOR else MEMBER_FLAG_MUTED)
                       (pl_guid newp) on ch))"

definition set_owner_by_name :: "chan_env \<Rightarrow> player \<Rightarrow> string \<Rightarrow> channel \<Rightarrow> channel" where
  "set_owner_by_name env pl newname ch =
     (let g = pl_guid pl
      in if \<not> is_on g ch then send_to_one env (make_not_member ch) g ch
         else if \<not> pl_perms pl PERM_NOT_MODERATOR \<and> g \<noteq> ch_owner ch
         then send_to_one env (make_not_owner ch) g ch
         else
           (case ce_by_name env newname of
              None \<Rightarrow> send_to_one env (make_player_not_found newname ch) g ch
            | Some newp \<Rightarrow>
                if pl_guid newp = 0 \<or> \<not> is_on (pl_guid newp) ch \<or> other_side pl newp
                then send_to_one env (make_player_not_found newname ch) g ch
                else set_owner env (pl_guid newp) True
                       (upd_info (pl_guid newp) (pi_set MEMBER_FLAG_MODERATOR True) ch)))"

definition send_who_owner :: "chan_env \<Rightarrow> guid \<Rightarrow> channel \<Rightarrow> channel" where
  "send_who_owner env g ch =
     send_to_one env (if is_on g ch then make_channel_owner env ch else make_not_member ch) g ch"

definition lists_member :: "chan_env \<Rightarrow> player \<Rightarrow> guid \<Rightarrow> bool" where
  "lists_member env pl g =
     (case ce_connected env g of
        None \<Rightarrow> False
      | Some p \<Rightarrow>
          (pl_perms pl PERM_WHO_SEE_ALL \<or> pl_security p \<le> ce_gm_level_who env) \<and> pl_visible_for p (pl_guid pl))"

definition list_channel :: "chan_env \<Rightarrow> player \<Rightarrow> channel \<Rightarrow> channel" where
  "list_channel env pl ch =
     (let g = pl_guid pl
      in if \<not> is_on g ch then send_to_one env (make_not_member ch) g ch
         else
           (let members = filter (\<lambda>(k, p). lists_member env pl k) (ch_players ch)
            in send_to_one env
                 (SMSG_CHANNEL_LIST,
                  [F8 1, FStr (ch_name ch), F8 (ch_flags ch), F32 (word_of_nat (length members))]
                  @ concat (map (\<lambda>(k, p). [F64 k, F8 (pi_flags p)]) members)) g ch))"

definition announce :: "chan_env \<Rightarrow> player \<Rightarrow> channel \<Rightarrow> channel" where
  "announce env pl ch =
     (let g = pl_guid pl
      in if \<not> is_on g ch then send_to_one env (make_not_member ch) g ch
         else if \<not> may_moderate pl ch then send_to_one env (make_not_moderator ch) g ch
         else
           (let ch1 = ch\<lparr>ch_announce := \<not> ch_announce ch\<rparr>
            in update_channel_db
                 (send_to_all env (if ch_announce ch1 then make_announcements_on g ch1
                                   else make_announcements_off g ch1) 0 ch1)))"

text \<open>The chat message itself is given by what \<open>ChatHandler::BuildChatPacket\<close> is called with.\<close>

definition chat_packet :: "u32 \<Rightarrow> guid \<Rightarrow> string \<Rightarrow> channel \<Rightarrow> packet" where
  "chat_packet lang sender what ch = (SMSG_MESSAGECHAT, [F32 lang, F64 sender, FStr what, FStr (ch_name ch)])"

definition say :: "chan_env \<Rightarrow> guid \<Rightarrow> string \<Rightarrow> u32 \<Rightarrow> channel \<Rightarrow> channel" where
  "say env g what lang0 ch =
     (if what = [] then ch
      else
        (let lang = (if ce_two_side env then 0 else lang0)
         in if \<not> is_on g ch then send_to_one env (make_not_member ch) g ch
            else if pi_is MEMBER_FLAG_MUTED (info_at g ch) then send_to_one env (make_muted ch) g ch
            else send_to_all env (chat_packet lang g what ch)
                   (if \<not> pi_is MEMBER_FLAG_MODERATOR (info_at g ch) then g else 0) ch))"

definition invite :: "chan_env \<Rightarrow> player \<Rightarrow> string \<Rightarrow> channel \<Rightarrow> channel" where
  "invite env pl newname ch =
     (let g = pl_guid pl
      in if \<not> is_on g ch then send_to_one env (make_not_member ch) g ch
         else
           (case ce_by_name env newname of
              None \<Rightarrow> send_to_one env (make_player_not_found newname ch) g ch
            | Some newp \<Rightarrow>
                if \<not> pl_gm_visible newp then send_to_one env (make_player_not_found newname ch) g ch
                else if is_banned (pl_guid newp) ch then send_to_one env (make_player_invite_banned newname ch) g ch
                else if other_side pl newp then send_to_one env (make_invite_wrong_faction ch) g ch
                else if is_on (pl_guid newp) ch
                then send_to_one env (make_player_already_member (pl_guid newp) ch) g ch
                else
                  (let ch1 = (if \<not> pl_ignores newp (get_counter g)
                              then send_to_one env (make_invite g ch) (pl_guid newp) ch else ch)
                   in send_to_one env (make_player_invited (pl_name newp) ch1) g ch1)))"

section \<open>What only writes the log\<close>

definition log_many :: "chan_out list \<Rightarrow> channel \<Rightarrow> channel" where
  "log_many os ch = ch\<lparr>ch_out := ch_out ch @ os\<rparr>"

definition sends :: "(guid \<Rightarrow> bool) \<Rightarrow> packet \<Rightarrow> (guid, player_info) omap \<Rightarrow> chan_out list" where
  "sends to pkt ms = map (\<lambda>(g, p). SendPacket g pkt) (filter (\<lambda>(g, p). to g) ms)"

lemma log_fields [simp]:
  "ch_players (log_many os ch) = ch_players ch"
  "ch_banned (log_many os ch) = ch_banned ch"
  "ch_owner (log_many os ch) = ch_owner ch"
  "ch_ownership (log_many os ch) = ch_ownership ch"
  "ch_announce (log_many os ch) = ch_announce ch"
  "ch_saved (log_many os ch) = ch_saved ch"
  "ch_password (log_many os ch) = ch_password ch"
  "ch_id (log_many os ch) = ch_id ch"
  "ch_name (log_many os ch) = ch_name ch"
  "ch_team (log_many os ch) = ch_team ch"
  "ch_flags (log_many os ch) = ch_flags ch"
  "ch_out (log_many os ch) = ch_out ch @ os"
  by (simp_all add: log_many_def)

lemma log_log [simp]: "log_many bs (log_many as ch) = log_many (as @ bs) ch"
  by (simp add: log_many_def)

lemma log_Nil [simp]: "log_many [] ch = ch"
  by (simp add: log_many_def)

lemma out_log: "out o1 ch = log_many [o1] ch"
  by (simp add: out_def log_many_def)

lemma fold_out:
  "fold (\<lambda>(g, p). if to g then out (SendPacket g pkt) else id) ms ch = log_many (sends to pkt ms) ch"
  by (induction ms arbitrary: ch) (auto simp: sends_def out_log)

lemma send_to_all_log: "send_to_all env pkt s ch = log_many (sends (hears env s) pkt (ch_players ch)) ch"
  by (simp add: send_to_all_def fold_out)

lemma send_to_all_but_one_log:
  "send_to_all_but_one env pkt who ch =
     log_many (sends (\<lambda>g. g \<noteq> who \<and> ce_connected env g \<noteq> None) pkt (ch_players ch)) ch"
  by (simp add: send_to_all_but_one_def fold_out)

lemma send_to_one_log:
  "send_to_one env pkt who ch = log_many (if ce_connected env who \<noteq> None then [SendPacket who pkt] else []) ch"
  by (simp add: send_to_one_def out_log)

lemma update_channel_db_log:
  "update_channel_db ch =
     log_many (if ch_saved ch
               then [DbUpdateChannel (ch_announce ch) (ch_ownership ch) (ban_list_string (ch_banned ch))
                       (ch_name ch) (ch_team ch)] else []) ch"
  by (simp add: update_channel_db_def out_log)

lemma update_usage_db_log: "update_usage_db ch = log_many [DbUpdateUsage (ch_name ch) (ch_team ch)] ch"
  by (simp add: update_usage_db_def out_log)

lemma join_notify_log: "\<exists>os. join_notify env g ch = log_many os ch"
  by (auto simp: join_notify_def send_to_all_log send_to_all_but_one_log Let_def)

lemma leave_notify_log: "\<exists>os. leave_notify env g ch = log_many os ch"
  by (auto simp: leave_notify_def send_to_all_log send_to_all_but_one_log Let_def)

lemmas logging = out_log send_to_all_log send_to_all_but_one_log send_to_one_log
  update_channel_db_log update_usage_db_log

lemma log_queries [simp]:
  "is_on g (log_many os ch) = is_on g ch"
  "is_banned g (log_many os ch) = is_banned g ch"
  "info_at g (log_many os ch) = info_at g ch"
  "get_player_flags g (log_many os ch) = get_player_flags g ch"
  "is_constant (log_many os ch) = is_constant ch"
  "has_channel_flag f (log_many os ch) = has_channel_flag f ch"
  by (simp_all add: is_on_def is_banned_def info_at_def get_player_flags_def is_constant_def has_channel_flag_def)

text \<open>The content of a channel: all but its log.\<close>

definition same_content :: "channel \<Rightarrow> channel \<Rightarrow> bool" where
  "same_content a b \<longleftrightarrow> a\<lparr>ch_out := []\<rparr> = b\<lparr>ch_out := []\<rparr>"

lemma same_content_log [simp]: "same_content (log_many os ch) ch" "same_content ch ch"
  by (simp_all add: same_content_def log_many_def)

section \<open>Member flags\<close>

lemma pi_player_set [simp]: "pi_player (pi_set f b p) = pi_player p"
  by (simp add: pi_set_def)

lemma pi_is_set_same: "f \<noteq> 0 \<Longrightarrow> pi_is f (pi_set f b p) = b"
  by (auto simp: pi_is_def pi_set_def word_or_self_mask word_andnot_mask)

lemma pi_is_set_other: "f AND g = 0 \<Longrightarrow> pi_is f (pi_set g b p) = pi_is f p"
proof -
  assume d: "f AND g = 0"
  have "(pi_flags p OR g) AND f = pi_flags p AND f" "(pi_flags p AND NOT g) AND f = pi_flags p AND f"
    using d by (auto simp: bit_eq_iff bit_simps)
  then show ?thesis by (simp add: pi_is_def pi_set_def)
qed

lemmas member_flag_defs = MEMBER_FLAG_OWNER_def MEMBER_FLAG_MODERATOR_def MEMBER_FLAG_MUTED_def

lemma member_flags_apart [simp]:
  "MEMBER_FLAG_OWNER \<noteq> 0" "MEMBER_FLAG_MODERATOR \<noteq> 0" "MEMBER_FLAG_MUTED \<noteq> 0"
  "MEMBER_FLAG_OWNER AND MEMBER_FLAG_MODERATOR = 0" "MEMBER_FLAG_OWNER AND MEMBER_FLAG_MUTED = 0"
  "MEMBER_FLAG_MODERATOR AND MEMBER_FLAG_OWNER = 0" "MEMBER_FLAG_MODERATOR AND MEMBER_FLAG_MUTED = 0"
  "MEMBER_FLAG_MUTED AND MEMBER_FLAG_OWNER = 0" "MEMBER_FLAG_MUTED AND MEMBER_FLAG_MODERATOR = 0"
  by (simp_all add: member_flag_defs)

lemmas pi_is_simps [simp] =
  pi_is_set_same [OF member_flags_apart(1)] pi_is_set_same [OF member_flags_apart(2)]
  pi_is_set_same [OF member_flags_apart(3)]
  pi_is_set_other [OF member_flags_apart(4)] pi_is_set_other [OF member_flags_apart(5)]
  pi_is_set_other [OF member_flags_apart(6)] pi_is_set_other [OF member_flags_apart(7)]
  pi_is_set_other [OF member_flags_apart(8)] pi_is_set_other [OF member_flags_apart(9)]

lemma is_on_conv: "is_on g ch \<longleftrightarrow> map_of (ch_players ch) g = Some (info_at g ch)"
  by (auto simp: is_on_def om_has_def info_at_def split: option.splits)

lemma is_on_upd [simp]: "is_on x (upd_info g f ch) \<longleftrightarrow> x = g \<or> is_on x ch"
  by (auto simp: upd_info_def set_info_def is_on_def)

lemma upd_info_fields [simp]:
  "ch_banned (upd_info g f ch) = ch_banned ch"
  "ch_owner (upd_info g f ch) = ch_owner ch"
  "ch_ownership (upd_info g f ch) = ch_ownership ch"
  "ch_announce (upd_info g f ch) = ch_announce ch"
  "ch_saved (upd_info g f ch) = ch_saved ch"
  "ch_password (upd_info g f ch) = ch_password ch"
  "ch_id (upd_info g f ch) = ch_id ch"
  "ch_name (upd_info g f ch) = ch_name ch"
  "ch_team (upd_info g f ch) = ch_team ch"
  "ch_flags (upd_info g f ch) = ch_flags ch"
  "ch_out (upd_info g f ch) = ch_out ch"
  "map_of (ch_players (upd_info g f ch)) = (map_of (ch_players ch))(g \<mapsto> f (info_at g ch))"
  "ch_players (upd_info g f ch) \<noteq> []"
  by (simp_all add: upd_info_def set_info_def)

lemma info_at_upd [simp]: "info_at x (upd_info g f ch) = (if x = g then f (info_at g ch) else info_at x ch)"
  by (simp add: info_at_def)

section \<open>Invariants of a channel\<close>

text \<open>
  Members and bans are ordered and disjoint, a member's record carries his own GUID, and at most
  the owner carries the owner flag.
\<close>

definition member_ok :: "channel \<Rightarrow> guid \<Rightarrow> player_info \<Rightarrow> bool" where
  "member_ok ch g p \<longleftrightarrow> pi_player p = g \<and> g \<noteq> 0 \<and> g \<notin> set (ch_banned ch)
     \<and> (pi_is MEMBER_FLAG_OWNER p \<longrightarrow> g = ch_owner ch)"

definition chan_ok :: "channel \<Rightarrow> bool" where
  "chan_ok ch \<longleftrightarrow> om_inv (ch_players ch) \<and> os_inv (ch_banned ch) \<and> 0 \<notin> set (ch_banned ch)
     \<and> (\<forall>g p. map_of (ch_players ch) g = Some p \<longrightarrow> member_ok ch g p)"

text \<open>Where ownership is handed out, a channel with members has an owner, and he is flagged.\<close>

definition chan_owned :: "channel \<Rightarrow> bool" where
  "chan_owned ch \<longleftrightarrow> (is_constant ch \<longrightarrow> \<not> ch_ownership ch) \<and>
     (ch_ownership ch \<longrightarrow>
        (if ch_players ch = [] then ch_owner ch = 0
         else is_on (ch_owner ch) ch \<and> pi_is MEMBER_FLAG_OWNER (info_at (ch_owner ch) ch)))"

lemma chan_okI:
  assumes "om_inv (ch_players ch)" "os_inv (ch_banned ch)" "0 \<notin> set (ch_banned ch)"
    and "\<And>g p. map_of (ch_players ch) g = Some p \<Longrightarrow> member_ok ch g p"
  shows "chan_ok ch"
  using assms by (simp add: chan_ok_def)

lemma chan_ok_member: "chan_ok ch \<Longrightarrow> is_on g ch \<Longrightarrow> member_ok ch g (info_at g ch)"
  by (simp add: chan_ok_def is_on_conv)

lemma member_ok_log [simp]: "member_ok (log_many os ch) = member_ok ch"
  by (simp add: member_ok_def fun_eq_iff)

lemma chan_log [simp]:
  "chan_ok (log_many os ch) = chan_ok ch" "chan_owned (log_many os ch) = chan_owned ch"
  by (simp_all add: chan_ok_def chan_owned_def)

text \<open>Changing a member's moderator or mute flag.\<close>

lemma chan_ok_upd:
  assumes "chan_ok ch" "is_on g ch" "MEMBER_FLAG_OWNER AND f = 0"
  shows "chan_ok (upd_info g (pi_set f b) ch)"
proof (rule chan_okI)
  show "om_inv (ch_players (upd_info g (pi_set f b) ch))" "os_inv (ch_banned (upd_info g (pi_set f b) ch))"
    "0 \<notin> set (ch_banned (upd_info g (pi_set f b) ch))"
    using assms(1) by (simp_all add: chan_ok_def upd_info_def set_info_def)
next
  fix x p
  assume "map_of (ch_players (upd_info g (pi_set f b) ch)) x = Some p"
  then show "member_ok (upd_info g (pi_set f b) ch) x p"
    using assms chan_ok_member [OF assms(1,2)]
    by (auto simp: chan_ok_def member_ok_def pi_is_set_other split: if_splits)
qed

lemma chan_owned_upd:
  assumes "chan_owned ch" "is_on g ch" "MEMBER_FLAG_OWNER AND f = 0"
  shows "chan_owned (upd_info g (pi_set f b) ch)"
proof -
  have "ch_players ch \<noteq> []" using assms(2) by (auto simp: is_on_def)
  then show ?thesis
    using assms by (auto simp: chan_owned_def is_constant_def pi_is_set_other)
qed

fun is_event :: "chan_out \<Rightarrow> bool" where
  "is_event (PlayerJoinedChannel g) = True"
| "is_event (PlayerLeftChannel g) = True"
| "is_event _ = False"

definition events_of :: "channel \<Rightarrow> chan_out list" where
  "events_of ch = filter is_event (ch_out ch)"

text \<open>Only the log grew, and by nothing that concerns a player's list of channels.\<close>

definition silent :: "channel \<Rightarrow> channel \<Rightarrow> bool" where
  "silent ch ch' \<longleftrightarrow> (\<exists>os. ch' = log_many os ch \<and> filter is_event os = [])"

lemma silentD:
  assumes "silent ch ch'"
  shows "ch_players ch' = ch_players ch" "ch_banned ch' = ch_banned ch" "ch_owner ch' = ch_owner ch"
    "ch_ownership ch' = ch_ownership ch" "ch_announce ch' = ch_announce ch" "ch_id ch' = ch_id ch"
    "ch_name ch' = ch_name ch" "ch_password ch' = ch_password ch" "is_on g ch' = is_on g ch"
    "info_at g ch' = info_at g ch" "is_constant ch' = is_constant ch" "is_banned g ch' = is_banned g ch"
    "chan_ok ch' = chan_ok ch" "chan_owned ch' = chan_owned ch" "events_of ch' = events_of ch"
    "same_content ch' ch" "ch_flags ch' = ch_flags ch"
  using assms by (auto simp: silent_def events_of_def)

lemma silent_refl [intro, simp]: "silent ch ch"
  unfolding silent_def by (rule exI [of _ "[]"]) simp

lemma silent_trans: "silent a b \<Longrightarrow> silent b c \<Longrightarrow> silent a c"
  unfolding silent_def by (metis append_Nil filter_append log_log)

lemma sends_no_event [simp]: "filter is_event (sends to pkt ms) = []"
  by (induction ms) (auto simp: sends_def)

lemma silent_sends [intro, simp]:
  "silent ch (send_to_all env pkt s ch)" "silent ch (send_to_all_but_one env pkt who ch)"
  "silent ch (send_to_one env pkt who ch)" "silent ch (update_channel_db ch)" "silent ch (update_usage_db ch)"
  unfolding silent_def send_to_all_log send_to_all_but_one_log send_to_one_log update_channel_db_log
    update_usage_db_log
  by (rule exI, rule conjI, rule refl, simp)+

lemma silent_steps [simp]:
  "silent a b \<Longrightarrow> silent a (send_to_all env pkt s b)"
  "silent a b \<Longrightarrow> silent a (send_to_all_but_one env pkt who b)"
  "silent a b \<Longrightarrow> silent a (send_to_one env pkt who b)"
  "silent a b \<Longrightarrow> silent a (update_channel_db b)"
  "silent a b \<Longrightarrow> silent a (update_usage_db b)"
  by (blast intro: silent_trans silent_sends)+

lemma silent_notify [simp]:
  "silent a b \<Longrightarrow> silent a (join_notify env g b)" "silent a b \<Longrightarrow> silent a (leave_notify env g b)"
  by (simp_all add: join_notify_def leave_notify_def Let_def)

lemma silent_if: "(b \<Longrightarrow> silent c x) \<Longrightarrow> (\<not> b \<Longrightarrow> silent c y) \<Longrightarrow> silent c (if b then x else y)"
  by simp

text \<open>A new owner: the flag moves from the old owner to the new one.\<close>

definition crown :: "guid \<Rightarrow> channel \<Rightarrow> channel" where
  "crown g ch =
     upd_info g (pi_set MEMBER_FLAG_OWNER True \<circ> pi_set MEMBER_FLAG_MODERATOR True)
       ((if ch_owner ch \<noteq> 0 \<and> is_on (ch_owner ch) ch
         then upd_info (ch_owner ch) (pi_set MEMBER_FLAG_OWNER False) ch else ch)\<lparr>ch_owner := g\<rparr>)"

lemma set_owner_crown: "g \<noteq> 0 \<Longrightarrow> silent (crown g ch) (set_owner env g ex ch)"
proof -
  assume g: "g \<noteq> 0"
  have tw: "upd_info g f1 (upd_info g f0 c) = upd_info g (f1 \<circ> f0) c" for c f0 f1
  proof -
    have "om_set k v (om_set k w m) = om_set k v m" for k :: guid and v w :: player_info and m
      by (induction k w m rule: om_set.induct) auto
    then show ?thesis by (simp add: upd_info_def set_info_def info_at_def)
  qed
  show ?thesis
    using g by (auto simp: set_owner_def crown_def [symmetric] crown_def [symmetric, unfolded comp_def] Let_def tw
        intro: silent_trans)
qed

lemma crown_fields [simp]:
  "ch_owner (crown g ch) = g" "ch_banned (crown g ch) = ch_banned ch"
  "ch_ownership (crown g ch) = ch_ownership ch" "is_constant (crown g ch) = is_constant ch"
  "ch_name (crown g ch) = ch_name ch" "ch_flags (crown g ch) = ch_flags ch" "ch_password (crown g ch) = ch_password ch"
  "ch_players (crown g ch) \<noteq> []"
  by (simp_all add: crown_def is_constant_def)

lemma owner_update_queries [simp]:
  "is_on x (ch\<lparr>ch_owner := g\<rparr>) = is_on x ch" "info_at x (ch\<lparr>ch_owner := g\<rparr>) = info_at x ch"
  by (simp_all add: is_on_def info_at_def)

lemma is_on_crown [simp]: "is_on x (crown g ch) \<longleftrightarrow> x = g \<or> is_on x ch"
  by (auto simp: crown_def)

lemma info_at_crown:
  "x \<noteq> g \<Longrightarrow> info_at x (crown g ch) =
     (if x = ch_owner ch \<and> ch_owner ch \<noteq> 0 \<and> is_on x ch then pi_set MEMBER_FLAG_OWNER False (info_at x ch)
      else info_at x ch)"
  by (auto simp: crown_def)

lemma info_at_crown_owner [simp]:
  "pi_is MEMBER_FLAG_OWNER (info_at g (crown g ch))" "pi_is MEMBER_FLAG_MODERATOR (info_at g (crown g ch))"
  "pi_player (info_at g (crown g ch)) = pi_player (info_at g ch)"
  by (auto simp: crown_def)

lemma om_inv_crown [simp]: "om_inv (ch_players ch) \<Longrightarrow> om_inv (ch_players (crown g ch))"
  by (simp add: crown_def upd_info_def set_info_def)

lemma crown_ok:
  assumes ok: "chan_ok ch" and on: "is_on g ch"
  shows "chan_ok (crown g ch)"
proof (rule chan_okI)
  fix x p
  assume *: "map_of (ch_players (crown g ch)) x = Some p"
  then have x: "is_on x (crown g ch)" "p = info_at x (crown g ch)"
    by (simp_all add: is_on_def om_has_def info_at_def)
  then have "is_on x ch" using on by auto
  note m = chan_ok_member [OF ok this]
  show "member_ok (crown g ch) x p"
  proof (cases "x = g")
    case True
    then show ?thesis using m x by (simp add: member_ok_def)
  next
    case False
    then show ?thesis using m x by (auto simp: member_ok_def info_at_crown split: if_splits)
  qed
qed (use ok in \<open>simp_all add: chan_ok_def\<close>)

lemma crown_owned: "(is_constant ch \<longrightarrow> \<not> ch_ownership ch) \<Longrightarrow> chan_owned (crown g ch)"
  by (simp add: chan_owned_def)

lemma set_owner_inv:
  assumes "chan_ok ch" "is_on g ch" "is_constant ch \<longrightarrow> \<not> ch_ownership ch"
  shows "chan_ok (set_owner env g ex ch)" "chan_owned (set_owner env g ex ch)"
proof -
  have "g \<noteq> 0" using chan_ok_member [OF assms(1,2)] by (simp add: member_ok_def)
  then have "silent (crown g ch) (set_owner env g ex ch)" by (rule set_owner_crown)
  note d = silentD [OF this]
  show "chan_ok (set_owner env g ex ch)" "chan_owned (set_owner env g ex ch)"
    using crown_ok [OF assms(1,2)] crown_owned [OF assms(3)] d by simp_all
qed

text \<open>A member leaves or is removed.\<close>

definition drop_member :: "guid \<Rightarrow> channel \<Rightarrow> channel" where
  "drop_member g ch = ch\<lparr>ch_players := om_del g (ch_players ch)\<rparr>"

lemma drop_member_fields [simp]:
  "is_on x (drop_member g ch) \<longleftrightarrow> x \<noteq> g \<and> is_on x ch"
  "x \<noteq> g \<Longrightarrow> info_at x (drop_member g ch) = info_at x ch"
  "ch_owner (drop_member g ch) = ch_owner ch" "ch_banned (drop_member g ch) = ch_banned ch"
  "ch_ownership (drop_member g ch) = ch_ownership ch" "is_constant (drop_member g ch) = is_constant ch"
  "drop_member g (log_many os ch) = log_many os (drop_member g ch)"
  "ch_name (drop_member g ch) = ch_name ch" "ch_flags (drop_member g ch) = ch_flags ch"
  by (auto simp: drop_member_def is_on_def info_at_def is_constant_def log_many_def)

lemma drop_member_ok: "chan_ok ch \<Longrightarrow> chan_ok (drop_member g ch)"
  by (auto simp: chan_ok_def drop_member_def member_ok_def)

lemma drop_member_owned:
  assumes "chan_owned ch" "is_on (ch_owner ch) ch" "ch_owner ch \<noteq> g"
  shows "chan_owned (drop_member g ch)"
proof -
  have "is_on (ch_owner ch) (drop_member g ch)" using assms by simp
  then have "ch_players (drop_member g ch) \<noteq> []" by (auto simp: is_on_def)
  moreover have "ch_players ch \<noteq> []" using assms(2) by (auto simp: is_on_def)
  ultimately show ?thesis using assms by (auto simp: chan_owned_def)
qed

lemma first_member: "chan_ok ch \<Longrightarrow> ch_players ch = (k, p) # rest \<Longrightarrow> is_on k ch \<and> pi_player p = k"
  by (auto simp: chan_ok_def is_on_def om_has_def member_ok_def)

text \<open>A new member.\<close>

definition add_member :: "guid \<Rightarrow> channel \<Rightarrow> channel" where
  "add_member g ch = set_info g \<lparr>pi_player = g, pi_flags = 0\<rparr> ch"

lemma add_member_fields [simp]:
  "is_on x (add_member g ch) \<longleftrightarrow> x = g \<or> is_on x ch"
  "info_at x (add_member g ch) = (if x = g then \<lparr>pi_player = g, pi_flags = 0\<rparr> else info_at x ch)"
  "ch_owner (add_member g ch) = ch_owner ch" "ch_banned (add_member g ch) = ch_banned ch"
  "ch_ownership (add_member g ch) = ch_ownership ch" "is_constant (add_member g ch) = is_constant ch"
  "ch_players (add_member g ch) \<noteq> []" "ch_name (add_member g ch) = ch_name ch" "ch_flags (add_member g ch) = ch_flags ch"
  "add_member g (log_many os ch) = log_many os (add_member g ch)"
  by (auto simp: add_member_def set_info_def is_on_def info_at_def is_constant_def log_many_def)

lemma add_member_ok:
  assumes "chan_ok ch" "\<not> is_on g ch" "\<not> is_banned g ch" "g \<noteq> 0"
  shows "chan_ok (add_member g ch)"
  using assms
  by (auto simp: chan_ok_def add_member_def set_info_def member_ok_def is_banned_def pi_is_def)

lemma add_member_owned:
  assumes "chan_owned ch" "\<not> is_on g ch" "ch_ownership ch \<longrightarrow> ch_owner ch \<noteq> 0"
  shows "chan_owned (add_member g ch)"
  using assms by (auto simp: chan_owned_def split: if_splits)

lemma events_simps [simp]:
  "events_of (log_many os ch) = events_of ch @ filter is_event os"
  "events_of (upd_info g f ch) = events_of ch" "events_of (crown g ch) = events_of ch"
  "events_of (add_member g ch) = events_of ch" "events_of (drop_member g ch) = events_of ch"
  by (simp_all add: events_of_def crown_def add_member_def set_info_def drop_member_def)

section \<open>Joining and leaving keep the invariants\<close>

text \<open>Whether \<open>JoinChannel\<close> turns the player away.\<close>

definition join_refused :: "chan_env \<Rightarrow> player \<Rightarrow> string \<Rightarrow> channel \<Rightarrow> bool" where
  "join_refused env pl pass ch \<longleftrightarrow>
     is_on (pl_guid pl) ch \<or> is_banned (pl_guid pl) ch \<or> (ch_password ch \<noteq> [] \<and> pass \<noteq> ch_password ch)
     \<or> (has_channel_flag CHANNEL_FLAG_LFG ch \<and> ce_restricted_lfg env \<and> pl_security pl = 0 \<and> pl_in_group pl)"

lemma join_refused_silent: "join_refused env pl pass ch \<Longrightarrow> silent ch (join_channel env pl pass ch)"
  unfolding join_channel_def join_refused_def Let_def by (intro silent_if) auto

lemma join_accepted: "\<not> join_refused env pl pass ch \<Longrightarrow> join_channel env pl pass ch = join_admit env pl ch"
  by (auto simp: join_channel_def join_refused_def Let_def)

lemma id_simps [simp]:
  "ch_id (crown g ch) = ch_id ch" "ch_id (add_member g ch) = ch_id ch" "ch_id (drop_member g ch) = ch_id ch"
  by (simp_all add: crown_def add_member_def set_info_def drop_member_def)

lemma set_owner_effect:
  assumes "g \<noteq> 0"
  shows "is_on x (set_owner env g e ch) \<longleftrightarrow> x = g \<or> is_on x ch" "ch_name (set_owner env g e ch) = ch_name ch \<and> ch_flags (set_owner env g e ch) = ch_flags ch"
    "ch_id (set_owner env g e ch) = ch_id ch" "ch_banned (set_owner env g e ch) = ch_banned ch"
    "events_of (set_owner env g e ch) = events_of ch" "ch_owner (set_owner env g e ch) = g"
    "ch_ownership (set_owner env g e ch) = ch_ownership ch"
  using silentD [OF set_owner_crown [OF assms, of ch env e]] by simp_all

lemma join_custom_inv:
  fixes env g ch
  defines "r \<equiv> join_custom env g ch"
  assumes ok: "chan_ok ch" "is_on g ch" "is_constant ch \<longrightarrow> \<not> ch_ownership ch"
    and owned: "ch_owner ch \<noteq> 0 \<or> \<not> ch_ownership ch \<Longrightarrow> chan_owned ch"
  shows "chan_ok r" "chan_owned r" "is_on x r \<longleftrightarrow> is_on x ch" "ch_name r = ch_name ch \<and> ch_flags r = ch_flags ch"
    "ch_id r = ch_id ch" "ch_banned r = ch_banned ch" "events_of r = events_of ch"
proof -
  define c where "c = (if ch_players ch \<noteq> [] then update_usage_db ch else ch)"
  define e where "e = (1 < length (ch_players c))"
  have s: "silent ch c" by (simp add: c_def)
  have g: "g \<noteq> 0" using chan_ok_member [OF ok(1,2)] by (simp add: member_ok_def)
  have okc: "chan_ok c" "is_on g c" "is_constant c \<longrightarrow> \<not> ch_ownership c"
    using ok silentD [OF s] by simp_all
  have r: "r = (if is_constant ch then ch else if ch_owner ch = 0 \<and> ch_ownership ch
     then upd_info g (pi_set MEMBER_FLAG_MODERATOR True) (set_owner env g e c) else c)"
    using silentD(3,4) [OF s] by (simp add: r_def join_custom_def Let_def c_def [symmetric] e_def)
  note i = set_owner_inv [OF okc, of env e] set_owner_effect [OF g, where env = env and e = e and ch = c]
  show "chan_ok r"
    using ok okc i by (auto simp: r intro!: chan_ok_upd)
  show "chan_owned r"
    using ok owned i silentD(14) [OF s] by (auto simp: r intro!: chan_owned_upd)
  show "is_on x r \<longleftrightarrow> is_on x ch" "ch_name r = ch_name ch \<and> ch_flags r = ch_flags ch" "ch_id r = ch_id ch" "ch_banned r = ch_banned ch"
    "events_of r = events_of ch"
    using ok i silentD [OF s] by (auto simp: r)
qed

lemma join_admit_steps:
  fixes env pl ch
  defines "g \<equiv> pl_guid pl"
  obtains c5 where "silent (add_member g (log_many [PlayerJoinedChannel g] ch)) c5"
    and "join_admit env pl ch = join_custom env g c5"
proof -
  define c1 where "c1 = log_many [PlayerJoinedChannel g] ch"
  define c2 where "c2 = (if ch_announce c1 \<and> \<not> pl_perms pl PERM_SILENT
                         then send_to_all env (make_joined g c1) 0 c1 else c1)"
  define c5 where "c5 = join_notify env g (send_to_one env (make_you_joined (add_member g c2)) g (add_member g c2))"
  have "silent c1 c2" by (simp add: c2_def)
  then obtain os where "c2 = log_many os c1" "filter is_event os = []" by (auto simp: silent_def)
  then have "silent (add_member g c1) (add_member g c2)" by (auto simp: silent_def)
  then have s: "silent (add_member g c1) c5" by (simp add: c5_def)
  moreover have "join_admit env pl ch = join_custom env g c5"
    by (simp add: join_admit_def Let_def g_def [symmetric] add_member_def [symmetric] out_log
        c1_def c2_def c5_def)
  ultimately show ?thesis using that by (simp add: c1_def)
qed

lemma join_admit_inv:
  fixes env pl ch
  defines "g \<equiv> pl_guid pl" and "r \<equiv> join_admit env pl ch"
  assumes ok: "chan_ok ch" "chan_owned ch" "g \<noteq> 0" "\<not> is_on g ch" "\<not> is_banned g ch"
  shows "chan_ok r" "chan_owned r" "is_on x r \<longleftrightarrow> x = g \<or> is_on x ch" "ch_name r = ch_name ch \<and> ch_flags r = ch_flags ch"
    "ch_id r = ch_id ch" "ch_banned r = ch_banned ch"
    "events_of r = events_of ch @ [PlayerJoinedChannel g]"
proof -
  define c1 where "c1 = log_many [PlayerJoinedChannel g] ch"
  obtain c5 where s: "silent (add_member g c1) c5" and r: "r = join_custom env g c5"
    unfolding c1_def r_def g_def by (rule join_admit_steps)
  note d = silentD [OF s]
  have okc: "chan_ok c5" using add_member_ok [OF ok(1,4,5,3)] d by (simp add: c1_def)
  have onc: "is_on g c5" using d by (simp add: c1_def)
  have con: "is_constant c5 \<longrightarrow> \<not> ch_ownership c5" using ok(2) d by (simp add: chan_owned_def c1_def)
  have own: "chan_owned c5" if "ch_owner c5 \<noteq> 0 \<or> \<not> ch_ownership c5"
    using that add_member_owned [OF ok(2,4)] d by (simp add: c1_def) blast
  note i = join_custom_inv [OF okc onc con own, where env = env]
  show "chan_ok r" "chan_owned r" using i(1,2) by (simp_all add: r)
  show "is_on x r \<longleftrightarrow> x = g \<or> is_on x ch" "ch_name r = ch_name ch \<and> ch_flags r = ch_flags ch" "ch_id r = ch_id ch"
    "ch_banned r = ch_banned ch" "events_of r = events_of ch @ [PlayerJoinedChannel g]"
    using i(3-7) d by (simp_all add: r c1_def)
qed

text \<open>Leaving. The owner flag of the leaver decides whether a new owner is chosen.\<close>

lemma leave_custom_inv:
  fixes env b ch
  defines "r \<equiv> leave_custom env b ch"
  assumes ok: "chan_ok ch" "is_constant ch \<longrightarrow> \<not> ch_ownership ch"
    and owned: "\<not> b \<or> \<not> ch_ownership ch \<Longrightarrow> chan_owned ch"
  shows "chan_ok r" "chan_owned r \<or> (ch_players r = [] \<and> \<not> is_constant r)" "is_on x r \<longleftrightarrow> is_on x ch" "ch_name r = ch_name ch \<and> ch_flags r = ch_flags ch"
    "ch_id r = ch_id ch" "ch_banned r = ch_banned ch" "events_of r = events_of ch"
proof -
  have "chan_ok r \<and> (chan_owned r \<or> ch_players r = [] \<and> \<not> is_constant r) \<and> (is_on x r \<longleftrightarrow> is_on x ch) \<and> ch_name r = ch_name ch \<and> ch_flags r = ch_flags ch
    \<and> ch_id r = ch_id ch \<and> ch_banned r = ch_banned ch \<and> events_of r = events_of ch"
  proof (cases "is_constant ch")
    case True
    then show ?thesis using ok owned by (simp add: r_def leave_custom_def)
  next
    case False
    define c where "c = update_usage_db ch"
    have s: "silent ch c" by (simp add: c_def)
    note d = silentD [OF s]
    have r: "r = (case ch_players c of [] \<Rightarrow> c | (k, p) # rest \<Rightarrow>
               if b \<and> ch_ownership c
               then set_owner env (pi_player p) True (upd_info (pi_player p) (pi_set MEMBER_FLAG_MODERATOR True) c)
               else c)"
      using False by (simp add: r_def leave_custom_def Let_def c_def [symmetric])
    show ?thesis
    proof (cases "ch_players c")
      case Nil
      then show ?thesis using ok d False by (simp add: r)
    next
      case (Cons kp rest)
      obtain k p where kp: "kp = (k, p)" by (cases kp)
      have okc: "chan_ok c" using ok d by simp
      have k: "is_on k c" "pi_player p = k" using first_member [OF okc, of k p rest] Cons kp by simp_all
      have k0: "k \<noteq> 0" using chan_ok_member [OF okc k(1)] by (simp add: member_ok_def)
      define u where "u = upd_info k (pi_set MEMBER_FLAG_MODERATOR True) c"
      have u: "chan_ok u" "is_on k u" "is_constant u \<longrightarrow> \<not> ch_ownership u"
        using chan_ok_upd [OF okc k(1)] False d by (simp_all add: u_def is_constant_def)
      note e = set_owner_inv [OF u, of env True] set_owner_effect [OF k0, where env = env and e = True and ch = u]
      show ?thesis
      proof (cases "b \<and> ch_ownership ch")
        case True
        then have "r = set_owner env k True u" using d(4) k(2) by (simp add: r Cons kp u_def)
        then show ?thesis using e d(2,6,7,9,15,17) k(1) by (auto simp: u_def)
      next
        case False
        then have "r = c" using d(4) by (auto simp: r Cons kp)
        then show ?thesis using okc owned False d(2,6,7,9,14,15,17) by auto
      qed
    qed
  qed
  then show "chan_ok r" "chan_owned r \<or> (ch_players r = [] \<and> \<not> is_constant r)" "is_on x r \<longleftrightarrow> is_on x ch" "ch_name r = ch_name ch \<and> ch_flags r = ch_flags ch"
    "ch_id r = ch_id ch" "ch_banned r = ch_banned ch" "events_of r = events_of ch"
    by auto
qed

lemma leave_refused: "\<not> is_on (pl_guid pl) ch \<Longrightarrow> silent ch (leave_channel env pl send ch)"
  by (simp add: leave_channel_def)

lemma leave_member_steps:
  fixes env pl send ch
  defines "g \<equiv> pl_guid pl"
  assumes on: "is_on g ch"
  obtains os c4 where "filter is_event os = (if send then [PlayerLeftChannel g] else [])"
    and "silent (drop_member g (log_many os ch)) c4"
    and "leave_channel env pl send ch = leave_custom env (pi_is MEMBER_FLAG_OWNER (info_at g ch)) c4"
proof -
  define c1 where "c1 = (if send then out (PlayerLeftChannel g) (send_to_one env (make_you_left ch) g ch) else ch)"
  obtain os where c1: "c1 = log_many os ch"
    and os: "filter is_event os = (if send then [PlayerLeftChannel g] else [])"
  proof (cases send)
    case True
    then show ?thesis
      using silent_sends(3) [of ch env "make_you_left ch" g] that unfolding silent_def c1_def
      by (auto simp: out_log)
  next
    case False
    then show ?thesis using that [of "[]"] by (simp add: c1_def)
  qed
  define c2 where "c2 = drop_member g c1"
  define c3 where "c3 = (if ch_announce c2 \<and> \<not> pl_perms pl PERM_SILENT
                         then send_to_all env (make_left g c2) 0 c2 else c2)"
  define c4 where "c4 = leave_notify env g c3"
  have s: "silent c2 c4" by (simp add: c3_def c4_def)
  have "leave_channel env pl send ch = leave_custom env (pi_is MEMBER_FLAG_OWNER (info_at g ch)) c4"
    using on by (simp add: leave_channel_def Let_def g_def [symmetric] c1_def [symmetric] c1
        c4_def c3_def c2_def drop_member_def)
  with os s show ?thesis using that by (simp add: c2_def c1)
qed

lemma leave_member_inv:
  fixes env pl send ch
  defines "g \<equiv> pl_guid pl" and "r \<equiv> leave_channel env pl send ch"
  assumes ok: "chan_ok ch" "chan_owned ch" "is_on g ch"
  shows "chan_ok r" "chan_owned r \<or> (ch_players r = [] \<and> \<not> is_constant r)" "is_on x r \<longleftrightarrow> x \<noteq> g \<and> is_on x ch"
    "ch_name r = ch_name ch \<and> ch_flags r = ch_flags ch" "ch_id r = ch_id ch" "ch_banned r = ch_banned ch"
    "events_of r = events_of ch @ (if send then [PlayerLeftChannel g] else [])"
proof -
  define b where "b = pi_is MEMBER_FLAG_OWNER (info_at g ch)"
  obtain os c4 where os: "filter is_event os = (if send then [PlayerLeftChannel g] else [])"
    and s: "silent (drop_member g (log_many os ch)) c4" and r: "r = leave_custom env b c4"
    using leave_member_steps [of pl ch send env] ok(3) unfolding r_def g_def b_def by metis
  note d = silentD [OF s]
  have okc: "chan_ok c4" using drop_member_ok [OF ok(1), of g] d by simp
  have con: "is_constant c4 \<longrightarrow> \<not> ch_ownership c4" using ok(2) d by (simp add: chan_owned_def)
  have own: "chan_owned c4" if *: "\<not> b \<or> \<not> ch_ownership c4"
  proof (cases "ch_ownership ch")
    case True
    have "ch_players ch \<noteq> []" using ok(3) by (auto simp: is_on_def)
    then have "is_on (ch_owner ch) ch" "pi_is MEMBER_FLAG_OWNER (info_at (ch_owner ch) ch)"
      using ok(2) True by (simp_all add: chan_owned_def)
    moreover have "\<not> b" using * True d by simp
    ultimately show ?thesis using drop_member_owned [OF ok(2), of g] d by (auto simp: b_def)
  next
    case False
    then show ?thesis using d by (simp add: chan_owned_def)
  qed
  note i = leave_custom_inv [OF okc con own, where env = env]
  show "chan_ok r" "chan_owned r \<or> (ch_players r = [] \<and> \<not> is_constant r)" using i(1,2) by (simp_all add: r)
  show "is_on x r \<longleftrightarrow> x \<noteq> g \<and> is_on x ch" "ch_name r = ch_name ch \<and> ch_flags r = ch_flags ch" "ch_id r = ch_id ch"
    "ch_banned r = ch_banned ch" "events_of r = events_of ch @ (if send then [PlayerLeftChannel g] else [])"
    using i(3-7) d os by (simp_all add: r)
qed

section \<open>The other commands\<close>

definition keeps :: "channel \<Rightarrow> channel \<Rightarrow> bool" where
  "keeps ch r \<longleftrightarrow> (chan_ok ch \<longrightarrow> chan_ok r) \<and> (chan_ok ch \<and> chan_owned ch \<longrightarrow> chan_owned r)
     \<and> (\<forall>x. is_on x r \<longleftrightarrow> is_on x ch) \<and> ch_name r = ch_name ch \<and> ch_flags r = ch_flags ch \<and> ch_id r = ch_id ch
     \<and> events_of r = events_of ch"

lemma silent_keeps: "silent ch r \<Longrightarrow> keeps ch r"
  using silentD [of ch r] by (simp add: keeps_def)

lemma keeps_refl [simp, intro]: "keeps ch ch"
  by (simp add: keeps_def)

lemma keeps_trans: "keeps a b \<Longrightarrow> keeps b c \<Longrightarrow> keeps a c"
  by (simp add: keeps_def)

lemma keeps_silent: "keeps a b \<Longrightarrow> silent b c \<Longrightarrow> keeps a c"
  by (blast intro: keeps_trans silent_keeps)

lemma keeps_steps [simp, intro]:
  "keeps a b \<Longrightarrow> keeps a (send_to_all env pkt s b)"
  "keeps a b \<Longrightarrow> keeps a (send_to_one env pkt who b)"
  "keeps a b \<Longrightarrow> keeps a (update_channel_db b)"
  by (blast intro: keeps_silent)+

lemma keeps_if: "(b \<Longrightarrow> keeps c x) \<Longrightarrow> (\<not> b \<Longrightarrow> keeps c y) \<Longrightarrow> keeps c (if b then x else y)"
  by simp

lemma other_fields_queries [simp]:
  "is_on x (ch\<lparr>ch_password := w\<rparr>) = is_on x ch" "is_on x (ch\<lparr>ch_announce := a\<rparr>) = is_on x ch"
  "is_on x (ch\<lparr>ch_banned := bs\<rparr>) = is_on x ch"
  "info_at x (ch\<lparr>ch_password := w\<rparr>) = info_at x ch" "info_at x (ch\<lparr>ch_announce := a\<rparr>) = info_at x ch"
  "info_at x (ch\<lparr>ch_banned := bs\<rparr>) = info_at x ch"
  "events_of (ch\<lparr>ch_password := w\<rparr>) = events_of ch" "events_of (ch\<lparr>ch_announce := a\<rparr>) = events_of ch"
  "events_of (ch\<lparr>ch_banned := bs\<rparr>) = events_of ch"
  "chan_owned (ch\<lparr>ch_password := w\<rparr>) = chan_owned ch" "chan_owned (ch\<lparr>ch_announce := a\<rparr>) = chan_owned ch"
  "chan_owned (ch\<lparr>ch_banned := bs\<rparr>) = chan_owned ch"
  "chan_ok (ch\<lparr>ch_password := w\<rparr>) = chan_ok ch" "chan_ok (ch\<lparr>ch_announce := a\<rparr>) = chan_ok ch"
  by (simp_all add: is_on_def info_at_def events_of_def chan_owned_def chan_ok_def member_ok_def is_constant_def)

lemma keeps_fields [simp]:
  "keeps ch (ch\<lparr>ch_password := w\<rparr>)" "keeps ch (ch\<lparr>ch_announce := a\<rparr>)"
  "keeps ch (ch\<lparr>ch_banned := os_del g (ch_banned ch)\<rparr>)"
  by (auto simp: keeps_def chan_ok_def member_ok_def)

lemma keeps_upd:
  "is_on g ch \<Longrightarrow> MEMBER_FLAG_OWNER AND f = 0 \<Longrightarrow> keeps ch (upd_info g (pi_set f b) ch)"
  by (auto simp: keeps_def chan_ok_upd chan_owned_upd)

lemma set_info_same: "is_on g ch \<Longrightarrow> chan_ok ch \<Longrightarrow> set_info g (info_at g ch) ch = ch"
  by (simp add: set_info_def chan_ok_def is_on_conv om.upd_same)

lemma keeps_member_mode:
  assumes "is_on g ch" "chan_ok ch" "MEMBER_FLAG_OWNER AND f = 0"
  shows "keeps ch (set_member_mode env f g b ch)"
  using assms keeps_upd [OF assms(1,3)]
  by (auto simp: set_member_mode_def set_info_same Let_def)

lemma keeps_set_owner:
  assumes "is_on g ch" "chan_ok ch" "chan_owned ch"
  shows "keeps ch (set_owner env g ex (upd_info g (pi_set MEMBER_FLAG_MODERATOR True) ch))"
proof -
  define u where "u = upd_info g (pi_set MEMBER_FLAG_MODERATOR True) ch"
  have k: "keeps ch u" using keeps_upd [OF assms(1)] by (simp add: u_def)
  then have u: "chan_ok u" "is_on g u" "is_constant u \<longrightarrow> \<not> ch_ownership u"
    using assms by (auto simp: keeps_def chan_owned_def u_def is_constant_def)
  have "g \<noteq> 0" using chan_ok_member [OF assms(2,1)] by (simp add: member_ok_def)
  note e = set_owner_inv [OF u, of env ex] set_owner_effect [OF this, where env = env and e = ex and ch = u]
  have "keeps u (set_owner env g ex u)" using e u(2) by (auto simp: keeps_def)
  then show ?thesis using k keeps_trans u_def by blast
qed

lemma command_keeps:
  assumes "chan_ok ch" "chan_owned ch"
  shows "keeps ch (unban env pl nm ch)" "keeps ch (set_password env pl w ch)" "keeps ch (announce env pl ch)"
    "keeps ch (set_mode env pl nm md on ch)" "keeps ch (set_owner_by_name env pl nm ch)"
  unfolding unban_def set_password_def announce_def set_mode_def set_owner_by_name_def Let_def
  by (auto intro!: keeps_member_mode keeps_set_owner assms split: option.split)

lemma query_silent:
  "silent ch (send_who_owner env g ch)" "silent ch (list_channel env pl ch)" "silent ch (say env g what lang ch)"
  "silent ch (invite env pl nm ch)"
  unfolding send_who_owner_def list_channel_def say_def invite_def Let_def
  by (auto split: option.split)

section \<open>Kicking and banning\<close>

definition kick_refused :: "chan_env \<Rightarrow> player \<Rightarrow> string \<Rightarrow> channel \<Rightarrow> bool" where
  "kick_refused env pl nm ch \<longleftrightarrow>
     \<not> is_on (pl_guid pl) ch \<or> \<not> may_moderate pl ch
     \<or> victim_guid (ce_by_name env nm) = 0 \<or> \<not> is_on (victim_guid (ce_by_name env nm)) ch
     \<or> (\<not> pl_perms pl PERM_NOT_MODERATOR \<and> ch_owner ch = victim_guid (ce_by_name env nm)
        \<and> pl_guid pl \<noteq> ch_owner ch)"

lemma kick_refused_silent: "kick_refused env pl nm ch \<Longrightarrow> silent ch (kick_or_ban env pl nm ban ch)"
  unfolding kick_refused_def kick_or_ban_def Let_def by (intro silent_if) auto

lemma kick_accepted:
  "\<not> kick_refused env pl nm ch \<Longrightarrow>
   kick_or_ban env pl nm ban ch = remove_member env pl (victim_guid (ce_by_name env nm)) ban ch"
  unfolding kick_refused_def kick_or_ban_def Let_def by auto

text \<open>The victim is taken out, his ban entered before; then a kicked owner is succeeded.\<close>

definition take_out :: "guid \<Rightarrow> bool \<Rightarrow> channel \<Rightarrow> channel" where
  "take_out v ban ch =
     drop_member v (ch\<lparr>ch_banned := (if ban \<and> \<not> is_banned v ch then os_ins v (ch_banned ch) else ch_banned ch)\<rparr>)"

lemma take_out_fields [simp]:
  "is_on x (take_out v ban ch) \<longleftrightarrow> x \<noteq> v \<and> is_on x ch"
  "set (ch_banned (take_out v ban ch)) = (if ban then insert v (set (ch_banned ch)) else set (ch_banned ch))"
  "ch_name (take_out v ban ch) = ch_name ch" "ch_flags (take_out v ban ch) = ch_flags ch" "ch_id (take_out v ban ch) = ch_id ch"
  "ch_owner (take_out v ban ch) = ch_owner ch" "ch_ownership (take_out v ban ch) = ch_ownership ch"
  "events_of (take_out v ban ch) = events_of ch" "is_constant (take_out v ban ch) = is_constant ch"
  by (auto simp: take_out_def is_banned_def is_constant_def)

lemma take_out_ok: "chan_ok ch \<Longrightarrow> v \<noteq> 0 \<Longrightarrow> chan_ok (take_out v ban ch)"
  by (auto simp: chan_ok_def take_out_def drop_member_def member_ok_def)

lemma take_out_owned:
  "chan_owned ch \<Longrightarrow> is_on (ch_owner ch) ch \<Longrightarrow> ch_owner ch \<noteq> v \<Longrightarrow> chan_owned (take_out v ban ch)"
  unfolding take_out_def by (rule drop_member_owned) simp_all

lemma remove_member_steps:
  obtains os where "filter is_event os = [PlayerLeftChannel v]"
    and "remove_member env pl v ban ch =
      (if ch_owner ch = v \<and> ch_ownership ch \<and> ch_players (take_out v ban ch) \<noteq> []
       then set_owner env (pl_guid pl) True
              (upd_info (pl_guid pl) (pi_set MEMBER_FLAG_MODERATOR True) (log_many os (take_out v ban ch)))
       else log_many os (take_out v ban ch))"
proof -
  define b where "b = ch\<lparr>ch_banned := (if ban \<and> \<not> is_banned v ch then os_ins v (ch_banned ch) else ch_banned ch)\<rparr>"
  define d where "d = update_channel_db (ch\<lparr>ch_banned := os_ins v (ch_banned ch)\<rparr>)"
  define c where "c = (if ban \<and> \<not> is_banned v ch
     then (if \<not> pl_perms pl PERM_SILENT then send_to_all env (make_player_banned v (pl_guid pl) d) 0 d else d)
     else if \<not> pl_perms pl PERM_SILENT then send_to_all env (make_player_kicked v (pl_guid pl) ch) 0 ch else ch)"
  have "silent b c" by (simp add: b_def c_def d_def)
  then obtain os where os: "c = log_many os b" "filter is_event os = []" by (auto simp: silent_def)
  have t: "out (PlayerLeftChannel v) (c\<lparr>ch_players := om_del v (ch_players c)\<rparr>)
      = log_many (os @ [PlayerLeftChannel v]) (take_out v ban ch)"
    by (simp add: os(1) take_out_def b_def [symmetric] out_log drop_member_def log_many_def)
  have "remove_member env pl v ban ch =
      (if ch_owner ch = v \<and> ch_ownership ch \<and> ch_players (take_out v ban ch) \<noteq> []
       then set_owner env (pl_guid pl) True (upd_info (pl_guid pl) (pi_set MEMBER_FLAG_MODERATOR True)
              (log_many (os @ [PlayerLeftChannel v]) (take_out v ban ch)))
       else log_many (os @ [PlayerLeftChannel v]) (take_out v ban ch))"
    unfolding remove_member_def Let_def d_def [symmetric] c_def [symmetric] t by simp
  with os(2) show ?thesis by (intro that) simp_all
qed

lemma remove_member_inv:
  fixes env pl v ban ch
  defines "g \<equiv> pl_guid pl" and "r \<equiv> remove_member env pl v ban ch"
  assumes ok: "chan_ok ch" "chan_owned ch" "is_on g ch" "is_on v ch" "v \<noteq> g"
  shows "chan_ok r" "chan_owned r" "is_on x r \<longleftrightarrow> x \<noteq> v \<and> is_on x ch" "ch_name r = ch_name ch \<and> ch_flags r = ch_flags ch"
    "ch_id r = ch_id ch" "set (ch_banned r) = (if ban then insert v (set (ch_banned ch)) else set (ch_banned ch))"
    "events_of r = events_of ch @ [PlayerLeftChannel v]"
proof -
  obtain os where os: "filter is_event os = [PlayerLeftChannel v]"
    and r: "r = (if ch_owner ch = v \<and> ch_ownership ch \<and> ch_players (take_out v ban ch) \<noteq> []
       then set_owner env g True (upd_info g (pi_set MEMBER_FLAG_MODERATOR True) (log_many os (take_out v ban ch)))
       else log_many os (take_out v ban ch))"
    unfolding r_def g_def by (rule remove_member_steps)
  define t where "t = log_many os (take_out v ban ch)"
  have "v \<noteq> 0" using chan_ok_member [OF ok(1,4)] by (simp add: member_ok_def)
  then have t: "chan_ok t" "is_on g t" "is_constant t \<longrightarrow> \<not> ch_ownership t"
    using take_out_ok [OF ok(1)] ok by (simp_all add: t_def chan_owned_def)
  have ne: "ch_players (take_out v ban ch) \<noteq> []" using t(2) by (auto simp: t_def is_on_def)
  define u where "u = upd_info g (pi_set MEMBER_FLAG_MODERATOR True) t"
  have u: "chan_ok u" "is_on g u" "is_constant u \<longrightarrow> \<not> ch_ownership u"
    using chan_ok_upd [OF t(1,2)] t(3) by (simp_all add: u_def is_constant_def)
  have "g \<noteq> 0" using chan_ok_member [OF t(1,2)] by (simp add: member_ok_def)
  note e = set_owner_inv [OF u, of env True] set_owner_effect [OF this, where env = env and e = True and ch = u]
  have "chan_ok r \<and> chan_owned r \<and> (is_on x r \<longleftrightarrow> x \<noteq> v \<and> is_on x ch) \<and> ch_name r = ch_name ch \<and> ch_flags r = ch_flags ch
    \<and> ch_id r = ch_id ch \<and> set (ch_banned r) = (if ban then insert v (set (ch_banned ch)) else set (ch_banned ch))
    \<and> events_of r = events_of ch @ [PlayerLeftChannel v]"
  proof (cases "ch_owner ch = v \<and> ch_ownership ch")
    case True
    then have "r = set_owner env g True u" using ne by (simp add: r u_def t_def)
    then show ?thesis using e ok(3,5) os by (auto simp: u_def t_def)
  next
    case False
    then have rt: "r = t" using ne by (auto simp: r t_def)
    have "chan_owned t"
    proof (cases "ch_ownership ch")
      case True
      have "ch_players ch \<noteq> []" using ok(3) by (auto simp: is_on_def)
      then have "is_on (ch_owner ch) ch" using ok(2) True by (simp add: chan_owned_def)
      then show ?thesis using take_out_owned [OF ok(2), of v ban] True False by (simp add: t_def)
    qed (simp add: chan_owned_def t_def)
    then show ?thesis using t(1) os by (simp add: rt t_def)
  qed
  then show "chan_ok r" "chan_owned r" "is_on x r \<longleftrightarrow> x \<noteq> v \<and> is_on x ch" "ch_name r = ch_name ch \<and> ch_flags r = ch_flags ch"
    "ch_id r = ch_id ch" "set (ch_banned r) = (if ban then insert v (set (ch_banned ch)) else set (ch_banned ch))"
    "events_of r = events_of ch @ [PlayerLeftChannel v]"
    by auto
qed

section \<open>The ban list as text\<close>

lemma tokenize_word:
  "\<forall>c \<in> set w. c \<noteq> sep \<and> c \<noteq> CHR 0x00 \<Longrightarrow> tokenize sep cur (w @ sep # rest) = (cur @ w) # tokenize sep [] rest"
  by (induction w arbitrary: cur) auto

lemma digit_plain: "is_digit c \<Longrightarrow> c \<notin> {CHR '' '', CHR 0x00, CHR 0x09, CHR 0x0A, CHR 0x0B, CHR 0x0C, CHR 0x0D, CHR ''-'', CHR ''+''}"
  by (auto simp: is_digit_def)

lemma tokenize_ban_list:
  "tokenize CHR '' '' [] (ban_list_string bans) = map (\<lambda>g. show_nat (unat g)) bans"
proof (induction bans)
  case (Cons g bans)
  have "\<forall>c \<in> set (show_nat (unat g)). c \<noteq> CHR '' '' \<and> c \<noteq> CHR 0x00"
    using show_nat_digits digit_plain by blast
  from tokenize_word [OF this, of "[]" "ban_list_string bans"] show ?case
    using Cons by (simp add: ban_list_string_def)
qed (simp add: ban_list_string_def)

lemma strtoull_show: "strtoull (show_nat (unat g)) = g"
proof -
  obtain c r where cr: "show_nat (unat g) = c # r" by (cases "show_nat (unat g)") auto
  have d: "\<forall>x \<in> set (c # r). is_digit x" using show_nat_digits [of "unat g"] by (simp add: cr)
  then have c: "c \<notin> {CHR '' '', CHR 0x00, CHR 0x09, CHR 0x0A, CHR 0x0B, CHR 0x0C, CHR 0x0D, CHR ''-'', CHR ''+''}"
    using digit_plain [of c] by simp
  have t: "takeWhile is_digit (c # r) = c # r" using d by (simp add: takeWhile_eq_all_conv)
  have v: "read_digits (c # r) = unat g" using read_show_nat [of "unat g"] by (simp add: cr)
  have "unat g < 2 ^ 64" using unsigned_less [of g] by simp
  then show ?thesis using c t v by (simp add: strtoull_def cr Let_def)
qed

lemma parse_bans_string:
  assumes "os_inv bans" "0 \<notin> set bans"
  shows "parse_bans (ban_list_string bans) [] = bans"
proof -
  have *: "fold (\<lambda>t b. if strtoull t \<noteq> 0 then os_ins (strtoull t) b else b) (map (\<lambda>g. show_nat (unat g)) bs) acc
      = fold os_ins bs acc" if "0 \<notin> set bs" for bs acc
    using that by (induction bs arbitrary: acc) (auto simp: strtoull_show)
  show ?thesis
    using assms by (simp add: parse_bans_def tokenize_ban_list * os_ext)
qed

text \<open>
  C38: What \<open>UpdateChannelInDB\<close> writes is what the constructor reads: a saved channel whose row is
  queried when the channel is created anew gets its announce flag, its ownership flag and exactly
  its bans back, whatever GUIDs were banned.
\<close>
theorem saved_channel_reloads:
  assumes "chan_ok ch" "ch_saved ch" "ce_dbc_flags env (ch_id ch) = None" "ce_preserve env"
    and row: "last (ch_out (update_channel_db ch)) = DbUpdateChannel ann own bans name team"
    and read: "ce_query env (ch_name ch) (ch_team ch) = Some (ann, own, Some bans)"
  shows "let r = new_channel env (ch_name ch) (ch_id ch) (ch_team ch)
     in ch_announce r = ch_announce ch \<and> ch_ownership r = ch_ownership ch \<and> ch_banned r = ch_banned ch
        \<and> ch_saved r \<and> (\<forall>g. is_banned g r \<longleftrightarrow> is_banned g ch) \<and> name = ch_name ch \<and> team = ch_team ch"
proof -
  have "ann = ch_announce ch" "own = ch_ownership ch" "bans = ban_list_string (ch_banned ch)"
    "name = ch_name ch" "team = ch_team ch"
    using row assms(2) by (simp_all add: update_channel_db_log)
  then show ?thesis
    using assms parse_bans_string [of "ch_banned ch"]
    by (simp add: new_channel_def Let_def chan_ok_def is_banned_def)
qed

section \<open>Properties\<close>

text \<open>
  C29: Joining, completely. A refused player (already in, banned, wrong password, the group finder
  channel while in a group) changes nothing but the log. An accepted one becomes a member and
  nobody else's entry changes; in a custom channel without an owner that hands out ownership he
  becomes owner and moderator, elsewhere he has no flags and the owner stays.
\<close>
theorem join_outcome:
  assumes "chan_ok ch" "pl_guid pl \<noteq> 0"
  shows "let g = pl_guid pl; r = join_channel env pl pass ch in
     if join_refused env pl pass ch then same_content r ch
     else (if \<not> is_constant ch \<and> ch_owner ch = 0 \<and> ch_ownership ch
           then ch_owner r = g \<and> map_of (ch_players r) = (map_of (ch_players ch))
                  (g \<mapsto> \<lparr>pi_player = g, pi_flags = MEMBER_FLAG_MODERATOR OR MEMBER_FLAG_OWNER\<rparr>)
           else ch_owner r = ch_owner ch \<and> map_of (ch_players r) = (map_of (ch_players ch))
                  (g \<mapsto> \<lparr>pi_player = g, pi_flags = 0\<rparr>))
          \<and> ch_banned r = ch_banned ch \<and> ch_password r = ch_password ch"
proof (cases "join_refused env pl pass ch")
  case True
  then show ?thesis using silentD(16) [OF join_refused_silent [OF True]] by (simp add: Let_def)
next
  case False
  define g where "g = pl_guid pl"
  obtain c where s: "silent (add_member g (log_many [PlayerJoinedChannel g] ch)) c"
    and r: "join_channel env pl pass ch = join_custom env g c"
    using join_accepted [OF False] join_admit_steps [of pl ch env] unfolding g_def by metis
  note d = silentD [OF s]
  define c' where "c' = (if ch_players c \<noteq> [] then update_usage_db c else c)"
  have s': "silent c c'" by (simp add: c'_def)
  note d' = silentD [OF s']
  have pl: "map_of (ch_players c') = (map_of (ch_players ch))(g \<mapsto> \<lparr>pi_player = g, pi_flags = 0\<rparr>)"
    using d(1) d'(1) by (simp add: add_member_def set_info_def)
  have g0: "g \<noteq> 0" using assms(2) by (simp add: g_def)
  show ?thesis
  proof (cases "\<not> is_constant ch \<and> ch_owner ch = 0 \<and> ch_ownership ch")
    case True
    define e where "e = (1 < length (ch_players c'))"
    have rr: "join_channel env pl pass ch
        = upd_info g (pi_set MEMBER_FLAG_MODERATOR True) (set_owner env g e c')"
      unfolding r join_custom_def Let_def c'_def [symmetric] e_def using True d(3,4,11) d'(3,4) by simp
    note o = silentD [OF set_owner_crown [OF g0, of c' env e]]
    have fl: "pi_set MEMBER_FLAG_MODERATOR True (pi_set MEMBER_FLAG_OWNER True
        (pi_set MEMBER_FLAG_MODERATOR True \<lparr>pi_player = g, pi_flags = 0\<rparr>))
        = \<lparr>pi_player = g, pi_flags = MEMBER_FLAG_MODERATOR OR MEMBER_FLAG_OWNER\<rparr>"
      by (simp add: pi_set_def member_flag_defs)
    have "map_of (ch_players (crown g c')) = (map_of (ch_players ch))
        (g \<mapsto> pi_set MEMBER_FLAG_OWNER True (pi_set MEMBER_FLAG_MODERATOR True \<lparr>pi_player = g, pi_flags = 0\<rparr>))"
      using True d(3,10) d'(3,10) pl by (simp add: crown_def)
    moreover have "info_at g (crown g c')
        = pi_set MEMBER_FLAG_OWNER True (pi_set MEMBER_FLAG_MODERATOR True \<lparr>pi_player = g, pi_flags = 0\<rparr>)"
      using True d(3,10) d'(3,10) by (simp add: crown_def)
    ultimately show ?thesis
      using False True o(1,2,3,8,10) d(2,8) d'(2,8) fl
      by (simp add: Let_def rr g_def [symmetric]) (simp add: add_member_def set_info_def)
  next
    case oth: False
    then have "join_channel env pl pass ch = (if is_constant c then c else c')"
      unfolding r join_custom_def Let_def c'_def [symmetric] using d(3,4,11) d'(3,4) by auto
    then show ?thesis
      using False oth pl d d' by (auto simp: Let_def g_def [symmetric] add_member_def set_info_def)
  qed
qed

text \<open>A small town for the examples: players 1, 2 and 3, all connected and of one side.\<close>

definition ex_player :: "guid \<Rightarrow> player" where
  "ex_player g = \<lparr>pl_guid = g, pl_name = (if g = 1 then ''P1'' else ''P2''), pl_team = 469, pl_perms = (\<lambda>_. False),
     pl_security = 0, pl_in_group = False, pl_ignores = (\<lambda>x. g = 3 \<and> x = 2), pl_gm_visible = True,
     pl_visible_for = (\<lambda>_. True)\<rparr>"

definition ex_env :: chan_env where
  "ex_env = \<lparr>ce_connected = (\<lambda>g. if g \<in> {1, 2, 3} then Some (ex_player g) else None),
     ce_by_name = (\<lambda>n. if n = ''P1'' then Some (ex_player 1) else if n = ''P2'' then Some (ex_player 2)
                       else if n = ''P3'' then Some (ex_player 3) else None),
     ce_name_by_guid = (\<lambda>g. Some ''P1''), ce_dbc_flags = (\<lambda>_. None), ce_preserve = True,
     ce_preserve_days = 14, ce_restricted_lfg = False, ce_two_side = False, ce_gm_level_who = 3,
     ce_query = (\<lambda>n t. Some (True, True, Some ''7 9 ''))\<rparr>"

definition ex_channel :: channel where
  "ex_channel = \<lparr>ch_announce = True, ch_ownership = True, ch_saved = True, ch_flags = 1, ch_id = 0,
     ch_team = 469, ch_owner = 1, ch_name = ''town'', ch_password = [],
     ch_players = [(1, \<lparr>pi_player = 1, pi_flags = 3\<rparr>), (2, \<lparr>pi_player = 2, pi_flags = 0\<rparr>),
       (3, \<lparr>pi_player = 3, pi_flags = 0\<rparr>)],
     ch_banned = [7, 9], ch_out = []\<rparr>"

lemma chan_ok_list:
  "chan_ok ch \<longleftrightarrow> om_inv (ch_players ch) \<and> os_inv (ch_banned ch) \<and> 0 \<notin> set (ch_banned ch)
     \<and> list_all (\<lambda>(g, p). member_ok ch g p) (ch_players ch)"
  using om_inv_distinct [of "ch_players ch"]
  by (fastforce simp: chan_ok_def list_all_iff dest: map_of_SomeD intro: map_of_is_SomeI)

lemma ex_channel_ok: "chan_ok ex_channel" "chan_owned ex_channel"
  by (simp_all add: chan_ok_list om_inv_def os_inv_def member_ok_def pi_is_def ex_channel_def
      chan_owned_def is_constant_def is_on_def om_has_def info_at_def member_flag_defs)

theorem saved_channel_reloads_witness: "ch_banned (new_channel ex_env ''town'' 0 469) = [7, 9]"
proof -
  have "ban_list_string [7, 9] = ''7 9 ''" by code_simp
  then have l: "last (ch_out (update_channel_db ex_channel)) = DbUpdateChannel True True ''7 9 '' ''town'' 469"
    by (simp add: update_channel_db_log ex_channel_def)
  show ?thesis
    using saved_channel_reloads [OF ex_channel_ok(1), of ex_env, OF _ _ _ l]
    by (simp add: ex_env_def ex_channel_def Let_def)
qed

theorem join_outcome_witness:
  "let r = join_channel ex_env (ex_player 5) [] ex_channel
   in ch_owner r = 1 \<and> map_of (ch_players r) 5 = Some \<lparr>pi_player = 5, pi_flags = 0\<rparr>"
proof -
  have "\<not> join_refused ex_env (ex_player 5) [] ex_channel"
    by (simp add: join_refused_def ex_player_def is_on_def om_has_def is_banned_def ex_channel_def
        ex_env_def)
  then show ?thesis
    using join_outcome [OF ex_channel_ok(1), of "ex_player 5" ex_env "[]"]
    by (simp add: Let_def ex_player_def ex_channel_def)
qed

text \<open>
  C27: Chat. What an unmuted member says reaches exactly the connected members, each once and in GUID
  order, less those who ignore him unless he is a moderator; a muted member and a stranger reach
  nobody and are told so; the channel itself does not change.
\<close>
theorem say_delivers:
  assumes "chan_ok ch" "what \<noteq> []" "ce_connected env g \<noteq> None"
  shows "let r = say env g what lang ch;
             pkt = chat_packet (if ce_two_side env then 0 else lang) g what ch;
             ears = filter (\<lambda>x. case ce_connected env x of None \<Rightarrow> False
                      | Some p \<Rightarrow> pi_is MEMBER_FLAG_MODERATOR (info_at g ch) \<or> \<not> pl_ignores p (get_counter g))
                    (map fst (ch_players ch))
         in same_content r ch \<and> sorted ears \<and> distinct ears \<and>
            ch_out r = ch_out ch @
              (if \<not> is_on g ch then [SendPacket g (make_not_member ch)]
               else if pi_is MEMBER_FLAG_MUTED (info_at g ch) then [SendPacket g (make_muted ch)]
               else map (\<lambda>x. SendPacket x pkt) ears)"
proof -
  define to where "to = (\<lambda>s x. case ce_connected env x of None \<Rightarrow> False
                         | Some p \<Rightarrow> s = (0 :: guid) \<or> \<not> pl_ignores p (get_counter s))"
  have h: "hears env = to" by (simp add: fun_eq_iff hears_def to_def split: option.split)
  have f: "sends P pkt m = map (\<lambda>x. SendPacket x pkt) (filter P (map fst m))" for P pkt and m :: "(guid, player_info) omap"
    by (induction m) (auto simp: sends_def)
  have g: "is_on g ch \<Longrightarrow> g \<noteq> 0" using chan_ok_member [OF assms(1), of g] by (auto simp: member_ok_def)
  have "sorted_wrt (<) (map fst (ch_players ch))" using assms(1) by (simp add: chan_ok_def om_inv_def)
  then have "sorted_wrt (<) (filter P (map fst (ch_players ch)))" for P by (rule sorted_wrt_filter)
  then have sd: "sorted (filter P (map fst (ch_players ch)))" "distinct (filter P (map fst (ch_players ch)))" for P
    by (auto simp: strict_sorted_iff)
  have "same_content (say env g what lang ch) ch" by (rule silentD(16) [OF query_silent(3)])
  moreover have "ch_out (say env g what lang ch) = ch_out ch @
      (if \<not> is_on g ch then [SendPacket g (make_not_member ch)]
       else if pi_is MEMBER_FLAG_MUTED (info_at g ch) then [SendPacket g (make_muted ch)]
       else map (\<lambda>x. SendPacket x (chat_packet (if ce_two_side env then 0 else lang) g what ch))
              (filter (to (if \<not> pi_is MEMBER_FLAG_MODERATOR (info_at g ch) then g else 0))
                 (map fst (ch_players ch))))"
    using assms(2,3) by (simp add: say_def Let_def send_to_one_log send_to_all_log f h)
  ultimately show ?thesis
    using g sd by (cases "is_on g ch") (auto simp: Let_def to_def cong: option.case_cong)
qed

theorem say_delivers_witness:
  "ch_out (say ex_env 2 ''hi'' 7 ex_channel) = ch_out ex_channel
     @ [SendPacket 1 (chat_packet 7 2 ''hi'' ex_channel), SendPacket 2 (chat_packet 7 2 ''hi'' ex_channel)]"
  using say_delivers [OF ex_channel_ok(1), of "''hi''" ex_env 2 7]
  by (simp add: Let_def is_on_def om_has_def info_at_def pi_is_def ex_channel_def ex_env_def ex_player_def
      member_flag_defs get_counter_def)

text \<open>
  C37: Commands need rights. Who is not in the channel gets the notice that he is no member, and changes
  nothing, whatever he asks of it: to kick, ban or unban, to set the password, to grant or take a mode, to switch
  the announcements, to pass the ownership on, to be told the owner, to invite, to list, to speak or to leave.
  A member who is neither moderator nor privileged changes nothing by kicking, banning, unbanning, setting the
  password, granting or taking a mode or switching the announcements; what he is sent is the empty
  packet with opcode 0, because the body of \<open>MakeNotModerator\<close> is commented out. A member who is
  neither owner nor privileged cannot pass the ownership on, and if he moderates he cannot kick or ban the
  owner; both give the notice that he is not the owner. Nobody but the owner, privileged or not, changes the owner's modes.
\<close>
theorem commands_need_rights:
  assumes "ce_connected env (pl_guid pl) \<noteq> None"
  shows "let g = pl_guid pl; tell = (\<lambda>p. log_many [SendPacket g p] ch);
             no_member = tell (make_not_member ch); no_moderator = tell (NULL_OPCODE, [])
         in (\<not> is_on g ch \<longrightarrow>
               kick_or_ban env pl nm ban ch = no_member \<and> unban env pl nm ch = no_member
               \<and> set_password env pl w ch = no_member \<and> set_mode env pl nm md on ch = no_member
               \<and> announce env pl ch = no_member \<and> set_owner_by_name env pl nm ch = no_member
               \<and> send_who_owner env g ch = no_member \<and> invite env pl nm ch = no_member
               \<and> list_channel env pl ch = no_member \<and> leave_channel env pl True ch = no_member
               \<and> (w \<noteq> [] \<longrightarrow> say env g w lang ch = no_member))
          \<and> (is_on g ch \<and> \<not> may_moderate pl ch \<longrightarrow>
               kick_or_ban env pl nm ban ch = no_moderator \<and> unban env pl nm ch = no_moderator
               \<and> set_password env pl w ch = no_moderator \<and> set_mode env pl nm md on ch = no_moderator
               \<and> announce env pl ch = no_moderator)
          \<and> (is_on g ch \<and> g \<noteq> ch_owner ch \<and> \<not> pl_perms pl PERM_NOT_MODERATOR \<longrightarrow>
               set_owner_by_name env pl nm ch = tell (make_not_owner ch)
               \<and> (\<forall>v. ce_by_name env nm = Some v \<and> pl_guid v = ch_owner ch \<longrightarrow>
                    same_content (kick_or_ban env pl nm ban ch) ch
                    \<and> (may_moderate pl ch \<and> pl_guid v \<noteq> 0 \<and> is_on (pl_guid v) ch \<longrightarrow>
                         kick_or_ban env pl nm ban ch = tell (make_not_owner ch))))
          \<and> (\<forall>v. g \<noteq> ch_owner ch \<and> ce_by_name env nm = Some v \<and> pl_guid v = ch_owner ch \<longrightarrow>
               same_content (set_mode env pl nm md on ch) ch)"
proof -
  have k: "same_content (kick_or_ban env pl nm ban ch) ch"
    if "pl_guid pl \<noteq> ch_owner ch" "\<not> pl_perms pl PERM_NOT_MODERATOR"
       "ce_by_name env nm = Some v" "pl_guid v = ch_owner ch" for v
    using that silentD(16) [OF kick_refused_silent, of env pl nm ch ban]
    by (auto simp: kick_refused_def victim_guid_def)
  have s: "same_content (set_mode env pl nm md on ch) ch"
    if "pl_guid pl \<noteq> ch_owner ch" "ce_by_name env nm = Some v" "pl_guid v = ch_owner ch" for v
    using that assms by (auto simp: set_mode_def Let_def send_to_one_log)
  have stranger: "leave_channel env pl True ch = log_many [SendPacket (pl_guid pl) (make_not_member ch)] ch"
    if "\<not> is_on (pl_guid pl) ch"
    using that assms by (simp add: leave_channel_def Let_def send_to_one_log)
  show ?thesis
    unfolding Let_def
    using assms k s stranger
    by (intro conjI impI allI)
      (auto simp: Let_def kick_or_ban_def unban_def set_password_def set_mode_def announce_def victim_guid_def
        set_owner_by_name_def send_who_owner_def invite_def list_channel_def say_def send_to_one_log
        make_not_moderator_def empty_packet_def)
qed

theorem commands_need_rights_witness:
  "kick_or_ban ex_env (ex_player 2) ''P1'' True ex_channel = log_many [SendPacket 2 (NULL_OPCODE, [])] ex_channel"
  using commands_need_rights [of ex_env "ex_player 2" ex_channel "''P1''" True]
  by (simp add: Let_def ex_env_def ex_player_def is_on_def om_has_def may_moderate_def info_at_def pi_is_def
      ex_channel_def member_flag_defs)

text \<open>
  C28: Succession. When the owner of a custom channel leaves and others stay, the member with the
  smallest GUID becomes owner and moderator, and he alone carries the owner flag.
\<close>
theorem owner_succession:
  assumes "chan_ok ch" "chan_owned ch" "\<not> is_constant ch" "ch_ownership ch" "pl_guid pl = ch_owner ch"
    and "is_on (pl_guid pl) ch" "is_on y ch" "y \<noteq> pl_guid pl"
  shows "let r = leave_channel env pl send ch; heir = ch_owner r in
     is_on heir ch \<and> heir \<noteq> pl_guid pl \<and> (\<forall>x. is_on x ch \<and> x \<noteq> pl_guid pl \<longrightarrow> heir \<le> x)
     \<and> pi_is MEMBER_FLAG_MODERATOR (info_at heir r)
     \<and> (\<forall>x. is_on x r \<longrightarrow> (pi_is MEMBER_FLAG_OWNER (info_at x r) \<longleftrightarrow> x = heir))"
proof -
  define g where "g = pl_guid pl"
  define r where "r = leave_channel env pl send ch"
  have ne: "ch_players ch \<noteq> []" using assms(7) by (auto simp: is_on_def)
  have flag: "pi_is MEMBER_FLAG_OWNER (info_at g ch)"
    using assms(2,4,5) ne by (simp add: chan_owned_def g_def)
  obtain os c where s: "silent (drop_member g (log_many os ch)) c" and r: "r = leave_custom env True c"
    using leave_member_steps [OF assms(6), of send env] flag unfolding r_def g_def by (metis (full_types))
  note d = silentD [OF s]
  define c' where "c' = update_usage_db c"
  have s': "silent c c'" by (simp add: c'_def)
  note d' = silentD [OF s']
  have okc: "chan_ok c'" using drop_member_ok [OF assms(1)] d d' by simp
  have "is_on y c'" using assms(7,8) d d' by (simp add: g_def)
  then obtain k p rest where kp: "ch_players c' = (k, p) # rest"
    by (cases "ch_players c'") (auto simp: is_on_def)
  have k: "is_on k c'" "pi_player p = k" using first_member [OF okc kp] by simp_all
  have least: "is_on x c' \<Longrightarrow> k \<le> x" for x
    using okc kp by (auto simp: is_on_def om_has_conv chan_ok_def om_inv_Cons intro: less_imp_le)
  have k0: "k \<noteq> 0" using chan_ok_member [OF okc k(1)] by (simp add: member_ok_def)
  define u where "u = upd_info k (pi_set MEMBER_FLAG_MODERATOR True) c'"
  have ru: "r = set_owner env k True u"
    unfolding r leave_custom_def Let_def c'_def [symmetric]
    using assms(3,4) d(3,4,11) d'(3,4) kp k(2) by (simp add: u_def)
  note e = silentD [OF set_owner_crown [OF k0, of u env True], folded ru]
  have inv: "chan_ok r" using leave_member_inv(1) [OF assms(1,2,6)] by (simp add: r_def)
  have only: "pi_is MEMBER_FLAG_OWNER (info_at x r) \<longleftrightarrow> x = k" if "is_on x r" for x
    using chan_ok_member [OF inv that] e(3,10) by (auto simp: member_ok_def)
  have on: "is_on x c' \<longleftrightarrow> x \<noteq> g \<and> is_on x ch" for x using d d' by simp
  show ?thesis
    unfolding Let_def r_def [symmetric] g_def [symmetric]
    using e(3,10) only k(1) least on by auto
qed

theorem owner_succession_witness:
  "ch_owner (leave_channel ex_env (ex_player 1) True ex_channel) \<in> {2, 3}"
proof -
  have *: "pl_guid (ex_player 1) = ch_owner ex_channel" "is_on (pl_guid (ex_player 1)) ex_channel"
    "is_on 2 ex_channel" "2 \<noteq> pl_guid (ex_player 1)" "\<not> is_constant ex_channel" "ch_ownership ex_channel"
    by (simp_all add: ex_player_def ex_channel_def is_on_def om_has_def is_constant_def)
  show ?thesis
    using owner_succession [OF ex_channel_ok *(5,6,1,2,3,4), of ex_env True]
    by (auto simp: Let_def is_on_def om_has_def ex_channel_def ex_player_def split: if_splits)
qed

text \<open>
  The member who is not there. An owner who kicks or bans himself from a channel with other
  members is told by his client that he left, but the succession puts him back: he stays a
  member and the owner, under a record that carries no GUID, and after a ban he is a member and
  banned at once.
\<close>
theorem self_kick_ghost:
  assumes "chan_ok ch" "is_on (pl_guid pl) ch" "ch_owner ch = pl_guid pl" "ch_ownership ch"
    and "may_moderate pl ch" "ce_by_name env nm = Some pl" "is_on y ch" "y \<noteq> pl_guid pl"
  shows "let r = kick_or_ban env pl nm ban ch; g = pl_guid pl in
     is_on g r \<and> ch_owner r = g \<and> pi_player (info_at g r) = 0 \<and> is_banned g r = ban
     \<and> events_of r = events_of ch @ [PlayerLeftChannel g] \<and> \<not> chan_ok r"
proof -
  define g where "g = pl_guid pl"
  have g0: "g \<noteq> 0" using chan_ok_member [OF assms(1,2)] by (simp add: member_ok_def g_def)
  have nb: "\<not> is_banned g ch"
    using chan_ok_member [OF assms(1,2)] by (simp add: member_ok_def g_def is_banned_def)
  have "\<not> kick_refused env pl nm ch" using assms g0 by (simp add: kick_refused_def victim_guid_def g_def)
  from kick_accepted [OF this] have r1: "kick_or_ban env pl nm ban ch = remove_member env pl g ban ch"
    by (simp add: assms(6) victim_guid_def g_def)
  have "is_on y (take_out g ban ch)" using assms(7,8) by (simp add: g_def)
  then have ne: "ch_players (take_out g ban ch) \<noteq> []" by (auto simp: is_on_def)
  obtain os where os: "filter is_event os = [PlayerLeftChannel g]"
    and r: "kick_or_ban env pl nm ban ch = set_owner env g True
      (upd_info g (pi_set MEMBER_FLAG_MODERATOR True) (log_many os (take_out g ban ch)))"
    using remove_member_steps [of g env pl ban ch] assms(3,4) ne r1 unfolding g_def by (metis (full_types))
  have gone: "\<not> is_on g (take_out g ban ch)" by simp
  then have none: "info_at g (take_out g ban ch) = pi_default"
    by (simp add: is_on_def om_has_def info_at_def)
  define u where "u = upd_info g (pi_set MEMBER_FLAG_MODERATOR True) (log_many os (take_out g ban ch))"
  note e = silentD [OF set_owner_crown [OF g0, of u env True]]
  have c: "pi_player (info_at g (crown g u)) = 0"
    by (simp add: u_def none pi_default_def)
  have "member_ok (kick_or_ban env pl nm ban ch) g (info_at g (kick_or_ban env pl nm ban ch))"
    if "chan_ok (kick_or_ban env pl nm ban ch)"
    by (rule chan_ok_member [OF that]) (use e(9) in \<open>simp add: r u_def [symmetric]\<close>)
  then show ?thesis
    using e c os g0 nb unfolding Let_def g_def [symmetric] r u_def [symmetric]
    by (auto simp: member_ok_def u_def is_banned_def)
qed

theorem self_kick_ghost_witness:
  "is_on 1 (kick_or_ban ex_env (ex_player 1) ''P1'' True ex_channel)"
proof -
  have *: "pl_guid (ex_player 1) = 1" "is_on 1 ex_channel" "ch_owner ex_channel = 1" "ch_ownership ex_channel"
    "may_moderate (ex_player 1) ex_channel" "ce_by_name ex_env ''P1'' = Some (ex_player 1)"
    "is_on 2 ex_channel"
    by (simp_all add: ex_player_def ex_channel_def is_on_def om_has_def may_moderate_def info_at_def pi_is_def
        member_flag_defs ex_env_def)
  show ?thesis
    using self_kick_ghost [OF ex_channel_ok(1), of "ex_player 1" ex_env "''P1''" 2 True] *
    by (simp add: Let_def)
qed

end
