(* ===== verification/ChannelMgr.thy ===== *)
theory ChannelMgr
  imports Channel WideString "HOL-Library.List_Lexorder"
begin

text \<open>
  The channels of the two sides and the requests of the clients:
  \<open>src/server/game/Chat/Channels/ChannelMgr.cpp\<close>, \<open>src/server/game/Handlers/ChannelHandler.cpp\<close>, the
  list of channels a player keeps (\<open>Entities/Player/Player.cpp\<close>). A pointer to a channel is the
  manager and the key it is stored under.
\<close>

section \<open>The managers\<close>

datatype side = AllianceMgr | HordeMgr

type_synonym chan_ref = "side \<times> wname"

record channel_mgr =
  cm_channels :: "(wname, channel) omap"
  cm_team :: u32

definition new_channel_mgr :: channel_mgr where
  "new_channel_mgr = \<lparr>cm_channels = [], cm_team = 0\<rparr>"

definition ALLIANCE :: u32 where "ALLIANCE = 469"
definition HORDE :: u32 where "HORDE = 67"

definition for_team :: "bool \<Rightarrow> u32 \<Rightarrow> side option" where
  "for_team two_side team =
     (if two_side then Some AllianceMgr
      else if team = ALLIANCE then Some AllianceMgr
      else if team = HORDE then Some HordeMgr
      else None)"

text \<open>The key a channel name is stored under.\<close>

definition channel_key :: "utf8_lib \<Rightarrow> string \<Rightarrow> wname option" where
  "channel_key lib name = map_option wstr_to_lower (utf8_to_wstr lib name)"

definition get_join_channel ::
    "chan_env \<Rightarrow> utf8_lib \<Rightarrow> string \<Rightarrow> u32 \<Rightarrow> channel_mgr \<Rightarrow> wname option \<times> channel_mgr" where
  "get_join_channel env lib name i m =
     (case channel_key lib name of
        None \<Rightarrow> (None, m)
      | Some key \<Rightarrow>
          (case map_of (cm_channels m) key of
             None \<Rightarrow>
               (Some key, m\<lparr>cm_channels := om_set key (new_channel env name i (cm_team m)) (cm_channels m)\<rparr>)
           | Some c \<Rightarrow> (Some key, m)))"

definition make_not_on_packet :: "string \<Rightarrow> packet" where
  "make_not_on_packet name = (SMSG_CHANNEL_NOTIFY, [F8 5, FStr name])"

text \<open>
  Names that begin with a colour escape are meant to be refused unless the colour starts
  \<open>cff\<close>; the test compares two addresses, so every name that begins with a bar is refused.
\<close>

definition get_channel ::
    "utf8_lib \<Rightarrow> string \<Rightarrow> guid \<Rightarrow> bool \<Rightarrow> channel_mgr \<Rightarrow> wname option \<times> chan_out list" where
  "get_channel lib name g pkt m =
     (case channel_key lib name of
        None \<Rightarrow> (None, [])
      | Some key \<Rightarrow>
          if (case key of c # cs \<Rightarrow> c = 0x7C | [] \<Rightarrow> False) then (None, [])
          else
            (case map_of (cm_channels m) key of
               None \<Rightarrow> (None, if pkt then [SendPacket g (make_not_on_packet name)] else [])
             | Some c \<Rightarrow> (Some key, [])))"

definition left_channel :: "utf8_lib \<Rightarrow> string \<Rightarrow> channel_mgr \<Rightarrow> channel_mgr" where
  "left_channel lib name m =
     (case channel_key lib name of
        None \<Rightarrow> m
      | Some key \<Rightarrow>
          (case map_of (cm_channels m) key of
             None \<Rightarrow> m
           | Some c \<Rightarrow>
               if num_players c = 0 \<and> \<not> is_constant c
               then m\<lparr>cm_channels := om_del key (cm_channels m)\<rparr> else m))"

section \<open>The world of channels\<close>

text \<open>
  \<open>cw_joined\<close> is \<open>m_channels\<close> of every player. What a channel operation logs is moved to
  \<open>cw_sent\<close>, and its calls back to the players are carried out on their lists.
\<close>

record chat_world =
  cw_alliance :: channel_mgr
  cw_horde :: channel_mgr
  cw_joined :: "guid \<Rightarrow> chan_ref list"
  cw_sent :: "chan_out list"

definition new_chat_world :: chat_world where
  "new_chat_world = \<lparr>cw_alliance = new_channel_mgr, cw_horde = new_channel_mgr, cw_joined = (\<lambda>_. []), cw_sent = []\<rparr>"

fun get_mgr :: "side \<Rightarrow> chat_world \<Rightarrow> channel_mgr" where
  "get_mgr AllianceMgr w = cw_alliance w"
| "get_mgr HordeMgr w = cw_horde w"

fun put_mgr :: "side \<Rightarrow> channel_mgr \<Rightarrow> chat_world \<Rightarrow> chat_world" where
  "put_mgr AllianceMgr m w = w\<lparr>cw_alliance := m\<rparr>"
| "put_mgr HordeMgr m w = w\<lparr>cw_horde := m\<rparr>"

text \<open>\<open>Player::JoinedChannel\<close> and \<open>Player::LeftChannel\<close>\<close>

fun call_back :: "chan_ref \<Rightarrow> chan_out \<Rightarrow> (guid \<Rightarrow> chan_ref list) \<Rightarrow> guid \<Rightarrow> chan_ref list" where
  "call_back r (PlayerJoinedChannel g) j = j(g := j g @ [r])"
| "call_back r (PlayerLeftChannel g) j = j(g := removeAll r (j g))"
| "call_back r _ j = j"

definition send_direct :: "chan_out list \<Rightarrow> chat_world \<Rightarrow> chat_world" where
  "send_direct os w = w\<lparr>cw_sent := cw_sent w @ os\<rparr>"

text \<open>Running an operation on the channel behind a pointer.\<close>

definition on_channel :: "side \<Rightarrow> wname \<Rightarrow> (channel \<Rightarrow> channel) \<Rightarrow> chat_world \<Rightarrow> chat_world" where
  "on_channel sd key f w =
     (case map_of (cm_channels (get_mgr sd w)) key of
        None \<Rightarrow> w
      | Some c \<Rightarrow>
          (let r = f c;
               m = get_mgr sd w;
               w1 = put_mgr sd (m\<lparr>cm_channels := om_set key (r\<lparr>ch_out := []\<rparr>) (cm_channels m)\<rparr>) w
           in w1\<lparr>cw_joined := fold (call_back (sd, key)) (ch_out r) (cw_joined w1),
                  cw_sent := cw_sent w1 @ ch_out r\<rparr>))"

section \<open>The requests\<close>

record session =
  se_player :: player
  se_zone :: "u32 option"     \<comment> \<open>the flags of the area the player is in\<close>
  se_guild :: u32

definition can_join_constant_channel :: "u32 \<Rightarrow> u32 \<Rightarrow> u32 \<Rightarrow> bool" where
  "can_join_constant_channel guild channel zone =
     (if channel AND 0x40000 \<noteq> 0 then True
      else if channel AND 0x2 \<noteq> 0 \<and> zone AND 0x10000 \<noteq> 0 then False
      else if channel AND 0x10 \<noteq> 0 \<and> zone AND 0x8 = 0 then False
      else if channel AND 0x20000 \<noteq> 0 \<and> guild \<noteq> 0 then False
      else True)"

definition may_join_id :: "chan_env \<Rightarrow> session \<Rightarrow> u32 \<Rightarrow> bool" where
  "may_join_id env se i \<longleftrightarrow>
     i = 0 \<or> (case ce_dbc_flags env i of
        None \<Rightarrow> False
      | Some channel \<Rightarrow>
          (case se_zone se of None \<Rightarrow> False
           | Some zone \<Rightarrow> can_join_constant_channel (se_guild se) channel zone))"

definition handle_join :: "chan_env \<Rightarrow> utf8_lib \<Rightarrow> session \<Rightarrow> u32 \<Rightarrow> string \<Rightarrow> string \<Rightarrow> chat_world \<Rightarrow> chat_world" where
  "handle_join env lib se i name pass w =
     (if \<not> may_join_id env se i then w
      else if name = [] then w
      else if is_digit (hd name) then w
      else
        (case for_team (ce_two_side env) (pl_team (se_player se)) of
           None \<Rightarrow> w
         | Some sd \<Rightarrow>
             (let m = (get_mgr sd w)\<lparr>cm_team := pl_team (se_player se)\<rparr>
              in case get_join_channel env lib name i m of
                   (None, m1) \<Rightarrow> put_mgr sd m1 w
                 | (Some key, m1) \<Rightarrow>
                     on_channel sd key (join_channel env (se_player se) pass) (put_mgr sd m1 w))))"

text \<open>What most of the handlers share: the manager of the player's side, then the channel by its name.\<close>

definition with_named ::
    "chan_env \<Rightarrow> utf8_lib \<Rightarrow> session \<Rightarrow> string \<Rightarrow> (channel \<Rightarrow> channel) \<Rightarrow> chat_world \<Rightarrow> chat_world" where
  "with_named env lib se name f w =
     (case for_team (ce_two_side env) (pl_team (se_player se)) of
        None \<Rightarrow> w
      | Some sd \<Rightarrow>
          (case get_channel lib name (pl_guid (se_player se)) True (get_mgr sd w) of
             (None, os) \<Rightarrow> send_direct os w
           | (Some key, os) \<Rightarrow> on_channel sd key f (send_direct os w)))"

definition handle_leave :: "chan_env \<Rightarrow> utf8_lib \<Rightarrow> session \<Rightarrow> string \<Rightarrow> chat_world \<Rightarrow> chat_world" where
  "handle_leave env lib se name w =
     (if name = [] then w
      else
        (case for_team (ce_two_side env) (pl_team (se_player se)) of
           None \<Rightarrow> w
         | Some sd \<Rightarrow>
             (let w1 = with_named env lib se name (leave_channel env (se_player se) True) w
              in put_mgr sd (left_channel lib name (get_mgr sd w1)) w1)))"

text \<open>The requests that name a player normalise the name first.\<close>

definition with_target ::
    "chan_env \<Rightarrow> utf8_lib \<Rightarrow> session \<Rightarrow> string \<Rightarrow> string \<Rightarrow> (string \<Rightarrow> channel \<Rightarrow> channel)
       \<Rightarrow> chat_world \<Rightarrow> chat_world" where
  "with_target env lib se name target f w =
     (case normalize_player_name lib target of
        None \<Rightarrow> w
      | Some t \<Rightarrow> with_named env lib se name (f t) w)"

definition handle_list :: "chan_env \<Rightarrow> utf8_lib \<Rightarrow> session \<Rightarrow> string \<Rightarrow> chat_world \<Rightarrow> chat_world" where
  "handle_list env lib se name w = with_named env lib se name (list_channel env (se_player se)) w"

definition handle_password :: "chat_world \<Rightarrow> chat_world" where
  "handle_password w = w"

definition handle_set_owner :: "chan_env \<Rightarrow> utf8_lib \<Rightarrow> session \<Rightarrow> string \<Rightarrow> string \<Rightarrow> chat_world \<Rightarrow> chat_world" where
  "handle_set_owner env lib se name target w =
     with_target env lib se name target (set_owner_by_name env (se_player se)) w"

definition handle_owner :: "chan_env \<Rightarrow> utf8_lib \<Rightarrow> session \<Rightarrow> string \<Rightarrow> chat_world \<Rightarrow> chat_world" where
  "handle_owner env lib se name w =
     with_named env lib se name (send_who_owner env (pl_guid (se_player se))) w"

definition handle_moderator :: "chan_env \<Rightarrow> utf8_lib \<Rightarrow> session \<Rightarrow> string \<Rightarrow> string \<Rightarrow> chat_world \<Rightarrow> chat_world" where
  "handle_moderator env lib se name target w =
     with_target env lib se name target (\<lambda>t. set_mode env (se_player se) t True True) w"

definition handle_unmoderator :: "chan_env \<Rightarrow> utf8_lib \<Rightarrow> session \<Rightarrow> string \<Rightarrow> string \<Rightarrow> chat_world \<Rightarrow> chat_world" where
  "handle_unmoderator env lib se name target w =
     with_target env lib se name target (\<lambda>t. set_mode env (se_player se) t True False) w"

definition handle_mute :: "chan_env \<Rightarrow> utf8_lib \<Rightarrow> session \<Rightarrow> string \<Rightarrow> string \<Rightarrow> chat_world \<Rightarrow> chat_world" where
  "handle_mute env lib se name target w =
     with_target env lib se name target (\<lambda>t. set_mode env (se_player se) t False True) w"

definition handle_unmute :: "chan_env \<Rightarrow> utf8_lib \<Rightarrow> session \<Rightarrow> string \<Rightarrow> string \<Rightarrow> chat_world \<Rightarrow> chat_world" where
  "handle_unmute env lib se name target w =
     with_target env lib se name target (\<lambda>t. set_mode env (se_player se) t False False) w"

definition handle_invite :: "chan_env \<Rightarrow> utf8_lib \<Rightarrow> session \<Rightarrow> string \<Rightarrow> string \<Rightarrow> chat_world \<Rightarrow> chat_world" where
  "handle_invite env lib se name target w =
     with_target env lib se name target (invite env (se_player se)) w"

definition handle_kick :: "chan_env \<Rightarrow> utf8_lib \<Rightarrow> session \<Rightarrow> string \<Rightarrow> string \<Rightarrow> chat_world \<Rightarrow> chat_world" where
  "handle_kick env lib se name target w =
     with_target env lib se name target (\<lambda>t. kick_or_ban env (se_player se) t False) w"

definition handle_ban :: "chan_env \<Rightarrow> utf8_lib \<Rightarrow> session \<Rightarrow> string \<Rightarrow> string \<Rightarrow> chat_world \<Rightarrow> chat_world" where
  "handle_ban env lib se name target w =
     with_target env lib se name target (\<lambda>t. kick_or_ban env (se_player se) t True) w"

definition handle_unban :: "chan_env \<Rightarrow> utf8_lib \<Rightarrow> session \<Rightarrow> string \<Rightarrow> string \<Rightarrow> chat_world \<Rightarrow> chat_world" where
  "handle_unban env lib se name target w =
     with_target env lib se name target (unban env (se_player se)) w"

definition handle_announcements :: "chan_env \<Rightarrow> utf8_lib \<Rightarrow> session \<Rightarrow> string \<Rightarrow> chat_world \<Rightarrow> chat_world" where
  "handle_announcements env lib se name w = with_named env lib se name (announce env (se_player se)) w"

definition handle_display_list :: "chan_env \<Rightarrow> utf8_lib \<Rightarrow> session \<Rightarrow> string \<Rightarrow> chat_world \<Rightarrow> chat_world" where
  "handle_display_list env lib se name w = handle_list env lib se name w"

definition handle_member_count :: "chan_env \<Rightarrow> utf8_lib \<Rightarrow> session \<Rightarrow> string \<Rightarrow> chat_world \<Rightarrow> chat_world" where
  "handle_member_count env lib se name w =
     with_named env lib se name
       (\<lambda>c. out (SendPacket (pl_guid (se_player se))
               (SMSG_CHANNEL_MEMBER_COUNT, [FStr (ch_name c), F8 (ch_flags c), F32 (num_players c)])) c) w"

definition handle_watch :: "chat_world \<Rightarrow> chat_world" where
  "handle_watch w = w"

section \<open>Logging out\<close>

text \<open>
  \<open>Player::CleanupChannels\<close>: the first channel is taken off the list, left without notice, and
  deleted if empty, until the list is empty.
\<close>

definition cleanup_one :: "chan_env \<Rightarrow> utf8_lib \<Rightarrow> player \<Rightarrow> chan_ref \<Rightarrow> chat_world \<Rightarrow> chat_world" where
  "cleanup_one env lib pl r w =
     (let w1 = w\<lparr>cw_joined := (cw_joined w)(pl_guid pl := tl (cw_joined w (pl_guid pl)))\<rparr>;
          w2 = on_channel (fst r) (snd r) (leave_channel env pl False) w1
      in case for_team (ce_two_side env) (pl_team pl) of
           None \<Rightarrow> w2
         | Some sd \<Rightarrow>
             (case map_of (cm_channels (get_mgr (fst r) w2)) (snd r) of
                None \<Rightarrow> w2
              | Some c \<Rightarrow> put_mgr sd (left_channel lib (ch_name c) (get_mgr sd w2)) w2))"

definition cleanup_channels :: "chan_env \<Rightarrow> utf8_lib \<Rightarrow> player \<Rightarrow> chat_world \<Rightarrow> chat_world" where
  "cleanup_channels env lib pl w = fold (cleanup_one env lib pl) (cw_joined w (pl_guid pl)) w"

text \<open>\<open>Player::LeaveLFGChannel\<close>: the first channel of the list that is a group finder channel.\<close>

definition is_lfg_ref :: "chat_world \<Rightarrow> chan_ref \<Rightarrow> bool" where
  "is_lfg_ref w r = (case map_of (cm_channels (get_mgr (fst r) w)) (snd r) of
     None \<Rightarrow> False | Some c \<Rightarrow> has_channel_flag CHANNEL_FLAG_LFG c)"

definition leave_lfg_channel :: "chan_env \<Rightarrow> player \<Rightarrow> chat_world \<Rightarrow> chat_world" where
  "leave_lfg_channel env pl w =
     (case find (is_lfg_ref w) (cw_joined w (pl_guid pl)) of
        None \<Rightarrow> w
      | Some r \<Rightarrow> on_channel (fst r) (snd r) (leave_channel env pl True) w)"

section \<open>The invariant of the world of channels\<close>

lemma get_put [simp]: "get_mgr a (put_mgr b m w) = (if a = b then m else get_mgr a w)"
  by (cases a; cases b) auto

lemma put_fields [simp]:
  "cw_joined (put_mgr sd m w) = cw_joined w" "cw_sent (put_mgr sd m w) = cw_sent w"
  "put_mgr sd m w\<lparr>cw_joined := j\<rparr> = put_mgr sd m (w\<lparr>cw_joined := j\<rparr>)"
  by (cases sd; simp)+

lemma get_upd [simp]:
  "get_mgr a (w\<lparr>cw_joined := j\<rparr>) = get_mgr a w" "get_mgr a (w\<lparr>cw_sent := s\<rparr>) = get_mgr a w"
  by (cases a; simp)+

abbreviation chan_at :: "chat_world \<Rightarrow> side \<Rightarrow> wname \<Rightarrow> channel option" where
  "chan_at w sd key \<equiv> map_of (cm_channels (get_mgr sd w)) key"

definition member_at :: "chat_world \<Rightarrow> chan_ref \<Rightarrow> guid \<Rightarrow> bool" where
  "member_at w r g \<longleftrightarrow> (\<exists>c. chan_at w (fst r) (snd r) = Some c \<and> is_on g c)"

text \<open>
  A stored channel: its own invariant, its key, no pending callback; its members are players, whose
  GUIDs are below \<open>2^32\<close> (the high part of a player's GUID is zero). The channels of \<open>E\<close> may be
  custom ones whose last member just left.
\<close>

definition stored_ok :: "utf8_lib \<Rightarrow> chan_ref set \<Rightarrow> side \<Rightarrow> wname \<Rightarrow> channel \<Rightarrow> bool" where
  "stored_ok lib E sd key c \<longleftrightarrow> chan_ok c \<and> channel_key lib (ch_name c) = Some key \<and> events_of c = []
     \<and> (\<forall>g. is_on g c \<longrightarrow> g < 0x100000000)
     \<and> (has_channel_flag CHANNEL_FLAG_LFG c \<longrightarrow> is_constant c) \<and> (chan_owned c \<or> ((sd, key) \<in> E \<and> ch_players c = [] \<and> \<not> is_constant c))"

definition lists_ok :: "(guid \<Rightarrow> side) \<Rightarrow> chat_world \<Rightarrow> bool" where
  "lists_ok so w \<longleftrightarrow> (\<forall>g. distinct (cw_joined w g)) \<and> (\<forall>g r. r \<in> set (cw_joined w g) \<longleftrightarrow> member_at w r g)
     \<and> (\<forall>g r. r \<in> set (cw_joined w g) \<longrightarrow> fst r = so g)"

lemma lists_okD:
  assumes "lists_ok so w"
  shows "x \<in> set (cw_joined w g) \<longleftrightarrow> member_at w x g" "x \<in> set (cw_joined w g) \<Longrightarrow> fst x = so g"
    "distinct (cw_joined w g)"
  using assms unfolding lists_ok_def by blast+

definition world_inv :: "utf8_lib \<Rightarrow> (guid \<Rightarrow> side) \<Rightarrow> chan_ref set \<Rightarrow> chat_world \<Rightarrow> bool" where
  "world_inv lib so E w \<longleftrightarrow>
     (\<forall>sd. om_inv (cm_channels (get_mgr sd w)))
     \<and> (\<forall>sd key c. chan_at w sd key = Some c \<longrightarrow> stored_ok lib E sd key c) \<and> lists_ok so w"

lemma new_chat_world_inv: "world_inv lib so {} new_chat_world"
proof -
  have e: "cm_channels (get_mgr sd new_chat_world) = []" for sd
    by (cases sd) (simp_all add: new_chat_world_def new_channel_mgr_def)
  show ?thesis
    by (simp add: world_inv_def lists_ok_def member_at_def e) (simp add: new_chat_world_def)
qed

lemma fold_call_back: "fold (call_back r) os j = fold (call_back r) (filter is_event os) j"
proof (induction os arbitrary: j)
  case (Cons a os)
  then show ?case by (cases a) (auto simp del: fun_upd_apply)
qed simp

lemma call_back_other: "x \<noteq> r \<Longrightarrow> x \<in> set (fold (call_back r) os j g) \<longleftrightarrow> x \<in> set (j g)"
proof (induction os arbitrary: j)
  case (Cons a os)
  then show ?case by (cases a) auto
qed simp

text \<open>Replacing one channel.\<close>

lemma on_channel_Some:
  "chan_at w sd key = Some c \<Longrightarrow>
   on_channel sd key f w =
     (put_mgr sd ((get_mgr sd w)\<lparr>cm_channels := om_set key ((f c)\<lparr>ch_out := []\<rparr>) (cm_channels (get_mgr sd w))\<rparr>) w)
       \<lparr>cw_joined := fold (call_back (sd, key)) (events_of (f c)) (cw_joined w),
        cw_sent := cw_sent w @ ch_out (f c)\<rparr>"
  by (simp add: on_channel_def Let_def events_of_def fold_call_back [of _ "ch_out (f c)"])

lemma out_Nil_simps [simp]:
  "chan_ok (c\<lparr>ch_out := []\<rparr>) = chan_ok c" "chan_owned (c\<lparr>ch_out := []\<rparr>) = chan_owned c"
  "has_channel_flag f (c\<lparr>ch_out := []\<rparr>) = has_channel_flag f c"
  "is_on g (c\<lparr>ch_out := []\<rparr>) = is_on g c" "is_constant (c\<lparr>ch_out := []\<rparr>) = is_constant c"
  "events_of (c\<lparr>ch_out := []\<rparr>) = []"
  by (simp_all add: chan_ok_def chan_owned_def is_on_def is_constant_def member_ok_def info_at_def events_of_def
      has_channel_flag_def)

lemma chan_at_on:
  "chan_at w sd key = Some c \<Longrightarrow> chan_at (on_channel sd key f w) a k =
     (if a = sd \<and> k = key then Some ((f c)\<lparr>ch_out := []\<rparr>) else chan_at w a k)"
  by (simp add: on_channel_Some)

lemma member_on:
  "chan_at w sd key = Some c \<Longrightarrow> member_at (on_channel sd key f w) r g =
     (if r = (sd, key) then is_on g (f c) else member_at w r g)"
  by (cases r) (auto simp: member_at_def chan_at_on split: if_splits)

lemma on_channel_inv:
  fixes sd key f w c
  defines "j \<equiv> fold (call_back (sd, key)) (events_of (f c)) (cw_joined w)"
  assumes W: "world_inv lib so E (w\<lparr>cw_joined := j0\<rparr>)" and c: "chan_at w sd key = Some c"
    and r: "chan_ok (f c)" "ch_name (f c) = ch_name c \<and> ch_flags (f c) = ch_flags c" "ch_id (f c) = ch_id c"
      "chan_owned (f c) \<or> ((sd, key) \<in> E \<and> ch_players (f c) = [] \<and> \<not> is_constant (f c))"
    and J: "\<And>g. (sd, key) \<in> set (j g) \<longleftrightarrow> is_on g (f c)"
    and D: "\<And>g. distinct (j g)"
    and O: "\<And>g x. x \<noteq> (sd, key) \<Longrightarrow> x \<in> set (cw_joined w g) \<longleftrightarrow> x \<in> set (j0 g)"
    and S: "\<And>g. is_on g (f c) \<Longrightarrow> so g = sd \<and> g < 0x100000000"
  shows "world_inv lib so E (on_channel sd key f w)"
proof -
  define m where "m = om_set key ((f c)\<lparr>ch_out := []\<rparr>) (cm_channels (get_mgr sd w))"
  define w' where "w' = on_channel sd key f w"
  have st: "stored_ok lib E sd key c" using W c by (simp add: world_inv_def)
  have at: "chan_at w' a k = (if (a, k) = (sd, key) then Some ((f c)\<lparr>ch_out := []\<rparr>) else chan_at w a k)" for a k
    by (simp add: w'_def on_channel_Some [OF c])
  have jj: "cw_joined w' = j" by (simp add: w'_def on_channel_Some [OF c] j_def)
  have "\<forall>sd. om_inv (cm_channels (get_mgr sd w))" using W by (simp add: world_inv_def)
  then have "\<forall>a. om_inv (cm_channels (get_mgr a w'))"
    by (simp add: w'_def on_channel_Some [OF c])
  moreover have "stored_ok lib E a k d" if "chan_at w' a k = Some d" for a k d
  proof (cases "(a, k) = (sd, key)")
    case True
    then show ?thesis using that st r S
      by (simp add: at stored_ok_def has_channel_flag_def is_constant_def del: prod.inject) auto
  next
    case False
    then show ?thesis using that W by (auto simp: at world_inv_def)
  qed
  moreover have "lists_ok so w'"
  proof -
    have old: "x \<in> set (j g) \<longleftrightarrow> x \<in> set (j0 g)" if "x \<noteq> (sd, key)" for x g
      using call_back_other [OF that] O [OF that] by (simp add: j_def)
    have L: "lists_ok so (w\<lparr>cw_joined := j0\<rparr>)" using W by (simp only: world_inv_def)
    have m: "x \<in> set (j0 g) \<longleftrightarrow> member_at w x g" "x \<in> set (j0 g) \<Longrightarrow> fst x = so g" for x g
      using lists_okD(1,2) [OF L, of x g] by (simp_all add: member_at_def)
    have "x \<in> set (j g) \<longleftrightarrow> member_at w' x g" for x g
      using J [of g] old [of x g] m(1) [of x g] at [of "fst x" "snd x"]
      by (cases "x = (sd, key)") (auto simp: member_at_def)
    moreover have "x \<in> set (j g) \<Longrightarrow> fst x = so g" for x g
      using J [of g] S [of g] old [of x g] m(2) [of x g] by (cases "x = (sd, key)") auto
    ultimately show ?thesis using D by (simp add: lists_ok_def jj)
  qed
  ultimately show ?thesis by (simp add: world_inv_def w'_def)
qed

lemma storedD:
  assumes "world_inv lib so {} w" "chan_at w sd key = Some c"
  shows "chan_ok c" "chan_owned c" "channel_key lib (ch_name c) = Some key" "events_of c = []"
    "is_on g c \<Longrightarrow> g < 0x100000000" "is_on g c \<Longrightarrow> so g = sd"
    "(sd, key) \<in> set (cw_joined w g) \<longleftrightarrow> is_on g c" "distinct (cw_joined w g)"
    "has_channel_flag CHANNEL_FLAG_LFG c \<Longrightarrow> is_constant c"
proof -
  have s: "stored_ok lib {} sd key c" and L: "lists_ok so w" using assms by (simp_all add: world_inv_def)
  show "chan_ok c" "chan_owned c" "channel_key lib (ch_name c) = Some key" "events_of c = []"
    "is_on g c \<Longrightarrow> g < 0x100000000" "has_channel_flag CHANNEL_FLAG_LFG c \<Longrightarrow> is_constant c"
    using s by (simp_all add: stored_ok_def)
  show j: "(sd, key) \<in> set (cw_joined w g) \<longleftrightarrow> is_on g c"
    using lists_okD(1) [OF L, of "(sd, key)" g] assms(2) by (simp add: member_at_def)
  show "is_on g c \<Longrightarrow> so g = sd" "distinct (cw_joined w g)"
    using j lists_okD(2) [OF L, of "(sd, key)" g] lists_okD(3) [OF L] by simp_all
qed

lemma world_inv_same_joined: "world_inv lib so E w = world_inv lib so E (w\<lparr>cw_joined := cw_joined w\<rparr>)"
  by simp

lemma world_inv_mono: "world_inv lib so {} w \<Longrightarrow> world_inv lib so E w"
  unfolding world_inv_def stored_ok_def by blast

lemma on_channel_None: "chan_at w sd key = None \<Longrightarrow> on_channel sd key f w = w"
  by (simp add: on_channel_def)

lemma keeps_inv:
  assumes W: "world_inv lib so {} w" and k: "\<And>c. chan_ok c \<Longrightarrow> chan_owned c \<Longrightarrow> keeps c (f c)"
  shows "world_inv lib so {} (on_channel sd key f w)"
proof (cases "chan_at w sd key")
  case (Some c)
  note d = storedD [OF W Some]
  have kc: "keeps c (f c)" by (rule k [OF d(1,2)])
  have e: "events_of (f c) = []" using kc d(4) by (simp add: keeps_def)
  show ?thesis
    by (rule on_channel_inv [where ?j0.0 = "cw_joined w" and c = c])
      (use W Some kc d in \<open>simp_all add: keeps_def e\<close>)
qed (simp add: on_channel_None W)

lemma join_inv:
  assumes W: "world_inv lib so {} w" and g: "pl_guid pl \<noteq> 0" "pl_guid pl < 0x100000000" "so (pl_guid pl) = sd"
  shows "world_inv lib so {} (on_channel sd key (join_channel env pl pass) w)"
proof (cases "chan_at w sd key")
  case (Some c)
  note d = storedD [OF W Some]
  show ?thesis
  proof (cases "join_refused env pl pass c")
    case True
    then have kc: "keeps c (join_channel env pl pass c)" by (rule silent_keeps [OF join_refused_silent])
    then have e: "events_of (join_channel env pl pass c) = []" using d(4) by (simp add: keeps_def)
    show ?thesis
      by (rule on_channel_inv [where ?j0.0 = "cw_joined w" and c = c])
        (use W Some kc d in \<open>simp_all add: keeps_def e\<close>)
  next
    case False
    then have new: "\<not> is_on (pl_guid pl) c" "\<not> is_banned (pl_guid pl) c" by (auto simp: join_refused_def)
    note i = join_admit_inv [OF d(1,2) g(1) new, where env = env, folded join_accepted [OF False]]
    show ?thesis
      by (rule on_channel_inv [where ?j0.0 = "cw_joined w" and c = c])
        (use W Some i d new g in \<open>auto simp: d(7)\<close>)
  qed
qed (simp add: on_channel_None W)

lemma kick_inv:
  assumes W: "world_inv lib so {} w" and v: "victim_guid (ce_by_name env nm) \<noteq> pl_guid pl"
  shows "world_inv lib so {} (on_channel sd key (kick_or_ban env pl nm ban) w)"
proof (cases "chan_at w sd key")
  case (Some c)
  note d = storedD [OF W Some]
  show ?thesis
  proof (cases "kick_refused env pl nm c")
    case True
    then have kc: "keeps c (kick_or_ban env pl nm ban c)" by (rule silent_keeps [OF kick_refused_silent])
    then have e: "events_of (kick_or_ban env pl nm ban c) = []" using d(4) by (simp add: keeps_def)
    show ?thesis
      by (rule on_channel_inv [where ?j0.0 = "cw_joined w" and c = c])
        (use W Some kc d in \<open>simp_all add: keeps_def e\<close>)
  next
    case False
    then have on: "is_on (pl_guid pl) c" "is_on (victim_guid (ce_by_name env nm)) c"
      by (auto simp: kick_refused_def)
    note i = remove_member_inv [OF d(1,2) on v, where env = env and ban = ban, folded kick_accepted [OF False]]
    show ?thesis
      by (rule on_channel_inv [where ?j0.0 = "cw_joined w" and c = c])
        (use W Some i d on in \<open>auto simp: d(7) distinct_removeAll\<close>)
  qed
qed (simp add: on_channel_None W)

text \<open>Leaving may empty a custom channel; \<open>ChannelMgr::LeftChannel\<close> then deletes it.\<close>

lemma leave_inv:
  assumes W: "world_inv lib so {} w"
  shows "world_inv lib so {(sd, key)} (on_channel sd key (leave_channel env pl True) w)"
proof (cases "chan_at w sd key")
  case (Some c)
  note d = storedD [OF W Some]
  show ?thesis
  proof (cases "is_on (pl_guid pl) c")
    case False
    then have kc: "keeps c (leave_channel env pl True c)" by (rule silent_keeps [OF leave_refused])
    then have e: "events_of (leave_channel env pl True c) = []" using d(4) by (simp add: keeps_def)
    show ?thesis
      by (rule on_channel_inv [where ?j0.0 = "cw_joined w" and c = c])
        (use world_inv_mono [OF W] Some kc d in \<open>simp_all add: keeps_def e\<close>)
  next
    case True
    note i = leave_member_inv [OF d(1,2) True, where env = env and send = True]
    show ?thesis
      by (rule on_channel_inv [where ?j0.0 = "cw_joined w" and c = c])
        (use world_inv_mono [OF W] Some i d True in \<open>auto simp: d(7) distinct_removeAll\<close>)
  qed
qed (simp add: on_channel_None world_inv_mono W)

lemma num_players_zero:
  assumes "chan_ok c" "\<And>g. is_on g c \<Longrightarrow> g < 0x100000000"
  shows "num_players c = 0 \<longleftrightarrow> ch_players c = []"
proof -
  let ?ks = "map fst (ch_players c)"
  have d: "distinct ?ks" using assms(1) by (simp add: chan_ok_def om_inv_distinct)
  have "set ?ks \<subseteq> {g. g \<noteq> 0 \<and> g < 0x100000000}"
  proof
    fix g assume "g \<in> set ?ks"
    then have on: "is_on g c" by (simp add: is_on_def om_has_conv)
    then show "g \<in> {g. g \<noteq> 0 \<and> g < 0x100000000}"
      using assms(2) [OF on] chan_ok_member [OF assms(1) on] by (simp add: member_ok_def)
  qed
  moreover have sub: "unat ` {g :: guid. g \<noteq> 0 \<and> g < 0x100000000} \<subseteq> {1 ..< 2 ^ 32}"
    by (auto simp: word_less_nat_alt unat_gt_0 Suc_le_eq)
  ultimately have "unat ` set ?ks \<subseteq> {1 ..< 2 ^ 32}" by blast
  then have "card (unat ` set ?ks) \<le> 2 ^ 32 - 1" using card_mono [of "{1 ..< 2 ^ 32 :: nat}"] by force
  moreover have "card (unat ` set ?ks) = length ?ks"
  proof -
    have "inj_on unat (set ?ks)" by (simp add: inj_on_def word_unat_eq_iff)
    from card_image [OF this] distinct_card [OF d] show ?thesis by simp
  qed
  ultimately have "length (ch_players c) < 2 ^ 32" by simp
  then have "unat (num_players c) = length (ch_players c)"
    by (simp add: num_players_def unat_of_nat)
  then show ?thesis by (metis length_0_conv unat_0_iff)
qed

lemma left_channel_inv:
  assumes W: "world_inv lib so E w" and E: "\<And>key. channel_key lib name = Some key \<Longrightarrow> E \<subseteq> {(sd, key)}"
    and none: "channel_key lib name = None \<Longrightarrow> E = {}"
  shows "world_inv lib so {} (put_mgr sd (left_channel lib name (get_mgr sd w)) w)"
proof -
  define w' where "w' = put_mgr sd (left_channel lib name (get_mgr sd w)) w"
  have jj: "cw_joined w' = cw_joined w" by (simp add: w'_def)
  have st: "stored_ok lib E a k c" if "chan_at w a k = Some c" for a k c
    using W that by (simp add: world_inv_def)
  have np: "num_players c = 0 \<longleftrightarrow> ch_players c = []" if "chan_at w a k = Some c" for a k c
    using num_players_zero [of c] st [OF that] by (simp add: stored_ok_def)
  have om: "om_inv (cm_channels (get_mgr a w'))" for a
    using W by (auto simp: w'_def world_inv_def left_channel_def split: option.split)
  have at: "chan_at w' a k = (if a = sd \<and> channel_key lib name = Some k
     \<and> (\<exists>c. chan_at w a k = Some c \<and> ch_players c = [] \<and> \<not> is_constant c) then None else chan_at w a k)" for a k
    using np by (auto simp: w'_def left_channel_def split: option.split)
  have "stored_ok lib {} a k c" if "chan_at w' a k = Some c" for a k c
  proof -
    have c: "chan_at w a k = Some c" using that by (simp add: at split: if_splits)
    have "\<not> ((a, k) \<in> E \<and> ch_players c = [] \<and> \<not> is_constant c)"
    proof
      assume e: "(a, k) \<in> E \<and> ch_players c = [] \<and> \<not> is_constant c"
      then obtain key where key: "channel_key lib name = Some key" using none by (cases "channel_key lib name") auto
      then have "(a, k) = (sd, key)" using E [OF key] e by blast
      then show False using that c e key by (simp add: at)
    qed
    then show ?thesis using st [OF c] by (auto simp: stored_ok_def)
  qed
  moreover have "member_at w' x g = member_at w x g" for x g
    using at [of "fst x" "snd x"] by (auto simp: member_at_def is_on_def)
  then have "lists_ok so w'" using W jj by (simp add: lists_ok_def world_inv_def)
  ultimately show ?thesis using om by (simp add: world_inv_def w'_def)
qed

text \<open>A new channel is empty and without owner; the bans of its row are in order.\<close>

lemma parse_bans_ok: "os_inv (parse_bans t []) \<and> 0 \<notin> set (parse_bans t [])"
proof -
  have "os_inv (fold (\<lambda>t b. if strtoull t \<noteq> 0 then os_ins (strtoull t) b else b) ts b)
      \<and> 0 \<notin> set (fold (\<lambda>t b. if strtoull t \<noteq> 0 then os_ins (strtoull t) b else b) ts b)"
    if "os_inv b \<and> 0 \<notin> set b" for ts b
    using that by (induction ts arbitrary: b) auto
  then show ?thesis by (simp add: parse_bans_def)
qed

lemma new_channel_fields:
  "ch_players (new_channel env name i team) = []" "ch_owner (new_channel env name i team) = 0"
  "ch_name (new_channel env name i team) = name" "events_of (new_channel env name i team) = []"
  "ch_id (new_channel env name i team) = i" "chan_ok (new_channel env name i team)"
  "ce_dbc_flags env i \<noteq> None \<Longrightarrow> \<not> ch_ownership (new_channel env name i team)"
  "ce_dbc_flags env 0 = None \<Longrightarrow> has_channel_flag CHANNEL_FLAG_LFG (new_channel env name i team) \<Longrightarrow> i \<noteq> 0"
  by (auto simp: new_channel_def Let_def events_of_def out_log chan_ok_def parse_bans_ok
      has_channel_flag_def CHANNEL_FLAG_LFG_def CHANNEL_FLAG_CUSTOM_def split: option.splits if_splits)

lemma new_channel_owned: "i = 0 \<or> ce_dbc_flags env i \<noteq> None \<Longrightarrow> chan_owned (new_channel env name i team)"
  using new_channel_fields by (auto simp: chan_owned_def is_constant_def)

lemma world_inv_team: "world_inv lib so E (put_mgr sd ((get_mgr sd w)\<lparr>cm_team := t\<rparr>) w) = world_inv lib so E w"
proof -
  have c: "cm_channels (get_mgr a (put_mgr sd ((get_mgr sd w)\<lparr>cm_team := t\<rparr>) w)) = cm_channels (get_mgr a w)" for a
    by simp
  show ?thesis unfolding world_inv_def lists_ok_def member_at_def c by simp
qed

lemma create_inv:
  assumes W: "world_inv lib so {} w" and i: "i = 0 \<or> ce_dbc_flags env i \<noteq> None"
    and z: "ce_dbc_flags env 0 = None"
    and r: "get_join_channel env lib name i ((get_mgr sd w)\<lparr>cm_team := t\<rparr>) = (k, m)"
  shows "world_inv lib so {} (put_mgr sd m w)"
proof (cases "k = None \<or> m = (get_mgr sd w)\<lparr>cm_team := t\<rparr>")
  case True
  then have "m = (get_mgr sd w)\<lparr>cm_team := t\<rparr>"
    using r by (auto simp: get_join_channel_def split: option.splits)
  then show ?thesis using W world_inv_team by simp
next
  case False
  then obtain key where key: "channel_key lib name = Some key" "chan_at w sd key = None"
    and m: "m = (get_mgr sd w)\<lparr>cm_team := t, cm_channels := om_set key (new_channel env name i t) (cm_channels (get_mgr sd w))\<rparr>"
    using r by (auto simp: get_join_channel_def split: option.splits)
  define w' where "w' = put_mgr sd m w"
  have jj: "cw_joined w' = cw_joined w" by (simp add: w'_def)
  have at: "chan_at w' a k = (if (a, k) = (sd, key) then Some (new_channel env name i t) else chan_at w a k)" for a k
    by (simp add: w'_def m)
  have "stored_ok lib {} a k c" if "chan_at w' a k = Some c" for a k c
  proof (cases "(a, k) = (sd, key)")
    case True
    then show ?thesis
      using that new_channel_fields [where env = env and name = name and i = i and team = t]
        new_channel_owned [OF i, of name t] key(1) z
      by (auto simp: at stored_ok_def is_on_def is_constant_def)
  next
    case False
    then show ?thesis using that W by (auto simp: at world_inv_def)
  qed
  moreover have "member_at w' x g = member_at w x g" for x g
    using at [of "fst x" "snd x"] key(2) new_channel_fields(1)
    by (cases "x = (sd, key)") (auto simp: member_at_def is_on_def)
  then have "lists_ok so w'" using W jj by (simp add: lists_ok_def world_inv_def)
  moreover have "om_inv (cm_channels (get_mgr a w'))" for a using W by (simp add: w'_def m world_inv_def)
  ultimately show ?thesis by (simp add: world_inv_def w'_def)
qed

section \<open>The requests keep the invariant\<close>

lemma send_direct_inv [simp]: "world_inv lib so E (send_direct os w) = world_inv lib so E w"
  by (simp add: world_inv_def send_direct_def lists_ok_def member_at_def)

lemma send_direct_at [simp]: "get_mgr sd (send_direct os w) = get_mgr sd w"
  by (simp add: send_direct_def)

lemma with_named_inv:
  assumes W: "world_inv lib so {} w"
    and f: "\<And>sd key w. for_team (ce_two_side env) (pl_team (se_player se)) = Some sd \<Longrightarrow>
              world_inv lib so {} w \<Longrightarrow> world_inv lib so {} (on_channel sd key f w)"
  shows "world_inv lib so {} (with_named env lib se name f w)"
  using assms by (auto simp: with_named_def split: option.split prod.split)

lemma handle_join_inv:
  assumes W: "world_inv lib so {} w" and g: "pl_guid (se_player se) \<noteq> 0" "pl_guid (se_player se) < 0x100000000"
    and so: "for_team (ce_two_side env) (pl_team (se_player se)) = Some (so (pl_guid (se_player se)))"
    and z: "ce_dbc_flags env 0 = None"
  shows "world_inv lib so {} (handle_join env lib se i name pass w)"
proof (cases "\<not> may_join_id env se i \<or> name = [] \<or> is_digit (hd name)")
  case True
  then show ?thesis using W by (auto simp: handle_join_def)
next
  case False
  define sd where "sd = so (pl_guid (se_player se))"
  obtain k m where km: "get_join_channel env lib name i ((get_mgr sd w)\<lparr>cm_team := pl_team (se_player se)\<rparr>) = (k, m)"
    by (cases "get_join_channel env lib name i ((get_mgr sd w)\<lparr>cm_team := pl_team (se_player se)\<rparr>)")
  have "i = 0 \<or> ce_dbc_flags env i \<noteq> None" using False by (auto simp: may_join_id_def)
  note c = create_inv [OF W this z km]
  have "handle_join env lib se i name pass w =
      (case k of None \<Rightarrow> put_mgr sd m w
       | Some key \<Rightarrow> on_channel sd key (join_channel env (se_player se) pass) (put_mgr sd m w))"
    using False so km by (auto simp: handle_join_def sd_def Let_def split: option.split)
  then show ?thesis
    using c join_inv [OF c g, of sd] by (auto simp: sd_def split: option.split)
qed

lemma handle_leave_inv:
  assumes W: "world_inv lib so {} w"
  shows "world_inv lib so {} (handle_leave env lib se name w)"
proof (cases "name = [] \<or> for_team (ce_two_side env) (pl_team (se_player se)) = None")
  case True
  then show ?thesis using W by (auto simp: handle_leave_def)
next
  case False
  then obtain sd where sd: "for_team (ce_two_side env) (pl_team (se_player se)) = Some sd" by auto
  define w1 where "w1 = with_named env lib se name (leave_channel env (se_player se) True) w"
  have eq: "handle_leave env lib se name w = put_mgr sd (left_channel lib name (get_mgr sd w1)) w1"
    using False sd by (simp add: handle_leave_def w1_def Let_def)
  obtain k os where k: "get_channel lib name (pl_guid (se_player se)) True (get_mgr sd w) = (k, os)"
    by (cases "get_channel lib name (pl_guid (se_player se)) True (get_mgr sd w)")
  show ?thesis
  proof (cases k)
    case None
    then have "w1 = send_direct os w" by (simp add: w1_def with_named_def sd k)
    then have "world_inv lib so {} w1" using W by simp
    from left_channel_inv [OF this] show ?thesis by (simp add: eq)
  next
    case (Some key)
    then have key: "channel_key lib name = Some key"
      using k by (auto simp: get_channel_def split: option.splits if_splits list.splits)
    have w1: "w1 = on_channel sd key (leave_channel env (se_player se) True) (send_direct os w)"
      by (simp add: w1_def with_named_def sd k Some)
    have "world_inv lib so {(sd, key)} w1" unfolding w1 by (rule leave_inv) (simp add: W)
    from left_channel_inv [OF this, of name sd] show ?thesis by (simp add: eq key)
  qed
qed

text \<open>One round of the clean-up: the channel is left, then deleted if that emptied it.\<close>

lemma cleanup_one_steps:
  assumes W: "world_inv lib so {} w" and j: "cw_joined w (pl_guid pl) = r # rest"
    and so: "for_team (ce_two_side env) (pl_team pl) = Some (so (pl_guid pl))"
  obtains c :: channel and w2 where "cleanup_one env lib pl r w = put_mgr (fst r) (left_channel lib (ch_name c) (get_mgr (fst r) w2)) w2"
    "world_inv lib so {r} w2" "channel_key lib (ch_name c) = Some (snd r)" "cw_joined w2 (pl_guid pl) = rest"
    "\<And>r' x. member_at w2 r' x \<longleftrightarrow> member_at w r' x \<and> (r', x) \<noteq> (r, pl_guid pl)"
proof -
  define g where "g = pl_guid pl"
  obtain sd key where r: "r = (sd, key)" by (cases r)
  have L: "lists_ok so w" using W by (simp add: world_inv_def)
  have sd: "so g = sd" using lists_okD(2) [OF L, of r g] j by (simp add: g_def r)
  have dist: "distinct (r # rest)" using lists_okD(3) [OF L, of g] j by (simp add: g_def)
  obtain c where c: "chan_at w sd key = Some c" "is_on g c"
    using lists_okD(1) [OF L, of r g] j by (auto simp: member_at_def g_def r)
  note d = storedD [OF W c(1)]
  define w1 where "w1 = w\<lparr>cw_joined := (cw_joined w)(g := rest)\<rparr>"
  have c1: "chan_at w1 sd key = Some c" using c by (simp add: w1_def)
  note i = leave_member_inv [OF d(1,2) c(2) [unfolded g_def], where env = env and send = False]
  have e: "events_of (leave_channel env pl False c) = []" using i(7) d(4) by simp
  define w2 where "w2 = on_channel sd key (leave_channel env pl False) w1"
  have w2: "world_inv lib so {r} w2"
    unfolding w2_def r
  proof (rule on_channel_inv [where ?j0.0 = "cw_joined w" and c = c])
    show "world_inv lib so {(sd, key)} (w1\<lparr>cw_joined := cw_joined w\<rparr>)"
      using world_inv_mono [OF W] by (simp add: w1_def)
    show "(sd, key) \<in> set (fold (call_back (sd, key)) (events_of (leave_channel env pl False c)) (cw_joined w1) x)
        \<longleftrightarrow> is_on x (leave_channel env pl False c)" for x
      using i(3) d(7) dist by (auto simp: e w1_def g_def r)
    show "distinct (fold (call_back (sd, key)) (events_of (leave_channel env pl False c)) (cw_joined w1) x)" for x
      using d(8) dist by (simp add: e w1_def)
    show "y \<in> set (cw_joined w1 x) \<longleftrightarrow> y \<in> set (cw_joined w x)" if "y \<noteq> (sd, key)" for x y
      using that j by (auto simp: w1_def g_def r)
  qed (use c1 i d in auto)
  have "member_at w1 r' x = member_at w r' x" for r' x by (simp add: member_at_def w1_def)
  then have m: "member_at w2 r' x \<longleftrightarrow> member_at w r' x \<and> (r', x) \<noteq> (r, pl_guid pl)" for r' x
    unfolding w2_def member_on [OF c1] using c(1) i(3) by (auto simp: member_at_def r)
  have "cleanup_one env lib pl r w = put_mgr sd (left_channel lib (ch_name c) (get_mgr sd w2)) w2"
    using chan_at_on [OF c1, where f = "leave_channel env pl False" and a = sd and k = key] i(4) so sd
    by (simp add: cleanup_one_def Let_def j r w1_def w2_def g_def)
  moreover have "cw_joined w2 (pl_guid pl) = rest"
    by (simp add: w2_def on_channel_Some [OF c1] e) (simp add: w1_def g_def)
  ultimately show ?thesis using that [of c w2] w2 m d(3) by (simp add: r)
qed

lemma cleanup_one_inv:
  assumes W: "world_inv lib so {} w" and j: "cw_joined w (pl_guid pl) = r # rest"
    and so: "for_team (ce_two_side env) (pl_team pl) = Some (so (pl_guid pl))"
  shows "world_inv lib so {} (cleanup_one env lib pl r w)"
    "cw_joined (cleanup_one env lib pl r w) (pl_guid pl) = rest"
proof -
  obtain c :: channel and w2 where eq: "cleanup_one env lib pl r w = put_mgr (fst r) (left_channel lib (ch_name c) (get_mgr (fst r) w2)) w2"
    and i: "world_inv lib so {r} w2" "channel_key lib (ch_name c) = Some (snd r)" "cw_joined w2 (pl_guid pl) = rest"
    using cleanup_one_steps [OF assms] by metis
  show "world_inv lib so {} (cleanup_one env lib pl r w)"
    unfolding eq using left_channel_inv [OF i(1), of "ch_name c" "fst r"] i(2) by simp
  show "cw_joined (cleanup_one env lib pl r w) (pl_guid pl) = rest" using i(3) by (simp add: eq)
qed

lemma cleanup_inv:
  assumes "world_inv lib so {} w" "for_team (ce_two_side env) (pl_team pl) = Some (so (pl_guid pl))"
  shows "world_inv lib so {} (cleanup_channels env lib pl w) \<and> cw_joined (cleanup_channels env lib pl w) (pl_guid pl) = []"
proof -
  have "world_inv lib so {} (fold (cleanup_one env lib pl) rs w)
      \<and> cw_joined (fold (cleanup_one env lib pl) rs w) (pl_guid pl) = []"
    if "world_inv lib so {} w" "cw_joined w (pl_guid pl) = rs" for rs w
    using that
  proof (induction rs arbitrary: w)
    case (Cons r rs)
    note i = cleanup_one_inv [OF Cons.prems, OF assms(2)]
    show ?case using Cons.IH [OF i] by simp
  qed simp
  then show ?thesis using assms(1) by (simp add: cleanup_channels_def)
qed

lemma lfg_leave_inv:
  assumes W: "world_inv lib so {} w"
  shows "world_inv lib so {} (leave_lfg_channel env pl w)"
proof (cases "find (is_lfg_ref w) (cw_joined w (pl_guid pl))")
  case (Some r)
  obtain sd key where r: "r = (sd, key)" by (cases r)
  have lr: "is_lfg_ref w r" using Some by (auto simp: find_Some_iff)
  then obtain c where c: "chan_at w sd key = Some c" "has_channel_flag CHANNEL_FLAG_LFG c"
    by (auto simp: is_lfg_ref_def r split: option.splits)
  define w1 where "w1 = on_channel sd key (leave_channel env pl True) w"
  have w1: "world_inv lib so {(sd, key)} w1" unfolding w1_def by (rule leave_inv [OF W])
  note d = storedD [OF W c(1)]
  have k: "is_constant c" by (rule d(9) [OF c(2)])
  have st: "stored_ok lib {(sd, key)} sd key d \<Longrightarrow> is_constant d \<Longrightarrow> stored_ok lib {} sd key d" for d
    by (auto simp: stored_ok_def)
  have "is_constant (leave_channel env pl True c)"
    using k silentD(11) [OF leave_refused, of pl c env True]
      leave_member_inv(5) [OF d(1,2), of pl env True] by (cases "is_on (pl_guid pl) c") (auto simp: is_constant_def)
  then have "is_constant d" if "chan_at w1 sd key = Some d" for d
    using that by (simp add: w1_def on_channel_Some [OF c(1)]) (auto simp: is_constant_def)
  then have "world_inv lib so {} w1"
    using w1 st unfolding world_inv_def stored_ok_def by blast
  then show ?thesis by (simp add: leave_lfg_channel_def Some r w1_def)
qed (simp add: leave_lfg_channel_def W)

section \<open>Names are compared without case\<close>

text \<open>The two case rules on code points.\<close>

definition low_nat :: "nat \<Rightarrow> nat" where
  "low_nat c =
     (if 0x41 \<le> c \<and> c \<le> 0x5A then c + 0x20
      else if 0xC0 \<le> c \<and> c \<le> 0xD6 then c + 0x20
      else if 0xD8 \<le> c \<and> c \<le> 0xDE then c + 0x20
      else if 0x100 \<le> c \<and> c \<le> 0x12E \<and> c mod 2 = 0 then c + 1
      else if c = 0x1E9E then 0xDF
      else if c = 0x401 then 0x451
      else if 0x410 \<le> c \<and> c \<le> 0x42F then c + 0x20
      else c)"

definition up_nat :: "nat \<Rightarrow> nat" where
  "up_nat c =
     (if 0x61 \<le> c \<and> c \<le> 0x7A then c - 0x20
      else if c = 0xDF then 0x1E9E
      else if 0xE0 \<le> c \<and> c \<le> 0xF6 then c - 0x20
      else if 0xF8 \<le> c \<and> c \<le> 0xFE then c - 0x20
      else if 0x101 \<le> c \<and> c \<le> 0x12F \<and> c mod 2 = 1 then c - 1
      else if 0x430 \<le> c \<and> c \<le> 0x44F then c - 0x20
      else if c = 0x451 then 0x401
      else c)"

lemma low_nat_shift:
  assumes "0x41 \<le> d \<and> d \<le> 0x5A \<or> 0xC0 \<le> d \<and> d \<le> 0xD6 \<or> 0xD8 \<le> d \<and> d \<le> 0xDE \<or> 0x410 \<le> d \<and> d \<le> 0x42F"
  shows "low_nat d = d + 32" "low_nat (d + 32) = d + 32" "up_nat (d + 32) = d"
  using assms by (auto simp: low_nat_def up_nat_def)

lemma low_nat_odd:
  assumes "0x100 \<le> d" "d \<le> 0x12E" "d mod 2 = 0"
  shows "low_nat d = Suc d" "low_nat (Suc d) = Suc d" "up_nat (Suc d) = d"
proof -
  have "Suc d mod 2 = 1" using assms(3) by presburger
  then show "low_nat d = Suc d" "low_nat (Suc d) = Suc d" "up_nat (Suc d) = d"
    using assms by (simp_all add: low_nat_def up_nat_def)
qed

lemma low_up: "low_nat (up_nat c) = low_nat c"
proof -
  have o: "up_nat c = c" if
    "\<not> (0x61 \<le> c \<and> c \<le> 0x7A \<or> 0xE0 \<le> c \<and> c \<le> 0xF6 \<or> 0xF8 \<le> c \<and> c \<le> 0xFE \<or> 0x430 \<le> c \<and> c \<le> 0x44F)"
    "\<not> (0x101 \<le> c \<and> c \<le> 0x12F \<and> c mod 2 = 1)" "c \<noteq> 0xDF" "c \<noteq> 0x451"
    using that unfolding up_nat_def by (simp del: One_nat_def) auto
  consider (shift) "0x61 \<le> c \<and> c \<le> 0x7A \<or> 0xE0 \<le> c \<and> c \<le> 0xF6 \<or> 0xF8 \<le> c \<and> c \<le> 0xFE \<or> 0x430 \<le> c \<and> c \<le> 0x44F"
    | (odd) "0x101 \<le> c" "c \<le> 0x12F" "c mod 2 = 1" | (sharp) "c = 0xDF" | (io) "c = 0x451"
    | (other) "up_nat c = c"
    using o by blast
  then show ?thesis
  proof cases
    case shift
    define d where "d = c - 32"
    have c: "c = d + 32" using shift by (auto simp: d_def)
    show ?thesis using shift unfolding c by (simp add: low_nat_shift)
  next
    case odd
    define d where "d = c - 1"
    have c: "c = Suc d" using odd by (simp add: d_def)
    have "d mod 2 = 0" using odd(3) unfolding c by presburger
    then show ?thesis using odd unfolding c by (simp add: low_nat_odd)
  qed (simp_all add: low_nat_def up_nat_def)
qed

lemma wc16_small: "unat c \<le> 0x1000 \<Longrightarrow> wc16 c = c"
  by (simp add: wc16_def word_unat_eq_iff unsigned_ucast_eq unsigned_take_bit_eq take_bit_nat_eq_self)

lemma unat_low: "unat (wchar_to_lower c) = low_nat (unat c)"
proof -
  have p: "unat c \<le> 0x1000 \<Longrightarrow> unat k \<le> 0x1000 \<Longrightarrow> unat (wc16 c + k) = unat c + unat k" for k
    by (simp add: wc16_small unat_word_ariths)
  show ?thesis
    unfolding wchar_to_lower_def low_nat_def word_le_nat_alt word_unat_eq_iff unat_mod by (simp add: p)
qed

lemma unat_up: "unat (wchar_to_upper c) = up_nat (unat c)"
proof -
  have p: "unat c \<le> 0x1000 \<Longrightarrow> unat k \<le> unat c \<Longrightarrow> unat (wc16 c - k) = unat c - unat k" for k
    by (simp add: wc16_small unat_sub_if')
  show ?thesis
    unfolding wchar_to_upper_def up_nat_def word_le_nat_alt word_unat_eq_iff unat_mod by (simp add: p)
qed

lemma lower_upper: "wchar_to_lower (wchar_to_upper c) = wchar_to_lower c"
  by (simp add: word_unat_eq_iff unat_low unat_up low_up)

text \<open>
  Channel names are one name whatever their case: two names with the same capitals, in all the
  alphabets the case rules know, reach the same channel, by every request, and the second join does
  not create a second channel.
\<close>
theorem channel_names_ignore_case:
  assumes "utf8_to_wstr lib a = Some u" "utf8_to_wstr lib b = Some v"
    and "map wchar_to_upper u = map wchar_to_upper v"
  shows "channel_key lib a = channel_key lib b
    \<and> fst (get_channel lib a g p m) = fst (get_channel lib b g p m)
    \<and> (let (k, m1) = get_join_channel env lib a i m in
         k = Some (map wchar_to_lower u) \<and> get_join_channel env lib b j m1 = (k, m1))
    \<and> left_channel lib a m = left_channel lib b m"
proof -
  have l: "map wchar_to_lower w = map wchar_to_lower (map wchar_to_upper w)" for w
    by (simp add: lower_upper)
  have "map wchar_to_lower u = map wchar_to_lower v" using l [of u] l [of v] assms(3) by simp
  then have k: "channel_key lib a = Some (map wchar_to_lower u)" "channel_key lib b = Some (map wchar_to_lower u)"
    using assms(1,2) by (simp_all add: channel_key_def wstr_to_lower_def)
  show ?thesis
    by (auto simp: get_channel_def get_join_channel_def left_channel_def k Let_def split: option.split list.split)
qed

definition ascii_lib :: utf8_lib where
  "ascii_lib = \<lparr>uf_distance = (\<lambda>s. Some (length s)), uf_to16 = (\<lambda>s. Some (map of_char s)),
     uf_to8 = (\<lambda>w. Some (map (\<lambda>c. char_of (unat c)) w))\<rparr>"

theorem channel_names_ignore_case_witness:
  "channel_key ascii_lib ''LFG'' = channel_key ascii_lib ''lfg''"
proof -
  have *: "utf8_to_wstr ascii_lib ''LFG'' = Some [0x4C, 0x46, 0x47]"
    "utf8_to_wstr ascii_lib ''lfg'' = Some [0x6C, 0x66, 0x67]"
    "map wchar_to_upper [0x4C, 0x46, 0x47] = map wchar_to_upper [0x6C, 0x66, 0x67]"
    by code_simp+
  show ?thesis using channel_names_ignore_case [OF *] by simp
qed

section \<open>Runs\<close>

definition handle_channel_chat :: "chan_env \<Rightarrow> utf8_lib \<Rightarrow> session \<Rightarrow> string \<Rightarrow> string \<Rightarrow> u32 \<Rightarrow> chat_world \<Rightarrow> chat_world" where
  "handle_channel_chat env lib se name msg lang w =
     with_named env lib se name (say env (pl_guid (se_player se)) msg lang) w"

datatype chat_cmd =
    CJoin u32 string string | CLeave string | CList string | CSetOwner string string | COwner string
  | CModerator string string | CUnmoderator string string | CMute string string | CUnmute string string
  | CInvite string string | CKick string string | CBan string string | CUnban string string
  | CAnnouncements string | CMemberCount string | CChat string string u32 | CLogout | CLeaveLfg

fun chat_step :: "utf8_lib \<Rightarrow> chan_env \<times> session \<times> chat_cmd \<Rightarrow> chat_world \<Rightarrow> chat_world" where
  "chat_step lib (env, se, CJoin i n p) w = handle_join env lib se i n p w"
| "chat_step lib (env, se, CLeave n) w = handle_leave env lib se n w"
| "chat_step lib (env, se, CList n) w = handle_list env lib se n w"
| "chat_step lib (env, se, CSetOwner n t) w = handle_set_owner env lib se n t w"
| "chat_step lib (env, se, COwner n) w = handle_owner env lib se n w"
| "chat_step lib (env, se, CModerator n t) w = handle_moderator env lib se n t w"
| "chat_step lib (env, se, CUnmoderator n t) w = handle_unmoderator env lib se n t w"
| "chat_step lib (env, se, CMute n t) w = handle_mute env lib se n t w"
| "chat_step lib (env, se, CUnmute n t) w = handle_unmute env lib se n t w"
| "chat_step lib (env, se, CInvite n t) w = handle_invite env lib se n t w"
| "chat_step lib (env, se, CKick n t) w = handle_kick env lib se n t w"
| "chat_step lib (env, se, CBan n t) w = handle_ban env lib se n t w"
| "chat_step lib (env, se, CUnban n t) w = handle_unban env lib se n t w"
| "chat_step lib (env, se, CAnnouncements n) w = handle_announcements env lib se n w"
| "chat_step lib (env, se, CMemberCount n) w = handle_member_count env lib se n w"
| "chat_step lib (env, se, CChat n m l) w = handle_channel_chat env lib se n m l w"
| "chat_step lib (env, se, CLogout) w = cleanup_channels env lib (se_player se) w"
| "chat_step lib (env, se, CLeaveLfg) w = leave_lfg_channel env (se_player se) w"

text \<open>
  What a run assumes of its requests: the player has a player's GUID, his side and the configuration
  choose the same manager all along (both are fixed while the server runs), the table of channels
  starts at 1, and nobody kicks or bans himself (\<open>self_kick_ghost\<close> says what happens then).
\<close>

definition targets_self :: "utf8_lib \<Rightarrow> chan_env \<Rightarrow> player \<Rightarrow> string \<Rightarrow> bool" where
  "targets_self lib env pl t = (case normalize_player_name lib t of None \<Rightarrow> False
     | Some n \<Rightarrow> victim_guid (ce_by_name env n) = pl_guid pl)"

fun legal_cmd :: "utf8_lib \<Rightarrow> chan_env \<Rightarrow> player \<Rightarrow> chat_cmd \<Rightarrow> bool" where
  "legal_cmd lib env pl (CKick n t) = (\<not> targets_self lib env pl t)"
| "legal_cmd lib env pl (CBan n t) = (\<not> targets_self lib env pl t)"
| "legal_cmd lib env pl _ = True"

definition legal :: "utf8_lib \<Rightarrow> (guid \<Rightarrow> side) \<Rightarrow> chan_env \<times> session \<times> chat_cmd \<Rightarrow> bool" where
  "legal lib so e = (case e of (env, se, cmd) \<Rightarrow>
     pl_guid (se_player se) \<noteq> 0 \<and> pl_guid (se_player se) < 0x100000000
     \<and> for_team (ce_two_side env) (pl_team (se_player se)) = Some (so (pl_guid (se_player se)))
     \<and> ce_dbc_flags env 0 = None \<and> legal_cmd lib env (se_player se) cmd)"

lemma named_keeps_inv:
  assumes "world_inv lib so {} w" "\<And>c. chan_ok c \<Longrightarrow> chan_owned c \<Longrightarrow> keeps c (f c)"
  shows "world_inv lib so {} (with_named env lib se name f w)"
  using assms by (intro with_named_inv keeps_inv)

lemma target_keeps_inv:
  assumes "world_inv lib so {} w" "\<And>t c. chan_ok c \<Longrightarrow> chan_owned c \<Longrightarrow> keeps c (f t c)"
  shows "world_inv lib so {} (with_target env lib se name target f w)"
  using assms by (auto simp: with_target_def intro: named_keeps_inv split: option.split)

lemma member_count_keeps: "keeps c (out (SendPacket g p) c)"
  by (rule silent_keeps) (auto simp: silent_def out_log)

lemmas request_defs = handle_list_def handle_set_owner_def handle_owner_def handle_moderator_def
  handle_unmoderator_def handle_mute_def handle_unmute_def handle_invite_def handle_unban_def
  handle_announcements_def handle_member_count_def handle_channel_chat_def

lemma chat_step_inv:
  assumes W: "world_inv lib so {} w" and l: "legal lib so e"
  shows "world_inv lib so {} (chat_step lib e w)"
proof -
  obtain env se cmd where e: "e = (env, se, cmd)" by (cases e) auto
  have g: "pl_guid (se_player se) \<noteq> 0" "pl_guid (se_player se) < 0x100000000"
    "for_team (ce_two_side env) (pl_team (se_player se)) = Some (so (pl_guid (se_player se)))"
    "ce_dbc_flags env 0 = None"
    using l by (simp_all add: legal_def e)
  note k = named_keeps_inv [OF W] target_keeps_inv [OF W] silent_keeps query_silent command_keeps
    member_count_keeps
  have kick: "world_inv lib so {} (with_target env lib se n t (\<lambda>t. kick_or_ban env (se_player se) t b) w)"
    if "\<not> targets_self lib env (se_player se) t" for n t b
    using that W by (auto simp: with_target_def targets_self_def intro!: with_named_inv kick_inv split: option.split)
  show ?thesis
    unfolding e
    using l kick
    by (cases cmd)
      (simp_all add: e legal_def request_defs handle_kick_def handle_ban_def handle_join_inv [OF W g]
        handle_leave_inv [OF W] cleanup_inv [OF W g(3)] lfg_leave_inv [OF W] k)
qed

text \<open>The requests of a run as a transition system; requests that are not legal are left out.\<close>

interpretation chat: transition_system
  "\<lambda>e w. if legal lib so e then chat_step lib e w else w" "world_inv lib so {}" for lib so
  by unfold_locales (simp add: chat_step_inv)

lemma fold_legal:
  "list_all (legal lib so) es \<Longrightarrow>
     fold (\<lambda>e w. if legal lib so e then chat_step lib e w else w) es w = fold (chat_step lib) es w"
  by (induction es arbitrary: w) auto

lemma run_world_inv:
  "list_all (legal lib so) es \<Longrightarrow> world_inv lib so {} (fold (chat_step lib) es new_chat_world)"
  using chat.run_inv [OF new_chat_world_inv, of lib so es] by (simp add: fold_legal)

text \<open>
  C8: The channels in every run in which nobody kicks or bans himself: a request clients can send, after which
  the code breaks exactly this (\<open>Channel.cpp:341\<close>, theorem \<open>self_kick_ghost\<close>). The players of the run
  have 32-bit GUIDs other than 0 and keep their side, and the table of built-in channels starts at 1. After any such
  sequence of requests, on both sides: a channel is stored
  under the lower-case form of its name; its members and bans are ordered and disjoint; at most the
  owner carries the owner flag, and where ownership is handed out a channel with members has an
  owner, who is a member and flagged, while one without members has none; and a player's list of
  channels holds, once each, exactly the channels he is a member of. So no list ever points to a
  deleted channel.
\<close>
theorem chat_world_in_every_run:
  assumes "list_all (legal lib so) es"
  shows "let w = fold (chat_step lib) es new_chat_world in
     (\<forall>sd key c. chan_at w sd key = Some c \<longrightarrow>
        channel_key lib (ch_name c) = Some key
        \<and> om_inv (ch_players c) \<and> os_inv (ch_banned c) \<and> (\<forall>g. is_on g c \<longrightarrow> \<not> is_banned g c)
        \<and> (\<forall>g. is_on g c \<and> pi_is MEMBER_FLAG_OWNER (info_at g c) \<longrightarrow> g = ch_owner c)
        \<and> (ch_ownership c \<longrightarrow> (if ch_players c = [] then ch_owner c = 0
             else is_on (ch_owner c) c \<and> pi_is MEMBER_FLAG_OWNER (info_at (ch_owner c) c))))
     \<and> (\<forall>g sd key. (sd, key) \<in> set (cw_joined w g) \<longleftrightarrow> (\<exists>c. chan_at w sd key = Some c \<and> is_on g c))
     \<and> (\<forall>g. distinct (cw_joined w g))"
proof -
  define w where "w = fold (chat_step lib) es new_chat_world"
  have W: "world_inv lib so {} w" using run_world_inv [OF assms] by (simp add: w_def)
  have L: "lists_ok so w" using W by (simp add: world_inv_def)
  have "(\<forall>g. is_on g c \<longrightarrow> \<not> is_banned g c)
      \<and> (\<forall>g. is_on g c \<and> pi_is MEMBER_FLAG_OWNER (info_at g c) \<longrightarrow> g = ch_owner c)"
    if "chan_ok c" for c
    using chan_ok_member [OF that] by (auto simp: member_ok_def is_banned_def)
  then show ?thesis
    unfolding Let_def w_def [symmetric]
    using storedD(1-3) [OF W] lists_okD(3) [OF L] lists_okD(1) [OF L, of "(_, _)"]
    by (auto simp: chan_ok_def chan_owned_def member_at_def split: if_splits)
qed

definition ex_session :: "guid \<Rightarrow> session" where
  "ex_session g = \<lparr>se_player = ex_player g, se_zone = None, se_guild = 0\<rparr>"

definition ex_run :: "(chan_env \<times> session \<times> chat_cmd) list" where
  "ex_run = [(ex_env, ex_session 1, CJoin 0 ''Town'' []), (ex_env, ex_session 2, CJoin 0 ''town'' []),
     (ex_env, ex_session 1, CLeave ''TOWN'')]"

lemma ex_run_legal: "list_all (legal ascii_lib (\<lambda>_. AllianceMgr)) ex_run"
  by (simp add: ex_run_def legal_def ex_session_def ex_player_def for_team_def ALLIANCE_def ex_env_def)

theorem chat_world_in_every_run_witness:
  "\<forall>g. distinct (cw_joined (fold (chat_step ascii_lib) ex_run new_chat_world) g)"
  using chat_world_in_every_run [OF ex_run_legal] by (simp add: Let_def)

text \<open>
  C26: Logging out is complete. After any run in which nobody kicked or banned himself (an owner who did so
  stays a member for good, \<open>Channel.cpp:341\<close>) and players with 32-bit GUIDs other than 0 kept their side,
  a player who logs out is a member of no channel of either side and his list is empty.
\<close>
theorem logout_is_complete:
  assumes "list_all (legal lib so) es" "legal lib so (env, se, CLogout)"
  shows "let w = cleanup_channels env lib (se_player se) (fold (chat_step lib) es new_chat_world);
             g = pl_guid (se_player se)
     in cw_joined w g = [] \<and> (\<forall>sd key c. chan_at w sd key = Some c \<longrightarrow> \<not> is_on g c)"
proof -
  define w where "w = cleanup_channels env lib (se_player se) (fold (chat_step lib) es new_chat_world)"
  define g where "g = pl_guid (se_player se)"
  have so: "for_team (ce_two_side env) (pl_team (se_player se)) = Some (so (pl_guid (se_player se)))"
    using assms(2) by (simp add: legal_def)
  have W: "world_inv lib so {} w" "cw_joined w g = []"
    using cleanup_inv [OF run_world_inv [OF assms(1)] so] by (simp_all add: w_def g_def)
  have "\<not> is_on g c" if "chan_at w sd key = Some c" for sd key c
    using storedD(7) [OF W(1) that, of g] W(2) by simp
  then show ?thesis unfolding Let_def w_def [symmetric] g_def [symmetric] using W(2) by blast
qed

theorem logout_is_complete_witness:
  "cw_joined (cleanup_channels ex_env ascii_lib (ex_player 2) (fold (chat_step ascii_lib) ex_run new_chat_world)) 2 = []"
proof -
  have "legal ascii_lib (\<lambda>_. AllianceMgr) (ex_env, ex_session 2, CLogout)"
    by (simp add: legal_def ex_session_def ex_player_def for_team_def ALLIANCE_def ex_env_def)
  from logout_is_complete [OF ex_run_legal this] show ?thesis
    by (simp add: Let_def ex_session_def ex_player_def)
qed

section \<open>Who is where: the abstract view\<close>

text \<open>
  What the channels promise, seen from outside: a relation between channels and players, that a
  request changes in one place at most.
\<close>

definition membership :: "chat_world \<Rightarrow> (chan_ref \<times> guid) set" where
  "membership w = {(r, g). member_at w r g}"

text \<open>The channel a request names, as \<open>GetChannel\<close> finds it: a name that begins with a bar is never found.\<close>

definition named_key :: "utf8_lib \<Rightarrow> side \<Rightarrow> string \<Rightarrow> chat_world \<Rightarrow> wname option" where
  "named_key lib sd n w =
     (case channel_key lib n of
        None \<Rightarrow> None
      | Some key \<Rightarrow>
          if (key \<noteq> [] \<and> hd key = 0x7C) \<or> chan_at w sd key = None then None else Some key)"

text \<open>When a request to join lets the player in: the checks of the handler, then those of the channel he asks for, found or new.\<close>

definition lets_in :: "utf8_lib \<Rightarrow> chan_env \<Rightarrow> session \<Rightarrow> side \<Rightarrow> u32 \<Rightarrow> string \<Rightarrow> string \<Rightarrow> wname \<Rightarrow> chat_world \<Rightarrow> bool" where
  "lets_in lib env se sd i n pass key w \<longleftrightarrow>
     may_join_id env se i \<and> n \<noteq> [] \<and> \<not> is_digit (hd n) \<and> channel_key lib n = Some key
     \<and> \<not> join_refused env (se_player se) pass
           (case chan_at w sd key of
              None \<Rightarrow> new_channel env n i (pl_team (se_player se))
            | Some c \<Rightarrow> c)"

text \<open>When a request to kick or ban takes a player out of the channel, and whom.\<close>

definition puts_out :: "utf8_lib \<Rightarrow> chan_env \<Rightarrow> player \<Rightarrow> side \<Rightarrow> string \<Rightarrow> string \<Rightarrow> wname \<Rightarrow> guid \<Rightarrow> chat_world \<Rightarrow> bool" where
  "puts_out lib env pl sd n t key v w \<longleftrightarrow> named_key lib sd n w = Some key \<and>
     (\<exists>t' c. normalize_player_name lib t = Some t' \<and> chan_at w sd key = Some c
           \<and> victim_guid (ce_by_name env t') = v \<and> v \<noteq> 0
           \<and> is_on (pl_guid pl) c \<and> may_moderate pl c \<and> is_on v c
           \<and> (pl_perms pl PERM_NOT_MODERATOR \<or> ch_owner c \<noteq> v \<or> ch_owner c = pl_guid pl))"

text \<open>Who is where after a request: the abstract step of each request, exactly.\<close>

fun members_after :: "utf8_lib \<Rightarrow> chan_env \<Rightarrow> session \<Rightarrow> side \<Rightarrow> chat_cmd \<Rightarrow> chat_world \<Rightarrow> (chan_ref \<times> guid) set" where
  "members_after lib env se sd (CJoin i n p) w =
     membership w \<union> {((sd, key), pl_guid (se_player se)) |key. lets_in lib env se sd i n p key w}"
| "members_after lib env se sd (CLeave n) w =
     membership w - {((sd, key), pl_guid (se_player se)) |key. n \<noteq> [] \<and> named_key lib sd n w = Some key}"
| "members_after lib env se sd (CKick n t) w =
     membership w - {((sd, key), v) |key v. puts_out lib env (se_player se) sd n t key v w}"
| "members_after lib env se sd (CBan n t) w =
     membership w - {((sd, key), v) |key v. puts_out lib env (se_player se) sd n t key v w}"
| "members_after lib env se sd CLogout w = {(r, g). (r, g) \<in> membership w \<and> g \<noteq> pl_guid (se_player se)}"
| "members_after lib env se sd CLeaveLfg w =
     membership w - {(r, pl_guid (se_player se)) |r. find (is_lfg_ref w) (cw_joined w (pl_guid (se_player se))) = Some r}"
| "members_after lib env se sd _ w = membership w"

lemma membershipI: "(\<And>r g. member_at w r g \<longleftrightarrow> (r, g) \<in> M) \<Longrightarrow> membership w = M"
  by (auto simp: membership_def simp del: split_paired_All split_paired_Ex)

lemma membership_iff: "(r, g) \<in> membership w \<longleftrightarrow> member_at w r g"
  by (simp add: membership_def)

lemma membership_same:
  assumes "world_inv lib so {} w" "\<And>c. chan_at w sd key = Some c \<Longrightarrow> chan_ok c \<Longrightarrow> chan_owned c \<Longrightarrow> keeps c (f c)"
  shows "membership (on_channel sd key f w) = membership w"
proof (cases "chan_at w sd key")
  case (Some c)
  note d = storedD [OF assms(1) Some]
  have *: "is_on g (f c) \<longleftrightarrow> is_on g c" for g using assms(2) [OF Some d(1,2)] by (simp add: keeps_def)
  show ?thesis
  proof (rule membershipI)
    fix r g
    show "member_at (on_channel sd key f w) r g \<longleftrightarrow> (r, g) \<in> membership w"
      unfolding member_on [OF Some] membership_iff using Some by (simp add: * member_at_def)
  qed
qed (simp add: on_channel_None)

lemma membership_remove:
  assumes "chan_at w sd key = Some c" and *: "\<And>g. is_on g (f c) \<longleftrightarrow> g \<noteq> v \<and> is_on g c"
  shows "membership (on_channel sd key f w) = membership w - {((sd, key), v)}"
proof (rule membershipI)
  fix r g
  show "member_at (on_channel sd key f w) r g \<longleftrightarrow> (r, g) \<in> membership w - {((sd, key), v)}"
    unfolding member_on [OF assms(1)] Diff_iff membership_iff using assms(1) by (auto simp: * member_at_def)
qed

lemma membership_leave:
  assumes "world_inv lib so {} w"
  shows "membership (on_channel sd key (leave_channel env pl send) w) = membership w - {((sd, key), pl_guid pl)}"
proof (cases "chan_at w sd key")
  case (Some c)
  note d = storedD [OF assms Some]
  show ?thesis
  proof (cases "is_on (pl_guid pl) c")
    case True
    show ?thesis by (rule membership_remove [OF Some]) (rule leave_member_inv(3) [OF d(1,2) True])
  next
    case False
    have "membership (on_channel sd key (leave_channel env pl send) w) = membership w"
    proof (rule membership_same [OF assms])
      fix c' assume "chan_at w sd key = Some c'"
      then have "c' = c" using Some by simp
      then show "keeps c' (leave_channel env pl send c')" using False by (blast intro: silent_keeps leave_refused)
    qed
    moreover have "((sd, key), pl_guid pl) \<notin> membership w" using Some False by (simp add: membership_iff member_at_def)
    ultimately show ?thesis by simp
  qed
next
  case None
  then have "((sd, key), pl_guid pl) \<notin> membership w" by (simp add: membership_iff member_at_def)
  then show ?thesis using None by (simp add: on_channel_None)
qed

lemma membership_left:
  assumes "world_inv lib so E w"
  shows "membership (put_mgr sd (left_channel lib name (get_mgr sd w)) w) = membership w"
proof (rule membershipI)
  fix r g
  have np: "num_players c = 0 \<longleftrightarrow> ch_players c = []" if "chan_at w a k = Some c" for a k c
    using assms that num_players_zero [of c] by (auto simp: world_inv_def stored_ok_def)
  have "chan_at (put_mgr sd (left_channel lib name (get_mgr sd w)) w) a k
    = (if a = sd \<and> channel_key lib name = Some k
         \<and> (\<exists>c. chan_at w a k = Some c \<and> ch_players c = [] \<and> \<not> is_constant c) then None else chan_at w a k)" for a k
    using np by (auto simp: left_channel_def split: option.split)
  from this [of "fst r" "snd r"]
  show "member_at (put_mgr sd (left_channel lib name (get_mgr sd w)) w) r g \<longleftrightarrow> (r, g) \<in> membership w"
    unfolding membership_iff member_at_def by (auto simp: is_on_def split: if_splits)
qed

lemma membership_direct [simp]: "membership (send_direct os w) = membership w"
  by (simp add: membership_def member_at_def)

lemma with_named_cases:
  assumes "for_team (ce_two_side env) (pl_team (se_player se)) = Some sd"
  obtains os where "with_named env lib se name f w = send_direct os w"
  | key os where "channel_key lib name = Some key"
      "with_named env lib se name f w = on_channel sd key f (send_direct os w)"
proof -
  obtain k os where k: "get_channel lib name (pl_guid (se_player se)) True (get_mgr sd w) = (k, os)"
    by (cases "get_channel lib name (pl_guid (se_player se)) True (get_mgr sd w)")
  show ?thesis
  proof (cases k)
    case None
    then show ?thesis using that(1) by (simp add: with_named_def assms k)
  next
    case (Some key)
    then have "channel_key lib name = Some key"
      using k by (auto simp: get_channel_def split: option.splits if_splits list.splits)
    then show ?thesis using that(2) by (simp add: with_named_def assms k Some)
  qed
qed

lemma with_named_key:
  assumes sd: "for_team (ce_two_side env) (pl_team (se_player se)) = Some sd"
  shows "named_key lib sd name w = Some key \<Longrightarrow> with_named env lib se name f w = on_channel sd key f w"
    and "named_key lib sd name w = None \<Longrightarrow> \<exists>os. with_named env lib se name f w = send_direct os w"
proof -
  obtain k os where k: "get_channel lib name (pl_guid (se_player se)) True (get_mgr sd w) = (k, os)"
    by (cases "get_channel lib name (pl_guid (se_player se)) True (get_mgr sd w)")
  have "k = named_key lib sd name w" "k \<noteq> None \<Longrightarrow> os = []"
    using k by (auto simp: get_channel_def named_key_def split: option.splits if_splits list.splits)
  then show "named_key lib sd name w = Some key \<Longrightarrow> with_named env lib se name f w = on_channel sd key f w"
    "named_key lib sd name w = None \<Longrightarrow> \<exists>os. with_named env lib se name f w = send_direct os w"
    by (auto simp: with_named_def sd k send_direct_def)
qed

lemma named_membership:
  assumes W: "world_inv lib so {} w" and sd: "for_team (ce_two_side env) (pl_team (se_player se)) = Some sd"
    and k: "\<And>c. chan_ok c \<Longrightarrow> chan_owned c \<Longrightarrow> keeps c (f c)"
  shows "membership (with_named env lib se name f w) = membership w"
proof -
  have "membership (on_channel sd key f (send_direct os w)) = membership w" for key os
    using membership_same [of lib so "send_direct os w" sd key f] W k by simp
  then show ?thesis by (cases rule: with_named_cases [OF sd, of lib name f w]) simp_all
qed

lemma target_membership:
  assumes "world_inv lib so {} w" "for_team (ce_two_side env) (pl_team (se_player se)) = Some sd"
    and "\<And>t c. chan_ok c \<Longrightarrow> chan_owned c \<Longrightarrow> keeps c (f t c)"
  shows "membership (with_target env lib se name target f w) = membership w"
  using named_membership [OF assms(1,2)] assms(3) by (auto simp: with_target_def split: option.split)

lemma join_membership:
  assumes W: "world_inv lib so {} w" and g: "pl_guid pl \<noteq> 0" and Some: "chan_at w sd key = Some c"
  shows "membership (on_channel sd key (join_channel env pl pass) w)
    = membership w \<union> (if join_refused env pl pass c then {} else {((sd, key), pl_guid pl)})"
proof -
  note d = storedD [OF W Some]
  show ?thesis
  proof (cases "join_refused env pl pass c")
    case True
    have "membership (on_channel sd key (join_channel env pl pass) w) = membership w"
    proof (rule membership_same [OF W])
      fix c' assume "chan_at w sd key = Some c'"
      then have "c' = c" using Some by simp
      then show "keeps c' (join_channel env pl pass c')" using True by (blast intro: silent_keeps join_refused_silent)
    qed
    then show ?thesis using True by simp
  next
    case False
    then have new: "\<not> is_on (pl_guid pl) c" "\<not> is_banned (pl_guid pl) c" by (auto simp: join_refused_def)
    note i = join_admit_inv(3) [OF d(1,2) g new, where env = env, folded join_accepted [OF False]]
    have "membership (on_channel sd key (join_channel env pl pass) w) = insert ((sd, key), pl_guid pl) (membership w)"
    proof (rule membershipI)
      fix r x
      show "member_at (on_channel sd key (join_channel env pl pass) w) r x
          \<longleftrightarrow> (r, x) \<in> insert ((sd, key), pl_guid pl) (membership w)"
        unfolding member_on [OF Some] insert_iff membership_iff using Some by (auto simp: i member_at_def)
    qed
    then show ?thesis using False by simp
  qed
qed

lemma kick_membership:
  assumes W: "world_inv lib so {} w" and v: "victim_guid (ce_by_name env nm) \<noteq> pl_guid pl"
    and Some: "chan_at w sd key = Some c"
  shows "membership (on_channel sd key (kick_or_ban env pl nm ban) w)
    = membership w - (if kick_refused env pl nm c then {} else {((sd, key), victim_guid (ce_by_name env nm))})"
proof -
  note d = storedD [OF W Some]
  show ?thesis
  proof (cases "kick_refused env pl nm c")
    case True
    have "membership (on_channel sd key (kick_or_ban env pl nm ban) w) = membership w"
    proof (rule membership_same [OF W])
      fix c' assume "chan_at w sd key = Some c'"
      then have "c' = c" using Some by simp
      then show "keeps c' (kick_or_ban env pl nm ban c')" using True by (blast intro: silent_keeps kick_refused_silent)
    qed
    then show ?thesis using True by simp
  next
    case False
    then have on: "is_on (pl_guid pl) c" "is_on (victim_guid (ce_by_name env nm)) c" by (auto simp: kick_refused_def)
    have "membership (on_channel sd key (kick_or_ban env pl nm ban) w)
        = membership w - {((sd, key), victim_guid (ce_by_name env nm))}"
    proof (rule membership_remove [OF Some])
      fix g
      show "is_on g (kick_or_ban env pl nm ban c) \<longleftrightarrow> g \<noteq> victim_guid (ce_by_name env nm) \<and> is_on g c"
        using remove_member_inv(3) [OF d(1,2) on v] kick_accepted [OF False] by simp
    qed
    then show ?thesis using False by simp
  qed
qed

lemma cleanup_membership:
  assumes "world_inv lib so {} w" "for_team (ce_two_side env) (pl_team pl) = Some (so (pl_guid pl))"
  shows "membership (cleanup_channels env lib pl w) = {(r, g). (r, g) \<in> membership w \<and> g \<noteq> pl_guid pl}"
proof -
  have one: "membership (cleanup_one env lib pl r w) = membership w - {(r, pl_guid pl)}"
    if W: "world_inv lib so {} w" and j: "cw_joined w (pl_guid pl) = r # rest" for r rest w
  proof -
    obtain c :: channel and w2 where eq: "cleanup_one env lib pl r w = put_mgr (fst r) (left_channel lib (ch_name c) (get_mgr (fst r) w2)) w2"
      and w2: "world_inv lib so {r} w2"
        "\<And>r' x. member_at w2 r' x \<longleftrightarrow> member_at w r' x \<and> (r', x) \<noteq> (r, pl_guid pl)"
      using cleanup_one_steps [OF W j assms(2)] by metis
    have "membership w2 = membership w - {(r, pl_guid pl)}"
      by (rule membershipI) (simp add: w2(2) membership_iff)
    then show ?thesis using membership_left [OF w2(1)] unfolding eq by simp
  qed
  have "membership (fold (cleanup_one env lib pl) rs w) = membership w - {(r, g). r \<in> set rs \<and> g = pl_guid pl}"
    if "world_inv lib so {} w" "cw_joined w (pl_guid pl) = rs" for rs w
    using that
  proof (induction rs arbitrary: w)
    case (Cons r rs)
    note i = cleanup_one_inv [OF Cons.prems, OF assms(2)]
    show ?case using Cons.IH [OF i] one [OF Cons.prems] by auto
  qed simp
  from this [OF assms(1) refl] show ?thesis
    using lists_okD(1) [of so w] assms(1) unfolding cleanup_channels_def world_inv_def
    by (auto simp: membership_iff)
qed

lemma handle_join_membership:
  assumes W: "world_inv lib so {} w" and g: "pl_guid (se_player se) \<noteq> 0"
    and sd: "for_team (ce_two_side env) (pl_team (se_player se)) = Some sd" and z: "ce_dbc_flags env 0 = None"
  shows "membership (handle_join env lib se i n p w) = members_after lib env se sd (CJoin i n p) w"
proof (cases "\<not> may_join_id env se i \<or> n = [] \<or> is_digit (hd n)")
  case True
  then have "handle_join env lib se i n p w = w" by (auto simp: handle_join_def)
  then show ?thesis using True by (auto simp: lets_in_def)
next
  case False
  define m0 where "m0 = (get_mgr sd w)\<lparr>cm_team := pl_team (se_player se)\<rparr>"
  obtain k m where km: "get_join_channel env lib n i m0 = (k, m)" by (cases "get_join_channel env lib n i m0")
  have i: "i = 0 \<or> ce_dbc_flags env i \<noteq> None" using False by (auto simp: may_join_id_def)
  have eq: "handle_join env lib se i n p w =
      (case k of None \<Rightarrow> put_mgr sd m w
       | Some key \<Rightarrow> on_channel sd key (join_channel env (se_player se) p) (put_mgr sd m w))"
    using False sd km by (auto simp: handle_join_def m0_def Let_def split: option.split)
  have m: "membership (put_mgr sd m w) = membership w"
  proof (rule membershipI)
    fix r g
    have "chan_at (put_mgr sd m w) a key = chan_at w a key
       \<or> chan_at w a key = None \<and> (\<exists>c. chan_at (put_mgr sd m w) a key = Some c \<and> ch_players c = [])" for a key
      using km new_channel_fields(1)
      by (cases "a = sd \<and> k = Some key")
        (auto simp: get_join_channel_def m0_def split: option.splits if_splits)
    from this [of "fst r" "snd r"] show "member_at (put_mgr sd m w) r g \<longleftrightarrow> (r, g) \<in> membership w"
      unfolding membership_iff member_at_def
      by (cases "chan_at w (fst r) (snd r)") (auto simp: is_on_def)
  qed
  show ?thesis
  proof (cases k)
    case None
    then have "channel_key lib n = None" using km by (auto simp: get_join_channel_def split: option.splits)
    then show ?thesis using m None by (simp add: eq lets_in_def)
  next
    case (Some key)
    then have key: "channel_key lib n = Some key" using km by (auto simp: get_join_channel_def split: option.splits)
    define c where "c = (case chan_at w sd key of None \<Rightarrow> new_channel env n i (pl_team (se_player se)) | Some c \<Rightarrow> c)"
    have at: "chan_at (put_mgr sd m w) sd key = Some c"
      using km key Some by (auto simp: get_join_channel_def m0_def c_def split: option.splits)
    have "lets_in lib env se sd i n p x w \<longleftrightarrow> x = key \<and> \<not> join_refused env (se_player se) p c" for x
      using False key by (auto simp: lets_in_def c_def)
    then show ?thesis
      using join_membership [OF create_inv [OF W i z km [unfolded m0_def]] g at, of env p] m by (simp add: eq Some)
  qed
qed

lemma handle_leave_membership:
  assumes W: "world_inv lib so {} w"
    and sd: "for_team (ce_two_side env) (pl_team (se_player se)) = Some sd"
  shows "membership (handle_leave env lib se n w) = members_after lib env se sd (CLeave n) w"
proof (cases "n = []")
  case False
  define w1 where "w1 = with_named env lib se n (leave_channel env (se_player se) True) w"
  have eq: "handle_leave env lib se n w = put_mgr sd (left_channel lib n (get_mgr sd w1)) w1"
    using False sd by (simp add: handle_leave_def w1_def Let_def)
  have "\<exists>E. world_inv lib so E w1 \<and> membership w1 = members_after lib env se sd (CLeave n) w"
  proof (cases "named_key lib sd n w")
    case None
    then show ?thesis using with_named_key(2) [OF sd None, of "leave_channel env (se_player se) True"] W
      by (auto simp: w1_def)
  next
    case (Some key)
    then show ?thesis
      using with_named_key(1) [OF sd Some, of "leave_channel env (se_player se) True"] leave_inv [OF W, of sd key env "se_player se"]
        membership_leave [OF W, of sd key env "se_player se" True] False
      by (auto simp: w1_def)
  qed
  then show ?thesis using membership_left unfolding eq by metis
qed (simp add: handle_leave_def)

lemma puts_out_iff:
  assumes "named_key lib sd n w = Some key" "chan_at w sd key = Some c" "normalize_player_name lib t = Some t'"
  shows "puts_out lib env pl sd n t k v w \<longleftrightarrow> k = key \<and> v = victim_guid (ce_by_name env t') \<and> \<not> kick_refused env pl t' c"
  using assms by (auto simp: puts_out_def kick_refused_def)

lemma handle_kick_membership:
  assumes W: "world_inv lib so {} w"
    and sd: "for_team (ce_two_side env) (pl_team (se_player se)) = Some sd"
    and t: "\<not> targets_self lib env (se_player se) t"
  shows "membership (with_target env lib se n t (\<lambda>t. kick_or_ban env (se_player se) t b) w)
    = members_after lib env se sd (CKick n t) w"
proof (cases "normalize_player_name lib t")
  case (Some t')
  have v: "victim_guid (ce_by_name env t') \<noteq> pl_guid (se_player se)" using t Some by (simp add: targets_self_def)
  show ?thesis
  proof (cases "named_key lib sd n w")
    case None
    then show ?thesis using with_named_key(2) [OF sd None, of "kick_or_ban env (se_player se) t' b"]
      by (auto simp: with_target_def Some puts_out_def)
  next
    case key: (Some key)
    then obtain c where c: "chan_at w sd key = Some c" by (auto simp: named_key_def split: option.splits if_splits)
    show ?thesis
      using with_named_key(1) [OF sd key, of "kick_or_ban env (se_player se) t' b"] kick_membership [OF W v c, of b]
        puts_out_iff [OF key c Some]
      by (auto simp: with_target_def Some)
  qed
qed (simp add: with_target_def puts_out_def)

lemma lfg_leave_membership:
  assumes "world_inv lib so {} w"
  shows "membership (leave_lfg_channel env (se_player se) w) = members_after lib env se sd CLeaveLfg w"
proof (cases "find (is_lfg_ref w) (cw_joined w (pl_guid (se_player se)))")
  case (Some r)
  then show ?thesis
    using membership_leave [OF assms, of "fst r" "snd r" env "se_player se" True]
    by (cases r) (auto simp: leave_lfg_channel_def)
qed (simp add: leave_lfg_channel_def)

text \<open>
  C9: The channels implement the abstract view: who is where after a request is exactly what the abstract
  step of that request says. It holds for every request in the state after any run, except that nobody
  kicks or bans himself (\<open>Channel.cpp:341\<close> puts a kicked owner back as a ghost) and a player keeps
  his side. Joining adds only the asking player, to the channel he names on his side, and does so
  exactly when the handler and the channel accept him; leaving takes him out of the channel he names
  and, if the name begins with a bar, out of none; a kick or a ban takes the named player out exactly when
  a member with the rights asks and the owner is not protected from him; logging out takes him out
  everywhere; leaving the group finder takes him out of the first such channel of his list; all
  other requests change no membership at all.
\<close>
theorem requests_refine_membership:
  assumes "list_all (legal lib so) es" "legal lib so (env, se, cmd)"
  shows "let w = fold (chat_step lib) es new_chat_world in
     membership (chat_step lib (env, se, cmd) w) = members_after lib env se (so (pl_guid (se_player se))) cmd w"
proof -
  define w where "w = fold (chat_step lib) es new_chat_world"
  define sd where "sd = so (pl_guid (se_player se))"
  have W: "world_inv lib so {} w" using run_world_inv [OF assms(1)] by (simp add: w_def)
  have g: "pl_guid (se_player se) \<noteq> 0" "for_team (ce_two_side env) (pl_team (se_player se)) = Some sd"
    and z: "ce_dbc_flags env 0 = None"
    using assms(2) by (simp_all add: legal_def sd_def)
  note same = named_membership [OF W g(2)] target_membership [OF W g(2)] silent_keeps query_silent
    command_keeps member_count_keeps
  note exact = handle_join_membership [OF W g z] handle_leave_membership [OF W g(2)]
    handle_kick_membership [OF W g(2)] lfg_leave_membership [OF W, where sd = sd]
  have "membership (chat_step lib (env, se, cmd) w) = members_after lib env se sd cmd w"
    using assms(2)
    by (cases cmd)
      (simp_all add: legal_def request_defs handle_kick_def handle_ban_def same
        exact [simplified members_after.simps] cleanup_membership [OF W g(2) [unfolded sd_def]])
  then show ?thesis by (simp add: Let_def w_def sd_def)
qed

theorem requests_refine_membership_witness:
  "membership (chat_step ascii_lib (ex_env, ex_session 1, CKick ''Town'' ''p2'')
        (fold (chat_step ascii_lib) ex_run new_chat_world))
   = members_after ascii_lib ex_env (ex_session 1) AllianceMgr (CKick ''Town'' ''p2'')
        (fold (chat_step ascii_lib) ex_run new_chat_world)"
proof -
  have "normalize_player_name ascii_lib ''p2'' = Some ''P2''" by code_simp
  then have "legal ascii_lib (\<lambda>_. AllianceMgr) (ex_env, ex_session 1, CKick ''Town'' ''p2'')"
    by (simp add: legal_def ex_session_def ex_player_def for_team_def ALLIANCE_def ex_env_def
        targets_self_def victim_guid_def)
  from requests_refine_membership [OF ex_run_legal this] show ?thesis by (simp add: Let_def)
qed

end
