(* ===== verification/InstanceScript.thy ===== *)
theory InstanceScript
  imports Guid
begin

text \<open>
  The script of an instance, \<open>src/server/game/Instances/InstanceScript.cpp\<close> and \<open>InstanceScript.h\<close>: the
  states of the encounters, the doors and minions that follow them, the objects scripts look
  up, the text the states are saved in, and the helpers that act on all players of the map.
  Virtual methods are the ones of the base class. A pointer to a \<open>BossInfo\<close> is its index. The
  creatures, objects and players of the map are part of the surroundings; the state of a game
  object that the script sets is kept in \<open>is_go_open\<close>, and what is done to others is logged.
\<close>

section \<open>Data\<close>

datatype encounter_state = NOT_STARTED | IN_PROGRESS | FAIL | DONE | SPECIAL | TO_BE_DECIDED

fun enc_val :: "encounter_state \<Rightarrow> u32" where
  "enc_val NOT_STARTED = 0"
| "enc_val IN_PROGRESS = 1"
| "enc_val FAIL = 2"
| "enc_val DONE = 3"
| "enc_val SPECIAL = 4"
| "enc_val TO_BE_DECIDED = 5"

text \<open>\<open>EncounterState(buff)\<close> for a value below \<open>TO_BE_DECIDED\<close>\<close>

definition enc_of :: "u32 \<Rightarrow> encounter_state" where
  "enc_of v = (if v = 0 then NOT_STARTED else if v = 1 then IN_PROGRESS else if v = 2 then FAIL
     else if v = 3 then DONE else if v = 4 then SPECIAL else TO_BE_DECIDED)"

datatype door_type = DOOR_TYPE_ROOM | DOOR_TYPE_PASSAGE | DOOR_TYPE_SPAWN_HOLE

record door_data =
  dd_entry :: u32
  dd_boss :: u32
  dd_type :: door_type

record minion_data =
  md_entry :: u32
  md_boss :: u32

record object_data =
  od_entry :: u32
  od_type :: u32

record boss_boundary =
  bb_boss :: u32
  bb_boundary :: nat          \<comment> \<open>the address of the boundary\<close>

record boss_info =
  bi_state :: encounter_state
  bi_door :: "door_type \<Rightarrow> guid list"
  bi_minion :: "guid list"
  bi_boundary :: "nat list"

definition new_boss_info :: boss_info where
  "new_boss_info = \<lparr>bi_state = TO_BE_DECIDED, bi_door = (\<lambda>_. []), bi_minion = [], bi_boundary = []\<rparr>"

section \<open>The surroundings\<close>

record creature =
  cr_guid :: guid
  cr_entry :: u32
  cr_alive :: bool
  cr_in_combat :: bool
  cr_has_victim :: bool
  cr_world_boss :: bool

datatype loot_state = GO_NOT_READY | GO_READY | GO_ACTIVATED | GO_JUST_DEACTIVATED

record game_object =
  go_guid :: guid
  go_entry :: u32
  go_type :: u32
  go_loot :: loot_state
  go_spawned :: bool

record map_player =
  mp_guid :: guid
  mp_session :: bool
  mp_pet :: "guid option"
  mp_group :: "(guid \<times> bool) option"        \<comment> \<open>his group and whether it is a group finder group\<close>

record dungeon_encounter =
  de_index :: u32
  de_credit_type :: u32
  de_credit_entry :: u32
  de_last_dungeon :: u32

datatype inst_field = IF32 u32 | IF8 u8 | IFPack guid

datatype inst_out =
    UpdInstanceData u32 string u32             \<comment> \<open>\<open>CHAR_UPD_INSTANCE_DATA\<close>\<close>
  | RespawnCreature guid | EvadeCreature guid | ZoneInCombat guid
  | UseDoorOrButton guid u32 bool | ResetDoorOrButton guid | SetRespawnTime guid u32
  | UpdateWorldState guid u32 u32 | Notification guid string
  | CompletedAchievement guid u32 | UpdateCriteria guid u32 u32 u32 "guid option"
  | StartTimed guid u32 u32 | RemoveTimed guid u32 u32
  | RemoveAuras guid u32 | CastSelf guid u32
  | EncounterUnit "inst_field list" | FinishDungeon guid u32

record inst_env =
  ie_creature :: "guid \<Rightarrow> creature option"
  ie_object :: "guid \<Rightarrow> game_object option"
  ie_players :: "map_player option list"
  ie_instance_id :: u32
  ie_difficulty :: u32
  ie_encounters :: "u32 \<Rightarrow> dungeon_encounter list option"       \<comment> \<open>of this map, by difficulty\<close>
  ie_achievement :: "u32 \<Rightarrow> bool"
  ie_junk_char :: "nat \<Rightarrow> char"           \<comment> \<open>what an uninitialised variable holds\<close>
  ie_junk_u32 :: "nat \<Rightarrow> u32"

section \<open>The script\<close>

record instance_script =
  is_headers :: string
  is_bosses :: "boss_info list"
  is_doors :: "(u32 \<times> (nat \<times> door_type)) list"
  is_minions :: "(u32, nat) omap"
  is_creature_info :: "(u32, u32) omap"
  is_object_info :: "(u32, u32) omap"
  is_guids :: "(u32, guid) omap"
  is_completed :: u32
  is_go_open :: "guid \<Rightarrow> bool option"
  is_out :: "inst_out list"

definition new_instance_script :: instance_script where
  "new_instance_script = \<lparr>is_headers = [], is_bosses = [], is_doors = [], is_minions = [], is_creature_info = [],
     is_object_info = [], is_guids = [], is_completed = 0, is_go_open = (\<lambda>_. None), is_out = []\<rparr>"

definition emit :: "inst_out list \<Rightarrow> instance_script \<Rightarrow> instance_script" where
  "emit os s = s\<lparr>is_out := is_out s @ os\<rparr>"

definition upd_boss :: "nat \<Rightarrow> (boss_info \<Rightarrow> boss_info) \<Rightarrow> instance_script \<Rightarrow> instance_script" where
  "upd_boss i f s = s\<lparr>is_bosses := (is_bosses s)[i := f (is_bosses s ! i)]\<rparr>"

definition is_alpha :: "char \<Rightarrow> bool" where
  "is_alpha c \<longleftrightarrow> (let n = of_char c :: nat in 65 \<le> n \<and> n \<le> 90 \<or> 97 \<le> n \<and> n \<le> 122)"

definition set_headers :: "string \<Rightarrow> instance_script \<Rightarrow> instance_script" where
  "set_headers h s = s\<lparr>is_headers := is_headers s @ filter is_alpha h\<rparr>"

text \<open>\<open>bosses.resize(number)\<close>\<close>

definition set_boss_number :: "nat \<Rightarrow> instance_script \<Rightarrow> instance_script" where
  "set_boss_number n s =
     s\<lparr>is_bosses := take n (is_bosses s) @ replicate (n - length (is_bosses s)) new_boss_info\<rparr>"

definition load_boss_boundaries :: "boss_boundary list \<Rightarrow> instance_script \<Rightarrow> instance_script" where
  "load_boss_boundaries ds s =
     fold (\<lambda>d s. if unat (bb_boss d) < length (is_bosses s)
                 then upd_boss (unat (bb_boss d)) (\<lambda>b. b\<lparr>bi_boundary := os_ins (bb_boundary d) (bi_boundary b)\<rparr>) s
                 else s) ds s"

text \<open>The tables end at the first entry 0. \<open>std::map::insert\<close> keeps the first value of a key.\<close>

fun load_minion_data :: "minion_data list \<Rightarrow> instance_script \<Rightarrow> instance_script" where
  "load_minion_data [] s = s"
| "load_minion_data (d # ds) s =
     (if md_entry d = 0 then s
      else load_minion_data ds
             (if unat (md_boss d) < length (is_bosses s) \<and> \<not> om_has (md_entry d) (is_minions s)
              then s\<lparr>is_minions := om_set (md_entry d) (unat (md_boss d)) (is_minions s)\<rparr> else s))"

fun load_door_data :: "door_data list \<Rightarrow> instance_script \<Rightarrow> instance_script" where
  "load_door_data [] s = s"
| "load_door_data (d # ds) s =
     (if dd_entry d = 0 then s
      else load_door_data ds
             (if unat (dd_boss d) < length (is_bosses s)
              then s\<lparr>is_doors := mm_ins (dd_entry d) (unat (dd_boss d), dd_type d) (is_doors s)\<rparr> else s))"

text \<open>A second entry of the table fails an assertion: \<open>None\<close>.\<close>

fun load_objects :: "object_data list \<Rightarrow> (u32, u32) omap \<Rightarrow> (u32, u32) omap option" where
  "load_objects [] m = Some m"
| "load_objects (d # ds) m =
     (if od_entry d = 0 then Some m
      else if om_has (od_entry d) m then None
      else load_objects ds (om_set (od_entry d) (od_type d) m))"

definition load_object_data ::
    "object_data list option \<Rightarrow> object_data list option \<Rightarrow> instance_script \<Rightarrow> instance_script option" where
  "load_object_data cd gd s =
     (case (case cd of None \<Rightarrow> Some (is_creature_info s) | Some d \<Rightarrow> load_objects d (is_creature_info s)) of
        None \<Rightarrow> None
      | Some c \<Rightarrow>
          (case (case gd of None \<Rightarrow> Some (is_object_info s) | Some d \<Rightarrow> load_objects d (is_object_info s)) of
             None \<Rightarrow> None
           | Some g \<Rightarrow> Some (s\<lparr>is_creature_info := c, is_object_info := g\<rparr>)))"

definition get_object_guid :: "u32 \<Rightarrow> instance_script \<Rightarrow> guid" where
  "get_object_guid t s = (case map_of (is_guids s) t of Some g \<Rightarrow> g | None \<Rightarrow> 0)"

definition get_boss_state :: "u32 \<Rightarrow> instance_script \<Rightarrow> encounter_state" where
  "get_boss_state i s = (if unat i < length (is_bosses s) then bi_state (is_bosses s ! unat i) else TO_BE_DECIDED)"

definition get_boss_boundary :: "u32 \<Rightarrow> instance_script \<Rightarrow> nat list option" where
  "get_boss_boundary i s = (if unat i < length (is_bosses s) then Some (bi_boundary (is_bosses s ! unat i)) else None)"

definition is_encounter_in_progress :: "instance_script \<Rightarrow> bool" where
  "is_encounter_in_progress s \<longleftrightarrow> (\<exists>b \<in> set (is_bosses s). bi_state b = IN_PROGRESS)"

section \<open>Doors, minions, objects\<close>

definition set_go_state :: "guid \<Rightarrow> bool \<Rightarrow> instance_script \<Rightarrow> instance_script" where
  "set_go_state g open s = s\<lparr>is_go_open := (is_go_open s)(g \<mapsto> open)\<rparr>"

fun door_allows :: "door_type \<Rightarrow> encounter_state \<Rightarrow> bool" where
  "door_allows DOOR_TYPE_ROOM st \<longleftrightarrow> st \<noteq> IN_PROGRESS"
| "door_allows DOOR_TYPE_PASSAGE st \<longleftrightarrow> st = DONE"
| "door_allows DOOR_TYPE_SPAWN_HOLE st \<longleftrightarrow> st = IN_PROGRESS"

definition door_range :: "u32 \<Rightarrow> instance_script \<Rightarrow> (nat \<times> door_type) list" where
  "door_range entry s = map snd (filter (\<lambda>p. fst p = entry) (is_doors s))"

text \<open>The loop ends with the first encounter that keeps the door closed.\<close>

fun door_open_loop :: "boss_info list \<Rightarrow> (nat \<times> door_type) list \<Rightarrow> bool" where
  "door_open_loop bs [] = True"
| "door_open_loop bs ((i, t) # r) = (if door_allows t (bi_state (bs ! i)) then door_open_loop bs r else False)"

definition update_door_state :: "game_object \<Rightarrow> instance_script \<Rightarrow> instance_script" where
  "update_door_state go s =
     (let r = door_range (go_entry go) s
      in if r = [] then s else set_go_state (go_guid go) (door_open_loop (is_bosses s) r) s)"

definition update_minion_state :: "creature \<Rightarrow> encounter_state \<Rightarrow> instance_script \<Rightarrow> instance_script" where
  "update_minion_state c st s =
     (case st of
        NOT_STARTED \<Rightarrow>
          if \<not> cr_alive c then emit [RespawnCreature (cr_guid c)] s
          else if cr_in_combat c then emit [EvadeCreature (cr_guid c)] s else s
      | IN_PROGRESS \<Rightarrow>
          if \<not> cr_alive c then emit [RespawnCreature (cr_guid c)] s
          else if \<not> cr_has_victim c then emit [ZoneInCombat (cr_guid c)] s else s
      | _ \<Rightarrow> s)"

definition add_object_type :: "guid \<Rightarrow> u32 \<Rightarrow> bool \<Rightarrow> instance_script \<Rightarrow> instance_script" where
  "add_object_type g t add s =
     (if add then s\<lparr>is_guids := om_set t g (is_guids s)\<rparr>
      else if map_of (is_guids s) t = Some g then s\<lparr>is_guids := om_del t (is_guids s)\<rparr>
      else s)"

definition add_object_creature :: "creature \<Rightarrow> bool \<Rightarrow> instance_script \<Rightarrow> instance_script" where
  "add_object_creature c add s =
     (case map_of (is_creature_info s) (cr_entry c) of None \<Rightarrow> s | Some t \<Rightarrow> add_object_type (cr_guid c) t add s)"

definition add_object_go :: "game_object \<Rightarrow> bool \<Rightarrow> instance_script \<Rightarrow> instance_script" where
  "add_object_go go add s =
     (case map_of (is_object_info s) (go_entry go) of None \<Rightarrow> s | Some t \<Rightarrow> add_object_type (go_guid go) t add s)"

definition register_door :: "guid \<Rightarrow> bool \<Rightarrow> nat \<times> door_type \<Rightarrow> instance_script \<Rightarrow> instance_script" where
  "register_door g add d s =
     upd_boss (fst d) (\<lambda>b. b\<lparr>bi_door := (bi_door b)(snd d :=
        (if add then os_ins g (bi_door b (snd d)) else os_del g (bi_door b (snd d))))\<rparr>) s"

definition add_door :: "game_object \<Rightarrow> bool \<Rightarrow> instance_script \<Rightarrow> instance_script" where
  "add_door go add s =
     (let r = door_range (go_entry go) s
      in if r = [] then s
         else
           (let s1 = fold (register_door (go_guid go) add) r s
            in if add then update_door_state go s1 else s1))"

definition add_minion :: "creature \<Rightarrow> bool \<Rightarrow> instance_script \<Rightarrow> instance_script" where
  "add_minion c add s =
     (case map_of (is_minions s) (cr_entry c) of
        None \<Rightarrow> s
      | Some i \<Rightarrow>
          upd_boss i (\<lambda>b. b\<lparr>bi_minion :=
            (if add then os_ins (cr_guid c) (bi_minion b) else os_del (cr_guid c) (bi_minion b))\<rparr>) s)"

definition on_creature_create :: "creature \<Rightarrow> instance_script \<Rightarrow> instance_script" where
  "on_creature_create c s = add_minion c True (add_object_creature c True s)"

definition on_creature_remove :: "creature \<Rightarrow> instance_script \<Rightarrow> instance_script" where
  "on_creature_remove c s = add_minion c False (add_object_creature c False s)"

definition on_game_object_create :: "game_object \<Rightarrow> instance_script \<Rightarrow> instance_script" where
  "on_game_object_create go s = add_door go True (add_object_go go True s)"

definition on_game_object_remove :: "game_object \<Rightarrow> instance_script \<Rightarrow> instance_script" where
  "on_game_object_remove go s = add_door go False (add_object_go go False s)"

section \<open>Saving and the states of the encounters\<close>

definition write_headers :: "instance_script \<Rightarrow> string" where
  "write_headers s = concat (map (\<lambda>c. [c, CHR '' '']) (is_headers s))"

definition write_boss_states :: "instance_script \<Rightarrow> string" where
  "write_boss_states s = concat (map (\<lambda>b. show_nat (unat (enc_val (bi_state b))) @ '' '') (is_bosses s))"

definition get_save_data :: "instance_script \<Rightarrow> string" where
  "get_save_data s = write_headers s @ write_boss_states s"

definition save_to_db :: "inst_env \<Rightarrow> instance_script \<Rightarrow> instance_script" where
  "save_to_db env s =
     (let data = get_save_data s
      in if data = [] then s else emit [UpdInstanceData (is_completed s) data (ie_instance_id env)] s)"

text \<open>A living world boss among the minions keeps an encounter from being done.\<close>

definition boss_alive :: "inst_env \<Rightarrow> guid list \<Rightarrow> bool" where
  "boss_alive env gs \<longleftrightarrow>
     (\<exists>g \<in> set gs. case ie_creature env g of None \<Rightarrow> False | Some c \<Rightarrow> cr_world_boss c \<and> cr_alive c)"

definition update_doors :: "inst_env \<Rightarrow> guid list \<Rightarrow> instance_script \<Rightarrow> instance_script" where
  "update_doors env gs s =
     fold (\<lambda>g s. case ie_object env g of None \<Rightarrow> s | Some go \<Rightarrow> update_door_state go s) gs s"

definition update_minions :: "inst_env \<Rightarrow> encounter_state \<Rightarrow> guid list \<Rightarrow> instance_script \<Rightarrow> instance_script" where
  "update_minions env st gs s =
     fold (\<lambda>g s. case ie_creature env g of None \<Rightarrow> s | Some c \<Rightarrow> update_minion_state c st s) gs s"

definition all_doors :: "boss_info \<Rightarrow> guid list" where
  "all_doors b = bi_door b DOOR_TYPE_ROOM @ bi_door b DOOR_TYPE_PASSAGE @ bi_door b DOOR_TYPE_SPAWN_HOLE"

definition set_boss_state :: "inst_env \<Rightarrow> u32 \<Rightarrow> encounter_state \<Rightarrow> instance_script \<Rightarrow> bool \<times> instance_script" where
  "set_boss_state env i st s =
     (if unat i < length (is_bosses s)
      then
        (let b = is_bosses s ! unat i; s1 = upd_boss (unat i) (\<lambda>b. b\<lparr>bi_state := st\<rparr>) s
         in if bi_state b = TO_BE_DECIDED then (False, s1)
            else if bi_state b = st then (False, s)
            else if st = DONE \<and> boss_alive env (bi_minion b) then (False, s)
            else (True, update_minions env st (bi_minion b) (update_doors env (all_doors b) (save_to_db env s1))))
      else (False, s))"

section \<open>Loading\<close>

text \<open>
  An input stream: the rest of the text, and whether it is still good. Reading from a stream that
  is not good, or holds no more than white space, leaves the variable as it was.
\<close>

record istream =
  st_rest :: string
  st_good :: bool

definition is_space :: "char \<Rightarrow> bool" where
  "is_space c \<longleftrightarrow> c \<in> {CHR '' '', CHR 0x09, CHR 0x0A, CHR 0x0B, CHR 0x0C, CHR 0x0D}"

definition read_char :: "char \<Rightarrow> istream \<Rightarrow> char \<times> istream" where
  "read_char junk st =
     (if \<not> st_good st then (junk, st)
      else
        (case dropWhile is_space (st_rest st) of
           [] \<Rightarrow> (junk, \<lparr>st_rest = [], st_good = False\<rparr>)
         | c # cs \<Rightarrow> (c, \<lparr>st_rest = cs, st_good = True\<rparr>)))"

definition read_u32 :: "u32 \<Rightarrow> istream \<Rightarrow> u32 \<times> istream" where
  "read_u32 junk st =
     (if \<not> st_good st then (junk, st)
      else
        (case dropWhile is_space (st_rest st) of
           [] \<Rightarrow> (junk, \<lparr>st_rest = [], st_good = False\<rparr>)
         | c # cs \<Rightarrow>
             (let signed = (c = CHR ''-'' \<or> c = CHR ''+'');
                  s = (if signed then cs else c # cs);
                  ds = takeWhile is_digit s;
                  rest = dropWhile is_digit s;
                  v = read_digits ds
              in if ds = [] then (0, \<lparr>st_rest = rest, st_good = False\<rparr>)
                 else if 2 ^ 32 \<le> v then (- 1, \<lparr>st_rest = rest, st_good = False\<rparr>)
                 else (if c = CHR ''-'' then - word_of_nat v else word_of_nat v,
                       \<lparr>st_rest = rest, st_good = rest \<noteq> []\<rparr>))))"

fun read_headers :: "inst_env \<Rightarrow> nat \<Rightarrow> string \<Rightarrow> istream \<Rightarrow> bool \<times> istream" where
  "read_headers env n [] st = (True, st)"
| "read_headers env n (h # hs) st =
     (case read_char (ie_junk_char env n) st of (buff, st1) \<Rightarrow>
        if h \<noteq> buff then (False, st1) else read_headers env (Suc n) hs st1)"

text \<open>The boss with number \<open>n\<close> and those that follow.\<close>

fun read_boss_states :: "inst_env \<Rightarrow> nat \<Rightarrow> nat \<Rightarrow> istream \<Rightarrow> instance_script \<Rightarrow> istream \<times> instance_script" where
  "read_boss_states env n 0 st s = (st, s)"
| "read_boss_states env n (Suc k) st s =
     (case read_u32 (ie_junk_u32 env n) st of (buff0, st1) \<Rightarrow>
        (let buff = (if buff0 = enc_val IN_PROGRESS \<or> buff0 = enc_val SPECIAL then enc_val NOT_STARTED else buff0);
             s1 = (if buff < enc_val TO_BE_DECIDED then snd (set_boss_state env (word_of_nat n) (enc_of buff) s) else s)
         in read_boss_states env (Suc n) k st1 s1))"

definition load_instance :: "inst_env \<Rightarrow> string option \<Rightarrow> instance_script \<Rightarrow> instance_script" where
  "load_instance env data s =
     (case data of
        None \<Rightarrow> s
      | Some text \<Rightarrow>
          (case read_headers env 0 (is_headers s) \<lparr>st_rest = text, st_good = True\<rparr> of
             (True, st) \<Rightarrow> snd (read_boss_states env 0 (length (is_bosses s)) st s)
           | (False, st) \<Rightarrow> s))"

section \<open>Helpers of the scripts\<close>

definition handle_game_object :: "inst_env \<Rightarrow> guid \<Rightarrow> bool \<Rightarrow> game_object option \<Rightarrow> instance_script \<Rightarrow> instance_script" where
  "handle_game_object env g open go s =
     (case (case go of None \<Rightarrow> ie_object env g | Some x \<Rightarrow> Some x) of
        None \<Rightarrow> s | Some x \<Rightarrow> set_go_state (go_guid x) open s)"

definition is_door_or_button :: "game_object \<Rightarrow> bool" where
  "is_door_or_button go \<longleftrightarrow> go_type go = 0 \<or> go_type go = 1"

definition do_use_door_or_button :: "inst_env \<Rightarrow> guid \<Rightarrow> u32 \<Rightarrow> bool \<Rightarrow> instance_script \<Rightarrow> instance_script" where
  "do_use_door_or_button env g t alt s =
     (if g = 0 then s
      else (case ie_object env g of
          None \<Rightarrow> s
        | Some go \<Rightarrow>
            if is_door_or_button go
            then (if go_loot go = GO_READY then emit [UseDoorOrButton (go_guid go) t alt] s
                  else if go_loot go = GO_ACTIVATED then emit [ResetDoorOrButton (go_guid go)] s else s)
            else s))"

definition do_close_door_or_button :: "inst_env \<Rightarrow> guid \<Rightarrow> instance_script \<Rightarrow> instance_script" where
  "do_close_door_or_button env g s =
     (if g = 0 then s
      else (case ie_object env g of
          None \<Rightarrow> s
        | Some go \<Rightarrow>
            if is_door_or_button go \<and> go_loot go = GO_ACTIVATED then emit [ResetDoorOrButton (go_guid go)] s else s))"

definition do_respawn_game_object :: "inst_env \<Rightarrow> guid \<Rightarrow> u32 \<Rightarrow> instance_script \<Rightarrow> instance_script" where
  "do_respawn_game_object env g t s =
     (case ie_object env g of
        None \<Rightarrow> s
      | Some go \<Rightarrow>
          if go_type go \<in> {0, 1, 6, 17} then s
          else if go_spawned go then s
          else emit [SetRespawnTime (go_guid go) t] s)"

text \<open>The helpers that act on every player of the map.\<close>

definition for_players :: "inst_env \<Rightarrow> (map_player \<Rightarrow> inst_out list) \<Rightarrow> instance_script \<Rightarrow> instance_script" where
  "for_players env f s =
     emit (concat (map (\<lambda>p. case p of None \<Rightarrow> [] | Some x \<Rightarrow> f x) (ie_players env))) s"

definition do_update_world_state :: "inst_env \<Rightarrow> u32 \<Rightarrow> u32 \<Rightarrow> instance_script \<Rightarrow> instance_script" where
  "do_update_world_state env i v = for_players env (\<lambda>p. [UpdateWorldState (mp_guid p) i v])"

text \<open>The text is given as formatted; the buffer holds 1023 characters of it.\<close>

definition do_send_notify :: "inst_env \<Rightarrow> string \<Rightarrow> instance_script \<Rightarrow> instance_script" where
  "do_send_notify env text =
     for_players env (\<lambda>p. if mp_session p then [Notification (mp_guid p) (take 1023 text)] else [])"

definition do_complete_achievement :: "inst_env \<Rightarrow> u32 \<Rightarrow> instance_script \<Rightarrow> instance_script" where
  "do_complete_achievement env a s =
     (if \<not> ie_achievement env a then s else for_players env (\<lambda>p. [CompletedAchievement (mp_guid p) a]) s)"

definition do_update_criteria :: "inst_env \<Rightarrow> u32 \<Rightarrow> u32 \<Rightarrow> u32 \<Rightarrow> guid option \<Rightarrow> instance_script \<Rightarrow> instance_script" where
  "do_update_criteria env t a b u = for_players env (\<lambda>p. [UpdateCriteria (mp_guid p) t a b u])"

definition do_start_timed :: "inst_env \<Rightarrow> u32 \<Rightarrow> u32 \<Rightarrow> instance_script \<Rightarrow> instance_script" where
  "do_start_timed env t e = for_players env (\<lambda>p. [StartTimed (mp_guid p) t e])"

definition do_stop_timed :: "inst_env \<Rightarrow> u32 \<Rightarrow> u32 \<Rightarrow> instance_script \<Rightarrow> instance_script" where
  "do_stop_timed env t e = for_players env (\<lambda>p. [RemoveTimed (mp_guid p) t e])"

definition do_remove_auras :: "inst_env \<Rightarrow> u32 \<Rightarrow> instance_script \<Rightarrow> instance_script" where
  "do_remove_auras env spell =
     for_players env (\<lambda>p. RemoveAuras (mp_guid p) spell
       # (case mp_pet p of None \<Rightarrow> [] | Some pet \<Rightarrow> [RemoveAuras pet spell]))"

definition do_cast_spell :: "inst_env \<Rightarrow> u32 \<Rightarrow> instance_script \<Rightarrow> instance_script" where
  "do_cast_spell env spell = for_players env (\<lambda>p. [CastSelf (mp_guid p) spell])"

definition send_encounter_unit :: "u32 \<Rightarrow> guid option \<Rightarrow> u8 \<Rightarrow> u8 \<Rightarrow> instance_script \<Rightarrow> instance_script" where
  "send_encounter_unit t u p1 p2 s =
     (if t = 0 \<or> t = 1 \<or> t = 2
      then (case u of None \<Rightarrow> s | Some g \<Rightarrow> emit [EncounterUnit [IF32 t, IFPack g, IF8 p1]] s)
      else if t = 3 \<or> t = 4 \<or> t = 6 then emit [EncounterUnit [IF32 t, IF8 p1]] s
      else if t = 5 then emit [EncounterUnit [IF32 t, IF8 p1, IF8 p2]] s
      else emit [EncounterUnit [IF32 t]] s)"

section \<open>Completed encounters\<close>

fun credit_loop :: "u32 \<Rightarrow> u32 \<Rightarrow> dungeon_encounter list \<Rightarrow> u32 \<Rightarrow> u32 \<times> u32" where
  "credit_loop t e [] m = (m, 0)"
| "credit_loop t e (d # ds) m =
     (if de_credit_type d = t \<and> de_credit_entry d = e
      then (let m' = m OR push_bit (unat (de_index d)) 1
            in if de_last_dungeon d \<noteq> 0 then (m', de_last_dungeon d) else credit_loop t e ds m')
      else credit_loop t e ds m)"

fun first_lfg_group :: "map_player option list \<Rightarrow> guid option" where
  "first_lfg_group [] = None"
| "first_lfg_group (p # ps) =
     (case p of
        None \<Rightarrow> first_lfg_group ps
      | Some x \<Rightarrow> (case mp_group x of Some (g, True) \<Rightarrow> Some g | _ \<Rightarrow> first_lfg_group ps))"

definition update_encounter_state :: "inst_env \<Rightarrow> u32 \<Rightarrow> u32 \<Rightarrow> instance_script \<Rightarrow> instance_script" where
  "update_encounter_state env t e s =
     (case ie_encounters env (ie_difficulty env) of
        None \<Rightarrow> s
      | Some ds \<Rightarrow>
          (case credit_loop t e ds (is_completed s) of (m, dungeon) \<Rightarrow>
             (let s1 = s\<lparr>is_completed := m\<rparr>
              in if dungeon \<noteq> 0
                 then (case first_lfg_group (ie_players env) of
                         None \<Rightarrow> s1 | Some g \<Rightarrow> emit [FinishDungeon g dungeon] s1)
                 else s1)))"

definition set_completed_mask :: "u32 \<Rightarrow> instance_script \<Rightarrow> instance_script" where
  "set_completed_mask m s = s\<lparr>is_completed := m\<rparr>"

definition boss_state_name :: "u8 \<Rightarrow> string" where
  "boss_state_name st =
     (if st = 0 then ''NOT_STARTED'' else if st = 1 then ''IN_PROGRESS'' else if st = 2 then ''FAIL''
      else if st = 3 then ''DONE'' else if st = 4 then ''SPECIAL'' else if st = 5 then ''TO_BE_DECIDED''
      else ''INVALID'')"

text \<open>
  \<open>GetCompletedEncountersReadable\<close>, in 8-bit arithmetic. The first loop counts the divisions until the
  number is 1: it returns the value of \<open>i\<close> at its end; \<open>fuel\<close> bounds its at most 255 rounds.
\<close>

fun divisions :: "nat \<Rightarrow> u8 \<Rightarrow> u8 \<Rightarrow> u8 \<Rightarrow> u8" where
  "divisions 0 i num aux = i"
| "divisions (Suc fuel) i num aux =
     (if i \<le> num then (if aux div 2 = 1 then i else divisions fuel (i + 1) num (aux div 2)) else i)"

fun conversion :: "nat \<Rightarrow> u32 \<Rightarrow> u8 \<Rightarrow> u32 \<times> u8" where
  "conversion 0 count num = (count, num)"
| "conversion (Suc k) count num = conversion k (if num mod 2 = 1 then count + 1 else count) (num div 2)"

definition completed_encounters_readable :: "instance_script \<Rightarrow> u32" where
  "completed_encounters_readable s =
     (let num = ucast (is_completed s) :: u8;
          i = divisions 255 1 num num
      in case conversion (unat i) 0 num of (count, rest) \<Rightarrow> if 0 < rest then count + 1 else count)"

text \<open>A map without encounters of the difficulty is dereferenced all the same: \<open>None\<close>.\<close>

definition total_encounters_readable :: "inst_env \<Rightarrow> u32 option" where
  "total_encounters_readable env =
     (let d = ie_difficulty env;
          actual = (if d = 2 then 0 else if d = 3 then 1 else d)
      in map_option (\<lambda>ds. word_of_nat (length ds)) (ie_encounters env actual))"

section \<open>Reading back what was written\<close>

lemma is_space_blank [simp]: "is_space CHR '' ''"
  by (simp add: is_space_def)

lemma digit_not_space: "is_digit c \<Longrightarrow> \<not> is_space c"
  by (auto simp: is_digit_def is_space_def)

lemma alpha_not_space: "is_alpha c \<Longrightarrow> \<not> is_space c"
  by (auto simp: is_alpha_def is_space_def Let_def)

lemma digit_not_sign: "is_digit c \<Longrightarrow> c \<noteq> CHR ''-'' \<and> c \<noteq> CHR ''+''"
  by (auto simp: is_digit_def)

definition blanks :: "string \<Rightarrow> bool" where
  "blanks sp \<longleftrightarrow> (\<forall>c \<in> set sp. is_space c)"

lemma blanks_simps [simp]: "blanks []" "blanks [CHR '' '']"
  by (simp_all add: blanks_def)

lemma skip_blanks: "blanks sp \<Longrightarrow> \<not> is_space c \<Longrightarrow> dropWhile is_space (sp @ c # r) = c # r"
  by (induction sp) (auto simp: blanks_def)

lemma read_char_written:
  "blanks sp \<Longrightarrow> \<not> is_space c \<Longrightarrow> read_char j \<lparr>st_rest = sp @ c # r, st_good = True\<rparr> = (c, \<lparr>st_rest = r, st_good = True\<rparr>)"
  by (simp add: read_char_def skip_blanks)

lemma read_headers_written:
  "list_all is_alpha hs \<Longrightarrow> blanks sp \<Longrightarrow>
   read_headers env n hs \<lparr>st_rest = sp @ concat (map (\<lambda>c. [c, CHR '' '']) hs) @ r, st_good = True\<rparr>
     = (True, \<lparr>st_rest = (if hs = [] then sp else '' '') @ r, st_good = True\<rparr>)"
proof (induction hs arbitrary: n sp)
  case (Cons h hs)
  then have "read_char (ie_junk_char env n) \<lparr>st_rest = sp @ h # CHR '' '' # concat (map (\<lambda>c. [c, CHR '' '']) hs) @ r, st_good = True\<rparr>
      = (h, \<lparr>st_rest = CHR '' '' # concat (map (\<lambda>c. [c, CHR '' '']) hs) @ r, st_good = True\<rparr>)"
    by (intro read_char_written) (auto dest: alpha_not_space)
  with Cons.IH [of "'' ''" "Suc n"] Cons.prems show ?case by simp
qed simp

lemma span_digits:
  "\<forall>c \<in> set ds. is_digit c \<Longrightarrow> \<not> is_digit x \<Longrightarrow> takeWhile is_digit (ds @ x # r) = ds \<and> dropWhile is_digit (ds @ x # r) = x # r"
  by (induction ds) auto

lemma read_u32_written:
  assumes "blanks sp" "n < 2 ^ 32"
  shows "read_u32 j \<lparr>st_rest = sp @ show_nat n @ CHR '' '' # r, st_good = True\<rparr>
    = (word_of_nat n, \<lparr>st_rest = CHR '' '' # r, st_good = True\<rparr>)"
proof -
  obtain c cs where sn: "show_nat n = c # cs" by (cases "show_nat n") auto
  then have d: "is_digit c" "\<forall>x \<in> set (c # cs). is_digit x"
    using show_nat_digits [of n] by auto
  have blank: "\<not> is_digit CHR '' ''" by (simp add: is_digit_def)
  have "dropWhile is_space (sp @ show_nat n @ CHR '' '' # r) = c # cs @ CHR '' '' # r"
    using skip_blanks [OF assms(1) digit_not_space [OF d(1)]] by (simp add: sn)
  moreover have "read_digits (c # cs) = n"
    using read_show_nat [of n] by (simp add: sn)
  moreover note span_digits [OF d(2) blank, of r]
  ultimately show ?thesis
    using digit_not_sign [OF d(1)] assms(2) d(1)
    by (simp add: read_u32_def Let_def)
qed

lemma enc_val_bound: "unat (enc_val st) \<le> 5"
  by (cases st) simp_all

lemma enc_of_val: "enc_of (enc_val st) = st"
  by (cases st) (simp_all add: enc_of_def)

text \<open>The state a saved state is loaded as.\<close>

fun resumed :: "encounter_state \<Rightarrow> encounter_state" where
  "resumed IN_PROGRESS = NOT_STARTED"
| "resumed SPECIAL = NOT_STARTED"
| "resumed st = st"

definition resume_boss :: "boss_info \<Rightarrow> encounter_state \<Rightarrow> boss_info" where
  "resume_boss b st = b\<lparr>bi_state := resumed st\<rparr>"

lemma set_boss_state_loading:
  "unat i < length (is_bosses s) \<Longrightarrow> bi_state (is_bosses s ! unat i) = TO_BE_DECIDED \<Longrightarrow>
   set_boss_state env i st s = (False, upd_boss (unat i) (\<lambda>b. b\<lparr>bi_state := st\<rparr>) s)"
  by (simp add: set_boss_state_def Let_def)

definition undecided :: "boss_info \<Rightarrow> bool" where
  "undecided b \<longleftrightarrow> bi_state b = TO_BE_DECIDED"

text \<open>One round of the loop, for a number that was written from the state \<open>st\<close>.\<close>

lemma read_state_written:
  assumes "n < length (is_bosses s)" "length (is_bosses s) < 2 ^ 32" "undecided (is_bosses s ! n)"
  shows "(let buff0 = enc_val st;
              buff = (if buff0 = enc_val IN_PROGRESS \<or> buff0 = enc_val SPECIAL then enc_val NOT_STARTED else buff0)
          in if buff < enc_val TO_BE_DECIDED then snd (set_boss_state env (word_of_nat n) (enc_of buff) s) else s)
    = s\<lparr>is_bosses := (is_bosses s)[n := resume_boss (is_bosses s ! n) st]\<rparr>"
proof -
  have u: "unat (word_of_nat n :: u32) = n"
    using assms(1,2) by (simp add: unsigned_of_nat take_bit_nat_eq_self)
  have set_it: "snd (set_boss_state env (word_of_nat n) x s) = s\<lparr>is_bosses := (is_bosses s)[n := (is_bosses s ! n)\<lparr>bi_state := x\<rparr>]\<rparr>" for x
    using assms set_boss_state_loading [of "word_of_nat n" s env x]
    by (simp add: u undecided_def upd_boss_def)
  have keep: "(is_bosses s)[n := (is_bosses s ! n)\<lparr>bi_state := TO_BE_DECIDED\<rparr>] = is_bosses s"
    using assms(1,3) by (intro list_update_same_conv [THEN iffD2]) (auto simp: undecided_def)
  show ?thesis
    by (cases st) (simp_all add: set_it enc_of_def resume_boss_def keep del: set_boss_state_def)
qed

lemma read_boss_states_written:
  "length (is_bosses s) < 2 ^ 32 \<Longrightarrow> n + length sts = length (is_bosses s) \<Longrightarrow> blanks sp \<Longrightarrow>
   list_all undecided (drop n (is_bosses s)) \<Longrightarrow>
   snd (read_boss_states env n (length sts)
      \<lparr>st_rest = sp @ concat (map (\<lambda>st. show_nat (unat (enc_val st)) @ '' '') sts), st_good = True\<rparr> s)
   = s\<lparr>is_bosses := take n (is_bosses s) @ map2 resume_boss (drop n (is_bosses s)) sts\<rparr>"
proof (induction sts arbitrary: n s sp)
  case (Cons st sts)
  let ?rest = "concat (map (\<lambda>st. show_nat (unat (enc_val st)) @ '' '') sts)"
  let ?b = "is_bosses s ! n"
  let ?s = "s\<lparr>is_bosses := (is_bosses s)[n := resume_boss ?b st]\<rparr>"
  have n: "n < length (is_bosses s)" using Cons.prems by simp
  then have dr: "drop n (is_bosses s) = ?b # drop (Suc n) (is_bosses s)"
    by (simp add: Cons_nth_drop_Suc)
  have rd: "read_u32 (ie_junk_u32 env n) \<lparr>st_rest = sp @ show_nat (unat (enc_val st)) @ CHR '' '' # ?rest, st_good = True\<rparr>
      = (enc_val st, \<lparr>st_rest = CHR '' '' # ?rest, st_good = True\<rparr>)"
    using read_u32_written [OF Cons.prems(3), of "unat (enc_val st)"] enc_val_bound [of st] by simp
  have IH: "snd (read_boss_states env (Suc n) (length sts) \<lparr>st_rest = '' '' @ ?rest, st_good = True\<rparr> ?s)
      = ?s\<lparr>is_bosses := take (Suc n) (is_bosses ?s) @ map2 resume_boss (drop (Suc n) (is_bosses ?s)) sts\<rparr>"
    using Cons.prems n dr by (intro Cons.IH) auto
  have "take (Suc n) ((is_bosses s)[n := resume_boss ?b st]) = take n (is_bosses s) @ [resume_boss ?b st]"
    using n by (simp add: take_Suc_conv_app_nth)
  with IH have "snd (read_boss_states env (Suc n) (length sts) \<lparr>st_rest = CHR '' '' # ?rest, st_good = True\<rparr> ?s)
      = s\<lparr>is_bosses := take n (is_bosses s) @ map2 resume_boss (drop n (is_bosses s)) (st # sts)\<rparr>"
    by (simp add: dr)
  with rd read_state_written [of n s st env] n Cons.prems dr show ?case
    by (simp add: Let_def del: enc_val.simps)
qed simp

text \<open>The whole text.\<close>

definition fresh_for :: "string \<Rightarrow> nat \<Rightarrow> instance_script \<Rightarrow> bool" where
  "fresh_for hs n s \<longleftrightarrow> is_headers s = hs \<and> list_all is_alpha hs \<and> length (is_bosses s) = n \<and> n < 2 ^ 32
     \<and> list_all undecided (is_bosses s)"

lemma load_written:
  assumes "fresh_for (is_headers s) (length (is_bosses s)) s0"
  shows "load_instance env (Some (get_save_data s)) s0
    = s0\<lparr>is_bosses := map2 resume_boss (is_bosses s0) (map bi_state (is_bosses s))\<rparr>"
proof -
  let ?sts = "map bi_state (is_bosses s)"
  let ?txt = "concat (map (\<lambda>st. show_nat (unat (enc_val st)) @ '' '') ?sts)"
  have w: "write_boss_states s = ?txt"
    by (simp add: write_boss_states_def comp_def)
  let ?sp = "if is_headers s = [] then [] else '' ''"
  have "read_headers env 0 (is_headers s) \<lparr>st_rest = get_save_data s, st_good = True\<rparr> = (True, \<lparr>st_rest = ?sp @ ?txt, st_good = True\<rparr>)"
    using assms read_headers_written [of "is_headers s" "[]" env 0 ?txt]
    by (simp add: get_save_data_def write_headers_def w fresh_for_def)
  moreover have "snd (read_boss_states env 0 (length ?sts) \<lparr>st_rest = ?sp @ ?txt, st_good = True\<rparr> s0)
      = s0\<lparr>is_bosses := take 0 (is_bosses s0) @ map2 resume_boss (drop 0 (is_bosses s0)) ?sts\<rparr>"
    using assms by (intro read_boss_states_written) (auto simp: fresh_for_def)
  ultimately show ?thesis
    using assms by (simp add: load_instance_def fresh_for_def)
qed

section \<open>Runs of an instance\<close>

text \<open>
  The objects the map holds and the row of the table \<open>instance\<close>, together with the script. What
  calls the script: the map, when a creature or an object comes or goes, and the scripts, when
  they set a state. The row is what \<open>SaveToDB\<close> wrote last.
\<close>

record inst_world =
  iw_script :: instance_script
  iw_objects :: "guid \<Rightarrow> game_object option"
  iw_row :: string

datatype inst_event =
    EvObjectCreate game_object | EvObjectRemove guid
  | EvCreatureCreate creature | EvCreatureRemove creature
  | EvBossState inst_env u32 encounter_state
  | EvEncounter inst_env u32 u32

definition env_of :: "inst_env \<Rightarrow> inst_world \<Rightarrow> inst_env" where
  "env_of env w = env\<lparr>ie_object := iw_objects w\<rparr>"

fun last_row :: "string \<Rightarrow> inst_out list \<Rightarrow> string" where
  "last_row r [] = r"
| "last_row r (UpdInstanceData m d i # os) = last_row d os"
| "last_row r (_ # os) = last_row r os"

text \<open>What a step wrote is taken from the output.\<close>

definition flush_row :: "inst_world \<Rightarrow> inst_world" where
  "flush_row w = w\<lparr>iw_row := last_row (iw_row w) (is_out (iw_script w)), iw_script := (iw_script w)\<lparr>is_out := []\<rparr>\<rparr>"

definition on_script :: "(instance_script \<Rightarrow> instance_script) \<Rightarrow> inst_world \<Rightarrow> inst_world" where
  "on_script f w = flush_row (w\<lparr>iw_script := f (iw_script w)\<rparr>)"

fun inst_step :: "inst_event \<Rightarrow> inst_world \<Rightarrow> inst_world" where
  "inst_step (EvObjectCreate go) w =
     (on_script (on_game_object_create go) w)\<lparr>iw_objects := (iw_objects w)(go_guid go \<mapsto> go)\<rparr>"
| "inst_step (EvObjectRemove g) w =
     (case iw_objects w g of
        None \<Rightarrow> w
      | Some go \<Rightarrow> (on_script (on_game_object_remove go) w)\<lparr>iw_objects := (iw_objects w)(g := None)\<rparr>)"
| "inst_step (EvCreatureCreate c) w = on_script (on_creature_create c) w"
| "inst_step (EvCreatureRemove c) w = on_script (on_creature_remove c) w"
| "inst_step (EvBossState env i st) w = on_script (\<lambda>s. snd (set_boss_state (env_of env w) i st s)) w"
| "inst_step (EvEncounter env t e) w = on_script (update_encounter_state (env_of env w) t e) w"

text \<open>
  The first state of an encounter is stored without its doors being updated and without being
  saved; it is one in which no door has to move and nothing is lost.
\<close>

fun quiet :: "inst_event \<Rightarrow> inst_world \<Rightarrow> bool" where
  "quiet (EvBossState env i st) w \<longleftrightarrow>
     get_boss_state i (iw_script w) \<noteq> TO_BE_DECIDED \<or> st \<in> {NOT_STARTED, SPECIAL, TO_BE_DECIDED}"
| "quiet _ w \<longleftrightarrow> True"

section \<open>Doors follow the encounters\<close>

text \<open>A door of an encounter is open iff every encounter it belongs to allows it.\<close>

definition door_consistent :: "instance_script \<Rightarrow> game_object \<Rightarrow> bool" where
  "door_consistent s go \<longleftrightarrow> door_range (go_entry go) s \<noteq> [] \<longrightarrow>
     is_go_open s (go_guid go) = Some (\<forall>d \<in> set (door_range (go_entry go) s). door_allows (snd d) (bi_state (is_bosses s ! fst d)))"

definition door_registered :: "instance_script \<Rightarrow> game_object \<Rightarrow> bool" where
  "door_registered s go \<longleftrightarrow>
     (\<forall>d \<in> set (door_range (go_entry go) s). go_guid go \<in> set (bi_door (is_bosses s ! fst d) (snd d)))"

definition doors_in_range :: "instance_script \<Rightarrow> bool" where
  "doors_in_range s \<longleftrightarrow> (\<forall>p \<in> set (is_doors s). fst (snd p) < length (is_bosses s))"

definition doors_ok :: "inst_world \<Rightarrow> bool" where
  "doors_ok w \<longleftrightarrow> doors_in_range (iw_script w)
     \<and> (\<forall>g go. iw_objects w g = Some go \<longrightarrow> go_guid go = g \<and> door_registered (iw_script w) go \<and> door_consistent (iw_script w) go)"

lemma door_open_loop_all:
  "door_open_loop bs r \<longleftrightarrow> (\<forall>d \<in> set r. door_allows (snd d) (bi_state (bs ! fst d)))"
  by (induction bs r rule: door_open_loop.induct) auto

lemma emit_simps [simp]:
  "is_bosses (emit os s) = is_bosses s" "is_doors (emit os s) = is_doors s" "is_go_open (emit os s) = is_go_open s"
  "is_headers (emit os s) = is_headers s" "is_out (emit os s) = is_out s @ os" "is_completed (emit os s) = is_completed s"
  by (simp_all add: emit_def)

lemma upd_boss_simps [simp]:
  "length (is_bosses (upd_boss i f s)) = length (is_bosses s)" "is_doors (upd_boss i f s) = is_doors s"
  "is_go_open (upd_boss i f s) = is_go_open s" "is_headers (upd_boss i f s) = is_headers s" "is_out (upd_boss i f s) = is_out s"
  "j < length (is_bosses s) \<Longrightarrow> is_bosses (upd_boss i f s) ! j = (if j = i then f (is_bosses s ! i) else is_bosses s ! j)"
  by (auto simp: upd_boss_def nth_list_update)

lemma set_go_state_simps [simp]:
  "is_bosses (set_go_state g x s) = is_bosses s" "is_doors (set_go_state g x s) = is_doors s"
  "is_go_open (set_go_state g x s) = (is_go_open s)(g \<mapsto> x)" "is_headers (set_go_state g x s) = is_headers s" "is_out (set_go_state g x s) = is_out s"
  by (simp_all add: set_go_state_def)

text \<open>What the doors depend on.\<close>

definition door_view :: "instance_script \<Rightarrow> (encounter_state \<times> (door_type \<Rightarrow> guid list)) list \<times> (u32 \<times> nat \<times> door_type) list \<times> (guid \<Rightarrow> bool option)" where
  "door_view s = (map (\<lambda>b. (bi_state b, bi_door b)) (is_bosses s), is_doors s, is_go_open s)"

lemma door_view_eqD:
  assumes "door_view s' = door_view s"
  shows "is_doors s' = is_doors s" "is_go_open s' = is_go_open s" "length (is_bosses s') = length (is_bosses s)"
    "i < length (is_bosses s) \<Longrightarrow> bi_state (is_bosses s' ! i) = bi_state (is_bosses s ! i) \<and> bi_door (is_bosses s' ! i) = bi_door (is_bosses s ! i)"
proof -
  have m: "map (\<lambda>b. (bi_state b, bi_door b)) (is_bosses s') = map (\<lambda>b. (bi_state b, bi_door b)) (is_bosses s)"
    and o: "is_doors s' = is_doors s" "is_go_open s' = is_go_open s"
    using assms by (simp_all add: door_view_def)
  show "is_doors s' = is_doors s" "is_go_open s' = is_go_open s" by (fact o)+
  show l: "length (is_bosses s') = length (is_bosses s)"
    using m by (rule map_eq_imp_length_eq)
  show "i < length (is_bosses s) \<Longrightarrow> bi_state (is_bosses s' ! i) = bi_state (is_bosses s ! i) \<and> bi_door (is_bosses s' ! i) = bi_door (is_bosses s ! i)"
    using arg_cong [OF m, where f = "\<lambda>xs. xs ! i"] l by simp
qed

lemma door_range_mem:
  "doors_in_range s \<Longrightarrow> d \<in> set (door_range e s) \<Longrightarrow> fst d < length (is_bosses s)"
  by (auto simp: doors_in_range_def door_range_def)

lemma door_range_cong: "is_doors s' = is_doors s \<Longrightarrow> door_range e s' = door_range e s"
  by (simp add: door_range_def)

text \<open>A change that keeps states and door positions and loses no registration of the object.\<close>

lemma door_kept:
  assumes "doors_in_range s" "is_doors s' = is_doors s" "length (is_bosses s') = length (is_bosses s)"
    and st: "\<And>i. i < length (is_bosses s) \<Longrightarrow> bi_state (is_bosses s' ! i) = bi_state (is_bosses s ! i)"
    and reg: "\<And>i t. i < length (is_bosses s) \<Longrightarrow> go_guid go \<in> set (bi_door (is_bosses s ! i) t) \<Longrightarrow> go_guid go \<in> set (bi_door (is_bosses s' ! i) t)"
    and op: "is_go_open s' (go_guid go) = is_go_open s (go_guid go)"
    and ok: "door_registered s go" "door_consistent s go"
  shows "door_registered s' go \<and> door_consistent s' go"
proof -
  let ?r = "door_range (go_entry go) s"
  have same: "door_range (go_entry go) s' = ?r"
    by (rule door_range_cong [OF assms(2)])
  have lt: "fst d < length (is_bosses s)" if "d \<in> set ?r" for d
    by (rule door_range_mem [OF assms(1) that])
  have "door_registered s' go"
    unfolding door_registered_def same
    using ok(1) by (auto simp: door_registered_def intro: reg lt)
  moreover have "(\<forall>d \<in> set ?r. door_allows (snd d) (bi_state (is_bosses s' ! fst d)))
      \<longleftrightarrow> (\<forall>d \<in> set ?r. door_allows (snd d) (bi_state (is_bosses s ! fst d)))"
    by (intro ball_cong refl) (simp only: st lt)
  then have "door_consistent s' go"
    unfolding door_consistent_def same op
    using ok(2) by (simp add: door_consistent_def)
  ultimately show ?thesis ..
qed

lemma doors_ok_view:
  assumes "doors_ok w" "door_view (iw_script w') = door_view (iw_script w)" "iw_objects w' = iw_objects w"
  shows "doors_ok w'"
proof -
  note v = door_view_eqD [OF assms(2)]
  have r: "doors_in_range (iw_script w)" using assms(1) by (simp add: doors_ok_def)
  have "doors_in_range (iw_script w')" using r v by (simp add: doors_in_range_def)
  moreover have "door_registered (iw_script w') go \<and> door_consistent (iw_script w') go"
    if "door_registered (iw_script w) go" "door_consistent (iw_script w) go" for go
    using v that by (intro door_kept [OF r]) auto
  ultimately show ?thesis
    using assms(1,3) by (auto simp: doors_ok_def)
qed

named_theorems door_views

lemma door_view_emit [door_views]: "door_view (emit os s) = door_view s"
  by (simp add: door_view_def)

lemma door_view_object_type [door_views]: "door_view (add_object_type g t a s) = door_view s"
  by (simp add: door_view_def add_object_type_def)

lemma door_view_object_creature [door_views]: "door_view (add_object_creature c a s) = door_view s"
  by (simp add: add_object_creature_def door_views split: option.split)

lemma door_view_object_go [door_views]: "door_view (add_object_go go a s) = door_view s"
  by (simp add: add_object_go_def door_views split: option.split)

lemma map_update_same: "f y = f (xs ! i) \<Longrightarrow> map f (xs[i := y]) = map f xs"
  by (cases "i < length xs") (simp_all add: map_update list_update_same_conv list_update_beyond)

lemma door_view_minion [door_views]: "door_view (add_minion c a s) = door_view s"
  by (auto simp: add_minion_def door_view_def upd_boss_def map_update_same split: option.split)

lemma door_view_save [door_views]: "door_view (save_to_db env s) = door_view s"
  by (simp add: save_to_db_def Let_def door_views)

lemma door_view_minion_state [door_views]: "door_view (update_minion_state c st s) = door_view s"
  by (simp add: update_minion_state_def door_views split: encounter_state.split)

lemma door_view_minions [door_views]: "door_view (update_minions env st gs s) = door_view s"
  unfolding update_minions_def
  by (induction gs arbitrary: s) (auto simp: door_views split: option.split)

lemma door_view_completed [door_views]: "door_view (s\<lparr>is_completed := m\<rparr>) = door_view s"
  by (simp add: door_view_def)

lemma door_view_out [door_views]: "door_view (s\<lparr>is_out := os\<rparr>) = door_view s"
  by (simp add: door_view_def)

lemma door_view_encounter [door_views]: "door_view (update_encounter_state env t e s) = door_view s"
  by (simp add: update_encounter_state_def Let_def door_views split: option.split prod.split)

lemma iw_script_on_script [simp]: "iw_script (on_script f w) = (f (iw_script w))\<lparr>is_out := []\<rparr>"
  by (simp add: on_script_def flush_row_def)

lemma iw_objects_on_script [simp]: "iw_objects (on_script f w) = iw_objects w"
  by (simp add: on_script_def flush_row_def)

text \<open>Registering the object of a door.\<close>

definition reg_doors :: "instance_script \<Rightarrow> nat \<Rightarrow> door_type \<Rightarrow> guid set" where
  "reg_doors s i t = set (bi_door (is_bosses s ! i) t)"

lemma register_door_facts:
  "is_doors (register_door g a d s) = is_doors s" "is_go_open (register_door g a d s) = is_go_open s"
  "length (is_bosses (register_door g a d s)) = length (is_bosses s)"
  "map bi_state (is_bosses (register_door g a d s)) = map bi_state (is_bosses s)"
  by (simp_all add: register_door_def upd_boss_def map_update_same)

lemma reg_doors_register:
  "i < length (is_bosses s) \<Longrightarrow> reg_doors (register_door g a d s) i t =
     (if (i, t) = d then (if a then insert g (reg_doors s i t) else reg_doors s i t - {g}) else reg_doors s i t)"
  by (cases d) (auto simp: register_door_def reg_doors_def)

lemma register_doors_facts:
  "is_doors (fold (register_door g a) r s) = is_doors s" "is_go_open (fold (register_door g a) r s) = is_go_open s"
  "length (is_bosses (fold (register_door g a) r s)) = length (is_bosses s)"
  "map bi_state (is_bosses (fold (register_door g a) r s)) = map bi_state (is_bosses s)"
  by (induction r arbitrary: s) (simp_all add: register_door_facts)

lemma reg_doors_registers:
  "i < length (is_bosses s) \<Longrightarrow> reg_doors (fold (register_door g a) r s) i t =
     (if (i, t) \<in> set r then (if a then insert g (reg_doors s i t) else reg_doors s i t - {g}) else reg_doors s i t)"
  by (induction r arbitrary: s) (auto simp: register_door_facts reg_doors_register)

lemma update_door_state_alt:
  "update_door_state go s = (if door_range (go_entry go) s = [] then s
     else set_go_state (go_guid go)
       (\<forall>d \<in> set (door_range (go_entry go) s). door_allows (snd d) (bi_state (is_bosses s ! fst d))) s)"
  by (simp add: update_door_state_def Let_def door_open_loop_all)

lemma states_nth:
  "map bi_state bs' = map bi_state bs \<Longrightarrow> i < length bs \<Longrightarrow> bi_state (bs' ! i) = bi_state (bs ! i)"
  by (metis length_map nth_map)

lemma states_open_eq:
  assumes "doors_in_range s" "map bi_state (is_bosses s') = map bi_state (is_bosses s)"
  shows "(\<forall>d \<in> set (door_range e s). door_allows (snd d) (bi_state (is_bosses s' ! fst d)))
    \<longleftrightarrow> (\<forall>d \<in> set (door_range e s). door_allows (snd d) (bi_state (is_bosses s ! fst d)))"
  by (intro ball_cong refl) (simp only: states_nth [OF assms(2) door_range_mem [OF assms(1)]])

text \<open>\<open>AddDoor\<close>: what it does to states, registrations and objects.\<close>

lemma add_door_facts:
  assumes "doors_in_range s"
  shows "is_doors (add_door go a s) = is_doors s"
    and "length (is_bosses (add_door go a s)) = length (is_bosses s)"
    and "map bi_state (is_bosses (add_door go a s)) = map bi_state (is_bosses s)"
    and "i < length (is_bosses s) \<Longrightarrow> reg_doors (add_door go a s) i t =
      (if (i, t) \<in> set (door_range (go_entry go) s)
       then (if a then insert (go_guid go) (reg_doors s i t) else reg_doors s i t - {go_guid go}) else reg_doors s i t)"
    and "is_go_open (add_door go a s) =
      (if door_range (go_entry go) s = [] \<or> \<not> a then is_go_open s
       else (is_go_open s)(go_guid go \<mapsto> \<forall>d \<in> set (door_range (go_entry go) s). door_allows (snd d) (bi_state (is_bosses s ! fst d))))"
proof -
  let ?r = "door_range (go_entry go) s"
  let ?s1 = "fold (register_door (go_guid go) a) ?r s"
  note f = register_doors_facts [of "go_guid go" a ?r s]
  have alt: "add_door go a s = (if ?r = [] \<or> \<not> a then ?s1 else set_go_state (go_guid go)
      (\<forall>d \<in> set ?r. door_allows (snd d) (bi_state (is_bosses s ! fst d))) ?s1)"
    unfolding add_door_def Let_def update_door_state_alt door_range_cong [OF f(1)]
    by (simp add: states_open_eq [OF assms register_doors_facts(4)] door_range_cong [OF register_doors_facts(1)] del: map_eq_conv)
  have reg: "reg_doors (set_go_state g x s') i t = reg_doors s' i t" for g x s' i t
    by (simp add: reg_doors_def)
  show "is_doors (add_door go a s) = is_doors s" "length (is_bosses (add_door go a s)) = length (is_bosses s)"
    "map bi_state (is_bosses (add_door go a s)) = map bi_state (is_bosses s)"
    by (simp_all add: alt register_doors_facts)
  show "is_go_open (add_door go a s) =
      (if ?r = [] \<or> \<not> a then is_go_open s
       else (is_go_open s)(go_guid go \<mapsto> \<forall>d \<in> set ?r. door_allows (snd d) (bi_state (is_bosses s ! fst d))))"
    by (simp add: alt register_doors_facts)
  show "i < length (is_bosses s) \<Longrightarrow> reg_doors (add_door go a s) i t =
      (if (i, t) \<in> set ?r then (if a then insert (go_guid go) (reg_doors s i t) else reg_doors s i t - {go_guid go}) else reg_doors s i t)"
    by (simp add: alt reg reg_doors_registers)
qed

lemma doors_okD:
  "doors_ok w \<Longrightarrow> iw_objects w g = Some go \<Longrightarrow> go_guid go = g \<and> door_registered (iw_script w) go \<and> door_consistent (iw_script w) go"
  by (simp add: doors_ok_def)

lemma doors_ok_in_range: "doors_ok w \<Longrightarrow> doors_in_range (iw_script w)"
  by (simp add: doors_ok_def)

lemma doors_in_range_cong:
  "is_doors s' = is_doors s \<Longrightarrow> length (is_bosses s') = length (is_bosses s) \<Longrightarrow> doors_in_range s' = doors_in_range s"
  by (simp add: doors_in_range_def)

text \<open>An object that comes or goes changes nothing for the others.\<close>

lemma add_door_others:
  assumes "doors_in_range s" "door_registered s go'" "door_consistent s go'" "go_guid go' \<noteq> go_guid go"
  shows "door_registered (add_door go a s) go' \<and> door_consistent (add_door go a s) go'"
proof (rule door_kept [OF assms(1) _ _ _ _ _ assms(2,3)])
  note f = add_door_facts [OF assms(1), where go = go and a = a]
  show "is_doors (add_door go a s) = is_doors s" "length (is_bosses (add_door go a s)) = length (is_bosses s)"
    by (fact f)+
  show "bi_state (is_bosses (add_door go a s) ! i) = bi_state (is_bosses s ! i)" if "i < length (is_bosses s)" for i
    using states_nth [OF f(3) that] .
  show "go_guid go' \<in> set (bi_door (is_bosses (add_door go a s) ! i) t)"
    if "i < length (is_bosses s)" "go_guid go' \<in> set (bi_door (is_bosses s ! i) t)" for i t
    using f(4) [OF that(1), of t] that(2) assms(4) by (simp add: reg_doors_def split: if_splits)
  show "is_go_open (add_door go a s) (go_guid go') = is_go_open s (go_guid go')"
    using assms(4) by (simp add: f(5))
qed

lemma add_door_itself:
  assumes "doors_in_range s"
  shows "door_registered (add_door go True s) go \<and> door_consistent (add_door go True s) go"
proof
  note f = add_door_facts [OF assms, where go = go and a = True]
  note same = door_range_cong [OF f(1)]
  show "door_registered (add_door go True s) go"
    unfolding door_registered_def same
  proof
    fix d assume d: "d \<in> set (door_range (go_entry go) s)"
    show "go_guid go \<in> set (bi_door (is_bosses (add_door go True s) ! fst d) (snd d))"
      using f(4) [OF door_range_mem [OF assms d], of "snd d"] d by (simp add: reg_doors_def)
  qed
  show "door_consistent (add_door go True s) go"
    unfolding door_consistent_def same
    using states_open_eq [OF assms f(3), of "go_entry go"] by (simp add: f(5))
qed

lemma doors_ok_objects:
  assumes "doors_ok w" "doors_in_range (iw_script w')"
    and "\<And>g go. iw_objects w' g = Some go \<Longrightarrow> go_guid go = g \<and> door_registered (iw_script w') go \<and> door_consistent (iw_script w') go"
  shows "doors_ok w'"
  using assms by (simp add: doors_ok_def)

lemma door_facts_out [simp]:
  "door_registered (s\<lparr>is_out := os\<rparr>) go = door_registered s go" "door_consistent (s\<lparr>is_out := os\<rparr>) go = door_consistent s go"
  "doors_in_range (s\<lparr>is_out := os\<rparr>) = doors_in_range s"
  by (simp_all add: door_registered_def door_consistent_def doors_in_range_def door_range_def)

lemma door_facts_view:
  assumes "doors_in_range s" "door_view s' = door_view s"
  shows "doors_in_range s' \<and> (door_registered s go \<and> door_consistent s go \<longrightarrow> door_registered s' go \<and> door_consistent s' go)"
  using door_view_eqD [OF assms(2)] door_kept [OF assms(1), of s' go] assms(1)
  by (auto simp: doors_in_range_def)

lemma doors_ok_create:
  assumes "doors_ok w"
  shows "doors_ok (inst_step (EvObjectCreate go) w)"
proof -
  let ?s = "add_object_go go True (iw_script w)"
  have r: "doors_in_range ?s"
    and k: "\<And>go'. door_registered (iw_script w) go' \<and> door_consistent (iw_script w) go' \<Longrightarrow> door_registered ?s go' \<and> door_consistent ?s go'"
    using door_facts_view [OF doors_ok_in_range [OF assms] door_view_object_go] by blast+
  have r': "doors_in_range (add_door go True ?s)"
    using r add_door_facts(1,2) [OF r] doors_in_range_cong by blast
  show ?thesis
  proof (rule doors_ok_objects [OF assms])
    fix g go' assume "iw_objects (inst_step (EvObjectCreate go) w) g = Some go'"
    then consider "g = go_guid go" "go' = go" | "g \<noteq> go_guid go" "iw_objects w g = Some go'"
      by (auto split: if_splits)
    then show "go_guid go' = g \<and> door_registered (iw_script (inst_step (EvObjectCreate go) w)) go'
        \<and> door_consistent (iw_script (inst_step (EvObjectCreate go) w)) go'"
    proof cases
      case 1
      then show ?thesis using add_door_itself [OF r] by (simp add: on_game_object_create_def)
    next
      case 2
      then have "go_guid go' = g" "door_registered ?s go' \<and> door_consistent ?s go'"
        using doors_okD [OF assms] k by blast+
      then show ?thesis using add_door_others [OF r] 2 by (simp add: on_game_object_create_def)
    qed
  qed (use r' in \<open>simp add: on_game_object_create_def\<close>)
qed

lemma doors_ok_remove:
  assumes "doors_ok w"
  shows "doors_ok (inst_step (EvObjectRemove g0) w)"
proof (cases "iw_objects w g0")
  case (Some go)
  let ?s = "add_object_go go False (iw_script w)"
  have r: "doors_in_range ?s"
    and k: "\<And>go'. door_registered (iw_script w) go' \<and> door_consistent (iw_script w) go' \<Longrightarrow> door_registered ?s go' \<and> door_consistent ?s go'"
    using door_facts_view [OF doors_ok_in_range [OF assms] door_view_object_go] by blast+
  have r': "doors_in_range (add_door go False ?s)"
    using r add_door_facts(1,2) [OF r] doors_in_range_cong by blast
  show ?thesis
  proof (rule doors_ok_objects [OF assms])
    fix g go' assume "iw_objects (inst_step (EvObjectRemove g0) w) g = Some go'"
    then have "g \<noteq> g0" "iw_objects w g = Some go'"
      using Some by (auto split: if_splits)
    moreover have "go_guid go = g0" using doors_okD [OF assms Some] by simp
    moreover have "go_guid go' = g" "door_registered ?s go' \<and> door_consistent ?s go'"
      using doors_okD [OF assms] k calculation(2) by blast+
    ultimately show "go_guid go' = g \<and> door_registered (iw_script (inst_step (EvObjectRemove g0) w)) go'
        \<and> door_consistent (iw_script (inst_step (EvObjectRemove g0) w)) go'"
      using add_door_others [OF r] Some by (simp add: on_game_object_remove_def)
  qed (use r' Some in \<open>simp add: on_game_object_remove_def\<close>)
qed (simp add: assms)

text \<open>\<open>SetBossState\<close>: all doors of the encounter are brought up to date.\<close>

lemma update_doors_facts:
  "is_bosses (update_doors env gs s) = is_bosses s \<and> is_doors (update_doors env gs s) = is_doors s
   \<and> is_headers (update_doors env gs s) = is_headers s \<and> is_out (update_doors env gs s) = is_out s
   \<and> is_completed (update_doors env gs s) = is_completed s"
  unfolding update_doors_def
proof (induction gs arbitrary: s)
  case (Cons g gs)
  then show ?case by (auto simp: update_door_state_alt set_go_state_def split: option.split)
qed simp

definition open_due :: "instance_script \<Rightarrow> game_object \<Rightarrow> bool" where
  "open_due s go \<longleftrightarrow> (\<forall>d \<in> set (door_range (go_entry go) s). door_allows (snd d) (bi_state (is_bosses s ! fst d)))"

lemma open_due_set_go [simp]: "open_due (set_go_state g x s) go = open_due s go"
  by (simp add: open_due_def door_range_def)

lemma update_doors_open:
  assumes "\<forall>g go. ie_object env g = Some go \<longrightarrow> go_guid go = g" "ie_object env g = Some go" "door_range (go_entry go) s \<noteq> []"
  shows "is_go_open (update_doors env gs s) g = (if g \<in> set gs then Some (open_due s go) else is_go_open s g)"
  unfolding update_doors_def using assms(3)
proof (induction gs arbitrary: s)
  case (Cons g' gs)
  have eq: "open_due s go = (\<forall>d \<in> set (door_range (go_entry go) s). door_allows (snd d) (bi_state (is_bosses s ! fst d)))"
    by (fact open_due_def)
  show ?case
  proof (cases "ie_object env g'")
    case None
    then have "g' \<noteq> g" using assms(2) by auto
    with Cons None show ?thesis by simp
  next
    case (Some go')
    let ?s = "update_door_state go' s"
    have g': "go_guid go' = g'" using assms(1) Some by blast
    have "open_due ?s go = open_due s go" "door_range (go_entry go) ?s \<noteq> []"
      using Cons.prems by (auto simp: update_door_state_alt door_range_def)
    moreover have "is_go_open ?s g = (if g' = g then Some (open_due s go) else is_go_open s g)"
      using g' Some assms(2) Cons.prems by (auto simp: update_door_state_alt eq)
    ultimately show ?thesis
      using Cons.IH [of ?s] Some by simp
  qed
qed simp

lemma door_consistent_open_due:
  "door_consistent s go \<longleftrightarrow> door_range (go_entry go) s \<noteq> [] \<longrightarrow> is_go_open s (go_guid go) = Some (open_due s go)"
  by (simp add: door_consistent_def open_due_def)

lemma set_all_doors: "g \<in> set (all_doors b) \<longleftrightarrow> (\<exists>t. g \<in> set (bi_door b t))"
proof
  assume "\<exists>t. g \<in> set (bi_door b t)"
  then obtain t where "g \<in> set (bi_door b t)" ..
  then show "g \<in> set (all_doors b)" by (cases t) (auto simp: all_doors_def)
qed (auto simp: all_doors_def)

text \<open>Changing the state of one encounter, then updating its doors.\<close>

lemma doors_after_change:
  fixes s env i st
  defines "s1 \<equiv> upd_boss i (\<lambda>b. b\<lparr>bi_state := st\<rparr>) s"
  assumes "doors_in_range s" "i < length (is_bosses s)"
    and objs: "\<forall>g go. ie_object env g = Some go \<longrightarrow> go_guid go = g \<and> door_registered s go \<and> door_consistent s go"
    and go: "ie_object env g = Some go"
  shows "door_registered (update_doors env (all_doors (is_bosses s ! i)) s1) go
       \<and> door_consistent (update_doors env (all_doors (is_bosses s ! i)) s1) go"
proof
  let ?gs = "all_doors (is_bosses s ! i)"
  let ?s2 = "update_doors env ?gs s1"
  have f: "is_bosses ?s2 = is_bosses s1" "is_doors ?s2 = is_doors s"
    using update_doors_facts [of env ?gs s1] by (simp_all add: s1_def)
  have ds: "is_doors s1 = is_doors s" by (simp add: s1_def)
  have rng: "door_range (go_entry go) ?s2 = door_range (go_entry go) s"
    "door_range (go_entry go) s1 = door_range (go_entry go) s"
    by (simp_all add: door_range_def f ds)
  have g: "go_guid go = g" "door_registered s go" "door_consistent s go"
    using objs go by blast+
  have in_s1: "bi_door (is_bosses s1 ! j) = bi_door (is_bosses s ! j)" if "j < length (is_bosses s)" for j
    using that by (simp add: s1_def)
  note lt = door_range_mem [OF assms(2)]
  show "door_registered ?s2 go"
    using g(2) in_s1 lt by (simp add: door_registered_def rng f)
  have due: "open_due ?s2 go = open_due s1 go"
    by (simp add: open_due_def rng f)
  show "door_consistent ?s2 go"
    unfolding door_consistent_open_due rng due
  proof
    assume ne: "door_range (go_entry go) s \<noteq> []"
    have op: "is_go_open ?s2 g = (if g \<in> set ?gs then Some (open_due s1 go) else is_go_open s g)"
      using update_doors_open [of env g go s1 ?gs] objs go ne by (simp add: rng) (simp add: s1_def)
    show "is_go_open ?s2 (go_guid go) = Some (open_due s1 go)"
    proof (cases "g \<in> set ?gs")
      case False
      have other: "fst d \<noteq> i" if "d \<in> set (door_range (go_entry go) s)" for d
        using g(1,2) that False by (auto simp: door_registered_def set_all_doors)
      then have "open_due s1 go = open_due s go"
        unfolding open_due_def rng using lt by (intro ball_cong refl) (simp add: s1_def)
      with False op g ne show ?thesis by (simp add: door_consistent_open_due)
    qed (simp add: op g)
  qed
qed

lemma door_view_boss_state_same:
  "bi_state (is_bosses s ! i) = st \<Longrightarrow> door_view (upd_boss i (\<lambda>b. b\<lparr>bi_state := st\<rparr>) s) = door_view s"
  by (simp add: door_view_def upd_boss_def map_update_same)

lemma quiet_first_state:
  "st \<in> {NOT_STARTED, SPECIAL, TO_BE_DECIDED} \<Longrightarrow> door_allows t st = door_allows t TO_BE_DECIDED"
  by (cases t) auto

lemma door_kept_allows:
  assumes "doors_in_range s" "is_doors s' = is_doors s" "is_go_open s' = is_go_open s"
    and "\<And>i t. i < length (is_bosses s) \<Longrightarrow> door_allows t (bi_state (is_bosses s' ! i)) = door_allows t (bi_state (is_bosses s ! i))"
    and "\<And>i. i < length (is_bosses s) \<Longrightarrow> bi_door (is_bosses s' ! i) = bi_door (is_bosses s ! i)"
    and "door_registered s go" "door_consistent s go"
  shows "door_registered s' go \<and> door_consistent s' go"
proof
  note rng = door_range_cong [OF assms(2)]
  note lt = door_range_mem [OF assms(1)]
  show "door_registered s' go"
    using assms(6) by (simp add: door_registered_def rng lt assms(5))
  have "open_due s' go = open_due s go"
    unfolding open_due_def rng by (intro ball_cong refl) (simp only: assms(4) lt)
  then show "door_consistent s' go"
    using assms(7) by (simp add: door_consistent_open_due rng assms(3))
qed

lemma boss_states_cases:
  obtains (out) "\<not> unat i < length (is_bosses s)" "set_boss_state env i st s = (False, s)"
  | (loading) "unat i < length (is_bosses s)" "get_boss_state i s = TO_BE_DECIDED"
      "set_boss_state env i st s = (False, upd_boss (unat i) (\<lambda>b. b\<lparr>bi_state := st\<rparr>) s)"
  | (refused) "unat i < length (is_bosses s)" "get_boss_state i s \<noteq> TO_BE_DECIDED" "set_boss_state env i st s = (False, s)"
      "get_boss_state i s = st \<or> st = DONE \<and> boss_alive env (bi_minion (is_bosses s ! unat i))"
  | (changed) "unat i < length (is_bosses s)" "get_boss_state i s \<notin> {TO_BE_DECIDED, st}"
      "\<not> (st = DONE \<and> boss_alive env (bi_minion (is_bosses s ! unat i)))"
      "set_boss_state env i st s = (True, update_minions env st (bi_minion (is_bosses s ! unat i))
         (update_doors env (all_doors (is_bosses s ! unat i)) (save_to_db env (upd_boss (unat i) (\<lambda>b. b\<lparr>bi_state := st\<rparr>) s))))"
proof -
  let ?b = "is_bosses s ! unat i"
  consider (a) "\<not> unat i < length (is_bosses s)"
    | (b) "unat i < length (is_bosses s)" "bi_state ?b = TO_BE_DECIDED"
    | (c) "unat i < length (is_bosses s)" "bi_state ?b \<noteq> TO_BE_DECIDED" "bi_state ?b = st \<or> st = DONE \<and> boss_alive env (bi_minion ?b)"
    | (d) "unat i < length (is_bosses s)" "bi_state ?b \<noteq> TO_BE_DECIDED" "bi_state ?b \<noteq> st" "\<not> (st = DONE \<and> boss_alive env (bi_minion ?b))"
    by blast
  then show thesis
  proof cases
    case a
    then show thesis by (intro out) (simp_all add: set_boss_state_def)
  next
    case b
    then show thesis by (intro loading) (simp_all add: set_boss_state_def get_boss_state_def)
  next
    case c
    then have "set_boss_state env i st s = (False, s)" by (auto simp: set_boss_state_def Let_def)
    with c show thesis by (intro refused) (simp_all add: get_boss_state_def)
  next
    case d
    then have "set_boss_state env i st s = (True, update_minions env st (bi_minion ?b)
         (update_doors env (all_doors ?b) (save_to_db env (upd_boss (unat i) (\<lambda>b. b\<lparr>bi_state := st\<rparr>) s))))"
      by (simp only: set_boss_state_def Let_def if_True if_False simp_thms)
    with d show thesis by (intro changed) (simp_all add: get_boss_state_def)
  qed
qed

lemma script_after_change:
  assumes "doors_in_range s" "i < length (is_bosses s)"
    and objs: "\<forall>g go. ie_object env g = Some go \<longrightarrow> go_guid go = g \<and> door_registered s go \<and> door_consistent s go"
    and go: "ie_object env g = Some go"
  shows "let s' = update_minions env st ms (update_doors env (all_doors (is_bosses s ! i))
        (save_to_db env (upd_boss i (\<lambda>b. b\<lparr>bi_state := st\<rparr>) s)))
    in doors_in_range s' \<and> door_registered s' go \<and> door_consistent s' go"
proof -
  let ?s1 = "upd_boss i (\<lambda>b. b\<lparr>bi_state := st\<rparr>) s"
  let ?sv = "save_to_db env s"
  have sv: "is_bosses ?sv = is_bosses s" "is_doors ?sv = is_doors s" "is_go_open ?sv = is_go_open s"
    by (simp_all add: save_to_db_def Let_def)
  have comm: "\<exists>os. save_to_db env ?s1 = emit os ?s1"
    by (auto simp: save_to_db_def Let_def emit_def intro: exI [of _ "[]"])
  then obtain os where "save_to_db env ?s1 = emit os ?s1" by blast
  then have os: "save_to_db env ?s1 = upd_boss i (\<lambda>b. b\<lparr>bi_state := st\<rparr>) (emit os s)"
    by (simp add: emit_def upd_boss_def)
  have view: "door_view (emit os s) = door_view s" by (fact door_view_emit)
  have r: "doors_in_range (emit os s)" and i: "i < length (is_bosses (emit os s))"
    using door_facts_view [OF assms(1) view] assms(2) by simp_all
  have objs': "\<forall>g go. ie_object env g = Some go \<longrightarrow> go_guid go = g \<and> door_registered (emit os s) go \<and> door_consistent (emit os s) go"
    using objs door_facts_view [OF assms(1) view] by blast
  let ?s2 = "update_doors env (all_doors (is_bosses s ! i)) (save_to_db env ?s1)"
  have d: "door_registered ?s2 go \<and> door_consistent ?s2 go"
    using doors_after_change [OF r i objs' go, of st] by (simp add: os)
  have "doors_in_range ?s2"
    using update_doors_facts [of env "all_doors (is_bosses s ! i)" "save_to_db env ?s1"] assms(1)
    by (simp add: doors_in_range_def os)
  then show ?thesis
    using d door_facts_view [OF _ door_view_minions] by (simp add: Let_def)
qed

lemma doors_in_range_after_change:
  "doors_in_range s \<Longrightarrow> doors_in_range (update_minions env st ms (update_doors env gs
        (save_to_db env (upd_boss i (\<lambda>b. b\<lparr>bi_state := st\<rparr>) s))))"
  using door_view_eqD(1,3) [OF door_view_minions, of env st ms "update_doors env gs (save_to_db env (upd_boss i (\<lambda>b. b\<lparr>bi_state := st\<rparr>) s))"]
    update_doors_facts [of env gs "save_to_db env (upd_boss i (\<lambda>b. b\<lparr>bi_state := st\<rparr>) s)"]
  by (simp add: doors_in_range_def save_to_db_def Let_def)

lemma doors_ok_boss_state:
  assumes "doors_ok w" "quiet (EvBossState env i st) w"
  shows "doors_ok (inst_step (EvBossState env i st) w)"
proof -
  let ?s = "iw_script w" and ?env = "env_of env w"
  note r = doors_ok_in_range [OF assms(1)]
  have objs: "\<forall>g go. ie_object ?env g = Some go \<longrightarrow> go_guid go = g \<and> door_registered ?s go \<and> door_consistent ?s go"
    using doors_okD [OF assms(1)] by (auto simp: env_of_def)
  show ?thesis
  proof (cases rule: boss_states_cases [of i ?s ?env st])
    case out
    then show ?thesis
      by (intro doors_ok_view [OF assms(1)]) (simp_all add: door_views)
  next
    case refused
    then show ?thesis
      by (intro doors_ok_view [OF assms(1)]) (simp_all add: door_views)
  next
    case loading
    let ?s1 = "upd_boss (unat i) (\<lambda>b. b\<lparr>bi_state := st\<rparr>) ?s"
    have al: "door_allows t (bi_state (is_bosses ?s1 ! j)) = door_allows t (bi_state (is_bosses ?s ! j))"
      if "j < length (is_bosses ?s)" for j t
      using loading(1,2) assms(2) that quiet_first_state [of st t] by (simp add: get_boss_state_def)
    show ?thesis
    proof (rule doors_ok_objects [OF assms(1)])
      show "doors_in_range (iw_script (inst_step (EvBossState env i st) w))"
        using r loading(3) by (simp add: doors_in_range_def)
      fix g go assume "iw_objects (inst_step (EvBossState env i st) w) g = Some go"
      then have "go_guid go = g" "door_registered ?s go" "door_consistent ?s go"
        using doors_okD [OF assms(1)] by auto
      then show "go_guid go = g \<and> door_registered (iw_script (inst_step (EvBossState env i st) w)) go
          \<and> door_consistent (iw_script (inst_step (EvBossState env i st) w)) go"
        using door_kept_allows [OF r, of ?s1 go] al loading(3) by simp
    qed
  next
    case changed
    show ?thesis
    proof (rule doors_ok_objects [OF assms(1)])
      show "doors_in_range (iw_script (inst_step (EvBossState env i st) w))"
        using doors_in_range_after_change [OF r] changed(4) by simp
      fix g go assume "iw_objects (inst_step (EvBossState env i st) w) g = Some go"
      then have go: "ie_object ?env g = Some go" by (simp add: env_of_def)
      then show "go_guid go = g \<and> door_registered (iw_script (inst_step (EvBossState env i st) w)) go
          \<and> door_consistent (iw_script (inst_step (EvBossState env i st) w)) go"
        using script_after_change [OF r changed(1) objs go, of st "bi_minion (is_bosses ?s ! unat i)"] changed(4) objs
        by (simp add: Let_def)
    qed
  qed
qed

lemma doors_ok_step: "doors_ok w \<Longrightarrow> quiet e w \<Longrightarrow> doors_ok (inst_step e w)"
proof (cases e)
  case (EvEncounter env t x)
  then show "doors_ok w \<Longrightarrow> doors_ok (inst_step e w)"
    by (elim doors_ok_view) (simp_all add: door_views)
qed (auto simp: doors_ok_create doors_ok_remove on_creature_create_def on_creature_remove_def door_views
    simp del: inst_step.simps(1,2,5) quiet.simps intro: doors_ok_boss_state doors_ok_view)

interpretation doors: guarded_system inst_step quiet doors_ok
  by unfold_locales (rule doors_ok_step)

text \<open>A script whose tables name existing encounters, in a map without objects.\<close>

definition empty_map :: "instance_script \<Rightarrow> string \<Rightarrow> inst_world" where
  "empty_map s row = \<lparr>iw_script = s\<lparr>is_out := []\<rparr>, iw_objects = (\<lambda>_. None), iw_row = row\<rparr>"

lemma doors_ok_empty: "doors_in_range s \<Longrightarrow> doors_ok (empty_map s row)"
  by (simp add: doors_ok_def empty_map_def)

section \<open>The row in the database\<close>

text \<open>What of a state outlives a restart: an encounter that is not decided starts anew.\<close>

fun kept :: "encounter_state \<Rightarrow> encounter_state" where
  "kept DONE = DONE"
| "kept FAIL = FAIL"
| "kept st = NOT_STARTED"

definition progress :: "instance_script \<Rightarrow> encounter_state list" where
  "progress s = map (\<lambda>b. kept (bi_state b)) (is_bosses s)"

definition row_current :: "inst_world \<Rightarrow> bool" where
  "row_current w \<longleftrightarrow> is_out (iw_script w) = [] \<and>
     (\<exists>s. iw_row w = get_save_data s \<and> is_headers s = is_headers (iw_script w) \<and> progress s = progress (iw_script w))"

lemma kept_resumed [simp]: "kept (resumed st) = kept st"
  by (cases st) simp_all

lemma length_progress: "length (progress s) = length (is_bosses s)"
  by (simp add: progress_def)

lemma last_row_append: "last_row r (xs @ ys) = last_row (last_row r xs) ys"
  by (induction r xs rule: last_row.induct) simp_all

lemma load_row:
  assumes "fresh_for (is_headers s) (length (is_bosses s)) s0"
  shows "progress (load_instance env (Some (get_save_data s)) s0) = progress s"
    and "is_headers (load_instance env (Some (get_save_data s)) s0) = is_headers s"
    and "is_doors (load_instance env (Some (get_save_data s)) s0) = is_doors s0"
    and "length (is_bosses (load_instance env (Some (get_save_data s)) s0)) = length (is_bosses s)"
proof -
  have l: "length (is_bosses s0) = length (is_bosses s)" using assms by (simp add: fresh_for_def)
  show "progress (load_instance env (Some (get_save_data s)) s0) = progress s"
    using l by (intro nth_equalityI) (simp_all add: load_written [OF assms] progress_def resume_boss_def)
  show "is_headers (load_instance env (Some (get_save_data s)) s0) = is_headers s"
    using assms by (simp add: load_written [OF assms] fresh_for_def)
qed (use assms in \<open>simp_all add: load_written [OF assms] fresh_for_def\<close>)

text \<open>What the operations do to headers, states and output.\<close>

definition row_view :: "instance_script \<Rightarrow> string \<times> encounter_state list \<times> inst_out list" where
  "row_view s = (is_headers s, map bi_state (is_bosses s), is_out s)"

named_theorems row_views

lemma row_view_object_type [row_views]: "row_view (add_object_type g t a s) = row_view s"
  by (simp add: row_view_def add_object_type_def)

lemma row_view_object_creature [row_views]: "row_view (add_object_creature c a s) = row_view s"
  by (simp add: add_object_creature_def row_views split: option.split)

lemma row_view_object_go [row_views]: "row_view (add_object_go go a s) = row_view s"
  by (simp add: add_object_go_def row_views split: option.split)

lemma row_view_minion [row_views]: "row_view (add_minion c a s) = row_view s"
  by (auto simp: add_minion_def row_view_def upd_boss_def map_update_same split: option.split)

lemma row_view_register [row_views]: "row_view (register_door g a d s) = row_view s"
  by (simp add: register_door_def row_view_def upd_boss_def map_update_same)

lemma row_view_registers [row_views]: "row_view (fold (register_door g a) r s) = row_view s"
  by (induction r arbitrary: s) (simp_all add: row_views)

lemma row_view_door_state [row_views]: "row_view (update_door_state go s) = row_view s"
  by (simp add: update_door_state_alt row_view_def)

lemma row_view_door [row_views]: "row_view (add_door go a s) = row_view s"
  by (simp add: add_door_def Let_def row_views)

lemma row_view_doors [row_views]: "row_view (update_doors env gs s) = row_view s"
  using update_doors_facts [of env gs s] by (simp add: row_view_def)

lemma progress_view: "map bi_state (is_bosses s') = map bi_state (is_bosses s) \<Longrightarrow> progress s' = progress s"
proof -
  have alt: "progress s = map kept (map bi_state (is_bosses s))" for s by (simp add: progress_def)
  show "map bi_state (is_bosses s') = map bi_state (is_bosses s) \<Longrightarrow> progress s' = progress s"
    by (simp only: alt)
qed

lemma row_current_view:
  assumes "row_current w" "row_view (f (iw_script w)) = row_view (iw_script w)"
  shows "row_current (on_script f w)" "iw_row (on_script f w) = iw_row w"
proof -
  have o: "is_out (iw_script w) = []"
    using assms(1) unfolding row_current_def by blast
  have e: "is_headers (f (iw_script w)) = is_headers (iw_script w)"
    "map bi_state (is_bosses (f (iw_script w))) = map bi_state (is_bosses (iw_script w))"
    "is_out (f (iw_script w)) = is_out (iw_script w)"
    using assms(2) unfolding row_view_def by blast+
  note v = e(1) e(3) [unfolded o] progress_view [OF e(2)]
  show "iw_row (on_script f w) = iw_row w"
    by (simp add: on_script_def flush_row_def v)
  with v show "row_current (on_script f w)"
    using assms(1) by (simp add: row_current_def progress_def)
qed

lemma row_current_objects [simp]: "row_current (w\<lparr>iw_objects := x\<rparr>) = row_current w"
  by (simp add: row_current_def)

lemma minion_state_out:
  "map bi_state (is_bosses (update_minion_state c st s)) = map bi_state (is_bosses s)
   \<and> is_headers (update_minion_state c st s) = is_headers s
   \<and> last_row r (is_out (update_minion_state c st s)) = last_row r (is_out s)"
  by (simp add: update_minion_state_def last_row_append split: encounter_state.split)

lemma minions_out:
  "map bi_state (is_bosses (update_minions env st gs s)) = map bi_state (is_bosses s)
   \<and> is_headers (update_minions env st gs s) = is_headers s
   \<and> last_row r (is_out (update_minions env st gs s)) = last_row r (is_out s)"
  unfolding update_minions_def
proof (induction gs arbitrary: s)
  case (Cons g gs)
  then show ?case by (cases "ie_creature env g") (simp_all add: minion_state_out)
qed simp

lemma get_save_data_nonempty: "is_bosses s \<noteq> [] \<Longrightarrow> get_save_data s \<noteq> []"
  by (cases "is_bosses s") (simp_all add: get_save_data_def write_boss_states_def)

lemma row_current_changed:
  fixes s st i env gs ms
  defines "s1 \<equiv> upd_boss i (\<lambda>b. b\<lparr>bi_state := st\<rparr>) s"
  assumes "i < length (is_bosses s)" "is_out s = []"
  defines "s' \<equiv> update_minions env st ms (update_doors env gs (save_to_db env s1))"
  shows "last_row r (is_out s') = get_save_data s1 \<and> is_headers s' = is_headers s1 \<and> progress s' = progress s1"
proof -
  have ne: "get_save_data s1 \<noteq> []"
    using assms(2) by (intro get_save_data_nonempty) (auto simp: s1_def upd_boss_def)
  have sv: "save_to_db env s1 = emit [UpdInstanceData (is_completed s1) (get_save_data s1) (ie_instance_id env)] s1"
    using ne by (simp add: save_to_db_def Let_def)
  let ?s2 = "update_doors env gs (save_to_db env s1)"
  have v: "is_headers ?s2 = is_headers s1" "map bi_state (is_bosses ?s2) = map bi_state (is_bosses s1)"
    "is_out ?s2 = [UpdInstanceData (is_completed s1) (get_save_data s1) (ie_instance_id env)]"
    using update_doors_facts [of env gs "save_to_db env s1"] assms(3) by (simp_all add: sv) (simp add: s1_def)
  note m = minions_out [of env st ms ?s2 r]
  have "last_row r (is_out ?s2) = get_save_data s1" by (simp only: v(3) last_row.simps)
  moreover have "progress s' = progress s1"
    using m v(2) by (intro progress_view) (simp only: s'_def)
  ultimately show ?thesis
    using m v(1) by (simp only: s'_def)
qed

lemma row_current_on_script:
  assumes "last_row (iw_row w) (is_out (f (iw_script w))) = get_save_data s1"
    "is_headers s1 = is_headers (f (iw_script w))" "progress s1 = progress (f (iw_script w))"
  shows "row_current (on_script f w)"
  using assms by (auto simp: row_current_def on_script_def flush_row_def progress_def)

lemma row_current_encounter:
  assumes "row_current w"
  shows "row_current (on_script (update_encounter_state env t e) w)"
proof -
  let ?s = "iw_script w"
  obtain s1 where s1: "iw_row w = get_save_data s1" "is_headers s1 = is_headers ?s" "progress s1 = progress ?s" "is_out ?s = []"
    using assms unfolding row_current_def by blast
  have "is_headers (update_encounter_state env t e ?s) = is_headers ?s \<and> is_bosses (update_encounter_state env t e ?s) = is_bosses ?s
      \<and> last_row (iw_row w) (is_out (update_encounter_state env t e ?s)) = iw_row w"
    by (simp add: update_encounter_state_def Let_def s1(4) split: option.split prod.split)
  with s1 show ?thesis
    by (intro row_current_on_script [of _ _ s1]) (simp_all add: progress_def)
qed

lemma row_current_boss_state:
  assumes "row_current w" "quiet (EvBossState env i st) w"
  shows "row_current (on_script (\<lambda>s. snd (set_boss_state env i st s)) w)"
proof -
  let ?s = "iw_script w"
  have o: "is_out ?s = []" using assms(1) unfolding row_current_def by blast
  show ?thesis
  proof (cases rule: boss_states_cases [of i ?s env st])
    case out
    then show ?thesis by (intro row_current_view [OF assms(1)]) simp
  next
    case refused
    then show ?thesis by (intro row_current_view [OF assms(1)]) simp
  next
    case loading
    obtain s1 where s1: "iw_row w = get_save_data s1" "is_headers s1 = is_headers ?s" "progress s1 = progress ?s"
      using assms(1) unfolding row_current_def by blast
    have q: "kept st = kept TO_BE_DECIDED" using assms(2) loading(2) by auto
    have "progress (upd_boss (unat i) (\<lambda>b. b\<lparr>bi_state := st\<rparr>) ?s) = progress ?s"
      using loading(1,2) q by (simp add: progress_def upd_boss_def map_update_same get_boss_state_def)
    then show ?thesis
      using s1 loading(3) o by (intro row_current_on_script [of _ _ s1]) simp_all
  next
    case changed
    show ?thesis
      using row_current_changed [OF changed(1) o, of "iw_row w"] changed(4)
      by (intro row_current_on_script [where ?s1.0 = "upd_boss (unat i) (\<lambda>b. b\<lparr>bi_state := st\<rparr>) ?s"]) simp_all
  qed
qed

lemma row_current_step: "row_current w \<Longrightarrow> quiet e w \<Longrightarrow> row_current (inst_step e w)"
proof (cases e)
  case (EvObjectRemove g)
  then show "row_current w \<Longrightarrow> row_current (inst_step e w)"
    by (auto simp: on_game_object_remove_def row_views intro: row_current_view split: option.split)
next
  case (EvBossState env i st)
  then show "row_current w \<Longrightarrow> quiet e w \<Longrightarrow> row_current (inst_step e w)"
    using row_current_boss_state [of w "env_of env w" i st] by simp
qed (auto simp: on_creature_create_def on_creature_remove_def on_game_object_create_def row_views
    intro: row_current_view row_current_encounter)

interpretation rows: guarded_system inst_step quiet row_current
  by unfold_locales (rule row_current_step)

lemma headers_step:
  "is_headers (iw_script (inst_step e w)) = is_headers (iw_script w)"
  "length (is_bosses (iw_script (inst_step e w))) = length (is_bosses (iw_script w))"
proof -
  have v: "is_headers s' = is_headers s \<and> length (is_bosses s') = length (is_bosses s)"
    if "row_view s' = row_view s" for s s' :: instance_script
    using that map_eq_imp_length_eq unfolding row_view_def by blast
  have b: "is_headers (snd (set_boss_state env i st s)) = is_headers s \<and> length (is_bosses (snd (set_boss_state env i st s))) = length (is_bosses s)"
    for env i st and s :: instance_script
  proof (cases rule: boss_states_cases [of i s env st])
    case changed
    let ?s1 = "upd_boss (unat i) (\<lambda>b. b\<lparr>bi_state := st\<rparr>) s"
    let ?s2 = "update_doors env (all_doors (is_bosses s ! unat i)) (save_to_db env ?s1)"
    have "is_headers ?s2 = is_headers s" "length (is_bosses ?s2) = length (is_bosses s)"
      using update_doors_facts [of env "all_doors (is_bosses s ! unat i)" "save_to_db env ?s1"]
      by (simp_all add: save_to_db_def Let_def)
    then show ?thesis
      using minions_out [of env st "bi_minion (is_bosses s ! unat i)" ?s2] changed(4) map_eq_imp_length_eq by fastforce
  qed simp_all
  have c: "is_headers (update_encounter_state env t x s) = is_headers s \<and> is_bosses (update_encounter_state env t x s) = is_bosses s"
    for env t x s
    by (simp add: update_encounter_state_def Let_def split: option.split prod.split)
  have "is_headers (iw_script (inst_step e w)) = is_headers (iw_script w)
      \<and> length (is_bosses (iw_script (inst_step e w))) = length (is_bosses (iw_script w))"
  proof (cases e)
    case (EvObjectRemove g)
    then show ?thesis
      using v [OF row_view_door] v [OF row_view_object_go] by (simp add: on_game_object_remove_def split: option.split)
  qed (use v [OF row_view_door] v [OF row_view_object_go] v [OF row_view_minion] v [OF row_view_object_creature] b c
    in \<open>simp_all add: on_game_object_create_def on_creature_create_def on_creature_remove_def\<close>)
  then show "is_headers (iw_script (inst_step e w)) = is_headers (iw_script w)"
    "length (is_bosses (iw_script (inst_step e w))) = length (is_bosses (iw_script w))" by simp_all
qed

lemma headers_run:
  "is_headers (iw_script (fold inst_step es w)) = is_headers (iw_script w)
   \<and> length (is_bosses (iw_script (fold inst_step es w))) = length (is_bosses (iw_script w))"
  by (induction es arbitrary: w) (simp_all add: headers_step)

section \<open>Counting the completed encounters\<close>

lemma unat_lt_256: "unat (w :: u8) < 256"
  using unsigned_less [of w, where ?'a = nat] by simp

lemma unat_le_1: "unat (w :: 'a::len word) \<le> 1 \<Longrightarrow> w = 0 \<or> w = 1"
  by (cases "unat w = 0") (simp_all add: word_unat_eq_iff)

lemma divisions_spec:
  assumes "9 \<le> fuel + k" "1 \<le> k" "unat i = k" "unat aux = unat num div 2 ^ (k - 1)" "2 \<le> unat aux"
  shows "unat num div 2 ^ unat (divisions fuel i num aux) = 1"
  using assms
proof (induction fuel arbitrary: i k aux)
  case 0
  then have "unat num div 2 ^ 8 \<noteq> 0"
    using div_le_mono2 [of "2 ^ 8" "2 ^ (k - 1)" "unat num"] power_increasing [of 8 "k - 1" "2 :: nat"]
    by (cases "k = 9") auto
  then show ?case using unat_lt_256 [of num] by simp
next
  case (Suc fuel)
  have "2 * 2 ^ (k - 1) \<le> unat num"
    using Suc.prems(4,5) by (simp add: less_eq_div_iff_mult_less_eq)
  then have big: "2 ^ k \<le> unat num"
    using Suc.prems(2) by (metis One_nat_def Suc_pred' less_eq_Suc_le power_Suc)
  have k8: "k < 8"
  proof (rule ccontr)
    assume "\<not> k < 8"
    then have "(2::nat) ^ 8 \<le> 2 ^ k" by (intro power_increasing) simp_all
    with big unat_lt_256 [of num] show False by simp
  qed
  have "k < unat num" using big less_exp [of k] by linarith
  then have le: "i \<le> num" by (simp add: word_le_nat_alt Suc.prems(3))
  have half: "unat (aux div 2) = unat num div 2 ^ k"
    using Suc.prems(2,4) by (cases k) (simp_all add: unat_div div_mult2_eq [symmetric] mult.commute)
  show ?case
  proof (cases "aux div 2 = 1")
    case True
    then have "unat num div 2 ^ k = 1" using half by simp
    then show ?thesis using True le Suc.prems(3) by simp
  next
    case False
    have "unat (aux div 2) \<noteq> 1" using False by (simp add: word_unat_eq_iff)
    moreover have "1 \<le> unat (aux div 2)" using Suc.prems(5) by (simp add: unat_div)
    ultimately have "2 \<le> unat (aux div 2)" by linarith
    moreover have "unat (i + 1) = Suc k"
      using k8 Suc.prems(3) by (simp add: unat_word_ariths)
    ultimately have "unat num div 2 ^ unat (divisions fuel (i + 1) num (aux div 2)) = 1"
      using Suc.prems half by (intro Suc.IH [of "Suc k"]) simp_all
    then show ?thesis using False le by simp
  qed
qed

lemma divisions_end: "unat (num :: u8) div 2 ^ unat (divisions 255 1 num num) \<le> 1 \<and> unat (divisions 255 1 num num) < 8"
proof (cases "2 \<le> unat num")
  case True
  then have d: "unat num div 2 ^ unat (divisions 255 1 num num) = 1"
    by (intro divisions_spec [where k = 1]) simp_all
  have "unat (divisions 255 1 num num) < 8"
  proof (rule ccontr)
    assume "\<not> unat (divisions 255 1 num num) < 8"
    then have "(2::nat) ^ 8 \<le> 2 ^ unat (divisions 255 1 num num)" by (intro power_increasing) simp_all
    then have "unat num div 2 ^ unat (divisions 255 1 num num) = 0"
      using unat_lt_256 [of num] by (intro div_less) simp
    with d show False by simp
  qed
  with d show ?thesis by simp
next
  case False
  then consider "num = 0" | "num = 1"
    using unat_le_1 [of num] by linarith
  then show ?thesis
    using divisions.simps(2) [of 254 1 num num] divisions.simps(2) [of 253 2 num "num div 2"]
    by cases (simp_all add: word_le_nat_alt)
qed

lemma filter_bits_shift: "filter (bit (w :: 'a::len word)) [0..<Suc k] = (if bit w 0 then [0] else []) @ map Suc (filter (bit (drop_bit 1 w)) [0..<k])"
proof -
  have "[0..<Suc k] = 0 # map Suc [0..<k]" by (simp add: map_Suc_upt upt_conv_Cons)
  then show ?thesis by (simp add: filter_map comp_def bit_drop_bit_eq)
qed

lemma conversion_spec:
  "conversion k c (num :: u8) = (c + word_of_nat (length (filter (bit num) [0..<k])), drop_bit k num)"
proof (induction k arbitrary: c num)
  case (Suc k)
  have half: "num div 2 = drop_bit 1 num" by (simp add: drop_bit_eq_div)
  have odd: "num mod 2 = 1 \<longleftrightarrow> bit num 0" by (simp add: bit_0 odd_iff_mod_2_eq_one)
  show ?case
    by (simp only: conversion.simps Suc.IH half odd filter_bits_shift) (simp add: add.commute drop_bit_drop_bit)
qed simp

definition popcount :: "nat \<Rightarrow> 'a::len word \<Rightarrow> nat" where
  "popcount n w = length (filter (bit w) [0..<n])"

lemma drop_bit_le_1_cases: "unat (drop_bit k (w :: u8)) \<le> 1 \<Longrightarrow> drop_bit k w = 0 \<or> drop_bit k w = 1"
  by (rule unat_le_1)

lemma popcount_split:
  assumes "r < 8" "drop_bit r (w :: u8) = 0 \<or> drop_bit r w = 1"
  shows "popcount 8 w = popcount r w + (if 0 < drop_bit r w then 1 else 0)"
proof -
  have hi: "bit w (r + j) = bit (drop_bit r w) j" for j by (simp add: bit_drop_bit_eq)
  have top: "filter (bit w) [Suc r..<8] = []"
  proof (rule filter_False, rule ballI)
    fix j assume "j \<in> set [Suc r..<8]"
    then obtain i where "j = r + Suc i" by (metis add_Suc_right atLeastLessThan_iff less_iff_Suc_add less_eq_Suc_le set_upt)
    then show "\<not> bit w j" using hi [of "Suc i"] assms(2) by (auto simp: bit_1_iff)
  qed
  have "[0..<8] = [0..<r] @ r # [Suc r..<8]"
    using assms(1) upt_add_eq_append [of 0 r "8 - r"] by (simp add: upt_conv_Cons)
  then show ?thesis
    using hi [of 0] assms(2) by (auto simp: popcount_def top)
qed

lemma load_door_data_in_range: "doors_in_range s \<Longrightarrow> doors_in_range (load_door_data ds s)"
proof (induction ds s rule: load_door_data.induct)
  case (2 d ds s)
  show ?case
  proof (cases "dd_entry d = 0")
    case False
    have "doors_in_range (if unat (dd_boss d) < length (is_bosses s)
        then s\<lparr>is_doors := mm_ins (dd_entry d) (unat (dd_boss d), dd_type d) (is_doors s)\<rparr> else s)"
      using 2(2) by (simp add: doors_in_range_def)
    with 2(1) False show ?thesis by simp
  qed (simp add: 2(2))
qed simp

section \<open>An instance\<close>

definition ex_new :: instance_script where
  "ex_new = load_door_data [\<lparr>dd_entry = 10, dd_boss = 0, dd_type = DOOR_TYPE_ROOM\<rparr>, \<lparr>dd_entry = 0, dd_boss = 0, dd_type = DOOR_TYPE_ROOM\<rparr>]
     (set_boss_number (Suc (Suc 0)) (set_headers ''I C'' new_instance_script))"

lemma ex_new_eq: "ex_new = new_instance_script\<lparr>is_headers := ''IC'', is_bosses := [new_boss_info, new_boss_info],
    is_doors := [(10, 0, DOOR_TYPE_ROOM)]\<rparr>"
  by (simp add: ex_new_def set_boss_number_def set_headers_def new_instance_script_def is_alpha_def)

definition ex_saved :: instance_script where
  "ex_saved = ex_new\<lparr>is_bosses := [new_boss_info\<lparr>bi_state := DONE\<rparr>, new_boss_info\<lparr>bi_state := IN_PROGRESS\<rparr>]\<rparr>"

definition ex_inst_env :: inst_env where
  "ex_inst_env = \<lparr>ie_creature = (\<lambda>_. None), ie_object = (\<lambda>_. None), ie_players = [], ie_instance_id = 7, ie_difficulty = 0,
     ie_encounters = (\<lambda>_. None), ie_achievement = (\<lambda>_. False), ie_junk_char = (\<lambda>_. CHR ''x''), ie_junk_u32 = (\<lambda>_. 9)\<rparr>"

definition ex_door :: game_object where
  "ex_door = \<lparr>go_guid = 5, go_entry = 10, go_type = 0, go_loot = GO_READY, go_spawned = True\<rparr>"

definition ex_run :: "inst_event list" where
  "ex_run = [EvObjectCreate ex_door, EvBossState ex_inst_env 0 NOT_STARTED, EvBossState ex_inst_env 0 IN_PROGRESS]"

lemma ex_fresh: "fresh_for (is_headers ex_saved) (length (is_bosses ex_saved)) ex_new"
  by (simp add: fresh_for_def ex_saved_def ex_new_eq new_instance_script_def new_boss_info_def is_alpha_def undecided_def)

section \<open>The properties\<close>

text \<open>
  C25: A saved text is read back. Loading what \<open>GetSaveData\<close> wrote into a new script of the same
  instance (the same headers, as many encounters, none of them decided) gives every encounter
  the state it was saved in, except that one in progress or special starts anew; nothing else of
  the script changes, and nothing is saved or sent while loading.
\<close>

theorem saved_states_reload:
  assumes "fresh_for (is_headers s) (length (is_bosses s)) s0"
  shows "load_instance env (Some (get_save_data s)) s0
    = s0\<lparr>is_bosses := map2 (\<lambda>b st. b\<lparr>bi_state := resumed st\<rparr>) (is_bosses s0) (map bi_state (is_bosses s))\<rparr>"
  using load_written [OF assms, of env] unfolding resume_boss_def .

theorem saved_states_reload_witness:
  "load_instance ex_inst_env (Some (get_save_data ex_saved)) ex_new
    = ex_new\<lparr>is_bosses := [new_boss_info\<lparr>bi_state := DONE\<rparr>, new_boss_info\<lparr>bi_state := NOT_STARTED\<rparr>]\<rparr>"
  using saved_states_reload [OF ex_fresh, of ex_inst_env] by (simp add: ex_saved_def ex_new_eq)

text \<open>
  C11: In every run of an instance in which no undecided encounter gets IN_PROGRESS, DONE or FAIL as its first
  state, the state of each door in the map is the one its encounters ask for: it is open iff every
  encounter it belongs to allows it (a room door unless its encounter is in progress, a passage
  once it is done, a spawn hole while it is in progress). The run starts in a map without objects.
  The condition is needed: the first state of an undecided encounter is taken as loaded
  (\<open>InstanceScript.cpp:292-297\<close>) and no door is moved for it, whichever state it is.
\<close>

theorem doors_follow_encounters:
  assumes "doors_in_range s" "ok_run inst_step quiet es (empty_map s row)"
    and "iw_objects (fold inst_step es (empty_map s row)) g = Some go"
    and "door_range (go_entry go) (iw_script (fold inst_step es (empty_map s row))) \<noteq> []"
  shows "is_go_open (iw_script (fold inst_step es (empty_map s row))) (go_guid go)
    = Some (\<forall>d \<in> set (door_range (go_entry go) (iw_script (fold inst_step es (empty_map s row)))).
        door_allows (snd d) (bi_state (is_bosses (iw_script (fold inst_step es (empty_map s row))) ! fst d)))"
  using doors_okD [OF doors.ok_run_inv [OF doors_ok_empty [OF assms(1)] assms(2)] assms(3)] assms(4)
  unfolding door_consistent_def by blast

theorem doors_follow_encounters_witness:
  "is_go_open (iw_script (fold inst_step ex_run (empty_map ex_new []))) 5 = Some False"
proof -
  note ev = ex_run_def ex_new_eq ex_door_def new_instance_script_def new_boss_info_def empty_map_def on_script_def
    flush_row_def on_game_object_create_def add_object_go_def add_door_def door_range_def register_door_def upd_boss_def
    update_door_state_def set_go_state_def set_boss_state_def get_boss_state_def env_of_def update_doors_def all_doors_def
    update_minions_def save_to_db_def emit_def doors_in_range_def
  have "ok_run inst_step quiet ex_run (empty_map ex_new [])"
    by (simp add: ev)
  moreover have "iw_objects (fold inst_step ex_run (empty_map ex_new [])) 5 = Some ex_door"
    by (simp add: ev)
  moreover have r: "door_range (go_entry ex_door) (iw_script (fold inst_step ex_run (empty_map ex_new []))) = [(0, DOOR_TYPE_ROOM)]"
    by (simp add: ev Let_def split: if_split)
  moreover have b: "bi_state (is_bosses (iw_script (fold inst_step ex_run (empty_map ex_new []))) ! 0) = IN_PROGRESS"
    by (simp add: ev Let_def split: if_split)
  moreover have "doors_in_range ex_new" by (simp add: ev)
  ultimately show ?thesis
    using doors_follow_encounters [of ex_new ex_run "[]" 5 ex_door] by (simp add: ex_door_def)
qed

text \<open>
  C12: No progress is lost in a restart. A script that was loaded from a row runs, and no encounter that is
  still undecided gets IN_PROGRESS, DONE or FAIL as its first state (\<open>InstanceScript.cpp:292-297\<close> takes
  such a state as loaded and does not save it). Then, whenever the server stops, loading the row the
  table holds into a new script gives each encounter the progress it had: done and
  failed are kept, all others have not started.
\<close>

theorem restart_keeps_progress:
  assumes "fresh_for (is_headers s) (length (is_bosses s)) s0"
    and "ok_run inst_step quiet es (empty_map (load_instance env (Some (get_save_data s)) s0) (get_save_data s))"
    and "fresh_for (is_headers s) (length (is_bosses s)) s2"
  shows "progress (load_instance env' (Some (iw_row
        (fold inst_step es (empty_map (load_instance env (Some (get_save_data s)) s0) (get_save_data s))))) s2)
    = progress (iw_script (fold inst_step es (empty_map (load_instance env (Some (get_save_data s)) s0) (get_save_data s))))"
proof -
  let ?s1 = "load_instance env (Some (get_save_data s)) s0"
  let ?start = "empty_map ?s1 (get_save_data s)" and ?w = "fold inst_step es (empty_map ?s1 (get_save_data s))"
  note l = load_row [OF assms(1), of env]
  have "row_current ?start"
    using l(1,2) by (auto simp: row_current_def empty_map_def progress_def)
  then have "row_current ?w"
    by (rule rows.ok_run_inv [OF _ assms(2)])
  then obtain s3 where s3: "iw_row ?w = get_save_data s3" "is_headers s3 = is_headers (iw_script ?w)" "progress s3 = progress (iw_script ?w)"
    unfolding row_current_def by blast
  have "is_headers s3 = is_headers s"
    using s3(2) headers_run [of es ?start] l(2) by (simp add: empty_map_def)
  moreover have "length (is_bosses s3) = length (is_bosses s)"
    using arg_cong [OF s3(3), of length] headers_run [of es ?start] l(4) by (simp add: length_progress empty_map_def)
  ultimately show ?thesis
    using load_row(1) [of s3 s2 env'] assms(3) by (simp only: s3(1,3))
qed

theorem restart_keeps_progress_witness:
  "progress (load_instance ex_inst_env (Some (iw_row (fold inst_step [EvBossState ex_inst_env 1 FAIL, EvBossState ex_inst_env 1 DONE]
      (empty_map (load_instance ex_inst_env (Some (get_save_data ex_saved)) ex_new) (get_save_data ex_saved))))) ex_new)
   = [DONE, DONE]"
proof -
  let ?es = "[EvBossState ex_inst_env 1 FAIL, EvBossState ex_inst_env 1 DONE]"
  let ?start = "empty_map (load_instance ex_inst_env (Some (get_save_data ex_saved)) ex_new) (get_save_data ex_saved)"
  have ld: "load_instance ex_inst_env (Some (get_save_data ex_saved)) ex_new
    = ex_new\<lparr>is_bosses := [new_boss_info\<lparr>bi_state := DONE\<rparr>, new_boss_info\<lparr>bi_state := NOT_STARTED\<rparr>]\<rparr>"
    using load_written [OF ex_fresh, of ex_inst_env] by (simp add: ex_saved_def ex_new_eq resume_boss_def)
  note ev = ex_new_eq new_instance_script_def new_boss_info_def empty_map_def on_script_def flush_row_def
    upd_boss_def set_boss_state_def get_boss_state_def env_of_def update_doors_def all_doors_def
    update_minions_def save_to_db_def emit_def boss_alive_def
  have "ok_run inst_step quiet ?es ?start"
    unfolding ld by (simp add: ev Let_def)
  moreover have "progress (iw_script (fold inst_step ?es ?start)) = [DONE, DONE]"
    unfolding ld by (simp add: ev Let_def progress_def)
  ultimately show ?thesis
    using restart_keeps_progress [OF ex_fresh _ ex_fresh, of ?es ex_inst_env ex_inst_env] by simp
qed

text \<open>
  \<open>GetCompletedEncountersReadable\<close> returns the number of completed encounters among the
  first eight: the mask has 32 bits and is cut to 8 before it is counted. Its loops end within
  the 255 rounds the model gives them.
\<close>

theorem completed_encounters_low_bits:
  "completed_encounters_readable s = word_of_nat (popcount 8 (is_completed s))"
proof -
  let ?num = "ucast (is_completed s) :: u8"
  let ?i = "divisions 255 1 ?num ?num"
  have le: "unat (drop_bit (unat ?i) ?num) \<le> 1"
    using divisions_end [of ?num] by (simp add: unat_drop_bit_eq drop_bit_eq_div [where 'a = nat])
  have "popcount 8 ?num = popcount (unat ?i) ?num + (if 0 < drop_bit (unat ?i) ?num then 1 else 0)"
    using divisions_end [of ?num] drop_bit_le_1_cases [OF le] by (intro popcount_split) simp_all
  moreover have "popcount 8 ?num = popcount 8 (is_completed s)"
    unfolding popcount_def by (intro arg_cong [where f = length] filter_cong refl) (simp add: bit_ucast_iff)
  ultimately have sum: "popcount (unat ?i) ?num + (if 0 < drop_bit (unat ?i) ?num then 1 else 0) = popcount 8 (is_completed s)"
    by (simp only:)
  have "completed_encounters_readable s
      = word_of_nat (popcount (unat ?i) ?num + (if 0 < drop_bit (unat ?i) ?num then 1 else 0))"
    by (simp add: completed_encounters_readable_def Let_def conversion_spec popcount_def)
  then show ?thesis by (simp only: sum)
qed
end
