(* ===== verification/Float32.thy ===== *)
theory Float32
  imports Complex_Main "HOL-Library.Log_Nat" Prelude
begin

text \<open>
  Single precision numbers as the auction house computes with them: a \<open>float\<close> is the rational
  number it stands for, and every operation rounds its exact result to 24 significant bits, ties
  to even. The numbers are prices and rates, far from the bounds of the exponent, which is not
  bounded here. Also \<open>CalculatePct\<close> of \<open>src/common/Utilities/Util.h\<close>.
\<close>

section \<open>Rounding\<close>

definition pow2 :: "int \<Rightarrow> rat" where
  "pow2 e = (if 0 \<le> e then 2 ^ nat e else 1 / 2 ^ nat (- e))"

definition round_even :: "rat \<Rightarrow> int" where
  "round_even q =
     (let f = \<lfloor>q\<rfloor>; r = q - of_int f
      in if r < 1 / 2 then f else if 1 / 2 < r then f + 1 else if even f then f else f + 1)"

text \<open>The exponent of the last place: the number has 24 bits above it.\<close>

definition ulp_exp :: "rat \<Rightarrow> int" where
  "ulp_exp x =
     (let (n, d) = quotient_of x; k = bitlen n - bitlen d
      in if pow2 k \<le> x then k - 23 else k - 24)"

definition f32 :: "rat \<Rightarrow> rat" where
  "f32 x =
     (if x = 0 then 0
      else
        (let e = ulp_exp \<bar>x\<bar>; r = of_int (round_even (\<bar>x\<bar> / pow2 e)) * pow2 e
         in if 0 < x then r else - r))"

text \<open>Conversions between integers and \<open>float\<close>: an integer out of the range of \<open>int32\<close> becomes the smallest.\<close>

definition f32_of_u32 :: "u32 \<Rightarrow> rat" where
  "f32_of_u32 w = f32 (of_nat (unat w))"

definition trunc :: "rat \<Rightarrow> int" where
  "trunc x = (if 0 \<le> x then \<lfloor>x\<rfloor> else - \<lfloor>- x\<rfloor>)"

definition u32_of_f32 :: "rat \<Rightarrow> u32" where
  "u32_of_f32 x = word_of_int (trunc x)"

definition i32_of_f32 :: "rat \<Rightarrow> int" where
  "i32_of_f32 x = (let t = trunc x in if - (2 ^ 31) \<le> t \<and> t < 2 ^ 31 then t else - (2 ^ 31))"

text \<open>\<open>CalculatePct\<close> for a \<open>float\<close> and for a \<open>uint32\<close>\<close>

definition calculate_pct_f :: "rat \<Rightarrow> u32 \<Rightarrow> rat" where
  "calculate_pct_f b pct = f32 (f32 (b * f32_of_u32 pct) / 100)"

definition calculate_pct :: "u32 \<Rightarrow> u32 \<Rightarrow> u32" where
  "calculate_pct b pct = u32_of_f32 (calculate_pct_f (f32_of_u32 b) pct)"

section \<open>The error of rounding\<close>

lemma pow2_pos [simp]: "0 < pow2 e"
  by (simp add: pow2_def)

lemma pow2_add: "pow2 (a + b) = pow2 a * pow2 b"
proof -
  have alt: "pow2 e = 2 powi e" for e by (simp add: pow2_def power_int_def power_one_over)
  show ?thesis by (simp add: alt power_int_add)
qed

lemma pow2_of_nat: "pow2 (int n) = 2 ^ n"
  by (simp add: pow2_def)

lemma round_even_error: "\<bar>of_int (round_even q) - q\<bar> \<le> 1 / 2"
proof -
  have "of_int \<lfloor>q\<rfloor> \<le> q" "q < of_int \<lfloor>q\<rfloor> + 1" by linarith+
  then show ?thesis by (auto simp: round_even_def Let_def)
qed

lemma round_even_nonneg: "0 \<le> q \<Longrightarrow> 0 \<le> round_even q"
  by (auto simp: round_even_def Let_def)

text \<open>The number has at least 23 bits above the last place.\<close>

lemma ulp_exp_bound:
  assumes "0 < x"
  shows "pow2 (ulp_exp x + 23) \<le> x"
proof -
  obtain n d where q: "quotient_of x = (n, d)" by (cases "quotient_of x")
  then have d: "0 < d" and x: "x = of_int n / of_int d"
    using quotient_of_denom_pos [OF q] quotient_of_div [OF q] by simp_all
  then have n: "0 < n" using assms by (simp add: zero_less_divide_iff)
  let ?k = "bitlen n - bitlen d"
  show ?thesis
  proof (cases "pow2 ?k \<le> x")
    case True
    then show ?thesis by (simp add: ulp_exp_def q Let_def)
  next
    case False
    have lo: "(2::int) ^ nat (bitlen n - 1) \<le> n" and hi: "d < 2 ^ nat (bitlen d)"
      using bitlen_bounds [of n] bitlen_bounds [of d] n d by simp_all
    have bn: "0 < bitlen n" "0 < bitlen d"
      using n d bitlen_eq_zero_iff [of n] bitlen_eq_zero_iff [of d] bitlen_nonneg [of n] bitlen_nonneg [of d] by linarith+
    have dr: "of_int d \<le> pow2 (bitlen d)"
      using hi bn(2) of_int_le_iff [of d "2 ^ nat (bitlen d)", where 'a = rat] by (simp add: pow2_def)
    have nr: "pow2 (bitlen n - 1) \<le> of_int n"
      using lo bn(1) of_int_le_iff [of "2 ^ nat (bitlen n - 1)" n, where 'a = rat] by (simp add: pow2_def)
    have "pow2 (?k - 1) * of_int d \<le> pow2 (?k - 1) * pow2 (bitlen d)"
      using dr by (intro mult_left_mono) (simp_all add: less_imp_le)
    also have "\<dots> = pow2 (bitlen n - 1)" by (simp add: pow2_add [symmetric])
    also note nr
    finally have "pow2 (?k - 1) \<le> x" using d by (simp add: x field_simps)
    then show ?thesis using False by (simp add: ulp_exp_def q Let_def)
  qed
qed

lemma f32_error:
  assumes "0 \<le> x"
  shows "\<bar>f32 x - x\<bar> \<le> x / 2 ^ 24"
proof (cases "x = 0")
  case False
  then have pos: "0 < x" using assms by simp
  let ?e = "ulp_exp x"
  have "f32 x - x = (of_int (round_even (x / pow2 ?e)) - x / pow2 ?e) * pow2 ?e"
    using pos by (simp add: f32_def Let_def left_diff_distrib less_imp_neq [symmetric])
  then have "\<bar>f32 x - x\<bar> = \<bar>of_int (round_even (x / pow2 ?e)) - x / pow2 ?e\<bar> * pow2 ?e"
    using less_imp_le [OF pow2_pos, of ?e] by (simp add: abs_mult)
  also have "\<dots> \<le> 1 / 2 * pow2 ?e"
    by (intro mult_right_mono round_even_error) (simp add: less_imp_le)
  also have "\<dots> = pow2 (?e + 23) / 2 ^ 24"
    using pow2_add [of ?e 23] pow2_of_nat [of 23] by simp
  also have "\<dots> \<le> x / 2 ^ 24"
    by (intro divide_right_mono ulp_exp_bound [OF pos]) simp
  finally show ?thesis .
qed (simp add: f32_def)

lemma f32_nonneg: "0 \<le> x \<Longrightarrow> 0 \<le> f32 x"
  by (auto simp: f32_def Let_def intro!: mult_nonneg_nonneg round_even_nonneg divide_nonneg_nonneg less_imp_le [OF pow2_pos])

lemma f32_upper: "0 \<le> x \<Longrightarrow> f32 x \<le> x * (1 + 1 / 2 ^ 24)"
proof -
  assume "0 \<le> x"
  then have "f32 x - x \<le> x / 2 ^ 24" using f32_error [of x] abs_ge_self order_trans by blast
  then show ?thesis by (simp add: field_simps)
qed

lemma f32_mono_bound: "0 \<le> x \<Longrightarrow> x \<le> y \<Longrightarrow> f32 x \<le> y * (1 + 1 / 2 ^ 24)"
  by (rule order_trans [OF f32_upper]) (simp_all add: mult_right_mono)

text \<open>A percentage of at most 90 does not exceed the number.\<close>

lemma trunc_le: "0 \<le> x \<Longrightarrow> of_int (trunc x) \<le> x"
  by (simp add: trunc_def)

lemma trunc_nonneg: "0 \<le> x \<Longrightarrow> 0 \<le> trunc x"
  by (simp add: trunc_def)

lemma f32_chain:
  assumes "0 \<le> x" "x \<le> y * (1 + 1 / 2 ^ 24) ^ k" "0 \<le> c"
  shows "f32 (c * x) \<le> c * y * (1 + 1 / 2 ^ 24) ^ Suc k" "0 \<le> f32 (c * x)"
proof -
  have "c * x \<le> c * (y * (1 + 1 / 2 ^ 24) ^ k)" by (intro mult_left_mono assms)
  then have "f32 (c * x) \<le> c * (y * (1 + 1 / 2 ^ 24) ^ k) * (1 + 1 / 2 ^ 24)"
    using assms by (intro f32_mono_bound) simp_all
  then show "f32 (c * x) \<le> c * y * (1 + 1 / 2 ^ 24) ^ Suc k"
    by (simp add: mult.commute mult.left_commute)
  show "0 \<le> f32 (c * x)" using assms by (intro f32_nonneg) simp
qed

lemma f32_of_u32_bound: "0 \<le> f32_of_u32 w" "f32_of_u32 w \<le> of_nat (unat w) * (1 + 1 / 2 ^ 24) ^ 1"
  using f32_nonneg [of "of_nat (unat w)"] f32_upper [of "of_nat (unat w)"]
  unfolding f32_of_u32_def power_one_right by (simp_all del: of_nat_unat)

lemma calculate_pct_f_bound:
  assumes "0 \<le> b" "b \<le> y * (1 + 1 / 2 ^ 24) ^ k" "0 \<le> y"
  shows "0 \<le> calculate_pct_f b pct" "calculate_pct_f b pct \<le> y * of_nat (unat pct) / 100 * (1 + 1 / 2 ^ 24) ^ (k + 3)"
proof -
  note p = f32_of_u32_bound [of pct]
  have "b * f32_of_u32 pct \<le> (y * (1 + 1 / 2 ^ 24) ^ k) * (of_nat (unat pct) * (1 + 1 / 2 ^ 24) ^ 1)"
    using assms p by (intro mult_mono) simp_all
  then have m: "b * f32_of_u32 pct \<le> y * of_nat (unat pct) * (1 + 1 / 2 ^ 24) ^ (k + 1)"
    by (simp add: power_add mult_ac)
  have n: "0 \<le> b * f32_of_u32 pct" using assms p by simp
  note f1 = f32_chain [OF n m, of 1]
  note f2 = f32_chain [OF f1(2) f1(1), of "1 / 100"]
  show "0 \<le> calculate_pct_f b pct" using f2(2) by (simp add: calculate_pct_f_def)
  show "calculate_pct_f b pct \<le> y * of_nat (unat pct) / 100 * (1 + 1 / 2 ^ 24) ^ (k + 3)"
    using f2(1) by (simp add: calculate_pct_f_def numeral_3_eq_3 mult_ac)
qed

end
