(* ===== verification/AuctionHouse.thy ===== *)
theory AuctionHouse
  imports WideString Guid Float32
begin

text \<open>
  The auction house: \<open>src/server/game/AuctionHouse/AuctionHouseMgr.cpp\<close>, \<open>AuctionHouseMgr.h\<close> and the
  requests of \<open>src/server/game/Handlers/AuctionHouseHandler.cpp\<close>. The state is the three houses, the
  items in auction, the deposits not yet charged, the characters with money and items, and the
  mails sent. A pointer to an auction is its house and its id; using one whose auction was
  deleted is undefined: \<open>None\<close>. Characters are named by the counter of their GUID. Entries of client
  data, rates and what creatures offer are the surroundings; logging and hooks are left out.
\<close>

section \<open>Data\<close>

record ah_entry =                               \<comment> \<open>\<open>AuctionHouseEntry\<close>\<close>
  he_id :: u32
  he_faction :: u32
  he_deposit :: u32
  he_cut :: u32

record item_template =
  tp_entry :: u32
  tp_sell_price :: u32
  tp_class :: u32
  tp_subclass :: u32
  tp_inv_type :: u32
  tp_quality :: u32
  tp_req_level :: u32
  tp_flags :: u32
  tp_name :: string

record ah_item =
  it_guid :: u32
  it_template :: item_template
  it_count :: u32
  it_max_stack :: u32
  it_can_trade :: bool
  it_nonempty_bag :: bool
  it_duration :: u32
  it_random :: int
  it_suffix :: u32
  it_charges :: u32
  it_enchants :: "(u32 \<times> u32 \<times> u32) list"        \<comment> \<open>of the seven slots that are shown\<close>

record auction =                                \<comment> \<open>\<open>AuctionEntry\<close>\<close>
  au_id :: u32
  au_house :: u8
  au_item :: u32
  au_entry :: u32
  au_count :: u32
  au_owner :: u32
  au_startbid :: u32
  au_bid :: u32
  au_buyout :: u32
  au_expire :: int
  au_bidder :: u32
  au_deposit :: u32
  au_etime :: u32
  au_he :: ah_entry

datatype ah_side = AhHorde | AhAlliance | AhNeutral

record auction_house =
  ah_auctions :: "(u32, auction) omap"
  ah_throttle :: "u32 \<Rightarrow> int option"

record ah_player =
  ap_account :: u32
  ap_money :: u32
  ap_items :: "ah_item list"
  ap_online :: bool                             \<comment> \<open>connected\<close>
  ap_in_world :: bool
  ap_feigning :: bool
  ap_level :: u8

record ah_mail =
  ml_house :: u8
  ml_to :: u32
  ml_subject :: string
  ml_body :: string
  ml_money :: u32
  ml_item :: "ah_item option"
  ml_delay :: u32

datatype ah_opcode =
    MSG_AUCTION_HELLO | SMSG_AUCTION_COMMAND_RESULT | SMSG_AUCTION_BIDDER_NOTIFICATION
  | SMSG_AUCTION_OWNER_NOTIFICATION | SMSG_AUCTION_LIST_RESULT | SMSG_AUCTION_OWNER_LIST_RESULT
  | SMSG_AUCTION_BIDDER_LIST_RESULT | SMSG_AUCTION_LIST_PENDING_SALES

datatype ah_field = A8 u8 | A32 u32 | AI32 int | A64 u64 | AF rat

datatype ah_criterion = AUCTION_CREATED | AUCTIONS_WON | GOLD_EARNED | HIGHEST_SOLD | HIGHEST_BID

datatype ah_out =
    AhPacket u32 ah_opcode "ah_field list"
  | AhNotification u32 u32                      \<comment> \<open>the level auctions require\<close>
  | AhUnfeign u32
  | AhCriterion u32 ah_criterion u32
  | AhTooMuchGold u32
  | DbDelAuction u32 | DbInsAuction auction | DbUpdBid u32 u32 u32
  | DbItemOwner u32 u32 | DbSaveItem u32 | DbDelItem u32 | DbDelInventory u32 | DbSaveGold u32
  | AhQuestCheck u32 u32 u32

record ah_env =
  ev_two_side :: bool
  ev_faction :: "u32 \<Rightarrow> u32 option"             \<comment> \<open>\<open>ourMask\<close> of a faction template\<close>
  ev_house :: "u32 \<Rightarrow> ah_entry option"
  ev_rate_deposit :: rat
  ev_rate_cut :: rat
  ev_rate_time :: rat
  ev_now :: int
  ev_mail_delay :: u32
  ev_level_req :: u32
  ev_getall_delay :: u32
  ev_search_delay :: u32
  ev_auctioneer :: "guid \<Rightarrow> u32 option"         \<comment> \<open>an auctioneer the player can use: his faction\<close>
  ev_spawn_faction :: "guid \<Rightarrow> u32 option"      \<comment> \<open>the faction of the template he was spawned from\<close>
  ev_template_known :: "u32 \<Rightarrow> bool"
  ev_clone :: "ah_item \<Rightarrow> ah_item"              \<comment> \<open>a new item of the same kind\<close>
  ev_usable :: "u32 \<Rightarrow> ah_item \<Rightarrow> bool"
  ev_locale_name :: "u32 \<Rightarrow> u32 \<Rightarrow> string option"
  ev_suffix :: "u32 \<Rightarrow> int \<Rightarrow> string option"
  ev_utf8 :: utf8_lib

record auction_world =
  aw_houses :: "ah_side \<Rightarrow> auction_house"
  aw_items :: "u32 \<Rightarrow> ah_item option"
  aw_pending :: "(u32, (ah_side \<times> u32) list \<times> u32) omap"
  aw_players :: "(u32, ah_player) omap"
  aw_mails :: "ah_mail list"
  aw_next_auction :: u32
  aw_next_item :: u32
  aw_out :: "ah_out list"

definition AH_MINIMUM_DEPOSIT :: nat where "AH_MINIMUM_DEPOSIT = 100"
definition MIN_AUCTION_TIME :: u32 where "MIN_AUCTION_TIME = 43200"
definition MAX_AUCTION_ITEMS :: nat where "MAX_AUCTION_ITEMS = 160"
definition MAX_GETALL_RETURN :: nat where "MAX_GETALL_RETURN = 55000"
definition MAX_MONEY_AMOUNT :: u32 where "MAX_MONEY_AMOUNT = 0x7FFFFFFF"

datatype auction_error =
    ERR_AUCTION_OK | ERR_AUCTION_INVENTORY | ERR_AUCTION_DATABASE_ERROR | ERR_AUCTION_NOT_ENOUGHT_MONEY
  | ERR_AUCTION_ITEM_NOT_FOUND | ERR_AUCTION_HIGHER_BID | ERR_AUCTION_BID_INCREMENT | ERR_AUCTION_BID_OWN
  | ERR_AUCTION_RESTRICTED_ACCOUNT

fun auction_error_val :: "auction_error \<Rightarrow> u32" where
  "auction_error_val ERR_AUCTION_OK = 0"
| "auction_error_val ERR_AUCTION_INVENTORY = 1"
| "auction_error_val ERR_AUCTION_DATABASE_ERROR = 2"
| "auction_error_val ERR_AUCTION_NOT_ENOUGHT_MONEY = 3"
| "auction_error_val ERR_AUCTION_ITEM_NOT_FOUND = 4"
| "auction_error_val ERR_AUCTION_HIGHER_BID = 5"
| "auction_error_val ERR_AUCTION_BID_INCREMENT = 7"
| "auction_error_val ERR_AUCTION_BID_OWN = 10"
| "auction_error_val ERR_AUCTION_RESTRICTED_ACCOUNT = 13"

datatype auction_action = AUCTION_SELL_ITEM | AUCTION_CANCEL | AUCTION_PLACE_BID

fun auction_action_val :: "auction_action \<Rightarrow> u32" where
  "auction_action_val AUCTION_SELL_ITEM = 0"
| "auction_action_val AUCTION_CANCEL = 1"
| "auction_action_val AUCTION_PLACE_BID = 2"

datatype mail_answer =
    AUCTION_OUTBIDDED | AUCTION_WON | AUCTION_SUCCESSFUL | AUCTION_EXPIRED
  | AUCTION_CANCELLED_TO_BIDDER | AUCTION_CANCELED | AUCTION_SALE_PENDING

fun mail_answer_val :: "mail_answer \<Rightarrow> nat" where
  "mail_answer_val AUCTION_OUTBIDDED = 0"
| "mail_answer_val AUCTION_WON = 1"
| "mail_answer_val AUCTION_SUCCESSFUL = 2"
| "mail_answer_val AUCTION_EXPIRED = 3"
| "mail_answer_val AUCTION_CANCELLED_TO_BIDDER = 4"
| "mail_answer_val AUCTION_CANCELED = 5"
| "mail_answer_val AUCTION_SALE_PENDING = 6"

definition AUCTIONHOUSE_ALLIANCE :: u32 where "AUCTIONHOUSE_ALLIANCE = 2"
definition AUCTIONHOUSE_HORDE :: u32 where "AUCTIONHOUSE_HORDE = 6"
definition AUCTIONHOUSE_NEUTRAL :: u32 where "AUCTIONHOUSE_NEUTRAL = 7"

definition FACTION_MASK_ALLIANCE :: u32 where "FACTION_MASK_ALLIANCE = 2"
definition FACTION_MASK_HORDE :: u32 where "FACTION_MASK_HORDE = 4"
definition ITEM_PROTO_FLAG_CONJURED :: u32 where "ITEM_PROTO_FLAG_CONJURED = 2"

section \<open>Changing the state\<close>

definition ah_emit :: "ah_out list \<Rightarrow> auction_world \<Rightarrow> auction_world" where
  "ah_emit os w = w\<lparr>aw_out := aw_out w @ os\<rparr>"

definition upd_house :: "ah_side \<Rightarrow> (auction_house \<Rightarrow> auction_house) \<Rightarrow> auction_world \<Rightarrow> auction_world" where
  "upd_house s f w = w\<lparr>aw_houses := (aw_houses w)(s := f (aw_houses w s))\<rparr>"

definition upd_player :: "u32 \<Rightarrow> (ah_player \<Rightarrow> ah_player) \<Rightarrow> auction_world \<Rightarrow> auction_world" where
  "upd_player g f w = w\<lparr>aw_players := om_upd g f (aw_players w)\<rparr>"

text \<open>\<open>FindConnectedPlayer\<close>, \<open>FindPlayer\<close>, \<open>GetPlayerAccountIdByGUID\<close>\<close>

definition connected :: "auction_world \<Rightarrow> u32 \<Rightarrow> bool" where
  "connected w g = (case map_of (aw_players w) g of None \<Rightarrow> False | Some p \<Rightarrow> ap_online p)"

definition account_of :: "auction_world \<Rightarrow> u32 \<Rightarrow> u32" where
  "account_of w g = (case map_of (aw_players w) g of None \<Rightarrow> 0 | Some p \<Rightarrow> ap_account p)"

definition char_exists :: "auction_world \<Rightarrow> u32 \<Rightarrow> bool" where
  "char_exists w g \<longleftrightarrow> connected w g \<or> account_of w g \<noteq> 0"

definition money_of :: "auction_world \<Rightarrow> u32 \<Rightarrow> u32" where
  "money_of w g = (case map_of (aw_players w) g of None \<Rightarrow> 0 | Some p \<Rightarrow> ap_money p)"

text \<open>\<open>Player::ModifyMoney\<close>, and its argument \<open>-int32(x)\<close>\<close>

definition neg_i32 :: "u32 \<Rightarrow> int" where
  "neg_i32 x = sint (- x)"

definition modify_money :: "u32 \<Rightarrow> int \<Rightarrow> auction_world \<Rightarrow> auction_world" where
  "modify_money g a w =
     (let m = money_of w g
      in if a = 0 then w
         else if a < 0
         then upd_player g (\<lambda>p. p\<lparr>ap_money := (if word_of_int (- a) < m then m + word_of_int a else 0)\<rparr>) w
         else if m < MAX_MONEY_AMOUNT - word_of_int a
         then upd_player g (\<lambda>p. p\<lparr>ap_money := m + word_of_int a\<rparr>) w
         else ah_emit [AhTooMuchGold g] w)"

definition has_enough_money :: "auction_world \<Rightarrow> u32 \<Rightarrow> u32 \<Rightarrow> bool" where
  "has_enough_money w g x \<longleftrightarrow> x \<le> money_of w g"

section \<open>Auctions\<close>

definition get_auction_cut :: "ah_env \<Rightarrow> auction \<Rightarrow> u32" where
  "get_auction_cut env a =
     (let cut = i32_of_f32 (f32 (f32_of_u32 (calculate_pct (au_bid a) (he_cut (au_he a))) * ev_rate_cut env))
      in word_of_int (max cut 0))"

definition get_auction_out_bid :: "auction \<Rightarrow> u32" where
  "get_auction_out_bid a = (let outbid = calculate_pct (au_bid a) 5 in if outbid \<noteq> 0 then outbid else 1)"

definition auction_mail_subject :: "mail_answer \<Rightarrow> auction \<Rightarrow> string" where
  "auction_mail_subject r a =
     show_nat (unat (au_entry a)) @ '':0:'' @ show_nat (mail_answer_val r) @ '':'' @ show_nat (unat (au_id a))
     @ '':'' @ show_nat (unat (au_count a))"

text \<open>The width applies to the number that follows; \<open>std::right\<close> fills with blanks on the left.\<close>

definition auction_mail_body :: "u32 \<Rightarrow> u32 \<Rightarrow> u32 \<Rightarrow> u32 \<Rightarrow> u32 \<Rightarrow> string" where
  "auction_mail_body low bid buyout deposit fee =
     (let h = show_base 16 (unat (guid_global HPlayer low))
      in replicate (16 - length h) CHR '' '' @ h @ '':'' @ show_nat (unat bid) @ '':'' @ show_nat (unat buyout)
         @ '':'' @ show_nat (unat deposit) @ '':'' @ show_nat (unat fee))"

text \<open>The part of the deposit the loop over the number of items adds: \<open>i\<close> counts down.\<close>

fun deposit_items :: "rat \<Rightarrow> nat \<Rightarrow> nat" where
  "deposit_items r 0 = 0"
| "deposit_items r (Suc i) =
     (let x = f32 (r * f32 (of_nat (Suc i))) in if x \<noteq> f32_of_u32 (u32_of_f32 x) then deposit_items r i else Suc i)"

definition get_auction_deposit :: "ah_env \<Rightarrow> ah_entry \<Rightarrow> u32 \<Rightarrow> ah_item \<Rightarrow> u32 \<Rightarrow> u32" where
  "get_auction_deposit env he etime item count =
     (let msv = tp_sell_price (it_template item);
          minimum = f32 (of_nat AH_MINIMUM_DEPOSIT * ev_rate_deposit env)
      in if msv = 0 then u32_of_f32 minimum
         else
           (let multiplier = calculate_pct_f (f32_of_u32 (he_deposit he)) 3;
                time_hr = etime div 60 div 60 div 12;
                prod = f32 (f32 (f32_of_u32 msv * multiplier) * ev_rate_deposit env);
                deposit0 = u32_of_f32 prod;
                remainder = f32 (prod - f32_of_u32 deposit0);
                deposit1 = deposit0 * (time_hr * count);
                i = deposit_items remainder (unat count);
                deposit = (if i \<noteq> 0
                  then u32_of_f32 (f32 (f32_of_u32 deposit1 + f32 (f32 (remainder * f32 (of_nat i)) * f32_of_u32 time_hr)))
                  else deposit1)
            in if f32_of_u32 deposit < minimum then u32_of_f32 minimum else deposit))"

section \<open>The houses\<close>

definition get_auctions_map :: "ah_env \<Rightarrow> u32 \<Rightarrow> ah_side" where
  "get_auctions_map env faction =
     (if ev_two_side env then AhNeutral
      else (case ev_faction env faction of
          None \<Rightarrow> AhNeutral
        | Some m \<Rightarrow>
            if m AND FACTION_MASK_ALLIANCE \<noteq> 0 then AhAlliance
            else if m AND FACTION_MASK_HORDE \<noteq> 0 then AhHorde else AhNeutral))"

definition get_auctions_map_by_house :: "ah_env \<Rightarrow> u8 \<Rightarrow> ah_side" where
  "get_auctions_map_by_house env h =
     (if ev_two_side env then AhNeutral
      else if ucast h = AUCTIONHOUSE_ALLIANCE then AhAlliance
      else if ucast h = AUCTIONHOUSE_HORDE then AhHorde else AhNeutral)"

definition get_auction_house_entry :: "ah_env \<Rightarrow> u32 \<Rightarrow> ah_entry option" where
  "get_auction_house_entry env faction =
     ev_house env
       (if ev_two_side env then AUCTIONHOUSE_NEUTRAL
        else (case ev_faction env faction of
            None \<Rightarrow> AUCTIONHOUSE_NEUTRAL
          | Some m \<Rightarrow>
              if m AND FACTION_MASK_ALLIANCE \<noteq> 0 then AUCTIONHOUSE_ALLIANCE
              else if m AND FACTION_MASK_HORDE \<noteq> 0 then AUCTIONHOUSE_HORDE else AUCTIONHOUSE_NEUTRAL))"

definition get_auction_house_entry_from_house :: "ah_env \<Rightarrow> u8 \<Rightarrow> ah_entry option" where
  "get_auction_house_entry_from_house env h = ev_house env (if ev_two_side env then AUCTIONHOUSE_NEUTRAL else ucast h)"

definition get_auction :: "auction_world \<Rightarrow> ah_side \<Rightarrow> u32 \<Rightarrow> auction option" where
  "get_auction w s i = map_of (ah_auctions (aw_houses w s)) i"

definition add_auction :: "ah_side \<Rightarrow> auction \<Rightarrow> auction_world \<Rightarrow> auction_world" where
  "add_auction s a = upd_house s (\<lambda>h. h\<lparr>ah_auctions := om_set (au_id a) a (ah_auctions h)\<rparr>)"

definition remove_auction :: "ah_side \<Rightarrow> auction \<Rightarrow> auction_world \<Rightarrow> auction_world" where
  "remove_auction s a = upd_house s (\<lambda>h. h\<lparr>ah_auctions := om_del (au_id a) (ah_auctions h)\<rparr>)"

text \<open>Writing through a pointer to an auction.\<close>

definition upd_auction :: "ah_side \<Rightarrow> u32 \<Rightarrow> (auction \<Rightarrow> auction) \<Rightarrow> auction_world \<Rightarrow> auction_world" where
  "upd_auction s i f = upd_house s (\<lambda>h. h\<lparr>ah_auctions := om_upd i f (ah_auctions h)\<rparr>)"

text \<open>\<open>AddAItem\<close> asserts that the item is new.\<close>

definition add_a_item :: "ah_item \<Rightarrow> auction_world \<Rightarrow> auction_world option" where
  "add_a_item it w =
     (if aw_items w (it_guid it) \<noteq> None then None
      else Some (w\<lparr>aw_items := (aw_items w)(it_guid it \<mapsto> it)\<rparr>))"

definition remove_a_item :: "u32 \<Rightarrow> bool \<Rightarrow> auction_world \<Rightarrow> auction_world" where
  "remove_a_item i del w =
     (case aw_items w i of
        None \<Rightarrow> w
      | Some it \<Rightarrow>
          (let w1 = (if del then ah_emit [DbDelItem i] w else w)
           in w1\<lparr>aw_items := (aw_items w1)(i := None)\<rparr>))"

section \<open>Mails\<close>

definition send_mail :: "auction \<Rightarrow> mail_answer \<Rightarrow> string \<Rightarrow> u32 \<Rightarrow> ah_item option \<Rightarrow> u32 \<Rightarrow> u32 \<Rightarrow> auction_world \<Rightarrow> auction_world" where
  "send_mail a r body money it to delay w =
     w\<lparr>aw_mails := aw_mails w @ [\<lparr>ml_house = au_house a, ml_to = to, ml_subject = auction_mail_subject r a, ml_body = body,
         ml_money = money, ml_item = it, ml_delay = delay\<rparr>]\<rparr>"

definition bidder_notification :: "u32 \<Rightarrow> auction \<Rightarrow> u32 \<Rightarrow> u32 \<Rightarrow> u32 \<Rightarrow> ah_out" where
  "bidder_notification to a bidder bid diff =
     AhPacket to SMSG_AUCTION_BIDDER_NOTIFICATION
       [A32 (ucast (au_house a)), A32 (au_id a), A64 (guid_global HPlayer bidder), A32 bid, A32 diff, A32 (au_entry a), A32 0]"

definition owner_notification :: "u32 \<Rightarrow> auction \<Rightarrow> ah_out" where
  "owner_notification to a =
     AhPacket to SMSG_AUCTION_OWNER_NOTIFICATION
       [A32 (au_id a), A32 (au_bid a), A32 0, A64 0, A32 (au_entry a), A32 0, AF 0]"

definition send_auction_won_mail :: "auction \<Rightarrow> auction_world \<Rightarrow> auction_world" where
  "send_auction_won_mail a w =
     (case aw_items w (au_item a) of
        None \<Rightarrow> w
      | Some it \<Rightarrow>
          if char_exists w (au_bidder a)
          then
            (let w1 = ah_emit [DbItemOwner (au_bidder a) (it_guid it)] w;
                 w2 = (if connected w (au_bidder a)
                       then ah_emit [bidder_notification (au_bidder a) a (au_bidder a) 0 0, AhCriterion (au_bidder a) AUCTIONS_WON 1] w1
                       else w1)
             in send_mail a AUCTION_WON (auction_mail_body (au_owner a) (au_bid a) (au_buyout a) 0 0) 0 (Some it) (au_bidder a) 0 w2)
          else remove_a_item (au_item a) True w)"

definition send_auction_sale_pending_mail :: "ah_env \<Rightarrow> auction \<Rightarrow> auction_world \<Rightarrow> auction_world" where
  "send_auction_sale_pending_mail env a w =
     (if char_exists w (au_owner a)
      then send_mail a AUCTION_SALE_PENDING
             (auction_mail_body (au_bidder a) (au_bid a) (au_buyout a) (au_deposit a) (get_auction_cut env a)) 0 None (au_owner a) 0 w
      else w)"

definition auction_profit :: "ah_env \<Rightarrow> auction \<Rightarrow> u32" where
  "auction_profit env a = au_bid a + au_deposit a - get_auction_cut env a"

definition send_auction_successful_mail :: "ah_env \<Rightarrow> auction \<Rightarrow> auction_world \<Rightarrow> auction_world" where
  "send_auction_successful_mail env a w =
     (if char_exists w (au_owner a)
      then
        (let profit = auction_profit env a;
             w1 = (if connected w (au_owner a)
                   then ah_emit [AhCriterion (au_owner a) GOLD_EARNED profit, AhCriterion (au_owner a) HIGHEST_SOLD (au_bid a),
                          owner_notification (au_owner a) a] w
                   else w)
         in send_mail a AUCTION_SUCCESSFUL
              (auction_mail_body (au_bidder a) (au_bid a) (au_buyout a) (au_deposit a) (get_auction_cut env a))
              profit None (au_owner a) (ev_mail_delay env) w1)
      else w)"

definition send_auction_expired_mail :: "auction \<Rightarrow> auction_world \<Rightarrow> auction_world" where
  "send_auction_expired_mail a w =
     (case aw_items w (au_item a) of
        None \<Rightarrow> w
      | Some it \<Rightarrow>
          if char_exists w (au_owner a)
          then send_mail a AUCTION_EXPIRED (auction_mail_body 0 0 (au_buyout a) (au_deposit a) 0) 0 (Some it) (au_owner a) 0
                 (if connected w (au_owner a) then ah_emit [owner_notification (au_owner a) a] w else w)
          else remove_a_item (au_item a) True w)"

definition send_auction_outbidded_mail :: "ah_env \<Rightarrow> auction \<Rightarrow> u32 \<Rightarrow> u32 \<Rightarrow> auction_world \<Rightarrow> auction_world" where
  "send_auction_outbidded_mail env a price bidder w =
     (if char_exists w (au_bidder a)
      then send_mail a AUCTION_OUTBIDDED
             (auction_mail_body (au_owner a) (au_bid a) (au_buyout a) (au_deposit a) (get_auction_cut env a))
             (au_bid a) None (au_bidder a) 0
             (if connected w (au_bidder a)
              then ah_emit [bidder_notification (au_bidder a) a bidder price (get_auction_out_bid a)] w else w)
      else w)"

definition send_auction_cancelled_to_bidder_mail :: "auction \<Rightarrow> auction_world \<Rightarrow> auction_world" where
  "send_auction_cancelled_to_bidder_mail a w =
     (if char_exists w (au_bidder a)
      then send_mail a AUCTION_CANCELLED_TO_BIDDER
             (auction_mail_body (au_owner a) (au_bid a) (au_buyout a) (au_deposit a) 0) (au_bid a) None (au_bidder a) 0 w
      else w)"

section \<open>Time passes\<close>

text \<open>One expired auction: the item goes back, or item and money change hands.\<close>

definition finish_auction :: "ah_env \<Rightarrow> ah_side \<Rightarrow> auction \<Rightarrow> auction_world \<Rightarrow> auction_world" where
  "finish_auction env s a w =
     (let w1 = (if au_bidder a = 0 \<and> au_bid a = 0 then send_auction_expired_mail a w
                else send_auction_won_mail a (send_auction_successful_mail env a w))
      in remove_auction s a (remove_a_item (au_item a) False (ah_emit [DbDelAuction (au_id a)] w1)))"

definition expired :: "ah_env \<Rightarrow> auction \<Rightarrow> bool" where
  "expired env a \<longleftrightarrow> au_expire a \<le> ev_now env + 60"

definition house_update :: "ah_env \<Rightarrow> ah_side \<Rightarrow> auction_world \<Rightarrow> auction_world" where
  "house_update env s w =
     (if ah_auctions (aw_houses w s) = [] then w
      else
        (let w1 = upd_house s (\<lambda>h. h\<lparr>ah_throttle := (\<lambda>g. case ah_throttle h g of
                Some t \<Rightarrow> if t \<le> ev_now env then None else Some t | None \<Rightarrow> None)\<rparr>) w
         in fold (\<lambda>p w. if expired env (snd p) then finish_auction env s (snd p) w else w)
              (ah_auctions (aw_houses w s)) w1))"

definition ah_update :: "ah_env \<Rightarrow> auction_world \<Rightarrow> auction_world" where
  "ah_update env w = house_update env AhNeutral (house_update env AhAlliance (house_update env AhHorde w))"

section \<open>Deposits\<close>

definition pending_auction_add :: "u32 \<Rightarrow> ah_side \<times> u32 \<Rightarrow> auction_world \<Rightarrow> auction_world" where
  "pending_auction_add g r w =
     w\<lparr>aw_pending := (case map_of (aw_pending w) g of
         Some (rs, n) \<Rightarrow> om_set g (rs @ [r], n) (aw_pending w)
       | None \<Rightarrow> om_set g ([r], 0) (aw_pending w))\<rparr>"

definition pending_auction_count :: "auction_world \<Rightarrow> u32 \<Rightarrow> u32" where
  "pending_auction_count w g =
     (case map_of (aw_pending w) g of Some (rs, n) \<Rightarrow> word_of_nat (length rs) | None \<Rightarrow> 0)"

text \<open>Reading through the pointers of a list: \<open>None\<close> if one auction was deleted.\<close>

fun deref_all :: "auction_world \<Rightarrow> (ah_side \<times> u32) list \<Rightarrow> auction list option" where
  "deref_all w [] = Some []"
| "deref_all w ((s, i) # rs) =
     (case get_auction w s i of
        None \<Rightarrow> None
      | Some a \<Rightarrow> (case deref_all w rs of None \<Rightarrow> None | Some as \<Rightarrow> Some (a # as)))"

definition store_auction :: "ah_side \<times> u32 \<Rightarrow> (auction \<Rightarrow> auction) \<Rightarrow> auction_world \<Rightarrow> auction_world" where
  "store_auction r f w =
     (let w1 = upd_auction (fst r) (snd r) f w
      in case get_auction w1 (fst r) (snd r) of
           None \<Rightarrow> w1 | Some a \<Rightarrow> ah_emit [DbDelAuction (au_id a), DbInsAuction a] w1)"

text \<open>Every auction gets an equal share of the deposit, the last one what remains.\<close>

fun share_deposit :: "u32 \<Rightarrow> nat \<Rightarrow> u32 \<Rightarrow> (ah_side \<times> u32) list \<Rightarrow> auction_world \<Rightarrow> auction_world" where
  "share_deposit amount n remain [] w = w"
| "share_deposit amount n remain [r] w = store_auction r (\<lambda>a. a\<lparr>au_deposit := remain\<rparr>) w"
| "share_deposit amount n remain (r # r' # rs) w =
     (let d = word_of_nat (unat amount div n)
      in share_deposit amount n (remain - d) (r' # rs) (store_auction r (\<lambda>a. a\<lparr>au_deposit := d\<rparr>) w))"

definition pending_auction_process :: "ah_env \<Rightarrow> u32 \<Rightarrow> auction_world \<Rightarrow> auction_world option" where
  "pending_auction_process env g w =
     (case map_of (aw_pending w) g of
        None \<Rightarrow> Some w
      | Some (rs, n) \<Rightarrow>
          (case deref_all w rs of
             None \<Rightarrow> None
           | Some [] \<Rightarrow> None
           | Some (a # as) \<Rightarrow>
               (let items = sum_list (map au_count (a # as));
                    amount = (case aw_items w (au_item a) of
                        Some it \<Rightarrow> get_auction_deposit env (au_he a) (au_etime a) it items | None \<Rightarrow> 0);
                    w1 = share_deposit amount (length rs) amount rs w;
                    w2 = w1\<lparr>aw_pending := om_del g (aw_pending w1)\<rparr>
                in Some (modify_money g (neg_i32 amount) w2))))"

text \<open>The auctions of a seller who is gone expire at once.\<close>

definition expire_pending :: "ah_env \<Rightarrow> u32 \<Rightarrow> (ah_side \<times> u32) list \<Rightarrow> auction_world \<Rightarrow> auction_world option" where
  "expire_pending env g rs w =
     (case deref_all w rs of
        None \<Rightarrow> None
      | Some _ \<Rightarrow>
          (let w1 = fold (\<lambda>r. store_auction r (\<lambda>a. a\<lparr>au_expire := ev_now env\<rparr>)) rs w
           in Some (w1\<lparr>aw_pending := om_del g (aw_pending w1)\<rparr>)))"

definition update_pending_one :: "ah_env \<Rightarrow> u32 \<Rightarrow> auction_world \<Rightarrow> auction_world option" where
  "update_pending_one env g w =
     (case map_of (aw_pending w) g of
        None \<Rightarrow> Some w
      | Some (rs, n) \<Rightarrow>
          if connected w g
          then (if pending_auction_count w g = n then pending_auction_process env g w
                else Some (w\<lparr>aw_pending := om_set g (rs, pending_auction_count w g) (aw_pending w)\<rparr>))
          else expire_pending env g rs w)"

fun update_pending_loop :: "ah_env \<Rightarrow> u32 list \<Rightarrow> auction_world \<Rightarrow> auction_world option" where
  "update_pending_loop env [] w = Some w"
| "update_pending_loop env (g # gs) w =
     (case update_pending_one env g w of None \<Rightarrow> None | Some w1 \<Rightarrow> update_pending_loop env gs w1)"

definition update_pending_auctions :: "ah_env \<Rightarrow> auction_world \<Rightarrow> auction_world option" where
  "update_pending_auctions env w = update_pending_loop env (map fst (aw_pending w)) w"

section \<open>Selling\<close>

definition command_result :: "u32 \<Rightarrow> u32 \<Rightarrow> auction_action \<Rightarrow> auction_error \<Rightarrow> auction_world \<Rightarrow> auction_world" where
  "command_result to i act err w =
     ah_emit [AhPacket to SMSG_AUCTION_COMMAND_RESULT
       ([A32 i, A32 (auction_action_val act), A32 (auction_error_val err)]
        @ (if auction_error_val err = 0 \<and> auction_action_val act \<noteq> 0 then [A32 0] else []))] w"

definition unfeign :: "u32 \<Rightarrow> auction_world \<Rightarrow> auction_world" where
  "unfeign g w =
     (case map_of (aw_players w) g of
        None \<Rightarrow> w
      | Some p \<Rightarrow> if ap_feigning p then ah_emit [AhUnfeign g] (upd_player g (\<lambda>p. p\<lparr>ap_feigning := False\<rparr>) w) else w)"

definition items_of :: "auction_world \<Rightarrow> u32 \<Rightarrow> ah_item list" where
  "items_of w g = (case map_of (aw_players w) g of None \<Rightarrow> [] | Some p \<Rightarrow> ap_items p)"

definition item_by_guid :: "auction_world \<Rightarrow> u32 \<Rightarrow> guid \<Rightarrow> ah_item option" where
  "item_by_guid w g ig = find (\<lambda>it. guid_global HItem (it_guid it) = ig) (items_of w g)"

definition may_sell :: "auction_world \<Rightarrow> u32 \<Rightarrow> u32 \<Rightarrow> ah_item \<Rightarrow> bool" where
  "may_sell w entry n it \<longleftrightarrow>
     \<not> (aw_items w (it_guid it) \<noteq> None \<or> \<not> it_can_trade it \<or> it_nonempty_bag it
        \<or> tp_flags (it_template it) AND ITEM_PROTO_FLAG_CONJURED \<noteq> 0 \<or> it_duration it \<noteq> 0
        \<or> it_count it < n \<or> entry \<noteq> tp_entry (it_template it))"

text \<open>The items of a request, in its order; \<open>entry\<close> is 0 before the first.\<close>

fun collect_items :: "auction_world \<Rightarrow> u32 \<Rightarrow> u32 \<Rightarrow> (guid \<times> u32) list \<Rightarrow> auction_error + (ah_item \<times> u32) list" where
  "collect_items w g entry [] = Inr []"
| "collect_items w g entry ((ig, n) # rs) =
     (case item_by_guid w g ig of
        None \<Rightarrow> Inl ERR_AUCTION_ITEM_NOT_FOUND
      | Some it \<Rightarrow>
          (let entry' = (if entry = 0 then tp_entry (it_template it) else entry)
           in if \<not> may_sell w entry' n it then Inl ERR_AUCTION_DATABASE_ERROR
              else sum_bind (collect_items w g entry' rs) (\<lambda>xs. Inr ((it, n) # xs))))"

record sell_request =
  sr_auctioneer :: guid
  sr_items :: "(guid \<times> u32) list"
  sr_bid :: u32
  sr_buyout :: u32
  sr_etime :: u32

definition new_auction :: "ah_env \<Rightarrow> sell_request \<Rightarrow> u32 \<Rightarrow> u8 \<Rightarrow> u32 \<Rightarrow> u32 \<Rightarrow> ah_item \<Rightarrow> u32 \<Rightarrow> ah_entry \<Rightarrow> auction" where
  "new_auction env rq i house g etime it deposit he =
     \<lparr>au_id = i, au_house = house, au_item = it_guid it, au_entry = tp_entry (it_template it), au_count = it_count it,
      au_owner = g, au_startbid = sr_bid rq, au_bid = 0, au_buyout = sr_buyout rq,
      au_expire = ev_now env + int (unat (u32_of_f32 (f32 (f32_of_u32 etime * ev_rate_time env)))),
      au_bidder = 0, au_deposit = deposit, au_etime = etime, au_he = he\<rparr>"

definition drop_item :: "u32 \<Rightarrow> u32 \<Rightarrow> auction_world \<Rightarrow> auction_world" where
  "drop_item g ig = upd_player g (\<lambda>p. p\<lparr>ap_items := filter (\<lambda>it. it_guid it \<noteq> ig) (ap_items p)\<rparr>)"

definition set_item_count :: "u32 \<Rightarrow> u32 \<Rightarrow> u32 \<Rightarrow> auction_world \<Rightarrow> auction_world" where
  "set_item_count g ig n =
     upd_player g (\<lambda>p. p\<lparr>ap_items := map (\<lambda>it. if it_guid it = ig then it\<lparr>it_count := n\<rparr> else it) (ap_items p)\<rparr>)"

text \<open>A stack that is sold as it is moves to the auction house.\<close>

definition sell_whole ::
    "ah_env \<Rightarrow> u32 \<Rightarrow> sell_request \<Rightarrow> ah_side \<Rightarrow> u8 \<Rightarrow> u32 \<Rightarrow> u32 \<Rightarrow> ah_entry \<Rightarrow> ah_item \<Rightarrow> auction_world \<Rightarrow> auction_world option" where
  "sell_whole env g rq s house etime deposit he it w =
     (let a = new_auction env rq (aw_next_auction w) house g etime it deposit he;
          w1 = w\<lparr>aw_next_auction := aw_next_auction w + 1\<rparr>
      in case add_a_item it w1 of
           None \<Rightarrow> None
         | Some w2 \<Rightarrow>
             Some (ah_emit [AhCriterion g AUCTION_CREATED 1] (command_result g (au_id a) AUCTION_SELL_ITEM ERR_AUCTION_OK
               (ah_emit [DbDelInventory (it_guid it), DbSaveItem (it_guid it), DbInsAuction a, DbSaveGold g]
                 (drop_item g (it_guid it) (pending_auction_add g (s, au_id a) (add_auction s a w2)))))))"

text \<open>Otherwise a new stack is made and the stacks it is taken from are deleted or made smaller.\<close>

definition take_from :: "u32 \<Rightarrow> ah_item \<times> u32 \<Rightarrow> auction_world \<Rightarrow> auction_world" where
  "take_from g p w =
     (let it = fst p; n = snd p
      in if it_count it = n
         then ah_emit [DbDelInventory (it_guid it), DbDelItem (it_guid it)] (drop_item g (it_guid it) w)
         else ah_emit [AhQuestCheck g (tp_entry (it_template it)) n, DbSaveItem (it_guid it)]
                (set_item_count g (it_guid it) (it_count it - n) w))"

definition sell_clone ::
    "ah_env \<Rightarrow> u32 \<Rightarrow> sell_request \<Rightarrow> ah_side \<Rightarrow> u8 \<Rightarrow> u32 \<Rightarrow> u32 \<Rightarrow> ah_entry \<Rightarrow> (ah_item \<times> u32) list \<Rightarrow> u32 \<Rightarrow> auction_world \<Rightarrow> auction_world option" where
  "sell_clone env g rq s house etime deposit he xs amount w =
     (let it = fst (hd xs)
      in if \<not> ev_template_known env (tp_entry (it_template it))
         then Some (command_result g 0 AUCTION_SELL_ITEM ERR_AUCTION_DATABASE_ERROR w)
         else
           (let new = (ev_clone env it)\<lparr>it_guid := aw_next_item w, it_template := it_template it, it_count := amount\<rparr>;
                a = new_auction env rq (aw_next_auction w) house g etime new deposit he;
                w1 = w\<lparr>aw_next_item := aw_next_item w + 1, aw_next_auction := aw_next_auction w + 1\<rparr>
            in case add_a_item new w1 of
                 None \<Rightarrow> None
               | Some w2 \<Rightarrow>
                   Some (ah_emit [AhCriterion g AUCTION_CREATED 1] (command_result g (au_id a) AUCTION_SELL_ITEM ERR_AUCTION_OK
                     (ah_emit [DbSaveItem (it_guid new), DbInsAuction a, DbSaveGold g]
                       (fold (take_from g) xs (pending_auction_add g (s, au_id a) (add_auction s a w2))))))))"

text \<open>The checks of a request; the error is what the client is told, if anything.\<close>

definition sell_duration_ok :: "u32 \<Rightarrow> bool" where
  "sell_duration_ok etime \<longleftrightarrow> etime = 1 * MIN_AUCTION_TIME \<or> etime = 2 * MIN_AUCTION_TIME \<or> etime = 4 * MIN_AUCTION_TIME"

definition sell_fields_bad :: "(guid \<times> u32) list \<Rightarrow> bool" where
  "sell_fields_bad xs \<longleftrightarrow> (\<exists>(ig, n) \<in> set xs. ig = 0 \<or> n = 0 \<or> 1000 < n)"

definition sell_items_error :: "(guid \<times> u32) list \<Rightarrow> (ah_item \<times> u32) list \<Rightarrow> bool" where
  "sell_items_error rs xs \<longleftrightarrow>
     sum_list (map snd xs) = 0 \<or> \<not> distinct (map fst rs)
     \<or> (\<exists>p \<in> set xs. it_max_stack (fst p) < sum_list (map snd xs))"

definition sell_house_id :: "ah_env \<Rightarrow> guid \<Rightarrow> u32 option option" where
  "sell_house_id env auctioneer =
     (if ev_two_side env then Some (Some AUCTIONHOUSE_NEUTRAL)
      else (case ev_spawn_faction env auctioneer of
          None \<Rightarrow> Some None
        | Some f \<Rightarrow> (case get_auction_house_entry env f of None \<Rightarrow> None | Some he \<Rightarrow> Some (Some (he_id he)))))"

definition sell_items ::
    "ah_env \<Rightarrow> u32 \<Rightarrow> sell_request \<Rightarrow> u32 \<Rightarrow> ah_entry \<Rightarrow> u32 \<Rightarrow> (ah_item \<times> u32) list \<Rightarrow> auction_world \<Rightarrow> auction_world option" where
  "sell_items env g rq faction he etime xs w =
     (let err = (\<lambda>e. Some (command_result g 0 AUCTION_SELL_ITEM e w));
          it = fst (hd xs);
          n = sum_list (map snd xs);
          s = get_auctions_map env faction;
          deposit = get_auction_deposit env he etime it n
      in if sell_items_error (sr_items rq) xs then err ERR_AUCTION_DATABASE_ERROR
         else if \<not> has_enough_money w g deposit then err ERR_AUCTION_NOT_ENOUGHT_MONEY
         else
           (case sell_house_id env (sr_auctioneer rq) of
              None \<Rightarrow> None
            | Some None \<Rightarrow> err ERR_AUCTION_DATABASE_ERROR
            | Some (Some h) \<Rightarrow>
                if length xs = 1 \<and> it_count it = snd (hd xs)
                then sell_whole env g rq s (ucast h) etime deposit he it w
                else sell_clone env g rq s (ucast h) etime deposit he xs n w))"

definition handle_sell_item :: "ah_env \<Rightarrow> u32 \<Rightarrow> sell_request \<Rightarrow> auction_world \<Rightarrow> auction_world option" where
  "handle_sell_item env g rq w =
     (let err = (\<lambda>e w. Some (command_result g 0 AUCTION_SELL_ITEM e w))
      in if MAX_AUCTION_ITEMS < length (sr_items rq) then err ERR_AUCTION_DATABASE_ERROR w
         else if sell_fields_bad (sr_items rq) then Some w
         else if sr_bid rq = 0 \<or> sr_etime rq = 0 then Some w
         else if MAX_MONEY_AMOUNT < sr_bid rq \<or> MAX_MONEY_AMOUNT < sr_buyout rq then err ERR_AUCTION_DATABASE_ERROR w
         else
           (case ev_auctioneer env (sr_auctioneer rq) of
              None \<Rightarrow> Some w
            | Some faction \<Rightarrow>
                (case get_auction_house_entry env faction of
                   None \<Rightarrow> Some w
                 | Some he \<Rightarrow>
                     (let etime = sr_etime rq * 60
                      in if \<not> sell_duration_ok etime then Some w
                         else
                           (let w1 = unfeign g w
                            in case collect_items w1 g 0 (sr_items rq) of
                                 Inl e \<Rightarrow> err e w1
                               | Inr xs \<Rightarrow> sell_items env g rq faction he etime xs w1)))))"

section \<open>Bidding\<close>

text \<open>Nobody bids for what he or another character of his account sells.\<close>

definition own_auction :: "auction_world \<Rightarrow> u32 \<Rightarrow> auction \<Rightarrow> bool" where
  "own_auction w g a \<longleftrightarrow>
     au_owner a = g
     \<or> \<not> (case map_of (aw_players w) (au_owner a) of None \<Rightarrow> False | Some p \<Rightarrow> ap_online p \<and> ap_in_world p)
       \<and> account_of w (au_owner a) = account_of w g"

definition bid_refused :: "auction \<Rightarrow> u32 \<Rightarrow> bool" where
  "bid_refused a price \<longleftrightarrow>
     price \<le> au_bid a \<or> price < au_startbid a
     \<or> (price < au_buyout a \<or> au_buyout a = 0) \<and> price < au_bid a + get_auction_out_bid a"

definition plain_bid :: "ah_env \<Rightarrow> u32 \<Rightarrow> ah_side \<Rightarrow> auction \<Rightarrow> u32 \<Rightarrow> auction_world \<Rightarrow> auction_world" where
  "plain_bid env g s a price w =
     (let w1 = (if au_bidder a \<noteq> 0
                then (if au_bidder a = g then modify_money g (neg_i32 (price - au_bid a)) w
                      else modify_money g (neg_i32 price) (send_auction_outbidded_mail env a price g w))
                else modify_money g (neg_i32 price) w);
          w2 = upd_auction s (au_id a) (\<lambda>a. a\<lparr>au_bidder := g, au_bid := price\<rparr>) w1
      in command_result g (au_id a) AUCTION_PLACE_BID ERR_AUCTION_OK
           (ah_emit [AhCriterion g HIGHEST_BID price, DbUpdBid g price (au_id a)] w2))"

definition buyout :: "ah_env \<Rightarrow> u32 \<Rightarrow> ah_side \<Rightarrow> auction \<Rightarrow> auction_world \<Rightarrow> auction_world" where
  "buyout env g s a w =
     (let w1 = (if g = au_bidder a then modify_money g (neg_i32 (au_buyout a - au_bid a)) w
                else
                  (let v = modify_money g (neg_i32 (au_buyout a)) w
                   in if au_bidder a \<noteq> 0 then send_auction_outbidded_mail env a (au_buyout a) g v else v));
          b = a\<lparr>au_bidder := g, au_bid := au_buyout a\<rparr>;
          w2 = ah_emit [AhCriterion g HIGHEST_BID (au_buyout a)] (upd_auction s (au_id a) (\<lambda>_. b) w1);
          w3 = send_auction_won_mail b (send_auction_successful_mail env b (send_auction_sale_pending_mail env b w2));
          w4 = ah_emit [DbDelAuction (au_id b)] (command_result g (au_id b) AUCTION_PLACE_BID ERR_AUCTION_OK w3)
      in remove_auction s b (remove_a_item (au_item b) False w4))"

definition handle_place_bid :: "ah_env \<Rightarrow> u32 \<Rightarrow> guid \<Rightarrow> u32 \<Rightarrow> u32 \<Rightarrow> auction_world \<Rightarrow> auction_world" where
  "handle_place_bid env g auctioneer i price w =
     (if i = 0 \<or> price = 0 then w
      else (case ev_auctioneer env auctioneer of
          None \<Rightarrow> w
        | Some faction \<Rightarrow>
            (let w1 = unfeign g w;
                 s = get_auctions_map env faction
             in case get_auction w1 s i of
                  None \<Rightarrow> command_result g 0 AUCTION_PLACE_BID ERR_AUCTION_BID_OWN w1
                | Some a \<Rightarrow>
                    if own_auction w1 g a then command_result g 0 AUCTION_PLACE_BID ERR_AUCTION_BID_OWN w1
                    else if bid_refused a price then w1
                    else if \<not> has_enough_money w1 g price then w1
                    else
                      ah_emit [DbSaveGold g]
                        (if price < au_buyout a \<or> au_buyout a = 0 then plain_bid env g s a price w1
                         else buyout env g s a w1))))"

section \<open>Cancelling\<close>

definition cancel_auction :: "ah_env \<Rightarrow> u32 \<Rightarrow> ah_side \<Rightarrow> auction \<Rightarrow> ah_item \<Rightarrow> auction_world \<Rightarrow> auction_world" where
  "cancel_auction env g s a it w =
     (let w1 = (if au_bidder a \<noteq> 0
                then modify_money g (neg_i32 (get_auction_cut env a)) (send_auction_cancelled_to_bidder_mail a w) else w);
          w2 = send_mail a AUCTION_CANCELED (auction_mail_body 0 0 (au_buyout a) (au_deposit a) 0) 0 (Some it) g 0 w1;
          w3 = ah_emit [DbSaveGold g, DbDelAuction (au_id a)] (command_result g (au_id a) AUCTION_CANCEL ERR_AUCTION_OK w2)
      in remove_auction s a (remove_a_item (au_item a) False w3))"

definition handle_remove_item :: "ah_env \<Rightarrow> u32 \<Rightarrow> guid \<Rightarrow> u32 \<Rightarrow> auction_world \<Rightarrow> auction_world" where
  "handle_remove_item env g auctioneer i w =
     (case ev_auctioneer env auctioneer of
        None \<Rightarrow> w
      | Some faction \<Rightarrow>
          (let w1 = unfeign g w;
               s = get_auctions_map env faction;
               err = command_result g 0 AUCTION_CANCEL ERR_AUCTION_DATABASE_ERROR w1
           in case get_auction w1 s i of
                None \<Rightarrow> err
              | Some a \<Rightarrow>
                  if au_owner a \<noteq> g then err
                  else (case aw_items w1 (au_item a) of
                      None \<Rightarrow> err
                    | Some it \<Rightarrow>
                        if au_bidder a \<noteq> 0 \<and> \<not> has_enough_money w1 g (get_auction_cut env a) then w1
                        else cancel_auction env g s a it w1)))"

section \<open>Lists\<close>

definition build_auction_info :: "ah_env \<Rightarrow> auction \<Rightarrow> ah_item \<Rightarrow> ah_field list" where
  "build_auction_info env a it =
     [A32 (au_id a), A32 (tp_entry (it_template it))]
     @ concat (map (\<lambda>(e, d, c). [A32 e, A32 d, A32 c]) (it_enchants it))
     @ [AI32 (it_random it), A32 (it_suffix it), A32 (it_count it), A32 (it_charges it), A32 0, A64 (ucast (au_owner a)),
        A32 (au_startbid a), A32 (if au_bid a \<noteq> 0 then get_auction_out_bid a else 0), A32 (au_buyout a),
        A32 (word_of_int ((au_expire a - ev_now env) * 1000)), A64 (ucast (au_bidder a)), A32 (au_bid a)]"

text \<open>The rows of a list with the number of rows and the number of auctions.\<close>

type_synonym rows = "ah_field list \<times> nat \<times> nat"

definition add_row :: "ah_env \<Rightarrow> auction_world \<Rightarrow> auction \<Rightarrow> rows \<Rightarrow> rows" where
  "add_row env w a r =
     (case r of (fs, c, t) \<Rightarrow>
        (case aw_items w (au_item a) of
           None \<Rightarrow> (fs, c, t + 1) | Some it \<Rightarrow> (fs @ build_auction_info env a it, c + 1, t + 1)))"

definition list_bidder_items :: "ah_env \<Rightarrow> auction_world \<Rightarrow> ah_side \<Rightarrow> u32 \<Rightarrow> rows \<Rightarrow> rows" where
  "list_bidder_items env w s g r =
     fold (\<lambda>p r. if au_bidder (snd p) = g then add_row env w (snd p) r else r) (ah_auctions (aw_houses w s)) r"

definition list_owner_items :: "ah_env \<Rightarrow> auction_world \<Rightarrow> ah_side \<Rightarrow> u32 \<Rightarrow> rows" where
  "list_owner_items env w s g =
     fold (\<lambda>p r. if au_owner (snd p) = g then add_row env w (snd p) r else r) (ah_auctions (aw_houses w s)) ([], 0, 0)"

record ah_search =
  sq_name :: wname
  sq_from :: u32
  sq_level_min :: u8
  sq_level_max :: u8
  sq_usable :: u8
  sq_inv_type :: u32
  sq_class :: u32
  sq_subclass :: u32
  sq_quality :: u32

definition search_name :: "ah_env \<Rightarrow> u32 \<Rightarrow> ah_item \<Rightarrow> string" where
  "search_name env g it =
     (let name = (case ev_locale_name env g (tp_entry (it_template it)) of Some n \<Rightarrow> n | None \<Rightarrow> tp_name (it_template it))
      in if it_random it \<noteq> 0
         then (case ev_suffix env g (it_random it) of None \<Rightarrow> name | Some x \<Rightarrow> name @ '' '' @ x) else name)"

definition search_fits :: "ah_env \<Rightarrow> u32 \<Rightarrow> ah_search \<Rightarrow> ah_item \<Rightarrow> bool" where
  "search_fits env g q it \<longleftrightarrow>
     (let t = it_template it
      in (sq_class q = 0xFFFFFFFF \<or> tp_class t = sq_class q)
       \<and> (sq_subclass q = 0xFFFFFFFF \<or> tp_subclass t = sq_subclass q)
       \<and> (sq_inv_type q = 0xFFFFFFFF \<or> tp_inv_type t = sq_inv_type q)
       \<and> (sq_quality q = 0xFFFFFFFF \<or> tp_quality t = sq_quality q)
       \<and> (sq_level_min q = 0 \<or> \<not> (tp_req_level t < ucast (sq_level_min q)
            \<or> sq_level_max q \<noteq> 0 \<and> ucast (sq_level_max q) < tp_req_level t))
       \<and> (sq_usable q = 0 \<or> ev_usable env g it)
       \<and> (sq_name q = [] \<or> tp_name t \<noteq> [] \<and> utf8_fit_to (ev_utf8 env) (search_name env g it) (sq_name q)))"

fun getall_loop :: "ah_env \<Rightarrow> auction_world \<Rightarrow> (u32 \<times> auction) list \<Rightarrow> rows \<Rightarrow> rows" where
  "getall_loop env w [] r = r"
| "getall_loop env w ((i, a) # as) r =
     (if au_expire a < ev_now env then getall_loop env w as r
      else (case aw_items w (au_item a) of
          None \<Rightarrow> getall_loop env w as r
        | Some it \<Rightarrow>
            (case r of (fs, c, t) \<Rightarrow>
               (let r' = (fs @ build_auction_info env a it, c + 1, t + 1)
                in if MAX_GETALL_RETURN \<le> c + 1 then r' else getall_loop env w as r'))))"

fun search_loop :: "ah_env \<Rightarrow> auction_world \<Rightarrow> u32 \<Rightarrow> ah_search \<Rightarrow> (u32 \<times> auction) list \<Rightarrow> rows \<Rightarrow> rows" where
  "search_loop env w g q [] r = r"
| "search_loop env w g q ((i, a) # as) r =
     (if au_expire a < ev_now env then search_loop env w g q as r
      else (case aw_items w (au_item a) of
          None \<Rightarrow> search_loop env w g q as r
        | Some it \<Rightarrow>
            if \<not> search_fits env g q it then search_loop env w g q as r
            else (case r of (fs, c, t) \<Rightarrow>
               search_loop env w g q as
                 (if c < 50 \<and> unat (sq_from q) \<le> t then (fs @ build_auction_info env a it, c + 1, t + 1) else (fs, c, t + 1)))))"

definition list_auction_items :: "ah_env \<Rightarrow> ah_side \<Rightarrow> u32 \<Rightarrow> ah_search \<Rightarrow> bool \<Rightarrow> auction_world \<Rightarrow> rows \<times> auction_world" where
  "list_auction_items env s g q getall w =
     (let h = aw_houses w s;
          throttle = (case ah_throttle h g of Some t \<Rightarrow> t | None \<Rightarrow> ev_now env)
      in if getall \<and> throttle \<le> ev_now env
         then (getall_loop env w (ah_auctions h) ([], 0, 0),
               upd_house s (\<lambda>h. h\<lparr>ah_throttle := (ah_throttle h)(g \<mapsto> ev_now env + int (unat (ev_getall_delay env)))\<rparr>) w)
         else (search_loop env w g q (ah_auctions h) ([], 0, 0), w))"

definition list_packet :: "ah_opcode \<Rightarrow> u32 \<Rightarrow> u32 \<Rightarrow> rows \<Rightarrow> ah_out" where
  "list_packet op g tail r =
     (case r of (fs, c, t) \<Rightarrow> AhPacket g op ([A32 (word_of_nat c)] @ fs @ [A32 (word_of_nat t), A32 tail]))"

definition handle_auction_hello :: "ah_env \<Rightarrow> u32 \<Rightarrow> guid \<Rightarrow> auction_world \<Rightarrow> auction_world" where
  "handle_auction_hello env g auctioneer w =
     (case ev_auctioneer env auctioneer of
        None \<Rightarrow> w
      | Some faction \<Rightarrow>
          (let w1 = unfeign g w;
               level = (case map_of (aw_players w) g of None \<Rightarrow> 0 | Some p \<Rightarrow> ap_level p)
           in if ucast level < ev_level_req env then ah_emit [AhNotification g (ev_level_req env)] w1
              else (case get_auction_house_entry env faction of
                  None \<Rightarrow> w1
                | Some he \<Rightarrow> ah_emit [AhPacket g MSG_AUCTION_HELLO [A64 auctioneer, A32 (he_id he), A8 1]] w1)))"

text \<open>\<open>len\<close> is the size of the packet: the ids are read only if it fits their number.\<close>

definition handle_list_bidder_items :: "ah_env \<Rightarrow> u32 \<Rightarrow> guid \<Rightarrow> u32 list \<Rightarrow> u32 \<Rightarrow> nat \<Rightarrow> auction_world \<Rightarrow> auction_world" where
  "handle_list_bidder_items env g auctioneer ids outbid_count len w =
     (let n = (if len = unat (16 + outbid_count * 4) then unat outbid_count else 0)
      in case ev_auctioneer env auctioneer of
           None \<Rightarrow> w
         | Some faction \<Rightarrow>
             (let w1 = unfeign g w;
                  s = get_auctions_map env faction;
                  r = fold (\<lambda>i r. case get_auction w1 s i of
                        None \<Rightarrow> r | Some a \<Rightarrow> if aw_items w1 (au_item a) = None then r else add_row env w1 a r) (take n ids) ([], 0, 0)
              in ah_emit [list_packet SMSG_AUCTION_BIDDER_LIST_RESULT g 300 (list_bidder_items env w1 s g r)] w1))"

definition handle_list_owner_items :: "ah_env \<Rightarrow> u32 \<Rightarrow> guid \<Rightarrow> auction_world \<Rightarrow> auction_world" where
  "handle_list_owner_items env g auctioneer w =
     (case ev_auctioneer env auctioneer of
        None \<Rightarrow> w
      | Some faction \<Rightarrow>
          (let w1 = unfeign g w
           in ah_emit [list_packet SMSG_AUCTION_OWNER_LIST_RESULT g 0
                (list_owner_items env w1 (get_auctions_map env faction) g)] w1))"

definition handle_list_items :: "ah_env \<Rightarrow> u32 \<Rightarrow> guid \<Rightarrow> string \<Rightarrow> ah_search \<Rightarrow> u8 \<Rightarrow> auction_world \<Rightarrow> auction_world" where
  "handle_list_items env g auctioneer name q getall w =
     (case ev_auctioneer env auctioneer of
        None \<Rightarrow> w
      | Some faction \<Rightarrow>
          (let w1 = unfeign g w
           in case utf8_to_wstr (ev_utf8 env) name of
                None \<Rightarrow> w1
              | Some wn \<Rightarrow>
                  (case list_auction_items env (get_auctions_map env faction) g (q\<lparr>sq_name := wstr_to_lower wn\<rparr>)
                          (getall \<noteq> 0 \<and> ev_getall_delay env \<noteq> 0) w1 of
                     (r, w2) \<Rightarrow> ah_emit [list_packet SMSG_AUCTION_LIST_RESULT g (ev_search_delay env) r] w2)))"

definition handle_list_pending_sales :: "u32 \<Rightarrow> auction_world \<Rightarrow> auction_world" where
  "handle_list_pending_sales g = ah_emit [AhPacket g SMSG_AUCTION_LIST_PENDING_SALES [A32 0]]"

section \<open>Loading\<close>

record auction_row =
  rw_id :: u32
  rw_house :: u8
  rw_item :: u32
  rw_entry :: u32
  rw_count :: u32
  rw_owner :: u32
  rw_buyout :: u32
  rw_expire :: u32
  rw_bidder :: u32
  rw_bid :: u32
  rw_startbid :: u32
  rw_deposit :: u32

definition auction_row_of :: "auction \<Rightarrow> auction_row" where
  "auction_row_of a =
     \<lparr>rw_id = au_id a, rw_house = au_house a, rw_item = au_item a, rw_entry = au_entry a, rw_count = au_count a,
      rw_owner = au_owner a, rw_buyout = au_buyout a, rw_expire = word_of_int (au_expire a), rw_bidder = au_bidder a,
      rw_bid = au_bid a, rw_startbid = au_startbid a, rw_deposit = au_deposit a\<rparr>"

text \<open>The items; \<open>None\<close> is one that cannot be made. A second item with the same GUID fails an assertion.\<close>

fun load_auction_items :: "ah_item option list \<Rightarrow> auction_world \<Rightarrow> auction_world option" where
  "load_auction_items [] w = Some w"
| "load_auction_items (None # rs) w = load_auction_items rs w"
| "load_auction_items (Some it # rs) w =
     (case add_a_item it w of None \<Rightarrow> None | Some w1 \<Rightarrow> load_auction_items rs w1)"

text \<open>\<open>etime\<close> is not in the row: it is what was in the memory before.\<close>

definition load_auction_row :: "ah_env \<Rightarrow> u32 \<Rightarrow> auction_world \<Rightarrow> auction_row \<Rightarrow> auction option" where
  "load_auction_row env junk w r =
     (case get_auction_house_entry_from_house env (rw_house r) of
        None \<Rightarrow> None
      | Some he \<Rightarrow>
          if aw_items w (rw_item r) = None then None
          else Some \<lparr>au_id = rw_id r, au_house = rw_house r, au_item = rw_item r, au_entry = rw_entry r, au_count = rw_count r,
                 au_owner = rw_owner r, au_startbid = rw_startbid r, au_bid = rw_bid r, au_buyout = rw_buyout r,
                 au_expire = int (unat (rw_expire r)), au_bidder = rw_bidder r, au_deposit = rw_deposit r, au_etime = junk,
                 au_he = he\<rparr>)"

definition load_auction :: "ah_env \<Rightarrow> u32 \<Rightarrow> auction_row \<Rightarrow> auction_world \<Rightarrow> auction_world" where
  "load_auction env junk r w =
     (case load_auction_row env junk w r of
        None \<Rightarrow> ah_emit [DbDelAuction (rw_id r)] w
      | Some a \<Rightarrow> add_auction (get_auctions_map_by_house env (au_house a)) a w)"

definition load_auctions :: "ah_env \<Rightarrow> u32 \<Rightarrow> auction_row list \<Rightarrow> auction_world \<Rightarrow> auction_world" where
  "load_auctions env junk rs = fold (load_auction env junk) rs"

end
