(* ===== verification/AuctionBook.thy ===== *)
theory AuctionBook
  imports AuctionHouse "HOL-Library.Multiset"
begin

text \<open>
  The book of the auction house: which auctions stand in it in every run, and where the money is.
\<close>

section \<open>What the operations leave alone\<close>

lemma ah_emit_simps [simp]:
  "aw_houses (ah_emit os w) = aw_houses w" "aw_items (ah_emit os w) = aw_items w"
  "aw_pending (ah_emit os w) = aw_pending w" "aw_players (ah_emit os w) = aw_players w"
  "aw_mails (ah_emit os w) = aw_mails w" "aw_next_auction (ah_emit os w) = aw_next_auction w"
  "aw_next_item (ah_emit os w) = aw_next_item w"
  by (simp_all add: ah_emit_def)

lemma command_result_simps [simp]:
  "aw_houses (command_result g i c e w) = aw_houses w" "aw_items (command_result g i c e w) = aw_items w"
  "aw_pending (command_result g i c e w) = aw_pending w" "aw_players (command_result g i c e w) = aw_players w"
  "aw_mails (command_result g i c e w) = aw_mails w" "aw_next_auction (command_result g i c e w) = aw_next_auction w"
  by (simp_all add: command_result_def)

lemma upd_player_simps [simp]:
  "aw_houses (upd_player g f w) = aw_houses w" "aw_items (upd_player g f w) = aw_items w"
  "aw_pending (upd_player g f w) = aw_pending w" "aw_mails (upd_player g f w) = aw_mails w"
  "aw_next_auction (upd_player g f w) = aw_next_auction w" "aw_players (upd_player g f w) = om_upd g f (aw_players w)"
  by (simp_all add: upd_player_def)

lemma upd_house_simps [simp]:
  "aw_items (upd_house s f w) = aw_items w" "aw_pending (upd_house s f w) = aw_pending w"
  "aw_players (upd_house s f w) = aw_players w" "aw_mails (upd_house s f w) = aw_mails w"
  "aw_next_auction (upd_house s f w) = aw_next_auction w"
  "aw_houses (upd_house s f w) = (aw_houses w)(s := f (aw_houses w s))"
  by (simp_all add: upd_house_def)

lemma send_mail_simps [simp]:
  "aw_houses (send_mail a r b m i t d w) = aw_houses w" "aw_items (send_mail a r b m i t d w) = aw_items w"
  "aw_pending (send_mail a r b m i t d w) = aw_pending w" "aw_players (send_mail a r b m i t d w) = aw_players w"
  "aw_next_auction (send_mail a r b m i t d w) = aw_next_auction w"
  by (simp_all add: send_mail_def)

lemma remove_a_item_simps [simp]:
  "aw_houses (remove_a_item i d w) = aw_houses w" "aw_items (remove_a_item i d w) = (aw_items w)(i := None)"
  "aw_pending (remove_a_item i d w) = aw_pending w" "aw_players (remove_a_item i d w) = aw_players w"
  "aw_mails (remove_a_item i d w) = aw_mails w" "aw_next_auction (remove_a_item i d w) = aw_next_auction w"
  by (auto simp: remove_a_item_def Let_def split: option.split)

section \<open>Money\<close>

definition players_money :: "auction_world \<Rightarrow> nat" where
  "players_money w = om_sum (\<lambda>_ p. unat (ap_money p)) (aw_players w)"

definition mails_money :: "auction_world \<Rightarrow> nat" where
  "mails_money w = sum_list (map (\<lambda>m. unat (ml_money m)) (aw_mails w))"

lemma mails_money_cong: "aw_mails w' = aw_mails w \<Longrightarrow> mails_money w' = mails_money w"
  by (simp add: mails_money_def)

lemma mails_money_send [simp]: "mails_money (send_mail a r b m i t d w) = mails_money w + unat m"
  by (simp add: mails_money_def send_mail_def)

lemma mails_money_simps [simp]:
  "mails_money (ah_emit os w) = mails_money w" "mails_money (command_result g i c e w) = mails_money w"
  "mails_money (upd_player g f w) = mails_money w" "mails_money (upd_house s h w) = mails_money w"
  "mails_money (remove_a_item j dl w) = mails_money w"
  by (simp_all add: mails_money_def)

lemma money_of_eq: "map_of (aw_players w) g = Some p \<Longrightarrow> money_of w g = ap_money p"
  by (simp add: money_of_def)

definition purses_ok :: "auction_world \<Rightarrow> bool" where
  "purses_ok w \<longleftrightarrow> om_inv (aw_players w)
     \<and> (\<forall>g p. map_of (aw_players w) g = Some p \<longrightarrow> g \<noteq> 0 \<and> ap_money p \<le> MAX_MONEY_AMOUNT)"

lemma purses_okD: "purses_ok w \<Longrightarrow> map_of (aw_players w) g = Some p \<Longrightarrow> g \<noteq> 0 \<and> ap_money p \<le> MAX_MONEY_AMOUNT"
  unfolding purses_ok_def by blast

lemma om_upd_cong: "om_inv m \<Longrightarrow> map_of m k = Some v \<Longrightarrow> f v = h v \<Longrightarrow> om_upd k f m = om_upd k h m"
  by (rule om_ext) (auto simp: fun_eq_iff)

lemma om_upd_same: "om_inv m \<Longrightarrow> map_of m k = Some v \<Longrightarrow> f v = v \<Longrightarrow> om_upd k f m = m"
  by (rule om_ext) (auto simp: fun_eq_iff)

lemma max_money_half: "x \<le> MAX_MONEY_AMOUNT \<Longrightarrow> unat x < 2 ^ 31"
  by (simp add: MAX_MONEY_AMOUNT_def word_le_nat_alt)

lemma neg_i32_small: "x \<le> MAX_MONEY_AMOUNT \<Longrightarrow> neg_i32 x = - int (unat x)"
proof -
  assume x: "x \<le> MAX_MONEY_AMOUNT"
  have lt: "uint x < 2 ^ 31"
  proof -
    have "int (unat x) < int (2 ^ 31)" using max_money_half [OF x] by (simp only: of_nat_less_iff)
    then show ?thesis by simp
  qed
  moreover have ge: "0 \<le> uint x" by simp
  ultimately have "- (2 ^ 31) \<le> uint x" "uint x < 2 ^ 31" "- (2 ^ 31) \<le> - uint x" "- uint x < 2 ^ 31" by linarith+
  then have t: "signed_take_bit 31 (uint x) = uint x" "signed_take_bit 31 (- uint x) = - uint x"
    by (simp_all only: signed_take_bit_int_eq_self)
  then have "sint x = uint x" by (simp add: sint_uint)
  then have "sint (- x) = - uint x"
    using t(2) by (simp add: sint_word_minus word_size)
  then show ?thesis by (simp add: neg_i32_def)
qed

text \<open>Paying an amount one has.\<close>

lemma modify_money_pay:
  assumes "purses_ok w" "map_of (aw_players w) g = Some p" "x \<le> ap_money p"
  shows "modify_money g (neg_i32 x) w = upd_player g (\<lambda>p. p\<lparr>ap_money := ap_money p - x\<rparr>) w"
proof -
  have inv: "om_inv (aw_players w)" using assms(1) by (simp add: purses_ok_def)
  have xm: "x \<le> MAX_MONEY_AMOUNT" using assms(3) purses_okD [OF assms(1,2)] order_trans by blast
  have n: "neg_i32 x = - int (unat x)" by (rule neg_i32_small [OF xm])
  note m = money_of_eq [OF assms(2)]
  show ?thesis
  proof (cases "x = 0")
    case True
    then have "om_upd g (\<lambda>p. p\<lparr>ap_money := ap_money p - x\<rparr>) (aw_players w) = aw_players w"
      by (intro om_upd_same [OF inv assms(2)]) simp
    then show ?thesis using True n by (simp add: modify_money_def upd_player_def)
  next
    case False
    then have "0 < unat x" by (simp add: unat_gt_0)
    then have neg: "neg_i32 x < 0" using n by linarith
    have "om_upd g (\<lambda>q. q\<lparr>ap_money := if word_of_int (- neg_i32 x) < ap_money p then ap_money p + word_of_int (neg_i32 x) else 0\<rparr>) (aw_players w)
        = om_upd g (\<lambda>p. p\<lparr>ap_money := ap_money p - x\<rparr>) (aw_players w)"
      using assms(3) by (intro om_upd_cong [OF inv assms(2)]) (auto simp: n)
    then show ?thesis using neg m by (simp add: modify_money_def upd_player_def)
  qed
qed

lemma players_money_pay:
  assumes "purses_ok w" "map_of (aw_players w) g = Some p" "x \<le> ap_money p"
  shows "players_money (upd_player g (\<lambda>p. p\<lparr>ap_money := ap_money p - x\<rparr>) w) + unat x = players_money w"
proof -
  have inv: "om_inv (aw_players w)" using assms(1) by (simp add: purses_ok_def)
  have "unat (ap_money p - x) + unat x = unat (ap_money p)"
    using assms(3) by (simp add: unat_sub word_le_nat_alt)
  then show ?thesis
    using om_sum_upd [OF inv assms(2), of "\<lambda>_ p. unat (ap_money p)" "\<lambda>p. p\<lparr>ap_money := ap_money p - x\<rparr>"]
    by (simp add: players_money_def)
qed

lemma purses_ok_pay:
  assumes "purses_ok w" "map_of (aw_players w) g = Some p" "x \<le> ap_money p"
  shows "purses_ok (upd_player g (\<lambda>p. p\<lparr>ap_money := ap_money p - x\<rparr>) w)"
proof -
  have "ap_money p - x \<le> MAX_MONEY_AMOUNT"
    using assms(3) purses_okD [OF assms(1,2)] by (meson order_trans word_sub_le)
  then show ?thesis using assms(1,2) by (auto simp: purses_ok_def)
qed

lemma players_money_keep:
  assumes "om_inv (aw_players w)" "\<And>p. ap_money (f p) = ap_money p"
  shows "players_money (upd_player g f w) = players_money w"
proof (cases "map_of (aw_players w) g")
  case None
  then have "om_upd g f (aw_players w) = aw_players w"
    using assms(1) by (intro om_ext) (auto simp: fun_eq_iff)
  then show ?thesis by (simp add: players_money_def)
next
  case (Some p)
  then show ?thesis
    using om_sum_upd [OF assms(1) Some, of "\<lambda>_ p. unat (ap_money p)" f] assms(2) by (simp add: players_money_def)
qed

lemma purses_ok_keep:
  assumes "purses_ok w" "\<And>p. ap_money (f p) = ap_money p"
  shows "purses_ok (upd_player g f w)"
  using assms by (auto simp: purses_ok_def)

section \<open>The book\<close>

definition book :: "auction_world \<Rightarrow> ah_side \<Rightarrow> (u32, auction) omap" where
  "book w s = ah_auctions (aw_houses w s)"

lemma get_auction_book: "get_auction w s i = map_of (book w s) i"
  by (simp add: get_auction_def book_def)

definition pending_refs :: "auction_world \<Rightarrow> (ah_side \<times> u32) list" where
  "pending_refs w = concat (map (\<lambda>p. fst (snd p)) (aw_pending w))"

text \<open>What holds of an auction while it stands in the book.\<close>

definition bid_ok :: "auction \<Rightarrow> bool" where
  "bid_ok a \<longleftrightarrow>
     (au_bidder a = 0 \<longleftrightarrow> au_bid a = 0)
     \<and> (au_bidder a \<noteq> 0 \<longrightarrow> au_startbid a \<le> au_bid a \<and> au_bidder a \<noteq> au_owner a)
     \<and> (au_buyout a \<noteq> 0 \<longrightarrow> au_bid a < au_buyout a)
     \<and> au_bid a \<le> MAX_MONEY_AMOUNT \<and> au_buyout a \<le> MAX_MONEY_AMOUNT"

definition cut_ok :: "auction \<Rightarrow> bool" where
  "cut_ok a \<longleftrightarrow> he_cut (au_he a) \<le> 90"

definition houses_ok :: "auction_world \<Rightarrow> bool" where
  "houses_ok w \<longleftrightarrow> (\<forall>s. om_inv (book w s)
     \<and> (\<forall>i a. map_of (book w s) i = Some a \<longrightarrow> au_id a = i \<and> i < aw_next_auction w \<and> bid_ok a \<and> cut_ok a))"

definition items_ok :: "auction_world \<Rightarrow> bool" where
  "items_ok w \<longleftrightarrow>
     (\<forall>s i a. map_of (book w s) i = Some a \<longrightarrow> (\<exists>it. aw_items w (au_item a) = Some it \<and> it_guid it = au_item a))
     \<and> (\<forall>s i a s' i' a'. map_of (book w s) i = Some a \<and> map_of (book w s') i' = Some a' \<and> au_item a = au_item a'
          \<longrightarrow> s = s' \<and> i = i')
     \<and> (\<forall>g. aw_items w g \<noteq> None \<longrightarrow> (\<exists>s i a. map_of (book w s) i = Some a \<and> au_item a = g))"

definition pend_ok :: "auction_world \<Rightarrow> bool" where
  "pend_ok w \<longleftrightarrow> om_inv (aw_pending w) \<and> distinct (pending_refs w)
     \<and> (\<forall>r \<in> set (pending_refs w). snd r < aw_next_auction w)"

definition book_ok :: "auction_world \<Rightarrow> bool" where
  "book_ok w \<longleftrightarrow> purses_ok w \<and> houses_ok w \<and> items_ok w \<and> pend_ok w"

lemma houses_okD:
  "houses_ok w \<Longrightarrow> om_inv (book w s)"
  "houses_ok w \<Longrightarrow> map_of (book w s) i = Some a \<Longrightarrow> au_id a = i \<and> i < aw_next_auction w \<and> bid_ok a \<and> cut_ok a"
  unfolding houses_ok_def by blast+

lemma items_okD:
  "items_ok w \<Longrightarrow> map_of (book w s) i = Some a \<Longrightarrow> \<exists>it. aw_items w (au_item a) = Some it \<and> it_guid it = au_item a"
  "items_ok w \<Longrightarrow> map_of (book w s) i = Some a \<Longrightarrow> map_of (book w s') i' = Some a' \<Longrightarrow> au_item a = au_item a' \<Longrightarrow> s = s' \<and> i = i'"
  "items_ok w \<Longrightarrow> aw_items w g \<noteq> None \<Longrightarrow> \<exists>s i a. map_of (book w s) i = Some a \<and> au_item a = g"
  unfolding items_ok_def by blast+

lemma book_okD:
  "book_ok w \<Longrightarrow> purses_ok w" "book_ok w \<Longrightarrow> houses_ok w" "book_ok w \<Longrightarrow> items_ok w" "book_ok w \<Longrightarrow> pend_ok w"
  by (simp_all add: book_ok_def)

text \<open>What book, items and deposits depend on.\<close>

definition book_view :: "auction_world \<Rightarrow> (ah_side \<Rightarrow> (u32, auction) omap) \<times> (u32 \<Rightarrow> ah_item option) \<times> (u32, (ah_side \<times> u32) list \<times> u32) omap \<times> u32" where
  "book_view w = (book w, aw_items w, aw_pending w, aw_next_auction w)"

lemma book_view_eqD:
  "book_view w' = book_view w \<Longrightarrow> book w' = book w \<and> aw_items w' = aw_items w \<and> aw_pending w' = aw_pending w \<and> aw_next_auction w' = aw_next_auction w"
  by (simp add: book_view_def)

lemma book_ok_view:
  assumes "book_ok w" "book_view w' = book_view w" "purses_ok w'"
  shows "book_ok w'"
proof -
  have v: "book w' = book w" "aw_items w' = aw_items w" "aw_pending w' = aw_pending w" "aw_next_auction w' = aw_next_auction w"
    using book_view_eqD [OF assms(2)] by blast+
  have "houses_ok w'" using book_okD(2) [OF assms(1)] unfolding houses_ok_def v .
  moreover have "items_ok w'" using book_okD(3) [OF assms(1)] unfolding items_ok_def v .
  moreover have "pend_ok w'" using book_okD(4) [OF assms(1)] unfolding pend_ok_def pending_refs_def v .
  ultimately show ?thesis using assms(3) by (simp add: book_ok_def)
qed

named_theorems book_views

lemma book_view_emit [book_views]: "book_view (ah_emit os w) = book_view w"
  by (simp add: book_view_def book_def fun_eq_iff)

lemma book_view_result [book_views]: "book_view (command_result g i c e w) = book_view w"
  by (simp add: book_view_def book_def fun_eq_iff)

lemma book_view_player [book_views]: "book_view (upd_player g f w) = book_view w"
  by (simp add: book_view_def book_def fun_eq_iff)

lemma book_view_mail [book_views]: "book_view (send_mail a r b m i t d w) = book_view w"
  by (simp add: book_view_def book_def fun_eq_iff)

lemma book_view_money [book_views]: "book_view (modify_money g x w) = book_view w"
  by (simp add: modify_money_def Let_def book_views)

lemma book_view_unfeign [book_views]: "book_view (unfeign g w) = book_view w"
  by (simp add: unfeign_def book_views split: option.split)

lemma book_view_throttle [book_views]: "book_view (upd_house s (\<lambda>h. h\<lparr>ah_throttle := f h\<rparr>) w) = book_view w"
  by (auto simp: book_view_def book_def fun_eq_iff)

lemma purses_ok_cong: "aw_players w' = aw_players w \<Longrightarrow> purses_ok w' = purses_ok w"
  by (simp add: purses_ok_def)

lemma purses_ok_unfeign: "purses_ok w \<Longrightarrow> purses_ok (unfeign g w)"
  using purses_ok_keep [of w "\<lambda>p. p\<lparr>ap_feigning := False\<rparr>" g]
  by (simp add: unfeign_def purses_ok_cong [of "ah_emit os v" v for os v] split: option.split)

lemma book_ok_unfeign: "book_ok w \<Longrightarrow> book_ok (unfeign g w)"
  by (rule book_ok_view) (auto simp: book_views purses_ok_unfeign book_okD)

lemma book_ok_same_players: "book_ok w \<Longrightarrow> book_view w' = book_view w \<Longrightarrow> aw_players w' = aw_players w \<Longrightarrow> book_ok w'"
  by (rule book_ok_view) (auto simp: purses_ok_cong [of w' w] book_okD)

text \<open>Taking an auction off the book together with its item.\<close>

lemma book_remove: "book (remove_auction s a w) = (book w)(s := om_del (au_id a) (book w s))"
  by (auto simp: remove_auction_def book_def fun_eq_iff)

lemma book_remove_item: "book (remove_a_item j d w) = book w"
  by (simp add: book_def fun_eq_iff)

lemma book_ok_remove:
  assumes "book_ok w" "map_of (book w s) i = Some a"
    and "book_view w' = book_view (remove_auction s a (remove_a_item (au_item a) d w))" "purses_ok w'"
  shows "book_ok w'"
proof -
  have id: "au_id a = i" using houses_okD(2) [OF book_okD(2) [OF assms(1)] assms(2)] by simp
  have v: "book w' = (book w)(s := om_del i (book w s))" "aw_items w' = (aw_items w)(au_item a := None)"
    "aw_pending w' = aw_pending w" "aw_next_auction w' = aw_next_auction w"
    using book_view_eqD [OF assms(3)] by (simp_all add: book_remove id book_remove_item) (simp_all add: remove_auction_def)
  have sub: "map_of (book w s') i' = Some a' \<and> (s', i') \<noteq> (s, i)" if "map_of (book w' s') i' = Some a'" for s' i' a'
    using that v(1) houses_okD(1) [OF book_okD(2) [OF assms(1)]] by (auto split: if_splits)
  have sup: "map_of (book w' s') i' = Some a'" if "map_of (book w s') i' = Some a'" "(s', i') \<noteq> (s, i)" for s' i' a'
    using that v(1) by auto
  note hok = book_okD(2) [OF assms(1)] and iok = book_okD(3) [OF assms(1)]
  have "houses_ok w'"
    unfolding houses_ok_def
  proof (intro allI conjI impI)
    fix s' show "om_inv (book w' s')" using houses_okD(1) [OF hok] v(1) by simp
    fix i' a' assume "map_of (book w' s') i' = Some a'"
    then have "map_of (book w s') i' = Some a'" using sub by blast
    then show "au_id a' = i'" "i' < aw_next_auction w'" "bid_ok a'" "cut_ok a'"
      using houses_okD(2) [OF hok] v(4) by auto
  qed
  moreover have "items_ok w'"
    unfolding items_ok_def
  proof (intro conjI allI impI)
    fix s' i' a' assume g: "map_of (book w' s') i' = Some a'"
    then have "au_item a' \<noteq> au_item a" using sub [OF g] items_okD(2) [OF iok _ assms(2)] by blast
    then show "\<exists>it. aw_items w' (au_item a') = Some it \<and> it_guid it = au_item a'"
      using items_okD(1) [OF iok conjunct1 [OF sub [OF g]]] v(2) by simp
  next
    fix s1 i1 a1 s2 i2 a2
    assume "map_of (book w' s1) i1 = Some a1 \<and> map_of (book w' s2) i2 = Some a2 \<and> au_item a1 = au_item a2"
    then have "map_of (book w s1) i1 = Some a1" "map_of (book w s2) i2 = Some a2" "au_item a1 = au_item a2" using sub by blast+
    then show "s1 = s2" "i1 = i2" using items_okD(2) [OF iok] by blast+
  next
    fix g assume g: "aw_items w' g \<noteq> None"
    then have "aw_items w g \<noteq> None" "g \<noteq> au_item a" using v(2) by (auto split: if_splits)
    then obtain s' i' a' where "map_of (book w s') i' = Some a'" "au_item a' = g" using items_okD(3) [OF iok] by blast
    moreover from this have "(s', i') \<noteq> (s, i)" using assms(2) \<open>g \<noteq> au_item a\<close> by auto
    ultimately show "\<exists>s i a. map_of (book w' s) i = Some a \<and> au_item a = g" using sup by blast
  qed
  moreover have "pend_ok w'" using book_okD(4) [OF assms(1)] unfolding pend_ok_def pending_refs_def v .
  ultimately show ?thesis using assms(4) by (simp add: book_ok_def)
qed

text \<open>Changing an auction that stays on the book.\<close>

lemma book_upd: "book (upd_auction s i f w) = (book w)(s := om_upd i f (book w s))"
  by (auto simp: upd_auction_def book_def fun_eq_iff)

lemma book_ok_upd:
  assumes "book_ok w" "map_of (book w s) i = Some a"
    and "au_id (f a) = i" "au_item (f a) = au_item a" "bid_ok (f a)" "cut_ok (f a)"
    and "book_view w' = book_view (upd_auction s i f w)" "purses_ok w'"
  shows "book_ok w'"
proof -
  have v: "book w' = (book w)(s := om_upd i f (book w s))" "aw_items w' = aw_items w"
    "aw_pending w' = aw_pending w" "aw_next_auction w' = aw_next_auction w"
    using book_view_eqD [OF assms(7)] by (simp_all add: book_upd) (simp_all add: upd_auction_def)
  note hok = book_okD(2) [OF assms(1)] and iok = book_okD(3) [OF assms(1)]
  have get: "map_of (book w' s') i' = (if (s', i') = (s, i) then Some (f a) else map_of (book w s') i')" for s' i'
    using v(1) assms(2) by simp
  have item: "(\<exists>a'. map_of (book w' s') i' = Some a' \<and> P (au_item a')) \<longleftrightarrow> (\<exists>a'. map_of (book w s') i' = Some a' \<and> P (au_item a'))" for s' i' P
    using assms(2,4) by (auto simp: get)
  have "houses_ok w'"
    unfolding houses_ok_def
  proof (intro allI conjI impI)
    fix s' show "om_inv (book w' s')" using houses_okD(1) [OF hok] v(1) by simp
    fix i' a' assume "map_of (book w' s') i' = Some a'"
    then show "au_id a' = i'" "i' < aw_next_auction w'" "bid_ok a'" "cut_ok a'"
      using houses_okD(2) [OF hok] assms(2,3,5,6) v(4) by (auto simp: get split: if_splits)
  qed
  moreover have "items_ok w'"
    unfolding items_ok_def
  proof (intro conjI allI impI)
    fix s' i' a' assume "map_of (book w' s') i' = Some a'"
    then obtain b where "map_of (book w s') i' = Some b" "au_item b = au_item a'"
      using item [of s' i' "\<lambda>x. x = au_item a'"] by blast
    then show "\<exists>it. aw_items w' (au_item a') = Some it \<and> it_guid it = au_item a'"
      using items_okD(1) [OF iok] v(2) by force
  next
    fix s1 i1 a1 s2 i2 a2
    assume "map_of (book w' s1) i1 = Some a1 \<and> map_of (book w' s2) i2 = Some a2 \<and> au_item a1 = au_item a2"
    then obtain b1 b2 where "map_of (book w s1) i1 = Some b1" "map_of (book w s2) i2 = Some b2" "au_item b1 = au_item b2"
      using item [of s1 i1 "\<lambda>x. x = au_item a1"] item [of s2 i2 "\<lambda>x. x = au_item a1"] by metis
    then show "s1 = s2" "i1 = i2" using items_okD(2) [OF iok] by blast+
  next
    fix g assume "aw_items w' g \<noteq> None"
    then obtain s' i' a' where "map_of (book w s') i' = Some a'" "au_item a' = g" using items_okD(3) [OF iok] v(2) by metis
    then show "\<exists>s i a. map_of (book w' s) i = Some a \<and> au_item a = g" using item [of s' i' "\<lambda>x. x = g"] by blast
  qed
  moreover have "pend_ok w'" using book_okD(4) [OF assms(1)] unfolding pend_ok_def pending_refs_def v .
  ultimately show ?thesis using assms(8) by (simp add: book_ok_def)
qed

text \<open>A new auction, whose deposit is charged later.\<close>

lemma book_add: "book (add_auction s a w) = (book w)(s := om_set (au_id a) a (book w s))"
  by (auto simp: add_auction_def book_def fun_eq_iff)

lemma pending_refs_add:
  assumes "om_inv (aw_pending w)"
  shows "set (pending_refs (pending_auction_add g r w)) = insert r (set (pending_refs w))"
    and "distinct (pending_refs w) \<Longrightarrow> r \<notin> set (pending_refs w) \<Longrightarrow> distinct (pending_refs (pending_auction_add g r w))"
proof -
  let ?cat = "\<lambda>m :: (u32, (ah_side \<times> u32) list \<times> u32) omap. concat (map (\<lambda>p. fst (snd p)) m)"
  have fresh: "mset (?cat (om_set g ([r], 0) m)) = add_mset r (mset (?cat m))" if "map_of m g = None" for m
    using that by (induction g "([r], 0 :: u32)" m rule: om_set.induct) (auto split: if_splits)
  have old: "mset (?cat (om_set g (rs @ [r], n) m)) = add_mset r (mset (?cat m))" if "map_of m g = Some (rs, n)" "om_inv m" for m rs n
    using that
  proof (induction g "(rs @ [r], n)" m rule: om_set.induct)
    case (2 k a b m)
    then show ?case by (auto simp: om_inv_Cons dest: map_of_SomeD split: if_splits) (force dest: map_of_SomeD)+
  qed simp
  have m: "mset (pending_refs (pending_auction_add g r w)) = add_mset r (mset (pending_refs w))"
    using fresh old assms by (auto simp: pending_refs_def pending_auction_add_def split: option.splits)
  show "set (pending_refs (pending_auction_add g r w)) = insert r (set (pending_refs w))"
    using arg_cong [OF m, of set_mset] by simp
  show "distinct (pending_refs w) \<Longrightarrow> r \<notin> set (pending_refs w) \<Longrightarrow> distinct (pending_refs (pending_auction_add g r w))"
    using m by (metis distinct.simps(2) mset.simps(2) mset_eq_imp_distinct_iff)
qed

lemma next_auction_lt: "n < (0xFFFFFFFE :: u32) \<Longrightarrow> n < n + 1 \<and> (\<forall>i. i < n \<longrightarrow> i < n + 1)"
proof -
  assume "n < 0xFFFFFFFE"
  then have "unat (n + 1) = Suc (unat n)"
    by (simp add: unat_word_ariths word_less_nat_alt)
  then show ?thesis by (simp add: word_less_nat_alt)
qed

lemma book_ok_add:
  assumes "book_ok w" "aw_next_auction w < 0xFFFFFFFE" "aw_items w (it_guid it) = None"
    and a: "au_id a = aw_next_auction w" "au_item a = it_guid it" "bid_ok a" "cut_ok a"
    and v: "book w' = (book w)(s := om_set (au_id a) a (book w s))" "aw_items w' = (aw_items w)(it_guid it \<mapsto> it)"
      "aw_pending w' = aw_pending (pending_auction_add g (s, au_id a) w)" "aw_next_auction w' = aw_next_auction w + 1"
    and "purses_ok w'"
  shows "book_ok w'"
proof -
  note hok = book_okD(2) [OF assms(1)] and iok = book_okD(3) [OF assms(1)] and pok = book_okD(4) [OF assms(1)]
  note nx = next_auction_lt [OF assms(2)]
  let ?n = "aw_next_auction w"
  have get: "map_of (book w' s') i' = (if (s', i') = (s, ?n) then Some a else map_of (book w s') i')" for s' i'
    using v(1) a(1) by auto
  have other: "map_of (book w s') ?n = None" for s'
    using houses_okD(2) [OF hok, of s' ?n] by (cases "map_of (book w s') ?n") auto
  have new_item: "au_item b \<noteq> it_guid it" if "map_of (book w s') i' = Some b" for s' i' b
    using items_okD(1) [OF iok that] assms(3) by auto
  have "houses_ok w'"
    unfolding houses_ok_def
  proof (intro allI conjI impI)
    fix s' show "om_inv (book w' s')" using houses_okD(1) [OF hok] v(1) by simp
    fix i' a' assume "map_of (book w' s') i' = Some a'"
    then show "au_id a' = i'" "i' < aw_next_auction w'" "bid_ok a'" "cut_ok a'"
      using houses_okD(2) [OF hok] a v(4) nx by (auto simp: get split: if_splits)
  qed
  moreover have "items_ok w'"
    unfolding items_ok_def
  proof (intro conjI allI impI)
    fix s' i' a' assume "map_of (book w' s') i' = Some a'"
    then show "\<exists>it. aw_items w' (au_item a') = Some it \<and> it_guid it = au_item a'"
      using items_okD(1) [OF iok] v(2) a(2) by (fastforce simp: get split: if_splits)
  next
    fix s1 i1 a1 s2 i2 a2
    assume *: "map_of (book w' s1) i1 = Some a1 \<and> map_of (book w' s2) i2 = Some a2 \<and> au_item a1 = au_item a2"
    have "(s1, i1) = (s2, i2)"
    proof (cases "(s1, i1) = (s, ?n) \<or> (s2, i2) = (s, ?n)")
      case True
      then show ?thesis using * a(2) new_item by (auto simp: get split: if_splits)
    next
      case False
      then show ?thesis using * items_okD(2) [OF iok] by (auto simp: get split: if_splits)
    qed
    then show "s1 = s2" "i1 = i2" by simp_all
  next
    fix g assume g: "aw_items w' g \<noteq> None"
    show "\<exists>s i a. map_of (book w' s) i = Some a \<and> au_item a = g"
    proof (cases "g = it_guid it")
      case True
      then show ?thesis using a(2) by (intro exI [of _ s] exI [of _ ?n] exI [of _ a]) (simp add: get)
    next
      case False
      then obtain s' i' a' where "map_of (book w s') i' = Some a'" "au_item a' = g"
        using items_okD(3) [OF iok, of g] g v(2) by auto
      then show ?thesis using other by (intro exI [of _ s'] exI [of _ i'] exI [of _ a']) (auto simp: get)
    qed
  qed
  moreover have "pend_ok w'"
  proof -
    have inv: "om_inv (aw_pending w)" using pok by (simp add: pend_ok_def)
    have refs: "pending_refs w' = pending_refs (pending_auction_add g (s, au_id a) w)"
      by (simp add: pending_refs_def v(3))
    have "om_inv (aw_pending w')"
      using inv by (simp add: v(3) pending_auction_add_def split: option.split)
    moreover have "(s, au_id a) \<notin> set (pending_refs w)"
      using pok a(1) by (auto simp: pend_ok_def)
    then have "distinct (pending_refs w')"
      using pending_refs_add(2) [OF inv] pok by (simp add: refs pend_ok_def)
    moreover have "\<forall>r \<in> set (pending_refs w'). snd r < aw_next_auction w'"
      using pending_refs_add(1) [OF inv] pok nx a(1) v(4) by (auto simp: refs pend_ok_def)
    ultimately show ?thesis by (simp add: pend_ok_def)
  qed
  ultimately show ?thesis using assms(12) by (simp add: book_ok_def)
qed

section \<open>The cut never exceeds the bid\<close>

definition rates_ok :: "ah_env \<Rightarrow> bool" where
  "rates_ok env \<longleftrightarrow> 0 \<le> ev_rate_cut env \<and> ev_rate_cut env \<le> 1"

lemma unat_word_of_int_le: "0 \<le> t \<Longrightarrow> int (unat (word_of_int t :: u32)) \<le> t"
  by (simp add: uint_word_of_int zmod_le_nonneg_dividend)

lemma u32_of_f32_le:
  assumes "0 \<le> x"
  shows "of_nat (unat (u32_of_f32 x)) \<le> x"
proof -
  have "int (unat (u32_of_f32 x)) \<le> trunc x"
    unfolding u32_of_f32_def by (rule unat_word_of_int_le [OF trunc_nonneg [OF assms]])
  then have "rat_of_int (int (unat (u32_of_f32 x))) \<le> of_int (trunc x)" by (simp only: of_int_le_iff)
  also have "\<dots> \<le> x" by (rule trunc_le [OF assms])
  finally show ?thesis by (simp only: of_int_of_nat_eq)
qed

lemma get_auction_cut_le:
  assumes "rates_ok env" "cut_ok a"
  shows "get_auction_cut env a \<le> au_bid a"
proof -
  define y :: rat where "y = of_nat (unat (au_bid a))"
  define k :: rat where "k = 1 + 1 / 2 ^ 24"
  define c where "c = calculate_pct (au_bid a) (he_cut (au_he a))"
  define x where "x = f32 (f32_of_u32 c * ev_rate_cut env)"
  have y0: "0 \<le> y" unfolding y_def by (rule of_nat_0_le_iff)
  note b = f32_of_u32_bound [of "au_bid a", folded y_def k_def]
  note p = calculate_pct_f_bound [of "f32_of_u32 (au_bid a)" y 1 "he_cut (au_he a)", folded k_def, OF b y0]
  have pct: "of_nat (unat (he_cut (au_he a))) \<le> (90 :: rat)"
  proof -
    have "unat (he_cut (au_he a)) \<le> 90" using assms(2) by (simp add: cut_ok_def word_le_nat_alt)
    then have "rat_of_nat (unat (he_cut (au_he a))) \<le> rat_of_nat 90" by (simp only: of_nat_le_iff)
    then show ?thesis by simp
  qed
  have c: "of_nat (unat c) \<le> y * of_nat (unat (he_cut (au_he a))) / 100 * k ^ 4"
    using u32_of_f32_le [OF p(1)] p(2) unfolding c_def calculate_pct_def by simp
  have k0: "0 \<le> k" by (simp add: k_def)
  have "y * of_nat (unat (he_cut (au_he a))) / 100 * k ^ 4 \<le> y * 90 / 100 * k ^ 4"
    using pct y0 k0 by (intro mult_right_mono divide_right_mono mult_left_mono) simp_all
  with c have c': "of_nat (unat c) \<le> y * 90 / 100 * k ^ 4" by linarith
  note f = f32_of_u32_bound [of c, folded k_def]
  have "f32_of_u32 c * ev_rate_cut env \<le> f32_of_u32 c * 1"
    using f(1) assms(1) by (intro mult_left_mono) (simp_all add: rates_ok_def)
  also have "\<dots> \<le> (y * 90 / 100 * k ^ 4) * k"
    using f(2) mult_right_mono [OF c' k0] by simp
  finally have r: "f32_of_u32 c * ev_rate_cut env \<le> (y * 90 / 100 * k ^ 4) * k" .
  have r0: "0 \<le> f32_of_u32 c * ev_rate_cut env"
    using f(1) assms(1) by (simp add: rates_ok_def)
  have "x \<le> (y * 90 / 100 * k ^ 4) * k * k"
    unfolding x_def using f32_mono_bound [OF r0 r] by (simp add: k_def)
  also have "\<dots> = y * (90 / 100 * k ^ 6)" by (simp add: power_numeral_reduce)
  also have "\<dots> \<le> y * 1"
    using y0 by (intro mult_left_mono) (simp_all add: k_def power_divide)
  finally have xy: "x \<le> y" by simp
  have x0: "0 \<le> x" unfolding x_def by (rule f32_nonneg [OF r0])
  have "of_int (trunc x) \<le> y" using trunc_le [OF x0] xy by linarith
  then have t: "trunc x \<le> int (unat (au_bid a))"
    unfolding y_def by (metis of_int_le_iff of_int_of_nat_eq)
  have m: "0 \<le> max (i32_of_f32 x) 0" "max (i32_of_f32 x) 0 \<le> int (unat (au_bid a))"
  proof -
    have nn: "0 \<le> int (unat (au_bid a))" by (rule of_nat_0_le_iff)
    have "i32_of_f32 x = trunc x \<or> i32_of_f32 x = - (2 ^ 31)" by (simp add: i32_of_f32_def Let_def)
    then have "i32_of_f32 x \<le> int (unat (au_bid a))" proof
      assume "i32_of_f32 x = - (2 ^ 31)"
      then have "i32_of_f32 x \<le> 0" by simp
      then show ?thesis using nn by linarith
    qed (use t in simp)
    then show "max (i32_of_f32 x) 0 \<le> int (unat (au_bid a))" using nn by (simp only: max.bounded_iff)
  qed simp
  have "int (unat (word_of_int (max (i32_of_f32 x) 0) :: u32)) \<le> int (unat (au_bid a))"
    using unat_word_of_int_le [OF m(1)] m(2) by linarith
  then show ?thesis
    unfolding word_le_nat_alt get_auction_cut_def Let_def x_def c_def by (simp only: of_nat_le_iff)
qed

lemma auction_profit_le:
  assumes "rates_ok env" "cut_ok a"
  shows "unat (auction_profit env a) \<le> unat (au_bid a) + unat (au_deposit a)"
proof -
  let ?c = "get_auction_cut env a"
  have le: "unat ?c \<le> unat (au_bid a)" using get_auction_cut_le [OF assms] by (simp add: word_le_nat_alt)
  have "auction_profit env a = word_of_nat (unat (au_bid a) + unat (au_deposit a) - unat ?c)"
    using le by (simp add: auction_profit_def of_nat_diff)
  then have "unat (auction_profit env a) \<le> unat (au_bid a) + unat (au_deposit a) - unat ?c"
    by (simp only: unsigned_of_nat of_nat_id take_bit_nat_less_eq_self)
  then show ?thesis by simp
qed

section \<open>Where the money is\<close>

text \<open>
  Of an auction: the bid that is held, and the deposit once it was charged. \<open>R\<close> are the auctions
  whose deposit is still to be charged.
\<close>

definition auction_worth :: "(ah_side \<times> u32) set \<Rightarrow> ah_side \<times> u32 \<Rightarrow> auction \<Rightarrow> nat" where
  "auction_worth R r a =
     (if au_bidder a = 0 then 0 else unat (au_bid a)) + (if r \<in> R then 0 else unat (au_deposit a))"

definition house_worth :: "(ah_side \<times> u32) set \<Rightarrow> ah_side \<Rightarrow> (u32, auction) omap \<Rightarrow> nat" where
  "house_worth R s m = om_sum (\<lambda>i. auction_worth R (s, i)) m"

definition book_worth :: "(ah_side \<times> u32) set \<Rightarrow> auction_world \<Rightarrow> nat" where
  "book_worth R w = (\<Sum>s \<in> {AhHorde, AhAlliance, AhNeutral}. house_worth R s (book w s))"

definition wealth :: "auction_world \<Rightarrow> nat" where
  "wealth w = players_money w + mails_money w + book_worth (set (pending_refs w)) w"

lemma book_worth_side:
  assumes "book w' = (book w)(s := m)"
  shows "book_worth R w' + house_worth R s (book w s) = book_worth R w + house_worth R s m"
  by (cases s) (simp_all add: book_worth_def assms)

lemma book_worth_cong: "book w' = book w \<Longrightarrow> book_worth R w' = book_worth R w"
  by (simp add: book_worth_def)

lemma book_worth_remove:
  assumes "om_inv (book w s)" "map_of (book w s) i = Some a" "book w' = (book w)(s := om_del i (book w s))"
  shows "book_worth R w' + auction_worth R (s, i) a = book_worth R w"
  using book_worth_side [OF assms(3), of R] om_sum_del [OF assms(1,2), of "\<lambda>i. auction_worth R (s, i)"]
  by (simp add: house_worth_def)

lemma book_worth_upd:
  assumes "om_inv (book w s)" "map_of (book w s) i = Some a" "book w' = (book w)(s := om_upd i f (book w s))"
  shows "book_worth R w' + auction_worth R (s, i) a = book_worth R w + auction_worth R (s, i) (f a)"
  using book_worth_side [OF assms(3), of R] om_sum_upd [OF assms(1,2), of "\<lambda>i. auction_worth R (s, i)" f]
  by (simp add: house_worth_def)

lemma book_worth_add:
  assumes "map_of (book w s) i = None" "book w' = (book w)(s := om_set i a (book w s))"
  shows "book_worth R w' = book_worth R w + auction_worth R (s, i) a"
  using book_worth_side [OF assms(2), of R] om_sum_fresh [OF assms(1), of "\<lambda>i. auction_worth R (s, i)" a]
  by (simp add: house_worth_def)

lemma book_worth_mono_refs:
  assumes "\<And>s. om_inv (book w s)" "\<And>s i a. map_of (book w s) i = Some a \<Longrightarrow> (s, i) \<in> R \<longleftrightarrow> (s, i) \<in> R'"
  shows "book_worth R w = book_worth R' w"
proof -
  have "house_worth R s (book w s) = house_worth R' s (book w s)" for s
    unfolding house_worth_def using assms(2) by (intro om_sum_cong [OF _ assms(1)]) (simp add: auction_worth_def)
  then show ?thesis by (simp add: book_worth_def)
qed

text \<open>Mails: what they carry is taken into account when they are sent.\<close>

lemma pending_refs_cong: "aw_pending w' = aw_pending w \<Longrightarrow> pending_refs w' = pending_refs w"
  by (simp add: pending_refs_def)

definition money_view :: "auction_world \<Rightarrow> (ah_side \<Rightarrow> (u32, auction) omap) \<times> (u32, (ah_side \<times> u32) list \<times> u32) omap \<times> (u32, ah_player) omap \<times> u32" where
  "money_view w = (book w, aw_pending w, aw_players w, aw_next_auction w)"

lemma money_view_eqD:
  "money_view w' = money_view w \<Longrightarrow> book w' = book w \<and> aw_pending w' = aw_pending w \<and> aw_players w' = aw_players w \<and> aw_next_auction w' = aw_next_auction w"
  by (simp add: money_view_def)

named_theorems money_views

lemma money_view_emit [money_views]: "money_view (ah_emit os w) = money_view w"
  by (simp add: money_view_def book_def fun_eq_iff)

lemma money_view_result [money_views]: "money_view (command_result g i c e w) = money_view w"
  by (simp add: money_view_def book_def fun_eq_iff)

lemma money_view_mail [money_views]: "money_view (send_mail a r b m i t d w) = money_view w"
  by (simp add: money_view_def book_def fun_eq_iff)

lemma money_view_item [money_views]: "money_view (remove_a_item j d w) = money_view w"
  by (simp add: money_view_def book_def fun_eq_iff)

lemma money_view_won [money_views]: "money_view (send_auction_won_mail a w) = money_view w"
  by (simp add: send_auction_won_mail_def Let_def money_views split: option.split)

lemma money_view_sale_pending [money_views]: "money_view (send_auction_sale_pending_mail env a w) = money_view w"
  by (simp add: send_auction_sale_pending_mail_def money_views)

lemma money_view_successful [money_views]: "money_view (send_auction_successful_mail env a w) = money_view w"
  by (simp add: send_auction_successful_mail_def Let_def money_views)

lemma money_view_expired [money_views]: "money_view (send_auction_expired_mail a w) = money_view w"
  by (simp add: send_auction_expired_mail_def money_views split: option.split)

lemma money_view_outbidded [money_views]: "money_view (send_auction_outbidded_mail env a x g w) = money_view w"
  by (simp add: send_auction_outbidded_mail_def money_views)

lemma money_view_cancelled [money_views]: "money_view (send_auction_cancelled_to_bidder_mail a w) = money_view w"
  by (simp add: send_auction_cancelled_to_bidder_mail_def money_views)

lemma mails_won [simp]: "mails_money (send_auction_won_mail a w) = mails_money w"
  by (simp add: send_auction_won_mail_def Let_def split: option.split)

lemma mails_sale_pending [simp]: "mails_money (send_auction_sale_pending_mail env a w) = mails_money w"
  by (simp add: send_auction_sale_pending_mail_def)

lemma mails_successful:
  "mails_money (send_auction_successful_mail env a w) \<le> mails_money w + unat (auction_profit env a)"
  by (simp add: send_auction_successful_mail_def Let_def)

lemma mails_expired [simp]: "mails_money (send_auction_expired_mail a w) = mails_money w"
  by (simp add: send_auction_expired_mail_def split: option.split)

lemma mails_outbidded: "mails_money (send_auction_outbidded_mail env a x g w) \<le> mails_money w + unat (au_bid a)"
  by (simp add: send_auction_outbidded_mail_def)

lemma mails_cancelled: "mails_money (send_auction_cancelled_to_bidder_mail a w) \<le> mails_money w + unat (au_bid a)"
  by (simp add: send_auction_cancelled_to_bidder_mail_def)

lemma players_money_cong: "aw_players w' = aw_players w \<Longrightarrow> players_money w' = players_money w"
  by (simp add: players_money_def)

text \<open>The items: only the item of the auction can be dropped.\<close>

lemma items_view:
  "aw_items (send_mail a r b m i t d w) = aw_items w" "aw_items (ah_emit os w) = aw_items w"
  by simp_all

lemma items_sent:
  "(aw_items (send_auction_won_mail a w))(au_item a := None) = (aw_items w)(au_item a := None)"
  "(aw_items (send_auction_expired_mail a w))(au_item a := None) = (aw_items w)(au_item a := None)"
  "aw_items (send_auction_successful_mail env a w) = aw_items w"
  "aw_items (send_auction_sale_pending_mail env a w) = aw_items w"
  "aw_items (send_auction_outbidded_mail env a x g w) = aw_items w"
  "aw_items (send_auction_cancelled_to_bidder_mail a w) = aw_items w"
  by (auto simp: send_auction_won_mail_def send_auction_expired_mail_def send_auction_successful_mail_def Let_def
      send_auction_sale_pending_mail_def send_auction_outbidded_mail_def send_auction_cancelled_to_bidder_mail_def split: option.split)

end
