(* ===== verification/AuctionRuns.thy ===== *)
theory AuctionRuns
  imports AuctionBook
begin

text \<open>
  Every operation of the auction house on a well-formed book, and the runs of them: what a seller, a
  bidder and the passing of time do to the book and to the money.
\<close>

section \<open>The operations\<close>

text \<open>An auction that leaves the book: what the mails carry is at most what it was worth.\<close>

lemma leave_book:
  assumes "book_ok w" "map_of (book w s) i = Some a" "(s, i) \<notin> set (pending_refs w)"
    and "book_view w' = book_view (remove_auction s a (remove_a_item (au_item a) d w))" "purses_ok w'"
    and "players_money w' + mails_money w' \<le> players_money w + mails_money w + (if au_bidder a = 0 then 0 else unat (au_bid a)) + unat (au_deposit a)"
  shows "book_ok w'" "wealth w' \<le> wealth w"
proof -
  show "book_ok w'" by (rule book_ok_remove [OF assms(1,2,4,5)])
  have hok: "houses_ok w" using assms(1) by (simp add: book_ok_def)
  have id: "au_id a = i" using houses_okD(2) [OF hok assms(2)] by simp
  have v: "book w' = (book w)(s := om_del i (book w s))" "aw_pending w' = aw_pending w"
    using book_view_eqD [OF assms(4)] by (simp_all add: book_remove book_remove_item id) (simp add: remove_auction_def)
  have "book_worth (set (pending_refs w)) w' + auction_worth (set (pending_refs w)) (s, i) a = book_worth (set (pending_refs w)) w"
    by (rule book_worth_remove [OF houses_okD(1) [OF hok] assms(2) v(1)])
  moreover have "auction_worth (set (pending_refs w)) (s, i) a = (if au_bidder a = 0 then 0 else unat (au_bid a)) + unat (au_deposit a)"
    using assms(3) by (simp add: auction_worth_def)
  ultimately show "wealth w' \<le> wealth w"
    using assms(6) by (simp add: wealth_def pending_refs_cong [OF v(2)])
qed

lemma remove_auction_simps [simp]:
  "aw_players (remove_auction s a w) = aw_players w" "mails_money (remove_auction s a w) = mails_money w"
  "aw_pending (remove_auction s a w) = aw_pending w" "aw_items (remove_auction s a w) = aw_items w"
  "aw_next_auction (remove_auction s a w) = aw_next_auction w"
  by (simp_all add: remove_auction_def)

lemma view_remove:
  assumes "money_view v = money_view w" "(aw_items v)(au_item a := None) = (aw_items w)(au_item a := None)"
  shows "book_view (remove_auction s a (remove_a_item (au_item a) d v)) = book_view (remove_auction s a (remove_a_item (au_item a) d' w))"
  using money_view_eqD [OF assms(1)] assms(2) by (simp add: book_view_def book_remove book_remove_item)

lemma finish_auction_ok:
  assumes "book_ok w" "map_of (book w s) i = Some a" "(s, i) \<notin> set (pending_refs w)" "rates_ok env"
  shows "book_ok (finish_auction env s a w)" "wealth (finish_auction env s a w) \<le> wealth w"
proof -
  let ?w1 = "if au_bidder a = 0 \<and> au_bid a = 0 then send_auction_expired_mail a w
             else send_auction_won_mail a (send_auction_successful_mail env a w)"
  have ok: "bid_ok a" "cut_ok a" using houses_okD(2) [OF book_okD(2) [OF assms(1)] assms(2)] by simp_all
  have mv: "money_view (ah_emit os ?w1) = money_view w" for os by (simp add: money_views)
  have it: "(aw_items (ah_emit os ?w1))(au_item a := None) = (aw_items w)(au_item a := None)" for os
    by (simp add: items_sent)
  have fin: "finish_auction env s a w = remove_auction s a (remove_a_item (au_item a) False (ah_emit [DbDelAuction (au_id a)] ?w1))"
    by (simp add: finish_auction_def Let_def)
  have pl: "aw_players (finish_auction env s a w) = aw_players w"
    unfolding fin using money_view_eqD [OF mv] by simp
  have view: "book_view (finish_auction env s a w) = book_view (remove_auction s a (remove_a_item (au_item a) False w))"
    unfolding fin by (rule view_remove [OF mv it])
  have purse: "purses_ok (finish_auction env s a w)"
    using purses_ok_cong [OF pl] book_okD(1) [OF assms(1)] by simp
  have "mails_money (finish_auction env s a w) \<le> mails_money w + (if au_bidder a = 0 then 0 else unat (au_bid a)) + unat (au_deposit a)"
  proof (cases "au_bidder a = 0 \<and> au_bid a = 0")
    case False
    then have "au_bidder a \<noteq> 0" using ok(1) by (auto simp: bid_ok_def)
    then show ?thesis
      using False mails_successful [of env a w] auction_profit_le [OF assms(4) ok(2)] by (simp add: fin)
  qed (simp add: fin)
  then have m: "players_money (finish_auction env s a w) + mails_money (finish_auction env s a w)
      \<le> players_money w + mails_money w + (if au_bidder a = 0 then 0 else unat (au_bid a)) + unat (au_deposit a)"
    by (simp add: players_money_cong [OF pl])
  show "book_ok (finish_auction env s a w)" "wealth (finish_auction env s a w) \<le> wealth w"
    by (rule leave_book [OF assms(1-3) view purse m])+
qed

text \<open>Without the guard for deposits the book is still in order.\<close>

lemma finish_auction_book:
  assumes "book_ok w" "map_of (book w s) i = Some a"
  shows "book_ok (finish_auction env s a w)"
    and "aw_pending (finish_auction env s a w) = aw_pending w"
    and "book (finish_auction env s a w) = (book w)(s := om_del i (book w s))"
proof -
  let ?w1 = "if au_bidder a = 0 \<and> au_bid a = 0 then send_auction_expired_mail a w
             else send_auction_won_mail a (send_auction_successful_mail env a w)"
  have mv: "money_view (ah_emit os ?w1) = money_view w" for os by (simp add: money_views)
  have it: "(aw_items (ah_emit os ?w1))(au_item a := None) = (aw_items w)(au_item a := None)" for os
    by (simp add: items_sent)
  have fin: "finish_auction env s a w = remove_auction s a (remove_a_item (au_item a) False (ah_emit [DbDelAuction (au_id a)] ?w1))"
    by (simp add: finish_auction_def Let_def)
  have pl: "aw_players (finish_auction env s a w) = aw_players w"
    unfolding fin using money_view_eqD [OF mv] by simp
  have view: "book_view (finish_auction env s a w) = book_view (remove_auction s a (remove_a_item (au_item a) False w))"
    unfolding fin by (rule view_remove [OF mv it])
  show "book_ok (finish_auction env s a w)"
    using purses_ok_cong [OF pl] book_okD(1) [OF assms(1)] by (intro book_ok_remove [OF assms view]) simp
  have id: "au_id a = i" using houses_okD(2) [OF book_okD(2) [OF assms(1)] assms(2)] by simp
  show "aw_pending (finish_auction env s a w) = aw_pending w"
    "book (finish_auction env s a w) = (book w)(s := om_del i (book w s))"
    using book_view_eqD [OF view] by (simp_all add: book_remove book_remove_item id)
qed

text \<open>\<open>Update\<close>: every expired auction of the list is still on the book when its turn comes.\<close>

definition due :: "ah_env \<Rightarrow> auction_world \<Rightarrow> ah_side \<Rightarrow> bool" where
  "due env w s \<longleftrightarrow> (\<forall>p \<in> set (book w s). expired env (snd p) \<longrightarrow> (s, fst p) \<notin> set (pending_refs w))"

lemma others_stay:
  "distinct (map fst (p # ps)) \<Longrightarrow> \<forall>q \<in> set (p # ps). map_of m (fst q) = Some (snd q) \<Longrightarrow>
   \<forall>q \<in> set ps. map_of (om_del (fst p) m) (fst q) = Some (snd q)"
  by (metis distinct.simps(2) fun_upd_other image_eqI list.set_intros(2) list.set_map list.simps(9) map_of_om_del)

lemma finish_loop_ok:
  assumes "book_ok w" "distinct (map fst ps)" "\<forall>p \<in> set ps. map_of (book w s) (fst p) = Some (snd p)"
  shows "book_ok (fold (\<lambda>p w. if expired env (snd p) then finish_auction env s (snd p) w else w) ps w)"
    and "aw_pending (fold (\<lambda>p w. if expired env (snd p) then finish_auction env s (snd p) w else w) ps w) = aw_pending w"
    and "s' \<noteq> s \<Longrightarrow> book (fold (\<lambda>p w. if expired env (snd p) then finish_auction env s (snd p) w else w) ps w) s' = book w s'"
    and "rates_ok env \<Longrightarrow> \<forall>p \<in> set ps. expired env (snd p) \<longrightarrow> (s, fst p) \<notin> set (pending_refs w) \<Longrightarrow>
      wealth (fold (\<lambda>p w. if expired env (snd p) then finish_auction env s (snd p) w else w) ps w) \<le> wealth w"
  using assms
proof (induction ps arbitrary: w)
  case (Cons p ps)
  {
    case 1
    show ?case
    proof (cases "expired env (snd p)")
      case True
      note f = finish_auction_book [OF 1(1), of s "fst p" "snd p" env]
      then show ?thesis using True 1 others_stay [OF 1(2,3)] by (simp, intro Cons.IH(1)) auto
    qed (use 1 Cons.IH(1) in simp)
  next
    case 2
    show ?case
    proof (cases "expired env (snd p)")
      case True
      note f = finish_auction_book [OF 2(1), of s "fst p" "snd p" env]
      then show ?thesis using True 2 others_stay [OF 2(2,3)] Cons.IH(2) [of "finish_auction env s (snd p) w"] by simp
    qed (use 2 Cons.IH(2) in simp)
  next
    case 3
    show ?case
    proof (cases "expired env (snd p)")
      case True
      note f = finish_auction_book [OF 3(2), of s "fst p" "snd p" env]
      then show ?thesis using True 3 others_stay [OF 3(3,4)] Cons.IH(3) [of "finish_auction env s (snd p) w"] by simp
    qed (use 3 Cons.IH(3) in simp)
  next
    case 4
    show ?case
    proof (cases "expired env (snd p)")
      case True
      let ?v = "finish_auction env s (snd p) w"
      have mp: "map_of (book w s) (fst p) = Some (snd p)" using 4 by simp
      note f = finish_auction_book [OF 4(3) mp, of env]
      have "wealth ?v \<le> wealth w" using 4 True by (intro finish_auction_ok(2) [OF 4(3) mp]) simp_all
      moreover have "wealth (fold (\<lambda>p w. if expired env (snd p) then finish_auction env s (snd p) w else w) ps ?v) \<le> wealth ?v"
        using 4 f pending_refs_cong [OF f(2)] others_stay [OF 4(4,5)] by (intro Cons.IH(4)) simp_all
      ultimately show ?thesis using True by simp
    qed (use 4 Cons.IH(4) in simp)
  }
qed simp_all

lemma wealth_view:
  "book_view w' = book_view w \<Longrightarrow> players_money w' = players_money w \<Longrightarrow> mails_money w' = mails_money w \<Longrightarrow> wealth w' = wealth w"
  using book_view_eqD [of w' w] by (simp add: wealth_def pending_refs_def book_worth_def)

lemma mails_unfeign [simp]: "mails_money (unfeign g w) = mails_money w"
  by (simp add: unfeign_def split: option.split)

lemma wealth_unfeign: "book_ok w \<Longrightarrow> wealth (unfeign g w) = wealth w"
proof (rule wealth_view)
  assume "book_ok w"
  then have "om_inv (aw_players w)" by (simp add: book_ok_def purses_ok_def)
  then show "players_money (unfeign g w) = players_money w"
    using players_money_keep [of w "\<lambda>p. p\<lparr>ap_feigning := False\<rparr>" g]
    by (simp add: unfeign_def players_money_cong [of "ah_emit os v" v for os v] split: option.split)
qed (simp_all add: book_views)

lemma book_eq_view: "book_view w' = book_view w \<Longrightarrow> book w' = book w" "book_view w' = book_view w \<Longrightarrow> pending_refs w' = pending_refs w"
  using book_view_eqD [of w' w] by (auto simp: pending_refs_def)

lemma house_update_ok:
  assumes "book_ok w"
  shows "book_ok (house_update env s w)" "aw_pending (house_update env s w) = aw_pending w"
    "s' \<noteq> s \<Longrightarrow> book (house_update env s w) s' = book w s'"
    "rates_ok env \<Longrightarrow> due env w s \<Longrightarrow> wealth (house_update env s w) \<le> wealth w"
proof -
  let ?w1 = "upd_house s (\<lambda>h. h\<lparr>ah_throttle := (\<lambda>g. case ah_throttle h g of
                Some t \<Rightarrow> if t \<le> ev_now env then None else Some t | None \<Rightarrow> None)\<rparr>) w"
  let ?ps = "book w s"
  let ?fin = "fold (\<lambda>p w. if expired env (snd p) then finish_auction env s (snd p) w else w) ?ps ?w1"
  have eq: "house_update env s w = (if ?ps = [] then w else ?fin)"
    by (simp add: house_update_def Let_def book_def)
  have v: "book_view ?w1 = book_view w" by (rule book_view_throttle)
  note b = book_eq_view [OF v]
  have ok1: "book_ok ?w1" by (rule book_ok_same_players [OF assms v]) simp
  have pend1: "aw_pending ?w1 = aw_pending w" by simp
  have wl1: "wealth ?w1 = wealth w" by (rule wealth_view [OF v]) (simp_all add: players_money_def)
  have inv: "om_inv ?ps" using houses_okD(1) [OF book_okD(2) [OF assms]] .
  have all: "\<forall>p \<in> set ?ps. map_of (book ?w1 s) (fst p) = Some (snd p)"
    unfolding b(1) using om_inv_distinct [OF inv] by simp
  note f = finish_loop_ok [OF ok1 om_inv_distinct [OF inv] all]
  show "book_ok (house_update env s w)" using f(1) assms by (simp add: eq)
  show "aw_pending (house_update env s w) = aw_pending w" using f(2) pend1 by (simp add: eq)
  show "s' \<noteq> s \<Longrightarrow> book (house_update env s w) s' = book w s'" using f(3) b(1) by (simp add: eq)
  show "rates_ok env \<Longrightarrow> due env w s \<Longrightarrow> wealth (house_update env s w) \<le> wealth w"
    using f(4) wl1 b(2) by (simp add: eq due_def)
qed

lemma due_cong: "book w' s = book w s \<Longrightarrow> aw_pending w' = aw_pending w \<Longrightarrow> due env w' s = due env w s"
  by (simp add: due_def pending_refs_def)

lemma ah_update_ok:
  assumes "book_ok w"
  shows "book_ok (ah_update env w)"
    and "rates_ok env \<Longrightarrow> \<forall>s. due env w s \<Longrightarrow> wealth (ah_update env w) \<le> wealth w"
proof -
  let ?w1 = "house_update env AhHorde w" and ?w2 = "house_update env AhAlliance (house_update env AhHorde w)"
  note u1 = house_update_ok [OF assms, where env = env and s = AhHorde]
  note u2 = house_update_ok [OF u1(1), where env = env and s = AhAlliance]
  note u3 = house_update_ok [OF u2(1), where env = env and s = AhNeutral]
  show "book_ok (ah_update env w)" using u3(1) by (simp add: ah_update_def)
  assume r: "rates_ok env" and d: "\<forall>s. due env w s"
  have "wealth ?w1 \<le> wealth w" using u1(4) r d by blast
  moreover have "wealth ?w2 \<le> wealth ?w1"
    using u2(4) r d due_cong [OF u1(3) [where s' = AhAlliance] u1(2)] by simp
  moreover have "wealth (house_update env AhNeutral ?w2) \<le> wealth ?w2"
    using u3(4) r d due_cong [OF u2(3) [where s' = AhNeutral] u2(2)] due_cong [OF u1(3) [where s' = AhNeutral] u1(2)] by simp
  ultimately show "wealth (ah_update env w) \<le> wealth w" by (simp add: ah_update_def)
qed

section \<open>Bids\<close>

lemma has_enough_moneyD:
  assumes "has_enough_money w g x" "x \<noteq> 0"
  shows "\<exists>p. map_of (aw_players w) g = Some p \<and> x \<le> ap_money p"
proof (cases "map_of (aw_players w) g")
  case None
  then show ?thesis using assms by (simp add: has_enough_money_def money_of_def)
qed (use assms in \<open>simp add: has_enough_money_def money_of_def\<close>)

text \<open>Paying for something: the money leaves the purse.\<close>

lemma pay:
  assumes "purses_ok w" "map_of (aw_players w) g = Some p" "x \<le> ap_money p"
  shows "purses_ok (modify_money g (neg_i32 x) w)"
    "players_money (modify_money g (neg_i32 x) w) + unat x = players_money w"
    "mails_money (modify_money g (neg_i32 x) w) = mails_money w"
    "aw_items (modify_money g (neg_i32 x) w) = aw_items w"
  using purses_ok_pay [OF assms] players_money_pay [OF assms] by (simp_all add: modify_money_pay [OF assms])

lemma bid_refusedD:
  assumes "\<not> bid_refused a price" "bid_ok a"
  shows "au_bid a < price" "au_startbid a \<le> price"
    "price < au_buyout a \<or> au_buyout a = 0 \<Longrightarrow> unat (au_bid a) + unat (get_auction_out_bid a) \<le> unat price \<or>
       2 ^ 32 \<le> unat (au_bid a) + unat (get_auction_out_bid a)"
proof -
  show "au_bid a < price" "au_startbid a \<le> price" using assms(1) by (auto simp: bid_refused_def not_le not_less)
  assume "price < au_buyout a \<or> au_buyout a = 0"
  then have "au_bid a + get_auction_out_bid a \<le> price" using assms(1) by (auto simp: bid_refused_def not_less)
  then show "unat (au_bid a) + unat (get_auction_out_bid a) \<le> unat price \<or> 2 ^ 32 \<le> unat (au_bid a) + unat (get_auction_out_bid a)"
    by (simp add: word_le_nat_alt unat_word_ariths) (metis linorder_not_le mod_less)
qed

lemma book_view_upd: "book_view w' = book_view w \<Longrightarrow> book_view (upd_auction s i f w') = book_view (upd_auction s i f w)"
  by (simp add: book_view_def book_upd) (simp add: upd_auction_def)

lemma unat_diff: "(y :: u32) \<le> x \<Longrightarrow> unat (x - y) = unat x - unat y"
  by (simp add: unat_sub word_le_nat_alt)

lemma plain_bid_ok:
  assumes "book_ok w" "map_of (book w s) i = Some a" "map_of (aw_players w) g = Some p" "price \<le> ap_money p"
    and "\<not> bid_refused a price" "au_owner a \<noteq> g" "price < au_buyout a \<or> au_buyout a = 0"
  shows "book_ok (plain_bid env g s a price w)" "wealth (plain_bid env g s a price w) \<le> wealth w"
proof -
  note hok = book_okD(2) [OF assms(1)] and purse = book_okD(1) [OF assms(1)]
  have a: "au_id a = i" "bid_ok a" "cut_ok a" using houses_okD(2) [OF hok assms(2)] by simp_all
  have lt: "au_bid a < price" "au_startbid a \<le> price" using bid_refusedD(1,2) [OF assms(5) a(2)] by blast+
  have g0: "g \<noteq> 0" and pm: "price \<le> MAX_MONEY_AMOUNT" using purses_okD [OF purse assms(3)] assms(4) by auto
  let ?x = "if au_bidder a = g then price - au_bid a else price"
  let ?v = "if au_bidder a \<noteq> 0 \<and> au_bidder a \<noteq> g then send_auction_outbidded_mail env a price g w else w"
  let ?f = "\<lambda>a. a\<lparr>au_bidder := g, au_bid := price\<rparr>"
  let ?w1 = "modify_money g (neg_i32 ?x) ?v"
  have eq: "plain_bid env g s a price w = command_result g (au_id a) AUCTION_PLACE_BID ERR_AUCTION_OK
      (ah_emit [AhCriterion g HIGHEST_BID price, DbUpdBid g price (au_id a)] (upd_auction s i ?f ?w1))"
    using g0 a(1) by (auto simp: plain_bid_def Let_def)
  have mv: "money_view ?v = money_view w" by (simp add: money_views)
  have pl: "aw_players ?v = aw_players w" and bv: "book ?v = book w" "aw_pending ?v = aw_pending w" "aw_next_auction ?v = aw_next_auction w"
    using money_view_eqD [OF mv] by blast+
  have its: "aw_items ?v = aw_items w" by (simp add: items_sent)
  have xp: "?x \<le> ap_money p" using assms(4) lt(1) by (auto intro: order_trans [OF word_sub_le])
  have purse': "purses_ok ?v" using purses_ok_cong [OF pl] purse by simp
  have pp: "map_of (aw_players ?v) g = Some p" using assms(3) by (simp only: pl)
  note py = pay [OF purse' pp xp]
  have view1: "book_view ?w1 = book_view w"
    unfolding book_view_money using bv its by (simp add: book_view_def)
  have view: "book_view (plain_bid env g s a price w) = book_view (upd_auction s i ?f w)"
    unfolding eq book_view_result book_view_emit by (rule book_view_upd [OF view1])
  have fok: "bid_ok (?f a)" "cut_ok (?f a)"
    using a(2,3) lt g0 pm assms(6,7) by (auto simp: bid_ok_def cut_ok_def)
  have plx: "aw_players (plain_bid env g s a price w) = aw_players ?w1"
    by (simp add: eq upd_auction_def)
  have "purses_ok (plain_bid env g s a price w)" using purses_ok_cong [OF plx] py(1) by simp
  then show "book_ok (plain_bid env g s a price w)"
    using a(1) fok by (intro book_ok_upd [OF assms(1,2) _ _ fok view]) simp_all
  let ?R = "set (pending_refs w)"
  have bk: "book (plain_bid env g s a price w) = (book w)(s := om_upd i ?f (book w s))"
    using book_eq_view(1) [OF view] by (simp add: book_upd)
  have pr: "pending_refs (plain_bid env g s a price w) = pending_refs w"
    using book_eq_view(2) [OF view] pending_refs_cong [of "upd_auction s i ?f w" w] by (simp add: upd_auction_def)
  have wb: "book_worth ?R (plain_bid env g s a price w) + auction_worth ?R (s, i) a
      = book_worth ?R w + auction_worth ?R (s, i) (?f a)"
    by (rule book_worth_upd [OF houses_okD(1) [OF hok] assms(2) bk])
  have ml: "mails_money (plain_bid env g s a price w) \<le> mails_money w + (if au_bidder a \<noteq> 0 \<and> au_bidder a \<noteq> g then unat (au_bid a) else 0)"
    using mails_outbidded [of env a price g w] by (simp add: eq py(3) upd_auction_def)
  have plm: "players_money (plain_bid env g s a price w) + unat ?x = players_money w"
    using py(2) players_money_cong [OF plx] players_money_cong [OF pl] by simp
  have "unat (au_bid a) \<le> unat price" using lt(1) by (simp add: word_less_nat_alt)
  moreover have "unat ?x = (if au_bidder a = g then unat price - unat (au_bid a) else unat price)"
    using lt(1) by (simp add: unat_diff)
  ultimately show "wealth (plain_bid env g s a price w) \<le> wealth w"
    using wb ml plm g0 by (simp add: wealth_def pr auction_worth_def split: if_splits)
qed

lemma pay_any:
  assumes "purses_ok w" "has_enough_money w g x"
  shows "purses_ok (modify_money g (neg_i32 x) w)"
    "players_money (modify_money g (neg_i32 x) w) + unat x = players_money w"
    "mails_money (modify_money g (neg_i32 x) w) = mails_money w"
    "aw_items (modify_money g (neg_i32 x) w) = aw_items w"
proof -
  have zero: "modify_money g (neg_i32 0) w = w" by (simp add: modify_money_def neg_i32_def)
  have "purses_ok (modify_money g (neg_i32 x) w) \<and>
    players_money (modify_money g (neg_i32 x) w) + unat x = players_money w \<and>
    mails_money (modify_money g (neg_i32 x) w) = mails_money w \<and>
    aw_items (modify_money g (neg_i32 x) w) = aw_items w"
  proof (cases "x = 0")
    case False
    then obtain p where "map_of (aw_players w) g = Some p" "x \<le> ap_money p"
      using has_enough_moneyD [OF assms(2)] by blast
    then show ?thesis using pay [OF assms(1)] by blast
  qed (simp add: zero assms(1))
  then show "purses_ok (modify_money g (neg_i32 x) w)"
    "players_money (modify_money g (neg_i32 x) w) + unat x = players_money w"
    "mails_money (modify_money g (neg_i32 x) w) = mails_money w"
    "aw_items (modify_money g (neg_i32 x) w) = aw_items w" by blast+
qed

lemma items_money [simp]: "aw_items (modify_money g x w) = aw_items w"
  by (simp add: modify_money_def Let_def)

lemma mails_money_modify [simp]: "mails_money (modify_money g x w) = mails_money w"
  by (simp add: modify_money_def Let_def)

lemma om_del_upd: "om_inv m \<Longrightarrow> om_del i (om_upd i f m) = om_del i m"
  by (rule om_ext) (auto simp: fun_eq_iff)

lemma upd_auction_simps [simp]:
  "aw_players (upd_auction s i f w) = aw_players w" "mails_money (upd_auction s i f w) = mails_money w"
  "aw_pending (upd_auction s i f w) = aw_pending w" "aw_items (upd_auction s i f w) = aw_items w"
  "aw_next_auction (upd_auction s i f w) = aw_next_auction w"
  by (simp_all add: upd_auction_def)

lemma buyout_ok:
  assumes "book_ok w" "map_of (book w s) i = Some a" "map_of (aw_players w) g = Some p" "au_buyout a \<le> ap_money p"
    and "au_owner a \<noteq> g" "au_buyout a \<noteq> 0"
  shows "book_ok (buyout env g s a w)"
    and "rates_ok env \<Longrightarrow> (s, i) \<notin> set (pending_refs w) \<Longrightarrow> wealth (buyout env g s a w) \<le> wealth w"
proof -
  note hok = book_okD(2) [OF assms(1)] and purse = book_okD(1) [OF assms(1)]
  have a: "au_id a = i" "bid_ok a" "cut_ok a" using houses_okD(2) [OF hok assms(2)] by simp_all
  have lt: "au_bid a < au_buyout a" using a(2) assms(6) by (simp add: bid_ok_def)
  have g0: "g \<noteq> 0" using purses_okD [OF purse assms(3)] by simp
  let ?x = "if g = au_bidder a then au_buyout a - au_bid a else au_buyout a"
  let ?w0 = "modify_money g (neg_i32 ?x) w"
  let ?v = "if g \<noteq> au_bidder a \<and> au_bidder a \<noteq> 0 then send_auction_outbidded_mail env a (au_buyout a) g ?w0 else ?w0"
  let ?b = "a\<lparr>au_bidder := g, au_bid := au_buyout a\<rparr>"
  let ?w2 = "ah_emit [AhCriterion g HIGHEST_BID (au_buyout a)] (upd_auction s i (\<lambda>_. ?b) ?v)"
  let ?w3 = "send_auction_won_mail ?b (send_auction_successful_mail env ?b (send_auction_sale_pending_mail env ?b ?w2))"
  let ?w4 = "ah_emit [DbDelAuction i] (command_result g i AUCTION_PLACE_BID ERR_AUCTION_OK ?w3)"
  let ?fin = "remove_auction s ?b (remove_a_item (au_item a) False ?w4)"
  have eq: "buyout env g s a w = ?fin"
    using a(1) by (simp add: buyout_def Let_def)
  have xp: "?x \<le> ap_money p" using assms(4) lt by (auto intro: order_trans [OF word_sub_le])
  note py = pay [OF purse assms(3) xp]
  have mv1: "money_view ?v = money_view ?w0" by (simp add: money_views)
  have mv3: "money_view ?w4 = money_view (upd_auction s i (\<lambda>_. ?b) ?v)" by (simp add: money_views)
  have pl: "aw_players ?fin = aw_players ?w0"
    using money_view_eqD [OF mv3] money_view_eqD [OF mv1] by simp
  have bk0: "book ?w0 = book w" "aw_pending ?w0 = aw_pending w" "aw_next_auction ?w0 = aw_next_auction w"
    using book_view_eqD [OF book_view_money] by blast+
  have bk4: "book ?w4 = (book w)(s := om_upd i (\<lambda>_. ?b) (book w s))" "aw_pending ?w4 = aw_pending w" "aw_next_auction ?w4 = aw_next_auction w"
    using money_view_eqD [OF mv3] money_view_eqD [OF mv1] bk0 by (simp_all only: book_upd upd_auction_simps)
  have its: "(aw_items ?w4)(au_item a := None) = (aw_items w)(au_item a := None)"
    using items_sent(1) [of ?b] by (simp add: items_sent)
  have view: "book_view (buyout env g s a w) = book_view (remove_auction s a (remove_a_item (au_item a) False w))"
    unfolding eq using bk4 its om_del_upd [OF houses_okD(1) [OF hok]]
    by (simp add: book_view_def book_remove book_remove_item a(1))
  have purse': "purses_ok (buyout env g s a w)"
    unfolding eq using purses_ok_cong [OF pl] py(1) by simp
  show "book_ok (buyout env g s a w)" by (rule book_ok_remove [OF assms(1,2) view purse'])
  assume r: "rates_ok env" and np: "(s, i) \<notin> set (pending_refs w)"
  have cb: "cut_ok ?b" using a(3) by (simp add: cut_ok_def)
  have "mails_money ?fin \<le> mails_money ?v + unat (auction_profit env ?b)"
    using mails_successful [of env ?b "send_auction_sale_pending_mail env ?b ?w2"] by simp
  also have "\<dots> \<le> mails_money ?v + unat (au_buyout a) + unat (au_deposit a)"
    using auction_profit_le [OF r cb] by simp
  finally have ml: "mails_money ?fin \<le> mails_money ?v + unat (au_buyout a) + unat (au_deposit a)" .
  have mv: "mails_money ?v \<le> mails_money w + (if g \<noteq> au_bidder a \<and> au_bidder a \<noteq> 0 then unat (au_bid a) else 0)"
    using mails_outbidded [of env a "au_buyout a" g "modify_money g (neg_i32 (au_buyout a)) w"] by auto
  have "unat (au_bid a) \<le> unat (au_buyout a)" using lt by (simp add: word_less_nat_alt)
  moreover have "unat ?x = (if g = au_bidder a then unat (au_buyout a) - unat (au_bid a) else unat (au_buyout a))"
    using lt by (simp add: unat_diff)
  ultimately have "players_money ?fin + mails_money ?fin
      \<le> players_money w + mails_money w + (if au_bidder a = 0 then 0 else unat (au_bid a)) + unat (au_deposit a)"
    using players_money_cong [OF pl] py(2) ml mv g0 by (simp split: if_splits)
  then show "wealth (buyout env g s a w) \<le> wealth w"
    using leave_book(2) [OF assms(1,2) np view purse'] by (simp add: eq)
qed

lemma own_auction_owner: "\<not> own_auction w g a \<Longrightarrow> au_owner a \<noteq> g"
  by (auto simp: own_auction_def)

text \<open>A bid takes an auction off the book only by paying its buyout.\<close>

definition buys :: "auction_world \<Rightarrow> ah_side \<Rightarrow> u32 \<Rightarrow> u32 \<Rightarrow> bool" where
  "buys w s i price \<longleftrightarrow> (case map_of (book w s) i of None \<Rightarrow> False | Some a \<Rightarrow> au_buyout a \<noteq> 0 \<and> au_buyout a \<le> price)"

lemma emit_ok: "book_ok w \<Longrightarrow> book_ok (ah_emit os w)" "wealth (ah_emit os w) = wealth w"
  using book_ok_same_players [OF _ book_view_emit] wealth_view [OF book_view_emit] by (simp_all add: players_money_def)

lemma result_ok: "book_ok w \<Longrightarrow> book_ok (command_result g i c e w)" "wealth (command_result g i c e w) = wealth w"
  using book_ok_same_players [OF _ book_view_result] wealth_view [OF book_view_result] by (simp_all add: players_money_def)

lemma handle_place_bid_ok:
  assumes "book_ok w"
  shows "book_ok (handle_place_bid env g auctioneer i price w)"
    and "rates_ok env \<Longrightarrow> \<forall>s. buys w s i price \<longrightarrow> (s, i) \<notin> set (pending_refs w) \<Longrightarrow>
      wealth (handle_place_bid env g auctioneer i price w) \<le> wealth w"
proof -
  let ?w1 = "unfeign g w"
  have ok1: "book_ok ?w1" by (rule book_ok_unfeign [OF assms])
  have wl: "wealth ?w1 = wealth w" by (rule wealth_unfeign [OF assms])
  note bv = book_eq_view [OF book_view_unfeign [of g w]]
  let ?res = "handle_place_bid env g auctioneer i price w"
  have "book_ok ?res \<and> (rates_ok env \<and> (\<forall>s. buys w s i price \<longrightarrow> (s, i) \<notin> set (pending_refs w)) \<longrightarrow> wealth ?res \<le> wealth w)"
  proof (cases "i = 0 \<or> price = 0 \<or> ev_auctioneer env auctioneer = None")
    case True
    then show ?thesis using assms by (auto simp: handle_place_bid_def)
  next
    case False
    then obtain faction where f: "ev_auctioneer env auctioneer = Some faction" and nz: "i \<noteq> 0" "price \<noteq> 0" by auto
    let ?s = "get_auctions_map env faction"
    show ?thesis
    proof (cases "get_auction ?w1 ?s i")
      case None
      then show ?thesis using f nz ok1 wl by (simp add: handle_place_bid_def result_ok)
    next
      case (Some a)
      then have m: "map_of (book ?w1 ?s) i = Some a" by (simp add: get_auction_book)
      show ?thesis
      proof (cases "own_auction ?w1 g a \<or> bid_refused a price \<or> \<not> has_enough_money ?w1 g price")
        case True
        then show ?thesis using f nz ok1 wl Some by (auto simp: handle_place_bid_def Let_def result_ok)
      next
        case ok: False
        obtain p where p: "map_of (aw_players ?w1) g = Some p" "price \<le> ap_money p"
          using has_enough_moneyD [of ?w1 g price] ok nz by blast
        have ow: "au_owner a \<noteq> g" using ok own_auction_owner by blast
        show ?thesis
        proof (cases "price < au_buyout a \<or> au_buyout a = 0")
          case True
          then have "?res = ah_emit [DbSaveGold g] (plain_bid env g ?s a price ?w1)"
            using f nz Some ok by (simp add: handle_place_bid_def)
          then show ?thesis
            using plain_bid_ok [OF ok1 m p _ ow True, of env] ok wl by (simp add: emit_ok)
        next
          case False
          then have "?res = ah_emit [DbSaveGold g] (buyout env g ?s a ?w1)"
            using f nz Some ok by (simp add: handle_place_bid_def)
          moreover have "au_buyout a \<le> ap_money p" "au_buyout a \<noteq> 0" using False p(2) by auto
          moreover have "buys w ?s i price" using m False by (simp add: buys_def bv not_less)
          ultimately show ?thesis
            using buyout_ok [OF ok1 m p(1) _ ow, of env] wl bv(2) by (auto simp: emit_ok)
        qed
      qed
    qed
  qed
  then show "book_ok ?res" "rates_ok env \<Longrightarrow> \<forall>s. buys w s i price \<longrightarrow> (s, i) \<notin> set (pending_refs w) \<Longrightarrow> wealth ?res \<le> wealth w"
    by blast+
qed

section \<open>Cancelling\<close>

lemma cancel_auction_ok:
  assumes "book_ok w" "map_of (book w s) i = Some a" "au_bidder a = 0 \<or> has_enough_money w g (get_auction_cut env a)"
  shows "book_ok (cancel_auction env g s a it w)"
    and "(s, i) \<notin> set (pending_refs w) \<Longrightarrow> wealth (cancel_auction env g s a it w) \<le> wealth w"
proof -
  note purse = book_okD(1) [OF assms(1)]
  have id: "au_id a = i" using houses_okD(2) [OF book_okD(2) [OF assms(1)] assms(2)] by simp
  let ?x = "get_auction_cut env a"
  let ?v = "send_auction_cancelled_to_bidder_mail a w"
  let ?w1 = "if au_bidder a \<noteq> 0 then modify_money g (neg_i32 ?x) ?v else w"
  have mv: "money_view ?v = money_view w" by (simp add: money_views)
  have pv: "aw_players ?v = aw_players w" using money_view_eqD [OF mv] by blast
  have view1: "book_view ?w1 = book_view w"
    using money_view_eqD [OF mv] by (simp add: book_views) (simp add: book_view_def items_sent)
  have m1: "purses_ok ?w1 \<and> players_money ?w1 + mails_money ?w1 \<le> players_money w + mails_money w + (if au_bidder a = 0 then 0 else unat (au_bid a))"
  proof (cases "au_bidder a = 0")
    case False
    have "purses_ok ?v" using purses_ok_cong [OF pv] purse by simp
    moreover have "has_enough_money ?v g ?x" using assms(3) False pv by (simp add: has_enough_money_def money_of_def)
    ultimately show ?thesis
      using pay_any [of ?v g ?x] mails_cancelled [of a w] players_money_cong [OF pv] False by simp
  qed (simp add: purse)
  let ?w3 = "ah_emit [DbSaveGold g, DbDelAuction (au_id a)] (command_result g (au_id a) AUCTION_CANCEL ERR_AUCTION_OK
      (send_mail a AUCTION_CANCELED (auction_mail_body 0 0 (au_buyout a) (au_deposit a) 0) 0 (Some it) g 0 ?w1))"
  let ?fin = "remove_auction s a (remove_a_item (au_item a) False ?w3)"
  have eq: "cancel_auction env g s a it w = ?fin" by (simp add: cancel_auction_def Let_def)
  have pl: "aw_players ?fin = aw_players ?w1" by simp
  have "book_view ?w3 = book_view w" unfolding book_view_emit book_view_result book_view_mail by (rule view1)
  then have view: "book_view (cancel_auction env g s a it w) = book_view (remove_auction s a (remove_a_item (au_item a) False w))"
    unfolding eq by (simp add: book_view_def book_remove book_remove_item del: ah_emit_simps command_result_simps send_mail_simps)
  have purse': "purses_ok (cancel_auction env g s a it w)" unfolding eq using purses_ok_cong [OF pl] m1 by simp
  show "book_ok (cancel_auction env g s a it w)" by (rule book_ok_remove [OF assms(1,2) view purse'])
  assume np: "(s, i) \<notin> set (pending_refs w)"
  have "players_money ?fin + mails_money ?fin \<le> players_money w + mails_money w + (if au_bidder a = 0 then 0 else unat (au_bid a)) + unat (au_deposit a)"
    using m1 players_money_cong [OF pl] by simp
  then show "wealth (cancel_auction env g s a it w) \<le> wealth w"
    using leave_book(2) [OF assms(1,2) np view purse'] by (simp add: eq)
qed

lemma handle_remove_item_ok:
  assumes "book_ok w"
  shows "book_ok (handle_remove_item env g auctioneer i w)"
    and "\<forall>s. (s, i) \<notin> set (pending_refs w) \<Longrightarrow> wealth (handle_remove_item env g auctioneer i w) \<le> wealth w"
proof -
  let ?w1 = "unfeign g w"
  have ok1: "book_ok ?w1" by (rule book_ok_unfeign [OF assms])
  have wl: "wealth ?w1 = wealth w" by (rule wealth_unfeign [OF assms])
  note bv = book_eq_view [OF book_view_unfeign [of g w]]
  let ?res = "handle_remove_item env g auctioneer i w"
  have "book_ok ?res \<and> ((\<forall>s. (s, i) \<notin> set (pending_refs w)) \<longrightarrow> wealth ?res \<le> wealth w)"
  proof (cases "ev_auctioneer env auctioneer")
    case None
    then show ?thesis using assms by (simp add: handle_remove_item_def)
  next
    case (Some faction)
    note f = Some
    let ?s = "get_auctions_map env faction"
    show ?thesis
    proof (cases "get_auction ?w1 ?s i")
      case None
      then show ?thesis using f ok1 wl by (simp add: handle_remove_item_def Let_def result_ok)
    next
      case (Some a)
      then have m: "map_of (book ?w1 ?s) i = Some a" by (simp add: get_auction_book)
      show ?thesis
      proof (cases "au_owner a = g \<and> aw_items ?w1 (au_item a) \<noteq> None \<and> (au_bidder a = 0 \<or> has_enough_money ?w1 g (get_auction_cut env a))")
        case True
        then obtain it where "aw_items ?w1 (au_item a) = Some it" by auto
        then have "?res = cancel_auction env g ?s a it ?w1"
          using True f Some by (auto simp: handle_remove_item_def Let_def)
        then show ?thesis
          using cancel_auction_ok [OF ok1 m, of g env it] True wl bv(2) by auto
      next
        case False
        then show ?thesis using f Some ok1 wl by (auto simp: handle_remove_item_def Let_def result_ok split: option.split)
      qed
    qed
  qed
  then show "book_ok ?res" "\<forall>s. (s, i) \<notin> set (pending_refs w) \<Longrightarrow> wealth ?res \<le> wealth w" by blast+
qed

section \<open>Selling\<close>

lemma players_money_items:
  "om_inv (aw_players w) \<Longrightarrow> players_money (drop_item g x w) = players_money w"
  "om_inv (aw_players w) \<Longrightarrow> players_money (set_item_count g x n w) = players_money w"
  by (simp_all add: drop_item_def set_item_count_def players_money_keep)

lemma purses_ok_items:
  "purses_ok w \<Longrightarrow> purses_ok (drop_item g x w)"
  "purses_ok w \<Longrightarrow> purses_ok (set_item_count g x n w)"
  by (simp_all add: drop_item_def set_item_count_def purses_ok_keep)

lemma take_from_ok:
  assumes "purses_ok w"
  shows "purses_ok (take_from g p w)" "players_money (take_from g p w) = players_money w"
    "mails_money (take_from g p w) = mails_money w" "book_view (take_from g p w) = book_view w"
proof -
  have inv: "om_inv (aw_players w)" using assms by (simp add: purses_ok_def)
  have pe: "purses_ok (ah_emit os v) = purses_ok v" "players_money (ah_emit os v) = players_money v" for os v
    by (simp_all add: purses_ok_def players_money_def)
  show "purses_ok (take_from g p w)" "players_money (take_from g p w) = players_money w"
    using purses_ok_items [OF assms] players_money_items [OF inv] by (simp_all add: take_from_def Let_def pe)
  show "mails_money (take_from g p w) = mails_money w" "book_view (take_from g p w) = book_view w"
    by (simp_all add: take_from_def Let_def book_views drop_item_def set_item_count_def)
qed

lemma take_all_ok:
  assumes "purses_ok w"
  shows "purses_ok (fold (take_from g) xs w) \<and> players_money (fold (take_from g) xs w) = players_money w
    \<and> mails_money (fold (take_from g) xs w) = mails_money w \<and> book_view (fold (take_from g) xs w) = book_view w"
  using assms by (induction xs arbitrary: w) (simp_all add: take_from_ok)

text \<open>Selling puts one auction on the book; nothing is paid yet.\<close>

definition listed :: "u32 \<Rightarrow> ah_side \<Rightarrow> auction \<Rightarrow> ah_item \<Rightarrow> auction_world \<Rightarrow> auction_world" where
  "listed g s a it w =
     pending_auction_add g (s, au_id a) (add_auction s a (w\<lparr>aw_next_auction := aw_next_auction w + 1, aw_items := (aw_items w)(it_guid it \<mapsto> it)\<rparr>))"

lemma pending_add_simps [simp]:
  "aw_players (pending_auction_add g r w) = aw_players w" "aw_mails (pending_auction_add g r w) = aw_mails w"
  "aw_items (pending_auction_add g r w) = aw_items w" "aw_next_auction (pending_auction_add g r w) = aw_next_auction w"
  "aw_houses (pending_auction_add g r w) = aw_houses w"
  by (simp_all add: pending_auction_add_def)

lemma add_auction_simps [simp]:
  "aw_players (add_auction s a w) = aw_players w" "aw_mails (add_auction s a w) = aw_mails w"
  "aw_items (add_auction s a w) = aw_items w" "aw_next_auction (add_auction s a w) = aw_next_auction w"
  "aw_pending (add_auction s a w) = aw_pending w"
  by (simp_all add: add_auction_def)

lemma listed_ok:
  assumes "book_ok w" "aw_next_auction w < 0xFFFFFFFE" "aw_items w (it_guid it) = None"
    and a: "au_id a = aw_next_auction w" "au_item a = it_guid it" "bid_ok a" "cut_ok a" "au_bidder a = 0"
  shows "book_ok (listed g s a it w)" "wealth (listed g s a it w) = wealth w"
proof -
  have bk: "book (listed g s a it w) = (book w)(s := om_set (au_id a) a (book w s))"
    by (auto simp: listed_def book_def add_auction_def fun_eq_iff)
  have pend: "aw_pending (listed g s a it w) = aw_pending (pending_auction_add g (s, au_id a) w)"
    by (simp add: listed_def pending_auction_add_def split: option.split)
  have pl: "aw_players (listed g s a it w) = aw_players w" by (simp add: listed_def)
  show "book_ok (listed g s a it w)"
    by (rule book_ok_add [OF assms(1-3) a(1-4) bk _ pend])
      (simp_all add: listed_def purses_ok_cong [OF pl, unfolded listed_def] book_okD(1) [OF assms(1)])
  have inv: "om_inv (aw_pending w)" using book_okD(4) [OF assms(1)] by (simp add: pend_ok_def)
  have refs: "set (pending_refs (listed g s a it w)) = insert (s, au_id a) (set (pending_refs w))"
    using pending_refs_add(1) [OF inv, of g "(s, au_id a)"] by (simp add: pending_refs_cong [OF pend])
  note hok = book_okD(2) [OF assms(1)]
  have fresh: "map_of (book w s') (au_id a) = None" for s'
    using houses_okD(2) [OF hok, of s' "au_id a"] a(1) by (cases "map_of (book w s') (au_id a)") auto
  let ?R = "set (pending_refs w)" and ?S = "insert (s, au_id a) (set (pending_refs w))"
  have "book_worth ?S w = book_worth ?R w"
    using fresh by (intro book_worth_mono_refs houses_okD(1) [OF hok]) auto
  moreover have "book_worth ?S (listed g s a it w) = book_worth ?S w"
    using book_worth_add [OF fresh bk, of ?S] a(5) by (simp add: auction_worth_def)
  moreover have "mails_money (listed g s a it w) = mails_money w"
    by (rule mails_money_cong) (simp add: listed_def)
  ultimately show "wealth (listed g s a it w) = wealth w"
    by (simp add: wealth_def refs players_money_cong [OF pl])
qed

definition ah_env_ok :: "ah_env \<Rightarrow> bool" where
  "ah_env_ok env \<longleftrightarrow> rates_ok env \<and> (\<forall>h he. ev_house env h = Some he \<longrightarrow> he_cut he \<le> 90)"

lemma house_entry_cut: "ah_env_ok env \<Longrightarrow> get_auction_house_entry env f = Some he \<Longrightarrow> he_cut he \<le> 90"
  unfolding ah_env_ok_def get_auction_house_entry_def by blast

lemma new_auction_simps [simp]:
  "au_id (new_auction env rq i h g e it d he) = i" "au_item (new_auction env rq i h g e it d he) = it_guid it"
  "au_bidder (new_auction env rq i h g e it d he) = 0" "au_bid (new_auction env rq i h g e it d he) = 0"
  "au_buyout (new_auction env rq i h g e it d he) = sr_buyout rq" "au_he (new_auction env rq i h g e it d he) = he"
  by (simp_all add: new_auction_def)

lemma new_auction_ok:
  "sr_buyout rq \<le> MAX_MONEY_AMOUNT \<Longrightarrow> he_cut he \<le> 90 \<Longrightarrow> bid_ok (new_auction env rq i h g e it d he) \<and> cut_ok (new_auction env rq i h g e it d he)"
  by (auto simp: bid_ok_def cut_ok_def word_neq_0_conv)

lemma sold_ok:
  assumes "book_ok v" "wealth v = wealth w" "purses_ok v' \<and> players_money v' = players_money v \<and> mails_money v' = mails_money v \<and> book_view v' = book_view v"
  shows "book_ok v'" "wealth v' = wealth w"
  using assms book_ok_view [of v v'] wealth_view [of v' v] by simp_all

lemma sell_whole_ok:
  assumes "sell_whole env g rq s h e d he it w = Some w'" "book_ok w" "aw_next_auction w < 0xFFFFFFFE"
    and "sr_buyout rq \<le> MAX_MONEY_AMOUNT" "he_cut he \<le> 90"
  shows "book_ok w'" "wealth w' = wealth w"
proof -
  let ?a = "new_auction env rq (aw_next_auction w) h g e it d he"
  let ?l = "listed g s ?a it w"
  have free: "aw_items w (it_guid it) = None"
    using assms(1) by (auto simp: sell_whole_def add_a_item_def Let_def split: if_splits)
  have "w' = ah_emit [AhCriterion g AUCTION_CREATED 1] (command_result g (au_id ?a) AUCTION_SELL_ITEM ERR_AUCTION_OK
      (ah_emit [DbDelInventory (it_guid it), DbSaveItem (it_guid it), DbInsAuction ?a, DbSaveGold g] (drop_item g (it_guid it) ?l)))"
    using assms(1) free by (simp add: sell_whole_def add_a_item_def Let_def listed_def)
  then have w': "w' = ah_emit [AhCriterion g AUCTION_CREATED 1] (command_result g (aw_next_auction w) AUCTION_SELL_ITEM ERR_AUCTION_OK
      (ah_emit [DbDelInventory (it_guid it), DbSaveItem (it_guid it), DbInsAuction ?a, DbSaveGold g] (drop_item g (it_guid it) ?l)))" by simp
  have l: "book_ok ?l" "wealth ?l = wealth w"
    using new_auction_ok [OF assms(4,5)] by (intro listed_ok [OF assms(2,3) free]; simp)+
  have "purses_ok (drop_item g (it_guid it) ?l) \<and> players_money (drop_item g (it_guid it) ?l) = players_money ?l
      \<and> mails_money (drop_item g (it_guid it) ?l) = mails_money ?l \<and> book_view (drop_item g (it_guid it) ?l) = book_view ?l"
    using purses_ok_items(1) [OF book_okD(1) [OF l(1)]] players_money_items(1) book_okD(1) [OF l(1)]
    by (simp add: purses_ok_def) (simp add: drop_item_def book_views)
  note f = sold_ok [OF l this]
  show "book_ok w'" "wealth w' = wealth w" unfolding w' using f by (simp_all add: emit_ok result_ok)
qed

lemma sell_clone_ok:
  assumes "sell_clone env g rq s h e d he xs n w = Some w'" "book_ok w" "aw_next_auction w < 0xFFFFFFFE"
    and "sr_buyout rq \<le> MAX_MONEY_AMOUNT" "he_cut he \<le> 90"
  shows "book_ok w'" "wealth w' = wealth w"
proof -
  let ?it = "fst (hd xs)"
  have "book_ok w' \<and> wealth w' = wealth w"
  proof (cases "ev_template_known env (tp_entry (it_template ?it))")
    case False
    then have "w' = command_result g 0 AUCTION_SELL_ITEM ERR_AUCTION_DATABASE_ERROR w" using assms(1) by (simp add: sell_clone_def)
    then show ?thesis using assms(2) by (simp add: result_ok)
  next
    case True
    let ?new = "(ev_clone env ?it)\<lparr>it_guid := aw_next_item w, it_template := it_template ?it, it_count := n\<rparr>"
    let ?a = "new_auction env rq (aw_next_auction w) h g e ?new d he"
    let ?w1 = "w\<lparr>aw_next_item := aw_next_item w + 1\<rparr>"
    let ?l = "listed g s ?a ?new ?w1"
    have free: "aw_items w (aw_next_item w) = None"
      using assms(1) True by (auto simp: sell_clone_def add_a_item_def Let_def split: if_splits)
    have v1: "book_view ?w1 = book_view w" by (simp add: book_view_def book_def fun_eq_iff)
    have ok1: "book_ok ?w1" by (rule book_ok_same_players [OF assms(2) v1]) simp
    have wl1: "wealth ?w1 = wealth w" by (rule wealth_view [OF v1]) (simp_all add: players_money_def mails_money_def)
    have "w' = ah_emit [AhCriterion g AUCTION_CREATED 1] (command_result g (au_id ?a) AUCTION_SELL_ITEM ERR_AUCTION_OK
        (ah_emit [DbSaveItem (it_guid ?new), DbInsAuction ?a, DbSaveGold g] (fold (take_from g) xs ?l)))"
      using assms(1) free True by (simp add: sell_clone_def add_a_item_def Let_def listed_def)
    then have w': "w' = ah_emit [AhCriterion g AUCTION_CREATED 1] (command_result g (aw_next_auction w) AUCTION_SELL_ITEM ERR_AUCTION_OK
        (ah_emit [DbSaveItem (aw_next_item w), DbInsAuction ?a, DbSaveGold g] (fold (take_from g) xs ?l)))" by simp
    have l: "book_ok ?l" "wealth ?l = wealth ?w1"
      using new_auction_ok [OF assms(4,5)] free assms(3) by (intro listed_ok [OF ok1]; simp)+
    note f = sold_ok [OF l take_all_ok [OF book_okD(1) [OF l(1)]]]
    show ?thesis unfolding w' using f wl1 by (simp add: emit_ok result_ok)
  qed
  then show "book_ok w'" "wealth w' = wealth w" by blast+
qed

lemma handle_sell_item_ok:
  assumes "handle_sell_item env g rq w = Some w'" "book_ok w" "aw_next_auction w < 0xFFFFFFFE" "ah_env_ok env"
  shows "book_ok w'" "wealth w' = wealth w"
proof -
  let ?w1 = "unfeign g w"
  have ok1: "book_ok ?w1" by (rule book_ok_unfeign [OF assms(2)])
  have wl: "wealth ?w1 = wealth w" by (rule wealth_unfeign [OF assms(2)])
  have nx: "aw_next_auction ?w1 < 0xFFFFFFFE"
    using book_view_eqD [OF book_view_unfeign [of g w]] assms(3) by simp
  have items: "book_ok w' \<and> wealth w' = wealth w"
    if "sell_items env g rq faction he et xs ?w1 = Some w'" "sr_buyout rq \<le> MAX_MONEY_AMOUNT"
      "get_auction_house_entry env faction = Some he" for faction he et xs
    using that(1) sell_whole_ok [OF _ ok1 nx that(2) house_entry_cut [OF assms(4) that(3)]]
      sell_clone_ok [OF _ ok1 nx that(2) house_entry_cut [OF assms(4) that(3)]] ok1 wl
    by (fastforce simp: sell_items_def Let_def result_ok split: if_splits option.splits)
  have "book_ok w' \<and> wealth w' = wealth w"
    using assms(1,2) ok1 wl items
    by (auto simp: handle_sell_item_def Let_def result_ok not_less split: if_splits option.splits sum.splits)
  then show "book_ok w'" "wealth w' = wealth w" by blast+
qed

section \<open>Charging the deposits\<close>

lemma book_ok_om_upd_absent: "map_of m i = None \<Longrightarrow> om_upd i f m = m"
  by (induction m) (auto simp: om_upd_def split: if_splits)

text \<open>A write through a pointer that keeps what the book depends on.\<close>

definition keeps_bid :: "(auction \<Rightarrow> auction) \<Rightarrow> bool" where
  "keeps_bid f \<longleftrightarrow> (\<forall>a. au_id (f a) = au_id a \<and> au_item (f a) = au_item a \<and> au_bid (f a) = au_bid a
     \<and> au_bidder (f a) = au_bidder a \<and> au_owner (f a) = au_owner a \<and> au_startbid (f a) = au_startbid a
     \<and> au_buyout (f a) = au_buyout a \<and> au_he (f a) = au_he a)"

lemma keeps_bid_writes [simp]:
  "keeps_bid (\<lambda>a. a\<lparr>au_deposit := d\<rparr>)" "keeps_bid (\<lambda>a. a\<lparr>au_expire := t\<rparr>)"
  by (simp_all add: keeps_bid_def)

lemma keeps_bidD: "keeps_bid f \<Longrightarrow> au_id (f a) = au_id a \<and> au_item (f a) = au_item a \<and> bid_ok (f a) = bid_ok a \<and> cut_ok (f a) = cut_ok a
    \<and> au_bid (f a) = au_bid a \<and> au_bidder (f a) = au_bidder a"
  by (simp add: keeps_bid_def bid_ok_def cut_ok_def)

lemma store_simps [simp]:
  "aw_players (store_auction r f w) = aw_players w" "mails_money (store_auction r f w) = mails_money w"
  "aw_pending (store_auction r f w) = aw_pending w" "aw_items (store_auction r f w) = aw_items w"
  "aw_next_auction (store_auction r f w) = aw_next_auction w"
  by (simp_all add: store_auction_def Let_def split: option.split)

lemma book_view_store: "book_view (store_auction r f w) = book_view (upd_auction (fst r) (snd r) f w)"
  by (simp add: store_auction_def Let_def book_views split: option.split)

lemma book_store: "book (store_auction r f w) = (book w)(fst r := om_upd (snd r) f (book w (fst r)))"
  using book_view_eqD [OF book_view_store [of r f w]] by (simp add: book_upd)

lemma book_ok_store:
  assumes "book_ok w" "keeps_bid f"
  shows "book_ok (store_auction r f w)"
proof (cases "map_of (book w (fst r)) (snd r)")
  case None
  then have "book (store_auction r f w) = book w" by (simp add: book_store book_ok_om_upd_absent)
  then have "book_view (store_auction r f w) = book_view w" by (simp add: book_view_def)
  then show ?thesis by (rule book_ok_same_players [OF assms(1)]) simp
next
  case (Some a)
  have p: "purses_ok (store_auction r f w)"
    by (simp add: purses_ok_cong [of _ w] book_okD(1) [OF assms(1)])
  note k = keeps_bidD [OF assms(2), of a] and h = houses_okD(2) [OF book_okD(2) [OF assms(1)] Some]
  show ?thesis
    by (rule book_ok_upd [OF assms(1) Some _ _ _ _ book_view_store p]) (use k h in auto)
qed

lemma share_simps [simp]:
  "aw_players (share_deposit x n y rs w) = aw_players w" "mails_money (share_deposit x n y rs w) = mails_money w"
  "aw_pending (share_deposit x n y rs w) = aw_pending w"
  by (induction x n y rs w rule: share_deposit.induct) (simp_all add: Let_def)

lemma book_ok_share: "book_ok w \<Longrightarrow> book_ok (share_deposit x n y rs w)"
  by (induction x n y rs w rule: share_deposit.induct) (simp_all add: Let_def book_ok_store)

lemma fold_store_ok:
  assumes "book_ok w" "keeps_bid f"
  shows "book_ok (fold (\<lambda>r. store_auction r f) rs w)" "aw_players (fold (\<lambda>r. store_auction r f) rs w) = aw_players w"
    "mails_money (fold (\<lambda>r. store_auction r f) rs w) = mails_money w" "aw_pending (fold (\<lambda>r. store_auction r f) rs w) = aw_pending w"
  using assms by (induction rs arbitrary: w) (simp_all add: book_ok_store)

text \<open>A seller's list of pending auctions is dropped, or its counter is written.\<close>

lemma pending_refs_del:
  assumes "om_inv m" "map_of m g = Some (rs, n)"
  shows "mset (concat (map (\<lambda>p. fst (snd p)) m)) = mset rs + mset (concat (map (\<lambda>p. fst (snd p)) (om_del g m)))"
  using assms
proof (induction m)
  case (Cons p m)
  show ?case
  proof (cases "fst p = g")
    case True
    then have "map_of m g = None" using Cons.prems by (cases p) (auto simp: om_inv_Cons dest: map_of_SomeD intro!: map_of_eq_None_iff [THEN iffD2])
    then have "om_del g m = m" by (auto simp: om_del_def filter_id_conv map_of_eq_None_iff)
    then show ?thesis using True Cons.prems by (cases p) (simp add: om_del_def)
  next
    case False
    then show ?thesis using Cons by (cases p) (auto simp: om_del_def om_inv_Cons)
  qed
qed simp

lemma pending_refs_set:
  assumes "om_inv m" "map_of m g = Some (rs, n)"
  shows "concat (map (\<lambda>p. fst (snd p)) (om_set g (rs, k) m)) = concat (map (\<lambda>p. fst (snd p)) m)"
  using assms
proof (induction g "(rs, k)" m rule: om_set.induct)
  case (2 g a b m)
  then show ?case by (auto simp: om_inv_Cons dest: map_of_SomeD split: if_splits) (force dest: map_of_SomeD)+
qed simp

lemma book_ok_drop_pending:
  assumes "book_ok w" "map_of (aw_pending w) g = Some (rs, n)"
  shows "book_ok (w\<lparr>aw_pending := om_del g (aw_pending w)\<rparr>)"
    and "set (pending_refs w) = set rs \<union> set (pending_refs (w\<lparr>aw_pending := om_del g (aw_pending w)\<rparr>))"
    and "set rs \<inter> set (pending_refs (w\<lparr>aw_pending := om_del g (aw_pending w)\<rparr>)) = {}"
    and "distinct rs"
proof -
  let ?v = "w\<lparr>aw_pending := om_del g (aw_pending w)\<rparr>"
  note pok = book_okD(4) [OF assms(1), unfolded pend_ok_def]
  have inv: "om_inv (aw_pending w)" using pok by blast
  have m: "mset (pending_refs w) = mset rs + mset (pending_refs ?v)"
    using pending_refs_del [OF inv assms(2)] by (simp add: pending_refs_def)
  show u: "set (pending_refs w) = set rs \<union> set (pending_refs ?v)"
    using arg_cong [OF m, of set_mset] by simp
  have d: "distinct (rs @ pending_refs ?v)"
    using pok m by (metis mset_append mset_eq_imp_distinct_iff)
  then show "set rs \<inter> set (pending_refs ?v) = {}" "distinct rs" by simp_all
  have "pend_ok ?v" using pok d u inv by (auto simp: pend_ok_def)
  moreover have "houses_ok ?v" "items_ok ?v" "purses_ok ?v"
    using assms(1) by (simp_all add: book_ok_def houses_ok_def items_ok_def purses_ok_def book_def)
  ultimately show "book_ok ?v" by (simp add: book_ok_def)
qed

lemma book_ok_count_pending:
  assumes "book_ok w" "map_of (aw_pending w) g = Some (rs, n)"
  shows "book_ok (w\<lparr>aw_pending := om_set g (rs, k) (aw_pending w)\<rparr>)"
    and "wealth (w\<lparr>aw_pending := om_set g (rs, k) (aw_pending w)\<rparr>) = wealth w"
proof -
  let ?v = "w\<lparr>aw_pending := om_set g (rs, k) (aw_pending w)\<rparr>"
  note pok = book_okD(4) [OF assms(1), unfolded pend_ok_def]
  have "om_inv (aw_pending w)" using pok by blast
  note r = pending_refs_set [OF this assms(2), of k]
  have "pend_ok ?v" using pok r by (simp add: pend_ok_def pending_refs_def)
  moreover have "houses_ok ?v" "items_ok ?v" "purses_ok ?v"
    using assms(1) by (simp_all add: book_ok_def houses_ok_def items_ok_def purses_ok_def book_def)
  ultimately show "book_ok ?v" by (simp add: book_ok_def)
  show "wealth ?v = wealth w"
    using r by (simp add: wealth_def players_money_def mails_money_def pending_refs_def book_worth_def book_def)
qed

text \<open>Whatever is charged, no purse exceeds its limit.\<close>

lemma purses_ok_modify:
  assumes "purses_ok w" "a < 2 ^ 31"
  shows "purses_ok (modify_money g a w)"
proof -
  have up: "purses_ok (upd_player g (\<lambda>p. p\<lparr>ap_money := m\<rparr>) w)" if "m \<le> MAX_MONEY_AMOUNT" for m
    using assms(1) that by (auto simp: purses_ok_def)
  have e: "purses_ok (ah_emit os w)" for os using assms(1) by (simp add: purses_ok_def)
  let ?m = "money_of w g"
  have m: "?m \<le> MAX_MONEY_AMOUNT"
    using purses_okD [OF assms(1)] by (auto simp: money_of_def split: option.split)
  have less: "?m + word_of_int a \<le> MAX_MONEY_AMOUNT" if "word_of_int (- a) < ?m"
  proof -
    have "word_of_int (- a) \<le> ?m" using that by simp
    then have "?m - word_of_int (- a) \<le> ?m" by (rule word_sub_le)
    moreover have "?m - word_of_int (- a) = ?m + word_of_int a" by (simp add: wi_hom_neg [symmetric])
    ultimately show ?thesis using m order_trans by metis
  qed
  have more: "?m + word_of_int a \<le> MAX_MONEY_AMOUNT" if lt: "?m < MAX_MONEY_AMOUNT - word_of_int a" and x: "(word_of_int a :: u32) \<le> MAX_MONEY_AMOUNT"
  proof -
    let ?a = "word_of_int a :: u32"
    have "unat (MAX_MONEY_AMOUNT - ?a) = unat MAX_MONEY_AMOUNT - unat ?a" using x by (simp add: unat_sub word_le_nat_alt)
    then have lt': "unat ?m + unat ?a < unat MAX_MONEY_AMOUNT" using lt unfolding word_less_nat_alt by linarith
    then have "unat ?m + unat ?a < 2 ^ 32" by (simp add: MAX_MONEY_AMOUNT_def)
    then have "unat (?m + ?a) = unat ?m + unat ?a" by (simp add: unat_word_ariths)
    then show ?thesis using lt' by (simp add: word_le_nat_alt)
  qed
  have small: "(word_of_int a :: u32) \<le> MAX_MONEY_AMOUNT" if "0 \<le> a"
    using that assms(2) by (simp add: word_le_def MAX_MONEY_AMOUNT_def uint_word_of_int)
  show ?thesis
    using less more small up e assms(1) by (simp add: modify_money_def Let_def)
qed

lemma neg_i32_less: "neg_i32 x < 2 ^ 31"
  using sint_less [of "- x"] by (simp add: neg_i32_def)

lemma pending_process_ok:
  assumes "pending_auction_process env g w = Some w'" "book_ok w"
  shows "book_ok w'"
proof (cases "map_of (aw_pending w) g")
  case None
  then show ?thesis using assms by (simp add: pending_auction_process_def)
next
  case (Some p)
  then obtain rs n where p: "map_of (aw_pending w) g = Some (rs, n)" by (cases p) simp
  obtain amount where w': "w' = modify_money g (neg_i32 amount)
      ((share_deposit amount (length rs) amount rs w)\<lparr>aw_pending := om_del g (aw_pending w)\<rparr>)"
    using assms(1) p by (auto simp: pending_auction_process_def Let_def split: option.splits list.splits)
  let ?s = "share_deposit amount (length rs) amount rs w"
  have s: "book_ok ?s" by (rule book_ok_share [OF assms(2)])
  have d: "book_ok (?s\<lparr>aw_pending := om_del g (aw_pending w)\<rparr>)"
    using book_ok_drop_pending(1) [OF s, of g] p by simp
  show ?thesis unfolding w'
    by (rule book_ok_view [OF d book_view_money purses_ok_modify [OF book_okD(1) [OF d] neg_i32_less]])
qed

lemma expire_pending_ok:
  assumes "expire_pending env g rs w = Some w'" "book_ok w" "map_of (aw_pending w) g = Some (rs, n)"
  shows "book_ok w'"
proof -
  let ?s = "fold (\<lambda>r. store_auction r (\<lambda>a. a\<lparr>au_expire := ev_now env\<rparr>)) rs w"
  note f = fold_store_ok [OF assms(2) keeps_bid_writes(2), of "ev_now env" rs]
  have "w' = ?s\<lparr>aw_pending := om_del g (aw_pending ?s)\<rparr>"
    using assms(1) by (simp add: expire_pending_def Let_def split: option.splits)
  then show ?thesis using book_ok_drop_pending(1) [OF f(1)] f(4) assms(3) by simp
qed

lemma update_pending_ok:
  "update_pending_one env g w = Some w' \<Longrightarrow> book_ok w \<Longrightarrow> book_ok w'"
  "update_pending_loop env gs w = Some w' \<Longrightarrow> book_ok w \<Longrightarrow> book_ok w'"
  "update_pending_auctions env w = Some w' \<Longrightarrow> book_ok w \<Longrightarrow> book_ok w'"
proof -
  have one: "book_ok v'" if "update_pending_one env g v = Some v'" "book_ok v" for g v v'
    using that pending_process_ok [OF _ that(2)] expire_pending_ok [OF _ that(2)] book_ok_count_pending(1) [OF that(2)]
    by (auto simp: update_pending_one_def split: option.splits if_splits)
  have loop: "book_ok v'" if "update_pending_loop env gs v = Some v'" "book_ok v" for gs v v'
    using that
  proof (induction gs arbitrary: v)
    case (Cons g gs)
    then obtain x where "update_pending_one env g v = Some x" "update_pending_loop env gs x = Some v'"
      by (auto split: option.splits)
    then show ?case using Cons.IH one Cons.prems(2) by blast
  qed simp
  show "update_pending_one env g w = Some w' \<Longrightarrow> book_ok w \<Longrightarrow> book_ok w'"
    "update_pending_loop env gs w = Some w' \<Longrightarrow> book_ok w \<Longrightarrow> book_ok w'"
    "update_pending_auctions env w = Some w' \<Longrightarrow> book_ok w \<Longrightarrow> book_ok w'"
    using one loop by (auto simp: update_pending_auctions_def)
qed


text \<open>Charging a deposit moves money from the seller to the auctions.\<close>

lemma insert_worth:
  assumes "book_ok w" "map_of (book w (fst r)) (snd r) = Some a" "r \<notin> R"
  shows "book_worth R w = book_worth (insert r R) w + unat (au_deposit a)"
proof -
  let ?v = "upd_house (fst r) (\<lambda>h. h\<lparr>ah_auctions := om_del (snd r) (ah_auctions h)\<rparr>) w"
  have v: "book ?v = (book w)(fst r := om_del (snd r) (book w (fst r)))" by (auto simp: book_def fun_eq_iff)
  note inv = houses_okD(1) [OF book_okD(2) [OF assms(1)]]
  have "book_worth R ?v = book_worth (insert r R) ?v"
  proof (rule book_worth_mono_refs)
    show "om_inv (book ?v s)" for s using inv by (simp add: v)
    fix s i a' assume "map_of (book ?v s) i = Some a'"
    then have "s \<noteq> fst r \<or> i \<noteq> snd r" using inv by (auto simp: v split: if_splits)
    then have "r \<noteq> (s, i)" by auto
    then show "(s, i) \<in> R \<longleftrightarrow> (s, i) \<in> insert r R" by auto
  qed
  then show ?thesis
    using book_worth_remove [OF inv assms(2) v, of R] book_worth_remove [OF inv assms(2) v, of "insert r R"] assms(3)
    by (simp add: auction_worth_def)
qed

lemma charge_worth:
  assumes "book_ok w" "map_of (book w (fst r)) (snd r) = Some a" "r \<notin> R"
  shows "book_worth R (store_auction r (\<lambda>a. a\<lparr>au_deposit := d\<rparr>) w) = book_worth (insert r R) w + unat d"
proof -
  let ?v = "store_auction r (\<lambda>a. a\<lparr>au_deposit := d\<rparr>) w"
  have ok: "book_ok ?v" by (rule book_ok_store [OF assms(1)]) simp
  have "map_of (book ?v (fst r)) (snd r) = Some (a\<lparr>au_deposit := d\<rparr>)" by (simp add: book_store assms(2))
  from insert_worth [OF ok this assms(3)] have "book_worth R ?v = book_worth (insert r R) ?v + unat d" by simp
  moreover have "book_worth (insert r R) ?v = book_worth (insert r R) w"
    using book_worth_upd [OF houses_okD(1) [OF book_okD(2) [OF assms(1)]] assms(2) book_store [of r "\<lambda>a. a\<lparr>au_deposit := d\<rparr>" w], of "insert r R"]
    by (cases "au_bidder a = 0") (simp_all add: auction_worth_def)
  ultimately show ?thesis by simp
qed

lemma present_store:
  "map_of (book (store_auction r f w) s) i \<noteq> None \<longleftrightarrow> map_of (book w s) i \<noteq> None"
  by (simp add: book_store)

lemma share_worth:
  assumes "book_ok w" "distinct rs" "set rs \<inter> R = {}" "rs \<noteq> []"
    and "\<forall>r \<in> set rs. map_of (book w (fst r)) (snd r) \<noteq> None"
    and "(length rs - 1) * (unat amount div n) \<le> unat remain"
  shows "book_worth R (share_deposit amount n remain rs w) = book_worth (R \<union> set rs) w + unat remain"
  using assms
proof (induction amount n remain rs w rule: share_deposit.induct)
  case (2 amount n remain r w)
  then obtain a where "map_of (book w (fst r)) (snd r) = Some a" by auto
  then show ?case using charge_worth [OF 2(1), of r a R remain] 2 by simp
next
  case (3 amount n remain r r' rs w)
  let ?d = "word_of_nat (unat amount div n) :: u32"
  let ?v = "store_auction r (\<lambda>a. a\<lparr>au_deposit := ?d\<rparr>) w"
  obtain a where a: "map_of (book w (fst r)) (snd r) = Some a" using "3.prems"(5) by auto
  have lt: "unat amount div n < 2 ^ LENGTH(32)"
    by (rule le_less_trans [OF div_le_dividend]) (rule unsigned_less)
  have ud: "unat ?d = unat amount div n" using lt by (simp add: unat_of_nat take_bit_nat_eq_self)
  have dr: "unat ?d \<le> unat remain" using "3.prems"(6) by (simp add: ud)
  then have sub: "unat (remain - ?d) = unat remain - unat ?d" by (intro unat_diff) (simp only: word_le_nat_alt)
  have "book_worth R (share_deposit amount n (remain - ?d) (r' # rs) ?v) = book_worth (R \<union> set (r' # rs)) ?v + unat (remain - ?d)"
  proof (rule "3.IH" [OF refl])
    show "book_ok ?v" by (rule book_ok_store [OF "3.prems"(1)]) simp
    show "(length (r' # rs) - 1) * (unat amount div n) \<le> unat (remain - ?d)"
      using "3.prems"(6) by (simp add: sub ud)
    show "\<forall>x \<in> set (r' # rs). map_of (book ?v (fst x)) (snd x) \<noteq> None"
      using "3.prems"(5) unfolding present_store by simp
  qed (use "3.prems" in auto)
  moreover have "book_worth (R \<union> set (r' # rs)) ?v = book_worth (insert r (R \<union> set (r' # rs))) w + unat ?d"
    using "3.prems"(2,3) by (intro charge_worth [OF "3.prems"(1) a]) auto
  moreover have "insert r (R \<union> set (r' # rs)) = R \<union> set (r # r' # rs)" by auto
  ultimately show ?case using dr sub by (simp add: Let_def)
qed simp

lemma deref_all_present:
  "deref_all w rs = Some as \<Longrightarrow> r \<in> set rs \<Longrightarrow> map_of (book w (fst r)) (snd r) \<noteq> None"
  by (induction w rs arbitrary: as rule: deref_all.induct) (auto simp: get_auction_book split: option.splits)

definition deposit_due :: "ah_env \<Rightarrow> (ah_side \<times> u32) list \<Rightarrow> auction_world \<Rightarrow> u32" where
  "deposit_due env rs w =
     (case deref_all w rs of
        Some (a # as) \<Rightarrow>
          (case aw_items w (au_item a) of
             Some it \<Rightarrow> get_auction_deposit env (au_he a) (au_etime a) it (sum_list (map au_count (a # as))) | None \<Rightarrow> 0)
      | _ \<Rightarrow> 0)"

definition pending_paid :: "ah_env \<Rightarrow> u32 \<Rightarrow> auction_world \<Rightarrow> bool" where
  "pending_paid env g w \<longleftrightarrow>
     (case map_of (aw_pending w) g of
        None \<Rightarrow> True | Some (rs, n) \<Rightarrow> connected w g \<and> has_enough_money w g (deposit_due env rs w))"

fun all_paid :: "ah_env \<Rightarrow> u32 list \<Rightarrow> auction_world \<Rightarrow> bool" where
  "all_paid env [] w \<longleftrightarrow> True"
| "all_paid env (g # gs) w \<longleftrightarrow> pending_paid env g w
     \<and> (case update_pending_one env g w of None \<Rightarrow> True | Some w1 \<Rightarrow> all_paid env gs w1)"

lemma pending_process_wealth:
  assumes "pending_auction_process env g w = Some w'" "book_ok w" "pending_paid env g w"
  shows "wealth w' = wealth w"
proof (cases "map_of (aw_pending w) g")
  case None
  then show ?thesis using assms by (simp add: pending_auction_process_def)
next
  case (Some p)
  then obtain rs n where p: "map_of (aw_pending w) g = Some (rs, n)" by (cases p) simp
  let ?x = "deposit_due env rs w"
  let ?s = "share_deposit ?x (length rs) ?x rs w"
  let ?d = "?s\<lparr>aw_pending := om_del g (aw_pending w)\<rparr>"
  have w': "w' = modify_money g (neg_i32 ?x) ?d"
    using assms(1) p by (auto simp: pending_auction_process_def deposit_due_def Let_def split: option.splits list.splits)
  obtain a as where as: "deref_all w rs = Some (a # as)"
    using assms(1) p by (auto simp: pending_auction_process_def split: option.splits list.splits)
  have s: "book_ok ?s" by (rule book_ok_share [OF assms(2)])
  have d: "book_ok ?d" using book_ok_drop_pending(1) [OF s, of g] p by simp
  note drop = book_ok_drop_pending [OF assms(2) p]
  have "has_enough_money ?d g ?x"
    using assms(3) p by (simp add: pending_paid_def has_enough_money_def money_of_def)
  note pay = pay_any [OF book_okD(1) [OF d] this]
  let ?R = "set (pending_refs (w\<lparr>aw_pending := om_del g (aw_pending w)\<rparr>))"
  have refs: "set (pending_refs w') = ?R"
    using book_view_eqD [OF book_view_money [of g "neg_i32 ?x" ?d]] by (simp add: w' pending_refs_def)
  have "book_worth ?R w' = book_worth ?R ?s"
  proof (rule book_worth_cong)
    have "book ?d = book ?s" by (simp add: book_def fun_eq_iff)
    then show "book w' = book ?s" using book_view_eqD [OF book_view_money [of g "neg_i32 ?x" ?d]] by (simp add: w')
  qed
  also have "\<dots> = book_worth (?R \<union> set rs) w + unat ?x"
  proof (rule share_worth [OF assms(2) drop(4)])
    show "rs \<noteq> []" using as by auto
    show "\<forall>r \<in> set rs. map_of (book w (fst r)) (snd r) \<noteq> None" using deref_all_present [OF as] by blast
    have "(length rs - 1) * (unat ?x div length rs) \<le> length rs * (unat ?x div length rs)" by simp
    then show "(length rs - 1) * (unat ?x div length rs) \<le> unat ?x"
      using times_div_less_eq_dividend le_trans by blast
  qed (use drop(3) in blast)
  finally have "book_worth ?R w' = book_worth (set (pending_refs w)) w + unat ?x"
    using drop(2) by (simp add: Un_commute)
  moreover have "players_money w' + unat ?x = players_money w"
    using pay(2) by (simp add: w' players_money_def)
  moreover have "mails_money w' = mails_money w"
    using pay(3) by (simp add: w') (simp add: mails_money_def share_simps [unfolded mails_money_def])
  ultimately show ?thesis by (simp add: wealth_def refs)
qed

lemma update_pending_wealth:
  "update_pending_loop env gs w = Some w' \<Longrightarrow> book_ok w \<Longrightarrow> all_paid env gs w \<Longrightarrow> wealth w' = wealth w"
proof (induction gs arbitrary: w)
  case (Cons g gs)
  then obtain x where x: "update_pending_one env g w = Some x" "update_pending_loop env gs x = Some w'" "all_paid env gs x" "pending_paid env g w"
    by (auto split: option.splits)
  have "wealth x = wealth w"
    using x(1,4) Cons.prems(2) pending_process_wealth [OF _ Cons.prems(2) x(4)] book_ok_count_pending(2) [OF Cons.prems(2)]
    by (auto simp: update_pending_one_def pending_paid_def split: option.splits if_splits)
  then show ?case using Cons.IH [OF x(2) update_pending_ok(1) [OF x(1) Cons.prems(2)] x(3)] by simp
qed simp

end
