(* ===== verification/AuctionSystem.thy ===== *)
theory AuctionSystem
  imports AuctionRuns
begin

text \<open>
  The auction house as a system of guarded events: its runs, what the updates finish, a worked run,
  and the properties.
\<close>


section \<open>Every run\<close>

text \<open>
  The requests of clients, the two updates of the world's timers, and a player the rest of the server
  changes (he logs in or out, gains or loses things). Each step comes with its surroundings, so time
  passes and rates are reloaded between steps.
\<close>

datatype ah_event =
    EvSell u32 sell_request
  | EvBid u32 guid u32 u32
  | EvCancel u32 guid u32
  | EvHello u32 guid
  | EvListBidder u32 guid "u32 list" u32 nat
  | EvListOwner u32 guid
  | EvListItems u32 guid string ah_search u8
  | EvListPending u32
  | EvUpdate
  | EvCharge
  | EvPlayer u32 ah_player

fun ah_try :: "ah_env \<times> ah_event \<Rightarrow> auction_world \<Rightarrow> auction_world option" where
  "ah_try (env, EvSell g rq) w = handle_sell_item env g rq w"
| "ah_try (env, EvBid g auctioneer i price) w = Some (handle_place_bid env g auctioneer i price w)"
| "ah_try (env, EvCancel g auctioneer i) w = Some (handle_remove_item env g auctioneer i w)"
| "ah_try (env, EvHello g auctioneer) w = Some (handle_auction_hello env g auctioneer w)"
| "ah_try (env, EvListBidder g auctioneer ids n len) w = Some (handle_list_bidder_items env g auctioneer ids n len w)"
| "ah_try (env, EvListOwner g auctioneer) w = Some (handle_list_owner_items env g auctioneer w)"
| "ah_try (env, EvListItems g auctioneer name q getall) w = Some (handle_list_items env g auctioneer name q getall w)"
| "ah_try (env, EvListPending g) w = Some (handle_list_pending_sales g w)"
| "ah_try (env, EvUpdate) w = Some (ah_update env w)"
| "ah_try (env, EvCharge) w = update_pending_auctions env w"
| "ah_try (env, EvPlayer g p) w = Some (w\<lparr>aw_players := om_set g p (aw_players w)\<rparr>)"

definition ah_step :: "ah_env \<times> ah_event \<Rightarrow> auction_world \<Rightarrow> auction_world" where
  "ah_step e w = (case ah_try e w of None \<Rightarrow> w | Some w' \<Rightarrow> w')"

text \<open>The server does not abort, the counter of auctions does not overflow, the tables are sane.\<close>

fun ah_running :: "ah_env \<times> ah_event \<Rightarrow> auction_world \<Rightarrow> bool" where
  "ah_running (env, e) w \<longleftrightarrow>
     ah_try (env, e) w \<noteq> None \<and> aw_next_auction w < 0xFFFFFFFE \<and> ah_env_ok env
     \<and> (case e of EvPlayer g p \<Rightarrow> g \<noteq> 0 \<and> ap_money p \<le> MAX_MONEY_AMOUNT | _ \<Rightarrow> True)"

text \<open>
  No auction leaves the book while its deposit is still to be charged, sellers are there and can pay
  when it is, and nobody's money changes elsewhere.
\<close>

fun ah_quiet :: "ah_env \<times> ah_event \<Rightarrow> auction_world \<Rightarrow> bool" where
  "ah_quiet (env, e) w \<longleftrightarrow> ah_running (env, e) w \<and>
     (case e of
        EvBid g auctioneer i price \<Rightarrow> \<forall>s. buys w s i price \<longrightarrow> (s, i) \<notin> set (pending_refs w)
      | EvCancel g auctioneer i \<Rightarrow> \<forall>s. (s, i) \<notin> set (pending_refs w)
      | EvUpdate \<Rightarrow> \<forall>s. due env w s
      | EvCharge \<Rightarrow> all_paid env (map fst (aw_pending w)) w
      | EvPlayer g p \<Rightarrow> map_option ap_money (map_of (aw_players w) g) = Some (ap_money p)
      | _ \<Rightarrow> True)"

text \<open>Requests for lists change neither the book nor any purse.\<close>

lemma neutral_ok:
  assumes "book_ok w" "book_view w' = book_view w" "aw_players w' = aw_players w" "aw_mails w' = aw_mails w"
  shows "book_ok w' \<and> wealth w' = wealth w"
  using book_ok_same_players [OF assms(1-3)] wealth_view [OF assms(2) players_money_cong [OF assms(3)] mails_money_cong [OF assms(4)]]
  by blast

lemma after_unfeign:
  assumes "book_ok w" "book_view w' = book_view (unfeign g w)" "aw_players w' = aw_players (unfeign g w)" "aw_mails w' = aw_mails (unfeign g w)"
  shows "book_ok w' \<and> wealth w' = wealth w"
  using neutral_ok [OF book_ok_unfeign [OF assms(1)] assms(2-4)] wealth_unfeign [OF assms(1)] by simp

lemma list_items_view:
  "book_view (snd (list_auction_items env s g q getall w)) = book_view w"
  "aw_players (snd (list_auction_items env s g q getall w)) = aw_players w"
  "aw_mails (snd (list_auction_items env s g q getall w)) = aw_mails w"
  by (simp_all add: list_auction_items_def Let_def book_views)

lemma requests_ok:
  assumes "book_ok w"
  shows "book_ok (handle_auction_hello env g a w) \<and> wealth (handle_auction_hello env g a w) = wealth w"
    and "book_ok (handle_list_bidder_items env g a ids n len w) \<and> wealth (handle_list_bidder_items env g a ids n len w) = wealth w"
    and "book_ok (handle_list_owner_items env g a w) \<and> wealth (handle_list_owner_items env g a w) = wealth w"
    and "book_ok (handle_list_items env g a name q getall w) \<and> wealth (handle_list_items env g a name q getall w) = wealth w"
    and "book_ok (handle_list_pending_sales g w) \<and> wealth (handle_list_pending_sales g w) = wealth w"
proof -
  note u = after_unfeign [OF assms, where g = g]
  show "book_ok (handle_auction_hello env g a w) \<and> wealth (handle_auction_hello env g a w) = wealth w"
    using assms u by (auto simp: handle_auction_hello_def Let_def book_views split: option.split)
  show "book_ok (handle_list_owner_items env g a w) \<and> wealth (handle_list_owner_items env g a w) = wealth w"
    using assms u by (auto simp: handle_list_owner_items_def Let_def book_views split: option.split)
  show "book_ok (handle_list_bidder_items env g a ids n len w) \<and> wealth (handle_list_bidder_items env g a ids n len w) = wealth w"
    using assms by (auto simp: handle_list_bidder_items_def Let_def book_views intro!: u [THEN conjunct1] u [THEN conjunct2] split: option.split)
  show "book_ok (handle_list_items env g a name q getall w) \<and> wealth (handle_list_items env g a name q getall w) = wealth w"
    using assms by (auto simp: handle_list_items_def Let_def split_beta list_items_view book_views intro!: u [THEN conjunct1] u [THEN conjunct2] split: option.split)
  show "book_ok (handle_list_pending_sales g w) \<and> wealth (handle_list_pending_sales g w) = wealth w"
    unfolding handle_list_pending_sales_def using assms by (simp add: emit_ok)
qed


lemma player_set_ok:
  assumes "book_ok w" "g \<noteq> 0" "ap_money p \<le> MAX_MONEY_AMOUNT"
  shows "book_ok (w\<lparr>aw_players := om_set g p (aw_players w)\<rparr>)"
    and "map_option ap_money (map_of (aw_players w) g) = Some (ap_money p) \<Longrightarrow>
      wealth (w\<lparr>aw_players := om_set g p (aw_players w)\<rparr>) = wealth w"
proof -
  let ?v = "w\<lparr>aw_players := om_set g p (aw_players w)\<rparr>"
  have v: "book_view ?v = book_view w" by (simp add: book_view_def book_def fun_eq_iff)
  have inv: "om_inv (aw_players w)" using book_okD(1) [OF assms(1)] by (simp add: purses_ok_def)
  have "purses_ok ?v" using book_okD(1) [OF assms(1)] assms(2,3) by (auto simp: purses_ok_def)
  then show "book_ok ?v" by (rule book_ok_view [OF assms(1) v])
  assume "map_option ap_money (map_of (aw_players w) g) = Some (ap_money p)"
  then obtain q where q: "map_of (aw_players w) g = Some q" "ap_money q = ap_money p" by auto
  have "om_set g p (aw_players w) = om_upd g (\<lambda>_. p) (aw_players w)"
    using inv q(1) by (intro om_ext) (auto simp: fun_eq_iff)
  then have "players_money ?v = players_money w"
    using om_sum_upd [OF inv q(1), of "\<lambda>_ p. unat (ap_money p)" "\<lambda>_. p"] q(2) by (simp add: players_money_def)
  then show "wealth ?v = wealth w" by (rule wealth_view [OF v]) (simp add: mails_money_def)
qed

lemma book_ok_step:
  assumes "book_ok w" "ah_running e w"
  shows "book_ok (ah_step e w)"
proof (cases e)
  case (Pair env ev)
  obtain w' where w': "ah_try (env, ev) w = Some w'" "ah_step e w = w'"
    using assms(2) Pair by (auto simp: ah_step_def)
  have ok: "aw_next_auction w < 0xFFFFFFFE" "ah_env_ok env" using assms(2) Pair by simp_all
  show ?thesis
  proof (cases ev)
    case (EvSell g rq)
    then show ?thesis using w' handle_sell_item_ok(1) [OF _ assms(1) ok] by simp
  next
    case EvCharge
    then show ?thesis using w' update_pending_ok(3) [OF _ assms(1)] by simp
  next
    case (EvPlayer g p)
    then show ?thesis using w' player_set_ok(1) [OF assms(1), of g p] assms(2) Pair by auto
  qed (use w' assms(1) handle_place_bid_ok(1) handle_remove_item_ok(1) ah_update_ok(1) requests_ok in auto)
qed

lemma wealth_step:
  assumes "book_ok w" "ah_quiet e w"
  shows "wealth (ah_step e w) \<le> wealth w"
proof (cases e)
  case (Pair env ev)
  have run: "ah_running (env, ev) w" using assms(2) Pair by simp
  then obtain w' where w': "ah_try (env, ev) w = Some w'" "ah_step e w = w'"
    using Pair by (auto simp: ah_step_def)
  have ok: "aw_next_auction w < 0xFFFFFFFE" "ah_env_ok env" "rates_ok env" using run by (simp_all add: ah_env_ok_def)
  show ?thesis
  proof (cases ev)
    case (EvSell g rq)
    then show ?thesis using w' handle_sell_item_ok(2) [OF _ assms(1) ok(1,2)] by simp
  next
    case EvCharge
    then show ?thesis using w' assms(2) Pair update_pending_wealth [OF _ assms(1), of env] by (simp add: update_pending_auctions_def)
  next
    case (EvPlayer g p)
    then show ?thesis using w' player_set_ok(2) [OF assms(1), of g p] assms(2) Pair by auto
  next
    case (EvBid g a i x)
    then show ?thesis using w' assms(2) Pair handle_place_bid_ok(2) [OF assms(1) ok(3)] by auto
  next
    case (EvCancel g a i)
    then show ?thesis using w' assms(2) Pair handle_remove_item_ok(2) [OF assms(1)] by auto
  next
    case EvUpdate
    then show ?thesis using w' assms(2) Pair ah_update_ok(2) [OF assms(1) ok(3)] by auto
  qed (use w' assms(1) requests_ok in auto)
qed

interpretation auctions: guarded_system ah_step ah_running book_ok
  by unfold_locales (rule book_ok_step)

interpretation money: guarded_system ah_step ah_quiet "\<lambda>w. book_ok w \<and> wealth w \<le> n" for n
proof unfold_locales
  fix w and e :: "ah_env \<times> ah_event"
  assume a: "book_ok w \<and> wealth w \<le> n" "ah_quiet e w"
  then have "ah_running e w" by (cases e) simp
  then show "book_ok (ah_step e w) \<and> wealth (ah_step e w) \<le> n"
    using a book_ok_step wealth_step le_trans by blast
qed

text \<open>The houses of a new realm, with the players of the server.\<close>

definition new_houses :: "(u32, ah_player) omap \<Rightarrow> u32 \<Rightarrow> auction_world" where
  "new_houses ps next_item =
     \<lparr>aw_houses = (\<lambda>_. \<lparr>ah_auctions = [], ah_throttle = (\<lambda>_. None)\<rparr>), aw_items = (\<lambda>_. None), aw_pending = [], aw_players = ps,
      aw_mails = [], aw_next_auction = 1, aw_next_item = next_item, aw_out = []\<rparr>"

definition players_ok :: "(u32, ah_player) omap \<Rightarrow> bool" where
  "players_ok ps \<longleftrightarrow> om_inv ps \<and> list_all (\<lambda>(g, p). g \<noteq> 0 \<and> ap_money p \<le> MAX_MONEY_AMOUNT) ps"

lemma new_houses_ok: "players_ok ps \<Longrightarrow> book_ok (new_houses ps n)"
  by (auto simp: book_ok_def players_ok_def purses_ok_def houses_ok_def items_ok_def pend_ok_def pending_refs_def new_houses_def
      book_def list_all_iff om_inv_def dest!: map_of_SomeD)

lemma new_houses_wealth: "wealth (new_houses ps n) = om_sum (\<lambda>_ p. unat (ap_money p)) ps"
  by (simp add: wealth_def players_money_def mails_money_def book_worth_def house_worth_def book_def new_houses_def)


section \<open>What is expired leaves\<close>

text \<open>Who gets the item of an auction whose time is over.\<close>

definition taker :: "auction \<Rightarrow> u32" where
  "taker a = (if au_bidder a = 0 \<and> au_bid a = 0 then au_owner a else au_bidder a)"

definition mailed :: "auction_world \<Rightarrow> ah_item \<Rightarrow> u32 \<Rightarrow> bool" where
  "mailed w it g \<longleftrightarrow> (\<exists>m \<in> set (aw_mails w). ml_item m = Some it \<and> ml_to m = g)"

lemma aw_mails_remove [simp]: "aw_mails (remove_auction s a w) = aw_mails w"
  by (simp add: remove_auction_def)

lemma mails_sent:
  "set (aw_mails w) \<subseteq> set (aw_mails (send_auction_expired_mail a w))"
  "set (aw_mails w) \<subseteq> set (aw_mails (send_auction_won_mail a w))"
  "set (aw_mails w) \<subseteq> set (aw_mails (send_auction_successful_mail env a w))"
  by (auto simp: send_auction_expired_mail_def send_auction_won_mail_def send_auction_successful_mail_def Let_def send_mail_def
      split: option.split)

lemma char_exists_cong: "aw_players w' = aw_players w \<Longrightarrow> char_exists w' g = char_exists w g"
  by (simp add: char_exists_def connected_def account_of_def)

lemma finish_players: "aw_players (finish_auction env s a w) = aw_players w"
  by (simp add: finish_auction_def Let_def send_auction_expired_mail_def send_auction_won_mail_def send_auction_successful_mail_def split: option.split)

lemma finish_items: "j \<noteq> au_item a \<Longrightarrow> aw_items (finish_auction env s a w) j = aw_items w j"
  by (auto simp: finish_auction_def Let_def send_auction_expired_mail_def send_auction_won_mail_def send_auction_successful_mail_def split: option.split)

lemma finish_mails:
  shows "set (aw_mails w) \<subseteq> set (aw_mails (finish_auction env s a w))"
    and "aw_items w (au_item a) = Some it \<Longrightarrow> char_exists w (taker a) \<Longrightarrow> mailed (finish_auction env s a w) it (taker a)"
proof -
  show "set (aw_mails w) \<subseteq> set (aw_mails (finish_auction env s a w))"
    using mails_sent(1) [of w a] order_trans [OF mails_sent(3) [of w env a] mails_sent(2) [of _ a]]
    by (simp add: finish_auction_def Let_def)
  assume it: "aw_items w (au_item a) = Some it" and c: "char_exists w (taker a)"
  let ?v = "send_auction_successful_mail env a w"
  have v: "aw_items ?v = aw_items w" "aw_players ?v = aw_players w"
    by (simp_all add: send_auction_successful_mail_def Let_def)
  have "mailed (send_auction_expired_mail a w) it (taker a)" if "au_bidder a = 0 \<and> au_bid a = 0"
    using it c that by (simp add: mailed_def taker_def send_auction_expired_mail_def send_mail_def)
  moreover have "mailed (send_auction_won_mail a ?v) it (taker a)" if "\<not> (au_bidder a = 0 \<and> au_bid a = 0)"
    using it c that v char_exists_cong [OF v(2)] by (auto simp: mailed_def taker_def send_auction_won_mail_def send_mail_def Let_def)
  ultimately show "mailed (finish_auction env s a w) it (taker a)"
    by (simp add: finish_auction_def Let_def mailed_def)
qed

lemma finish_loop_items:
  assumes "book_ok w" "distinct (map fst ps)" "\<forall>p \<in> set ps. map_of (book w s) (fst p) = Some (snd p)"
  shows "set (aw_mails w) \<subseteq> set (aw_mails (fold (\<lambda>p w. if expired env (snd p) then finish_auction env s (snd p) w else w) ps w))
    \<and> aw_players (fold (\<lambda>p w. if expired env (snd p) then finish_auction env s (snd p) w else w) ps w) = aw_players w
    \<and> map_of (book (fold (\<lambda>p w. if expired env (snd p) then finish_auction env s (snd p) w else w) ps w) s) i
        = (if \<exists>p \<in> set ps. fst p = i \<and> expired env (snd p) then None else map_of (book w s) i)
    \<and> (\<forall>p it. p \<in> set ps \<and> expired env (snd p) \<and> aw_items w (au_item (snd p)) = Some it \<and> char_exists w (taker (snd p)) \<longrightarrow>
         mailed (fold (\<lambda>p w. if expired env (snd p) then finish_auction env s (snd p) w else w) ps w) it (taker (snd p)))
    \<and> (\<forall>j. (\<forall>p \<in> set ps. au_item (snd p) \<noteq> j) \<longrightarrow>
         aw_items (fold (\<lambda>p w. if expired env (snd p) then finish_auction env s (snd p) w else w) ps w) j = aw_items w j)"
  using assms
proof (induction ps arbitrary: w)
  case (Cons p ps)
  show ?case
  proof (cases "expired env (snd p)")
    case False
    then show ?thesis using Cons.IH [OF Cons.prems(1)] Cons.prems by auto
  next
    case True
    let ?v = "finish_auction env s (snd p) w"
    have mp: "map_of (book w s) (fst p) = Some (snd p)" using Cons.prems by simp
    note f = finish_auction_book [OF Cons.prems(1) mp, of env]
    have inv: "om_inv (book w s)" using houses_okD(1) [OF book_okD(2) [OF Cons.prems(1)]] .
    have stay: "\<forall>q \<in> set ps. map_of (book ?v s) (fst q) = Some (snd q)"
      using others_stay [OF Cons.prems(2,3)] by (simp add: f(3))
    have dist: "distinct (map fst ps)" using Cons.prems(2) by simp
    note IH = Cons.IH [OF f(1) dist stay]
    note m = finish_mails [where w = w and env = env and s = s and a = "snd p"]
    have item: "aw_items ?v (au_item (snd q)) = aw_items w (au_item (snd q))" if "q \<in> set ps" for q
    proof (rule finish_items)
      have "fst q \<in> set (map fst ps)" using that by simp
      moreover have "fst p \<notin> set (map fst ps)" using Cons.prems(2) by (simp only: list.map distinct.simps(2)) blast
      ultimately have ne: "fst q \<noteq> fst p" by metis
      have mq: "map_of (book w s) (fst q) = Some (snd q)" using Cons.prems that by auto
      show "au_item (snd q) \<noteq> au_item (snd p)"
        using items_okD(2) [OF book_okD(3) [OF Cons.prems(1)] mq mp] ne by blast
    qed
    let ?fin = "fold (\<lambda>p w. if expired env (snd p) then finish_auction env s (snd p) w else w) ps ?v"
    have sub: "set (aw_mails ?v) \<subseteq> set (aw_mails ?fin)" using IH by blast
    have "mailed ?fin it (taker (snd q))"
      if "q \<in> set (p # ps)" "expired env (snd q)" "aw_items w (au_item (snd q)) = Some it" "char_exists w (taker (snd q))" for q it
    proof (cases "q = p")
      case True
      then show ?thesis using m(2) that sub by (auto simp: mailed_def)
    next
      case False
      then have "q \<in> set ps" using that(1) by simp
      moreover from this have "aw_items ?v (au_item (snd q)) = Some it" using item that(3) by simp
      moreover have "char_exists ?v (taker (snd q))" using that(4) char_exists_cong [OF finish_players [of env s "snd p" w]] by simp
      ultimately show ?thesis using that(2) IH by blast
    qed
    moreover have "map_of (book ?fin s) i = (if \<exists>q \<in> set (p # ps). fst q = i \<and> expired env (snd q) then None else map_of (book w s) i)"
      using IH inv True by (auto simp: f(3))
    moreover have "aw_items ?fin j = aw_items w j" if "\<forall>q \<in> set (p # ps). au_item (snd q) \<noteq> j" for j
      using IH that finish_items [of j "snd p" env s w] by auto
    moreover have "set (aw_mails w) \<subseteq> set (aw_mails ?fin)" using m(1) sub by blast
    moreover have "aw_players ?fin = aw_players w" using IH by (simp add: finish_players)
    ultimately show ?thesis using True by simp
  qed
qed simp


lemma house_update_items:
  assumes "book_ok w"
  shows "set (aw_mails w) \<subseteq> set (aw_mails (house_update env s w))"
    and "aw_players (house_update env s w) = aw_players w"
    and "map_of (book (house_update env s w) s) i =
      (case map_of (book w s) i of None \<Rightarrow> None | Some a \<Rightarrow> if expired env a then None else Some a)"
    and "map_of (book w s) i = Some a \<Longrightarrow> expired env a \<Longrightarrow> aw_items w (au_item a) = Some it \<Longrightarrow> char_exists w (taker a) \<Longrightarrow>
      mailed (house_update env s w) it (taker a)"
    and "s' \<noteq> s \<Longrightarrow> map_of (book w s') i = Some a \<Longrightarrow> aw_items (house_update env s w) (au_item a) = aw_items w (au_item a)"
proof -
  let ?w1 = "upd_house s (\<lambda>h. h\<lparr>ah_throttle := (\<lambda>g. case ah_throttle h g of
                Some t \<Rightarrow> if t \<le> ev_now env then None else Some t | None \<Rightarrow> None)\<rparr>) w"
  let ?ps = "book w s"
  let ?fin = "fold (\<lambda>p w. if expired env (snd p) then finish_auction env s (snd p) w else w) ?ps ?w1"
  have eq: "house_update env s w = (if ?ps = [] then w else ?fin)"
    by (simp add: house_update_def Let_def book_def)
  have v: "book_view ?w1 = book_view w" by (rule book_view_throttle)
  note b = book_eq_view [OF v]
  have ok1: "book_ok ?w1" by (rule book_ok_same_players [OF assms v]) simp
  have inv: "om_inv ?ps" using houses_okD(1) [OF book_okD(2) [OF assms]] .
  have all: "\<forall>p \<in> set ?ps. map_of (book ?w1 s) (fst p) = Some (snd p)"
    unfolding b(1) using om_inv_distinct [OF inv] by simp
  note f = finish_loop_items [OF ok1 om_inv_distinct [OF inv] all, where env = env and i = i]
  have c: "char_exists ?w1 g = char_exists w g" for g by (rule char_exists_cong) simp
  show "set (aw_mails w) \<subseteq> set (aw_mails (house_update env s w))" "aw_players (house_update env s w) = aw_players w"
    using f by (simp_all add: eq)
  have "(\<exists>p \<in> set ?ps. fst p = i \<and> expired env (snd p)) \<longleftrightarrow> (\<exists>a. map_of ?ps i = Some a \<and> expired env a)"
    using om_inv_distinct [OF inv] by (metis fst_conv map_of_SomeD map_of_is_SomeI prod.collapse snd_conv)
  then show "map_of (book (house_update env s w) s) i =
      (case map_of (book w s) i of None \<Rightarrow> None | Some a \<Rightarrow> if expired env a then None else Some a)"
    using f by (auto simp: eq b(1) split: option.split)
  show "map_of (book w s) i = Some a \<Longrightarrow> expired env a \<Longrightarrow> aw_items w (au_item a) = Some it \<Longrightarrow> char_exists w (taker a) \<Longrightarrow>
      mailed (house_update env s w) it (taker a)"
    using f map_of_SomeD [of ?ps i a] c by (auto simp: eq)
  assume s': "s' \<noteq> s" and m: "map_of (book w s') i = Some a"
  have "au_item (snd p) \<noteq> au_item a" if "p \<in> set ?ps" for p
  proof -
    have "map_of (book w s) (fst p) = Some (snd p)" using that all b(1) by simp
    then show ?thesis using items_okD(2) [OF book_okD(3) [OF assms] _ m] s' by blast
  qed
  then show "aw_items (house_update env s w) (au_item a) = aw_items w (au_item a)"
    using f by (simp add: eq)
qed

lemma mailed_mono: "mailed w it g \<Longrightarrow> set (aw_mails w) \<subseteq> set (aw_mails w') \<Longrightarrow> mailed w' it g"
  by (auto simp: mailed_def)

lemma update_items:
  assumes "book_ok w"
  shows "get_auction (ah_update env w) s i =
      (case get_auction w s i of None \<Rightarrow> None | Some a \<Rightarrow> if expired env a then None else Some a)"
    and "get_auction w s i = Some a \<Longrightarrow> expired env a \<Longrightarrow> aw_items w (au_item a) = Some it \<Longrightarrow> char_exists w (taker a) \<Longrightarrow>
      mailed (ah_update env w) it (taker a)"
proof -
  let ?w1 = "house_update env AhHorde w"
  let ?w2 = "house_update env AhAlliance ?w1"
  let ?w3 = "house_update env AhNeutral ?w2"
  have eq: "ah_update env w = ?w3" by (simp add: ah_update_def)
  have ok1: "book_ok ?w1" by (rule house_update_ok(1) [OF assms])
  have ok2: "book_ok ?w2" by (rule house_update_ok(1) [OF ok1])
  note b1 = house_update_ok(3) [OF assms, where env = env and s = AhHorde]
    and b2 = house_update_ok(3) [OF ok1, where env = env and s = AhAlliance]
    and b3 = house_update_ok(3) [OF ok2, where env = env and s = AhNeutral]
  note u1 = house_update_items [OF assms, where env = env and s = AhHorde]
    and u2 = house_update_items [OF ok1, where env = env and s = AhAlliance]
    and u3 = house_update_items [OF ok2, where env = env and s = AhNeutral]
  note c1 = char_exists_cong [OF u1(2)] and c2 = char_exists_cong [OF u2(2)]
  show "get_auction (ah_update env w) s i = (case get_auction w s i of None \<Rightarrow> None | Some a \<Rightarrow> if expired env a then None else Some a)"
    unfolding eq get_auction_book
    by (cases s) (simp_all add: u1(3) u2(3) u3(3) b1 b2 b3)
  assume g: "get_auction w s i = Some a" "expired env a" "aw_items w (au_item a) = Some it" "char_exists w (taker a)"
  then have m: "map_of (book w s) i = Some a" by (simp add: get_auction_book)
  show "mailed (ah_update env w) it (taker a)"
  proof (cases s)
    case AhHorde
    then have "mailed ?w1 it (taker a)" using u1(4) m g by blast
    then show ?thesis unfolding eq using mailed_mono u2(1) u3(1) by blast
  next
    case AhAlliance
    then have m1: "map_of (book ?w1 AhAlliance) i = Some a" and "aw_items ?w1 (au_item a) = Some it"
      using m b1 u1(5) [of AhAlliance i a] g(3) by simp_all
    then have "mailed ?w2 it (taker a)" using u2(4) g c1 by blast
    then show ?thesis unfolding eq using mailed_mono u3(1) by blast
  next
    case AhNeutral
    then have m1: "map_of (book ?w1 AhNeutral) i = Some a" "aw_items ?w1 (au_item a) = Some it"
      using m b1 u1(5) [of AhNeutral i a] g(3) by simp_all
    then have "map_of (book ?w2 AhNeutral) i = Some a" "aw_items ?w2 (au_item a) = Some it"
      using b2 u2(5) [of AhNeutral i a] by simp_all
    then show ?thesis unfolding eq using u3(4) g c1 c2 by blast
  qed
qed


section \<open>Examples\<close>

text \<open>Two players, one item, rates of zero: a sale, a bid, the charge, the end of the auction.\<close>

definition ahx_template :: item_template where
  "ahx_template = \<lparr>tp_entry = 25, tp_sell_price = 0, tp_class = 2, tp_subclass = 7, tp_inv_type = 21, tp_quality = 1, tp_req_level = 1,
     tp_flags = 0, tp_name = ''Worn Shortsword''\<rparr>"

definition ahx_item :: ah_item where
  "ahx_item = \<lparr>it_guid = 70, it_template = ahx_template, it_count = 1, it_max_stack = 1, it_can_trade = True, it_nonempty_bag = False,
     it_duration = 0, it_random = 0, it_suffix = 0, it_charges = 0, it_enchants = []\<rparr>"

definition ahx_env :: "rat \<Rightarrow> int \<Rightarrow> utf8_lib \<Rightarrow> ah_env" where
  "ahx_env rate t lib = \<lparr>ev_two_side = False, ev_faction = (\<lambda>f. Some f),
     ev_house = (\<lambda>h. Some \<lparr>he_id = h, he_faction = 0, he_deposit = 15, he_cut = 5\<rparr>), ev_rate_deposit = rate, ev_rate_cut = rate,
     ev_rate_time = 0, ev_now = t, ev_mail_delay = 3600, ev_level_req = 1, ev_getall_delay = 900, ev_search_delay = 300,
     ev_auctioneer = (\<lambda>_. Some 2), ev_spawn_faction = (\<lambda>_. Some 2), ev_template_known = (\<lambda>_. True), ev_clone = (\<lambda>it. it),
     ev_usable = (\<lambda>_ _. True), ev_locale_name = (\<lambda>_ _. None), ev_suffix = (\<lambda>_ _. None), ev_utf8 = lib\<rparr>"

definition ahx_player :: "u32 \<Rightarrow> u32 \<Rightarrow> ah_item list \<Rightarrow> ah_player" where
  "ahx_player acc m its = \<lparr>ap_account = acc, ap_money = m, ap_items = its, ap_online = True, ap_in_world = True, ap_feigning = False, ap_level = 10\<rparr>"

definition ahx_world :: "auction list \<Rightarrow> (u32, (ah_side \<times> u32) list \<times> u32) omap \<Rightarrow> (u32, ah_player) omap \<Rightarrow> ah_mail list \<Rightarrow> u32 \<Rightarrow> ah_out list \<Rightarrow> auction_world" where
  "ahx_world as pend ps ms n os =
     \<lparr>aw_houses = (\<lambda>s. \<lparr>ah_auctions = (if s = AhAlliance then map (\<lambda>a. (au_id a, a)) as else []), ah_throttle = (\<lambda>_. None)\<rparr>),
      aw_items = (\<lambda>g. if as \<noteq> [] \<and> g = 70 then Some ahx_item else None), aw_pending = pend, aw_players = ps,
      aw_mails = ms, aw_next_auction = n, aw_next_item = 90, aw_out = os\<rparr>"

definition ahx_players :: "(u32, ah_player) omap" where
  "ahx_players = [(1, ahx_player 10 500 [ahx_item]), (2, ahx_player 20 900 [])]"

definition ahx_sell :: sell_request where
  "ahx_sell = \<lparr>sr_auctioneer = 5, sr_items = [(guid_global HItem 70, 1)], sr_bid = 100, sr_buyout = 300, sr_etime = 720\<rparr>"

lemma ah_env_ok_ex: "0 \<le> rate \<Longrightarrow> rate \<le> 1 \<Longrightarrow> ah_env_ok (ahx_env rate t lib)"
  by (simp add: ah_env_ok_def rates_ok_def ahx_env_def)

lemma ahx_players_ok: "players_ok ahx_players"
  by (simp add: players_ok_def ahx_players_def ahx_player_def om_inv_def MAX_MONEY_AMOUNT_def)

definition ahx_sold :: "int \<Rightarrow> auction" where
  "ahx_sold t = \<lparr>au_id = 1, au_house = 2, au_item = 70, au_entry = 25, au_count = 1, au_owner = 1, au_startbid = 100, au_bid = 0,
     au_buyout = 300, au_expire = t, au_bidder = 0, au_deposit = 0, au_etime = 43200,
     au_he = \<lparr>he_id = 2, he_faction = 0, he_deposit = 15, he_cut = 5\<rparr>\<rparr>"

lemma ahx_world_new: "new_houses ahx_players 90 = ahx_world [] [] ahx_players [] 1 []"
  by (simp add: new_houses_def ahx_world_def fun_eq_iff)

lemma f32_zero [simp]: "f32 0 = 0" "u32_of_f32 0 = 0" "i32_of_f32 0 = 0" "f32_of_u32 0 = 0"
  by (simp_all add: f32_def u32_of_f32_def i32_of_f32_def trunc_def f32_of_u32_def)

lemma item_guid_ex: "guid_global HItem 70 \<noteq> 0"
  by code_simp

lemma alliance_mask: "(2 :: u32) AND FACTION_MASK_ALLIANCE \<noteq> 0"
  by code_simp

lemma ahx_sides: "get_auctions_map (ahx_env rate t lib) 2 = AhAlliance"
  "get_auction_house_entry (ahx_env rate t lib) 2 = Some \<lparr>he_id = 2, he_faction = 0, he_deposit = 15, he_cut = 5\<rparr>"
  by (simp_all add: get_auctions_map_def get_auction_house_entry_def ahx_env_def alliance_mask AUCTIONHOUSE_ALLIANCE_def)

lemma ahx_env_simps [simp]:
  "ev_two_side (ahx_env rate t lib) = False" "ev_auctioneer (ahx_env rate t lib) a = Some 2" "ev_spawn_faction (ahx_env rate t lib) a = Some 2"
  "ev_rate_deposit (ahx_env rate t lib) = rate" "ev_rate_cut (ahx_env rate t lib) = rate" "ev_rate_time (ahx_env rate t lib) = 0"
  "ev_now (ahx_env rate t lib) = t" "ev_mail_delay (ahx_env rate t lib) = 3600"
  by (simp_all add: ahx_env_def)

lemma ahx_sell_simps:
  "length (sr_items ahx_sell) = 1" "sr_bid ahx_sell = 100" "sr_buyout ahx_sell = 300" "sr_etime ahx_sell = 720" "\<not> sell_fields_bad (sr_items ahx_sell)"
  using item_guid_ex by (simp_all add: ahx_sell_def sell_fields_bad_def)

lemma ahx_sell_step:
  "\<exists>os. ah_try (ahx_env 0 t lib, EvSell 1 ahx_sell) (ahx_world [] [] ahx_players [] 1 []) =
     Some (ahx_world [ahx_sold t] [(1, [(AhAlliance, 1)], 0)] [(1, ahx_player 10 500 []), (2, ahx_player 20 900 [])] [] 2 os)"
proof -
  let ?w = "ahx_world [] [] ahx_players [] 1 []"
  let ?he = "\<lparr>he_id = 2, he_faction = 0, he_deposit = 15, he_cut = 5\<rparr> :: ah_entry"
  have col: "collect_items ?w 1 0 (sr_items ahx_sell) = Inr [(ahx_item, 1)]"
    by (simp add: ahx_sell_def ahx_world_def ahx_players_def ahx_player_def item_by_guid_def items_of_def may_sell_def ahx_item_def ahx_template_def)
  have unf: "unfeign 1 ?w = ?w"
    by (simp add: unfeign_def ahx_world_def ahx_players_def ahx_player_def)
  have go: "ah_try (ahx_env 0 t lib, EvSell 1 ahx_sell) ?w = sell_items (ahx_env 0 t lib) 1 ahx_sell 2 ?he 43200 [(ahx_item, 1)] ?w"
    using col unf by (simp add: handle_sell_item_def ahx_sell_simps ahx_sides MAX_AUCTION_ITEMS_def MAX_MONEY_AMOUNT_def
        sell_duration_ok_def MIN_AUCTION_TIME_def)
  have dep: "get_auction_deposit (ahx_env 0 t lib) ?he 43200 ahx_item n = 0" for n
    by (simp add: get_auction_deposit_def ahx_item_def ahx_template_def)
  have hid: "sell_house_id (ahx_env 0 t lib) a = Some (Some 2)" for a
    by (simp add: sell_house_id_def ahx_sides)
  have "sell_items (ahx_env 0 t lib) 1 ahx_sell 2 ?he 43200 [(ahx_item, 1)] ?w = sell_whole (ahx_env 0 t lib) 1 ahx_sell AhAlliance 2 43200 0 ?he ahx_item ?w"
    by (simp add: sell_items_def ahx_sides dep hid)
       (simp add: has_enough_money_def sell_items_error_def ahx_item_def ahx_sell_def)
  then show ?thesis
    unfolding go
    apply (simp add: sell_whole_def Let_def new_auction_def ahx_sell_simps )
    apply (simp add: add_a_item_def ahx_world_def ahx_players_def ahx_player_def ahx_item_def ahx_template_def
       pending_auction_add_def add_auction_def drop_item_def upd_player_def upd_house_def om_upd_def command_result_def ah_emit_def ahx_sold_def fun_eq_iff)
    done
qed


definition ahx_purses :: "u32 \<Rightarrow> (u32, ah_player) omap" where
  "ahx_purses m = [(1, ahx_player 10 500 []), (2, ahx_player 20 m [])]"

lemma ahx_count_step:
  "ah_try (ahx_env r t lib, EvCharge) (ahx_world [ahx_sold t'] [(1, [(AhAlliance, 1)], 0)] (ahx_purses 900) [] 2 os) =
     Some (ahx_world [ahx_sold t'] [(1, [(AhAlliance, 1)], 1)] (ahx_purses 900) [] 2 os)"
  by (simp add: update_pending_auctions_def update_pending_one_def ahx_world_def connected_def ahx_purses_def ahx_player_def pending_auction_count_def)

lemma ahx_deref: "deref_all (ahx_world [ahx_sold t'] p (ahx_purses 900) [] 2 os) [(AhAlliance, 1)] = Some [ahx_sold t']"
  by (simp add: ahx_world_def get_auction_def ahx_sold_def)

lemma ahx_charge_step:
  "\<exists>os'. ah_try (ahx_env 0 t lib, EvCharge) (ahx_world [ahx_sold t'] [(1, [(AhAlliance, 1)], 1)] (ahx_purses 900) [] 2 os) =
     Some (ahx_world [ahx_sold t'] [] (ahx_purses 900) [] 2 os')"
proof -
  let ?w = "ahx_world [ahx_sold t'] [(1, [(AhAlliance, 1)], 1)] (ahx_purses 900) [] 2 os"
  have it: "aw_items ?w (au_item (ahx_sold t')) = Some ahx_item" by (simp add: ahx_world_def ahx_sold_def)
  have dep: "get_auction_deposit (ahx_env 0 t lib) he 43200 ahx_item n = 0" for he n
    by (simp add: get_auction_deposit_def ahx_item_def ahx_template_def)
  have pend: "aw_pending ?w = [(1, [(AhAlliance, 1)], 1)]" by (simp add: ahx_world_def)
  have et: "au_etime (ahx_sold t') = 43200" by (simp add: ahx_sold_def)
  have conn: "connected ?w 1" by (simp add: connected_def ahx_world_def ahx_purses_def ahx_player_def)
  have run: "ah_try (ahx_env 0 t lib, EvCharge) ?w = pending_auction_process (ahx_env 0 t lib) 1 ?w"
    using conn by (simp add: update_pending_auctions_def update_pending_one_def pend pending_auction_count_def split: option.split)
  show ?thesis
    unfolding run
    by (simp add: pending_auction_process_def pend ahx_deref it dep et)
       (simp add: ahx_world_def ahx_sold_def store_auction_def upd_auction_def upd_house_def om_upd_def get_auction_def
          dep Let_def neg_i32_def modify_money_def ah_emit_def om_del_def fun_eq_iff)
qed

lemma ahx_bid_step:
  "\<exists>os'. ah_try (ahx_env 0 t lib, EvBid 2 5 1 150) (ahx_world [ahx_sold t'] [] (ahx_purses 900) [] 2 os) =
     Some (ahx_world [(ahx_sold t')\<lparr>au_bid := 150, au_bidder := 2\<rparr>] [] (ahx_purses 750) [] 2 os')"
proof -
  let ?w = "ahx_world [ahx_sold t'] [] (ahx_purses 900) [] 2 os"
  have unf: "unfeign 2 ?w = ?w" by (simp add: unfeign_def ahx_world_def ahx_purses_def ahx_player_def)
  have get: "get_auction ?w AhAlliance 1 = Some (ahx_sold t')" by (simp add: get_auction_def ahx_world_def ahx_sold_def)
  have go: "ah_try (ahx_env 0 t lib, EvBid 2 5 1 150) ?w = Some (ah_emit [DbSaveGold 2] (plain_bid (ahx_env 0 t lib) 2 AhAlliance (ahx_sold t') 150 ?w))"
    by (simp add: handle_place_bid_def unf get ahx_sides)
       (simp add: own_auction_def bid_refused_def ahx_sold_def get_auction_out_bid_def calculate_pct_def calculate_pct_f_def
          has_enough_money_def money_of_def account_of_def ahx_world_def ahx_purses_def ahx_player_def)
  have neg: "neg_i32 150 = - 150" by (simp add: neg_i32_def)
  have "modify_money 2 (neg_i32 150) ?w = ahx_world [ahx_sold t'] [] (ahx_purses 750) [] 2 os"
    by (simp add: neg modify_money_def money_of_def upd_player_def om_upd_def ahx_world_def ahx_purses_def ahx_player_def)
  then have "plain_bid (ahx_env 0 t lib) 2 AhAlliance (ahx_sold t') 150 ?w = command_result 2 1 AUCTION_PLACE_BID ERR_AUCTION_OK
      (ah_emit [AhCriterion 2 HIGHEST_BID 150, DbUpdBid 2 150 1] (upd_auction AhAlliance 1 (\<lambda>a. a\<lparr>au_bidder := 2, au_bid := 150\<rparr>)
        (ahx_world [ahx_sold t'] [] (ahx_purses 750) [] 2 os)))"
    by (simp add: plain_bid_def Let_def) (simp add: ahx_sold_def)
  then show ?thesis
    unfolding go by (simp add: ahx_world_def ahx_sold_def upd_auction_def upd_house_def om_upd_def command_result_def ah_emit_def fun_eq_iff)
qed

definition ahx_over :: "int \<Rightarrow> auction" where
  "ahx_over t = (ahx_sold t)\<lparr>au_bid := 150, au_bidder := 2\<rparr>"

lemma ahx_update_step:
  "t' \<le> t \<Longrightarrow> \<exists>os' ms. ah_try (ahx_env 0 t lib, EvUpdate) (ahx_world [ahx_over t'] [] (ahx_purses 750) [] 2 os) =
     Some (ahx_world [] [] (ahx_purses 750) ms 2 os') \<and> map (\<lambda>m. (ml_to m, ml_money m, ml_item m)) ms = [(1, 150, None), (2, 0, Some ahx_item)]"
proof -
  assume late: "t' \<le> t"
  let ?w = "ahx_world [ahx_over t'] [] (ahx_purses 750) [] 2 os"
  have cut: "get_auction_cut (ahx_env 0 t lib) a = 0" for a
    by (simp add: get_auction_cut_def)
  have exp: "expired (ahx_env 0 t lib) (ahx_over t')" using late by (simp add: expired_def ahx_over_def ahx_sold_def)
  have h: "house_update (ahx_env 0 t lib) AhHorde ?w = ?w" by (simp add: house_update_def ahx_world_def)
  have a: "house_update (ahx_env 0 t lib) AhAlliance ?w = finish_auction (ahx_env 0 t lib) AhAlliance (ahx_over t') ?w"
  proof -
    have "upd_house AhAlliance (\<lambda>h. h\<lparr>ah_throttle := (\<lambda>g. case ah_throttle h g of
        Some u \<Rightarrow> if u \<le> ev_now (ahx_env 0 t lib) then None else Some u | None \<Rightarrow> None)\<rparr>) ?w = ?w"
      by (auto simp: upd_house_def ahx_world_def fun_eq_iff)
    moreover have "ah_auctions (aw_houses ?w AhAlliance) = [(au_id (ahx_over t'), ahx_over t')]" by (simp add: ahx_world_def)
    ultimately show ?thesis using exp by (simp add: house_update_def)
  qed
  have ce: "char_exists (ahx_world as p (ahx_purses m) ms n os') g \<longleftrightarrow> g = 1 \<or> g = 2" 
       "connected (ahx_world as p (ahx_purses m) ms n os') g \<longleftrightarrow> g = 1 \<or> g = 2" for as p m ms n os' g
    by (auto simp: char_exists_def connected_def account_of_def ahx_world_def ahx_purses_def ahx_player_def)
  have ems: "ah_emit xs (ahx_world as p ps ms n os') = ahx_world as p ps ms n (os' @ xs)" for xs as p ps ms n os'
    by (simp add: ah_emit_def ahx_world_def)
  have snd: "\<exists>m. send_mail a ans b mo it g d (ahx_world as p ps ms n os') = ahx_world as p ps (ms @ [m]) n os' \<and> ml_to m = g \<and> ml_money m = mo \<and> ml_item m = it" for a ans b mo it g d as p ps ms n os'
    by (simp add: send_mail_def ahx_world_def)
  let ?e = "ahx_env 0 t lib" and ?a = "ahx_over t'"
  have fields: "au_owner ?a = 1" "au_bidder ?a = 2" "au_bid ?a = 150" "au_deposit ?a = 0" "au_item ?a = 70" "au_id ?a = 1"
    by (simp_all add: ahx_over_def ahx_sold_def)
  obtain m1 os1 where s1: "send_auction_successful_mail ?e ?a ?w = ahx_world [?a] [] (ahx_purses 750) [m1] 2 os1"
      "ml_to m1 = 1" "ml_money m1 = 150" "ml_item m1 = None"
    using snd [of ?a AUCTION_SUCCESSFUL _ 150 None 1 3600 "[?a]" "[]" "ahx_purses 750" "[]" 2]
    by (simp add: send_auction_successful_mail_def Let_def ce fields ems auction_profit_def cut) (metis append_Nil)
  have it: "aw_items (ahx_world [?a] [] (ahx_purses 750) [m1] 2 os1) 70 = Some ahx_item" by (simp add: ahx_world_def)
  obtain m2 os2 where s2: "send_auction_won_mail ?a (ahx_world [?a] [] (ahx_purses 750) [m1] 2 os1) = ahx_world [?a] [] (ahx_purses 750) [m1, m2] 2 os2"
      "ml_to m2 = 2" "ml_money m2 = 0" "ml_item m2 = Some ahx_item"
    using snd [of ?a AUCTION_WON _ 0 "Some ahx_item" 2 0 "[?a]" "[]" "ahx_purses 750" "[m1]" 2]
    by (simp add: send_auction_won_mail_def Let_def ce fields it ems) (metis append_Cons append_Nil)
  have rem: "remove_auction AhAlliance ?a (remove_a_item 70 False (ahx_world [?a] [] ps ms 2 os')) = ahx_world [] [] ps ms 2 os'" for ps ms os'
    by (simp add: remove_auction_def remove_a_item_def upd_house_def ahx_world_def om_del_def fun_eq_iff)
  have "finish_auction ?e AhAlliance ?a ?w = ahx_world [] [] (ahx_purses 750) [m1, m2] 2 (os2 @ [DbDelAuction 1])"
    using s1(1) s2(1) by (simp add: finish_auction_def Let_def fields ems rem)
  moreover have n: "house_update ?e AhNeutral (ahx_world [] [] ps ms k os') = ahx_world [] [] ps ms k os'" for ps ms k os'
    by (simp add: house_update_def ahx_world_def)
  ultimately have "ah_try (?e, EvUpdate) ?w = Some (ahx_world [] [] (ahx_purses 750) [m1, m2] 2 (os2 @ [DbDelAuction 1]))"
    by (simp add: ah_update_def h a)
  then show ?thesis
    using s1 s2 by (intro exI [of _ "os2 @ [DbDelAuction 1]"] exI [of _ "[m1, m2]"]) simp
qed


definition ahx_lib :: utf8_lib where
  "ahx_lib = \<lparr>uf_distance = (\<lambda>_. None), uf_to16 = (\<lambda>_. None), uf_to8 = (\<lambda>_. None)\<rparr>"

definition ahx_auction_run :: "(ah_env \<times> ah_event) list" where
  "ahx_auction_run =
     [(ahx_env 0 1000 ahx_lib, EvSell 1 ahx_sell), (ahx_env 0 1001 ahx_lib, EvCharge), (ahx_env 0 1002 ahx_lib, EvCharge),
      (ahx_env 0 1003 ahx_lib, EvBid 2 5 1 150), (ahx_env 0 1004 ahx_lib, EvUpdate)]"

lemma ahx_states:
  obtains w1 w2 w3 w4 w5 where
    "ah_try (ahx_auction_run ! 0) (new_houses ahx_players 90) = Some w1" "ah_try (ahx_auction_run ! 1) w1 = Some w2"
    "ah_try (ahx_auction_run ! 2) w2 = Some w3" "ah_try (ahx_auction_run ! 3) w3 = Some w4" "ah_try (ahx_auction_run ! 4) w4 = Some w5"
    "\<exists>os. w1 = ahx_world [ahx_sold 1000] [(1, [(AhAlliance, 1)], 0)] (ahx_purses 900) [] 2 os"
    "\<exists>os. w2 = ahx_world [ahx_sold 1000] [(1, [(AhAlliance, 1)], 1)] (ahx_purses 900) [] 2 os"
    "\<exists>os. w3 = ahx_world [ahx_sold 1000] [] (ahx_purses 900) [] 2 os"
    "\<exists>os. w4 = ahx_world [ahx_over 1000] [] (ahx_purses 750) [] 2 os"
    "\<exists>os ms. w5 = ahx_world [] [] (ahx_purses 750) ms 2 os \<and> map (\<lambda>m. (ml_to m, ml_money m, ml_item m)) ms = [(1, 150, None), (2, 0, Some ahx_item)]"
proof -
  note run = ahx_auction_run_def
  obtain o1 where 1: "ah_try (ahx_auction_run ! 0) (new_houses ahx_players 90) = Some (ahx_world [ahx_sold 1000] [(1, [(AhAlliance, 1)], 0)] (ahx_purses 900) [] 2 o1)"
    using ahx_sell_step [of 1000 ahx_lib] unfolding run ahx_world_new ahx_purses_def by auto
  have 2: "ah_try (ahx_auction_run ! 1) (ahx_world [ahx_sold 1000] [(1, [(AhAlliance, 1)], 0)] (ahx_purses 900) [] 2 o1)
      = Some (ahx_world [ahx_sold 1000] [(1, [(AhAlliance, 1)], 1)] (ahx_purses 900) [] 2 o1)"
    using ahx_count_step unfolding run by simp
  obtain o3 where 3: "ah_try (ahx_auction_run ! 2) (ahx_world [ahx_sold 1000] [(1, [(AhAlliance, 1)], 1)] (ahx_purses 900) [] 2 o1)
      = Some (ahx_world [ahx_sold 1000] [] (ahx_purses 900) [] 2 o3)"
    using ahx_charge_step [of 1002 ahx_lib] unfolding run by auto
  obtain o4 where 4: "ah_try (ahx_auction_run ! 3) (ahx_world [ahx_sold 1000] [] (ahx_purses 900) [] 2 o3)
      = Some (ahx_world [ahx_over 1000] [] (ahx_purses 750) [] 2 o4)"
    using ahx_bid_step [of 1003 ahx_lib] unfolding run ahx_over_def by auto
  obtain o5 ms where 5: "ah_try (ahx_auction_run ! 4) (ahx_world [ahx_over 1000] [] (ahx_purses 750) [] 2 o4) = Some (ahx_world [] [] (ahx_purses 750) ms 2 o5)"
      "map (\<lambda>m. (ml_to m, ml_money m, ml_item m)) ms = [(1, 150, None), (2, 0, Some ahx_item)]"
    using ahx_update_step [of 1000 1004 ahx_lib o4] unfolding run by auto
  have "\<exists>os msa. ahx_world [] [] (ahx_purses 750) ms 2 o5 = ahx_world [] [] (ahx_purses 750) msa 2 os \<and>
      map (\<lambda>m. (ml_to m, ml_money m, ml_item m)) msa = [(1, 150, None), (2, 0, Some ahx_item)]"
    by (rule exI [of _ o5], rule exI [of _ ms], rule conjI [OF refl 5(2)])
  then show thesis by (intro that [OF 1 2 3 4 5(1)]) blast+
qed

lemma ahx_due: "all_paid (ahx_env 0 t lib) [1] (ahx_world [ahx_sold t'] [(1, [(AhAlliance, 1)], k)] (ahx_purses 900) [] 2 os)"
proof -
  have "deref_all (ahx_world [ahx_sold t'] p (ahx_purses 900) [] 2 os) [(AhAlliance, 1)] = Some [ahx_sold t']" for p
    by (rule ahx_deref)
  moreover have "get_auction_deposit (ahx_env 0 t lib) he 43200 ahx_item n = 0" for he n
    by (simp add: get_auction_deposit_def ahx_item_def ahx_template_def)
  ultimately have "deposit_due (ahx_env 0 t lib) [(AhAlliance, 1)] (ahx_world [ahx_sold t'] p (ahx_purses 900) [] 2 os) = 0" for p
    by (simp add: deposit_due_def) (simp add: ahx_world_def ahx_sold_def)
  moreover have "connected (ahx_world as p (ahx_purses m) ms n os) 1" for as p m ms n os
    by (simp add: connected_def ahx_world_def ahx_purses_def ahx_player_def)
  ultimately show ?thesis
    by (simp add: pending_paid_def has_enough_money_def split: option.split) (simp add: ahx_world_def)
qed

lemma ahx_run_quiet: "ok_run ah_step ah_quiet ahx_auction_run (new_houses ahx_players 90)"
proof -
  obtain w1 w2 w3 w4 w5 where s: 
    "ah_try (ahx_auction_run ! 0) (new_houses ahx_players 90) = Some w1" "ah_try (ahx_auction_run ! 1) w1 = Some w2"
    "ah_try (ahx_auction_run ! 2) w2 = Some w3" "ah_try (ahx_auction_run ! 3) w3 = Some w4" "ah_try (ahx_auction_run ! 4) w4 = Some w5"
    and o: "\<exists>os. w1 = ahx_world [ahx_sold 1000] [(1, [(AhAlliance, 1)], 0)] (ahx_purses 900) [] 2 os"
    "\<exists>os. w2 = ahx_world [ahx_sold 1000] [(1, [(AhAlliance, 1)], 1)] (ahx_purses 900) [] 2 os"
    "\<exists>os. w3 = ahx_world [ahx_sold 1000] [] (ahx_purses 900) [] 2 os"
    "\<exists>os. w4 = ahx_world [ahx_over 1000] [] (ahx_purses 750) [] 2 os"
    by (rule ahx_states) blast
  have step: "ah_step e w = w'" if "ah_try e w = Some w'" for e w w' using that by (simp add: ah_step_def)
  have nx: "aw_next_auction (ahx_world as p ps ms n os) = n" "aw_pending (ahx_world as p ps ms n os) = p" "pending_refs (ahx_world as [] ps ms n os) = []" for as p ps ms n os
    by (simp_all add: ahx_world_def pending_refs_def)
  note env = ah_env_ok_ex [of 0 _ ahx_lib, simplified]
  have "ah_quiet (ahx_auction_run ! 0) (new_houses ahx_players 90)"
    using s(1) by (simp add: ahx_auction_run_def env) (simp add: new_houses_def)
  moreover have "ah_quiet (ahx_auction_run ! 1) w1"
    using s(2) o(1) by (auto simp add: ahx_auction_run_def env nx ahx_due simp del: all_paid.simps)
  moreover have "ah_quiet (ahx_auction_run ! 2) w2"
    using s(3) o(2) by (auto simp add: ahx_auction_run_def env nx ahx_due simp del: all_paid.simps)
  moreover have "ah_quiet (ahx_auction_run ! 3) w3"
    using s(4) o(3) by (auto simp add: ahx_auction_run_def env nx)
  moreover have "ah_quiet (ahx_auction_run ! 4) w4"
    using s(5) o(4) by (auto simp add: ahx_auction_run_def env nx due_def)
  ultimately have q: "ah_quiet (ahx_auction_run ! 0) (new_houses ahx_players 90)" "ah_quiet (ahx_auction_run ! 1) w1"
      "ah_quiet (ahx_auction_run ! 2) w2" "ah_quiet (ahx_auction_run ! 3) w3" "ah_quiet (ahx_auction_run ! 4) w4" by blast+
  have five: "ahx_auction_run = [ahx_auction_run ! 0, ahx_auction_run ! 1, ahx_auction_run ! 2, ahx_auction_run ! 3, ahx_auction_run ! 4]"
    by (simp add: ahx_auction_run_def)
  show ?thesis
    by (subst five) (simp only: ok_run.simps step [OF s(1)] step [OF s(2)] step [OF s(3)] step [OF s(4)] q simp_thms)
qed


lemma ok_run_take: "ok_run step ok es s \<Longrightarrow> ok_run step ok (take n es) s"
  by (induction es arbitrary: s n) (auto simp: take_Cons split: nat.split)

lemma quiet_running: "ok_run ah_step ah_quiet es w \<Longrightarrow> ok_run ah_step ah_running es w"
proof (induction es arbitrary: w)
  case (Cons e es)
  have "ah_quiet e w \<Longrightarrow> ah_running e w" by (cases e) simp
  then show ?case using Cons by simp
qed simp

section \<open>Properties\<close>

text \<open>
  C7: In every run of the auction house in which no step reads a deleted auction (the list of pending deposits can
  make the update do so, \<open>cancelled_deposit_dangles\<close>), no counter of ids reaches its end, the cut rate is between 0
  and 1 and the houses take at most 90 percent, whatever clients ask, every auction on the book stands under
  its own id, the item it sells lies in the auction house under the GUID the auction names, no item is
  in two auctions, every item that lies there is in an auction (none is lost), and the bid keeps the
  rules: there is a bidder exactly if there is a bid, he is not the seller, the bid is at least the
  first price and below the buyout.
\<close>
theorem auctions_in_every_run:
  assumes "players_ok ps" "ok_run ah_step ah_running es (new_houses ps n)" "w = fold ah_step es (new_houses ps n)"
    and "get_auction w s i = Some a"
  shows "au_id a = i
    \<and> (\<exists>it. aw_items w (au_item a) = Some it \<and> it_guid it = au_item a)
    \<and> (\<forall>s' i' a'. get_auction w s' i' = Some a' \<and> au_item a' = au_item a \<longrightarrow> s' = s \<and> i' = i)
    \<and> (\<forall>g. aw_items w g \<noteq> None \<longrightarrow> (\<exists>t j b. get_auction w t j = Some b \<and> au_item b = g))
    \<and> (au_bidder a = 0 \<longleftrightarrow> au_bid a = 0)
    \<and> (au_bidder a \<noteq> 0 \<longrightarrow> au_bidder a \<noteq> au_owner a \<and> au_startbid a \<le> au_bid a)
    \<and> (au_buyout a \<noteq> 0 \<longrightarrow> au_bid a < au_buyout a)"
proof -
  have ok: "book_ok w"
    unfolding assms(3) by (rule auctions.ok_run_inv [OF new_houses_ok [OF assms(1)] assms(2)])
  have m: "map_of (book w s) i = Some a" using assms(4) by (simp add: get_auction_book)
  have "au_id a = i" "bid_ok a" using houses_okD(2) [OF book_okD(2) [OF ok] m] by blast+
  moreover note items_okD(1) [OF book_okD(3) [OF ok] m]
  moreover have "\<forall>s' i' a'. get_auction w s' i' = Some a' \<and> au_item a' = au_item a \<longrightarrow> s' = s \<and> i' = i"
    unfolding get_auction_book using items_okD(2) [OF book_okD(3) [OF ok] _ m] by blast
  moreover have "\<forall>g. aw_items w g \<noteq> None \<longrightarrow> (\<exists>t j b. get_auction w t j = Some b \<and> au_item b = g)"
    unfolding get_auction_book using items_okD(3) [OF book_okD(3) [OF ok]] by blast
  ultimately show ?thesis unfolding bid_ok_def by blast
qed

text \<open>The sword is on the book with the bid of the second player.\<close>

lemma ahx_before_end_state:
  "\<exists>os. fold ah_step (take 4 ahx_auction_run) (new_houses ahx_players 90) = ahx_world [ahx_over 1000] [] (ahx_purses 750) [] 2 os"
proof -
  obtain w1 w2 w3 w4 where s:
    "ah_try (ahx_auction_run ! 0) (new_houses ahx_players 90) = Some w1" "ah_try (ahx_auction_run ! 1) w1 = Some w2"
    "ah_try (ahx_auction_run ! 2) w2 = Some w3" "ah_try (ahx_auction_run ! 3) w3 = Some w4"
    and o: "\<exists>os. w4 = ahx_world [ahx_over 1000] [] (ahx_purses 750) [] 2 os"
    by (rule ahx_states) blast
  have step: "ah_step e w = w'" if "ah_try e w = Some w'" for e w w' using that by (simp add: ah_step_def)
  have "take 4 ahx_auction_run = [ahx_auction_run ! 0, ahx_auction_run ! 1, ahx_auction_run ! 2, ahx_auction_run ! 3]"
    by (simp add: ahx_auction_run_def)
  then have "fold ah_step (take 4 ahx_auction_run) (new_houses ahx_players 90) = w4"
    by (simp add: step [OF s(1)] step [OF s(2)] step [OF s(3)] step [OF s(4)] del: One_nat_def)
  then show ?thesis using o by simp
qed

lemma ahx_before_end: "get_auction (fold ah_step (take 4 ahx_auction_run) (new_houses ahx_players 90)) AhAlliance 1 = Some (ahx_over 1000)"
  using ahx_before_end_state by (auto simp: get_auction_def ahx_world_def ahx_over_def ahx_sold_def)

lemma auctions_in_every_run_witness:
  "au_id (ahx_over 1000) = 1 \<and> au_bidder (ahx_over 1000) \<noteq> au_owner (ahx_over 1000) \<and> au_startbid (ahx_over 1000) \<le> au_bid (ahx_over 1000)
   \<and> au_bid (ahx_over 1000) < au_buyout (ahx_over 1000)"
proof -
  note t = auctions_in_every_run [OF ahx_players_ok ok_run_take [OF quiet_running [OF ahx_run_quiet], of 4] refl ahx_before_end]
  have "au_bidder (ahx_over 1000) \<noteq> 0" "au_buyout (ahx_over 1000) \<noteq> 0" by (simp_all add: ahx_over_def ahx_sold_def)
  then show ?thesis using t by blast
qed

text \<open>
  C1: Money is never created: in every run of C7 in which no auction leaves the book before its deposit is
  charged, sellers are there and can pay their deposits, and no purse changes outside of the auction house, what the players own, what is in the mails and what the
  auction house holds (bids and deposits) never exceeds what the players owned at the start.
\<close>
theorem money_never_created:
  assumes "players_ok ps" "ok_run ah_step ah_quiet es (new_houses ps n)"
  shows "players_money (fold ah_step es (new_houses ps n)) + mails_money (fold ah_step es (new_houses ps n))
      + book_worth (set (pending_refs (fold ah_step es (new_houses ps n)))) (fold ah_step es (new_houses ps n))
    \<le> om_sum (\<lambda>_ p. unat (ap_money p)) ps"
proof -
  have "book_ok (new_houses ps n) \<and> wealth (new_houses ps n) \<le> om_sum (\<lambda>_ p. unat (ap_money p)) ps"
    using new_houses_ok [OF assms(1)] new_houses_wealth by simp
  from money.ok_run_inv [OF this assms(2)] show ?thesis by (simp add: wealth_def)
qed

lemma money_never_created_witness:
  "players_money (fold ah_step ahx_auction_run (new_houses ahx_players 90)) + mails_money (fold ah_step ahx_auction_run (new_houses ahx_players 90)) \<le> 1400"
  using money_never_created [OF ahx_players_ok ahx_run_quiet] by (simp add: ahx_players_def ahx_player_def)

text \<open>
  C10: The update ends what is over and nothing else: after it an auction is on the book exactly if it was
  there and its time is not over; the item of one that ended is in a mail to the highest bidder, or
  back to the seller if nobody bid, if that character exists.
\<close>
theorem update_ends_expired:
  assumes "book_ok w"
  shows "get_auction (ah_update env w) s i =
      (case get_auction w s i of None \<Rightarrow> None | Some a \<Rightarrow> if expired env a then None else Some a)
    \<and> (\<forall>a it. get_auction w s i = Some a \<and> expired env a \<and> aw_items w (au_item a) = Some it \<and> char_exists w (taker a) \<longrightarrow>
      (\<exists>m \<in> set (aw_mails (ah_update env w)). ml_item m = Some it
        \<and> ml_to m = (if au_bidder a = 0 \<and> au_bid a = 0 then au_owner a else au_bidder a)))"
proof (intro conjI allI impI)
  fix a it
  assume "get_auction w s i = Some a \<and> expired env a \<and> aw_items w (au_item a) = Some it \<and> char_exists w (taker a)"
  then have "mailed (ah_update env w) it (taker a)" using update_items(2) [OF assms] by blast
  then show "\<exists>m \<in> set (aw_mails (ah_update env w)). ml_item m = Some it
      \<and> ml_to m = (if au_bidder a = 0 \<and> au_bid a = 0 then au_owner a else au_bidder a)"
    unfolding mailed_def taker_def .
qed (rule update_items(1) [OF assms])

lemma update_ends_expired_witness:
  "\<exists>w m. get_auction w AhAlliance 1 = Some (ahx_over 1000) \<and> get_auction (ah_update (ahx_env 0 1004 ahx_lib) w) AhAlliance 1 = None
    \<and> m \<in> set (aw_mails (ah_update (ahx_env 0 1004 ahx_lib) w)) \<and> ml_item m = Some ahx_item \<and> ml_to m = 2"
proof -
  let ?w = "fold ah_step (take 4 ahx_auction_run) (new_houses ahx_players 90)"
  let ?e = "ahx_env 0 1004 ahx_lib"
  have run: "ok_run ah_step ah_running (take 4 ahx_auction_run) (new_houses ahx_players 90)"
    by (rule ok_run_take [OF quiet_running [OF ahx_run_quiet]])
  have ok: "book_ok ?w" by (rule auctions.ok_run_inv [OF new_houses_ok [OF ahx_players_ok] run])
  obtain os where w: "?w = ahx_world [ahx_over 1000] [] (ahx_purses 750) [] 2 os" using ahx_before_end_state by blast
  have over: "expired ?e (ahx_over 1000)" "taker (ahx_over 1000) = 2" "au_item (ahx_over 1000) = 70"
    by (simp_all add: expired_def taker_def ahx_over_def ahx_sold_def)
  have it: "aw_items ?w (au_item (ahx_over 1000)) = Some ahx_item" unfolding w by (simp add: over ahx_world_def)
  have c: "char_exists ?w (taker (ahx_over 1000))"
    unfolding w by (simp add: over char_exists_def connected_def ahx_world_def ahx_purses_def ahx_player_def)
  note t = update_ends_expired [OF ok, where env = ?e and s = AhAlliance and i = 1]
  have "get_auction (ah_update ?e ?w) AhAlliance 1 = None" using t over by (simp add: ahx_before_end)
  moreover obtain m where "m \<in> set (aw_mails (ah_update ?e ?w))" "ml_item m = Some ahx_item" "ml_to m = 2"
    using t ahx_before_end over(1) it c by (auto simp: ahx_over_def ahx_sold_def)
  ultimately show ?thesis using ahx_before_end by blast
qed

text \<open>
  C30: If the configured rate of the cut is between 0 and 1 and the house takes at most 90 percent, the cut does not
  exceed the bid, in the \<open>float\<close> arithmetic of the code; and if the bid and the deposit together fit 32 bits, the
  seller's profit does not wrap: he gets the bid and the deposit less the cut. The configuration does not enforce the first
  condition: at a rate of 25 a house that takes 5 percent takes more than the bid (\<open>cut_above_bid\<close>).
\<close>
theorem cut_within_bid:
  assumes "0 \<le> ev_rate_cut env" "ev_rate_cut env \<le> 1" "he_cut (au_he a) \<le> 90"
    and "unat (au_bid a) + unat (au_deposit a) < 2 ^ 32"
  shows "get_auction_cut env a \<le> au_bid a
    \<and> unat (auction_profit env a) + unat (get_auction_cut env a) = unat (au_bid a) + unat (au_deposit a)"
proof (rule conjI)
  show cut: "get_auction_cut env a \<le> au_bid a"
    using assms(1-3) by (intro get_auction_cut_le) (simp_all add: rates_ok_def cut_ok_def)
  have "unat (au_bid a + au_deposit a) = unat (au_bid a) + unat (au_deposit a)"
    using assms(4) by (simp add: unat_word_ariths)
  moreover from this have "get_auction_cut env a \<le> au_bid a + au_deposit a"
    using cut unfolding word_le_nat_alt by linarith
  ultimately show "unat (auction_profit env a) + unat (get_auction_cut env a) = unat (au_bid a) + unat (au_deposit a)"
    unfolding auction_profit_def by (simp add: unat_diff word_le_nat_alt)
qed

lemma cut_within_bid_witness: "get_auction_cut (ahx_env 1 0 ahx_lib) (ahx_over 0) \<le> 150"
  using cut_within_bid [of "ahx_env 1 0 ahx_lib" "ahx_over 0"] by (simp add: ahx_over_def ahx_sold_def)

text \<open>The condition on the rate is needed: with a rate of 25 the house keeps more than was bid, and the profit wraps.\<close>

lemma cut_above_bid:
  "au_bid (ahx_over 0) < get_auction_cut (ahx_env 25 0 ahx_lib) (ahx_over 0)"
  "au_bid (ahx_over 0) < auction_profit (ahx_env 25 0 ahx_lib) (ahx_over 0)"
  by code_simp+

text \<open>
  A list of pending deposits holds pointers to auctions, and nothing takes a pointer out when its
  auction is deleted: after the seller cancels, the next charge reads a deleted auction.
\<close>

lemma ahx_cancel_step:
  "\<exists>os' ms. ah_try (ahx_env 0 t lib, EvCancel 1 5 1) (ahx_world [ahx_sold t'] [(1, [(AhAlliance, 1)], 1)] (ahx_purses 900) [] 2 os) =
     Some (ahx_world [] [(1, [(AhAlliance, 1)], 1)] (ahx_purses 900) ms 2 os')"
proof -
  let ?w = "ahx_world [ahx_sold t'] [(1, [(AhAlliance, 1)], 1)] (ahx_purses 900) [] 2 os"
  have unf: "unfeign 1 ?w = ?w" by (simp add: unfeign_def ahx_world_def ahx_purses_def ahx_player_def)
  have get: "get_auction ?w AhAlliance 1 = Some (ahx_sold t')" by (simp add: get_auction_def ahx_world_def ahx_sold_def)
  have it: "aw_items ?w 70 = Some ahx_item" by (simp add: ahx_world_def)
  have fields: "au_owner (ahx_sold t') = 1" "au_bidder (ahx_sold t') = 0" "au_item (ahx_sold t') = 70" "au_id (ahx_sold t') = 1"
    by (simp_all add: ahx_sold_def)
  have "ah_try (ahx_env 0 t lib, EvCancel 1 5 1) ?w = Some (cancel_auction (ahx_env 0 t lib) 1 AhAlliance (ahx_sold t') ahx_item ?w)"
    by (simp add: handle_remove_item_def unf get it fields ahx_sides)
  then show ?thesis
    by (simp add: cancel_auction_def fields Let_def)
       (simp add: send_mail_def command_result_def ah_emit_def remove_auction_def remove_a_item_def upd_house_def ahx_world_def
          om_del_def fields fun_eq_iff)
qed

lemma cancelled_deposit_dangles:
  "\<exists>w. ah_try (ahx_env 0 1002 ahx_lib, EvCancel 1 5 1) (ah_step (ahx_auction_run ! 1) (ah_step (ahx_auction_run ! 0) (new_houses ahx_players 90))) = Some w
     \<and> ah_try (ahx_env 0 1003 ahx_lib, EvCharge) w = None"
proof -
  obtain w1 w2 os where s: "ah_try (ahx_auction_run ! 0) (new_houses ahx_players 90) = Some w1" "ah_try (ahx_auction_run ! 1) w1 = Some w2"
    and w2: "w2 = ahx_world [ahx_sold 1000] [(1, [(AhAlliance, 1)], 1)] (ahx_purses 900) [] 2 os"
    by (rule ahx_states) blast
  obtain os' ms where c: "ah_try (ahx_env 0 1002 ahx_lib, EvCancel 1 5 1) w2 = Some (ahx_world [] [(1, [(AhAlliance, 1)], 1)] (ahx_purses 900) ms 2 os')"
    using ahx_cancel_step [of 1002 ahx_lib 1000 os] unfolding w2 by blast
  have "ah_try (ahx_env 0 1003 ahx_lib, EvCharge) (ahx_world [] [(1, [(AhAlliance, 1)], 1)] (ahx_purses 900) ms 2 os') = None"
    by (simp add: update_pending_auctions_def update_pending_one_def pending_auction_process_def pending_auction_count_def connected_def
        get_auction_def ahx_world_def ahx_purses_def ahx_player_def)
  then show ?thesis using s c by (simp add: ah_step_def)
qed

end
