(* ===== verification/PartyStore.thy ===== *)
theory PartyStore
  imports Prelude
begin

text \<open>
  The storage ids of groups: \<open>src/server/game/Groups/GroupMgr.cpp\<close>. \<open>GroupDbStore\<close> is a vector of
  pointers indexed by the id, \<open>NextGroupDbStoreId\<close> the next id to hand out. A write out of the
  vector is \<open>None\<close>. The lemmas show that the id handed out is always the least one not in use.
\<close>

section \<open>The store\<close>

record db_ids =
  db_store :: "nat option list"                 \<comment> \<open>\<open>GroupDbStore\<close>: pointers to groups\<close>
  db_next :: u32                                \<comment> \<open>\<open>NextGroupDbStoreId\<close>\<close>

definition new_db_ids :: db_ids where
  "new_db_ids = \<lparr>db_store = [], db_next = 1\<rparr>"

definition db_free :: "nat option list \<Rightarrow> u32 \<Rightarrow> bool" where
  "db_free s i \<longleftrightarrow> unat i < length s \<and> s ! unat i = None \<or> length s \<le> unat i"

text \<open>The loop over the ids: the first that is free, if there is one below the maximum.\<close>

function first_free :: "nat option list \<Rightarrow> u32 \<Rightarrow> u32 option" where
  "first_free s i = (if i < 0xFFFFFFFF then (if db_free s i then Some i else first_free s (i + 1)) else None)"
  by auto
termination
proof (relation "measure (\<lambda>(s, i). 0xFFFFFFFF - unat i)")
  fix s :: "nat option list" and i :: u32
  assume "i < 0xFFFFFFFF"
  then have "unat i < 0xFFFFFFFF" by (simp add: word_less_nat_alt)
  moreover from this have "unat (i + 1) = Suc (unat i)" by (simp add: unat_word_ariths)
  ultimately show "((s, i + 1), (s, i)) \<in> measure (\<lambda>(s, i). 0xFFFFFFFF - unat i)" by simp
qed simp

declare first_free.simps [simp del]

definition generate_db_id :: "db_ids \<Rightarrow> u32 \<times> db_ids" where
  "generate_db_id d =
     (let new = db_next d; start = db_next d + 1
      in (new, d\<lparr>db_next := (case first_free (db_store d) start of Some i \<Rightarrow> i | None \<Rightarrow> start)\<rparr>))"

text \<open>The check for an overflow that follows compares the old with the new counter.\<close>

definition db_overflow :: "db_ids \<Rightarrow> bool" where
  "db_overflow d \<longleftrightarrow> fst (generate_db_id d) = db_next (snd (generate_db_id d))"

definition resize_store :: "nat \<Rightarrow> nat option list \<Rightarrow> nat option list" where
  "resize_store n s = take n s @ replicate (n - length s) None"

definition register_db_id :: "u32 \<Rightarrow> nat \<Rightarrow> db_ids \<Rightarrow> db_ids option" where
  "register_db_id i r d =
     (let s = (if length (db_store d) \<le> unat i then resize_store (unat (i + 1)) (db_store d) else db_store d)
      in if unat i < length s then Some (d\<lparr>db_store := s[unat i := Some r]\<rparr>) else None)"

definition free_db_id :: "u32 \<Rightarrow> db_ids \<Rightarrow> db_ids option" where
  "free_db_id i d =
     (let d1 = (if i < db_next d then d\<lparr>db_next := i\<rparr> else d)
      in if unat i < length (db_store d) then Some (d1\<lparr>db_store := (db_store d)[unat i := None]\<rparr>) else None)"

definition group_by_db_id :: "db_ids \<Rightarrow> u32 \<Rightarrow> nat option" where
  "group_by_db_id d i = (if unat i < length (db_store d) then db_store d ! unat i else None)"

text \<open>Loading: the rows come in the order of their ids.\<close>

definition load_db_id :: "u32 \<times> nat \<Rightarrow> db_ids \<Rightarrow> db_ids option" where
  "load_db_id p d =
     (case register_db_id (fst p) (snd p) d of
        None \<Rightarrow> None
      | Some d1 \<Rightarrow> Some (if fst p = db_next d1 then d1\<lparr>db_next := db_next d1 + 1\<rparr> else d1))"

fun load_db_ids :: "(u32 \<times> nat) list \<Rightarrow> db_ids \<Rightarrow> db_ids option" where
  "load_db_ids [] d = Some d"
| "load_db_ids (p # ps) d = (case load_db_id p d of None \<Rightarrow> None | Some d1 \<Rightarrow> load_db_ids ps d1)"

section \<open>The least id not in use\<close>

definition db_used :: "db_ids \<Rightarrow> nat set" where
  "db_used d = {n. n < length (db_store d) \<and> db_store d ! n \<noteq> None}"

definition db_ok :: "db_ids \<Rightarrow> bool" where
  "db_ok d \<longleftrightarrow> 1 \<le> unat (db_next d) \<and> (\<forall>n. 1 \<le> n \<and> n < unat (db_next d) \<longrightarrow> n \<in> db_used d) \<and> unat (db_next d) \<notin> db_used d
     \<and> 0 \<notin> db_used d \<and> length (db_store d) < 0xFFFFFFFF"

lemma db_free_used: "db_free (db_store d) i \<longleftrightarrow> unat i \<notin> db_used d"
  by (auto simp: db_free_def db_used_def)

lemma Suc_u32: "unat (i :: u32) < 0xFFFFFFFF \<Longrightarrow> unat (i + 1) = Suc (unat i)"
  by (simp add: unat_word_ariths)

lemma first_free_some:
  assumes "first_free s i = Some j"
  shows "db_free s j \<and> i \<le> j \<and> (\<forall>n. unat i \<le> n \<and> n < unat j \<longrightarrow> \<not> db_free s (word_of_nat n)) \<and> unat j < 0xFFFFFFFF"
  using assms
proof (induction s i rule: first_free.induct)
  case (1 s i)
  show ?case
  proof (cases "i < 0xFFFFFFFF \<and> \<not> db_free s i")
    case True
    then have lt: "unat i < 0xFFFFFFFF" by (simp add: word_less_nat_alt)
    have IH: "db_free s j" "i + 1 \<le> j" "\<forall>n. unat (i + 1) \<le> n \<and> n < unat j \<longrightarrow> \<not> db_free s (word_of_nat n)" "unat j < 0xFFFFFFFF"
      using 1 True by (simp_all add: first_free.simps [of s i])
    have "\<not> db_free s (word_of_nat n)" if "unat i \<le> n" "n < unat j" for n
    proof (cases "n = unat i")
      case True
      then show ?thesis using \<open>i < 0xFFFFFFFF \<and> \<not> db_free s i\<close> by simp
    next
      case False
      then show ?thesis using IH(3) that Suc_u32 [OF lt] by simp
    qed
    moreover have "i \<le> j" using IH(2) Suc_u32 [OF lt] by (simp add: word_le_nat_alt)
    ultimately show ?thesis using IH by blast
  next
    case False
    then show ?thesis using 1(2) by (auto simp: first_free.simps [of s i] word_less_nat_alt split: if_splits)
  qed
qed

lemma first_free_finds:
  assumes "unat i < 0xFFFFFFFF" "length s < 0xFFFFFFFF"
  shows "first_free s i \<noteq> None"
  using assms
proof (induction s i rule: first_free.induct)
  case (1 s i)
  have i: "i < 0xFFFFFFFF" using 1(2) by (simp add: word_less_nat_alt)
  show ?case
  proof (cases "db_free s i")
    case True
    then show ?thesis using i by (simp add: first_free.simps [of s i])
  next
    case False
    then have "unat i < length s" by (auto simp: db_free_def)
    then have "unat (i + 1) < 0xFFFFFFFF" using 1(2,3) Suc_u32 [OF 1(2)] by linarith
    then show ?thesis using 1(1) [OF i False] 1(3) i False by (simp add: first_free.simps [of s i])
  qed
qed

lemma db_ok_least: "db_ok d \<Longrightarrow> unat (db_next d) = (LEAST n. 1 \<le> n \<and> n \<notin> db_used d)"
  by (rule Least_equality [symmetric]) (auto simp: db_ok_def not_less [symmetric])

lemma length_resize [simp]: "length s \<le> n \<Longrightarrow> length (resize_store n s) = n"
  by (simp add: resize_store_def)

lemma nth_resize: "length s \<le> n \<Longrightarrow> i < n \<Longrightarrow> resize_store n s ! i = (if i < length s then s ! i else None)"
  by (simp add: resize_store_def nth_append)

lemma register_used:
  assumes "unat i < 0xFFFFFFFF"
  obtains d1 where "register_db_id i r d = Some d1" "db_used d1 = insert (unat i) (db_used d)" "db_next d1 = db_next d"
    "length (db_store d1) = max (length (db_store d)) (Suc (unat i))" "group_by_db_id d1 i = Some r"
proof -
  let ?s = "if length (db_store d) \<le> unat i then resize_store (unat (i + 1)) (db_store d) else db_store d"
  have len: "length ?s = max (length (db_store d)) (Suc (unat i))" using Suc_u32 [OF assms] by simp
  have nth: "?s ! n = (if n < length (db_store d) then db_store d ! n else None)" if "n < length ?s" for n
    using that Suc_u32 [OF assms] by (auto simp: nth_resize)
  let ?d1 = "d\<lparr>db_store := ?s[unat i := Some r]\<rparr>"
  have "register_db_id i r d = Some ?d1" using len by (simp add: register_db_id_def Let_def)
  moreover have "db_used ?d1 = insert (unat i) (db_used d)"
    using len nth by (auto simp: db_used_def nth_list_update less_max_iff_disj split: if_splits)
  moreover have "group_by_db_id ?d1 i = Some r" using len by (simp add: group_by_db_id_def)
  ultimately show thesis using that [of ?d1] len by simp
qed

section \<open>Every run\<close>

text \<open>A group is made and registered, or a group that is registered is disbanded.\<close>

datatype db_event = DbCreate nat | DbFree u32

fun db_step :: "db_event \<Rightarrow> db_ids \<Rightarrow> db_ids" where
  "db_step (DbCreate r) d =
     (let (new, d1) = generate_db_id d in case register_db_id new r d1 of None \<Rightarrow> d | Some d2 \<Rightarrow> d2)"
| "db_step (DbFree i) d = (case free_db_id i d of None \<Rightarrow> d | Some d1 \<Rightarrow> d1)"

fun db_running :: "db_event \<Rightarrow> db_ids \<Rightarrow> bool" where
  "db_running (DbCreate r) d \<longleftrightarrow> db_next d < 0xFFFFFFFE"
| "db_running (DbFree i) d \<longleftrightarrow> unat i \<in> db_used d"

text \<open>The specification: the set of the ids in use.\<close>

fun db_spec :: "db_event \<Rightarrow> nat set \<Rightarrow> nat set" where
  "db_spec (DbCreate r) U = insert (LEAST n. 1 \<le> n \<and> n \<notin> U) U"
| "db_spec (DbFree i) U = U - {unat i}"

lemma db_create:
  assumes "db_ok d" "db_next d < 0xFFFFFFFE"
  shows "db_ok (db_step (DbCreate r) d)" "db_used (db_step (DbCreate r) d) = insert (unat (db_next d)) (db_used d)"
    "group_by_db_id (db_step (DbCreate r) d) (db_next d) = Some r"
proof -
  let ?n = "db_next d" and ?start = "db_next d + 1"
  have nx: "unat ?n < 0xFFFFFFFE" using assms(2) by (simp add: word_less_nat_alt)
  then have st: "unat ?start = Suc (unat ?n)" by (simp add: Suc_u32)
  obtain j where j: "first_free (db_store d) ?start = Some j"
    using first_free_finds [of ?start "db_store d"] assms(1) nx st by (auto simp: db_ok_def)
  note f = first_free_some [OF j]
  let ?d1 = "d\<lparr>db_next := j\<rparr>"
  have n2: "unat ?n < 0xFFFFFFFF" using nx by simp
  obtain d2 where d2: "register_db_id ?n r ?d1 = Some d2" "db_used d2 = insert (unat ?n) (db_used ?d1)" "db_next d2 = j"
    "length (db_store d2) = max (length (db_store d)) (Suc (unat ?n))" "group_by_db_id d2 ?n = Some r"
    using register_used [OF n2, of r ?d1] by auto
  have step: "db_step (DbCreate r) d = d2"
    using j d2(1) by (simp add: generate_db_id_def Let_def)
  have u: "db_used ?d1 = db_used d" by (simp add: db_used_def)
  show "db_used (db_step (DbCreate r) d) = insert (unat ?n) (db_used d)" "group_by_db_id (db_step (DbCreate r) d) ?n = Some r"
    using step d2 u by simp_all
  have "unat j \<notin> db_used d" using f db_free_used [of d j] by simp
  moreover have "Suc (unat ?n) \<le> unat j" using f st by (simp add: word_le_nat_alt)
  moreover have "n \<in> db_used d" if "Suc (unat ?n) \<le> n" "n < unat j" for n
  proof -
    have "n < 2 ^ 32" using that(2) f by simp
    then have "unat (word_of_nat n :: u32) = n" by (simp add: unat_of_nat take_bit_nat_eq_self)
    then show ?thesis using f that st db_free_used [of d "word_of_nat n"] by auto
  qed
  moreover have "length (db_store d2) < 0xFFFFFFFF" using d2(4) assms(1) nx by (simp add: db_ok_def)
  ultimately show "db_ok (db_step (DbCreate r) d)"
    using assms(1) step d2(2,3) u unfolding db_ok_def by (auto simp: not_less_eq less_Suc_eq_le Suc_le_eq) (metis linorder_neqE_nat Suc_leI)+
qed

lemma db_delete:
  assumes "db_ok d" "unat i \<in> db_used d"
  shows "db_ok (db_step (DbFree i) d)" "db_used (db_step (DbFree i) d) = db_used d - {unat i}"
proof -
  have i: "unat i < length (db_store d)" using assms(2) by (simp add: db_used_def)
  let ?d1 = "if i < db_next d then d\<lparr>db_next := i\<rparr> else d"
  have step: "db_step (DbFree i) d = ?d1\<lparr>db_store := (db_store d)[unat i := None]\<rparr>"
    using i by (simp add: free_db_id_def Let_def)
  show used: "db_used (db_step (DbFree i) d) = db_used d - {unat i}"
    unfolding step using i by (auto simp: db_used_def nth_list_update split: if_splits)
  have "1 \<le> unat i" using assms by (cases "unat i") (auto simp: db_ok_def)
  then show "db_ok (db_step (DbFree i) d)"
    using assms(1) used step by (auto simp: db_ok_def word_less_nat_alt not_less)
qed

lemma db_step_ok: "db_ok d \<Longrightarrow> db_running e d \<Longrightarrow> db_ok (db_step e d) \<and> db_used (db_step e d) = db_spec e (db_used d)"
  using db_create db_delete db_ok_least by (cases e) (simp_all del: db_step.simps)

interpretation db: guarded_system db_step db_running db_ok
  by unfold_locales (simp add: db_step_ok)

lemma new_db_ids_ok: "db_ok new_db_ids"
  by (simp add: db_ok_def new_db_ids_def db_used_def)

text \<open>Loading rows in the order of their ids.\<close>

lemma load_step:
  assumes "db_ok d" "db_next d \<le> i" "\<forall>n \<in> db_used d. n < unat i" "i < 0xFFFFFFFE"
  obtains d1 where "load_db_id (i, r) d = Some d1" "db_ok d1" "db_used d1 = insert (unat i) (db_used d)" "unat (db_next d1) \<le> Suc (unat i)"
proof -
  have i: "unat i < 0xFFFFFFFE" using assms(4) by (simp add: word_less_nat_alt)
  then have i2: "unat i < 0xFFFFFFFF" by simp
  obtain d1 where d1: "register_db_id i r d = Some d1" "db_used d1 = insert (unat i) (db_used d)" "db_next d1 = db_next d"
    "length (db_store d1) = max (length (db_store d)) (Suc (unat i))"
    using register_used [OF i2, of r d] by blast
  have len: "length (db_store d1) < 0xFFFFFFFF" using d1(4) assms(1) i by (simp add: db_ok_def)
  show thesis
  proof (cases "i = db_next d")
    case True
    let ?d2 = "d1\<lparr>db_next := db_next d1 + 1\<rparr>"
    have nx: "unat (db_next d + 1) = Suc (unat i)" using Suc_u32 [of "db_next d"] i True by simp
    have u: "db_used ?d2 = insert (unat i) (db_used d)" using d1(2) by (simp add: db_used_def)
    have "load_db_id (i, r) d = Some ?d2" using d1(1,3) True by (simp add: load_db_id_def)
    moreover have "db_ok ?d2"
      using assms(1,3) len nx u d1(3) True by (auto simp: db_ok_def less_Suc_eq)
    ultimately show thesis using that [of ?d2] u nx d1(3) by simp
  next
    case False
    then have lt: "unat (db_next d) < unat i" using assms(2) by (simp add: word_le_nat_alt word_unat_eq_iff)
    have "load_db_id (i, r) d = Some d1" using d1(1,3) False by (simp add: load_db_id_def)
    moreover have "db_ok d1" using assms(1) len d1(2,3) lt by (auto simp: db_ok_def)
    ultimately show thesis using that [of d1] d1(2,3) lt by simp
  qed
qed

definition rows_ok :: "(u32 \<times> nat) list \<Rightarrow> bool" where
  "rows_ok ps \<longleftrightarrow> sorted_wrt (<) (map fst ps) \<and> list_all (\<lambda>p. 1 \<le> fst p \<and> fst p < 0xFFFFFFFE) ps"

lemma load_ok:
  assumes "rows_ok ps" "db_ok d" "\<forall>p \<in> set ps. db_next d \<le> fst p \<and> (\<forall>n \<in> db_used d. n < unat (fst p))"
  shows "\<exists>d1. load_db_ids ps d = Some d1 \<and> db_ok d1 \<and> db_used d1 = db_used d \<union> (unat \<circ> fst) ` set ps"
  using assms
proof (induction ps arbitrary: d)
  case (Cons p ps)
  obtain i r where p: "p = (i, r)" by (cases p)
  obtain d1 where d1: "load_db_id (i, r) d = Some d1" "db_ok d1" "db_used d1 = insert (unat i) (db_used d)" "unat (db_next d1) \<le> Suc (unat i)"
    using load_step [of d i r] Cons.prems p by (auto simp: rows_ok_def)
  have "db_next d1 \<le> fst q \<and> (\<forall>n \<in> db_used d1. n < unat (fst q))" if q: "q \<in> set ps" for q
  proof -
    have "i < fst q" using Cons.prems(1) p q by (auto simp: rows_ok_def)
    then have "unat i < unat (fst q)" by (simp add: word_less_nat_alt)
    moreover have "\<forall>n \<in> db_used d. n < unat (fst q)" using Cons.prems(3) q by simp
    ultimately show ?thesis using d1(3,4) by (auto simp: word_le_nat_alt)
  qed
  moreover have "rows_ok ps" using Cons.prems(1) by (simp add: rows_ok_def)
  ultimately obtain d2 where "load_db_ids ps d1 = Some d2" "db_ok d2" "db_used d2 = db_used d1 \<union> (unat \<circ> fst) ` set ps"
    using Cons.IH [OF _ d1(2)] by blast
  then show ?case using p d1(1,3) by auto
qed simp

lemma loaded_store:
  assumes "rows_ok ps"
  shows "\<exists>d. load_db_ids ps new_db_ids = Some d \<and> db_ok d \<and> db_used d = (unat \<circ> fst) ` set ps"
proof -
  have "\<forall>p \<in> set ps. db_next new_db_ids \<le> fst p \<and> (\<forall>n \<in> db_used new_db_ids. n < unat (fst p))"
    using assms by (auto simp: rows_ok_def list_all_iff new_db_ids_def db_used_def)
  from load_ok [OF assms new_db_ids_ok this] show ?thesis by (simp add: new_db_ids_def db_used_def)
qed

lemma db_run_spec:
  "db_ok d \<Longrightarrow> ok_run db_step db_running es d \<Longrightarrow> db_used (fold db_step es d) = fold db_spec es (db_used d)"
proof (induction es arbitrary: d)
  case (Cons e es)
  then show ?case using db_step_ok [of d e] by simp
qed simp

section \<open>Properties\<close>

text \<open>
  C40: The storage ids refine the set of the ids in use: from the table the server loads, through every
  run of groups made and disbanded, a new group gets the least positive id that no group has, it is
  registered under it, and a disbanded group gives its id back.
\<close>
theorem storage_ids_refine_set:
  assumes "rows_ok ps" "load_db_ids ps new_db_ids = Some d" "ok_run db_step db_running es d" "d' = fold db_step es d"
  shows "db_used d' = fold db_spec es ((unat \<circ> fst) ` set ps)
    \<and> unat (fst (generate_db_id d')) = (LEAST n. 1 \<le> n \<and> n \<notin> db_used d')
    \<and> (db_running (DbCreate r) d' \<longrightarrow> group_by_db_id (db_step (DbCreate r) d') (fst (generate_db_id d')) = Some r)"
proof -
  have d: "db_ok d" "db_used d = (unat \<circ> fst) ` set ps" using loaded_store [OF assms(1)] assms(2) by auto
  have ok: "db_ok d'" unfolding assms(4) by (rule db.ok_run_inv [OF d(1) assms(3)])
  moreover have "db_used d' = fold db_spec es ((unat \<circ> fst) ` set ps)"
    unfolding assms(4) db_run_spec [OF d(1) assms(3)] d(2) ..
  moreover have "fst (generate_db_id d') = db_next d'" by (simp add: generate_db_id_def Let_def)
  ultimately show ?thesis using db_ok_least [OF ok] db_create(3) [OF ok, of r] by (simp del: db_step.simps)
qed

lemma storage_ids_refine_set_witness:
  "\<exists>d. load_db_ids [(1, 0), (3, 1)] new_db_ids = Some d \<and> db_used (fold db_step [DbCreate 2] d) = {1, 2, 3}"
proof -
  have rows: "rows_ok [(1, 0), (3, 1)]" by (simp add: rows_ok_def)
  obtain d where d: "load_db_ids [(1, 0), (3, 1)] new_db_ids = Some d" "db_ok d" "db_used d = {1, 3}"
    using loaded_store [OF rows] by auto
  have least: "(LEAST n. 1 \<le> n \<and> n \<notin> {1, 3}) = (2 :: nat)"
    by (rule Least_equality) auto
  then have "unat (db_next d) = 2" using db_ok_least [OF d(2)] d(3) by simp
  then have run: "ok_run db_step db_running [DbCreate 2] d" by (simp add: word_less_nat_alt)
  have "db_used (fold db_step [DbCreate 2] d) = {1, 2, 3}"
    using storage_ids_refine_set [OF rows d(1) run refl, of 0] least by auto
  then show ?thesis using d(1) by blast
qed

text \<open>The check for an overflow of the ids never fires: the counter was already increased.\<close>

lemma overflow_check_dead: "\<not> db_overflow d"
proof -
  have one: "x + 1 \<noteq> x" for x :: u32 by simp
  have "j \<noteq> db_next d" if "first_free (db_store d) (db_next d + 1) = Some j" for j
  proof (cases "db_next d = 0xFFFFFFFF")
    case True
    then show ?thesis using first_free_some [OF that] by auto
  next
    case False
    then have "unat (db_next d) < 0xFFFFFFFF" using unsigned_less [of "db_next d", where 'a = nat]
      by (simp add: word_unat_eq_iff)
    then show ?thesis using first_free_some [OF that] Suc_u32 by (auto simp: word_le_nat_alt)
  qed
  then show ?thesis using one by (auto simp: db_overflow_def generate_db_id_def Let_def split: option.split)
qed

end
