(* ===== verification/Party.thy ===== *)
theory Party
  imports WideString Guid PartyStore
begin

text \<open>
  Groups of players: \<open>src/server/game/Groups/Group.cpp\<close>, \<open>Group.h\<close> and what \<open>Player.cpp\<close> keeps of them.
  A pointer to a group is a number; the state has the groups that exist, the players whose
  objects exist, the loot on the ground and what was sent. Using a pointer to a deleted group,
  an index out of range or a failed assertion sets the flag \<open>pw_fault\<close>. Instance binds, scripts,
  visibility and the values update of a new member are left out.
\<close>

section \<open>Data\<close>

record member_slot =
  mb_guid :: guid
  mb_name :: string
  mb_group :: u8
  mb_flags :: u8
  mb_roles :: u8

datatype roll_vote = PASS | NEED | GREED | DISENCHANT | NOT_EMITED_YET | NOT_VALID

fun roll_vote_val :: "roll_vote \<Rightarrow> u8" where
  "roll_vote_val PASS = 0"
| "roll_vote_val NEED = 1"
| "roll_vote_val GREED = 2"
| "roll_vote_val DISENCHANT = 3"
| "roll_vote_val NOT_EMITED_YET = 4"
| "roll_vote_val NOT_VALID = 5"

record roll =
  rl_guid :: guid                               \<comment> \<open>of the item to be made\<close>
  rl_item :: u32
  rl_prop :: int
  rl_suffix :: u32
  rl_count :: u8
  rl_votes :: "(guid, roll_vote) omap"
  rl_total :: u8
  rl_need :: u8
  rl_greed :: u8
  rl_pass :: u8
  rl_slot :: u8
  rl_mask :: u8
  rl_loot :: "nat option"                       \<comment> \<open>the loot, if it was not deleted\<close>

datatype loot_method = FREE_FOR_ALL | ROUND_ROBIN | MASTER_LOOT | GROUP_LOOT | NEED_BEFORE_GREED

fun loot_method_val :: "loot_method \<Rightarrow> u8" where
  "loot_method_val FREE_FOR_ALL = 0"
| "loot_method_val ROUND_ROBIN = 1"
| "loot_method_val MASTER_LOOT = 2"
| "loot_method_val GROUP_LOOT = 3"
| "loot_method_val NEED_BEFORE_GREED = 4"

definition loot_method_of :: "u32 \<Rightarrow> loot_method" where
  "loot_method_of v = (if v = 0 then FREE_FOR_ALL else if v = 1 then ROUND_ROBIN else if v = 2 then MASTER_LOOT
     else if v = 3 then GROUP_LOOT else NEED_BEFORE_GREED)"

text \<open>A player links to a group as his group or as the one he had before he joined a battleground.\<close>

datatype party_link = MainLink | OrigLink

record party =                                  \<comment> \<open>\<open>Group\<close>\<close>
  pa_members :: "member_slot list"
  pa_refs :: "(guid \<times> party_link) list"          \<comment> \<open>\<open>m_memberMgr\<close>: the references of the players that exist\<close>
  pa_invites :: "guid list"
  pa_leader :: guid
  pa_leader_name :: string
  pa_type :: u8
  pa_dungeon :: u8
  pa_raid :: u8
  pa_bg :: "nat option"                         \<comment> \<open>the place of the raid in its battleground\<close>
  pa_bf :: bool
  pa_icons :: "guid list"
  pa_method :: loot_method
  pa_threshold :: u8
  pa_looter :: guid
  pa_master :: guid
  pa_rolls :: "roll list"
  pa_counts :: "u8 list option"                 \<comment> \<open>\<open>m_subGroupsCounts\<close>\<close>
  pa_guid :: guid
  pa_counter :: u32
  pa_enchanting :: u32
  pa_db :: u32

record party_player =
  pp_name :: string
  pp_in_world :: bool
  pp_logout :: bool                             \<comment> \<open>his session is logging out\<close>
  pp_group :: "(nat \<times> u8) option"                \<comment> \<open>\<open>m_group\<close> with the subgroup\<close>
  pp_orig :: "(nat \<times> u8) option"                 \<comment> \<open>\<open>m_originalGroup\<close>\<close>
  pp_invite :: "nat option"
  pp_leader_flag :: bool
  pp_enchanting :: u32
  pp_level :: u8
  pp_dungeon :: u8
  pp_raid :: u8
  pp_pass_loot :: bool
  pp_gm :: bool
  pp_team :: u32
  pp_instance :: u32
  pp_map :: u32
  pp_area :: u32
  pp_in_bg :: bool
  pp_in_combat :: bool
  pp_friends :: "guid list"
  pp_ignores :: "guid list"
  pp_home_valid :: bool                         \<comment> \<open>\<open>m_InstanceValid\<close>\<close>

record loot_item =
  li_item :: u32
  li_prop :: int
  li_suffix :: u32
  li_count :: u8
  li_ffa :: bool
  li_follow :: bool
  li_blocked :: bool
  li_looted :: bool
  li_under :: bool

record loot =
  lo_items :: "loot_item list"
  lo_quest :: "loot_item list"
  lo_unlooted :: u8

datatype party_opcode =
    SMSG_GROUP_LIST | SMSG_GROUP_UNINVITE | SMSG_GROUP_DESTROYED | SMSG_GROUP_SET_LEADER | SMSG_GROUP_INVITE | SMSG_GROUP_DECLINE
  | SMSG_PARTY_COMMAND_RESULT | MSG_RAID_TARGET_UPDATE | MSG_RAID_READY_CHECK | MSG_RAID_READY_CHECK_CONFIRM
  | SMSG_LOOT_START_ROLL | SMSG_LOOT_ROLL | SMSG_LOOT_ROLL_WON | SMSG_LOOT_ALL_PASSED | SMSG_LOOT_LIST | SMSG_LOOT_MASTER_LIST

datatype party_field = P8 u8 | P32 u32 | PI32 int | P64 u64 | PStr string | PPackedGuid guid

datatype party_out =
    PPacket guid party_opcode "party_field list"
  | PDungeonDifficulty guid | PRaidDifficulty guid
  | DbInsGroup party | DbDelGroup u32 | DbGroupType u32 u8 | DbGroupLeader u32 guid | DbGroupDifficulty u32 u8 | DbGroupRaid u32 u8
  | DbInsMember u32 member_slot | DbDelMember guid | DbDelMembers u32 | DbMemberGroup guid u8 | DbMemberFlags guid u8
  | DbDelLfg u32
  | PLootTimer nat u32 u32 | PLootRemoved nat u8 | PLooted guid u32 u8 | PEquipError guid u32 u32
  | PDisenchant guid u32 | PDisenchantMail guid u32 | PCriterion guid u32 u32 u32

record loot_proto =
  ip_quality :: u32
  ip_disenchant :: u32
  ip_enchanting :: u32
  ip_no_need :: bool                            \<comment> \<open>\<open>ITEM_FLAGS_EXTRA_NEED_ROLL_DISABLED\<close>\<close>

record party_env =
  pe_gm_group :: bool
  pe_two_side :: bool
  pe_level_req :: u8
  pe_proto :: "u32 \<Rightarrow> loot_proto option"
  pe_near :: "nat \<Rightarrow> guid \<Rightarrow> bool"               \<comment> \<open>at reward distance of an object\<close>
  pe_allowed :: "loot_item \<Rightarrow> guid \<Rightarrow> bool"
  pe_can_need :: "nat \<Rightarrow> guid \<Rightarrow> u32 \<Rightarrow> bool"
  pe_map_of :: "nat \<Rightarrow> u32"                     \<comment> \<open>the map of an object\<close>
  pe_can_store :: "guid \<Rightarrow> u32 \<Rightarrow> u8 \<Rightarrow> u32"       \<comment> \<open>0: it fits\<close>
  pe_dungeon_map :: "u32 \<Rightarrow> bool"               \<comment> \<open>the map is an instance\<close>
  pe_raid_map :: "u32 \<Rightarrow> bool"                  \<comment> \<open>it is one of a raid\<close>
  pe_instance_ok :: "guid \<Rightarrow> bool"              \<comment> \<open>\<open>CheckInstanceValidity\<close>, by the instance binds\<close>
  pe_lfg_finished :: "guid \<Rightarrow> bool"
  pe_lfg_dungeon :: "guid \<Rightarrow> u32"
  pe_lfg_map :: "guid \<Rightarrow> u32"
  pe_lfg_kicks :: "guid \<Rightarrow> u32"
  pe_lfg_vote :: "guid \<Rightarrow> bool"
  pe_alive :: "guid \<Rightarrow> bool"
  pe_hostile :: "guid \<Rightarrow> guid \<Rightarrow> bool"
  pe_char_name :: "guid \<Rightarrow> string option"       \<comment> \<open>of every character\<close>
  pe_char_guid :: "string \<Rightarrow> guid"
  pe_utf8 :: utf8_lib
  pe_random :: "guid \<Rightarrow> guid \<Rightarrow> u8"            \<comment> \<open>\<open>urand(1, 100)\<close> for an item and a player\<close>

record party_world =
  pw_groups :: "nat \<Rightarrow> party option"
  pw_next :: nat
  pw_players :: "(guid, party_player) omap"
  pw_loots :: "nat \<Rightarrow> loot option"
  pw_store :: "(u32, nat) omap"                 \<comment> \<open>\<open>GroupStore\<close>\<close>
  pw_db :: db_ids
  pw_next_group :: u32
  pw_next_item :: guid_generator
  pw_bg_raids :: "nat \<Rightarrow> nat option"           \<comment> \<open>\<open>m_BgRaids\<close> of the battlegrounds\<close>
  pw_fault :: bool
  pw_out :: "party_out list"

definition MAXGROUPSIZE :: nat where "MAXGROUPSIZE = 5"
definition MAXRAIDSIZE :: nat where "MAXRAIDSIZE = 40"
definition MAX_RAID_SUBGROUPS :: nat where "MAX_RAID_SUBGROUPS = MAXRAIDSIZE div MAXGROUPSIZE"
definition TARGETICONCOUNT :: nat where "TARGETICONCOUNT = 8"

definition MEMBER_STATUS_OFFLINE :: u8 where "MEMBER_STATUS_OFFLINE = 0"
definition MEMBER_STATUS_ONLINE :: u8 where "MEMBER_STATUS_ONLINE = 1"
definition MEMBER_STATUS_PVP :: u8 where "MEMBER_STATUS_PVP = 2"

definition MEMBER_FLAG_ASSISTANT :: u8 where "MEMBER_FLAG_ASSISTANT = 1"
definition MEMBER_FLAG_MAINTANK :: u8 where "MEMBER_FLAG_MAINTANK = 2"
definition MEMBER_FLAG_MAINASSIST :: u8 where "MEMBER_FLAG_MAINASSIST = 4"

definition GROUP_ASSIGN_MAINTANK :: u8 where "GROUP_ASSIGN_MAINTANK = 0"
definition GROUP_ASSIGN_MAINASSIST :: u8 where "GROUP_ASSIGN_MAINASSIST = 1"

definition GROUPTYPE_RAID :: u8 where "GROUPTYPE_RAID = 2"
definition GROUPTYPE_BGRAID :: u8 where "GROUPTYPE_BGRAID = 3"
definition GROUPTYPE_LFG_RESTRICTED :: u8 where "GROUPTYPE_LFG_RESTRICTED = 4"
definition GROUPTYPE_LFG :: u8 where "GROUPTYPE_LFG = 8"

definition ITEM_QUALITY_UNCOMMON :: u8 where "ITEM_QUALITY_UNCOMMON = 2"
definition ITEM_QUALITY_ARTIFACT :: u8 where "ITEM_QUALITY_ARTIFACT = 6"

definition LEVELREQUIREMENT_HEROIC :: u8 where "LEVELREQUIREMENT_HEROIC = 70"
definition MAX_DUNGEON_DIFFICULTY :: u8 where "MAX_DUNGEON_DIFFICULTY = 3"
definition MAX_RAID_DIFFICULTY :: u8 where "MAX_RAID_DIFFICULTY = 4"
definition RAID_DIFFICULTY_10MAN_HEROIC :: u8 where "RAID_DIFFICULTY_10MAN_HEROIC = 2"

datatype remove_method = REMOVE_DEFAULT | REMOVE_KICK | REMOVE_LEAVE | REMOVE_KICK_LFG

section \<open>The state\<close>

definition pw_emit :: "party_out list \<Rightarrow> party_world \<Rightarrow> party_world" where
  "pw_emit os w = w\<lparr>pw_out := pw_out w @ os\<rparr>"

definition fault :: "party_world \<Rightarrow> party_world" where
  "fault w = w\<lparr>pw_fault := True\<rparr>"

text \<open>Writing and reading through a pointer to a group.\<close>

definition upd_party :: "nat \<Rightarrow> (party \<Rightarrow> party) \<Rightarrow> party_world \<Rightarrow> party_world" where
  "upd_party r f w =
     (case pw_groups w r of None \<Rightarrow> fault w | Some p \<Rightarrow> w\<lparr>pw_groups := (pw_groups w)(r \<mapsto> f p)\<rparr>)"

definition with_party :: "nat \<Rightarrow> (party \<Rightarrow> party_world \<Rightarrow> party_world) \<Rightarrow> party_world \<Rightarrow> party_world" where
  "with_party r f w = (case pw_groups w r of None \<Rightarrow> fault w | Some p \<Rightarrow> f p w)"

definition upd_pp :: "guid \<Rightarrow> (party_player \<Rightarrow> party_player) \<Rightarrow> party_world \<Rightarrow> party_world" where
  "upd_pp g f w = w\<lparr>pw_players := om_upd g f (pw_players w)\<rparr>"

text \<open>\<open>FindConnectedPlayer\<close>, \<open>FindPlayer\<close>, by name\<close>

definition find_connected :: "party_world \<Rightarrow> guid \<Rightarrow> party_player option" where
  "find_connected w g = map_of (pw_players w) g"

definition is_connected :: "party_world \<Rightarrow> guid \<Rightarrow> bool" where
  "is_connected w g \<longleftrightarrow> find_connected w g \<noteq> None"

definition find_player :: "party_world \<Rightarrow> guid \<Rightarrow> party_player option" where
  "find_player w g = (case find_connected w g of None \<Rightarrow> None | Some p \<Rightarrow> if pp_in_world p then Some p else None)"

text \<open>Names are compared in lower case.\<close>

definition char_lower :: "char \<Rightarrow> char" where
  "char_lower c = (if (65 :: nat) \<le> of_char c \<and> of_char c \<le> (90 :: nat) then char_of (of_char c + 32 :: nat) else c)"

definition same_name :: "string \<Rightarrow> string \<Rightarrow> bool" where
  "same_name m n \<longleftrightarrow> map char_lower m = map char_lower n"

definition find_player_by_name :: "party_world \<Rightarrow> string \<Rightarrow> guid option" where
  "find_player_by_name w n = map_option fst (find (\<lambda>(g, p). pp_in_world p \<and> same_name (pp_name p) n) (pw_players w))"

definition find_connected_by_name :: "party_world \<Rightarrow> string \<Rightarrow> guid option" where
  "find_connected_by_name w n = map_option fst (find (\<lambda>(g, p). same_name (pp_name p) n) (pw_players w))"

section \<open>Links between players and groups\<close>

definition player_group :: "party_world \<Rightarrow> guid \<Rightarrow> nat option" where
  "player_group w g = (case find_connected w g of None \<Rightarrow> None | Some p \<Rightarrow> map_option fst (pp_group p))"

definition player_original :: "party_world \<Rightarrow> guid \<Rightarrow> nat option" where
  "player_original w g = (case find_connected w g of None \<Rightarrow> None | Some p \<Rightarrow> map_option fst (pp_orig p))"

definition player_invite :: "party_world \<Rightarrow> guid \<Rightarrow> nat option" where
  "player_invite w g = (case find_connected w g of None \<Rightarrow> None | Some p \<Rightarrow> pp_invite p)"

definition unlink_main :: "guid \<Rightarrow> party_world \<Rightarrow> party_world" where
  "unlink_main g w =
     (case player_group w g of
        None \<Rightarrow> w
      | Some r \<Rightarrow> upd_pp g (\<lambda>p. p\<lparr>pp_group := None\<rparr>) (upd_party r (\<lambda>p. p\<lparr>pa_refs := filter (\<lambda>x. x \<noteq> (g, MainLink)) (pa_refs p)\<rparr>) w))"

definition unlink_original :: "guid \<Rightarrow> party_world \<Rightarrow> party_world" where
  "unlink_original g w =
     (case player_original w g of
        None \<Rightarrow> w
      | Some r \<Rightarrow> upd_pp g (\<lambda>p. p\<lparr>pp_orig := None\<rparr>) (upd_party r (\<lambda>p. p\<lparr>pa_refs := filter (\<lambda>x. x \<noteq> (g, OrigLink)) (pa_refs p)\<rparr>) w))"

text \<open>The subgroup is passed as \<open>int8\<close> and asserted not to be negative.\<close>

definition subgroup_assert :: "u8 \<Rightarrow> party_world \<Rightarrow> party_world" where
  "subgroup_assert sub w = (if sub < 0x80 then w else fault w)"

definition link_main :: "nat \<Rightarrow> u8 \<Rightarrow> guid \<Rightarrow> party_world \<Rightarrow> party_world" where
  "link_main r sub g w =
     upd_party r (\<lambda>p. p\<lparr>pa_refs := (g, MainLink) # pa_refs p\<rparr>)
       (upd_pp g (\<lambda>p. p\<lparr>pp_group := Some (r, sub)\<rparr>) (unlink_main g w))"

definition link_original :: "nat \<Rightarrow> u8 \<Rightarrow> guid \<Rightarrow> party_world \<Rightarrow> party_world" where
  "link_original r sub g w =
     upd_party r (\<lambda>p. p\<lparr>pa_refs := (g, OrigLink) # pa_refs p\<rparr>)
       (upd_pp g (\<lambda>p. p\<lparr>pp_orig := Some (r, sub)\<rparr>) (unlink_original g w))"

definition set_group :: "(nat \<times> u8) option \<Rightarrow> guid \<Rightarrow> party_world \<Rightarrow> party_world" where
  "set_group x g w = (case x of None \<Rightarrow> unlink_main g w | Some (r, sub) \<Rightarrow> link_main r sub g (subgroup_assert sub w))"

definition set_original_group :: "(nat \<times> u8) option \<Rightarrow> guid \<Rightarrow> party_world \<Rightarrow> party_world" where
  "set_original_group x g w = (case x of None \<Rightarrow> unlink_original g w | Some (r, sub) \<Rightarrow> link_original r sub g (subgroup_assert sub w))"

definition set_battleground_raid :: "nat \<Rightarrow> u8 \<Rightarrow> guid \<Rightarrow> party_world \<Rightarrow> party_world" where
  "set_battleground_raid r sub g w =
     (let x = (case find_connected w g of None \<Rightarrow> None | Some p \<Rightarrow> pp_group p)
      in link_main r sub g (unlink_main g (set_original_group x g w)))"

definition remove_from_battleground_raid :: "guid \<Rightarrow> party_world \<Rightarrow> party_world" where
  "remove_from_battleground_raid g w =
     (let w1 = unlink_main g w;
          x = (case find_connected w1 g of None \<Rightarrow> None | Some p \<Rightarrow> pp_orig p)
      in set_original_group None g (case x of None \<Rightarrow> w1 | Some (r, sub) \<Rightarrow> link_main r sub g w1))"

section \<open>One group\<close>

definition new_party :: party where
  "new_party =
     \<lparr>pa_members = [], pa_refs = [], pa_invites = [], pa_leader = 0, pa_leader_name = [], pa_type = 0, pa_dungeon = 0, pa_raid = 0,
      pa_bg = None, pa_bf = False, pa_icons = replicate TARGETICONCOUNT 0, pa_method = FREE_FOR_ALL,
      pa_threshold = ITEM_QUALITY_UNCOMMON, pa_looter = 0, pa_master = 0, pa_rolls = [], pa_counts = None, pa_guid = 0,
      pa_counter = 0, pa_enchanting = 0, pa_db = 0\<rparr>"

definition is_lfg_group :: "party \<Rightarrow> bool" where "is_lfg_group p \<longleftrightarrow> pa_type p AND GROUPTYPE_LFG \<noteq> 0"
definition is_raid_group :: "party \<Rightarrow> bool" where "is_raid_group p \<longleftrightarrow> pa_type p AND GROUPTYPE_RAID \<noteq> 0"
definition is_bg_group :: "party \<Rightarrow> bool" where "is_bg_group p \<longleftrightarrow> pa_bg p \<noteq> None"
definition is_bf_group :: "party \<Rightarrow> bool" where "is_bf_group p \<longleftrightarrow> pa_bf p"
definition is_created :: "party \<Rightarrow> bool" where "is_created p \<longleftrightarrow> 0 < length (pa_members p)"
definition is_leader :: "party \<Rightarrow> guid \<Rightarrow> bool" where "is_leader p g \<longleftrightarrow> pa_leader p = g"

text \<open>In a battleground or a battlefield.\<close>

abbreviation bg_or_bf :: "party \<Rightarrow> bool" where "bg_or_bf p \<equiv> is_bg_group p \<or> is_bf_group p"

definition get_slot :: "party \<Rightarrow> guid \<Rightarrow> member_slot option" where
  "get_slot p g = find (\<lambda>m. mb_guid m = g) (pa_members p)"

definition is_member :: "party \<Rightarrow> guid \<Rightarrow> bool" where "is_member p g \<longleftrightarrow> get_slot p g \<noteq> None"

definition get_member_guid :: "party \<Rightarrow> string \<Rightarrow> guid" where
  "get_member_guid p n = (case find (\<lambda>m. mb_name m = n) (pa_members p) of None \<Rightarrow> 0 | Some m \<Rightarrow> mb_guid m)"

definition is_assistant :: "party \<Rightarrow> guid \<Rightarrow> bool" where
  "is_assistant p g \<longleftrightarrow> (case get_slot p g of None \<Rightarrow> False | Some m \<Rightarrow> mb_flags m AND MEMBER_FLAG_ASSISTANT \<noteq> 0)"

definition same_sub_group :: "party \<Rightarrow> guid \<Rightarrow> guid \<Rightarrow> bool" where
  "same_sub_group p g1 g2 \<longleftrightarrow>
     (case (get_slot p g1, get_slot p g2) of (Some m1, Some m2) \<Rightarrow> mb_group m1 = mb_group m2 | _ \<Rightarrow> False)"

definition has_free_slot_sub_group :: "party \<Rightarrow> u8 \<Rightarrow> bool" where
  "has_free_slot_sub_group p sub \<longleftrightarrow>
     (case pa_counts p of None \<Rightarrow> False | Some cs \<Rightarrow> unat sub < length cs \<and> unat (cs ! unat sub) < MAXGROUPSIZE)"

definition get_member_group :: "party \<Rightarrow> guid \<Rightarrow> u8" where
  "get_member_group p g = (case get_slot p g of None \<Rightarrow> of_nat (MAX_RAID_SUBGROUPS + 1) | Some m \<Rightarrow> mb_group m)"

definition is_full :: "party \<Rightarrow> bool" where
  "is_full p \<longleftrightarrow> (if is_raid_group p then MAXRAIDSIZE else MAXGROUPSIZE) \<le> length (pa_members p)"

definition get_looter_guid :: "party \<Rightarrow> guid" where
  "get_looter_guid p = (if pa_method p = FREE_FOR_ALL then 0 else pa_looter p)"

definition get_difficulty :: "party \<Rightarrow> bool \<Rightarrow> u8" where
  "get_difficulty p raid = (if raid then pa_raid p else pa_dungeon p)"

text \<open>The first slot of a member, changed or erased.\<close>

fun upd_first :: "('a \<Rightarrow> bool) \<Rightarrow> ('a \<Rightarrow> 'a) \<Rightarrow> 'a list \<Rightarrow> 'a list" where
  "upd_first P f [] = []"
| "upd_first P f (x # xs) = (if P x then f x # xs else x # upd_first P f xs)"

fun del_first :: "('a \<Rightarrow> bool) \<Rightarrow> 'a list \<Rightarrow> 'a list" where
  "del_first P [] = []"
| "del_first P (x # xs) = (if P x then xs else x # del_first P xs)"

definition upd_slot :: "guid \<Rightarrow> (member_slot \<Rightarrow> member_slot) \<Rightarrow> party \<Rightarrow> party" where
  "upd_slot g f p = p\<lparr>pa_members := upd_first (\<lambda>m. mb_guid m = g) f (pa_members p)\<rparr>"

definition toggle_flag :: "u8 \<Rightarrow> bool \<Rightarrow> member_slot \<Rightarrow> member_slot" where
  "toggle_flag flag apply m = m\<lparr>mb_flags := (if apply then mb_flags m OR flag else mb_flags m AND NOT flag)\<rparr>"

definition remove_unique_flag :: "u8 \<Rightarrow> party \<Rightarrow> party" where
  "remove_unique_flag flag p =
     p\<lparr>pa_members := map (\<lambda>m. if mb_flags m AND flag \<noteq> 0 then m\<lparr>mb_flags := mb_flags m AND NOT flag\<rparr> else m) (pa_members p)\<rparr>"

section \<open>What a group sends\<close>

text \<open>Every member's client gets the list of the others; the counter of the packets goes up.\<close>

definition online_state :: "party_world \<Rightarrow> party \<Rightarrow> guid \<Rightarrow> u8" where
  "online_state w p g =
     (let st = (case find_connected w g of
          Some q \<Rightarrow> if \<not> pp_logout q then MEMBER_STATUS_ONLINE else MEMBER_STATUS_OFFLINE | None \<Rightarrow> MEMBER_STATUS_OFFLINE)
      in st OR (if bg_or_bf p then MEMBER_STATUS_PVP else 0))"

definition group_list :: "party_env \<Rightarrow> party_world \<Rightarrow> party \<Rightarrow> member_slot \<Rightarrow> party_field list" where
  "group_list env w p m =
     [P8 (pa_type p), P8 (mb_group m), P8 (mb_flags m), P8 (mb_roles m)]
     @ (if is_lfg_group p then [P8 (if pe_lfg_finished env (pa_guid p) then 2 else 0), P32 (pe_lfg_dungeon env (pa_guid p))] else [])
     @ [P64 (pa_guid p), P32 (pa_counter p), P32 (of_nat (length (pa_members p)) - 1)]
     @ concat (map (\<lambda>q. if mb_guid q = mb_guid m then []
          else [PStr (mb_name q), P64 (mb_guid q), P8 (online_state w p (mb_guid q)), P8 (mb_group q), P8 (mb_flags q), P8 (mb_roles q)])
          (pa_members p))
     @ [P64 (pa_leader p)]
     @ (if length (pa_members p) \<noteq> 1
        then [P8 (loot_method_val (pa_method p)), P64 (if pa_method p = MASTER_LOOT then pa_master p else 0), P8 (pa_threshold p),
              P8 (pa_dungeon p), P8 (pa_raid p), P8 (if RAID_DIFFICULTY_10MAN_HEROIC \<le> pa_raid p then 1 else 0)]
        else [])"

definition send_update_to_player :: "party_env \<Rightarrow> nat \<Rightarrow> guid \<Rightarrow> member_slot option \<Rightarrow> party_world \<Rightarrow> party_world" where
  "send_update_to_player env r g slot w =
     with_party r (\<lambda>p w.
       if player_group w g \<noteq> Some r then w
       else (case (case slot of Some m \<Rightarrow> Some m | None \<Rightarrow> get_slot p g) of
           None \<Rightarrow> w
         | Some m \<Rightarrow> upd_party r (\<lambda>p. p\<lparr>pa_counter := pa_counter p + 1\<rparr>) (pw_emit [PPacket g SMSG_GROUP_LIST (group_list env w p m)] w))) w"

definition send_update :: "party_env \<Rightarrow> nat \<Rightarrow> party_world \<Rightarrow> party_world" where
  "send_update env r w =
     with_party r (\<lambda>p w. fold (\<lambda>m. send_update_to_player env r (mb_guid m) (Some m)) (pa_members p) w) w"

text \<open>\<open>BroadcastPacket\<close>: \<open>grp\<close> restricts it to a subgroup.\<close>

definition link_subgroup :: "party_world \<Rightarrow> guid \<times> party_link \<Rightarrow> u8 option" where
  "link_subgroup w x =
     (case find_connected w (fst x) of
        None \<Rightarrow> None
      | Some p \<Rightarrow> map_option snd (case snd x of MainLink \<Rightarrow> pp_group p | OrigLink \<Rightarrow> pp_orig p))"

definition broadcast :: "party_opcode \<Rightarrow> party_field list \<Rightarrow> bool \<Rightarrow> u8 option \<Rightarrow> guid \<Rightarrow> nat \<Rightarrow> party_world \<Rightarrow> party_world" where
  "broadcast op fs ignore_bg grp ignored r w =
     with_party r (\<lambda>p. pw_emit
       (map (\<lambda>x. PPacket (fst x) op fs)
         (filter (\<lambda>x. \<not> (ignored \<noteq> 0 \<and> fst x = ignored) \<and> \<not> (ignore_bg \<and> player_group w (fst x) \<noteq> Some r)
            \<and> (grp = None \<or> link_subgroup w x = grp)) (pa_refs p)))) w"

definition broadcast_ready_check :: "party_opcode \<Rightarrow> party_field list \<Rightarrow> nat \<Rightarrow> party_world \<Rightarrow> party_world" where
  "broadcast_ready_check op fs r w =
     with_party r (\<lambda>p. pw_emit
       (map (\<lambda>x. PPacket (fst x) op fs) (filter (\<lambda>x. is_leader p (fst x) \<or> is_assistant p (fst x)) (pa_refs p)))) w"

definition offline_ready_check :: "nat \<Rightarrow> party_world \<Rightarrow> party_world" where
  "offline_ready_check r w =
     with_party r (\<lambda>p. fold (\<lambda>m. broadcast_ready_check MSG_RAID_READY_CHECK_CONFIRM [P64 (mb_guid m), P8 0] r)
       (filter (\<lambda>m. \<not> is_connected w (mb_guid m)) (pa_members p))) w"

section \<open>Subgroups\<close>

definition sub_group_counter :: "(u8 \<Rightarrow> u8) \<Rightarrow> nat \<Rightarrow> u8 \<Rightarrow> party_world \<Rightarrow> party_world" where
  "sub_group_counter f r sub w =
     with_party r (\<lambda>p w. case pa_counts p of
         None \<Rightarrow> w
       | Some cs \<Rightarrow>
           if unat sub < length cs then upd_party r (\<lambda>p. p\<lparr>pa_counts := Some (cs[unat sub := f (cs ! unat sub)])\<rparr>) w else fault w) w"

definition sub_group_counter_increase :: "nat \<Rightarrow> u8 \<Rightarrow> party_world \<Rightarrow> party_world" where
  "sub_group_counter_increase = sub_group_counter (\<lambda>c. c + 1)"

definition sub_group_counter_decrease :: "nat \<Rightarrow> u8 \<Rightarrow> party_world \<Rightarrow> party_world" where
  "sub_group_counter_decrease = sub_group_counter (\<lambda>c. c - 1)"

definition init_raid_counter :: "nat \<Rightarrow> party_world \<Rightarrow> party_world" where
  "init_raid_counter r w =
     with_party r (\<lambda>p w. fold (\<lambda>m. sub_group_counter_increase r (mb_group m)) (pa_members p)
       (upd_party r (\<lambda>p. p\<lparr>pa_counts := Some (replicate MAX_RAID_SUBGROUPS 0)\<rparr>) w)) w"

definition set_members_group :: "nat \<Rightarrow> guid \<Rightarrow> u8 \<Rightarrow> party_world \<Rightarrow> bool \<times> party_world" where
  "set_members_group r g sub w =
     (case pw_groups w r of
        None \<Rightarrow> (False, fault w)
      | Some p \<Rightarrow>
          if \<not> is_member p g then (False, w)
          else
            (let w1 = sub_group_counter_increase r sub (upd_party r (upd_slot g (\<lambda>m. m\<lparr>mb_group := sub\<rparr>)) w)
             in (True, if bg_or_bf p then w1 else pw_emit [DbMemberGroup g sub] w1)))"

definition set_link_subgroup :: "nat \<Rightarrow> guid \<Rightarrow> u8 \<Rightarrow> party_world \<Rightarrow> party_world" where
  "set_link_subgroup r g sub w =
     (if player_group w g = Some r then upd_pp g (\<lambda>p. p\<lparr>pp_group := map_option (\<lambda>x. (fst x, sub)) (pp_group p)\<rparr>) w
      else upd_pp g (\<lambda>p. p\<lparr>pp_orig := map_option (\<lambda>x. (fst x, sub)) (pp_orig p)\<rparr>) w)"

definition change_members_group :: "party_env \<Rightarrow> nat \<Rightarrow> guid \<Rightarrow> u8 \<Rightarrow> party_world \<Rightarrow> party_world" where
  "change_members_group env r g sub w =
     with_party r (\<lambda>p w.
       if \<not> is_raid_group p \<or> \<not> is_member p g \<or> get_member_group p g = sub then w
       else
         (let prev = get_member_group p g;
              w1 = upd_party r (upd_slot g (\<lambda>m. m\<lparr>mb_group := sub\<rparr>)) w;
              w2 = sub_group_counter_decrease r prev (sub_group_counter_increase r sub w1);
              w3 = (if bg_or_bf p then w2 else pw_emit [DbMemberGroup g sub] w2);
              w4 = (if is_connected w3 g then set_link_subgroup r g sub w3 else w3)
          in send_update env r w4)) w"

section \<open>Kinds of groups\<close>

definition convert_to_lfg :: "party_env \<Rightarrow> nat \<Rightarrow> party_world \<Rightarrow> party_world" where
  "convert_to_lfg env r w =
     (let w1 = upd_party r (\<lambda>p. p\<lparr>pa_type := pa_type p OR GROUPTYPE_LFG OR GROUPTYPE_LFG_RESTRICTED, pa_method := NEED_BEFORE_GREED\<rparr>) w;
          w2 = with_party r (\<lambda>p. if bg_or_bf p then id else pw_emit [DbGroupType (pa_db p) (pa_type p)]) w1
      in send_update env r w2)"

definition convert_to_raid :: "party_env \<Rightarrow> nat \<Rightarrow> party_world \<Rightarrow> party_world" where
  "convert_to_raid env r w =
     (let w1 = init_raid_counter r (upd_party r (\<lambda>p. p\<lparr>pa_type := pa_type p OR GROUPTYPE_RAID\<rparr>) w);
          w2 = with_party r (\<lambda>p. if bg_or_bf p then id else pw_emit [DbGroupType (pa_db p) (pa_type p)]) w1
      in send_update env r w2)"

section \<open>Invitations\<close>

definition set_invite :: "nat option \<Rightarrow> guid \<Rightarrow> party_world \<Rightarrow> party_world" where
  "set_invite x g = upd_pp g (\<lambda>p. p\<lparr>pp_invite := x\<rparr>)"

definition remove_invite :: "nat \<Rightarrow> guid \<Rightarrow> party_world \<Rightarrow> party_world" where
  "remove_invite r g w = set_invite None g (upd_party r (\<lambda>p. p\<lparr>pa_invites := os_del g (pa_invites p)\<rparr>) w)"

definition remove_all_invites :: "nat \<Rightarrow> party_world \<Rightarrow> party_world" where
  "remove_all_invites r w =
     with_party r (\<lambda>p w. upd_party r (\<lambda>p. p\<lparr>pa_invites := []\<rparr>) (fold (set_invite None) (pa_invites p) w)) w"

text \<open>The group that counts for an invitation: of a player in a battleground the one he had before.\<close>

definition own_group :: "(party \<Rightarrow> bool) \<Rightarrow> party_world \<Rightarrow> guid \<Rightarrow> nat option" where
  "own_group bg w g =
     (case player_group w g of
        None \<Rightarrow> None
      | Some r \<Rightarrow> (case pw_groups w r of None \<Rightarrow> Some r | Some p \<Rightarrow> if bg p then player_original w g else Some r))"

definition add_invite :: "nat \<Rightarrow> guid \<Rightarrow> party_world \<Rightarrow> bool \<times> party_world" where
  "add_invite r g w =
     (if \<not> is_connected w g \<or> player_invite w g \<noteq> None \<or> own_group bg_or_bf w g \<noteq> None then (False, w)
      else
        (let w1 = remove_invite r g w;
             w2 = upd_party r (\<lambda>p. p\<lparr>pa_invites := os_ins g (pa_invites p)\<rparr>) w1
         in (True, set_invite (Some r) g w2)))"

definition player_name :: "party_world \<Rightarrow> guid \<Rightarrow> string" where
  "player_name w g = (case find_connected w g of None \<Rightarrow> [] | Some p \<Rightarrow> pp_name p)"

definition add_leader_invite :: "nat \<Rightarrow> guid \<Rightarrow> party_world \<Rightarrow> bool \<times> party_world" where
  "add_leader_invite r g w =
     (case add_invite r g w of
        (False, w1) \<Rightarrow> (False, w1)
      | (True, w1) \<Rightarrow> (True, upd_party r (\<lambda>p. p\<lparr>pa_leader := g, pa_leader_name := player_name w g\<rparr>) w1))"

definition get_invited :: "party \<Rightarrow> guid \<Rightarrow> guid option" where
  "get_invited p g = (if g \<in> set (pa_invites p) then Some g else None)"

definition get_invited_by_name :: "party_world \<Rightarrow> party \<Rightarrow> string \<Rightarrow> guid option" where
  "get_invited_by_name w p n = find (\<lambda>g. is_connected w g \<and> player_name w g = n) (pa_invites p)"

end
