(* ===== verification/PartyRoll.thy ===== *)
theory PartyRoll
  imports Party
begin

text \<open>
  Loot of a group: the rolls of \<open>src/server/game/Groups/Group.cpp\<close>. A looted object is a number, its
  loot is found in \<open>pw_loots\<close>; a roll is valid while its loot exists. The number a player draws for
  an item is \<open>pe_random\<close>. \<open>PartyRolls\<close> shows who wins a roll and when it ends.
\<close>

section \<open>Packets\<close>

definition ROLL_PASS :: u8 where "ROLL_PASS = 0"
definition ROLL_NEED :: u8 where "ROLL_NEED = 1"
definition ROLL_GREED :: u8 where "ROLL_GREED = 2"
definition ROLL_DISENCHANT :: u8 where "ROLL_DISENCHANT = 3"
definition MAX_ROLL_TYPE :: u8 where "MAX_ROLL_TYPE = 4"

definition ROLL_FLAG_TYPE_NEED :: u8 where "ROLL_FLAG_TYPE_NEED = 2"
definition ROLL_FLAG_TYPE_DISENCHANT :: u8 where "ROLL_FLAG_TYPE_DISENCHANT = 8"
definition ROLL_ALL_TYPE_NO_DISENCHANT :: u8 where "ROLL_ALL_TYPE_NO_DISENCHANT = 7"

definition ROLL_TIME :: u32 where "ROLL_TIME = 60000"

definition new_roll :: "guid \<Rightarrow> loot_item \<Rightarrow> roll" where
  "new_roll g li =
     \<lparr>rl_guid = g, rl_item = li_item li, rl_prop = li_prop li, rl_suffix = li_suffix li, rl_count = li_count li, rl_votes = [],
      rl_total = 0, rl_need = 0, rl_greed = 0, rl_pass = 0, rl_slot = 0, rl_mask = ROLL_ALL_TYPE_NO_DISENCHANT, rl_loot = None\<rparr>"

text \<open>\<open>getLoot\<close>: the loot of a roll while it is valid\<close>

definition roll_loot :: "party_world \<Rightarrow> roll \<Rightarrow> nat option" where
  "roll_loot w rl = (case rl_loot rl of None \<Rightarrow> None | Some l \<Rightarrow> if pw_loots w l = None then None else Some l)"

text \<open>A packet to the connected players whose vote is as asked, in the order of their GUIDs.\<close>

definition to_voters :: "(roll_vote \<Rightarrow> bool) \<Rightarrow> party_opcode \<Rightarrow> party_field list \<Rightarrow> roll \<Rightarrow> party_world \<Rightarrow> party_world" where
  "to_voters P op fs rl w =
     pw_emit (map (\<lambda>x. PPacket (fst x) op fs) (filter (\<lambda>x. is_connected w (fst x) \<and> P (snd x)) (rl_votes rl))) w"

definition start_roll_packet :: "u32 \<Rightarrow> u32 \<Rightarrow> u8 \<Rightarrow> roll \<Rightarrow> party_field list" where
  "start_roll_packet time map_id votes rl =
     [P64 (rl_guid rl), P32 map_id, P32 (ucast (rl_slot rl)), P32 (rl_item rl), P32 (rl_suffix rl), PI32 (rl_prop rl),
      P32 (ucast (rl_count rl)), P32 time, P8 votes]"

definition send_loot_start_roll :: "u32 \<Rightarrow> u32 \<Rightarrow> roll \<Rightarrow> party_world \<Rightarrow> party_world" where
  "send_loot_start_roll time map_id rl =
     to_voters (\<lambda>v. v = NOT_EMITED_YET) SMSG_LOOT_START_ROLL (start_roll_packet time map_id (rl_mask rl) rl) rl"

definition send_loot_start_roll_to_player :: "u32 \<Rightarrow> u32 \<Rightarrow> guid \<Rightarrow> bool \<Rightarrow> roll \<Rightarrow> party_world \<Rightarrow> party_world" where
  "send_loot_start_roll_to_player time map_id g can_need rl =
     pw_emit [PPacket g SMSG_LOOT_START_ROLL
       (start_roll_packet time map_id (if can_need then rl_mask rl else rl_mask rl AND NOT ROLL_FLAG_TYPE_NEED) rl)]"

definition send_loot_roll :: "guid \<Rightarrow> guid \<Rightarrow> u8 \<Rightarrow> u8 \<Rightarrow> roll \<Rightarrow> party_world \<Rightarrow> party_world" where
  "send_loot_roll src tgt number kind rl =
     to_voters (\<lambda>v. v \<noteq> NOT_VALID) SMSG_LOOT_ROLL
       [P64 src, P32 (ucast (rl_slot rl)), P64 tgt, P32 (rl_item rl), P32 (rl_suffix rl), PI32 (rl_prop rl), P8 number, P8 kind, P8 0] rl"

definition send_loot_roll_won :: "guid \<Rightarrow> guid \<Rightarrow> u8 \<Rightarrow> u8 \<Rightarrow> roll \<Rightarrow> party_world \<Rightarrow> party_world" where
  "send_loot_roll_won src tgt number kind rl =
     to_voters (\<lambda>v. v \<noteq> NOT_VALID) SMSG_LOOT_ROLL_WON
       [P64 src, P32 (ucast (rl_slot rl)), P32 (rl_item rl), P32 (rl_suffix rl), PI32 (rl_prop rl), P64 tgt, P8 number, P8 kind] rl"

definition send_loot_all_passed :: "roll \<Rightarrow> party_world \<Rightarrow> party_world" where
  "send_loot_all_passed rl =
     to_voters (\<lambda>v. v \<noteq> NOT_VALID) SMSG_LOOT_ALL_PASSED
       [P64 (rl_guid rl), P32 (ucast (rl_slot rl)), P32 (rl_item rl), PI32 (rl_prop rl), P32 (rl_suffix rl)] rl"

definition send_looter :: "guid \<Rightarrow> bool \<Rightarrow> guid option \<Rightarrow> nat \<Rightarrow> party_world \<Rightarrow> party_world" where
  "send_looter creature over_threshold looter r w =
     with_party r (\<lambda>p. broadcast SMSG_LOOT_LIST
       [P64 creature, if pa_method p = MASTER_LOOT \<and> over_threshold then PPackedGuid (pa_master p) else P8 0,
        case looter of Some g \<Rightarrow> PPackedGuid g | None \<Rightarrow> P8 0] False None 0 r) w"

section \<open>The items of a loot\<close>

text \<open>A write out of range is a fault.\<close>

definition upd_item :: "nat \<Rightarrow> nat \<Rightarrow> (loot_item \<Rightarrow> loot_item) \<Rightarrow> party_world \<Rightarrow> party_world" where
  "upd_item l i f w =
     (case pw_loots w l of
        None \<Rightarrow> fault w
      | Some lo \<Rightarrow>
          if i < length (lo_items lo)
          then w\<lparr>pw_loots := (pw_loots w)(l \<mapsto> lo\<lparr>lo_items := (lo_items lo)[i := f (lo_items lo ! i)]\<rparr>)\<rparr> else fault w)"

definition upd_quest_item :: "nat \<Rightarrow> nat \<Rightarrow> (loot_item \<Rightarrow> loot_item) \<Rightarrow> party_world \<Rightarrow> party_world" where
  "upd_quest_item l i f w =
     (case pw_loots w l of
        None \<Rightarrow> fault w
      | Some lo \<Rightarrow>
          if i < length (lo_quest lo)
          then w\<lparr>pw_loots := (pw_loots w)(l \<mapsto> lo\<lparr>lo_quest := (lo_quest lo)[i := f (lo_quest lo ! i)]\<rparr>)\<rparr> else fault w)"

text \<open>The item of a roll is found by its slot, the quest items after the others.\<close>

definition upd_slot_item :: "nat \<Rightarrow> u8 \<Rightarrow> (loot_item \<Rightarrow> loot_item) \<Rightarrow> party_world \<Rightarrow> party_world" where
  "upd_slot_item l slot f w =
     (case pw_loots w l of
        None \<Rightarrow> fault w
      | Some lo \<Rightarrow>
          if length (lo_items lo) \<le> unat slot then upd_quest_item l (unat slot - length (lo_items lo)) f w
          else upd_item l (unat slot) f w)"

definition slot_item :: "loot \<Rightarrow> u8 \<Rightarrow> loot_item option" where
  "slot_item lo slot =
     (if length (lo_items lo) \<le> unat slot
      then (if unat slot - length (lo_items lo) < length (lo_quest lo) then Some (lo_quest lo ! (unat slot - length (lo_items lo))) else None)
      else Some (lo_items lo ! unat slot))"

section \<open>Starting a roll\<close>

definition generate_item_guid :: "party_world \<Rightarrow> guid \<times> party_world" where
  "generate_item_guid w = (let (c, s) = generate HItem (pw_next_item w) in (guid_global HItem c, w\<lparr>pw_next_item := s\<rparr>))"

text \<open>The members that may loot the item and are near vote; one who passes on all loot has voted.\<close>

definition roll_voter :: "party_env \<Rightarrow> nat \<Rightarrow> loot_item \<Rightarrow> bool \<Rightarrow> party_world \<Rightarrow> guid \<times> party_link \<Rightarrow> roll \<Rightarrow> roll" where
  "roll_voter env obj li auto w x rl =
     (case find_connected w (fst x) of
        None \<Rightarrow> rl
      | Some q \<Rightarrow>
          if pe_allowed env li (fst x) \<and> pe_near env obj (fst x)
          then
            (let rl1 = rl\<lparr>rl_total := rl_total rl + 1\<rparr>
             in if auto \<and> pp_pass_loot q then rl1\<lparr>rl_votes := om_set (fst x) PASS (rl_votes rl), rl_pass := rl_pass rl + 1\<rparr>
                else rl1\<lparr>rl_votes := om_set (fst x) NOT_EMITED_YET (rl_votes rl)\<rparr>)
          else rl)"

definition roll_voters :: "party_env \<Rightarrow> nat \<Rightarrow> loot_item \<Rightarrow> bool \<Rightarrow> party \<Rightarrow> party_world \<Rightarrow> roll \<Rightarrow> roll" where
  "roll_voters env obj li auto p w rl = fold (roll_voter env obj li auto w) (pa_refs p) rl"

definition broadcast_passes :: "guid \<Rightarrow> roll \<Rightarrow> party_world \<Rightarrow> party_world" where
  "broadcast_passes g rl w =
     fold (\<lambda>x. send_loot_roll g (fst x) 128 ROLL_PASS rl) (filter (\<lambda>x. is_connected w (fst x) \<and> snd x = PASS) (rl_votes rl)) w"

definition passes_and_starts :: "party_env \<Rightarrow> nat \<Rightarrow> guid \<Rightarrow> roll \<Rightarrow> party_world \<Rightarrow> party_world" where
  "passes_and_starts env obj g rl w =
     fold (\<lambda>x. if snd x = PASS then send_loot_roll g (fst x) 128 ROLL_PASS rl
               else send_loot_start_roll_to_player ROLL_TIME (pe_map_of env obj) (fst x) (pe_can_need env obj (fst x) (rl_item rl)) rl)
       (filter (\<lambda>x. is_connected w (fst x)) (rl_votes rl)) w"

definition push_roll :: "nat \<Rightarrow> nat \<Rightarrow> roll \<Rightarrow> party_world \<Rightarrow> party_world" where
  "push_roll r obj rl w =
     (let w1 = upd_party r (\<lambda>p. p\<lparr>pa_rolls := pa_rolls p @ [rl]\<rparr>) w
      in with_party r (\<lambda>p. pw_emit [PLootTimer obj ROLL_TIME (get_counter (pa_guid p))]) w1)"

definition block_item :: "loot_item \<Rightarrow> loot_item" where
  "block_item li = li\<lparr>li_blocked := True\<rparr>"

definition disenchant_mask :: "party \<Rightarrow> loot_proto \<Rightarrow> u8 \<Rightarrow> u8" where
  "disenchant_mask p pr v = (if ip_disenchant pr \<noteq> 0 \<and> ip_enchanting pr \<le> pa_enchanting p then v OR ROLL_FLAG_TYPE_DISENCHANT else v)"

text \<open>One item of the loot under the method group loot.\<close>

definition group_loot_item :: "party_env \<Rightarrow> nat \<Rightarrow> nat \<Rightarrow> nat \<Rightarrow> nat \<Rightarrow> party_world \<Rightarrow> party_world" where
  "group_loot_item env r l obj i w =
     (case (pw_groups w r, pw_loots w l) of
        (Some p, Some lo) \<Rightarrow>
          (let li = lo_items lo ! i; slot = of_nat i :: u8
           in if li_ffa li then w
              else (case pe_proto env (li_item li) of
                  None \<Rightarrow> w
                | Some pr \<Rightarrow>
                    if ucast (pa_threshold p) \<le> ip_quality pr then
                      (let (g, w1) = generate_item_guid w;
                           rl1 = roll_voters env obj li True p w1 (new_roll g li);
                           rl2 = rl1\<lparr>rl_loot := Some l, rl_slot := slot, rl_mask := disenchant_mask p pr (rl_mask rl1)\<rparr>
                       in if 0 < rl_total rl1
                          then push_roll r obj rl2
                                (send_loot_start_roll ROLL_TIME (pe_map_of env obj) rl2
                                  ((if rl_pass rl2 \<noteq> 0 then broadcast_passes g rl2 else id) (upd_item l (unat slot) block_item w1)))
                          else w1)
                    else upd_item l i (\<lambda>li. li\<lparr>li_under := True\<rparr>) w))
      | _ \<Rightarrow> fault w)"

definition group_loot_quest :: "party_env \<Rightarrow> nat \<Rightarrow> nat \<Rightarrow> nat \<Rightarrow> nat \<Rightarrow> party_world \<Rightarrow> party_world" where
  "group_loot_quest env r l obj i w =
     (case (pw_groups w r, pw_loots w l) of
        (Some p, Some lo) \<Rightarrow>
          (let li = lo_quest lo ! i; slot = of_nat (length (lo_items lo) + i) :: u8
           in if \<not> li_follow li then w
              else (case pe_proto env (li_item li) of
                  None \<Rightarrow> w
                | Some pr \<Rightarrow>
                    (let (g, w1) = generate_item_guid w;
                         rl1 = roll_voters env obj li False p w1 (new_roll g li);
                         rl2 = rl1\<lparr>rl_loot := Some l, rl_slot := slot\<rparr>
                     in if 0 < rl_total rl1
                        then push_roll r obj rl2
                              (send_loot_start_roll ROLL_TIME (pe_map_of env obj) rl2
                                (upd_quest_item l (unat slot - length (lo_items lo)) block_item w1))
                        else w1)))
      | _ \<Rightarrow> fault w)"

definition group_loot :: "party_env \<Rightarrow> nat \<Rightarrow> nat \<Rightarrow> nat \<Rightarrow> party_world \<Rightarrow> party_world" where
  "group_loot env r l obj w =
     (case pw_loots w l of
        None \<Rightarrow> fault w
      | Some lo \<Rightarrow>
          fold (group_loot_quest env r l obj) [0..<length (lo_quest lo)]
            (fold (group_loot_item env r l obj) [0..<length (lo_items lo)] w))"

text \<open>Need before greed does not check that the item has a template.\<close>

definition need_item :: "party_env \<Rightarrow> nat \<Rightarrow> nat \<Rightarrow> nat \<Rightarrow> nat \<Rightarrow> party_world \<Rightarrow> party_world" where
  "need_item env r l obj i w =
     (case (pw_groups w r, pw_loots w l) of
        (Some p, Some lo) \<Rightarrow>
          (let li = lo_items lo ! i; slot = of_nat i :: u8
           in if li_ffa li then w
              else (case pe_proto env (li_item li) of
                  None \<Rightarrow> fault w
                | Some pr \<Rightarrow>
                    if ucast (pa_threshold p) \<le> ip_quality pr then
                      (let (g, w1) = generate_item_guid w;
                           rl1 = roll_voters env obj li True p w1 (new_roll g li);
                           votes = disenchant_mask p pr (rl_mask rl1);
                           rl2 = rl1\<lparr>rl_loot := Some l, rl_slot := slot, rl_mask := (if ip_no_need pr then votes AND NOT ROLL_FLAG_TYPE_NEED else votes)\<rparr>
                       in if 0 < rl_total rl1
                          then push_roll r obj rl2 (passes_and_starts env obj g rl2 (upd_item l (unat slot) block_item w1))
                          else w1)
                    else upd_item l i (\<lambda>li. li\<lparr>li_under := True\<rparr>) w))
      | _ \<Rightarrow> fault w)"

definition need_quest :: "party_env \<Rightarrow> nat \<Rightarrow> nat \<Rightarrow> nat \<Rightarrow> nat \<Rightarrow> party_world \<Rightarrow> party_world" where
  "need_quest env r l obj i w =
     (case (pw_groups w r, pw_loots w l) of
        (Some p, Some lo) \<Rightarrow>
          (let li = lo_quest lo ! i; slot = of_nat (length (lo_items lo) + i) :: u8
           in if \<not> li_follow li then w
              else
                (let (g, w1) = generate_item_guid w;
                     rl1 = roll_voters env obj li False p w1 (new_roll g li);
                     rl2 = rl1\<lparr>rl_loot := Some l, rl_slot := slot\<rparr>
                 in if 0 < rl_total rl1
                    then push_roll r obj rl2
                          (passes_and_starts env obj g rl2 (upd_quest_item l (unat slot - length (lo_items lo)) block_item w1))
                    else w1))
      | _ \<Rightarrow> fault w)"

definition need_before_greed :: "party_env \<Rightarrow> nat \<Rightarrow> nat \<Rightarrow> nat \<Rightarrow> party_world \<Rightarrow> party_world" where
  "need_before_greed env r l obj w =
     (case pw_loots w l of
        None \<Rightarrow> fault w
      | Some lo \<Rightarrow>
          fold (need_quest env r l obj) [0..<length (lo_quest lo)]
            (fold (need_item env r l obj) [0..<length (lo_items lo)] w))"

text \<open>Master loot: the items over the threshold are blocked, the near members get the list of the near members.\<close>

definition master_loot :: "party_env \<Rightarrow> nat \<Rightarrow> nat \<Rightarrow> nat \<Rightarrow> party_world \<Rightarrow> party_world" where
  "master_loot env r l obj w =
     (case (pw_groups w r, pw_loots w l) of
        (Some p, Some lo) \<Rightarrow>
          (let block = (\<lambda>c li. if c li then li\<lparr>li_blocked := \<not> li_under li\<rparr> else li);
               lo1 = lo\<lparr>lo_items := map (block (\<lambda>li. \<not> li_ffa li)) (lo_items lo), lo_quest := map (block li_follow) (lo_quest lo)\<rparr>;
               near = filter (pe_near env obj) (map fst (pa_refs p));
               looters = filter (\<lambda>g. find_player w g \<noteq> None) near;
               fs = P8 (of_nat (length looters)) # map P64 looters
           in pw_emit (map (\<lambda>g. PPacket g SMSG_LOOT_MASTER_LIST fs) near) (w\<lparr>pw_loots := (pw_loots w)(l \<mapsto> lo1)\<rparr>))
      | _ \<Rightarrow> fault w)"

section \<open>The end of a roll\<close>

text \<open>The number of every roller is sent, the highest wins; of equal ones the first.\<close>

definition draw_step :: "party_env \<Rightarrow> roll \<Rightarrow> (roll_vote \<Rightarrow> bool) \<Rightarrow> guid \<times> roll_vote
    \<Rightarrow> guid \<times> u8 \<times> roll_vote \<Rightarrow> guid \<times> u8 \<times> roll_vote" where
  "draw_step env rl P x best =
     (if P (snd x) \<and> fst (snd best) < pe_random env (rl_guid rl) (fst x) then (fst x, pe_random env (rl_guid rl) (fst x), snd x) else best)"

definition draw :: "party_env \<Rightarrow> roll \<Rightarrow> (roll_vote \<Rightarrow> bool) \<Rightarrow> guid \<times> u8 \<times> roll_vote" where
  "draw env rl P = fold (draw_step env rl P) (rl_votes rl) (fst (hd (rl_votes rl)), 0, NOT_VALID)"

definition send_draws :: "party_env \<Rightarrow> roll \<Rightarrow> (roll_vote \<Rightarrow> bool) \<Rightarrow> party_world \<Rightarrow> party_world" where
  "send_draws env rl P w =
     fold (\<lambda>x. send_loot_roll 0 (fst x) (pe_random env (rl_guid rl) (fst x)) (roll_vote_val (snd x)) rl)
       (filter (\<lambda>x. P (snd x)) (rl_votes rl)) w"

definition item_taken :: "nat \<Rightarrow> u8 \<Rightarrow> party_world \<Rightarrow> party_world" where
  "item_taken l slot w =
     (let w1 = pw_emit [PLootRemoved l slot] (upd_slot_item l slot (\<lambda>li. li\<lparr>li_looted := True\<rparr>) w)
      in (case pw_loots w1 l of None \<Rightarrow> w1 | Some lo \<Rightarrow> w1\<lparr>pw_loots := (pw_loots w1)(l \<mapsto> lo\<lparr>lo_unlooted := lo_unlooted lo - 1\<rparr>)\<rparr>))"

definition unblock_item :: "nat \<Rightarrow> u8 \<Rightarrow> party_world \<Rightarrow> party_world" where
  "unblock_item l slot = upd_slot_item l slot (\<lambda>li. li\<lparr>li_blocked := False\<rparr>)"

text \<open>The winner gets the item if it fits, else everyone may loot it.\<close>

definition store_won :: "party_env \<Rightarrow> nat \<Rightarrow> roll \<Rightarrow> guid \<Rightarrow> party_world \<Rightarrow> party_world" where
  "store_won env l rl g w =
     (case pw_loots w l of
        None \<Rightarrow> fault w
      | Some lo \<Rightarrow>
          (case slot_item lo (rl_slot rl) of
             None \<Rightarrow> fault w
           | Some li \<Rightarrow>
               (let msg = pe_can_store env g (rl_item rl) (li_count li)
                in if msg = 0 then pw_emit [PLooted g (rl_item rl) (li_count li)] (item_taken l (rl_slot rl) w)
                   else pw_emit [PEquipError g msg (rl_item rl)] (unblock_item l (rl_slot rl) w))))"

definition disenchant_won :: "party_env \<Rightarrow> nat \<Rightarrow> roll \<Rightarrow> guid \<Rightarrow> party_world \<Rightarrow> party_world" where
  "disenchant_won env l rl g w =
     (case pw_loots w l of
        None \<Rightarrow> fault w
      | Some lo \<Rightarrow>
          (case (slot_item lo (rl_slot rl), pe_proto env (rl_item rl)) of
             (Some li, Some pr) \<Rightarrow>
               (let w1 = pw_emit [PCriterion g 29 13262 0] (item_taken l (rl_slot rl) w)
                in if pe_can_store env g (rl_item rl) (li_count li) = 0 then pw_emit [PDisenchant g (ip_disenchant pr)] w1
                   else pw_emit [PDisenchantMail g (ip_disenchant pr)] w1)
           | _ \<Rightarrow> fault w))"

definition count_need :: "party_env \<Rightarrow> nat \<Rightarrow> roll \<Rightarrow> party_world \<Rightarrow> party_world" where
  "count_need env l rl w =
     (if rl_votes rl = [] then w
      else
        (let (g, best, v) = draw env rl (\<lambda>v. v = NEED);
             w1 = send_loot_roll_won 0 g best ROLL_NEED rl (send_draws env rl (\<lambda>v. v = NEED) w)
         in if is_connected w1 g then store_won env l rl g (pw_emit [PCriterion g 50 (rl_item rl) (ucast best)] w1) else w1))"

definition count_greed :: "party_env \<Rightarrow> nat \<Rightarrow> roll \<Rightarrow> party_world \<Rightarrow> party_world" where
  "count_greed env l rl w =
     (if rl_votes rl = [] then w
      else
        (let P = (\<lambda>v. v = GREED \<or> v = DISENCHANT);
             (g, best, v) = draw env rl P;
             w1 = send_loot_roll_won 0 g best (roll_vote_val v) rl (send_draws env rl P w);
             w2 = pw_emit [PCriterion g 51 (rl_item rl) (ucast best)] w1
         in if \<not> is_connected w1 g then w1
            else if v = GREED then store_won env l rl g w2
            else if v = DISENCHANT then disenchant_won env l rl g w2
            else w2))"

text \<open>\<open>CountTheRoll\<close>: a roll whose loot was deleted only goes away.\<close>

definition erase_roll :: "nat \<Rightarrow> nat \<Rightarrow> party_world \<Rightarrow> party_world" where
  "erase_roll r i = upd_party r (\<lambda>p. p\<lparr>pa_rolls := take i (pa_rolls p) @ drop (Suc i) (pa_rolls p)\<rparr>)"

definition finish_roll :: "party_env \<Rightarrow> roll \<Rightarrow> party_world \<Rightarrow> party_world" where
  "finish_roll env rl w =
     (case roll_loot w rl of
        None \<Rightarrow> w
      | Some l \<Rightarrow>
          if 0 < rl_need rl then count_need env l rl w
          else if 0 < rl_greed rl then count_greed env l rl w
          else unblock_item l (rl_slot rl) (send_loot_all_passed rl w))"

definition count_the_roll :: "party_env \<Rightarrow> nat \<Rightarrow> nat \<Rightarrow> party_world \<Rightarrow> party_world" where
  "count_the_roll env r i w =
     with_party r (\<lambda>p w. if i < length (pa_rolls p) then erase_roll r i (finish_roll env (pa_rolls p ! i) w) else fault w) w"

section \<open>Votes\<close>

fun roll_index :: "(roll \<Rightarrow> bool) \<Rightarrow> roll list \<Rightarrow> nat option" where
  "roll_index P [] = None"
| "roll_index P (x # xs) = (if P x then Some 0 else map_option Suc (roll_index P xs))"

definition get_roll :: "party_world \<Rightarrow> party \<Rightarrow> guid \<Rightarrow> nat option" where
  "get_roll w p g = roll_index (\<lambda>rl. rl_guid rl = g \<and> roll_loot w rl \<noteq> None) (pa_rolls p)"

definition vote :: "guid \<Rightarrow> u8 \<Rightarrow> roll \<Rightarrow> roll" where
  "vote g choice rl =
     (if choice = ROLL_PASS then rl\<lparr>rl_pass := rl_pass rl + 1, rl_votes := om_set g PASS (rl_votes rl)\<rparr>
      else if choice = ROLL_NEED then rl\<lparr>rl_need := rl_need rl + 1, rl_votes := om_set g NEED (rl_votes rl)\<rparr>
      else if choice = ROLL_GREED then rl\<lparr>rl_greed := rl_greed rl + 1, rl_votes := om_set g GREED (rl_votes rl)\<rparr>
      else if choice = ROLL_DISENCHANT then rl\<lparr>rl_greed := rl_greed rl + 1, rl_votes := om_set g DISENCHANT (rl_votes rl)\<rparr>
      else rl)"

definition send_vote :: "guid \<Rightarrow> u8 \<Rightarrow> roll \<Rightarrow> party_world \<Rightarrow> party_world" where
  "send_vote g choice rl =
     (if choice = ROLL_PASS then send_loot_roll 0 g 128 ROLL_PASS rl
      else if choice = ROLL_NEED then send_loot_roll 0 g 0 0 rl
      else if choice = ROLL_GREED then send_loot_roll 0 g 128 ROLL_GREED rl
      else if choice = ROLL_DISENCHANT then send_loot_roll 0 g 128 ROLL_DISENCHANT rl
      else id)"

definition all_voted :: "roll \<Rightarrow> bool" where
  "all_voted rl \<longleftrightarrow> unat (rl_total rl) \<le> unat (rl_pass rl) + unat (rl_need rl) + unat (rl_greed rl)"

definition loot_has_items :: "party_world \<Rightarrow> roll \<Rightarrow> bool" where
  "loot_has_items w rl \<longleftrightarrow>
     (case rl_loot rl of None \<Rightarrow> True | Some l \<Rightarrow> (case pw_loots w l of None \<Rightarrow> True | Some lo \<Rightarrow> lo_items lo \<noteq> []))"

definition count_roll_vote :: "party_env \<Rightarrow> nat \<Rightarrow> guid \<Rightarrow> guid \<Rightarrow> u8 \<Rightarrow> party_world \<Rightarrow> party_world" where
  "count_roll_vote env r g item choice w =
     with_party r (\<lambda>p w.
       case get_roll w p item of
         None \<Rightarrow> w
       | Some i \<Rightarrow>
           (let rl = pa_rolls p ! i
            in if \<not> om_has g (rl_votes rl) \<or> \<not> loot_has_items w rl then w
               else
                 (let w1 = upd_party r (\<lambda>p. p\<lparr>pa_rolls := (pa_rolls p)[i := vote g choice rl]\<rparr>) (send_vote g choice rl w)
                  in if all_voted (vote g choice rl) then count_the_roll env r i w1 else w1))) w"

text \<open>When the time is over: the first roll of the loot is counted, again until there is none.\<close>

definition end_one_roll :: "party_env \<Rightarrow> nat \<Rightarrow> nat \<Rightarrow> party_world \<Rightarrow> party_world" where
  "end_one_roll env r l w =
     with_party r (\<lambda>p w.
       case roll_index (\<lambda>rl. roll_loot w rl = Some l) (pa_rolls p) of None \<Rightarrow> w | Some i \<Rightarrow> count_the_roll env r i w) w"

definition end_roll :: "party_env \<Rightarrow> nat \<Rightarrow> nat \<Rightarrow> party_world \<Rightarrow> party_world" where
  "end_roll env r l w =
     with_party r (\<lambda>p. (end_one_roll env r l ^^ length (pa_rolls p))) w"

text \<open>A member leaves: his vote goes, then \<open>CountRollVote\<close> is called for him with no choice.\<close>

definition unvote :: "guid \<Rightarrow> roll_vote \<Rightarrow> roll \<Rightarrow> roll" where
  "unvote g v rl =
     (let rl1 = (if v = GREED \<or> v = DISENCHANT then rl\<lparr>rl_greed := rl_greed rl - 1\<rparr>
           else if v = NEED then rl\<lparr>rl_need := rl_need rl - 1\<rparr>
           else if v = PASS then rl\<lparr>rl_pass := rl_pass rl - 1\<rparr> else rl);
          rl2 = (if v \<noteq> NOT_VALID then rl1\<lparr>rl_total := rl_total rl1 - 1\<rparr> else rl1)
      in rl2\<lparr>rl_votes := om_del g (rl_votes rl2)\<rparr>)"

definition leave_roll :: "party_env \<Rightarrow> nat \<Rightarrow> guid \<Rightarrow> nat \<Rightarrow> party_world \<Rightarrow> party_world" where
  "leave_roll env r g i w =
     with_party r (\<lambda>p w.
       if length (pa_rolls p) \<le> i then fault w
       else (case map_of (rl_votes (pa_rolls p ! i)) g of
           None \<Rightarrow> w
         | Some v \<Rightarrow> count_roll_vote env r g (rl_guid (pa_rolls p ! i)) MAX_ROLL_TYPE
             (upd_party r (\<lambda>p. p\<lparr>pa_rolls := (pa_rolls p)[i := unvote g v (pa_rolls p ! i)]\<rparr>) w))) w"

definition leave_rolls :: "party_env \<Rightarrow> nat \<Rightarrow> guid \<Rightarrow> party_world \<Rightarrow> party_world" where
  "leave_rolls env r g w = with_party r (\<lambda>p. fold (leave_roll env r g) [0..<length (pa_rolls p)]) w"

end
