(* ===== verification/PartyRules.thy ===== *)
theory PartyRules
  imports PartyRoll
begin

text \<open>
  Who is in a group: creating, loading, joining, leaving and disbanding (\<open>Group.cpp\<close>), the choice of
  a leader, of a looter and of difficulties, and what \<open>Player.cpp\<close> and \<open>Battleground.cpp\<close> do with groups.
\<close>

section \<open>Creating and deleting\<close>

definition new_group :: "party_world \<Rightarrow> nat \<times> party_world" where
  "new_group w = (pw_next w, w\<lparr>pw_groups := (pw_groups w)(pw_next w \<mapsto> new_party), pw_next := pw_next w + 1\<rparr>)"

text \<open>The references of the players to a deleted group become null.\<close>

definition unlink_ref :: "guid \<times> party_link \<Rightarrow> party_world \<Rightarrow> party_world" where
  "unlink_ref x =
     upd_pp (fst x) (\<lambda>q. case snd x of MainLink \<Rightarrow> q\<lparr>pp_group := None\<rparr> | OrigLink \<Rightarrow> q\<lparr>pp_orig := None\<rparr>)"

definition delete_party :: "nat \<Rightarrow> party_world \<Rightarrow> party_world" where
  "delete_party r w =
     with_party r (\<lambda>p w.
       (let w1 = (case pa_bg p of
            Some k \<Rightarrow> if pw_bg_raids w k = Some r then w\<lparr>pw_bg_raids := (pw_bg_raids w)(k := None)\<rparr> else w
          | None \<Rightarrow> w);
            w2 = fold unlink_ref (pa_refs p) w1
        in w2\<lparr>pw_groups := (pw_groups w2)(r := None)\<rparr>)) w"

text \<open>\<open>GroupMgr\<close>\<close>

definition generate_group_id :: "party_world \<Rightarrow> u32 \<times> party_world" where
  "generate_group_id w =
     (let w1 = (if 0xFFFFFFFE \<le> pw_next_group w then fault w else w)
      in (pw_next_group w, w1\<lparr>pw_next_group := pw_next_group w + 1\<rparr>))"

definition add_group :: "nat \<Rightarrow> party_world \<Rightarrow> party_world" where
  "add_group r w = with_party r (\<lambda>p w. w\<lparr>pw_store := om_set (get_counter (pa_guid p)) r (pw_store w)\<rparr>) w"

definition remove_group :: "nat \<Rightarrow> party_world \<Rightarrow> party_world" where
  "remove_group r w = with_party r (\<lambda>p w. w\<lparr>pw_store := om_del (get_counter (pa_guid p)) (pw_store w)\<rparr>) w"

definition get_group_by_guid :: "party_world \<Rightarrow> u32 \<Rightarrow> nat option" where
  "get_group_by_guid w c = map_of (pw_store w) c"

definition set_bg_raid :: "nat \<Rightarrow> nat option \<Rightarrow> party_world \<Rightarrow> party_world" where
  "set_bg_raid k x w =
     (let w1 = (case pw_bg_raids w k of None \<Rightarrow> w | Some r \<Rightarrow> upd_party r (\<lambda>p. p\<lparr>pa_bg := None\<rparr>) w);
          w2 = (case x of None \<Rightarrow> w1 | Some r \<Rightarrow> upd_party r (\<lambda>p. p\<lparr>pa_bg := Some k\<rparr>) w1)
      in w2\<lparr>pw_bg_raids := (pw_bg_raids w2)(k := x)\<rparr>)"

section \<open>Joining\<close>

text \<open>The first subgroup with a free place; without counters it is the first one.\<close>

fun free_sub_group :: "u8 list \<Rightarrow> nat \<Rightarrow> nat option" where
  "free_sub_group [] i = None"
| "free_sub_group (c # cs) i = (if unat c < MAXGROUPSIZE then Some i else free_sub_group cs (Suc i))"

definition join_sub_group :: "party \<Rightarrow> u8 option" where
  "join_sub_group p =
     (case pa_counts p of
        None \<Rightarrow> Some 0
      | Some cs \<Rightarrow> map_option of_nat (free_sub_group (take MAX_RAID_SUBGROUPS cs) 0))"

definition link_new_member :: "nat \<Rightarrow> u8 \<Rightarrow> guid \<Rightarrow> party_world \<Rightarrow> party_world" where
  "link_new_member r sub g w =
     with_party r (\<lambda>p w.
       if player_group w g \<noteq> None then
         (if bg_or_bf p then set_battleground_raid r sub g w else set_original_group (Some (r, sub)) g w)
       else set_group (Some (r, sub)) g w) w"

definition clear_icons :: "party \<Rightarrow> party" where
  "clear_icons p = (if is_raid_group p then p else p\<lparr>pa_icons := replicate TARGETICONCOUNT 0\<rparr>)"

definition join_difficulties :: "nat \<Rightarrow> guid \<Rightarrow> party_world \<Rightarrow> party_world" where
  "join_difficulties r g w =
     with_party r (\<lambda>p w.
       case find_connected w g of
         None \<Rightarrow> w
       | Some q \<Rightarrow>
           if \<not> is_leader p g \<and> \<not> bg_or_bf p \<and> LEVELREQUIREMENT_HEROIC \<le> pp_level q then
             (let w1 = (if pp_dungeon q \<noteq> pa_dungeon p
                    then pw_emit [PDungeonDifficulty g] (upd_pp g (\<lambda>q. q\<lparr>pp_dungeon := pa_dungeon p\<rparr>) w) else w)
              in (if pp_raid q \<noteq> pa_raid p
                  then pw_emit [PRaidDifficulty g] (upd_pp g (\<lambda>q. q\<lparr>pp_raid := pa_raid p\<rparr>) w1) else w1))
           else w) w"

definition raise_enchanting :: "u32 \<Rightarrow> party \<Rightarrow> party" where
  "raise_enchanting v p = (if pa_enchanting p < v then p\<lparr>pa_enchanting := v\<rparr> else p)"

definition new_member :: "party_world \<Rightarrow> guid \<Rightarrow> u8 \<Rightarrow> member_slot" where
  "new_member w g sub = \<lparr>mb_guid = g, mb_name = player_name w g, mb_group = sub, mb_flags = 0, mb_roles = 0\<rparr>"

text \<open>The player exists: the callers have his object.\<close>

definition add_member :: "party_env \<Rightarrow> nat \<Rightarrow> guid \<Rightarrow> party_world \<Rightarrow> bool \<times> party_world" where
  "add_member env r g w =
     (case pw_groups w r of
        None \<Rightarrow> (False, fault w)
      | Some p \<Rightarrow>
          (case join_sub_group p of
             None \<Rightarrow> (False, w)
           | Some sub \<Rightarrow>
               (let m = new_member w g sub;
                    w1 = sub_group_counter_increase r sub (upd_party r (\<lambda>p. p\<lparr>pa_members := pa_members p @ [m]\<rparr>) w);
                    w2 = link_new_member r sub g (set_invite None g w1);
                    w3 = upd_party r clear_icons (upd_pp g (\<lambda>q. q\<lparr>pp_home_valid := pe_instance_ok env g\<rparr>) w2);
                    w4 = (if bg_or_bf p then w3 else pw_emit [DbInsMember (pa_db p) m] w3);
                    w5 = join_difficulties r g (send_update env r w4);
                    v = (case find_connected w5 g of None \<Rightarrow> 0 | Some q \<Rightarrow> pp_enchanting q)
                in (True, upd_party r (raise_enchanting v) w5))))"

text \<open>A new group: registered and stored, unless of a battleground or battlefield; then the leader joins.\<close>

definition created :: "guid \<Rightarrow> u32 \<Rightarrow> party_player \<Rightarrow> party \<Rightarrow> party" where
  "created g c q p =
     (let p1 = p\<lparr>pa_guid := guid_global HGroup c, pa_leader := g, pa_leader_name := pp_name q,
            pa_type := (if bg_or_bf p then GROUPTYPE_BGRAID else pa_type p)\<rparr>;
          p2 = p1\<lparr>pa_method := (if is_lfg_group p1 then pa_method p1 else GROUP_LOOT), pa_threshold := ITEM_QUALITY_UNCOMMON,
            pa_looter := g, pa_master := 0, pa_dungeon := 0, pa_raid := 0\<rparr>
      in if bg_or_bf p then p2 else p2\<lparr>pa_dungeon := pp_dungeon q, pa_raid := pp_raid q\<rparr>)"

definition store_group :: "nat \<Rightarrow> party_world \<Rightarrow> party_world" where
  "store_group r w =
     (let (i, d) = generate_db_id (pw_db w);
          w1 = upd_party r (\<lambda>p. p\<lparr>pa_db := i\<rparr>) (w\<lparr>pw_db := d\<rparr>);
          w2 = (case register_db_id i r d of None \<Rightarrow> fault w1 | Some d \<Rightarrow> w1\<lparr>pw_db := d\<rparr>)
      in with_party r (\<lambda>p. pw_emit [DbInsGroup p]) w2)"

definition create_group :: "party_env \<Rightarrow> nat \<Rightarrow> guid \<Rightarrow> party_world \<Rightarrow> bool \<times> party_world" where
  "create_group env r g w =
     (case find_connected w g of
        None \<Rightarrow> (False, fault w)
      | Some q \<Rightarrow>
          (let (c, w1) = generate_group_id w;
               w2 = upd_party r (created g c q) (upd_pp g (\<lambda>q. q\<lparr>pp_leader_flag := True\<rparr>) w1);
               w3 = with_party r (\<lambda>p. if is_raid_group p then init_raid_counter r else id) w2
           in (case pw_groups w3 r of
                 None \<Rightarrow> (False, fault w3)
               | Some p \<Rightarrow>
                   if bg_or_bf p then add_member env r g w3
                   else (case add_member env r g (store_group r w3) of (ok, w4) \<Rightarrow> (True, if ok then w4 else fault w4)))))"

section \<open>Loading\<close>

record group_row =
  gr_leader :: u32
  gr_method :: u8
  gr_looter :: u32
  gr_threshold :: u8
  gr_icons :: "u64 list"
  gr_type :: u8
  gr_dungeon :: u8
  gr_raid :: u8
  gr_master :: u32
  gr_db :: u32

definition loaded_group :: "u32 \<Rightarrow> group_row \<Rightarrow> string option \<Rightarrow> party" where
  "loaded_group c row name =
     (let p = new_party\<lparr>pa_db := gr_db row, pa_guid := guid_global HGroup c, pa_leader := guid_global HPlayer (gr_leader row)\<rparr>
      in case name of
           None \<Rightarrow> p
         | Some n \<Rightarrow>
             p\<lparr>pa_leader_name := n, pa_method := loot_method_of (ucast (gr_method row)), pa_looter := guid_global HPlayer (gr_looter row),
               pa_threshold := gr_threshold row, pa_icons := gr_icons row, pa_type := gr_type row,
               pa_counts := (if gr_type row AND GROUPTYPE_RAID \<noteq> 0 then Some (replicate MAX_RAID_SUBGROUPS 0) else None),
               pa_dungeon := (if MAX_DUNGEON_DIFFICULTY \<le> gr_dungeon row then 0 else gr_dungeon row),
               pa_raid := (if MAX_RAID_DIFFICULTY \<le> gr_raid row then 0 else gr_raid row),
               pa_master := guid_global HPlayer (gr_master row)\<rparr>)"

definition load_group_from_db :: "party_env \<Rightarrow> group_row \<Rightarrow> party_world \<Rightarrow> party_world" where
  "load_group_from_db env row w =
     (let (r, w1) = new_group w;
          (c, w2) = generate_group_id w1;
          w3 = add_group r (upd_party r (\<lambda>_. loaded_group c row (pe_char_name env (guid_global HPlayer (gr_leader row)))) w2)
      in (case load_db_id (gr_db row, r) (pw_db w3) of None \<Rightarrow> fault w3 | Some d \<Rightarrow> w3\<lparr>pw_db := d\<rparr>))"

record member_row =
  mr_db :: u32
  mr_guid :: u32
  mr_flags :: u8
  mr_group :: u8
  mr_roles :: u8

definition load_member_from_db :: "party_env \<Rightarrow> member_row \<Rightarrow> party_world \<Rightarrow> party_world" where
  "load_member_from_db env row w =
     (case group_by_db_id (pw_db w) (mr_db row) of
        None \<Rightarrow> w
      | Some r \<Rightarrow>
          (let g = guid_global HPlayer (mr_guid row)
           in case pe_char_name env g of
                None \<Rightarrow> pw_emit [DbDelMember g] w
              | Some n \<Rightarrow> sub_group_counter_increase r (mr_group row)
                  (upd_party r (\<lambda>p. p\<lparr>pa_members := pa_members p
                    @ [\<lparr>mb_guid = g, mb_name = n, mb_group = mr_group row, mb_flags = mr_flags row, mb_roles = mr_roles row\<rparr>]\<rparr>) w)))"

definition load_groups :: "party_env \<Rightarrow> group_row list \<Rightarrow> member_row list \<Rightarrow> party_world \<Rightarrow> party_world" where
  "load_groups env rows members w =
     (if rows = [] then w else fold (load_member_from_db env) members (fold (load_group_from_db env) rows w))"

section \<open>Leaving\<close>

text \<open>The packet that tells a player he is in no group.\<close>

definition send_empty_list :: "nat \<Rightarrow> guid \<Rightarrow> party_world \<Rightarrow> party_world" where
  "send_empty_list r g w =
     with_party r (\<lambda>p. pw_emit [PPacket g SMSG_GROUP_LIST
       [P8 0x10, P8 0, P8 0, P8 0, P64 (pa_guid p), P32 (pa_counter p), P32 0, P64 0]]) w"

definition homebind_if_instance :: "party_env \<Rightarrow> guid \<Rightarrow> party_world \<Rightarrow> party_world" where
  "homebind_if_instance env g =
     upd_pp g (\<lambda>q. if \<not> pp_gm q \<and> pe_dungeon_map env (pp_map q) then q\<lparr>pp_home_valid := False\<rparr> else q)"

definition leave_link :: "nat \<Rightarrow> guid \<Rightarrow> party_world \<Rightarrow> party_world" where
  "leave_link r g w =
     with_party r (\<lambda>p w.
       if bg_or_bf p then remove_from_battleground_raid g w
       else if player_original w g = Some r then set_original_group None g w
       else set_group None g w) w"

definition disband_member :: "party_env \<Rightarrow> bool \<Rightarrow> nat \<Rightarrow> member_slot \<Rightarrow> party_world \<Rightarrow> party_world" where
  "disband_member env hide r m w =
     (let g = mb_guid m
      in if \<not> is_connected w g then w
         else
           (let w1 = leave_link r g w;
                w2 = (if hide then w1 else pw_emit [PPacket g SMSG_GROUP_DESTROYED []] w1);
                w3 = (case player_group w2 g of Some q \<Rightarrow> send_update env q w2 | None \<Rightarrow> send_empty_list r g w2)
            in homebind_if_instance env g w3))"

definition disband_stored :: "nat \<Rightarrow> party_world \<Rightarrow> party_world" where
  "disband_stored r w =
     with_party r (\<lambda>p w.
       if bg_or_bf p then w
       else
         (let w1 = pw_emit [DbDelGroup (pa_db p), DbDelMembers (pa_db p), DbDelLfg (pa_db p)] w
          in case free_db_id (pa_db p) (pw_db w1) of None \<Rightarrow> fault w1 | Some d \<Rightarrow> w1\<lparr>pw_db := d\<rparr>)) w"

definition disband :: "party_env \<Rightarrow> bool \<Rightarrow> nat \<Rightarrow> party_world \<Rightarrow> party_world" where
  "disband env hide r w =
     with_party r (\<lambda>p w.
       (let w1 = fold (disband_member env hide r) (pa_members p) w;
            w2 = upd_party r (\<lambda>p. p\<lparr>pa_rolls := [], pa_members := []\<rparr>) w1
        in delete_party r (remove_group r (disband_stored r (remove_all_invites r w2))))) w"

definition delink_member :: "nat \<Rightarrow> guid \<Rightarrow> party_world \<Rightarrow> party_world" where
  "delink_member r g w =
     with_party r (\<lambda>p w.
       case find (\<lambda>x. fst x = g) (pa_refs p) of
         None \<Rightarrow> w
       | Some (_, MainLink) \<Rightarrow> unlink_main g w
       | Some (_, OrigLink) \<Rightarrow> unlink_original g w) w"

definition reset_max_enchanting_level :: "nat \<Rightarrow> party_world \<Rightarrow> party_world" where
  "reset_max_enchanting_level r w =
     with_party r (\<lambda>p. upd_party r (\<lambda>p. p\<lparr>pa_enchanting :=
       fold (\<lambda>m v. case find_player w (mb_guid m) of None \<Rightarrow> v | Some q \<Rightarrow> if v < pp_enchanting q then pp_enchanting q else v)
         (pa_members p) 0\<rparr>)) w"

text \<open>Only a connected member can lead.\<close>

definition new_leader :: "guid \<Rightarrow> string \<Rightarrow> party \<Rightarrow> party" where
  "new_leader g n p = upd_slot g (toggle_flag MEMBER_FLAG_ASSISTANT False) (p\<lparr>pa_leader := g, pa_leader_name := n\<rparr>)"

definition change_leader :: "nat \<Rightarrow> guid \<Rightarrow> party_world \<Rightarrow> party_world" where
  "change_leader r g w =
     with_party r (\<lambda>p w.
       case (get_slot p g, find_connected w g) of
         (Some m, Some q) \<Rightarrow>
           (let w1 = (if bg_or_bf p then w else pw_emit [DbGroupLeader (pa_db p) g] w);
                w2 = upd_pp g (\<lambda>q. q\<lparr>pp_leader_flag := True\<rparr>) (upd_pp (pa_leader p) (\<lambda>q. q\<lparr>pp_leader_flag := False\<rparr>) w1);
                w3 = upd_party r (new_leader g (pp_name q)) w2
            in broadcast SMSG_GROUP_SET_LEADER [PStr (mb_name m)] True None 0 r w3)
       | _ \<Rightarrow> w) w"

definition leave_player :: "party_env \<Rightarrow> remove_method \<Rightarrow> nat \<Rightarrow> guid \<Rightarrow> party_world \<Rightarrow> party_world" where
  "leave_player env how r g w =
     (if \<not> is_connected w g then w
      else
        (let w1 = leave_link r g w;
             w2 = (if how = REMOVE_KICK \<or> how = REMOVE_KICK_LFG then pw_emit [PPacket g SMSG_GROUP_UNINVITE []] w1 else w1)
         in homebind_if_instance env g (send_empty_list r g w2)))"

definition leave_stored :: "nat \<Rightarrow> guid \<Rightarrow> party_world \<Rightarrow> party_world" where
  "leave_stored r g w = with_party r (\<lambda>p w. if bg_or_bf p then w else delink_member r g (pw_emit [DbDelMember g] w)) w"

definition leave_enchanting :: "nat \<Rightarrow> guid \<Rightarrow> party_world \<Rightarrow> party_world" where
  "leave_enchanting r g w =
     (if (case find_connected w g of None \<Rightarrow> True | Some q \<Rightarrow> pp_enchanting q \<noteq> 0) then reset_max_enchanting_level r w else w)"

definition erase_slot :: "nat \<Rightarrow> guid \<Rightarrow> party_world \<Rightarrow> party_world" where
  "erase_slot r g w =
     with_party r (\<lambda>p w.
       case get_slot p g of
         None \<Rightarrow> w
       | Some m \<Rightarrow> upd_party r (\<lambda>p. p\<lparr>pa_members := del_first (\<lambda>m. mb_guid m = g) (pa_members p)\<rparr>)
           (sub_group_counter_decrease r (mb_group m) w)) w"

definition pick_leader :: "nat \<Rightarrow> guid \<Rightarrow> party_world \<Rightarrow> party_world" where
  "pick_leader r g w =
     with_party r (\<lambda>p w.
       if pa_leader p \<noteq> g then w
       else (case find (\<lambda>m. is_connected w (mb_guid m)) (pa_members p) of None \<Rightarrow> w | Some m \<Rightarrow> change_leader r (mb_guid m) w)) w"

text \<open>A group of the dungeon finder whose last member is not in the dungeon goes away; so does one without enough players.\<close>

definition lfg_alone :: "party_env \<Rightarrow> party_world \<Rightarrow> party \<Rightarrow> bool" where
  "lfg_alone env w p \<longleftrightarrow> is_lfg_group p \<and> length (pa_members p) = 1
     \<and> (pe_lfg_map env (pa_guid p) = 0
        \<or> (case find_connected w (pa_leader p) of
             None \<Rightarrow> True | Some q \<Rightarrow> pe_alive env (pa_leader p) \<and> pp_map q \<noteq> pe_lfg_map env (pa_guid p)))"

definition few_players :: "party \<Rightarrow> bool" where
  "few_players p \<longleftrightarrow> length (pa_refs p) < (if is_lfg_group p \<or> is_bg_group p then 1 else 2)"

definition close_group :: "party_env \<Rightarrow> nat \<Rightarrow> party_world \<Rightarrow> bool \<times> party_world" where
  "close_group env r w =
     (case pw_groups w r of
        None \<Rightarrow> (False, fault w)
      | Some p \<Rightarrow>
          if lfg_alone env w p then (False, disband env False r w)
          else (True, if few_players p then disband env False r w else w))"

definition leave_members :: "party_env \<Rightarrow> remove_method \<Rightarrow> nat \<Rightarrow> guid \<Rightarrow> party_world \<Rightarrow> party_world" where
  "leave_members env how r g w =
     (let w1 = leave_enchanting r g (leave_stored r g (leave_player env how r g w))
      in send_update env r (pick_leader r g (erase_slot r g (leave_rolls env r g w1))))"

definition remove_member :: "party_env \<Rightarrow> remove_method \<Rightarrow> nat \<Rightarrow> guid \<Rightarrow> party_world \<Rightarrow> bool \<times> party_world" where
  "remove_member env how r g w =
     (case pw_groups w r of
        None \<Rightarrow> (False, fault w)
      | Some p \<Rightarrow>
          if is_lfg_group p \<and> how = REMOVE_KICK then (pa_members p \<noteq> [], w)
          else if (if bg_or_bf p \<or> is_lfg_group p then 1 else 2) < length (pa_members p)
          then close_group env r (leave_members env how r g w)
          else (False, disband env False r w))"

definition remove_from_group :: "party_env \<Rightarrow> remove_method \<Rightarrow> nat option \<Rightarrow> guid \<Rightarrow> party_world \<Rightarrow> party_world" where
  "remove_from_group env how x g w = (case x of None \<Rightarrow> w | Some r \<Rightarrow> snd (remove_member env how r g w))"

text \<open>\<open>UninviteFromGroup\<close>\<close>

definition uninvite_from_group :: "party_env \<Rightarrow> guid \<Rightarrow> party_world \<Rightarrow> party_world" where
  "uninvite_from_group env g w =
     (case player_invite w g of
        None \<Rightarrow> w
      | Some r \<Rightarrow>
          with_party r (\<lambda>p w.
            if length (pa_members p) \<le> 1 then
              (if is_created p then disband env True r w else delete_party r (remove_all_invites r w))
            else w) (remove_invite r g w))"

section \<open>Other operations of a group\<close>

definition set_icon :: "guid \<Rightarrow> guid \<Rightarrow> nat \<Rightarrow> nat \<Rightarrow> party_world \<Rightarrow> party_world" where
  "set_icon who tgt r i w =
     broadcast MSG_RAID_TARGET_UPDATE [P8 0, P64 who, P8 (of_nat i), P64 tgt] True None 0 r
       (upd_party r (\<lambda>p. p\<lparr>pa_icons := (pa_icons p)[i := tgt]\<rparr>) w)"

definition clear_icon :: "guid \<Rightarrow> nat \<Rightarrow> nat \<Rightarrow> party_world \<Rightarrow> party_world" where
  "clear_icon tgt r i w =
     with_party r (\<lambda>p w. if pa_icons p ! i = tgt then set_icon 0 0 r i w else w) w"

definition set_target_icon :: "u8 \<Rightarrow> guid \<Rightarrow> guid \<Rightarrow> nat \<Rightarrow> party_world \<Rightarrow> party_world" where
  "set_target_icon i who tgt r w =
     (if TARGETICONCOUNT \<le> unat i then w
      else set_icon who tgt r (unat i) (if tgt \<noteq> 0 then fold (clear_icon tgt r) [0..<TARGETICONCOUNT] w else w))"

definition send_target_icon_list :: "guid \<Rightarrow> nat \<Rightarrow> party_world \<Rightarrow> party_world" where
  "send_target_icon_list g r w =
     with_party r (\<lambda>p. pw_emit [PPacket g MSG_RAID_TARGET_UPDATE
       (P8 1 # concat (map (\<lambda>i. if pa_icons p ! i = 0 then [] else [P8 (of_nat i), P64 (pa_icons p ! i)]) [0..<TARGETICONCOUNT]))]) w"

text \<open>Round robin: the next member after the looter who is in the world and near.\<close>

definition near_member :: "party_env \<Rightarrow> nat \<Rightarrow> party_world \<Rightarrow> member_slot \<Rightarrow> bool" where
  "near_member env obj w m \<longleftrightarrow> find_player w (mb_guid m) \<noteq> None \<and> pe_near env obj (mb_guid m)"

definition after_looter :: "guid \<Rightarrow> member_slot list \<Rightarrow> member_slot list" where
  "after_looter g ms = drop 1 (dropWhile (\<lambda>m. mb_guid m \<noteq> g) ms)"

definition until_looter :: "guid \<Rightarrow> member_slot list \<Rightarrow> member_slot list" where
  "until_looter g ms = take (length ms - length (after_looter g ms)) ms"

definition next_looter :: "party_env \<Rightarrow> nat \<Rightarrow> party_world \<Rightarrow> party \<Rightarrow> member_slot option" where
  "next_looter env obj w p =
     (case find (near_member env obj w) (after_looter (get_looter_guid p) (pa_members p)) of
        Some m \<Rightarrow> Some m
      | None \<Rightarrow> find (near_member env obj w) (until_looter (get_looter_guid p) (pa_members p)))"

definition set_looter :: "guid \<Rightarrow> nat \<Rightarrow> party_world \<Rightarrow> party_world" where
  "set_looter g r = upd_party r (\<lambda>p. p\<lparr>pa_looter := g\<rparr>)"

definition update_looter_guid :: "party_env \<Rightarrow> nat \<Rightarrow> bool \<Rightarrow> nat \<Rightarrow> party_world \<Rightarrow> party_world" where
  "update_looter_guid env obj ifneed r w =
     with_party r (\<lambda>p w.
       if pa_method p = FREE_FOR_ALL then w
       else
         (let old = get_looter_guid p
          in if ifneed \<and> (case get_slot p old of None \<Rightarrow> False | Some m \<Rightarrow> near_member env obj w m) then w
             else (case next_looter env obj w p of
                 Some m \<Rightarrow> if old \<noteq> mb_guid m then send_update env r (set_looter (mb_guid m) r w) else w
               | None \<Rightarrow> send_update env r (set_looter 0 r w)))) w"

definition set_lfg_roles :: "party_env \<Rightarrow> guid \<Rightarrow> u8 \<Rightarrow> nat \<Rightarrow> party_world \<Rightarrow> party_world" where
  "set_lfg_roles env g roles r w =
     with_party r (\<lambda>p w.
       if is_member p g then send_update env r (upd_party r (upd_slot g (\<lambda>m. m\<lparr>mb_roles := roles\<rparr>)) w) else w) w"

definition set_group_member_flag :: "party_env \<Rightarrow> guid \<Rightarrow> bool \<Rightarrow> u8 \<Rightarrow> nat \<Rightarrow> party_world \<Rightarrow> party_world" where
  "set_group_member_flag env g apply flag r w =
     with_party r (\<lambda>p w.
       if \<not> is_raid_group p \<or> \<not> is_member p g \<or> flag \<notin> {MEMBER_FLAG_MAINASSIST, MEMBER_FLAG_MAINTANK, MEMBER_FLAG_ASSISTANT} then w
       else
         (let w1 = (if flag = MEMBER_FLAG_ASSISTANT then w else upd_party r (remove_unique_flag flag) w);
              w2 = upd_party r (upd_slot g (toggle_flag flag apply)) w1;
              w3 = with_party r (\<lambda>p. pw_emit (case get_slot p g of None \<Rightarrow> [] | Some m \<Rightarrow> [DbMemberFlags g (mb_flags m)])) w2
          in send_update env r w3)) w"

text \<open>A difficulty is set for the group and for every player that refers to it.\<close>

definition set_group_dungeon_difficulty :: "u8 \<Rightarrow> nat \<Rightarrow> party_world \<Rightarrow> party_world" where
  "set_group_dungeon_difficulty d r w =
     with_party r (\<lambda>p w.
       (let w1 = (if bg_or_bf p then w else pw_emit [DbGroupDifficulty (pa_db p) d] w)
        in fold (\<lambda>x w. pw_emit [PDungeonDifficulty (fst x)] (upd_pp (fst x) (\<lambda>q. q\<lparr>pp_dungeon := d\<rparr>) w)) (pa_refs p) w1))
       (upd_party r (\<lambda>p. p\<lparr>pa_dungeon := d\<rparr>) w)"

definition set_group_raid_difficulty :: "u8 \<Rightarrow> nat \<Rightarrow> party_world \<Rightarrow> party_world" where
  "set_group_raid_difficulty d r w =
     with_party r (\<lambda>p w.
       (let w1 = (if bg_or_bf p then w else pw_emit [DbGroupRaid (pa_db p) d] w)
        in fold (\<lambda>x w. pw_emit [PRaidDifficulty (fst x)] (upd_pp (fst x) (\<lambda>q. q\<lparr>pp_raid := d\<rparr>) w)) (pa_refs p) w1))
       (upd_party r (\<lambda>p. p\<lparr>pa_raid := d\<rparr>) w)"

section \<open>Battlegrounds\<close>

text \<open>\<open>AddOrSetPlayerToCorrectBgGroup\<close>, for the raid at a place \<open>k\<close>\<close>

definition add_to_bg_group :: "party_env \<Rightarrow> nat \<Rightarrow> guid \<Rightarrow> party_world \<Rightarrow> party_world" where
  "add_to_bg_group env k g w =
     (case pw_bg_raids w k of
        None \<Rightarrow> (case new_group w of (r, w1) \<Rightarrow> snd (create_group env r g (set_bg_raid k (Some r) w1)))
      | Some r \<Rightarrow>
          with_party r (\<lambda>p w.
            if is_member p g then set_battleground_raid r (get_member_group p g) g w
            else
              (let w1 = snd (add_member env r g w)
               in (case player_original w1 g of
                     None \<Rightarrow> w1
                   | Some q \<Rightarrow> with_party q (\<lambda>p w. if is_leader p g then send_update env r (change_leader r g w) else w) w1))) w)"

text \<open>The part of \<open>RemovePlayerAtLeave\<close> about the raid\<close>

definition leave_bg_group :: "party_env \<Rightarrow> nat \<Rightarrow> guid \<Rightarrow> party_world \<Rightarrow> party_world" where
  "leave_bg_group env k g w =
     (case pw_bg_raids w k of
        None \<Rightarrow> w
      | Some r \<Rightarrow> (case remove_member env REMOVE_DEFAULT r g w of (ok, w1) \<Rightarrow> if ok then w1 else set_bg_raid k None w1))"

end
