(* ===== verification/PartyWorld.thy ===== *)
theory PartyWorld
  imports PartyRules
begin

text \<open>
  What clients ask of groups (\<open>src/server/game/Handlers/GroupHandler.cpp\<close>) and what happens to players:
  login, logout, battlegrounds, loot. A step is one request or one such event; a run is a list of steps.
\<close>

section \<open>Results\<close>

datatype party_result =
    ERR_PARTY_RESULT_OK | ERR_BAD_PLAYER_NAME_S | ERR_TARGET_NOT_IN_GROUP_S | ERR_TARGET_NOT_IN_INSTANCE_S | ERR_GROUP_FULL
  | ERR_ALREADY_IN_GROUP_S | ERR_NOT_IN_GROUP | ERR_NOT_LEADER | ERR_PLAYER_WRONG_FACTION | ERR_IGNORING_YOU_S | ERR_INVITE_RESTRICTED
  | ERR_PARTY_LFG_BOOT_LIMIT | ERR_PARTY_LFG_BOOT_IN_PROGRESS | ERR_PARTY_LFG_BOOT_TOO_FEW_PLAYERS | ERR_PARTY_LFG_BOOT_IN_COMBAT
  | ERR_PARTY_LFG_BOOT_DUNGEON_COMPLETE | ERR_PARTY_LFG_BOOT_LOOT_ROLLS

fun party_result_val :: "party_result \<Rightarrow> u32" where
  "party_result_val ERR_PARTY_RESULT_OK = 0"
| "party_result_val ERR_BAD_PLAYER_NAME_S = 1"
| "party_result_val ERR_TARGET_NOT_IN_GROUP_S = 2"
| "party_result_val ERR_TARGET_NOT_IN_INSTANCE_S = 3"
| "party_result_val ERR_GROUP_FULL = 4"
| "party_result_val ERR_ALREADY_IN_GROUP_S = 5"
| "party_result_val ERR_NOT_IN_GROUP = 6"
| "party_result_val ERR_NOT_LEADER = 7"
| "party_result_val ERR_PLAYER_WRONG_FACTION = 8"
| "party_result_val ERR_IGNORING_YOU_S = 9"
| "party_result_val ERR_INVITE_RESTRICTED = 13"
| "party_result_val ERR_PARTY_LFG_BOOT_LIMIT = 20"
| "party_result_val ERR_PARTY_LFG_BOOT_IN_PROGRESS = 22"
| "party_result_val ERR_PARTY_LFG_BOOT_TOO_FEW_PLAYERS = 23"
| "party_result_val ERR_PARTY_LFG_BOOT_IN_COMBAT = 26"
| "party_result_val ERR_PARTY_LFG_BOOT_DUNGEON_COMPLETE = 28"
| "party_result_val ERR_PARTY_LFG_BOOT_LOOT_ROLLS = 29"

definition PARTY_OP_INVITE :: u32 where "PARTY_OP_INVITE = 0"
definition PARTY_OP_UNINVITE :: u32 where "PARTY_OP_UNINVITE = 1"
definition PARTY_OP_LEAVE :: u32 where "PARTY_OP_LEAVE = 2"

definition LFG_GROUP_KICK_VOTES_NEEDED :: nat where "LFG_GROUP_KICK_VOTES_NEEDED = 3"
definition RESTRICTED_AREA :: u32 where "RESTRICTED_AREA = 616"

definition send_party_result :: "guid \<Rightarrow> u32 \<Rightarrow> string \<Rightarrow> party_result \<Rightarrow> party_world \<Rightarrow> party_world" where
  "send_party_result g operation name res =
     pw_emit [PPacket g SMSG_PARTY_COMMAND_RESULT [P32 operation, PStr name, P32 (party_result_val res), P32 0]]"

section \<open>Invitations\<close>

text \<open>Why a player may not invite another; the conditions in their order.\<close>

definition players_refused :: "party_env \<Rightarrow> party_world \<Rightarrow> guid \<Rightarrow> party_player \<Rightarrow> guid \<Rightarrow> party_player \<Rightarrow> party_result option" where
  "players_refused env w g me h pl =
     (if h = g then Some ERR_BAD_PLAYER_NAME_S
      else if \<not> pe_gm_group env \<and> \<not> pp_gm me \<and> pp_gm pl then Some ERR_BAD_PLAYER_NAME_S
      else if \<not> pp_gm me \<and> \<not> pe_two_side env \<and> pp_team me \<noteq> pp_team pl then Some ERR_PLAYER_WRONG_FACTION
      else if pp_instance me \<noteq> 0 \<and> pp_instance pl \<noteq> 0 \<and> pp_instance me \<noteq> pp_instance pl \<and> pp_map me = pp_map pl
        then Some ERR_TARGET_NOT_IN_INSTANCE_S
      else if pp_instance pl \<noteq> 0 \<and> pp_dungeon pl \<noteq> pp_dungeon me then Some ERR_IGNORING_YOU_S
      else if g \<in> set (pp_ignores pl) then Some ERR_IGNORING_YOU_S
      else if g \<notin> set (pp_friends pl) \<and> pp_level me < pe_level_req env then Some ERR_INVITE_RESTRICTED
      else if pp_map pl = 0 \<and> pp_map pl = 1 \<and> pp_team me \<noteq> pp_team pl then Some ERR_PLAYER_WRONG_FACTION
      else if pp_area me = RESTRICTED_AREA \<and> pp_area pl = RESTRICTED_AREA then Some ERR_GROUP_FULL
      else if pp_area me = RESTRICTED_AREA \<and> pp_team me \<noteq> pp_team pl
        \<and> (case player_group w g of None \<Rightarrow> False | Some r \<Rightarrow> (case pw_groups w r of None \<Rightarrow> False | Some p \<Rightarrow> 1 \<le> length (pa_members p)))
        then Some ERR_GROUP_FULL
      else None)"

definition invite_packet :: "string \<Rightarrow> u8 \<Rightarrow> party_field list" where
  "invite_packet name flag = [P8 flag, PStr name, P32 0, P8 0, P32 0]"

text \<open>The group is made with the invitation; if someone cannot be invited it goes away.\<close>

definition send_invite :: "guid \<Rightarrow> string \<Rightarrow> string \<Rightarrow> guid \<Rightarrow> party_world \<Rightarrow> party_world" where
  "send_invite g me name h w =
     send_party_result g PARTY_OP_INVITE name ERR_PARTY_RESULT_OK (pw_emit [PPacket h SMSG_GROUP_INVITE (invite_packet me 1)] w)"

definition invite_to_new :: "guid \<Rightarrow> string \<Rightarrow> string \<Rightarrow> guid \<Rightarrow> party_world \<Rightarrow> party_world" where
  "invite_to_new g me name h w =
     (let (r, w1) = new_group w
      in case add_leader_invite r g w1 of
           (False, w2) \<Rightarrow> delete_party r w2
         | (True, w2) \<Rightarrow>
             (case add_invite r h w2 of
                (False, w3) \<Rightarrow> delete_party r (remove_all_invites r w3)
              | (True, w3) \<Rightarrow> send_invite g me name h w3))"

definition invite_to_old :: "guid \<Rightarrow> string \<Rightarrow> string \<Rightarrow> guid \<Rightarrow> nat \<Rightarrow> party_world \<Rightarrow> party_world" where
  "invite_to_old g me name h r w =
     with_party r (\<lambda>p w.
       if \<not> is_leader p g \<and> \<not> is_assistant p g then send_party_result g PARTY_OP_INVITE [] ERR_NOT_LEADER w
       else if is_full p then send_party_result g PARTY_OP_INVITE [] ERR_GROUP_FULL w
       else (case add_invite r h w of (False, w1) \<Rightarrow> w1 | (True, w1) \<Rightarrow> send_invite g me name h w1)) w"

definition invite_player :: "guid \<Rightarrow> string \<Rightarrow> string \<Rightarrow> guid \<Rightarrow> party_world \<Rightarrow> party_world" where
  "invite_player g me name h w =
     (let other = own_group is_bg_group w h
      in if other \<noteq> None \<or> player_invite w h \<noteq> None then
           (let w1 = send_party_result g PARTY_OP_INVITE name ERR_ALREADY_IN_GROUP_S w
            in if other \<noteq> None then pw_emit [PPacket h SMSG_GROUP_INVITE (invite_packet me 0)] w1 else w1)
         else (case own_group is_bg_group w g of None \<Rightarrow> invite_to_new g me name h w | Some r \<Rightarrow> invite_to_old g me name h r w))"

definition handle_group_invite :: "party_env \<Rightarrow> guid \<Rightarrow> string \<Rightarrow> party_world \<Rightarrow> party_world" where
  "handle_group_invite env g name0 w =
     (case normalize_player_name (pe_utf8 env) name0 of
        None \<Rightarrow> send_party_result g PARTY_OP_INVITE name0 ERR_BAD_PLAYER_NAME_S w
      | Some name \<Rightarrow>
          (case find_player_by_name w name of
             None \<Rightarrow> send_party_result g PARTY_OP_INVITE name ERR_BAD_PLAYER_NAME_S w
           | Some h \<Rightarrow>
               (case (find_connected w g, find_connected w h) of
                  (Some me, Some pl) \<Rightarrow>
                    (case players_refused env w g me h pl of
                       Some res \<Rightarrow> send_party_result g PARTY_OP_INVITE name res w
                     | None \<Rightarrow> invite_player g (pp_name me) name h w)
                | _ \<Rightarrow> w)))"

definition form_group :: "party_env \<Rightarrow> nat \<Rightarrow> guid \<Rightarrow> party_world \<Rightarrow> party_world" where
  "form_group env r leader w = add_group r (snd (create_group env r leader (remove_invite r leader w)))"

definition handle_group_accept :: "party_env \<Rightarrow> guid \<Rightarrow> party_world \<Rightarrow> party_world" where
  "handle_group_accept env g w =
     (case player_invite w g of
        None \<Rightarrow> w
      | Some r \<Rightarrow>
          with_party r (\<lambda>p w.
            if pa_leader p = g then w
            else if is_full p then send_party_result g PARTY_OP_INVITE [] ERR_GROUP_FULL w
            else if is_created p then snd (add_member env r g w)
            else if find_player w (pa_leader p) = None then remove_all_invites r w
            else snd (add_member env r g (form_group env r (pa_leader p) w))) (remove_invite r g w))"

definition handle_group_decline :: "party_env \<Rightarrow> guid \<Rightarrow> party_world \<Rightarrow> party_world" where
  "handle_group_decline env g w =
     (case player_invite w g of
        None \<Rightarrow> w
      | Some r \<Rightarrow>
          with_party r (\<lambda>p w.
            (let w1 = uninvite_from_group env g w
             in if is_connected w (pa_leader p) then pw_emit [PPacket (pa_leader p) SMSG_GROUP_DECLINE [PStr (player_name w g)]] w1 else w1)) w)"

section \<open>Removing members\<close>

definition can_uninvite_from_group :: "party_env \<Rightarrow> party_world \<Rightarrow> guid \<Rightarrow> guid \<Rightarrow> party_result" where
  "can_uninvite_from_group env w g tgt =
     (case player_group w g of
        None \<Rightarrow> ERR_NOT_IN_GROUP
      | Some r \<Rightarrow>
          (case pw_groups w r of
             None \<Rightarrow> ERR_NOT_IN_GROUP
           | Some p \<Rightarrow>
               if is_lfg_group p then
                 (if pe_lfg_kicks env (pa_guid p) = 0 then ERR_PARTY_LFG_BOOT_LIMIT
                  else if pe_lfg_vote env (pa_guid p) then ERR_PARTY_LFG_BOOT_IN_PROGRESS
                  else if length (pa_members p) \<le> LFG_GROUP_KICK_VOTES_NEEDED then ERR_PARTY_LFG_BOOT_TOO_FEW_PLAYERS
                  else if pe_lfg_finished env (pa_guid p) then ERR_PARTY_LFG_BOOT_DUNGEON_COMPLETE
                  else if pa_rolls p \<noteq> [] then ERR_PARTY_LFG_BOOT_LOOT_ROLLS
                  else if list_ex (\<lambda>x. case find_connected w (fst x) of None \<Rightarrow> False | Some q \<Rightarrow> pp_in_combat q) (pa_refs p)
                    then ERR_PARTY_LFG_BOOT_IN_COMBAT
                  else ERR_PARTY_RESULT_OK)
               else if \<not> is_leader p g \<and> \<not> is_assistant p g then ERR_NOT_LEADER
               else if (case find_connected w g of None \<Rightarrow> False | Some q \<Rightarrow> pp_in_bg q) then ERR_INVITE_RESTRICTED
               else if is_leader p tgt then ERR_NOT_LEADER
               else ERR_PARTY_RESULT_OK))"

definition handle_group_uninvite_guid :: "party_env \<Rightarrow> guid \<Rightarrow> guid \<Rightarrow> party_world \<Rightarrow> party_world" where
  "handle_group_uninvite_guid env g tgt w =
     (if tgt = g then w
      else
        (let res = can_uninvite_from_group env w g tgt
         in if res \<noteq> ERR_PARTY_RESULT_OK then send_party_result g PARTY_OP_UNINVITE [] res w
            else
              (case player_group w g of
                 None \<Rightarrow> fault w
               | Some r \<Rightarrow>
                   with_party r (\<lambda>p w.
                     if is_member p tgt then remove_from_group env REMOVE_KICK (Some r) tgt w
                     else (case get_invited p tgt of
                         Some h \<Rightarrow> uninvite_from_group env h w
                       | None \<Rightarrow> send_party_result g PARTY_OP_UNINVITE [] ERR_TARGET_NOT_IN_GROUP_S w)) w)))"

text \<open>By name: \<open>CanUninviteFromGroup\<close> is asked about nobody.\<close>

definition handle_group_uninvite :: "party_env \<Rightarrow> guid \<Rightarrow> string \<Rightarrow> party_world \<Rightarrow> party_world" where
  "handle_group_uninvite env g name0 w =
     (case normalize_player_name (pe_utf8 env) name0 of
        None \<Rightarrow> w
      | Some name \<Rightarrow>
          if player_name w g = name then w
          else
            (let res = can_uninvite_from_group env w g guid_empty
             in if res \<noteq> ERR_PARTY_RESULT_OK then send_party_result g PARTY_OP_UNINVITE [] res w
                else
                  (case player_group w g of
                     None \<Rightarrow> w
                   | Some r \<Rightarrow>
                       with_party r (\<lambda>p w.
                         if get_member_guid p name \<noteq> 0 then remove_from_group env REMOVE_KICK (Some r) (get_member_guid p name) w
                         else (case get_invited_by_name w p name of
                             Some h \<Rightarrow> uninvite_from_group env h w
                           | None \<Rightarrow> send_party_result g PARTY_OP_UNINVITE name ERR_TARGET_NOT_IN_GROUP_S w)) w)))"

definition handle_group_set_leader :: "party_env \<Rightarrow> guid \<Rightarrow> guid \<Rightarrow> party_world \<Rightarrow> party_world" where
  "handle_group_set_leader env g tgt w =
     (case player_group w g of
        None \<Rightarrow> w
      | Some r \<Rightarrow>
          if \<not> is_connected w tgt then w
          else with_party r (\<lambda>p w.
            if \<not> is_leader p g \<or> player_group w tgt \<noteq> Some r then w else send_update env r (change_leader r tgt w)) w)"

definition handle_group_disband :: "party_env \<Rightarrow> guid \<Rightarrow> party_world \<Rightarrow> party_world" where
  "handle_group_disband env g w =
     (case (player_group w g, find_connected w g) of
        (Some r, Some q) \<Rightarrow>
          if pp_in_bg q then send_party_result g PARTY_OP_INVITE [] ERR_INVITE_RESTRICTED w
          else remove_from_group env REMOVE_LEAVE (Some r) g (send_party_result g PARTY_OP_LEAVE (pp_name q) ERR_PARTY_RESULT_OK w)
      | _ \<Rightarrow> w)"

section \<open>Loot and difficulty\<close>

definition handle_loot_method :: "party_env \<Rightarrow> guid \<Rightarrow> u32 \<Rightarrow> guid \<Rightarrow> u32 \<Rightarrow> party_world \<Rightarrow> party_world" where
  "handle_loot_method env g v master threshold w =
     (case player_group w g of
        None \<Rightarrow> w
      | Some r \<Rightarrow>
          with_party r (\<lambda>p w.
            if \<not> is_leader p g \<or> 4 < v \<or> threshold < ucast ITEM_QUALITY_UNCOMMON \<or> ucast ITEM_QUALITY_ARTIFACT < threshold
              \<or> v = 2 \<and> \<not> is_member p master then w
            else send_update env r (upd_party r (\<lambda>p. p\<lparr>pa_method := loot_method_of v, pa_master := master, pa_threshold := ucast threshold\<rparr>) w)) w)"

definition handle_loot_roll :: "party_env \<Rightarrow> guid \<Rightarrow> guid \<Rightarrow> u8 \<Rightarrow> party_world \<Rightarrow> party_world" where
  "handle_loot_roll env g item choice w =
     (case player_group w g of
        None \<Rightarrow> w
      | Some r \<Rightarrow>
          (let w1 = count_roll_vote env r g item choice w
           in if choice = ROLL_NEED then pw_emit [PCriterion g 93 1 0] w1
              else if choice = ROLL_GREED then pw_emit [PCriterion g 94 1 0] w1
              else w1))"

definition handle_opt_out_of_loot :: "guid \<Rightarrow> u32 \<Rightarrow> party_world \<Rightarrow> party_world" where
  "handle_opt_out_of_loot g v = upd_pp g (\<lambda>q. q\<lparr>pp_pass_loot := v \<noteq> 0\<rparr>)"

text \<open>The leader may not change a difficulty while a player of the group is in such an instance.\<close>

fun no_one_inside :: "(u32 \<Rightarrow> bool) \<Rightarrow> party_world \<Rightarrow> guid list \<Rightarrow> bool" where
  "no_one_inside inside w [] = True"
| "no_one_inside inside w (g # gs) =
     (case find_connected w g of
        None \<Rightarrow> no_one_inside inside w gs
      | Some q \<Rightarrow> if \<not> pp_in_world q \<or> inside (pp_map q) then False else no_one_inside inside w gs)"

definition handle_set_dungeon_difficulty :: "party_env \<Rightarrow> guid \<Rightarrow> u32 \<Rightarrow> party_world \<Rightarrow> party_world" where
  "handle_set_dungeon_difficulty env g mode w =
     (case find_connected w g of
        None \<Rightarrow> w
      | Some q \<Rightarrow>
          if ucast MAX_DUNGEON_DIFFICULTY \<le> mode \<or> ucast mode = pp_dungeon q \<or> pe_dungeon_map env (pp_map q) then w
          else
            (case player_group w g of
               None \<Rightarrow> upd_pp g (\<lambda>q. q\<lparr>pp_dungeon := ucast mode\<rparr>) w
             | Some r \<Rightarrow>
                 with_party r (\<lambda>p w.
                   if is_leader p g \<and> no_one_inside (\<lambda>m. pe_dungeon_map env m \<and> \<not> pe_raid_map env m) w (map fst (pa_refs p))
                   then set_group_dungeon_difficulty (ucast mode) r w else w) w))"

definition handle_set_raid_difficulty :: "party_env \<Rightarrow> guid \<Rightarrow> u32 \<Rightarrow> party_world \<Rightarrow> party_world" where
  "handle_set_raid_difficulty env g mode w =
     (case find_connected w g of
        None \<Rightarrow> w
      | Some q \<Rightarrow>
          if ucast MAX_RAID_DIFFICULTY \<le> mode \<or> pe_dungeon_map env (pp_map q) \<or> ucast mode = pp_raid q then w
          else
            (case player_group w g of
               None \<Rightarrow> upd_pp g (\<lambda>q. q\<lparr>pp_raid := ucast mode\<rparr>) w
             | Some r \<Rightarrow>
                 with_party r (\<lambda>p w.
                   if is_leader p g \<and> no_one_inside (pe_raid_map env) w (map fst (pa_refs p))
                   then set_group_raid_difficulty (ucast mode) r w else w) w))"

section \<open>Raids\<close>

definition handle_raid_target_update :: "party_env \<Rightarrow> guid \<Rightarrow> u8 \<Rightarrow> guid \<Rightarrow> party_world \<Rightarrow> party_world" where
  "handle_raid_target_update env g x tgt w =
     (case player_group w g of
        None \<Rightarrow> w
      | Some r \<Rightarrow>
          with_party r (\<lambda>p w.
            if x = 0xFF then send_target_icon_list g r w
            else if is_raid_group p \<and> \<not> is_leader p g \<and> \<not> is_assistant p g then w
            else if is_player tgt \<and> (\<not> is_connected w tgt \<or> pe_hostile env tgt g) then w
            else set_target_icon x g tgt r w) w)"

definition handle_group_raid_convert :: "party_env \<Rightarrow> guid \<Rightarrow> party_world \<Rightarrow> party_world" where
  "handle_group_raid_convert env g w =
     (case (player_group w g, find_connected w g) of
        (Some r, Some q) \<Rightarrow>
          with_party r (\<lambda>p w.
            if pp_in_bg q \<or> \<not> is_leader p g \<or> length (pa_members p) < 2 then w
            else convert_to_raid env r (send_party_result g PARTY_OP_INVITE [] ERR_PARTY_RESULT_OK w)) w
      | _ \<Rightarrow> w)"

definition handle_group_change_sub_group :: "party_env \<Rightarrow> guid \<Rightarrow> string \<Rightarrow> u8 \<Rightarrow> party_world \<Rightarrow> party_world" where
  "handle_group_change_sub_group env g name sub w =
     (case player_group w g of
        None \<Rightarrow> w
      | Some r \<Rightarrow>
          with_party r (\<lambda>p w.
            if MAX_RAID_SUBGROUPS \<le> unat sub \<or> \<not> is_leader p g \<and> \<not> is_assistant p g \<or> \<not> has_free_slot_sub_group p sub then w
            else change_members_group env r
              (case find_connected_by_name w name of Some h \<Rightarrow> h | None \<Rightarrow> pe_char_guid env name) sub w) w)"

definition handle_group_assistant_leader :: "party_env \<Rightarrow> guid \<Rightarrow> guid \<Rightarrow> bool \<Rightarrow> party_world \<Rightarrow> party_world" where
  "handle_group_assistant_leader env g tgt apply w =
     (case player_group w g of
        None \<Rightarrow> w
      | Some r \<Rightarrow>
          with_party r (\<lambda>p w. if is_leader p g then set_group_member_flag env tgt apply MEMBER_FLAG_ASSISTANT r w else w) w)"

definition handle_party_assignment :: "party_env \<Rightarrow> guid \<Rightarrow> u8 \<Rightarrow> bool \<Rightarrow> guid \<Rightarrow> party_world \<Rightarrow> party_world" where
  "handle_party_assignment env g assignment apply tgt w =
     (case player_group w g of
        None \<Rightarrow> w
      | Some r \<Rightarrow>
          with_party r (\<lambda>p w.
            if \<not> is_leader p g \<and> \<not> is_assistant p g then w
            else send_update env r
              (if assignment = GROUP_ASSIGN_MAINASSIST
               then set_group_member_flag env tgt apply MEMBER_FLAG_MAINASSIST r (upd_party r (remove_unique_flag MEMBER_FLAG_MAINASSIST) w)
               else if assignment = GROUP_ASSIGN_MAINTANK
               then set_group_member_flag env tgt apply MEMBER_FLAG_MAINTANK r (upd_party r (remove_unique_flag MEMBER_FLAG_MAINTANK) w)
               else w)) w)"

text \<open>A ready check has no state in the request, the answer one.\<close>

definition handle_raid_ready_check :: "guid \<Rightarrow> u8 option \<Rightarrow> party_world \<Rightarrow> party_world" where
  "handle_raid_ready_check g state w =
     (case player_group w g of
        None \<Rightarrow> w
      | Some r \<Rightarrow>
          with_party r (\<lambda>p w.
            case state of
              None \<Rightarrow>
                if \<not> is_leader p g \<and> \<not> is_assistant p g then w
                else offline_ready_check r (broadcast MSG_RAID_READY_CHECK [P64 g] False None 0 r w)
            | Some s \<Rightarrow> broadcast_ready_check MSG_RAID_READY_CHECK_CONFIRM [P64 g, P8 s] r w) w)"

section \<open>Players come and go\<close>

definition set_leader_flag :: "bool \<Rightarrow> guid \<Rightarrow> party_world \<Rightarrow> party_world" where
  "set_leader_flag b g = upd_pp g (\<lambda>q. q\<lparr>pp_leader_flag := b\<rparr>)"

text \<open>\<open>_LoadGroup\<close>: the database knows the group of the character.\<close>

definition load_player_group :: "guid \<Rightarrow> u32 option \<Rightarrow> party_world \<Rightarrow> party_world" where
  "load_player_group g db w =
     (let w1 = (case Option.bind db (group_by_db_id (pw_db w)) of
            None \<Rightarrow> w
          | Some r \<Rightarrow>
              with_party r (\<lambda>p w.
                (let w1 = (if is_leader p g then set_leader_flag True g w else w);
                     w2 = set_group (Some (r, get_member_group p g)) g w1
                 in upd_pp g (\<lambda>q. if LEVELREQUIREMENT_HEROIC \<le> pp_level q then q\<lparr>pp_dungeon := pa_dungeon p, pp_raid := pa_raid p\<rparr> else q) w2)) w)
      in if (case player_group w1 g of None \<Rightarrow> False | Some r \<Rightarrow> (case pw_groups w1 r of None \<Rightarrow> False | Some p \<Rightarrow> is_leader p g)) then w1
         else set_leader_flag False g w1)"

text \<open>Who was in a battleground that is not over goes back to it.\<close>

definition login :: "party_env \<Rightarrow> guid \<Rightarrow> party_player \<Rightarrow> u32 option \<Rightarrow> nat option \<Rightarrow> party_world \<Rightarrow> party_world" where
  "login env g q db bg w =
     (let w1 = load_player_group g db
            (w\<lparr>pw_players := om_set g (q\<lparr>pp_logout := False, pp_group := None, pp_orig := None, pp_invite := None, pp_pass_loot := False\<rparr>)
                (pw_players w)\<rparr>)
      in case bg of None \<Rightarrow> w1 | Some k \<Rightarrow> add_to_bg_group env k g w1)"

text \<open>
  The part of \<open>LogoutPlayer\<close> about groups. Who is in a battleground stays in its raid until the time for
  his return is over. A group that still has a pointer to the player when he is deleted is a fault.
\<close>

definition still_invited :: "party_world \<Rightarrow> guid \<Rightarrow> bool" where
  "still_invited w g \<longleftrightarrow>
     list_ex (\<lambda>r. case pw_groups w r of None \<Rightarrow> False | Some p \<Rightarrow> g \<in> set (pa_invites p)) [0..<pw_next w]"

definition delete_player :: "guid \<Rightarrow> party_world \<Rightarrow> party_world" where
  "delete_player g w =
     (let w1 = unlink_original g (unlink_main g w);
          w2 = (if still_invited w1 g then fault w1 else w1)
      in w2\<lparr>pw_players := om_del g (pw_players w2)\<rparr>)"

definition logout_group :: "party_env \<Rightarrow> bool \<Rightarrow> guid \<Rightarrow> party_world \<Rightarrow> party_world" where
  "logout_group env socket g w =
     (case player_group w g of
        None \<Rightarrow> w
      | Some r \<Rightarrow> with_party r (\<lambda>p w. if \<not> is_raid_group p \<and> socket then remove_from_group env REMOVE_DEFAULT (Some r) g w else w) w)"

definition logout_update :: "party_env \<Rightarrow> guid \<Rightarrow> party_world \<Rightarrow> party_world" where
  "logout_update env g w =
     (case player_group w g of None \<Rightarrow> w | Some r \<Rightarrow> reset_max_enchanting_level r (send_update env r w))"

definition logout :: "party_env \<Rightarrow> bool \<Rightarrow> guid \<Rightarrow> party_world \<Rightarrow> party_world" where
  "logout env socket g w =
     delete_player g (logout_update env g (logout_group env socket g (uninvite_from_group env g (upd_pp g (\<lambda>q. q\<lparr>pp_logout := True\<rparr>) w))))"

text \<open>What the rest of the server changes of a player.\<close>

definition update_player :: "guid \<Rightarrow> party_player \<Rightarrow> party_world \<Rightarrow> party_world" where
  "update_player g q =
     upd_pp g (\<lambda>o1. q\<lparr>pp_group := pp_group o1, pp_orig := pp_orig o1, pp_invite := pp_invite o1, pp_logout := pp_logout o1,
       pp_leader_flag := pp_leader_flag o1, pp_dungeon := pp_dungeon o1, pp_raid := pp_raid o1, pp_pass_loot := pp_pass_loot o1\<rparr>)"

section \<open>Runs\<close>

datatype party_event =
    PInvite guid string | PAccept guid | PDecline guid | PUninviteGuid guid guid | PUninvite guid string
  | PSetLeader guid guid | PLeave guid | PLootMethod guid u32 guid u32 | PRoll guid guid u8 | POptOut guid u32
  | PDungeonMode guid u32 | PRaidMode guid u32 | PTargetIcon guid u8 guid | PConvert guid | PSubGroup guid string u8
  | PAssistant guid guid bool | PAssign guid u8 bool guid | PReady guid "u8 option"
  | WLogin guid party_player "u32 option" "nat option" | WLogout guid bool | WUpdate guid party_player
  | WBgJoin nat guid | WBgLeave nat guid
  | WLoot nat loot | WLootGone nat | WGroupLoot nat nat nat | WNeedLoot nat nat nat | WMasterLoot nat nat nat | WEndRoll nat nat
  | WLooter nat nat bool

fun party_step :: "party_env \<times> party_event \<Rightarrow> party_world \<Rightarrow> party_world" where
  "party_step (env, PInvite g n) w = handle_group_invite env g n w"
| "party_step (env, PAccept g) w = handle_group_accept env g w"
| "party_step (env, PDecline g) w = handle_group_decline env g w"
| "party_step (env, PUninviteGuid g h) w = handle_group_uninvite_guid env g h w"
| "party_step (env, PUninvite g n) w = handle_group_uninvite env g n w"
| "party_step (env, PSetLeader g h) w = handle_group_set_leader env g h w"
| "party_step (env, PLeave g) w = handle_group_disband env g w"
| "party_step (env, PLootMethod g v m t) w = handle_loot_method env g v m t w"
| "party_step (env, PRoll g i c) w = handle_loot_roll env g i c w"
| "party_step (env, POptOut g v) w = handle_opt_out_of_loot g v w"
| "party_step (env, PDungeonMode g m) w = handle_set_dungeon_difficulty env g m w"
| "party_step (env, PRaidMode g m) w = handle_set_raid_difficulty env g m w"
| "party_step (env, PTargetIcon g x t) w = handle_raid_target_update env g x t w"
| "party_step (env, PConvert g) w = handle_group_raid_convert env g w"
| "party_step (env, PSubGroup g n s) w = handle_group_change_sub_group env g n s w"
| "party_step (env, PAssistant g h b) w = handle_group_assistant_leader env g h b w"
| "party_step (env, PAssign g a b h) w = handle_party_assignment env g a b h w"
| "party_step (env, PReady g s) w = handle_raid_ready_check g s w"
| "party_step (env, WLogin g q db bg) w = login env g q db bg w"
| "party_step (env, WLogout g b) w = logout env b g w"
| "party_step (env, WUpdate g q) w = update_player g q w"
| "party_step (env, WBgJoin k g) w = add_to_bg_group env k g w"
| "party_step (env, WBgLeave k g) w = leave_bg_group env k g w"
| "party_step (env, WLoot l lo) w = w\<lparr>pw_loots := (pw_loots w)(l \<mapsto> lo)\<rparr>"
| "party_step (env, WLootGone l) w = w\<lparr>pw_loots := (pw_loots w)(l := None)\<rparr>"
| "party_step (env, WGroupLoot r l obj) w = group_loot env r l obj w"
| "party_step (env, WNeedLoot r l obj) w = need_before_greed env r l obj w"
| "party_step (env, WMasterLoot r l obj) w = master_loot env r l obj w"
| "party_step (env, WEndRoll r l) w = end_roll env r l w"
| "party_step (env, WLooter r obj b) w = update_looter_guid env obj b r w"

definition new_party_world :: party_world where
  "new_party_world =
     \<lparr>pw_groups = (\<lambda>_. None), pw_next = 0, pw_players = [], pw_loots = (\<lambda>_. None), pw_store = [], pw_db = new_db_ids, pw_next_group = 1,
      pw_next_item = generator_init 1, pw_bg_raids = (\<lambda>_. None), pw_fault = False, pw_out = []\<rparr>"

end
