(* ===== verification/PartyView.thy ===== *)
theory PartyView
  imports PartyWorld
begin

text \<open>
  A view of the state of the groups: who is in which group, the links of the players, the invitations,
  the rolls by their place. Most operations do not change it (the lemmas \<open>view_light\<close>); the
  others change it as an operation on views says (the lemmas \<open>view_op\<close>).
\<close>

named_theorems view_light "operations that leave the view as it is"
named_theorems view_op "operations as operations on views"

section \<open>Views\<close>

record pview =
  v_mem :: "(guid \<times> u8) list"
  v_refs :: "(guid \<times> party_link) list"
  v_inv :: "guid list"
  v_leader :: guid
  v_type :: u8
  v_bg :: "nat option"
  v_bf :: bool
  v_counts :: "u8 list option"
  v_db :: u32
  v_rolls :: "(guid \<times> nat option \<times> u8) list"

record lview =
  l_main :: "(nat \<times> u8) option"
  l_orig :: "(nat \<times> u8) option"
  l_inv :: "nat option"

record wview =
  G :: "nat \<Rightarrow> pview option"
  L :: "guid \<Rightarrow> lview option"
  v_next :: nat
  v_ids :: db_ids
  v_bgs :: "nat \<Rightarrow> nat option"
  v_loots :: "nat \<Rightarrow> (nat \<times> nat) option"
  v_item :: guid_generator
  v_fault :: bool

definition slot_view :: "member_slot \<Rightarrow> guid \<times> u8" where "slot_view m = (mb_guid m, mb_group m)"
definition roll_view :: "roll \<Rightarrow> guid \<times> nat option \<times> u8" where "roll_view rl = (rl_guid rl, rl_loot rl, rl_slot rl)"
definition loot_view :: "loot \<Rightarrow> nat \<times> nat" where "loot_view lo = (length (lo_items lo), length (lo_quest lo))"

definition party_view :: "party \<Rightarrow> pview" where
  "party_view p =
     \<lparr>v_mem = map slot_view (pa_members p), v_refs = pa_refs p, v_inv = pa_invites p, v_leader = pa_leader p, v_type = pa_type p,
      v_bg = pa_bg p, v_bf = pa_bf p, v_counts = pa_counts p, v_db = pa_db p, v_rolls = map roll_view (pa_rolls p)\<rparr>"

definition player_view :: "party_player \<Rightarrow> lview" where
  "player_view q = \<lparr>l_main = pp_group q, l_orig = pp_orig q, l_inv = pp_invite q\<rparr>"

definition view :: "party_world \<Rightarrow> wview" where
  "view w =
     \<lparr>G = (\<lambda>r. map_option party_view (pw_groups w r)), L = (\<lambda>g. map_option player_view (find_connected w g)), v_next = pw_next w,
      v_ids = pw_db w, v_bgs = pw_bg_raids w, v_loots = (\<lambda>l. map_option loot_view (pw_loots w l)), v_item = pw_next_item w,
      v_fault = pw_fault w\<rparr>"

abbreviation has :: "nat \<Rightarrow> party_world \<Rightarrow> bool" where "has r w \<equiv> G (view w) r \<noteq> None"

lemma pview_sel [simp]:
  "v_mem (party_view p) = map slot_view (pa_members p)" "v_refs (party_view p) = pa_refs p" "v_inv (party_view p) = pa_invites p"
  "v_leader (party_view p) = pa_leader p" "v_type (party_view p) = pa_type p" "v_bg (party_view p) = pa_bg p"
  "v_bf (party_view p) = pa_bf p" "v_counts (party_view p) = pa_counts p" "v_db (party_view p) = pa_db p"
  "v_rolls (party_view p) = map roll_view (pa_rolls p)"
  by (simp_all add: party_view_def)

lemma lview_sel [simp]:
  "l_main (player_view q) = pp_group q" "l_orig (player_view q) = pp_orig q" "l_inv (player_view q) = pp_invite q"
  by (simp_all add: player_view_def)

lemma view_sel [simp]:
  "G (view w) r = map_option party_view (pw_groups w r)" "L (view w) g = map_option player_view (find_connected w g)"
  "v_next (view w) = pw_next w" "v_ids (view w) = pw_db w" "v_bgs (view w) = pw_bg_raids w"
  "v_loots (view w) l = map_option loot_view (pw_loots w l)" "v_item (view w) = pw_next_item w" "v_fault (view w) = pw_fault w"
  by (simp_all add: view_def)

lemma fst_slot_view [simp]: "fst (slot_view m) = mb_guid m" "snd (slot_view m) = mb_group m"
  by (simp_all add: slot_view_def)

text \<open>The model's lookups, seen through the view.\<close>

lemma connected_view: "is_connected w g \<longleftrightarrow> L (view w) g \<noteq> None"
  by (simp add: is_connected_def)

lemma player_group_view: "player_group w g = (case L (view w) g of None \<Rightarrow> None | Some l \<Rightarrow> map_option fst (l_main l))"
  by (simp add: player_group_def split: option.split)

lemma player_original_view: "player_original w g = (case L (view w) g of None \<Rightarrow> None | Some l \<Rightarrow> map_option fst (l_orig l))"
  by (simp add: player_original_def split: option.split)

lemma player_invite_view: "player_invite w g = (case L (view w) g of None \<Rightarrow> None | Some l \<Rightarrow> l_inv l)"
  by (simp add: player_invite_def split: option.split)

lemmas lookup_view = player_group_view player_original_view player_invite_view

section \<open>Operations that leave the view\<close>

lemma view_ext:
  assumes "pw_groups w' = pw_groups w" "\<And>g. map_option player_view (find_connected w' g) = map_option player_view (find_connected w g)"
    "pw_next w' = pw_next w" "pw_db w' = pw_db w" "pw_bg_raids w' = pw_bg_raids w" "pw_loots w' = pw_loots w"
    "pw_next_item w' = pw_next_item w" "pw_fault w' = pw_fault w"
  shows "view w' = view w"
  using assms by (simp add: view_def)

lemma view_emit [simp, view_light]: "view (pw_emit os w) = view w"
  by (rule view_ext) (simp_all add: pw_emit_def find_connected_def)

lemma with_party_some [simp]: "pw_groups w r = Some p \<Longrightarrow> with_party r f w = f p w"
  by (simp add: with_party_def)

lemma with_party_view: "has r w \<Longrightarrow> (\<And>p. pw_groups w r = Some p \<Longrightarrow> view (f p w) = V) \<Longrightarrow> view (with_party r f w) = V"
  by (auto simp: with_party_def)

lemma find_connected_upd_pp:
  "find_connected (upd_pp g f w) h = (if h = g then map_option f (find_connected w h) else find_connected w h)"
  by (simp add: find_connected_def upd_pp_def)

lemma view_upd_pp_light: "(\<And>q. player_view (f q) = player_view q) \<Longrightarrow> view (upd_pp g f w) = view w"
proof (rule view_ext)
  fix h assume f: "\<And>q. player_view (f q) = player_view q"
  show "map_option player_view (find_connected (upd_pp g f w) h) = map_option player_view (find_connected w h)"
    using f by (cases "find_connected w h") (auto simp: find_connected_upd_pp)
qed (simp_all add: upd_pp_def)

lemma view_upd_party_light:
  assumes "has r w" "\<And>p. pw_groups w r = Some p \<Longrightarrow> party_view (f p) = party_view p"
  shows "view (upd_party r f w) = view w"
proof -
  obtain p where p: "pw_groups w r = Some p" using assms(1) by auto
  show ?thesis
    using assms(2) [OF p] p unfolding view_def upd_party_def by (auto simp: find_connected_def intro!: ext)
qed

lemma view_fold: "(\<And>x w. x \<in> set xs \<Longrightarrow> P (view w) \<Longrightarrow> view (f x w) = view w) \<Longrightarrow> P (view w) \<Longrightarrow> view (fold f xs w) = view w"
proof (induction xs arbitrary: w)
  case (Cons a xs)
  have a: "view (f a w) = view w" using Cons.prems(1) [of a w] Cons.prems(2) by simp
  have "view (fold f xs (f a w)) = view (f a w)"
    using Cons.IH [of "f a w"] Cons.prems a by simp
  then show ?case using a by simp
qed simp

lemma view_broadcast [view_light]: "has r w \<Longrightarrow> view (broadcast op fs b grp ign r w) = view w"
  unfolding broadcast_def by (rule with_party_view) simp_all

lemma view_broadcast_ready_check [view_light]: "has r w \<Longrightarrow> view (broadcast_ready_check op fs r w) = view w"
  unfolding broadcast_ready_check_def by (rule with_party_view) simp_all

lemma view_offline_ready_check [view_light]: "has r w \<Longrightarrow> view (offline_ready_check r w) = view w"
  unfolding offline_ready_check_def
  by (rule with_party_view) (auto simp del: view_sel intro!: view_fold [where P = "\<lambda>V. G V r \<noteq> None"] view_broadcast_ready_check)

lemma view_send_update_to_player [view_light]: "has r w \<Longrightarrow> view (send_update_to_player env r g slot w) = view w"
  unfolding send_update_to_player_def
proof (rule with_party_view)
  fix p assume p: "pw_groups w r = Some p"
  show "view (if player_group w g \<noteq> Some r then w else case (case slot of Some m \<Rightarrow> Some m | None \<Rightarrow> get_slot p g) of None \<Rightarrow> w
     | Some m \<Rightarrow> upd_party r (\<lambda>p. p\<lparr>pa_counter := pa_counter p + 1\<rparr>) (pw_emit [PPacket g SMSG_GROUP_LIST (group_list env w p m)] w)) = view w"
    using p by (auto simp: party_view_def pw_emit_def [of _ w] split: option.split intro!: trans [OF view_upd_party_light] view_ext)
      (simp_all add: find_connected_def)
qed

lemma view_send_update [view_light]: "has r w \<Longrightarrow> view (send_update env r w) = view w"
  unfolding send_update_def
  by (rule with_party_view) (auto simp del: view_sel intro!: view_fold [where P = "\<lambda>V. G V r \<noteq> None"] view_send_update_to_player)

lemma view_send_party_result [simp, view_light]: "view (send_party_result g x n res w) = view w"
  by (simp add: send_party_result_def)

lemma view_to_voters [simp, view_light]: "view (to_voters P op fs rl w) = view w"
  by (simp add: to_voters_def)

lemma view_send_loot [simp, view_light]:
  "view (send_loot_start_roll t m rl w) = view w" "view (send_loot_start_roll_to_player t m g b rl w) = view w"
  "view (send_loot_roll a b' n k rl w) = view w" "view (send_loot_roll_won a b' n k rl w) = view w" "view (send_loot_all_passed rl w) = view w"
  by (simp_all add: send_loot_start_roll_def send_loot_start_roll_to_player_def send_loot_roll_def send_loot_roll_won_def send_loot_all_passed_def)

lemma view_send_looter [view_light]: "has r w \<Longrightarrow> view (send_looter c b g r w) = view w"
  unfolding send_looter_def by (rule with_party_view) (simp_all add: view_broadcast)

lemma view_send_empty_list [view_light]: "has r w \<Longrightarrow> view (send_empty_list r g w) = view w"
  unfolding send_empty_list_def by (rule with_party_view) simp_all

lemma view_homebind [simp, view_light]: "view (homebind_if_instance env g w) = view w"
  unfolding homebind_if_instance_def by (rule view_upd_pp_light) (simp add: player_view_def)

lemma view_set_leader_flag [simp, view_light]: "view (set_leader_flag b g w) = view w"
  unfolding set_leader_flag_def by (rule view_upd_pp_light) (simp add: player_view_def)

lemma view_opt_out [simp, view_light]: "view (handle_opt_out_of_loot g v w) = view w"
  unfolding handle_opt_out_of_loot_def by (rule view_upd_pp_light) (simp add: player_view_def)

lemma view_update_player [simp, view_light]: "view (update_player g q w) = view w"
  unfolding update_player_def by (rule view_upd_pp_light) (simp add: player_view_def)

lemma view_reset_enchanting [view_light]: "has r w \<Longrightarrow> view (reset_max_enchanting_level r w) = view w"
  unfolding reset_max_enchanting_level_def
  by (rule with_party_view) (auto intro!: view_upd_party_light simp: party_view_def)

lemma view_join_difficulties [view_light]: "has r w \<Longrightarrow> view (join_difficulties r g w) = view w"
  unfolding join_difficulties_def
  by (rule with_party_view) (auto simp: Let_def player_view_def view_upd_pp_light split: option.split)

lemma view_set_icon [view_light]: "has r w \<Longrightarrow> view (set_icon who tgt r i w) = view w"
  unfolding set_icon_def
proof -
  assume h: "has r w"
  have u: "view (upd_party r (\<lambda>p. p\<lparr>pa_icons := (pa_icons p)[i := tgt]\<rparr>) w) = view w"
    using h by (rule view_upd_party_light) (simp add: party_view_def)
  then show "view (broadcast MSG_RAID_TARGET_UPDATE [P8 0, P64 who, P8 (of_nat i), P64 tgt] True None 0 r
      (upd_party r (\<lambda>p. p\<lparr>pa_icons := (pa_icons p)[i := tgt]\<rparr>) w)) = view w"
    using h by (simp add: view_broadcast del: view_sel)
qed

lemma view_clear_icon [view_light]: "has r w \<Longrightarrow> view (clear_icon tgt r i w) = view w"
  unfolding clear_icon_def by (rule with_party_view) (auto simp del: view_sel intro!: view_set_icon)

lemma view_set_target_icon [view_light]: "has r w \<Longrightarrow> view (set_target_icon i who tgt r w) = view w"
proof -
  assume h: "has r w"
  have f: "view (fold (clear_icon tgt r) [0..<TARGETICONCOUNT] w) = view w"
    by (rule view_fold [where P = "\<lambda>V. G V r \<noteq> None"]) (use h in \<open>auto simp del: view_sel intro!: view_clear_icon\<close>)
  show ?thesis
    unfolding set_target_icon_def using f h by (simp add: view_set_icon del: view_sel)
qed

lemma view_send_target_icons [view_light]: "has r w \<Longrightarrow> view (send_target_icon_list g r w) = view w"
  unfolding send_target_icon_list_def by (rule with_party_view) simp_all

lemma slot_view_flags: "slot_view (m\<lparr>mb_flags := f\<rparr>) = slot_view m" "slot_view (m\<lparr>mb_roles := f\<rparr>) = slot_view m"
  "slot_view (toggle_flag fl b m) = slot_view m"
  by (simp_all add: slot_view_def toggle_flag_def)

lemma map_upd_first: "(\<And>x. h (f x) = h x) \<Longrightarrow> map h (upd_first P f xs) = map h xs"
  by (induction xs) auto

lemma upd_slot_light: "(\<And>m. slot_view (f m) = slot_view m) \<Longrightarrow> party_view (upd_slot g f p) = party_view p"
  by (simp add: party_view_def upd_slot_def map_upd_first)

lemma remove_unique_light [simp]: "party_view (remove_unique_flag fl p) = party_view p"
  by (auto simp: party_view_def remove_unique_flag_def slot_view_flags)

lemma view_remove_unique [view_light]: "has r w \<Longrightarrow> view (upd_party r (remove_unique_flag fl) w) = view w"
  by (rule view_upd_party_light) simp_all

lemma view_set_group_member_flag [view_light]: "has r w \<Longrightarrow> view (set_group_member_flag env g b fl r w) = view w"
  unfolding set_group_member_flag_def
proof (rule with_party_view)
  fix p assume h: "has r w" and p: "pw_groups w r = Some p"
  let ?w1 = "if fl = MEMBER_FLAG_ASSISTANT then w else upd_party r (remove_unique_flag fl) w"
  have 1: "view ?w1 = view w" using h by (simp add: view_remove_unique del: view_sel)
  let ?w2 = "upd_party r (upd_slot g (toggle_flag fl b)) ?w1"
  have 2: "view ?w2 = view w"
    using h 1 view_upd_party_light [where w = ?w1 and f = "upd_slot g (toggle_flag fl b)"]
    by (simp add: upd_slot_light slot_view_flags del: view_sel)
  let ?w3 = "with_party r (\<lambda>p. pw_emit (case get_slot p g of None \<Rightarrow> [] | Some m \<Rightarrow> [DbMemberFlags g (mb_flags m)])) ?w2"
  have 3: "view ?w3 = view w"
    by (rule with_party_view) (use h 2 in \<open>simp_all del: view_sel\<close>)
  have "view (send_update env r ?w3) = view w"
    using h 3 by (simp add: view_send_update del: view_sel)
  then show "view (if \<not> is_raid_group p \<or> \<not> is_member p g \<or> fl \<notin> {MEMBER_FLAG_MAINASSIST, MEMBER_FLAG_MAINTANK, MEMBER_FLAG_ASSISTANT} then w
     else let w1 = if fl = MEMBER_FLAG_ASSISTANT then w else upd_party r (remove_unique_flag fl) w;
              w2 = upd_party r (upd_slot g (toggle_flag fl b)) w1;
              w3 = with_party r (\<lambda>p. pw_emit (case get_slot p g of None \<Rightarrow> [] | Some m \<Rightarrow> [DbMemberFlags g (mb_flags m)])) w2
          in send_update env r w3) = view w"
    by (simp add: Let_def del: view_sel)
qed

end
