(* ===== verification/PartyLinks.thy ===== *)
theory PartyLinks
  imports PartyView
begin

text \<open>
  The links between players and groups on views: linking and unlinking keep the two ends of every
  reference together, and who is in which group (\<open>social\<close>) follows joining and leaving.
\<close>

section \<open>Operations on views\<close>

definition a_grp :: "nat \<Rightarrow> (pview \<Rightarrow> pview) \<Rightarrow> wview \<Rightarrow> wview" where
  "a_grp r F V = V\<lparr>G := (G V)(r := map_option F (G V r))\<rparr>"

definition a_pl :: "guid \<Rightarrow> (lview \<Rightarrow> lview) \<Rightarrow> wview \<Rightarrow> wview" where
  "a_pl g H V = V\<lparr>L := (L V)(g := map_option H (L V g))\<rparr>"

fun link_of :: "party_link \<Rightarrow> lview \<Rightarrow> (nat \<times> u8) option" where
  "link_of MainLink l = l_main l"
| "link_of OrigLink l = l_orig l"

fun put_link :: "party_link \<Rightarrow> (nat \<times> u8) option \<Rightarrow> lview \<Rightarrow> lview" where
  "put_link MainLink x l = l\<lparr>l_main := x\<rparr>"
| "put_link OrigLink x l = l\<lparr>l_orig := x\<rparr>"

definition drop_ref :: "guid \<Rightarrow> party_link \<Rightarrow> pview \<Rightarrow> pview" where
  "drop_ref g k P = P\<lparr>v_refs := filter (\<lambda>x. x \<noteq> (g, k)) (v_refs P)\<rparr>"

definition add_ref :: "guid \<Rightarrow> party_link \<Rightarrow> pview \<Rightarrow> pview" where
  "add_ref g k P = P\<lparr>v_refs := (g, k) # v_refs P\<rparr>"

definition a_link_of :: "party_link \<Rightarrow> guid \<Rightarrow> wview \<Rightarrow> (nat \<times> u8) option" where
  "a_link_of k g V = Option.bind (L V g) (link_of k)"

definition a_unlink :: "party_link \<Rightarrow> guid \<Rightarrow> wview \<Rightarrow> wview" where
  "a_unlink k g V =
     (case a_link_of k g V of None \<Rightarrow> V | Some (r, s) \<Rightarrow> a_pl g (put_link k None) (a_grp r (drop_ref g k) V))"

definition a_link :: "party_link \<Rightarrow> nat \<Rightarrow> u8 \<Rightarrow> guid \<Rightarrow> wview \<Rightarrow> wview" where
  "a_link k r s g V = a_grp r (add_ref g k) (a_pl g (put_link k (Some (r, s))) (a_unlink k g V))"

lemma a_grp_sel [simp]:
  "G (a_grp r F V) = (G V)(r := map_option F (G V r))" "L (a_grp r F V) = L V" "v_next (a_grp r F V) = v_next V"
  "v_ids (a_grp r F V) = v_ids V" "v_bgs (a_grp r F V) = v_bgs V" "v_loots (a_grp r F V) = v_loots V"
  "v_item (a_grp r F V) = v_item V" "v_fault (a_grp r F V) = v_fault V"
  by (simp_all add: a_grp_def)

lemma a_pl_sel [simp]:
  "L (a_pl g H V) = (L V)(g := map_option H (L V g))" "G (a_pl g H V) = G V" "v_next (a_pl g H V) = v_next V"
  "v_ids (a_pl g H V) = v_ids V" "v_bgs (a_pl g H V) = v_bgs V" "v_loots (a_pl g H V) = v_loots V"
  "v_item (a_pl g H V) = v_item V" "v_fault (a_pl g H V) = v_fault V"
  by (simp_all add: a_pl_def)

lemma put_link_sel [simp]:
  "link_of k (put_link k x l) = x" "l_inv (put_link k x l) = l_inv l"
  by (cases k; simp)+

lemma put_link_other [simp]: "k \<noteq> j \<Longrightarrow> link_of j (put_link k x l) = link_of j l"
  by (cases k; cases j; simp)

lemma ref_sel [simp]:
  "v_mem (drop_ref g k P) = v_mem P" "v_inv (drop_ref g k P) = v_inv P" "v_leader (drop_ref g k P) = v_leader P"
  "v_type (drop_ref g k P) = v_type P" "v_bg (drop_ref g k P) = v_bg P" "v_bf (drop_ref g k P) = v_bf P"
  "v_counts (drop_ref g k P) = v_counts P" "v_db (drop_ref g k P) = v_db P" "v_rolls (drop_ref g k P) = v_rolls P"
  "v_mem (add_ref g k P) = v_mem P" "v_inv (add_ref g k P) = v_inv P" "v_leader (add_ref g k P) = v_leader P"
  "v_type (add_ref g k P) = v_type P" "v_bg (add_ref g k P) = v_bg P" "v_bf (add_ref g k P) = v_bf P"
  "v_counts (add_ref g k P) = v_counts P" "v_db (add_ref g k P) = v_db P" "v_rolls (add_ref g k P) = v_rolls P"
  "v_refs (drop_ref g k P) = filter (\<lambda>x. x \<noteq> (g, k)) (v_refs P)" "v_refs (add_ref g k P) = (g, k) # v_refs P"
  by (simp_all add: drop_ref_def add_ref_def)

lemma a_unlink_L: "L (a_unlink k g V) = (L V)(g := map_option (put_link k None) (L V g))"
proof (cases "L V g")
  case (Some l)
  then show ?thesis
    by (cases k) (auto simp: a_unlink_def a_link_of_def split: option.split intro!: ext)
qed (auto simp: a_unlink_def a_link_of_def)

lemma a_unlink_G: "G (a_unlink k g V) q =
    (if map_option fst (a_link_of k g V) = Some q then map_option (drop_ref g k) (G V q) else G V q)"
  by (auto simp: a_unlink_def split: option.split)

lemma a_unlink_sel [simp]:
  "v_next (a_unlink k g V) = v_next V" "v_ids (a_unlink k g V) = v_ids V" "v_bgs (a_unlink k g V) = v_bgs V"
  "v_loots (a_unlink k g V) = v_loots V" "v_item (a_unlink k g V) = v_item V" "v_fault (a_unlink k g V) = v_fault V"
  by (simp_all add: a_unlink_def split: option.split)

lemma a_link_L: "L (a_link k r s g V) = (L V)(g := map_option (put_link k (Some (r, s))) (L V g))"
  by (cases k; cases "L V g") (auto simp: a_link_def a_unlink_L)

lemma a_link_G: "G (a_link k r s g V) q =
    (if q = r then map_option (add_ref g k) (G (a_unlink k g V) q) else G (a_unlink k g V) q)"
  by (simp add: a_link_def)

lemma a_link_sel [simp]:
  "v_next (a_link k r s g V) = v_next V" "v_ids (a_link k r s g V) = v_ids V" "v_bgs (a_link k r s g V) = v_bgs V"
  "v_loots (a_link k r s g V) = v_loots V" "v_item (a_link k r s g V) = v_item V" "v_fault (a_link k r s g V) = v_fault V"
  by (simp_all add: a_link_def)

lemma G_None_iff [simp]: "G (a_unlink k g V) q = None \<longleftrightarrow> G V q = None" "G (a_link k r s g V) q = None \<longleftrightarrow> G V q = None"
  by (simp_all add: a_unlink_G a_link_G)

section \<open>References\<close>

text \<open>The two ends of a reference agree.\<close>

definition refs_ok :: "wview \<Rightarrow> bool" where
  "refs_ok V \<longleftrightarrow>
     (\<forall>r P. G V r = Some P \<longrightarrow> distinct (v_refs P) \<and> (\<forall>g k. (g, k) \<in> set (v_refs P) \<longleftrightarrow> map_option fst (a_link_of k g V) = Some r))
   \<and> (\<forall>g k r s. a_link_of k g V = Some (r, s) \<longrightarrow> G V r \<noteq> None)"

lemma refs_ok_exists: "refs_ok V \<Longrightarrow> a_link_of k g V = Some (r, s) \<Longrightarrow> G V r \<noteq> None"
  unfolding refs_ok_def by blast

lemma refs_okD:
  "refs_ok V \<Longrightarrow> G V r = Some P \<Longrightarrow> distinct (v_refs P)"
  "refs_ok V \<Longrightarrow> G V r = Some P \<Longrightarrow> (g, k) \<in> set (v_refs P) \<longleftrightarrow> map_option fst (a_link_of k g V) = Some r"
  by (auto simp: refs_ok_def)

lemma a_unlink_link_of: "a_link_of j h (a_unlink k g V) = (if h = g \<and> j = k then None else a_link_of j h V)"
  by (cases "L V h") (auto simp: a_link_of_def a_unlink_L)

lemma a_link_link_of: "L V g \<noteq> None \<Longrightarrow> a_link_of j h (a_link k r s g V) = (if h = g \<and> j = k then Some (r, s) else a_link_of j h V)"
  by (cases "L V h") (auto simp: a_link_of_def a_link_L)

lemma refs_ok_unlink [simp]:
  assumes "refs_ok V"
  shows "refs_ok (a_unlink k g V)"
  unfolding refs_ok_def
proof (intro conjI allI impI)
  fix r P assume P: "G (a_unlink k g V) r = Some P"
  then obtain P0 where P0: "G V r = Some P0" "P = (if map_option fst (a_link_of k g V) = Some r then drop_ref g k P0 else P0)"
    by (auto simp: a_unlink_G split: if_splits)
  show "distinct (v_refs P)" using P0 refs_okD(1) [OF assms P0(1)] by auto
  show "(h, j) \<in> set (v_refs P) \<longleftrightarrow> map_option fst (a_link_of j h (a_unlink k g V)) = Some r" for h j
    using P0 refs_okD(2) [OF assms P0(1), of h j] by (auto simp: a_unlink_link_of)
next
  fix h j r s assume "a_link_of j h (a_unlink k g V) = Some (r, s)"
  then show "G (a_unlink k g V) r \<noteq> None" using refs_ok_exists [OF assms, of j h r s] by (auto simp: a_unlink_link_of split: if_splits)
qed

lemma refs_ok_link [simp]:
  assumes "refs_ok V" "G V r \<noteq> None" "L V g \<noteq> None"
  shows "refs_ok (a_link k r s g V)"
proof -
  let ?U = "a_unlink k g V"
  have U: "refs_ok ?U" using assms(1) by simp
  have gk: "a_link_of k g ?U = None" by (simp add: a_unlink_link_of)
  show ?thesis unfolding refs_ok_def
  proof (intro conjI allI impI)
    fix q P assume P: "G (a_link k r s g V) q = Some P"
    then obtain P0 where P0: "G ?U q = Some P0" "P = (if q = r then add_ref g k P0 else P0)"
      by (auto simp: a_link_G split: if_splits)
    have n: "(g, k) \<notin> set (v_refs P0)" using refs_okD(2) [OF U P0(1), of g k] gk by simp
    show "distinct (v_refs P)" using P0 refs_okD(1) [OF U P0(1)] n by auto
    show "(h, j) \<in> set (v_refs P) \<longleftrightarrow> map_option fst (a_link_of j h (a_link k r s g V)) = Some q" for h j
      using P0 refs_okD(2) [OF U P0(1), of h j] n assms(3) by (auto simp: a_link_link_of a_unlink_link_of)
  next
    fix h j q t assume "a_link_of j h (a_link k r s g V) = Some (q, t)"
    then show "G (a_link k r s g V) q \<noteq> None"
      using refs_ok_exists [OF assms(1), of j h q t] assms(2,3) by (auto simp: a_link_link_of split: if_splits)
  qed
qed

lemma refs_ok_grp: "refs_ok V \<Longrightarrow> (\<And>P. v_refs (F P) = v_refs P) \<Longrightarrow> refs_ok (a_grp r F V)"
  by (fastforce simp: refs_ok_def a_link_of_def)

lemma refs_ok_pl: "refs_ok V \<Longrightarrow> (\<And>l k. link_of k (H l) = link_of k l) \<Longrightarrow> refs_ok (a_pl g H V)"
proof -
  assume r: "refs_ok V" and H: "\<And>l k. link_of k (H l) = link_of k l"
  have "a_link_of k h (a_pl g H V) = a_link_of k h V" for k h
    using H by (cases "h = g"; cases "L V h") (auto simp: a_link_of_def)
  then show ?thesis using r by (simp add: refs_ok_def)
qed

text \<open>What links and unlinks leave.\<close>

definition bare :: "pview \<Rightarrow> pview" where "bare P = P\<lparr>v_refs := []\<rparr>"

definition same_bare :: "wview \<Rightarrow> wview \<Rightarrow> bool" where
  "same_bare V W \<longleftrightarrow>
     (\<forall>r. map_option bare (G V r) = map_option bare (G W r)) \<and> (\<forall>g. map_option l_inv (L V g) = map_option l_inv (L W g))
   \<and> v_next V = v_next W \<and> v_ids V = v_ids W \<and> v_bgs V = v_bgs W \<and> v_loots V = v_loots W \<and> v_item V = v_item W \<and> v_fault V = v_fault W"

lemma bare_ref [simp]: "bare (drop_ref g k P) = bare P" "bare (add_ref g k P) = bare P"
  by (simp_all add: bare_def drop_ref_def add_ref_def)

lemma same_bare_refl [simp]: "same_bare V V" by (simp add: same_bare_def)

lemma same_bare_trans: "same_bare U V \<Longrightarrow> same_bare V W \<Longrightarrow> same_bare U W" by (simp add: same_bare_def)

lemma same_bare_unlink [simp]: "same_bare V (a_unlink k g V)"
proof -
  have "map_option bare (G V r) = map_option bare (G (a_unlink k g V) r)" for r
    by (cases "G V r") (auto simp: a_unlink_G)
  moreover have "map_option l_inv (L V h) = map_option l_inv (L (a_unlink k g V) h)" for h
    by (cases "h = g"; cases "L V h") (auto simp: a_unlink_L)
  ultimately show ?thesis by (simp add: same_bare_def)
qed

lemma same_bare_link [simp]: "same_bare V (a_link k r s g V)"
proof -
  have "map_option bare (G V q) = map_option bare (G (a_link k r s g V) q)" for q
    by (cases "q = r"; cases "G V q") (auto simp: a_link_G a_unlink_G)
  moreover have "map_option l_inv (L V h) = map_option l_inv (L (a_link k r s g V) h)" for h
    by (cases "h = g"; cases "L V h") (auto simp: a_link_L)
  ultimately show ?thesis by (simp add: same_bare_def)
qed

section \<open>Links of the model as operations on views\<close>

lemma view_upd_party_at:
  assumes "pw_groups w r = Some p" "party_view (f p) = F (party_view p)"
  shows "view (upd_party r f w) = a_grp r F (view w)"
  using assms by (auto simp: view_def upd_party_def a_grp_def find_connected_def fun_eq_iff)

lemma view_upd_party [view_op]:
  assumes "has r w" "\<And>p. party_view (f p) = F (party_view p)"
  shows "view (upd_party r f w) = a_grp r F (view w)"
  using assms by (auto simp: view_def upd_party_def a_grp_def find_connected_def fun_eq_iff)

lemma view_upd_pp [view_op]:
  assumes "\<And>q. player_view (f q) = H (player_view q)"
  shows "view (upd_pp g f w) = a_pl g H (view w)"
  using assms by (auto simp: view_def a_pl_def find_connected_upd_pp fun_eq_iff option.map_comp o_def)
    (simp_all add: upd_pp_def)

lemma view_fault [view_op]: "view (fault w) = (view w)\<lparr>v_fault := True\<rparr>"
  by (simp add: view_def fault_def find_connected_def)

lemma a_link_of_view:
  "a_link_of MainLink g (view w) = (case find_connected w g of None \<Rightarrow> None | Some q \<Rightarrow> pp_group q)"
  "a_link_of OrigLink g (view w) = (case find_connected w g of None \<Rightarrow> None | Some q \<Rightarrow> pp_orig q)"
  by (simp_all add: a_link_of_def split: option.split)

lemma player_link_view:
  "player_group w g = map_option fst (a_link_of MainLink g (view w))" "player_original w g = map_option fst (a_link_of OrigLink g (view w))"
  by (simp_all add: a_link_of_view player_group_def player_original_def split: option.split)

lemma view_unlink_main [view_op]: "refs_ok (view w) \<Longrightarrow> view (unlink_main g w) = a_unlink MainLink g (view w)"
proof -
  assume r: "refs_ok (view w)"
  show ?thesis
  proof (cases "a_link_of MainLink g (view w)")
    case None
    then show ?thesis by (simp add: unlink_main_def a_unlink_def player_link_view)
  next
    case (Some x)
    obtain q s where x: "x = (q, s)" by (cases x)
    have q: "has q w" using refs_ok_exists [OF r] Some x by blast
    have "view (upd_party q (\<lambda>p. p\<lparr>pa_refs := filter (\<lambda>y. y \<noteq> (g, MainLink)) (pa_refs p)\<rparr>) w) = a_grp q (drop_ref g MainLink) (view w)"
      using q by (rule view_upd_party) (simp add: party_view_def drop_ref_def)
    moreover have "view (upd_pp g (\<lambda>p. p\<lparr>pp_group := None\<rparr>) u) = a_pl g (put_link MainLink None) (view u)" for u
      by (rule view_upd_pp) (simp add: player_view_def)
    ultimately show ?thesis using Some x by (simp add: unlink_main_def a_unlink_def player_link_view del: view_sel)
  qed
qed

lemma view_unlink_original [view_op]: "refs_ok (view w) \<Longrightarrow> view (unlink_original g w) = a_unlink OrigLink g (view w)"
proof -
  assume r: "refs_ok (view w)"
  show ?thesis
  proof (cases "a_link_of OrigLink g (view w)")
    case None
    then show ?thesis by (simp add: unlink_original_def a_unlink_def player_link_view)
  next
    case (Some x)
    obtain q s where x: "x = (q, s)" by (cases x)
    have q: "has q w" using refs_ok_exists [OF r] Some x by blast
    have "view (upd_party q (\<lambda>p. p\<lparr>pa_refs := filter (\<lambda>y. y \<noteq> (g, OrigLink)) (pa_refs p)\<rparr>) w) = a_grp q (drop_ref g OrigLink) (view w)"
      using q by (rule view_upd_party) (simp add: party_view_def drop_ref_def)
    moreover have "view (upd_pp g (\<lambda>p. p\<lparr>pp_orig := None\<rparr>) u) = a_pl g (put_link OrigLink None) (view u)" for u
      by (rule view_upd_pp) (simp add: player_view_def)
    ultimately show ?thesis using Some x by (simp add: unlink_original_def a_unlink_def player_link_view del: view_sel)
  qed
qed

lemma view_link_main [view_op]:
  "refs_ok (view w) \<Longrightarrow> has r w \<Longrightarrow> view (link_main r s g w) = a_link MainLink r s g (view w)"
proof -
  assume r: "refs_ok (view w)" and h: "has r w"
  let ?w1 = "upd_pp g (\<lambda>p. p\<lparr>pp_group := Some (r, s)\<rparr>) (unlink_main g w)"
  have 1: "view ?w1 = a_pl g (put_link MainLink (Some (r, s))) (a_unlink MainLink g (view w))"
    by (subst view_upd_pp [where H = "put_link MainLink (Some (r, s))"])
       (simp_all add: player_view_def view_unlink_main [OF r] del: view_sel)
  have "has r ?w1" unfolding 1 using h by (simp del: view_sel)
  then have "view (link_main r s g w) = a_grp r (add_ref g MainLink) (view ?w1)"
    unfolding link_main_def by (rule view_upd_party) (simp add: party_view_def add_ref_def)
  then show ?thesis unfolding 1 by (simp add: a_link_def)
qed

lemma view_link_original [view_op]:
  "refs_ok (view w) \<Longrightarrow> has r w \<Longrightarrow> view (link_original r s g w) = a_link OrigLink r s g (view w)"
proof -
  assume r: "refs_ok (view w)" and h: "has r w"
  let ?w1 = "upd_pp g (\<lambda>p. p\<lparr>pp_orig := Some (r, s)\<rparr>) (unlink_original g w)"
  have 1: "view ?w1 = a_pl g (put_link OrigLink (Some (r, s))) (a_unlink OrigLink g (view w))"
    by (subst view_upd_pp [where H = "put_link OrigLink (Some (r, s))"])
       (simp_all add: player_view_def view_unlink_original [OF r] del: view_sel)
  have "has r ?w1" unfolding 1 using h by (simp del: view_sel)
  then have "view (link_original r s g w) = a_grp r (add_ref g OrigLink) (view ?w1)"
    unfolding link_original_def by (rule view_upd_party) (simp add: party_view_def add_ref_def)
  then show ?thesis unfolding 1 by (simp add: a_link_def)
qed

lemma subgroup_assert_ok [simp]: "s < 0x80 \<Longrightarrow> subgroup_assert s w = w" by (simp add: subgroup_assert_def)

lemma view_set_group [view_op]:
  "refs_ok (view w) \<Longrightarrow> view (set_group None g w) = a_unlink MainLink g (view w)"
  "refs_ok (view w) \<Longrightarrow> has r w \<Longrightarrow> s < 0x80 \<Longrightarrow> view (set_group (Some (r, s)) g w) = a_link MainLink r s g (view w)"
  "refs_ok (view w) \<Longrightarrow> view (set_original_group None g w) = a_unlink OrigLink g (view w)"
  "refs_ok (view w) \<Longrightarrow> has r w \<Longrightarrow> s < 0x80 \<Longrightarrow> view (set_original_group (Some (r, s)) g w) = a_link OrigLink r s g (view w)"
  by (simp_all add: set_group_def set_original_group_def view_op del: view_sel)

end
