(* ===== verification/PartyInv.thy ===== *)
theory PartyInv
  imports PartyLinks
begin

text \<open>
  The invariant of the groups on views: members, subgroup counters, links, invitations, storage ids and
  rolls, and how the operations on views keep it.
\<close>

section \<open>Who is where\<close>

text \<open>
  \<open>B g r s\<close>: \<open>g\<close> is a member of \<open>r\<close> in its subgroup \<open>s\<close>; \<open>K r\<close>: it is the raid of a battleground. A
  player that exists is a member of exactly what he links to; one that does not exist is in one group and
  in the raid of one battleground at most.
\<close>

definition social :: "(guid \<Rightarrow> nat \<Rightarrow> u8 \<Rightarrow> bool) \<Rightarrow> (nat \<Rightarrow> bool) \<Rightarrow> (guid \<Rightarrow> lview option) \<Rightarrow> bool" where
  "social B K Ls \<longleftrightarrow>
     (\<forall>g l r s. Ls g = Some l \<longrightarrow> (B g r s \<longleftrightarrow> l_main l = Some (r, s) \<or> l_orig l = Some (r, s)))
   \<and> (\<forall>g l r s. Ls g = Some l \<and> l_orig l = Some (r, s) \<longrightarrow> \<not> K r \<and> (\<exists>q t. l_main l = Some (q, t) \<and> K q))
   \<and> (\<forall>g l. Ls g = Some l \<and> l_inv l \<noteq> None \<longrightarrow> l_orig l = None \<and> (\<forall>r s. l_main l = Some (r, s) \<longrightarrow> K r))
   \<and> (\<forall>g r s. Ls g = None \<and> B g r s \<longrightarrow> (\<forall>q t. B g q t \<and> (K q \<longleftrightarrow> K r) \<longrightarrow> q = r \<and> t = s))"

lemma socialD:
  assumes "social B K Ls"
  shows "Ls g = Some l \<Longrightarrow> B g r s \<longleftrightarrow> l_main l = Some (r, s) \<or> l_orig l = Some (r, s)"
    "Ls g = Some l \<Longrightarrow> l_orig l = Some (r, s) \<Longrightarrow> \<not> K r \<and> (\<exists>q t. l_main l = Some (q, t) \<and> K q)"
    "Ls g = Some l \<Longrightarrow> l_inv l = Some i \<Longrightarrow> l_orig l = None \<and> (\<forall>r s. l_main l = Some (r, s) \<longrightarrow> K r)"
    "Ls g = None \<Longrightarrow> B g r s \<Longrightarrow> B g q t \<Longrightarrow> (K q \<longleftrightarrow> K r) \<Longrightarrow> q = r \<and> t = s"
  using assms unfolding social_def by blast+

text \<open>Only the player \<open>g\<close> changes.\<close>

lemma social_one:
  assumes "social B K Ls" "\<And>h r s. h \<noteq> g \<Longrightarrow> B' h r s = B h r s" "\<And>h. h \<noteq> g \<Longrightarrow> Ls' h = Ls h"
    "\<And>l. Ls' g = Some l \<Longrightarrow> \<forall>r s. B' g r s \<longleftrightarrow> l_main l = Some (r, s) \<or> l_orig l = Some (r, s)"
    "\<And>l r s. Ls' g = Some l \<Longrightarrow> l_orig l = Some (r, s) \<Longrightarrow> \<not> K r \<and> (\<exists>q t. l_main l = Some (q, t) \<and> K q)"
    "\<And>l i. Ls' g = Some l \<Longrightarrow> l_inv l = Some i \<Longrightarrow> l_orig l = None \<and> (\<forall>r s. l_main l = Some (r, s) \<longrightarrow> K r)"
    "\<And>r s q t. Ls' g = None \<Longrightarrow> B' g r s \<Longrightarrow> B' g q t \<Longrightarrow> (K q \<longleftrightarrow> K r) \<Longrightarrow> q = r \<and> t = s"
  shows "social B' K Ls'"
  unfolding social_def
proof (intro conjI allI impI)
  fix h l r s assume l: "Ls' h = Some l"
  show "B' h r s \<longleftrightarrow> l_main l = Some (r, s) \<or> l_orig l = Some (r, s)"
    using assms(2,3,4) l socialD(1) [OF assms(1), of h l r s] by (cases "h = g") auto
next
  fix h l r s assume l: "Ls' h = Some l \<and> l_orig l = Some (r, s)"
  show "\<not> K r" using assms(3,5) l socialD(2) [OF assms(1), of h l r s] by (cases "h = g") auto
  show "\<exists>q t. l_main l = Some (q, t) \<and> K q" using assms(3,5) l socialD(2) [OF assms(1), of h l r s] by (cases "h = g") auto
next
  fix h l assume l: "Ls' h = Some l \<and> l_inv l \<noteq> None"
  then obtain i where i: "l_inv l = Some i" by blast
  show "l_orig l = None" using assms(3,6) l i socialD(3) [OF assms(1), of h l i] by (cases "h = g") auto
  show "K r" if "l_main l = Some (r, s)" for r s
    using assms(3,6) l i that socialD(3) [OF assms(1), of h l i] by (cases "h = g") auto
next
  fix h r s assume h: "Ls' h = None \<and> B' h r s"
  show "q = r" "t = s" if q: "B' h q t \<and> (K q \<longleftrightarrow> K r)" for q t
  proof -
    have "q = r \<and> t = s"
    proof (cases "h = g")
      case True
      then show ?thesis using assms(7) [of r s q t] h q by blast
    next
      case False
      then show ?thesis using socialD(4) [OF assms(1), of h r s q t] assms(2,3) h q by simp
    qed
    then show "q = r" "t = s" by simp_all
  qed
qed

definition plus_mem :: "guid \<Rightarrow> nat \<Rightarrow> u8 \<Rightarrow> (guid \<Rightarrow> nat \<Rightarrow> u8 \<Rightarrow> bool) \<Rightarrow> guid \<Rightarrow> nat \<Rightarrow> u8 \<Rightarrow> bool" where
  "plus_mem g r s B h q t \<longleftrightarrow> B h q t \<or> h = g \<and> q = r \<and> t = s"

definition minus_mem :: "guid \<Rightarrow> nat \<Rightarrow> (guid \<Rightarrow> nat \<Rightarrow> u8 \<Rightarrow> bool) \<Rightarrow> guid \<Rightarrow> nat \<Rightarrow> u8 \<Rightarrow> bool" where
  "minus_mem g r B h q t \<longleftrightarrow> B h q t \<and> \<not> (h = g \<and> q = r)"

text \<open>Joining: the link of a player without one, the main link moved aside for a battleground, or the link beside it.\<close>

lemma social_join_main:
  assumes "social B K Ls" "Ls g = Some l" "l_main l = None"
  shows "social (plus_mem g r s B) K (Ls(g \<mapsto> l\<lparr>l_main := Some (r, s), l_inv := None\<rparr>))"
proof -
  have "l_orig l = None" using socialD(2) [OF assms(1,2)] assms(3) by (cases "l_orig l") auto
  then show ?thesis
    by (intro social_one [OF assms(1), of g]) (use socialD(1) [OF assms(1,2)] assms(3) in \<open>auto simp: plus_mem_def\<close>)
qed

lemma social_join_bg:
  assumes "social B K Ls" "Ls g = Some l" "l_main l = Some (q, t)" "\<not> K q" "K r"
  shows "social (plus_mem g r s B) K (Ls(g \<mapsto> l\<lparr>l_main := Some (r, s), l_orig := Some (q, t), l_inv := None\<rparr>))"
proof -
  have "l_orig l = None" using socialD(2) [OF assms(1,2)] assms(3,4) by (cases "l_orig l") auto
  then show ?thesis
    by (intro social_one [OF assms(1), of g]) (use socialD(1) [OF assms(1,2)] assms(3-5) in \<open>auto simp: plus_mem_def\<close>)
qed

lemma social_join_orig:
  assumes "social B K Ls" "Ls g = Some l" "l_main l = Some (q, t)" "K q" "l_orig l = None" "\<not> K r"
  shows "social (plus_mem g r s B) K (Ls(g \<mapsto> l\<lparr>l_orig := Some (r, s), l_inv := None\<rparr>))"
  by (intro social_one [OF assms(1), of g]) (use socialD(1) [OF assms(1,2)] assms(3-6) in \<open>auto simp: plus_mem_def\<close>)

text \<open>Leaving\<close>

lemma social_leave_main:
  assumes "social B K Ls" "Ls g = Some l" "l_main l = Some (r, s)" "\<not> K r"
  shows "social (minus_mem g r B) K (Ls(g \<mapsto> l\<lparr>l_main := None\<rparr>))"
proof -
  have "l_orig l = None" using socialD(2) [OF assms(1,2)] assms(3,4) by (cases "l_orig l") auto
  then show ?thesis
    by (intro social_one [OF assms(1), of g]) (use socialD(1) [OF assms(1,2)] assms(3,4) in \<open>auto simp: minus_mem_def\<close>)
qed

lemma social_leave_orig:
  assumes "social B K Ls" "Ls g = Some l" "l_orig l = Some (r, s)"
  shows "social (minus_mem g r B) K (Ls(g \<mapsto> l\<lparr>l_orig := None\<rparr>))"
proof -
  obtain q t where "l_main l = Some (q, t)" "K q" "\<not> K r" using socialD(2) [OF assms] by blast
  then show ?thesis
    by (intro social_one [OF assms(1), of g]) (use socialD(1,3) [OF assms(1,2)] assms(3) in \<open>auto simp: minus_mem_def\<close>)
qed

lemma social_leave_bg:
  assumes "social B K Ls" "Ls g = Some l" "l_main l = Some (r, s)" "K r"
  shows "social (minus_mem g r B) K (Ls(g \<mapsto> l\<lparr>l_main := l_orig l, l_orig := None\<rparr>))"
proof -
  have B: "B g q t \<longleftrightarrow> Some (r, s) = Some (q, t) \<or> l_orig l = Some (q, t)" for q t
    using socialD(1) [OF assms(1,2), of q t] assms(3) by simp
  have k: "\<not> K q" if "l_orig l = Some (q, t)" for q t using socialD(2) [OF assms(1,2) that] by blast
  have o: "l_orig l = None" if "l_inv l = Some i" for i using socialD(3) [OF assms(1,2) that] by blast
  show ?thesis
  proof (intro social_one [OF assms(1), of g])
    fix l' assume l': "(Ls(g \<mapsto> l\<lparr>l_main := l_orig l, l_orig := None\<rparr>)) g = Some l'"
    have s: "l_main l' = l_orig l" "l_orig l' = None" "l_inv l' = l_inv l" using l' by auto
    show "\<forall>q t. minus_mem g r B g q t \<longleftrightarrow> l_main l' = Some (q, t) \<or> l_orig l' = Some (q, t)"
    proof (intro allI)
      fix q t
      show "minus_mem g r B g q t \<longleftrightarrow> l_main l' = Some (q, t) \<or> l_orig l' = Some (q, t)"
        unfolding s minus_mem_def B using k [of q t] assms(4) by auto
    qed
    show "l_orig l' = None \<and> (\<forall>q t. l_main l' = Some (q, t) \<longrightarrow> K q)" if "l_inv l' = Some i" for i
      using s o [of i] that by simp
  qed (auto simp: minus_mem_def)
qed

lemma social_leave_off: "social B K Ls \<Longrightarrow> Ls g = None \<Longrightarrow> social (minus_mem g r B) K Ls"
proof (rule social_one [of B K Ls g])
  assume a: "social B K Ls" "Ls g = None"
  show "u = q \<and> v = t" if "minus_mem g r B g q t" "minus_mem g r B g u v" "K u \<longleftrightarrow> K q" for q t u v
    using socialD(4) [OF a, of q t u v] that unfolding minus_mem_def by blast
qed (auto simp: minus_mem_def)

lemma social_cong:
  assumes "social B K Ls" "\<And>g r s. B g r s \<Longrightarrow> K' r = K r"
  shows "social B K' Ls"
  unfolding social_def
proof (intro conjI allI impI)
  fix g l r s assume l: "Ls g = Some l"
  show "B g r s \<longleftrightarrow> l_main l = Some (r, s) \<or> l_orig l = Some (r, s)" using socialD(1) [OF assms(1) l] .
next
  fix g l r s assume l: "Ls g = Some l \<and> l_orig l = Some (r, s)"
  then obtain q t where q: "l_main l = Some (q, t)" "K q" "\<not> K r" using socialD(2) [OF assms(1), of g l r s] by blast
  have "B g q t" "B g r s" using socialD(1) [OF assms(1)] l q by blast+
  then show "\<not> K' r" "\<exists>q t. l_main l = Some (q, t) \<and> K' q" using q assms(2) by blast+
next
  fix g l assume l: "Ls g = Some l \<and> l_inv l \<noteq> None"
  then obtain i where i: "l_inv l = Some i" by blast
  note d = socialD(3) [OF assms(1) conjunct1 [OF l] i]
  show "l_orig l = None" using d by blast
  show "K' r" if m: "l_main l = Some (r, s)" for r s
  proof -
    have "B g r s" using socialD(1) [OF assms(1)] l m by blast
    then show ?thesis using d m assms(2) by blast
  qed
next
  fix g r s assume h: "Ls g = None \<and> B g r s"
  note d = socialD(4) [OF assms(1) conjunct1 [OF h] conjunct2 [OF h]]
  show "q = r" "t = s" if "B g q t \<and> (K' q \<longleftrightarrow> K' r)" for q t using d [of q t] that h assms(2) by blast+
qed

lemma social_new_player:
  assumes "social B K Ls" "Ls g = None" "l_inv l = None" "\<And>r s. B g r s \<longleftrightarrow> l_main l = Some (r, s) \<or> l_orig l = Some (r, s)"
    "\<And>r s. l_orig l = Some (r, s) \<Longrightarrow> \<not> K r \<and> (\<exists>q t. l_main l = Some (q, t) \<and> K q)"
  shows "social B K (Ls(g \<mapsto> l))"
  by (intro social_one [OF assms(1), of g]) (use assms in auto)

lemma social_gone:
  assumes "social B K Ls" "Ls g = Some l"
  shows "social B K (Ls(g := None))"
proof (intro social_one [OF assms(1), of g])
  fix r s q t assume b: "B g r s" "B g q t" "K q \<longleftrightarrow> K r"
  have "l_main l = Some (r, s) \<or> l_orig l = Some (r, s)" "l_main l = Some (q, t) \<or> l_orig l = Some (q, t)"
    using socialD(1) [OF assms(1,2)] b(1,2) by blast+
  then show "q = r \<and> t = s" using socialD(2) [OF assms(1,2)] b(3) by fastforce
qed auto

lemma social_invite:
  assumes "social B K Ls" "Ls g = Some l" "i \<noteq> None \<Longrightarrow> l_orig l = None \<and> (\<forall>r s. l_main l = Some (r, s) \<longrightarrow> K r)"
  shows "social B K (Ls(g \<mapsto> l\<lparr>l_inv := i\<rparr>))"
  by (intro social_one [OF assms(1), of g]) (use assms socialD(1,2) [OF assms(1,2)] in auto)

definition move_mem :: "guid \<Rightarrow> nat \<Rightarrow> u8 \<Rightarrow> (guid \<Rightarrow> nat \<Rightarrow> u8 \<Rightarrow> bool) \<Rightarrow> guid \<Rightarrow> nat \<Rightarrow> u8 \<Rightarrow> bool" where
  "move_mem g r t B h q u \<longleftrightarrow> (if h = g \<and> q = r then u = t else B h q u)"

lemma social_move_main:
  assumes "social B K Ls" "Ls g = Some l" "l_main l = Some (r, s)"
  shows "social (move_mem g r t B) K (Ls(g \<mapsto> l\<lparr>l_main := Some (r, t)\<rparr>))"
proof -
  have "q \<noteq> r" if "l_orig l = Some (q, u)" for q u using socialD(2) [OF assms(1,2) that] assms(3) by auto
  then show ?thesis
    by (intro social_one [OF assms(1), of g])
       (use socialD(1) [OF assms(1,2)] socialD(2,3) [OF assms(1,2)] assms(3) in \<open>auto simp: move_mem_def\<close>)
qed

lemma social_move_orig:
  assumes "social B K Ls" "Ls g = Some l" "l_orig l = Some (r, s)"
  shows "social (move_mem g r t B) K (Ls(g \<mapsto> l\<lparr>l_orig := Some (r, t)\<rparr>))"
proof -
  have "q \<noteq> r" if "l_main l = Some (q, u)" for q u using socialD(2) [OF assms(1,2,3)] that by auto
  then show ?thesis
    by (intro social_one [OF assms(1), of g])
       (use socialD(1) [OF assms(1,2)] socialD(2,3) [OF assms(1,2)] assms(3) in \<open>auto simp: move_mem_def\<close>)
qed

lemma social_move_off:
  assumes "social B K Ls" "Ls g = None" "B g r s"
  shows "social (move_mem g r t B) K Ls"
  by (intro social_one [OF assms(1), of g]) (use socialD(4) [OF assms(1,2)] assms(2,3) in \<open>auto simp: move_mem_def split: if_splits\<close>)

section \<open>The invariant\<close>

definition mem_of :: "wview \<Rightarrow> guid \<Rightarrow> nat \<Rightarrow> u8 \<Rightarrow> bool" where
  "mem_of V g r s \<longleftrightarrow> (\<exists>P. G V r = Some P \<and> (g, s) \<in> set (v_mem P))"

definition bg_of :: "wview \<Rightarrow> nat \<Rightarrow> bool" where
  "bg_of V r \<longleftrightarrow> (\<exists>P. G V r = Some P \<and> v_bg P \<noteq> None)"

definition invites_ok :: "wview \<Rightarrow> bool" where
  "invites_ok V \<longleftrightarrow>
     (\<forall>r P. G V r = Some P \<longrightarrow> os_inv (v_inv P) \<and> (\<forall>g. g \<in> set (v_inv P) \<longleftrightarrow> (\<exists>l. L V g = Some l \<and> l_inv l = Some r)))
   \<and> (\<forall>g l r. L V g = Some l \<and> l_inv l = Some r \<longrightarrow> G V r \<noteq> None)"

text \<open>One group: every member once, the counters those of the subgroups, none over its size.\<close>

definition in_sub :: "u8 \<Rightarrow> (guid \<times> u8) list \<Rightarrow> nat" where
  "in_sub s ms = length (filter (\<lambda>m. snd m = s) ms)"

definition raid_view :: "pview \<Rightarrow> bool" where "raid_view P \<longleftrightarrow> v_type P AND GROUPTYPE_RAID \<noteq> 0"

definition counts_ok :: "u8 list \<Rightarrow> (guid \<times> u8) list \<Rightarrow> bool" where
  "counts_ok cs ms \<longleftrightarrow> length cs = MAX_RAID_SUBGROUPS \<and> (\<forall>i < MAX_RAID_SUBGROUPS. unat (cs ! i) = in_sub (of_nat i) ms \<and> unat (cs ! i) \<le> MAXGROUPSIZE)"

definition shape_ok :: "pview \<Rightarrow> bool" where
  "shape_ok P \<longleftrightarrow>
     distinct (map fst (v_mem P)) \<and> (\<forall>m \<in> set (v_mem P). unat (snd m) < MAX_RAID_SUBGROUPS)
   \<and> (if raid_view P then (\<exists>cs. v_counts P = Some cs \<and> counts_ok cs (v_mem P))
      else v_counts P = None \<and> (\<forall>m \<in> set (v_mem P). snd m = 0) \<and> length (v_mem P) \<le> MAXGROUPSIZE)
   \<and> \<not> v_bf P \<and> v_type P AND GROUPTYPE_LFG = 0 \<and> (v_bg P \<noteq> None \<longrightarrow> raid_view P \<or> v_mem P = [])"

text \<open>
  A group with members has its leader among them and, outside of battlegrounds, two members at least; the raid
  of a battleground invites nobody.
\<close>

definition size_ok :: "pview \<Rightarrow> bool" where
  "size_ok P \<longleftrightarrow>
     (if v_mem P = [] then v_bg P = None \<and> \<not> raid_view P \<and> (v_inv P \<noteq> [] \<longrightarrow> v_leader P \<in> set (v_inv P))
      else v_leader P \<in> fst ` set (v_mem P) \<and> (if v_bg P = None then 2 \<le> length (v_mem P) else v_inv P = []))"

definition bgs_ok :: "wview \<Rightarrow> bool" where
  "bgs_ok V \<longleftrightarrow> (\<forall>k r. v_bgs V k = Some r \<longleftrightarrow> (\<exists>P. G V r = Some P \<and> v_bg P = Some k))"

definition stored :: "pview \<Rightarrow> bool" where "stored P \<longleftrightarrow> v_mem P \<noteq> [] \<and> v_bg P = None"

text \<open>\<open>Y\<close>: the groups that are registered before their first member joins.\<close>

definition ids_ok :: "nat set \<Rightarrow> wview \<Rightarrow> bool" where
  "ids_ok Y V \<longleftrightarrow> db_ok (v_ids V)
     \<and> (\<forall>i r. group_by_db_id (v_ids V) i = Some r \<longleftrightarrow> (\<exists>P. G V r = Some P \<and> (stored P \<or> r \<in> Y) \<and> v_db P = i))"

definition item_guid :: "guid_generator \<Rightarrow> guid \<Rightarrow> bool" where
  "item_guid s g \<longleftrightarrow> (\<exists>c. g = guid_global HItem c \<and> c < next_guid s)"

definition rolls_ok :: "wview \<Rightarrow> pview \<Rightarrow> bool" where
  "rolls_ok V P \<longleftrightarrow> distinct (map fst (v_rolls P))
     \<and> (\<forall>(g, lo, s) \<in> set (v_rolls P). item_guid (v_item V) g
          \<and> (\<forall>l a b. lo = Some l \<and> v_loots V l = Some (a, b) \<longrightarrow> unat s < a + b))"

definition basic_ok :: "wview \<Rightarrow> bool" where
  "basic_ok V \<longleftrightarrow> refs_ok V \<and> invites_ok V \<and> bgs_ok V \<and> (\<forall>r. v_next V \<le> r \<longrightarrow> G V r = None) \<and> \<not> v_fault V
     \<and> (\<forall>r P. G V r = Some P \<longrightarrow> shape_ok P \<and> rolls_ok V P)"

text \<open>\<open>X\<close>: the groups being made or left, whose size need not be right yet.\<close>

definition parties_x :: "nat set \<Rightarrow> nat set \<Rightarrow> wview \<Rightarrow> bool" where
  "parties_x X Y V \<longleftrightarrow> basic_ok V \<and> social (mem_of V) (bg_of V) (L V) \<and> ids_ok Y V
     \<and> (\<forall>r P. G V r = Some P \<longrightarrow> size_ok P \<or> r \<in> X)"

abbreviation parties_ok :: "wview \<Rightarrow> bool" where "parties_ok \<equiv> parties_x {} {}"

lemma basic_okD:
  assumes "basic_ok V"
  shows "refs_ok V" "invites_ok V" "bgs_ok V" "v_next V \<le> r \<Longrightarrow> G V r = None" "\<not> v_fault V"
    "G V r = Some P \<Longrightarrow> shape_ok P" "G V r = Some P \<Longrightarrow> rolls_ok V P"
  using assms by (auto simp: basic_ok_def)

lemma parties_xD:
  assumes "parties_x X Y V"
  shows "basic_ok V" "social (mem_of V) (bg_of V) (L V)" "ids_ok Y V" "G V r = Some P \<Longrightarrow> r \<notin> X \<Longrightarrow> size_ok P"
  using assms by (auto simp: parties_x_def)

text \<open>The invariant with the memberships given apart from the lists of members.\<close>

definition parties_b :: "nat set \<Rightarrow> nat set \<Rightarrow> (guid \<Rightarrow> nat \<Rightarrow> u8 \<Rightarrow> bool) \<Rightarrow> wview \<Rightarrow> bool" where
  "parties_b X Y B V \<longleftrightarrow> basic_ok V \<and> social B (bg_of V) (L V) \<and> ids_ok Y V \<and> (\<forall>r P. G V r = Some P \<longrightarrow> size_ok P \<or> r \<in> X)"

lemma parties_x_b: "parties_x X Y V \<longleftrightarrow> parties_b X Y (mem_of V) V"
  by (simp add: parties_x_def parties_b_def)

lemma parties_bD:
  assumes "parties_b X Y B V"
  shows "basic_ok V" "social B (bg_of V) (L V)" "ids_ok Y V" "G V r = Some P \<Longrightarrow> r \<notin> X \<Longrightarrow> size_ok P"
  using assms by (auto simp: parties_b_def)

section \<open>Links leave the rest\<close>

lemma bareE: "map_option bare x = map_option bare y \<Longrightarrow> y = Some P' \<Longrightarrow> \<exists>P. x = Some P \<and> bare P = bare P'"
  by (cases x) auto

lemma bare_eqD:
  assumes "bare P = bare Q"
  shows "v_mem P = v_mem Q" "v_inv P = v_inv Q" "v_leader P = v_leader Q" "v_type P = v_type Q" "v_bg P = v_bg Q" "v_bf P = v_bf Q"
    "v_counts P = v_counts Q" "v_db P = v_db Q" "v_rolls P = v_rolls Q"
  using assms by (cases P; cases Q; simp add: bare_def)+

lemma same_bare_sym: "same_bare V W \<Longrightarrow> same_bare W V"
  by (simp add: same_bare_def)

lemma same_bareD:
  assumes "same_bare V W"
  shows "G W r = Some P' \<Longrightarrow> \<exists>P. G V r = Some P \<and> bare P = bare P'"
    "L W g = Some l' \<Longrightarrow> \<exists>l. L V g = Some l \<and> l_inv l = l_inv l'"
proof -
  assume "G W r = Some P'"
  moreover have "map_option bare (G V r) = map_option bare (G W r)" using assms by (simp add: same_bare_def)
  ultimately show "\<exists>P. G V r = Some P \<and> bare P = bare P'" using bareE by metis
next
  assume "L W g = Some l'"
  moreover have "map_option l_inv (L V g) = map_option l_inv (L W g)" using assms by (simp add: same_bare_def)
  ultimately show "\<exists>l. L V g = Some l \<and> l_inv l = l_inv l'" by (cases "L V g") auto
qed

lemma mem_of_bare: "same_bare V W \<Longrightarrow> mem_of W = mem_of V"
proof -
  have m: "mem_of W g r s" if s: "same_bare V W" and m: "mem_of V g r s" for V W g r s
  proof -
    obtain P where P: "G V r = Some P" "(g, s) \<in> set (v_mem P)" using m by (auto simp: mem_of_def)
    obtain Q where Q: "G W r = Some Q" "bare Q = bare P" using same_bareD(1) [OF same_bare_sym [OF s] P(1)] by blast
    show ?thesis using P(2) Q(1) bare_eqD(1) [OF Q(2)] by (auto simp: mem_of_def)
  qed
  assume "same_bare V W"
  then show ?thesis using m same_bare_sym by (intro ext) blast
qed

lemma bg_of_bare: "same_bare V W \<Longrightarrow> bg_of W = bg_of V"
proof -
  have m: "bg_of W r" if s: "same_bare V W" and m: "bg_of V r" for V W r
  proof -
    obtain P where P: "G V r = Some P" "v_bg P \<noteq> None" using m by (auto simp: bg_of_def)
    obtain Q where Q: "G W r = Some Q" "bare Q = bare P" using same_bareD(1) [OF same_bare_sym [OF s] P(1)] by blast
    show ?thesis using P(2) Q(1) bare_eqD(5) [OF Q(2)] by (auto simp: bg_of_def)
  qed
  assume "same_bare V W"
  then show ?thesis using m same_bare_sym by (intro ext) blast
qed

lemma shape_ok_bare: "bare P = bare Q \<Longrightarrow> shape_ok P = shape_ok Q"
  using bare_eqD [of P Q] by (simp add: shape_ok_def raid_view_def)

lemma size_ok_bare: "bare P = bare Q \<Longrightarrow> size_ok P = size_ok Q"
  using bare_eqD [of P Q] by (simp add: size_ok_def raid_view_def)

lemma stored_bare: "bare P = bare Q \<Longrightarrow> stored P = stored Q"
  using bare_eqD [of P Q] by (simp add: stored_def)

lemma same_bare_sel:
  assumes "same_bare V W"
  shows "v_next W = v_next V" "v_ids W = v_ids V" "v_bgs W = v_bgs V" "v_loots W = v_loots V" "v_item W = v_item V" "v_fault W = v_fault V"
  using assms by (simp_all add: same_bare_def)

lemma same_bare_None: "same_bare V W \<Longrightarrow> G W r = None \<longleftrightarrow> G V r = None"
  unfolding same_bare_def by (metis option.map_disc_iff)

lemma rolls_ok_bare: "same_bare V W \<Longrightarrow> bare P = bare Q \<Longrightarrow> rolls_ok V P = rolls_ok W Q"
  using bare_eqD [of P Q] same_bare_sel [of V W] by (simp add: rolls_ok_def)

lemma ex_bare:
  assumes "same_bare V W" "\<And>P Q. bare P = bare Q \<Longrightarrow> f P = f Q"
  shows "(\<exists>P. G W r = Some P \<and> f P) \<longleftrightarrow> (\<exists>P. G V r = Some P \<and> f P)"
  using assms(2) same_bareD(1) [OF assms(1)] same_bareD(1) [OF same_bare_sym [OF assms(1)]] by metis

lemma basic_ok_bare:
  assumes "basic_ok V" "same_bare V W" "refs_ok W"
  shows "basic_ok W"
  unfolding basic_ok_def
proof (intro conjI allI impI)
  note d = basic_okD [OF assms(1)] and b = same_bareD [OF assms(2)] same_bare_sel [OF assms(2)]
  show "refs_ok W" by fact
  show "invites_ok W" unfolding invites_ok_def
  proof (intro conjI allI impI)
    fix r P assume P: "G W r = Some P"
    then obtain Q where Q: "G V r = Some Q" "bare Q = bare P" using b(1) by blast
    note i = bare_eqD(2) [OF Q(2)]
    have "os_inv (v_inv Q)" using d(2) Q(1) unfolding invites_ok_def by blast
    then show "os_inv (v_inv P)" using i by simp
    fix g
    have "(\<exists>l. L W g = Some l \<and> l_inv l = Some r) \<longleftrightarrow> (\<exists>l. L V g = Some l \<and> l_inv l = Some r)"
      using b(2) [of g] same_bareD(2) [OF same_bare_sym [OF assms(2)], of g] by fastforce
    moreover have "g \<in> set (v_inv Q) \<longleftrightarrow> (\<exists>l. L V g = Some l \<and> l_inv l = Some r)"
      using d(2) Q(1) unfolding invites_ok_def by blast
    ultimately show "g \<in> set (v_inv P) \<longleftrightarrow> (\<exists>l. L W g = Some l \<and> l_inv l = Some r)" using i by simp
  next
    fix g l r assume "L W g = Some l \<and> l_inv l = Some r"
    then obtain l0 where "L V g = Some l0" "l_inv l0 = Some r" using b(2) [of g l] by auto
    then have "G V r \<noteq> None" using d(2) unfolding invites_ok_def by blast
    then show "G W r \<noteq> None" using same_bare_None [OF assms(2)] by simp
  qed
  show "bgs_ok W" unfolding bgs_ok_def
  proof (intro allI)
    fix k r
    have "(\<exists>P. G W r = Some P \<and> v_bg P = Some k) \<longleftrightarrow> (\<exists>P. G V r = Some P \<and> v_bg P = Some k)"
      by (rule ex_bare [OF assms(2)]) (drule bare_eqD(5), simp)
    moreover have "v_bgs V k = Some r \<longleftrightarrow> (\<exists>P. G V r = Some P \<and> v_bg P = Some k)"
      using d(3) unfolding bgs_ok_def by blast
    ultimately show "v_bgs W k = Some r \<longleftrightarrow> (\<exists>P. G W r = Some P \<and> v_bg P = Some k)" using b(5) by simp
  qed
  show "G W r = None" if "v_next W \<le> r" for r using d(4) that b(3) same_bare_None [OF assms(2)] by simp
  show "\<not> v_fault W" using d(5) b(8) by simp
  show "shape_ok P" if "G W r = Some P" for r P 
    using b(1) [OF that] d(6) shape_ok_bare [of _ P] by blast
  show "rolls_ok W P" if "G W r = Some P" for r P 
    using b(1) [OF that] d(7) rolls_ok_bare [OF assms(2), of _ P] by blast
qed

lemma ids_ok_bare: "ids_ok Y V \<Longrightarrow> same_bare V W \<Longrightarrow> ids_ok Y W"
proof -
  assume a: "ids_ok Y V" "same_bare V W"
  have "(\<exists>P. G W r = Some P \<and> (stored P \<or> r \<in> Y) \<and> v_db P = i) \<longleftrightarrow> (\<exists>P. G V r = Some P \<and> (stored P \<or> r \<in> Y) \<and> v_db P = i)" for r i
  proof (rule ex_bare [OF a(2)])
    fix P Q :: pview assume b: "bare P = bare Q"
    show "((stored P \<or> r \<in> Y) \<and> v_db P = i) = ((stored Q \<or> r \<in> Y) \<and> v_db Q = i)"
      using stored_bare [OF b] bare_eqD(8) [OF b] by simp
  qed
  then show ?thesis using a(1) same_bare_sel [OF a(2)] by (simp add: ids_ok_def)
qed

text \<open>A change of one group that is not about who is in it.\<close>

lemma basic_ok_grp:
  assumes "basic_ok V"
    "\<And>P. G V r = Some P \<Longrightarrow> v_refs (F P) = v_refs P \<and> v_inv (F P) = v_inv P \<and> v_bg (F P) = v_bg P \<and> shape_ok (F P) \<and> rolls_ok V (F P)"
  shows "basic_ok (a_grp r F V)"
  unfolding basic_ok_def
proof (intro conjI allI impI)
  note d = basic_okD [OF assms(1)]
  have lk: "a_link_of k g (a_grp r F V) = a_link_of k g V" for k g by (simp add: a_link_of_def)
  show "refs_ok (a_grp r F V)" using d(1) assms(2) unfolding refs_ok_def lk by auto
  show "invites_ok (a_grp r F V)" using d(2) assms(2) unfolding invites_ok_def by auto
  show "bgs_ok (a_grp r F V)" unfolding bgs_ok_def
  proof (intro allI)
    fix k q
    show "v_bgs (a_grp r F V) k = Some q \<longleftrightarrow> (\<exists>P. G (a_grp r F V) q = Some P \<and> v_bg P = Some k)"
      using d(3) assms(2) unfolding bgs_ok_def by (cases "q = r") auto
  qed
  show "G (a_grp r F V) q = None" if "v_next (a_grp r F V) \<le> q" for q using d(4) [of q] that by auto
  show "\<not> v_fault (a_grp r F V)" using d(5) by simp
  show "shape_ok P" if "G (a_grp r F V) q = Some P" for q P using that d(6) assms(2) by (auto split: if_splits)
  show "rolls_ok (a_grp r F V) P" if "G (a_grp r F V) q = Some P" for q P
  proof -
    have "rolls_ok V P" using that d(7) assms(2) by (auto split: if_splits)
    then show ?thesis by (simp add: rolls_ok_def)
  qed
qed

lemma parties_x_grp:
  assumes "parties_x X Y V"
    "\<And>P. G V r = Some P \<Longrightarrow> v_refs (F P) = v_refs P \<and> v_inv (F P) = v_inv P \<and> v_bg (F P) = v_bg P \<and> shape_ok (F P) \<and> rolls_ok V (F P)
       \<and> v_mem (F P) = v_mem P \<and> v_db (F P) = v_db P \<and> (size_ok (F P) \<or> r \<in> X)"
  shows "parties_x X Y (a_grp r F V)"
  unfolding parties_x_def
proof (intro conjI allI impI)
  note d = parties_xD [OF assms(1)]
  show "basic_ok (a_grp r F V)" by (rule basic_ok_grp) (use d(1) assms(2) in auto)
  have "mem_of (a_grp r F V) = mem_of V"
    using assms(2) by (cases "G V r") (auto simp: mem_of_def fun_eq_iff)
  moreover have "bg_of (a_grp r F V) = bg_of V"
    using assms(2) by (cases "G V r") (auto simp: bg_of_def fun_eq_iff)
  ultimately show "social (mem_of (a_grp r F V)) (bg_of (a_grp r F V)) (L (a_grp r F V))" using d(2) by simp
  have "(\<exists>P. G (a_grp r F V) q = Some P \<and> (stored P \<or> q \<in> Y) \<and> v_db P = i) \<longleftrightarrow> (\<exists>P. G V q = Some P \<and> (stored P \<or> q \<in> Y) \<and> v_db P = i)" for q i
    using assms(2) by (cases "q = r"; cases "G V r") (auto simp: stored_def)
  then show "ids_ok Y (a_grp r F V)" using d(3) by (simp add: ids_ok_def)
  show "size_ok P \<or> q \<in> X" if "G (a_grp r F V) q = Some P" for q P using that d(4) assms(2) by (auto split: if_splits)
qed

lemma parties_x_links:
  assumes "parties_x X Y V" "same_bare V W" "refs_ok W" "social (mem_of V) (bg_of V) (L W)"
  shows "parties_x X Y W"
  unfolding parties_x_def
proof (intro conjI allI impI)
  note d = parties_xD [OF assms(1)]
  show "basic_ok W" by (rule basic_ok_bare [OF d(1) assms(2,3)])
  show "social (mem_of W) (bg_of W) (L W)" using assms(4) mem_of_bare [OF assms(2)] bg_of_bare [OF assms(2)] by simp
  show "ids_ok Y W" by (rule ids_ok_bare [OF d(3) assms(2)])
  show "size_ok P \<or> r \<in> X" if "G W r = Some P" for r P
    using same_bareD(1) [OF assms(2) that] d(4) [of r] size_ok_bare [of _ P] by blast
qed

end
