(* ===== verification/PartyJoin.thy ===== *)
theory PartyJoin
  imports PartyInv
begin

text \<open>
  Inviting, joining, leaving, moving, disbanding: each as an operation on views, and that it keeps the
  invariant.
\<close>

section \<open>Invitations\<close>

definition mid_ok :: "wview \<Rightarrow> bool" where
  "mid_ok V \<longleftrightarrow> refs_ok V \<and> bgs_ok V \<and> (\<forall>r. v_next V \<le> r \<longrightarrow> G V r = None) \<and> \<not> v_fault V
     \<and> (\<forall>r P. G V r = Some P \<longrightarrow> shape_ok P \<and> rolls_ok V P)"

lemma basic_mid: "basic_ok V \<longleftrightarrow> mid_ok V \<and> invites_ok V"
  by (auto simp: basic_ok_def mid_ok_def)

lemma mid_ok_grp:
  assumes "mid_ok V"
    "\<And>P. G V r = Some P \<Longrightarrow> v_refs (F P) = v_refs P \<and> v_bg (F P) = v_bg P \<and> shape_ok (F P) \<and> rolls_ok V (F P)"
  shows "mid_ok (a_grp r F V)"
  unfolding mid_ok_def
proof (intro conjI allI impI)
  have d: "refs_ok V" "bgs_ok V" "\<And>r. v_next V \<le> r \<Longrightarrow> G V r = None" "\<not> v_fault V"
    "\<And>r P. G V r = Some P \<Longrightarrow> shape_ok P \<and> rolls_ok V P" using assms(1) by (auto simp: mid_ok_def)
  have lk: "a_link_of k g (a_grp r F V) = a_link_of k g V" for k g by (simp add: a_link_of_def)
  show "refs_ok (a_grp r F V)" using d(1) assms(2) unfolding refs_ok_def lk by auto
  show "bgs_ok (a_grp r F V)" unfolding bgs_ok_def
  proof (intro allI)
    fix k q
    show "v_bgs (a_grp r F V) k = Some q \<longleftrightarrow> (\<exists>P. G (a_grp r F V) q = Some P \<and> v_bg P = Some k)"
      using d(2) assms(2) unfolding bgs_ok_def by (cases "q = r") auto
  qed
  show "G (a_grp r F V) q = None" if "v_next (a_grp r F V) \<le> q" for q using d(3) [of q] that by auto
  show "\<not> v_fault (a_grp r F V)" using d(4) by simp
  show "shape_ok P" if "G (a_grp r F V) q = Some P" for q P using that d(5) assms(2) by (auto split: if_splits)
  show "rolls_ok (a_grp r F V) P" if "G (a_grp r F V) q = Some P" for q P
  proof -
    have "rolls_ok V P" using that d(5) assms(2) by (auto split: if_splits)
    then show ?thesis by (simp add: rolls_ok_def)
  qed
qed

lemma mid_ok_pl: "mid_ok V \<Longrightarrow> (\<And>l k. link_of k (H l) = link_of k l) \<Longrightarrow> mid_ok (a_pl g H V)"
  using refs_ok_pl [of V H g] by (auto simp: mid_ok_def bgs_ok_def rolls_ok_def)

lemma ids_ok_cong:
  assumes "ids_ok Y V" "v_ids V' = v_ids V"
    "\<And>q j. (\<exists>P. G V' q = Some P \<and> (stored P \<or> q \<in> Y) \<and> v_db P = j) \<longleftrightarrow> (\<exists>P. G V q = Some P \<and> (stored P \<or> q \<in> Y) \<and> v_db P = j)"
  shows "ids_ok Y V'"
  using assms(1) unfolding ids_ok_def assms(2,3) .

lemma raid_view_inv [simp]: "raid_view (P\<lparr>v_inv := x\<rparr>) = raid_view P" by (simp add: raid_view_def)

lemma link_of_inv [simp]: "link_of k (l\<lparr>l_inv := i\<rparr>) = link_of k l" by (cases k) simp_all

lemma shape_ok_inv [simp]: "shape_ok (P\<lparr>v_inv := x\<rparr>) = shape_ok P" by (simp add: shape_ok_def raid_view_def)

lemma rolls_ok_inv [simp]: "rolls_ok V (P\<lparr>v_inv := x\<rparr>) = rolls_ok V P" by (simp add: rolls_ok_def)

definition a_uninvite :: "nat \<Rightarrow> guid \<Rightarrow> wview \<Rightarrow> wview" where
  "a_uninvite r g V = a_pl g (\<lambda>l. l\<lparr>l_inv := None\<rparr>) (a_grp r (\<lambda>P. P\<lparr>v_inv := os_del g (v_inv P)\<rparr>) V)"

definition a_invite :: "nat \<Rightarrow> guid \<Rightarrow> wview \<Rightarrow> wview" where
  "a_invite r g V = a_pl g (\<lambda>l. l\<lparr>l_inv := Some r\<rparr>) (a_grp r (\<lambda>P. P\<lparr>v_inv := os_ins g (v_inv P)\<rparr>) V)"

lemma view_set_invite [view_op]: "view (set_invite x g w) = a_pl g (\<lambda>l. l\<lparr>l_inv := x\<rparr>) (view w)"
  unfolding set_invite_def by (rule view_upd_pp) (simp add: player_view_def)

lemma view_remove_invite [view_op]: "has r w \<Longrightarrow> view (remove_invite r g w) = a_uninvite r g (view w)"
  unfolding remove_invite_def a_uninvite_def view_set_invite
  by (subst view_upd_party [where F = "\<lambda>P. P\<lparr>v_inv := os_del g (v_inv P)\<rparr>"]) (simp_all add: party_view_def)

lemma invites_okD:
  assumes "invites_ok V"
  shows "G V r = Some P \<Longrightarrow> os_inv (v_inv P)"
    "G V r = Some P \<Longrightarrow> g \<in> set (v_inv P) \<longleftrightarrow> (\<exists>l. L V g = Some l \<and> l_inv l = Some r)"
    "L V g = Some l \<Longrightarrow> l_inv l = Some r \<Longrightarrow> G V r \<noteq> None"
  using assms unfolding invites_ok_def by blast+

lemma invites_ok_uninvite:
  assumes "invites_ok V" "L V g = Some l" "l_inv l = Some r"
  shows "invites_ok (a_uninvite r g V)"
  unfolding invites_ok_def
proof (intro conjI allI impI)
  note d = invites_okD [OF assms(1)]
  fix q P assume P: "G (a_uninvite r g V) q = Some P"
  then obtain Q where Q: "G V q = Some Q" "v_inv P = (if q = r then os_del g (v_inv Q) else v_inv Q)"
    by (auto simp: a_uninvite_def split: if_splits)
  show "os_inv (v_inv P)" using Q d(1) [OF Q(1)] by auto
  show "h \<in> set (v_inv P) \<longleftrightarrow> (\<exists>l. L (a_uninvite r g V) h = Some l \<and> l_inv l = Some q)" for h
    using Q d(2) [OF Q(1), of h] assms(2,3) by (cases "h = g") (auto simp: a_uninvite_def)
next
  fix h l' q assume "L (a_uninvite r g V) h = Some l' \<and> l_inv l' = Some q"
  then have "G V q \<noteq> None" using invites_okD(3) [OF assms(1), of h l' q] by (auto simp: a_uninvite_def split: if_splits)
  then show "G (a_uninvite r g V) q \<noteq> None" by (auto simp: a_uninvite_def)
qed

lemma invites_ok_invite:
  assumes "invites_ok V" "L V g = Some l" "l_inv l = None" "G V r \<noteq> None"
  shows "invites_ok (a_invite r g V)"
  unfolding invites_ok_def
proof (intro conjI allI impI)
  note d = invites_okD [OF assms(1)]
  fix q P assume P: "G (a_invite r g V) q = Some P"
  then obtain Q where Q: "G V q = Some Q" "v_inv P = (if q = r then os_ins g (v_inv Q) else v_inv Q)"
    by (auto simp: a_invite_def split: if_splits)
  show "os_inv (v_inv P)" using Q d(1) [OF Q(1)] by auto
  show "h \<in> set (v_inv P) \<longleftrightarrow> (\<exists>l. L (a_invite r g V) h = Some l \<and> l_inv l = Some q)" for h
    using Q d(2) [OF Q(1), of h] assms(2,3) by (cases "h = g") (auto simp: a_invite_def)
next
  fix h l' q assume "L (a_invite r g V) h = Some l' \<and> l_inv l' = Some q"
  then have "G V q \<noteq> None" using invites_okD(3) [OF assms(1), of h l' q] assms(4) by (auto simp: a_invite_def split: if_splits)
  then show "G (a_invite r g V) q \<noteq> None" by (auto simp: a_invite_def)
qed

text \<open>What the change of an invitation leaves.\<close>

lemma inv_change:
  assumes "V' = a_pl g (\<lambda>l. l\<lparr>l_inv := i\<rparr>) (a_grp r (\<lambda>P. P\<lparr>v_inv := f (v_inv P)\<rparr>) V)"
  shows "mem_of V' = mem_of V" "bg_of V' = bg_of V" "v_ids V' = v_ids V"
    "(\<exists>P. G V' q = Some P \<and> (stored P \<or> q \<in> Y) \<and> v_db P = j) \<longleftrightarrow> (\<exists>P. G V q = Some P \<and> (stored P \<or> q \<in> Y) \<and> v_db P = j)"
  unfolding assms by (cases "G V r"; auto simp: mem_of_def bg_of_def stored_def fun_eq_iff)+

lemma parties_uninvite:
  assumes "parties_x X Y V" "L V g = Some l" "l_inv l = Some r" "\<And>P. G V r = Some P \<Longrightarrow> r \<notin> X \<Longrightarrow> v_mem P = [] \<Longrightarrow> v_leader P \<noteq> g"
  shows "parties_x X Y (a_uninvite r g V)"
  unfolding parties_x_def
proof (intro conjI allI impI)
  note d = parties_xD [OF assms(1)] and c = inv_change [OF a_uninvite_def, of r g V]
  have m: "mid_ok V" "invites_ok V" using d(1) by (simp_all add: basic_mid)
  have "mid_ok (a_uninvite r g V)"
    unfolding a_uninvite_def by (intro mid_ok_pl mid_ok_grp m(1)) (use basic_okD [OF d(1)] in auto)
  then show "basic_ok (a_uninvite r g V)" using invites_ok_uninvite [OF m(2) assms(2,3)] by (simp add: basic_mid)
  have "L (a_uninvite r g V) = (L V)(g \<mapsto> l\<lparr>l_inv := None\<rparr>)" using assms(2) by (simp add: a_uninvite_def)
  then show "social (mem_of (a_uninvite r g V)) (bg_of (a_uninvite r g V)) (L (a_uninvite r g V))"
    using c social_invite [OF d(2) assms(2), of None] by simp
  show "ids_ok Y (a_uninvite r g V)" by (rule ids_ok_cong [OF d(3) c(3)]) (rule c(4))
  fix q P assume P: "G (a_uninvite r g V) q = Some P"
  then obtain Q where Q: "G V q = Some Q" "P = (if q = r then Q\<lparr>v_inv := os_del g (v_inv Q)\<rparr> else Q)"
    by (auto simp: a_uninvite_def split: if_splits)
  show "size_ok P \<or> q \<in> X"
    using d(4) [OF Q(1)] Q assms(4) by (auto simp: size_ok_def os_del_def split: if_splits)
qed

lemma parties_invite:
  assumes "parties_x X Y V" "L V g = Some l" "l_inv l = None" "G V r \<noteq> None"
    "l_orig l = None" "\<And>q s. l_main l = Some (q, s) \<Longrightarrow> bg_of V q"
    "\<And>P. G V r = Some P \<Longrightarrow> r \<notin> X \<Longrightarrow> v_mem P = [] \<Longrightarrow> v_inv P = [] \<Longrightarrow> v_leader P = g"
    "\<And>P. G V r = Some P \<Longrightarrow> r \<notin> X \<Longrightarrow> v_bg P = None"
  shows "parties_x X Y (a_invite r g V)"
  unfolding parties_x_def
proof (intro conjI allI impI)
  note d = parties_xD [OF assms(1)] and c = inv_change [OF a_invite_def, of r g V]
  have m: "mid_ok V" "invites_ok V" using d(1) by (simp_all add: basic_mid)
  have "mid_ok (a_invite r g V)"
    unfolding a_invite_def by (intro mid_ok_pl mid_ok_grp m(1)) (use basic_okD [OF d(1)] in auto)
  then show "basic_ok (a_invite r g V)" using invites_ok_invite [OF m(2) assms(2,3,4)] by (simp add: basic_mid)
  have "L (a_invite r g V) = (L V)(g \<mapsto> l\<lparr>l_inv := Some r\<rparr>)" using assms(2) by (simp add: a_invite_def)
  then show "social (mem_of (a_invite r g V)) (bg_of (a_invite r g V)) (L (a_invite r g V))"
    using c social_invite [OF d(2) assms(2), of "Some r"] assms(5,6) by simp
  show "ids_ok Y (a_invite r g V)" by (rule ids_ok_cong [OF d(3) c(3)]) (rule c(4))
  fix q P assume P: "G (a_invite r g V) q = Some P"
  then obtain Q where Q: "G V q = Some Q" "P = (if q = r then Q\<lparr>v_inv := os_ins g (v_inv Q)\<rparr> else Q)"
    by (auto simp: a_invite_def split: if_splits)
  show "size_ok P \<or> q \<in> X"
    using d(4) [OF Q(1)] Q assms(7,8) by (auto simp: size_ok_def split: if_splits)
qed

text \<open>All invitations of a group go.\<close>

definition a_clear :: "nat \<Rightarrow> wview \<Rightarrow> wview" where
  "a_clear r V = (case G V r of None \<Rightarrow> V
     | Some P \<Rightarrow> a_grp r (\<lambda>P. P\<lparr>v_inv := []\<rparr>) (fold (\<lambda>g. a_pl g (\<lambda>l. l\<lparr>l_inv := None\<rparr>)) (v_inv P) V))"

lemma view_fold_op: "(\<And>x w. view (f x w) = F x (view w)) \<Longrightarrow> view (fold f xs w) = fold F xs (view w)"
  by (induction xs arbitrary: w) (simp_all del: view_sel)

lemma a_pl_fold:
  "G (fold (\<lambda>g. a_pl g H) gs V) = G V" "v_next (fold (\<lambda>g. a_pl g H) gs V) = v_next V" "v_ids (fold (\<lambda>g. a_pl g H) gs V) = v_ids V"
  "v_bgs (fold (\<lambda>g. a_pl g H) gs V) = v_bgs V" "v_loots (fold (\<lambda>g. a_pl g H) gs V) = v_loots V"
  "v_item (fold (\<lambda>g. a_pl g H) gs V) = v_item V" "v_fault (fold (\<lambda>g. a_pl g H) gs V) = v_fault V"
  by (induction gs arbitrary: V) simp_all

lemma a_pl_fold_L:
  "(\<And>l. H (H l) = H l) \<Longrightarrow> L (fold (\<lambda>g. a_pl g H) gs V) h = (if h \<in> set gs then map_option H (L V h) else L V h)"
  by (induction gs arbitrary: V) (auto simp: option.map_comp o_def)

lemma a_clear_L: "G V r = Some P \<Longrightarrow> L (a_clear r V) h = (if h \<in> set (v_inv P) then map_option (\<lambda>l. l\<lparr>l_inv := None\<rparr>) (L V h) else L V h)"
  by (simp add: a_clear_def a_pl_fold_L)

lemma a_clear_sel [simp]:
  "G (a_clear r V) q = (if q = r then map_option (\<lambda>P. P\<lparr>v_inv := []\<rparr>) (G V q) else G V q)" "v_next (a_clear r V) = v_next V"
  "v_ids (a_clear r V) = v_ids V" "v_bgs (a_clear r V) = v_bgs V" "v_loots (a_clear r V) = v_loots V"
  "v_item (a_clear r V) = v_item V" "v_fault (a_clear r V) = v_fault V"
  by (simp_all add: a_clear_def a_pl_fold split: option.split)

lemma view_remove_all_invites [view_op]: "has r w \<Longrightarrow> view (remove_all_invites r w) = a_clear r (view w)"
  unfolding remove_all_invites_def
proof (rule with_party_view)
  fix p assume h: "has r w" and p: "pw_groups w r = Some p"
  let ?w1 = "fold (set_invite None) (pa_invites p) w"
  have 1: "view ?w1 = fold (\<lambda>g. a_pl g (\<lambda>l. l\<lparr>l_inv := None\<rparr>)) (pa_invites p) (view w)"
    by (rule view_fold_op) (simp add: view_set_invite)
  have "view (upd_party r (\<lambda>p. p\<lparr>pa_invites := []\<rparr>) ?w1) = a_grp r (\<lambda>P. P\<lparr>v_inv := []\<rparr>) (view ?w1)"
    by (rule view_upd_party) (use h in \<open>simp_all add: 1 a_pl_fold party_view_def del: view_sel\<close>)
  then show "view (upd_party r (\<lambda>p. p\<lparr>pa_invites := []\<rparr>) ?w1) = a_clear r (view w)"
    using p by (simp add: 1 a_clear_def)
qed

lemma a_clear_link_of [simp]: "a_link_of k h (a_clear r V) = a_link_of k h V"
proof (cases "G V r")
  case (Some P)
  then show ?thesis by (cases "L V h") (simp_all add: a_link_of_def a_clear_L)
qed (simp add: a_clear_def)

lemma parties_clear_b:
  assumes "parties_b X Y B V"
  shows "parties_b X Y B (a_clear r V)"
proof (cases "G V r")
  case (Some P)
  note d = parties_bD [OF assms] and L = a_clear_L [OF Some]
  have i: "h \<in> set (v_inv P) \<longleftrightarrow> (\<exists>l. L V h = Some l \<and> l_inv l = Some r)" for h
    by (rule invites_okD(2) [OF basic_okD(2) [OF d(1)] Some])
  have inv: "\<exists>l0. L V h = Some l0 \<and> l_main l = l_main l0 \<and> l_orig l = l_orig l0 \<and> l_inv l = (if l_inv l0 = Some r then None else l_inv l0)"
    if "L (a_clear r V) h = Some l" for h l
    using that i [of h] unfolding L by (cases "L V h") (auto split: if_splits)
  show ?thesis unfolding parties_b_def basic_ok_def
  proof (intro conjI allI impI)
    show "refs_ok (a_clear r V)" using basic_okD(1) [OF d(1)] by (auto simp: refs_ok_def)
    show "invites_ok (a_clear r V)" unfolding invites_ok_def
    proof (intro conjI allI impI)
      fix q Q assume Q: "G (a_clear r V) q = Some Q"
      show "os_inv (v_inv Q)" using Q invites_okD(1) [OF basic_okD(2) [OF d(1)]] by (auto split: if_splits)
      fix h
      show "h \<in> set (v_inv Q) \<longleftrightarrow> (\<exists>l. L (a_clear r V) h = Some l \<and> l_inv l = Some q)"
      proof (cases "q = r")
        case True
        then show ?thesis using Q inv [of h] by (auto split: if_splits)
      next
        case False
        then have "G V q = Some Q" using Q by simp
        note j = invites_okD(2) [OF basic_okD(2) [OF d(1)] this, of h]
        show ?thesis unfolding j L using i [of h] False by (cases "L V h") auto
      qed
    next
      fix h l q assume "L (a_clear r V) h = Some l \<and> l_inv l = Some q"
      then obtain l0 where "L V h = Some l0" "l_inv l0 = Some q" using inv [of h l] by (auto split: if_splits)
      then show "G (a_clear r V) q \<noteq> None" using invites_okD(3) [OF basic_okD(2) [OF d(1)]] by auto
    qed
    show "bgs_ok (a_clear r V)" unfolding bgs_ok_def
    proof (intro allI)
      fix k q
      show "v_bgs (a_clear r V) k = Some q \<longleftrightarrow> (\<exists>P. G (a_clear r V) q = Some P \<and> v_bg P = Some k)"
        using basic_okD(3) [OF d(1)] unfolding bgs_ok_def by auto
    qed
    show "G (a_clear r V) q = None" if "v_next (a_clear r V) \<le> q" for q using that basic_okD(4) [OF d(1), of q] by auto
    show "\<not> v_fault (a_clear r V)" using basic_okD(5) [OF d(1)] by simp
    show "shape_ok Q" "rolls_ok (a_clear r V) Q" if "G (a_clear r V) q = Some Q" for q Q
    proof -
      have "shape_ok Q \<and> rolls_ok V Q" using that basic_okD(6,7) [OF d(1)] by (auto split: if_splits)
      then show "shape_ok Q" "rolls_ok (a_clear r V) Q" by (simp_all add: rolls_ok_def)
    qed
    have mb: "bg_of (a_clear r V) = bg_of V"
      by (auto simp: bg_of_def fun_eq_iff)
    show "social B (bg_of (a_clear r V)) (L (a_clear r V))"
      unfolding mb social_def
    proof (intro conjI allI impI)
      fix h l q s assume "L (a_clear r V) h = Some l"
      then obtain l0 where "L V h = Some l0" "l_main l = l_main l0" "l_orig l = l_orig l0" using inv [of h l] by blast
      then show "B h q s \<longleftrightarrow> l_main l = Some (q, s) \<or> l_orig l = Some (q, s)" using socialD(1) [OF d(2), of h l0 q s] by simp
    next
      fix h l q s assume a: "L (a_clear r V) h = Some l \<and> l_orig l = Some (q, s)"
      then obtain l0 where "L V h = Some l0" "l_main l = l_main l0" "l_orig l = l_orig l0" using inv [of h l] by blast
      then show "\<not> bg_of V q" "\<exists>q t. l_main l = Some (q, t) \<and> bg_of V q" using socialD(2) [OF d(2), of h l0 q s] a by simp_all
    next
      fix h l assume a: "L (a_clear r V) h = Some l \<and> l_inv l \<noteq> None"
      then obtain l0 where l0: "L V h = Some l0" "l_main l = l_main l0" "l_orig l = l_orig l0" "l_inv l = (if l_inv l0 = Some r then None else l_inv l0)"
        using inv [of h l] by blast
      then obtain j where "l_inv l0 = Some j" using a by (auto split: if_splits)
      then show "l_orig l = None" "\<And>q s. l_main l = Some (q, s) \<Longrightarrow> bg_of V q" using socialD(3) [OF d(2) l0(1)] l0 by simp_all
    next
      fix h q s assume "L (a_clear r V) h = None \<and> B h q s"
      then have "L V h = None" "B h q s" unfolding L by (auto split: if_splits)
      note e = socialD(4) [OF d(2) this]
      show "q' = q" "t = s" if "B h q' t \<and> (bg_of V q' \<longleftrightarrow> bg_of V q)" for q' t using e that by blast+
    qed
    have "(\<exists>P. G (a_clear r V) q = Some P \<and> (stored P \<or> q \<in> Y) \<and> v_db P = j) \<longleftrightarrow> (\<exists>P. G V q = Some P \<and> (stored P \<or> q \<in> Y) \<and> v_db P = j)" for q j
      by (auto simp: stored_def)
    then show "ids_ok Y (a_clear r V)" using d(3) by (simp add: ids_ok_def)
    show "size_ok Q \<or> q \<in> X" if "G (a_clear r V) q = Some Q" for q Q
      using that d(4) by (auto simp: size_ok_def split: if_splits)
  qed
qed (use assms in \<open>simp add: a_clear_def\<close>)

lemma mem_of_clear [simp]: "mem_of (a_clear r V) = mem_of V"
  by (auto simp: mem_of_def fun_eq_iff)

lemma parties_clear: "parties_x X Y V \<Longrightarrow> parties_x X Y (a_clear r V)"
  using parties_clear_b [of X Y "mem_of V" V r] by (simp add: parties_x_b)

section \<open>Joining\<close>

definition inc_counts :: "u8 \<Rightarrow> pview \<Rightarrow> pview" where
  "inc_counts s P = P\<lparr>v_counts := map_option (\<lambda>cs. cs[unat s := cs ! unat s + 1]) (v_counts P)\<rparr>"

definition join_view :: "guid \<Rightarrow> u8 \<Rightarrow> pview \<Rightarrow> pview" where
  "join_view g s P = (inc_counts s P)\<lparr>v_mem := v_mem P @ [(g, s)]\<rparr>"

definition a_new_link :: "nat \<Rightarrow> u8 \<Rightarrow> guid \<Rightarrow> wview \<Rightarrow> wview" where
  "a_new_link r s g V =
     (case a_link_of MainLink g V of
        None \<Rightarrow> a_link MainLink r s g V
      | Some (q, t) \<Rightarrow>
          if bg_of V r then a_link MainLink r s g (a_unlink MainLink g (a_link OrigLink q t g V)) else a_link OrigLink r s g V)"

definition a_join :: "nat \<Rightarrow> u8 \<Rightarrow> guid \<Rightarrow> wview \<Rightarrow> wview" where
  "a_join r s g V = a_new_link r s g (a_grp r (join_view g s) V)"

definition room :: "pview \<Rightarrow> u8 \<Rightarrow> bool" where
  "room P s \<longleftrightarrow> (case v_counts P of None \<Rightarrow> s = 0 \<and> length (v_mem P) < MAXGROUPSIZE
     | Some cs \<Rightarrow> unat s < MAX_RAID_SUBGROUPS \<and> unat (cs ! unat s) < MAXGROUPSIZE)"

lemma join_view_sel [simp]:
  "v_mem (join_view g s P) = v_mem P @ [(g, s)]" "v_refs (join_view g s P) = v_refs P" "v_inv (join_view g s P) = v_inv P"
  "v_leader (join_view g s P) = v_leader P" "v_type (join_view g s P) = v_type P" "v_bg (join_view g s P) = v_bg P"
  "v_bf (join_view g s P) = v_bf P" "v_db (join_view g s P) = v_db P" "v_rolls (join_view g s P) = v_rolls P"
  "v_counts (join_view g s P) = map_option (\<lambda>cs. cs[unat s := cs ! unat s + 1]) (v_counts P)" "raid_view (join_view g s P) = raid_view P"
  by (simp_all add: join_view_def inc_counts_def raid_view_def)

lemma subgroups8 [simp]: "MAX_RAID_SUBGROUPS = 8" by (simp add: MAX_RAID_SUBGROUPS_def MAXRAIDSIZE_def MAXGROUPSIZE_def)

lemma unat_sub: "i < 8 \<Longrightarrow> unat (of_nat i :: u8) = i"
  by (simp add: unat_of_nat take_bit_nat_eq_self)

lemma of_nat_sub_eq: "i < 8 \<Longrightarrow> of_nat i = (s :: u8) \<longleftrightarrow> i = unat s"
  using unat_sub [of i] by auto

lemma counts_ok_join:
  assumes "counts_ok cs ms" "unat s < MAX_RAID_SUBGROUPS" "unat (cs ! unat s) < MAXGROUPSIZE"
  shows "counts_ok (cs[unat s := cs ! unat s + 1]) (ms @ [(g, s)])"
  unfolding counts_ok_def
proof (intro conjI allI impI)
  show "length (cs[unat s := cs ! unat s + 1]) = MAX_RAID_SUBGROUPS" using assms(1) by (simp add: counts_ok_def)
  fix i assume i: "i < MAX_RAID_SUBGROUPS"
  have c: "unat (cs ! i) = in_sub (of_nat i) ms" "unat (cs ! i) \<le> MAXGROUPSIZE" "length cs = MAX_RAID_SUBGROUPS"
    using assms(1) i unfolding counts_ok_def by blast+
  have u: "unat (cs ! unat s + 1) = Suc (unat (cs ! unat s))"
    using assms(3) by (simp add: MAXGROUPSIZE_def unat_word_ariths)
  show "unat (cs[unat s := cs ! unat s + 1] ! i) = in_sub (of_nat i) (ms @ [(g, s)])"
    using c i u assms(2) of_nat_sub_eq [of i s] by (cases "i = unat s") (auto simp: in_sub_def)
  show "unat (cs[unat s := cs ! unat s + 1] ! i) \<le> MAXGROUPSIZE"
    using c i u assms(2,3) by (cases "i = unat s") (auto simp: MAXGROUPSIZE_def)
qed

lemma shape_ok_join:
  assumes "shape_ok P" "g \<notin> fst ` set (v_mem P)" "room P s" "v_bg P \<noteq> None \<Longrightarrow> raid_view P"
  shows "shape_ok (join_view g s P)"
proof (cases "raid_view P")
  case True
  then obtain cs where cs: "v_counts P = Some cs" "counts_ok cs (v_mem P)" using assms(1) by (auto simp: shape_ok_def)
  then have "unat s < MAX_RAID_SUBGROUPS" "unat (cs ! unat s) < MAXGROUPSIZE" using assms(3) by (auto simp: room_def)
  then show ?thesis using counts_ok_join [OF cs(2)] cs(1) True assms(1,2) by (auto simp: shape_ok_def)
next
  case False
  then have "v_counts P = None" using assms(1) by (simp add: shape_ok_def)
  then show ?thesis using False assms by (auto simp: shape_ok_def room_def)
qed

lemma a_join_None [simp]: "G (a_new_link r s g V) q = None \<longleftrightarrow> G V q = None" "G (a_join r s g V) q = None \<longleftrightarrow> G V q = None"
  by (auto simp: a_new_link_def a_join_def split: option.split)

lemma a_link_of_grp [simp]: "a_link_of k h (a_grp r F V) = a_link_of k h V" by (simp add: a_link_of_def)

lemma inv_None_id: "l_inv l = None \<Longrightarrow> l\<lparr>l_inv := None\<rparr> = l" by (cases l) simp

lemma new_link:
  assumes "refs_ok V" "G V r \<noteq> None" "L V g = Some l" "social B (bg_of V) (L V)" "l_inv l = None"
    "\<And>q t. l_main l = Some (q, t) \<Longrightarrow> if bg_of V r then \<not> bg_of V q else bg_of V q \<and> l_orig l = None"
  shows "refs_ok (a_new_link r s g V)" "same_bare V (a_new_link r s g V)"
    "social (plus_mem g r s B) (bg_of V) (L (a_new_link r s g V))"
proof -
  have m: "a_link_of MainLink g V = l_main l" using assms(3) by (simp add: a_link_of_def)
  have "refs_ok (a_new_link r s g V) \<and> same_bare V (a_new_link r s g V) \<and> social (plus_mem g r s B) (bg_of V) (L (a_new_link r s g V))"
  proof (cases "l_main l")
    case None
    have "L (a_new_link r s g V) = (L V)(g \<mapsto> l\<lparr>l_main := Some (r, s), l_inv := None\<rparr>)"
      using None m assms(3,5) by (auto simp: a_new_link_def a_link_L inv_None_id)
    then show ?thesis
      using None m assms social_join_main [OF assms(4,3) None] by (simp add: a_new_link_def)
  next
    case (Some x)
    obtain q t where x: "x = (q, t)" by (cases x)
    have q: "G V q \<noteq> None" using refs_ok_exists [OF assms(1), of MainLink g q t] m Some x by simp
    show ?thesis
    proof (cases "bg_of V r")
      case True
      let ?V1 = "a_link OrigLink q t g V"
      let ?V2 = "a_unlink MainLink g ?V1"
      have W: "a_new_link r s g V = a_link MainLink r s g ?V2" using True m Some x by (simp add: a_new_link_def)
      have "refs_ok ?V2" using assms(1,3) q by simp
      moreover have "L ?V2 g \<noteq> None" using assms(3) by (simp add: a_unlink_L a_link_L)
      ultimately have "refs_ok (a_new_link r s g V)" unfolding W using assms(2) by simp
      moreover have "same_bare V (a_new_link r s g V)" unfolding W
        using same_bare_trans [OF same_bare_trans [OF same_bare_link same_bare_unlink] same_bare_link] .
      moreover have "L (a_new_link r s g V) = (L V)(g \<mapsto> l\<lparr>l_main := Some (r, s), l_orig := Some (q, t), l_inv := None\<rparr>)"
        unfolding W using assms(3,5) by (auto simp: a_unlink_L a_link_L inv_None_id)
      ultimately show ?thesis using social_join_bg [OF assms(4,3), of q t r s] Some x True assms(6) by simp
    next
      case False
      then have o1: "bg_of V q" "l_orig l = None" using assms(6) [of q t] Some x by simp_all
      have "L (a_new_link r s g V) = (L V)(g \<mapsto> l\<lparr>l_orig := Some (r, s), l_inv := None\<rparr>)"
        using Some x False m assms(3,5) by (auto simp: a_new_link_def a_link_L inv_None_id)
      then show ?thesis
        using Some x m False assms social_join_orig [OF assms(4,3), of q t r s] o1 by (simp add: a_new_link_def)
    qed
  qed
  then show "refs_ok (a_new_link r s g V)" "same_bare V (a_new_link r s g V)"
    "social (plus_mem g r s B) (bg_of V) (L (a_new_link r s g V))" by blast+
qed

lemma parties_join:
  assumes "parties_x X Y V" "L V g = Some l" "l_inv l = None" "G V r = Some P" "g \<notin> fst ` set (v_mem P)" "room P s"
    "v_bg P \<noteq> None \<Longrightarrow> raid_view P" "r \<in> Y \<or> v_mem P \<noteq> [] \<or> v_bg P \<noteq> None"
    "\<And>q t. l_main l = Some (q, t) \<Longrightarrow> if bg_of V r then \<not> bg_of V q else bg_of V q \<and> l_orig l = None"
  shows "parties_x (insert r X) Y (a_join r s g V)"
proof -
  note d = parties_xD [OF assms(1)]
  let ?V1 = "a_grp r (join_view g s) V"
  have b1: "basic_ok ?V1"
    by (rule basic_ok_grp [OF d(1)])
       (use assms(4-7) basic_okD(6,7) [OF d(1) assms(4)] in \<open>auto intro!: shape_ok_join simp: rolls_ok_def\<close>)
  have bg: "bg_of ?V1 = bg_of V" using assms(4) by (auto simp: bg_of_def fun_eq_iff)
  have mem: "mem_of ?V1 = plus_mem g r s (mem_of V)" using assms(4) by (auto simp: mem_of_def plus_mem_def fun_eq_iff)
  have n: "refs_ok (a_join r s g V)" "same_bare ?V1 (a_join r s g V)" "social (plus_mem g r s (mem_of V)) (bg_of V) (L (a_join r s g V))"
    using new_link [of ?V1 r g l "mem_of V" s] basic_okD(1) [OF b1] assms d(2) unfolding a_join_def bg by simp_all
  have ids: "ids_ok Y ?V1"
  proof (rule ids_ok_cong [OF d(3)])
    show "(\<exists>P. G ?V1 q = Some P \<and> (stored P \<or> q \<in> Y) \<and> v_db P = j) \<longleftrightarrow> (\<exists>P. G V q = Some P \<and> (stored P \<or> q \<in> Y) \<and> v_db P = j)" for q j
      using assms(4,8) by (auto simp: stored_def)
  qed simp
  show ?thesis unfolding parties_x_def
  proof (intro conjI allI impI)
    show "basic_ok (a_join r s g V)" by (rule basic_ok_bare [OF b1 n(2,1)])
    show "social (mem_of (a_join r s g V)) (bg_of (a_join r s g V)) (L (a_join r s g V))"
      using n(3) mem_of_bare [OF n(2)] bg_of_bare [OF n(2)] mem bg by simp
    show "ids_ok Y (a_join r s g V)" by (rule ids_ok_bare [OF ids n(2)])
    fix q Q assume "G (a_join r s g V) q = Some Q"
    then obtain Q1 where Q1: "G ?V1 q = Some Q1" "bare Q1 = bare Q" using same_bareD(1) [OF n(2)] by blast
    show "size_ok Q \<or> q \<in> insert r X" using Q1(1) d(4) [of q] size_ok_bare [OF Q1(2)] by (auto split: if_splits)
  qed
qed

text \<open>\<open>AddMember\<close>\<close>

lemma has_party:
  assumes "G (view w) r = Some P"
  obtains p where "pw_groups w r = Some p" "party_view p = P"
  using assms by auto

lemma a_grp_grp [simp]: "a_grp r F (a_grp r H V) = a_grp r (F \<circ> H) V"
  by (simp add: a_grp_def option.map_comp fun_upd_idem_iff)

lemma a_pl_id: "map_option H (L V g) = L V g \<Longrightarrow> a_pl g H V = V" by (simp add: a_pl_def fun_upd_idem)

lemma view_counter_increase [view_op]:
  assumes "pw_groups w r = Some p" "\<And>cs. pa_counts p = Some cs \<Longrightarrow> unat s < length cs"
  shows "view (sub_group_counter_increase r s w) = a_grp r (inc_counts s) (view w)"
proof (cases "pa_counts p")
  case None
  then have "inc_counts s (party_view p) = party_view p" by (simp add: inc_counts_def party_view_def)
  then have "a_grp r (inc_counts s) (view w) = view w" using assms(1) by (simp add: a_grp_def fun_upd_idem)
  then show ?thesis using assms(1) None by (simp add: sub_group_counter_increase_def sub_group_counter_def)
next
  case (Some cs)
  let ?f = "\<lambda>p. p\<lparr>pa_counts := Some (cs[unat s := cs ! unat s + 1])\<rparr>"
  have "view (upd_party r ?f w) = a_grp r (inc_counts s) (view w)"
    using assms(1) Some by (auto simp: view_def upd_party_def a_grp_def find_connected_def fun_eq_iff inc_counts_def party_view_def)
  then show ?thesis using assms Some by (simp add: sub_group_counter_increase_def sub_group_counter_def)
qed

lemma view_link_new_member:
  assumes "refs_ok (view w)" "pw_groups w r = Some p" "\<not> pa_bf p" "s < 0x80"
    "\<And>q t. a_link_of MainLink g (view w) = Some (q, t) \<Longrightarrow> t < 0x80" "is_connected w g"
  shows "view (link_new_member r s g w) = a_new_link r s g (view w)"
proof -
  have h: "has r w" using assms(2) by simp
  have bg: "bg_of (view w) r \<longleftrightarrow> bg_or_bf p" using assms(2,3) by (simp add: bg_of_def is_bg_group_def is_bf_group_def)
  show ?thesis
  proof (cases "a_link_of MainLink g (view w)")
    case None
    then show ?thesis using assms h by (simp add: link_new_member_def a_new_link_def player_link_view view_op del: view_sel)
  next
    case (Some x)
    obtain q t where x: "x = (q, t)" by (cases x)
    have q: "has q w" using refs_ok_exists [OF assms(1)] Some x by blast
    have m: "(case find_connected w g of None \<Rightarrow> None | Some p \<Rightarrow> pp_group p) = Some (q, t)"
      using Some x by (simp add: a_link_of_view)
    have t: "t < 0x80" using assms(5) Some x by blast
    have v: "view (set_original_group (Some (q, t)) g w) = a_link OrigLink q t g (view w)"
      using assms(1) q t by (rule view_set_group(4))
    have r1: "refs_ok (a_link OrigLink q t g (view w))" using assms(1,6) q by (simp add: connected_view del: view_sel)
    have u: "view (unlink_main g (set_original_group (Some (q, t)) g w)) = a_unlink MainLink g (a_link OrigLink q t g (view w))"
      using view_unlink_main [of "set_original_group (Some (q, t)) g w" g] r1 unfolding v by simp
    have "view (set_battleground_raid r s g w) = a_link MainLink r s g (a_unlink MainLink g (a_link OrigLink q t g (view w)))"
      unfolding set_battleground_raid_def m Let_def
      using view_link_main [of "unlink_main g (set_original_group (Some (q, t)) g w)" r s g] r1 h unfolding u by (simp del: view_sel)
    then show ?thesis using assms h bg Some x
      by (simp add: link_new_member_def a_new_link_def player_link_view view_set_group(4) del: view_sel)
  qed
qed

lemma link_sub:
  assumes "parties_x X Y V" "a_link_of k g V = Some (q, t)"
  shows "unat t < 8" "mem_of V g q t"
proof -
  obtain l where l: "L V g = Some l" "link_of k l = Some (q, t)" using assms(2) by (auto simp: a_link_of_def Option.bind_eq_Some_conv)
  then show m: "mem_of V g q t" using socialD(1) [OF parties_xD(2) [OF assms(1)] l(1), of q t] by (cases k) auto
  then obtain P where P: "G V q = Some P" "(g, t) \<in> set (v_mem P)" by (auto simp: mem_of_def)
  show "unat t < 8" using basic_okD(6) [OF parties_xD(1) [OF assms(1)] P(1)] P(2) by (auto simp: shape_ok_def)
qed

lemma small_sub: "unat (s :: u8) < 8 \<Longrightarrow> s < 0x80"
  by (simp add: word_less_nat_alt)

lemma free_sub_group_some:
  "free_sub_group cs i = Some j \<Longrightarrow> i \<le> j \<and> j < i + length cs \<and> unat (cs ! (j - i)) < MAXGROUPSIZE"
proof (induction cs i rule: free_sub_group.induct)
  case (2 c cs i)
  show ?case
  proof (cases "unat c < MAXGROUPSIZE")
    case False
    then have "Suc i \<le> j \<and> j < Suc i + length cs \<and> unat (cs ! (j - Suc i)) < MAXGROUPSIZE" using 2 by simp
    then show ?thesis by (auto simp: nth_Cons')
  qed (use 2 in simp)
qed simp

lemma free_sub_group_none: "free_sub_group cs i = None \<longleftrightarrow> (\<forall>c \<in> set cs. MAXGROUPSIZE \<le> unat c)"
  by (induction cs i rule: free_sub_group.induct) auto

lemma join_sub_group_room:
  assumes "shape_ok (party_view p)" "join_sub_group p = Some s" "\<not> raid_view (party_view p) \<Longrightarrow> length (pa_members p) < MAXGROUPSIZE"
  shows "room (party_view p) s" "unat s < 8"
proof -
  have "room (party_view p) s \<and> unat s < 8"
  proof (cases "pa_counts p")
    case None
    then have "\<not> raid_view (party_view p)" using assms(1) by (auto simp: shape_ok_def)
    then show ?thesis using None assms(2,3) by (auto simp: join_sub_group_def room_def)
  next
    case (Some cs)
    then have r: "raid_view (party_view p)" using assms(1) by (auto simp: shape_ok_def split: if_splits)
    then have "length cs = 8" using Some assms(1) by (auto simp: shape_ok_def counts_ok_def)
    moreover obtain j where j: "free_sub_group (take 8 cs) 0 = Some j" "s = of_nat j"
      using assms(2) Some by (auto simp: join_sub_group_def)
    ultimately have "j < 8" "unat (cs ! j) < MAXGROUPSIZE" using free_sub_group_some [OF j(1)] by auto
    moreover from this have "unat s = j" using j(2) by (simp add: unat_of_nat take_bit_nat_eq_self)
    ultimately show ?thesis using Some by (simp add: room_def)
  qed
  then show "room (party_view p) s" "unat s < 8" by blast+
qed

text \<open>When a player may join: he is in no group that would be in the way.\<close>

definition may_join :: "wview \<Rightarrow> nat \<Rightarrow> guid \<Rightarrow> bool" where
  "may_join V r g \<longleftrightarrow>
     (\<exists>l. L V g = Some l \<and> l_inv l = None \<and> (\<forall>s. \<not> mem_of V g r s)
        \<and> (\<forall>q t. l_main l = Some (q, t) \<longrightarrow> (if bg_of V r then \<not> bg_of V q else bg_of V q \<and> l_orig l = None)))"

lemma not_mem_of: "G V r = Some P \<Longrightarrow> (\<forall>s. \<not> mem_of V g r s) \<longleftrightarrow> g \<notin> fst ` set (v_mem P)"
  by (force simp: mem_of_def)

lemma join_basic:
  assumes "basic_ok V" "G V r = Some P" "g \<notin> fst ` set (v_mem P)" "room P s" "v_bg P \<noteq> None \<Longrightarrow> raid_view P"
  shows "basic_ok (a_grp r (join_view g s) V)"
  by (rule basic_ok_grp [OF assms(1)])
     (use assms(2-5) basic_okD(6,7) [OF assms(1,2)] in \<open>auto intro!: shape_ok_join simp: rolls_ok_def\<close>)

lemma view_add_member:
  assumes "parties_x X Y (view w)" "pw_groups w r = Some p" "join_sub_group p = Some s" "may_join (view w) r g"
    "\<not> raid_view (party_view p) \<Longrightarrow> length (pa_members p) < MAXGROUPSIZE" "pa_bg p \<noteq> None \<Longrightarrow> raid_view (party_view p)"
  shows "fst (add_member env r g w) \<and> view (snd (add_member env r g w)) = a_join r s g (view w)"
proof -
  let ?V = "view w" and ?m = "new_member w g s"
  note d = parties_xD [OF assms(1)]
  have h: "G ?V r = Some (party_view p)" using assms(2) by simp
  have sh: "shape_ok (party_view p)" by (rule basic_okD(6) [OF d(1) h])
  have rm: "room (party_view p) s" "unat s < 8" by (rule join_sub_group_room [OF sh assms(3,5)]; assumption)+
  obtain l where l: "L ?V g = Some l" "l_inv l = None" "g \<notin> fst ` set (v_mem (party_view p))"
    using assms(4) not_mem_of [OF h] unfolding may_join_def by blast
  have b1: "basic_ok (a_grp r (join_view g s) ?V)" by (rule join_basic [OF d(1) h l(3) rm(1)]) (use assms(6) in simp)
  let ?w0 = "upd_party r (\<lambda>p. p\<lparr>pa_members := pa_members p @ [?m]\<rparr>) w"
  have 0: "view ?w0 = a_grp r (\<lambda>P. P\<lparr>v_mem := v_mem P @ [(g, s)]\<rparr>) ?V"
    by (rule view_upd_party) (use assms(2) in \<open>simp_all add: party_view_def new_member_def slot_view_def\<close>)
  have p0: "pw_groups ?w0 r = Some (p\<lparr>pa_members := pa_members p @ [?m]\<rparr>)" using assms(2) by (simp add: upd_party_def)
  let ?w1 = "sub_group_counter_increase r s ?w0"
  have "view ?w1 = a_grp r (inc_counts s) (view ?w0)"
    by (rule view_counter_increase [OF p0]) (use sh rm in \<open>auto simp: shape_ok_def counts_ok_def split: if_splits\<close>)
  moreover have fe: "inc_counts s \<circ> (\<lambda>P. P\<lparr>v_mem := v_mem P @ [(g, s)]\<rparr>) = join_view g s"
    by (auto simp: fun_eq_iff join_view_def inc_counts_def)
  ultimately have 1: "view ?w1 = a_grp r (join_view g s) ?V"
    unfolding 0 a_grp_grp fe by simp
  let ?wi = "set_invite None g ?w1"
  have i: "view ?wi = a_grp r (join_view g s) ?V"
    unfolding view_set_invite 1 by (rule a_pl_id) (use l inv_None_id in \<open>simp del: view_sel\<close>)
  let ?w2 = "link_new_member r s g ?wi"
  have "G (view ?wi) r = Some (join_view g s (party_view p))" unfolding i using h by (simp del: view_sel)
  then obtain pi where pi: "pw_groups ?wi r = Some pi" "party_view pi = join_view g s (party_view p)"
    by (rule has_party)
  have bf: "\<not> pa_bf pi"
  proof -
    have "pa_bf pi = v_bf (party_view pi)" by simp
    also have "\<dots> = pa_bf p" unfolding pi(2) by simp
    finally show ?thesis using sh by (simp add: shape_ok_def)
  qed
  have 2: "view ?w2 = a_join r s g ?V"
  proof -
    have "view ?w2 = a_new_link r s g (view ?wi)"
    proof (rule view_link_new_member [OF _ pi(1) bf small_sub [OF rm(2)]])
      show "refs_ok (view ?wi)" unfolding i by (rule basic_okD(1) [OF b1])
      show "t < 0x80" if "a_link_of MainLink g (view ?wi) = Some (q, t)" for q t
        using link_sub(1) [OF assms(1), of MainLink g q t] that small_sub unfolding i by simp
      show "is_connected ?wi g" unfolding connected_view i using l(1) by (simp del: view_sel)
    qed
    then show ?thesis unfolding i a_join_def .
  qed
  have hj: "G (a_join r s g ?V) r \<noteq> None" using h by (simp del: view_sel not_None_eq)
  let ?w2a = "upd_pp g (\<lambda>q. q\<lparr>pp_home_valid := pe_instance_ok env g\<rparr>) ?w2"
  have a: "view ?w2a = a_join r s g ?V"
    unfolding 2 [symmetric] by (rule view_upd_pp_light) (simp add: player_view_def)
  let ?w3 = "upd_party r clear_icons ?w2a"
  have "has r ?w2a" unfolding a by (rule hj)
  then have 3: "view ?w3 = a_join r s g ?V"
    unfolding a [symmetric] by (rule view_upd_party_light) (simp add: clear_icons_def party_view_def)
  let ?w4 = "if bg_or_bf p then ?w3 else pw_emit [DbInsMember (pa_db p) ?m] ?w3"
  have 4: "view ?w4 = a_join r s g ?V" using 3 by (simp del: view_sel)
  have h4: "has r ?w4" unfolding 4 by (rule hj)
  let ?w5 = "join_difficulties r g (send_update env r ?w4)"
  have 5: "view ?w5 = a_join r s g ?V"
    using view_send_update [OF h4, of env] view_join_difficulties [where r = r and g = g and w = "send_update env r ?w4"] 4 hj by metis
  let ?v = "case find_connected ?w5 g of None \<Rightarrow> 0 | Some q \<Rightarrow> pp_enchanting q"
  have "has r ?w5" unfolding 5 by (rule hj)
  then have 6: "view (upd_party r (raise_enchanting ?v) ?w5) = a_join r s g ?V"
    unfolding 5 [symmetric] by (rule view_upd_party_light) (simp add: raise_enchanting_def party_view_def)
  have "add_member env r g w = (True, upd_party r (raise_enchanting ?v) ?w5)"
    using assms(2,3) by (simp add: add_member_def Let_def)
  then show ?thesis using 6 by simp
qed

lemma parties_add_member:
  assumes "parties_x X Y (view w)" "pw_groups w r = Some p" "join_sub_group p = Some s" "may_join (view w) r g"
    "\<not> raid_view (party_view p) \<Longrightarrow> length (pa_members p) < MAXGROUPSIZE" "pa_bg p \<noteq> None \<Longrightarrow> raid_view (party_view p)"
    "r \<in> Y \<or> pa_members p \<noteq> [] \<or> pa_bg p \<noteq> None"
  shows "parties_x (insert r X) Y (view (snd (add_member env r g w)))"
proof -
  have h: "G (view w) r = Some (party_view p)" using assms(2) by simp
  have sh: "shape_ok (party_view p)" by (rule basic_okD(6) [OF parties_xD(1) [OF assms(1)] h])
  obtain l where l: "L (view w) g = Some l" "l_inv l = None" "g \<notin> fst ` set (v_mem (party_view p))"
    "\<And>q t. l_main l = Some (q, t) \<Longrightarrow> if bg_of (view w) r then \<not> bg_of (view w) q else bg_of (view w) q \<and> l_orig l = None"
    using assms(4) not_mem_of [OF h] unfolding may_join_def by blast
  have "parties_x (insert r X) Y (a_join r s g (view w))"
  proof (rule parties_join [OF assms(1) l(1,2) h l(3)])
    show "room (party_view p) s" by (rule join_sub_group_room(1) [OF sh assms(3,5)])
  qed (use assms(6,7) l(4) in auto)
  then show ?thesis using view_add_member [OF assms(1-6)] by simp
qed

end
