(* ===== verification/PartyLeave.thy ===== *)
theory PartyLeave
  imports PartyJoin
begin

text \<open>
  Leaving and disbanding as operations on views, and that they keep the invariant.
\<close>

section \<open>Out of a group\<close>

lemma parties_b_links:
  assumes "parties_b X Y B V" "same_bare V W" "refs_ok W" "social B' (bg_of V) (L W)"
  shows "parties_b X Y B' W"
  unfolding parties_b_def
proof (intro conjI allI impI)
  note d = parties_bD [OF assms(1)]
  show "basic_ok W" by (rule basic_ok_bare [OF d(1) assms(2,3)])
  show "social B' (bg_of W) (L W)" using assms(4) bg_of_bare [OF assms(2)] by simp
  show "ids_ok Y W" by (rule ids_ok_bare [OF d(3) assms(2)])
  show "size_ok P \<or> r \<in> X" if "G W r = Some P" for r P
    using same_bareD(1) [OF assms(2) that] d(4) [of r] size_ok_bare [of _ P] by blast
qed

definition a_leave :: "nat \<Rightarrow> guid \<Rightarrow> wview \<Rightarrow> wview" where
  "a_leave r g V =
     (if bg_of V r then
        a_unlink OrigLink g
          (case a_link_of OrigLink g V of None \<Rightarrow> a_unlink MainLink g V | Some (q, t) \<Rightarrow> a_link MainLink q t g (a_unlink MainLink g V))
      else if map_option fst (a_link_of OrigLink g V) = Some r then a_unlink OrigLink g V
      else a_unlink MainLink g V)"

definition a_out :: "nat \<Rightarrow> guid \<Rightarrow> wview \<Rightarrow> wview" where
  "a_out r g V = (if L V g = None then V else a_leave r g V)"

lemma leave_ok:
  assumes "refs_ok V" "L V g = Some l" "social B (bg_of V) (L V)" "B g r s"
  shows "refs_ok (a_leave r g V)" "same_bare V (a_leave r g V)" "social (minus_mem g r B) (bg_of V) (L (a_leave r g V))"
proof -
  have lk: "a_link_of MainLink g V = l_main l" "a_link_of OrigLink g V = l_orig l" using assms(2) by (simp_all add: a_link_of_def)
  have b: "l_main l = Some (r, s) \<or> l_orig l = Some (r, s)" using socialD(1) [OF assms(3,2)] assms(4) by blast
  have "refs_ok (a_leave r g V) \<and> same_bare V (a_leave r g V) \<and> social (minus_mem g r B) (bg_of V) (L (a_leave r g V))"
  proof (cases "bg_of V r")
    case True
    then have m: "l_main l = Some (r, s)" using b socialD(2) [OF assms(3,2)] by blast
    note soc = social_leave_bg [OF assms(3,2) m True]
    show ?thesis
    proof (cases "l_orig l")
      case None
      then have W: "a_leave r g V = a_unlink OrigLink g (a_unlink MainLink g V)" using True lk by (simp add: a_leave_def)
      have "L (a_leave r g V) = (L V)(g \<mapsto> l\<lparr>l_main := l_orig l, l_orig := None\<rparr>)"
        unfolding W using assms(2) None by (auto simp: a_unlink_L)
      then show ?thesis using soc assms(1) same_bare_trans [OF same_bare_unlink same_bare_unlink] unfolding W by simp
    next
      case (Some x)
      obtain q t where x: "x = (q, t)" by (cases x)
      have q: "G V q \<noteq> None" using refs_ok_exists [OF assms(1), of OrigLink g q t] lk Some x by simp
      have W: "a_leave r g V = a_unlink OrigLink g (a_link MainLink q t g (a_unlink MainLink g V))"
        using True lk Some x by (simp add: a_leave_def)
      have "L (a_leave r g V) = (L V)(g \<mapsto> l\<lparr>l_main := l_orig l, l_orig := None\<rparr>)"
        unfolding W using assms(2) Some x by (auto simp: a_unlink_L a_link_L)
      moreover have "refs_ok (a_leave r g V)" unfolding W using assms(1,2) q by (simp add: a_unlink_L)
      moreover have "same_bare V (a_leave r g V)" unfolding W
        using same_bare_trans [OF same_bare_trans [OF same_bare_unlink same_bare_link] same_bare_unlink] .
      ultimately show ?thesis using soc by simp
    qed
  next
    case False
    show ?thesis
    proof (cases "map_option fst (l_orig l) = Some r")
      case True
      then obtain t where o1: "l_orig l = Some (r, t)" by (cases "l_orig l") auto
      have W: "a_leave r g V = a_unlink OrigLink g V" using False True lk by (simp add: a_leave_def)
      have "L (a_leave r g V) = (L V)(g \<mapsto> l\<lparr>l_orig := None\<rparr>)" unfolding W using assms(2) by (auto simp: a_unlink_L)
      then show ?thesis using social_leave_orig [OF assms(3,2) o1] assms(1) unfolding W by simp
    next
      case o1: False
      then have m: "l_main l = Some (r, s)" using b by auto
      have W: "a_leave r g V = a_unlink MainLink g V" using False o1 lk by (simp add: a_leave_def)
      have "L (a_leave r g V) = (L V)(g \<mapsto> l\<lparr>l_main := None\<rparr>)" unfolding W using assms(2) by (auto simp: a_unlink_L)
      then show ?thesis using social_leave_main [OF assms(3,2) m False] assms(1) unfolding W by simp
    qed
  qed
  then show "refs_ok (a_leave r g V)" "same_bare V (a_leave r g V)" "social (minus_mem g r B) (bg_of V) (L (a_leave r g V))" by blast+
qed

lemma a_leave_other: "h \<noteq> g \<Longrightarrow> L (a_leave r g V) h = L V h"
  by (auto simp: a_leave_def a_unlink_L a_link_L split: option.split)

lemma a_out_None: "L (a_out r g V) h = None \<longleftrightarrow> L V h = None" "G (a_out r g V) q = None \<longleftrightarrow> G V q = None"
  by (auto simp: a_out_def a_leave_def a_unlink_L a_link_L split: option.split)

lemma parties_out:
  assumes "parties_b X Y B V" "B g r s"
  shows "parties_b X Y (minus_mem g r B) (a_out r g V)" "same_bare V (a_out r g V)"
proof -
  note d = parties_bD [OF assms(1)]
  have "parties_b X Y (minus_mem g r B) (a_out r g V) \<and> same_bare V (a_out r g V)"
  proof (cases "L V g")
    case None
    then show ?thesis using social_leave_off [OF d(2) None, of r] d by (auto simp: a_out_def parties_b_def)
  next
    case (Some l)
    note k = leave_ok [OF basic_okD(1) [OF d(1)] Some d(2) assms(2)]
    show ?thesis using parties_b_links [OF assms(1) k(2,1,3)] k(2) Some by (simp add: a_out_def)
  qed
  then show "parties_b X Y (minus_mem g r B) (a_out r g V)" "same_bare V (a_out r g V)" by blast+
qed

lemma bg_view: "pw_groups w r = Some p \<Longrightarrow> \<not> pa_bf p \<Longrightarrow> bg_or_bf p \<longleftrightarrow> bg_of (view w) r"
  by (simp add: bg_of_def is_bg_group_def is_bf_group_def)

lemma not_bf: "basic_ok (view w) \<Longrightarrow> pw_groups w r = Some p \<Longrightarrow> \<not> pa_bf p"
  using basic_okD(6) [of "view w" r "party_view p"] by (simp add: shape_ok_def)

lemma b_link_sub:
  assumes "parties_b X Y B V" "\<And>g r s. B g r s \<Longrightarrow> mem_of V g r s" "a_link_of k g V = Some (q, t)"
  shows "unat t < 8" "mem_of V g q t"
proof -
  obtain l where l: "L V g = Some l" "link_of k l = Some (q, t)" using assms(3) by (auto simp: a_link_of_def Option.bind_eq_Some_conv)
  then have "B g q t" using socialD(1) [OF parties_bD(2) [OF assms(1)] l(1), of q t] by (cases k) auto
  then show m: "mem_of V g q t" by (rule assms(2))
  then obtain P where P: "G V q = Some P" "(g, t) \<in> set (v_mem P)" by (auto simp: mem_of_def)
  show "unat t < 8" using basic_okD(6) [OF parties_bD(1) [OF assms(1)] P(1)] P(2) by (auto simp: shape_ok_def)
qed

lemma view_leave_link:
  assumes "parties_b X Y B (view w)" "has r w" "\<And>g r s. B g r s \<Longrightarrow> mem_of (view w) g r s"
  shows "view (leave_link r g w) = a_leave r g (view w)"
proof -
  note d = parties_bD [OF assms(1)]
  have ro: "refs_ok (view w)" by (rule basic_okD(1) [OF d(1)])
  obtain p where p: "pw_groups w r = Some p" using assms(2) by auto
  note bg = bg_view [OF p not_bf [OF d(1) p]]
  show ?thesis
  proof (cases "bg_of (view w) r")
    case True
    let ?w1 = "unlink_main g w"
    have 1: "view ?w1 = a_unlink MainLink g (view w)" using ro by (rule view_unlink_main)
    have r1: "refs_ok (view ?w1)" unfolding 1 using ro by simp
    have x: "(case find_connected ?w1 g of None \<Rightarrow> None | Some q \<Rightarrow> pp_orig q) = a_link_of OrigLink g (view w)"
      using a_unlink_link_of [of OrigLink g MainLink g "view w"] unfolding 1 [symmetric] a_link_of_view(2) by simp
    have "view (remove_from_battleground_raid g w) = a_leave r g (view w)"
    proof (cases "a_link_of OrigLink g (view w)")
      case None
      then show ?thesis
        unfolding remove_from_battleground_raid_def x Let_def using True view_set_group(3) [OF r1] 1
        by (simp add: a_leave_def del: view_sel)
    next
      case (Some y)
      obtain q t where y: "y = (q, t)" by (cases y)
      have q: "has q w" using refs_ok_exists [OF ro] Some y by blast
      have h1: "has q ?w1" unfolding 1 using q by (simp del: view_sel not_None_eq)
      have cn: "L (view ?w1) g \<noteq> None"
        using Some unfolding 1 by (cases "L (view w) g") (auto simp: a_unlink_L a_link_of_def simp del: view_sel)
      let ?w2 = "link_main q t g ?w1"
      have 2: "view ?w2 = a_link MainLink q t g (view ?w1)" using r1 h1 by (rule view_link_main)
      have "refs_ok (view ?w2)" unfolding 2 using r1 h1 cn by simp
      then show ?thesis
        unfolding remove_from_battleground_raid_def x Let_def using True view_set_group(3) [of ?w2 g] Some y 1 2
        by (simp add: a_leave_def del: view_sel)
    qed
    then show ?thesis using p bg True by (simp add: leave_link_def del: view_sel)
  next
    case False
    then show ?thesis
      using p bg view_set_group(1,3) [OF ro] by (auto simp: leave_link_def a_leave_def player_link_view simp del: view_sel)
  qed
qed

text \<open>Nobody joins, is invited or made a raid of a battleground.\<close>

definition shrinks :: "wview \<Rightarrow> wview \<Rightarrow> bool" where
  "shrinks V W \<longleftrightarrow>
     (\<forall>h q t. mem_of W h q t \<longrightarrow> mem_of V h q t) \<and> (\<forall>q. bg_of W q \<longrightarrow> bg_of V q) \<and> (\<forall>h. L W h = None \<longleftrightarrow> L V h = None)
   \<and> (\<forall>h l i. L W h = Some l \<and> l_inv l = Some i \<longrightarrow> (\<exists>l0. L V h = Some l0 \<and> l_inv l0 = Some i))
   \<and> (\<forall>k q. v_bgs W k = Some q \<longrightarrow> v_bgs V k = Some q) \<and> (\<forall>q. G V q = None \<longrightarrow> G W q = None)"

lemma shrinks_refl [simp]: "shrinks V V"
  by (auto simp: shrinks_def)

lemma shrinksD:
  assumes "shrinks V W"
  shows "mem_of W h q t \<Longrightarrow> mem_of V h q t" "bg_of W q \<Longrightarrow> bg_of V q" "L W h = None \<longleftrightarrow> L V h = None"
    "L W h = Some l \<Longrightarrow> l_inv l = Some i \<Longrightarrow> \<exists>l0. L V h = Some l0 \<and> l_inv l0 = Some i"
    "v_bgs W k = Some j \<Longrightarrow> v_bgs V k = Some j" "G V q = None \<Longrightarrow> G W q = None"
  using assms unfolding shrinks_def by blast+

lemma shrinksI:
  assumes "\<And>h q t. mem_of W h q t \<Longrightarrow> mem_of V h q t" "\<And>q. bg_of W q \<Longrightarrow> bg_of V q" "\<And>h. L W h = None \<longleftrightarrow> L V h = None"
    "\<And>h l i. L W h = Some l \<Longrightarrow> l_inv l = Some i \<Longrightarrow> \<exists>l0. L V h = Some l0 \<and> l_inv l0 = Some i"
    "\<And>k q. v_bgs W k = Some q \<Longrightarrow> v_bgs V k = Some q" "\<And>q. G V q = None \<Longrightarrow> G W q = None"
  shows "shrinks V W"
  unfolding shrinks_def using assms by (intro conjI allI impI) (blast+)

lemma shrinks_trans:
  assumes "shrinks U V" "shrinks V W"
  shows "shrinks U W"
proof (rule shrinksI)
  show "\<exists>l0. L U h = Some l0 \<and> l_inv l0 = Some i" if W: "L W h = Some l" "l_inv l = Some i" for h l i
  proof -
    obtain l1 where "L V h = Some l1" "l_inv l1 = Some i" using shrinksD(4) [OF assms(2) W] by blast
    then show ?thesis by (rule shrinksD(4) [OF assms(1)])
  qed
  show "L W h = None \<longleftrightarrow> L U h = None" for h unfolding shrinksD(3) [OF assms(2)] by (rule shrinksD(3) [OF assms(1)])
qed (erule shrinksD(1) [OF assms(1), OF shrinksD(1) [OF assms(2)]]
  shrinksD(2) [OF assms(1), OF shrinksD(2) [OF assms(2)]] shrinksD(5) [OF assms(1), OF shrinksD(5) [OF assms(2)]]
  shrinksD(6) [OF assms(2), OF shrinksD(6) [OF assms(1)]])+

lemma shrinks_bare: "same_bare V W \<Longrightarrow> (\<And>h. L W h = None \<longleftrightarrow> L V h = None) \<Longrightarrow> shrinks V W"
proof (rule shrinksI)
  assume b: "same_bare V W" and n: "\<And>h. L W h = None \<longleftrightarrow> L V h = None"
  show "L W h = None \<longleftrightarrow> L V h = None" for h by (rule n)
  show "\<exists>l0. L V h = Some l0 \<and> l_inv l0 = Some i" if "L W h = Some l" "l_inv l = Some i" for h l i
    using same_bareD(2) [OF b that(1)] that(2) by auto
  show "G W q = None" if "G V q = None" for q using same_bare_None [OF b] that by blast
qed (simp_all add: mem_of_bare bg_of_bare same_bare_sel)

lemma same_bare_L_None: "same_bare V W \<Longrightarrow> L W h = None \<longleftrightarrow> L V h = None"
  unfolding same_bare_def by (metis option.map_disc_iff)

lemma shrinks_grp:
  assumes "\<And>P. G V r = Some P \<Longrightarrow> set (v_mem (F P)) \<subseteq> set (v_mem P) \<and> v_bg (F P) = v_bg P"
  shows "shrinks V (a_grp r F V)"
proof (rule shrinksI)
  show "mem_of V h q t" if "mem_of (a_grp r F V) h q t" for h q t
    using that assms by (fastforce simp: mem_of_def split: if_splits)
  show "bg_of V q" if bg: "bg_of (a_grp r F V) q" for q
  proof -
    obtain Q where Q: "G (a_grp r F V) q = Some Q" "v_bg Q \<noteq> None" using bg unfolding bg_of_def by blast
    obtain P where P: "G V q = Some P" "v_bg P = v_bg Q" using Q(1) assms by (cases "q = r") auto
    show ?thesis unfolding bg_of_def using P Q(2) by auto
  qed
qed (auto split: if_splits)

section \<open>Disbanding\<close>

definition empty_view :: "pview \<Rightarrow> pview" where "empty_view P = P\<lparr>v_mem := [], v_rolls := []\<rparr>"

lemma view_disband_member:
  assumes "parties_b X Y B (view w)" "has r w" "B (mb_guid m) r s" "\<And>g r s. B g r s \<Longrightarrow> mem_of (view w) g r s"
  shows "view (disband_member env hide r m w) = a_out r (mb_guid m) (view w)"
proof (cases "L (view w) (mb_guid m)")
  case None
  then show ?thesis by (simp add: disband_member_def connected_view a_out_def del: view_sel)
next
  case (Some l)
  let ?g = "mb_guid m"
  note d = parties_bD [OF assms(1)]
  let ?w1 = "leave_link r ?g w"
  have 1: "view ?w1 = a_out r ?g (view w)"
    using view_leave_link [OF assms(1,2,4)] Some by (simp add: a_out_def del: view_sel)
  let ?w2 = "if hide then ?w1 else pw_emit [PPacket ?g SMSG_GROUP_DESTROYED []] ?w1"
  have 2: "view ?w2 = a_out r ?g (view w)" using 1 by (simp del: view_sel)
  have h2: "has r ?w2" unfolding 2 using assms(2) by (simp add: a_out_None del: view_sel not_None_eq)
  have r2: "refs_ok (view ?w2)" unfolding 2 by (rule basic_okD(1) [OF parties_bD(1) [OF parties_out(1) [OF assms(1,3)]]])
  let ?w3 = "case player_group ?w2 ?g of Some q \<Rightarrow> send_update env q ?w2 | None \<Rightarrow> send_empty_list r ?g ?w2"
  have "view ?w3 = view ?w2"
  proof (cases "player_group ?w2 ?g")
    case None
    then show ?thesis using view_send_empty_list [OF h2] by (simp del: view_sel)
  next
    case (Some q)
    then obtain t where "a_link_of MainLink ?g (view ?w2) = Some (q, t)" by (auto simp: player_link_view simp del: view_sel)
    then have "has q ?w2" by (rule refs_ok_exists [OF r2])
    then show ?thesis using Some by (simp add: view_send_update del: view_sel)
  qed
  then have "view (homebind_if_instance env ?g ?w3) = a_out r ?g (view w)" using 2 by (simp del: view_sel)
  moreover have "is_connected w ?g" using Some by (simp add: connected_view del: view_sel)
  ultimately show ?thesis by (simp add: disband_member_def Let_def del: view_sel)
qed

definition minus_all :: "guid set \<Rightarrow> nat \<Rightarrow> (guid \<Rightarrow> nat \<Rightarrow> u8 \<Rightarrow> bool) \<Rightarrow> guid \<Rightarrow> nat \<Rightarrow> u8 \<Rightarrow> bool" where
  "minus_all M r B h q t \<longleftrightarrow> B h q t \<and> \<not> (h \<in> M \<and> q = r)"

lemma fold_disband_member:
  assumes "parties_b X Y B (view w)" "has r w" "\<And>m. m \<in> set ms \<Longrightarrow> \<exists>s. B (mb_guid m) r s" "distinct (map mb_guid ms)"
    "\<And>g r s. B g r s \<Longrightarrow> mem_of (view w) g r s"
  shows "parties_b X Y (minus_all (mb_guid ` set ms) r B) (view (fold (disband_member env hide r) ms w))
    \<and> same_bare (view w) (view (fold (disband_member env hide r) ms w))"
  using assms
proof (induction ms arbitrary: w B)
  case Nil
  have "minus_all {} r B = B" by (simp add: minus_all_def fun_eq_iff)
  then show ?case using Nil by simp
next
  case (Cons m ms)
  obtain s where s: "B (mb_guid m) r s" using Cons.prems(3) [of m] by auto
  let ?w1 = "disband_member env hide r m w" and ?B1 = "minus_mem (mb_guid m) r B"
  have v: "view ?w1 = a_out r (mb_guid m) (view w)" by (rule view_disband_member [OF Cons.prems(1,2) s Cons.prems(5)])
  note p = parties_out [OF Cons.prems(1) s]
  have "parties_b X Y (minus_all (mb_guid ` set ms) r ?B1) (view (fold (disband_member env hide r) ms ?w1))
    \<and> same_bare (view ?w1) (view (fold (disband_member env hide r) ms ?w1))"
  proof (rule Cons.IH)
    show "parties_b X Y ?B1 (view ?w1)" unfolding v by (rule p(1))
    show "has r ?w1" unfolding v using Cons.prems(2) by (simp add: a_out_None del: view_sel not_None_eq)
    show "\<exists>s. ?B1 (mb_guid m') r s" if "m' \<in> set ms" for m'
    proof -
      obtain u where "B (mb_guid m') r u" using Cons.prems(3) [of m'] \<open>m' \<in> set ms\<close> by auto
      moreover have "mb_guid m' \<noteq> mb_guid m" using Cons.prems(4) \<open>m' \<in> set ms\<close> by (force simp: image_iff)
      ultimately show ?thesis by (auto simp: minus_mem_def)
    qed
    show "distinct (map mb_guid ms)" using Cons.prems(4) by simp
    show "mem_of (view ?w1) g q t" if "?B1 g q t" for g q t
      using Cons.prems(5) that mem_of_bare [OF p(2)] unfolding v by (simp add: minus_mem_def del: view_sel)
  qed
  moreover have "minus_all (mb_guid ` set ms) r ?B1 = minus_all (mb_guid ` set (m # ms)) r B"
    by (auto simp: minus_all_def minus_mem_def fun_eq_iff)
  ultimately show ?case using same_bare_trans [OF p(2)] v by simp
qed

text \<open>Storage ids: one is taken, one is freed.\<close>

lemma unat_inj: "unat (i :: u32) = unat j \<longleftrightarrow> i = j"
  by (rule word_unat_eq_iff [symmetric])

lemma free_db:
  assumes "db_ok d" "group_by_db_id d i = Some r"
  obtains d' where "free_db_id i d = Some d'" "db_ok d'" "\<And>j. group_by_db_id d' j = (if j = i then None else group_by_db_id d j)"
proof -
  have i: "unat i < length (db_store d)" "db_store d ! unat i = Some r" using assms(2) by (auto simp: group_by_db_id_def split: if_splits)
  then have u: "unat i \<in> db_used d" by (simp add: db_used_def)
  obtain d' where f: "free_db_id i d = Some d'" using i by (auto simp: free_db_id_def Let_def)
  have ok: "db_ok d'" using db_delete(1) [OF assms(1) u] f by simp
  have g: "group_by_db_id d' j = (if j = i then None else group_by_db_id d j)" for j
  proof -
    have "d' = (if i < db_next d then d\<lparr>db_next := i\<rparr> else d)\<lparr>db_store := (db_store d)[unat i := None]\<rparr>"
      using f i by (simp add: free_db_id_def Let_def)
    then show ?thesis using i unat_inj [of i j] by (auto simp: group_by_db_id_def nth_list_update)
  qed
  show ?thesis using that f ok g by blast
qed

lemma register_db:
  assumes "db_ok d" "db_next d < 0xFFFFFFFE"
  obtains i d1 d2 where "generate_db_id d = (i, d1)" "register_db_id i r d1 = Some d2" "db_ok d2"
    "group_by_db_id d i = None" "\<And>j. group_by_db_id d2 j = (if j = i then Some r else group_by_db_id d j)"
proof -
  obtain i d1 where g: "generate_db_id d = (i, d1)" by (cases "generate_db_id d")
  then have i: "i = db_next d" and s1: "db_store d1 = db_store d" by (auto simp: generate_db_id_def Let_def)
  have n: "unat i < 0xFFFFFFFF" using assms(2) i by (simp add: word_less_nat_alt)
  obtain d2 where d2: "register_db_id i r d1 = Some d2" using register_used [OF n, of r d1] by auto
  have ok: "db_ok d2" using db_create(1) [OF assms, of r] g d2 by (simp add: i)
  have free: "group_by_db_id d i = None"
    using assms(1) i by (auto simp: db_ok_def db_used_def group_by_db_id_def)
  have eq: "group_by_db_id d2 j = (if j = i then Some r else group_by_db_id d j)" for j
  proof (cases "length (db_store d) \<le> unat i")
    case True
    have u: "unat (i + 1) = Suc (unat i)" using n by (rule Suc_u32)
    then have "db_store d2 = (resize_store (Suc (unat i)) (db_store d))[unat i := Some r]" using d2 True s1
      by (auto simp: register_db_id_def Let_def split: if_splits)
    then show ?thesis using True unat_inj [of i j] by (auto simp: group_by_db_id_def nth_list_update nth_resize)
  next
    case False
    then have "db_store d2 = (db_store d)[unat i := Some r]" using d2 s1
      by (auto simp: register_db_id_def Let_def split: if_splits)
    then show ?thesis using False unat_inj [of i j] by (auto simp: group_by_db_id_def nth_list_update)
  qed
  show ?thesis using that g d2 ok free eq by blast
qed

text \<open>A group without members in the sense of \<open>B\<close> and without invitations is deleted.\<close>

definition a_drop :: "nat \<Rightarrow> wview \<Rightarrow> wview" where
  "a_drop r V = V\<lparr>G := (G V)(r := None), v_bgs := (case Option.bind (G V r) v_bg of None \<Rightarrow> v_bgs V
     | Some k \<Rightarrow> if v_bgs V k = Some r then (v_bgs V)(k := None) else v_bgs V)\<rparr>"

lemma a_drop_sel [simp]:
  "G (a_drop r V) = (G V)(r := None)" "L (a_drop r V) = L V" "v_next (a_drop r V) = v_next V" "v_ids (a_drop r V) = v_ids V"
  "v_loots (a_drop r V) = v_loots V" "v_item (a_drop r V) = v_item V" "v_fault (a_drop r V) = v_fault V"
  by (simp_all add: a_drop_def)

lemma no_refs:
  assumes "parties_b X Y B V" "\<And>g s. \<not> B g r s" "G V r = Some P"
  shows "v_refs P = []" "a_link_of k g V \<noteq> Some (r, s)"
proof -
  have n: "a_link_of k g V \<noteq> Some (r, s)" for k g s
  proof
    assume "a_link_of k g V = Some (r, s)"
    then obtain l where l: "L V g = Some l" "link_of k l = Some (r, s)" by (auto simp: a_link_of_def Option.bind_eq_Some_conv)
    then show False using socialD(1) [OF parties_bD(2) [OF assms(1)] l(1), of r s] assms(2) by (cases k) auto
  qed
  then show "a_link_of k g V \<noteq> Some (r, s)" .
  have "(g, k) \<notin> set (v_refs P)" for g k
    using refs_okD(2) [OF basic_okD(1) [OF parties_bD(1) [OF assms(1)]] assms(3), of g k] n by auto
  then show "v_refs P = []" by (cases "v_refs P") auto
qed

lemma parties_drop:
  assumes "parties_b X Y B V" "\<And>g s. \<not> B g r s" "G V r = Some P" "v_inv P = []"
    "db_ok d" "\<And>j. group_by_db_id d j = (if (stored P \<or> r \<in> Y) \<and> j = v_db P then None else group_by_db_id (v_ids V) j)"
  shows "parties_b (X - {r}) (Y - {r}) B ((a_drop r V)\<lparr>v_ids := d\<rparr>)"
proof -
  note D = parties_bD [OF assms(1)] and b = basic_okD [OF parties_bD(1) [OF assms(1)]] and n = no_refs [OF assms(1,2,3)]
  let ?V = "(a_drop r V)\<lparr>v_ids := d\<rparr>"
  have lk: "a_link_of k g ?V = a_link_of k g V" for k g by (simp add: a_link_of_def)
  have bgs: "v_bgs ?V = (case v_bg P of None \<Rightarrow> v_bgs V | Some k \<Rightarrow> (v_bgs V)(k := None))"
    using b(3) assms(3) unfolding bgs_ok_def by (auto simp: a_drop_def split: option.split)
  show ?thesis unfolding parties_b_def basic_ok_def
  proof (intro conjI allI impI)
    show "refs_ok ?V" using b(1) n(2) unfolding refs_ok_def lk by auto
    show "invites_ok ?V" unfolding invites_ok_def
    proof (intro conjI allI impI)
      fix q Q assume "G ?V q = Some Q"
      then have Q: "G V q = Some Q" by (simp split: if_splits)
      show "os_inv (v_inv Q)" by (rule invites_okD(1) [OF b(2) Q])
      show "g \<in> set (v_inv Q) \<longleftrightarrow> (\<exists>l. L ?V g = Some l \<and> l_inv l = Some q)" for g using invites_okD(2) [OF b(2) Q, of g] by simp
    next
      fix g l q assume a: "L ?V g = Some l \<and> l_inv l = Some q"
      then have "q \<noteq> r" using invites_okD(2) [OF b(2) assms(3), of g] assms(4) by auto
      then show "G ?V q \<noteq> None" using invites_okD(3) [OF b(2), of g l q] a by simp
    qed
    show "bgs_ok ?V" unfolding bgs_ok_def
    proof (intro allI)
      fix k q
      have "v_bgs V k = Some q \<longleftrightarrow> (\<exists>P. G V q = Some P \<and> v_bg P = Some k)" "v_bgs V k = Some r \<longleftrightarrow> v_bg P = Some k"
        using b(3) assms(3) unfolding bgs_ok_def by auto
      then show "v_bgs ?V k = Some q \<longleftrightarrow> (\<exists>P. G ?V q = Some P \<and> v_bg P = Some k)"
        unfolding bgs using assms(3) by (cases "q = r") (auto split: option.split)
    qed
    show "G ?V q = None" if "v_next ?V \<le> q" for q using b(4) [of q] that by simp
    show "\<not> v_fault ?V" using b(5) by simp
    show "shape_ok Q" if "G ?V q = Some Q" for q Q using that b(6) by (simp split: if_splits)
    show "rolls_ok ?V Q" if "G ?V q = Some Q" for q Q
    proof -
      have "rolls_ok V Q" using that b(7) by (simp split: if_splits)
      then show ?thesis by (simp add: rolls_ok_def)
    qed
    have "social B (bg_of ?V) (L V)"
      by (rule social_cong [OF D(2)]) (use assms(2) in \<open>auto simp: bg_of_def\<close>)
    then show "social B (bg_of ?V) (L ?V)" by simp
    show "ids_ok (Y - {r}) ?V" unfolding ids_ok_def
    proof (intro conjI allI)
      show "db_ok (v_ids ?V)" using assms(5) by simp
      fix i q
      have e: "group_by_db_id (v_ids V) j = Some q' \<longleftrightarrow> (\<exists>P. G V q' = Some P \<and> (stored P \<or> q' \<in> Y) \<and> v_db P = j)" for j q'
        using D(3) unfolding ids_ok_def by blast
      show "group_by_db_id (v_ids ?V) i = Some q \<longleftrightarrow> (\<exists>P. G ?V q = Some P \<and> (stored P \<or> q \<in> Y - {r}) \<and> v_db P = i)"
        using e [of i q] e [of i r] assms(3,6) by (cases "q = r") auto
    qed
    show "size_ok Q \<or> q \<in> X - {r}" if "G ?V q = Some Q" for q Q using that D(4) [of q Q] by (auto split: if_splits)
  qed
qed

lemma parties_drop_x:
  assumes "parties_b X Y B V" "\<And>g s. \<not> B g r s" "G V r = Some P" "v_inv P = []"
    "db_ok d" "\<And>j. group_by_db_id d j = (if (stored P \<or> r \<in> Y) \<and> j = v_db P then None else group_by_db_id (v_ids V) j)"
    "\<And>g q s. B g q s \<longleftrightarrow> mem_of V g q s \<and> q \<noteq> r"
  shows "parties_x (X - {r}) (Y - {r}) ((a_drop r V)\<lparr>v_ids := d\<rparr>)"
proof -
  have "B = mem_of ((a_drop r V)\<lparr>v_ids := d\<rparr>)" using assms(7) by (auto simp: fun_eq_iff mem_of_def)
  then show ?thesis using parties_drop [OF assms(1-6)] unfolding parties_x_b by simp
qed

lemma a_clear_empty: "a_clear r (a_grp r empty_view V) = a_grp r empty_view (a_clear r V)"
proof (cases "G V r")
  case (Some P)
  have c: "fold (\<lambda>g. a_pl g H) gs (a_grp r F V) = a_grp r F (fold (\<lambda>g. a_pl g H) gs V)" for gs H F V
  proof (induction gs arbitrary: V)
    case (Cons g gs)
    have k: "a_pl g H (a_grp r F V) = a_grp r F (a_pl g H V)" by (simp add: a_pl_def a_grp_def)
    show ?case by (simp only: fold_simps k Cons.IH)
  qed simp
  have "(\<lambda>P. P\<lparr>v_inv := []\<rparr>) \<circ> empty_view = empty_view \<circ> (\<lambda>P. P\<lparr>v_inv := []\<rparr>)" by (auto simp: fun_eq_iff empty_view_def)
  then show ?thesis using Some by (simp add: a_clear_def c) (simp add: empty_view_def)
qed (simp add: a_clear_def)

lemma view_remove_group [view_light]: "has r w \<Longrightarrow> view (remove_group r w) = view w"
  unfolding remove_group_def by (rule with_party_view) (auto intro: view_ext simp: find_connected_def)

lemma view_add_group [view_light]: "has r w \<Longrightarrow> view (add_group r w) = view w"
  unfolding add_group_def by (rule with_party_view) (auto intro: view_ext simp: find_connected_def)

lemma view_delete_party:
  assumes "G (view w) r = Some P" "v_refs P = []"
  shows "view (delete_party r w) = a_drop r (view w)"
proof -
  obtain p where p: "pw_groups w r = Some p" "party_view p = P" using assms(1) by (rule has_party)
  then have "pa_refs p = []" "v_bg P = pa_bg p" using assms(2) by auto
  then show ?thesis using p
    by (auto simp: delete_party_def view_def a_drop_def Let_def find_connected_def fun_eq_iff split: option.split)
qed

lemma a_drop_grp: "(\<And>P. v_bg (F P) = v_bg P) \<Longrightarrow> a_drop r ((a_grp r F V)\<lparr>v_ids := d\<rparr>) = (a_drop r V)\<lparr>v_ids := d\<rparr>"
proof -
  assume "\<And>P. v_bg (F P) = v_bg P"
  then have "Option.bind (map_option F (G V r)) v_bg = Option.bind (G V r) v_bg" by (cases "G V r") simp_all
  then show ?thesis by (cases "Option.bind (G V r) v_bg") (simp_all add: a_drop_def a_grp_def)
qed

lemma view_disband_stored:
  assumes "G (view w) r = Some P" "\<not> v_bf P" "ids_ok Y V" "v_ids (view w) = v_ids V" "G V r = Some Q" "v_bg Q = v_bg P" "v_db Q = v_db P"
    "stored Q \<or> r \<in> Y \<or> v_bg P \<noteq> None" "r \<in> Y \<Longrightarrow> v_bg P = None"
  obtains d where "view (disband_stored r w) = (view w)\<lparr>v_ids := d\<rparr>" "db_ok d"
    "\<And>j. group_by_db_id d j = (if (stored Q \<or> r \<in> Y) \<and> j = v_db Q then None else group_by_db_id (v_ids V) j)"
proof -
  obtain p where p: "pw_groups w r = Some p" "party_view p = P" using assms(1) by (rule has_party)
  have b: "bg_or_bf p \<longleftrightarrow> v_bg P \<noteq> None" using p(2) assms(2) by (auto simp: is_bg_group_def is_bf_group_def)
  show ?thesis
  proof (cases "v_bg P = None")
    case True
    then have s: "stored Q \<or> r \<in> Y" using assms(8) by blast
    then have "group_by_db_id (v_ids V) (v_db Q) = Some r" using assms(3,5) unfolding ids_ok_def by blast
    then obtain d where d: "free_db_id (v_db Q) (v_ids V) = Some d" "db_ok d"
      "\<And>j. group_by_db_id d j = (if j = v_db Q then None else group_by_db_id (v_ids V) j)"
      using free_db [of "v_ids V" "v_db Q" r] assms(3) unfolding ids_ok_def by blast
    have "pa_db p = v_db Q" "pw_db w = v_ids V" using p(2) assms(4,7) by auto
    then have "view (disband_stored r w) = (view w)\<lparr>v_ids := d\<rparr>"
      using p(1) b True d(1) by (simp add: disband_stored_def Let_def pw_emit_def view_def find_connected_def)
    then show ?thesis using that d s by simp
  next
    case False
    have "view (disband_stored r w) = (view w)\<lparr>v_ids := v_ids V\<rparr>"
      using p(1) b False assms(4) by (simp add: disband_stored_def view_def)
    moreover have "\<not> stored Q" "r \<notin> Y" using False assms(6,9) by (auto simp: stored_def)
    ultimately show ?thesis using that assms(3) by (simp add: ids_ok_def)
  qed
qed

lemma parties_disband:
  assumes "parties_x X Y (view w)" "pw_groups w r = Some p" "pa_members p \<noteq> []" "r \<in> Y \<Longrightarrow> pa_bg p = None"
  shows "parties_x (X - {r}) (Y - {r}) (view (disband env hide r w))" "pw_groups (disband env hide r w) r = None"
    "shrinks (view w) (view (disband env hide r w))"
proof -
  let ?V = "view w" and ?P = "party_view p"
  note d = parties_xD [OF assms(1)]
  have h: "G ?V r = Some ?P" using assms(2) by simp
  have sh: "shape_ok ?P" by (rule basic_okD(6) [OF d(1) h])
  let ?w1 = "fold (disband_member env hide r) (pa_members p) w" and ?M = "mb_guid ` set (pa_members p)"
  let ?B = "minus_all ?M r (mem_of ?V)"
  have f: "parties_b X Y ?B (view ?w1)" "same_bare ?V (view ?w1)"
  proof -
    have "parties_b X Y ?B (view ?w1) \<and> same_bare ?V (view ?w1)"
    proof (rule fold_disband_member)
      show "parties_b X Y (mem_of ?V) ?V" using assms(1) unfolding parties_x_b .
      show "has r w" using assms(2) by simp
      show "\<exists>s. mem_of ?V (mb_guid m) r s" if "m \<in> set (pa_members p)" for m
        using that h by (auto simp: mem_of_def slot_view_def simp del: view_sel)
      show "distinct (map mb_guid (pa_members p))" using sh by (simp add: shape_ok_def o_def)
    qed
    then show "parties_b X Y ?B (view ?w1)" "same_bare ?V (view ?w1)" by blast+
  qed
  have noB: "\<not> ?B g r s" for g s
    using h by (auto simp: minus_all_def mem_of_def slot_view_def image_iff simp del: view_sel)
  obtain P1 where P1: "G (view ?w1) r = Some P1" "bare P1 = bare ?P"
    using same_bareD(1) [OF same_bare_sym [OF f(2)] h] by blast
  note e = bare_eqD [OF P1(2)]
  let ?C = "a_clear r (view ?w1)" and ?Q = "P1\<lparr>v_inv := []\<rparr>"
  have c: "parties_b X Y ?B ?C" by (rule parties_clear_b [OF f(1)])
  have Q: "G ?C r = Some ?Q" using P1(1) by (simp del: view_sel)
  have r0: "v_refs ?Q = []" by (rule no_refs(1) [OF c noB Q])
  let ?w2 = "upd_party r (\<lambda>p. p\<lparr>pa_rolls := [], pa_members := []\<rparr>) ?w1"
  have 2: "view ?w2 = a_grp r empty_view (view ?w1)"
    by (rule view_upd_party) (use P1(1) in \<open>auto simp: party_view_def empty_view_def simp del: view_sel\<close>)
  let ?w3 = "remove_all_invites r ?w2"
  have 3: "view ?w3 = a_grp r empty_view ?C"
    unfolding a_clear_empty [symmetric] 2 [symmetric]
    by (rule view_remove_all_invites) (use P1(1) in \<open>simp add: 2 del: view_sel\<close>)
  have g3: "G (view ?w3) r = Some (empty_view ?Q)" unfolding 3 a_grp_sel fun_upd_same Q by simp
  have em: "v_refs (empty_view P) = v_refs P" "v_bg (empty_view P) = v_bg P" "v_bf (empty_view P) = v_bf P" "v_db (empty_view P) = v_db P" for P
    by (simp_all add: empty_view_def)
  obtain dd where dd: "view (disband_stored r ?w3) = (view ?w3)\<lparr>v_ids := dd\<rparr>" "db_ok dd"
    "\<And>j. group_by_db_id dd j = (if (stored ?Q \<or> r \<in> Y) \<and> j = v_db ?Q then None else group_by_db_id (v_ids ?C) j)"
  proof (rule view_disband_stored [OF g3 _ parties_bD(3) [OF c] _ Q])
    show "\<not> v_bf (empty_view ?Q)" using e(6) sh by (simp add: em shape_ok_def)
    show "v_ids (view ?w3) = v_ids ?C" unfolding 3 by (simp del: view_sel)
    show "stored ?Q \<or> r \<in> Y \<or> v_bg (empty_view ?Q) \<noteq> None" using e(1) assms(3) by (auto simp: em stored_def)
    show "v_bg (empty_view ?Q) = None" if "r \<in> Y" using e(5) assms(4) [OF that] by (simp add: em)
  qed (simp_all add: em)
  let ?w4 = "disband_stored r ?w3"
  have g4: "G (view ?w4) r = Some (empty_view ?Q)" using g3 unfolding dd(1) by (simp del: view_sel)
  have 5: "view (remove_group r ?w4) = view ?w4" by (rule view_remove_group) (use g4 in \<open>simp del: view_sel\<close>)
  have 6: "view (delete_party r (remove_group r ?w4)) = a_drop r (view (remove_group r ?w4))"
    by (rule view_delete_party [where P = "empty_view ?Q"]) (use g4 r0 in \<open>simp_all add: 5 em del: view_sel\<close>)
  have ds: "disband env hide r w = delete_party r (remove_group r ?w4)"
    using assms(2) by (simp add: disband_def Let_def)
  have "a_drop r (view ?w4) = (a_drop r ?C)\<lparr>v_ids := dd\<rparr>"
    unfolding dd(1) 3 by (rule a_drop_grp) (simp add: em)
  then have V: "view (disband env hide r w) = (a_drop r ?C)\<lparr>v_ids := dd\<rparr>" unfolding ds 6 5 .
  show "parties_x (X - {r}) (Y - {r}) (view (disband env hide r w))"
    unfolding V
  proof (rule parties_drop_x [OF c noB Q _ dd(2,3)])
    fix g q s
    have "mem_of ?C = mem_of ?V" using mem_of_bare [OF f(2)] by simp
    then show "?B g q s \<longleftrightarrow> mem_of ?C g q s \<and> q \<noteq> r"
      using h by (auto simp: minus_all_def mem_of_def slot_view_def image_iff simp del: view_sel)
  qed simp
  have "G (view (disband env hide r w)) r = None" unfolding V by simp
  then show "pw_groups (disband env hide r w) r = None" by simp
  have "shrinks ?V (view ?w1)" by (rule shrinks_bare [OF f(2)]) (rule same_bare_L_None [OF f(2)])
  moreover have "shrinks (view ?w1) ?C" unfolding shrinks_def
    using P1(1) by (auto simp: a_clear_L [OF P1(1)] bg_of_def simp del: view_sel split: if_splits)
  moreover have "shrinks ?C ((a_drop r ?C)\<lparr>v_ids := dd\<rparr>)" unfolding shrinks_def
    by (auto simp: mem_of_def bg_of_def a_drop_def simp del: view_sel split: if_splits option.splits)
  ultimately show "shrinks ?V (view (disband env hide r w))" unfolding V using shrinks_trans by blast
qed

section \<open>Leaving the rolls\<close>

lemma roll_index_some: "roll_index P xs = Some i \<Longrightarrow> i < length xs \<and> P (xs ! i) \<and> (\<forall>j < i. \<not> P (xs ! j))"
proof (induction xs arbitrary: i)
  case (Cons x xs)
  show ?case
  proof (cases "P x")
    case False
    then obtain j where j: "roll_index P xs = Some j" "i = Suc j" using Cons.prems by auto
    then show ?thesis using Cons.IH [OF j(1)] False by (auto simp: less_Suc_eq_0_disj)
  qed (use Cons.prems in simp)
qed simp

lemma unvote_view [simp]: "roll_view (unvote g v rl) = roll_view rl" "rl_guid (unvote g v rl) = rl_guid rl"
  "om_has g (rl_votes (unvote g v rl)) = False"
  by (simp_all add: roll_view_def unvote_def Let_def)

lemma view_leave_roll:
  assumes "pw_groups w r = Some p" "i < length (pa_rolls p)" "distinct (map rl_guid (pa_rolls p))"
  shows "view (leave_roll env r g i w) = view w \<and> (\<exists>p'. pw_groups (leave_roll env r g i w) r = Some p' \<and> length (pa_rolls p') = length (pa_rolls p)
    \<and> map rl_guid (pa_rolls p') = map rl_guid (pa_rolls p))"
proof (cases "map_of (rl_votes (pa_rolls p ! i)) g")
  case None
  then show ?thesis using assms by (simp add: leave_roll_def)
next
  case (Some v)
  let ?rl = "pa_rolls p ! i"
  let ?f = "\<lambda>p. p\<lparr>pa_rolls := (pa_rolls p)[i := unvote g v (pa_rolls p ! i)]\<rparr>"
  let ?w1 = "upd_party r ?f w"
  have p1: "pw_groups ?w1 r = Some (?f p)" using assms(1) by (simp add: upd_party_def)
  have vw: "map roll_view (pa_rolls (?f p)) = map roll_view (pa_rolls p)" and gs: "map rl_guid (pa_rolls (?f p)) = map rl_guid (pa_rolls p)"
    using assms(2) by (simp_all add: map_update list_update_same_conv)
  have v1: "view ?w1 = view w"
    by (rule view_upd_party_light) (use assms(1) vw in \<open>auto simp: party_view_def\<close>)
  have "count_roll_vote env r g (rl_guid ?rl) MAX_ROLL_TYPE ?w1 = ?w1"
  proof (cases "get_roll ?w1 (?f p) (rl_guid ?rl)")
    case (Some j)
    then have j: "j < length (pa_rolls p)" "rl_guid (pa_rolls (?f p) ! j) = rl_guid ?rl"
      using roll_index_some unfolding get_roll_def by fastforce+
    have "map rl_guid (pa_rolls (?f p)) ! j = map rl_guid (pa_rolls p) ! i" using j assms(2) by simp
    then have "map rl_guid (pa_rolls p) ! j = map rl_guid (pa_rolls p) ! i" unfolding gs .
    then have "j = i" using assms(2,3) j(1) by (metis length_map nth_eq_iff_index_eq)
    then show ?thesis using p1 Some assms(2) by (simp add: count_roll_vote_def Let_def)
  qed (use p1 in \<open>simp add: count_roll_vote_def\<close>)
  then have "leave_roll env r g i w = ?w1" using assms(1,2) Some by (simp add: leave_roll_def)
  then show ?thesis using v1 p1 gs by simp
qed

lemma view_leave_rolls:
  assumes "pw_groups w r = Some p" "distinct (map rl_guid (pa_rolls p))"
  shows "view (leave_rolls env r g w) = view w"
proof -
  have F: "view (fold (leave_roll env r g) is w) = view w"
    if "\<forall>i \<in> set is. i < length (pa_rolls p)" "pw_groups w r = Some p" "distinct (map rl_guid (pa_rolls p))" for "is" w p
    using that
  proof (induction "is" arbitrary: w p)
    case (Cons i "is")
    have i: "i < length (pa_rolls p)" using Cons.prems(1) by simp
    obtain p' where p': "view (leave_roll env r g i w) = view w" "pw_groups (leave_roll env r g i w) r = Some p'"
      "length (pa_rolls p') = length (pa_rolls p)" "map rl_guid (pa_rolls p') = map rl_guid (pa_rolls p)"
      using view_leave_roll [OF Cons.prems(2) i Cons.prems(3)] by blast
    have "view (fold (leave_roll env r g) is (leave_roll env r g i w)) = view (leave_roll env r g i w)"
      by (rule Cons.IH [OF _ p'(2)]) (use Cons.prems p'(3,4) in simp_all)
    then show ?case using p'(1) by simp
  qed simp
  show ?thesis using assms F [of "[0..<length (pa_rolls p)]" p w] by (simp add: leave_rolls_def)
qed

section \<open>Leaving\<close>

definition erase_view :: "guid \<Rightarrow> u8 \<Rightarrow> pview \<Rightarrow> pview" where
  "erase_view g s P = P\<lparr>v_mem := filter (\<lambda>m. fst m \<noteq> g) (v_mem P),
     v_counts := map_option (\<lambda>cs. cs[unat s := cs ! unat s - 1]) (v_counts P)\<rparr>"

lemma erase_view_sel [simp]:
  "v_mem (erase_view g s P) = filter (\<lambda>m. fst m \<noteq> g) (v_mem P)" "v_refs (erase_view g s P) = v_refs P"
  "v_inv (erase_view g s P) = v_inv P" "v_leader (erase_view g s P) = v_leader P" "v_type (erase_view g s P) = v_type P"
  "v_bg (erase_view g s P) = v_bg P" "v_bf (erase_view g s P) = v_bf P" "v_db (erase_view g s P) = v_db P"
  "v_rolls (erase_view g s P) = v_rolls P" "raid_view (erase_view g s P) = raid_view P"
  "v_counts (erase_view g s P) = map_option (\<lambda>cs. cs[unat s := cs ! unat s - 1]) (v_counts P)"
  by (simp_all add: erase_view_def raid_view_def)

lemma del_first_filter: "distinct (map f xs) \<Longrightarrow> del_first (\<lambda>x. f x = y) xs = filter (\<lambda>x. f x \<noteq> y) xs"
proof (induction xs)
  case (Cons x xs)
  show ?case
  proof (cases "f x = y")
    case True
    then have "filter (\<lambda>x. f x \<noteq> y) xs = xs" using Cons.prems by (force simp: filter_id_conv image_iff)
    then show ?thesis using True by simp
  qed (use Cons in simp)
qed simp

lemma in_sub_erase:
  assumes "distinct (map fst ms)" "(g, s) \<in> set ms"
  shows "in_sub t ms = in_sub t (filter (\<lambda>m. fst m \<noteq> g) ms) + (if t = s then 1 else 0)"
  using assms
proof (induction ms)
  case (Cons m ms)
  obtain h u where m: "m = (h, u)" by (cases m)
  show ?case
  proof (cases "h = g")
    case True
    have "u = s"
    proof (rule ccontr)
      assume "u \<noteq> s"
      then have "(g, s) \<in> set ms" using Cons.prems(2) m True by auto
      then show False using Cons.prems(1) m True by (force simp: image_iff)
    qed
    moreover have "filter (\<lambda>m. fst m \<noteq> g) ms = ms" using Cons.prems(1) m True by (force simp: filter_id_conv image_iff)
    ultimately show ?thesis using m True by (simp add: in_sub_def)
  next
    case False
    then have "in_sub t ms = in_sub t (filter (\<lambda>m. fst m \<noteq> g) ms) + (if t = s then 1 else 0)" using Cons m by auto
    then show ?thesis using m False by (auto simp: in_sub_def)
  qed
qed simp

lemma counts_ok_erase:
  assumes "counts_ok cs ms" "distinct (map fst ms)" "(g, s) \<in> set ms"
  shows "counts_ok (cs[unat s := cs ! unat s - 1]) (filter (\<lambda>m. fst m \<noteq> g) ms)"
  unfolding counts_ok_def
proof (intro conjI allI impI)
  have c: "length cs = MAX_RAID_SUBGROUPS" using assms(1) unfolding counts_ok_def by blast
  then show "length (cs[unat s := cs ! unat s - 1]) = MAX_RAID_SUBGROUPS" by simp
  fix i assume i: "i < MAX_RAID_SUBGROUPS"
  have c1: "unat (cs ! i) = in_sub (of_nat i) ms" "unat (cs ! i) \<le> MAXGROUPSIZE" using assms(1) i unfolding counts_ok_def by blast+
  note e = in_sub_erase [OF assms(2,3), of "of_nat i"]
  have u: "unat (cs ! i - 1) = unat (cs ! i) - 1" if "i = unat s"
  proof -
    have "0 < unat (cs ! i)" using c1(1) e that of_nat_sub_eq [of i s] i by simp
    then have "cs ! i \<noteq> 0" by auto
    then show ?thesis by (rule unat_minus_one)
  qed
  show "unat (cs[unat s := cs ! unat s - 1] ! i) = in_sub (of_nat i) (filter (\<lambda>m. fst m \<noteq> g) ms)"
    using c c1 e i u of_nat_sub_eq [of i s] by (cases "i = unat s") auto
  show "unat (cs[unat s := cs ! unat s - 1] ! i) \<le> MAXGROUPSIZE"
    using c c1 i u by (cases "i = unat s") auto
qed

lemma shape_ok_erase:
  assumes "shape_ok P" "(g, s) \<in> set (v_mem P)"
  shows "shape_ok (erase_view g s P)"
proof -
  have d: "distinct (map fst (v_mem P))" using assms(1) by (simp add: shape_ok_def)
  have d': "distinct (map fst (filter (\<lambda>m. fst m \<noteq> g) (v_mem P)))" using d by (simp add: distinct_map_filter)
  show ?thesis
  proof (cases "raid_view P")
    case True
    then obtain cs where cs: "v_counts P = Some cs" "counts_ok cs (v_mem P)" using assms(1) by (auto simp: shape_ok_def)
    then show ?thesis using counts_ok_erase [OF cs(2) d assms(2)] True d' assms(1) by (auto simp: shape_ok_def)
  next
    case False
    have "length (filter (\<lambda>m. fst m \<noteq> g) (v_mem P)) \<le> length (v_mem P)" by simp
    then show ?thesis using False d' assms(1) by (auto simp: shape_ok_def simp del: length_filter_le)
  qed
qed

lemma parties_erase:
  assumes "parties_b X Y (minus_mem g r (mem_of V)) V" "G V r = Some P" "(g, s) \<in> set (v_mem P)" "1 < length (v_mem P)"
  shows "parties_x (insert r X) Y (a_grp r (erase_view g s) V)"
  unfolding parties_x_def
proof (intro conjI allI impI)
  note d = parties_bD [OF assms(1)]
  let ?W = "a_grp r (erase_view g s) V"
  have ne: "filter (\<lambda>m. fst m \<noteq> g) (v_mem P) \<noteq> []"
  proof
    assume "filter (\<lambda>m. fst m \<noteq> g) (v_mem P) = []"
    then have "\<forall>m \<in> set (v_mem P). fst m = g" by (simp add: filter_empty_conv)
    then have "set (map fst (v_mem P)) \<subseteq> {g}" by auto
    moreover have "distinct (map fst (v_mem P))" using basic_okD(6) [OF d(1) assms(2)] by (simp add: shape_ok_def)
    ultimately have "length (v_mem P) \<le> 1"
      by (metis card_mono distinct_card finite.emptyI finite_insert is_singletonI is_singleton_altdef length_map)
    then show False using assms(4) by simp
  qed
  show "basic_ok ?W"
    by (rule basic_ok_grp [OF d(1)])
       (use assms(2,3) basic_okD(6,7) [OF d(1) assms(2)] in \<open>auto intro!: shape_ok_erase simp: rolls_ok_def\<close>)
  have "mem_of ?W = minus_mem g r (mem_of V)" "bg_of ?W = bg_of V"
    using assms(2) by (auto simp: mem_of_def minus_mem_def bg_of_def fun_eq_iff)
  then show "social (mem_of ?W) (bg_of ?W) (L ?W)" using d(2) by simp
  show "ids_ok Y ?W"
  proof (rule ids_ok_cong [OF d(3)])
    show "(\<exists>P. G ?W q = Some P \<and> (stored P \<or> q \<in> Y) \<and> v_db P = j) \<longleftrightarrow> (\<exists>P. G V q = Some P \<and> (stored P \<or> q \<in> Y) \<and> v_db P = j)" for q j
      using assms(2,4) ne by (auto simp: stored_def)
  qed simp
  show "size_ok Q \<or> q \<in> insert r X" if "G ?W q = Some Q" for q Q using that d(4) [of q Q] by (auto split: if_splits)
qed

lemma view_counter_decrease [view_op]:
  assumes "pw_groups w r = Some p" "\<And>cs. pa_counts p = Some cs \<Longrightarrow> unat s < length cs"
  shows "view (sub_group_counter_decrease r s w) = a_grp r (\<lambda>P. P\<lparr>v_counts := map_option (\<lambda>cs. cs[unat s := cs ! unat s - 1]) (v_counts P)\<rparr>) (view w)"
proof (cases "pa_counts p")
  case None
  then have "(party_view p)\<lparr>v_counts := map_option (\<lambda>cs. cs[unat s := cs ! unat s - 1]) (v_counts (party_view p))\<rparr> = party_view p"
    by (simp add: party_view_def)
  then have "a_grp r (\<lambda>P. P\<lparr>v_counts := map_option (\<lambda>cs. cs[unat s := cs ! unat s - 1]) (v_counts P)\<rparr>) (view w) = view w"
    using assms(1) by (simp add: a_grp_def fun_upd_idem)
  then show ?thesis using assms(1) None by (simp add: sub_group_counter_decrease_def sub_group_counter_def)
next
  case (Some cs)
  let ?f = "\<lambda>p. p\<lparr>pa_counts := Some (cs[unat s := cs ! unat s - 1])\<rparr>"
  have "view (upd_party r ?f w) = a_grp r (\<lambda>P. P\<lparr>v_counts := map_option (\<lambda>cs. cs[unat s := cs ! unat s - 1]) (v_counts P)\<rparr>) (view w)"
    using assms(1) Some by (auto simp: view_def upd_party_def a_grp_def find_connected_def fun_eq_iff party_view_def)
  then show ?thesis using assms Some by (simp add: sub_group_counter_decrease_def sub_group_counter_def)
qed

lemma get_slot_view:
  assumes "distinct (map mb_guid (pa_members p))"
  shows "get_slot p g = Some m \<longleftrightarrow> m \<in> set (pa_members p) \<and> mb_guid m = g"
proof -
  have "find (\<lambda>m. mb_guid m = g) ms = Some m \<longleftrightarrow> m \<in> set ms \<and> mb_guid m = g" if "distinct (map mb_guid ms)" for ms
    using that by (induction ms) (force simp: image_iff)+
  then show ?thesis using assms by (simp add: get_slot_def)
qed

lemma shape_distinct: "shape_ok (party_view p) \<Longrightarrow> distinct (map mb_guid (pa_members p))"
  by (simp add: shape_ok_def o_def)

lemma slot_mem: "shape_ok (party_view p) \<Longrightarrow> (g, s) \<in> set (v_mem (party_view p)) \<longleftrightarrow> (\<exists>m. get_slot p g = Some m \<and> mb_group m = s)"
  using get_slot_view [OF shape_distinct, of p g] by (auto simp: slot_view_def)

lemma view_erase_slot:
  assumes "pw_groups w r = Some p" "shape_ok (party_view p)" "(g, s) \<in> set (v_mem (party_view p))"
  shows "view (erase_slot r g w) = a_grp r (erase_view g s) (view w)"
proof -
  obtain m where m: "get_slot p g = Some m" "mb_group m = s" using slot_mem [OF assms(2), of g s] assms(3) by blast
  have "\<forall>m \<in> set (v_mem (party_view p)). unat (snd m) < 8" using assms(2) by (simp add: shape_ok_def)
  from bspec [OF this assms(3)] have s8: "unat s < 8" by simp
  let ?w1 = "sub_group_counter_decrease r s w"
  have 1: "view ?w1 = a_grp r (\<lambda>P. P\<lparr>v_counts := map_option (\<lambda>cs. cs[unat s := cs ! unat s - 1]) (v_counts P)\<rparr>) (view w)"
    by (rule view_counter_decrease [OF assms(1)]) (use assms(2) s8 in \<open>auto simp: shape_ok_def counts_ok_def split: if_splits\<close>)
  obtain cs where p1: "pw_groups ?w1 r = Some (p\<lparr>pa_counts := cs\<rparr>)" "cs = map_option (\<lambda>cs. cs[unat s := cs ! unat s - 1]) (pa_counts p)"
  proof (cases "pa_counts p")
    case None
    show ?thesis by (rule that [of None]) (use None assms(1) in \<open>simp_all add: sub_group_counter_decrease_def sub_group_counter_def\<close>)
  next
    case (Some cs)
    have "unat s < length cs" using assms(2) s8 Some by (auto simp: shape_ok_def counts_ok_def split: if_splits)
    then show ?thesis
      by (intro that [of "Some (cs[unat s := cs ! unat s - 1])"])
         (use assms(1) Some in \<open>simp_all add: sub_group_counter_decrease_def sub_group_counter_def upd_party_def\<close>)
  qed
  let ?f = "\<lambda>p. p\<lparr>pa_members := del_first (\<lambda>m. mb_guid m = g) (pa_members p)\<rparr>"
  have df: "map slot_view (del_first (\<lambda>m. mb_guid m = g) (pa_members p)) = filter (\<lambda>m. fst m \<noteq> g) (map slot_view (pa_members p))"
    using del_first_filter [OF shape_distinct [OF assms(2)], of g] by (simp add: filter_map o_def)
  let ?D = "\<lambda>P. P\<lparr>v_counts := map_option (\<lambda>cs. cs[unat s := cs ! unat s - 1]) (v_counts P)\<rparr>"
  let ?E = "\<lambda>P. P\<lparr>v_mem := filter (\<lambda>m. fst m \<noteq> g) (v_mem P)\<rparr>"
  have "view (upd_party r ?f ?w1) = a_grp r ?E (view ?w1)"
    by (rule view_upd_party_at [OF p1(1)]) (use df in \<open>simp add: party_view_def\<close>)
  also have "\<dots> = a_grp r (?E \<circ> ?D) (view w)" unfolding 1 a_grp_grp by simp
  also have "?E \<circ> ?D = erase_view g s" by (auto simp: fun_eq_iff erase_view_def)
  finally have "view (upd_party r ?f ?w1) = a_grp r (erase_view g s) (view w)" .
  then show ?thesis using assms(1) m by (simp add: erase_slot_def)
qed

lemma view_change_leader:
  assumes "pw_groups w r = Some p"
  shows "view (change_leader r g w) =
    (if get_slot p g \<noteq> None \<and> L (view w) g \<noteq> None then a_grp r (\<lambda>P. P\<lparr>v_leader := g\<rparr>) (view w) else view w)"
proof (cases "get_slot p g \<noteq> None \<and> L (view w) g \<noteq> None")
  case True
  then obtain m q where mq: "get_slot p g = Some m" "find_connected w g = Some q" by auto
  let ?w1 = "if bg_or_bf p then w else pw_emit [DbGroupLeader (pa_db p) g] w"
  let ?w2 = "upd_pp g (\<lambda>q. q\<lparr>pp_leader_flag := True\<rparr>) (upd_pp (pa_leader p) (\<lambda>q. q\<lparr>pp_leader_flag := False\<rparr>) ?w1)"
  have "view (upd_pp h (\<lambda>q. q\<lparr>pp_leader_flag := b\<rparr>) u) = view u" for h b u
    by (rule view_upd_pp_light) (simp add: player_view_def)
  then have 2: "view ?w2 = view w" by (simp del: view_sel)
  let ?w3 = "upd_party r (new_leader g (pp_name q)) ?w2"
  have 3: "view ?w3 = a_grp r (\<lambda>P. P\<lparr>v_leader := g\<rparr>) (view w)"
    unfolding 2 [symmetric]
  proof (rule view_upd_party)
    show "has r ?w2" unfolding 2 using assms by simp
    show "party_view (new_leader g (pp_name q) p) = party_view p\<lparr>v_leader := g\<rparr>" for p
      using upd_slot_light [of "toggle_flag MEMBER_FLAG_ASSISTANT False" g "p\<lparr>pa_leader := g, pa_leader_name := pp_name q\<rparr>"]
      by (simp add: new_leader_def slot_view_flags)
  qed
  have "has r ?w3" unfolding 3 using assms by simp
  then have "view (change_leader r g w) = view ?w3"
    using assms mq by (simp add: change_leader_def Let_def view_broadcast del: view_sel)
  then show ?thesis using True 3 by (simp del: view_sel)
next
  case False
  then show ?thesis using assms by (auto simp: change_leader_def split: option.split)
qed

lemma mem_slot: "pw_groups w r = Some p \<Longrightarrow> mem_of (view w) g r s \<longleftrightarrow> (g, s) \<in> set (v_mem (party_view p))"
  by (auto simp: mem_of_def)

lemma view_pick_leader:
  assumes "pw_groups w r = Some p"
  obtains (same) "view (pick_leader r g w) = view w" "pa_leader p \<noteq> g"
  | (picked) h where "view (pick_leader r g w) = a_grp r (\<lambda>P. P\<lparr>v_leader := h\<rparr>) (view w)" "h \<in> mb_guid ` set (pa_members p)"
  | (none) "view (pick_leader r g w) = view w" "\<forall>m \<in> set (pa_members p). L (view w) (mb_guid m) = None"
proof (cases "pa_leader p = g")
  case False
  then show ?thesis using that(1) assms by (simp add: pick_leader_def del: view_sel)
next
  case True
  show ?thesis
  proof (cases "find (\<lambda>m. is_connected w (mb_guid m)) (pa_members p)")
    case None
    then have "\<forall>m \<in> set (pa_members p). L (view w) (mb_guid m) = None" by (auto simp: find_None_iff connected_view simp del: view_sel)
    then show ?thesis using that(3) assms True None by (simp add: pick_leader_def del: view_sel)
  next
    case (Some m)
    then have m: "m \<in> set (pa_members p)" "L (view w) (mb_guid m) \<noteq> None"
      by (auto simp: find_Some_iff connected_view simp del: view_sel)
    have s: "get_slot p (mb_guid m) \<noteq> None" using m(1) by (auto simp: get_slot_def find_None_iff)
    have e: "pick_leader r g w = change_leader r (mb_guid m) w" using assms True Some by (simp add: pick_leader_def)
    have "view (pick_leader r g w) = a_grp r (\<lambda>P. P\<lparr>v_leader := mb_guid m\<rparr>) (view w)"
      unfolding e view_change_leader [OF assms] by (rule if_P [OF conjI [OF s m(2)]])
    moreover have "mb_guid m \<in> mb_guid ` set (pa_members p)" using m(1) by (rule imageI)
    ultimately show ?thesis by (rule that(2))
  qed
qed

text \<open>The state after a member left, before the group may be disbanded.\<close>

lemma view_leave_members:
  assumes "parties_ok (view w)" "pw_groups w r = Some p" "(g, s) \<in> set (v_mem (party_view p))"
  obtains w1 p1 where "leave_members env how r g w = send_update env r (pick_leader r g w1)" "pw_groups w1 r = Some p1"
    "view w1 = a_grp r (erase_view g s) (a_out r g (view w))" "parties_b {} {} (minus_mem g r (mem_of (view w))) (a_out r g (view w))"
proof -
  let ?V = "view w" and ?B = "minus_mem g r (mem_of (view w))"
  note d = parties_xD [OF assms(1)]
  have hm: "has r w" using assms(2) by simp
  have h: "G ?V r = Some (party_view p)" using assms(2) by simp
  have b: "mem_of ?V g r s" using mem_slot [OF assms(2)] assms(3) by blast
  have b0: "parties_b {} {} (mem_of ?V) ?V" using assms(1) unfolding parties_x_b .
  note out = parties_out [OF b0 b]
  let ?w1 = "leave_player env how r g w"
  have 1: "view ?w1 = a_out r g ?V"
  proof (cases "L ?V g")
    case None
    then show ?thesis by (simp add: leave_player_def connected_view a_out_def del: view_sel)
  next
    case (Some l)
    let ?wl = "leave_link r g w"
    have l: "view ?wl = a_out r g ?V" using view_leave_link [OF b0 hm] Some by (simp add: a_out_def del: view_sel)
    let ?wk = "if how = REMOVE_KICK \<or> how = REMOVE_KICK_LFG then pw_emit [PPacket g SMSG_GROUP_UNINVITE []] ?wl else ?wl"
    have k: "view ?wk = a_out r g ?V" using l by (simp del: view_sel)
    have "has r ?wk" unfolding k using h by (simp add: a_out_None del: view_sel not_None_eq)
    then have "view (send_empty_list r g ?wk) = a_out r g ?V" using k by (simp add: view_send_empty_list del: view_sel)
    then show ?thesis using Some by (simp add: leave_player_def connected_view Let_def del: view_sel)
  qed
  have ho: "G (a_out r g ?V) r \<noteq> None" using h by (simp add: a_out_None del: view_sel not_None_eq)
  obtain P1 where P1: "G (a_out r g ?V) r = Some P1" "bare P1 = bare (party_view p)"
    using same_bareD(1) [OF same_bare_sym [OF out(2)] h] by blast
  note e = bare_eqD [OF P1(2)]
  let ?w2 = "leave_stored r g ?w1"
  obtain pa where pa: "pw_groups ?w1 r = Some pa" "party_view pa = P1" using P1(1) unfolding 1 [symmetric] by (rule has_party)
  have 2: "view ?w2 = a_out r g ?V"
  proof (cases "bg_or_bf pa")
    case True
    then show ?thesis using pa 1 by (simp add: leave_stored_def del: view_sel)
  next
    case False
    let ?e = "pw_emit [DbDelMember g] ?w1"
    have "(g, k) \<notin> set (v_refs P1)" for k
    proof
      assume "(g, k) \<in> set (v_refs P1)"
      then obtain t where t: "a_link_of k g (a_out r g ?V) = Some (r, t)"
        using refs_okD(2) [OF basic_okD(1) [OF parties_bD(1) [OF out(1)]] P1(1), of g k] by auto
      then obtain l where l: "L (a_out r g ?V) g = Some l" "link_of k l = Some (r, t)" by (auto simp: a_link_of_def Option.bind_eq_Some_conv)
      have "?B g r t" using socialD(1) [OF parties_bD(2) [OF out(1)] l(1), of r t] l(2) by (cases k) auto
      then show False by (simp add: minus_mem_def)
    qed
    then have "find (\<lambda>x. fst x = g) (pa_refs pa) = None" using pa(2) by (auto simp: find_None_iff)
    moreover have "pw_groups ?e r = Some pa" using pa(1) by (simp add: pw_emit_def)
    ultimately have "delink_member r g ?e = ?e" by (simp add: delink_member_def)
    then show ?thesis using pa 1 False by (simp add: leave_stored_def del: view_sel)
  qed
  let ?w3 = "leave_enchanting r g ?w2"
  have "has r ?w2" unfolding 2 by (rule ho)
  then have 3: "view ?w3 = a_out r g ?V" using 2 by (simp add: leave_enchanting_def view_reset_enchanting del: view_sel)
  obtain pc where pc: "pw_groups ?w3 r = Some pc" "party_view pc = P1" using P1(1) unfolding 3 [symmetric] by (rule has_party)
  have rl: "rolls_ok (a_out r g ?V) P1" "shape_ok P1" by (rule basic_okD(6,7) [OF parties_bD(1) [OF out(1)] P1(1)])+
  have "map fst (v_rolls (party_view pc)) = map rl_guid (pa_rolls pc)" by (simp add: o_def roll_view_def)
  then have "distinct (map rl_guid (pa_rolls pc))" using rl(1) unfolding pc(2) [symmetric] rolls_ok_def by metis
  then have 4: "view (leave_rolls env r g ?w3) = a_out r g ?V" using view_leave_rolls [OF pc(1)] 3 by simp
  obtain pd where pd: "pw_groups (leave_rolls env r g ?w3) r = Some pd" "party_view pd = P1"
    using P1(1) unfolding 4 [symmetric] by (rule has_party)
  let ?w5 = "erase_slot r g (leave_rolls env r g ?w3)"
  have 5: "view ?w5 = a_grp r (erase_view g s) (a_out r g ?V)"
    unfolding 4 [symmetric] by (rule view_erase_slot [OF pd(1)]) (use rl(2) pd(2) e(1) assms(3) in auto)
  have "G (view ?w5) r = Some (erase_view g s P1)" unfolding 5 using P1(1) by (simp del: view_sel)
  then obtain p5 where "pw_groups ?w5 r = Some p5" by (rule has_party)
  then show ?thesis using that [of ?w5 p5] 5 out(1) by (simp add: leave_members_def Let_def del: view_sel)
qed


lemma parties_x_done:
  assumes "parties_x {r} Y V" "\<And>P. G V r = Some P \<Longrightarrow> size_ok P"
  shows "parties_x {} Y V"
  using assms unfolding parties_x_def by blast

lemma shrinks_out: "parties_b X Y B V \<Longrightarrow> B g r s \<Longrightarrow> shrinks V (a_out r g V)"
  using shrinks_bare [OF parties_out(2)] by (simp add: a_out_None)

text \<open>A player with a reference to the group is connected and a member.\<close>

lemma ref_mem:
  assumes "parties_x X Y V" "G V r = Some P" "(h, k) \<in> set (v_refs P)"
  shows "L V h \<noteq> None" "h \<in> fst ` set (v_mem P)"
proof -
  note d = parties_xD [OF assms(1)]
  obtain t where t: "a_link_of k h V = Some (r, t)"
    using refs_okD(2) [OF basic_okD(1) [OF d(1)] assms(2), of h k] assms(3) by auto
  then show "L V h \<noteq> None" by (cases "L V h") (auto simp: a_link_of_def)
  have b: "parties_b X Y (mem_of V) V" using assms(1) by (simp add: parties_x_b)
  have "mem_of V h r t" by (rule b_link_sub(2) [OF b _ t])
  then show "h \<in> fst ` set (v_mem P)" using assms(2) by (force simp: mem_of_def)
qed

text \<open>After the succession, either the group has too few players left or its leader is a member.\<close>

lemma led_group:
  assumes "parties_x {r} {} (view w)" "pw_groups w r = Some p" "pa_members p \<noteq> []" "pa_bg p = None \<Longrightarrow> 2 \<le> length (pa_members p)"
    "pa_leader p \<noteq> g \<Longrightarrow> pa_leader p \<in> mb_guid ` set (pa_members p)"
    "pw_groups (pick_leader r g w) r = Some p'" "\<not> few_players p'" "pa_bg p \<noteq> None \<Longrightarrow> pa_invites p = []"
  shows "parties_x {} {} (view (pick_leader r g w))"
proof -
  let ?V = "view w"
  have h: "G ?V r = Some (party_view p)" using assms(2) by simp
  have led: "size_ok ((party_view p)\<lparr>v_leader := l\<rparr>)" if "l \<in> mb_guid ` set (pa_members p)" for l
    using that assms(3,4,8) by (auto simp: size_ok_def image_image)
  have led0: "size_ok (party_view p)" if "pa_leader p \<in> mb_guid ` set (pa_members p)"
    using that assms(3,4,8) by (auto simp: size_ok_def image_image)
  show ?thesis
  proof (cases rule: view_pick_leader [OF assms(2), of g, consumes 0, case_names same picked none])
    case same
    then show ?thesis unfolding same(1) using assms(5) led0 h by (intro parties_x_done [OF assms(1)]) auto
  next
    case (picked l)
    have "parties_x {r} {} (a_grp r (\<lambda>P. P\<lparr>v_leader := l\<rparr>) ?V)"
      by (rule parties_x_grp [OF assms(1)])
         (use basic_okD(6,7) [OF parties_xD(1) [OF assms(1)]] in \<open>auto simp: shape_ok_def raid_view_def rolls_ok_def simp del: view_sel\<close>)
    then show ?thesis unfolding picked(1)
      by (rule parties_x_done) (use h led [OF picked(2)] in \<open>auto simp del: view_sel\<close>)
  next
    case none
    have "G (view (pick_leader r g w)) r = Some (party_view p)" unfolding none(1) by (rule h)
    then have "party_view p' = party_view p" using assms(6) by simp
    then have "pa_refs p' = pa_refs p" using pview_sel(2) by metis
    then have "pa_refs p \<noteq> []" using assms(7) by (auto simp: few_players_def split: if_splits)
    then obtain x k where "(x, k) \<in> set (v_refs (party_view p))" by (cases "pa_refs p") auto
    then have "L ?V x \<noteq> None" "x \<in> fst ` set (v_mem (party_view p))" by (rule ref_mem [OF assms(1) h])+
    then show ?thesis using none(2) by (auto simp del: view_sel)
  qed
qed

lemma shrinks_pick:
  assumes "pw_groups w r = Some p"
  shows "shrinks (view w) (view (pick_leader r g w))" "mem_of (view (pick_leader r g w)) = mem_of (view w)"
proof -
  have g: "shrinks (view w) (a_grp r (\<lambda>P. P\<lparr>v_leader := l\<rparr>) (view w)) \<and> mem_of (a_grp r (\<lambda>P. P\<lparr>v_leader := l\<rparr>) (view w)) = mem_of (view w)" for l
    using assms by (intro conjI shrinks_grp) (auto simp: mem_of_def fun_eq_iff)
  have "shrinks (view w) (view (pick_leader r g w)) \<and> mem_of (view (pick_leader r g w)) = mem_of (view w)"
    by (cases rule: view_pick_leader [OF assms, of g, consumes 0, case_names same picked none]) (use g in \<open>simp_all del: view_sel\<close>)
  then show "shrinks (view w) (view (pick_leader r g w))" "mem_of (view (pick_leader r g w)) = mem_of (view w)" by blast+
qed


lemma not_lfg: "shape_ok (party_view p) \<Longrightarrow> \<not> is_lfg_group p"
  by (simp add: shape_ok_def is_lfg_group_def)

lemma filter_one:
  assumes "distinct (map fst ms)" "(g, s) \<in> set ms"
  shows "length ms = Suc (length (filter (\<lambda>m. fst m \<noteq> g) ms))"
  using assms
proof (induction ms)
  case (Cons m ms)
  show ?case
  proof (cases "fst m = g")
    case True
    then have "filter (\<lambda>m. fst m \<noteq> g) ms = ms" using Cons.prems(1) by (force simp: filter_id_conv image_iff)
    then show ?thesis using True by simp
  qed (use Cons in auto)
qed simp

lemma pick_keeps:
  assumes "parties_x {r} {} (view w)" "pw_groups w r = Some p"
  obtains p' where "pw_groups (pick_leader r g w) r = Some p'" "v_mem (party_view p') = v_mem (party_view p)" "pa_bg p' = pa_bg p"
    "parties_x {r} {} (view (pick_leader r g w))"
proof -
  have h: "G (view w) r = Some (party_view p)" using assms(2) by simp
  obtain l where l: "view (pick_leader r g w) = a_grp r (\<lambda>P. P\<lparr>v_leader := l\<rparr>) (view w) \<or> view (pick_leader r g w) = view w"
    by (cases rule: view_pick_leader [OF assms(2), of g, consumes 0, case_names same picked none]) blast+
  have "parties_x {r} {} (a_grp r (\<lambda>P. P\<lparr>v_leader := l\<rparr>) (view w))"
    by (rule parties_x_grp [OF assms(1)])
       (use basic_okD(6,7) [OF parties_xD(1) [OF assms(1)]] in \<open>auto simp: shape_ok_def raid_view_def rolls_ok_def simp del: view_sel\<close>)
  then have p: "parties_x {r} {} (view (pick_leader r g w))" using l assms(1) by auto
  have "\<exists>P. G (view (pick_leader r g w)) r = Some P \<and> v_mem P = v_mem (party_view p) \<and> v_bg P = pa_bg p"
    using l h by (auto simp del: view_sel)
  then obtain P where P: "G (view (pick_leader r g w)) r = Some P" "v_mem P = v_mem (party_view p)" "v_bg P = pa_bg p" by blast
  obtain p' where "pw_groups (pick_leader r g w) r = Some p'" "party_view p' = P" using P(1) by (rule has_party)
  then show ?thesis using that P p by auto
qed

lemma parties_remove_member:
  assumes "parties_ok (view w)" "pw_groups w r = Some p" "mem_of (view w) g r s"
  shows "parties_ok (view (snd (remove_member env how r g w))) \<and> shrinks (view w) (view (snd (remove_member env how r g w)))
    \<and> (\<forall>t. \<not> mem_of (view (snd (remove_member env how r g w))) g r t)
    \<and> (fst (remove_member env how r g w) \<or> pw_groups (snd (remove_member env how r g w)) r = None)"
proof -
  let ?V = "view w" and ?P = "party_view p"
  note d = parties_xD [OF assms(1)]
  have h: "G ?V r = Some ?P" using assms(2) by simp
  have sh: "shape_ok ?P" by (rule basic_okD(6) [OF d(1) h])
  have ms: "(g, s) \<in> set (v_mem ?P)" using mem_slot [OF assms(2)] assms(3) by blast
  then have ne: "pa_members p \<noteq> []" by auto
  have bg: "bg_or_bf p \<longleftrightarrow> pa_bg p \<noteq> None" using sh by (simp add: shape_ok_def is_bg_group_def is_bf_group_def)
  show ?thesis
  proof (cases "(if pa_bg p \<noteq> None then 1 else 2) < length (pa_members p)")
    case False
    then have e: "snd (remove_member env how r g w) = disband env False r w"
      using assms(2) not_lfg [OF sh] bg by (simp add: remove_member_def)
    have dis: "parties_x {} {} (view (disband env False r w))" "pw_groups (disband env False r w) r = None"
      "shrinks ?V (view (disband env False r w))"
      using parties_disband [OF assms(1,2) ne, of env False] by simp_all
    then have "\<not> mem_of (view (disband env False r w)) g r t" for t by (simp add: mem_of_def)
    then show ?thesis using dis unfolding e by blast
  next
    case True
    then have e: "remove_member env how r g w = close_group env r (leave_members env how r g w)"
      using assms(2) not_lfg [OF sh] bg by (simp add: remove_member_def)
    obtain w1 p1 where w1: "leave_members env how r g w = send_update env r (pick_leader r g w1)" "pw_groups w1 r = Some p1"
      "view w1 = a_grp r (erase_view g s) (a_out r g ?V)" "parties_b {} {} (minus_mem g r (mem_of ?V)) (a_out r g ?V)"
      by (rule view_leave_members [OF assms(1,2) ms])
    have b0: "parties_b {} {} (mem_of ?V) ?V" using assms(1) unfolding parties_x_b .
    note sb = parties_out(2) [OF b0 assms(3)]
    obtain P0 where P0: "G (a_out r g ?V) r = Some P0" "bare P0 = bare ?P"
      using same_bareD(1) [OF same_bare_sym [OF sb] h] by blast
    note be = bare_eqD [OF P0(2)]
    have V1: "parties_x {r} {} (view w1)"
    proof -
      have mo: "minus_mem g r (mem_of ?V) = minus_mem g r (mem_of (a_out r g ?V))" by (simp only: mem_of_bare [OF sb])
      have ln: "1 < length (v_mem P0)" using True be(1) by (auto split: if_splits)
      have "parties_x (insert r {}) {} (a_grp r (erase_view g s) (a_out r g ?V))"
        by (rule parties_erase [OF w1(4) [unfolded mo] P0(1) _ ln]) (use ms be(1) in simp)
      then show ?thesis unfolding w1(3) .
    qed
    have P1: "party_view p1 = erase_view g s P0"
      using w1(2) P0(1) arg_cong [OF w1(3), of "\<lambda>V. G V r"] by simp
    have m1: "map slot_view (pa_members p1) = filter (\<lambda>m. fst m \<noteq> g) (map slot_view (pa_members p))"
      using arg_cong [OF P1, of v_mem] be(1) by simp
    have "length (map slot_view (pa_members p)) = Suc (length (map slot_view (pa_members p1)))"
      unfolding m1 using filter_one [OF _ ms] sh by (simp add: shape_ok_def)
    then have ln: "length (pa_members p) = Suc (length (pa_members p1))" by simp
    have bg1: "pa_bg p1 = pa_bg p" using arg_cong [OF P1, of v_bg] be(5) by simp
    have ne1: "pa_members p1 \<noteq> []" "pa_bg p1 = None \<Longrightarrow> 2 \<le> length (pa_members p1)" using True ln bg1 by (auto split: if_splits)
    have ld1: "pa_leader p1 \<in> mb_guid ` set (pa_members p1)" if "pa_leader p1 \<noteq> g"
    proof -
      have "size_ok ?P" by (rule d(4) [OF h]) simp
      then have "pa_leader p \<in> fst ` set (v_mem ?P)" using ne by (auto simp: size_ok_def)
      moreover have "pa_leader p1 = pa_leader p" using arg_cong [OF P1, of v_leader] be(3) by simp
      ultimately have "pa_leader p1 \<in> fst ` set (map slot_view (pa_members p1))" unfolding m1 using that by auto
      then show ?thesis by (simp add: image_image)
    qed
    have inv1: "pa_invites p1 = []" if "pa_bg p1 \<noteq> None"
    proof -
      have "size_ok ?P" by (rule d(4) [OF h]) simp
      then have "pa_invites p = []" using that bg1 ne by (auto simp: size_ok_def)
      then show ?thesis using arg_cong [OF P1, of v_inv] be(2) by simp
    qed
    let ?w2 = "pick_leader r g w1" and ?w3 = "leave_members env how r g w"
    obtain p2 where p2: "pw_groups ?w2 r = Some p2" "v_mem (party_view p2) = v_mem (party_view p1)" "pa_bg p2 = pa_bg p1"
      and V2: "parties_x {r} {} (view ?w2)" by (rule pick_keeps [OF V1 w1(2)])
    have v3: "view ?w3 = view ?w2" unfolding w1(1) by (rule view_send_update) (use p2(1) in simp)
    have "G (view ?w3) r = Some (party_view p2)" unfolding v3 using p2(1) by simp
    then obtain p3 where p3: "pw_groups ?w3 r = Some p3" "party_view p3 = party_view p2" by (rule has_party)
    have ne3: "pa_members p3 \<noteq> []" using arg_cong [OF p3(2), of v_mem] p2(2) ne1(1) by auto
    have few: "few_players p3 = few_players p2"
      using arg_cong [OF p3(2), of v_refs] arg_cong [OF p3(2), of v_type] arg_cong [OF p3(2), of v_bg]
      by (simp add: few_players_def is_lfg_group_def is_bg_group_def)
    have nl: "\<not> lfg_alone env ?w3 p3"
      using not_lfg [of p3] basic_okD(6) [OF parties_xD(1) [OF V2], of r "party_view p3"] p2(1) p3(2) by (simp add: lfg_alone_def)
    have o: "shrinks ?V (view ?w3)"
    proof -
      have "shrinks ?V (a_out r g ?V)" by (rule shrinks_out [OF b0 assms(3)])
      moreover have "shrinks (a_out r g ?V) (view w1)" unfolding w1(3) by (rule shrinks_grp) auto
      moreover have "shrinks (view w1) (view ?w3)" unfolding v3 by (rule shrinks_pick(1) [OF w1(2)])
      ultimately show ?thesis using shrinks_trans by blast
    qed
    have gone: "\<not> mem_of (view ?w3) g r t" for t
      unfolding v3 shrinks_pick(2) [OF w1(2)] w1(3) using P0(1) by (simp add: mem_of_def del: view_sel)
    show ?thesis
    proof (cases "few_players p3")
      case True
      then have e3: "remove_member env how r g w = (True, disband env False r ?w3)"
        unfolding e close_group_def using p3(1) nl by simp
      have "parties_x {r} {} (view ?w3)" using V2 v3 by simp
      note dis = parties_disband [OF this p3(1) ne3, of env False]
      have "parties_x {} {} (view (disband env False r ?w3))" using dis(1) by simp
      moreover have "shrinks ?V (view (disband env False r ?w3))" using shrinks_trans [OF o] dis(3) by simp
      moreover have "\<not> mem_of (view (disband env False r ?w3)) g r t" for t using dis(2) by (simp add: mem_of_def)
      ultimately show ?thesis unfolding e3 fst_conv snd_conv by blast
    next
      case False
      then have e3: "remove_member env how r g w = (True, ?w3)"
        unfolding e close_group_def using p3(1) nl by simp
      have "parties_x {} {} (view ?w2)"
        by (rule led_group [OF V1 w1(2) ne1 ld1 p2(1)]) (use False few inv1 in simp_all)
      then show ?thesis unfolding e3 using o gone v3 by simp
    qed
  qed
qed

end
