(* ===== verification/PartyMake.thy ===== *)
theory PartyMake
  imports PartyLeave
begin

text \<open>
  Making groups: the group of an invitation, its first members, the raid of a battleground, and that
  the invariant holds again when they are made.
\<close>

section \<open>New groups and deleted ones\<close>

definition new_view :: pview where
  "new_view = \<lparr>v_mem = [], v_refs = [], v_inv = [], v_leader = 0, v_type = 0, v_bg = None, v_bf = False, v_counts = None, v_db = 0, v_rolls = []\<rparr>"

definition a_new :: "wview \<Rightarrow> wview" where
  "a_new V = V\<lparr>G := (G V)(v_next V \<mapsto> new_view), v_next := v_next V + 1\<rparr>"

lemma view_new_group [view_op]: "new_group w = (r, w1) \<Longrightarrow> view w1 = a_new (view w) \<and> r = v_next (view w)"
  by (auto simp: new_group_def a_new_def view_def find_connected_def party_view_def new_party_def new_view_def fun_eq_iff)

lemma a_new_sel [simp]:
  "G (a_new V) = (G V)(v_next V \<mapsto> new_view)" "L (a_new V) = L V" "v_next (a_new V) = v_next V + 1" "v_ids (a_new V) = v_ids V"
  "v_bgs (a_new V) = v_bgs V" "v_loots (a_new V) = v_loots V" "v_item (a_new V) = v_item V" "v_fault (a_new V) = v_fault V"
  by (simp_all add: a_new_def)

lemma new_view_ok: "shape_ok new_view" "size_ok new_view" "rolls_ok V new_view" "\<not> stored new_view" "\<not> raid_view new_view"
  by (simp_all add: shape_ok_def size_ok_def rolls_ok_def new_view_def stored_def raid_view_def)

lemma parties_new:
  assumes "parties_x X {} V"
  shows "parties_x X {} (a_new V)"
proof -
  note d = parties_xD [OF assms] and b = basic_okD [OF parties_xD(1) [OF assms]]
  have n: "G V (v_next V) = None" by (rule b(4)) simp
  have lk: "a_link_of k g (a_new V) = a_link_of k g V" for k g by (simp add: a_link_of_def)
  have nolink: "map_option fst (a_link_of k g V) \<noteq> Some (v_next V)" for k g
    using refs_ok_exists [OF b(1), of k g "v_next V"] n by auto
  have noinv: "\<not> (L V g = Some l \<and> l_inv l = Some (v_next V))" for g l
    using invites_okD(3) [OF b(2), of g l "v_next V"] n by auto
  show ?thesis unfolding parties_x_def
  proof (intro conjI allI impI)
    show "basic_ok (a_new V)" unfolding basic_ok_def
    proof (intro conjI allI impI)
      show "refs_ok (a_new V)" unfolding refs_ok_def lk
      proof (intro conjI allI impI)
        fix r P assume P: "G (a_new V) r = Some P"
        show "distinct (v_refs P)" using P refs_okD(1) [OF b(1), of r P] by (auto simp: new_view_def split: if_splits)
        show "(g, k) \<in> set (v_refs P) \<longleftrightarrow> map_option fst (a_link_of k g V) = Some r" for g k
          using P refs_okD(2) [OF b(1), of r P g k] nolink [of k g] by (cases "r = v_next V") (auto simp: new_view_def)
      next
        fix g k r s assume "a_link_of k g V = Some (r, s)"
        then show "G (a_new V) r \<noteq> None" using refs_ok_exists [OF b(1)] by auto
      qed
      show "invites_ok (a_new V)" unfolding invites_ok_def
      proof (intro conjI allI impI)
        fix r P assume P: "G (a_new V) r = Some P"
        show "os_inv (v_inv P)" using P invites_okD(1) [OF b(2), of r P] by (auto simp: new_view_def split: if_splits)
        show "g \<in> set (v_inv P) \<longleftrightarrow> (\<exists>l. L (a_new V) g = Some l \<and> l_inv l = Some r)" for g
          using P invites_okD(2) [OF b(2), of r P g] noinv [of g] by (cases "r = v_next V") (auto simp: new_view_def)
      next
        fix g l r assume "L (a_new V) g = Some l \<and> l_inv l = Some r"
        then show "G (a_new V) r \<noteq> None" using invites_okD(3) [OF b(2), of g l r] by auto
      qed
      show "bgs_ok (a_new V)" unfolding bgs_ok_def
      proof (intro allI)
        fix k r
        show "v_bgs (a_new V) k = Some r \<longleftrightarrow> (\<exists>P. G (a_new V) r = Some P \<and> v_bg P = Some k)"
          using b(3) n unfolding bgs_ok_def by (cases "r = v_next V") (auto simp: new_view_def)
      qed
      show "G (a_new V) r = None" if "v_next (a_new V) \<le> r" for r using b(4) [of r] that by auto
      show "\<not> v_fault (a_new V)" using b(5) by simp
      show "shape_ok P" if "G (a_new V) r = Some P" for r P using that b(6) new_view_ok(1) by (auto split: if_splits)
      show "rolls_ok (a_new V) P" if "G (a_new V) r = Some P" for r P
      proof -
        have "rolls_ok V P" using that b(7) new_view_ok(3) by (auto split: if_splits)
        then show ?thesis by (simp add: rolls_ok_def)
      qed
    qed
    have m: "mem_of (a_new V) = mem_of V" using n by (auto simp: mem_of_def fun_eq_iff new_view_def)
    have g: "bg_of (a_new V) = bg_of V" using n by (auto simp: bg_of_def fun_eq_iff new_view_def)
    show "social (mem_of (a_new V)) (bg_of (a_new V)) (L (a_new V))" using d(2) unfolding m g by simp
    show "ids_ok {} (a_new V)"
      by (rule ids_ok_cong [OF d(3)]) (use n new_view_ok(4) in auto)
    show "size_ok P \<or> r \<in> X" if "G (a_new V) r = Some P" for r P using that d(4) new_view_ok(2) by (auto split: if_splits)
  qed
qed

lemma empty_no_refs:
  assumes "parties_x X Y V" "G V r = Some P" "v_mem P = []"
  shows "v_refs P = []"
proof -
  have "(h, k) \<notin> set (v_refs P)" for h k
    using ref_mem(2) [OF assms(1,2), of h k] assms(3) by auto
  then show ?thesis by (metis list.set_intros(1) neq_Nil_conv old.prod.exhaust)
qed

lemma parties_delete:
  assumes "parties_x X {} (view w)" "G (view w) r = Some P" "v_mem P = []" "v_inv P = []"
  shows "parties_x (X - {r}) {} (view (delete_party r w))" "view (delete_party r w) = a_drop r (view w)"
proof -
  let ?V = "view w"
  note d = parties_xD [OF assms(1)]
  show 1: "view (delete_party r w) = a_drop r ?V"
    using assms(2) empty_no_refs [OF assms(1-3)] by (rule view_delete_party)
  have "parties_x (X - {r}) ({} - {r}) ((a_drop r ?V)\<lparr>v_ids := v_ids ?V\<rparr>)"
  proof (rule parties_drop_x)
    show "parties_b X {} (mem_of ?V) ?V" using assms(1) unfolding parties_x_b .
    show "\<not> mem_of ?V g r s" for g s using assms(2,3) by (simp add: mem_of_def del: view_sel)
    show "db_ok (v_ids ?V)" using d(3) unfolding ids_ok_def by blast
    show "group_by_db_id (v_ids ?V) j = (if (stored P \<or> r \<in> {}) \<and> j = v_db P then None else group_by_db_id (v_ids ?V) j)" for j
      using assms(3) by (simp add: stored_def)
    show "mem_of ?V g q s \<longleftrightarrow> mem_of ?V g q s \<and> q \<noteq> r" for g q s using assms(2,3) by (auto simp: mem_of_def simp del: view_sel)
  qed (use assms in simp_all)
  moreover have "(a_drop r ?V)\<lparr>v_ids := v_ids ?V\<rparr> = a_drop r ?V" by (simp add: a_drop_def del: view_sel split: option.split)
  ultimately show "parties_x (X - {r}) {} (view (delete_party r w))" unfolding 1 by (simp del: view_sel)
qed

section \<open>Creating a group\<close>

definition start_view :: "guid \<Rightarrow> pview \<Rightarrow> pview" where
  "start_view g P =
     (if v_bg P = None then P\<lparr>v_leader := g\<rparr>
      else P\<lparr>v_leader := g, v_type := GROUPTYPE_BGRAID, v_counts := Some (replicate MAX_RAID_SUBGROUPS 0)\<rparr>)"

definition a_store :: "nat \<Rightarrow> u32 \<Rightarrow> db_ids \<Rightarrow> wview \<Rightarrow> wview" where
  "a_store r i d V = (a_grp r (\<lambda>P. P\<lparr>v_db := i\<rparr>) V)\<lparr>v_ids := d\<rparr>"

lemma start_view_sel [simp]:
  "v_mem (start_view g P) = v_mem P" "v_refs (start_view g P) = v_refs P" "v_inv (start_view g P) = v_inv P"
  "v_leader (start_view g P) = g" "v_bg (start_view g P) = v_bg P" "v_bf (start_view g P) = v_bf P" "v_db (start_view g P) = v_db P"
  "v_rolls (start_view g P) = v_rolls P"
  "v_type (start_view g P) = (if v_bg P = None then v_type P else GROUPTYPE_BGRAID)"
  "v_counts (start_view g P) = (if v_bg P = None then v_counts P else Some (replicate MAX_RAID_SUBGROUPS 0))"
  by (simp_all add: start_view_def)

lemma bgraid_type [simp]: "GROUPTYPE_BGRAID AND GROUPTYPE_RAID \<noteq> 0" "GROUPTYPE_BGRAID AND GROUPTYPE_LFG = 0"
  by (simp_all add: GROUPTYPE_BGRAID_def GROUPTYPE_RAID_def GROUPTYPE_LFG_def)

lemma shape_ok_start: "shape_ok P \<Longrightarrow> v_mem P = [] \<Longrightarrow> shape_ok (start_view g P)"
  by (auto simp: shape_ok_def raid_view_def counts_ok_def in_sub_def)

lemma parties_start:
  assumes "parties_x X Y V" "r \<in> X" "G V r = Some P" "v_mem P = []"
  shows "parties_x X Y (a_grp r (start_view g) V)"
  by (rule parties_x_grp [OF assms(1)])
     (use assms basic_okD(6,7) [OF parties_xD(1) [OF assms(1)] assms(3)] in \<open>auto simp: shape_ok_start rolls_ok_def\<close>)

lemma view_start:
  assumes "G (view w) r = Some P" "v_mem P = []" "\<not> raid_view P" "shape_ok P" "pw_next_group w < 0xFFFFFFFE" "generate_group_id w = (c, w1)"
  shows "view (with_party r (\<lambda>p. if is_raid_group p then init_raid_counter r else id)
      (upd_party r (created g c q) (upd_pp g (\<lambda>q. q\<lparr>pp_leader_flag := True\<rparr>) w1))) = a_grp r (start_view g) (view w)"
proof -
  have "\<not> 0xFFFFFFFE \<le> pw_next_group w" using assms(5) by simp
  then have "w1 = w\<lparr>pw_next_group := pw_next_group w + 1\<rparr>" using assms(6) by (auto simp: generate_group_id_def)
  then have 1: "view w1 = view w" by (simp add: view_def find_connected_def)
  let ?w2 = "upd_pp g (\<lambda>q. q\<lparr>pp_leader_flag := True\<rparr>) w1"
  have 2: "view ?w2 = view w" unfolding 1 [symmetric] by (rule view_upd_pp_light) (simp add: player_view_def)
  obtain p where p: "pw_groups ?w2 r = Some p" "party_view p = P" using assms(1) unfolding 2 [symmetric] by (rule has_party)
  have bf: "\<not> pa_bf p" using p(2) assms(4) by (auto simp: shape_ok_def)
  let ?w3 = "upd_party r (created g c q) ?w2"
  have p3: "pw_groups ?w3 r = Some (created g c q p)" using p(1) by (simp add: upd_party_def)
  have m: "pa_members p = []" using p(2) assms(2) by auto
  show ?thesis
  proof (cases "pa_bg p")
    case None
    have v: "view ?w3 = a_grp r (start_view g) (view ?w2)"
      by (rule view_upd_party_at [OF p(1)])
         (use None bf in \<open>simp add: created_def Let_def party_view_def start_view_def is_bg_group_def is_bf_group_def\<close>)
    have "\<not> is_raid_group (created g c q p)"
      using None bf assms(3) p(2) by (auto simp: created_def Let_def is_bg_group_def is_bf_group_def is_raid_group_def raid_view_def)
    then show ?thesis using p3 v 2 by simp
  next
    case (Some k)
    have r: "is_raid_group (created g c q p)"
      using Some bf by (simp add: created_def Let_def is_bg_group_def is_bf_group_def is_raid_group_def)
    have mm: "pa_members (created g c q p) = []" using m by (simp add: created_def Let_def)
    let ?f = "\<lambda>p. p\<lparr>pa_counts := Some (replicate MAX_RAID_SUBGROUPS 0)\<rparr>"
    have v: "view ?w3 = a_grp r (\<lambda>P. P\<lparr>v_leader := g, v_type := GROUPTYPE_BGRAID\<rparr>) (view ?w2)"
      by (rule view_upd_party_at [OF p(1)])
         (use Some bf in \<open>simp add: created_def Let_def party_view_def is_bg_group_def is_bf_group_def\<close>)
    have "view (upd_party r ?f ?w3) = a_grp r (\<lambda>P. P\<lparr>v_counts := Some (replicate MAX_RAID_SUBGROUPS 0)\<rparr>) (view ?w3)"
      by (rule view_upd_party_at [OF p3]) (simp add: party_view_def)
    also have "\<dots> = a_grp r (start_view g) (view w)"
      unfolding v 2 a_grp_grp using p(2) Some assms(1) by (auto simp: a_grp_def start_view_def fun_eq_iff)
    finally have "view (init_raid_counter r ?w3) = a_grp r (start_view g) (view w)"
      using p3 mm by (simp add: init_raid_counter_def)
    then show ?thesis using p3 r by simp
  qed
qed

lemma parties_store:
  assumes "parties_x X {} V" "G V r = Some P" "\<not> stored P" "db_next (v_ids V) < 0xFFFFFFFE"
    "generate_db_id (v_ids V) = (i, d1)" "register_db_id i r d1 = Some d2"
  shows "parties_x X {r} (a_store r i d2 V)"
proof -
  note d = parties_xD [OF assms(1)]
  obtain i' d1' d2' where D: "generate_db_id (v_ids V) = (i', d1')" "register_db_id i' r d1' = Some d2'" "db_ok d2'"
    "group_by_db_id (v_ids V) i' = None" "\<And>j. group_by_db_id d2' j = (if j = i' then Some r else group_by_db_id (v_ids V) j)"
    using register_db [of "v_ids V" r] d(3) assms(4) unfolding ids_ok_def by metis
  then have e: "i' = i" "d1' = d1" "d2' = d2" using assms(5,6) by auto
  let ?U = "a_grp r (\<lambda>P. P\<lparr>v_db := i\<rparr>) V"
  have b: "basic_ok ?U"
    by (rule basic_ok_grp [OF d(1)])
       (use basic_okD(6,7) [OF d(1)] in \<open>auto simp: shape_ok_def raid_view_def rolls_ok_def\<close>)
  have lk: "a_link_of k g (a_store r i d2 V) = a_link_of k g ?U" for k g by (simp add: a_store_def a_link_of_def)
  show ?thesis unfolding parties_x_def
  proof (intro conjI allI impI)
    have "invites_ok (a_store r i d2 V) \<longleftrightarrow> invites_ok ?U" "refs_ok (a_store r i d2 V) \<longleftrightarrow> refs_ok ?U" "bgs_ok (a_store r i d2 V) \<longleftrightarrow> bgs_ok ?U"
      "\<And>P. rolls_ok (a_store r i d2 V) P \<longleftrightarrow> rolls_ok ?U P"
      unfolding invites_ok_def refs_ok_def bgs_ok_def rolls_ok_def lk by (simp_all add: a_store_def)
    moreover have "G (a_store r i d2 V) = G ?U" "v_next (a_store r i d2 V) = v_next ?U" "v_fault (a_store r i d2 V) = v_fault ?U"
      by (simp_all add: a_store_def)
    ultimately show "basic_ok (a_store r i d2 V)" using b unfolding basic_ok_def by simp
    have m: "mem_of (a_store r i d2 V) = mem_of V" using assms(2) by (auto simp: a_store_def mem_of_def fun_eq_iff)
    have g: "bg_of (a_store r i d2 V) = bg_of V" using assms(2) by (auto simp: a_store_def bg_of_def fun_eq_iff)
    have l: "L (a_store r i d2 V) = L V" by (simp add: a_store_def)
    show "social (mem_of (a_store r i d2 V)) (bg_of (a_store r i d2 V)) (L (a_store r i d2 V))" unfolding m g l by (rule d(2))
    show "ids_ok {r} (a_store r i d2 V)" unfolding ids_ok_def
    proof (intro conjI allI)
      show "db_ok (v_ids (a_store r i d2 V))" using D(3) e by (simp add: a_store_def)
      fix j q
      have x: "group_by_db_id (v_ids V) j = Some q' \<longleftrightarrow> (\<exists>P. G V q' = Some P \<and> stored P \<and> v_db P = j)" for j q'
        using d(3) unfolding ids_ok_def by simp
      have s: "stored (P\<lparr>v_db := i\<rparr>) = stored P" for P by (simp add: stored_def)
      show "group_by_db_id (v_ids (a_store r i d2 V)) j = Some q
        \<longleftrightarrow> (\<exists>P. G (a_store r i d2 V) q = Some P \<and> (stored P \<or> q \<in> {r}) \<and> v_db P = j)"
        using D(4,5) e x [of j q] x [of i q] assms(2,3) by (cases "q = r"; cases "j = i") (auto simp: a_store_def s)
    qed
    show "size_ok Q \<or> q \<in> X" if "G (a_store r i d2 V) q = Some Q" for q Q
      using that d(4) [of q] by (auto simp: a_store_def size_ok_def raid_view_def split: if_splits)
  qed
qed

lemma view_store_group:
  assumes "G (view w) r = Some P" "parties_x X {} (view w)" "db_next (v_ids (view w)) < 0xFFFFFFFE"
  obtains i d1 d2 where "generate_db_id (v_ids (view w)) = (i, d1)" "register_db_id i r d1 = Some d2"
    "view (store_group r w) = a_store r i d2 (view w)"
proof -
  obtain p where p: "pw_groups w r = Some p" "party_view p = P" using assms(1) by (rule has_party)
  have "db_ok (v_ids (view w))" using parties_xD(3) [OF assms(2)] unfolding ids_ok_def by blast
  then obtain i d1 d2 where D: "generate_db_id (v_ids (view w)) = (i, d1)" "register_db_id i r d1 = Some d2"
    by (rule register_db [OF _ assms(3)])
  let ?w1 = "upd_party r (\<lambda>p. p\<lparr>pa_db := i\<rparr>) (w\<lparr>pw_db := d1\<rparr>)"
  have "view (?w1\<lparr>pw_db := d2\<rparr>) = a_store r i d2 (view w)"
    using p(1) by (auto simp: upd_party_def view_def find_connected_def a_store_def a_grp_def fun_eq_iff party_view_def)
  moreover have "pw_groups (?w1\<lparr>pw_db := d2\<rparr>) r = Some (p\<lparr>pa_db := i\<rparr>)" using p(1) by (simp add: upd_party_def)
  ultimately have "view (store_group r w) = a_store r i d2 (view w)"
    using D by (simp add: store_group_def Let_def)
  then show ?thesis using that D by blast
qed


text \<open>\<open>Create\<close>: the leader is the only member.\<close>

lemma may_join_grp:
  assumes "\<And>P. G V r = Some P \<Longrightarrow> v_mem (F P) = v_mem P \<and> v_bg (F P) = v_bg P"
  shows "may_join (a_grp r F V) q g = may_join V q g"
proof -
  have m: "mem_of (a_grp r F V) = mem_of V" using assms by (cases "G V r") (auto simp: mem_of_def fun_eq_iff)
  have g: "bg_of (a_grp r F V) = bg_of V" using assms by (cases "G V r") (auto simp: bg_of_def fun_eq_iff)
  show ?thesis unfolding may_join_def m g by simp
qed

lemma may_join_store: "may_join (a_store r i d V) q g = may_join V q g"
proof -
  have "may_join (a_store r i d V) q g = may_join (a_grp r (\<lambda>P. P\<lparr>v_db := i\<rparr>) V) q g"
    by (simp add: a_store_def may_join_def mem_of_def bg_of_def)
  then show ?thesis by (simp add: may_join_grp)
qed

lemma parties_x_stored:
  assumes "parties_x X {r} V" "G V r = Some P" "stored P"
  shows "parties_x X {} V"
proof -
  have "(\<exists>Q. G V q = Some Q \<and> (stored Q \<or> q \<in> {r}) \<and> v_db Q = j) \<longleftrightarrow> (\<exists>Q. G V q = Some Q \<and> (stored Q \<or> q \<in> {}) \<and> v_db Q = j)" for q j
    using assms(2,3) by auto
  then show ?thesis using assms(1) unfolding parties_x_def ids_ok_def by simp
qed

definition made_view :: "guid \<Rightarrow> u32 \<Rightarrow> pview \<Rightarrow> pview" where
  "made_view g i P = join_view g 0 ((start_view g P)\<lparr>v_db := i\<rparr>)"

lemma a_new_link_same: "same_bare V (a_new_link r s g V)"
proof -
  have "same_bare V (a_link MainLink r s g (a_unlink MainLink g (a_link OrigLink q t g V)))" for q t
    using same_bare_trans [OF same_bare_trans [OF same_bare_link same_bare_unlink] same_bare_link] .
  then show ?thesis by (auto simp: a_new_link_def split: option.split)
qed

lemma a_new_link_L: "h \<noteq> g \<Longrightarrow> L (a_new_link r s g V) h = L V h"
  by (auto simp: a_new_link_def a_link_L a_unlink_L split: option.split)

lemma a_join_bare:
  assumes "G V r = Some P"
  obtains Q where "G (a_join r s g V) r = Some Q" "bare Q = bare (join_view g s P)"
proof -
  have "same_bare (a_grp r (join_view g s) V) (a_join r s g V)" unfolding a_join_def by (rule a_new_link_same)
  moreover have "G (a_grp r (join_view g s) V) r = Some (join_view g s P)" using assms by simp
  ultimately show ?thesis using same_bareD(1) [OF same_bare_sym] that by blast
qed

lemma a_join_mem: "G V r = Some P \<Longrightarrow> mem_of (a_join r s g V) = plus_mem g r s (mem_of V)"
proof -
  assume P: "G V r = Some P"
  have "mem_of (a_join r s g V) = mem_of (a_grp r (join_view g s) V)" unfolding a_join_def by (rule mem_of_bare [OF a_new_link_same])
  also have "\<dots> = plus_mem g r s (mem_of V)" using P by (auto simp: mem_of_def plus_mem_def fun_eq_iff)
  finally show ?thesis .
qed

lemma a_join_bg: "bg_of (a_join r s g V) = bg_of V"
proof -
  have "bg_of (a_join r s g V) = bg_of (a_grp r (join_view g s) V)" unfolding a_join_def by (rule bg_of_bare [OF a_new_link_same])
  also have "\<dots> = bg_of V" by (cases "G V r") (auto simp: bg_of_def fun_eq_iff)
  finally show ?thesis .
qed

lemma a_join_L: "h \<noteq> g \<Longrightarrow> L (a_join r s g V) h = L V h"
  unfolding a_join_def by (simp add: a_new_link_L)

lemma parties_create:
  assumes "parties_x X {} (view w)" "r \<in> X" "G (view w) r = Some P" "v_mem P = []" "\<not> raid_view P" "may_join (view w) r g"
    "pw_next_group w < 0xFFFFFFFE" "v_bg P = None \<Longrightarrow> db_next (v_ids (view w)) < 0xFFFFFFFE"
  shows "parties_x X {} (view (snd (create_group env r g w)))
    \<and> mem_of (view (snd (create_group env r g w))) = plus_mem g r 0 (mem_of (view w))
    \<and> bg_of (view (snd (create_group env r g w))) = bg_of (view w)
    \<and> (\<forall>h. h \<noteq> g \<longrightarrow> L (view (snd (create_group env r g w))) h = L (view w) h)
    \<and> (\<exists>Q i. G (view (snd (create_group env r g w))) r = Some Q \<and> bare Q = bare (made_view g i P))"
proof -
  let ?V = "view w"
  note d = parties_xD [OF assms(1)]
  have sh: "shape_ok P" by (rule basic_okD(6) [OF d(1) assms(3)])
  obtain l where "L ?V g = Some l" using assms(6) unfolding may_join_def by blast
  then obtain q where q: "find_connected w g = Some q" by auto
  obtain c w1 where g1: "generate_group_id w = (c, w1)" by (cases "generate_group_id w")
  let ?w2 = "upd_party r (created g c q) (upd_pp g (\<lambda>q. q\<lparr>pp_leader_flag := True\<rparr>) w1)"
  let ?w3 = "with_party r (\<lambda>p. if is_raid_group p then init_raid_counter r else id) ?w2"
  have v3: "view ?w3 = a_grp r (start_view g) ?V" by (rule view_start [OF assms(3,4,5) sh assms(7) g1])
  have x3: "parties_x X {} (view ?w3)" unfolding v3 by (rule parties_start [OF assms(1,2,3,4)])
  have G3: "G (view ?w3) r = Some (start_view g P)" unfolding v3 using assms(3) by (simp del: view_sel)
  have mj3: "may_join (view ?w3) r g" unfolding v3 using assms(6) by (simp add: may_join_grp del: view_sel)
  obtain p3 where p3: "pw_groups ?w3 r = Some p3" "party_view p3 = start_view g P" using G3 by (rule has_party)
  have m3: "mem_of (view ?w3) = mem_of ?V" "bg_of (view ?w3) = bg_of ?V" "L (view ?w3) = L ?V"
    unfolding v3 using assms(3) by (auto simp: mem_of_def bg_of_def fun_eq_iff simp del: view_sel)
  have bf: "\<not> pa_bf p3" using arg_cong [OF p3(2), of v_bf] sh by (simp add: shape_ok_def)
  have bg3: "pa_bg p3 = v_bg P" using arg_cong [OF p3(2), of v_bg] by simp
  have mm: "pa_members p3 = []" using arg_cong [OF p3(2), of v_mem] assms(4) by simp
  have js: "join_sub_group p = Some 0" if "pa_counts p = v_counts (start_view g P)" for p
  proof (cases "v_bg P")
    case None
    then have "pa_counts p = None" using that sh assms(5) by (simp add: shape_ok_def split: if_splits)
    then show ?thesis by (simp add: join_sub_group_def)
  next
    case (Some k)
    have "free_sub_group (replicate (Suc 7) 0) 0 = Some 0" unfolding replicate_Suc by (simp add: MAXGROUPSIZE_def)
    then show ?thesis using Some that by (simp add: join_sub_group_def)
  qed
  have fin: "parties_x X {} V4 \<and> mem_of V4 = plus_mem g r 0 (mem_of ?V) \<and> bg_of V4 = bg_of ?V \<and> (\<forall>h. h \<noteq> g \<longrightarrow> L V4 h = L ?V h)
      \<and> (\<exists>Q i. G V4 r = Some Q \<and> bare Q = bare (made_view g i P))"
    if u: "V4 = a_join r 0 g U" "parties_x X {} V4" "mem_of U = mem_of ?V" "bg_of U = bg_of ?V" "L U = L ?V"
      "G U r = Some ((start_view g P)\<lparr>v_db := i\<rparr>)" for U V4 i
  proof -
    obtain Q where "G V4 r = Some Q" "bare Q = bare (join_view g 0 ((start_view g P)\<lparr>v_db := i\<rparr>))"
      using a_join_bare [OF u(6), of 0 g] unfolding u(1) by blast
    then show ?thesis
      using u a_join_mem [OF u(6), of 0 g] a_join_bg [of r 0 g U] a_join_L [of _ g r 0 U] unfolding made_view_def by auto
  qed
  show ?thesis
  proof (cases "v_bg P")
    case (Some k)
    have rt: "raid_view (party_view p3)" unfolding p3(2) using Some by (simp add: raid_view_def)
    have a: "fst (add_member env r g ?w3) \<and> view (snd (add_member env r g ?w3)) = a_join r 0 g (view ?w3)"
      by (rule view_add_member [OF x3 p3(1) js mj3]) (use rt mm arg_cong [OF p3(2), of v_counts] in \<open>simp_all add: MAXGROUPSIZE_def\<close>)
    have "parties_x (insert r X) {} (view (snd (add_member env r g ?w3)))"
      by (rule parties_add_member [OF x3 p3(1) js mj3])
         (use rt mm bg3 Some arg_cong [OF p3(2), of v_counts] in \<open>simp_all add: MAXGROUPSIZE_def\<close>)
    then have x4: "parties_x X {} (view (snd (add_member env r g ?w3)))" using assms(2) by (simp add: insert_absorb)
    have cr: "snd (create_group env r g w) = snd (add_member env r g ?w3)"
      using q g1 p3(1) bg3 Some by (simp add: create_group_def Let_def is_bg_group_def)
    have e: "(start_view g P)\<lparr>v_db := v_db P\<rparr> = start_view g P" by (simp add: start_view_def)
    have "G (view ?w3) r = Some ((start_view g P)\<lparr>v_db := v_db P\<rparr>)" unfolding e by (rule G3)
    then show ?thesis unfolding cr by (rule fin [OF conjunct2 [OF a] x4 m3])
  next
    case None
    have nb: "\<not> bg_or_bf p3" using bg3 bf None by (simp add: is_bg_group_def is_bf_group_def)
    have ids: "v_ids (view ?w3) = v_ids ?V" unfolding v3 by (simp del: view_sel)
    have db: "db_next (v_ids (view ?w3)) < 0xFFFFFFFE" unfolding ids by (rule assms(8) [OF None])
    obtain i d1 d2 where D: "generate_db_id (v_ids (view ?w3)) = (i, d1)" "register_db_id i r d1 = Some d2"
      "view (store_group r ?w3) = a_store r i d2 (view ?w3)" by (rule view_store_group [OF G3 x3 db])
    let ?w4 = "store_group r ?w3"
    have ns: "\<not> stored (start_view g P)" using assms(4) by (simp add: stored_def)
    have x4: "parties_x X {r} (view ?w4)" unfolding D(3) by (rule parties_store [OF x3 G3 ns db D(1,2)])
    have G4: "G (view ?w4) r = Some ((start_view g P)\<lparr>v_db := i\<rparr>)" unfolding D(3) a_store_def using G3 by (simp del: view_sel)
    have m4: "mem_of (view ?w4) = mem_of ?V" "bg_of (view ?w4) = bg_of ?V" "L (view ?w4) = L ?V"
      unfolding m3 [symmetric] D(3) a_store_def using G3 by (auto simp: mem_of_def bg_of_def fun_eq_iff simp del: view_sel)
    have mj4: "may_join (view ?w4) r g" unfolding D(3) may_join_store by (rule mj3)
    obtain p4 where p4: "pw_groups ?w4 r = Some p4" "party_view p4 = (start_view g P)\<lparr>v_db := i\<rparr>" using G4 by (rule has_party)
    have mm4: "pa_members p4 = []" using arg_cong [OF p4(2), of v_mem] assms(4) by simp
    have bg4: "pa_bg p4 = None" using arg_cong [OF p4(2), of v_bg] None by simp
    have js4: "join_sub_group p4 = Some 0" by (rule js) (use arg_cong [OF p4(2), of v_counts] in simp)
    have a: "fst (add_member env r g ?w4) \<and> view (snd (add_member env r g ?w4)) = a_join r 0 g (view ?w4)"
      by (rule view_add_member [OF x4 p4(1) js4 mj4]) (use mm4 bg4 in \<open>simp_all add: MAXGROUPSIZE_def\<close>)
    have "parties_x (insert r X) {r} (view (snd (add_member env r g ?w4)))"
      by (rule parties_add_member [OF x4 p4(1) js4 mj4]) (use mm4 bg4 in \<open>simp_all add: MAXGROUPSIZE_def\<close>)
    then have x5: "parties_x X {r} (view (snd (add_member env r g ?w4)))" using assms(2) by (simp add: insert_absorb)
    obtain Q where Q: "G (view (snd (add_member env r g ?w4))) r = Some Q" "bare Q = bare (join_view g 0 ((start_view g P)\<lparr>v_db := i\<rparr>))"
      using a_join_bare [OF G4, of 0 g] conjunct2 [OF a] by metis
    have "stored Q" using bare_eqD(1,5) [OF Q(2)] None by (simp add: stored_def)
    then have x6: "parties_x X {} (view (snd (add_member env r g ?w4)))" by (rule parties_x_stored [OF x5 Q(1)])
    have cr: "snd (create_group env r g w) = snd (add_member env r g ?w4)"
      using q g1 p3(1) nb conjunct1 [OF a] by (simp add: create_group_def Let_def case_prod_beta)
    show ?thesis unfolding cr by (rule fin [OF conjunct2 [OF a] x6 m4 G4])
  qed
qed

end
