(* ===== verification/PartyAsk.thy ===== *)
theory PartyAsk
  imports PartyMake
begin

text \<open>
  The requests about who is in a group: invitations and their answers, leaving, kicking, battlegrounds, login and
  logout keep the invariant.
\<close>

section \<open>Joining a group that exists\<close>

lemma a_uninvite_sel [simp]:
  "L (a_uninvite r g V) = (L V)(g := map_option (\<lambda>l. l\<lparr>l_inv := None\<rparr>) (L V g))"
  "G (a_uninvite r g V) = (G V)(r := map_option (\<lambda>P. P\<lparr>v_inv := os_del g (v_inv P)\<rparr>) (G V r))"
  "v_ids (a_uninvite r g V) = v_ids V" "v_bgs (a_uninvite r g V) = v_bgs V"
  by (simp_all add: a_uninvite_def)

lemma mem_of_uninvite [simp]: "mem_of (a_uninvite r g V) = mem_of V" "bg_of (a_uninvite r g V) = bg_of V"
  using inv_change [OF a_uninvite_def, of r g V] by simp_all

lemma player_invite_some:
  assumes "player_invite w g = Some r"
  obtains l where "L (view w) g = Some l" "l_inv l = Some r"
  using assms unfolding player_invite_view by (auto split: option.splits simp del: view_sel)

lemma invited_group:
  assumes "basic_ok (view w)" "player_invite w g = Some r"
  obtains l p where "L (view w) g = Some l" "l_inv l = Some r" "pw_groups w r = Some p" "g \<in> set (pa_invites p)"
proof -
  obtain l where l: "L (view w) g = Some l" "l_inv l = Some r" using assms(2) by (rule player_invite_some)
  have "G (view w) r \<noteq> None" by (rule invites_okD(3) [OF basic_okD(2) [OF assms(1)] l])
  then obtain p where p: "pw_groups w r = Some p" by auto
  then have "G (view w) r = Some (party_view p)" by simp
  then have "g \<in> set (v_inv (party_view p))" using invites_okD(2) [OF basic_okD(2) [OF assms(1)]] l by blast
  then show ?thesis using that l p by simp
qed

text \<open>Once his invitation is taken back, an invited player may join.\<close>

lemma invited_may_join:
  assumes "parties_x X Y V" "L V g = Some l" "l_inv l = Some i" "\<not> bg_of V q" "L W g = Some (l\<lparr>l_inv := None\<rparr>)"
    "\<And>s. \<not> mem_of W g q s" "bg_of W = bg_of V"
  shows "may_join W q g"
proof -
  note s = socialD(3) [OF parties_xD(2) [OF assms(1)] assms(2,3)]
  show ?thesis unfolding may_join_def using assms(4-7) s by auto
qed

lemma invited_no_member:
  assumes "parties_x X Y V" "L V g = Some l" "l_inv l = Some i" "\<not> bg_of V q"
  shows "\<not> mem_of V g q s"
proof
  assume "mem_of V g q s"
  then have "l_main l = Some (q, s) \<or> l_orig l = Some (q, s)" using socialD(1) [OF parties_xD(2) [OF assms(1)] assms(2)] by blast
  then show False using socialD(3) [OF parties_xD(2) [OF assms(1)] assms(2,3)] assms(4) by auto
qed

lemma parties_grow:
  assumes "parties_ok (view w)" "pw_groups w r = Some p" "pa_members p \<noteq> []" "may_join (view w) r g"
    "\<not> raid_view (party_view p) \<Longrightarrow> length (pa_members p) < MAXGROUPSIZE"
  shows "parties_ok (view (snd (add_member env r g w)))"
proof (cases "join_sub_group p")
  case None
  then show ?thesis using assms(1,2) by (simp add: add_member_def del: view_sel)
next
  case (Some s)
  have h: "G (view w) r = Some (party_view p)" using assms(2) by simp
  have sh: "shape_ok (party_view p)" and sz: "size_ok (party_view p)"
    using basic_okD(6) [OF parties_xD(1) [OF assms(1)] h] parties_xD(4) [OF assms(1) h] by simp_all
  have bg: "pa_bg p \<noteq> None \<Longrightarrow> raid_view (party_view p)" using sh assms(3) by (simp add: shape_ok_def)
  have a: "view (snd (add_member env r g w)) = a_join r s g (view w)"
    using view_add_member [OF assms(1,2) Some assms(4,5) bg] by blast
  have "parties_x (insert r {}) {} (view (snd (add_member env r g w)))"
    by (rule parties_add_member [OF assms(1,2) Some assms(4,5) bg]) (use assms(3) in simp_all)
  then show ?thesis
  proof (rule parties_x_done)
    fix Q assume Q: "G (view (snd (add_member env r g w))) r = Some Q"
    obtain Q' where "G (a_join r s g (view w)) r = Some Q'" "bare Q' = bare (join_view g s (party_view p))"
      using a_join_bare [OF h] by blast
    then have "bare Q = bare (join_view g s (party_view p))" using Q unfolding a by simp
    then show "size_ok Q" using size_ok_bare [of Q] sz assms(3) by (auto simp: size_ok_def)
  qed
qed

section \<open>Accepting an invitation\<close>

lemma parties_form:
  assumes "parties_x {r} {} (view w)" "G (view w) r = Some P" "v_mem P = []" "v_bg P = None" "\<not> raid_view P"
    "L (view w) g = Some l" "l_inv l = Some r" "pw_next_group w < 0xFFFFFFFE" "db_next (v_ids (view w)) < 0xFFFFFFFE"
  shows "parties_x {r} {} (view (form_group env r g w)) \<and> mem_of (view (form_group env r g w)) = plus_mem g r 0 (mem_of (view w))
    \<and> bg_of (view (form_group env r g w)) = bg_of (view w) \<and> (\<forall>h. h \<noteq> g \<longrightarrow> L (view (form_group env r g w)) h = L (view w) h)
    \<and> (\<exists>Q. G (view (form_group env r g w)) r = Some Q \<and> v_mem Q = [(g, 0)] \<and> v_leader Q = g \<and> v_bg Q = None \<and> v_counts Q = None
        \<and> \<not> raid_view Q)"
proof -
  let ?V = "view w" and ?w1 = "remove_invite r g w"
  have h: "has r w" using assms(2) by (simp del: view_sel)
  have 1: "view ?w1 = a_uninvite r g ?V" using h by (rule view_remove_invite)
  let ?P1 = "P\<lparr>v_inv := os_del g (v_inv P)\<rparr>"
  have x1: "parties_x {r} {} (view ?w1)" unfolding 1 by (rule parties_uninvite [OF assms(1,6,7)]) simp
  have G1: "G (view ?w1) r = Some ?P1" unfolding 1 using assms(2) by (simp del: view_sel)
  have nb: "\<not> bg_of ?V r" using assms(2,4) by (auto simp: bg_of_def simp del: view_sel)
  have mj: "may_join (view ?w1) r g"
    by (rule invited_may_join [OF assms(1,6,7) nb]) (use assms(2,3,6) in \<open>simp_all add: 1 mem_of_def del: view_sel\<close>)
  have ng: "pw_next_group ?w1 = pw_next_group w" "v_ids (view ?w1) = v_ids ?V"
    using h by (auto simp: remove_invite_def set_invite_def upd_pp_def upd_party_def)
  have c: "parties_x {r} {} (view (snd (create_group env r g ?w1)))
    \<and> mem_of (view (snd (create_group env r g ?w1))) = plus_mem g r 0 (mem_of (view ?w1))
    \<and> bg_of (view (snd (create_group env r g ?w1))) = bg_of (view ?w1)
    \<and> (\<forall>h. h \<noteq> g \<longrightarrow> L (view (snd (create_group env r g ?w1))) h = L (view ?w1) h)
    \<and> (\<exists>Q i. G (view (snd (create_group env r g ?w1))) r = Some Q \<and> bare Q = bare (made_view g i ?P1))"
    by (rule parties_create [OF x1 _ G1 _ _ mj]) (use assms(3-5,8,9) ng in \<open>simp_all add: raid_view_def del: view_sel\<close>)
  obtain Q i where Q: "G (view (snd (create_group env r g ?w1))) r = Some Q" "bare Q = bare (made_view g i ?P1)" using c by blast
  have f: "view (form_group env r g w) = view (snd (create_group env r g ?w1))"
    unfolding form_group_def by (rule view_add_group) (use Q(1) in \<open>simp del: view_sel\<close>)
  have sh: "shape_ok P" by (rule basic_okD(6) [OF parties_xD(1) [OF assms(1)] assms(2)])
  have q: "v_mem Q = [(g, 0)]" "v_leader Q = g" "v_bg Q = None" "v_counts Q = None" "\<not> raid_view Q"
    using bare_eqD [OF Q(2)] assms(3,4,5) sh by (simp_all add: made_view_def raid_view_def shape_ok_def)
  show ?thesis unfolding f using c Q(1) q by (simp add: 1 del: view_sel)
qed

lemma parties_accept:
  assumes "parties_ok (view w)" "\<And>r p. player_invite w g = Some r \<Longrightarrow> pw_groups w r = Some p \<Longrightarrow> pa_leader p \<noteq> g"
    "pw_next_group w < 0xFFFFFFFE" "db_next (pw_db w) < 0xFFFFFFFE"
  shows "parties_ok (view (handle_group_accept env g w))"
proof (cases "player_invite w g")
  case None
  then show ?thesis using assms(1) by (simp add: handle_group_accept_def)
next
  case (Some r)
  let ?V = "view w"
  note d = parties_xD [OF assms(1)]
  obtain l p where lp: "L ?V g = Some l" "l_inv l = Some r" "pw_groups w r = Some p" "g \<in> set (pa_invites p)"
    using invited_group [OF d(1) Some] by blast
  have ld: "pa_leader p \<noteq> g" by (rule assms(2) [OF Some lp(3)])
  have h: "G ?V r = Some (party_view p)" "has r w" using lp(3) by simp_all
  note sz = d(4) [OF h(1)] and sh = basic_okD(6) [OF d(1) h(1)]
  have nb: "pa_bg p = None"
    using sz lp(4) by (auto simp: size_ok_def split: if_splits)
  have nbo: "\<not> bg_of ?V r" using h(1) nb by (simp add: bg_of_def del: view_sel)
  let ?w1 = "remove_invite r g w" and ?P1 = "(party_view p)\<lparr>v_inv := os_del g (pa_invites p)\<rparr>"
  have 1: "view ?w1 = a_uninvite r g ?V" using h(2) by (rule view_remove_invite)
  have x1: "parties_ok (view ?w1)" unfolding 1
    by (rule parties_uninvite [OF assms(1) lp(1,2)]) (use lp(3) ld in simp)
  have G1: "G (view ?w1) r = Some ?P1" unfolding 1 using h(1) by (simp del: view_sel)
  then obtain p1 where p1: "pw_groups ?w1 r = Some p1" "party_view p1 = ?P1" by (rule has_party)
  have e: "pa_members p1 = [] \<longleftrightarrow> pa_members p = []" "length (pa_members p1) = length (pa_members p)" "pa_leader p1 = pa_leader p"
    "pa_type p1 = pa_type p"
    using arg_cong [OF p1(2), of v_mem] arg_cong [OF p1(2), of v_leader] arg_cong [OF p1(2), of v_type]
    by (auto dest: map_eq_imp_length_eq)
  have L1: "L (view ?w1) g = Some (l\<lparr>l_inv := None\<rparr>)" "\<And>h. h \<noteq> g \<Longrightarrow> L (view ?w1) h = L ?V h"
    unfolding 1 using lp(1) by (simp_all del: view_sel)
  have M1: "mem_of (view ?w1) = mem_of ?V" "bg_of (view ?w1) = bg_of ?V" unfolding 1 by (simp_all del: view_sel)
  note nm = invited_no_member [OF assms(1) lp(1,2) nbo]
  have mj: "may_join (view ?w1) r g"
    by (rule invited_may_join [OF assms(1) lp(1,2) nbo L1(1)]) (use nm M1 in \<open>simp_all del: view_sel\<close>)
  have eq: "handle_group_accept env g w =
     (if is_full p1 then send_party_result g PARTY_OP_INVITE [] ERR_GROUP_FULL ?w1
      else if is_created p1 then snd (add_member env r g ?w1)
      else if find_player ?w1 (pa_leader p1) = None then remove_all_invites r ?w1
      else snd (add_member env r g (form_group env r (pa_leader p1) ?w1)))"
    using Some p1(1) ld e(3) by (simp add: handle_group_accept_def)
  show ?thesis
  proof (cases "is_full p1")
    case True
    then show ?thesis unfolding eq using x1 by (simp del: view_sel)
  next
    case nf: False
    show ?thesis
    proof (cases "is_created p1")
      case True
      have "parties_ok (view (snd (add_member env r g ?w1)))"
        by (rule parties_grow [OF x1 p1(1) _ mj])
           (use True nf in \<open>auto simp: is_created_def is_full_def raid_view_def is_raid_group_def\<close>)
      then show ?thesis unfolding eq using nf True by (simp del: view_sel)
    next
      case False
      then have mt: "pa_members p = []" using e(1) by (simp add: is_created_def)
      show ?thesis
      proof (cases "find_player ?w1 (pa_leader p1)")
        case None
        have "view (remove_all_invites r ?w1) = a_clear r (view ?w1)" by (rule view_remove_all_invites) (use p1(1) in simp)
        then have "parties_ok (view (remove_all_invites r ?w1))" using parties_clear [OF x1] by simp
        then show ?thesis unfolding eq using nf False None by (simp del: view_sel)
      next
        case (Some lead)
        have nr: "\<not> raid_view (party_view p)" and lin: "pa_leader p \<in> set (pa_invites p)"
          using sz mt lp(4) by (auto simp: size_ok_def)
        obtain l2 where l2: "L ?V (pa_leader p) = Some l2" "l_inv l2 = Some r"
          using invites_okD(2) [OF basic_okD(2) [OF d(1)] h(1), of "pa_leader p"] lin by auto
        have L2: "L (view ?w1) (pa_leader p1) = Some l2" using L1(2) [of "pa_leader p"] ld l2(1) e(3) by (simp del: view_sel)
        have xr: "parties_x {r} {} (view ?w1)" using x1 unfolding parties_x_def by blast
        have ng: "pw_next_group ?w1 = pw_next_group w" "v_ids (view ?w1) = pw_db w"
          using h by (auto simp: remove_invite_def set_invite_def upd_pp_def upd_party_def)
        let ?w2 = "form_group env r (pa_leader p1) ?w1"
        have f: "parties_x {r} {} (view ?w2) \<and> mem_of (view ?w2) = plus_mem (pa_leader p1) r 0 (mem_of (view ?w1))
          \<and> bg_of (view ?w2) = bg_of (view ?w1) \<and> (\<forall>h. h \<noteq> pa_leader p1 \<longrightarrow> L (view ?w2) h = L (view ?w1) h)
          \<and> (\<exists>Q. G (view ?w2) r = Some Q \<and> v_mem Q = [(pa_leader p1, 0)] \<and> v_leader Q = pa_leader p1 \<and> v_bg Q = None
              \<and> v_counts Q = None \<and> \<not> raid_view Q)"
          by (rule parties_form [OF xr G1 _ _ _ L2 l2(2)])
             (use mt nb nr assms(3,4) ng in \<open>simp_all add: raid_view_def del: view_sel\<close>)
        then obtain Q where Q: "G (view ?w2) r = Some Q" "v_mem Q = [(pa_leader p1, 0)]" "v_leader Q = pa_leader p1" "v_bg Q = None"
          "v_counts Q = None" "\<not> raid_view Q" by blast
        obtain p2 where p2: "pw_groups ?w2 r = Some p2" "party_view p2 = Q" using Q(1) by (rule has_party)
        have m2: "length (pa_members p2) = 1" using arg_cong [OF p2(2), of v_mem] Q(2) by (auto dest: map_eq_imp_length_eq)
        have js: "join_sub_group p2 = Some 0" using arg_cong [OF p2(2), of v_counts] Q(5) by (simp add: join_sub_group_def)
        have b2: "pa_bg p2 = None" using arg_cong [OF p2(2), of v_bg] Q(4) by simp
        have ne: "g \<noteq> pa_leader p1" using ld e(3) by simp
        have Lg: "L (view ?w2) g = Some (l\<lparr>l_inv := None\<rparr>)" using f ne L1(1) by (simp del: view_sel)
        have mj2: "may_join (view ?w2) r g"
          by (rule invited_may_join [OF assms(1) lp(1,2) nbo Lg])
             (use f nm M1 ne in \<open>simp_all add: plus_mem_def del: view_sel\<close>)
        let ?w3 = "snd (add_member env r g ?w2)"
        note xf = conjunct1 [OF f]
        have a: "view ?w3 = a_join r 0 g (view ?w2)"
          using view_add_member [OF xf p2(1) js mj2] m2 b2 by (simp add: MAXGROUPSIZE_def del: view_sel)
        have "parties_x (insert r {r}) {} (view ?w3)"
          by (rule parties_add_member [OF xf p2(1) js mj2]) (use m2 b2 in \<open>auto simp: MAXGROUPSIZE_def\<close>)
        then have "parties_ok (view ?w3)"
        proof (intro parties_x_done)
          fix Q3 assume Q3: "G (view ?w3) r = Some Q3"
          obtain Q' where "G (a_join r 0 g (view ?w2)) r = Some Q'" "bare Q' = bare (join_view g 0 Q)"
            using a_join_bare [OF Q(1)] by blast
          then have "bare Q3 = bare (join_view g 0 Q)" using Q3 unfolding a by simp
          then show "size_ok Q3" using size_ok_bare [of Q3] Q by (simp add: size_ok_def)
        qed simp
        then show ?thesis unfolding eq using nf False Some by (simp del: view_sel)
      qed
    qed
  qed
qed


section \<open>Taking an invitation back\<close>

lemma parties_x_mono: "parties_x X Y V \<Longrightarrow> X \<subseteq> Z \<Longrightarrow> parties_x Z Y V"
  unfolding parties_x_def by blast

lemma shrinks_uninvite: "shrinks V (a_uninvite r g V)"
  by (rule shrinksI) (auto split: if_splits)

lemma shrinks_clear: "shrinks V (a_clear r V)"
proof (cases "G V r")
  case (Some P)
  show ?thesis
    by (rule shrinksI) (auto simp: a_clear_L [OF Some] bg_of_def split: if_splits)
qed (simp add: a_clear_def)

lemma shrinks_drop: "shrinks V (a_drop r V)"
  by (rule shrinksI) (auto simp: mem_of_def bg_of_def a_drop_def split: if_splits option.splits)

text \<open>Nobody is invited to a group in which he is.\<close>

definition uninvited :: "wview \<Rightarrow> guid \<Rightarrow> bool" where
  "uninvited V g \<longleftrightarrow> (\<forall>l. L V g = Some l \<longrightarrow> l_inv l = None)"

lemma uninvited_shrinks: "uninvited V g \<Longrightarrow> shrinks V W \<Longrightarrow> uninvited W g"
proof -
  assume u: "uninvited V g" and s: "shrinks V W"
  have "l_inv l = None" if "L W g = Some l" for l
  proof (cases "l_inv l")
    case (Some i)
    then show ?thesis using shrinksD(4) [OF s that Some] u unfolding uninvited_def by auto
  qed
  then show ?thesis by (simp add: uninvited_def)
qed

lemma parties_uninvite_from:
  assumes "parties_ok (view w)"
  shows "parties_ok (view (uninvite_from_group env g w)) \<and> shrinks (view w) (view (uninvite_from_group env g w))
    \<and> uninvited (view (uninvite_from_group env g w)) g"
proof (cases "player_invite w g")
  case None
  then have "uninvited (view w) g" unfolding player_invite_view uninvited_def by (auto simp del: view_sel)
  then show ?thesis using assms None by (simp add: uninvite_from_group_def del: view_sel)
next
  case (Some r)
  let ?V = "view w"
  note d = parties_xD [OF assms]
  obtain l p where lp: "L ?V g = Some l" "l_inv l = Some r" "pw_groups w r = Some p" "g \<in> set (pa_invites p)"
    using invited_group [OF d(1) Some] by blast
  have h: "G ?V r = Some (party_view p)" "has r w" using lp(3) by simp_all
  let ?w1 = "remove_invite r g w" and ?P1 = "(party_view p)\<lparr>v_inv := os_del g (pa_invites p)\<rparr>"
  have 1: "view ?w1 = a_uninvite r g ?V" using h(2) by (rule view_remove_invite)
  have s1: "shrinks ?V (view ?w1)" unfolding 1 by (rule shrinks_uninvite)
  have u1: "uninvited (view ?w1) g" unfolding 1 uninvited_def by (auto simp del: view_sel)
  have x1: "parties_x {r} {} (view ?w1)" unfolding 1
    by (rule parties_uninvite [OF parties_x_mono [OF assms] lp(1,2)]) simp_all
  have G1: "G (view ?w1) r = Some ?P1" unfolding 1 using h(1) by (simp del: view_sel)
  then obtain p1 where p1: "pw_groups ?w1 r = Some p1" "party_view p1 = ?P1" by (rule has_party)
  have e: "length (pa_members p1) = length (pa_members p)"
    using arg_cong [OF p1(2), of v_mem] by (auto dest: map_eq_imp_length_eq)
  show ?thesis
  proof (cases "length (pa_members p1) \<le> 1")
    case False
    have "pa_members p \<noteq> []" using False e by auto
    then have "parties_ok (view ?w1)" unfolding 1
      by (intro parties_uninvite [OF assms lp(1,2)]) (use lp(3) in auto)
    moreover have "uninvite_from_group env g w = ?w1" using Some p1(1) False by (simp add: uninvite_from_group_def)
    ultimately show ?thesis using s1 u1 by simp
  next
    case few: True
    show ?thesis
    proof (cases "is_created p1")
      case True
      then have ne: "pa_members p1 \<noteq> []" by (simp add: is_created_def)
      have q: "uninvite_from_group env g w = disband env True r ?w1" using Some p1(1) few True by (simp add: uninvite_from_group_def)
      note x = parties_disband [OF x1 p1(1) ne, of env True]
      have "parties_ok (view (disband env True r ?w1))" using x(1) by simp
      moreover have s: "shrinks (view ?w1) (view (disband env True r ?w1))" using x(3) by simp
      ultimately show ?thesis unfolding q using shrinks_trans [OF s1 s] uninvited_shrinks [OF u1 s] by blast
    next
      case False
      then have mt: "v_mem ?P1 = []" using p1(2) by (auto simp: is_created_def dest: arg_cong [where f = v_mem])
      let ?w2 = "remove_all_invites r ?w1"
      have q: "uninvite_from_group env g w = delete_party r ?w2" using Some p1(1) few False by (simp add: uninvite_from_group_def)
      have 2: "view ?w2 = a_clear r (view ?w1)" by (rule view_remove_all_invites) (use p1(1) in simp)
      have x2: "parties_x {r} {} (view ?w2)" unfolding 2 by (rule parties_clear [OF x1])
      have G2: "G (view ?w2) r = Some (?P1\<lparr>v_inv := []\<rparr>)" unfolding 2 using G1 by (simp del: view_sel)
      note x = parties_delete [OF x2 G2]
      have x3: "parties_ok (view (delete_party r ?w2))" using x(1) mt by simp
      have v3: "view (delete_party r ?w2) = a_drop r (view ?w2)" using x(2) mt by simp
      have s: "shrinks (view ?w1) (view (delete_party r ?w2))"
        unfolding v3 using shrinks_trans [OF shrinks_clear shrinks_drop] 2 by metis
      then show ?thesis unfolding q using x3 shrinks_trans [OF s1 s] uninvited_shrinks [OF u1 s] by blast
    qed
  qed
qed

lemma parties_decline:
  assumes "parties_ok (view w)"
  shows "parties_ok (view (handle_group_decline env g w))"
proof (cases "player_invite w g")
  case None
  then show ?thesis using assms by (simp add: handle_group_decline_def)
next
  case (Some r)
  obtain p where "pw_groups w r = Some p" by (rule invited_group [OF parties_xD(1) [OF assms] Some])
  then show ?thesis using parties_uninvite_from [OF assms, of env g] Some
    by (simp add: handle_group_decline_def Let_def del: view_sel)
qed

section \<open>Inviting\<close>

lemma links_of:
  assumes "L V g = Some l"
  shows "a_link_of MainLink g V = l_main l" "a_link_of OrigLink g V = l_orig l"
  using assms by (simp_all add: a_link_of_def)

lemma own_group_none:
  assumes "parties_x X Y (view w)" "L (view w) g = Some l" "own_group bg_or_bf w g = None"
  shows "l_orig l = None" "l_main l = Some (q, s) \<Longrightarrow> bg_of (view w) q"
proof -
  note d = parties_xD [OF assms(1)]
  note k = links_of [OF assms(2)]
  have "l_orig l = None \<and> (\<forall>q s. l_main l = Some (q, s) \<longrightarrow> bg_of (view w) q)"
  proof (cases "l_main l")
    case None
    then have "l_orig l = None" using socialD(2) [OF d(2) assms(2)] by (cases "l_orig l") auto
    then show ?thesis using None by simp
  next
    case (Some x)
    obtain q s where x: "x = (q, s)" by (cases x)
    have "has q w" using refs_ok_exists [OF basic_okD(1) [OF d(1)], of MainLink g q s] k Some x by simp
    then obtain p where p: "pw_groups w q = Some p" by auto
    have m: "player_group w g = Some q" "player_original w g = map_option fst (l_orig l)"
      using k Some x by (simp_all add: player_link_view)
    have b: "bg_or_bf p \<longleftrightarrow> bg_of (view w) q" by (rule bg_view [OF p not_bf [OF d(1) p]])
    show ?thesis using assms(3) m p b Some x by (auto simp: own_group_def split: if_splits)
  qed
  then show "l_orig l = None" "l_main l = Some (q, s) \<Longrightarrow> bg_of (view w) q" by blast+
qed

lemma parties_add_invite:
  assumes "parties_x X {} (view w)" "pw_groups w r = Some p"
    "r \<notin> X \<Longrightarrow> pa_bg p = None" "r \<notin> X \<Longrightarrow> pa_members p = [] \<Longrightarrow> pa_invites p = [] \<Longrightarrow> pa_leader p = g"
  obtains (no) "add_invite r g w = (False, w)"
  | (yes) w' where "add_invite r g w = (True, w')" "view w' = a_invite r g (view w)" "parties_x X {} (view w')" "is_connected w g"
proof (cases "\<not> is_connected w g \<or> player_invite w g \<noteq> None \<or> own_group bg_or_bf w g \<noteq> None")
  case True
  then show ?thesis using that(1) by (simp add: add_invite_def)
next
  case False
  let ?V = "view w"
  note d = parties_xD [OF assms(1)]
  obtain l where l: "L ?V g = Some l" using False by (auto simp: connected_view simp del: view_sel)
  have i: "l_inv l = None" using False l unfolding player_invite_view by (auto simp del: view_sel)
  have h: "G ?V r = Some (party_view p)" "has r w" using assms(2) by simp_all
  have og: "own_group bg_or_bf w g = None" using False by blast
  note o = own_group_none [OF assms(1) l og]
  have ni: "g \<notin> set (pa_invites p)" using invites_okD(2) [OF basic_okD(2) [OF d(1)] h(1), of g] l i by (auto simp del: view_sel)
  then have di: "os_del g (pa_invites p) = pa_invites p" by (auto simp: os_del_def filter_id_conv)
  let ?w1 = "remove_invite r g w"
  let ?w2 = "upd_party r (\<lambda>p. p\<lparr>pa_invites := os_ins g (pa_invites p)\<rparr>) ?w1"
  have 1: "view ?w1 = a_uninvite r g ?V" using h(2) by (rule view_remove_invite)
  have "view ?w2 = a_grp r (\<lambda>P. P\<lparr>v_inv := os_ins g (v_inv P)\<rparr>) (view ?w1)"
    by (rule view_upd_party) (use h in \<open>simp_all add: 1 party_view_def del: view_sel\<close>)
  then have 3: "view (set_invite (Some r) g ?w2) = a_invite r g ?V"
    unfolding view_set_invite 1 a_invite_def a_uninvite_def using h(1) l di
    by (auto simp: a_pl_def a_grp_def fun_eq_iff simp del: view_sel)
  have "parties_x X {} (a_invite r g ?V)"
    by (rule parties_invite [OF assms(1) l i _ o]) (use h assms(2-4) in auto)
  then show ?thesis using that(2) [of "set_invite (Some r) g ?w2"] 3 False by (auto simp: add_invite_def Let_def)
qed

lemma parties_invite_old:
  assumes "parties_ok (view w)" "own_group is_bg_group w g = Some r"
  shows "parties_ok (view (invite_to_old g me name h r w))"
proof -
  let ?V = "view w"
  note d = parties_xD [OF assms(1)]
  obtain q where q: "player_group w g = Some q" using assms(2) by (cases "player_group w g") (simp_all add: own_group_def)
  obtain l where l: "L ?V g = Some l" using q unfolding player_group_view by (auto split: option.splits simp del: view_sel)
  note k = links_of [OF l]
  obtain t where t: "l_main l = Some (q, t)" using q k by (auto simp: player_link_view)
  have "has q w" using refs_ok_exists [OF basic_okD(1) [OF d(1)], of MainLink g q t] k t by simp
  then obtain pq where pq: "pw_groups w q = Some pq" by auto
  have mr: "\<not> bg_of ?V r \<and> (\<exists>s. mem_of ?V g r s)"
  proof (cases "is_bg_group pq")
    case True
    then have "player_original w g = Some r" using assms(2) q pq by (simp add: own_group_def)
    then obtain s where s: "l_orig l = Some (r, s)" using k by (auto simp: player_link_view)
    then show ?thesis using socialD(1,2) [OF d(2) l] by blast
  next
    case False
    then have "q = r" using assms(2) q pq by (simp add: own_group_def)
    then show ?thesis using False pq t socialD(1) [OF d(2) l] by (auto simp: bg_of_def is_bg_group_def)
  qed
  then obtain s where s: "mem_of ?V g r s" by blast
  then obtain P where P0: "G ?V r = Some P" "(g, s) \<in> set (v_mem P)" unfolding mem_of_def by blast
  then have P: "G ?V r = Some P" "v_mem P \<noteq> []" by (auto simp del: view_sel)
  obtain p where p: "pw_groups w r = Some p" "party_view p = P" using P(1) by (rule has_party)
  have np: "pa_bg p = None" "pa_members p \<noteq> []" using mr p P by (auto simp: bg_of_def)
  show ?thesis
  proof (cases rule: parties_add_invite [OF assms(1) p(1), of h, case_names b e no yes])
    case no
    then show ?thesis using p(1) assms(1) by (simp add: invite_to_old_def send_invite_def del: view_sel)
  next
    case (yes w')
    then show ?thesis using p(1) assms(1) by (simp add: invite_to_old_def send_invite_def del: view_sel)
  qed (use np in simp_all)
qed


lemma parties_invite_new:
  assumes "parties_ok (view w)"
  shows "parties_ok (view (invite_to_new g me name h w))"
proof -
  obtain r w1 where n: "new_group w = (r, w1)" by (cases "new_group w")
  have 1: "view w1 = a_new (view w)" "r = v_next (view w)" using view_new_group [OF n] by blast+
  have x1: "parties_ok (view w1)" unfolding 1(1) by (rule parties_new [OF assms])
  have G1: "G (view w1) r = Some new_view" unfolding 1 by (simp del: view_sel)
  then obtain p1 where p1: "pw_groups w1 r = Some p1" "party_view p1 = new_view" by (rule has_party)
  have nv: "v_mem new_view = []" "v_inv new_view = []" "v_bg new_view = None" "\<not> raid_view new_view"
    by (simp_all add: new_view_def raid_view_def)
  show ?thesis
  proof (cases rule: parties_add_invite [OF parties_x_mono [OF x1] p1(1), of "{r}" g, case_names a b e no yes])
    case no
    have "parties_ok (view (delete_party r w1))" using parties_delete(1) [OF x1 G1 nv(1,2)] by simp
    then show ?thesis using n no by (simp add: invite_to_new_def Let_def add_leader_invite_def del: view_sel)
  next
    case (yes w2)
    let ?w2 = "upd_party r (\<lambda>p. p\<lparr>pa_leader := g, pa_leader_name := player_name w1 g\<rparr>) w2"
    let ?P2 = "new_view\<lparr>v_inv := [g]\<rparr>" and ?P3 = "new_view\<lparr>v_inv := [g], v_leader := g\<rparr>"
    have G2: "G (view w2) r = Some ?P2" unfolding yes(2) a_invite_def using G1 nv(2) by (simp del: view_sel)
    have 3: "view ?w2 = a_grp r (\<lambda>P. P\<lparr>v_leader := g\<rparr>) (view w2)"
      by (rule view_upd_party) (use G2 in \<open>simp_all add: party_view_def del: view_sel\<close>)
    have x3: "parties_x {r} {} (view ?w2)" unfolding 3
      by (rule parties_x_grp [OF yes(3)])
         (use basic_okD(6,7) [OF parties_xD(1) [OF yes(3)]] in \<open>auto simp: shape_ok_def raid_view_def rolls_ok_def simp del: view_sel\<close>)
    have G3: "G (view ?w2) r = Some ?P3" unfolding 3 using G2 by (simp del: view_sel)
    have ok3: "parties_ok (view ?w2)"
      by (rule parties_x_done [OF x3]) (use G3 nv in \<open>auto simp: size_ok_def raid_view_def simp del: view_sel\<close>)
    obtain p3 where p3: "pw_groups ?w2 r = Some p3" "party_view p3 = ?P3" using G3 by (rule has_party)
    have b3: "pa_bg p3 = None" "pa_invites p3 \<noteq> []"
      using arg_cong [OF p3(2), of v_bg] arg_cong [OF p3(2), of v_inv] nv(3) by simp_all
    have al: "add_leader_invite r g w1 = (True, ?w2)" using yes(1) by (simp add: add_leader_invite_def)
    show ?thesis
    proof (cases rule: parties_add_invite [OF ok3 p3(1), of h, case_names b e no yes])
      case no
      let ?w4 = "remove_all_invites r ?w2"
      have 4: "view ?w4 = a_clear r (view ?w2)" by (rule view_remove_all_invites) (use p3(1) in simp)
      have x4: "parties_ok (view ?w4)" unfolding 4 by (rule parties_clear [OF ok3])
      have G4: "G (view ?w4) r = Some (?P3\<lparr>v_inv := []\<rparr>)" unfolding 4 using G3 by (simp del: view_sel)
      have "parties_ok (view (delete_party r ?w4))" using parties_delete(1) [OF x4 G4] nv(1) by simp
      then show ?thesis using n al no by (simp add: invite_to_new_def Let_def del: view_sel)
    next
      case (yes w')
      then show ?thesis using n al by (simp add: invite_to_new_def Let_def send_invite_def del: view_sel)
    qed (use b3 in simp_all)
  qed (use p1 nv in simp_all)
qed

lemma parties_invite_request:
  assumes "parties_ok (view w)"
  shows "parties_ok (view (handle_group_invite env g name w))"
proof -
  have p: "parties_ok (view (invite_player g me n h w))" for me n h
    using assms parties_invite_new [OF assms, of g me n h] parties_invite_old [OF assms, of g _ me n h]
    by (simp add: invite_player_def Let_def del: view_sel split: option.split)
  show ?thesis using p assms by (simp add: handle_group_invite_def del: view_sel split: option.split)
qed

section \<open>Leaving, kicking, leading\<close>

lemma member_of_group:
  assumes "parties_x X Y (view w)" "player_group w g = Some r"
  obtains p l s where "pw_groups w r = Some p" "L (view w) g = Some l" "l_main l = Some (r, s)" "mem_of (view w) g r s"
proof -
  note d = parties_xD [OF assms(1)]
  obtain l where l: "L (view w) g = Some l" using assms(2) unfolding player_group_view by (auto split: option.splits simp del: view_sel)
  obtain s where s: "l_main l = Some (r, s)" using assms(2) links_of [OF l] by (auto simp: player_link_view)
  have "mem_of (view w) g r s" using socialD(1) [OF d(2) l] s by blast
  moreover have "has r w" using refs_ok_exists [OF basic_okD(1) [OF d(1)], of MainLink g r s] links_of [OF l] s by simp
  ultimately show ?thesis using that l s by auto
qed

lemma is_member_view: "is_member p g \<longleftrightarrow> g \<in> fst ` set (v_mem (party_view p))"
  by (auto simp: is_member_def get_slot_def find_None_iff image_image)

lemma member_mem:
  assumes "pw_groups w r = Some p" "is_member p g"
  obtains s where "mem_of (view w) g r s"
  using assms unfolding is_member_view by (force simp: mem_of_def)

lemma parties_remove_from:
  assumes "parties_ok (view w)" "pw_groups w r = Some p" "is_member p g"
  shows "parties_ok (view (remove_from_group env how (Some r) g w))"
proof -
  obtain s where "mem_of (view w) g r s" by (rule member_mem [OF assms(2,3)])
  then show ?thesis using parties_remove_member [OF assms(1,2)] by (simp add: remove_from_group_def)
qed

lemma parties_uninvite_guid:
  assumes "parties_ok (view w)"
  shows "parties_ok (view (handle_group_uninvite_guid env g tgt w))"
proof (cases "tgt = g \<or> can_uninvite_from_group env w g tgt \<noteq> ERR_PARTY_RESULT_OK")
  case True
  then show ?thesis using assms by (auto simp: handle_group_uninvite_guid_def Let_def simp del: view_sel)
next
  case False
  then obtain r where r: "player_group w g = Some r" by (cases "player_group w g") (auto simp: can_uninvite_from_group_def)
  obtain p where p: "pw_groups w r = Some p" by (rule member_of_group [OF assms r])
  show ?thesis
    using False r p assms parties_remove_from [OF assms p, of tgt env REMOVE_KICK] parties_uninvite_from [OF assms, of env tgt]
    by (auto simp: handle_group_uninvite_guid_def get_invited_def simp del: view_sel)
qed

lemma parties_uninvite_name:
  assumes "parties_ok (view w)"
  shows "parties_ok (view (handle_group_uninvite env g name w))"
proof (cases "normalize_player_name (pe_utf8 env) name")
  case None
  then show ?thesis using assms by (simp add: handle_group_uninvite_def del: view_sel)
next
  case (Some n)
  show ?thesis
  proof (cases "player_name w g = n \<or> can_uninvite_from_group env w g guid_empty \<noteq> ERR_PARTY_RESULT_OK")
    case True
    then show ?thesis using Some assms by (auto simp: handle_group_uninvite_def Let_def simp del: view_sel)
  next
    case False
    then obtain r where r: "player_group w g = Some r" by (cases "player_group w g") (auto simp: can_uninvite_from_group_def)
    obtain p where p: "pw_groups w r = Some p" by (rule member_of_group [OF assms r])
    let ?t = "get_member_guid p n"
    have m: "is_member p ?t" if nz: "?t \<noteq> 0"
    proof -
      obtain m where m: "find (\<lambda>m. mb_name m = n) (pa_members p) = Some m" "?t = mb_guid m"
        using nz by (cases "find (\<lambda>m. mb_name m = n) (pa_members p)") (simp_all add: get_member_guid_def)
      then have "m \<in> set (pa_members p)" by (auto simp: find_Some_iff)
      then show ?thesis unfolding is_member_view m(2) by (simp add: image_image)
    qed
    show ?thesis
      using False Some r p assms m parties_remove_from [OF assms p, of ?t env REMOVE_KICK] parties_uninvite_from [OF assms]
      by (auto simp: handle_group_uninvite_def simp del: view_sel split: option.split)
  qed
qed

lemma parties_leave:
  assumes "parties_ok (view w)"
  shows "parties_ok (view (handle_group_disband env g w))"
proof (cases "player_group w g")
  case None
  then show ?thesis using assms by (simp add: handle_group_disband_def del: view_sel)
next
  case (Some r)
  obtain p l s where p: "pw_groups w r = Some p" "L (view w) g = Some l" "mem_of (view w) g r s"
    by (rule member_of_group [OF assms Some])
  have m: "is_member p g" unfolding is_member_view using p(3) unfolding mem_slot [OF p(1)] by (rule image_eqI [rotated]) simp
  obtain q where q: "find_connected w g = Some q" using p(2) by auto
  let ?w1 = "send_party_result g PARTY_OP_LEAVE (pp_name q) ERR_PARTY_RESULT_OK w"
  have x: "parties_ok (view ?w1)" using assms by (simp del: view_sel)
  have "pw_groups ?w1 r = Some p" using p(1) by (simp add: send_party_result_def pw_emit_def)
  from parties_remove_from [OF x this m] show ?thesis
    using Some q assms by (simp add: handle_group_disband_def del: view_sel)
qed

text \<open>A connected member may be made leader.\<close>

lemma parties_change_leader:
  assumes "parties_ok (view w)" "pw_groups w r = Some p"
  shows "parties_ok (view (change_leader r g w))" "has r (change_leader r g w)"
proof -
  let ?V = "view w"
  note d = parties_xD [OF assms(1)]
  have h: "G ?V r = Some (party_view p)" using assms(2) by simp
  have "parties_ok (view (change_leader r g w)) \<and> has r (change_leader r g w)"
  proof (cases "get_slot p g \<noteq> None \<and> L ?V g \<noteq> None")
    case False
    have "view (change_leader r g w) = ?V" unfolding view_change_leader [OF assms(2)] using False by (rule if_not_P)
    then show ?thesis using assms(1) h by (simp del: view_sel)
  next
    case True
    then have m: "g \<in> fst ` set (v_mem (party_view p))" using is_member_view [of p g] by (simp add: is_member_def)
    have v: "view (change_leader r g w) = a_grp r (\<lambda>P. P\<lparr>v_leader := g\<rparr>) ?V"
      unfolding view_change_leader [OF assms(2)] using True by (rule if_P)
    have sz: "size_ok (party_view p)" by (rule d(4) [OF h]) simp
    have "parties_ok (a_grp r (\<lambda>P. P\<lparr>v_leader := g\<rparr>) ?V)"
    proof (rule parties_x_grp [OF assms(1)])
      fix P assume P: "G ?V r = Some P"
      have e: "P = party_view p" using P h by (simp del: view_sel)
      have "v_mem P \<noteq> []" using m e by auto
      then have "size_ok (P\<lparr>v_leader := g\<rparr>)" using sz m unfolding e by (auto simp: size_ok_def split: if_splits)
      then show "v_refs (P\<lparr>v_leader := g\<rparr>) = v_refs P \<and> v_inv (P\<lparr>v_leader := g\<rparr>) = v_inv P \<and> v_bg (P\<lparr>v_leader := g\<rparr>) = v_bg P
        \<and> shape_ok (P\<lparr>v_leader := g\<rparr>) \<and> rolls_ok ?V (P\<lparr>v_leader := g\<rparr>) \<and> v_mem (P\<lparr>v_leader := g\<rparr>) = v_mem P
        \<and> v_db (P\<lparr>v_leader := g\<rparr>) = v_db P \<and> (size_ok (P\<lparr>v_leader := g\<rparr>) \<or> r \<in> {})"
        using basic_okD(6,7) [OF d(1) P] by (simp add: shape_ok_def raid_view_def rolls_ok_def)
    qed
    then show ?thesis unfolding v using h by (simp del: view_sel)
  qed
  then show "parties_ok (view (change_leader r g w))" "has r (change_leader r g w)" by blast+
qed

lemma parties_set_leader:
  assumes "parties_ok (view w)"
  shows "parties_ok (view (handle_group_set_leader env g tgt w))"
proof (cases "player_group w g")
  case None
  then show ?thesis using assms by (simp add: handle_group_set_leader_def del: view_sel)
next
  case (Some r)
  obtain p where p: "pw_groups w r = Some p" by (rule member_of_group [OF assms Some])
  note c = parties_change_leader [OF assms p, of tgt]
  show ?thesis using Some p assms c by (simp add: handle_group_set_leader_def view_send_update del: view_sel)
qed

end
