(* ===== verification/PartyMove.thy ===== *)
theory PartyMove
  imports PartyAsk
begin

text \<open>
  Battlegrounds, raids and subgroups, login and logout keep the invariant.
\<close>

section \<open>The raid of a battleground\<close>

definition a_bg :: "nat \<Rightarrow> nat \<Rightarrow> wview \<Rightarrow> wview" where
  "a_bg k r V = (a_grp r (\<lambda>P. P\<lparr>v_bg := Some k\<rparr>) V)\<lparr>v_bgs := (v_bgs V)(k \<mapsto> r)\<rparr>"

lemma a_bg_sel [simp]:
  "G (a_bg k r V) = (G V)(r := map_option (\<lambda>P. P\<lparr>v_bg := Some k\<rparr>) (G V r))" "L (a_bg k r V) = L V" "v_next (a_bg k r V) = v_next V"
  "v_ids (a_bg k r V) = v_ids V" "v_bgs (a_bg k r V) = (v_bgs V)(k \<mapsto> r)" "v_loots (a_bg k r V) = v_loots V"
  "v_item (a_bg k r V) = v_item V" "v_fault (a_bg k r V) = v_fault V"
  by (simp_all add: a_bg_def)

lemma view_set_bg_raid:
  assumes "pw_bg_raids w k = None" "has r w"
  shows "view (set_bg_raid k (Some r) w) = a_bg k r (view w)"
proof -
  let ?w1 = "upd_party r (\<lambda>p. p\<lparr>pa_bg := Some k\<rparr>) w"
  have 1: "view ?w1 = a_grp r (\<lambda>P. P\<lparr>v_bg := Some k\<rparr>) (view w)" using assms(2) by (rule view_upd_party) (simp add: party_view_def)
  have "view (?w1\<lparr>pw_bg_raids := (pw_bg_raids ?w1)(k := Some r)\<rparr>) = (view ?w1)\<lparr>v_bgs := (v_bgs (view ?w1))(k \<mapsto> r)\<rparr>"
    by (simp add: view_def find_connected_def)
  then show ?thesis using assms(1) 1 by (simp add: set_bg_raid_def Let_def a_bg_def del: view_sel)
qed

lemma parties_bg:
  assumes "parties_ok V" "G V r = Some P" "v_mem P = []" "v_bgs V k = None"
  shows "parties_x {r} {} (a_bg k r V)"
proof -
  note d = parties_xD [OF assms(1)] and b = basic_okD [OF parties_xD(1) [OF assms(1)]]
  have nb: "v_bg P = None" using d(4) [OF assms(2)] assms(3) by (simp add: size_ok_def)
  have lk: "a_link_of j g (a_bg k r V) = a_link_of j g V" for j g by (simp add: a_link_of_def)
  have G: "\<exists>Q'. G V q = Some Q' \<and> v_mem Q = v_mem Q' \<and> v_refs Q = v_refs Q' \<and> v_inv Q = v_inv Q' \<and> v_rolls Q = v_rolls Q'
      \<and> v_db Q = v_db Q' \<and> (q \<noteq> r \<longrightarrow> Q = Q')"
    if "G (a_bg k r V) q = Some Q" for q Q using that by (auto split: if_splits)
  have m: "mem_of (a_bg k r V) = mem_of V" using assms(2) by (auto simp: mem_of_def fun_eq_iff)
  show ?thesis unfolding parties_x_def
  proof (intro conjI allI impI)
    show "basic_ok (a_bg k r V)" unfolding basic_ok_def
    proof (intro conjI allI impI)
      show "refs_ok (a_bg k r V)" unfolding refs_ok_def lk
      proof (intro conjI allI impI)
        fix q Q assume "G (a_bg k r V) q = Some Q"
        then obtain Q' where Q': "G V q = Some Q'" "v_refs Q = v_refs Q'" using G by blast
        show "distinct (v_refs Q)" using refs_okD(1) [OF b(1) Q'(1)] Q'(2) by simp
        show "(g, j) \<in> set (v_refs Q) \<longleftrightarrow> map_option fst (a_link_of j g V) = Some q" for g j
          using refs_okD(2) [OF b(1) Q'(1)] Q'(2) by simp
      next
        fix g j q t assume "a_link_of j g V = Some (q, t)"
        then show "G (a_bg k r V) q \<noteq> None" using refs_ok_exists [OF b(1)] by auto
      qed
      show "invites_ok (a_bg k r V)" unfolding invites_ok_def
      proof (intro conjI allI impI)
        fix q Q assume "G (a_bg k r V) q = Some Q"
        then obtain Q' where Q': "G V q = Some Q'" "v_inv Q = v_inv Q'" using G by blast
        show "os_inv (v_inv Q)" using invites_okD(1) [OF b(2) Q'(1)] Q'(2) by simp
        show "g \<in> set (v_inv Q) \<longleftrightarrow> (\<exists>l. L (a_bg k r V) g = Some l \<and> l_inv l = Some q)" for g
          using invites_okD(2) [OF b(2) Q'(1)] Q'(2) by simp
      next
        fix g l q assume "L (a_bg k r V) g = Some l \<and> l_inv l = Some q"
        then have "G V q \<noteq> None" using invites_okD(3) [OF b(2), of g l q] by simp
        then show "G (a_bg k r V) q \<noteq> None" by auto
      qed
      show "bgs_ok (a_bg k r V)" unfolding bgs_ok_def
      proof (intro allI)
        fix j q
        have x: "v_bgs V j = Some q \<longleftrightarrow> (\<exists>Q. G V q = Some Q \<and> v_bg Q = Some j)" for j q using b(3) unfolding bgs_ok_def by blast
        show "v_bgs (a_bg k r V) j = Some q \<longleftrightarrow> (\<exists>Q. G (a_bg k r V) q = Some Q \<and> v_bg Q = Some j)"
          using x [of j q] x [of k q] x [of j r] assms(2,4) nb by (cases "q = r"; cases "j = k") auto
      qed
      show "G (a_bg k r V) q = None" if "v_next (a_bg k r V) \<le> q" for q using b(4) [of q] that by auto
      show "\<not> v_fault (a_bg k r V)" using b(5) by simp
      show "shape_ok Q" if "G (a_bg k r V) q = Some Q" for q Q
        using that b(6) [of q] assms(2,3) by (auto simp: shape_ok_def raid_view_def split: if_splits)
      show "rolls_ok (a_bg k r V) Q" if Q: "G (a_bg k r V) q = Some Q" for q Q
      proof -
        obtain Q' where Q': "G V q = Some Q'" "v_rolls Q = v_rolls Q'" using G [OF Q] by blast
        show ?thesis using b(7) [OF Q'(1)] unfolding rolls_ok_def Q'(2) by simp
      qed
    qed
    have "social (mem_of V) (bg_of (a_bg k r V)) (L V)"
      by (rule social_cong [OF d(2)]) (use assms(2,3) in \<open>auto simp: bg_of_def mem_of_def\<close>)
    then show "social (mem_of (a_bg k r V)) (bg_of (a_bg k r V)) (L (a_bg k r V))" unfolding m by simp
    show "ids_ok {} (a_bg k r V)"
      by (rule ids_ok_cong [OF d(3)]) (use assms(2,3) in \<open>auto simp: stored_def\<close>)
    show "size_ok Q \<or> q \<in> {r}" if "G (a_bg k r V) q = Some Q" for q Q using that d(4) [of q] by (auto split: if_splits)
  qed
qed

lemma parties_bg_join:
  assumes "parties_ok (view w)" "L (view w) g = Some l" "l_inv l = None" "\<And>q t. l_main l = Some (q, t) \<Longrightarrow> \<not> bg_of (view w) q"
    "pw_next_group w < 0xFFFFFFFE"
  shows "parties_ok (view (add_to_bg_group env k g w))"
proof (cases "pw_bg_raids w k")
  case None
  let ?V = "view w"
  obtain r w1 where n: "new_group w = (r, w1)" by (cases "new_group w")
  have 1: "view w1 = a_new ?V" "r = v_next ?V" using view_new_group [OF n] by blast+
  have x1: "parties_ok (view w1)" unfolding 1(1) by (rule parties_new [OF assms(1)])
  have G1: "G (view w1) r = Some new_view" unfolding 1 by (simp del: view_sel)
  have k1: "pw_bg_raids w1 k = None" using n None by (auto simp: new_group_def)
  let ?w2 = "set_bg_raid k (Some r) w1"
  have 2: "view ?w2 = a_bg k r (view w1)" by (rule view_set_bg_raid [OF k1]) (use G1 in \<open>simp del: view_sel\<close>)
  have x2: "parties_x {r} {} (view ?w2)" unfolding 2
    by (rule parties_bg [OF x1 G1]) (use k1 in \<open>simp_all add: new_view_def\<close>)
  let ?P = "new_view\<lparr>v_bg := Some k\<rparr>"
  have G2: "G (view ?w2) r = Some ?P" unfolding 2 using G1 by (simp del: view_sel)
  have n0: "G ?V r = None" using basic_okD(4) [OF parties_xD(1) [OF assms(1)], of r] 1(2) by simp
  have m2: "mem_of (view ?w2) = mem_of ?V" unfolding 2 1(1) using n0 1(2) by (auto simp: mem_of_def fun_eq_iff new_view_def simp del: view_sel)
  have b2: "bg_of (view ?w2) q \<longleftrightarrow> q = r \<or> bg_of ?V q" for q
    unfolding 2 1(1) using n0 1(2) by (auto simp: bg_of_def new_view_def simp del: view_sel)
  have L2: "L (view ?w2) = L ?V" unfolding 2 1(1) by (simp del: view_sel)
  have q0: "q \<noteq> r" if "l_main l = Some (q, t)" for q t
    using refs_ok_exists [OF basic_okD(1) [OF parties_xD(1) [OF assms(1)]], of MainLink g q t] links_of [OF assms(2)] that n0 by auto
  have mj: "may_join (view ?w2) r g"
    unfolding may_join_def m2 b2 L2 using assms(2,3,4) q0 n0 by (auto simp: mem_of_def simp del: view_sel)
  have "pw_next_group ?w2 = pw_next_group w"
    using n k1 by (auto simp: new_group_def set_bg_raid_def upd_party_def)
  then have "parties_x {r} {} (view (snd (create_group env r g ?w2)))
    \<and> (\<exists>Q i. G (view (snd (create_group env r g ?w2))) r = Some Q \<and> bare Q = bare (made_view g i ?P))"
    using parties_create [OF x2 _ G2 _ _ mj, of env] assms(5) by (simp add: new_view_def raid_view_def del: view_sel)
  then obtain Q i where Q: "parties_x {r} {} (view (snd (create_group env r g ?w2)))"
    "G (view (snd (create_group env r g ?w2))) r = Some Q" "bare Q = bare (made_view g i ?P)" by blast
  have "size_ok Q" using bare_eqD [OF Q(3)] by (simp add: size_ok_def made_view_def new_view_def)
  then have "parties_ok (view (snd (create_group env r g ?w2)))" using Q(2) by (intro parties_x_done [OF Q(1)]) (simp del: view_sel)
  then show ?thesis using None n by (simp add: add_to_bg_group_def del: view_sel)
next
  case (Some r)
  let ?V = "view w"
  note d = parties_xD [OF assms(1)]
  obtain P where P: "G ?V r = Some P" "v_bg P = Some k"
    using basic_okD(3) [OF d(1)] Some unfolding bgs_ok_def by auto
  obtain p where p: "pw_groups w r = Some p" "party_view p = P" using P(1) by (rule has_party)
  have sz: "size_ok P" by (rule d(4) [OF P(1)]) simp
  have ne: "v_mem P \<noteq> []" using sz P(2) by (auto simp: size_ok_def)
  have rv: "raid_view P" using basic_okD(6) [OF d(1) P(1)] P(2) ne by (simp add: shape_ok_def)
  have br: "bg_of ?V r" using P by (auto simp: bg_of_def simp del: view_sel)
  have nm: "\<not> mem_of ?V g r s" for s
  proof
    assume "mem_of ?V g r s"
    then have "l_main l = Some (r, s) \<or> l_orig l = Some (r, s)" using socialD(1) [OF d(2) assms(2)] by blast
    then show False using assms(4) br socialD(2) [OF d(2) assms(2)] by blast
  qed
  then have ni: "\<not> is_member p g" using member_mem [OF p(1)] by blast
  have mj: "may_join ?V r g" unfolding may_join_def using assms(2-4) br nm by auto
  let ?w1 = "snd (add_member env r g w)"
  have x1: "parties_ok (view ?w1)"
    by (rule parties_grow [OF assms(1) p(1) _ mj]) (use ne rv p(2) in auto)
  have h1: "has r ?w1"
  proof (cases "join_sub_group p")
    case None
    then show ?thesis using p(1) by (simp add: add_member_def)
  next
    case (Some s)
    have "view ?w1 = a_join r s g ?V"
      using view_add_member [OF assms(1) p(1) Some mj] rv p(2) by simp
    then show ?thesis using P(1) by (simp del: view_sel not_None_eq)
  qed
  then obtain p1 where p1: "pw_groups ?w1 r = Some p1" by auto
  note c = parties_change_leader [OF x1 p1, of g]
  have "parties_ok (view (case player_original ?w1 g of None \<Rightarrow> ?w1
      | Some q \<Rightarrow> with_party q (\<lambda>p w. if is_leader p g then send_update env r (change_leader r g w) else w) ?w1))"
  proof (cases "player_original ?w1 g")
    case (Some q)
    then obtain t where "a_link_of OrigLink g (view ?w1) = Some (q, t)" by (auto simp: player_link_view simp del: view_sel)
    then have "has q ?w1" by (rule refs_ok_exists [OF basic_okD(1) [OF parties_xD(1) [OF x1]]])
    then obtain pq where "pw_groups ?w1 q = Some pq" by auto
    then show ?thesis using Some x1 c by (simp add: view_send_update del: view_sel)
  qed (use x1 in \<open>simp del: view_sel\<close>)
  then show ?thesis using Some p(1) ni by (simp add: add_to_bg_group_def Let_def del: view_sel)
qed

lemma parties_bg_leave:
  assumes "parties_ok (view w)" "\<And>r. pw_bg_raids w k = Some r \<Longrightarrow> \<exists>s. mem_of (view w) g r s"
  shows "parties_ok (view (leave_bg_group env k g w)) \<and> shrinks (view w) (view (leave_bg_group env k g w))
    \<and> (\<forall>r t. pw_bg_raids w k = Some r \<longrightarrow> \<not> mem_of (view (leave_bg_group env k g w)) g r t)"
proof (cases "pw_bg_raids w k")
  case None
  then show ?thesis using assms(1) by (simp add: leave_bg_group_def del: view_sel)
next
  case (Some r)
  obtain s where s: "mem_of (view w) g r s" using assms(2) [OF Some] by blast
  then obtain p where p: "pw_groups w r = Some p" by (auto simp: mem_of_def)
  obtain b w1 where rm: "remove_member env REMOVE_DEFAULT r g w = (b, w1)" by (cases "remove_member env REMOVE_DEFAULT r g w")
  have x: "parties_ok (view w1)" "shrinks (view w) (view w1)" "\<not> mem_of (view w1) g r t" "b \<or> pw_groups w1 r = None" for t
    using parties_remove_member [OF assms(1) p s, of env REMOVE_DEFAULT] rm by auto
  have "view (if b then w1 else set_bg_raid k None w1) = view w1"
  proof (cases b)
    case False
    then have g: "G (view w1) r = None" using x(4) by simp
    have "pw_bg_raids w1 k = None"
    proof (cases "pw_bg_raids w1 k")
      case (Some q)
      then have q: "v_bgs (view w1) k = Some q" by simp
      then have "v_bgs (view w) k = Some q" by (rule shrinksD(5) [OF x(2)])
      then have "q = r" using \<open>pw_bg_raids w k = Some r\<close> by simp
      then show ?thesis using q g basic_okD(3) [OF parties_xD(1) [OF x(1)]] unfolding bgs_ok_def by auto
    qed
    then show ?thesis using False by (simp add: set_bg_raid_def fun_upd_idem view_def find_connected_def)
  qed simp
  then show ?thesis using Some rm x by (simp add: leave_bg_group_def del: view_sel)
qed

end
