(* ===== verification/PartyEnter.thy ===== *)
theory PartyEnter
  imports PartyMove
begin

text \<open>
  Raids and subgroups, login and logout, and the requests that do not touch who is in a group keep the
  invariant.
\<close>

section \<open>A group becomes a raid\<close>

lemma in_sub_append: "in_sub s (xs @ ys) = in_sub s xs + in_sub s ys"
  by (simp add: in_sub_def)

lemma a_grp_cong: "(\<And>P. G V r = Some P \<Longrightarrow> F P = F' P) \<Longrightarrow> a_grp r F V = a_grp r F' V"
  by (cases "G V r") (auto simp: a_grp_def)

lemma count_members:
  assumes "pw_groups w r = Some p" "pa_counts p = Some cs" "counts_ok cs xs" "\<forall>m \<in> set ms. unat (mb_group m) < 8"
    "\<And>i. i < 8 \<Longrightarrow> in_sub (of_nat i) (xs @ map slot_view ms) \<le> MAXGROUPSIZE"
  shows "\<exists>cs'. view (fold (\<lambda>m. sub_group_counter_increase r (mb_group m)) ms w) = a_grp r (\<lambda>P. P\<lparr>v_counts := Some cs'\<rparr>) (view w)
    \<and> counts_ok cs' (xs @ map slot_view ms)"
  using assms
proof (induction ms arbitrary: w p cs xs)
  case Nil
  have "party_view p = (party_view p)\<lparr>v_counts := Some cs\<rparr>" using Nil.prems(2) by (simp add: party_view_def)
  then have "view w = a_grp r (\<lambda>P. P\<lparr>v_counts := Some cs\<rparr>) (view w)" using Nil.prems(1) by (simp add: a_grp_def fun_upd_idem)
  then show ?case using Nil.prems(3) by (intro exI [of _ cs]) simp
next
  case (Cons m ms)
  let ?s = "mb_group m" and ?w = "sub_group_counter_increase r (mb_group m) w"
  let ?cs = "cs[unat ?s := cs ! unat ?s + 1]"
  have s8: "unat ?s < 8" using Cons.prems(4) by simp
  have c: "length cs = 8" "unat (cs ! unat ?s) = in_sub ?s xs"
    using Cons.prems(3) s8 unfolding counts_ok_def by auto
  have "in_sub ?s (xs @ map slot_view (m # ms)) \<le> MAXGROUPSIZE" using Cons.prems(5) [OF s8] by simp
  then have lt: "unat (cs ! unat ?s) < MAXGROUPSIZE" unfolding c(2) by (simp add: in_sub_append) (simp add: in_sub_def)
  have 1: "pw_groups ?w r = Some (p\<lparr>pa_counts := Some ?cs\<rparr>)"
    using Cons.prems(1,2) s8 c(1) by (simp add: sub_group_counter_increase_def sub_group_counter_def upd_party_def)
  have ok: "counts_ok ?cs (xs @ [slot_view m])"
    using counts_ok_join [OF Cons.prems(3) _ lt, of "mb_guid m"] s8 by (simp add: slot_view_def)
  obtain cs' where cs': "view (fold (\<lambda>m. sub_group_counter_increase r (mb_group m)) ms ?w) = a_grp r (\<lambda>P. P\<lparr>v_counts := Some cs'\<rparr>) (view ?w)"
    "counts_ok cs' ((xs @ [slot_view m]) @ map slot_view ms)"
    using Cons.IH [OF 1 _ ok] Cons.prems(4,5) by auto
  have "view ?w = a_grp r (inc_counts ?s) (view w)"
    by (rule view_counter_increase [OF Cons.prems(1)]) (use Cons.prems(2) c(1) s8 in simp)
  then have "view (fold (\<lambda>m. sub_group_counter_increase r (mb_group m)) (m # ms) w) = a_grp r (\<lambda>P. P\<lparr>v_counts := Some cs'\<rparr>) (view w)"
    using cs'(1) by (simp add: inc_counts_def o_def del: view_sel)
  then show ?case using cs'(2) by auto
qed

lemma shape_sub_count:
  assumes "shape_ok P" "i < 8"
  shows "in_sub (of_nat i) (v_mem P) \<le> MAXGROUPSIZE"
proof (cases "raid_view P")
  case True
  then show ?thesis using assms by (auto simp: shape_ok_def counts_ok_def)
next
  case False
  then have "length (v_mem P) \<le> MAXGROUPSIZE" using assms(1) by (simp add: shape_ok_def)
  then show ?thesis unfolding in_sub_def using length_filter_le le_trans by blast
qed

lemma parties_convert:
  assumes "parties_ok (view w)" "pw_groups w r = Some p" "pa_members p \<noteq> []"
  shows "parties_ok (view (convert_to_raid env r w))"
proof -
  let ?w0 = "upd_party r (\<lambda>p. p\<lparr>pa_type := pa_type p OR GROUPTYPE_RAID\<rparr>) w"
  let ?w1 = "upd_party r (\<lambda>p. p\<lparr>pa_counts := Some (replicate MAX_RAID_SUBGROUPS 0)\<rparr>) ?w0"
  have P: "G (view w) r = Some (party_view p)" using assms(2) by simp
  note d = parties_xD [OF assms(1)]
  note sh = basic_okD(6) [OF d(1) P]
  let ?p1 = "p\<lparr>pa_type := pa_type p OR GROUPTYPE_RAID, pa_counts := Some (replicate MAX_RAID_SUBGROUPS 0)\<rparr>"
  have p0: "pw_groups ?w0 r = Some (p\<lparr>pa_type := pa_type p OR GROUPTYPE_RAID\<rparr>)" using assms(2) by (simp add: upd_party_def)
  have p1: "pw_groups ?w1 r = Some ?p1" using assms(2) by (simp add: upd_party_def)
  have z: "counts_ok (replicate MAX_RAID_SUBGROUPS 0) []" by (simp add: counts_ok_def in_sub_def)
  have s8: "\<forall>m \<in> set (pa_members p). unat (mb_group m) < 8" using sh by (auto simp: shape_ok_def)
  obtain cs where cs: "view (fold (\<lambda>m. sub_group_counter_increase r (mb_group m)) (pa_members p) ?w1) = a_grp r (\<lambda>P. P\<lparr>v_counts := Some cs\<rparr>) (view ?w1)"
    "counts_ok cs (map slot_view (pa_members p))"
    using count_members [OF p1 _ z s8] shape_sub_count [OF sh] by auto
  have i: "init_raid_counter r ?w0 = fold (\<lambda>m. sub_group_counter_increase r (mb_group m)) (pa_members p) ?w1"
    using p0 by (simp add: init_raid_counter_def)
  have v0: "view ?w0 = a_grp r (\<lambda>P. P\<lparr>v_type := v_type P OR GROUPTYPE_RAID\<rparr>) (view w)"
    by (rule view_upd_party) (use assms(2) in \<open>simp_all add: party_view_def\<close>)
  have v1: "view ?w1 = a_grp r (\<lambda>P. P\<lparr>v_counts := Some (replicate MAX_RAID_SUBGROUPS 0)\<rparr>) (view ?w0)"
    by (rule view_upd_party) (use p0 in \<open>simp_all add: party_view_def\<close>)
  let ?F = "\<lambda>P. P\<lparr>v_type := v_type P OR GROUPTYPE_RAID, v_counts := Some cs\<rparr>"
  have v: "view (init_raid_counter r ?w0) = a_grp r ?F (view w)"
    unfolding i cs(1) v1 v0 by (simp add: o_def del: view_sel)
  have x: "parties_ok (a_grp r ?F (view w))"
  proof (rule parties_x_grp [OF assms(1)])
    fix Q assume "G (view w) r = Some Q"
    then have Q: "Q = party_view p" using P by (simp del: view_sel)
    have t: "(v OR GROUPTYPE_RAID) AND GROUPTYPE_LFG = v AND GROUPTYPE_LFG" "(v OR GROUPTYPE_RAID) AND GROUPTYPE_RAID \<noteq> 0" for v :: u8
      by (simp_all add: GROUPTYPE_RAID_def GROUPTYPE_LFG_def word_ao_dist2 word_ao_dist)
    have "shape_ok (?F Q)" using sh cs(2) t unfolding Q by (auto simp: shape_ok_def raid_view_def)
    moreover have "rolls_ok (view w) (?F Q)" using basic_okD(7) [OF d(1) P] unfolding Q by (simp add: rolls_ok_def)
    moreover have "size_ok (?F Q)" using d(4) [OF P] assms(3) unfolding Q by (cases "pa_bg p") (simp_all add: size_ok_def)
    ultimately show "v_refs (?F Q) = v_refs Q \<and> v_inv (?F Q) = v_inv Q \<and> v_bg (?F Q) = v_bg Q \<and> shape_ok (?F Q) \<and> rolls_ok (view w) (?F Q)
       \<and> v_mem (?F Q) = v_mem Q \<and> v_db (?F Q) = v_db Q \<and> (size_ok (?F Q) \<or> r \<in> {})" by simp
  qed
  have h: "has r (init_raid_counter r ?w0)" unfolding v using P by (simp del: view_sel)
  have "view (with_party r (\<lambda>p. if bg_or_bf p then id else pw_emit [DbGroupType (pa_db p) (pa_type p)]) (init_raid_counter r ?w0))
      = view (init_raid_counter r ?w0)"
    by (rule with_party_view [OF h]) simp
  then show ?thesis using x v h by (simp add: convert_to_raid_def view_send_update del: view_sel)
qed

lemma group_of_link:
  assumes "parties_ok (view w)" "player_group w g = Some r"
  obtains p where "pw_groups w r = Some p"
proof -
  obtain s where "a_link_of MainLink g (view w) = Some (r, s)" using assms(2) by (auto simp: player_link_view simp del: view_sel)
  then have "has r w" by (rule refs_ok_exists [OF basic_okD(1) [OF parties_xD(1) [OF assms(1)]]])
  then show ?thesis using that by auto
qed

lemma parties_raid_convert:
  assumes "parties_ok (view w)"
  shows "parties_ok (view (handle_group_raid_convert env g w))"
proof (cases "player_group w g")
  case (Some r)
  obtain p where p: "pw_groups w r = Some p" by (rule group_of_link [OF assms Some])
  let ?w = "send_party_result g PARTY_OP_INVITE [] ERR_PARTY_RESULT_OK w"
  have p1: "pw_groups ?w r = Some p" using p by (simp add: send_party_result_def pw_emit_def)
  have "parties_ok (view (convert_to_raid env r ?w))" if "2 \<le> length (pa_members p)"
    by (rule parties_convert [OF _ p1]) (use that assms in \<open>auto simp del: view_sel\<close>)
  then show ?thesis using Some p assms
    by (auto simp: handle_group_raid_convert_def simp del: view_sel split: option.split)
qed (use assms in \<open>simp add: handle_group_raid_convert_def\<close>)


section \<open>Subgroups\<close>

definition move_slot :: "guid \<Rightarrow> u8 \<Rightarrow> (guid \<times> u8) list \<Rightarrow> (guid \<times> u8) list" where
  "move_slot g t ms = map (\<lambda>m. if fst m = g then (g, t) else m) ms"

definition move_view :: "guid \<Rightarrow> u8 \<Rightarrow> u8 \<Rightarrow> pview \<Rightarrow> pview" where
  "move_view g s t P = P\<lparr>v_mem := move_slot g t (v_mem P),
     v_counts := map_option (\<lambda>cs. (cs[unat t := cs ! unat t + 1])[unat s := cs[unat t := cs ! unat t + 1] ! unat s - 1]) (v_counts P)\<rparr>"

definition re_link :: "nat \<Rightarrow> u8 \<Rightarrow> lview \<Rightarrow> lview" where
  "re_link r t l = (if map_option fst (l_main l) = Some r then l\<lparr>l_main := Some (r, t)\<rparr>
     else l\<lparr>l_orig := map_option (\<lambda>x. (fst x, t)) (l_orig l)\<rparr>)"

lemma move_view_sel [simp]:
  "v_mem (move_view g s t P) = move_slot g t (v_mem P)" "v_refs (move_view g s t P) = v_refs P" "v_inv (move_view g s t P) = v_inv P"
  "v_leader (move_view g s t P) = v_leader P" "v_type (move_view g s t P) = v_type P" "v_bg (move_view g s t P) = v_bg P"
  "v_bf (move_view g s t P) = v_bf P" "v_db (move_view g s t P) = v_db P" "v_rolls (move_view g s t P) = v_rolls P"
  "raid_view (move_view g s t P) = raid_view P"
  by (simp_all add: move_view_def raid_view_def)

lemma move_slot_simps [simp]:
  "map fst (move_slot g t ms) = map fst ms" "fst ` set (move_slot g t ms) = fst ` set ms" "move_slot g t ms = [] \<longleftrightarrow> ms = []"
  "length (move_slot g t ms) = length ms" "filter (\<lambda>m. fst m \<noteq> g) (move_slot g t ms) = filter (\<lambda>m. fst m \<noteq> g) ms"
proof -
  show m: "map fst (move_slot g t ms) = map fst ms" by (simp add: move_slot_def)
  show "fst ` set (move_slot g t ms) = fst ` set ms" using arg_cong [OF m, of set] by simp
  show "filter (\<lambda>m. fst m \<noteq> g) (move_slot g t ms) = filter (\<lambda>m. fst m \<noteq> g) ms" by (induction ms) (auto simp: move_slot_def)
qed (simp_all add: move_slot_def)

lemma set_move_slot: "g \<in> fst ` set ms \<Longrightarrow> (h, u) \<in> set (move_slot g t ms) \<longleftrightarrow> (if h = g then u = t else (h, u) \<in> set ms)"
  by (force simp: move_slot_def)

lemma upd_first_map: "distinct (map k xs) \<Longrightarrow> upd_first (\<lambda>x. k x = a) f xs = map (\<lambda>x. if k x = a then f x else x) xs"
proof (induction xs)
  case (Cons x xs)
  have "map (\<lambda>x. if k x = a then f x else x) xs = xs" if "k x = a" using that Cons.prems by (intro map_idI) (auto simp: image_iff)
  then show ?case using Cons by auto
qed simp

lemma in_sub_move:
  assumes "distinct (map fst ms)" "(g, s) \<in> set ms"
  shows "in_sub u (move_slot g t ms) + (if u = s then 1 else 0) = in_sub u ms + (if u = t then 1 else 0)"
proof -
  have g: "g \<in> fst ` set ms" using assms(2) by force
  have "in_sub u (move_slot g t ms) = in_sub u (filter (\<lambda>m. fst m \<noteq> g) (move_slot g t ms)) + (if u = t then 1 else 0)"
    by (rule in_sub_erase) (use assms(1) set_move_slot [OF g] in simp_all)
  then show ?thesis using in_sub_erase [OF assms, of u] by simp
qed

lemma counts_ok_move:
  assumes "counts_ok cs ms" "distinct (map fst ms)" "(g, s) \<in> set ms" "s \<noteq> t" "unat s < 8" "unat t < 8" "unat (cs ! unat t) < MAXGROUPSIZE"
  shows "counts_ok ((cs[unat t := cs ! unat t + 1])[unat s := cs[unat t := cs ! unat t + 1] ! unat s - 1]) (move_slot g t ms)"
  unfolding counts_ok_def
proof (intro conjI allI impI)
  have c: "length cs = 8" using assms(1) by (simp add: counts_ok_def)
  then show "length ((cs[unat t := cs ! unat t + 1])[unat s := cs[unat t := cs ! unat t + 1] ! unat s - 1]) = MAX_RAID_SUBGROUPS" by simp
  fix i assume i: "i < MAX_RAID_SUBGROUPS"
  have ci: "unat (cs ! i) = in_sub (of_nat i) ms" "unat (cs ! i) \<le> MAXGROUPSIZE" using assms(1) i unfolding counts_ok_def by blast+
  have st: "unat s \<noteq> unat t" using assms(4) by (metis unsigned_word_eqI)
  have up: "unat (cs ! unat t + 1) = Suc (unat (cs ! unat t))" using assms(7) by (simp add: MAXGROUPSIZE_def unat_word_ariths)
  have mv: "in_sub (of_nat i) (move_slot g t ms) + (if i = unat s then 1 else 0) = in_sub (of_nat i) ms + (if i = unat t then 1 else 0)"
    using in_sub_move [OF assms(2,3), of "of_nat i" t] of_nat_sub_eq [of i s] of_nat_sub_eq [of i t] i by simp
  have dn: "unat (cs ! i - 1) = unat (cs ! i) - 1" if "i = unat s"
  proof -
    have "0 < unat (cs ! i)" using ci(1) mv that st by simp
    then have "cs ! i \<noteq> 0" by auto
    then show ?thesis by (rule unat_minus_one)
  qed
  let ?cs = "(cs[unat t := cs ! unat t + 1])[unat s := cs[unat t := cs ! unat t + 1] ! unat s - 1]"
  have at: "?cs ! i = (if i = unat s then cs ! i - 1 else if i = unat t then cs ! i + 1 else cs ! i)"
    using c i st assms(5,6) by simp
  show "unat (?cs ! i) = in_sub (of_nat i) (move_slot g t ms)" unfolding at using mv ci(1) dn up st by (auto split: if_splits)
  show "unat (?cs ! i) \<le> MAXGROUPSIZE" unfolding at using ci(2) dn up assms(7) by auto
qed

lemma refs_ok_relink:
  assumes "refs_ok V" "\<And>l k. map_option fst (link_of k (H l)) = map_option fst (link_of k l)"
  shows "refs_ok (a_pl g H V)"
proof -
  have lk: "map_option fst (a_link_of k h (a_pl g H V)) = map_option fst (a_link_of k h V)" for k h
    using assms(2) by (cases "h = g"; cases "L V h") (auto simp: a_link_of_def)
  have "G V r \<noteq> None" if "a_link_of k h (a_pl g H V) = Some (r, s)" for k h r s
  proof -
    have "map_option fst (a_link_of k h V) = Some r" using that lk [of k h] by simp
    then show ?thesis using refs_ok_exists [OF assms(1)] by auto
  qed
  then show ?thesis using assms(1) unfolding refs_ok_def lk by simp
qed

lemma re_link_sel: "map_option fst (link_of k (re_link r t l)) = map_option fst (link_of k l)" "l_inv (re_link r t l) = l_inv l"
  by (cases k; cases "l_main l"; cases "l_orig l"; auto simp: re_link_def)+

lemma parties_move:
  assumes "parties_ok V" "G V r = Some P" "raid_view P" "(g, s) \<in> set (v_mem P)" "s \<noteq> t" "unat t < 8"
    "\<And>cs. v_counts P = Some cs \<Longrightarrow> unat (cs ! unat t) < MAXGROUPSIZE"
  shows "parties_ok (a_pl g (re_link r t) (a_grp r (move_view g s t) V))"
  unfolding parties_x_def
proof (intro conjI allI impI)
  let ?U = "a_grp r (move_view g s t) V" and ?W = "a_pl g (re_link r t) (a_grp r (move_view g s t) V)"
  note d = parties_xD [OF assms(1)]
  note sh = basic_okD(6) [OF d(1) assms(2)]
  have s8: "unat s < 8" and ds: "distinct (map fst (v_mem P))" using sh assms(4) by (auto simp: shape_ok_def)
  have gm: "g \<in> fst ` set (v_mem P)" using assms(4) by force
  obtain cs where cs: "v_counts P = Some cs" "counts_ok cs (v_mem P)" using sh assms(3) by (auto simp: shape_ok_def)
  have m8: "\<forall>m \<in> set (move_slot g t (v_mem P)). unat (snd m) < 8" using sh assms(6) by (auto simp: shape_ok_def move_slot_def)
  have sh1: "shape_ok (move_view g s t P)"
    using counts_ok_move [OF cs(2) ds assms(4,5) s8 assms(6) assms(7) [OF cs(1)]] cs(1) sh m8 assms(3)
    by (simp add: shape_ok_def) (simp add: move_view_def)
  have bU: "basic_ok ?U"
    by (rule basic_ok_grp [OF d(1)]) (use assms(2) sh1 basic_okD(7) [OF d(1) assms(2)] in \<open>auto simp: rolls_ok_def\<close>)
  have "same_bare ?U ?W"
  proof -
    have "map_option l_inv (L ?U h) = map_option l_inv (L ?W h)" for h by (cases "L V h") (auto simp: re_link_sel)
    then show ?thesis by (simp add: same_bare_def)
  qed
  moreover have "refs_ok ?W" by (rule refs_ok_relink [OF basic_okD(1) [OF bU]]) (rule re_link_sel)
  ultimately show "basic_ok ?W" by (rule basic_ok_bare [OF bU])
  have m: "mem_of ?W = move_mem g r t (mem_of V)"
  proof (intro ext)
    fix h q u
    show "mem_of ?W h q u = move_mem g r t (mem_of V) h q u"
      using assms(2) set_move_slot [OF gm, of h u t] by (cases "q = r") (auto simp: mem_of_def move_mem_def)
  qed
  have b: "bg_of ?W = bg_of V" using assms(2) by (auto simp: bg_of_def fun_eq_iff)
  have gr: "mem_of V g r s" using assms(2,4) by (auto simp: mem_of_def)
  show "social (mem_of ?W) (bg_of ?W) (L ?W)"
  proof (cases "L V g")
    case None
    then have "L ?W = L V" by auto
    then show ?thesis unfolding m b using social_move_off [OF d(2) None gr] by simp
  next
    case (Some l)
    have lk: "l_main l = Some (r, s) \<or> l_orig l = Some (r, s)" using socialD(1) [OF d(2) Some] gr by blast
    show ?thesis
    proof (cases "map_option fst (l_main l) = Some r")
      case True
      then obtain u where u: "l_main l = Some (r, u)" by auto
      have "L ?W = (L V)(g \<mapsto> l\<lparr>l_main := Some (r, t)\<rparr>)" using Some True by (simp add: re_link_def)
      then show ?thesis unfolding m b using social_move_main [OF d(2) Some u, of t] by simp
    next
      case False
      then have o: "l_orig l = Some (r, s)" using lk by auto
      have "L ?W = (L V)(g \<mapsto> l\<lparr>l_orig := Some (r, t)\<rparr>)" using Some False o by (simp add: re_link_def)
      then show ?thesis unfolding m b using social_move_orig [OF d(2) Some o, of t] by simp
    qed
  qed
  show "ids_ok {} ?W" by (rule ids_ok_cong [OF d(3)]) (use assms(2) in \<open>auto simp: stored_def\<close>)
  show "size_ok Q \<or> q \<in> {}" if "G ?W q = Some Q" for q Q
  proof (cases "q = r")
    case True
    have "size_ok P" using d(4) [OF assms(2)] by simp
    then have "size_ok (move_view g s t P)" using assms(4) by (cases "v_bg P") (auto simp: size_ok_def simp del: image_iff)
    then show ?thesis using that assms(2) True by simp
  next
    case False
    then show ?thesis using that d(4) [of q] by simp
  qed
qed

lemma get_slot_mem:
  assumes "get_slot p g = Some m"
  shows "(g, mb_group m) \<in> set (v_mem (party_view p))" "is_member p g" "get_member_group p g = mb_group m"
proof -
  have "m \<in> set (pa_members p)" "mb_guid m = g" using assms by (auto simp: get_slot_def find_Some_iff)
  then show "(g, mb_group m) \<in> set (v_mem (party_view p))" by (force simp: slot_view_def)
qed (simp_all add: assms is_member_def get_member_group_def)

lemma view_set_link_subgroup: "view (set_link_subgroup r g t w) = a_pl g (re_link r t) (view w)"
proof (cases "find_connected w g")
  case None
  then have n: "player_group w g = None" by (simp add: player_group_def)
  have "view (upd_pp g f w) = view w" for f
    by (rule view_ext) (use None in \<open>auto simp: find_connected_upd_pp, simp_all add: upd_pp_def\<close>)
  moreover have "a_pl g (re_link r t) (view w) = view w" by (rule a_pl_id) (simp add: None)
  ultimately show ?thesis by (simp add: set_link_subgroup_def n)
next
  case (Some q)
  show ?thesis
  proof (cases "player_group w g = Some r")
    case True
    then obtain u where u: "pp_group q = Some (r, u)" using Some by (auto simp: player_group_def)
    have "view (upd_pp g (\<lambda>p. p\<lparr>pp_group := map_option (\<lambda>x. (fst x, t)) (pp_group p)\<rparr>) w)
        = a_pl g (\<lambda>l. l\<lparr>l_main := map_option (\<lambda>x. (fst x, t)) (l_main l)\<rparr>) (view w)"
      by (rule view_upd_pp) (simp add: player_view_def)
    also have "\<dots> = a_pl g (re_link r t) (view w)"
      using Some u by (simp add: a_pl_def re_link_def)
    finally show ?thesis using True by (simp add: set_link_subgroup_def)
  next
    case False
    then have n: "map_option fst (pp_group q) \<noteq> Some r" using Some by (simp add: player_group_def)
    have "view (upd_pp g (\<lambda>p. p\<lparr>pp_orig := map_option (\<lambda>x. (fst x, t)) (pp_orig p)\<rparr>) w)
        = a_pl g (\<lambda>l. l\<lparr>l_orig := map_option (\<lambda>x. (fst x, t)) (l_orig l)\<rparr>) (view w)"
      by (rule view_upd_pp) (simp add: player_view_def)
    also have "\<dots> = a_pl g (re_link r t) (view w)"
      using Some n by (simp add: a_pl_def re_link_def)
    finally show ?thesis using False by (simp add: set_link_subgroup_def)
  qed
qed

lemma parties_change_members_group:
  assumes "parties_ok (view w)" "pw_groups w r = Some p" "unat t < 8" "has_free_slot_sub_group p t"
  shows "parties_ok (view (change_members_group env r g t w))"
proof (cases "\<not> is_raid_group p \<or> get_slot p g = None \<or> get_member_group p g = t")
  case True
  then show ?thesis using assms(1,2) by (auto simp: change_members_group_def is_member_def simp del: view_sel)
next
  case False
  then obtain m where m: "get_slot p g = Some m" and nt: "mb_group m \<noteq> t" by (auto simp: get_member_group_def)
  let ?s = "mb_group m"
  have P: "G (view w) r = Some (party_view p)" using assms(2) by simp
  note d = parties_xD [OF assms(1)]
  note sh = basic_okD(6) [OF d(1) P]
  have mm: "(g, ?s) \<in> set (v_mem (party_view p))" using get_slot_mem(1) [OF m] .
  have rv: "raid_view (party_view p)" using False by (simp add: raid_view_def is_raid_group_def)
  obtain cs where cs: "pa_counts p = Some cs" "length cs = 8" using sh rv by (auto simp: shape_ok_def counts_ok_def)
  have s8: "unat ?s < 8" using sh mm unfolding shape_ok_def by (metis snd_conv subgroups8)
  have ds: "distinct (map mb_guid (pa_members p))" using sh by (simp add: shape_ok_def o_def)
  let ?f = "upd_slot g (\<lambda>m. m\<lparr>mb_group := t\<rparr>)"
  let ?w1 = "upd_party r ?f w"
  let ?w2 = "sub_group_counter_increase r t ?w1"
  let ?w3 = "sub_group_counter_decrease r ?s ?w2"
  have p1: "pw_groups ?w1 r = Some (?f p)" using assms(2) by (simp add: upd_party_def)
  have c1: "pa_counts (?f p) = Some cs" using cs by (simp add: upd_slot_def)
  have p2: "pw_groups ?w2 r = Some ((?f p)\<lparr>pa_counts := Some (cs[unat t := cs ! unat t + 1])\<rparr>)"
    using p1 c1 cs(2) assms(3) by (simp add: sub_group_counter_increase_def sub_group_counter_def upd_party_def)
  have "party_view (?f p) = (party_view p)\<lparr>v_mem := move_slot g t (v_mem (party_view p))\<rparr>"
    using upd_first_map [OF ds, of g "\<lambda>m. m\<lparr>mb_group := t\<rparr>"]
    by (auto simp: party_view_def upd_slot_def move_slot_def slot_view_def)
  then have v1: "view ?w1 = a_grp r (\<lambda>P. P\<lparr>v_mem := move_slot g t (v_mem P)\<rparr>) (view w)" by (rule view_upd_party_at [OF assms(2)])
  have v2: "view ?w2 = a_grp r (inc_counts t) (view ?w1)" by (rule view_counter_increase [OF p1]) (use c1 cs(2) assms(3) in simp)
  have v3: "view ?w3 = a_grp r (\<lambda>P. P\<lparr>v_counts := map_option (\<lambda>cs. cs[unat ?s := cs ! unat ?s - 1]) (v_counts P)\<rparr>) (view ?w2)"
    by (rule view_counter_decrease [OF p2]) (use cs(2) s8 in auto)
  have v: "view ?w3 = a_grp r (move_view g ?s t) (view w)"
    unfolding v3 v2 v1 by (simp add: o_def inc_counts_def option.map_comp del: view_sel) (rule a_grp_cong, simp add: move_view_def)
  let ?w4 = "if bg_or_bf p then ?w3 else pw_emit [DbMemberGroup g t] ?w3"
  have v4: "view ?w4 = view ?w3" by simp
  let ?w5 = "if is_connected ?w4 g then set_link_subgroup r g t ?w4 else ?w4"
  have v5: "view ?w5 = a_pl g (re_link r t) (a_grp r (move_view g ?s t) (view w))"
  proof (cases "is_connected ?w4 g")
    case True
    then show ?thesis using view_set_link_subgroup [of r g t ?w4] v4 v by (simp del: view_sel)
  next
    case False
    then have "L (view ?w4) g = None" by (simp add: connected_view)
    then have "a_pl g (re_link r t) (view ?w4) = view ?w4" by (intro a_pl_id) simp
    then show ?thesis using False v4 v by (simp del: view_sel)
  qed
  have x: "parties_ok (view ?w5)" unfolding v5
    by (rule parties_move [OF assms(1) P rv mm nt assms(3)]) (use assms(4) cs in \<open>auto simp: has_free_slot_sub_group_def\<close>)
  have h: "has r ?w5" unfolding v5 using P by (simp del: view_sel)
  have "change_members_group env r g t w = send_update env r ?w5"
    using assms(2) False m by (simp add: change_members_group_def is_member_def get_member_group_def Let_def)
  then show ?thesis using x view_send_update [OF h] by (simp del: view_sel)
qed

lemma parties_change_sub_group:
  assumes "parties_ok (view w)"
  shows "parties_ok (view (handle_group_change_sub_group env g n t w))"
proof (cases "player_group w g")
  case (Some r)
  obtain p where p: "pw_groups w r = Some p" by (rule group_of_link [OF assms Some])
  show ?thesis using Some p assms parties_change_members_group [OF assms p, of t]
    by (auto simp: handle_group_change_sub_group_def simp del: view_sel split: option.split)
qed (use assms in \<open>simp add: handle_group_change_sub_group_def\<close>)


section \<open>Requests that leave everybody where he is\<close>

lemma view_own_group:
  assumes "parties_ok (view w)" "player_group w g = Some r" "\<And>p. pw_groups w r = Some p \<Longrightarrow> view (f p w) = view w"
  shows "view (with_party r f w) = view w"
proof -
  obtain p where "pw_groups w r = Some p" by (rule group_of_link [OF assms(1,2)])
  then show ?thesis using assms(3) by (simp del: view_sel)
qed

lemma view_send_update_light: "has r w \<Longrightarrow> view u = view w \<Longrightarrow> view (send_update env r u) = view w"
  by (metis view_send_update)

lemma view_loot_method:
  assumes "parties_ok (view w)"
  shows "view (handle_loot_method env g v m t w) = view w"
proof (cases "player_group w g")
  case (Some r)
  have "view (send_update env r (upd_party r (\<lambda>p. p\<lparr>pa_method := loot_method_of v, pa_master := m, pa_threshold := ucast t\<rparr>) w)) = view w"
    if "pw_groups w r = Some p" for p
    by (rule view_send_update_light [OF _ view_upd_party_light]) (use that in \<open>simp_all add: party_view_def\<close>)
  then show ?thesis using Some by (auto simp: handle_loot_method_def simp del: view_sel intro!: view_own_group [OF assms])
qed (simp add: handle_loot_method_def)

lemma view_fold_pp:
  "(\<And>q. player_view (f q) = player_view q) \<Longrightarrow> view (fold (\<lambda>x w. pw_emit (os x) (upd_pp (k x) f w)) xs w) = view w"
  by (rule view_fold [where P = "\<lambda>_. True"]) (simp_all add: view_upd_pp_light del: view_sel)

lemma view_group_difficulty:
  assumes "has r w"
  shows "view (set_group_dungeon_difficulty d r w) = view w" "view (set_group_raid_difficulty d r w) = view w"
proof -
  have "view (upd_party r (\<lambda>p. p\<lparr>pa_dungeon := d\<rparr>) w) = view w"
    by (rule view_upd_party_light [OF assms]) (simp add: party_view_def)
  then show "view (set_group_dungeon_difficulty d r w) = view w"
    using assms unfolding set_group_dungeon_difficulty_def
    by (intro with_party_view) (simp_all add: Let_def view_fold_pp player_view_def del: view_sel)
  have "view (upd_party r (\<lambda>p. p\<lparr>pa_raid := d\<rparr>) w) = view w"
    by (rule view_upd_party_light [OF assms]) (simp add: party_view_def)
  then show "view (set_group_raid_difficulty d r w) = view w"
    using assms unfolding set_group_raid_difficulty_def
    by (intro with_party_view) (simp_all add: Let_def view_fold_pp player_view_def del: view_sel)
qed

lemma view_difficulties:
  assumes "parties_ok (view w)"
  shows "view (handle_set_dungeon_difficulty env g m w) = view w" "view (handle_set_raid_difficulty env g m w) = view w"
  by (auto simp: handle_set_dungeon_difficulty_def handle_set_raid_difficulty_def view_upd_pp_light player_view_def view_group_difficulty
      simp del: view_sel split: option.split intro!: view_own_group [OF assms] view_group_difficulty) (simp_all)

lemma view_raid_target:
  assumes "parties_ok (view w)"
  shows "view (handle_raid_target_update env g x tgt w) = view w"
  by (auto simp: handle_raid_target_update_def simp del: view_sel
      split: option.split intro!: view_own_group [OF assms] view_send_target_icons view_set_target_icon) (simp_all)

lemma view_assistant:
  assumes "parties_ok (view w)"
  shows "view (handle_group_assistant_leader env g tgt b w) = view w"
  by (auto simp: handle_group_assistant_leader_def simp del: view_sel
      split: option.split intro!: view_own_group [OF assms] view_set_group_member_flag) (simp_all)

lemma view_assignment:
  assumes "parties_ok (view w)"
  shows "view (handle_party_assignment env g a b tgt w) = view w"
proof (cases "player_group w g")
  case (Some r)
  have "view (set_group_member_flag env tgt b f r (upd_party r (remove_unique_flag f) w)) = view w" if "has r w" for f
    using view_set_group_member_flag [where w = "upd_party r (remove_unique_flag f) w"] view_remove_unique [OF that, of f] that
    by (simp del: view_sel)
  then show ?thesis using Some
    by (auto simp: handle_party_assignment_def simp del: view_sel intro!: view_own_group [OF assms] view_send_update_light) (simp_all)
qed (simp add: handle_party_assignment_def)

lemma view_ready_check:
  assumes "parties_ok (view w)"
  shows "view (handle_raid_ready_check g s w) = view w"
proof (cases "player_group w g")
  case (Some r)
  have "view (offline_ready_check r (broadcast MSG_RAID_READY_CHECK [P64 g] False None 0 r w)) = view w" if "has r w"
    using view_broadcast [OF that] that view_offline_ready_check by (simp del: view_sel)
  then show ?thesis using Some
    by (auto simp: handle_raid_ready_check_def simp del: view_sel
      split: option.split intro!: view_own_group [OF assms] view_broadcast_ready_check) (simp_all)
qed (simp add: handle_raid_ready_check_def)

lemma view_update_looter:
  assumes "has r w"
  shows "view (update_looter_guid env obj b r w) = view w"
proof -
  have "view (set_looter h r w) = view w" for h
    unfolding set_looter_def by (rule view_upd_party_light [OF assms]) (simp add: party_view_def)
  then have "view (send_update env r (set_looter h r w)) = view w" for h by (rule view_send_update_light [OF assms])
  then show ?thesis using assms unfolding update_looter_guid_def
    by (intro with_party_view) (auto simp: Let_def simp del: view_sel split: option.split)
qed


section \<open>Login\<close>

lemma basic_ok_players:
  assumes "basic_ok V" "\<And>h k. Option.bind (Ls h) (link_of k) = Option.bind (L V h) (link_of k)"
    "\<And>h. Option.bind (Ls h) l_inv = Option.bind (L V h) l_inv"
  shows "basic_ok (V\<lparr>L := Ls\<rparr>)"
proof -
  have lk: "a_link_of k h (V\<lparr>L := Ls\<rparr>) = a_link_of k h V" for k h using assms(2) by (simp add: a_link_of_def)
  have i: "(\<exists>l. Ls h = Some l \<and> l_inv l = Some r) \<longleftrightarrow> (\<exists>l. L V h = Some l \<and> l_inv l = Some r)" for h r
    using assms(3) [of h] by (cases "Ls h"; cases "L V h") auto
  have j: "(\<forall>g l r. Ls g = Some l \<and> l_inv l = Some r \<longrightarrow> G V r \<noteq> None) \<longleftrightarrow> (\<forall>g l r. L V g = Some l \<and> l_inv l = Some r \<longrightarrow> G V r \<noteq> None)"
    using i by blast
  have inv: "invites_ok (V\<lparr>L := Ls\<rparr>) = invites_ok V" unfolding invites_ok_def using i j by simp
  have rest: "refs_ok (V\<lparr>L := Ls\<rparr>) = refs_ok V" "bgs_ok (V\<lparr>L := Ls\<rparr>) = bgs_ok V" "\<And>P. rolls_ok (V\<lparr>L := Ls\<rparr>) P = rolls_ok V P"
    by (simp_all add: refs_ok_def lk bgs_ok_def rolls_ok_def)
  show ?thesis using assms(1) unfolding basic_ok_def inv rest by simp
qed

definition fresh :: lview where "fresh = \<lparr>l_main = None, l_orig = None, l_inv = None\<rparr>"

lemma parties_enter:
  assumes "parties_ok V" "L V g = None" "same_bare (V\<lparr>L := (L V)(g \<mapsto> fresh)\<rparr>) W" "refs_ok W" "L W = (L V)(g \<mapsto> l)" "l_inv l = None"
    "\<And>r s. mem_of V g r s \<longleftrightarrow> l_main l = Some (r, s) \<or> l_orig l = Some (r, s)"
    "\<And>r s. l_orig l = Some (r, s) \<Longrightarrow> \<not> bg_of V r \<and> (\<exists>q t. l_main l = Some (q, t) \<and> bg_of V q)"
  shows "parties_ok W"
  unfolding parties_x_def
proof (intro conjI allI impI)
  let ?V = "V\<lparr>L := (L V)(g \<mapsto> fresh)\<rparr>"
  note d = parties_xD [OF assms(1)]
  have lf: "link_of k fresh = None" for k by (cases k) (simp_all add: fresh_def)
  have b: "basic_ok ?V" 
  proof (rule basic_ok_players [OF d(1)])
    show "Option.bind (((L V)(g \<mapsto> fresh)) h) (link_of k) = Option.bind (L V h) (link_of k)" for h k using lf assms(2) by (cases "h = g") simp_all
    show "Option.bind (((L V)(g \<mapsto> fresh)) h) l_inv = Option.bind (L V h) l_inv" for h using assms(2) by (cases "h = g") (simp_all add: fresh_def)
  qed
  show "basic_ok W" by (rule basic_ok_bare [OF b assms(3,4)])
  have m: "mem_of W = mem_of V" unfolding mem_of_bare [OF assms(3)] by (simp add: mem_of_def fun_eq_iff)
  have k: "bg_of W = bg_of V" unfolding bg_of_bare [OF assms(3)] by (simp add: bg_of_def fun_eq_iff)
  show "social (mem_of W) (bg_of W) (L W)" unfolding m k assms(5) by (rule social_new_player [OF d(2) assms(2,6,7,8)])
  have "ids_ok {} ?V" using d(3) by (simp add: ids_ok_def)
  then show "ids_ok {} W" using assms(3) by (rule ids_ok_bare)
  show "size_ok P \<or> r \<in> {}" if P: "G W r = Some P" for r P
  proof -
    obtain Q where Q: "G ?V r = Some Q" "bare Q = bare P" using same_bareD(1) [OF assms(3) P] by blast
    have "size_ok Q" by (rule d(4)) (use Q(1) in simp_all)
    then show ?thesis using size_ok_bare [OF Q(2)] by simp
  qed
qed

lemma view_set_battleground_raid:
  assumes "refs_ok (view w)" "has r w" "s < 0x80" "L (view w) g = Some l" "\<And>q t. l_main l = Some (q, t) \<Longrightarrow> t < 0x80"
  shows "refs_ok (view (set_battleground_raid r s g w)) \<and> same_bare (view w) (view (set_battleground_raid r s g w))
    \<and> L (view (set_battleground_raid r s g w)) = (L (view w))(g \<mapsto> l\<lparr>l_orig := l_main l, l_main := Some (r, s)\<rparr>)"
proof -
  let ?V = "view w"
  have m: "(case find_connected w g of None \<Rightarrow> None | Some p \<Rightarrow> pp_group p) = l_main l" using assms(4) by (auto simp: player_view_def)
  obtain U where U: "view (set_original_group (l_main l) g w) = U" "refs_ok U" "same_bare ?V U"
    "L U = (L ?V)(g \<mapsto> l\<lparr>l_orig := l_main l\<rparr>)"
  proof (cases "l_main l")
    case None
    show ?thesis
      by (rule that [OF refl]) (use assms(1,4) None in \<open>simp_all add: view_set_group a_unlink_L del: view_sel\<close>)
  next
    case (Some x)
    obtain q t where x: "x = (q, t)" by (cases x)
    have q: "has q w" using refs_ok_exists [OF assms(1), of MainLink g q t] links_of(1) [OF assms(4)] Some x by simp
    show ?thesis
      by (rule that [OF refl]) (use assms(1,4) assms(5) Some x q in \<open>simp_all add: view_set_group a_link_L del: view_sel\<close>)
  qed
  let ?w1 = "set_original_group (l_main l) g w"
  have 2: "view (unlink_main g ?w1) = a_unlink MainLink g U" using view_unlink_main [of ?w1 g] U(1,2) by simp
  have hU: "G U r \<noteq> None" using assms(2) same_bare_None [OF U(3)] by simp
  have 3: "view (link_main r s g (unlink_main g ?w1)) = a_link MainLink r s g (a_unlink MainLink g U)"
    using view_link_main [of "unlink_main g ?w1" r s g] U(2) hU unfolding 2 by (simp del: view_sel)
  have e: "set_battleground_raid r s g w = link_main r s g (unlink_main g ?w1)" by (simp add: set_battleground_raid_def m)
  have "refs_ok (a_link MainLink r s g (a_unlink MainLink g U))" by (rule refs_ok_link) (use U hU assms(4) in \<open>simp_all add: a_unlink_L\<close>)
  moreover have "same_bare ?V (a_link MainLink r s g (a_unlink MainLink g U))"
    by (rule same_bare_trans [OF U(3) same_bare_trans [OF same_bare_unlink same_bare_link]])
  ultimately show ?thesis unfolding e 3 using U(4) by (simp add: a_link_L a_unlink_L)
qed

lemma view_new_player:
  "view (w\<lparr>pw_players := om_set g q (pw_players w)\<rparr>) = (view w)\<lparr>L := (L (view w))(g \<mapsto> player_view q)\<rparr>"
  by (simp add: view_def find_connected_def fun_eq_iff)

lemma view_load_player_group:
  assumes "refs_ok (view w)"
  shows "Option.bind db (group_by_db_id (pw_db w)) = None \<Longrightarrow> view (load_player_group g db w) = view w"
    "Option.bind db (group_by_db_id (pw_db w)) = Some r \<Longrightarrow> pw_groups w r = Some p \<Longrightarrow> get_member_group p g < 0x80 \<Longrightarrow>
      view (load_player_group g db w) = a_link MainLink r (get_member_group p g) g (view w)"
proof -
  show "view (load_player_group g db w) = view w" if "Option.bind db (group_by_db_id (pw_db w)) = None"
    using that by (simp add: load_player_group_def Let_def del: view_sel)
  assume r: "Option.bind db (group_by_db_id (pw_db w)) = Some r" and p: "pw_groups w r = Some p" "get_member_group p g < 0x80"
  let ?w1 = "if is_leader p g then set_leader_flag True g w else w"
  have v1: "view ?w1 = view w" by simp
  have "view (set_group (Some (r, get_member_group p g)) g ?w1) = a_link MainLink r (get_member_group p g) g (view ?w1)"
    by (rule view_set_group(2)) (use assms p in \<open>simp_all add: v1 del: view_sel\<close>, simp add: p(1))
  moreover have "view (upd_pp g (\<lambda>q. if LEVELREQUIREMENT_HEROIC \<le> pp_level q then q\<lparr>pp_dungeon := pa_dungeon p, pp_raid := pa_raid p\<rparr> else q) u) = view u" for u
    by (rule view_upd_pp_light) (simp add: player_view_def)
  ultimately show "view (load_player_group g db w) = a_link MainLink r (get_member_group p g) g (view w)"
    using r p(1) v1 by (simp add: load_player_group_def Let_def del: view_sel)
qed

lemma next_group_upd [simp]:
  "pw_next_group (upd_pp g f w) = pw_next_group w" "pw_next_group (fault w) = pw_next_group w" "pw_next_group (upd_party r h w) = pw_next_group w"
  by (simp_all add: upd_pp_def fault_def upd_party_def split: option.split)

lemma next_group_load: "pw_next_group (load_player_group g db w) = pw_next_group w"
  by (simp add: load_player_group_def Let_def set_leader_flag_def set_group_def link_main_def unlink_main_def
      subgroup_assert_def with_party_def split: option.split)


lemma mem_sub: "shape_ok P \<Longrightarrow> (g, s) \<in> set (v_mem P) \<Longrightarrow> s < 0x80"
  unfolding shape_ok_def by (intro small_sub) fastforce

lemma slot_of_mem:
  assumes "shape_ok (party_view p)" "(g, s) \<in> set (v_mem (party_view p))"
  shows "get_member_group p g = s" "is_member p g"
proof -
  have "is_member p g" unfolding is_member_view using assms(2) by (rule rev_image_eqI) simp
  then obtain m where m: "get_slot p g = Some m" by (auto simp: is_member_def)
  have "(g, mb_group m) \<in> set (v_mem (party_view p))" by (rule get_slot_mem(1) [OF m])
  moreover have "distinct (map fst (v_mem (party_view p)))" using assms(1) by (simp add: shape_ok_def)
  ultimately have "mb_group m = s" using assms(2) eq_key_imp_eq_value by metis
  then show "get_member_group p g = s" "is_member p g" using get_slot_mem(2,3) [OF m] by simp_all
qed

definition main_fits :: "wview \<Rightarrow> guid \<Rightarrow> (nat \<times> u8) option \<Rightarrow> bool" where
  "main_fits V g x \<longleftrightarrow> (\<forall>q t. x = Some (q, t) \<longleftrightarrow> mem_of V g q t \<and> \<not> bg_of V q)"

lemma load_links:
  assumes "parties_ok (view w)" "find_connected w g = None"
    "\<And>r. Option.bind db (group_by_db_id (pw_db w)) = Some r \<longleftrightarrow> (\<exists>s. mem_of (view w) g r s \<and> \<not> bg_of (view w) r)"
    "view w0 = (view w)\<lparr>L := (L (view w))(g \<mapsto> fresh)\<rparr>"
  obtains x where "refs_ok (view (load_player_group g db w0))" "same_bare (view w0) (view (load_player_group g db w0))"
    "L (view (load_player_group g db w0)) = (L (view w))(g \<mapsto> fresh\<lparr>l_main := x\<rparr>)" "main_fits (view w) g x"
proof -
  let ?V = "view w" and ?w1 = "load_player_group g db w0"
  note d = parties_xD [OF assms(1)]
  have Lg: "L ?V g = None" using assms(2) by simp
  have lf: "link_of k fresh = None" for k by (cases k) (simp_all add: fresh_def)
  have "basic_ok (view w0)" unfolding assms(4)
  proof (rule basic_ok_players [OF d(1)])
    show "Option.bind (((L ?V)(g \<mapsto> fresh)) h) (link_of k) = Option.bind (L ?V h) (link_of k)" for h k using lf Lg by (cases "h = g") simp_all
    show "Option.bind (((L ?V)(g \<mapsto> fresh)) h) l_inv = Option.bind (L ?V h) l_inv" for h using Lg by (cases "h = g") (simp_all add: fresh_def)
  qed
  then have ro: "refs_ok (view w0)" by (rule basic_okD(1))
  have G0: "pw_db w0 = pw_db w" "G (view w0) = G ?V" "L (view w0) = (L ?V)(g \<mapsto> fresh)"
    using arg_cong [OF assms(4), of v_ids] arg_cong [OF assms(4), of G] arg_cong [OF assms(4), of L] by simp_all
  note a3 = assms(3) [folded G0(1)]
  show ?thesis
  proof (cases "Option.bind db (group_by_db_id (pw_db w0))")
    case None
    have v: "view ?w1 = view w0" by (rule view_load_player_group(1) [OF ro None])
    have "main_fits ?V g None" unfolding main_fits_def using a3 None by auto
    moreover have "fresh\<lparr>l_main := None\<rparr> = fresh" by (simp add: fresh_def)
    ultimately show ?thesis using that [of None] ro G0(3) unfolding v by simp
  next
    case (Some r)
    then obtain s where s: "mem_of ?V g r s" "\<not> bg_of ?V r" using a3 by blast
    then obtain P where P: "G ?V r = Some P" "(g, s) \<in> set (v_mem P)" by (auto simp: mem_of_def)
    have "G (view w0) r = Some P" unfolding G0(2) by (rule P(1))
    then obtain p where p: "pw_groups w0 r = Some p" "party_view p = P" by (rule has_party)
    have sh: "shape_ok (party_view p)" unfolding p(2) by (rule basic_okD(6) [OF d(1) P(1)])
    have gs: "get_member_group p g = s" by (rule slot_of_mem(1) [OF sh]) (use P(2) p(2) in simp)
    have s8: "s < 0x80" by (rule mem_sub [OF sh]) (use P(2) p(2) in simp)
    have v: "view ?w1 = a_link MainLink r s g (view w0)"
      using view_load_player_group(2) [OF ro Some p(1)] gs s8 by simp
    have "x = Some (r, s) \<longleftrightarrow> main_fits ?V g x" for x
    proof -
      have "mem_of ?V g q t \<and> \<not> bg_of ?V q \<longleftrightarrow> q = r \<and> t = s" for q t using socialD(4) [OF d(2) Lg s(1), of q t] s by blast
      then show ?thesis unfolding main_fits_def by (cases x) auto
    qed
    then have "main_fits ?V g (Some (r, s))" by blast
    moreover have "refs_ok (view ?w1)" unfolding v by (rule refs_ok_link [OF ro]) (use G0 P(1) in \<open>simp_all del: view_sel\<close>)
    moreover have "L (view ?w1) = (L ?V)(g \<mapsto> fresh\<lparr>l_main := Some (r, s)\<rparr>)" unfolding v a_link_L G0(3) by simp
    moreover have "same_bare (view w0) (view ?w1)" unfolding v by simp
    ultimately show ?thesis using that by blast
  qed
qed

lemma parties_login:
  assumes "parties_ok (view w)" "find_connected w g = None"
    "\<And>r. Option.bind db (group_by_db_id (pw_db w)) = Some r \<longleftrightarrow> (\<exists>s. mem_of (view w) g r s \<and> \<not> bg_of (view w) r)"
    "\<And>r s P. mem_of (view w) g r s \<Longrightarrow> G (view w) r = Some P \<Longrightarrow> v_bg P \<noteq> None \<Longrightarrow> v_bg P = bg"
    "pw_next_group w < 0xFFFFFFFE"
  shows "parties_ok (view (login env g q db bg w))"
proof -
  let ?V = "view w"
  note d = parties_xD [OF assms(1)]
  have Lg: "L ?V g = None" using assms(2) by simp
  let ?w0 = "w\<lparr>pw_players := om_set g (q\<lparr>pp_logout := False, pp_group := None, pp_orig := None, pp_invite := None, pp_pass_loot := False\<rparr>) (pw_players w)\<rparr>"
  let ?w1 = "load_player_group g db ?w0"
  have v0: "view ?w0 = ?V\<lparr>L := (L ?V)(g \<mapsto> fresh)\<rparr>"
    unfolding view_new_player by (simp add: player_view_def fresh_def)
  obtain x where x: "refs_ok (view ?w1)" "same_bare (view ?w0) (view ?w1)" "L (view ?w1) = (L ?V)(g \<mapsto> fresh\<lparr>l_main := x\<rparr>)"
    "main_fits ?V g x" by (rule load_links [OF assms(1,2,3) v0])
  note sb = x(2) [unfolded v0]
  note mf = x(4) [unfolded main_fits_def]
  show ?thesis
  proof (cases "\<exists>r s. mem_of ?V g r s \<and> bg_of ?V r")
    case True
    then obtain r s where rs: "mem_of ?V g r s" "bg_of ?V r" by blast
    then obtain P where P: "G ?V r = Some P" "(g, s) \<in> set (v_mem P)" "v_bg P \<noteq> None" by (auto simp: mem_of_def bg_of_def)
    then obtain k where k: "bg = Some k" "v_bg P = Some k" using assms(4) [OF rs(1) P(1,3)] by auto
    have "v_bgs ?V k = Some r" using basic_okD(3) [OF d(1)] P(1) k(2) unfolding bgs_ok_def by blast
    then have kr: "pw_bg_raids ?w1 k = Some r" using same_bare_sel(3) [OF sb] by simp
    obtain P1 where P1: "G (view ?w1) r = Some P1" "bare P1 = bare P" using same_bareD(1) [OF same_bare_sym [OF sb], of r P] P(1) by auto
    obtain p1 where p1: "pw_groups ?w1 r = Some p1" "party_view p1 = P1" using P1(1) by (rule has_party)
    have sh: "shape_ok (party_view p1)" unfolding p1(2) shape_ok_bare [OF P1(2)] by (rule basic_okD(6) [OF d(1) P(1)])
    have m: "(g, s) \<in> set (v_mem (party_view p1))" unfolding p1(2) bare_eqD(1) [OF P1(2)] by (rule P(2))
    note sl = slot_of_mem [OF sh m]
    have s8: "s < 0x80" by (rule mem_sub [OF sh m])
    have x8: "t < 0x80" if xq: "x = Some (q, t)" for q t
    proof -
      obtain Q where "G ?V q = Some Q" "(g, t) \<in> set (v_mem Q)" using mf [rule_format, of q t] xq unfolding mem_of_def by blast
      then show ?thesis using basic_okD(6) [OF d(1), of q Q] mem_sub by blast
    qed
    have Lx: "L (view ?w1) g = Some (fresh\<lparr>l_main := x\<rparr>)" unfolding x(3) by simp
    have h1: "has r ?w1" using p1(1) by simp
    let ?w2 = "set_battleground_raid r s g ?w1"
    have b: "refs_ok (view ?w2)" "same_bare (view ?w1) (view ?w2)" "L (view ?w2) = (L (view ?w1))(g \<mapsto> fresh\<lparr>l_main := Some (r, s), l_orig := x\<rparr>)"
      using view_set_battleground_raid [OF x(1) h1 s8 Lx] x8 by (simp_all add: fresh_def del: view_sel)
    let ?l = "fresh\<lparr>l_main := Some (r, s), l_orig := x\<rparr>"
    have "parties_ok (view ?w2)"
    proof (rule parties_enter [OF assms(1) Lg same_bare_trans [OF sb b(2)] b(1)])
      show "L (view ?w2) = (L ?V)(g \<mapsto> ?l)" unfolding b(3) x(3) by simp
      show "l_inv ?l = None" by (simp add: fresh_def)
      show "mem_of ?V g q t \<longleftrightarrow> l_main ?l = Some (q, t) \<or> l_orig ?l = Some (q, t)" for q t
        using mf [rule_format, of q t] socialD(4) [OF d(2) Lg rs(1), of q t] rs by auto
      show "\<not> bg_of ?V q \<and> (\<exists>u v. l_main ?l = Some (u, v) \<and> bg_of ?V u)" if "l_orig ?l = Some (q, t)" for q t
        using mf [rule_format, of q t] that rs(2) by simp
    qed
    moreover have "login env g q db bg w = ?w2"
      using kr p1(1) sl by (simp add: login_def Let_def k(1) add_to_bg_group_def)
    ultimately show ?thesis by simp
  next
    case False
    let ?l = "fresh\<lparr>l_main := x\<rparr>"
    have ok1: "parties_ok (view ?w1)"
    proof (rule parties_enter [OF assms(1) Lg sb x(1,3)])
      show "l_inv ?l = None" by (simp add: fresh_def)
      show "mem_of ?V g q t \<longleftrightarrow> l_main ?l = Some (q, t) \<or> l_orig ?l = Some (q, t)" for q t
        using mf [rule_format, of q t] False by (auto simp: fresh_def)
    qed (simp add: fresh_def)
    show ?thesis
    proof (cases bg)
      case None
      then show ?thesis using ok1 by (simp add: login_def Let_def del: view_sel)
    next
      case (Some k)
      have "parties_ok (view (add_to_bg_group env k g ?w1))"
      proof (rule parties_bg_join [OF ok1])
        show "L (view ?w1) g = Some ?l" unfolding x(3) by simp
        show "l_inv ?l = None" by (simp add: fresh_def)
        have kk: "bg_of (view ?w1) = bg_of ?V" unfolding bg_of_bare [OF sb] by (simp add: bg_of_def fun_eq_iff)
        show "\<not> bg_of (view ?w1) q" if "l_main ?l = Some (q, t)" for q t
          unfolding kk using mf [rule_format, of q t] that by simp
        show "pw_next_group ?w1 < 0xFFFFFFFE" using assms(5) by (simp add: next_group_load)
      qed
      then show ?thesis using Some by (simp add: login_def Let_def del: view_sel)
    qed
  qed
qed


section \<open>Logout\<close>

lemma parties_delete_player:
  assumes "parties_ok (view w)" "L (view w) g = Some l" "l_inv l = None"
  shows "parties_ok (view (delete_player g w))"
proof -
  let ?V = "view w" and ?w1 = "unlink_original g (unlink_main g w)"
  note d = parties_xD [OF assms(1)]
  let ?U = "a_unlink OrigLink g (a_unlink MainLink g ?V)"
  have r0: "refs_ok ?V" by (rule basic_okD(1) [OF d(1)])
  have v1: "view (unlink_main g w) = a_unlink MainLink g ?V" by (rule view_unlink_main [OF r0])
  have v: "view ?w1 = ?U" using view_unlink_original [of "unlink_main g w" g] r0 unfolding v1 by simp
  have sb: "same_bare ?V ?U" by (rule same_bare_trans [OF same_bare_unlink same_bare_unlink])
  have rU: "refs_ok ?U" using r0 by simp
  have bU: "basic_ok ?U" by (rule basic_ok_bare [OF d(1) sb rU])
  have LU: "L ?U = (L ?V)(g \<mapsto> fresh)"
    using assms(2,3) unfolding a_unlink_L by (cases l) (simp add: fresh_def fun_eq_iff del: view_sel)
  have ni: "\<not> still_invited ?w1 g"
  proof
    assume "still_invited ?w1 g"
    then obtain r p where p: "pw_groups ?w1 r = Some p" "g \<in> set (pa_invites p)" by (auto simp: still_invited_def list_ex_iff split: option.splits)
    have "G ?U r = Some (party_view p)" unfolding v [symmetric] using p(1) by simp
    then have "\<exists>l. L ?U g = Some l \<and> l_inv l = Some r" using invites_okD(2) [OF basic_okD(2) [OF bU], of r "party_view p" g] p(2) by simp
    then show False unfolding LU by (simp add: fresh_def)
  qed
  have vd: "view (delete_player g w) = ?U\<lparr>L := (L ?V)(g := None)\<rparr>"
  proof -
    have "view (delete_player g w) = (view ?w1)\<lparr>L := (L (view ?w1))(g := None)\<rparr>"
      using ni by (simp add: delete_player_def Let_def view_def find_connected_def fun_eq_iff)
    then show ?thesis unfolding v LU by simp
  qed
  show ?thesis unfolding vd parties_x_def
  proof (intro conjI allI impI)
    have lf: "link_of k fresh = None" for k by (cases k) (simp_all add: fresh_def)
    show "basic_ok (?U\<lparr>L := (L ?V)(g := None)\<rparr>)"
    proof (rule basic_ok_players [OF bU])
      show "Option.bind (((L ?V)(g := None)) h) (link_of k) = Option.bind (L ?U h) (link_of k)" for h k unfolding LU using lf by (cases "h = g") simp_all
      show "Option.bind (((L ?V)(g := None)) h) l_inv = Option.bind (L ?U h) l_inv" for h unfolding LU by (cases "h = g") (simp_all add: fresh_def)
    qed
    have m: "mem_of (?U\<lparr>L := (L ?V)(g := None)\<rparr>) = mem_of ?V" using mem_of_bare [OF sb] by (simp add: mem_of_def fun_eq_iff)
    have k: "bg_of (?U\<lparr>L := (L ?V)(g := None)\<rparr>) = bg_of ?V" using bg_of_bare [OF sb] by (simp add: bg_of_def fun_eq_iff)
    show "social (mem_of (?U\<lparr>L := (L ?V)(g := None)\<rparr>)) (bg_of (?U\<lparr>L := (L ?V)(g := None)\<rparr>)) (L (?U\<lparr>L := (L ?V)(g := None)\<rparr>))"
      unfolding m k using social_gone [OF d(2) assms(2)] by (simp del: view_sel)
    have "ids_ok {} ?U" by (rule ids_ok_bare [OF d(3) sb])
    then show "ids_ok {} (?U\<lparr>L := (L ?V)(g := None)\<rparr>)" by (simp add: ids_ok_def)
    show "size_ok P \<or> r \<in> {}" if P: "G (?U\<lparr>L := (L ?V)(g := None)\<rparr>) r = Some P" for r P
    proof -
      have "G ?U r = Some P" using P by simp
      then obtain Q where Q: "G ?V r = Some Q" "bare Q = bare P" using same_bareD(1) [OF sb] by blast
      have "size_ok Q" by (rule d(4) [OF Q(1)]) simp
      then show ?thesis using size_ok_bare [OF Q(2)] by simp
    qed
  qed
qed

lemma parties_logout:
  assumes "parties_ok (view w)" "is_connected w g"
  shows "parties_ok (view (logout env socket g w))"
proof -
  let ?w1 = "upd_pp g (\<lambda>q. q\<lparr>pp_logout := True\<rparr>) w"
  have 1: "view ?w1 = view w" by (rule view_upd_pp_light) (simp add: player_view_def)
  let ?w2 = "uninvite_from_group env g ?w1"
  have 2: "parties_ok (view ?w2)" "shrinks (view w) (view ?w2)" "uninvited (view ?w2) g"
    using parties_uninvite_from [of ?w1 env g] assms(1) unfolding 1 by blast+
  let ?w3 = "logout_group env socket g ?w2"
  have 3: "parties_ok (view ?w3) \<and> shrinks (view ?w2) (view ?w3)"
  proof (cases "player_group ?w2 g")
    case None
    then show ?thesis using 2(1) by (simp add: logout_group_def del: view_sel)
  next
    case (Some r)
    obtain p l s where p: "pw_groups ?w2 r = Some p" "mem_of (view ?w2) g r s" by (rule member_of_group [OF 2(1) Some])
    have "parties_ok (view (remove_from_group env REMOVE_DEFAULT (Some r) g ?w2)) \<and> shrinks (view ?w2) (view (remove_from_group env REMOVE_DEFAULT (Some r) g ?w2))"
      using parties_remove_member [OF 2(1) p, of env REMOVE_DEFAULT] by (simp add: remove_from_group_def del: view_sel)
    then show ?thesis using Some p(1) 2(1) by (simp add: logout_group_def del: view_sel)
  qed
  let ?w4 = "logout_update env g ?w3"
  have 4: "view ?w4 = view ?w3"
  proof (cases "player_group ?w3 g")
    case (Some r)
    obtain p where "pw_groups ?w3 r = Some p" by (rule group_of_link [OF conjunct1 [OF 3] Some])
    then have h: "has r ?w3" by simp
    have u: "view (send_update env r ?w3) = view ?w3" by (rule view_send_update [OF h])
    then show ?thesis using Some view_reset_enchanting [where w = "send_update env r ?w3"] h by (simp add: logout_update_def del: view_sel)
  qed (simp add: logout_update_def)
  have s: "shrinks (view w) (view ?w4)" unfolding 4 using shrinks_trans [OF 2(2)] 3 by blast
  have "L (view w) g \<noteq> None" using assms(2) by (simp add: connected_view del: view_sel)
  then obtain l where l: "L (view ?w4) g = Some l" using shrinksD(3) [OF s, of g] by (cases "L (view ?w4) g") auto
  have "uninvited (view ?w4) g" unfolding 4 using uninvited_shrinks [OF 2(3)] 3 by blast
  then have "l_inv l = None" using l by (simp add: uninvited_def del: view_sel)
  then have "parties_ok (view (delete_player g ?w4))" using parties_delete_player [OF _ l] 3 unfolding 4 by blast
  then show ?thesis by (simp add: logout_def Let_def)
qed

end
