(* ===== verification/PartyLoot.thy ===== *)
theory PartyLoot
  imports PartyEnter
begin

text \<open>
  Loot: starting rolls, voting and counting keep the invariant of the groups; and what a roll does: who
  wins it, when it is over, what becomes of the item.
\<close>

section \<open>Items\<close>

lemma item_counter: "get_counter (guid_global HItem c) = c"
proof (cases "c = 0")
  case True
  then show ?thesis by (simp add: guid_global_def get_counter_def)
next
  case False
  have "fields_fit HItem 0 c"
    using False unsigned_less [where 'a = nat, of c] by (auto simp: fields_fit_def get_max_counter_def word_gt_0 word_le_nat_alt)
  then show ?thesis using guid_fields(3) [of HItem 0 c] by (simp add: guid_global_specific known_high_def)
qed

lemma view_upd_item:
  assumes "pw_loots w l = Some lo" "i < length (lo_items lo)"
  shows "view (upd_item l i f w) = view w"
  using assms by (auto simp: upd_item_def view_def loot_view_def find_connected_def fun_eq_iff)

lemma view_upd_quest_item:
  assumes "pw_loots w l = Some lo" "i < length (lo_quest lo)"
  shows "view (upd_quest_item l i f w) = view w"
  using assms by (auto simp: upd_quest_item_def view_def loot_view_def find_connected_def fun_eq_iff)

definition slot_in :: "party_world \<Rightarrow> nat \<Rightarrow> u8 \<Rightarrow> bool" where
  "slot_in w l s \<longleftrightarrow> (\<exists>a b. v_loots (view w) l = Some (a, b) \<and> unat s < a + b)"

lemma slot_inD:
  assumes "slot_in w l s"
  obtains lo where "pw_loots w l = Some lo" "unat s < length (lo_items lo) + length (lo_quest lo)"
  using assms by (auto simp: slot_in_def loot_view_def)

lemma slot_in_view: "view u = view w \<Longrightarrow> slot_in u l s = slot_in w l s"
  by (simp add: slot_in_def del: view_sel)

lemma view_upd_slot_item: "slot_in w l s \<Longrightarrow> view (upd_slot_item l s f w) = view w"
  by (erule slot_inD) (auto simp: upd_slot_item_def view_upd_item view_upd_quest_item simp del: view_sel)

lemma slot_item_some: "unat s < length (lo_items lo) + length (lo_quest lo) \<Longrightarrow> slot_item lo s \<noteq> None"
  by (auto simp: slot_item_def)

lemma view_item_taken: "slot_in w l s \<Longrightarrow> view (item_taken l s w) = view w"
proof -
  assume s: "slot_in w l s"
  let ?w1 = "pw_emit [PLootRemoved l s] (upd_slot_item l s (\<lambda>li. li\<lparr>li_looted := True\<rparr>) w)"
  have 1: "view ?w1 = view w" using view_upd_slot_item [OF s] by simp
  have "view (case pw_loots ?w1 l of None \<Rightarrow> ?w1 | Some lo \<Rightarrow> ?w1\<lparr>pw_loots := (pw_loots ?w1)(l \<mapsto> lo\<lparr>lo_unlooted := lo_unlooted lo - 1\<rparr>)\<rparr>) = view ?w1"
    by (auto simp: view_def loot_view_def find_connected_def fun_eq_iff split: option.split)
  then show ?thesis using 1 by (simp add: item_taken_def Let_def del: view_sel)
qed

section \<open>The outcome of a roll changes no group\<close>

lemma view_store_won: "slot_in w l (rl_slot rl) \<Longrightarrow> view (store_won env l rl g w) = view w"
proof -
  assume s: "slot_in w l (rl_slot rl)"
  obtain lo where lo: "pw_loots w l = Some lo" "unat (rl_slot rl) < length (lo_items lo) + length (lo_quest lo)" by (rule slot_inD [OF s])
  obtain li where "slot_item lo (rl_slot rl) = Some li" using slot_item_some [OF lo(2)] by blast
  then show ?thesis using lo(1) view_item_taken [OF s] view_upd_slot_item [OF s]
    by (simp add: store_won_def Let_def unblock_item_def del: view_sel)
qed

lemma view_disenchant_won: "slot_in w l (rl_slot rl) \<Longrightarrow> pe_proto env (rl_item rl) \<noteq> None \<Longrightarrow> view (disenchant_won env l rl g w) = view w"
proof -
  assume s: "slot_in w l (rl_slot rl)" and "pe_proto env (rl_item rl) \<noteq> None"
  then obtain pr where pr: "pe_proto env (rl_item rl) = Some pr" by blast
  obtain lo where lo: "pw_loots w l = Some lo" "unat (rl_slot rl) < length (lo_items lo) + length (lo_quest lo)" by (rule slot_inD [OF s])
  obtain li where "slot_item lo (rl_slot rl) = Some li" using slot_item_some [OF lo(2)] by blast
  then show ?thesis using lo(1) pr view_item_taken [OF s] by (simp add: disenchant_won_def Let_def del: view_sel)
qed

lemma view_send_draws [simp]: "view (send_draws env rl P w) = view w"
  unfolding send_draws_def by (rule view_fold [where P = "\<lambda>_. True"]) simp_all

lemma view_count_need: "slot_in w l (rl_slot rl) \<Longrightarrow> view (count_need env l rl w) = view w"
proof -
  assume s: "slot_in w l (rl_slot rl)"
  have "view (store_won env l rl g u) = view w" if "view u = view w" for g u
    using view_store_won [of u l rl env g] slot_in_view [OF that] s that by simp
  then show ?thesis by (simp add: count_need_def Let_def split_beta del: view_sel)
qed

lemma view_count_greed: "slot_in w l (rl_slot rl) \<Longrightarrow> pe_proto env (rl_item rl) \<noteq> None \<Longrightarrow> view (count_greed env l rl w) = view w"
proof -
  assume s: "slot_in w l (rl_slot rl)" and p: "pe_proto env (rl_item rl) \<noteq> None"
  have "view (store_won env l rl g u) = view w" "view (disenchant_won env l rl g u) = view w" if "view u = view w" for g u
    using view_store_won [of u l rl env g] view_disenchant_won [of u l rl env g] slot_in_view [OF that] s p that by simp_all
  then show ?thesis by (simp add: count_greed_def Let_def split_beta del: view_sel)
qed

lemma view_finish_roll:
  assumes "\<And>l. roll_loot w rl = Some l \<Longrightarrow> slot_in w l (rl_slot rl)" "pe_proto env (rl_item rl) \<noteq> None"
  shows "view (finish_roll env rl w) = view w"
proof (cases "roll_loot w rl")
  case (Some l)
  note s = assms(1) [OF Some]
  have "view (unblock_item l (rl_slot rl) (send_loot_all_passed rl w)) = view w"
    using view_upd_slot_item [of "send_loot_all_passed rl w" l "rl_slot rl"] slot_in_view [of "send_loot_all_passed rl w" w] s
    by (simp add: unblock_item_def del: view_sel)
  then show ?thesis using Some view_count_need [OF s] view_count_greed [OF s assms(2)] by (simp add: finish_roll_def del: view_sel)
qed (simp add: finish_roll_def)

text \<open>Nor does it change the rolls that are left.\<close>

lemma groups_upd_slot [simp]: "pw_groups (upd_slot_item l s f w) = pw_groups w"
  by (simp add: upd_slot_item_def upd_item_def upd_quest_item_def fault_def split: option.split)

lemma groups_send [simp]: "pw_groups (pw_emit os w) = pw_groups w" "pw_groups (fault w) = pw_groups w"
  "pw_groups (send_loot_roll a b n k rl w) = pw_groups w" "pw_groups (send_loot_roll_won a b n k rl w) = pw_groups w"
  "pw_groups (send_loot_all_passed rl w) = pw_groups w"
  by (simp_all add: pw_emit_def fault_def send_loot_roll_def send_loot_roll_won_def send_loot_all_passed_def to_voters_def)

lemma groups_fold: "(\<And>x w. pw_groups (f x w) = pw_groups w) \<Longrightarrow> pw_groups (fold f xs w) = pw_groups w"
  by (induction xs arbitrary: w) simp_all

lemma groups_item_taken [simp]: "pw_groups (item_taken l s w) = pw_groups w"
  by (simp add: item_taken_def Let_def split: option.split)

lemma groups_won [simp]: "pw_groups (store_won env l rl g w) = pw_groups w" "pw_groups (disenchant_won env l rl g w) = pw_groups w"
  by (simp_all add: store_won_def disenchant_won_def unblock_item_def Let_def split: option.split)

lemma groups_send_draws [simp]: "pw_groups (send_draws env rl P w) = pw_groups w"
  by (simp add: send_draws_def groups_fold)

lemma groups_count [simp]: "pw_groups (count_need env l rl w) = pw_groups w" "pw_groups (count_greed env l rl w) = pw_groups w"
  by (simp_all add: count_need_def count_greed_def Let_def split_beta)

lemma groups_finish_roll [simp]: "pw_groups (finish_roll env rl w) = pw_groups w"
  by (simp add: finish_roll_def unblock_item_def split: option.split)


section \<open>Votes and the end of a roll keep the invariant\<close>

lemma distinct_cut: "distinct (map f xs) \<Longrightarrow> distinct (map f (take i xs @ drop (Suc i) xs))"
proof (cases "i < length xs")
  case True
  assume "distinct (map f xs)"
  then have "distinct (map f (take i xs @ xs ! i # drop (Suc i) xs))" using id_take_nth_drop [OF True] by simp
  then show ?thesis by simp
qed simp

lemma set_cut: "set (take i xs @ drop (Suc i) xs) \<subseteq> set xs"
  by (auto dest: in_set_takeD in_set_dropD)

lemma rolls_shape [simp]: "shape_ok (P\<lparr>v_rolls := x\<rparr>) = shape_ok P" "size_ok (P\<lparr>v_rolls := x\<rparr>) = size_ok P"
  by (simp_all add: shape_ok_def size_ok_def raid_view_def)

lemma parties_erase_roll:
  assumes "parties_ok (view w)" "pw_groups w r = Some p"
  shows "parties_ok (view (erase_roll r i w))"
proof -
  let ?F = "\<lambda>P. P\<lparr>v_rolls := take i (v_rolls P) @ drop (Suc i) (v_rolls P)\<rparr>"
  note d = parties_xD [OF assms(1)]
  have v: "view (erase_roll r i w) = a_grp r ?F (view w)"
    unfolding erase_roll_def by (rule view_upd_party) (use assms(2) in \<open>simp_all add: party_view_def take_map drop_map\<close>)
  show ?thesis unfolding v
  proof (rule parties_x_grp [OF assms(1)])
    fix P assume P: "G (view w) r = Some P"
    have ro: "rolls_ok (view w) P" by (rule basic_okD(7) [OF d(1) P])
    then have "distinct (map fst (v_rolls P))" unfolding rolls_ok_def by blast
    then have dc: "distinct (map fst (take i (v_rolls P) @ drop (Suc i) (v_rolls P)))" by (rule distinct_cut)
    have "rolls_ok (view w) (?F P)" unfolding rolls_ok_def
    proof (rule conjI)
      show "distinct (map fst (v_rolls (?F P)))" using dc by simp
      have "\<forall>x \<in> set (v_rolls P). case x of (g, lo, s) \<Rightarrow> item_guid (v_item (view w)) g
          \<and> (\<forall>l a b. lo = Some l \<and> v_loots (view w) l = Some (a, b) \<longrightarrow> unat s < a + b)" using ro unfolding rolls_ok_def by blast
      moreover have "set (v_rolls (?F P)) \<subseteq> set (v_rolls P)" using set_cut [of i "v_rolls P"] by simp
      ultimately show "\<forall>x \<in> set (v_rolls (?F P)). case x of (g, lo, s) \<Rightarrow> item_guid (v_item (view w)) g
          \<and> (\<forall>l a b. lo = Some l \<and> v_loots (view w) l = Some (a, b) \<longrightarrow> unat s < a + b)" by blast
    qed
    moreover have "shape_ok P" "size_ok P" by (rule basic_okD(6) [OF d(1) P], rule d(4) [OF P]) simp
    ultimately show "v_refs (?F P) = v_refs P \<and> v_inv (?F P) = v_inv P \<and> v_bg (?F P) = v_bg P \<and> shape_ok (?F P) \<and> rolls_ok (view w) (?F P)
       \<and> v_mem (?F P) = v_mem P \<and> v_db (?F P) = v_db P \<and> (size_ok (?F P) \<or> r \<in> {})"
      by simp
  qed
qed

lemma roll_slot_in:
  assumes "parties_ok (view w)" "pw_groups w r = Some p" "rl \<in> set (pa_rolls p)" "roll_loot w rl = Some l"
  shows "slot_in w l (rl_slot rl)"
proof -
  have P: "G (view w) r = Some (party_view p)" using assms(2) by simp
  have l: "rl_loot rl = Some l" "pw_loots w l \<noteq> None" using assms(4) by (auto simp: roll_loot_def split: option.splits if_splits)
  obtain a b where ab: "v_loots (view w) l = Some (a, b)" using l(2) by (auto simp: loot_view_def)
  have "roll_view rl \<in> set (v_rolls (party_view p))" using assms(3) by simp
  then have "(rl_guid rl, Some l, rl_slot rl) \<in> set (v_rolls (party_view p))" unfolding roll_view_def l(1) .
  then have "unat (rl_slot rl) < a + b"
    using basic_okD(7) [OF parties_xD(1) [OF assms(1)] P] ab unfolding rolls_ok_def by (fastforce simp del: view_sel pview_sel)
  then show ?thesis using ab unfolding slot_in_def by blast
qed

definition templates :: "party_env \<Rightarrow> party \<Rightarrow> bool" where
  "templates env p \<longleftrightarrow> (\<forall>rl \<in> set (pa_rolls p). pe_proto env (rl_item rl) \<noteq> None)"

lemma parties_count_the_roll:
  assumes "parties_ok (view w)" "pw_groups w r = Some p" "i < length (pa_rolls p)" "templates env p"
  shows "parties_ok (view (count_the_roll env r i w))"
    "pw_groups (count_the_roll env r i w) r = Some (p\<lparr>pa_rolls := take i (pa_rolls p) @ drop (Suc i) (pa_rolls p)\<rparr>)"
proof -
  let ?rl = "pa_rolls p ! i" and ?w1 = "finish_roll env (pa_rolls p ! i) w"
  have rl: "?rl \<in> set (pa_rolls p)" using assms(3) by simp
  have v: "view ?w1 = view w"
    by (rule view_finish_roll) (use roll_slot_in [OF assms(1,2) rl] assms(4) rl in \<open>auto simp: templates_def\<close>)
  have p1: "pw_groups ?w1 r = Some p" using assms(2) by simp
  have e: "count_the_roll env r i w = erase_roll r i ?w1" using assms(2,3) by (simp add: count_the_roll_def)
  show "parties_ok (view (count_the_roll env r i w))" unfolding e by (rule parties_erase_roll [OF _ p1]) (use v assms(1) in \<open>simp del: view_sel\<close>)
  show "pw_groups (count_the_roll env r i w) r = Some (p\<lparr>pa_rolls := take i (pa_rolls p) @ drop (Suc i) (pa_rolls p)\<rparr>)"
    unfolding e using p1 by (simp add: erase_roll_def upd_party_def)
qed

lemma view_send_vote [simp]: "view (send_vote g c rl w) = view w"
  by (simp add: send_vote_def)

lemma vote_sel [simp]: "roll_view (vote g c rl) = roll_view rl" "rl_item (vote g c rl) = rl_item rl"
  by (simp_all add: vote_def roll_view_def)

lemma groups_send_vote [simp]: "pw_groups (send_vote g c rl w) = pw_groups w"
  by (simp add: send_vote_def)

lemma parties_vote:
  assumes "parties_ok (view w)" "pw_groups w r = Some p" "templates env p"
  shows "parties_ok (view (count_roll_vote env r g item c w))"
proof (cases "get_roll w p item")
  case None
  then show ?thesis using assms(1,2) by (simp add: count_roll_vote_def del: view_sel)
next
  case (Some i)
  let ?rl = "pa_rolls p ! i"
  have i: "i < length (pa_rolls p)" using roll_index_some [OF Some [unfolded get_roll_def]] by blast
  let ?f = "\<lambda>p. p\<lparr>pa_rolls := (pa_rolls p)[i := vote g c ?rl]\<rparr>"
  let ?w1 = "upd_party r ?f (send_vote g c ?rl w)"
  have p1: "pw_groups ?w1 r = Some (?f p)" using assms(2) by (simp add: upd_party_def)
  have "party_view (?f p) = party_view p"
    using i by (simp add: party_view_def map_update list_update_same_conv)
  then have "view ?w1 = view (send_vote g c ?rl w)" by (intro view_upd_party_light) (use assms(2) in simp_all)
  then have v: "view ?w1 = view w" by (simp del: view_sel)
  have "templates env (?f p)" using assms(3) i by (auto simp: templates_def dest!: set_update_subset_insert [THEN subsetD])
  then have "parties_ok (view (count_the_roll env r i ?w1))"
    using parties_count_the_roll(1) [of ?w1 r "?f p" i env] assms(1) p1 v i by (simp del: view_sel)
  then show ?thesis using assms(1,2) Some v by (simp add: count_roll_vote_def Let_def del: view_sel)
qed

lemma parties_end_roll:
  assumes "parties_ok (view w)" "pw_groups w r = Some p" "templates env p"
  shows "parties_ok (view (end_roll env r l w))"
proof -
  have step: "parties_ok (view (end_one_roll env r l w)) \<and> (\<exists>p'. pw_groups (end_one_roll env r l w) r = Some p' \<and> templates env p')"
    if w: "parties_ok (view w)" "pw_groups w r = Some p" "templates env p" for w p
  proof (cases "roll_index (\<lambda>rl. roll_loot w rl = Some l) (pa_rolls p)")
    case None
    then show ?thesis using w by (simp add: end_one_roll_def del: view_sel)
  next
    case (Some i)
    have i: "i < length (pa_rolls p)" using roll_index_some [OF Some] by blast
    note c = parties_count_the_roll [OF w(1,2) i w(3)]
    have "templates env (p\<lparr>pa_rolls := take i (pa_rolls p) @ drop (Suc i) (pa_rolls p)\<rparr>)"
      using w(3) set_cut [of i "pa_rolls p"] unfolding templates_def by fastforce
    then show ?thesis using Some w(2) c by (simp add: end_one_roll_def del: view_sel)
  qed
  have "parties_ok (view ((end_one_roll env r l ^^ n) w)) \<and> (\<exists>p'. pw_groups ((end_one_roll env r l ^^ n) w) r = Some p' \<and> templates env p')" for n
  proof (induction n)
    case (Suc n)
    then show ?case using step [of "(end_one_roll env r l ^^ n) w"] by auto
  qed (use assms in auto)
  then show ?thesis using assms(2) by (simp add: end_roll_def del: view_sel)
qed

lemma parties_loot_roll:
  assumes "parties_ok (view w)" "\<And>r p. player_group w g = Some r \<Longrightarrow> pw_groups w r = Some p \<Longrightarrow> templates env p"
  shows "parties_ok (view (handle_loot_roll env g item c w))"
proof (cases "player_group w g")
  case (Some r)
  obtain p where p: "pw_groups w r = Some p" by (rule group_of_link [OF assms(1) Some])
  show ?thesis using Some parties_vote [OF assms(1) p assms(2) [OF Some p]] by (simp add: handle_loot_roll_def Let_def del: view_sel)
qed (use assms(1) in \<open>simp add: handle_loot_roll_def\<close>)


section \<open>Starting rolls keeps the invariant\<close>

text \<open>While the items of a loot are handled: \<open>ids\<close>, the templates of its items, \<open>b\<close>, the number of quest items, \<open>n\<close>, how many GUIDs may still be made.\<close>

definition looting :: "nat \<Rightarrow> nat \<Rightarrow> u32 list \<Rightarrow> nat \<Rightarrow> nat \<Rightarrow> party_world \<Rightarrow> bool" where
  "looting r l ids b n w \<longleftrightarrow> parties_ok (view w) \<and> has r w
     \<and> (\<exists>lo. pw_loots w l = Some lo \<and> map li_item (lo_items lo) = ids \<and> length (lo_quest lo) = b)
     \<and> unat (next_guid (pw_next_item w)) + n < 0xFFFFFFFE"

lemma looting_fold:
  assumes "\<And>i w n. i \<in> set xs \<Longrightarrow> looting r l ids b (Suc n) w \<Longrightarrow> looting r l ids b n (f i w)" "looting r l ids b (length xs + n) w"
  shows "looting r l ids b n (fold f xs w)"
  using assms by (induction xs arbitrary: w) simp_all

lemma looting_less: "looting r l ids b (Suc n) w \<Longrightarrow> looting r l ids b n w"
  by (simp add: looting_def)

lemma looting_view:
  assumes "looting r l ids b n w" "view u = view w"
    "\<And>lo. pw_loots w l = Some lo \<Longrightarrow> \<exists>lo'. pw_loots u l = Some lo' \<and> map li_item (lo_items lo') = map li_item (lo_items lo) \<and> length (lo_quest lo') = length (lo_quest lo)"
  shows "looting r l ids b n u"
proof -
  have "pw_next_item u = pw_next_item w" using arg_cong [OF assms(2), of v_item] by simp
  then show ?thesis using assms unfolding looting_def by (simp del: view_sel) (metis)
qed

lemma parties_item:
  assumes "parties_ok V" "unat (next_guid (v_item V)) + 1 < 0xFFFFFFFF" "next_guid it = next_guid (v_item V) + 1"
  shows "parties_ok (V\<lparr>v_item := it\<rparr>)"
proof -
  note d = parties_xD [OF assms(1)]
  have lt: "c < next_guid it" if "c < next_guid (v_item V)" for c
    unfolding assms(3) using that assms(2) by (simp add: word_less_nat_alt unat_word_ariths)
  then have "item_guid it g" if "item_guid (v_item V) g" for g using that unfolding item_guid_def by blast
  then have r: "rolls_ok (V\<lparr>v_item := it\<rparr>) P" if "rolls_ok V P" for P using that unfolding rolls_ok_def by fastforce
  have lk: "a_link_of k h (V\<lparr>v_item := it\<rparr>) = a_link_of k h V" for k h by (simp add: a_link_of_def)
  have b: "basic_ok (V\<lparr>v_item := it\<rparr>)"
    using d(1) r unfolding basic_ok_def refs_ok_def invites_ok_def bgs_ok_def lk by simp
  have "mem_of (V\<lparr>v_item := it\<rparr>) = mem_of V" "bg_of (V\<lparr>v_item := it\<rparr>) = bg_of V" by (simp_all add: mem_of_def bg_of_def fun_eq_iff)
  moreover have "ids_ok {} (V\<lparr>v_item := it\<rparr>)" using d(3) by (simp add: ids_ok_def)
  ultimately show ?thesis unfolding parties_x_def using b d(2,4) by simp
qed

lemma new_item:
  assumes "looting r l ids b (Suc n) w" "generate_item_guid w = (g, w1)"
  shows "looting r l ids b n w1" "pw_groups w1 = pw_groups w" "pw_loots w1 = pw_loots w" "item_guid (pw_next_item w1) g"
    "\<And>q P. G (view w1) q = Some P \<Longrightarrow> g \<notin> fst ` set (v_rolls P)"
proof -
  let ?it = "pw_next_item w"
  have g: "g = guid_global HItem (next_guid ?it)" "w1 = w\<lparr>pw_next_item := snd (generate HItem ?it)\<rparr>"
    using assms(2) by (auto simp: generate_item_guid_def generate_def Let_def split: if_splits)
  have nx: "next_guid (snd (generate HItem ?it)) = next_guid ?it + 1" by (simp add: generate_def Let_def)
  have v: "view w1 = (view w)\<lparr>v_item := snd (generate HItem ?it)\<rparr>" unfolding g(2) by (simp add: view_def find_connected_def)
  have room: "unat (next_guid ?it) + Suc n < 0xFFFFFFFE" using assms(1) by (simp add: looting_def)
  have un: "unat (next_guid ?it + 1) = Suc (unat (next_guid ?it))" using room by (simp add: unat_word_ariths)
  have "parties_ok (view w)" using assms(1) by (simp add: looting_def)
  then have ok: "parties_ok (view w1)" unfolding v by (rule parties_item) (use room nx in simp_all)
  show "pw_groups w1 = pw_groups w" "pw_loots w1 = pw_loots w" unfolding g(2) by simp_all
  then show "looting r l ids b n w1" using assms(1) ok room un nx unfolding looting_def by (simp add: g(2))
  have "next_guid ?it < next_guid ?it + 1" using un by (simp add: word_less_nat_alt)
  then show "item_guid (pw_next_item w1) g" unfolding item_guid_def g using nx by auto
  fix q P assume "G (view w1) q = Some P"
  then have P: "G (view w) q = Some P" unfolding v by simp
  have ok0: "parties_ok (view w)" using assms(1) by (simp add: looting_def)
  have ro: "rolls_ok (view w) P" by (rule basic_okD(7) [OF parties_xD(1) [OF ok0] P])
  show "g \<notin> fst ` set (v_rolls P)"
  proof
    assume "g \<in> fst ` set (v_rolls P)"
    then obtain lo s where "(g, lo, s) \<in> set (v_rolls P)" by auto
    then have "item_guid (v_item (view w)) g" using ro unfolding rolls_ok_def by blast
    then obtain c where c: "g = guid_global HItem c" "c < next_guid ?it" unfolding item_guid_def by auto
    have "c = next_guid ?it" using c(1) g(1) item_counter by metis
    then show False using c(2) by simp
  qed
qed

lemma looting_push:
  assumes "looting r l ids b n w" "item_guid (pw_next_item w) (rl_guid rl)" "\<And>q P. G (view w) q = Some P \<Longrightarrow> rl_guid rl \<notin> fst ` set (v_rolls P)"
    "rl_loot rl = Some l" "unat (rl_slot rl) < length ids + b"
  shows "looting r l ids b n (push_roll r obj rl w)"
proof -
  let ?F = "\<lambda>P. P\<lparr>v_rolls := v_rolls P @ [roll_view rl]\<rparr>"
  let ?w1 = "upd_party r (\<lambda>p. p\<lparr>pa_rolls := pa_rolls p @ [rl]\<rparr>) w"
  have ok: "parties_ok (view w)" and h: "has r w" using assms(1) by (simp_all add: looting_def)
  obtain lo where lo: "pw_loots w l = Some lo" "map li_item (lo_items lo) = ids" "length (lo_quest lo) = b" using assms(1) by (auto simp: looting_def)
  have ll: "length (lo_items lo) = length ids" using lo(2) by auto
  have v: "view ?w1 = a_grp r ?F (view w)" by (rule view_upd_party [OF h]) (simp add: party_view_def)
  have x: "parties_ok (view ?w1)" unfolding v
  proof (rule parties_x_grp [OF ok])
    fix P assume P: "G (view w) r = Some P"
    note d = parties_xD [OF ok]
    have "rolls_ok (view w) P" by (rule basic_okD(7) [OF d(1) P])
    moreover have "v_loots (view w) l = Some (length ids, b)" using lo ll by (simp add: loot_view_def)
    ultimately have "rolls_ok (view w) (?F P)"
      using assms(2,3) P assms(4,5) unfolding rolls_ok_def by (auto simp: roll_view_def simp del: view_sel) (simp_all)
    moreover have "shape_ok P" "size_ok P" by (rule basic_okD(6) [OF d(1) P], rule d(4) [OF P]) simp
    ultimately show "v_refs (?F P) = v_refs P \<and> v_inv (?F P) = v_inv P \<and> v_bg (?F P) = v_bg P \<and> shape_ok (?F P) \<and> rolls_ok (view w) (?F P)
       \<and> v_mem (?F P) = v_mem P \<and> v_db (?F P) = v_db P \<and> (size_ok (?F P) \<or> r \<in> {})" by simp
  qed
  have h1: "has r ?w1" unfolding v using h by (simp del: view_sel)
  then obtain p1 where p1: "pw_groups ?w1 r = Some p1" by auto
  have "pw_loots ?w1 = pw_loots w" "pw_next_item ?w1 = pw_next_item w" by (simp_all add: upd_party_def fault_def split: option.split)
  then have "looting r l ids b n ?w1" using assms(1) x h1 unfolding looting_def by (simp del: view_sel)
  then show ?thesis
    by (rule looting_view) (use p1 in \<open>simp_all add: push_roll_def Let_def del: view_sel, simp add: pw_emit_def\<close>)
qed

lemma roll_voters_sel [simp]:
  "rl_guid (roll_voters env obj li b p w rl) = rl_guid rl" "rl_item (roll_voters env obj li b p w rl) = rl_item rl"
proof -
  have v: "rl_guid (roll_voter env obj li b w x rl) = rl_guid rl \<and> rl_item (roll_voter env obj li b w x rl) = rl_item rl" for x rl
    by (auto simp: roll_voter_def Let_def split: option.split)
  have "rl_guid (fold (roll_voter env obj li b w) xs rl) = rl_guid rl \<and> rl_item (fold (roll_voter env obj li b w) xs rl) = rl_item rl" for xs
    by (induction xs arbitrary: rl) (simp_all add: v)
  then show "rl_guid (roll_voters env obj li b p w rl) = rl_guid rl" "rl_item (roll_voters env obj li b p w rl) = rl_item rl"
    by (simp_all add: roll_voters_def)
qed

lemma looting_upd_item:
  assumes "looting r l ids b n w" "i < length ids" "\<And>li. li_item (f li) = li_item li"
  shows "looting r l ids b n (upd_item l i f w)" "view (upd_item l i f w) = view w"
proof -
  obtain lo where lo: "pw_loots w l = Some lo" "map li_item (lo_items lo) = ids" using assms(1) by (auto simp: looting_def)
  have i: "i < length (lo_items lo)" using lo(2) assms(2) by auto
  show v: "view (upd_item l i f w) = view w" by (rule view_upd_item [OF lo(1) i])
  have "ids[i := li_item (lo_items lo ! i)] = ids" using lo(2) i by (metis list_update_id nth_map)
  then show "looting r l ids b n (upd_item l i f w)"
    by (intro looting_view [OF assms(1) v]) (use lo i assms(3) in \<open>simp add: upd_item_def map_update\<close>)
qed

lemma looting_upd_quest:
  assumes "looting r l ids b n w" "i < b"
  shows "looting r l ids b n (upd_quest_item l i f w)" "view (upd_quest_item l i f w) = view w"
proof -
  obtain lo where lo: "pw_loots w l = Some lo" "length (lo_quest lo) = b" using assms(1) by (auto simp: looting_def)
  show v: "view (upd_quest_item l i f w) = view w" by (rule view_upd_quest_item [OF lo(1)]) (use lo assms(2) in simp)
  show "looting r l ids b n (upd_quest_item l i f w)"
    by (rule looting_view [OF assms(1) v]) (use lo assms(2) in \<open>simp add: upd_quest_item_def\<close>)
qed


lemma loots_send [simp]: "pw_loots (pw_emit os w) = pw_loots w" "pw_loots (send_loot_roll a b n k rl w) = pw_loots w"
  "pw_loots (send_loot_start_roll t m rl w) = pw_loots w" "pw_loots (send_loot_start_roll_to_player t m g c rl w) = pw_loots w"
  by (simp_all add: pw_emit_def send_loot_roll_def send_loot_start_roll_def send_loot_start_roll_to_player_def to_voters_def)

lemma loots_fold: "(\<And>x w. pw_loots (f x w) = pw_loots w) \<Longrightarrow> pw_loots (fold f xs w) = pw_loots w"
  by (induction xs arbitrary: w) simp_all

lemma start_packets [simp]:
  "view (broadcast_passes g rl w) = view w" "pw_loots (broadcast_passes g rl w) = pw_loots w"
  "view (passes_and_starts env obj g rl w) = view w" "pw_loots (passes_and_starts env obj g rl w) = pw_loots w"
proof -
  show "view (broadcast_passes g rl w) = view w" unfolding broadcast_passes_def
    by (rule view_fold [where P = "\<lambda>_. True"]) simp_all
  show "view (passes_and_starts env obj g rl w) = view w" unfolding passes_and_starts_def
    by (rule view_fold [where P = "\<lambda>_. True"]) simp_all
qed (simp_all add: broadcast_passes_def passes_and_starts_def loots_fold)

lemma looting_send: "looting r l ids b n w \<Longrightarrow> view u = view w \<Longrightarrow> pw_loots u = pw_loots w \<Longrightarrow> looting r l ids b n u"
  by (rule looting_view) auto

text \<open>One item: a new roll is started on the item \<open>u\<close> in which it was blocked.\<close>

lemma looting_roll:
  assumes "looting r l ids b (Suc n) w" "generate_item_guid w = (g, w1)" "rl_guid rl = g" "rl_loot rl = Some l" "unat (rl_slot rl) < length ids + b"
    "\<And>m. looting r l ids b m w1 \<Longrightarrow> looting r l ids b m u \<and> view u = view w1"
  shows "looting r l ids b n (push_roll r obj rl u)"
proof -
  note n = new_item [OF assms(1,2)]
  have u: "looting r l ids b n u" "view u = view w1" using assms(6) [OF n(1)] by blast+
  have it: "pw_next_item u = pw_next_item w1" using arg_cong [OF u(2), of v_item] by simp
  show ?thesis
    by (rule looting_push [OF u(1) _ _ assms(4,5)]) (use n(4,5) it u(2) assms(3) in \<open>simp_all del: view_sel\<close>)
qed

lemma unat_slot: "i < 256 \<Longrightarrow> unat (of_nat i :: u8) = i"
  by (simp add: unat_of_nat take_bit_nat_eq_self)

lemma block_item_sel [simp]: "li_item (block_item li) = li_item li" by (simp add: block_item_def)

lemma looting_group_item:
  assumes "looting r l ids b (Suc n) w" "i < length ids" "length ids + b \<le> 256"
  shows "looting r l ids b n (group_loot_item env r l obj i w)"
proof -
  obtain p where p: "pw_groups w r = Some p" using assms(1) by (auto simp: looting_def)
  obtain lo where lo: "pw_loots w l = Some lo" "map li_item (lo_items lo) = ids" using assms(1) by (auto simp: looting_def)
  let ?li = "lo_items lo ! i"
  obtain g w1 where g: "generate_item_guid w = (g, w1)" by (cases "generate_item_guid w")
  have slot: "unat (of_nat i :: u8) = i" by (rule unat_slot) (use assms(2,3) in simp)
  have less: "looting r l ids b n w" by (rule looting_less [OF assms(1)])
  show ?thesis
  proof (cases "li_ffa ?li \<or> pe_proto env (li_item ?li) = None")
    case True
    then show ?thesis using p lo(1) less by (auto simp: group_loot_item_def Let_def)
  next
    case False
    then obtain pr where pr: "pe_proto env (li_item ?li) = Some pr" by blast
    let ?rl1 = "roll_voters env obj ?li True p w1 (new_roll g ?li)"
    let ?rl2 = "?rl1\<lparr>rl_loot := Some l, rl_slot := of_nat i, rl_mask := disenchant_mask p pr (rl_mask ?rl1)\<rparr>"
    let ?u = "send_loot_start_roll ROLL_TIME (pe_map_of env obj) ?rl2 ((if rl_pass ?rl2 \<noteq> 0 then broadcast_passes g ?rl2 else id) (upd_item l i block_item w1))"
    have "looting r l ids b n (push_roll r obj ?rl2 ?u)"
    proof (rule looting_roll [OF assms(1) g])
      fix m assume w1: "looting r l ids b m w1"
      note u = looting_upd_item [OF w1 assms(2), of block_item]
      have v: "view ?u = view w1" using u(2) by simp
      have "looting r l ids b m ?u" by (rule looting_send [OF u(1)]) simp_all
      then show "looting r l ids b m ?u \<and> view ?u = view w1" using v by blast
    qed (use assms(2) slot in \<open>simp_all add: new_roll_def\<close>)
    moreover have "looting r l ids b n w1" by (rule new_item(1) [OF assms(1) g])
    moreover have "looting r l ids b n (upd_item l i (\<lambda>li. li\<lparr>li_under := True\<rparr>) w)" by (rule looting_upd_item(1) [OF less assms(2)]) simp
    ultimately show ?thesis using p lo(1) False pr g slot by (simp add: group_loot_item_def Let_def)
  qed
qed

lemma looting_quest_slot:
  assumes "i < b" "k + b \<le> 256"
  shows "unat (of_nat (k + i) :: u8) = k + i"
  by (rule unat_slot) (use assms in simp)

lemma looting_group_quest:
  assumes "looting r l ids b (Suc n) w" "i < b" "length ids + b \<le> 256"
  shows "looting r l ids b n (group_loot_quest env r l obj i w)"
proof -
  obtain p where p: "pw_groups w r = Some p" using assms(1) by (auto simp: looting_def)
  obtain lo where lo: "pw_loots w l = Some lo" "map li_item (lo_items lo) = ids" using assms(1) by (auto simp: looting_def)
  have ll: "length (lo_items lo) = length ids" using lo(2) by auto
  let ?li = "lo_quest lo ! i"
  obtain g w1 where g: "generate_item_guid w = (g, w1)" by (cases "generate_item_guid w")
  have slot: "unat (of_nat (length ids + i) :: u8) = length ids + i" by (rule looting_quest_slot [OF assms(2,3)])
  have less: "looting r l ids b n w" by (rule looting_less [OF assms(1)])
  show ?thesis
  proof (cases "\<not> li_follow ?li \<or> pe_proto env (li_item ?li) = None")
    case True
    then show ?thesis using p lo(1) less by (auto simp: group_loot_quest_def Let_def)
  next
    case False
    let ?rl1 = "roll_voters env obj ?li False p w1 (new_roll g ?li)"
    let ?rl2 = "?rl1\<lparr>rl_loot := Some l, rl_slot := of_nat (length ids + i)\<rparr>"
    let ?u = "send_loot_start_roll ROLL_TIME (pe_map_of env obj) ?rl2 (upd_quest_item l i block_item w1)"
    have "looting r l ids b n (push_roll r obj ?rl2 ?u)"
    proof (rule looting_roll [OF assms(1) g])
      fix m assume w1: "looting r l ids b m w1"
      note u = looting_upd_quest [OF w1 assms(2), of block_item]
      have v: "view ?u = view w1" using u(2) by simp
      have "looting r l ids b m ?u" by (rule looting_send [OF u(1)]) simp_all
      then show "looting r l ids b m ?u \<and> view ?u = view w1" using v by blast
    qed (use assms(2) slot in \<open>simp_all add: new_roll_def\<close>)
    moreover have "looting r l ids b n w1" by (rule new_item(1) [OF assms(1) g])
    ultimately show ?thesis using p lo(1) False g slot ll by (auto simp: group_loot_quest_def Let_def)
  qed
qed

lemma looting_need_item:
  assumes "looting r l ids b (Suc n) w" "i < length ids" "length ids + b \<le> 256" "\<And>x. x \<in> set ids \<Longrightarrow> pe_proto env x \<noteq> None"
  shows "looting r l ids b n (need_item env r l obj i w)"
proof -
  obtain p where p: "pw_groups w r = Some p" using assms(1) by (auto simp: looting_def)
  obtain lo where lo: "pw_loots w l = Some lo" "map li_item (lo_items lo) = ids" using assms(1) by (auto simp: looting_def)
  let ?li = "lo_items lo ! i"
  have "li_item ?li \<in> set ids" using lo(2) assms(2) by auto
  then obtain pr where pr: "pe_proto env (li_item ?li) = Some pr" using assms(4) by blast
  obtain g w1 where g: "generate_item_guid w = (g, w1)" by (cases "generate_item_guid w")
  have slot: "unat (of_nat i :: u8) = i" by (rule unat_slot) (use assms(2,3) in simp)
  have less: "looting r l ids b n w" by (rule looting_less [OF assms(1)])
  let ?rl1 = "roll_voters env obj ?li True p w1 (new_roll g ?li)"
  let ?votes = "disenchant_mask p pr (rl_mask ?rl1)"
  let ?rl2 = "?rl1\<lparr>rl_loot := Some l, rl_slot := of_nat i, rl_mask := (if ip_no_need pr then ?votes AND NOT ROLL_FLAG_TYPE_NEED else ?votes)\<rparr>"
  let ?u = "passes_and_starts env obj g ?rl2 (upd_item l i block_item w1)"
  have "looting r l ids b n (push_roll r obj ?rl2 ?u)"
  proof (rule looting_roll [OF assms(1) g])
    fix m assume w1: "looting r l ids b m w1"
    note u = looting_upd_item [OF w1 assms(2), of block_item]
    have v: "view ?u = view w1" using u(2) by simp
    have "looting r l ids b m ?u" by (rule looting_send [OF u(1)]) simp_all
    then show "looting r l ids b m ?u \<and> view ?u = view w1" using v by blast
  qed (use assms(2) slot in \<open>simp_all add: new_roll_def\<close>)
  moreover have "looting r l ids b n w1" by (rule new_item(1) [OF assms(1) g])
  moreover have "looting r l ids b n (upd_item l i (\<lambda>li. li\<lparr>li_under := True\<rparr>) w)" by (rule looting_upd_item(1) [OF less assms(2)]) simp
  ultimately show ?thesis using p lo(1) pr g slot less by (simp add: need_item_def Let_def)
qed

lemma looting_need_quest:
  assumes "looting r l ids b (Suc n) w" "i < b" "length ids + b \<le> 256"
  shows "looting r l ids b n (need_quest env r l obj i w)"
proof -
  obtain p where p: "pw_groups w r = Some p" using assms(1) by (auto simp: looting_def)
  obtain lo where lo: "pw_loots w l = Some lo" "map li_item (lo_items lo) = ids" using assms(1) by (auto simp: looting_def)
  have ll: "length (lo_items lo) = length ids" using lo(2) by auto
  let ?li = "lo_quest lo ! i"
  obtain g w1 where g: "generate_item_guid w = (g, w1)" by (cases "generate_item_guid w")
  have slot: "unat (of_nat (length ids + i) :: u8) = length ids + i" by (rule looting_quest_slot [OF assms(2,3)])
  let ?rl1 = "roll_voters env obj ?li False p w1 (new_roll g ?li)"
  let ?rl2 = "?rl1\<lparr>rl_loot := Some l, rl_slot := of_nat (length ids + i)\<rparr>"
  let ?u = "passes_and_starts env obj g ?rl2 (upd_quest_item l i block_item w1)"
  have "looting r l ids b n (push_roll r obj ?rl2 ?u)"
  proof (rule looting_roll [OF assms(1) g])
    fix m assume w1: "looting r l ids b m w1"
    note u = looting_upd_quest [OF w1 assms(2), of block_item]
    have v: "view ?u = view w1" using u(2) by simp
    have "looting r l ids b m ?u" by (rule looting_send [OF u(1)]) simp_all
    then show "looting r l ids b m ?u \<and> view ?u = view w1" using v by blast
  qed (use assms(2) slot in \<open>simp_all add: new_roll_def\<close>)
  moreover have "looting r l ids b n w1" by (rule new_item(1) [OF assms(1) g])
  ultimately show ?thesis using p lo(1) g slot ll looting_less [OF assms(1)] by (auto simp: need_quest_def Let_def)
qed

text \<open>What the three methods need of the loot.\<close>

definition loot_fits :: "loot \<Rightarrow> party_world \<Rightarrow> bool" where
  "loot_fits lo w \<longleftrightarrow> length (lo_items lo) + length (lo_quest lo) \<le> 256
     \<and> unat (next_guid (pw_next_item w)) + (length (lo_items lo) + length (lo_quest lo)) < 0xFFFFFFFE"

lemma looting_start:
  assumes "parties_ok (view w)" "has r w" "pw_loots w l = Some lo" "loot_fits lo w"
  shows "looting r l (map li_item (lo_items lo)) (length (lo_quest lo)) (length (lo_items lo) + length (lo_quest lo)) w"
  using assms by (simp add: looting_def loot_fits_def)

lemma parties_group_loot:
  assumes "parties_ok (view w)" "has r w" "pw_loots w l = Some lo" "loot_fits lo w"
  shows "parties_ok (view (group_loot env r l obj w))"
proof -
  let ?ids = "map li_item (lo_items lo)" and ?b = "length (lo_quest lo)"
  have le: "length ?ids + ?b \<le> 256" using assms(4) by (simp add: loot_fits_def)
  have "looting r l ?ids ?b (length [0..<length (lo_items lo)] + ?b) w" using looting_start [OF assms] by simp
  then have 1: "looting r l ?ids ?b ?b (fold (group_loot_item env r l obj) [0..<length (lo_items lo)] w)"
    by (intro looting_fold) (use le in \<open>auto intro!: looting_group_item\<close>)
  have "looting r l ?ids ?b 0 (fold (group_loot_quest env r l obj) [0..<?b] (fold (group_loot_item env r l obj) [0..<length (lo_items lo)] w))"
    by (rule looting_fold) (use le 1 in \<open>auto intro!: looting_group_quest\<close>)
  then show ?thesis using assms(3) by (simp add: group_loot_def looting_def)
qed

lemma parties_need_before_greed:
  assumes "parties_ok (view w)" "has r w" "pw_loots w l = Some lo" "loot_fits lo w"
    "\<And>li. li \<in> set (lo_items lo) \<Longrightarrow> pe_proto env (li_item li) \<noteq> None"
  shows "parties_ok (view (need_before_greed env r l obj w))"
proof -
  let ?ids = "map li_item (lo_items lo)" and ?b = "length (lo_quest lo)"
  have le: "length ?ids + ?b \<le> 256" using assms(4) by (simp add: loot_fits_def)
  have "looting r l ?ids ?b (length [0..<length (lo_items lo)] + ?b) w" using looting_start [OF assms(1-4)] by simp
  then have 1: "looting r l ?ids ?b ?b (fold (need_item env r l obj) [0..<length (lo_items lo)] w)"
    by (intro looting_fold) (use le assms(5) in \<open>auto intro!: looting_need_item\<close>)
  have "looting r l ?ids ?b 0 (fold (need_quest env r l obj) [0..<?b] (fold (need_item env r l obj) [0..<length (lo_items lo)] w))"
    by (rule looting_fold) (use le 1 in \<open>auto intro!: looting_need_quest\<close>)
  then show ?thesis using assms(3) by (simp add: need_before_greed_def looting_def)
qed

lemma view_master_loot:
  assumes "has r w" "pw_loots w l = Some lo"
  shows "view (master_loot env r l obj w) = view w"
proof -
  obtain p where p: "pw_groups w r = Some p" using assms(1) by auto
  have "view (w\<lparr>pw_loots := (pw_loots w)(l \<mapsto> lo\<lparr>lo_items := map f (lo_items lo), lo_quest := map h (lo_quest lo)\<rparr>)\<rparr>) = view w" for f h
    using assms(2) by (auto simp: view_def loot_view_def find_connected_def fun_eq_iff)
  then show ?thesis using p assms(2) by (simp add: master_loot_def Let_def del: view_sel)
qed

text \<open>Loot appears and goes away.\<close>

lemma parties_loots:
  assumes "parties_ok (view w)"
    "\<And>q P g l' s a b. pw_groups w q = Some P \<Longrightarrow> (g, Some l', s) \<in> set (v_rolls (party_view P)) \<Longrightarrow> map_option loot_view (Ls l') = Some (a, b) \<Longrightarrow>
      v_loots (view w) l' = Some (a, b)"
  shows "parties_ok (view (w\<lparr>pw_loots := Ls\<rparr>))"
proof -
  let ?V = "view w"
  let ?W = "?V\<lparr>v_loots := \<lambda>l. map_option loot_view (Ls l)\<rparr>"
  note d = parties_xD [OF assms(1)]
  have v: "view (w\<lparr>pw_loots := Ls\<rparr>) = ?W" by (simp add: view_def find_connected_def)
  have r: "rolls_ok ?W P" if P: "G ?V q = Some P" for q P
  proof -
    obtain p where p: "pw_groups w q = Some p" "party_view p = P" by (rule has_party [OF P])
    have ro: "rolls_ok ?V P" by (rule basic_okD(7) [OF d(1) P])
    show ?thesis unfolding rolls_ok_def
    proof (intro conjI ballI)
      show "distinct (map fst (v_rolls P))" using ro unfolding rolls_ok_def by blast
      fix x assume x: "x \<in> set (v_rolls P)"
      obtain g lo s where gls: "x = (g, lo, s)" by (cases x)
      have "item_guid (v_item ?V) g" and sl: "\<And>l a b. lo = Some l \<Longrightarrow> v_loots ?V l = Some (a, b) \<Longrightarrow> unat s < a + b"
        using ro x unfolding rolls_ok_def gls by blast+
      moreover have "unat s < a + b" if "lo = Some l" "map_option loot_view (Ls l) = Some (a, b)" for l a b
        by (rule sl [OF that(1)]) (rule assms(2) [OF p(1) _ that(2), of g s], use x p(2) gls that(1) in simp)
      ultimately show "case x of (g, lo, s) \<Rightarrow> item_guid (v_item ?W) g \<and> (\<forall>l a b. lo = Some l \<and> v_loots ?W l = Some (a, b) \<longrightarrow> unat s < a + b)"
        unfolding gls by simp
    qed
  qed
  have lk: "a_link_of k h ?W = a_link_of k h ?V" for k h by (simp add: a_link_of_def)
  have "refs_ok ?W" "invites_ok ?W" "bgs_ok ?W" using basic_okD(1-3) [OF d(1)] unfolding refs_ok_def invites_ok_def bgs_ok_def lk by simp_all
  then have "basic_ok ?W" using d(1) r unfolding basic_ok_def by (simp del: view_sel)
  moreover have "mem_of ?W = mem_of ?V" "bg_of ?W = bg_of ?V" by (simp_all add: mem_of_def bg_of_def fun_eq_iff)
  moreover have "ids_ok {} ?W" using d(3) by (simp add: ids_ok_def)
  ultimately show ?thesis unfolding v parties_x_def using d(2,4) by (simp del: view_sel)
qed

end
