(* ===== verification/PartyRolls.thy ===== *)
theory PartyRolls
  imports PartyLoot
begin

text \<open>
  What a roll does: who wins it, what becomes of the item, and that the rolls of a loot end.
\<close>


section \<open>What rolls do\<close>

text \<open>Counting a roll neither reads nor changes the groups.\<close>

definition with_groups :: "(nat \<Rightarrow> party option) \<Rightarrow> party_world \<Rightarrow> party_world" where
  "with_groups Gs w = w\<lparr>pw_groups := Gs\<rparr>"

lemma with_groups_sel [simp]:
  "pw_groups (with_groups Gs w) = Gs" "pw_loots (with_groups Gs w) = pw_loots w" "is_connected (with_groups Gs w) g = is_connected w g"
  "with_groups Hs (with_groups Gs w) = with_groups Hs w" "roll_loot (with_groups Gs w) = roll_loot w"
  by (simp_all add: with_groups_def is_connected_def find_connected_def roll_loot_def fun_eq_iff split: option.split)

lemma with_groups_emit [simp]:
  "pw_emit os (with_groups Gs w) = with_groups Gs (pw_emit os w)" "fault (with_groups Gs w) = with_groups Gs (fault w)"
  by (simp_all add: with_groups_def pw_emit_def fault_def)

lemma with_groups_sends [simp]:
  "send_loot_roll a b n k rl (with_groups Gs w) = with_groups Gs (send_loot_roll a b n k rl w)"
  "send_loot_roll_won a b n k rl (with_groups Gs w) = with_groups Gs (send_loot_roll_won a b n k rl w)"
  "send_loot_all_passed rl (with_groups Gs w) = with_groups Gs (send_loot_all_passed rl w)"
  by (simp_all add: send_loot_roll_def send_loot_roll_won_def send_loot_all_passed_def to_voters_def)

lemma with_groups_fold: "(\<And>x w. f x (with_groups Gs w) = with_groups Gs (f x w)) \<Longrightarrow> fold f xs (with_groups Gs w) = with_groups Gs (fold f xs w)"
  by (induction xs arbitrary: w) simp_all

lemma with_groups_draws [simp]: "send_draws env rl P (with_groups Gs w) = with_groups Gs (send_draws env rl P w)"
  unfolding send_draws_def by (rule with_groups_fold) simp

lemma with_groups_slot [simp]: "upd_slot_item l s f (with_groups Gs w) = with_groups Gs (upd_slot_item l s f w)"
  by (auto simp: upd_slot_item_def upd_item_def upd_quest_item_def split: option.split) (simp_all add: with_groups_def)

lemma with_groups_taken [simp]: "item_taken l s (with_groups Gs w) = with_groups Gs (item_taken l s w)"
  by (auto simp: item_taken_def Let_def split: option.split) (simp_all add: with_groups_def)

lemma with_groups_won [simp]:
  "store_won env l rl g (with_groups Gs w) = with_groups Gs (store_won env l rl g w)"
  "disenchant_won env l rl g (with_groups Gs w) = with_groups Gs (disenchant_won env l rl g w)"
  by (simp_all add: store_won_def disenchant_won_def unblock_item_def Let_def split: option.split)

lemma with_groups_count [simp]:
  "count_need env l rl (with_groups Gs w) = with_groups Gs (count_need env l rl w)"
  "count_greed env l rl (with_groups Gs w) = with_groups Gs (count_greed env l rl w)"
  by (simp_all add: count_need_def count_greed_def Let_def split_beta)

lemma with_groups_finish [simp]: "finish_roll env rl (with_groups Gs w) = with_groups Gs (finish_roll env rl w)"
  by (simp add: finish_roll_def unblock_item_def split: option.split)

text \<open>Nor does it delete a loot.\<close>

lemma loots_fault [simp]: "pw_loots (fault w) = pw_loots w" "pw_loots (send_loot_roll_won a b n k rl w) = pw_loots w"
  "pw_loots (send_loot_all_passed rl w) = pw_loots w"
  by (simp_all add: fault_def send_loot_roll_won_def send_loot_all_passed_def to_voters_def)

lemma loots_draws [simp]: "pw_loots (send_draws env rl P w) = pw_loots w"
  unfolding send_draws_def by (rule loots_fold) simp

lemma loots_slot [simp]: "pw_loots (upd_slot_item l s f w) k = None \<longleftrightarrow> pw_loots w k = None"
  by (auto simp: upd_slot_item_def upd_item_def upd_quest_item_def split: option.split)

lemma loots_taken [simp]: "pw_loots (item_taken l s w) k = None \<longleftrightarrow> pw_loots w k = None"
proof -
  let ?w1 = "pw_emit [PLootRemoved l s] (upd_slot_item l s (\<lambda>li. li\<lparr>li_looted := True\<rparr>) w)"
  have "pw_loots (item_taken l s w) k = None \<longleftrightarrow> pw_loots ?w1 k = None" by (auto simp: item_taken_def Let_def simp del: loots_slot split: option.split)
  then show ?thesis by simp
qed

lemma loots_won [simp]:
  "pw_loots (store_won env l rl g w) k = None \<longleftrightarrow> pw_loots w k = None" "pw_loots (disenchant_won env l rl g w) k = None \<longleftrightarrow> pw_loots w k = None"
  by (simp_all add: store_won_def disenchant_won_def unblock_item_def Let_def split: option.split)

lemma loots_finish [simp]: "pw_loots (finish_roll env rl w) k = None \<longleftrightarrow> pw_loots w k = None"
  by (simp add: finish_roll_def count_need_def count_greed_def unblock_item_def Let_def split_beta split: option.split)

lemma roll_loot_cong: "(\<And>k. pw_loots u k = None \<longleftrightarrow> pw_loots w k = None) \<Longrightarrow> roll_loot u = roll_loot w"
  by (auto simp: roll_loot_def fun_eq_iff split: option.split)

lemma roll_index_filter:
  "roll_index P xs = Some i \<Longrightarrow> filter P xs = xs ! i # filter P (take i xs @ drop (Suc i) xs) \<and> filter (\<lambda>x. \<not> P x) (take i xs @ drop (Suc i) xs) = filter (\<lambda>x. \<not> P x) xs"
proof (induction xs arbitrary: i)
  case (Cons x xs)
  show ?case
  proof (cases "P x")
    case False
    then obtain j where j: "roll_index P xs = Some j" "i = Suc j" using Cons.prems by auto
    then show ?thesis using Cons.IH [OF j(1)] False by simp
  qed (use Cons.prems in simp)
qed simp

lemma roll_index_None: "roll_index P xs = None \<longleftrightarrow> filter P xs = []"
  by (induction xs) auto

lemma end_rolls:
  assumes "pw_groups w r = Some p" "length (filter (\<lambda>rl. roll_loot w rl = Some l) (pa_rolls p)) \<le> n"
  shows "(end_one_roll env r l ^^ n) w
    = with_groups ((pw_groups w)(r \<mapsto> p\<lparr>pa_rolls := filter (\<lambda>rl. roll_loot w rl \<noteq> Some l) (pa_rolls p)\<rparr>))
        (fold (finish_roll env) (filter (\<lambda>rl. roll_loot w rl = Some l) (pa_rolls p)) w)"
  using assms
proof (induction n arbitrary: w p)
  case 0
  then have z: "filter (\<lambda>rl. roll_loot w rl = Some l) (pa_rolls p) = []" by simp
  then have "filter (\<lambda>rl. roll_loot w rl \<noteq> Some l) (pa_rolls p) = pa_rolls p" by (simp add: filter_empty_conv filter_id_conv)
  then have "(pw_groups w)(r \<mapsto> p\<lparr>pa_rolls := filter (\<lambda>rl. roll_loot w rl \<noteq> Some l) (pa_rolls p)\<rparr>) = pw_groups w"
    using 0 by (simp add: fun_upd_idem_iff)
  then show ?case using z by (simp add: with_groups_def)
next
  case (Suc n)
  let ?P = "\<lambda>rl. roll_loot w rl = Some l"
  show ?case
  proof (cases "roll_index ?P (pa_rolls p)")
    case None
    then have e: "end_one_roll env r l w = w" using Suc.prems(1) by (simp add: end_one_roll_def)
    have "length (filter ?P (pa_rolls p)) \<le> n" using None by (simp add: roll_index_None)
    then show ?thesis using Suc.IH [OF Suc.prems(1)] by (simp add: funpow_Suc_right e del: funpow.simps)
  next
    case (Some i)
    let ?p = "p\<lparr>pa_rolls := take i (pa_rolls p) @ drop (Suc i) (pa_rolls p)\<rparr>"
    let ?w1 = "with_groups ((pw_groups w)(r \<mapsto> ?p)) (finish_roll env (pa_rolls p ! i) w)"
    have i: "i < length (pa_rolls p)" using roll_index_some [OF Some] by blast
    have e: "end_one_roll env r l w = ?w1"
      using Suc.prems(1) Some i by (simp add: end_one_roll_def count_the_roll_def erase_roll_def upd_party_def with_groups_def)
    have rl: "roll_loot ?w1 = roll_loot w" using roll_loot_cong [of "finish_roll env (pa_rolls p ! i) w" w] by simp
    note f = roll_index_filter [OF Some]
    have c: "filter ?P (pa_rolls p) = pa_rolls p ! i # filter ?P (pa_rolls ?p)" "filter (\<lambda>rl. \<not> ?P rl) (pa_rolls ?p) = filter (\<lambda>rl. \<not> ?P rl) (pa_rolls p)"
      using f by simp_all
    have g: "pw_groups ?w1 r = Some ?p" by simp
    have len: "length (filter (\<lambda>rl. roll_loot ?w1 rl = Some l) (pa_rolls ?p)) \<le> n" using Suc.prems(2) c(1) unfolding rl by simp
    note Suc.IH [OF g len, unfolded rl]
    moreover have "?p\<lparr>pa_rolls := filter (\<lambda>rl. \<not> ?P rl) (pa_rolls ?p)\<rparr> = p\<lparr>pa_rolls := filter (\<lambda>rl. \<not> ?P rl) (pa_rolls p)\<rparr>"
      unfolding c(2) by simp
    ultimately have "(end_one_roll env r l ^^ n) ?w1 = with_groups ((pw_groups ?w1)(r \<mapsto> p\<lparr>pa_rolls := filter (\<lambda>rl. \<not> ?P rl) (pa_rolls p)\<rparr>))
        (fold (finish_roll env) (filter ?P (pa_rolls ?p)) ?w1)" by (simp only:)
    also have "\<dots> = with_groups ((pw_groups w)(r \<mapsto> p\<lparr>pa_rolls := filter (\<lambda>rl. \<not> ?P rl) (pa_rolls p)\<rparr>))
        (fold (finish_roll env) (filter ?P (pa_rolls ?p)) (finish_roll env (pa_rolls p ! i) w))"
      by (simp only: with_groups_fold [where f = "finish_roll env", OF with_groups_finish] with_groups_sel fun_upd_upd)
    finally show ?thesis unfolding c(1) by (simp only: funpow_Suc_right e comp_apply fold_simps)
  qed
qed

text \<open>
  C39: When the time of the rolls for a loot is over, every one of them is counted exactly once, in their
  order, and they are the rolls that go: the loop that starts again at the first roll after each erased one
  does what one pass over the list would.
\<close>
theorem end_roll_counts_each_once:
  assumes "pw_groups w r = Some p"
  shows "end_roll env r l w =
    (fold (finish_roll env) (filter (\<lambda>rl. roll_loot w rl = Some l) (pa_rolls p)) w)
      \<lparr>pw_groups := (pw_groups w)(r \<mapsto> p\<lparr>pa_rolls := filter (\<lambda>rl. roll_loot w rl \<noteq> Some l) (pa_rolls p)\<rparr>)\<rparr>"
  using end_rolls [OF assms, of l "length (pa_rolls p)" env] assms by (simp add: end_roll_def with_groups_def)


section \<open>Who wins\<close>

lemma draw_fold:
  assumes "fold (draw_step env rl P) xs (g0, b0, v0) = (g, b, v)"
  shows "b0 \<le> b \<and> (\<forall>(k, u) \<in> set xs. P u \<longrightarrow> pe_random env (rl_guid rl) k \<le> b)
    \<and> (b0 < b \<longrightarrow> (g, v) \<in> set xs \<and> P v \<and> b = pe_random env (rl_guid rl) g)"
  using assms
proof (induction xs arbitrary: g0 b0 v0)
  case (Cons x xs)
  let ?n = "pe_random env (rl_guid rl) (fst x)"
  show ?case
  proof (cases "P (snd x) \<and> b0 < ?n")
    case True
    then have "draw_step env rl P x (g0, b0, v0) = (fst x, ?n, snd x)" by (simp add: draw_step_def)
    then have "fold (draw_step env rl P) xs (fst x, ?n, snd x) = (g, b, v)" using Cons.prems by simp
    note i = Cons.IH [OF this]
    have b: "?n \<le> b" using i by blast
    then have "b0 < b" using True by auto
    moreover have "(g, v) \<in> set (x # xs) \<and> P v \<and> b = pe_random env (rl_guid rl) g"
    proof (cases "?n < b")
      case True
      then show ?thesis using i by simp
    next
      case False
      then have e: "?n = b" using b by simp
      have "fold (draw_step env rl P) ys (g0, b, v0) = (g0, b, v0)" if "\<forall>(k, u) \<in> set ys. P u \<longrightarrow> pe_random env (rl_guid rl) k \<le> b" for ys g0 v0
        using that by (induction ys) (auto simp: draw_step_def not_less)
      then have "fold (draw_step env rl P) xs (fst x, b, snd x) = (fst x, b, snd x)" using i by blast
      then have "x = (g, v)" using \<open>fold (draw_step env rl P) xs (fst x, ?n, snd x) = (g, b, v)\<close> e by (cases x) simp
      then show ?thesis using True e by auto
    qed
    ultimately show ?thesis using i b by (auto simp: split_beta)
  next
    case False
    then have "draw_step env rl P x (g0, b0, v0) = (g0, b0, v0)" by (auto simp: draw_step_def)
    then have "fold (draw_step env rl P) xs (g0, b0, v0) = (g, b, v)" using Cons.prems by simp
    note i = Cons.IH [OF this]
    have "P (snd x) \<Longrightarrow> ?n \<le> b" using False i by auto
    then show ?thesis using i by (auto simp: split_beta)
  qed
qed simp

lemma draw_highest:
  assumes "draw env rl P = (g, b, v)" "(h, u) \<in> set (rl_votes rl)" "P u" "0 < pe_random env (rl_guid rl) h"
  shows "(g, v) \<in> set (rl_votes rl)" "P v" "b = pe_random env (rl_guid rl) g"
    "(k, x) \<in> set (rl_votes rl) \<Longrightarrow> P x \<Longrightarrow> pe_random env (rl_guid rl) k \<le> pe_random env (rl_guid rl) g"
proof -
  note d = draw_fold [OF assms(1) [unfolded draw_def]]
  have "pe_random env (rl_guid rl) h \<le> b" using d assms(2,3) by blast
  then have "0 < b" using assms(4) by (auto intro: less_le_trans)
  then have w: "(g, v) \<in> set (rl_votes rl) \<and> P v \<and> b = pe_random env (rl_guid rl) g" using d by blast
  then show "(g, v) \<in> set (rl_votes rl)" "P v" "b = pe_random env (rl_guid rl) g" by blast+
  show "pe_random env (rl_guid rl) k \<le> pe_random env (rl_guid rl) g" if "(k, x) \<in> set (rl_votes rl)" "P x"
    using d w that by blast
qed

definition loot_with :: "u8 \<Rightarrow> (loot_item \<Rightarrow> loot_item) \<Rightarrow> loot \<Rightarrow> loot" where
  "loot_with s f lo =
     (if length (lo_items lo) \<le> unat s
      then lo\<lparr>lo_quest := (lo_quest lo)[unat s - length (lo_items lo) := f (lo_quest lo ! (unat s - length (lo_items lo)))]\<rparr>
      else lo\<lparr>lo_items := (lo_items lo)[unat s := f (lo_items lo ! unat s)]\<rparr>)"

lemma loot_with_slot:
  assumes "slot_item lo s = Some li"
  shows "slot_item (loot_with s f lo) t = (if t = s then Some (f li) else slot_item lo t)" "lo_unlooted (loot_with s f lo) = lo_unlooted lo"
proof -
  have u: "unat t \<noteq> unat s" if "t \<noteq> s" using that by (metis unsigned_word_eqI)
  show "slot_item (loot_with s f lo) t = (if t = s then Some (f li) else slot_item lo t)"
  proof (cases "t = s")
    case True
    then show ?thesis using assms by (auto simp: slot_item_def loot_with_def split: if_splits)
  next
    case False
    have "unat t - length (lo_items lo) \<noteq> unat s - length (lo_items lo)" if "length (lo_items lo) \<le> unat t" "length (lo_items lo) \<le> unat s"
      using u [OF False] that by linarith
    then show ?thesis using u [OF False] False by (simp add: slot_item_def loot_with_def)
  qed
qed (simp add: loot_with_def)

lemma upd_slot_loot:
  assumes "pw_loots w l = Some lo" "slot_item lo s = Some li"
  shows "upd_slot_item l s f w = w\<lparr>pw_loots := (pw_loots w)(l \<mapsto> loot_with s f lo)\<rparr>"
  using assms by (auto simp: upd_slot_item_def upd_item_def upd_quest_item_def loot_with_def slot_item_def split: if_splits)

lemma taken_loot:
  assumes "pw_loots w l = Some lo" "slot_item lo s = Some li"
  shows "pw_loots (item_taken l s w) l = Some ((loot_with s (\<lambda>li. li\<lparr>li_looted := True\<rparr>) lo)\<lparr>lo_unlooted := lo_unlooted lo - 1\<rparr>)"
  using upd_slot_loot [OF assms] loot_with_slot(2) [OF assms(2)] by (simp add: item_taken_def Let_def)

lemma connected_send [simp]: "is_connected (pw_emit os w) g = is_connected w g"
  by (simp add: is_connected_def find_connected_def pw_emit_def)

lemma connected_won [simp]: "is_connected (send_loot_roll_won a b n k rl w) g = is_connected w g"
  by (simp add: send_loot_roll_won_def to_voters_def)

lemma connected_draws [simp]: "is_connected (send_draws env rl P w) g = is_connected w g"
proof -
  have "is_connected (fold (\<lambda>x. send_loot_roll 0 (fst x) (pe_random env (rl_guid rl) (fst x)) (roll_vote_val (snd x)) rl) xs w) g = is_connected w g" for xs w
    by (induction xs arbitrary: w) (simp_all add: send_loot_roll_def to_voters_def)
  then show ?thesis by (simp add: send_draws_def)
qed

lemma slot_unlooted [simp]: "slot_item (lo\<lparr>lo_unlooted := x\<rparr>) t = slot_item lo t"
  by (simp add: slot_item_def)

text \<open>What \<open>store_won\<close> leaves of a loot: \<open>c\<close>, the winner is connected, \<open>fits\<close>, he can take the item.\<close>

lemma store_won_loot:
  assumes "pw_loots w l = Some lo" "slot_item lo (rl_slot rl) = Some li"
  shows "\<exists>lo'. pw_loots (store_won env l rl g w) l = Some lo'
    \<and> slot_item lo' (rl_slot rl) = Some (if pe_can_store env g (rl_item rl) (li_count li) = 0 then li\<lparr>li_looted := True\<rparr> else li\<lparr>li_blocked := False\<rparr>)
    \<and> (\<forall>t. t \<noteq> rl_slot rl \<longrightarrow> slot_item lo' t = slot_item lo t)
    \<and> lo_unlooted lo' = lo_unlooted lo - (if pe_can_store env g (rl_item rl) (li_count li) = 0 then 1 else 0)"
    "pe_can_store env g (rl_item rl) (li_count li) = 0 \<Longrightarrow> PLooted g (rl_item rl) (li_count li) \<in> set (pw_out (store_won env l rl g w))"
  using assms taken_loot [OF assms] upd_slot_loot [OF assms] loot_with_slot [OF assms(2)]
  by (simp_all add: store_won_def Let_def unblock_item_def) (simp_all add: pw_emit_def)

text \<open>
  C16: If somebody voted need, the item of a roll goes to one of those who did, and none of them drew more
  than he. If he is there and it fits, the item is looted and he gets it; if it does not fit, everybody may loot
  it again; if he is gone the item stays as it was. Nothing else in the loot changes.
\<close>
theorem need_roll_winner:
  assumes "roll_loot w rl = Some l" "pw_loots w l = Some lo" "slot_item lo (rl_slot rl) = Some li"
    and "0 < rl_need rl" "(h, NEED) \<in> set (rl_votes rl)" "0 < pe_random env (rl_guid rl) h"
  shows "\<exists>g. (g, NEED) \<in> set (rl_votes rl)
    \<and> (\<forall>k. (k, NEED) \<in> set (rl_votes rl) \<longrightarrow> pe_random env (rl_guid rl) k \<le> pe_random env (rl_guid rl) g)
    \<and> (\<exists>lo'. pw_loots (finish_roll env rl w) l = Some lo'
        \<and> slot_item lo' (rl_slot rl) =
            Some (if \<not> is_connected w g then li
                  else if pe_can_store env g (rl_item rl) (li_count li) = 0 then li\<lparr>li_looted := True\<rparr> else li\<lparr>li_blocked := False\<rparr>)
        \<and> (\<forall>t. t \<noteq> rl_slot rl \<longrightarrow> slot_item lo' t = slot_item lo t)
        \<and> lo_unlooted lo' = lo_unlooted lo - (if is_connected w g \<and> pe_can_store env g (rl_item rl) (li_count li) = 0 then 1 else 0))
    \<and> (is_connected w g \<and> pe_can_store env g (rl_item rl) (li_count li) = 0 \<longrightarrow>
        PLooted g (rl_item rl) (li_count li) \<in> set (pw_out (finish_roll env rl w)))"
proof -
  obtain g b v where d: "draw env rl (\<lambda>v. v = NEED) = (g, b, v)" by (cases "draw env rl (\<lambda>v. v = NEED)")
  note h = draw_highest [OF d assms(5) refl assms(6)]
  have g: "(g, NEED) \<in> set (rl_votes rl)" using h(1,2) by simp
  have ne: "rl_votes rl \<noteq> []" using assms(5) by auto
  let ?w1 = "send_loot_roll_won 0 g b ROLL_NEED rl (send_draws env rl (\<lambda>v. v = NEED) w)"
  let ?w2 = "pw_emit [PCriterion g 50 (rl_item rl) (ucast b)] ?w1"
  have e: "finish_roll env rl w = (if is_connected w g then store_won env l rl g ?w2 else ?w1)"
    using assms(1,4) ne d by (simp add: finish_roll_def count_need_def Let_def)
  have l2: "pw_loots ?w2 l = Some lo" "pw_loots ?w1 l = Some lo" using assms(2) by simp_all
  note s = store_won_loot [OF l2(1) assms(3), of env g]
  show ?thesis
  proof (intro exI [of _ g] conjI g)
    show "\<forall>k. (k, NEED) \<in> set (rl_votes rl) \<longrightarrow> pe_random env (rl_guid rl) k \<le> pe_random env (rl_guid rl) g" using h(4) by blast
  qed (use e s l2(2) assms(3) in \<open>cases "is_connected w g"; simp\<close>)+
qed


section \<open>A roll\<close>

text \<open>Two players roll for an item; both need it. A second roll of the group is for another loot.\<close>

definition px_env :: party_env where
  "px_env = \<lparr>pe_gm_group = False, pe_two_side = False, pe_level_req = 1, pe_proto = (\<lambda>_. None), pe_near = (\<lambda>_ _. True), pe_allowed = (\<lambda>_ _. True),
     pe_can_need = (\<lambda>_ _ _. True), pe_map_of = (\<lambda>_. 0), pe_can_store = (\<lambda>_ _ _. 0), pe_dungeon_map = (\<lambda>_. False), pe_raid_map = (\<lambda>_. False),
     pe_instance_ok = (\<lambda>_. True), pe_lfg_finished = (\<lambda>_. False), pe_lfg_dungeon = (\<lambda>_. 0), pe_lfg_map = (\<lambda>_. 0), pe_lfg_kicks = (\<lambda>_. 0),
     pe_lfg_vote = (\<lambda>_. False), pe_alive = (\<lambda>_. True), pe_hostile = (\<lambda>_ _. False), pe_char_name = (\<lambda>_. None), pe_char_guid = (\<lambda>_. 0),
     pe_utf8 = \<lparr>uf_distance = (\<lambda>s. Some (length s)), uf_to16 = (\<lambda>s. Some (map (of_nat \<circ> of_char) s)), uf_to8 = (\<lambda>s. Some (map (char_of \<circ> unat) s))\<rparr>,
     pe_random = (\<lambda>_ g. 10 * ucast g)\<rparr>"

definition px_player :: "string \<Rightarrow> party_player" where
  "px_player n = \<lparr>pp_name = n, pp_in_world = True, pp_logout = False, pp_group = None, pp_orig = None, pp_invite = None, pp_leader_flag = False,
     pp_enchanting = 0, pp_level = 10, pp_dungeon = 0, pp_raid = 0, pp_pass_loot = False, pp_gm = False, pp_team = 1, pp_instance = 0, pp_map = 0,
     pp_area = 0, pp_in_bg = False, pp_in_combat = False, pp_friends = [], pp_ignores = [], pp_home_valid = True\<rparr>"

definition rx_item :: loot_item where
  "rx_item = \<lparr>li_item = 3, li_prop = 0, li_suffix = 0, li_count = 1, li_ffa = False, li_follow = False, li_blocked = True, li_looted = False, li_under = False\<rparr>"

definition rx_roll :: "guid \<Rightarrow> nat \<Rightarrow> roll" where
  "rx_roll g l = (new_roll g rx_item)\<lparr>rl_votes := [(1, NEED), (2, NEED)], rl_total := 2, rl_need := 2, rl_loot := Some l\<rparr>"

definition rx_world :: party_world where
  "rx_world = new_party_world\<lparr>pw_players := [(1, px_player ''Ann''), (2, px_player ''Bob'')],
     pw_loots := [7 \<mapsto> \<lparr>lo_items = [rx_item], lo_quest = [], lo_unlooted = 1\<rparr>, 8 \<mapsto> \<lparr>lo_items = [rx_item], lo_quest = [], lo_unlooted = 1\<rparr>],
     pw_groups := [0 \<mapsto> new_party\<lparr>pa_rolls := [rx_roll 50 7, rx_roll 51 8, rx_roll 52 7]\<rparr>]\<rparr>"

lemma rx_facts:
  "pw_groups rx_world 0 = Some (new_party\<lparr>pa_rolls := [rx_roll 50 7, rx_roll 51 8, rx_roll 52 7]\<rparr>)"
  "roll_loot rx_world (rx_roll 50 7) = Some 7" "roll_loot rx_world (rx_roll 51 8) = Some 8" "roll_loot rx_world (rx_roll 52 7) = Some 7"
  "pw_loots rx_world 7 = Some \<lparr>lo_items = [rx_item], lo_quest = [], lo_unlooted = 1\<rparr>"
  "rl_slot (rx_roll g l) = 0" "slot_item \<lparr>lo_items = [rx_item], lo_quest = [], lo_unlooted = 1\<rparr> 0 = Some rx_item"
  "0 < rl_need (rx_roll g l)" "(2, NEED) \<in> set (rl_votes (rx_roll g l))" "pe_random px_env (rl_guid (rx_roll g l)) h = 10 * ucast h"
  "rl_votes (rx_roll g l) = [(1, NEED), (2, NEED)]" "rl_loot (rx_roll g l) = Some l"
  by (simp_all add: rx_world_def rx_roll_def new_roll_def roll_loot_def slot_item_def px_env_def)

lemma end_roll_counts_each_once_witness:
  "end_roll px_env 0 7 rx_world = (finish_roll px_env (rx_roll 52 7) (finish_roll px_env (rx_roll 50 7) rx_world))
     \<lparr>pw_groups := (pw_groups rx_world)(0 \<mapsto> new_party\<lparr>pa_rolls := [rx_roll 51 8]\<rparr>)\<rparr>"
  using end_roll_counts_each_once [OF rx_facts(1), of px_env 7] by (simp add: rx_facts)

lemma rx_hyps:
  "slot_item \<lparr>lo_items = [rx_item], lo_quest = [], lo_unlooted = 1\<rparr> (rl_slot (rx_roll 50 7)) = Some rx_item"
  "0 < pe_random px_env (rl_guid (rx_roll 50 7)) 2"
  by (simp_all add: rx_facts)

lemma need_roll_winner_witness:
  "\<exists>g. (g, NEED) \<in> set (rl_votes (rx_roll 50 7)) \<and> (\<exists>lo'. pw_loots (finish_roll px_env (rx_roll 50 7) rx_world) 7 = Some lo')"
  using need_roll_winner [OF rx_facts(2,5) rx_hyps(1) rx_facts(8,9) rx_hyps(2)] by blast

end
