(* ===== verification/PartySystem.thy ===== *)
theory PartySystem
  imports PartyRolls
begin

text \<open>
  Runs of the groups: which steps the server takes, the invariant in every run, and what follows for
  players, groups and loot.
\<close>

section \<open>The steps of the server\<close>

definition member_at :: "party_world \<Rightarrow> guid \<Rightarrow> nat \<Rightarrow> bool" where
  "member_at w g r \<longleftrightarrow> (case pw_groups w r of None \<Rightarrow> False | Some p \<Rightarrow> is_member p g)"

definition groups_of :: "party_world \<Rightarrow> guid \<Rightarrow> nat list" where
  "groups_of w g = filter (member_at w g) [0..<pw_next w]"

definition raid_at :: "party_world \<Rightarrow> nat \<Rightarrow> nat option" where
  "raid_at w r = Option.bind (pw_groups w r) pa_bg"

text \<open>The counters of groups, of their storage and of items do not reach their end.\<close>

definition group_room :: "party_world \<Rightarrow> bool" where
  "group_room w \<longleftrightarrow> pw_next_group w < 0xFFFFFFFE \<and> db_next (pw_db w) < 0xFFFFFFFE"

text \<open>Who logs in is not there yet, the row of the database is the one of his group, and he returns to the battleground he is in.\<close>

definition login_fits :: "guid \<Rightarrow> u32 option \<Rightarrow> nat option \<Rightarrow> party_world \<Rightarrow> bool" where
  "login_fits g db bg w \<longleftrightarrow> \<not> is_connected w g
     \<and> Option.bind db (group_by_db_id (pw_db w)) = find (\<lambda>r. raid_at w r = None) (groups_of w g)
     \<and> list_all (\<lambda>r. raid_at w r = None \<or> raid_at w r = bg) (groups_of w g)"

definition group_fits :: "party_env \<Rightarrow> nat \<Rightarrow> party_world \<Rightarrow> bool" where
  "group_fits env r w \<longleftrightarrow> (case pw_groups w r of None \<Rightarrow> False | Some p \<Rightarrow> templates env p)"

definition roll_fits :: "nat \<Rightarrow> nat \<Rightarrow> (loot \<Rightarrow> bool) \<Rightarrow> party_world \<Rightarrow> bool" where
  "roll_fits r l P w \<longleftrightarrow> pw_groups w r \<noteq> None \<and> (case pw_loots w l of None \<Rightarrow> False | Some lo \<Rightarrow> loot_fits lo w \<and> P lo)"

definition loot_fresh :: "nat \<Rightarrow> party_world \<Rightarrow> bool" where
  "loot_fresh l w \<longleftrightarrow>
     list_all (\<lambda>r. case pw_groups w r of None \<Rightarrow> True | Some p \<Rightarrow> list_all (\<lambda>rl. rl_loot rl \<noteq> Some l) (pa_rolls p)) [0..<pw_next w]"

fun party_running :: "party_env \<times> party_event \<Rightarrow> party_world \<Rightarrow> bool" where
  "party_running (env, PAccept g) w \<longleftrightarrow> group_room w
     \<and> (case Option.bind (player_invite w g) (pw_groups w) of None \<Rightarrow> True | Some p \<Rightarrow> pa_leader p \<noteq> g)"
| "party_running (env, PRoll g i c) w \<longleftrightarrow> (case player_group w g of None \<Rightarrow> True | Some r \<Rightarrow> group_fits env r w)"
| "party_running (env, WLogin g q db bg) w \<longleftrightarrow> group_room w \<and> login_fits g db bg w"
| "party_running (env, WLogout g b) w \<longleftrightarrow> is_connected w g"
| "party_running (env, WBgJoin k g) w \<longleftrightarrow> group_room w \<and> is_connected w g \<and> player_invite w g = None
     \<and> Option.bind (player_group w g) (raid_at w) = None"
| "party_running (env, WBgLeave k g) w \<longleftrightarrow> (case pw_bg_raids w k of None \<Rightarrow> True | Some r \<Rightarrow> member_at w g r)"
| "party_running (env, WLoot l lo) w \<longleftrightarrow> loot_fresh l w"
| "party_running (env, WGroupLoot r l obj) w \<longleftrightarrow> roll_fits r l (\<lambda>_. True) w"
| "party_running (env, WNeedLoot r l obj) w \<longleftrightarrow> roll_fits r l (\<lambda>lo. list_all (\<lambda>li. pe_proto env (li_item li) \<noteq> None) (lo_items lo)) w"
| "party_running (env, WMasterLoot r l obj) w \<longleftrightarrow> roll_fits r l (\<lambda>_. True) w"
| "party_running (env, WEndRoll r l) w \<longleftrightarrow> group_fits env r w"
| "party_running (env, WLooter r obj b) w \<longleftrightarrow> pw_groups w r \<noteq> None"
| "party_running (env, _) w \<longleftrightarrow> True"

section \<open>The invariant in every run\<close>

lemma member_at_view: "member_at w g r \<longleftrightarrow> (\<exists>s. mem_of (view w) g r s)"
  by (auto simp: member_at_def mem_of_def is_member_view simp del: pview_sel split: option.split) (erule rev_image_eqI, simp)

lemma raid_at_view: "raid_at w r \<noteq> None \<longleftrightarrow> bg_of (view w) r"
  by (cases "pw_groups w r") (simp_all add: raid_at_def bg_of_def)

lemma groups_of_view: "parties_ok (view w) \<Longrightarrow> r \<in> set (groups_of w g) \<longleftrightarrow> (\<exists>s. mem_of (view w) g r s)"
  using basic_okD(4) [OF parties_xD(1), of "{}" "{}" "view w" r]
  by (force simp: groups_of_def member_at_view [symmetric] member_at_def not_less [symmetric] split: option.splits)

lemma parties_login_fits:
  assumes "parties_ok (view w)" "group_room w" "login_fits g db bg w"
  shows "parties_ok (view (login env g q db bg w))"
proof (rule parties_login [OF assms(1)])
  note d = parties_xD [OF assms(1)]
  note gs = groups_of_view [OF assms(1), of _ g]
  show n: "find_connected w g = None" using assms(3) by (simp add: login_fits_def is_connected_def)
  then have Lg: "L (view w) g = None" by simp
  show "pw_next_group w < 0xFFFFFFFE" using assms(2) by (simp add: group_room_def)
  have f: "Option.bind db (group_by_db_id (pw_db w)) = find (\<lambda>r. raid_at w r = None) (groups_of w g)" using assms(3) by (simp add: login_fits_def)
  show "Option.bind db (group_by_db_id (pw_db w)) = Some r \<longleftrightarrow> (\<exists>s. mem_of (view w) g r s \<and> \<not> bg_of (view w) r)" for r
  proof
    assume "Option.bind db (group_by_db_id (pw_db w)) = Some r"
    then have "r \<in> set (groups_of w g)" "raid_at w r = None" unfolding f by (auto simp: find_Some_iff)
    then show "\<exists>s. mem_of (view w) g r s \<and> \<not> bg_of (view w) r" using gs raid_at_view [of w r] by blast
  next
    assume "\<exists>s. mem_of (view w) g r s \<and> \<not> bg_of (view w) r"
    then obtain s where s: "mem_of (view w) g r s" "\<not> bg_of (view w) r" by blast
    then have r: "r \<in> set (groups_of w g)" "raid_at w r = None" using gs raid_at_view [of w r] by blast+
    then obtain q where q: "find (\<lambda>r. raid_at w r = None) (groups_of w g) = Some q"
      by (cases "find (\<lambda>r. raid_at w r = None) (groups_of w g)") (auto simp: find_None_iff)
    then have "q \<in> set (groups_of w g)" "raid_at w q = None" by (auto simp: find_Some_iff)
    then obtain t where "mem_of (view w) g q t" "\<not> bg_of (view w) q" using gs raid_at_view [of w q] by blast
    then have "q = r" using socialD(4) [OF d(2) Lg s(1), of q t] s(2) by blast
    then show "Option.bind db (group_by_db_id (pw_db w)) = Some r" unfolding f q by simp
  qed
  show "v_bg P = bg" if m: "mem_of (view w) g r s" and P: "G (view w) r = Some P" "v_bg P \<noteq> None" for r s P
  proof -
    have "r \<in> set (groups_of w g)" using gs m by blast
    then have "raid_at w r = None \<or> raid_at w r = bg" using assms(3) by (auto simp: login_fits_def list_all_iff)
    moreover have "raid_at w r = v_bg P" using P(1) by (auto simp: raid_at_def)
    ultimately show ?thesis using P(2) by simp
  qed
qed

lemma new_parties_ok: "parties_ok (view new_party_world)"
proof -
  let ?V = "view new_party_world"
  have G: "G ?V r = None" for r by (simp add: new_party_world_def)
  have L: "L ?V g = None" for g by (simp add: new_party_world_def find_connected_def)
  have "ids_ok {} ?V" unfolding ids_ok_def G using new_db_ids_ok by (simp add: new_party_world_def) (simp add: new_db_ids_def group_by_db_id_def)
  moreover have "basic_ok ?V"
    unfolding basic_ok_def refs_ok_def invites_ok_def bgs_ok_def G L a_link_of_def by (simp add: new_party_world_def)
  moreover have "social (mem_of ?V) (bg_of ?V) (L ?V)" unfolding social_def mem_of_def G L by simp
  ultimately show ?thesis unfolding parties_x_def G by simp
qed

lemma parties_bg_fits:
  assumes "parties_ok (view w)" "group_room w" "is_connected w g" "player_invite w g = None" "Option.bind (player_group w g) (raid_at w) = None"
  shows "parties_ok (view (add_to_bg_group env k g w))"
proof -
  obtain l where l: "L (view w) g = Some l" using assms(3) by (auto simp: connected_view simp del: view_sel)
  show ?thesis
  proof (rule parties_bg_join [OF assms(1) l])
    show "l_inv l = None" using assms(4) l by (simp add: player_invite_view del: view_sel)
    show "pw_next_group w < 0xFFFFFFFE" using assms(2) by (simp add: group_room_def)
    show "\<not> bg_of (view w) q" if "l_main l = Some (q, t)" for q t
    proof -
      have "player_group w g = Some q" using that l by (simp add: player_group_view del: view_sel)
      then show ?thesis using assms(5) raid_at_view [of w q] by simp
    qed
  qed
qed

lemma loot_fresh_rolls:
  assumes "parties_ok (view w)" "loot_fresh l w" "pw_groups w q = Some p" "(g, Some l, s) \<in> set (v_rolls (party_view p))"
  shows False
proof -
  have "q < pw_next w" using basic_okD(4) [OF parties_xD(1) [OF assms(1)], of q] assms(3) by (auto simp: not_less [symmetric])
  then have "q \<in> set [0..<pw_next w]" by simp
  then have "case pw_groups w q of None \<Rightarrow> True | Some p \<Rightarrow> list_all (\<lambda>rl. rl_loot rl \<noteq> Some l) (pa_rolls p)"
    using assms(2) unfolding loot_fresh_def list_all_iff [of _ "[0..<pw_next w]"] by blast
  then have "list_all (\<lambda>rl. rl_loot rl \<noteq> Some l) (pa_rolls p)" using assms(3) by simp
  then show False using assms(4) by (auto simp: list_all_iff roll_view_def)
qed

lemma parties_wloot:
  assumes "parties_ok (view w)" "loot_fresh l w"
  shows "parties_ok (view (w\<lparr>pw_loots := (pw_loots w)(l \<mapsto> lo)\<rparr>))"
proof (rule parties_loots [OF assms(1)])
  fix q P g l' s a b
  assume a: "pw_groups w q = Some P" "(g, Some l', s) \<in> set (v_rolls (party_view P))" "map_option loot_view (((pw_loots w)(l \<mapsto> lo)) l') = Some (a, b)"
  have "l' \<noteq> l" using loot_fresh_rolls [OF assms a(1)] a(2) by auto
  then show "v_loots (view w) l' = Some (a, b)" using a(3) by simp
qed

lemma parties_wloot_gone:
  assumes "parties_ok (view w)"
  shows "parties_ok (view (w\<lparr>pw_loots := (pw_loots w)(l := None)\<rparr>))"
  by (rule parties_loots [OF assms]) (auto split: if_splits)

lemma parties_step:
  assumes "parties_ok (view w)" "party_running e w"
  shows "parties_ok (view (party_step e w))"
proof -
  obtain env ev where e: "e = (env, ev)" by (cases e)
  note ok = assms(1)
  have run: "party_running (env, ev) w" using assms(2) e by simp
  have g: "has r w" if "pw_groups w r \<noteq> None" for r using that by auto
  have "parties_ok (view (party_step (env, ev) w))" using run
  proof (cases ev)
    case (PAccept h)
    have "pw_next_group w < 0xFFFFFFFE" "db_next (pw_db w) < 0xFFFFFFFE" using run PAccept by (simp_all add: group_room_def)
    moreover have "pa_leader p \<noteq> h" if "player_invite w h = Some r" "pw_groups w r = Some p" for r p using run PAccept that by simp
    ultimately show ?thesis using parties_accept [OF ok, of h env] PAccept by simp
  next
    case (PRoll h i c)
    have "templates env p" if "player_group w h = Some r" "pw_groups w r = Some p" for r p
      using run PRoll that by (simp add: group_fits_def)
    then show ?thesis using parties_loot_roll [OF ok, of h env i c] PRoll by (simp del: view_sel)
  next
    case (WBgLeave k h)
    have "\<exists>s. mem_of (view w) h r s" if "pw_bg_raids w k = Some r" for r using run WBgLeave that member_at_view by simp
    then show ?thesis using parties_bg_leave [OF ok, of k h env] WBgLeave by simp
  next
    case (WGroupLoot r l obj)
    then obtain lo where lo: "pw_groups w r \<noteq> None" "pw_loots w l = Some lo" "loot_fits lo w" using run by (auto simp: roll_fits_def split: option.splits)
    show ?thesis using parties_group_loot [OF ok g [OF lo(1)] lo(2,3)] WGroupLoot by (simp del: view_sel)
  next
    case (WNeedLoot r l obj)
    then obtain lo where lo: "pw_groups w r \<noteq> None" "pw_loots w l = Some lo" "loot_fits lo w"
      "\<And>li. li \<in> set (lo_items lo) \<Longrightarrow> pe_proto env (li_item li) \<noteq> None"
      using run by (auto simp: roll_fits_def list_all_iff split: option.splits)
    show ?thesis using parties_need_before_greed [OF ok g [OF lo(1)] lo(2,3,4)] WNeedLoot by (simp del: view_sel)
  next
    case (WMasterLoot r l obj)
    then obtain lo where lo: "pw_groups w r \<noteq> None" "pw_loots w l = Some lo" using run by (auto simp: roll_fits_def split: option.splits)
    show ?thesis using view_master_loot [OF g [OF lo(1)] lo(2)] ok WMasterLoot by (simp del: view_sel)
  next
    case (WEndRoll r l)
    then obtain p where p: "pw_groups w r = Some p" "templates env p" using run by (auto simp: group_fits_def split: option.splits)
    show ?thesis using parties_end_roll [OF ok p] WEndRoll by (simp del: view_sel)
  next
    case (WLooter r obj b)
    then show ?thesis using ok view_update_looter [OF g, of r env obj b] run by (simp del: view_sel)
  qed (use ok in \<open>simp_all del: view_sel add: parties_invite_request parties_decline parties_uninvite_guid parties_uninvite_name parties_set_leader
      parties_leave parties_raid_convert parties_change_sub_group view_loot_method view_difficulties view_raid_target view_assistant view_assignment
      view_ready_check parties_login_fits parties_logout parties_bg_fits parties_wloot parties_wloot_gone\<close>)
  then show ?thesis using e by simp
qed

interpretation parties: guarded_system party_step party_running "\<lambda>w. parties_ok (view w)"
  by unfold_locales (rule parties_step)

lemma parties_run: "ok_run party_step party_running es new_party_world \<Longrightarrow> parties_ok (view (fold party_step es new_party_world))"
  by (rule parties.ok_run_inv [OF new_parties_ok])


section \<open>Members, leaders and sizes\<close>

lemma length_in_sub:
  assumes "\<forall>m \<in> set ms. unat (snd m) < 8"
  shows "length ms = (\<Sum>i<8. in_sub (of_nat i) ms)"
  using assms
proof (induction ms)
  case (Cons m ms)
  have e: "snd m = of_nat i \<longleftrightarrow> i = unat (snd m)" if "i < 8" for i using of_nat_sub_eq [OF that, of "snd m"] by metis
  have "(\<Sum>i<8. if snd m = of_nat i then 1 else 0 :: nat) = (\<Sum>i<8. if i = unat (snd m) then 1 else 0)"
    by (rule sum.cong [OF refl]) (simp only: e lessThan_iff)
  also have "\<dots> = 1" using Cons.prems by simp
  finally have "(\<Sum>i<8. if snd m = of_nat i then 1 else 0 :: nat) = 1" .
  moreover have "in_sub (of_nat i) (m # ms) = (if snd m = of_nat i then 1 else 0) + in_sub (of_nat i) ms" for i
    by (simp add: in_sub_def)
  ultimately show ?case using Cons by (simp add: sum.distrib)
qed (simp add: in_sub_def)

lemma raid_length:
  assumes "shape_ok P"
  shows "length (v_mem P) \<le> (if raid_view P then MAXRAIDSIZE else MAXGROUPSIZE)"
proof (cases "raid_view P")
  case True
  have "length (v_mem P) = (\<Sum>i<8. in_sub (of_nat i) (v_mem P))" by (rule length_in_sub) (use assms in \<open>simp add: shape_ok_def\<close>)
  also have "\<dots> \<le> (\<Sum>i<8::nat. MAXGROUPSIZE)" by (rule sum_mono) (use shape_sub_count [OF assms] in auto)
  finally show ?thesis using True by (simp add: MAXGROUPSIZE_def MAXRAIDSIZE_def)
next
  case False
  then show ?thesis using assms by (simp add: shape_ok_def)
qed

definition sub_size :: "u8 \<Rightarrow> party \<Rightarrow> nat" where
  "sub_size s p = length (filter (\<lambda>m. mb_group m = s) (pa_members p))"

lemma in_sub_slots: "in_sub s (map slot_view ms) = length (filter (\<lambda>m. mb_group m = s) ms)"
  by (simp add: in_sub_def filter_map o_def)

lemma sub_size_le:
  assumes "shape_ok (party_view p)"
  shows "sub_size s p \<le> MAXGROUPSIZE"
proof (cases "unat s < 8")
  case True
  then show ?thesis using shape_sub_count [OF assms, of "unat s"] by (simp add: sub_size_def in_sub_slots)
next
  case False
  then have "filter (\<lambda>m. mb_group m = s) (pa_members p) = []" using assms by (auto simp: shape_ok_def filter_empty_conv)
  then show ?thesis by (simp add: sub_size_def)
qed

definition group_facts :: "party_world \<Rightarrow> nat \<Rightarrow> party \<Rightarrow> bool" where
  "group_facts w r p \<longleftrightarrow>
     distinct (map mb_guid (pa_members p)) \<and> is_member p (pa_leader p)
   \<and> (pa_bg p = None \<longrightarrow> 2 \<le> length (pa_members p))
   \<and> length (pa_members p) \<le> (if is_raid_group p then MAXRAIDSIZE else MAXGROUPSIZE)
   \<and> (\<forall>s. sub_size s p \<le> MAXGROUPSIZE)"

lemma parties_group_facts:
  assumes "parties_ok (view w)" "pw_groups w r = Some p" "pa_members p \<noteq> []"
  shows "group_facts w r p"
proof -
  have P: "G (view w) r = Some (party_view p)" using assms(2) by simp
  note d = parties_xD [OF assms(1)]
  have sh: "shape_ok (party_view p)" by (rule basic_okD(6) [OF d(1) P])
  have sz: "size_ok (party_view p)" by (rule d(4) [OF P]) simp
  have "raid_view (party_view p) = is_raid_group p" by (simp add: raid_view_def is_raid_group_def)
  moreover have "pa_bg p = None \<longrightarrow> 2 \<le> length (pa_members p)" using sz assms(3) by (cases "pa_bg p") (simp_all add: size_ok_def)
  moreover have "is_member p (pa_leader p)" using sz assms(3) unfolding is_member_view by (simp add: size_ok_def)
  ultimately show ?thesis
    using sh sz assms(3) raid_length [OF sh] sub_size_le [OF sh] by (simp add: group_facts_def shape_ok_def o_def)
qed

lemma parties_links:
  assumes "parties_ok (view w)" "find_connected w g = Some q"
  shows "member_at w g r \<longleftrightarrow> map_option fst (pp_group q) = Some r \<or> map_option fst (pp_orig q) = Some r"
proof -
  have l: "L (view w) g = Some (player_view q)" using assms(2) by simp
  have "mem_of (view w) g r s \<longleftrightarrow> pp_group q = Some (r, s) \<or> pp_orig q = Some (r, s)" for s
    using socialD(1) [OF parties_xD(2) [OF assms(1)] l, of r s] by simp
  then show ?thesis unfolding member_at_view by auto
qed

section \<open>Properties\<close>

text \<open>
  C2: In every run of the guard \<open>party_running\<close> the groups and the links of the players agree: a connected player is a
  member of exactly the groups he links to. A group that has members has its leader among them, lists everybody
  once, keeps the limits of its size and of its subgroups, and outside of battlegrounds never has one member only.
  The guard leaves out two things clients can do and after which the groups go wrong: nobody accepts the invite of a
  group he leads himself (\<open>GroupHandler.cpp:250\<close>, \<open>own_invite_breaks_links\<close>) and nobody is taken into a battleground
  with an open invite (\<open>Group.cpp:365\<close>, \<open>battleground_join_dangles\<close>). It assumes that who logs in is the member of the
  group the database names and of no other, except the raid of the battleground he returns to, that the counters of
  groups do not reach their end, and that the loot of a roll is there and its items have templates.
\<close>
theorem groups_in_every_run:
  assumes "ok_run party_step party_running es new_party_world" "w = fold party_step es new_party_world"
  shows "(\<forall>g q r. find_connected w g = Some q \<longrightarrow>
           member_at w g r = (map_option fst (pp_group q) = Some r \<or> map_option fst (pp_orig q) = Some r))
    \<and> (\<forall>r p. pw_groups w r = Some p \<and> pa_members p \<noteq> [] \<longrightarrow>
         distinct (map mb_guid (pa_members p)) \<and> is_member p (pa_leader p)
       \<and> (pa_bg p = None \<longrightarrow> 2 \<le> length (pa_members p))
       \<and> length (pa_members p) \<le> (if is_raid_group p then MAXRAIDSIZE else MAXGROUPSIZE)
       \<and> (\<forall>s. sub_size s p \<le> MAXGROUPSIZE))"
proof -
  have ok: "parties_ok (view w)" unfolding assms(2) by (rule parties_run [OF assms(1)])
  show ?thesis using parties_links [OF ok] parties_group_facts [OF ok] unfolding group_facts_def by blast
qed

text \<open>
  C3: No run of the guard \<open>party_running\<close>, of requests, logins, battlegrounds and loot, makes the server read a group that
  was deleted, leave an array, miss an assertion or delete a player a group still has on its list of invitations.
  The guard is needed: nobody is taken into a battleground with an open invite (\<open>Group.cpp:365\<close>; the server deletes
  such a player while the group still lists him, \<open>battleground_join_dangles\<close>), nobody accepts the invite of a
  group he leads himself (\<open>GroupHandler.cpp:250\<close>), and what C2 assumes of logins, counters and loot.
\<close>
theorem groups_never_fault:
  assumes "ok_run party_step party_running es new_party_world"
  shows "\<not> pw_fault (fold party_step es new_party_world)"
  using basic_okD(5) [OF parties_xD(1) [OF parties_run [OF assms]]] by simp

text \<open>
  C15: In every run of the guard \<open>party_running\<close> (see C2) a group is well formed: the subgroups of its members exist, a raid has exactly eight
  counters and each counts the members of its subgroup, a party has none and one subgroup; a connected
  member links to the subgroup he is in; no two rolls are for the same item, and the item of a roll lies in its loot.
\<close>
theorem groups_well_formed:
  assumes "ok_run party_step party_running es new_party_world" "w = fold party_step es new_party_world" "pw_groups w r = Some p"
  shows "(\<forall>m \<in> set (pa_members p). unat (mb_group m) < MAX_RAID_SUBGROUPS)
    \<and> (case pa_counts p of
         None \<Rightarrow> \<not> is_raid_group p \<and> (\<forall>m \<in> set (pa_members p). mb_group m = 0)
       | Some cs \<Rightarrow> is_raid_group p \<and> length cs = MAX_RAID_SUBGROUPS \<and> (\<forall>i < MAX_RAID_SUBGROUPS. unat (cs ! i) = sub_size (of_nat i) p))
    \<and> (\<forall>g q s. find_connected w g = Some q \<and> (pp_group q = Some (r, s) \<or> pp_orig q = Some (r, s)) \<longrightarrow> get_member_group p g = s)
    \<and> distinct (map rl_guid (pa_rolls p))
    \<and> (\<forall>rl \<in> set (pa_rolls p). \<forall>l lo. roll_loot w rl = Some l \<and> pw_loots w l = Some lo \<longrightarrow> slot_item lo (rl_slot rl) \<noteq> None)"
proof -
  have ok: "parties_ok (view w)" unfolding assms(2) by (rule parties_run [OF assms(1)])
  have P: "G (view w) r = Some (party_view p)" using assms(3) by simp
  note d = parties_xD [OF ok]
  have sh: "shape_ok (party_view p)" by (rule basic_okD(6) [OF d(1) P])
  have ro: "rolls_ok (view w) (party_view p)" by (rule basic_okD(7) [OF d(1) P])
  have rv: "raid_view (party_view p) = is_raid_group p" by (simp add: raid_view_def is_raid_group_def)
  have 1: "\<forall>m \<in> set (pa_members p). unat (mb_group m) < MAX_RAID_SUBGROUPS" using sh by (simp add: shape_ok_def)
  have 2: "case pa_counts p of
         None \<Rightarrow> \<not> is_raid_group p \<and> (\<forall>m \<in> set (pa_members p). mb_group m = 0)
       | Some cs \<Rightarrow> is_raid_group p \<and> length cs = MAX_RAID_SUBGROUPS \<and> (\<forall>i < MAX_RAID_SUBGROUPS. unat (cs ! i) = sub_size (of_nat i) p)"
  proof (cases "is_raid_group p")
    case True
    then obtain cs where "pa_counts p = Some cs" "counts_ok cs (map slot_view (pa_members p))" using sh rv by (auto simp: shape_ok_def)
    then show ?thesis using True by (simp add: counts_ok_def sub_size_def in_sub_slots)
  next
    case False
    then show ?thesis using sh rv by (simp add: shape_ok_def)
  qed
  have 3: "get_member_group p g = s" if q: "find_connected w g = Some q" "pp_group q = Some (r, s) \<or> pp_orig q = Some (r, s)" for g q s
  proof (rule slot_of_mem(1) [OF sh])
    have "L (view w) g = Some (player_view q)" using q(1) by simp
    then have "mem_of (view w) g r s" using socialD(1) [OF d(2), of g "player_view q" r s] q(2) by simp
    then show "(g, s) \<in> set (v_mem (party_view p))" using P unfolding mem_of_def by (auto simp del: view_sel)
  qed
  have "distinct (map fst (v_rolls (party_view p)))" using ro unfolding rolls_ok_def by blast
  then have 4: "distinct (map rl_guid (pa_rolls p))" by (simp add: o_def roll_view_def)
  have 5: "slot_item lo (rl_slot rl) \<noteq> None" if x: "rl \<in> set (pa_rolls p)" "roll_loot w rl = Some l" "pw_loots w l = Some lo" for rl l lo
    by (rule slot_inD [OF roll_slot_in [OF ok assms(3) x(1,2)]]) (use x(3) slot_item_some in auto)
  show ?thesis using 1 2 3 4 5 by blast
qed


section \<open>The leader leaves\<close>

lemma pick_leader_view:
  assumes "pw_groups w r = Some p"
  shows "view (pick_leader r g w) =
    (case if pa_leader p = g then find (\<lambda>m. is_connected w (mb_guid m)) (pa_members p) else None of
       None \<Rightarrow> view w | Some m \<Rightarrow> a_grp r (\<lambda>P. P\<lparr>v_leader := mb_guid m\<rparr>) (view w))"
proof (cases "pa_leader p = g")
  case True
  show ?thesis
  proof (cases "find (\<lambda>m. is_connected w (mb_guid m)) (pa_members p)")
    case None
    then show ?thesis using assms True by (simp add: pick_leader_def del: view_sel)
  next
    case (Some m)
    then have m: "m \<in> set (pa_members p)" "L (view w) (mb_guid m) \<noteq> None" by (auto simp: find_Some_iff connected_view simp del: view_sel)
    have s: "get_slot p (mb_guid m) \<noteq> None" using m(1) by (auto simp: get_slot_def find_None_iff)
    have "pick_leader r g w = change_leader r (mb_guid m) w" using assms True Some by (simp add: pick_leader_def)
    then show ?thesis using view_change_leader [OF assms, of "mb_guid m"] s m(2) True Some by (simp del: view_sel)
  qed
qed (use assms in \<open>simp add: pick_leader_def\<close>)

lemma find_map: "find P (map f xs) = map_option f (find (P \<circ> f) xs)"
  by (induction xs) auto

lemma member_left:
  assumes "parties_ok (view w)" "pw_groups w r = Some p" "is_member p g" "pw_groups (snd (remove_member env how r g w)) r = Some p'"
  shows "map mb_guid (pa_members p') = filter (\<lambda>h. h \<noteq> g) (map mb_guid (pa_members p))"
    "pa_leader p \<noteq> g \<Longrightarrow> pa_leader p' = pa_leader p"
    "pa_leader p = g \<Longrightarrow> find (is_connected w) (map mb_guid (pa_members p')) = Some (pa_leader p')"
proof -
  let ?V = "view w" and ?P = "party_view p" and ?u = "snd (remove_member env how r g w)"
  note d = parties_xD [OF assms(1)]
  have h: "G ?V r = Some ?P" using assms(2) by simp
  have sh: "shape_ok ?P" by (rule basic_okD(6) [OF d(1) h])
  obtain s where gs: "mem_of ?V g r s" using member_mem [OF assms(2,3)] by blast
  have ms: "(g, s) \<in> set (v_mem ?P)" using mem_slot [OF assms(2)] gs by blast
  then have ne: "pa_members p \<noteq> []" by auto
  have bg: "bg_or_bf p \<longleftrightarrow> pa_bg p \<noteq> None" using sh by (simp add: shape_ok_def is_bg_group_def is_bf_group_def)
  have lfg: "\<not> is_lfg_group p" using not_lfg [OF sh] by simp
  have uok: "parties_ok (view ?u)" using parties_remove_member [OF assms(1,2) gs, of env how] by blast
  let ?w3 = "leave_members env how r g w"
  obtain w1 p1 where w1: "?w3 = send_update env r (pick_leader r g w1)" "pw_groups w1 r = Some p1"
    "view w1 = a_grp r (erase_view g s) (a_out r g ?V)" by (rule view_leave_members [OF assms(1,2) ms])
  have b0: "parties_b {} {} (mem_of ?V) ?V" using assms(1) unfolding parties_x_b .
  note sb = parties_out(2) [OF b0 gs]
  obtain P0 where P0: "G (a_out r g ?V) r = Some P0" "bare P0 = bare ?P" using same_bareD(1) [OF same_bare_sym [OF sb] h] by blast
  have P1: "party_view p1 = erase_view g s P0" using w1(2) P0(1) arg_cong [OF w1(3), of "\<lambda>V. G V r"] by simp
  have m1: "map slot_view (pa_members p1) = filter (\<lambda>m. fst m \<noteq> g) (map slot_view (pa_members p))" and l1: "pa_leader p1 = pa_leader p"
    using arg_cong [OF P1, of v_mem] arg_cong [OF P1, of v_leader] bare_eqD(1,3) [OF P0(2)] by simp_all
  have g1: "map mb_guid (pa_members p1) = filter (\<lambda>h. h \<noteq> g) (map mb_guid (pa_members p))"
    using arg_cong [OF m1, of "map fst"] by (simp add: filter_map o_def)
  have con: "is_connected w1 h = is_connected w h" for h
  proof -
    have "L (view w1) h = None \<longleftrightarrow> L ?V h = None" unfolding w1(3) using shrinksD(3) [OF shrinks_out [OF b0 gs]] by simp
    then show ?thesis unfolding connected_view by simp
  qed
  have big: "(if pa_bg p \<noteq> None then 1 else 2) < length (pa_members p)"
  proof (rule ccontr)
    assume "\<not> ?thesis"
    then have "?u = disband env False r w" using assms(2) lfg bg by (simp add: remove_member_def)
    then show False using assms(4) parties_disband(2) [OF assms(1,2) ne, of env False] by simp
  qed
  have ne1: "pa_members p1 \<noteq> []"
  proof -
    have "length (map slot_view (pa_members p)) = Suc (length (map slot_view (pa_members p1)))"
      unfolding m1 using filter_one [OF _ ms] sh by (simp add: shape_ok_def)
    then show ?thesis using big by (cases "pa_bg p") auto
  qed
  have u3: "view ?u = view ?w3"
  proof -
    have v3: "view ?w3 = view (pick_leader r g w1)" unfolding w1(1)
    proof (rule view_send_update)
      show "has r (pick_leader r g w1)" unfolding pick_leader_view [OF w1(2)] using w1(2) by (auto simp del: not_None_eq split: option.split)
    qed
    have "has r ?w3" unfolding v3 pick_leader_view [OF w1(2)] using w1(2) by (auto simp del: not_None_eq split: option.split)
    then obtain p3 where p3: "pw_groups ?w3 r = Some p3" by auto
    have e: "remove_member env how r g w = close_group env r ?w3" using big assms(2) lfg bg by (simp add: remove_member_def)
    have m3: "v_mem (party_view p3) = v_mem (party_view p1)"
    proof -
      have "G (view ?w3) r = Some (party_view p3)" using p3 by simp
      then have e3: "party_view p1 = party_view p3 \<or> (\<exists>l. (party_view p1)\<lparr>v_leader := l\<rparr> = party_view p3)"
        unfolding v3 pick_leader_view [OF w1(2)] using w1(2) by (auto split: option.splits)
      have s: "v_mem ((party_view p1)\<lparr>v_leader := l\<rparr>) = v_mem (party_view p1)" for l by simp
      show ?thesis using e3 s by metis
    qed
    have ne3: "pa_members p3 \<noteq> []" using m3 ne1 by auto
    have x3: "parties_x {r} {} (view ?w3)"
    proof -
      have "parties_x (insert r {}) {} (a_grp r (erase_view g s) (a_out r g ?V))"
        by (rule parties_erase [OF _ P0(1)])
          (use big ms bare_eqD(1) [OF P0(2)] parties_out(1) [OF b0 gs] mem_of_bare [OF sb] in \<open>auto split: if_splits\<close>)
      then have "parties_x {r} {} (view w1)" unfolding w1(3) .
      then show ?thesis unfolding v3 using pick_keeps [OF _ w1(2), of g] by blast
    qed
    show ?thesis
    proof (rule ccontr)
      assume n: "view ?u \<noteq> view ?w3"
      then have "?u = disband env False r ?w3" unfolding e using p3 by (auto simp: close_group_def split: if_splits)
      then show False using assms(4) parties_disband(2) [OF x3 p3 ne3, of env False] by simp
    qed
  qed
  have "has r (pick_leader r g w1)" unfolding pick_leader_view [OF w1(2)] using w1(2) by (auto simp del: not_None_eq split: option.split)
  then have v: "view ?u = view (pick_leader r g w1)" unfolding u3 w1(1) by (rule view_send_update)
  have p': "G (view ?u) r = Some (party_view p')" using assms(4) by simp
  let ?x = "if pa_leader p1 = g then find (\<lambda>m. is_connected w1 (mb_guid m)) (pa_members p1) else None"
  have pv: "party_view p' = (case ?x of None \<Rightarrow> party_view p1 | Some m \<Rightarrow> (party_view p1)\<lparr>v_leader := mb_guid m\<rparr>)"
    using p' w1(2) unfolding v pick_leader_view [OF w1(2)] by (cases ?x) (auto split: if_splits)
  have "map slot_view (pa_members p') = map slot_view (pa_members p1)" using arg_cong [OF pv, of v_mem] by (simp split: option.splits)
  from arg_cong [OF this, of "map fst"] have g': "map mb_guid (pa_members p') = map mb_guid (pa_members p1)" by (simp add: o_def)
  then show "map mb_guid (pa_members p') = filter (\<lambda>h. h \<noteq> g) (map mb_guid (pa_members p))" using g1 by simp
  show "pa_leader p' = pa_leader p" if "pa_leader p \<noteq> g" using arg_cong [OF pv, of v_leader] that l1 by simp
  show "find (is_connected w) (map mb_guid (pa_members p')) = Some (pa_leader p')" if lg: "pa_leader p = g"
  proof -
    have f: "find (is_connected w) (map mb_guid (pa_members p')) = map_option mb_guid (find (\<lambda>m. is_connected w1 (mb_guid m)) (pa_members p1))"
      unfolding g' find_map by (simp add: con o_def)
    show ?thesis
    proof (cases "find (\<lambda>m. is_connected w1 (mb_guid m)) (pa_members p1)")
      case None
      then have "pa_leader p' = g" using arg_cong [OF pv, of v_leader] lg l1 by simp
      moreover have "pa_members p' \<noteq> []" using g' ne1 by auto
      then have "is_member p' (pa_leader p')" using parties_group_facts [OF uok assms(4)] by (simp add: group_facts_def)
      ultimately have "g \<in> set (map mb_guid (pa_members p'))" unfolding is_member_view by (auto simp: image_image)
      then show ?thesis unfolding g' g1 by simp
    next
      case (Some m)
      then show ?thesis using f arg_cong [OF pv, of v_leader] lg l1 by simp
    qed
  qed
qed

text \<open>
  C4: After any run of the guard \<open>party_running\<close> (see C2), leaving takes one name off the list and nobody else, and it changes the leader only if the leader
  leaves: then the first of the others, in their order, who is connected leads the group. This holds
  whenever the group goes on.
\<close>
theorem leader_succession:
  assumes "ok_run party_step party_running es new_party_world" "w = fold party_step es new_party_world"
    and "pw_groups w r = Some p" "is_member p g" "pw_groups (snd (remove_member env how r g w)) r = Some p'"
  shows "map mb_guid (pa_members p') = filter (\<lambda>h. h \<noteq> g) (map mb_guid (pa_members p))
    \<and> (if pa_leader p \<noteq> g then pa_leader p' = pa_leader p
       else find (is_connected w) (map mb_guid (pa_members p')) = Some (pa_leader p'))"
  using member_left [OF parties_run [OF assms(1), folded assms(2)] assms(3-5)] by simp

section \<open>A run\<close>

text \<open>Three players form a group, it becomes a raid and one of them moves to another subgroup.\<close>

definition px_run :: "(party_env \<times> party_event) list" where
  "px_run = map (Pair px_env) [WLogin 1 (px_player ''Ann'') None None, WLogin 2 (px_player ''Bob'') None None, WLogin 3 (px_player ''Cid'') None None,
     PInvite 1 ''bob'', PAccept 2, PInvite 1 ''Cid'', PAccept 3, PConvert 1, PSubGroup 1 ''Bob'' 3]"

lemma px_run_ok: "ok_run party_step party_running px_run new_party_world"
  by code_simp
definition px_world :: party_world where
  "px_world = fold party_step px_run new_party_world"

definition px_group :: party where
  "px_group = the (pw_groups px_world 0)"

lemma px_end:
  "case pw_groups (fold party_step px_run new_party_world) 0 of
     None \<Rightarrow> False | Some p \<Rightarrow> map slot_view (pa_members p) = [(1, 0), (2, 3), (3, 0)] \<and> pa_leader p = 1"
  by code_simp

lemma px_facts:
  "pw_groups px_world 0 = Some px_group" "map slot_view (pa_members px_group) = [(1, 0), (2, 3), (3, 0)]"
  "pa_leader px_group = 1" "is_member px_group 1"
  using px_end by (auto simp: px_group_def px_world_def is_member_view split: option.splits)

lemma px_members [simp]: "pa_members px_group \<noteq> []"
  using px_facts(2) by auto

text \<open>
  The guard of the runs leaves out two requests of clients after which the properties below fail. A player who joins a
  battleground with an open invite stays on the list of the group that invited him, and logging out deletes him under
  it. A leader who accepts the invite of his own group before it exists is free to invite again: when three such groups
  are accepted he is a member of all three and links to two.
\<close>

definition px_dangling :: "(party_env \<times> party_event) list" where
  "px_dangling = map (Pair px_env) [WLogin 1 (px_player ''Ann'') None None, WLogin 2 (px_player ''Bob'') None None,
     PInvite 1 ''Bob'', WBgJoin 0 2, WLogout 2 False]"

definition px_thrice :: "(party_env \<times> party_event) list" where
  "px_thrice = map (Pair px_env) [WLogin 1 (px_player ''Ann'') None None, WLogin 2 (px_player ''Bob'') None None,
     WLogin 3 (px_player ''Cid'') None None, WLogin 4 (px_player ''Dan'') None None, PInvite 1 ''Bob'', PAccept 1,
     PInvite 1 ''Cid'', PAccept 1, PInvite 1 ''Dan'', PAccept 2, PAccept 3, PAccept 4]"

lemma battleground_join_dangles:
  "pw_fault (fold party_step px_dangling new_party_world)" "\<not> ok_run party_step party_running px_dangling new_party_world"
  by code_simp+

lemma own_invite_breaks_links:
  "let w = fold party_step px_thrice new_party_world in member_at w 1 1
     \<and> (case find_connected w 1 of None \<Rightarrow> False
        | Some q \<Rightarrow> map_option fst (pp_group q) = Some 0 \<and> map_option fst (pp_orig q) = Some 2)"
  "\<not> ok_run party_step party_running px_thrice new_party_world"
  by code_simp+

lemma groups_in_every_run_witness:
  "is_member px_group (pa_leader px_group)"
  using groups_in_every_run [OF px_run_ok px_world_def] px_facts(1) px_members by blast

lemma groups_never_fault_witness:
  "\<not> pw_fault (fold party_step px_run new_party_world)"
  by (rule groups_never_fault [OF px_run_ok])

lemma groups_well_formed_witness:
  "unat (mb_group (hd (pa_members px_group))) < MAX_RAID_SUBGROUPS \<and> distinct (map rl_guid (pa_rolls px_group))"
  using groups_well_formed [OF px_run_ok px_world_def px_facts(1)] hd_in_set [OF px_members] by blast

definition px_rest :: party where
  "px_rest = the (pw_groups (snd (remove_member px_env REMOVE_LEAVE 0 1 px_world)) 0)"

lemma px_rest_there: "pw_groups (snd (remove_member px_env REMOVE_LEAVE 0 1 px_world)) 0 = Some px_rest"
proof -
  have "pw_groups (snd (remove_member px_env REMOVE_LEAVE 0 1 (fold party_step px_run new_party_world))) 0 \<noteq> None"
    by code_simp
  then show ?thesis unfolding px_rest_def px_world_def by (rule option.collapse [symmetric])
qed

lemma leader_succession_witness:
  "map mb_guid (pa_members px_rest) = filter (\<lambda>h. h \<noteq> 1) (map mb_guid (pa_members px_group))
    \<and> find (is_connected px_world) (map mb_guid (pa_members px_rest)) = Some (pa_leader px_rest)"
  using leader_succession [OF px_run_ok px_world_def px_facts(1,4) px_rest_there] px_facts(3) by argo

end
