(* ===== verification/LfgRoles.thy ===== *)
theory LfgRoles
  imports Guid
begin

text \<open>
  Who plays what in a group of the dungeon finder: \<open>CheckGroupRoles\<close> of
  \<open>src/server/game/DungeonFinding/LFGMgr.cpp\<close>. Each player offers roles as bits; the search strikes
  them out in place, one at a time, until every player has one role and the group has at most one
  tank, one healer and three damage dealers. Every call strikes out one more bit, so the number of bits
  bounds the depth; \<open>roles_fuel\<close> is more than that. The lemmas show that the search finds an
  assignment exactly if there is one, and restores the roles otherwise.
\<close>

section \<open>Roles\<close>

type_synonym lfg_roles = "(guid, u8) omap"

definition PLAYER_ROLE_NONE :: u8 where "PLAYER_ROLE_NONE = 0"
definition PLAYER_ROLE_LEADER :: u8 where "PLAYER_ROLE_LEADER = 1"
definition PLAYER_ROLE_TANK :: u8 where "PLAYER_ROLE_TANK = 2"
definition PLAYER_ROLE_HEALER :: u8 where "PLAYER_ROLE_HEALER = 4"
definition PLAYER_ROLE_DAMAGE :: u8 where "PLAYER_ROLE_DAMAGE = 8"

definition LFG_TANKS_NEEDED :: u8 where "LFG_TANKS_NEEDED = 1"
definition LFG_HEALERS_NEEDED :: u8 where "LFG_HEALERS_NEEDED = 1"
definition LFG_DPS_NEEDED :: u8 where "LFG_DPS_NEEDED = 3"

lemmas role_consts = PLAYER_ROLE_NONE_def PLAYER_ROLE_LEADER_def PLAYER_ROLE_TANK_def PLAYER_ROLE_HEALER_def PLAYER_ROLE_DAMAGE_def
  LFG_TANKS_NEEDED_def LFG_HEALERS_NEEDED_def LFG_DPS_NEEDED_def

definition plain_role :: "u8 \<Rightarrow> u8" where
  "plain_role r = r AND NOT PLAYER_ROLE_LEADER"

definition role_at :: "lfg_roles \<Rightarrow> guid \<Rightarrow> u8" where
  "role_at m g = (case map_of m g of None \<Rightarrow> 0 | Some r \<Rightarrow> r)"

section \<open>The search\<close>

text \<open>
  A visit of the loop for one of the three roles: \<open>Inl\<close> is a return, \<open>Inr\<close> the roles and the counter
  the loop goes on with.
\<close>

fun roles_search :: "nat \<Rightarrow> lfg_roles \<Rightarrow> bool \<times> lfg_roles"
  and role_visit :: "nat \<Rightarrow> guid \<Rightarrow> u8 \<Rightarrow> u8 \<Rightarrow> u8 \<Rightarrow> lfg_roles \<Rightarrow> u8 \<Rightarrow> (bool \<times> lfg_roles) + (lfg_roles \<times> u8)"
  and roles_loop :: "nat \<Rightarrow> guid list \<Rightarrow> lfg_roles \<Rightarrow> u8 \<Rightarrow> u8 \<Rightarrow> u8 \<Rightarrow> bool \<times> lfg_roles"
where
  "roles_search 0 m = (False, m)"
| "roles_search (Suc n) m = (if m = [] then (False, m) else roles_loop n (map fst m) m 0 0 0)"
| "role_visit n g R needed role m c =
     (if role AND R = 0 then Inr (m, c)
      else if role \<noteq> R then
        (let (ok, m1) = roles_search n (om_upd g (\<lambda>r. r - R) m)
         in if ok then Inl (True, m1) else Inr (om_upd g (\<lambda>r. r + R) m1, c))
      else if c = needed then Inl (False, m) else Inr (m, c + 1))"
| "roles_loop n [] m damage healer tank = (unat tank + unat healer + unat damage = unat (of_nat (length m) :: u8), m)"
| "roles_loop n (g # gs) m damage healer tank =
     (let role = plain_role (role_at m g)
      in if role = PLAYER_ROLE_NONE then (False, m)
         else
           (case role_visit n g PLAYER_ROLE_DAMAGE LFG_DPS_NEEDED role m damage of
              Inl res \<Rightarrow> res
            | Inr (m1, d) \<Rightarrow>
                (case role_visit n g PLAYER_ROLE_HEALER LFG_HEALERS_NEEDED role m1 healer of
                   Inl res \<Rightarrow> res
                 | Inr (m2, h) \<Rightarrow>
                     (case role_visit n g PLAYER_ROLE_TANK LFG_TANKS_NEEDED role m2 tank of
                        Inl res \<Rightarrow> res
                      | Inr (m3, t) \<Rightarrow> roles_loop n gs m3 d h t))))"

definition roles_fuel :: "lfg_roles \<Rightarrow> nat" where
  "roles_fuel m = (\<Sum>p \<leftarrow> m. unat (snd p))"

definition check_group_roles :: "lfg_roles \<Rightarrow> bool \<times> lfg_roles" where
  "check_group_roles m = roles_search (Suc (roles_fuel m)) m"

section \<open>Assignments\<close>

text \<open>One of the offered roles is left, the flag of the leader stays, and no other bit is set.\<close>

definition role_choice :: "u8 \<Rightarrow> u8 \<Rightarrow> bool" where
  "role_choice r s \<longleftrightarrow> r AND 0xF0 = 0
     \<and> (\<exists>R \<in> {PLAYER_ROLE_TANK, PLAYER_ROLE_HEALER, PLAYER_ROLE_DAMAGE}. r AND R \<noteq> 0 \<and> s = (r AND PLAYER_ROLE_LEADER) OR R)"

definition count_role :: "u8 \<Rightarrow> lfg_roles \<Rightarrow> nat" where
  "count_role R m = length (filter (\<lambda>p. plain_role (snd p) = R) m)"

definition role_limits :: "lfg_roles \<Rightarrow> bool" where
  "role_limits m \<longleftrightarrow> count_role PLAYER_ROLE_TANK m \<le> 1 \<and> count_role PLAYER_ROLE_HEALER m \<le> 1 \<and> count_role PLAYER_ROLE_DAMAGE m \<le> 3"

definition legal_roles :: "lfg_roles \<Rightarrow> lfg_roles \<Rightarrow> bool" where
  "legal_roles m x \<longleftrightarrow> list_all2 (\<lambda>p q. fst p = fst q \<and> role_choice (snd p) (snd q)) m x \<and> role_limits x"

subsection \<open>Facts about eight bits\<close>

abbreviation single_role :: "u8 \<Rightarrow> bool" where
  "single_role r \<equiv> plain_role r \<in> {2, 4, 8}"

lemma low_roles:
  assumes "(r :: u8) AND 0xF0 = 0"
  shows "r \<in> {0, 1, 2, 3, 4, 5, 6, 7, 8, 9, 10, 11, 12, 13, 14, 15}"
proof -
  have "r = take_bit 4 r"
  proof (rule bit_word_eqI)
    fix n assume n: "n < LENGTH(8)"
    have "bit (r AND 0xF0) n = False" using assms by simp
    then show "bit r n = bit (take_bit 4 r) n"
      using n by (auto simp: bit_and_iff bit_take_bit_iff less_Suc_eq numeral_eq_Suc bit_numeral_rec)
  qed
  then have "unat r = take_bit 4 (unat r)" by (metis unsigned_take_bit_eq)
  also have "\<dots> < 2 ^ 4" by (rule take_bit_nat_less_exp)
  finally have "unat r \<in> set [0..<16]" by simp
  also have "set [0..<16] = {0, 1, 2, 3, 4, 5, 6, 7, 8, 9, 10, 11, 12, 13, 14, 15}" by (simp add: upt_rec numeral_eq_Suc)
  finally have "(word_of_nat (unat r) :: u8) \<in> word_of_nat ` {0, 1, 2, 3, 4, 5, 6, 7, 8, 9, 10, 11, 12, 13, 14, 15}" by (rule imageI)
  moreover have "(word_of_nat (unat r) :: u8) = r" by simp
  ultimately show ?thesis by simp
qed

lemma and_one_bit: "k < 8 \<Longrightarrow> (x :: u8) AND push_bit k 1 \<noteq> 0 \<longleftrightarrow> bit x k"
  using word_and_zero_iff_no_bit [of x "push_bit k 1"] by (auto simp: bit_one_shift simp del: push_bit_of_1)

lemma strike_role:
  assumes "plain_role r AND R \<noteq> 0" "R \<in> {2, 4, 8}"
  shows "r - R = r AND NOT R" "(r - R) + R = r" "unat (r - R) < unat r"
proof -
  obtain k where k: "R = push_bit k 1" "k < 8" using assms(2) by (auto intro: that [of 1] that [of 2] that [of 3])
  have b: "bit r k" using assms(1) unfolding k(1) and_one_bit [OF k(2)] by (simp add: plain_role_def bit_and_iff)
  have d: "NOT r AND R = 0"
    by (rule bit_word_eqI) (use b in \<open>auto simp: k(1) bit_and_iff bit_not_iff bit_exp_iff\<close>)
  show "r - R = r AND NOT R" by (rule disjunctive_diff_eq_and_not [OF d])
  show "(r - R) + R = r" by simp
  have "R = r AND R"
    by (rule bit_word_eqI) (use b in \<open>auto simp: k(1) bit_and_iff bit_exp_iff\<close>)
  then have "R \<le> r" using word_and_le2 [of r R] by simp
  moreover have "0 < R" using assms(2) by auto
  ultimately show "unat (r - R) < unat r" by (simp add: unat_sub word_le_nat_alt word_less_nat_alt)
qed


text \<open>What striking out a role means for the choices that are left.\<close>

lemma choice_single: "role_choice r s \<Longrightarrow> single_role r \<Longrightarrow> s = r"
  by (auto simp: role_choice_def plain_role_def role_consts dest!: low_roles)

lemma choice_self: "single_role r \<Longrightarrow> role_choice r r"
proof -
  assume a: "single_role r"
  have "r AND 0xF0 = 0"
  proof (rule bit_word_eqI)
    fix n assume n: "n < LENGTH(8)"
    have "bit (plain_role r AND 0xF0) n = False" using a by auto
    then show "bit (r AND 0xF0) n = bit (0 :: u8) n"
      using n by (auto simp: plain_role_def role_consts bit_and_iff bit_not_iff less_Suc_eq numeral_eq_Suc bit_numeral_rec)
  qed
  then show ?thesis using a low_roles [of r] by (auto simp: role_choice_def plain_role_def role_consts)
qed

lemma choice_none: "plain_role r = 0 \<Longrightarrow> \<not> role_choice r s"
  by (auto simp: role_choice_def plain_role_def role_consts dest!: low_roles)

lemma struck_bits:
  assumes "(R :: u8) \<in> {2, 4, 8}"
  shows "(r AND NOT R) AND 1 = r AND 1" "(r AND NOT R) AND 0xF0 = r AND 0xF0" "(r AND NOT R) AND X \<noteq> 0 \<Longrightarrow> r AND X \<noteq> 0"
    "X \<in> {2, 4, 8} \<Longrightarrow> X \<noteq> R \<Longrightarrow> (r AND NOT R) AND X = r AND X"
proof -
  have n: "NOT R AND 1 = (1 :: u8)" "NOT R AND 0xF0 = (0xF0 :: u8)" using assms by auto
  show "(r AND NOT R) AND 1 = r AND 1" "(r AND NOT R) AND 0xF0 = r AND 0xF0" using n by (simp_all add: and.assoc)
  show "r AND X \<noteq> 0" if "(r AND NOT R) AND X \<noteq> 0"
    using that by (auto simp: word_and_zero_iff_no_bit bit_and_iff)
  show "(r AND NOT R) AND X = r AND X" if "X \<in> {2, 4, 8}" "X \<noteq> R"
  proof -
    have "NOT R AND X = X" using that assms by auto
    then show ?thesis by (simp add: and.assoc)
  qed
qed

lemma choice_unstrike: "role_choice (r - R) s \<Longrightarrow> plain_role r AND R \<noteq> 0 \<Longrightarrow> R \<in> {2, 4, 8} \<Longrightarrow> role_choice r s"
  using struck_bits [of R r] strike_role(1) [of r R] unfolding role_choice_def PLAYER_ROLE_LEADER_def by metis

lemma choice_strike:
  assumes "role_choice r s" "\<not> single_role r"
  shows "\<exists>R \<in> {2, 4, 8}. plain_role r AND R \<noteq> 0 \<and> role_choice (r - R) s"
proof -
  obtain X where X: "r AND 0xF0 = 0" "X \<in> {2, 4, 8}" "r AND X \<noteq> 0" "s = (r AND 1) OR X"
    using assms(1) by (auto simp: role_choice_def role_consts)
  have "\<exists>R \<in> {2, 4, 8}. R \<noteq> X \<and> plain_role r AND R \<noteq> 0"
    using X(2,3) assms(2) low_roles [OF X(1)] by (auto simp: plain_role_def role_consts)
  then obtain R where R: "R \<in> {2, 4, 8}" "R \<noteq> X" "plain_role r AND R \<noteq> 0" by blast
  have "role_choice (r AND NOT R) s"
    using X struck_bits(1,2) [OF R(1), of r] struck_bits(4) [OF R(1) X(2) R(2) [symmetric], of r]
    by (auto simp: role_choice_def role_consts)
  then show ?thesis using R strike_role(1) [OF R(3,1)] by (intro bexI [of _ R]) simp_all
qed

section \<open>The search is exact\<close>

definition searched :: "lfg_roles \<Rightarrow> bool \<times> lfg_roles \<Rightarrow> bool" where
  "searched m res \<longleftrightarrow> (if fst res then legal_roles m (snd res) else snd res = m \<and> (\<forall>x. \<not> legal_roles m x))"

lemma count_role_append [simp]: "count_role R (xs @ ys) = count_role R xs + count_role R ys"
  "count_role R [] = 0" "count_role R (p # ys) = (if plain_role (snd p) = R then 1 else 0) + count_role R ys"
  by (simp_all add: count_role_def)

lemma legal_count: "legal_roles m x \<Longrightarrow> R \<in> {2, 4, 8} \<Longrightarrow> count_role R m \<le> count_role R x"
proof -
  assume l: "legal_roles m x" and R: "R \<in> {2, 4, 8}"
  have "list_all2 (\<lambda>p q. fst p = fst q \<and> role_choice (snd p) (snd q)) m x" using l by (simp add: legal_roles_def)
  then show ?thesis
  proof (induction rule: list_all2_induct)
    case (Cons p m q x)
    have "plain_role (snd p) = R \<Longrightarrow> snd q = snd p" using Cons.hyps R choice_single [of "snd p" "snd q"] by auto
    then show ?case using Cons.IH by auto
  qed simp
qed

lemma role_at_here: "g \<notin> fst ` set us \<Longrightarrow> role_at (us @ (g, s) # vs) g = s"
  using map_of_eq_None_iff [of us g] by (simp add: role_at_def map_add_def)

lemma legal_upd:
  assumes "legal_roles (xs @ (g, r) # ys) x" "role_choice r' (role_at x g)" "g \<notin> fst ` set xs"
  shows "legal_roles (xs @ (g, r') # ys) x"
proof -
  obtain us s vs where x: "x = us @ (g, s) # vs" "length us = length xs"
    "list_all2 (\<lambda>p q. fst p = fst q \<and> role_choice (snd p) (snd q)) xs us"
    using assms(1) by (fastforce simp: legal_roles_def list_all2_append1 list_all2_Cons1)
  have "map fst us = map fst xs" using x(3) by (induction rule: list_all2_induct) simp_all
  then have "g \<notin> fst ` set us" using assms(3) by (metis list.set_map)
  then have "role_at x g = s" unfolding x(1) by (rule role_at_here)
  then show ?thesis using assms(1,2) unfolding x(1) legal_roles_def by (simp add: list_all2_append x(2))
qed

lemma legal_at:
  assumes "legal_roles (xs @ (g, r) # ys) x" "g \<notin> fst ` set xs"
  shows "role_choice r (role_at x g)"
proof -
  obtain us s vs where x: "x = us @ (g, s) # vs" "role_choice r s"
    "list_all2 (\<lambda>p q. fst p = fst q \<and> role_choice (snd p) (snd q)) xs us"
    using assms(1) by (fastforce simp: legal_roles_def list_all2_append1 list_all2_Cons1)
  have "map fst us = map fst xs" using x(3) by (induction rule: list_all2_induct) simp_all
  then have "g \<notin> fst ` set us" using assms(2) by (metis list.set_map)
  then have "role_at x g = s" unfolding x(1) by (rule role_at_here)
  then show ?thesis using x(2) by simp
qed

lemma upd_here:
  assumes "distinct (map fst (xs @ (g, r) # ys))"
  shows "om_upd g f (xs @ (g, r) # ys) = xs @ (g, f r) # ys" "role_at (xs @ (g, r) # ys) g = r"
  using assms
proof -
  have "om_upd g f zs = zs" if "g \<notin> fst ` set zs" for zs
    using that by (induction zs) (auto simp: om_upd_def)
  then show "om_upd g f (xs @ (g, r) # ys) = xs @ (g, f r) # ys" using assms by (auto simp: om_upd_def)
  show "role_at (xs @ (g, r) # ys) g = r" by (rule role_at_here) (use assms in auto)
qed

text \<open>Striking out a role of a player with several: the search below is right by induction.\<close>

lemma visit_several:
  assumes "\<And>m. distinct (map fst m) \<Longrightarrow> length m < 256 \<Longrightarrow> m \<noteq> [] \<Longrightarrow> roles_fuel m < n \<Longrightarrow> searched m (roles_search n m)"
    and "m = xs @ (g, r) # ys" "distinct (map fst m)" "length m < 256" "roles_fuel m \<le> n"
    and "\<not> single_role r" "R \<in> {2, 4, 8}"
  shows "role_visit n g R k (plain_role r) m c =
      (if plain_role r AND R = 0 then Inr (m, c)
       else if fst (roles_search n (xs @ (g, r - R) # ys)) then Inl (roles_search n (xs @ (g, r - R) # ys)) else Inr (m, c))"
    "plain_role r AND R \<noteq> 0 \<Longrightarrow> searched (xs @ (g, r - R) # ys) (roles_search n (xs @ (g, r - R) # ys))"
proof -
  have d: "distinct (map fst (xs @ (g, s) # ys))" for s using assms(2,3) by simp
  show S: "searched (xs @ (g, r - R) # ys) (roles_search n (xs @ (g, r - R) # ys))" if "plain_role r AND R \<noteq> 0"
  proof (rule assms(1) [OF d])
    show "roles_fuel (xs @ (g, r - R) # ys) < n"
      using strike_role(3) [OF that assms(7)] assms(2,5) by (simp add: roles_fuel_def)
  qed (use assms(2,4) in auto)
  have ne: "plain_role r \<noteq> R" using assms(6,7) by auto
  show "role_visit n g R k (plain_role r) m c =
      (if plain_role r AND R = 0 then Inr (m, c)
       else if fst (roles_search n (xs @ (g, r - R) # ys)) then Inl (roles_search n (xs @ (g, r - R) # ys)) else Inr (m, c))"
  proof (cases "plain_role r AND R = 0")
    case False
    have "snd (roles_search n (xs @ (g, r - R) # ys)) = xs @ (g, r - R) # ys" if "\<not> fst (roles_search n (xs @ (g, r - R) # ys))"
      using S [OF False] that by (simp add: searched_def)
    then show ?thesis using False ne upd_here(1) [OF d] assms(2) by (auto simp: split_beta Let_def prod_eq_iff)
  qed simp
qed

lemma single_visits:
  assumes "single_role r"
  shows "plain_role r = 2 \<or> plain_role r = 4 \<or> plain_role r = 8"
    "role_visit n g R k 2 m c = (if R = 2 then if c = k then Inl (False, m) else Inr (m, c + 1) else if R = 4 \<or> R = 8 then Inr (m, c) else role_visit n g R k 2 m c)"
    "role_visit n g R k 4 m c = (if R = 4 then if c = k then Inl (False, m) else Inr (m, c + 1) else if R = 2 \<or> R = 8 then Inr (m, c) else role_visit n g R k 4 m c)"
    "role_visit n g R k 8 m c = (if R = 8 then if c = k then Inl (False, m) else Inr (m, c + 1) else if R = 2 \<or> R = 4 then Inr (m, c) else role_visit n g R k 8 m c)"
  using assms by auto

lemma u8_le1: "unat (c :: u8) \<le> 1 \<Longrightarrow> c \<noteq> 1 \<Longrightarrow> c = 0"
proof -
  assume c: "unat c \<le> 1" "c \<noteq> 1"
  have "unat c \<noteq> unat (1 :: u8)" using c(2) unsigned_word_eqI by blast
  then have "unat c = unat (0 :: u8)" using c(1) by simp
  then show "c = 0" by (rule unsigned_word_eqI)
qed

lemma searched_loop:
  assumes IH: "\<And>m. distinct (map fst m) \<Longrightarrow> length m < 256 \<Longrightarrow> m \<noteq> [] \<Longrightarrow> roles_fuel m < n \<Longrightarrow> searched m (roles_search n m)"
    and "m = xs @ ys" "distinct (map fst m)" "length m < 256" "roles_fuel m \<le> n"
    and "unat d = count_role 8 xs" "unat h = count_role 4 xs" "unat t = count_role 2 xs"
    and "unat d \<le> 3" "unat h \<le> 1" "unat t \<le> 1"
    and "(\<forall>p \<in> set xs. single_role (snd p)) \<or> (\<forall>x. \<not> legal_roles m x)"
  shows "searched m (roles_loop n (map fst ys) m d h t)"
  using assms(2,6-)
proof (induction ys arbitrary: xs d h t)
  case Nil
  have s: "count_role 8 zs + count_role 4 zs + count_role 2 zs + length (filter (\<lambda>p. \<not> single_role (snd p)) zs) = length zs" for zs
    by (induction zs) (auto simp: count_role_def)
  have u: "unat (of_nat (length m) :: u8) = length m" using assms(4) by (simp add: unat_of_nat)
  have m: "m = xs" using Nil.prems(1) by simp
  show ?case
  proof (cases "\<forall>p \<in> set xs. single_role (snd p)")
    case True
    have "legal_roles m m"
      using True Nil.prems m unfolding legal_roles_def role_limits_def
      by (auto simp: list_all2_same choice_self role_consts)
    then show ?thesis using True s [of xs] Nil.prems u m by (simp add: searched_def filter_empty_conv)
  next
    case False
    then have "filter (\<lambda>p. \<not> single_role (snd p)) xs \<noteq> []" by (simp add: filter_empty_conv)
    then have "0 < length (filter (\<lambda>p. \<not> single_role (snd p)) xs)" by blast
    then have "count_role 8 xs + count_role 4 xs + count_role 2 xs \<noteq> length xs" using s [of xs] by linarith
    moreover have "\<forall>x. \<not> legal_roles m x" using Nil.prems(8) False by blast
    ultimately show ?thesis using Nil.prems(2-4) u m by (simp add: searched_def)
  qed
next
  case (Cons p ys)
  obtain g r where p: "p = (g, r)" by (cases p)
  have m: "m = xs @ (g, r) # ys" "m = (xs @ [p]) @ ys" using Cons.prems(1) p by simp_all
  have d: "distinct (map fst (xs @ (g, s) # ys))" for s using m(1) assms(3) by simp
  have at: "role_at m g = r" unfolding m(1) by (rule upd_here(2) [OF d])
  have gx: "g \<notin> fst ` set xs" using d by auto
  note loop = roles_loop.simps(2) [of n g "map fst ys" m d h t, unfolded at Let_def role_consts]
  consider (none) "plain_role r = 0" | (single) "single_role r" | (several) "plain_role r \<noteq> 0" "\<not> single_role r" by blast
  then show ?case
  proof cases
    case none
    have "\<not> legal_roles m x" for x
      using legal_at [of xs g r ys x] gx choice_none [OF none] unfolding m(1) by blast
    then show ?thesis using none p loop by (simp add: searched_def)
  next
    case single
    have full: "\<not> legal_roles m x" if "k < count_role (plain_role r) m" "count_role (plain_role r) x \<le> k" for x k
      using legal_count [of m x "plain_role r"] single that by auto
    have one: "(\<forall>q \<in> set (xs @ [p]). single_role (snd q)) \<or> (\<forall>x. \<not> legal_roles m x)"
      using Cons.prems(8) single p by auto
    note IHs = Cons.IH [OF m(2) _ _ _ _ _ _ one]
    have lim: "count_role 2 x \<le> 1 \<and> count_role 4 x \<le> 1 \<and> count_role 8 x \<le> 3" if "legal_roles m x" for x
      using that by (simp add: legal_roles_def role_limits_def role_consts)
    consider "plain_role r = 2" | "plain_role r = 4" | "plain_role r = 8" using single by blast
    then show ?thesis
    proof cases
      case 1
      have c: "count_role 2 m = Suc (count_role 2 xs) + count_role 2 ys" using 1 by (simp add: m(1))
      show ?thesis
      proof (cases "t = 1")
        case True
        then have "\<not> legal_roles m x" for x using full [of 1 x] lim [of x] 1 c Cons.prems(4) by auto
        then show ?thesis using loop 1 True p by (simp add: searched_def)
      next
        case False
        have "t = 0" using Cons.prems(7) False by (auto intro: u8_le1)
        then show ?thesis using loop 1 False p IHs [of d h "t + 1"] Cons.prems by simp
      qed
    next
      case 2
      have c: "count_role 4 m = Suc (count_role 4 xs) + count_role 4 ys" using 2 by (simp add: m(1))
      show ?thesis
      proof (cases "h = 1")
        case True
        then have "\<not> legal_roles m x" for x using full [of 1 x] lim [of x] 2 c Cons.prems(3) by auto
        then show ?thesis using loop 2 True p by (simp add: searched_def)
      next
        case False
        have "h = 0" using Cons.prems(6) False by (auto intro: u8_le1)
        then show ?thesis using loop 2 False p IHs [of d "h + 1" t] Cons.prems by simp
      qed
    next
      case 3
      have c: "count_role 8 m = Suc (count_role 8 xs) + count_role 8 ys" using 3 by (simp add: m(1))
      show ?thesis
      proof (cases "d = 3")
        case True
        then have "\<not> legal_roles m x" for x using full [of 3 x] lim [of x] 3 c Cons.prems(2) by auto
        then show ?thesis using loop 3 True p by (simp add: searched_def)
      next
        case False
        have "unat d \<noteq> unat (3 :: u8)" using False unsigned_word_eqI by blast
        then have "unat d < 3" using Cons.prems(5) by simp
        then have "unat (d + 1) = Suc (unat d)" by (simp add: unat_word_ariths)
        then show ?thesis using loop 3 False p IHs [of "d + 1" h t] Cons.prems \<open>unat d < 3\<close> by simp
      qed
    qed
  next
    case several
    let ?S = "\<lambda>R. roles_search n (xs @ (g, r - R) # ys)"
    have v: "role_visit n g R k (plain_role r) m c =
        (if plain_role r AND R = 0 then Inr (m, c) else if fst (?S R) then Inl (?S R) else Inr (m, c))"
      "plain_role r AND R \<noteq> 0 \<Longrightarrow> searched (xs @ (g, r - R) # ys) (?S R)" if "R \<in> {2, 4, 8}" for R k c
      by (rule visit_several [OF _ m(1) assms(3-5) several(2) that]; (rule IH)?; assumption)+
    have bad: "\<forall>x. \<not> legal_roles m x" if "\<And>R. R \<in> {2, 4, 8} \<Longrightarrow> plain_role r AND R \<noteq> 0 \<Longrightarrow> \<not> fst (?S R)"
    proof (intro allI notI)
      fix x assume l: "legal_roles m x"
      obtain R where R: "R \<in> {2, 4, 8}" "plain_role r AND R \<noteq> 0" "role_choice (r - R) (role_at x g)"
        using choice_strike [OF legal_at [OF l [unfolded m(1)] gx] several(2)] by blast
      show False using legal_upd [OF l [unfolded m(1)] R(3) gx] v(2) [OF R(1,2)] that [OF R(1,2)] by (auto simp: searched_def)
    qed
    have good: "searched m (?S R)" if "R \<in> {2, 4, 8}" "plain_role r AND R \<noteq> 0" "fst (?S R)" for R
    proof -
      have l: "legal_roles (xs @ (g, r - R) # ys) (snd (?S R))" using v(2) [OF that(1,2)] that(3) by (simp add: searched_def)
      have "legal_roles (xs @ (g, r) # ys) (snd (?S R))"
        by (rule legal_upd [OF l choice_unstrike [OF legal_at [OF l gx] that(2,1)] gx])
      then show ?thesis using that(3) m(1) by (simp add: searched_def)
    qed
    have rest: "searched m (roles_loop n (map fst ys) m d h t)" if "\<forall>x. \<not> legal_roles m x"
      by (rule Cons.IH [OF m(2)]) (use Cons.prems several p that in auto)
    let ?ok = "\<lambda>R. plain_role r AND R \<noteq> 0 \<and> fst (?S R)"
    have V: "role_visit n g R k (plain_role r) m c = (if ?ok R then Inl (?S R) else Inr (m, c))" if "R \<in> {2, 4, 8}" for R k c
      using v(1) [OF that] by simp
    have e: "roles_loop n (map fst ((g, r) # ys)) m d h t =
        (if ?ok 8 then ?S 8 else if ?ok 4 then ?S 4 else if ?ok 2 then ?S 2 else roles_loop n (map fst ys) m d h t)"
      unfolding list.map fst_conv loop if_not_P [OF several(1)]
      using V [of 8 "3" d] V [of 4 "1" h] V [of 2 "1" t]
      by (cases "?ok 8"; cases "?ok 4"; cases "?ok 2") (simp_all only: insertI1 insertI2 simp_thms if_True if_False sum.case prod.case)
    have "\<forall>x. \<not> legal_roles m x" if "\<not> ?ok 8" "\<not> ?ok 4" "\<not> ?ok 2"
      by (rule bad) (use that in auto)
    note none = rest [OF this]
    show ?thesis
    proof (cases "?ok 8")
      case True
      then show ?thesis unfolding p e if_P [OF True] using good [of 8] by blast
    next
      case o8: False
      show ?thesis
      proof (cases "?ok 4")
        case True
        then show ?thesis unfolding p e if_not_P [OF o8] if_P [OF True] using good [of 4] by blast
      next
        case o4: False
        show ?thesis
        proof (cases "?ok 2")
          case True
          then show ?thesis unfolding p e if_not_P [OF o8] if_not_P [OF o4] if_P [OF True] using good [of 2] by blast
        qed (use none o8 o4 in \<open>simp only: p e if_not_P not_False_eq_True\<close>)
      qed
    qed
  qed
qed

lemma searched_search:
  "distinct (map fst m) \<Longrightarrow> length m < 256 \<Longrightarrow> m \<noteq> [] \<Longrightarrow> roles_fuel m < n \<Longrightarrow> searched m (roles_search n m)"
proof (induction n arbitrary: m)
  case (Suc n)
  have "searched m (roles_loop n (map fst m) m 0 0 0)"
    by (rule searched_loop [OF Suc.IH, of m "[]"]) (use Suc.prems in auto)
  then show ?case using Suc.prems(3) by simp
qed simp

lemma searched_roles: "om_inv m \<Longrightarrow> length m < 256 \<Longrightarrow> m \<noteq> [] \<Longrightarrow> searched m (check_group_roles m)"
  unfolding check_group_roles_def by (rule searched_search) (simp_all add: om_inv_distinct)

text \<open>
  C6: \<open>CheckGroupRoles\<close> accepts the offers of a group exactly if every player can get one of the roles
  he offered with at most one tank, one healer and three damage dealers. It then leaves such an
  assignment in the map, with the flag of the leader, and otherwise the offers as they were.
\<close>
theorem group_roles_exact:
  assumes "om_inv m" "length m < 256" "m \<noteq> []"
  shows "fst (check_group_roles m) = (\<exists>x. legal_roles m x)
    \<and> (if fst (check_group_roles m) then legal_roles m (snd (check_group_roles m)) else snd (check_group_roles m) = m)"
  using searched_roles [OF assms] by (auto simp: searched_def split: if_splits)

text \<open>Three players who offer all roles, tank or healer, and healer.\<close>

lemma group_roles_exact_witness:
  "check_group_roles [(1, 15), (2, 6), (3, 4)] = (True, [(1, 9), (2, 2), (3, 4)]) \<and> (\<exists>x. legal_roles [(1, 15), (2, 6), (3, 4)] x)"
proof -
  have c: "check_group_roles [(1, 15), (2, 6), (3, 4)] = (True, [(1, 9), (2, 2), (3, 4)])" by code_simp
  have "om_inv [(1, 15), (2, 6), (3, 4) :: guid \<times> u8]" by (simp add: om_inv_def)
  from group_roles_exact [OF this] c show ?thesis by simp
qed

end
