(* ===== verification/LfgQueue.thy ===== *)
theory LfgQueue
  imports LfgRoles "HOL-Library.List_Lexorder" "HOL-Library.Char_ord" "HOL-Library.Sublist"
begin

text \<open>
  The dungeon finder's queue: \<open>LFGQueue.cpp\<close>, with the data of players and groups it reads
  (\<open>LFGPlayerData.cpp\<close>, \<open>LFGGroupData.cpp\<close>, all under \<open>src/server/game/DungeonFinding/\<close>). Groups and single
  players wait under their GUID. A set of them is known by the decimal numbers of its GUIDs in order,
  joined by bars; under that text the queue keeps what it found out about the set. A set that fits
  becomes a proposal, which \<open>lq_made\<close> collects for \<open>LFGMgr::AddProposal\<close>. Reading a missing entry
  with \<open>operator[]\<close> gives the values of the constructor.
\<close>

section \<open>Players and groups\<close>

datatype lfg_state = LFG_STATE_NONE | LFG_STATE_ROLECHECK | LFG_STATE_QUEUED | LFG_STATE_PROPOSAL | LFG_STATE_DUNGEON
  | LFG_STATE_FINISHED_DUNGEON | LFG_STATE_RAIDBROWSER

record lfg_player_data =
  ldp_state :: lfg_state
  ldp_old :: lfg_state
  ldp_team :: u8
  ldp_group :: guid
  ldp_roles :: u8
  ldp_comment :: string
  ldp_selected :: "u32 list"

record lfg_group_data =
  ldg_state :: lfg_state
  ldg_old :: lfg_state
  ldg_leader :: guid
  ldg_players :: "guid list"
  ldg_dungeon :: u32
  ldg_kicks :: u8
  ldg_vote :: bool

definition LFG_GROUP_MAX_KICKS :: u8 where "LFG_GROUP_MAX_KICKS = 3"

definition new_lfg_player :: lfg_player_data where
  "new_lfg_player = \<lparr>ldp_state = LFG_STATE_NONE, ldp_old = LFG_STATE_NONE, ldp_team = 0, ldp_group = 0, ldp_roles = 0, ldp_comment = [], ldp_selected = []\<rparr>"

definition new_lfg_group :: lfg_group_data where
  "new_lfg_group = \<lparr>ldg_state = LFG_STATE_NONE, ldg_old = LFG_STATE_NONE, ldg_leader = 0, ldg_players = [], ldg_dungeon = 0,
     ldg_kicks = LFG_GROUP_MAX_KICKS, ldg_vote = False\<rparr>"

definition lfg_player_set_state :: "lfg_state \<Rightarrow> lfg_player_data \<Rightarrow> lfg_player_data" where
  "lfg_player_set_state s p =
     (let p1 = (if s = LFG_STATE_NONE \<or> s = LFG_STATE_FINISHED_DUNGEON then p\<lparr>ldp_roles := 0, ldp_selected := [], ldp_comment := []\<rparr> else p);
          p2 = (if s \<in> {LFG_STATE_NONE, LFG_STATE_FINISHED_DUNGEON, LFG_STATE_DUNGEON} then p1\<lparr>ldp_old := s\<rparr> else p1)
      in p2\<lparr>ldp_state := s\<rparr>)"

definition lfg_player_restore :: "lfg_player_data \<Rightarrow> lfg_player_data" where
  "lfg_player_restore p =
     (let p1 = (if ldp_old p = LFG_STATE_NONE then p\<lparr>ldp_selected := [], ldp_roles := 0\<rparr> else p) in p1\<lparr>ldp_state := ldp_old p1\<rparr>)"

definition lfg_group_set_state :: "lfg_state \<Rightarrow> lfg_group_data \<Rightarrow> lfg_group_data" where
  "lfg_group_set_state s p =
     (let p1 = (if s = LFG_STATE_NONE then p\<lparr>ldg_dungeon := 0, ldg_kicks := LFG_GROUP_MAX_KICKS\<rparr> else p);
          p2 = (if s \<in> {LFG_STATE_NONE, LFG_STATE_FINISHED_DUNGEON, LFG_STATE_DUNGEON} then p1\<lparr>ldg_old := s\<rparr> else p1)
      in p2\<lparr>ldg_state := s\<rparr>)"

definition lfg_group_restore :: "lfg_group_data \<Rightarrow> lfg_group_data" where
  "lfg_group_restore p = p\<lparr>ldg_state := ldg_old p\<rparr>"

record lfg_stores =
  ls_players :: "(guid, lfg_player_data) omap"
  ls_groups :: "(guid, lfg_group_data) omap"

definition lfg_player :: "lfg_stores \<Rightarrow> guid \<Rightarrow> lfg_player_data" where
  "lfg_player st g = (case map_of (ls_players st) g of None \<Rightarrow> new_lfg_player | Some p \<Rightarrow> p)"

definition lfg_group :: "lfg_stores \<Rightarrow> guid \<Rightarrow> lfg_group_data" where
  "lfg_group st g = (case map_of (ls_groups st) g of None \<Rightarrow> new_lfg_group | Some p \<Rightarrow> p)"

definition lfg_get_state :: "lfg_stores \<Rightarrow> guid \<Rightarrow> lfg_state" where
  "lfg_get_state st g = (if is_group g then ldg_state (lfg_group st g) else ldp_state (lfg_player st g))"

definition lfg_get_old_state :: "lfg_stores \<Rightarrow> guid \<Rightarrow> lfg_state" where
  "lfg_get_old_state st g = (if is_group g then ldg_old (lfg_group st g) else ldp_old (lfg_player st g))"

definition is_lfg_group_guid :: "lfg_stores \<Rightarrow> guid \<Rightarrow> bool" where
  "is_lfg_group_guid st g \<longleftrightarrow> g \<noteq> 0 \<and> is_group g \<and> ldg_old (lfg_group st g) \<noteq> LFG_STATE_NONE"

definition all_queued :: "lfg_stores \<Rightarrow> guid list \<Rightarrow> bool" where
  "all_queued st gs \<longleftrightarrow> gs \<noteq> [] \<and> list_all (\<lambda>g. lfg_get_state st g = LFG_STATE_QUEUED) gs"

text \<open>What the rest of the server knows: who is connected and ignores whom, the time, and the random numbers.\<close>

record lfg_env =
  le_connected :: "guid \<Rightarrow> bool"
  le_ignored :: "guid \<Rightarrow> guid \<Rightarrow> bool"          \<comment> \<open>the list of the first player has the second\<close>
  le_now :: int
  le_urand :: "nat \<Rightarrow> nat"                     \<comment> \<open>\<open>urand(0, n)\<close>\<close>
  le_coin :: "guid \<Rightarrow> bool"                    \<comment> \<open>\<open>urand(0, 1)\<close>, drawn for a player\<close>

definition has_ignore :: "lfg_env \<Rightarrow> guid \<Rightarrow> guid \<Rightarrow> bool" where
  "has_ignore env g h \<longleftrightarrow> le_connected env g \<and> le_connected env h \<and> (le_ignored env g h \<or> le_ignored env h g)"

section \<open>State of the queue\<close>

datatype lfg_compat = LFG_COMPATIBILITY_PENDING | LFG_INCOMPATIBLES_WRONG_GROUP_SIZE | LFG_INCOMPATIBLES_TOO_MUCH_PLAYERS
  | LFG_INCOMPATIBLES_MULTIPLE_LFG_GROUPS | LFG_INCOMPATIBLES_HAS_IGNORES | LFG_INCOMPATIBLES_NO_ROLES | LFG_INCOMPATIBLES_NO_DUNGEONS
  | LFG_COMPATIBLES_WITH_LESS_PLAYERS | LFG_COMPATIBLES_BAD_STATES | LFG_COMPATIBLES_MATCH

text \<open>\<open>compatibility < LFG_COMPATIBLES_WITH_LESS_PLAYERS\<close>\<close>

definition not_compatible :: "lfg_compat \<Rightarrow> bool" where
  "not_compatible c \<longleftrightarrow> c \<notin> {LFG_COMPATIBLES_WITH_LESS_PLAYERS, LFG_COMPATIBLES_BAD_STATES, LFG_COMPATIBLES_MATCH}"

record lfg_compat_data =
  lc_compat :: lfg_compat
  lc_roles :: lfg_roles

record lfg_data =
  ld_join :: int
  ld_tanks :: u8
  ld_healers :: u8
  ld_dps :: u8
  ld_dungeons :: "u32 list"
  ld_roles :: lfg_roles
  ld_best :: string

record lfg_wait =
  lw_time :: i32
  lw_number :: u32

datatype lfg_answer = LFG_ANSWER_PENDING | LFG_ANSWER_DENY | LFG_ANSWER_AGREE

datatype lfg_proposal_state = LFG_PROPOSAL_INITIATING | LFG_PROPOSAL_FAILED | LFG_PROPOSAL_SUCCESS

record lfg_proposal_player =
  lpp_role :: u8
  lpp_accept :: lfg_answer
  lpp_group :: guid

record lfg_proposal =
  lpr_id :: u32
  lpr_dungeon :: u32
  lpr_state :: lfg_proposal_state
  lpr_group :: guid
  lpr_leader :: guid
  lpr_cancel :: int
  lpr_new :: bool
  lpr_queues :: "guid list"
  lpr_players :: "(guid, lfg_proposal_player) omap"

record lfg_status =
  lqs_dungeon :: u32
  lqs_wait :: i32
  lqs_avg :: i32
  lqs_tank :: i32
  lqs_healer :: i32
  lqs_dps :: i32
  lqs_queued :: u32
  lqs_tanks :: u8
  lqs_healers :: u8
  lqs_dps_needed :: u8

record lfg_queue =
  lq_data :: "(guid, lfg_data) omap"
  lq_compat :: "(string, lfg_compat_data) omap"
  lq_avg :: "(u32, lfg_wait) omap"
  lq_tank :: "(u32, lfg_wait) omap"
  lq_healer :: "(u32, lfg_wait) omap"
  lq_dps :: "(u32, lfg_wait) omap"
  lq_current :: "guid list"
  lq_new :: "guid list"
  lq_made :: "lfg_proposal list"
  lq_status :: "(guid \<times> lfg_status) list"      \<comment> \<open>\<open>SendLfgQueueStatus\<close>\<close>

definition new_lfg_queue :: lfg_queue where
  "new_lfg_queue = \<lparr>lq_data = [], lq_compat = [], lq_avg = [], lq_tank = [], lq_healer = [], lq_dps = [], lq_current = [], lq_new = [],
     lq_made = [], lq_status = []\<rparr>"

definition new_lfg_data :: "int \<Rightarrow> u32 list \<Rightarrow> lfg_roles \<Rightarrow> lfg_data" where
  "new_lfg_data t ds rs = \<lparr>ld_join = t, ld_tanks = LFG_TANKS_NEEDED, ld_healers = LFG_HEALERS_NEEDED, ld_dps = LFG_DPS_NEEDED,
     ld_dungeons = ds, ld_roles = rs, ld_best = []\<rparr>"

definition lfg_data_of :: "lfg_queue \<Rightarrow> guid \<Rightarrow> lfg_data" where
  "lfg_data_of q g = (case map_of (lq_data q) g of None \<Rightarrow> new_lfg_data 0 [] [] | Some d \<Rightarrow> d)"

section \<open>Keys\<close>

definition guid_text :: "guid \<Rightarrow> string" where
  "guid_text g = show_nat (unat g)"

definition concatenate_guids :: "guid list \<Rightarrow> string" where
  "concatenate_guids gs =
     (case fold os_ins gs [] of [] \<Rightarrow> [] | g # hs \<Rightarrow> guid_text g @ concat (map (\<lambda>h. CHR ''|'' # guid_text h) hs))"

text \<open>\<open>std::string::npos != key.find(sguid)\<close>\<close>

definition mentions :: "string \<Rightarrow> guid \<Rightarrow> bool" where
  "mentions key g \<longleftrightarrow> sublist (guid_text g) key"

definition key_size :: "string \<Rightarrow> u8" where
  "key_size key = of_nat (count_list key CHR ''|'' + 1)"

section \<open>Operations\<close>

definition lfg_add_to_new :: "guid \<Rightarrow> lfg_queue \<Rightarrow> lfg_queue" where
  "lfg_add_to_new g q = q\<lparr>lq_new := lq_new q @ [g]\<rparr>"

definition lfg_remove_from_new :: "guid \<Rightarrow> lfg_queue \<Rightarrow> lfg_queue" where
  "lfg_remove_from_new g q = q\<lparr>lq_new := filter (\<lambda>h. h \<noteq> g) (lq_new q)\<rparr>"

definition lfg_add_to_current :: "guid \<Rightarrow> lfg_queue \<Rightarrow> lfg_queue" where
  "lfg_add_to_current g q = q\<lparr>lq_current := lq_current q @ [g]\<rparr>"

definition lfg_add_to_front :: "guid \<Rightarrow> lfg_queue \<Rightarrow> lfg_queue" where
  "lfg_add_to_front g q = q\<lparr>lq_current := g # lq_current q\<rparr>"

definition lfg_remove_from_current :: "guid \<Rightarrow> lfg_queue \<Rightarrow> lfg_queue" where
  "lfg_remove_from_current g q = q\<lparr>lq_current := filter (\<lambda>h. h \<noteq> g) (lq_current q)\<rparr>"

definition lfg_add_to_queue :: "guid \<Rightarrow> bool \<Rightarrow> lfg_queue \<Rightarrow> lfg_queue" where
  "lfg_add_to_queue g readd q =
     (case map_of (lq_data q) g of None \<Rightarrow> q | Some _ \<Rightarrow> if readd then lfg_add_to_front g q else lfg_add_to_new g q)"

definition lfg_add_queue_data :: "guid \<Rightarrow> int \<Rightarrow> u32 list \<Rightarrow> lfg_roles \<Rightarrow> lfg_queue \<Rightarrow> lfg_queue" where
  "lfg_add_queue_data g t ds rs q = lfg_add_to_queue g False (q\<lparr>lq_data := om_set g (new_lfg_data t ds rs) (lq_data q)\<rparr>)"

definition lfg_remove_queue_data :: "guid \<Rightarrow> lfg_queue \<Rightarrow> lfg_queue" where
  "lfg_remove_queue_data g q = q\<lparr>lq_data := om_del g (lq_data q)\<rparr>"

definition remove_from_compatibles :: "guid \<Rightarrow> lfg_queue \<Rightarrow> lfg_queue" where
  "remove_from_compatibles g q = q\<lparr>lq_compat := filter (\<lambda>(k, c). \<not> mentions k g) (lq_compat q)\<rparr>"

definition set_compatibles :: "string \<Rightarrow> lfg_compat \<Rightarrow> lfg_queue \<Rightarrow> lfg_queue" where
  "set_compatibles k c q =
     q\<lparr>lq_compat := om_set k (case map_of (lq_compat q) k of None \<Rightarrow> \<lparr>lc_compat = c, lc_roles = []\<rparr> | Some x \<Rightarrow> x\<lparr>lc_compat := c\<rparr>) (lq_compat q)\<rparr>"

definition set_compatibility_data :: "string \<Rightarrow> lfg_compat_data \<Rightarrow> lfg_queue \<Rightarrow> lfg_queue" where
  "set_compatibility_data k x q = q\<lparr>lq_compat := om_set k x (lq_compat q)\<rparr>"

definition get_compatibles :: "string \<Rightarrow> lfg_queue \<Rightarrow> lfg_compat" where
  "get_compatibles k q = (case map_of (lq_compat q) k of None \<Rightarrow> LFG_COMPATIBILITY_PENDING | Some x \<Rightarrow> lc_compat x)"

definition count_needed :: "u8 \<Rightarrow> lfg_data \<Rightarrow> lfg_data" where
  "count_needed r d =
     (if r AND PLAYER_ROLE_TANK \<noteq> 0 then d\<lparr>ld_tanks := ld_tanks d - 1\<rparr>
      else if r AND PLAYER_ROLE_HEALER \<noteq> 0 then d\<lparr>ld_healers := ld_healers d - 1\<rparr>
      else d\<lparr>ld_dps := ld_dps d - 1\<rparr>)"

definition update_best_compatible :: "string \<Rightarrow> lfg_roles \<Rightarrow> lfg_data \<Rightarrow> lfg_data" where
  "update_best_compatible key rs d =
     (let stored = (if ld_best d = [] then 0 else key_size (ld_best d))
      in if key_size key \<le> stored then d
         else fold (\<lambda>p. count_needed (snd p)) rs
           (d\<lparr>ld_best := key, ld_tanks := LFG_TANKS_NEEDED, ld_healers := LFG_HEALERS_NEEDED, ld_dps := LFG_DPS_NEEDED\<rparr>))"

definition find_best_compatible :: "lfg_queue \<Rightarrow> guid \<Rightarrow> lfg_data \<Rightarrow> lfg_data" where
  "find_best_compatible q g =
     fold (\<lambda>(k, x) d. if lc_compat x = LFG_COMPATIBLES_WITH_LESS_PLAYERS \<and> mentions k g then update_best_compatible k (lc_roles x) d else d) (lq_compat q)"

definition forget_best :: "lfg_queue \<Rightarrow> guid \<Rightarrow> guid \<times> lfg_data \<Rightarrow> guid \<times> lfg_data" where
  "forget_best q g p =
     (if fst p \<noteq> g \<and> mentions (ld_best (snd p)) g then (fst p, find_best_compatible q (fst p) ((snd p)\<lparr>ld_best := []\<rparr>)) else p)"

definition lfg_remove_from_queue :: "guid \<Rightarrow> lfg_queue \<Rightarrow> lfg_queue" where
  "lfg_remove_from_queue g q =
     (let q1 = remove_from_compatibles g (lfg_remove_from_current g (lfg_remove_from_new g q))
      in q1\<lparr>lq_data := om_del g (map (forget_best q1 g) (lq_data q1))\<rparr>)"

section \<open>Whether a set fits\<close>

text \<open>
  The first loop: players, groups of the dungeon finder among the set, and the group each player came
  with. \<open>Inl\<close> is a GUID without data. The counter of players has eight bits.
\<close>

record lfg_census =
  cn_players :: u8
  cn_lfg :: u8
  cn_group :: guid
  cn_groups :: "(guid, guid) omap"

fun lfg_census_of :: "lfg_stores \<Rightarrow> lfg_queue \<Rightarrow> guid list \<Rightarrow> lfg_census \<Rightarrow> guid + lfg_census" where
  "lfg_census_of st q [] c = Inr c"
| "lfg_census_of st q (g # gs) c =
     (if cn_lfg c < 2 \<and> cn_players c \<le> of_nat 5 then
        (case map_of (lq_data q) g of
           None \<Rightarrow> Inl g
         | Some d \<Rightarrow>
             (let c1 = c\<lparr>cn_groups := fold (\<lambda>p. om_set (fst p) (if is_group g then g else 0)) (ld_roles d) (cn_groups c),
                         cn_players := cn_players c + of_nat (length (ld_roles d))\<rparr>;
                  c2 = (if is_lfg_group_guid st g
                        then c1\<lparr>cn_group := if cn_lfg c1 = 0 then g else cn_group c1, cn_lfg := cn_lfg c1 + 1\<rparr> else c1)
              in lfg_census_of st q gs c2))
      else Inr c)"

text \<open>The offers of all players of the set, less those who ignore one before them.\<close>

definition join_offer :: "lfg_env \<Rightarrow> guid \<times> u8 \<Rightarrow> lfg_roles \<Rightarrow> lfg_roles" where
  "join_offer env p m = (if list_ex (\<lambda>q. fst q \<noteq> fst p \<and> has_ignore env (fst p) (fst q)) m then m else om_set (fst p) (snd p) m)"

definition joined_offers :: "lfg_env \<Rightarrow> lfg_queue \<Rightarrow> guid list \<Rightarrow> lfg_roles" where
  "joined_offers env q gs = fold (join_offer env) (concat (map (\<lambda>g. ld_roles (lfg_data_of q g)) gs)) []"

definition common_dungeons :: "lfg_queue \<Rightarrow> guid list \<Rightarrow> u32 list" where
  "common_dungeons q gs =
     fold (\<lambda>g ds. filter (\<lambda>x. x \<in> set (ld_dungeons (lfg_data_of q g))) ds) (tl gs) (ld_dungeons (lfg_data_of q (hd gs)))"

definition set_best :: "string \<Rightarrow> lfg_roles \<Rightarrow> guid \<Rightarrow> lfg_queue \<Rightarrow> lfg_queue" where
  "set_best key rs g q = q\<lparr>lq_data := om_upd g (update_best_compatible key rs) (lq_data q)\<rparr>"

definition fits_so_far :: "string \<Rightarrow> lfg_roles \<Rightarrow> guid list \<Rightarrow> lfg_queue \<Rightarrow> lfg_compat \<times> lfg_queue" where
  "fits_so_far key rs gs q =
     (LFG_COMPATIBLES_WITH_LESS_PLAYERS,
      set_compatibility_data key \<lparr>lc_compat = LFG_COMPATIBLES_WITH_LESS_PLAYERS, lc_roles = rs\<rparr> (fold (set_best key rs) gs q))"

definition elect_step :: "lfg_env \<Rightarrow> guid \<times> u8 \<Rightarrow> bool \<times> guid \<Rightarrow> bool \<times> guid" where
  "elect_step env p e =
     (if snd p AND PLAYER_ROLE_LEADER \<noteq> 0
      then (True, if \<not> fst e \<or> snd e = 0 \<or> le_coin env (fst p) then fst p else snd e)
      else if \<not> fst e \<and> (snd e = 0 \<or> le_coin env (fst p)) then (fst e, fst p)
      else e)"

definition LFG_TIME_PROPOSAL :: int where "LFG_TIME_PROPOSAL = 45"

definition make_proposal :: "lfg_env \<Rightarrow> lfg_stores \<Rightarrow> guid list \<Rightarrow> lfg_census \<Rightarrow> lfg_roles \<Rightarrow> u32 list \<Rightarrow> lfg_proposal" where
  "make_proposal env st gs c rs ds =
     (let fresh = (cn_lfg c \<noteq> 1 \<or> lfg_get_old_state st (hd gs) \<noteq> LFG_STATE_DUNGEON);
          group_of = (\<lambda>g. case map_of (cn_groups c) g of None \<Rightarrow> 0 | Some x \<Rightarrow> x)
      in \<lparr>lpr_id = 0, lpr_dungeon = ds ! (le_urand env (length ds - 1) mod length ds), lpr_state = LFG_PROPOSAL_INITIATING,
          lpr_group = cn_group c, lpr_leader = snd (fold (elect_step env) rs (False, 0)), lpr_cancel = le_now env + LFG_TIME_PROPOSAL,
          lpr_new = fresh, lpr_queues = gs,
          lpr_players = map (\<lambda>(g, r). (g, \<lparr>lpp_role = r,
            lpp_accept = (if \<not> fresh \<and> group_of g \<noteq> 0 \<and> group_of g = cn_group c then LFG_ANSWER_AGREE else LFG_ANSWER_PENDING),
            lpp_group = group_of g\<rparr>)) rs\<rparr>)"

text \<open>The rest of \<open>CheckCompatibility\<close>, once the set fits: too few players yet, or a proposal.\<close>

definition propose :: "lfg_env \<Rightarrow> lfg_stores \<Rightarrow> string \<Rightarrow> guid list \<Rightarrow> lfg_census \<Rightarrow> lfg_roles \<Rightarrow> u32 list \<Rightarrow> lfg_queue \<Rightarrow> lfg_compat \<times> lfg_queue" where
  "propose env st key gs c rs ds q =
     (if cn_players c \<noteq> of_nat 5 then fits_so_far key rs gs q
      else if \<not> all_queued st gs then (LFG_COMPATIBLES_BAD_STATES, set_compatibles key LFG_COMPATIBLES_BAD_STATES q)
      else
        (let q1 = fold (\<lambda>g q. lfg_remove_from_current g (lfg_remove_from_new g q)) gs q
         in (LFG_COMPATIBLES_MATCH,
             set_compatibles key LFG_COMPATIBLES_MATCH (q1\<lparr>lq_made := lq_made q1 @ [make_proposal env st gs c rs ds]\<rparr>))))"

definition check_set :: "lfg_env \<Rightarrow> lfg_stores \<Rightarrow> string \<Rightarrow> guid list \<Rightarrow> lfg_queue \<Rightarrow> lfg_compat \<times> lfg_queue" where
  "check_set env st key gs q =
     (case lfg_census_of st q gs \<lparr>cn_players = 0, cn_lfg = 0, cn_group = 0, cn_groups = []\<rparr> of
        Inl g \<Rightarrow> (LFG_COMPATIBILITY_PENDING, lfg_remove_from_queue g q)
      | Inr c \<Rightarrow>
          if length gs = 1 \<and> cn_players c \<noteq> of_nat 5 then
            fits_so_far key (snd (check_group_roles (ld_roles (lfg_data_of q (hd gs))))) gs q
          else if 1 < cn_lfg c then (LFG_INCOMPATIBLES_MULTIPLE_LFG_GROUPS, set_compatibles key LFG_INCOMPATIBLES_MULTIPLE_LFG_GROUPS q)
          else if of_nat 5 < cn_players c then (LFG_INCOMPATIBLES_TOO_MUCH_PLAYERS, set_compatibles key LFG_INCOMPATIBLES_TOO_MUCH_PLAYERS q)
          else if 1 < length gs then
            (let offers = joined_offers env q gs; res = check_group_roles offers; ds = common_dungeons q gs
             in if cn_players c - of_nat (length offers) \<noteq> 0
                then (LFG_INCOMPATIBLES_HAS_IGNORES, set_compatibles key LFG_INCOMPATIBLES_HAS_IGNORES q)
                else if \<not> fst res then (LFG_INCOMPATIBLES_NO_ROLES, set_compatibles key LFG_INCOMPATIBLES_NO_ROLES q)
                else if ds = [] then (LFG_INCOMPATIBLES_NO_DUNGEONS, set_compatibles key LFG_INCOMPATIBLES_NO_DUNGEONS q)
                else propose env st key gs c (snd res) ds q)
          else
            (let d = lfg_data_of q (hd gs)
             in propose env st key gs c (snd (check_group_roles (ld_roles d))) (ld_dungeons d) q))"

fun check_compatibility :: "lfg_env \<Rightarrow> lfg_stores \<Rightarrow> guid list \<Rightarrow> lfg_queue \<Rightarrow> lfg_compat \<times> lfg_queue" where
  "check_compatibility env st [] q = (LFG_INCOMPATIBLES_WRONG_GROUP_SIZE, q)"
| "check_compatibility env st (g # gs) q =
     (let key = concatenate_guids (g # gs)
      in if 5 < length (g # gs) then (LFG_INCOMPATIBLES_WRONG_GROUP_SIZE, q)
         else if 2 < length (g # gs) then
           (let (child, q1) = check_compatibility env st gs q
            in if not_compatible child then (child, set_compatibles key child q1) else check_set env st key (g # gs) q1)
         else check_set env st key (g # gs) q)"

section \<open>The search\<close>

text \<open>
  \<open>FindNewGroups\<close> takes the others by reference: what a call has tried is gone for the loops above it.
  The fuel is the number of the others, and each turn of the loop uses one up; \<open>search_is_one_pass\<close> shows that
  it is enough.
\<close>

fun find_new_groups :: "nat \<Rightarrow> lfg_env \<Rightarrow> lfg_stores \<Rightarrow> guid list \<Rightarrow> guid list \<Rightarrow> lfg_queue \<Rightarrow> lfg_compat \<times> guid list \<times> lfg_queue"
  and try_others :: "nat \<Rightarrow> lfg_env \<Rightarrow> lfg_stores \<Rightarrow> lfg_compat \<Rightarrow> guid list \<Rightarrow> guid list \<Rightarrow> lfg_queue \<Rightarrow> lfg_compat \<times> guid list \<times> lfg_queue"
where
  "find_new_groups n env st check others q =
     (let key = concatenate_guids check; cached = get_compatibles key q;
          (c, q1) = (if cached = LFG_COMPATIBILITY_PENDING then check_compatibility env st check q else (cached, q))
      in if c = LFG_COMPATIBLES_BAD_STATES \<and> all_queued st check
         then (LFG_COMPATIBLES_MATCH, others, set_compatibles key LFG_COMPATIBLES_MATCH q1)
         else if c \<noteq> LFG_COMPATIBLES_WITH_LESS_PLAYERS then (c, others, q1)
         else try_others n env st c check others q1)"
| "try_others 0 env st c check others q = (c, others, q)"
| "try_others (Suc n) env st c check [] q = (c, [], q)"
| "try_others (Suc n) env st c check (g # others) q =
     (let (sub, rest, q1) = find_new_groups n env st (check @ [g]) others q
      in if sub = LFG_COMPATIBLES_MATCH then (LFG_COMPATIBLES_MATCH, rest, q1) else try_others n env st c check rest q1)"

text \<open>One round of \<open>FindGroups\<close>: the first of the new ones finds a group or joins the queue.\<close>

definition find_round :: "lfg_env \<Rightarrow> lfg_stores \<Rightarrow> u8 \<times> lfg_queue \<Rightarrow> u8 \<times> lfg_queue" where
  "find_round env st s =
     (case lq_new (snd s) of
        [] \<Rightarrow> s
      | g # _ \<Rightarrow>
          (let q = lfg_remove_from_new g (snd s);
               (c, _, q1) = find_new_groups (length (lq_current q)) env st [g] (lq_current q) q
           in if c = LFG_COMPATIBLES_MATCH then (fst s + 1, q1) else (fst s, lfg_add_to_current g q1)))"

definition find_groups :: "lfg_env \<Rightarrow> lfg_stores \<Rightarrow> lfg_queue \<Rightarrow> u8 \<times> lfg_queue" where
  "find_groups env st q = (find_round env st ^^ length (lq_new q)) (0, q)"

section \<open>Waiting times\<close>

text \<open>\<open>(wt.time * old_number + waitTime) / wt.number\<close> is computed in \<open>uint32\<close>.\<close>

definition add_wait :: "i32 \<Rightarrow> u32 \<Rightarrow> (u32, lfg_wait) omap \<Rightarrow> (u32, lfg_wait) omap" where
  "add_wait t dungeon m =
     (let w = (case map_of m dungeon of None \<Rightarrow> \<lparr>lw_time = - 1, lw_number = 0\<rparr> | Some w \<Rightarrow> w)
      in om_set dungeon \<lparr>lw_time = (lw_time w * lw_number w + t) div (lw_number w + 1), lw_number = lw_number w + 1\<rparr> m)"

definition update_wait_avg :: "i32 \<Rightarrow> u32 \<Rightarrow> lfg_queue \<Rightarrow> lfg_queue" where
  "update_wait_avg t d q = q\<lparr>lq_avg := add_wait t d (lq_avg q)\<rparr>"

definition update_wait_tank :: "i32 \<Rightarrow> u32 \<Rightarrow> lfg_queue \<Rightarrow> lfg_queue" where
  "update_wait_tank t d q = q\<lparr>lq_tank := add_wait t d (lq_tank q)\<rparr>"

definition update_wait_healer :: "i32 \<Rightarrow> u32 \<Rightarrow> lfg_queue \<Rightarrow> lfg_queue" where
  "update_wait_healer t d q = q\<lparr>lq_healer := add_wait t d (lq_healer q)\<rparr>"

definition update_wait_dps :: "i32 \<Rightarrow> u32 \<Rightarrow> lfg_queue \<Rightarrow> lfg_queue" where
  "update_wait_dps t d q = q\<lparr>lq_dps := add_wait t d (lq_dps q)\<rparr>"

definition wait_time :: "u32 \<Rightarrow> (u32, lfg_wait) omap \<Rightarrow> i32" where
  "wait_time dungeon m = (case map_of m dungeon of None \<Rightarrow> - 1 | Some w \<Rightarrow> lw_time w)"

definition touch_wait :: "u32 \<Rightarrow> (u32, lfg_wait) omap \<Rightarrow> (u32, lfg_wait) omap" where
  "touch_wait dungeon m = (case map_of m dungeon of None \<Rightarrow> om_set dungeon \<lparr>lw_time = - 1, lw_number = 0\<rparr> m | Some _ \<Rightarrow> m)"

text \<open>\<open>UpdateQueueTimers\<close>, for one entry; reading a time makes its entry.\<close>

definition update_timer :: "int \<Rightarrow> guid \<Rightarrow> lfg_queue \<Rightarrow> lfg_queue" where
  "update_timer now g q =
     (let d = lfg_data_of q g; dungeon = hd (ld_dungeons d);
          role = fold (\<lambda>p r. r OR snd p) (ld_roles d) 0 AND NOT PLAYER_ROLE_LEADER;
          avg = wait_time dungeon (lq_avg q); tank = wait_time dungeon (lq_tank q);
          healer = wait_time dungeon (lq_healer q); dps = wait_time dungeon (lq_dps q);
          wait = (if role = PLAYER_ROLE_NONE then - 1 else if role = PLAYER_ROLE_TANK then tank else if role = PLAYER_ROLE_HEALER then healer
                  else if role = PLAYER_ROLE_DAMAGE then dps else avg);
          q1 = q\<lparr>lq_avg := touch_wait dungeon (lq_avg q), lq_tank := touch_wait dungeon (lq_tank q),
                 lq_healer := touch_wait dungeon (lq_healer q), lq_dps := touch_wait dungeon (lq_dps q)\<rparr>;
          d1 = (if ld_best d = [] then find_best_compatible q1 g d else d);
          status = \<lparr>lqs_dungeon = dungeon, lqs_wait = wait, lqs_avg = avg, lqs_tank = tank, lqs_healer = healer, lqs_dps = dps,
            lqs_queued = of_int (now - ld_join d), lqs_tanks = ld_tanks d1, lqs_healers = ld_healers d1, lqs_dps_needed = ld_dps d1\<rparr>
      in q1\<lparr>lq_data := om_upd g (\<lambda>_. d1) (lq_data q1), lq_status := lq_status q1 @ map (\<lambda>p. (fst p, status)) (ld_roles d)\<rparr>)"

definition update_queue_timers :: "int \<Rightarrow> lfg_queue \<Rightarrow> lfg_queue" where
  "update_queue_timers now q = fold (update_timer now) (map fst (lq_data q)) q"

end
