(* ===== verification/LfgMatches.thy ===== *)
theory LfgMatches
  imports LfgQueue
begin

text \<open>
  What the search of the dungeon finder does: every proposal it makes can be played, and it ends, but it
  is a single pass that can miss a group; an entry that is removed leaves no trace. \<open>queue_ok\<close> is what every run keeps of the entries.
\<close>

section \<open>Entries that can wait\<close>

definition can_wait :: "u32 list \<Rightarrow> lfg_roles \<Rightarrow> bool" where
  "can_wait ds rs \<longleftrightarrow> ds \<noteq> [] \<and> om_inv rs \<and> rs \<noteq> [] \<and> length rs \<le> 5 \<and> (1 < length rs \<longrightarrow> fst (check_group_roles rs))"

definition queue_ok :: "lfg_queue \<Rightarrow> bool" where
  "queue_ok q \<longleftrightarrow> (\<forall>g d. map_of (lq_data q) g = Some d \<longrightarrow> can_wait (ld_dungeons d) (ld_roles d))"

text \<open>A proposal that can be played by those who wait.\<close>

definition proposal_roles :: "lfg_proposal \<Rightarrow> lfg_roles" where
  "proposal_roles p = map (\<lambda>x. (fst x, lpp_role (snd x))) (lpr_players p)"

definition playable :: "lfg_env \<Rightarrow> lfg_stores \<Rightarrow> lfg_queue \<Rightarrow> lfg_proposal \<Rightarrow> bool" where
  "playable env st q p \<longleftrightarrow>
     om_inv (lpr_players p)
   \<and> count_role PLAYER_ROLE_TANK (proposal_roles p) = 1 \<and> count_role PLAYER_ROLE_HEALER (proposal_roles p) = 1
   \<and> count_role PLAYER_ROLE_DAMAGE (proposal_roles p) = 3 \<and> length (lpr_players p) = 5
   \<and> (\<forall>g \<in> set (lpr_queues p). lfg_get_state st g = LFG_STATE_QUEUED
        \<and> (\<exists>d. map_of (lq_data q) g = Some d \<and> lpr_dungeon p \<in> set (ld_dungeons d) \<and> fst ` set (ld_roles d) \<subseteq> fst ` set (lpr_players p)))
   \<and> (\<forall>x \<in> set (proposal_roles p). \<exists>g \<in> set (lpr_queues p). \<exists>d r. map_of (lq_data q) g = Some d
        \<and> (fst x, r) \<in> set (ld_roles d) \<and> role_choice r (snd x))
   \<and> (1 < length (lpr_queues p) \<longrightarrow> (\<forall>x \<in> fst ` set (lpr_players p). \<forall>y \<in> fst ` set (lpr_players p). x \<noteq> y \<longrightarrow> \<not> has_ignore env x y))
   \<and> length (filter (is_lfg_group_guid st) (lpr_queues p)) \<le> 1"

definition entries_kept :: "lfg_queue \<Rightarrow> lfg_queue \<Rightarrow> bool" where
  "entries_kept q q' \<longleftrightarrow> (\<forall>g d'. map_of (lq_data q') g = Some d' \<longrightarrow>
     (\<exists>d. map_of (lq_data q) g = Some d \<and> ld_dungeons d' = ld_dungeons d \<and> ld_roles d' = ld_roles d \<and> ld_join d' = ld_join d))"

definition searches :: "lfg_env \<Rightarrow> lfg_stores \<Rightarrow> lfg_queue \<Rightarrow> lfg_queue \<Rightarrow> bool" where
  "searches env st q q' \<longleftrightarrow> entries_kept q q' \<and> (\<exists>ps. lq_made q' = lq_made q @ ps \<and> (\<forall>p \<in> set ps. playable env st q p))
     \<and> (\<exists>P. lq_new q' = filter P (lq_new q))"

lemma entries_kept_refl [simp]: "entries_kept q q"
  by (simp add: entries_kept_def)

lemma entries_kept_trans: "entries_kept q q1 \<Longrightarrow> entries_kept q1 q2 \<Longrightarrow> entries_kept q q2"
  unfolding entries_kept_def by fastforce

lemma kept_ok: "entries_kept q q' \<Longrightarrow> queue_ok q \<Longrightarrow> queue_ok q'"
  unfolding entries_kept_def queue_ok_def by metis

lemma playable_kept:
  assumes "entries_kept q q1" "playable env st q1 p"
  shows "playable env st q p"
proof -
  have e: "\<exists>d. map_of (lq_data q) g = Some d \<and> ld_dungeons d' = ld_dungeons d \<and> ld_roles d' = ld_roles d" if "map_of (lq_data q1) g = Some d'" for g d'
    using assms(1) that by (auto simp: entries_kept_def)
  show ?thesis using assms(2) unfolding playable_def by (fastforce dest: e)
qed

lemma searches_refl [simp]: "searches env st q q"
  by (auto simp: searches_def intro: exI [of _ "\<lambda>_. True"])

lemma searches_trans:
  assumes "searches env st q q1" "searches env st q1 q2"
  shows "searches env st q q2"
  using assms playable_kept [of q q1 env st] entries_kept_trans [of q q1 q2] unfolding searches_def by fastforce

lemma searches_quiet: "entries_kept q q' \<Longrightarrow> lq_made q' = lq_made q \<Longrightarrow> lq_new q' = filter P (lq_new q) \<Longrightarrow> searches env st q q'"
  by (auto simp: searches_def)

lemma filter_all: "xs = filter (\<lambda>_. True) xs"
  by simp

subsection \<open>The helpers keep the entries\<close>

lemma count_needed_kept [simp]:
  "ld_dungeons (count_needed r d) = ld_dungeons d" "ld_roles (count_needed r d) = ld_roles d" "ld_join (count_needed r d) = ld_join d"
  by (simp_all add: count_needed_def)

lemma count_all_kept [simp]:
  "ld_dungeons (fold (\<lambda>p. count_needed (snd p)) rs d) = ld_dungeons d" "ld_roles (fold (\<lambda>p. count_needed (snd p)) rs d) = ld_roles d"
  "ld_join (fold (\<lambda>p. count_needed (snd p)) rs d) = ld_join d"
  by (induction rs arbitrary: d) simp_all

lemma update_best_kept [simp]:
  "ld_dungeons (update_best_compatible k rs d) = ld_dungeons d" "ld_roles (update_best_compatible k rs d) = ld_roles d"
  "ld_join (update_best_compatible k rs d) = ld_join d"
  by (simp_all add: update_best_compatible_def Let_def)

lemma find_best_kept [simp]:
  "ld_dungeons (find_best_compatible q g d) = ld_dungeons d" "ld_roles (find_best_compatible q g d) = ld_roles d"
  "ld_join (find_best_compatible q g d) = ld_join d"
proof -
  have "ld_dungeons (fold (\<lambda>(k, x) d. if C k x then update_best_compatible k (lc_roles x) d else d) xs d) = ld_dungeons d
      \<and> ld_roles (fold (\<lambda>(k, x) d. if C k x then update_best_compatible k (lc_roles x) d else d) xs d) = ld_roles d
      \<and> ld_join (fold (\<lambda>(k, x) d. if C k x then update_best_compatible k (lc_roles x) d else d) xs d) = ld_join d" for C xs d
    by (induction xs arbitrary: d) (auto simp: split_beta)
  from this [of "\<lambda>k x. lc_compat x = LFG_COMPATIBLES_WITH_LESS_PLAYERS \<and> mentions k g" "lq_compat q" d]
  show "ld_dungeons (find_best_compatible q g d) = ld_dungeons d" "ld_roles (find_best_compatible q g d) = ld_roles d"
    "ld_join (find_best_compatible q g d) = ld_join d"
    by (simp_all add: find_best_compatible_def)
qed

lemma forget_best_kept [simp]:
  "fst (forget_best q g p) = fst p" "ld_dungeons (snd (forget_best q g p)) = ld_dungeons (snd p)"
  "ld_roles (snd (forget_best q g p)) = ld_roles (snd p)" "ld_join (snd (forget_best q g p)) = ld_join (snd p)"
  by (simp_all add: forget_best_def)

lemma forget_best_find: "map_of (map (forget_best q g) m) h = map_option (\<lambda>d. snd (forget_best q g (h, d))) (map_of m h)"
proof (induction m)
  case (Cons p m)
  have "forget_best q g p = (fst p, snd (forget_best q g (fst p, snd p)))" by (simp add: prod_eq_iff)
  then show ?case using Cons.IH by (cases p) (auto simp: map_of_Cons_code(2) split: if_splits)
qed simp

lemma remove_from_queue_kept:
  "entries_kept q (lfg_remove_from_queue g q)" "lq_made (lfg_remove_from_queue g q) = lq_made q"
  "lq_new (lfg_remove_from_queue g q) = filter (\<lambda>h. h \<noteq> g) (lq_new q)"
  by (auto simp: entries_kept_def lfg_remove_from_queue_def Let_def forget_best_find remove_from_compatibles_def
      lfg_remove_from_current_def lfg_remove_from_new_def split: if_splits)

lemma set_compatibles_kept [simp]:
  "lq_data (set_compatibles k c q) = lq_data q" "lq_made (set_compatibles k c q) = lq_made q" "lq_new (set_compatibles k c q) = lq_new q"
  "lq_data (set_compatibility_data k x q) = lq_data q" "lq_made (set_compatibility_data k x q) = lq_made q"
  "lq_new (set_compatibility_data k x q) = lq_new q"
  "lq_current (set_compatibles k c q) = lq_current q" "lq_current (set_compatibility_data k x q) = lq_current q"
  by (simp_all add: set_compatibles_def set_compatibility_data_def)

lemma set_compatibles_searches [simp]: "searches env st q (set_compatibles k c q1) = searches env st q q1"
  by (simp add: searches_def entries_kept_def)

lemma set_best_kept [simp]:
  "lq_made (set_best k rs g q) = lq_made q" "lq_new (set_best k rs g q) = lq_new q" "entries_kept q (set_best k rs g q)"
  by (auto simp: set_best_def entries_kept_def)

lemma fits_kept: "searches env st q (snd (fits_so_far k rs gs q))"
proof -
  have "entries_kept q (fold (set_best k rs) gs q) \<and> lq_made (fold (set_best k rs) gs q) = lq_made q \<and> lq_new (fold (set_best k rs) gs q) = lq_new q"
    by (induction gs arbitrary: q) (auto intro: entries_kept_trans [OF set_best_kept(3)])
  then show ?thesis
    by (intro searches_quiet [where P = "\<lambda>_. True"]) (simp_all add: fits_so_far_def entries_kept_def)
qed

section \<open>Counting and joining\<close>

lemma u8_sum: "unat (a :: u8) + n < 256 \<Longrightarrow> unat (a + of_nat n) = unat a + n"
  by (simp add: unat_word_ariths unat_of_nat)

lemma census_counts:
  assumes "queue_ok q" "lfg_census_of st q gs c0 = Inr c" "unat (cn_players c) \<le> 5" "unat (cn_lfg c) \<le> 1"
  shows "\<forall>g \<in> set gs. map_of (lq_data q) g \<noteq> None"
    "unat (cn_players c) = unat (cn_players c0) + length (concat (map (\<lambda>g. ld_roles (lfg_data_of q g)) gs))"
    "unat (cn_lfg c) = unat (cn_lfg c0) + length (filter (is_lfg_group_guid st) gs)"
proof -
  have "(\<forall>g \<in> set gs. map_of (lq_data q) g \<noteq> None)
      \<and> unat (cn_players c) = unat (cn_players c0) + length (concat (map (\<lambda>g. ld_roles (lfg_data_of q g)) gs))
      \<and> unat (cn_lfg c) = unat (cn_lfg c0) + length (filter (is_lfg_group_guid st) gs)"
    using assms(2)
  proof (induction gs arbitrary: c0)
    case (Cons g gs)
    show ?case
    proof (cases "cn_lfg c0 < 2 \<and> cn_players c0 \<le> of_nat 5")
      case False
      then have "c0 = c" using Cons.prems by (auto split: if_splits)
      then show ?thesis using False assms(3,4) by (auto simp: word_less_nat_alt word_le_nat_alt)
    next
      case True
      then obtain d where d: "map_of (lq_data q) g = Some d" using Cons.prems by (auto split: option.splits)
      let ?c1 = "c0\<lparr>cn_groups := fold (\<lambda>p. om_set (fst p) (if is_group g then g else 0)) (ld_roles d) (cn_groups c0),
                     cn_players := cn_players c0 + of_nat (length (ld_roles d))\<rparr>"
      let ?c2 = "if is_lfg_group_guid st g
                 then ?c1\<lparr>cn_group := if cn_lfg ?c1 = 0 then g else cn_group ?c1, cn_lfg := cn_lfg ?c1 + 1\<rparr> else ?c1"
      have r: "lfg_census_of st q gs ?c2 = Inr c" using Cons.prems True d by (simp add: Let_def)
      note i = Cons.IH [OF r]
      have len: "length (ld_roles d) \<le> 5" using assms(1) d by (auto simp: queue_ok_def can_wait_def)
      have u: "unat (cn_players c0) \<le> 5" "unat (cn_lfg c0) < 2" using True by (simp_all add: word_less_nat_alt word_le_nat_alt)
      have p2: "unat (cn_players ?c2) = unat (cn_players c0) + length (ld_roles d)"
        using u8_sum [of "cn_players c0" "length (ld_roles d)"] u len by simp
      have l2: "unat (cn_lfg ?c2) = unat (cn_lfg c0) + (if is_lfg_group_guid st g then 1 else 0)"
        using u8_sum [of "cn_lfg c0" 1] u by simp
      show ?thesis using i p2 l2 d by (simp add: lfg_data_of_def)
    qed
  qed simp
  then show "\<forall>g \<in> set gs. map_of (lq_data q) g \<noteq> None"
    "unat (cn_players c) = unat (cn_players c0) + length (concat (map (\<lambda>g. ld_roles (lfg_data_of q g)) gs))"
    "unat (cn_lfg c) = unat (cn_lfg c0) + length (filter (is_lfg_group_guid st) gs)" by blast+
qed

lemma has_ignore_sym: "has_ignore env x y = has_ignore env y x"
  by (auto simp: has_ignore_def)

lemma length_om_set: "length (om_set k v m) = (if k \<in> fst ` set m then length m else Suc (length m))" if "om_inv m"
  using that by (induction k v m rule: om_set.induct) (force simp: om_inv_Cons)+

lemma join_all:
  assumes "om_inv m" "length m + length ps \<le> length (fold (join_offer env) ps m)"
  shows "om_inv (fold (join_offer env) ps m) \<and> set (fold (join_offer env) ps m) = set m \<union> set ps
    \<and> ((\<forall>x \<in> fst ` set m. \<forall>y \<in> fst ` set m. x \<noteq> y \<longrightarrow> \<not> has_ignore env x y) \<longrightarrow>
       (\<forall>x \<in> fst ` (set m \<union> set ps). \<forall>y \<in> fst ` (set m \<union> set ps). x \<noteq> y \<longrightarrow> \<not> has_ignore env x y))"
  using assms
proof (induction ps arbitrary: m)
  case (Cons p ps)
  have up: "length (fold (join_offer env) qs n) \<le> length n + length qs \<and> om_inv (fold (join_offer env) qs n)" if "om_inv n" for qs n
    using that
  proof (induction qs arbitrary: n)
    case (Cons a qs)
    have "om_inv (join_offer env a n)" "length (join_offer env a n) \<le> Suc (length n)"
      using Cons.prems by (auto simp: join_offer_def length_om_set)
    then show ?case using Cons.IH [of "join_offer env a n"] by simp
  qed simp
  have ok: "om_inv (join_offer env p m)" using Cons.prems(1) by (simp add: join_offer_def)
  have "length (fold (join_offer env) ps (join_offer env p m)) \<le> length (join_offer env p m) + length ps" using up [OF ok] by blast
  then have l: "Suc (length m) \<le> length (join_offer env p m)" using Cons.prems(2) by simp
  then have j: "join_offer env p m = om_set (fst p) (snd p) m" "fst p \<notin> fst ` set m"
    "\<forall>x \<in> fst ` set m. x \<noteq> fst p \<longrightarrow> \<not> has_ignore env (fst p) x"
    using Cons.prems(1) by (auto simp: join_offer_def length_om_set list_ex_iff split: if_splits)
  have sj: "set (join_offer env p m) = insert p (set m)"
  proof -
    have "(a, b) \<in> set (join_offer env p m) \<longleftrightarrow> (a, b) = p \<or> (a, b) \<in> set m" for a b
      unfolding j(1) om_set_mem [OF Cons.prems(1)] using j(2) by (cases p) (auto simp: rev_image_eqI)
    then show ?thesis by auto
  qed
  have i: "om_inv (fold (join_offer env) ps (join_offer env p m)) \<and> set (fold (join_offer env) ps (join_offer env p m)) = set (join_offer env p m) \<union> set ps
    \<and> ((\<forall>x \<in> fst ` set (join_offer env p m). \<forall>y \<in> fst ` set (join_offer env p m). x \<noteq> y \<longrightarrow> \<not> has_ignore env x y) \<longrightarrow>
       (\<forall>x \<in> fst ` (set (join_offer env p m) \<union> set ps). \<forall>y \<in> fst ` (set (join_offer env p m) \<union> set ps). x \<noteq> y \<longrightarrow> \<not> has_ignore env x y))"
  proof (rule Cons.IH [OF ok])
    have "length (join_offer env p m) = Suc (length m)" using j(1,2) Cons.prems(1) by (simp add: length_om_set)
    then show "length (join_offer env p m) + length ps \<le> length (fold (join_offer env) ps (join_offer env p m))" using Cons.prems(2) by simp
  qed
  have q: "\<forall>x \<in> fst ` set (join_offer env p m). \<forall>y \<in> fst ` set (join_offer env p m). x \<noteq> y \<longrightarrow> \<not> has_ignore env x y"
    if "\<forall>x \<in> fst ` set m. \<forall>y \<in> fst ` set m. x \<noteq> y \<longrightarrow> \<not> has_ignore env x y"
  proof (intro ballI impI)
    fix x y
    assume "x \<in> fst ` set (join_offer env p m)" "y \<in> fst ` set (join_offer env p m)" and ne: "x \<noteq> y"
    then have xy: "x = fst p \<or> x \<in> fst ` set m" "y = fst p \<or> y \<in> fst ` set m" unfolding sj image_insert by blast+
    show "\<not> has_ignore env x y"
    proof (cases "y = fst p")
      case True
      then show ?thesis using xy(1) ne j(3) has_ignore_sym [of env x y] by blast
    next
      case False
      then show ?thesis using xy ne j(3) that by blast
    qed
  qed
  have u: "set (join_offer env p m) \<union> set ps = set m \<union> set (p # ps)" unfolding sj by auto
  have e: "fold (join_offer env) (p # ps) m = fold (join_offer env) ps (join_offer env p m)" by simp
  show ?case unfolding e using i q unfolding u by blast
qed simp

lemma common_dungeons_mem:
  "gs \<noteq> [] \<Longrightarrow> x \<in> set (common_dungeons q gs) \<longleftrightarrow> (\<forall>g \<in> set gs. x \<in> set (ld_dungeons (lfg_data_of q g)))"
proof -
  have "x \<in> set (fold (\<lambda>g ds. filter (\<lambda>x. x \<in> set (F g)) ds) hs ds) \<longleftrightarrow> x \<in> set ds \<and> (\<forall>g \<in> set hs. x \<in> set (F g))" for hs ds and F :: "guid \<Rightarrow> u32 list"
    by (induction hs arbitrary: ds) auto
  then show "gs \<noteq> [] \<Longrightarrow> ?thesis" by (cases gs) (auto simp: common_dungeons_def)
qed

text \<open>Five players with one role each, within the limits, are one tank, one healer and three damage dealers.\<close>

lemma five_roles:
  assumes "legal_roles m x" "length m = 5"
  shows "count_role PLAYER_ROLE_TANK x = 1 \<and> count_role PLAYER_ROLE_HEALER x = 1 \<and> count_role PLAYER_ROLE_DAMAGE x = 3"
proof -
  have l: "list_all2 (\<lambda>p q. fst p = fst q \<and> role_choice (snd p) (snd q)) m x" "role_limits x" using assms(1) by (simp_all add: legal_roles_def)
  from l(1) have "length x = length m \<and> count_role 2 x + count_role 4 x + count_role 8 x = length m"
  proof (induction rule: list_all2_induct)
    case (Cons p m q x)
    have "plain_role (snd q) \<in> {2, 4, 8}" using Cons.hyps by (auto simp: role_choice_def plain_role_def role_consts dest!: low_roles)
    then show ?case using Cons.IH by auto
  qed simp
  then show ?thesis using l(2) assms(2) by (simp add: role_limits_def role_consts)
qed

lemma legal_keys: "legal_roles m x \<Longrightarrow> map fst x = map fst m"
proof -
  assume "legal_roles m x"
  then have "list_all2 (\<lambda>p q. fst p = fst q \<and> role_choice (snd p) (snd q)) m x" by (simp add: legal_roles_def)
  then show ?thesis by (induction rule: list_all2_induct) simp_all
qed

lemma legal_entry: "legal_roles m x \<Longrightarrow> p \<in> set x \<Longrightarrow> \<exists>r. (fst p, r) \<in> set m \<and> role_choice r (snd p)"
proof -
  assume "legal_roles m x"
  then have "list_all2 (\<lambda>p q. fst p = fst q \<and> role_choice (snd p) (snd q)) m x" by (simp add: legal_roles_def)
  then show "p \<in> set x \<Longrightarrow> ?thesis"
  proof (induction rule: list_all2_induct)
    case (Cons a m b x)
    show ?case
    proof (cases "p = b")
      case True
      then have "(fst p, snd a) \<in> set (a # m) \<and> role_choice (snd a) (snd p)" using Cons.hyps by (cases a) auto
      then show ?thesis by blast
    qed (use Cons in auto)
  qed simp
qed

section \<open>Every proposal can be played\<close>

lemma removed_kept: "entries_kept q (fold (\<lambda>g q. lfg_remove_from_current g (lfg_remove_from_new g q)) gs q)
    \<and> lq_made (fold (\<lambda>g q. lfg_remove_from_current g (lfg_remove_from_new g q)) gs q) = lq_made q
    \<and> (\<exists>P. lq_new (fold (\<lambda>g q. lfg_remove_from_current g (lfg_remove_from_new g q)) gs q) = filter P (lq_new q))"
proof (induction gs arbitrary: q)
  case Nil
  then show ?case by (auto intro: exI [of _ "\<lambda>_. True"])
next
  case (Cons g gs)
  let ?r = "lfg_remove_from_current g (lfg_remove_from_new g q)"
  have "lq_data ?r = lq_data q" "lq_made ?r = lq_made q" "lq_new ?r = filter (\<lambda>h. h \<noteq> g) (lq_new q)"
    by (simp_all add: lfg_remove_from_current_def lfg_remove_from_new_def)
  then show ?case using Cons.IH [of ?r] by (auto simp: entries_kept_def)
qed

lemma propose_searches:
  assumes "\<And>c'. cn_players c = of_nat 5 \<Longrightarrow> all_queued st gs \<Longrightarrow> playable env st q (make_proposal env st gs c rs ds)"
  shows "searches env st q (snd (propose env st key gs c rs ds q))"
proof (cases "cn_players c \<noteq> of_nat 5 \<or> \<not> all_queued st gs")
  case True
  then show ?thesis using fits_kept by (auto simp: propose_def)
next
  case False
  then have "playable env st q (make_proposal env st gs c rs ds)" using assms by blast
  then show ?thesis using False removed_kept [of q gs] by (auto simp: propose_def searches_def entries_kept_def Let_def)
qed

lemma make_proposal_playable:
  assumes "gs \<noteq> []" "all_queued st gs" "legal_roles offers rs" "om_inv offers" "length offers = 5" "ds \<noteq> []"
    and "\<And>g. g \<in> set gs \<Longrightarrow> map_of (lq_data q) g \<noteq> None"
    and "\<And>g x. g \<in> set gs \<Longrightarrow> x \<in> set ds \<Longrightarrow> x \<in> set (ld_dungeons (lfg_data_of q g))"
    and "set offers = (\<Union>g \<in> set gs. set (ld_roles (lfg_data_of q g)))"
    and "1 < length gs \<Longrightarrow> \<forall>x \<in> fst ` set offers. \<forall>y \<in> fst ` set offers. x \<noteq> y \<longrightarrow> \<not> has_ignore env x y"
    and "length (filter (is_lfg_group_guid st) gs) \<le> 1"
  shows "playable env st q (make_proposal env st gs c rs ds)"
proof -
  let ?p = "make_proposal env st gs c rs ds"
  have k: "map fst rs = map fst offers" by (rule legal_keys [OF assms(3)])
  have kp: "map fst (lpr_players ?p) = map fst rs" by (simp add: make_proposal_def Let_def split_beta o_def)
  have pr: "proposal_roles ?p = rs" by (simp add: proposal_roles_def make_proposal_def Let_def split_beta o_def)
  have q: "lpr_queues ?p = gs" by (simp add: make_proposal_def Let_def)
  have dn: "lpr_dungeon ?p \<in> set ds" using assms(6) by (simp add: make_proposal_def Let_def)
  have inv: "om_inv (lpr_players ?p)" using assms(4) k kp unfolding om_inv_def by simp
  have sp: "fst ` set (lpr_players ?p) = fst ` set offers" using k kp by (metis list.set_map)
  have len: "length (lpr_players ?p) = 5" using k kp assms(5) by (metis length_map)
  have data: "\<exists>d. map_of (lq_data q) g = Some d \<and> lfg_data_of q g = d" if "g \<in> set gs" for g
    using assms(7) [OF that] by (auto simp: lfg_data_of_def)
  show ?thesis unfolding playable_def pr q
  proof (intro conjI ballI impI)
    show "om_inv (lpr_players ?p)" by (rule inv)
    show "count_role PLAYER_ROLE_TANK rs = 1" "count_role PLAYER_ROLE_HEALER rs = 1" "count_role PLAYER_ROLE_DAMAGE rs = 3"
      using five_roles [OF assms(3,5)] by blast+
    show "length (lpr_players ?p) = 5" by (rule len)
    show "lfg_get_state st g = LFG_STATE_QUEUED" if "g \<in> set gs" for g
      using assms(2) that by (simp add: all_queued_def list_all_iff)
    show "\<exists>d. map_of (lq_data q) g = Some d \<and> lpr_dungeon ?p \<in> set (ld_dungeons d) \<and> fst ` set (ld_roles d) \<subseteq> fst ` set (lpr_players ?p)" if g: "g \<in> set gs" for g
      using data [OF g] assms(8) [OF g dn] assms(9) g unfolding sp by auto
    show "\<exists>g \<in> set gs. \<exists>d r. map_of (lq_data q) g = Some d \<and> (fst x, r) \<in> set (ld_roles d) \<and> role_choice r (snd x)" if "x \<in> set rs" for x
      using legal_entry [OF assms(3) that] data assms(9) by fastforce
    show "\<not> has_ignore env x y" if "1 < length gs" "x \<in> fst ` set (lpr_players ?p)" "y \<in> fst ` set (lpr_players ?p)" "x \<noteq> y" for x y
      using assms(10) [OF that(1)] that(2-4) unfolding sp by blast
    show "length (filter (is_lfg_group_guid st) gs) \<le> 1" by (rule assms(11))
  qed
qed

lemma check_set_searches:
  assumes ok: "queue_ok q" and ne: "gs \<noteq> []"
  shows "searches env st q (snd (check_set env st key gs q))"
proof (cases "lfg_census_of st q gs \<lparr>cn_players = 0, cn_lfg = 0, cn_group = 0, cn_groups = []\<rparr>")
  case (Inl g)
  then show ?thesis using searches_quiet [OF remove_from_queue_kept] by (simp add: check_set_def)
next
  case (Inr c)
  show ?thesis
  proof (cases "length gs = 1 \<and> cn_players c \<noteq> of_nat 5 \<or> 1 < cn_lfg c \<or> of_nat 5 < cn_players c")
    case True
    then show ?thesis using Inr fits_kept by (auto simp: check_set_def)
  next
    case False
    then have "unat (cn_players c) \<le> 5" "unat (cn_lfg c) \<le> 1" by (auto simp: word_less_nat_alt not_less)
    note n = census_counts [OF ok Inr this]
    let ?L = "concat (map (\<lambda>g. ld_roles (lfg_data_of q g)) gs)"
    have n2: "unat (cn_players c) = length ?L" using n(2) by simp
    have some: "map_of (lq_data q) g \<noteq> None" if "g \<in> set gs" for g using n(1) that by blast
    have lfg: "length (filter (is_lfg_group_guid st) gs) \<le> 1" using n(3) \<open>unat (cn_lfg c) \<le> 1\<close> by simp
    have five: "length ?L = 5" if "cn_players c = of_nat 5" using n2 that by simp
    show ?thesis
    proof (cases "1 < length gs")
      case many: True
      let ?O = "joined_offers env q gs" and ?D = "common_dungeons q gs"
      show ?thesis
      proof (cases "cn_players c - of_nat (length ?O) = 0 \<and> fst (check_group_roles ?O) \<and> ?D \<noteq> []")
        case True
        have e: "check_set env st key gs q = propose env st key gs c (snd (check_group_roles ?O)) ?D q"
          using Inr False many True by (simp add: check_set_def Let_def)
        show ?thesis unfolding e
        proof (rule propose_searches)
          assume c5: "cn_players c = of_nat 5" and aq: "all_queued st gs"
          have jl: "length ?O \<le> length ?L"
          proof -
            have "length (fold (join_offer env) qs m) \<le> length m + length qs \<and> om_inv (fold (join_offer env) qs m)" if "om_inv m" for qs m
              using that
            proof (induction qs arbitrary: m)
              case (Cons a qs)
              have "om_inv (join_offer env a m)" "length (join_offer env a m) \<le> Suc (length m)"
                using Cons.prems by (auto simp: join_offer_def length_om_set)
              then show ?case using Cons.IH [of "join_offer env a m"] by simp
            qed simp
            from this [of "[]" ?L] show ?thesis by (simp add: joined_offers_def)
          qed
          have "of_nat (length ?O) = (of_nat 5 :: u8)" using True c5 by simp
          then have "unat (of_nat (length ?O) :: u8) = 5" by simp
          then have o5: "length ?O = 5" using jl five [OF c5] by (simp add: unat_of_nat)
          have j: "om_inv ?O \<and> set ?O = set ?L \<and> (\<forall>x \<in> fst ` set ?L. \<forall>y \<in> fst ` set ?L. x \<noteq> y \<longrightarrow> \<not> has_ignore env x y)"
            using join_all [of "[]" ?L env] o5 five [OF c5] by (simp add: joined_offers_def)
          have ne_o: "?O \<noteq> []" using o5 by auto
          have l: "legal_roles ?O (snd (check_group_roles ?O))"
            using searched_roles [of ?O] j o5 ne_o True by (simp add: searched_def)
          show "playable env st q (make_proposal env st gs c (snd (check_group_roles ?O)) ?D)"
          proof (rule make_proposal_playable [OF ne aq l _ o5 _ some])
            show "x \<in> set (ld_dungeons (lfg_data_of q g))" if "g \<in> set gs" "x \<in> set ?D" for g x
              using common_dungeons_mem [OF ne] that by blast
          qed (use j True lfg in auto)
        qed
      next
        case no: False
        then show ?thesis using Inr False many by (auto simp: check_set_def Let_def)
      qed
    next
      case one: False
      then have l1: "length gs = 1" using ne by (cases gs) auto
      then obtain g where g: "gs = [g]" by (cases gs) auto
      let ?d = "lfg_data_of q g"
      have e: "check_set env st key gs q = propose env st key gs c (snd (check_group_roles (ld_roles ?d))) (ld_dungeons ?d) q"
        using Inr False one g by (simp add: check_set_def Let_def)
      have w: "can_wait (ld_dungeons ?d) (ld_roles ?d)" using ok some [of g] g by (auto simp: queue_ok_def lfg_data_of_def)
      show ?thesis unfolding e
      proof (rule propose_searches)
        assume c5: "cn_players c = of_nat 5" and aq: "all_queued st gs"
        have r5: "length (ld_roles ?d) = 5" using five [OF c5] g by simp
        have l: "legal_roles (ld_roles ?d) (snd (check_group_roles (ld_roles ?d)))"
          using searched_roles [of "ld_roles ?d"] w r5 by (auto simp: searched_def can_wait_def)
        show "playable env st q (make_proposal env st gs c (snd (check_group_roles (ld_roles ?d))) (ld_dungeons ?d))"
          by (rule make_proposal_playable [OF ne aq l _ r5 _ some]) (use w g lfg l1 in \<open>auto simp: can_wait_def\<close>)
      qed
    qed
  qed
qed

lemma check_compatibility_searches: "queue_ok q \<Longrightarrow> searches env st q (snd (check_compatibility env st gs q))"
proof (induction gs)
  case (Cons g gs)
  obtain c q1 where r: "check_compatibility env st gs q = (c, q1)" by (cases "check_compatibility env st gs q")
  have s: "searches env st q q1" using Cons r by simp
  have "searches env st q1 (snd (check_set env st (concatenate_guids (g # gs)) (g # gs) q1))"
    by (rule check_set_searches) (use kept_ok s Cons.prems in \<open>auto simp: searches_def\<close>)
  then have "searches env st q (snd (check_set env st (concatenate_guids (g # gs)) (g # gs) q1))" by (rule searches_trans [OF s])
  then show ?case using s r check_set_searches [OF Cons.prems, of "g # gs" env st "concatenate_guids (g # gs)"] by (auto simp: Let_def)
qed simp

lemma find_new_groups_searches:
  "queue_ok q \<Longrightarrow> searches env st q (snd (snd (find_new_groups n env st check others q)))"
  "queue_ok q \<Longrightarrow> searches env st q (snd (snd (try_others n env st c check others q)))"
proof (induction n env st check others q and n env st c check others q rule: find_new_groups_try_others.induct)
  case (1 n env st check others q)
  define cq where "cq = (if get_compatibles (concatenate_guids check) q = LFG_COMPATIBILITY_PENDING then check_compatibility env st check q
      else (get_compatibles (concatenate_guids check) q, q))"
  have pair: "(fst cq, snd cq) = (if get_compatibles (concatenate_guids check) q = LFG_COMPATIBILITY_PENDING
      then check_compatibility env st check q else (get_compatibles (concatenate_guids check) q, q))" by (simp add: cq_def)
  have s: "searches env st q (snd cq)" using check_compatibility_searches [OF 1(2)] by (simp add: cq_def)
  then have ok: "queue_ok (snd cq)" using kept_ok 1(2) by (auto simp: searches_def)
  have e: "find_new_groups n env st check others q =
      (if fst cq = LFG_COMPATIBLES_BAD_STATES \<and> all_queued st check
       then (LFG_COMPATIBLES_MATCH, others, set_compatibles (concatenate_guids check) LFG_COMPATIBLES_MATCH (snd cq))
       else if fst cq \<noteq> LFG_COMPATIBLES_WITH_LESS_PLAYERS then (fst cq, others, snd cq)
       else try_others n env st (fst cq) check others (snd cq))"
    by (simp add: cq_def Let_def split_beta)
  have "searches env st (snd cq) (snd (snd (try_others n env st (fst cq) check others (snd cq))))"
    if "\<not> (fst cq = LFG_COMPATIBLES_BAD_STATES \<and> all_queued st check)" "\<not> fst cq \<noteq> LFG_COMPATIBLES_WITH_LESS_PLAYERS"
    by (rule 1(1) [OF refl refl refl pair that ok])
  then show ?case unfolding e using s searches_trans [OF s] by simp
next
  case (4 n env st c check g others q)
  obtain sub rest q1 where r: "find_new_groups n env st (check @ [g]) others q = (sub, rest, q1)" by (cases "find_new_groups n env st (check @ [g]) others q") auto
  have s: "searches env st q q1" using 4(1) [OF 4(3)] r by simp
  then have "queue_ok q1" using kept_ok 4(3) by (auto simp: searches_def)
  then have "searches env st q1 (snd (snd (try_others n env st c check rest q1)))" if "sub \<noteq> LFG_COMPATIBLES_MATCH"
    using 4(2) [OF r [symmetric] refl refl that] by blast
  then show ?case using s searches_trans [OF s] r by simp
qed simp_all

lemma search_order:
  assumes "queue_ok q"
  shows "searches env st q (snd (find_round env st (k, q)))" "lq_new q \<noteq> [] \<Longrightarrow> length (lq_new (snd (find_round env st (k, q)))) < length (lq_new q)"
proof -
  have "searches env st q (snd (find_round env st (k, q))) \<and> (lq_new q \<noteq> [] \<longrightarrow> length (lq_new (snd (find_round env st (k, q)))) < length (lq_new q))"
  proof (cases "lq_new q")
    case (Cons g gs)
    let ?q = "lfg_remove_from_new g q"
    obtain c rest q1 where r: "find_new_groups (length (lq_current ?q)) env st [g] (lq_current ?q) ?q = (c, rest, q1)" by (cases "find_new_groups (length (lq_current ?q)) env st [g] (lq_current ?q) ?q") auto
    have ok: "queue_ok ?q" using assms by (simp add: queue_ok_def lfg_remove_from_new_def)
    have s: "searches env st ?q q1" using find_new_groups_searches(1) [OF ok] r by (metis snd_conv)
    have s0: "searches env st q ?q"
      by (rule searches_quiet [where P = "\<lambda>h. h \<noteq> g"]) (simp_all add: lfg_remove_from_new_def entries_kept_def)
    have s2: "searches env st q q1" by (rule searches_trans [OF s0 s])
    have e: "find_round env st (k, q) = (if c = LFG_COMPATIBLES_MATCH then (k + 1, q1) else (k, lfg_add_to_current g q1))"
      using Cons r by (simp add: find_round_def Let_def)
    have a: "searches env st q (lfg_add_to_current g q1)"
      using s2 by (auto simp: searches_def lfg_add_to_current_def entries_kept_def)
    obtain P where "lq_new q1 = filter P (lq_new ?q)" using s by (auto simp: searches_def)
    then have "lq_new q1 = filter (\<lambda>h. P h \<and> h \<noteq> g) gs" using Cons by (simp add: lfg_remove_from_new_def conj_commute)
    then have "length (lq_new q1) \<le> length gs" by simp
    then have "length (lq_new q1) < length (lq_new q)" using Cons by simp
    then show ?thesis unfolding e using s2 a by (simp add: lfg_add_to_current_def)
  qed (simp add: find_round_def)
  then show "searches env st q (snd (find_round env st (k, q)))" "lq_new q \<noteq> [] \<Longrightarrow> length (lq_new (snd (find_round env st (k, q)))) < length (lq_new q)"
    by blast+
qed

lemma rounds_search:
  assumes "queue_ok q"
  shows "searches env st q (snd ((find_round env st ^^ n) (k, q)))
    \<and> length (lq_new (snd ((find_round env st ^^ n) (k, q)))) \<le> length (lq_new q) - n"
proof (induction n)
  case (Suc n)
  obtain j q1 where r: "(find_round env st ^^ n) (k, q) = (j, q1)" by (cases "(find_round env st ^^ n) (k, q)")
  have s: "searches env st q q1" "length (lq_new q1) \<le> length (lq_new q) - n" using Suc.IH r by simp_all
  have ok: "queue_ok q1" using kept_ok s(1) assms by (auto simp: searches_def)
  note o = search_order [OF ok, of env st j]
  have "length (lq_new (snd (find_round env st (j, q1)))) \<le> length (lq_new q) - Suc n"
  proof (cases "lq_new q1 = []")
    case True
    then show ?thesis by (simp add: find_round_def)
  next
    case False
    then show ?thesis using o(2) s(2) by simp
  qed
  then show ?case using searches_trans [OF s(1) o(1)] r by simp
qed simp

lemma playable_found:
  assumes "queue_ok q" "p \<in> set (lq_made (snd (find_groups env st q)))" "p \<notin> set (lq_made q)"
  shows "playable env st q p"
proof -
  have "searches env st q (snd (find_groups env st q))" using rounds_search [OF assms(1)] by (simp add: find_groups_def)
  then show ?thesis using assms(2,3) by (auto simp: searches_def)
qed

lemma search_done:
  assumes "queue_ok q"
  shows "lq_new (snd (find_groups env st q)) = [] \<and> entries_kept q (snd (find_groups env st q))"
  using rounds_search [OF assms, of env st "length (lq_new q)" 0] by (simp add: find_groups_def searches_def)

section \<open>Removing an entry\<close>

lemma sublist_middle: "sublist ys (xs @ ys @ zs)"
  by (auto simp: sublist_def)

lemma mentions_member: "g \<in> set gs \<Longrightarrow> mentions (concatenate_guids gs) g"
proof -
  assume "g \<in> set gs"
  then have "g \<in> set (fold os_ins gs [])" by simp
  then obtain a bs where ab: "fold os_ins gs [] = a # bs" "g = a \<or> g \<in> set bs" by (cases "fold os_ins gs []") auto
  show ?thesis
  proof (cases "g = a")
    case True
    then show ?thesis using ab(1) sublist_middle [of "guid_text g" "[]"] by (simp add: mentions_def concatenate_guids_def)
  next
    case False
    then obtain us vs where "bs = us @ g # vs" using ab(2) by (auto simp: in_set_conv_decomp)
    then have "concatenate_guids gs = (guid_text a @ concat (map (\<lambda>h. CHR ''|'' # guid_text h) us) @ [CHR ''|'']) @ guid_text g
        @ concat (map (\<lambda>h. CHR ''|'' # guid_text h) vs)"
      using ab(1) by (simp add: concatenate_guids_def)
    then show ?thesis unfolding mentions_def by (metis sublist_middle)
  qed
qed

lemma count_best [simp]: "ld_best (count_needed r d) = ld_best d" "ld_best (fold (\<lambda>p. count_needed (snd p)) rs d) = ld_best d"
proof -
  show e: "ld_best (count_needed r d) = ld_best d" for r d by (simp add: count_needed_def)
  show "ld_best (fold (\<lambda>p. count_needed (snd p)) rs d) = ld_best d" by (induction rs arbitrary: d) (simp_all add: e)
qed

lemma update_best_text: "ld_best (update_best_compatible k rs d) \<in> {k, ld_best d}"
  by (simp add: update_best_compatible_def Let_def)

lemma find_best_text: "ld_best (find_best_compatible q g d) \<in> insert (ld_best d) (fst ` set (lq_compat q))"
proof -
  have "ld_best (fold (\<lambda>(k, x) d. if C k x then update_best_compatible k (lc_roles x) d else d) xs d) \<in> insert (ld_best d) (fst ` set xs)" for C xs d
  proof (induction xs arbitrary: d)
    case (Cons p xs)
    define e where "e = (if C (fst p) (snd p) then update_best_compatible (fst p) (lc_roles (snd p)) d else d)"
    have "ld_best e \<in> {fst p, ld_best d}" using update_best_text [of "fst p" "lc_roles (snd p)" d] by (auto simp: e_def)
    then have "insert (ld_best e) (fst ` set xs) \<subseteq> insert (ld_best d) (fst ` set (p # xs))" by auto
    moreover have "fold (\<lambda>(k, x) d. if C k x then update_best_compatible k (lc_roles x) d else d) (p # xs) d
        = fold (\<lambda>(k, x) d. if C k x then update_best_compatible k (lc_roles x) d else d) xs e" by (simp add: split_beta e_def)
    ultimately show ?case using Cons.IH [of e] by (simp only: subsetD)
  qed simp
  from this [of "\<lambda>k x. lc_compat x = LFG_COMPATIBLES_WITH_LESS_PLAYERS \<and> mentions k g" "lq_compat q" d]
  show ?thesis by (simp add: find_best_compatible_def)
qed

lemma not_mentions_Nil [simp]: "\<not> mentions [] g"
  by (simp add: mentions_def guid_text_def)

text \<open>
  C17: \<open>RemoveFromQueue\<close> leaves no trace of an entry: it is in neither list and has no data, and no set that
  the queue remembers as fitting or not, or as the best one of somebody else, contains it.
\<close>
theorem removed_without_trace:
  "let q' = lfg_remove_from_queue g q
   in g \<notin> set (lq_new q') \<and> g \<notin> set (lq_current q') \<and> map_of (lq_data q') g = None
    \<and> {gs. map_of (lq_compat q') (concatenate_guids gs) \<noteq> None \<and> g \<in> set gs} = {}
    \<and> {gs. (\<exists>h d. map_of (lq_data q') h = Some d \<and> ld_best d = concatenate_guids gs) \<and> g \<in> set gs} = {}"
proof -
  let ?q1 = "remove_from_compatibles g (lfg_remove_from_current g (lfg_remove_from_new g q))"
  let ?q' = "lfg_remove_from_queue g q"
  have c: "\<not> mentions k g" if "k \<in> fst ` set (lq_compat ?q1)" for k
    using that by (auto simp: remove_from_compatibles_def)
  have e: "lq_compat ?q' = lq_compat ?q1" "lq_data ?q' = om_del g (map (forget_best ?q1 g) (lq_data ?q1))"
    by (simp_all add: lfg_remove_from_queue_def Let_def)
  have b: "\<not> mentions (ld_best d) g" if x: "map_of (lq_data ?q') h = Some d" for h d
  proof -
    obtain d0 where d: "d = snd (forget_best ?q1 g (h, d0))" "h \<noteq> g" using x unfolding e by (auto simp: forget_best_find split: if_splits)
    show ?thesis
    proof (cases "mentions (ld_best d0) g")
      case True
      then have "ld_best d \<in> insert [] (fst ` set (lq_compat ?q1))"
        using d find_best_text [of ?q1 h "d0\<lparr>ld_best := []\<rparr>"] by (simp add: forget_best_def)
      then show ?thesis using c by auto
    qed (use d in \<open>simp add: forget_best_def\<close>)
  qed
  have k: "\<not> (map_of (lq_compat ?q') (concatenate_guids gs) \<noteq> None \<and> g \<in> set gs)" for gs
    using c mentions_member [of g gs] unfolding e by (auto simp: map_of_eq_None_iff)
  have "g \<notin> set (lq_new ?q')" "g \<notin> set (lq_current ?q')" "map_of (lq_data ?q') g = None"
    by (simp_all add: lfg_remove_from_queue_def Let_def remove_from_compatibles_def lfg_remove_from_current_def lfg_remove_from_new_def)
  then show ?thesis using k b mentions_member by (fastforce simp: Let_def)
qed

section \<open>Runs\<close>

text \<open>
  \<open>JoinLfg\<close> and \<open>UpdateRoleCheck\<close> add entries, \<open>RemoveProposal\<close> puts them back in front, and the update of the world
  searches. An entry that is added has a dungeon, one to five players, and roles for a group that were
  checked.
\<close>

datatype lfg_event = QAdd guid int "u32 list" lfg_roles | QAgain guid | QRemove guid | QFind lfg_env lfg_stores | QTimers int

fun lfg_step :: "lfg_event \<Rightarrow> lfg_queue \<Rightarrow> lfg_queue" where
  "lfg_step (QAdd g t ds rs) q = lfg_add_queue_data g t ds rs q"
| "lfg_step (QAgain g) q = lfg_add_to_queue g True q"
| "lfg_step (QRemove g) q = lfg_remove_from_queue g q"
| "lfg_step (QFind env st) q = snd (find_groups env st q)"
| "lfg_step (QTimers now) q = update_queue_timers now q"

fun lfg_running :: "lfg_event \<Rightarrow> lfg_queue \<Rightarrow> bool" where
  "lfg_running (QAdd g t ds rs) q \<longleftrightarrow> can_wait ds rs"
| "lfg_running _ q \<longleftrightarrow> True"

lemma add_to_queue_data [simp]: "lq_data (lfg_add_to_queue g b q) = lq_data q"
  by (simp add: lfg_add_to_queue_def lfg_add_to_front_def lfg_add_to_new_def split: option.split)

lemma update_timer_kept: "entries_kept q (update_timer now g q)"
  by (auto simp: update_timer_def Let_def entries_kept_def lfg_data_of_def)

lemma update_timers_kept: "entries_kept q (update_queue_timers now q)"
proof -
  have "entries_kept q (fold (update_timer now) gs q)" for gs
    by (induction gs arbitrary: q) (auto intro: entries_kept_trans [OF update_timer_kept])
  then show ?thesis by (simp add: update_queue_timers_def)
qed

lemma lfg_step_ok:
  assumes "queue_ok q" "lfg_running e q"
  shows "queue_ok (lfg_step e q)"
proof (cases e)
  case (QAdd g t ds rs)
  then show ?thesis using assms by (auto simp: lfg_add_queue_data_def queue_ok_def new_lfg_data_def)
next
  case (QAgain g)
  then show ?thesis using assms(1) by (simp add: queue_ok_def)
next
  case (QRemove g)
  then show ?thesis using kept_ok [OF remove_from_queue_kept(1) assms(1)] by simp
next
  case (QFind env st)
  then show ?thesis using kept_ok [OF _ assms(1)] search_done [OF assms(1), of env st] by simp
next
  case (QTimers now)
  then show ?thesis using kept_ok [OF update_timers_kept assms(1)] by simp
qed

interpretation lfg: guarded_system lfg_step lfg_running queue_ok
  by unfold_locales (rule lfg_step_ok)

lemma lfg_run_ok: "ok_run lfg_step lfg_running es new_lfg_queue \<Longrightarrow> queue_ok (fold lfg_step es new_lfg_queue)"
  by (rule lfg.ok_run_inv [rotated]) (simp_all add: queue_ok_def new_lfg_queue_def)

text \<open>
  C5: Whatever \<open>FindGroups\<close> proposes, in every run in which entries are added as the code that joins checks them
  (\<open>can_wait\<close>: a dungeon, one to five players, roles of a group that fit), can be played: a proposal has five players, one tank, one
  healer and three damage dealers, each in a role he offered; the entries it takes are queued, bring all
  their players, and asked for the dungeon that is proposed; at most one of them is a group of the
  dungeon finder, and if several are joined no two of the players ignore each other.
\<close>
theorem proposals_are_playable:
  assumes "ok_run lfg_step lfg_running es new_lfg_queue" "q = fold lfg_step es new_lfg_queue"
    and "p \<in> set (lq_made (snd (find_groups env st q)))" "p \<notin> set (lq_made q)"
  shows "playable env st q p"
  by (rule playable_found [OF _ assms(3,4)]) (simp add: assms(2) lfg_run_ok [OF assms(1)])

text \<open>
  C19: \<open>FindGroups\<close> ends in every run: after as many rounds as there were new entries none is left, and what
  waits in the queue has the dungeons, the roles and the time it had.
\<close>
theorem find_groups_ends:
  assumes "ok_run lfg_step lfg_running es new_lfg_queue" "q = fold lfg_step es new_lfg_queue"
  shows "lq_new (snd (find_groups env st q)) = [] \<and> entries_kept q (snd (find_groups env st q))"
  by (rule search_done) (simp add: assms(2) lfg_run_ok [OF assms(1)])

section \<open>Two queues\<close>

text \<open>A group of five; and six players of whom the first ignores the second, the last one comes when the others wait.\<close>

definition qx_env :: lfg_env where
  "qx_env = \<lparr>le_connected = (\<lambda>_. True), le_ignored = (\<lambda>g h. g = 1 \<and> h = 2), le_now = 100, le_urand = (\<lambda>n. n), le_coin = (\<lambda>_. False)\<rparr>"

definition qx_stores :: lfg_stores where
  "qx_stores = \<lparr>ls_players = map (\<lambda>g. (g, lfg_player_set_state LFG_STATE_QUEUED new_lfg_player)) [1, 2, 3, 4, 5, 6], ls_groups = []\<rparr>"

definition qx_run :: "lfg_event list" where
  "qx_run = [QAdd 1 0 [206] [(1, 9), (2, 2), (3, 12), (4, 8), (5, 8)]]"

definition qx_queue :: lfg_queue where
  "qx_queue = fold lfg_step qx_run new_lfg_queue"

lemma qx_facts:
  "ok_run lfg_step lfg_running qx_run new_lfg_queue" "lq_made qx_queue = []"
  "map (\<lambda>p. (lpr_queues p, proposal_roles p)) (lq_made (snd (find_groups qx_env qx_stores qx_queue))) = [([1], [(1, 9), (2, 2), (3, 4), (4, 8), (5, 8)])]"
  by code_simp+

lemma proposals_are_playable_witness:
  "lq_made (snd (find_groups qx_env qx_stores qx_queue)) \<noteq> [] \<and> playable qx_env qx_stores qx_queue (hd (lq_made (snd (find_groups qx_env qx_stores qx_queue))))"
proof -
  have ne: "lq_made (snd (find_groups qx_env qx_stores qx_queue)) \<noteq> []" using qx_facts(3) by auto
  show ?thesis using proposals_are_playable [OF qx_facts(1) qx_queue_def hd_in_set [OF ne]] ne by (simp add: qx_facts(2))
qed

lemma find_groups_ends_witness:
  "lq_new (snd (find_groups qx_env qx_stores qx_queue)) = []"
  using find_groups_ends [OF qx_facts(1) qx_queue_def] by blast

section \<open>The search in one pass\<close>

text \<open>
  One try of \<open>FindNewGroups\<close>: what is cached about the set or else its check, a match that had to wait
  for the states of its players included.
\<close>

definition try_set :: "lfg_env \<Rightarrow> lfg_stores \<Rightarrow> guid list \<Rightarrow> lfg_queue \<Rightarrow> lfg_compat \<times> lfg_queue" where
  "try_set env st check q =
     (let (c, q1) = (if get_compatibles (concatenate_guids check) q = LFG_COMPATIBILITY_PENDING then check_compatibility env st check q
                     else (get_compatibles (concatenate_guids check) q, q))
      in if c = LFG_COMPATIBLES_BAD_STATES \<and> all_queued st check
         then (LFG_COMPATIBLES_MATCH, set_compatibles (concatenate_guids check) LFG_COMPATIBLES_MATCH q1) else (c, q1))"

text \<open>
  The pass: each of the others is tried once, with those that were taken before it; who fits is taken and never
  given back, who does not fit is passed over for good.
\<close>

fun one_pass :: "lfg_env \<Rightarrow> lfg_stores \<Rightarrow> guid list \<Rightarrow> guid list \<Rightarrow> lfg_queue \<Rightarrow> lfg_compat \<times> guid list \<times> lfg_queue" where
  "one_pass env st taken [] q = (LFG_COMPATIBLES_WITH_LESS_PLAYERS, [], q)"
| "one_pass env st taken (g # others) q =
     (let (c, q1) = try_set env st (taken @ [g]) q
      in if c = LFG_COMPATIBLES_MATCH then (LFG_COMPATIBLES_MATCH, others, q1)
         else one_pass env st (if c = LFG_COMPATIBLES_WITH_LESS_PLAYERS then taken @ [g] else taken) others q1)"

lemma one_pass_end:
  "one_pass env st taken others q = (c, rest, q1) \<Longrightarrow>
   c = LFG_COMPATIBLES_MATCH \<or> c = LFG_COMPATIBLES_WITH_LESS_PLAYERS \<and> rest = []"
proof (induction others arbitrary: taken q)
  case (Cons g others)
  obtain c1 q2 where t: "try_set env st (taken @ [g]) q = (c1, q2)" by (cases "try_set env st (taken @ [g]) q") auto
  show ?case using Cons.prems Cons.IH by (auto simp: t split: if_splits)
qed simp

lemma find_new_try:
  "find_new_groups n env st check others q =
     (let (c, q1) = try_set env st check q
      in if c = LFG_COMPATIBLES_WITH_LESS_PLAYERS then try_others n env st c check others q1 else (c, others, q1))"
  by (auto simp: try_set_def Let_def split: prod.split)

lemma try_others_pass:
  "length others \<le> n \<Longrightarrow> try_others n env st LFG_COMPATIBLES_WITH_LESS_PLAYERS check others q = one_pass env st check others q"
proof (induction n arbitrary: check others q)
  case (Suc n)
  show ?case
  proof (cases others)
    case (Cons g rest)
    obtain c q1 where t: "try_set env st (check @ [g]) q = (c, q1)" by (cases "try_set env st (check @ [g]) q") auto
    have IH: "try_others n env st LFG_COMPATIBLES_WITH_LESS_PLAYERS k rest x = one_pass env st k rest x" for k x
      using Suc by (simp add: Cons)
    obtain c2 rest2 q2 where p: "one_pass env st (check @ [g]) rest q1 = (c2, rest2, q2)"
      by (cases "one_pass env st (check @ [g]) rest q1") auto
    note e = one_pass_end [OF p]
    have z: "try_others n env st LFG_COMPATIBLES_WITH_LESS_PLAYERS check [] q2 = (LFG_COMPATIBLES_WITH_LESS_PLAYERS, [], q2)"
      by (cases n) simp_all
    show ?thesis
    proof (cases "c = LFG_COMPATIBLES_WITH_LESS_PLAYERS")
      case True
      have "find_new_groups n env st (check @ [g]) rest q = (c2, rest2, q2)"
        unfolding find_new_try by (simp add: t True IH p)
      then show ?thesis using e z by (auto simp: Cons t True p simp del: find_new_groups.simps)
    next
      case False
      have "find_new_groups n env st (check @ [g]) rest q = (c, rest, q1)"
        unfolding find_new_try by (simp add: t False)
      then show ?thesis using IH False by (auto simp: Cons t simp del: find_new_groups.simps)
    qed
  qed simp
qed simp

text \<open>
  C18: The search is one pass. \<open>FindNewGroups\<close> is written as a search of all sets, but the calls share the
  list of the others by reference, so that it is a single pass over it: each entry that waits is looked at once, together with
  all who were taken before; who fits is taken and never given back, so no set without him is tried any
  more. With the number of the others as fuel, or more, it is this pass; a new entry is so matched or waits
  after at most one try for each entry of the queue.
\<close>
theorem search_is_one_pass:
  "find_new_groups (length others + k) env st check others q =
     (let (c, q1) = try_set env st check q
      in if c = LFG_COMPATIBLES_WITH_LESS_PLAYERS then one_pass env st check others q1 else (c, others, q1))
   \<and> find_round env st (n, q) =
     (case lq_new q of
        [] \<Rightarrow> (n, q)
      | g # _ \<Rightarrow>
          (let q0 = lfg_remove_from_new g q;
               (c, q1) = try_set env st [g] q0;
               (c2, _, q2) = (if c = LFG_COMPATIBLES_WITH_LESS_PLAYERS then one_pass env st [g] (lq_current q0) q1 else (c, [], q1))
           in if c2 = LFG_COMPATIBLES_MATCH then (n + 1, q2) else (n, lfg_add_to_current g q2)))"
proof -
  have f: "find_new_groups (length xs + m) env st gs xs x =
     (let (c, q1) = try_set env st gs x
      in if c = LFG_COMPATIBLES_WITH_LESS_PLAYERS then one_pass env st gs xs q1 else (c, xs, q1))" for m gs xs x
    unfolding find_new_try by (auto simp: try_others_pass split: prod.split)
  show ?thesis
    using f [of others k check q] f [of _ 0]
    by (simp add: find_round_def Let_def del: find_new_groups.simps split: list.split prod.split)
qed

text \<open>
  So a full group can wait unseen: 2, 3, 4, 5 and 6 would make one, but 6 is tried with 1 first, who fits and ignores 2.
\<close>

definition qy_run :: "lfg_event list" where
  "qy_run = concat (map (\<lambda>(g, r). [QAdd g 0 [206] [(g, r)], QFind qx_env qx_stores]) [(1, 8), (2, 2), (3, 4), (4, 8), (5, 8)]) @ [QAdd 6 0 [206] [(6, 8)]]"

lemma search_misses_a_match:
  "ok_run lfg_step lfg_running qy_run new_lfg_queue"
  "let q = fold lfg_step qy_run new_lfg_queue; q' = snd (find_groups qx_env qx_stores q) in
     lq_made q' = [] \<and> lq_current q' = [1, 2, 3, 4, 5, 6]
     \<and> fst (check_compatibility qx_env qx_stores [6, 2, 3, 4, 5] q) = LFG_COMPATIBLES_MATCH"
  by code_simp+

end
