(* ===== verification/Spec2Isabelle.thy ===== *)
theory Spec2Isabelle
  imports Prelude WideString ByteBuffer Guid EventMap Rbac Reputation Channel ChannelMgr InstanceScript AuctionSystem PartySystem LfgMatches
begin

text \<open>
  A model of parts of the TrinityCore world server for World of Warcraft 3.3.5, from the C++
  sources under \<open>src/\<close>. The server keeps the state of a game world in memory, changes it when
  clients send requests and when time passes, answers with packets, and writes rows to a MySQL
  database. The components modelled are the ones whose logic does not rest on client data, maps
  or float geometry. Each is one theory; the definitions come in the order of the code and carry
  its names, and what a function sends or writes is a list of outputs in its state.

  \<^bold>\<open>The theories\<close>

  \<^item> \<open>Prelude\<close>: ordered maps, sets and multimaps as sorted lists (\<open>std::map\<close>, \<open>std::set\<close>,
    \<open>std::multimap\<close>), results with errors, decimal numbers, runs of operations. The locale
    \<open>std_map\<close> holds the laws of a map and is interpreted on the sorted lists; \<open>transition_system\<close>
    and \<open>guarded_system\<close> prove an invariant of every run from one step, and are interpreted on the
    step function of each component that has one.
  \<^item> \<open>ByteBuffer\<close>: the packet buffer (\<open>ByteBuffer.h\<close>, \<open>WorldPacket.h\<close>, \<open>ByteConverter.h\<close>,
    \<open>MessageBuffer.h\<close>). A buffer is its bytes and two positions; a read that is out of range is an
    error value. The locale \<open>codec\<close> is the contract of a pair of stream operators; it is
    interpreted for the integers, strings and packed GUIDs, and \<open>codec_pair\<close> composes two, from
    which the round trips of containers follow.
  \<^item> \<open>WideString\<close>: names as wide strings and the rules they are compared by (\<open>Util.h\<close>, \<open>Util.cpp\<close>).
  \<^item> \<open>Guid\<close>: object identifiers and their generators (\<open>ObjectGuid.h\<close>, \<open>ObjectGuid.cpp\<close>) as 64-bit
    words: fields, type tests, text, packed form, uniqueness of generated counters.
  \<^item> \<open>EventMap\<close>: the event scheduler of the scripts (\<open>EventMap.h\<close>, \<open>EventMap.cpp\<close>): a multimap from
    times to packed events in 32-bit arithmetic. The script loop over \<open>ExecuteEvent\<close> is a function
    with a measure, the number of scheduled events.
  \<^item> \<open>Rbac\<close>: roles and permissions (\<open>RBAC.cpp\<close>, \<open>RBAC.h\<close>, parts of \<open>AccountMgr.cpp\<close> and
    \<open>WorldSession.cpp\<close>). The expansion of linked permissions terminates on every table, also on
    cyclic ones (its measure is the permissions not yet reached), and equals the closure of the
    links; the permission check is characterised over every run of loads and commands.
  \<^item> \<open>Reputation\<close>: standings, ranks, flags and the rows they are saved in (\<open>ReputationMgr.cpp\<close>,
    \<open>ReputationMgr.h\<close>) in \<open>int32\<close> arithmetic, with the counters the manager caches.
  \<^item> \<open>Channel\<close>: one chat channel (\<open>Channel.cpp\<close>, \<open>Channel.h\<close>): members and their flags, owner,
    bans, every command and every notice, the row of the channel.
  \<^item> \<open>ChannelMgr\<close>: the channels of the two sides, the requests of the clients and the lists of
    channels the players keep (\<open>ChannelMgr.cpp\<close>, \<open>ChannelHandler.cpp\<close>, parts of \<open>Player.cpp\<close>,
    \<open>ChatHandler.cpp\<close>). A world is both managers and all lists; each request is one
    step, and all steps refine the abstract relation "player is member of channel": \<open>members_after\<close> is
    that relation after a request, exactly. The runs leave out the requests to kick or ban oneself, which
    put an owner back as a member that nothing removes (\<open>self_kick_ghost\<close>), and players keep their side.
  \<^item> \<open>InstanceScript\<close>: encounters, doors and minions of an instance and the text they are saved in
    (\<open>InstanceScript.cpp\<close>, \<open>InstanceScript.h\<close>). The loops over 8-bit numbers get fuel 255, more than
    the eight rounds they can take, which is proved. The runs leave out that the first state of an
    undecided encounter is in progress, done or failed: the code takes it as loaded and
    neither moves doors nor saves.

  \<^item> \<open>Float32\<close>: single precision arithmetic as rationals rounded to 24 bits, ties to even, with an
    unbounded exponent, and \<open>CalculatePct\<close> (\<open>Util.h\<close>); bounds of its rounding errors.
  \<^item> \<open>AuctionHouse\<close>: the three auction houses and the requests of the clients (\<open>AuctionHouseMgr.cpp\<close>,
    \<open>AuctionHouseMgr.h\<close>, \<open>AuctionHouseHandler.cpp\<close>). A pointer to an auction is its house and id; reading
    one that was deleted, or failing an assertion, is \<open>None\<close>.
  \<^item> \<open>AuctionBook\<close>, \<open>AuctionRuns\<close>, \<open>AuctionSystem\<close>: the invariant of the book (auctions, items, bids,
    pending deposits) and the sum of all money, kept by each operation, then by every run. A run
    is guarded: \<open>ah_running\<close> says that the server does not abort, the counter of auctions
    does not overflow, the rate of the cut is at most one and the houses take at most 90 percent
    (\<open>cut_above_bid\<close> shows a larger rate), \<open>ah_quiet\<close> also that deposits are charged before an auction ends, without which
    the code pays out money nobody paid (\<open>cancelled_deposit_dangles\<close> shows the dangling pointer).

  \<^item> \<open>PartyStore\<close>: the storage numbers of groups (\<open>GroupMgr.cpp\<close>): a vector of pointers and the
    next number; a write out of the vector is \<open>None\<close>. It refines the set of used numbers.
  \<^item> \<open>Party\<close>, \<open>PartyRoll\<close>, \<open>PartyRules\<close>, \<open>PartyWorld\<close>: groups, raids and the raids of battlegrounds
    (\<open>Group.cpp\<close>, \<open>Group.h\<close>, \<open>GroupMgr.cpp\<close>), what \<open>Player.cpp\<close>, \<open>Battleground.cpp\<close> and \<open>LogoutPlayer\<close> do with
    them, and the requests (\<open>GroupHandler.cpp\<close>, two of \<open>MiscHandler.cpp\<close>). Pointers to groups are
    numbers into a store; the use of a deleted group, an index out of range and a failed assertion
    set the flag \<open>pw_fault\<close>. The references of players and groups to each other are kept at both
    ends, as in the code. What the maps, the spells and the dungeon finder know is in \<open>party_env\<close>.
  \<^item> \<open>PartyView\<close>, \<open>PartyLinks\<close>, \<open>PartyInv\<close>: the part of that state that the invariant is about, the
    invariant itself, and which operations change what of it.
  \<^item> \<open>PartyJoin\<close>, \<open>PartyLeave\<close>, \<open>PartyMake\<close>, \<open>PartyAsk\<close>, \<open>PartyMove\<close>, \<open>PartyEnter\<close>, \<open>PartyLoot\<close>: joining, leaving,
    forming, the requests, logging in and out, and loot keep the invariant.
  \<^item> \<open>PartyRolls\<close>: how the rolls of a loot end and who wins them.
  \<^item> \<open>PartySystem\<close>: runs of requests, logins, battlegrounds and loot. They are guarded by
    \<open>party_running\<close>: the counters of groups do not reach their end, a player logs in once, with the
    group the database has for him and in the battleground he was in; who joins a battleground has
    no open invite; no leader accepts the invite of his own group (after either the groups go wrong,
    which \<open>battleground_join_dangles\<close> and \<open>own_invite_breaks_links\<close> show); the items of rolls have
    templates, fit the 8-bit slots, and a new loot is not one an old roll still names.

  \<^item> \<open>LfgRoles\<close>: \<open>CheckGroupRoles\<close> of the dungeon finder (\<open>LFGMgr.cpp\<close>), a search with backtracking that
    changes the roles in place; its fuel is the sum of the role bits, of which each call takes one away.
  \<^item> \<open>LfgQueue\<close>, \<open>LfgMatches\<close>: the queue of the dungeon finder (\<open>LFGQueue.cpp\<close>, \<open>LFGPlayerData.cpp\<close>,
    \<open>LFGGroupData.cpp\<close>): what waits, the cache of compatible sets under texts of GUIDs, the search and its
    proposals; what it proposes can be played, it ends, and it is a single pass over the queue, which
    can miss a group. The fuel of the search is the length of the list it works off.

  \<open>Guid\<close> uses \<open>ByteBuffer\<close> for the packed form; \<open>AuctionHouse\<close> uses \<open>Guid\<close>, \<open>WideString\<close> and \<open>Float32\<close>; \<open>Channel\<close> and \<open>InstanceScript\<close> name players and
  objects by \<open>Guid\<close>; \<open>ChannelMgr\<close> composes \<open>Channel\<close> with the players' lists, which \<open>Channel\<close>
  changes by callback; groups compose \<open>Party\<close>, its rolls, rules and requests in \<open>PartyWorld\<close>; the
  dungeon finder knows groups by \<open>Guid\<close> only; \<open>Rbac\<close> and \<open>Reputation\<close> stand alone.

  \<^bold>\<open>What the lemmas show\<close>

  For every component an invariant of its state holds in every run of its operations; the main
  operations are characterised on every branch, errors included; loops are shown to end; what is
  written to the database or the network is read back (packed GUIDs, containers, the rows of
  reputations and channels, the text of an instance). A run starts from the state the
  constructor makes. The records that stand for players, creatures, configuration and client data
  are arguments: the code only reads them. The hypotheses that describe them are named
  definitions, and each property with hypotheses has a witness on a concrete state.

  \<^bold>\<open>Bounds\<close>

  Integers are words of the width of the code, or \<open>int\<close> with the wrap written out where the code
  mixes signs; sizes of containers are natural numbers, except where \<open>size_t\<close> wraps in a test.
  Allocation never fails, times and random numbers are arguments, and other threads do not
  interleave with a request.

  \<^bold>\<open>Not modelled\<close>

  Spells, units, movement, maps and battlegrounds (some hundred thousand lines over float geometry and
  client data), the content scripts, database and network access, the tools and the vendored
  libraries. \<open>UpdateLocalChannels\<close>, the overrides of the virtual methods of an instance script, and
  logging are left out of the components above. Of groups, these are: the binds to instances and
  \<open>ResetInstances\<close>, the checks of the battleground queue, the statistics of members and minimap pings,
  the start of groups by the dungeon finder, and the generation of loot. Of the dungeon finder, \<open>LFGMgr\<close> itself is
  left out but for the roles and the states of players and groups.
\<close>

end
